(* ===== verification/GoPrelude.thy ===== *)
theory GoPrelude
  imports Complex_Main "HOL-Library.Signed_Division" "HOL-Library.Multiset"
begin

section \<open>Prelude: Go integers, lists and maps\<close>

text \<open>
  What every component shares: Go's fixed-width signed integers as \<open>int\<close> with the
  wrap-around written out (\<open>wrap64\<close>, \<open>wrap32\<close>), its truncating division (\<open>sdiv\<close> and \<open>smod\<close>
  of the library), its run-time panics as values, and the collections of facts the component
  proofs use.
\<close>

named_theorems go_arith \<open>facts about wrap-around and truncating division\<close>
named_theorems go_frame \<open>fields and components an operation leaves unchanged\<close>

subsection \<open>Panics\<close>

datatype go_panic = IndexOutOfRange | NilDereference | IntegerDivideByZero | ExplicitPanic string

subsection \<open>Machine integers\<close>

definition in64 :: "int \<Rightarrow> bool" where
  "in64 x \<longleftrightarrow> - 9223372036854775808 \<le> x \<and> x \<le> 9223372036854775807"

definition wrap64 :: "int \<Rightarrow> int" where
  "wrap64 x = (x + 9223372036854775808) mod 18446744073709551616 - 9223372036854775808"

definition wrap32 :: "int \<Rightarrow> int" where
  "wrap32 x = (x + 2147483648) mod 4294967296 - 2147483648"

lemma in64_wrap64 [simp, intro]: "in64 (wrap64 x)"
proof -
  have "0 \<le> (x + 9223372036854775808) mod 18446744073709551616"
    and "(x + 9223372036854775808) mod 18446744073709551616 < 18446744073709551616"
    by simp_all
  then show ?thesis unfolding in64_def wrap64_def by linarith
qed

lemma wrap64_id [simp, go_arith]: "in64 x \<Longrightarrow> wrap64 x = x"
  unfolding in64_def wrap64_def by (subst mod_pos_pos_trivial) auto

lemma wrap64_idem [simp]: "wrap64 (wrap64 x) = wrap64 x"
  by simp

lemma wrap64_add: "wrap64 (wrap64 x + y) = wrap64 (x + y)"
proof -
  let ?M = "18446744073709551616 :: int"
  have "((x + 9223372036854775808) mod ?M + y) mod ?M = (x + 9223372036854775808 + y) mod ?M"
    by (rule mod_add_left_eq)
  then show ?thesis unfolding wrap64_def by (simp add: algebra_simps)
qed

lemma wrap64_eq_iff: "wrap64 x = x \<longleftrightarrow> in64 x"
  using in64_wrap64 [of x] by (metis wrap64_id)

lemma wrap32_id [simp, go_arith]:
  "- 2147483648 \<le> x \<Longrightarrow> x \<le> 2147483647 \<Longrightarrow> wrap32 x = x"
  unfolding wrap32_def by (subst mod_pos_pos_trivial) auto

lemma wrap64_cong_add: "\<exists>k. wrap64 x = x + k * 18446744073709551616"
proof -
  let ?M = "18446744073709551616 :: int"
  have "(x + 9223372036854775808) mod ?M = (x + 9223372036854775808) - (x + 9223372036854775808) div ?M * ?M"
    by (simp add: minus_div_mult_eq_mod)
  then have "wrap64 x = x + (- ((x + 9223372036854775808) div ?M)) * ?M"
    unfolding wrap64_def by simp
  then show ?thesis by blast
qed

lemma in64_uminus: "in64 x \<Longrightarrow> x \<noteq> - 9223372036854775808 \<Longrightarrow> in64 (- x)"
  by (auto simp: in64_def)

lemma in64_0 [simp]: "in64 0" and in64_1 [simp]: "in64 1"
  by (simp_all add: in64_def)

subsection \<open>Truncating division\<close>

lemma sdiv_nonneg [go_arith]: "0 \<le> a \<Longrightarrow> 0 < b \<Longrightarrow> a sdiv b = a div b" for a b :: int
  by (simp add: signed_divide_int_def sgn_if)

lemma smod_nonneg [go_arith]: "0 \<le> a \<Longrightarrow> 0 < b \<Longrightarrow> a smod b = a mod b" for a b :: int
  by (auto simp: signed_modulo_int_def sgn_if)

lemma abs_sdiv: "\<bar>a sdiv b\<bar> = \<bar>a\<bar> div \<bar>b\<bar>" for a b :: int
proof -
  have "0 \<le> \<bar>a\<bar> div \<bar>b\<bar>" by (cases "b = 0") (simp_all add: pos_imp_zdiv_nonneg_iff)
  then show ?thesis by (auto simp: signed_divide_int_def abs_mult sgn_if)
qed

lemma abs_smod: "\<bar>a smod b\<bar> = \<bar>a\<bar> mod \<bar>b\<bar>" for a b :: int
  by (cases "b = 0") (auto simp: signed_modulo_int_def abs_mult sgn_if)

lemma smod_eq_0_iff: "a smod b = 0 \<longleftrightarrow> b dvd a" for a b :: int
  by (metis abs_dvd_iff abs_eq_0_iff abs_smod dvd_abs_iff dvd_eq_mod_eq_0)

lemma smod_1 [simp]: "a smod 1 = 0" for a :: int
  by (simp add: smod_eq_0_iff)

lemma sdiv_mult_exact: "b dvd a \<Longrightarrow> a sdiv b * b = a" for a b :: int
  using sdiv_mult_smod_eq [of a b] smod_eq_0_iff [of a b] by simp

lemma sgn_smod:
  fixes a b :: int
  assumes "0 < b" "a smod b \<noteq> 0"
  shows "sgn (a smod b) = sgn a"
proof -
  let ?m = "\<bar>a\<bar> mod \<bar>b\<bar>"
  have eq: "a smod b = sgn a * ?m" by (simp only: signed_modulo_int_def)
  then have "?m \<noteq> 0" using assms by auto
  moreover have "0 \<le> ?m" using assms by simp
  ultimately have "sgn ?m = 1" by (simp only: sgn_if) simp
  then show ?thesis by (simp only: eq sgn_mult sgn_sgn mult_1_right)
qed

lemma sdiv_sgn_nonneg: "0 < b \<Longrightarrow> 0 \<le> a sdiv b * sgn a" for a b :: int
proof -
  assume "0 < b"
  then have "0 \<le> \<bar>a\<bar> div \<bar>b\<bar>" by (simp add: pos_imp_zdiv_nonneg_iff)
  moreover have "a sdiv b * sgn a = (sgn a * sgn a) * (sgn b * (\<bar>a\<bar> div \<bar>b\<bar>))"
    by (simp only: signed_divide_int_def ac_simps)
  ultimately show ?thesis using \<open>0 < b\<close> by simp
qed

lemma sdiv_smod_sign_cases:
  fixes a b :: int
  assumes "0 < b"
  obtains (zero) "a smod b = 0" | (pos) "0 < a smod b" "0 \<le> a sdiv b"
    | (neg) "a smod b < 0" "a sdiv b \<le> 0"
proof (cases "a smod b = 0")
  case False
  with assms have s: "sgn (a smod b) = sgn a" by (rule sgn_smod)
  with False have "a \<noteq> 0" by auto
  then consider "0 < a" | "a < 0" by linarith
  then show thesis
  proof cases
    case 1
    with s sdiv_sgn_nonneg [OF assms, of a] show thesis by (intro pos) (simp_all add: sgn_1_pos)
  next
    case 2
    with s sdiv_sgn_nonneg [OF assms, of a] show thesis by (intro neg) (simp_all add: sgn_1_neg)
  qed
qed (rule zero)

lemma in64_sdiv: "in64 a \<Longrightarrow> 1 < \<bar>b\<bar> \<Longrightarrow> in64 (a sdiv b)"
proof -
  assume a: "in64 a" and b: "1 < \<bar>b\<bar>"
  have "\<bar>a sdiv b\<bar> \<le> \<bar>a\<bar> div 2"
    using b by (simp add: abs_sdiv zdiv_mono2)
  with a show ?thesis by (auto simp: in64_def)
qed

subsection \<open>Sign and comparison results\<close>

text \<open>Go's three-way comparisons return -1, 0 or 1.\<close>

definition cmp3 :: "'a::linorder \<Rightarrow> 'a \<Rightarrow> int" where
  "cmp3 a b = (if a = b then 0 else if a < b then -1 else 1)"

lemma cmp3_self [simp]: "cmp3 a a = 0"
  by (simp add: cmp3_def)

lemma cmp3_eq_0 [simp]: "cmp3 a b = 0 \<longleftrightarrow> a = b"
  by (auto simp: cmp3_def)

lemma cmp3_less [simp]: "cmp3 a b < 0 \<longleftrightarrow> a < b"
  by (auto simp: cmp3_def)

lemma cmp3_greater [simp]: "0 < cmp3 a b \<longleftrightarrow> b < a"
  by (auto simp: cmp3_def)

lemma cmp3_mult: "0 < c \<Longrightarrow> cmp3 (a * c) (b * c) = cmp3 a b" for a b c :: rat
  by (simp add: cmp3_def)

lemma cmp3_of_int: "cmp3 (of_int a :: rat) (of_int b) = cmp3 a b"
  by (simp add: cmp3_def)

end
