(* ===== verification/QuantityMath.thy ===== *)
theory QuantityMath
  imports GoPrelude
begin

section \<open>Checked int64 arithmetic of package resource\<close>

text \<open>
  \<open>math.go\<close> and \<open>scale_int.go\<close> of \<open>apimachinery/pkg/api/resource\<close>: additions and
  multiplications that report overflow, scaling by powers of ten, and the removal of factors.
  A Go pair \<open>(int64, bool)\<close> is an \<open>int \<times> bool\<close>; every arithmetic result goes through
  \<open>wrap64\<close>.
\<close>

definition mostNegative :: int where
  "mostNegative = - 9223372036854775808"

definition mostPositive :: int where
  "mostPositive = 9223372036854775807"

definition int64Add :: "int \<Rightarrow> int \<Rightarrow> int \<times> bool" where
  "int64Add a b =
     (let c = wrap64 (a + b) in
      if 0 < a \<and> 0 < b then (if c < 0 then (0, False) else (c, True))
      else if a < 0 \<and> b < 0 then
        (if 0 < c then (0, False)
         else if a = mostNegative \<and> b = mostNegative then (0, False) else (c, True))
      else (c, True))"

definition int64Multiply :: "int \<Rightarrow> int \<Rightarrow> int \<times> bool" where
  "int64Multiply a b =
     (if a = 0 \<or> b = 0 \<or> a = 1 \<or> b = 1 then (wrap64 (a * b), True)
      else if a = mostNegative \<or> b = mostNegative then (0, False)
      else let c = wrap64 (a * b) in (c, wrap64 (c sdiv b) = a))"

definition int64MultiplyScale :: "int \<Rightarrow> int \<Rightarrow> int \<times> bool" where
  "int64MultiplyScale a b =
     (if a = 0 \<or> a = 1 then (wrap64 (a * b), True)
      else if a = mostNegative \<and> b \<noteq> 1 then (0, False)
      else let c = wrap64 (a * b) in (c, wrap64 (c sdiv b) = a))"

definition int64MultiplyScale10 :: "int \<Rightarrow> int \<times> bool" where
  "int64MultiplyScale10 a =
     (if a = 0 \<or> a = 1 then (wrap64 (a * 10), True)
      else if a = mostNegative then (0, False)
      else let c = wrap64 (a * 10) in (c, c sdiv 10 = a))"

definition int64MultiplyScale100 :: "int \<Rightarrow> int \<times> bool" where
  "int64MultiplyScale100 a =
     (if a = 0 \<or> a = 1 then (wrap64 (a * 100), True)
      else if a = mostNegative then (0, False)
      else let c = wrap64 (a * 100) in (c, c sdiv 100 = a))"

definition int64MultiplyScale1000 :: "int \<Rightarrow> int \<times> bool" where
  "int64MultiplyScale1000 a =
     (if a = 0 \<or> a = 1 then (wrap64 (a * 1000), True)
      else if a = mostNegative then (0, False)
      else let c = wrap64 (a * 1000) in (c, c sdiv 1000 = a))"

text \<open>The loop of the default case of \<open>positiveScaleInt64\<close>; a negative scale runs it no times.\<close>

fun scale_loop :: "nat \<Rightarrow> int \<Rightarrow> int \<times> bool" where
  "scale_loop 0 v = (v, True)"
| "scale_loop (Suc k) v =
     (case int64MultiplyScale v 10 of (v', ok) \<Rightarrow> if ok then scale_loop k v' else (0, False))"

definition positiveScaleInt64 :: "int \<Rightarrow> int \<Rightarrow> int \<times> bool" where
  "positiveScaleInt64 base scale =
     (if scale = 0 then (base, True)
      else if scale = 1 then int64MultiplyScale10 base
      else if scale = 2 then int64MultiplyScale100 base
      else if scale = 3 then int64MultiplyScale1000 base
      else if scale = 6 then int64MultiplyScale base 1000000
      else if scale = 9 then int64MultiplyScale base 1000000000
      else scale_loop (nat scale) base)"

fun neg_scale_loop :: "nat \<Rightarrow> int \<Rightarrow> int \<Rightarrow> bool \<Rightarrow> int \<times> bool" where
  "neg_scale_loop 0 base v fraction =
     (if fraction then (if 0 < base then wrap64 (v + 1) else wrap64 (v - 1), False)
      else (v, True))"
| "neg_scale_loop (Suc k) base v fraction =
     (let fraction' = (fraction \<or> v smod 10 \<noteq> 0); v' = v sdiv 10 in
      if v' = 0 then (if fraction' then (if 0 < base then 1 else -1, False) else (0, True))
      else neg_scale_loop k base v' fraction')"

definition negativeScaleInt64 :: "int \<Rightarrow> int \<Rightarrow> int \<times> bool" where
  "negativeScaleInt64 base scale =
     (if scale = 0 then (base, True) else neg_scale_loop (nat scale) base base False)"

definition pow10Int64 :: "int \<Rightarrow> int" where
  "pow10Int64 b = (if 0 \<le> b \<and> b \<le> 18 then 10 ^ nat b else 0)"

definition divideByScaleInt64 :: "int \<Rightarrow> int \<Rightarrow> int \<times> int \<times> bool" where
  "divideByScaleInt64 base scale =
     (if scale = 0 then (base, 0, True)
      else if 18 \<le> scale then (0, base, False)
      else (base sdiv pow10Int64 scale, base smod pow10Int64 scale, True))"

text \<open>
  The three loops of \<open>removeInt64Factors\<close> differ only in the constant.  Its callers pass 10 and
  1024; the guard \<open>1 < base\<close> makes the recursion total (with base 1 the Go loop would not end).
\<close>

function remove_factor_loop :: "int \<Rightarrow> int \<Rightarrow> nat \<Rightarrow> int \<times> nat" where
  "remove_factor_loop base result tms =
     (if 1 < base \<and> base \<le> result \<and> result smod base = 0
      then remove_factor_loop base (result sdiv base) (Suc tms) else (result, tms))"
  by pat_completeness auto
termination
proof (relation "measure (\<lambda>(base, result, tms). nat result)", simp)
  fix base result :: int and tms :: nat
  assume a: "1 < base \<and> base \<le> result \<and> result smod base = 0"
  then have "result sdiv base = result div base" by (simp add: sdiv_nonneg)
  moreover have "result div base < result" using a by (simp add: int_div_less_self)
  ultimately show "((base, result sdiv base, Suc tms), base, result, tms)
      \<in> measure (\<lambda>(base, result, tms). nat result)"
    using a by simp
qed

declare remove_factor_loop.simps [simp del]

definition removeInt64Factors :: "int \<Rightarrow> int \<Rightarrow> int \<times> nat" where
  "removeInt64Factors value base =
     (let negative = value < 0;
          start = (if negative then wrap64 (- value) else value)
      in case remove_factor_loop base start 0 of
           (result, tms) \<Rightarrow> (if negative then wrap64 (- result) else result, tms))"

text \<open>On \<open>big.Int\<close>: Euclidean division, so \<open>div\<close> and \<open>mod\<close> for the positive factors used.\<close>

function removeBigIntFactors_loop :: "int \<Rightarrow> int \<Rightarrow> nat \<Rightarrow> int \<times> nat" where
  "removeBigIntFactors_loop d factor tms =
     (if 1 < factor \<and> d \<noteq> 0 \<and> d mod factor = 0
      then removeBigIntFactors_loop (d div factor) factor (Suc tms) else (d, tms))"
  by pat_completeness auto
termination
proof (relation "measure (\<lambda>(d, factor, tms). nat \<bar>d\<bar>)", simp)
  fix d factor :: int and tms :: nat
  assume a: "1 < factor \<and> d \<noteq> 0 \<and> d mod factor = 0"
  then obtain k where k: "d = factor * k" by (metis dvd_def mod_0_imp_dvd)
  with a have "k \<noteq> 0" by auto
  then have "\<bar>k\<bar> < \<bar>factor * k\<bar>" using a by (simp add: abs_mult)
  with a k show "((d div factor, factor, Suc tms), d, factor, tms)
      \<in> measure (\<lambda>(d, factor, tms). nat \<bar>d\<bar>)"
    by simp
qed

declare removeBigIntFactors_loop.simps [simp del]

definition removeBigIntFactors :: "int \<Rightarrow> int \<Rightarrow> int \<times> nat" where
  "removeBigIntFactors d factor = removeBigIntFactors_loop d factor 0"

text \<open>
  \<open>int64(math.Pow10(n))\<close>: exact up to \<open>n = 18\<close>; beyond, the conversion of an out-of-range
  float gives the most negative int64 on amd64, the platform the cluster runs on.
\<close>

definition pow10_float_int64 :: "nat \<Rightarrow> int" where
  "pow10_float_int64 n = (if n \<le> 18 then 10 ^ n else mostNegative)"

definition scaledValue :: "int \<Rightarrow> int \<Rightarrow> int \<Rightarrow> int" where
  "scaledValue unscaled scale newScale =
     (let dif = scale - newScale in
      if dif = 0 then wrap64 unscaled
      else if dif < 0 then wrap64 (wrap64 unscaled * pow10_float_int64 (nat (- dif)))
      else if unscaled < mostPositive \<and> dif < 19 then
        (let divide = pow10_float_int64 (nat dif);
             result = wrap64 unscaled sdiv divide;
             md = wrap64 unscaled smod divide
         in if md \<noteq> 0 then wrap64 (result + 1) else result)
      else
        (let divisor = 10 ^ nat dif;
             result = unscaled div divisor;
             remainder = unscaled mod divisor
         in if remainder \<noteq> 0 then wrap64 (wrap64 result + 1) else wrap64 result))"

subsection \<open>Addition and multiplication report exactly the overflows\<close>

lemma wrap64_over: "9223372036854775807 < x \<Longrightarrow> x \<le> 18446744073709551614 \<Longrightarrow> wrap64 x = x - 18446744073709551616"
proof -
  assume a: "9223372036854775807 < x" "x \<le> 18446744073709551614"
  then have "(x + 9223372036854775808) mod 18446744073709551616 = x + 9223372036854775808 - 18446744073709551616"
    by (subst mod_pos_geq) auto
  then show ?thesis by (simp add: wrap64_def)
qed

lemma wrap64_under: "x < - 9223372036854775808 \<Longrightarrow> - 18446744073709551616 \<le> x \<Longrightarrow> wrap64 x = x + 18446744073709551616"
proof -
  assume a: "x < - 9223372036854775808" "- 18446744073709551616 \<le> x"
  then have "(x + 9223372036854775808) mod 18446744073709551616
      = (x + 9223372036854775808 + 18446744073709551616) mod 18446744073709551616"
    by (simp only: mod_add_self2)
  also have "\<dots> = x + 9223372036854775808 + 18446744073709551616"
    using a by (subst mod_pos_pos_trivial) auto
  finally show ?thesis by (simp add: wrap64_def)
qed

lemma int64Add_spec:
  assumes "in64 a" "in64 b"
  shows "int64Add a b = (if in64 (a + b) then (a + b, True) else (0, False))"
proof (cases "in64 (a + b)")
  case True
  then show ?thesis using assms
    by (auto simp: int64Add_def Let_def in64_def mostNegative_def)
next
  case False
  then consider "9223372036854775807 < a + b" | "a + b < - 9223372036854775808"
    by (force simp: in64_def)
  then show ?thesis
  proof cases
    case 1
    then have "wrap64 (a + b) = a + b - 18446744073709551616" "0 < a" "0 < b"
      using assms by (auto simp: in64_def intro!: wrap64_over)
    then show ?thesis using assms False by (auto simp: int64Add_def in64_def)
  next
    case 2
    then have "wrap64 (a + b) = a + b + 18446744073709551616" "a < 0" "b < 0"
      using assms by (auto simp: in64_def intro!: wrap64_under)
    then show ?thesis using assms False
      by (auto simp: int64Add_def in64_def mostNegative_def Let_def)
  qed
qed

text \<open>The check \<open>c / b == a\<close> detects every wrap-around.\<close>

lemma mult_check:
  assumes a: "in64 a" and b: "in64 b" and b0: "b \<noteq> 0"
    and ok: "wrap64 (a * b) sdiv b = a"
  shows "in64 (a * b)"
proof -
  obtain k where k: "wrap64 (a * b) = a * b + k * 18446744073709551616"
    using wrap64_cong_add by blast
  have "a * b + wrap64 (a * b) smod b = wrap64 (a * b)"
    using sdiv_mult_smod_eq [of "wrap64 (a * b)" b] ok by simp
  then have "\<bar>k * 18446744073709551616\<bar> = \<bar>wrap64 (a * b) smod b\<bar>" using k by simp
  also have "\<dots> < \<bar>b\<bar>" using b0 by (simp add: abs_smod)
  also have "\<dots> < 18446744073709551616" using b by (auto simp: in64_def)
  finally have "k = 0" by (simp add: abs_mult)
  with k show ?thesis by (metis add.right_neutral in64_wrap64 mult_zero_left)
qed

lemma sdiv_mult_cancel: "b \<noteq> 0 \<Longrightarrow> (a * b) sdiv b = a" for a b :: int
  using smod_eq_0_iff [of "a * b" b] sdiv_mult_smod_eq [of "a * b" b] by simp

lemma mult_check_iff:
  assumes "in64 a" "in64 b" "b \<noteq> 0"
  shows "wrap64 (a * b) sdiv b = a \<longleftrightarrow> in64 (a * b)"
  using mult_check [OF assms] sdiv_mult_cancel [OF assms(3), of a] by auto

lemma int64Multiply_ok_iff:
  assumes "in64 a" "in64 b"
  shows "snd (int64Multiply a b) \<longleftrightarrow> in64 (a * b)"
proof (cases "a = 0 \<or> b = 0 \<or> a = 1 \<or> b = 1")
  case True
  then show ?thesis using assms by (auto simp: int64Multiply_def)
next
  case edge: False
  show ?thesis
  proof (cases "a = mostNegative \<or> b = mostNegative")
    case True
    have "\<not> in64 (a * b)"
    proof
      assume i: "in64 (a * b)"
      have "2 \<le> \<bar>a\<bar> \<or> a = -1" "2 \<le> \<bar>b\<bar> \<or> b = -1" using edge by auto
      with True i show False
        by (auto simp: mostNegative_def in64_def abs_if split: if_splits)
    qed
    with True edge show ?thesis by (simp add: int64Multiply_def)
  next
    case False
    then have "in64 (wrap64 (a * b) sdiv b)"
    proof (cases "b = -1")
      case True
      with False assms show ?thesis
        using in64_wrap64 [of "- a"] in64_uminus [of a] in64_uminus [of "- a"]
        by (auto simp: mostNegative_def in64_def)
    next
      case nb: False
      with edge have "1 < \<bar>b\<bar>" by auto
      then show ?thesis by (rule in64_sdiv [OF in64_wrap64])
    qed
    with False edge show ?thesis
      using mult_check_iff [OF assms] by (simp add: int64Multiply_def Let_def)
  qed
qed

lemma int64Multiply_value:
  assumes "in64 a" "in64 b" "snd (int64Multiply a b)"
  shows "fst (int64Multiply a b) = a * b"
  using assms int64Multiply_ok_iff [OF assms(1,2)]
  by (auto simp: int64Multiply_def Let_def split: if_splits)

text \<open>One specification serves the scaled multiplications, whose constant is above one.\<close>

definition scaled_exact :: "int \<Rightarrow> int \<Rightarrow> int \<times> bool \<Rightarrow> bool" where
  "scaled_exact a b r \<longleftrightarrow> (snd r \<longleftrightarrow> in64 (a * b)) \<and> (snd r \<longrightarrow> fst r = a * b)"

lemma int64MultiplyScale_exact:
  assumes a: "in64 a" and b: "in64 b" "1 < b"
  shows "scaled_exact a b (int64MultiplyScale a b)"
proof -
  have "in64 (wrap64 (a * b) sdiv b)"
    using b by (intro in64_sdiv) auto
  moreover have "\<not> in64 (mostNegative * b)" using b by (simp add: mostNegative_def in64_def)
  ultimately show ?thesis
    using mult_check_iff [OF a b(1)] b
    by (auto simp: scaled_exact_def int64MultiplyScale_def Let_def)
qed

lemma int64MultiplyScale10_exact: "in64 a \<Longrightarrow> scaled_exact a 10 (int64MultiplyScale10 a)"
  and int64MultiplyScale100_exact: "in64 a \<Longrightarrow> scaled_exact a 100 (int64MultiplyScale100 a)"
  and int64MultiplyScale1000_exact: "in64 a \<Longrightarrow> scaled_exact a 1000 (int64MultiplyScale1000 a)"
proof -
  assume a: "in64 a"
  have eq: "wrap64 (wrap64 x sdiv 10) = wrap64 x sdiv 10"
    "wrap64 (wrap64 x sdiv 100) = wrap64 x sdiv 100"
    "wrap64 (wrap64 x sdiv 1000) = wrap64 x sdiv 1000" for x
    by (rule wrap64_id, rule in64_sdiv, simp_all)+
  have "int64MultiplyScale10 a = int64MultiplyScale a 10"
    "int64MultiplyScale100 a = int64MultiplyScale a 100"
    "int64MultiplyScale1000 a = int64MultiplyScale a 1000"
    using eq by (simp_all add: int64MultiplyScale10_def int64MultiplyScale100_def
      int64MultiplyScale1000_def int64MultiplyScale_def Let_def)
  with a show "scaled_exact a 10 (int64MultiplyScale10 a)"
    "scaled_exact a 100 (int64MultiplyScale100 a)" "scaled_exact a 1000 (int64MultiplyScale1000 a)"
    by (simp_all add: int64MultiplyScale_exact in64_def)
qed

subsection \<open>Scaling up and down by powers of ten\<close>

lemma in64_mult_le: "in64 (a * (b * c)) \<Longrightarrow> 0 < c \<Longrightarrow> in64 (a * b)"
proof -
  assume i: "in64 (a * (b * c))" and c: "0 < c"
  have "\<bar>a * b\<bar> \<le> \<bar>a * b\<bar> * c" using c by (simp add: mult_le_cancel_left1)
  also have "\<dots> = \<bar>a * (b * c)\<bar>" using c by (simp add: abs_mult)
  finally have le: "\<bar>a * b\<bar> \<le> \<bar>a * (b * c)\<bar>" .
  show ?thesis
  proof (cases "0 \<le> a * b")
    case True
    then have "0 \<le> a * (b * c)" using c by (metis mult.assoc mult_nonneg_nonneg less_imp_le)
    with le True i show ?thesis by (auto simp: in64_def)
  next
    case False
    then have "a * (b * c) < 0" using c by (metis mult.assoc mult_neg_pos not_le)
    with le False i show ?thesis by (auto simp: in64_def)
  qed
qed

lemma scale_loop_exact: "in64 v \<Longrightarrow> scaled_exact v (10 ^ k) (scale_loop k v)"
proof (induction k arbitrary: v)
  case (Suc k)
  have s: "scaled_exact v 10 (int64MultiplyScale v 10)"
    using Suc.prems by (simp add: int64MultiplyScale_exact in64_def)
  show ?case
  proof (cases "int64MultiplyScale v 10")
    case (Pair v' ok)
    show ?thesis
    proof (cases ok)
      case True
      then have "v' = v * 10" "in64 v'" using s Pair by (auto simp: scaled_exact_def)
      with Suc.IH [of v'] Pair True show ?thesis
        by (simp add: scaled_exact_def mult.assoc)
    next
      case False
      then have "\<not> in64 (v * 10)" using s Pair by (simp add: scaled_exact_def)
      then have "\<not> in64 (v * (10 * 10 ^ k))" using in64_mult_le [of v 10 "10 ^ k"] by auto
      with Pair False show ?thesis by (simp add: scaled_exact_def)
    qed
  qed
qed (simp add: scaled_exact_def)

lemma positiveScaleInt64_exact:
  assumes "in64 base" "0 \<le> scale"
  shows "scaled_exact base (10 ^ nat scale) (positiveScaleInt64 base scale)"
proof -
  consider "scale = 0" | "scale = 1" | "scale = 2" | "scale = 3" | "scale = 6" | "scale = 9"
    | "scale \<notin> {0, 1, 2, 3, 6, 9}" by blast
  then show ?thesis
  proof cases
    case 1 then show ?thesis using assms by (simp add: positiveScaleInt64_def scaled_exact_def)
  next
    case 2 then show ?thesis
      using int64MultiplyScale10_exact [OF assms(1)] by (simp add: positiveScaleInt64_def)
  next
    case 3 then show ?thesis
      using int64MultiplyScale100_exact [OF assms(1)] by (simp add: positiveScaleInt64_def)
  next
    case 4 then show ?thesis
      using int64MultiplyScale1000_exact [OF assms(1)] by (simp add: positiveScaleInt64_def)
  next
    case 5 then show ?thesis
      using int64MultiplyScale_exact [OF assms(1), of 1000000]
      by (simp add: positiveScaleInt64_def in64_def)
  next
    case 6 then show ?thesis
      using int64MultiplyScale_exact [OF assms(1), of 1000000000]
      by (simp add: positiveScaleInt64_def in64_def)
  next
    case 7 then show ?thesis
      using scale_loop_exact [OF assms(1)] by (simp add: positiveScaleInt64_def)
  qed
qed

text \<open>The specification of \<open>negativeScaleInt64\<close>: the quotient rounded away from zero.\<close>

definition round_away :: "int \<Rightarrow> int \<Rightarrow> int" where
  "round_away a b = a sdiv b + (if b dvd a then 0 else sgn a)"

lemma sdiv_sdiv_pos: "0 < b \<Longrightarrow> 0 < c \<Longrightarrow> (a sdiv b) sdiv c = a sdiv (b * c)" for a b c :: int
proof -
  assume b: "0 < b" and c: "0 < c"
  have pos: "(x sdiv b) sdiv c = x sdiv (b * c)" if "0 \<le> x" for x :: int
  proof -
    have "0 \<le> x div b" using that b by (simp add: pos_imp_zdiv_nonneg_iff)
    then show ?thesis
      using that b c by (simp add: sdiv_nonneg div_mult2_eq' zdiv_zmult2_eq)
  qed
  show ?thesis
  proof (cases "0 \<le> a")
    case False
    with pos [of "- a"] show ?thesis by simp
  qed (rule pos)
qed

lemma dvd_step:
  fixes a b c :: int
  assumes "0 < b" "0 < c"
  shows "(b * c) dvd a \<longleftrightarrow> b dvd a \<and> (a sdiv b) smod c = 0"
proof
  assume d: "(b * c) dvd a"
  then have b: "b dvd a" by (rule dvd_mult_left)
  then have "a sdiv b * b = a" by (rule sdiv_mult_exact)
  with d assms have "c dvd a sdiv b"
    by (metis dvd_times_right_cancel_iff less_irrefl mult.commute)
  with b show "b dvd a \<and> (a sdiv b) smod c = 0" by (simp add: smod_eq_0_iff)
next
  assume a: "b dvd a \<and> (a sdiv b) smod c = 0"
  then have "c dvd a sdiv b" by (simp add: smod_eq_0_iff)
  then have "b * c dvd b * (a sdiv b)" by (rule mult_dvd_mono [OF dvd_refl])
  with a show "(b * c) dvd a" by (metis sdiv_mult_exact mult.commute)
qed

lemma sdiv_eq_0_le: "0 < b \<Longrightarrow> 0 < c \<Longrightarrow> a sdiv b = 0 \<Longrightarrow> a sdiv (b * c) = 0" for a b c :: int
  using sdiv_sdiv_pos [of b c a] by simp

lemma round_away_small: "0 < b \<Longrightarrow> a sdiv b = 0 \<Longrightarrow> round_away a b = sgn a" for a b :: int
proof -
  assume b: "0 < b" and z: "a sdiv b = 0"
  show ?thesis
  proof (cases "b dvd a")
    case True
    then have "a = 0" using sdiv_mult_exact [OF True] z by simp
    then show ?thesis by (simp add: round_away_def)
  qed (use z in \<open>simp add: round_away_def\<close>)
qed

lemma in64_round: "in64 base \<Longrightarrow> 1 < b \<Longrightarrow> in64 (base sdiv b + sgn base)"
proof -
  assume a: "in64 base" and b: "1 < b"
  have "\<bar>base sdiv b\<bar> \<le> \<bar>base\<bar> div 2" using b by (simp add: abs_sdiv zdiv_mono2)
  with a show ?thesis by (auto simp: in64_def sgn_if)
qed

lemma neg_scale_loop_spec:
  assumes "in64 base"
  shows "0 < i \<longrightarrow> base sdiv 10 ^ i \<noteq> 0 \<Longrightarrow>
    neg_scale_loop k base (base sdiv 10 ^ i) (\<not> 10 ^ i dvd base)
      = (round_away base (10 ^ (i + k)), 10 ^ (i + k) dvd base)"
proof (induction k arbitrary: i)
  case 0
  show ?case
  proof (cases "10 ^ i dvd base")
    case False
    then have i: "0 < i" by (cases i) auto
    then have "(1::int) < 10 ^ i" by (simp add: one_less_power)
    then have r: "in64 (base sdiv 10 ^ i + sgn base)" by (rule in64_round [OF assms])
    have "base \<noteq> 0" using False by auto
    with False r show ?thesis by (auto simp: round_away_def sgn_if split: if_splits)
  qed (simp add: round_away_def)
next
  case (Suc k)
  let ?p = "10 ^ i :: int"
  have p: "0 < ?p" by simp
  have v': "(base sdiv ?p) sdiv 10 = base sdiv 10 ^ Suc i"
    using sdiv_sdiv_pos [OF p, of 10 base] by (simp add: mult.commute)
  have fr: "(\<not> ?p dvd base \<or> (base sdiv ?p) smod 10 \<noteq> 0) = (\<not> 10 ^ Suc i dvd base)"
    using dvd_step [OF p, of 10 base] by (simp add: mult.commute)
  show ?case
  proof (cases "base sdiv 10 ^ Suc i = 0")
    case False
    with Suc.IH [of "Suc i"] v' fr show ?thesis by (simp add: Let_def)
  next
    case True
    have q: "base sdiv 10 ^ (i + Suc k) = 0"
      using sdiv_eq_0_le [of "10 ^ Suc i" "10 ^ k" base] True by (simp add: power_add mult.assoc)
    have ra: "round_away base (10 ^ (i + Suc k)) = sgn base"
      by (rule round_away_small [OF _ q]) simp
    have d: "10 ^ (i + Suc k) dvd base \<longleftrightarrow> base = 0"
      using sdiv_mult_exact [of "10 ^ (i + Suc k)" base] q by auto
    have d': "10 ^ Suc i dvd base \<longleftrightarrow> base = 0"
      using sdiv_mult_exact [of "10 ^ Suc i" base] True by auto
    show ?thesis
      using True v' fr ra d d' by (auto simp: Let_def sgn_if)
  qed
qed

lemma negativeScaleInt64_spec:
  assumes "in64 base" "0 \<le> scale"
  shows "negativeScaleInt64 base scale = (round_away base (10 ^ nat scale), 10 ^ nat scale dvd base)"
  using neg_scale_loop_spec [OF assms(1), of 0 "nat scale"] assms(2)
  by (auto simp: negativeScaleInt64_def round_away_def)

subsection \<open>Removing factors\<close>

lemma remove_factor_loop_spec:
  "0 \<le> result \<Longrightarrow> 1 < base \<Longrightarrow> remove_factor_loop base result tms = (r, t) \<Longrightarrow>
     tms \<le> t \<and> result = r * base ^ (t - tms) \<and> 0 \<le> r \<and> (r = 0 \<or> \<not> base dvd r)"
proof (induction base result tms rule: remove_factor_loop.induct)
  case (1 base result tms)
  show ?case
  proof (cases "base \<le> result \<and> result smod base = 0")
    case True
    then have d: "base dvd result" and q: "result sdiv base = result div base"
      using "1.prems" by (simp_all add: smod_eq_0_iff sdiv_nonneg)
    have rec: "remove_factor_loop base (result sdiv base) (Suc tms) = (r, t)"
      using "1.prems" True by (subst (asm) remove_factor_loop.simps) simp
    have "Suc tms \<le> t \<and> result div base = r * base ^ (t - Suc tms) \<and> 0 \<le> r \<and> (r = 0 \<or> \<not> base dvd r)"
      using "1.IH" True "1.prems" rec q by (simp add: pos_imp_zdiv_nonneg_iff)
    moreover from this have "base ^ (t - tms) = base * base ^ (t - Suc tms)"
      by (metis Suc_diff_le diff_Suc_Suc power_Suc)
    ultimately show ?thesis using d by (metis Suc_leD dvd_div_mult_self mult.assoc mult.commute)
  next
    case False
    then have "r = result" "t = tms"
      using "1.prems" by (subst (asm) remove_factor_loop.simps, auto)+
    moreover have "result = 0 \<or> \<not> base dvd result"
      using False "1.prems" by (auto simp: smod_eq_0_iff dest: zdvd_imp_le)
    ultimately show ?thesis using "1.prems" by simp
  qed
qed

lemma removeInt64Factors_spec:
  assumes "in64 v" "v \<noteq> mostNegative" "1 < base" "removeInt64Factors v base = (r, t)"
  shows "v = r * base ^ t \<and> (r = 0 \<or> \<not> base dvd r) \<and> \<bar>r\<bar> \<le> \<bar>v\<bar>"
proof -
  let ?s = "if v < 0 then - v else v"
  have s: "(if v < 0 then wrap64 (- v) else v) = ?s"
    using assms(1,2) by (simp add: in64_uminus mostNegative_def)
  obtain r' where l: "remove_factor_loop base ?s 0 = (r', t)" and r: "r = (if v < 0 then wrap64 (- r') else r')"
    using assms(4) s by (auto simp: removeInt64Factors_def Let_def split: prod.splits if_splits)
  have spec: "?s = r' * base ^ t \<and> 0 \<le> r' \<and> (r' = 0 \<or> \<not> base dvd r')"
    using remove_factor_loop_spec [OF _ assms(3) l] by simp
  have "r' * 1 \<le> r' * base ^ t" using spec assms(3) by (intro mult_left_mono) auto
  then have le: "r' \<le> ?s" using spec by simp
  then have "in64 (- r')" "in64 r'" using assms(1,2) spec
    by (auto simp: in64_def mostNegative_def split: if_splits)
  then have "r = (if v < 0 then - r' else r')" using r by simp
  with spec le show ?thesis by (auto split: if_splits)
qed

lemma removeBigIntFactors_loop_spec:
  "1 < factor \<Longrightarrow> removeBigIntFactors_loop d factor tms = (r, t) \<Longrightarrow>
     tms \<le> t \<and> d = r * factor ^ (t - tms) \<and> (r = 0 \<or> \<not> factor dvd r)"
proof (induction d factor tms rule: removeBigIntFactors_loop.induct)
  case (1 d factor tms)
  show ?case
  proof (cases "d \<noteq> 0 \<and> d mod factor = 0")
    case True
    then have dv: "factor dvd d" by auto
    have rec: "removeBigIntFactors_loop (d div factor) factor (Suc tms) = (r, t)"
      using "1.prems" True by (subst (asm) removeBigIntFactors_loop.simps) simp
    have "Suc tms \<le> t \<and> d div factor = r * factor ^ (t - Suc tms) \<and> (r = 0 \<or> \<not> factor dvd r)"
      using "1.IH" True "1.prems" rec by simp
    moreover from this have "factor ^ (t - tms) = factor * factor ^ (t - Suc tms)"
      by (metis Suc_diff_le diff_Suc_Suc power_Suc)
    ultimately show ?thesis using dv by (metis Suc_leD dvd_div_mult_self mult.assoc mult.commute)
  next
    case False
    then have "r = d" "t = tms"
      using "1.prems" by (subst (asm) removeBigIntFactors_loop.simps, auto)+
    with False show ?thesis by auto
  qed
qed

lemma removeBigIntFactors_spec:
  "1 < factor \<Longrightarrow> removeBigIntFactors d factor = (r, t) \<Longrightarrow>
     d = r * factor ^ t \<and> (r = 0 \<or> \<not> factor dvd r)"
  using removeBigIntFactors_loop_spec [of factor d 0 r t] by (simp add: removeBigIntFactors_def)

end
