(* ===== verification/GoStrconv.thy ===== *)
theory GoStrconv
  imports GoPrelude
begin

section \<open>The parts of package strconv the program uses\<close>

text \<open>
  \<open>strconv.Itoa\<close>, \<open>AppendInt\<close> and \<open>FormatInt\<close> in base 10 (\<open>itoa\<close>), and \<open>ParseUint\<close>,
  \<open>ParseInt\<close> and \<open>Atoi\<close> in base 10 with 64 bits, with the value they return next to an error:
  0 for a syntax error, the nearest representable value for a range error.  Strings are byte
  lists.
\<close>

definition digit_char :: "nat \<Rightarrow> char" where
  "digit_char d = char_of (48 + d)"

definition is_digit :: "char \<Rightarrow> bool" where
  "is_digit c \<longleftrightarrow> (48::nat) \<le> of_char c \<and> of_char c \<le> (57::nat)"

definition digit_val :: "char \<Rightarrow> nat" where
  "digit_val c = of_char c - 48"

fun nat_digits :: "nat \<Rightarrow> string" where
  "nat_digits n = (if n < 10 then [digit_char n] else nat_digits (n div 10) @ [digit_char (n mod 10)])"

declare nat_digits.simps [simp del]

definition itoa :: "int \<Rightarrow> string" where
  "itoa z = (if z < 0 then CHR ''-'' # nat_digits (nat (- z)) else nat_digits (nat z))"

datatype num_error = ErrSyntax | ErrRange

definition max_uint64 :: nat where
  "max_uint64 = 18446744073709551615"

text \<open>The digit loop of \<open>ParseUint\<close>; the range check precedes the next digit's syntax check.\<close>

fun parse_uint_loop :: "nat \<Rightarrow> string \<Rightarrow> nat \<times> num_error option" where
  "parse_uint_loop n [] = (n, None)"
| "parse_uint_loop n (c # cs) =
     (if \<not> is_digit c then (0, Some ErrSyntax)
      else if max_uint64 div 10 + 1 \<le> n then (max_uint64, Some ErrRange)
      else if max_uint64 < n * 10 + digit_val c then (max_uint64, Some ErrRange)
      else parse_uint_loop (n * 10 + digit_val c) cs)"

definition parse_uint :: "string \<Rightarrow> nat \<times> num_error option" where
  "parse_uint s = (if s = [] then (0, Some ErrSyntax) else parse_uint_loop 0 s)"

definition parse_int :: "string \<Rightarrow> int \<times> num_error option" where
  "parse_int s =
     (if s = [] then (0, Some ErrSyntax)
      else
        let neg = (hd s = CHR ''-'');
            body = (if hd s = CHR ''+'' \<or> hd s = CHR ''-'' then tl s else s)
        in case parse_uint body of
             (un, err) \<Rightarrow>
               if err = Some ErrSyntax then (0, Some ErrSyntax)
               else if \<not> neg \<and> 9223372036854775808 \<le> un then (9223372036854775807, Some ErrRange)
               else if neg \<and> 9223372036854775808 < un then (- 9223372036854775808, Some ErrRange)
               else (if neg then - int un else int un, None))"

text \<open>On a 64-bit platform \<open>Atoi\<close> agrees with \<open>ParseInt(s, 10, 64)\<close>.\<close>

definition atoi :: "string \<Rightarrow> int \<times> num_error option" where
  "atoi s = parse_int s"

text \<open>\<open>strings.HasPrefix\<close> and \<open>strings.HasSuffix\<close>.\<close>

definition has_prefix :: "string \<Rightarrow> string \<Rightarrow> bool" where
  "has_prefix s p \<longleftrightarrow> take (length p) s = p"

definition has_suffix :: "string \<Rightarrow> string \<Rightarrow> bool" where
  "has_suffix s p \<longleftrightarrow> has_prefix (rev s) (rev p)"

subsection \<open>Digits\<close>

lemma is_digit_digit_char [simp]: "d < 10 \<Longrightarrow> is_digit (digit_char d)"
  by (simp add: is_digit_def digit_char_def)

lemma digit_val_digit_char [simp]: "d < 10 \<Longrightarrow> digit_val (digit_char d) = d"
  by (simp add: digit_val_def digit_char_def)

lemma nat_digits_ne [simp]: "nat_digits n \<noteq> []"
  by (subst nat_digits.simps) simp

lemma nat_digits_is_digit: "c \<in> set (nat_digits n) \<Longrightarrow> is_digit c"
proof (induction n rule: nat_digits.induct)
  case (1 n)
  then show ?case
    by (subst (asm) (2) nat_digits.simps) (auto split: if_splits)
qed

lemma not_digit_signs [simp]:
  "\<not> is_digit CHR ''-''" "\<not> is_digit CHR ''+''" "\<not> is_digit CHR ''.''"
  by (simp_all add: is_digit_def)

lemma hd_nat_digits: "is_digit (hd (nat_digits n))"
  by (rule nat_digits_is_digit, rule hd_in_set) simp

text \<open>Horner evaluation of a digit string.\<close>

definition horner :: "nat \<Rightarrow> string \<Rightarrow> nat" where
  "horner n s = foldl (\<lambda>a c. a * 10 + digit_val c) n s"

lemma horner_simps [simp]:
  "horner n [] = n" "horner n (c # cs) = horner (n * 10 + digit_val c) cs"
  by (simp_all add: horner_def)

lemma horner_append: "horner n (xs @ ys) = horner (horner n xs) ys"
  by (simp add: horner_def)

lemma horner_shift: "horner n s = n * 10 ^ length s + horner 0 s"
proof (induction s arbitrary: n)
  case (Cons c cs)
  have "horner n (c # cs) = (n * 10 + digit_val c) * 10 ^ length cs + horner 0 cs"
    using Cons.IH [of "n * 10 + digit_val c"] by simp
  moreover have "horner 0 (c # cs) = digit_val c * 10 ^ length cs + horner 0 cs"
    using Cons.IH [of "digit_val c"] by simp
  ultimately show ?case by (simp add: algebra_simps)
qed simp

lemma horner_nat_digits: "horner 0 (nat_digits n) = n"
proof (induction n rule: nat_digits.induct)
  case (1 n)
  then show ?case
    by (subst nat_digits.simps) (simp add: horner_append)
qed

lemma horner_mono: "n \<le> horner n s"
  by (subst horner_shift) (simp add: trans_le_add1)

lemma parse_uint_loop_digits:
  "(\<forall>c \<in> set s. is_digit c) \<Longrightarrow> horner n s \<le> max_uint64 \<Longrightarrow>
     parse_uint_loop n s = (horner n s, None)"
proof (induction s arbitrary: n)
  case (Cons c cs)
  have "n * 10 + digit_val c \<le> max_uint64"
    using Cons.prems(2) horner_mono [of "n * 10 + digit_val c" cs] by simp
  moreover from this have "n < max_uint64 div 10 + 1"
    by (simp add: max_uint64_def)
  ultimately show ?case using Cons by simp
qed simp

lemma parse_uint_nat_digits: "n \<le> max_uint64 \<Longrightarrow> parse_uint (nat_digits n) = (n, None)"
  by (simp add: parse_uint_def parse_uint_loop_digits nat_digits_is_digit horner_nat_digits)

text \<open>Printing then parsing an in-range integer returns it.\<close>

lemma parse_int_itoa:
  assumes "in64 z"
  shows "parse_int (itoa z) = (z, None)"
proof (cases "z < 0")
  case True
  then have "parse_uint (nat_digits (nat (- z))) = (nat (- z), None)"
    using assms by (intro parse_uint_nat_digits) (auto simp: in64_def max_uint64_def)
  with True assms show ?thesis
    by (auto simp: parse_int_def itoa_def in64_def)
next
  case False
  then have "parse_uint (nat_digits (nat z)) = (nat z, None)"
    using assms by (intro parse_uint_nat_digits) (auto simp: in64_def max_uint64_def)
  moreover have "hd (nat_digits (nat z)) \<noteq> CHR ''-''" "hd (nat_digits (nat z)) \<noteq> CHR ''+''"
    using hd_nat_digits [of "nat z"] not_digit_signs by metis+
  ultimately show ?thesis
    using False assms by (auto simp: parse_int_def itoa_def in64_def)
qed

lemma atoi_itoa: "in64 z \<Longrightarrow> atoi (itoa z) = (z, None)"
  by (simp add: atoi_def parse_int_itoa)

lemma itoa_inj: "itoa a = itoa b \<Longrightarrow> a = b"
proof -
  have nn: "nat_digits m = nat_digits n \<Longrightarrow> m = n" for m n
    by (metis horner_nat_digits)
  have "CHR ''-'' # xs \<noteq> nat_digits n" for xs n
    using hd_nat_digits [of n] not_digit_signs(1) by (metis list.sel(1))
  then show "itoa a = itoa b \<Longrightarrow> a = b"
    by (auto simp: itoa_def split: if_splits dest!: nn) metis+
qed

text \<open>A non-digit after the first character, reached in range, is a syntax error.\<close>

lemma parse_uint_loop_suffix:
  "(\<forall>c \<in> set s. is_digit c) \<Longrightarrow> horner n s \<le> max_uint64 \<Longrightarrow> \<not> is_digit c \<Longrightarrow>
     parse_uint_loop n (s @ c # cs) = (0, Some ErrSyntax)"
proof (induction s arbitrary: n)
  case (Cons d ds)
  have "n * 10 + digit_val d \<le> max_uint64"
    using Cons.prems(2) horner_mono [of "n * 10 + digit_val d" ds] by simp
  moreover from this have "n < max_uint64 div 10 + 1"
    by (simp add: max_uint64_def)
  ultimately show ?case using Cons by simp
qed simp

lemma atoi_suffixed:
  assumes "in64 z" and "\<not> is_digit c"
  shows "atoi (itoa z @ c # cs) = (0, Some ErrSyntax)"
proof (cases "z < 0")
  case True
  have "horner 0 (nat_digits (nat (- z))) \<le> max_uint64"
    using assms by (auto simp: horner_nat_digits in64_def max_uint64_def)
  then have "parse_uint (nat_digits (nat (- z)) @ c # cs) = (0, Some ErrSyntax)"
    using assms(2) by (simp add: parse_uint_def parse_uint_loop_suffix nat_digits_is_digit)
  with True show ?thesis by (simp add: atoi_def parse_int_def itoa_def)
next
  case False
  have "horner 0 (nat_digits (nat z)) \<le> max_uint64"
    using assms by (auto simp: horner_nat_digits in64_def max_uint64_def)
  then have "parse_uint (nat_digits (nat z) @ c # cs) = (0, Some ErrSyntax)"
    using assms(2) by (simp add: parse_uint_def parse_uint_loop_suffix nat_digits_is_digit)
  moreover have "hd (nat_digits (nat z)) \<noteq> CHR ''-''" "hd (nat_digits (nat z)) \<noteq> CHR ''+''"
    using hd_nat_digits [of "nat z"] not_digit_signs by metis+
  ultimately show ?thesis using False by (simp add: atoi_def parse_int_def itoa_def)
qed

end
