(* ===== verification/QuantityAmount.thy ===== *)
theory QuantityAmount
  imports QuantityMath GoStrconv
begin

section \<open>Scaled amounts: int64Amount and inf.Dec\<close>

text \<open>
  The two representations a quantity can have (\<open>amount.go\<close>): an int64 mantissa with a decimal
  scale, and an arbitrary-precision decimal of the library \<open>gopkg.in/inf.v0\<close>, whose scale has
  the opposite sign.  Scales are Go int32 values modelled as \<open>int\<close>; they stay within a few
  hundred unless a parsed exponent is larger, and the parser truncates that one to 32 bits.
\<close>

record int64_amount =
  ia_value :: int
  ia_scale :: int

record dec =
  dec_unscaled :: int
  dec_scale :: int

subsection \<open>The operations of inf.Dec that are used\<close>

definition dec_Sign :: "dec \<Rightarrow> int" where
  "dec_Sign x = sgn (dec_unscaled x)"

definition dec_Neg :: "dec \<Rightarrow> dec" where
  "dec_Neg x = x\<lparr>dec_unscaled := - dec_unscaled x\<rparr>"

definition dec_rescale :: "dec \<Rightarrow> int \<Rightarrow> dec" where
  "dec_rescale x newScale =
     (let shift = newScale - dec_scale x in
      if shift < 0 then \<lparr>dec_unscaled = dec_unscaled x sdiv 10 ^ nat (- shift), dec_scale = newScale\<rparr>
      else if 0 < shift then \<lparr>dec_unscaled = dec_unscaled x * 10 ^ nat shift, dec_scale = newScale\<rparr>
      else x)"

definition dec_upscale :: "dec \<Rightarrow> dec \<Rightarrow> dec \<times> dec" where
  "dec_upscale a b =
     (if dec_scale a = dec_scale b then (a, b)
      else if dec_scale b < dec_scale a then (a, dec_rescale b (dec_scale a))
      else (dec_rescale a (dec_scale b), b))"

definition dec_Cmp :: "dec \<Rightarrow> dec \<Rightarrow> int" where
  "dec_Cmp x y = (case dec_upscale x y of (xx, yy) \<Rightarrow> cmp3 (dec_unscaled xx) (dec_unscaled yy))"

definition dec_Add :: "dec \<Rightarrow> dec \<Rightarrow> dec" where
  "dec_Add x y = (case dec_upscale x y of (xx, yy) \<Rightarrow>
     \<lparr>dec_unscaled = dec_unscaled xx + dec_unscaled yy, dec_scale = dec_scale xx\<rparr>)"

definition dec_Sub :: "dec \<Rightarrow> dec \<Rightarrow> dec" where
  "dec_Sub x y = (case dec_upscale x y of (xx, yy) \<Rightarrow>
     \<lparr>dec_unscaled = dec_unscaled xx - dec_unscaled yy, dec_scale = dec_scale xx\<rparr>)"

text \<open>\<open>quoRem x 1 s\<close>, the division \<open>Round\<close> performs: quotient, remainder and the divisor used.\<close>

definition dec_quoRem_one :: "dec \<Rightarrow> int \<Rightarrow> int \<times> int \<times> int" where
  "dec_quoRem_one x s =
     (let shift = s - dec_scale x;
          ix = (if 0 < shift then dec_unscaled x * 10 ^ nat shift else dec_unscaled x);
          iy = (if shift < 0 then 10 ^ nat (- shift) else 1)
      in (ix sdiv iy, ix smod iy, iy))"

definition dec_RoundUp :: "dec \<Rightarrow> int \<Rightarrow> dec" where
  "dec_RoundUp x s =
     (case dec_quoRem_one x s of (q, rA, rB) \<Rightarrow>
        \<lparr>dec_unscaled = (if sgn rA \<noteq> 0 then q + sgn rA * sgn rB else q), dec_scale = s\<rparr>)"

subsection \<open>int64Amount\<close>

definition ia_Sign :: "int64_amount \<Rightarrow> int" where
  "ia_Sign a = (if ia_value a = 0 then 0 else if 0 < ia_value a then 1 else -1)"

definition ia_AsInt64 :: "int64_amount \<Rightarrow> int \<times> bool" where
  "ia_AsInt64 a =
     (if ia_scale a = 0 then (ia_value a, True)
      else if ia_scale a < 0 then (0, False)
      else positiveScaleInt64 (ia_value a) (ia_scale a))"

definition ia_AsScaledInt64 :: "int64_amount \<Rightarrow> int \<Rightarrow> int \<times> bool" where
  "ia_AsScaledInt64 a scale =
     (if ia_scale a < scale then (fst (negativeScaleInt64 (ia_value a) (scale - ia_scale a)), True)
      else positiveScaleInt64 (ia_value a) (ia_scale a - scale))"

definition ia_AsDec :: "int64_amount \<Rightarrow> dec" where
  "ia_AsDec a = \<lparr>dec_unscaled = ia_value a, dec_scale = - ia_scale a\<rparr>"

definition ia_Cmp :: "int64_amount \<Rightarrow> int64_amount \<Rightarrow> int" where
  "ia_Cmp a b =
     (if ia_scale a = ia_scale b then cmp3 (ia_value a) (ia_value b)
      else if ia_scale b < ia_scale a then
        (case divideByScaleInt64 (ia_value b) (ia_scale a - ia_scale b) of
           (result, remainder, exact) \<Rightarrow>
             if \<not> exact then dec_Cmp (ia_AsDec a) (ia_AsDec b)
             else if result = ia_value a then
               (if remainder = 0 then 0 else if 0 < remainder then -1 else 1)
             else cmp3 (ia_value a) result)
      else
        (case divideByScaleInt64 (ia_value a) (ia_scale b - ia_scale a) of
           (result, remainder, exact) \<Rightarrow>
             if \<not> exact then dec_Cmp (ia_AsDec a) (ia_AsDec b)
             else if result = ia_value b then
               (if remainder = 0 then 0 else if 0 < remainder then 1 else -1)
             else cmp3 result (ia_value b)))"

text \<open>\<open>Add\<close> mutates its receiver on success only: the new receiver and the success flag.\<close>

definition ia_Add :: "int64_amount \<Rightarrow> int64_amount \<Rightarrow> int64_amount \<times> bool" where
  "ia_Add a b =
     (if ia_value b = 0 then (a, True)
      else if ia_value a = 0 then (\<lparr>ia_value = ia_value b, ia_scale = ia_scale b\<rparr>, True)
      else if ia_scale a = ia_scale b then
        (case int64Add (ia_value a) (ia_value b) of
           (c, ok) \<Rightarrow> if \<not> ok then (a, False) else (a\<lparr>ia_value := c\<rparr>, True))
      else if ia_scale b < ia_scale a then
        (case positiveScaleInt64 (ia_value a) (ia_scale a - ia_scale b) of
           (c, ok) \<Rightarrow> if \<not> ok then (a, False)
             else case int64Add c (ia_value b) of
                    (c', ok') \<Rightarrow> if \<not> ok' then (a, False)
                      else (\<lparr>ia_value = c', ia_scale = ia_scale b\<rparr>, True))
      else
        (case positiveScaleInt64 (ia_value b) (ia_scale b - ia_scale a) of
           (c, ok) \<Rightarrow> if \<not> ok then (a, False)
             else case int64Add (ia_value a) c of
                    (c', ok') \<Rightarrow> if \<not> ok' then (a, False) else (a\<lparr>ia_value := c'\<rparr>, True)))"

definition ia_Sub :: "int64_amount \<Rightarrow> int64_amount \<Rightarrow> int64_amount \<times> bool" where
  "ia_Sub a b = ia_Add a \<lparr>ia_value = wrap64 (- ia_value b), ia_scale = ia_scale b\<rparr>"

definition ia_AsScale :: "int64_amount \<Rightarrow> int \<Rightarrow> int64_amount \<times> bool" where
  "ia_AsScale a scale =
     (if scale \<le> ia_scale a then (a, True)
      else case negativeScaleInt64 (ia_value a) (scale - ia_scale a) of
             (result, exact) \<Rightarrow> (\<lparr>ia_value = result, ia_scale = scale\<rparr>, exact))"

subsection \<open>infDecAmount\<close>

definition da_AsScale :: "dec \<Rightarrow> int \<Rightarrow> dec \<times> bool" where
  "da_AsScale a scale = (let tmp = dec_RoundUp a (- scale) in (tmp, dec_Cmp tmp a = 0))"

function canonical_loop :: "int \<Rightarrow> int \<Rightarrow> int \<times> int" where
  "canonical_loop amount exponent =
     (if exponent smod 3 \<noteq> 0 then canonical_loop (amount * 10) (exponent - 1) else (amount, exponent))"
  by pat_completeness auto
termination
proof (relation "measure (\<lambda>(amount, exponent). nat (exponent mod 3))", simp)
  fix amount exponent :: int
  assume "exponent smod 3 \<noteq> 0"
  then have "exponent mod 3 \<noteq> 0" by (simp add: smod_eq_0_iff dvd_eq_mod_eq_0)
  then have "(exponent - 1) mod 3 < exponent mod 3 \<and> 0 \<le> (exponent - 1) mod 3" by presburger
  then show "((amount * 10, exponent - 1), amount, exponent) \<in> measure (\<lambda>(amount, exponent). nat (exponent mod 3))"
    by simp
qed

declare canonical_loop.simps [simp del]

text \<open>Mantissa and exponent; \<open>AsCanonicalBytes\<close> prints the mantissa.\<close>

definition da_canonical :: "dec \<Rightarrow> int \<times> int" where
  "da_canonical a =
     (case removeBigIntFactors (dec_unscaled a) 10 of
        (amount, tms) \<Rightarrow> canonical_loop amount (- dec_scale a + int tms))"

definition da_AsCanonicalBytes :: "dec \<Rightarrow> string \<times> int" where
  "da_AsCanonicalBytes a = (case da_canonical a of (amount, exponent) \<Rightarrow> (itoa amount, exponent))"

definition da_AsCanonicalBase1024Bytes :: "dec \<Rightarrow> string \<times> int" where
  "da_AsCanonicalBase1024Bytes a =
     (case removeBigIntFactors (dec_unscaled (dec_RoundUp a 0)) 1024 of
        (amount, tms) \<Rightarrow> (itoa amount, int tms))"

definition ia_canonical :: "int64_amount \<Rightarrow> int \<times> int" where
  "ia_canonical a =
     (case removeInt64Factors (ia_value a) 10 of
        (amount, tms) \<Rightarrow>
          let exponent = ia_scale a + int tms in
          if exponent smod 3 = 1 \<or> exponent smod 3 = -2 then
            (case int64MultiplyScale10 amount of
               (amount', ok) \<Rightarrow> if \<not> ok then da_canonical (ia_AsDec a) else (amount', exponent - 1))
          else if exponent smod 3 = 2 \<or> exponent smod 3 = -1 then
            (case int64MultiplyScale100 amount of
               (amount', ok) \<Rightarrow> if \<not> ok then da_canonical (ia_AsDec a) else (amount', exponent - 2))
          else (amount, exponent))"

definition ia_AsCanonicalBytes :: "int64_amount \<Rightarrow> string \<times> int" where
  "ia_AsCanonicalBytes a = (case ia_canonical a of (amount, exponent) \<Rightarrow> (itoa amount, exponent))"

definition ia_AsCanonicalBase1024Bytes :: "int64_amount \<Rightarrow> string \<times> int" where
  "ia_AsCanonicalBase1024Bytes a =
     (case ia_AsScaledInt64 a 0 of
        (value, ok) \<Rightarrow>
          if \<not> ok then da_AsCanonicalBase1024Bytes (ia_AsDec a)
          else case removeInt64Factors value 1024 of (amount, tms) \<Rightarrow> (itoa amount, int tms))"

subsection \<open>What an amount denotes\<close>

definition ia_val :: "int64_amount \<Rightarrow> rat" where
  "ia_val a = of_int (ia_value a) * 10 powi (ia_scale a)"

definition dec_val :: "dec \<Rightarrow> rat" where
  "dec_val d = of_int (dec_unscaled d) * 10 powi (- dec_scale d)"

definition ia_ok :: "int64_amount \<Rightarrow> bool" where
  "ia_ok a \<longleftrightarrow> in64 (ia_value a)"

lemma ten_powi_pos [simp]: "0 < (10::rat) powi k"
  by (simp add: zero_less_power_int)

lemma ten_powi_not_neg [simp]: "\<not> (10::rat) powi k < 0"
  by (rule less_not_sym, rule ten_powi_pos)

lemma ten_powi_add_nat: "(10::rat) powi (s + int n) = 10 powi s * 10 ^ n"
  by (subst power_int_add) simp_all

lemma ten_powi_split:
  assumes "s \<le> t"
  shows "(10::rat) powi t = 10 powi s * of_int (10 ^ nat (t - s))"
proof -
  obtain n where "t = s + int n" using assms by (metis zle_iff_zadd)
  then show ?thesis by (simp add: ten_powi_add_nat)
qed

lemma dec_val_ia_AsDec [simp]: "dec_val (ia_AsDec a) = ia_val a"
  by (simp add: dec_val_def ia_val_def ia_AsDec_def)

lemma dec_val_rescale: "dec_scale x \<le> s \<Longrightarrow> dec_val (dec_rescale x s) = dec_val x"
  using ten_powi_split [of "- s" "- dec_scale x"]
  by (auto simp: dec_val_def dec_rescale_def Let_def)

lemma dec_scale_rescale [simp]: "dec_scale (dec_rescale x s) = s"
  by (auto simp: dec_rescale_def Let_def)

lemma dec_upscale_spec:
  assumes "dec_upscale x y = (xx, yy)"
  shows "dec_val xx = dec_val x \<and> dec_val yy = dec_val y \<and> dec_scale xx = dec_scale yy"
  using assms by (auto simp: dec_upscale_def dec_val_rescale split: if_splits)

lemma dec_Cmp_val: "dec_Cmp x y = cmp3 (dec_val x) (dec_val y)"
proof (cases "dec_upscale x y")
  case (Pair xx yy)
  from dec_upscale_spec [OF this] have v: "dec_val xx = dec_val x" "dec_val yy = dec_val y"
    and s: "dec_scale xx = dec_scale yy" by auto
  have "cmp3 (dec_val xx) (dec_val yy) = cmp3 (of_int (dec_unscaled xx) :: rat) (of_int (dec_unscaled yy))"
    unfolding dec_val_def s by (rule cmp3_mult) simp
  with Pair v show ?thesis by (simp add: dec_Cmp_def cmp3_of_int)
qed

lemma dec_Add_val: "dec_val (dec_Add x y) = dec_val x + dec_val y"
  and dec_Sub_val: "dec_val (dec_Sub x y) = dec_val x - dec_val y"
proof -
  obtain xx yy where u: "dec_upscale x y = (xx, yy)" by force
  from dec_upscale_spec [OF u] u
  show "dec_val (dec_Add x y) = dec_val x + dec_val y" "dec_val (dec_Sub x y) = dec_val x - dec_val y"
    by (auto simp: dec_Add_def dec_Sub_def dec_val_def algebra_simps)
qed

lemma dec_Neg_val: "dec_val (dec_Neg x) = - dec_val x"
  by (simp add: dec_Neg_def dec_val_def)

lemma dec_Sign_val: "dec_Sign x = cmp3 (dec_val x) 0"
  by (auto simp: dec_Sign_def dec_val_def cmp3_def sgn_if mult_less_0_iff not_less)

lemma ia_Sign_val: "ia_Sign a = cmp3 (ia_val a) 0"
  by (auto simp: ia_Sign_def ia_val_def cmp3_def mult_less_0_iff)

subsection \<open>Comparison and addition are those of the denoted numbers\<close>

lemma trunc_cmp:
  fixes va vb D :: int
  assumes "0 < D"
  shows "cmp3 (va * D) vb =
    (if vb sdiv D = va then (if vb smod D = 0 then 0 else if 0 < vb smod D then -1 else 1)
     else cmp3 va (vb sdiv D))"
proof -
  let ?q = "vb sdiv D" and ?r = "vb smod D"
  have vb: "vb = ?q * D + ?r" by (simp add: sdiv_mult_smod_eq)
  have r: "\<bar>?r\<bar> < D" using assms by (simp add: abs_smod)
  consider "?q = va" | "va < ?q" | "?q < va" by linarith
  then show ?thesis
  proof cases
    case 1
    then show ?thesis using vb by (auto simp: cmp3_def)
  next
    case 2
    then have "va * D \<le> (?q - 1) * D" using assms by (intro mult_right_mono) auto
    then have "va * D < vb" using vb r by (simp add: algebra_simps)
    with 2 show ?thesis by (simp add: cmp3_def)
  next
    case 3
    then have "(?q + 1) * D \<le> va * D" using assms by (intro mult_right_mono) auto
    then have "vb < va * D" using vb r by (simp add: algebra_simps)
    with 3 show ?thesis by (simp add: cmp3_def)
  qed
qed

lemma cmp3_flip: "cmp3 a b = - cmp3 b a"
  by (auto simp: cmp3_def)

lemma ia_val_at:
  "s \<le> ia_scale a \<Longrightarrow> ia_val a = of_int (ia_value a * 10 ^ nat (ia_scale a - s)) * 10 powi s"
  using ten_powi_split [of s "ia_scale a"] by (simp add: ia_val_def)

lemma cmp3_ia_val_scaled:
  assumes "ia_scale b \<le> ia_scale a"
  shows "cmp3 (ia_val a) (ia_val b) = cmp3 (ia_value a * 10 ^ nat (ia_scale a - ia_scale b)) (ia_value b)"
proof -
  have "cmp3 (ia_val a) (ia_val b) = cmp3 (of_int (ia_value a * 10 ^ nat (ia_scale a - ia_scale b)) * 10 powi ia_scale b :: rat)
      (of_int (ia_value b) * 10 powi ia_scale b)"
    by (subst ia_val_at [OF assms]) (simp add: ia_val_def)
  also have "\<dots> = cmp3 (of_int (ia_value a * 10 ^ nat (ia_scale a - ia_scale b)) :: rat) (of_int (ia_value b))"
    by (rule cmp3_mult) simp
  finally show ?thesis by (simp only: cmp3_of_int)
qed

lemma ia_Cmp_val: "ia_Cmp a b = cmp3 (ia_val a) (ia_val b)"
proof -
  consider "ia_scale a = ia_scale b" | "ia_scale b < ia_scale a" | "ia_scale a < ia_scale b" by linarith
  then show ?thesis
  proof cases
    case 1
    then show ?thesis using cmp3_ia_val_scaled [of b a] by (simp add: ia_Cmp_def)
  next
    case 2
    let ?k = "ia_scale a - ia_scale b"
    show ?thesis
    proof (cases "18 \<le> ?k")
      case True
      with 2 show ?thesis by (simp add: ia_Cmp_def divideByScaleInt64_def dec_Cmp_val)
    next
      case False
      with 2 show ?thesis
        using trunc_cmp [of "10 ^ nat ?k" "ia_value a" "ia_value b"] cmp3_ia_val_scaled [of b a]
        by (simp add: ia_Cmp_def divideByScaleInt64_def pow10Int64_def)
    qed
  next
    case 3
    let ?k = "ia_scale b - ia_scale a"
    show ?thesis
    proof (cases "18 \<le> ?k")
      case True
      with 3 show ?thesis by (simp add: ia_Cmp_def divideByScaleInt64_def dec_Cmp_val)
    next
      case False
      have "cmp3 (ia_val a) (ia_val b) = - cmp3 (ia_value b * 10 ^ nat ?k) (ia_value a)"
        using cmp3_ia_val_scaled [of a b] 3 cmp3_flip [of "ia_val a"] by simp
      with 3 False show ?thesis
        using trunc_cmp [of "10 ^ nat ?k" "ia_value b" "ia_value a"] cmp3_flip [of "ia_value b" "ia_value a sdiv 10 ^ nat ?k"]
        by (auto simp: ia_Cmp_def divideByScaleInt64_def pow10Int64_def)
    qed
  qed
qed

lemma positiveScaleInt64_Some:
  assumes "in64 v" "0 \<le> s" "positiveScaleInt64 v s = (c, True)"
  shows "c = v * 10 ^ nat s \<and> in64 c"
  using positiveScaleInt64_exact [OF assms(1,2)] assms(3) by (simp add: scaled_exact_def)

lemma int64Add_Some: "in64 a \<Longrightarrow> in64 b \<Longrightarrow> int64Add a b = (c, True) \<Longrightarrow> c = a + b \<and> in64 c"
  by (auto simp: int64Add_spec split: if_splits)

text \<open>A successful addition yields the sum; a failed one leaves the receiver as it was.\<close>

lemma ia_Add_val:
  assumes "ia_ok a" "ia_ok b" "ia_Add a b = (c, True)"
  shows "ia_val c = ia_val a + ia_val b \<and> ia_ok c"
proof -
  consider "ia_value b = 0" | "ia_value b \<noteq> 0" "ia_value a = 0"
    | "ia_value a \<noteq> 0" "ia_value b \<noteq> 0" "ia_scale a = ia_scale b"
    | "ia_value a \<noteq> 0" "ia_value b \<noteq> 0" "ia_scale b < ia_scale a"
    | "ia_value a \<noteq> 0" "ia_value b \<noteq> 0" "ia_scale a < ia_scale b" by linarith
  then show ?thesis
  proof cases
    case 4
    then obtain d where d: "positiveScaleInt64 (ia_value a) (ia_scale a - ia_scale b) = (d, True)"
      and e: "int64Add d (ia_value b) = (ia_value c, True)" and s: "ia_scale c = ia_scale b"
      using assms(3) by (auto simp: ia_Add_def split: prod.splits if_splits)
    have "d = ia_value a * 10 ^ nat (ia_scale a - ia_scale b)" "in64 d"
      using positiveScaleInt64_Some [OF _ _ d] 4 assms(1) by (auto simp: ia_ok_def)
    moreover from this have "ia_value c = d + ia_value b \<and> in64 (ia_value c)"
      using int64Add_Some [OF _ _ e] assms(2) unfolding ia_ok_def by blast
    ultimately show ?thesis using s ia_val_at [of "ia_scale b" a] 4
      by (auto simp: ia_ok_def ia_val_def [of b] ia_val_def [of c] distrib_right)
  next
    case 5
    then obtain d where d: "positiveScaleInt64 (ia_value b) (ia_scale b - ia_scale a) = (d, True)"
      and e: "int64Add (ia_value a) d = (ia_value c, True)" and s: "ia_scale c = ia_scale a"
      using assms(3) by (auto simp: ia_Add_def split: prod.splits if_splits)
    have "d = ia_value b * 10 ^ nat (ia_scale b - ia_scale a)" "in64 d"
      using positiveScaleInt64_Some [OF _ _ d] 5 assms(2) by (auto simp: ia_ok_def)
    moreover from this have "ia_value c = ia_value a + d \<and> in64 (ia_value c)"
      using int64Add_Some [OF _ _ e] assms(1) unfolding ia_ok_def by blast
    ultimately show ?thesis using s ia_val_at [of "ia_scale a" b] 5
      by (auto simp: ia_ok_def ia_val_def [of a] ia_val_def [of c] distrib_right)
  next
    case 1
    then show ?thesis using assms by (simp add: ia_Add_def ia_val_def)
  next
    case 2
    then show ?thesis using assms by (auto simp: ia_Add_def ia_val_def ia_ok_def)
  next
    case 3
    then have e: "int64Add (ia_value a) (ia_value b) = (ia_value c, True)" and s: "ia_scale c = ia_scale a"
      using assms(3) by (auto simp: ia_Add_def split: prod.splits if_splits)
    have "ia_value c = ia_value a + ia_value b \<and> in64 (ia_value c)"
      using int64Add_Some [OF _ _ e] assms(1,2) unfolding ia_ok_def by blast
    with 3 s show ?thesis by (auto simp: ia_ok_def ia_val_def distrib_right)
  qed
qed

lemma ia_Add_fail: "ia_Add a b = (c, False) \<Longrightarrow> c = a"
  by (auto simp: ia_Add_def split: prod.splits if_splits)

lemma ia_Sub_val:
  assumes "ia_ok a" "ia_ok b" "ia_value b \<noteq> mostNegative" "ia_Sub a b = (c, True)"
  shows "ia_val c = ia_val a - ia_val b \<and> ia_ok c"
proof -
  let ?nb = "\<lparr>ia_value = - ia_value b, ia_scale = ia_scale b\<rparr>"
  have "in64 (- ia_value b)" using assms(2,3) by (simp add: ia_ok_def in64_uminus mostNegative_def)
  then have "ia_Add a ?nb = (c, True)" "ia_ok ?nb" using assms(4) by (simp_all add: ia_Sub_def ia_ok_def)
  moreover have "ia_val ?nb = - ia_val b" by (simp add: ia_val_def)
  ultimately show ?thesis using ia_Add_val [OF assms(1)] by fastforce
qed

subsection \<open>Canonical form: the exponent is a multiple of three and the value is unchanged\<close>

lemma canonical_loop_spec:
  "canonical_loop m e = (m', e') \<Longrightarrow>
     of_int m' * (10::rat) powi e' = of_int m * 10 powi e \<and> 3 dvd e' \<and> e' \<le> e \<and> e - 2 \<le> e'
     \<and> m' = m * 10 ^ nat (e - e')"
proof -
  assume c: "canonical_loop m e = (m', e')"
  have step: "canonical_loop x f = canonical_loop (x * 10) (f - 1)" if "\<not> 3 dvd f" for x f
    using that by (subst canonical_loop.simps) (simp add: smod_eq_0_iff)
  have stop: "canonical_loop x f = (x, f)" if "3 dvd f" for x f
    using that by (subst canonical_loop.simps) (simp add: smod_eq_0_iff)
  have "3 dvd e \<or> 3 dvd (e - 1) \<or> 3 dvd (e - 1 - 1)" by presburger
  then consider "3 dvd e" | "\<not> 3 dvd e" "3 dvd (e - 1)" | "\<not> 3 dvd e" "\<not> 3 dvd (e - 1)" "3 dvd (e - 1 - 1)"
    by blast
  then have r: "(m', e') \<in> {(m * 10 ^ 0, e), (m * 10 ^ 1, e - 1), (m * 10 ^ 2, e - 2)} \<and> 3 dvd e'"
  proof cases
    case 1 with c stop show ?thesis by simp
  next
    case 2 with c step stop show ?thesis by simp
  next
    case 3
    then have "canonical_loop m e = (m * 10 * 10, e - 1 - 1)" by (simp only: step stop not_False_eq_True)
    with c 3 show ?thesis by (simp add: power2_eq_square)
  qed
  have "(10::rat) powi e = 10 powi (e - 1) * 10" "(10::rat) powi e = 10 powi (e - 2) * 100"
    using ten_powi_split [of "e - 1" e] ten_powi_split [of "e - 2" e] by simp_all
  with r show ?thesis by auto
qed

lemma da_canonical_spec:
  assumes "da_canonical d = (m, e)"
  shows "of_int m * 10 powi e = dec_val d \<and> 3 dvd e"
proof -
  obtain r t where f: "removeBigIntFactors (dec_unscaled d) 10 = (r, t)" by force
  then have l: "canonical_loop r (- dec_scale d + int t) = (m, e)"
    using assms by (simp add: da_canonical_def)
  have "dec_unscaled d = r * 10 ^ t" using removeBigIntFactors_spec [OF _ f] by simp
  then have "dec_val d = of_int r * 10 powi (- dec_scale d + int t)"
    unfolding dec_val_def ten_powi_add_nat by simp
  with canonical_loop_spec [OF l, THEN conjunct1] canonical_loop_spec [OF l, THEN conjunct2, THEN conjunct1]
  show ?thesis by simp
qed

lemma ia_canonical_spec:
  assumes ok: "ia_ok a" "ia_value a \<noteq> mostNegative" and c: "ia_canonical a = (m, e)"
  shows "of_int m * 10 powi e = ia_val a \<and> 3 dvd e"
proof -
  obtain r t where f: "removeInt64Factors (ia_value a) 10 = (r, t)" by force
  let ?e = "ia_scale a + int t"
  have v: "ia_value a = r * 10 ^ t" "in64 r"
    using removeInt64Factors_spec [OF _ ok(2) _ f] ok by (auto simp: ia_ok_def in64_def mostNegative_def)
  then have val: "ia_val a = of_int r * 10 powi ?e"
    unfolding ia_val_def ten_powi_add_nat by simp
  have p: "(10::rat) powi ?e = 10 powi (?e - 1) * 10" "(10::rat) powi ?e = 10 powi (?e - 2) * 100"
    using ten_powi_split [of "?e - 1" ?e] ten_powi_split [of "?e - 2" ?e] by simp_all
  have s10: "int64MultiplyScale10 r = (m', True) \<Longrightarrow> m' = r * 10"
    and s100: "int64MultiplyScale100 r = (m', True) \<Longrightarrow> m' = r * 100" for m'
    using int64MultiplyScale10_exact [OF v(2)] int64MultiplyScale100_exact [OF v(2)]
    by (simp_all add: scaled_exact_def)
  have mods: "?e smod 3 = 1 \<or> ?e smod 3 = -2 \<longleftrightarrow> ?e mod 3 = 1"
    "?e smod 3 = 2 \<or> ?e smod 3 = -1 \<longleftrightarrow> ?e mod 3 = 2"
    by (auto simp: signed_modulo_int_eq_modulo_int split: if_splits)
  have "?e mod 3 = 1 \<or> ?e mod 3 = 2 \<or> 3 dvd ?e" by presburger
  then consider "?e mod 3 = 1" | "?e mod 3 = 2" | "3 dvd ?e" by blast
  then show ?thesis
  proof cases
    case 1
    show ?thesis
    proof (cases "int64MultiplyScale10 r")
      case (Pair m' k)
      with 1 c f mods have "if k then (m, e) = (m', ?e - 1) else da_canonical (ia_AsDec a) = (m, e)"
        by (auto simp: ia_canonical_def Let_def split: if_splits)
      with 1 Pair s10 [of m'] p val da_canonical_spec [of "ia_AsDec a" m e] show ?thesis
        by (auto split: if_splits) presburger
    qed
  next
    case 2
    show ?thesis
    proof (cases "int64MultiplyScale100 r")
      case (Pair m' k)
      with 2 c f mods have "if k then (m, e) = (m', ?e - 2) else da_canonical (ia_AsDec a) = (m, e)"
        by (auto simp: ia_canonical_def Let_def split: if_splits)
      with 2 Pair s100 [of m'] p val da_canonical_spec [of "ia_AsDec a" m e] show ?thesis
        by (auto split: if_splits) presburger
    qed
  next
    case 3
    then have "?e mod 3 \<noteq> 1" "?e mod 3 \<noteq> 2" by presburger+
    with c f mods have "(m, e) = (r, ?e)" by (auto simp: ia_canonical_def Let_def split: if_splits)
    with 3 val show ?thesis by simp
  qed
qed

end
