(* ===== verification/Quantity.thy ===== *)
theory Quantity
  imports QuantityAmount
begin

section \<open>resource.Quantity: suffixes, parsing, printing, arithmetic\<close>

text \<open>
  \<open>suffix.go\<close> and \<open>quantity.go\<close>.  A quantity holds an \<open>int64Amount\<close>, or an \<open>inf.Dec\<close> when
  \<open>d.Dec\<close> is not nil (\<open>q_d = Some\<close>), a format, and the cached string (\<open>q_s\<close>, empty when not
  calculated).  Methods on a pointer receiver return the new receiver.
\<close>

datatype format = DecimalExponent | BinarySI | DecimalSI | OtherFormat string

datatype quantity_error = ErrFormatWrong | ErrNumeric | ErrSuffix

subsection \<open>Suffixes\<close>

record list_suffixer =
  suffixToBE :: "string \<Rightarrow> (int \<times> int) option"
  beToSuffix :: "int \<times> int \<Rightarrow> string option"

definition empty_suffixer :: list_suffixer where
  "empty_suffixer = \<lparr>suffixToBE = Map.empty, beToSuffix = Map.empty\<rparr>"

definition addSuffix :: "list_suffixer \<Rightarrow> string \<Rightarrow> int \<times> int \<Rightarrow> list_suffixer" where
  "addSuffix ls s pair =
     ls\<lparr>suffixToBE := (suffixToBE ls)(s \<mapsto> pair), beToSuffix := (beToSuffix ls)(pair \<mapsto> s)\<rparr>"

definition binSuffixes :: list_suffixer where
  "binSuffixes = foldl (\<lambda>ls (s, p). addSuffix ls s p) empty_suffixer
     [(''Ki'', (2, 10)), (''Mi'', (2, 20)), (''Gi'', (2, 30)),
      (''Ti'', (2, 40)), (''Pi'', (2, 50)), (''Ei'', (2, 60))]"

definition decSuffixes :: list_suffixer where
  "decSuffixes = foldl (\<lambda>ls (s, p). addSuffix ls s p) empty_suffixer
     [('''', (2, 0)), (''n'', (10, -9)), (''u'', (10, -6)), (''m'', (10, -3)), ('''', (10, 0)),
      (''k'', (10, 3)), (''M'', (10, 6)), (''G'', (10, 9)), (''T'', (10, 12)), (''P'', (10, 15)),
      (''E'', (10, 18))]"

definition sh_interpret :: "string \<Rightarrow> int \<times> int \<times> format \<times> bool" where
  "sh_interpret suf =
     (case suffixToBE decSuffixes suf of
        Some (b, e) \<Rightarrow> (b, e, DecimalSI, True)
      | None \<Rightarrow>
        case suffixToBE binSuffixes suf of
          Some (b, e) \<Rightarrow> (b, e, BinarySI, True)
        | None \<Rightarrow>
          if 1 < length suf \<and> (hd suf = CHR ''E'' \<or> hd suf = CHR ''e'') then
            (case parse_int (tl suf) of
               (parsed, err) \<Rightarrow>
                 if err \<noteq> None then (0, 0, DecimalExponent, False)
                 else (10, wrap32 parsed, DecimalExponent, True))
          else (0, 0, DecimalExponent, False))"

definition suffix_interpret :: "string \<Rightarrow> int \<times> int \<times> format \<times> bool" where
  "suffix_interpret s =
     (if s = '''' then (10, 0, DecimalSI, True)
      else if s = ''n'' then (10, -9, DecimalSI, True)
      else if s = ''u'' then (10, -6, DecimalSI, True)
      else if s = ''m'' then (10, -3, DecimalSI, True)
      else if s = ''k'' then (10, 3, DecimalSI, True)
      else if s = ''M'' then (10, 6, DecimalSI, True)
      else if s = ''G'' then (10, 9, DecimalSI, True)
      else sh_interpret s)"

text \<open>\<open>constructBytes\<close>; the flag tells whether a suffix exists, and the bytes are empty if not.\<close>

definition constructBytes :: "int \<Rightarrow> int \<Rightarrow> format \<Rightarrow> string \<times> bool" where
  "constructBytes base exponent fmt =
     (case fmt of
        DecimalSI \<Rightarrow> (case beToSuffix decSuffixes (base, exponent) of Some s \<Rightarrow> (s, True) | None \<Rightarrow> ([], False))
      | BinarySI \<Rightarrow> (case beToSuffix binSuffixes (base, exponent) of Some s \<Rightarrow> (s, True) | None \<Rightarrow> ([], False))
      | DecimalExponent \<Rightarrow>
          if base \<noteq> 10 then ([], False)
          else if exponent = 0 then ([], True)
          else (CHR ''e'' # itoa exponent, True)
      | OtherFormat _ \<Rightarrow> ([], False))"

subsection \<open>Parsing\<close>

record quantity =
  q_i :: int64_amount
  q_d :: "dec option"
  q_s :: string
  q_Format :: format

record parsed_parts =
  pp_positive :: bool
  pp_value :: string
  pp_num :: string
  pp_denom :: string
  pp_suffix :: string

definition is_suffix_char :: "char \<Rightarrow> bool" where
  "is_suffix_char c \<longleftrightarrow> c \<in> set ''eEinumkKMGTP''"

text \<open>The end of \<open>parseQuantityString\<close>: letters, an optional sign, digits, end of string.\<close>

definition check_suffix :: "string \<Rightarrow> bool" where
  "check_suffix r =
     (let r1 = dropWhile is_suffix_char r;
          r2 = (case r1 of c # cs \<Rightarrow> if c = CHR ''-'' \<or> c = CHR ''+'' then cs else r1 | [] \<Rightarrow> [])
      in dropWhile is_digit r2 = [])"

definition parseQuantityString :: "string \<Rightarrow> quantity_error + parsed_parts" where
  "parseQuantityString str =
     (let (positive, r0) =
        (case str of
           c # cs \<Rightarrow> if c = CHR ''-'' then (False, cs) else if c = CHR ''+'' then (True, cs) else (True, str)
         | [] \<Rightarrow> (True, str));
          r1 = dropWhile (\<lambda>c. c = CHR ''0'') r0
      in
      if r1 = [] then
        Inr \<lparr>pp_positive = positive, pp_value = ''0'', pp_num = ''0'', pp_denom = [], pp_suffix = []\<rparr>
      else
        let num = takeWhile is_digit r1; r2 = dropWhile is_digit r1 in
        if r2 = [] then
          Inr \<lparr>pp_positive = positive, pp_value = str, pp_num = num, pp_denom = [], pp_suffix = []\<rparr>
        else
          let num' = (if num = [] then ''0'' else num);
              dot = (hd r2 = CHR ''.'');
              denom = (if dot then takeWhile is_digit (tl r2) else []);
              r3 = (if dot then dropWhile is_digit (tl r2) else r2)
          in
          if dot \<and> r3 = [] then
            Inr \<lparr>pp_positive = positive, pp_value = str, pp_num = num', pp_denom = denom, pp_suffix = []\<rparr>
          else if check_suffix r3 then
            Inr \<lparr>pp_positive = positive, pp_value = take (length str - length r3) str,
                 pp_num = num', pp_denom = denom, pp_suffix = r3\<rparr>
          else Inl ErrFormatWrong)"

text \<open>\<open>Dec.scan\<close>: collect sign and digits, note the decimal point; \<open>None\<close> when not all is consumed.\<close>

fun dec_scan_loop :: "string \<Rightarrow> string \<Rightarrow> nat option \<Rightarrow> bool \<Rightarrow> (string \<times> nat option \<times> bool) option" where
  "dec_scan_loop [] unscaled dp dg = Some (unscaled, dp, dg)"
| "dec_scan_loop (ch # r) unscaled dp dg =
     (if ch = CHR ''+'' \<or> ch = CHR ''-'' then
        (if unscaled \<noteq> [] \<or> dp \<noteq> None then None else dec_scan_loop r (unscaled @ [ch]) dp dg)
      else if ch = CHR ''.'' then
        (if dp \<noteq> None then None else dec_scan_loop r unscaled (Some (length unscaled)) dg)
      else if is_digit ch then dec_scan_loop r (unscaled @ [ch]) dp True
      else None)"

text \<open>\<open>big.Int.SetString\<close> in base 10 on what the scan collected: an optional sign and digits.\<close>

definition big_of_string :: "string \<Rightarrow> int option" where
  "big_of_string s =
     (let neg = (s \<noteq> [] \<and> hd s = CHR ''-'');
          body = (if s \<noteq> [] \<and> (hd s = CHR ''-'' \<or> hd s = CHR ''+'') then tl s else s)
      in if body = [] \<or> \<not> list_all is_digit body then None
         else Some (if neg then - int (horner 0 body) else int (horner 0 body)))"

definition dec_SetString :: "string \<Rightarrow> dec option" where
  "dec_SetString s =
     (case dec_scan_loop s [] None False of
        None \<Rightarrow> None
      | Some (unscaled, dp, dg) \<Rightarrow>
          if \<not> dg then None
          else map_option
            (\<lambda>u. \<lparr>dec_unscaled = u,
                  dec_scale = (case dp of None \<Rightarrow> 0 | Some p \<Rightarrow> int (length unscaled - p))\<rparr>)
            (big_of_string unscaled))"

definition maxAllowed :: dec where
  "maxAllowed = \<lparr>dec_unscaled = mostPositive, dec_scale = 0\<rparr>"

text \<open>The arbitrary-precision path of \<open>ParseQuantity\<close>, after the fast path has been ruled out.\<close>

definition parse_slow :: "string \<Rightarrow> int \<Rightarrow> int \<Rightarrow> format \<Rightarrow> quantity_error + quantity" where
  "parse_slow value base exponent fmt =
     (case dec_SetString value of
        None \<Rightarrow> Inl ErrNumeric
      | Some a0 \<Rightarrow>
          let a1 = (if base = 10 then a0\<lparr>dec_scale := wrap32 (dec_scale a0 + wrap32 (- exponent))\<rparr>
                    else if base = 2 then a0\<lparr>dec_unscaled := dec_unscaled a0 * 2 ^ nat exponent\<rparr>
                    else a0);
              sign = dec_Sign a1;
              a2 = (if sign = -1 then dec_Neg a1 else a1);
              a3 = (if dec_unscaled a2 \<noteq> 0 then dec_RoundUp a2 9 else a2);
              a4 = (if fmt = BinarySI \<and> 0 < dec_Cmp a3 maxAllowed then maxAllowed else a3);
              fmt' = (if fmt = BinarySI \<and> dec_Cmp a4 \<lparr>dec_unscaled = 1, dec_scale = 0\<rparr> < 0
                         \<and> 0 < dec_Cmp a4 \<lparr>dec_unscaled = 0, dec_scale = 0\<rparr> then DecimalSI else fmt);
              a5 = (if sign = -1 then dec_Neg a4 else a4)
          in Inr \<lparr>q_i = \<lparr>ia_value = 0, ia_scale = 0\<rparr>, q_d = Some a5, q_s = [], q_Format = fmt'\<rparr>)"

definition ParseQuantity :: "string \<Rightarrow> quantity_error + quantity" where
  "ParseQuantity str =
     (if str = [] then Inl ErrFormatWrong
      else if str = ''0'' then
        Inr \<lparr>q_i = \<lparr>ia_value = 0, ia_scale = 0\<rparr>, q_d = None, q_s = str, q_Format = DecimalSI\<rparr>
      else
        case parseQuantityString str of
          Inl e \<Rightarrow> Inl e
        | Inr p \<Rightarrow>
          case suffix_interpret (pp_suffix p) of
            (base, exponent, fmt, ok) \<Rightarrow>
              if \<not> ok then Inl ErrSuffix
              else
                let num = pp_num p; denom = pp_denom p;
                    (scale0, precision, mantissa) =
                      (if fmt = BinarySI then
                         (if 0 \<le> exponent \<and> denom = [] then
                            (0, 15 - int (length num) - (exponent * 3) sdiv 10 - 1, wrap64 (2 ^ nat exponent))
                          else (0, -1, 1))
                       else (exponent, 18 - int (length num + length denom), 1));
                    scale = wrap32 (scale0 - int (length denom));
                    shifted = num @ denom;
                    slow = parse_slow (pp_value p) base exponent fmt
                in
                if 0 \<le> precision \<and> -9 \<le> scale then
                  (case parse_int shifted of
                     (v, err) \<Rightarrow>
                       if err \<noteq> None then Inl ErrNumeric
                       else
                         case int64Multiply v mantissa of
                           (result0, mok) \<Rightarrow>
                             if mok then
                               let result = (if pp_positive p then result0 else wrap64 (- result0));
                                   reuse =
                                     (if fmt = BinarySI then exponent smod 10 = 0 \<and> v mod 8 \<noteq> 0
                                      else scale smod 3 = 0 \<and> \<not> has_suffix shifted ''000'' \<and> hd shifted \<noteq> CHR ''0'')
                               in Inr \<lparr>q_i = \<lparr>ia_value = result, ia_scale = scale\<rparr>, q_d = None,
                                       q_s = (if reuse then str else []), q_Format = fmt\<rparr>
                             else slow)
                else slow)"

subsection \<open>Operations\<close>

definition q_IsZero :: "quantity \<Rightarrow> bool" where
  "q_IsZero q = (case q_d q of Some d \<Rightarrow> dec_Sign d = 0 | None \<Rightarrow> ia_value (q_i q) = 0)"

definition q_Sign :: "quantity \<Rightarrow> int" where
  "q_Sign q = (case q_d q of Some d \<Rightarrow> dec_Sign d | None \<Rightarrow> ia_Sign (q_i q))"

definition q_AsInt64 :: "quantity \<Rightarrow> int \<times> bool" where
  "q_AsInt64 q = (case q_d q of Some _ \<Rightarrow> (0, False) | None \<Rightarrow> ia_AsInt64 (q_i q))"

definition zero_amount :: int64_amount where
  "zero_amount = \<lparr>ia_value = 0, ia_scale = 0\<rparr>"

definition q_ToDec :: "quantity \<Rightarrow> quantity" where
  "q_ToDec q = (case q_d q of Some _ \<Rightarrow> q | None \<Rightarrow> q\<lparr>q_d := Some (ia_AsDec (q_i q)), q_i := zero_amount\<rparr>)"

definition q_AsDec :: "quantity \<Rightarrow> dec \<times> quantity" where
  "q_AsDec q = (case q_d q of Some d \<Rightarrow> (d, q)
     | None \<Rightarrow> (ia_AsDec (q_i q), q\<lparr>q_d := Some (ia_AsDec (q_i q)), q_i := zero_amount\<rparr>))"

definition q_AsCanonicalBytes :: "quantity \<Rightarrow> string \<times> int" where
  "q_AsCanonicalBytes q =
     (case q_d q of Some d \<Rightarrow> da_AsCanonicalBytes d | None \<Rightarrow> ia_AsCanonicalBytes (q_i q))"

text \<open>The same mantissa and exponent before the mantissa is printed.\<close>

definition q_canonical :: "quantity \<Rightarrow> int \<times> int" where
  "q_canonical q = (case q_d q of Some d \<Rightarrow> da_canonical d | None \<Rightarrow> ia_canonical (q_i q))"

text \<open>\<open>AsScale\<close> returns one of the two implementations of the interface \<open>CanonicalValue\<close>.\<close>

datatype canonical_value = CanonInt int64_amount | CanonDec dec

fun cv_AsCanonicalBase1024Bytes :: "canonical_value \<Rightarrow> string \<times> int" where
  "cv_AsCanonicalBase1024Bytes (CanonInt a) = ia_AsCanonicalBase1024Bytes a"
| "cv_AsCanonicalBase1024Bytes (CanonDec d) = da_AsCanonicalBase1024Bytes d"

definition q_AsScale :: "quantity \<Rightarrow> int \<Rightarrow> canonical_value \<times> bool" where
  "q_AsScale q scale =
     (case q_d q of
        Some d \<Rightarrow> (case da_AsScale d scale of (d', exact) \<Rightarrow> (CanonDec d', exact))
      | None \<Rightarrow> (case ia_AsScale (q_i q) scale of (a', exact) \<Rightarrow> (CanonInt a', exact)))"

definition q_RoundUp :: "quantity \<Rightarrow> int \<Rightarrow> quantity \<times> bool" where
  "q_RoundUp q scale =
     (case q_d q of
        Some d \<Rightarrow> (case da_AsScale d scale of (d', exact) \<Rightarrow> (q\<lparr>q_s := [], q_d := Some d'\<rparr>, exact))
      | None \<Rightarrow>
          if scale \<le> ia_scale (q_i q) then (q, True)
          else (case ia_AsScale (q_i q) scale of (a', exact) \<Rightarrow> (q\<lparr>q_s := [], q_i := a'\<rparr>, exact)))"

definition q_CmpInt64 :: "quantity \<Rightarrow> int \<Rightarrow> int" where
  "q_CmpInt64 q y =
     (case q_d q of
        Some d \<Rightarrow> dec_Cmp d \<lparr>dec_unscaled = y, dec_scale = 0\<rparr>
      | None \<Rightarrow> ia_Cmp (q_i q) \<lparr>ia_value = y, ia_scale = 0\<rparr>)"

definition q_CanonicalizeBytes :: "quantity \<Rightarrow> string \<times> string" where
  "q_CanonicalizeBytes q =
     (if q_IsZero q then (''0'', [])
      else
        let fmt =
          (case q_Format q of
             DecimalExponent \<Rightarrow> DecimalExponent
           | DecimalSI \<Rightarrow> DecimalSI
           | BinarySI \<Rightarrow>
               if 0 < q_CmpInt64 q (-1024) \<and> q_CmpInt64 q 1024 < 0 then DecimalSI
               else if \<not> snd (q_AsScale q 0) then DecimalSI else BinarySI
           | OtherFormat _ \<Rightarrow> DecimalExponent)
        in
        if fmt = DecimalExponent \<or> fmt = DecimalSI then
          (case q_AsCanonicalBytes q of
             (number, exponent) \<Rightarrow> (number, fst (constructBytes 10 exponent fmt)))
        else
          (case cv_AsCanonicalBase1024Bytes (fst (q_AsScale q 0)) of
             (number, exponent) \<Rightarrow> (number, fst (constructBytes 2 (exponent * 10) fmt))))"

definition q_String :: "quantity \<Rightarrow> string \<times> quantity" where
  "q_String q =
     (if q_s q = [] then
        (case q_CanonicalizeBytes q of
           (number, suf) \<Rightarrow> (number @ suf, q\<lparr>q_s := number @ suf\<rparr>))
      else (q_s q, q))"

definition q_Add :: "quantity \<Rightarrow> quantity \<Rightarrow> quantity" where
  "q_Add q0 y =
     (let q = q0\<lparr>q_s := []\<rparr>;
          slow = (\<lambda>q. case q_ToDec q of q' \<Rightarrow>
                    q'\<lparr>q_d := map_option (\<lambda>d. dec_Add d (fst (q_AsDec y))) (q_d q')\<rparr>)
      in
      if q_d q = None \<and> q_d y = None then
        (let q1 = (if ia_value (q_i q) = 0 then q\<lparr>q_Format := q_Format y\<rparr> else q) in
         case ia_Add (q_i q1) (q_i y) of
           (i', ok) \<Rightarrow> if ok then q1\<lparr>q_i := i'\<rparr> else slow q1)
      else slow (if q_IsZero q then q\<lparr>q_Format := q_Format y\<rparr> else q))"

definition q_Sub :: "quantity \<Rightarrow> quantity \<Rightarrow> quantity" where
  "q_Sub q0 y =
     (let q = (if q_IsZero q0 then q0\<lparr>q_s := [], q_Format := q_Format y\<rparr> else q0\<lparr>q_s := []\<rparr>);
          slow = (case q_ToDec q of q' \<Rightarrow>
                    q'\<lparr>q_d := map_option (\<lambda>d. dec_Sub d (fst (q_AsDec y))) (q_d q')\<rparr>)
      in
      if q_d q = None \<and> q_d y = None then
        (case ia_Sub (q_i q) (q_i y) of (i', ok) \<Rightarrow> if ok then q\<lparr>q_i := i'\<rparr> else slow)
      else slow)"

definition q_Cmp :: "quantity \<Rightarrow> quantity \<Rightarrow> int \<times> quantity" where
  "q_Cmp q y =
     (if q_d q = None \<and> q_d y = None then (ia_Cmp (q_i q) (q_i y), q)
      else case q_AsDec q of (d, q') \<Rightarrow> (dec_Cmp d (fst (q_AsDec y)), q'))"

definition q_Neg :: "quantity \<Rightarrow> quantity" where
  "q_Neg q =
     (case q_d q of
        None \<Rightarrow> q\<lparr>q_s := [], q_i := (q_i q)\<lparr>ia_value := wrap64 (- ia_value (q_i q))\<rparr>\<rparr>
      | Some d \<Rightarrow> q\<lparr>q_s := [], q_d := Some (dec_Neg d)\<rparr>)"

definition q_Equal :: "quantity \<Rightarrow> quantity \<Rightarrow> bool" where
  "q_Equal q v \<longleftrightarrow> fst (q_Cmp q v) = 0"

definition NewQuantity :: "int \<Rightarrow> format \<Rightarrow> quantity" where
  "NewQuantity value fmt =
     \<lparr>q_i = \<lparr>ia_value = value, ia_scale = 0\<rparr>, q_d = None, q_s = [], q_Format = fmt\<rparr>"

definition NewMilliQuantity :: "int \<Rightarrow> format \<Rightarrow> quantity" where
  "NewMilliQuantity value fmt =
     \<lparr>q_i = \<lparr>ia_value = value, ia_scale = -3\<rparr>, q_d = None, q_s = [], q_Format = fmt\<rparr>"

definition NewScaledQuantity :: "int \<Rightarrow> int \<Rightarrow> quantity" where
  "NewScaledQuantity value scale =
     \<lparr>q_i = \<lparr>ia_value = value, ia_scale = scale\<rparr>, q_d = None, q_s = [], q_Format = DecimalSI\<rparr>"

definition q_ScaledValue :: "quantity \<Rightarrow> int \<Rightarrow> int" where
  "q_ScaledValue q scale =
     (case q_d q of
        None \<Rightarrow> fst (ia_AsScaledInt64 (q_i q) scale)
      | Some d \<Rightarrow> scaledValue (dec_unscaled d) (dec_scale d) (- scale))"

definition q_Value :: "quantity \<Rightarrow> int" where
  "q_Value q = q_ScaledValue q 0"

definition q_MilliValue :: "quantity \<Rightarrow> int" where
  "q_MilliValue q = q_ScaledValue q (-3)"

definition q_SetScaled :: "quantity \<Rightarrow> int \<Rightarrow> int \<Rightarrow> quantity" where
  "q_SetScaled q value scale = q\<lparr>q_s := [], q_d := None, q_i := \<lparr>ia_value = value, ia_scale = scale\<rparr>\<rparr>"

definition q_Set :: "quantity \<Rightarrow> int \<Rightarrow> quantity" where
  "q_Set q value = q_SetScaled q value 0"

definition q_SetMilli :: "quantity \<Rightarrow> int \<Rightarrow> quantity" where
  "q_SetMilli q value = q_SetScaled q value (-3)"

definition q_MarshalJSON :: "quantity \<Rightarrow> string" where
  "q_MarshalJSON q =
     (if q_s q \<noteq> [] then CHR 34 # q_s q @ [CHR 34]
      else case q_CanonicalizeBytes q of (number, suf) \<Rightarrow> CHR 34 # number @ suf @ [CHR 34])"

text \<open>
  \<open>strings.TrimSpace\<close> on ASCII, and \<open>UnmarshalJSON\<close>: the new receiver, or the error and the
  receiver as it was.
\<close>

definition is_space :: "char \<Rightarrow> bool" where
  "is_space c \<longleftrightarrow> of_char c \<in> {9, 10, 11, 12, 13, 32 :: nat}"

definition trim_space :: "string \<Rightarrow> string" where
  "trim_space s = rev (dropWhile is_space (rev (dropWhile is_space s)))"

definition q_UnmarshalJSON :: "quantity \<Rightarrow> string \<Rightarrow> quantity_error + quantity" where
  "q_UnmarshalJSON q value =
     (if value = ''null'' then Inr (q\<lparr>q_d := None, q_i := zero_amount\<rparr>)
      else
        let quoted = (2 \<le> length value \<and> hd value = CHR 34 \<and> last value = CHR 34);
            v = (if quoted then butlast (tl value) else value)
        in ParseQuantity (trim_space v))"

subsection \<open>What a quantity denotes\<close>

definition q_val :: "quantity \<Rightarrow> rat" where
  "q_val q = (case q_d q of Some d \<Rightarrow> dec_val d | None \<Rightarrow> ia_val (q_i q))"

definition q_ok :: "quantity \<Rightarrow> bool" where
  "q_ok q \<longleftrightarrow> ia_ok (q_i q)"

end
