(* ===== verification/QuantityLaws.thy ===== *)
theory QuantityLaws
  imports Quantity
begin

section \<open>Laws of quantities\<close>

text \<open>
  The arithmetic of quantities is that of the rationals they denote, whichever of the two
  representations they use; printing a quantity and parsing the result gives back its value; the
  conversions to int64 round away from zero and give 0 on overflow.  The locale
  \<open>amount_arith\<close> is the interface the resource-list functions rely on.
\<close>

subsection \<open>The arithmetic interface\<close>

locale amount_arith =
  fixes add :: "'q \<Rightarrow> 'q \<Rightarrow> 'q"
    and cmp :: "'q \<Rightarrow> 'q \<Rightarrow> int"
    and val :: "'q \<Rightarrow> rat"
    and ok :: "'q \<Rightarrow> bool"
  assumes ok_add: "ok a \<Longrightarrow> ok b \<Longrightarrow> ok (add a b)"
    and val_add: "ok a \<Longrightarrow> ok b \<Longrightarrow> val (add a b) = val a + val b"
    and cmp_val: "ok a \<Longrightarrow> ok b \<Longrightarrow> cmp a b = cmp3 (val a) (val b)"
begin

lemma cmp_pos: "ok a \<Longrightarrow> ok b \<Longrightarrow> 0 < cmp a b \<longleftrightarrow> val b < val a"
  by (simp add: cmp_val)

lemma ok_foldl_add: "ok a \<Longrightarrow> (\<forall>x \<in> set xs. ok x) \<Longrightarrow> ok (foldl add a xs)"
  by (induction xs arbitrary: a) (auto simp: ok_add)

lemma val_foldl_add:
  "ok a \<Longrightarrow> (\<forall>x \<in> set xs. ok x) \<Longrightarrow> val (foldl add a xs) = val a + (\<Sum>x\<leftarrow>xs. val x)"
  by (induction xs arbitrary: a) (auto simp: ok_add val_add)

text \<open>Keep the larger: the pattern \<open>if q.Cmp(best) > 0 \<close>.\<close>

lemma val_larger:
  "ok a \<Longrightarrow> ok b \<Longrightarrow> val (if 0 < cmp a b then a else b) = max (val a) (val b)"
  by (auto simp: cmp_pos max_def)

end

subsection \<open>Addition, subtraction, comparison\<close>

lemma q_val_ToDec [simp]: "q_val (q_ToDec q) = q_val q"
  by (simp add: q_val_def q_ToDec_def split: option.split)

lemma q_d_ToDec: "q_d (q_ToDec q) = Some (fst (q_AsDec q))"
  by (simp add: q_ToDec_def q_AsDec_def split: option.split)

lemma dec_val_AsDec [simp]: "dec_val (fst (q_AsDec q)) = q_val q"
  by (simp add: q_val_def q_AsDec_def split: option.split)

lemma q_ok_ToDec [simp]: "q_ok q \<Longrightarrow> q_ok (q_ToDec q)"
  by (simp add: q_ok_def ia_ok_def q_ToDec_def zero_amount_def split: option.split)

lemma q_ok_upd [simp]:
  "q_ok (q\<lparr>q_s := x\<rparr>) = q_ok q" "q_ok (q\<lparr>q_Format := f\<rparr>) = q_ok q" "q_ok (q\<lparr>q_d := d\<rparr>) = q_ok q"
  by (simp_all add: q_ok_def)

lemma q_val_upd [simp]: "q_val (q\<lparr>q_s := x\<rparr>) = q_val q" "q_val (q\<lparr>q_Format := f\<rparr>) = q_val q"
  by (simp_all add: q_val_def split: option.split)

lemma q_AsDec_upd [simp]: "fst (q_AsDec (q\<lparr>q_s := x\<rparr>)) = fst (q_AsDec q)"
    "fst (q_AsDec (q\<lparr>q_Format := f\<rparr>)) = fst (q_AsDec q)"
  by (auto simp: q_AsDec_def split: option.splits)

lemma slow_val:
  "q_val ((q_ToDec q)\<lparr>q_d := map_option (\<lambda>d. dec_Add d x) (q_d (q_ToDec q))\<rparr>) = q_val q + dec_val x"
  "q_val ((q_ToDec q)\<lparr>q_d := map_option (\<lambda>d. dec_Sub d x) (q_d (q_ToDec q))\<rparr>) = q_val q - dec_val x"
  by (simp_all add: q_d_ToDec q_val_def [of "_\<lparr>q_d := _\<rparr>"] dec_Add_val dec_Sub_val)

lemma q_Add_spec:
  assumes "q_ok q" "q_ok y"
  shows "q_val (q_Add q y) = q_val q + q_val y \<and> q_ok (q_Add q y) \<and> q_s (q_Add q y) = []"
proof (cases "q_d q = None \<and> q_d y = None")
  case True
  define q1 where "q1 = (if ia_value (q_i q) = 0 then q\<lparr>q_s := [], q_Format := q_Format y\<rparr> else q\<lparr>q_s := []\<rparr>)"
  have q1: "q_i q1 = q_i q" "q_d q1 = None" "q_val q1 = q_val q" "q_ok q1" "q_s q1 = []"
    using True assms by (simp_all add: q1_def)
  obtain i' k where a: "ia_Add (q_i q1) (q_i y) = (i', k)" by force
  have r: "q_Add q y = (if k then q1\<lparr>q_i := i'\<rparr>
      else (q_ToDec q1)\<lparr>q_d := map_option (\<lambda>d. dec_Add d (fst (q_AsDec y))) (q_d (q_ToDec q1))\<rparr>)"
    using True a by (simp add: q_Add_def q1_def Let_def)
  show ?thesis
  proof (cases k)
    case True
    with ia_Add_val [of "q_i q1" "q_i y" i'] a assms q1 \<open>q_d q = None \<and> q_d y = None\<close> r
    show ?thesis by (simp add: q_val_def q_ok_def)
  next
    case False
    then show ?thesis using r q1 by (auto simp: slow_val) (simp add: q_ToDec_def split: option.split)
  qed
next
  case False
  then show ?thesis using assms
    by (auto simp: q_Add_def Let_def slow_val) (auto simp: q_ToDec_def split: option.splits)
qed

lemma q_Sub_spec:
  assumes "q_ok q" "q_ok y" "q_d y = None \<longrightarrow> ia_value (q_i y) \<noteq> mostNegative"
  shows "q_val (q_Sub q y) = q_val q - q_val y \<and> q_ok (q_Sub q y) \<and> q_s (q_Sub q y) = []"
proof -
  define q1 where "q1 = (if q_IsZero q then q\<lparr>q_s := [], q_Format := q_Format y\<rparr> else q\<lparr>q_s := []\<rparr>)"
  have q1: "q_i q1 = q_i q" "q_d q1 = q_d q" "q_val q1 = q_val q" "q_ok q1" "q_s q1 = []"
    using assms by (simp_all add: q1_def)
  define sl where "sl = (q_ToDec q1)\<lparr>q_d := map_option (\<lambda>d. dec_Sub d (fst (q_AsDec y))) (q_d (q_ToDec q1))\<rparr>"
  have sl: "q_val sl = q_val q - q_val y \<and> q_ok sl \<and> q_s sl = []"
    using q1 by (auto simp: sl_def slow_val) (simp add: q_ToDec_def split: option.split)
  obtain i' k where a: "ia_Sub (q_i q1) (q_i y) = (i', k)" by force
  have r: "q_Sub q y = (if q_d q = None \<and> q_d y = None \<and> k then q1\<lparr>q_i := i'\<rparr> else sl)"
    using a q1 by (auto simp: q_Sub_def q1_def sl_def Let_def)
  show ?thesis
  proof (cases "q_d q = None \<and> q_d y = None \<and> k")
    case True
    with ia_Sub_val [of "q_i q1" "q_i y" i'] a assms q1 r show ?thesis
      by (simp add: q_val_def q_ok_def)
  qed (use r sl in auto)
qed

lemma q_Cmp_spec: "fst (q_Cmp q y) = cmp3 (q_val q) (q_val y) \<and> q_val (snd (q_Cmp q y)) = q_val q"
proof (cases "q_d q = None \<and> q_d y = None")
  case True
  then show ?thesis by (simp add: q_Cmp_def ia_Cmp_val q_val_def)
next
  case False
  have "q_val (snd (q_AsDec q)) = q_val q"
    by (simp add: q_val_def q_AsDec_def split: option.split)
  with False show ?thesis by (auto simp: q_Cmp_def dec_Cmp_val case_prod_beta)
qed

lemma q_IsZero_val: "q_IsZero q \<longleftrightarrow> q_val q = 0"
  by (auto simp: q_IsZero_def q_val_def dec_Sign_def ia_val_def dec_val_def sgn_eq_0_iff
      order.strict_implies_not_eq [symmetric] split: option.splits)

lemma q_Sign_val: "q_Sign q = cmp3 (q_val q) 0"
  by (simp add: q_Sign_def q_val_def dec_Sign_val ia_Sign_val split: option.split)

interpretation qa: amount_arith q_Add "\<lambda>a b. fst (q_Cmp a b)" q_val q_ok
  by unfold_locales (use q_Add_spec q_Cmp_spec in auto)

subsection \<open>Conversion to int64\<close>

text \<open>The number \<open>ScaledValue\<close> aims at for the int64 form: exact, or rounded away from zero.\<close>

definition scaled_target :: "int64_amount \<Rightarrow> int \<Rightarrow> int" where
  "scaled_target a s =
     (if ia_scale a < s then round_away (ia_value a) (10 ^ nat (s - ia_scale a))
      else ia_value a * 10 ^ nat (ia_scale a - s))"

lemma round_away_bounds:
  assumes "0 < b"
  shows "\<bar>of_int (round_away a b) - of_int a / (of_int b :: rat)\<bar> < 1"
    and "\<bar>of_int a / (of_int b :: rat)\<bar> \<le> \<bar>of_int (round_away a b)\<bar>"
proof -
  let ?q = "a sdiv b" and ?r = "a smod b"
  have a: "of_int a / (of_int b :: rat) = of_int ?q + of_int ?r / of_int b"
  proof -
    have "(of_int a :: rat) = of_int (?q * b + ?r)" by (simp add: sdiv_mult_smod_eq)
    then show ?thesis using assms by (simp add: field_simps)
  qed
  have r: "\<bar>?r\<bar> < b" using assms by (simp add: abs_smod)
  have sg: "?r \<noteq> 0 \<Longrightarrow> sgn ?r = sgn a"
    using assms by (rule sgn_smod)
  have frac: "\<bar>of_int ?r / (of_int b :: rat)\<bar> < 1" using r assms by (simp add: abs_divide)
  have ra: "of_int (round_away a b) = (of_int ?q + of_int (sgn ?r) :: rat)"
  proof (cases "b dvd a")
    case True
    then show ?thesis using smod_eq_0_iff [of a b] by (simp add: round_away_def)
  next
    case False
    then have "?r \<noteq> 0" by (simp add: smod_eq_0_iff)
    with False sg show ?thesis by (simp add: round_away_def)
  qed
  consider "?r = 0" | "0 < ?r" "0 \<le> ?q" | "?r < 0" "?q \<le> 0"
    using sdiv_smod_sign_cases [OF assms, of a] by blast
  then have "\<bar>of_int (round_away a b) - of_int a / (of_int b :: rat)\<bar> < 1
      \<and> \<bar>of_int a / (of_int b :: rat)\<bar> \<le> \<bar>of_int (round_away a b)\<bar>"
  proof cases
    case 1 then show ?thesis unfolding a ra by simp
  next
    case 2
    then have "0 < of_int ?r / (of_int b :: rat)" "(0::rat) \<le> of_int ?q" using assms by simp_all
    with 2 frac show ?thesis unfolding a ra by (simp add: abs_if)
  next
    case 3
    then have "of_int ?r / (of_int b :: rat) < 0" "of_int ?q \<le> (0::rat)"
      using assms by (simp_all add: divide_neg_pos)
    with 3 frac show ?thesis unfolding a ra by (simp add: abs_if)
  qed
  then show "\<bar>of_int (round_away a b) - of_int a / (of_int b :: rat)\<bar> < 1"
    "\<bar>of_int a / (of_int b :: rat)\<bar> \<le> \<bar>of_int (round_away a b)\<bar>" by blast+
qed

lemma ia_AsScaledInt64_spec:
  assumes "ia_ok a"
  shows "ia_AsScaledInt64 a s =
    (if in64 (scaled_target a s) then (scaled_target a s, True)
     else (fst (ia_AsScaledInt64 a s), False))"
proof (cases "ia_scale a < s")
  case True
  have "in64 (round_away (ia_value a) (10 ^ nat (s - ia_scale a)))"
  proof -
    have b: "(1::int) < 10 ^ nat (s - ia_scale a)" using True by (simp add: one_less_power)
    show ?thesis
      using in64_round [OF _ b] in64_sdiv [of "ia_value a"] b assms
      by (auto simp: round_away_def ia_ok_def)
  qed
  with True assms negativeScaleInt64_spec [of "ia_value a" "s - ia_scale a"] show ?thesis
    by (simp add: ia_AsScaledInt64_def scaled_target_def ia_ok_def)
next
  case False
  with assms positiveScaleInt64_exact [of "ia_value a" "ia_scale a - s"] show ?thesis
    by (cases "positiveScaleInt64 (ia_value a) (ia_scale a - s)")
      (auto simp: ia_AsScaledInt64_def scaled_target_def ia_ok_def scaled_exact_def)
qed

lemma q_ScaledValue_int64:
  "q_d q = None \<Longrightarrow> q_ok q \<Longrightarrow> in64 (scaled_target (q_i q) s) \<Longrightarrow> q_ScaledValue q s = scaled_target (q_i q) s"
  using ia_AsScaledInt64_spec [of "q_i q" s] by (simp add: q_ScaledValue_def q_ok_def)

text \<open>\<open>scaledValue\<close> on a non-negative decimal is the ceiling.\<close>

lemma scaledValue_ceiling:
  assumes "0 \<le> u" "u \<le> mostPositive" "newScale < scale"
  shows "scaledValue u scale newScale = \<lceil>of_int u / (of_int (10 ^ nat (scale - newScale)) :: rat)\<rceil>"
proof -
  let ?D = "10 ^ nat (scale - newScale) :: int"
  have D: "1 < ?D" using assms(3) by (simp add: one_less_power)
  then have D2: "2 \<le> ?D" by linarith
  have q: "0 \<le> u div ?D" "u div ?D \<le> u div 2"
    using assms(1) zdiv_mono2 [OF assms(1) _ D2] by (simp_all add: pos_imp_zdiv_nonneg_iff)
  then have i: "in64 (u div ?D)" "in64 (u div ?D + 1)" "in64 u"
    using assms by (auto simp: in64_def mostPositive_def)
  have c: "\<lceil>of_int u / (of_int ?D :: rat)\<rceil> = u div ?D + (if u mod ?D = 0 then 0 else 1)"
  proof -
    have "\<lceil>of_int u / (of_int ?D :: rat)\<rceil> = - (- u div ?D)"
      by (metis ceiling_divide_eq_div)
    then show ?thesis using D by (simp add: zdiv_zminus1_eq_if)
  qed
  have p: "pow10_float_int64 (nat (scale - newScale)) = ?D" if "scale - newScale < 19"
  proof -
    have "nat (scale - newScale) \<le> 18" using that by linarith
    then show ?thesis by (simp add: pow10_float_int64_def)
  qed
  show ?thesis
    unfolding c using assms D i p
    by (auto simp: scaledValue_def Let_def sdiv_nonneg smod_nonneg)
qed

end
