(* ===== verification/Pods.thy ===== *)
theory Pods
  imports QuantityLaws "HOL-Library.AList"
begin

section \<open>Pods, containers and resource lists\<close>

text \<open>
  The fields of \<open>v1.Pod\<close> and \<open>v1.Container\<close> that the modelled code reads.  A resource list is a
  Go map from names to quantities; it is an association list here, whose order stands for the
  order in which a \<open>range\<close> loop visits the map, so every theorem holds for every visiting order.
  An absent pointer or map entry is \<open>None\<close>; \<open>p_PodAffinity\<close> and \<open>p_PodAntiAffinity\<close> say whether the
  pod's affinity has the corresponding part and \<open>p_AffinityTerms\<close> are the required terms of the former;
  \<open>p_PreemptNever\<close> says whether the preemption policy is \<open>Never\<close>, \<open>p_VolumeClaims\<close> are the names of the claims
  among its volumes, \<open>p_StartTime\<close> is the start time in its status and \<open>p_Conditions\<close> has type, value and reason of the
  conditions there.  Pods are compared only by the scheduler's tests for updates.  The zero value of a pod (\<open>empty_pod\<close>) has the
  restart policy Always here and the empty string in Go; the code only tests a policy for being
  Never or OnFailure, and the empty string is neither.
\<close>

type_synonym resource_list = "(string \<times> quantity) list"

datatype protocol = TCP | UDP | SCTP

record container_port =
  cp_HostIP :: string
  cp_Protocol :: protocol
  cp_HostPort :: int

record container =
  c_Name :: string
  c_Requests :: resource_list
  c_Limits :: resource_list
  c_Ports :: "container_port list"
  c_PostStart :: bool

datatype selector_operator = OpIn | OpNotIn | OpExists | OpDoesNotExist | OtherOperator string

record selector_requirement =
  sr_Key :: string
  sr_Operator :: selector_operator
  sr_Values :: "string list"

record label_selector =
  ls_MatchLabels :: "(string \<times> string) list"
  ls_MatchExpressions :: "selector_requirement list"

record affinity_term =
  at_LabelSelector :: "label_selector option"
  at_Namespaces :: "string list"

datatype restart_policy = RestartAlways | RestartOnFailure | RestartNever

record pod =
  p_Name :: string
  p_Namespace :: string
  p_UID :: string
  p_Containers :: "container list"
  p_InitContainers :: "container list"
  p_EphemeralContainers :: "container list"
  p_Overhead :: "resource_list option"
  p_RestartPolicy :: restart_policy
  p_HostNetwork :: bool
  p_NodeName :: string
  p_Priority :: int
  p_Deleting :: bool
  p_PodAffinity :: bool
  p_PodAntiAffinity :: bool
  p_AffinityTerms :: "affinity_term list"
  p_Labels :: "(string \<times> string) list"
  p_NominatedNodeName :: string
  p_StartTime :: "int option"
  p_PreemptNever :: bool
  p_VolumeClaims :: "string list"
  p_SchedulerName :: string
  p_Annotations :: "(string \<times> string) list"
  p_Conditions :: "(string \<times> string \<times> string) list"

definition empty_container :: "string \<Rightarrow> container" where
  "empty_container n = \<lparr>c_Name = n, c_Requests = [], c_Limits = [], c_Ports = [], c_PostStart = False\<rparr>"

definition empty_pod :: pod where
  "empty_pod = \<lparr>p_Name = [], p_Namespace = [], p_UID = [], p_Containers = [], p_InitContainers = [],
     p_EphemeralContainers = [], p_Overhead = None, p_RestartPolicy = RestartAlways,
     p_HostNetwork = False, p_NodeName = [], p_Priority = 0, p_Deleting = False,
     p_PodAffinity = False, p_PodAntiAffinity = False, p_AffinityTerms = [], p_Labels = [], p_NominatedNodeName = [],
     p_StartTime = None, p_PreemptNever = False, p_VolumeClaims = [],
     p_SchedulerName = [], p_Annotations = [], p_Conditions = []\<rparr>"

abbreviation ResourceCPU :: string where "ResourceCPU \<equiv> ''cpu''"
abbreviation ResourceMemory :: string where "ResourceMemory \<equiv> ''memory''"
abbreviation ResourceEphemeralStorage :: string where "ResourceEphemeralStorage \<equiv> ''ephemeral-storage''"
abbreviation ResourcePods :: string where "ResourcePods \<equiv> ''pods''"

text \<open>The extended resource that carries the network SLO of a pod, in Mbit/s.\<close>

abbreviation ResourceSLO :: string where "ResourceSLO \<equiv> ''example.com/SLO''"

definition zero_quantity :: quantity where
  "zero_quantity = \<lparr>q_i = zero_amount, q_d = None, q_s = [], q_Format = OtherFormat []\<rparr>"

text \<open>Indexing a Go map: the zero value when the key is absent.\<close>

definition rl_index :: "resource_list \<Rightarrow> string \<Rightarrow> quantity" where
  "rl_index l k = (case map_of l k of None \<Rightarrow> zero_quantity | Some q \<Rightarrow> q)"

subsection \<open>What a resource list denotes\<close>

definition rl_ok :: "resource_list \<Rightarrow> bool" where
  "rl_ok l \<longleftrightarrow> distinct (map fst l) \<and> (\<forall>q \<in> snd ` set l. q_ok q)"

definition rl_val :: "resource_list \<Rightarrow> string \<Rightarrow> rat" where
  "rl_val l r = (case map_of l r of None \<Rightarrow> 0 | Some q \<Rightarrow> q_val q)"

definition rl_nonneg :: "resource_list \<Rightarrow> bool" where
  "rl_nonneg l \<longleftrightarrow> (\<forall>q \<in> snd ` set l. 0 \<le> q_val q)"

lemma q_val_zero_quantity [simp]: "q_val zero_quantity = 0"
  by (simp add: q_val_def zero_quantity_def zero_amount_def ia_val_def)

lemma q_ok_zero_quantity [simp]: "q_ok zero_quantity"
  by (simp add: q_ok_def ia_ok_def zero_quantity_def zero_amount_def)

lemma q_val_rl_index [simp]: "q_val (rl_index l r) = rl_val l r"
  by (simp add: rl_index_def rl_val_def split: option.split)

lemma rl_val_Nil [simp]: "rl_val [] r = 0"
  by (simp add: rl_val_def)

lemma rl_ok_Nil [simp]: "rl_ok []"
  by (simp add: rl_ok_def)

lemma rl_ok_Cons:
  "rl_ok ((k, q) # l) \<longleftrightarrow> q_ok q \<and> map_of l k = None \<and> rl_ok l"
  by (auto simp: rl_ok_def map_of_eq_None_iff image_iff)

lemma rl_ok_lookup: "rl_ok l \<Longrightarrow> map_of l r = Some q \<Longrightarrow> q_ok q"
  by (force simp: rl_ok_def dest: map_of_SomeD)

lemma rl_ok_index [simp]: "rl_ok l \<Longrightarrow> q_ok (rl_index l r)"
  by (auto simp: rl_index_def rl_ok_lookup split: option.split)

lemma rl_nonneg_val: "rl_nonneg l \<Longrightarrow> 0 \<le> rl_val l r"
  by (force simp: rl_nonneg_def rl_val_def split: option.split dest: map_of_SomeD)

lemma rl_ok_update:
  assumes "rl_ok l" "q_ok q"
  shows "rl_ok (AList.update r q l)"
proof -
  have "snd ` set (AList.update r q l) \<subseteq> insert q (snd ` set l)"
    by (induction l) (auto split: if_splits)
  moreover have "distinct (map fst (AList.update r q l))"
    using assms by (simp add: rl_ok_def distinct_update)
  ultimately show ?thesis using assms unfolding rl_ok_def by blast
qed

lemma map_of_update [simp]: "map_of (AList.update k v l) = (map_of l)(k \<mapsto> v)"
  by (rule update_conv')

lemma rl_val_update: "rl_val (AList.update k q l) r = (if r = k then q_val q else rl_val l r)"
  by (simp add: rl_val_def)

text \<open>Changing an entry of a map in place.\<close>

lemma map_of_map_entry [simp]: "map_of (AList.map_entry k f l) = (map_of l)(k := map_option f (map_of l k))"
  by (induction l) (auto simp: fun_eq_iff)

lemma keys_entry [simp]: "map fst (AList.map_entry n f l) = map fst l"
  by (induction l) auto

end
