(* ===== verification/QuantityRoundtrip.thy ===== *)
theory QuantityRoundtrip
  imports QuantityLaws
begin

section \<open>Parsing what String prints\<close>

text \<open>
  For a quantity in format DecimalSI whose canonical exponent has a suffix (from \<open>n\<close> to \<open>E\<close>),
  parsing the printed string gives a quantity of the same value, through the int64 path or the
  arbitrary-precision path of the parser.
\<close>

definition si_exponent :: "int \<Rightarrow> bool" where
  "si_exponent e \<longleftrightarrow> e \<in> {-9, -6, -3, 0, 3, 6, 9, 12, 15, 18}"

lemma si_exponentI: "3 dvd e \<Longrightarrow> -9 \<le> e \<Longrightarrow> e \<le> 18 \<Longrightarrow> si_exponent e"
proof -
  assume "3 dvd e" and b: "-9 \<le> e" "e \<le> 18"
  then obtain k where k: "e = 3 * k" by blast
  with b have "-3 \<le> k \<and> k \<le> 6" by simp
  then have "k = -3 \<or> k = -2 \<or> k = -1 \<or> k = 0 \<or> k = 1 \<or> k = 2 \<or> k = 3 \<or> k = 4 \<or> k = 5 \<or> k = 6"
    by presburger
  with k show ?thesis by (auto simp: si_exponent_def)
qed

definition si_suffix :: "int \<Rightarrow> string" where
  "si_suffix e = fst (constructBytes 10 e DecimalSI)"

lemmas suffix_tables = decSuffixes_def binSuffixes_def addSuffix_def empty_suffixer_def

lemma si_suffix_simps [simp]:
  "si_suffix (-9) = ''n''" "si_suffix (-6) = ''u''" "si_suffix (-3) = ''m''" "si_suffix 0 = ''''"
  "si_suffix 3 = ''k''" "si_suffix 6 = ''M''" "si_suffix 9 = ''G''" "si_suffix 12 = ''T''"
  "si_suffix 15 = ''P''" "si_suffix 18 = ''E''"
  by (simp_all add: si_suffix_def constructBytes_def suffix_tables)

lemma interpret_si_suffix: "si_exponent e \<Longrightarrow> suffix_interpret (si_suffix e) = (10, e, DecimalSI, True)"
  unfolding si_exponent_def
  by (elim insertE emptyE) (simp_all add: suffix_interpret_def sh_interpret_def suffix_tables)

lemma si_suffix_shape:
  "si_exponent e \<Longrightarrow> si_suffix e = [] \<or>
     (\<exists>c. si_suffix e = [c] \<and> is_suffix_char c \<and> \<not> is_digit c \<and> c \<noteq> CHR ''.'')"
  unfolding si_exponent_def
  by (elim insertE emptyE) (simp_all add: is_suffix_char_def is_digit_def)

text \<open>The digits of a positive number have no leading zero.\<close>

lemma hd_nat_digits_nonzero: "0 < n \<Longrightarrow> hd (nat_digits n) \<noteq> CHR ''0''"
proof (induction n rule: nat_digits.induct)
  case (1 n)
  show ?case
  proof (cases "n < 10")
    case True
    have "digit_val CHR ''0'' = 0" by (simp add: digit_val_def)
    then have "digit_char n \<noteq> CHR ''0''"
      using True "1.prems" by (metis digit_val_digit_char less_irrefl)
    with True show ?thesis by (subst nat_digits.simps) simp
  next
    case False
    then have "0 < n div 10" by simp
    with "1.IH" False show ?thesis by (subst nat_digits.simps) (simp add: hd_append)
  qed
qed

lemma takeWhile_digits:
  assumes "\<forall>c \<in> set ds. is_digit c" "suf = [] \<or> \<not> is_digit (hd suf)"
  shows "takeWhile is_digit (ds @ suf) = ds" "dropWhile is_digit (ds @ suf) = suf"
  using assms by (cases suf; auto simp: takeWhile_append dropWhile_append)+

lemma parseQuantityString_itoa:
  assumes m: "m \<noteq> 0" and e: "si_exponent e"
  shows "parseQuantityString (itoa m @ si_suffix e) =
    Inr \<lparr>pp_positive = (0 < m), pp_value = itoa m, pp_num = nat_digits (nat \<bar>m\<bar>),
         pp_denom = [], pp_suffix = si_suffix e\<rparr>"
proof -
  let ?ds = "nat_digits (nat \<bar>m\<bar>)" and ?suf = "si_suffix e"
  have hd: "hd ?ds \<noteq> CHR ''0''" using m by (intro hd_nat_digits_nonzero) simp
  have dg: "is_digit (hd ?ds)" by (rule hd_nat_digits)
  then have nosign: "hd ?ds \<noteq> CHR ''-''" "hd ?ds \<noteq> CHR ''+''" by (auto simp: is_digit_def)
  have nz: "\<exists>x\<in>set ?ds. x \<noteq> CHR ''0''" using hd hd_in_set [OF nat_digits_ne] by blast
  have drop0: "dropWhile (\<lambda>c. c = CHR ''0'') (?ds @ r) = ?ds @ r" for r
    using hd by (cases ?ds) auto
  have split: "takeWhile is_digit (?ds @ ?suf) = ?ds" "dropWhile is_digit (?ds @ ?suf) = ?suf"
    using si_suffix_shape [OF e] by (auto intro!: takeWhile_digits simp: nat_digits_is_digit)
  have chk: "?suf \<noteq> [] \<Longrightarrow> check_suffix ?suf \<and> hd ?suf \<noteq> CHR ''.''"
    using si_suffix_shape [OF e] by (auto simp: check_suffix_def)
  have start: "(case itoa m @ ?suf of
      c # cs \<Rightarrow> if c = CHR ''-'' then (False, cs) else if c = CHR ''+'' then (True, cs) else (True, itoa m @ ?suf)
    | [] \<Rightarrow> (True, itoa m @ ?suf)) = (0 < m, ?ds @ ?suf)"
  proof (cases "m < 0")
    case True
    then show ?thesis by (simp add: itoa_def)
  next
    case False
    then have "itoa m = ?ds" "0 < m" using m by (simp_all add: itoa_def)
    with nosign show ?thesis by (cases ?ds) auto
  qed
  show ?thesis
    unfolding parseQuantityString_def start using split drop0 drop0 [of "[]"] chk
    using nz by (cases "?suf = []") (auto simp: Let_def)
qed

lemma dec_scan_digits:
  "\<forall>c \<in> set ds. is_digit c \<Longrightarrow> ds \<noteq> [] \<or> dg \<Longrightarrow> dec_scan_loop ds acc None dg = Some (acc @ ds, None, True)"
proof (induction ds arbitrary: acc dg)
  case (Cons c cs)
  then have "c \<noteq> CHR ''-''" "c \<noteq> CHR ''+''" "c \<noteq> CHR ''.''" by (auto simp: is_digit_def)
  with Cons show ?case by simp
qed simp

lemma dec_SetString_itoa: "dec_SetString (itoa m) = Some \<lparr>dec_unscaled = m, dec_scale = 0\<rparr>"
proof -
  let ?ds = "nat_digits (nat \<bar>m\<bar>)"
  have all: "\<forall>c \<in> set ?ds. is_digit c" by (simp add: nat_digits_is_digit)
  have scan: "dec_scan_loop (itoa m) [] None False = Some (itoa m, None, True)"
    using all dec_scan_digits [where ds = ?ds and dg = False] by (auto simp: itoa_def abs_if)
  have nosign: "hd ?ds \<noteq> CHR ''-''" "hd ?ds \<noteq> CHR ''+''"
    using hd_nat_digits [of "nat \<bar>m\<bar>"] by (auto simp: is_digit_def)
  have "big_of_string (itoa m) = Some m"
    using all nosign by (auto simp: big_of_string_def itoa_def list_all_iff horner_nat_digits abs_if Let_def)
  with scan show ?thesis by (simp add: dec_SetString_def)
qed

lemma parse_slow_itoa:
  assumes "si_exponent e" "m \<noteq> 0"
  shows "\<exists>q. parse_slow (itoa m) 10 e DecimalSI = Inr q \<and> q_val q = of_int m * 10 powi e \<and> q_ok q"
proof -
  have e: "-9 \<le> e" "e \<le> 18" using assms(1) by (auto simp: si_exponent_def)
  define x where "x = \<lparr>dec_unscaled = \<bar>m\<bar>, dec_scale = - e\<rparr>"
  have "dec_val (dec_RoundUp x 9) = dec_val x"
  proof (cases "9 + e = 0")
    case True
    then have "dec_scale x = 9" by (simp add: x_def)
    then show ?thesis by (simp add: dec_RoundUp_def dec_quoRem_one_def dec_val_def Let_def)
  next
    case False
    with e have "dec_scale x < 9" by (simp add: x_def)
    then show ?thesis using ten_powi_split [of "-9" "- dec_scale x"]
      by (simp add: dec_RoundUp_def dec_quoRem_one_def dec_val_def Let_def)
  qed
  moreover have "dec_val x = of_int \<bar>m\<bar> * 10 powi e" by (simp add: x_def dec_val_def)
  ultimately have v: "dec_val (dec_RoundUp x 9) = of_int \<bar>m\<bar> * 10 powi e" by simp
  have w: "wrap32 (- e) = - e" "wrap32 (0 + wrap32 (- e)) = - e" using e by simp_all
  have a2: "(let a1 = \<lparr>dec_unscaled = m, dec_scale = - e\<rparr> in if dec_Sign a1 = -1 then dec_Neg a1 else a1) = x"
    using assms(2) by (auto simp: dec_Sign_def dec_Neg_def x_def sgn_if)
  have nz: "dec_unscaled x \<noteq> 0" using assms(2) by (simp add: x_def)
  have sg: "dec_Sign \<lparr>dec_unscaled = m, dec_scale = - e\<rparr> = -1 \<longleftrightarrow> m < 0"
    using assms(2) by (auto simp: dec_Sign_def sgn_if)
  show ?thesis
    using v a2 nz sg w
    by (auto simp: parse_slow_def dec_SetString_itoa Let_def q_val_def q_ok_def ia_ok_def dec_Neg_val)
qed

lemma parse_int_digits: "n < 9223372036854775808 \<Longrightarrow> parse_int (nat_digits n) = (int n, None)"
  using parse_int_itoa [of "int n"] by (simp add: itoa_def in64_def)

lemma length_nat_digits_bound: "length (nat_digits n) \<le> k \<Longrightarrow> n < 10 ^ k"
proof (induction n arbitrary: k rule: nat_digits.induct)
  case (1 n)
  show ?case
  proof (cases "n < 10")
    case True
    with "1.prems" obtain k' where "k = Suc k'" by (cases k) auto
    with True show ?thesis by (simp add: less_le_trans)
  next
    case False
    with "1.prems" have l: "length (nat_digits (n div 10)) + 1 \<le> k"
      by (subst (asm) nat_digits.simps) simp
    then obtain k' where k: "k = Suc k'" by (cases k) auto
    with "1.IH" [OF False, of k'] l have "n div 10 < 10 ^ k'" by simp
    with k show ?thesis by (simp add: div_less_iff_less_mult mult.commute)
  qed
qed

lemma itoa_not_zero: "m \<noteq> 0 \<Longrightarrow> si_exponent e \<Longrightarrow> itoa m @ si_suffix e \<noteq> ''0''"
proof
  assume m: "m \<noteq> 0" and "si_exponent e" and eq: "itoa m @ si_suffix e = ''0''"
  have "itoa m \<noteq> []" by (simp add: itoa_def)
  then have "hd (itoa m) = CHR ''0''" using eq by (metis hd_append2 list.sel(1))
  moreover have "hd (itoa m) \<noteq> CHR ''0''"
    using m hd_nat_digits_nonzero [of "nat m"] by (auto simp: itoa_def)
  ultimately show False by contradiction
qed

lemma ParseQuantity_itoa:
  assumes m: "m \<noteq> 0" and e: "si_exponent e"
  shows "\<exists>q. ParseQuantity (itoa m @ si_suffix e) = Inr q \<and> q_val q = of_int m * 10 powi e \<and> q_ok q"
proof -
  let ?ds = "nat_digits (nat \<bar>m\<bar>)"
  have b: "-9 \<le> e" "e \<le> 18" using e by (auto simp: si_exponent_def)
  have ne: "itoa m @ si_suffix e \<noteq> []" by (simp add: itoa_def)
  obtain slow where slow: "parse_slow (itoa m) 10 e DecimalSI = Inr slow" "q_val slow = of_int m * 10 powi e" "q_ok slow"
    using parse_slow_itoa [OF e m] by blast
  show ?thesis
  proof (cases "length ?ds \<le> 18")
    case True
    then have "nat \<bar>m\<bar> < 10 ^ 18" by (rule length_nat_digits_bound)
    then have n: "nat \<bar>m\<bar> < 1000000000000000000" by simp
    then have p: "parse_int ?ds = (\<bar>m\<bar>, None)" by (subst parse_int_digits) simp_all
    have i: "in64 \<bar>m\<bar>" "in64 m" "in64 (- m)" using n by (auto simp: in64_def)
    then have mul: "int64Multiply \<bar>m\<bar> 1 = (\<bar>m\<bar>, True)" by (simp add: int64Multiply_def)
    show ?thesis
      using True b p mul i ne m e
      by (auto simp: ParseQuantity_def itoa_not_zero parseQuantityString_itoa interpret_si_suffix
          Let_def q_val_def q_ok_def ia_ok_def ia_val_def abs_if)
  next
    case False
    then show ?thesis
      using slow ne m e
      by (simp add: ParseQuantity_def itoa_not_zero parseQuantityString_itoa interpret_si_suffix Let_def)
  qed
qed

text \<open>What \<open>String\<close> prints for format DecimalSI.\<close>

lemma q_canonical_spec:
  assumes "q_ok q" "q_d q = None \<longrightarrow> ia_value (q_i q) \<noteq> mostNegative" "q_canonical q = (m, e)"
  shows "of_int m * 10 powi e = q_val q \<and> 3 dvd e"
  using assms da_canonical_spec [of _ m e] ia_canonical_spec [of "q_i q" m e]
  by (auto simp: q_canonical_def q_val_def q_ok_def split: option.splits)

lemma q_String_DecimalSI:
  assumes "q_s q = []" "q_Format q = DecimalSI" "\<not> q_IsZero q" "q_canonical q = (m, e)"
  shows "fst (q_String q) = itoa m @ si_suffix e"
  using assms
  by (auto simp: q_String_def q_CanonicalizeBytes_def q_AsCanonicalBytes_def q_canonical_def si_suffix_def
      da_AsCanonicalBytes_def ia_AsCanonicalBytes_def split: option.splits prod.splits)

lemma parse_String_DecimalSI:
  assumes q: "q_ok q" "q_d q = None \<longrightarrow> ia_value (q_i q) \<noteq> mostNegative"
    and s: "q_s q = []" "q_Format q = DecimalSI"
    and e: "-9 \<le> snd (q_canonical q)" "snd (q_canonical q) \<le> 18"
  shows "\<exists>q'. ParseQuantity (fst (q_String q)) = Inr q' \<and> q_val q' = q_val q \<and> q_ok q'"
proof (cases "q_IsZero q")
  case True
  then have "fst (q_String q) = ''0''" "q_val q = 0"
    using s by (simp_all add: q_String_def q_CanonicalizeBytes_def q_IsZero_val)
  then show ?thesis by (simp add: ParseQuantity_def q_val_def ia_val_def q_ok_def ia_ok_def)
next
  case False
  obtain m k where c: "q_canonical q = (m, k)" by force
  from q_canonical_spec [OF q c] have v: "of_int m * 10 powi k = q_val q" and d: "3 dvd k" by auto
  have "m \<noteq> 0" using False v q_IsZero_val [of q] by auto
  moreover have "si_exponent k" using d e c by (simp add: si_exponentI)
  ultimately show ?thesis
    using ParseQuantity_itoa [of m k] q_String_DecimalSI [OF s False c] v by auto
qed

end
