(* ===== verification/Necon.thy ===== *)
theory Necon
  imports Pods QuantityRoundtrip
begin

section \<open>The network agent of the kubelet\<close>

text \<open>
  \<open>pkg/kubelet/necon/necon.go\<close>: the singleton that the kubelet tells about each new pod, each
  cgroup path and each started container, and that writes the bandwidth goal and the process ids
  of a pod to the \<open>/proc/oslab/vif<n>\<close> entry of its virtual interface.  The files are a map from
  paths to contents; \<open>WriteFile\<close> fails on a path that does not exist, since entries below
  \<open>/proc\<close> are only made by the kernel.  \<open>os_journal\<close> records every \<open>WriteFile\<close> call and
  \<open>os_stdout\<close> the printed lines.
\<close>

record os_state =
  os_files :: "string \<Rightarrow> string option"
  os_journal :: "(string \<times> string) list"
  os_stdout :: "string list"

record necon =
  nec_path :: string
  nec_pod :: pod
  nec_count :: int

subsection \<open>Files\<close>

definition ReadFile :: "os_state \<Rightarrow> string \<Rightarrow> string \<times> bool" where
  "ReadFile os p = (case os_files os p of Some s \<Rightarrow> (s, True) | None \<Rightarrow> ([], False))"

definition WriteFile :: "os_state \<Rightarrow> string \<Rightarrow> string \<Rightarrow> os_state \<times> bool" where
  "WriteFile os p data =
     (let os1 = os\<lparr>os_journal := os_journal os @ [(p, data)]\<rparr> in
      if os_files os p = None then (os1, False) else (os1\<lparr>os_files := (os_files os)(p \<mapsto> data)\<rparr>, True))"

definition Println :: "os_state \<Rightarrow> string \<Rightarrow> os_state" where
  "Println os line = os\<lparr>os_stdout := os_stdout os @ [line]\<rparr>"

definition vif_dir :: "int \<Rightarrow> string" where
  "vif_dir n = ''/proc/oslab/vif'' @ itoa n"

definition goal_path :: "int \<Rightarrow> string" where
  "goal_path n = vif_dir n @ ''/goal''"

definition pid_path :: "int \<Rightarrow> string" where
  "pid_path n = vif_dir n @ ''/pid''"

definition procs_path :: "string \<Rightarrow> string \<Rightarrow> string" where
  "procs_path path containerID = path @ ''/'' @ containerID @ ''/cgroup.procs''"

subsection \<open>The operations of the agent\<close>

definition new_necon :: necon where
  "new_necon = \<lparr>nec_path = [], nec_pod = empty_pod, nec_count = 0\<rparr>"

text \<open>\<open>GetInstance\<close>: the variable \<open>n\<close> is nil until the first call.\<close>

definition GetInstance :: "necon option \<Rightarrow> necon" where
  "GetInstance n = (case n of None \<Rightarrow> new_necon | Some nec \<Rightarrow> nec)"

definition SetNeconPod :: "pod \<Rightarrow> necon \<Rightarrow> necon" where
  "SetNeconPod pod nec =
     (if p_Namespace pod \<noteq> ''kube-system'' then nec\<lparr>nec_pod := pod, nec_count := wrap64 (nec_count nec + 1)\<rparr>
      else nec)"

definition SetCgroupPath :: "string \<Rightarrow> necon \<Rightarrow> necon" where
  "SetCgroupPath path nec = nec\<lparr>nec_path := path\<rparr>"

definition SetPID :: "string \<Rightarrow> string \<Rightarrow> necon \<Rightarrow> os_state \<Rightarrow> os_state" where
  "SetPID containerID namespace nec os0 =
     (if namespace \<noteq> ''kube-system'' then
        let os1 = Println os0 (''%s '' @ procs_path (nec_path nec) containerID);
            pid = fst (ReadFile os1 (procs_path (nec_path nec) containerID))
        in case WriteFile os1 (pid_path (nec_count nec)) pid of
             (os2, ok) \<Rightarrow> if ok then os2 else Println os2 ''pid write err!''
      else os0)"

text \<open>The text written as the goal: the SLO limit of the first container in Mbit/s, times 1000/8.\<close>

definition goal_text :: "container \<Rightarrow> string" where
  "goal_text c =
     (let q = rl_index (c_Limits c) ResourceSLO;
          iq = fst (atoi (fst (q_String q)))
      in itoa (wrap64 (iq * 1000) sdiv 8))"

definition SetSLO :: "necon \<Rightarrow> os_state \<Rightarrow> go_panic + necon \<times> os_state" where
  "SetSLO nec os0 =
     (if p_Namespace (nec_pod nec) \<noteq> [] then
        case p_Containers (nec_pod nec) of
          [] \<Rightarrow> Inl IndexOutOfRange
        | c # _ \<Rightarrow>
            (case WriteFile os0 (goal_path (nec_count nec)) (goal_text c) of
               (os1, ok) \<Rightarrow>
                 Inr (nec\<lparr>nec_pod := empty_pod\<rparr>, if ok then os1 else Println os1 ''write errr!''))
      else Inr (nec\<lparr>nec_pod := empty_pod\<rparr>, os0))"

subsection \<open>The goal of an SLO given in Mbit/s\<close>

lemma length_nat_digits_le: "n < 10 ^ k \<Longrightarrow> 0 < k \<Longrightarrow> length (nat_digits n) \<le> k"
proof (induction k arbitrary: n)
  case (Suc k)
  show ?case
  proof (cases "n < 10")
    case False
    have "n div 10 < 10 ^ k" using Suc.prems(1) by (simp add: div_less_iff_less_mult mult.commute)
    moreover have "0 < k" using False Suc.prems(1) by (cases k) auto
    ultimately have "length (nat_digits (n div 10)) \<le> k" by (rule Suc.IH)
    with False show ?thesis by (subst nat_digits.simps) simp
  qed (subst nat_digits.simps, simp)
qed simp

lemma digit_char_0: "digit_char 0 = CHR ''0''"
  by code_simp

lemma digit_char_eq_0: "d < 10 \<Longrightarrow> digit_char d = CHR ''0'' \<longleftrightarrow> d = 0"
  by (metis digit_val_digit_char digit_char_0 zero_less_numeral)

text \<open>The digits of a positive number, from the last one.\<close>

lemma rev_nat_digits:
  "rev (nat_digits k) = digit_char (k mod 10) # (if k < 10 then [] else rev (nat_digits (k div 10)))"
  by (subst nat_digits.simps) simp

lemma has_prefix_digits:
  "has_prefix (rev (nat_digits k)) (CHR ''0'' # cs) \<longleftrightarrow>
     k mod 10 = 0 \<and> has_prefix (if k < 10 then [] else rev (nat_digits (k div 10))) cs"
  by (subst rev_nat_digits) (simp add: has_prefix_def digit_char_eq_0)

lemma dvd_1000_digits:
  "1000 dvd k \<longleftrightarrow> k mod 10 = 0 \<and> k div 10 mod 10 = 0 \<and> k div 10 div 10 mod 10 = 0" for k :: nat
proof -
  have "k mod 1000 = 10 * (k div 10 mod 100) + k mod 10"
    "k div 10 mod 100 = 10 * (k div 10 div 10 mod 10) + k div 10 mod 10"
    using mod_mult2_eq [of k 10 100] mod_mult2_eq [of "k div 10" 10 10] by simp_all
  then show ?thesis unfolding dvd_eq_mod_eq_0 by auto
qed

lemma has_suffix_000:
  assumes "0 < n"
  shows "has_suffix (itoa n) ''000'' \<longleftrightarrow> 1000 dvd n"
proof -
  define k where "k = nat n"
  have k: "0 < k" "itoa n = nat_digits k" "n = int k" using assms by (simp_all add: k_def itoa_def)
  have dv: "1000 dvd n \<longleftrightarrow> 1000 dvd k" using k(3) int_dvd_int_iff [of 1000 k] by simp
  have hs: "has_suffix (itoa n) ''000'' \<longleftrightarrow> has_prefix (rev (nat_digits k)) ''000''"
    using k(2) by (simp add: has_suffix_def)
  have np: "\<not> has_prefix [] (c # cs)" "has_prefix xs []" for c cs xs by (simp_all add: has_prefix_def)
  consider "k < 10" | "10 \<le> k" "k div 10 < 10" | "10 \<le> k" "10 \<le> k div 10" by linarith
  then show ?thesis
  proof cases
    case 1
    then show ?thesis using k(1) unfolding hs dv dvd_1000_digits by (simp add: has_prefix_digits np)
  next
    case 2
    then have "k div 10 mod 10 \<noteq> 0" by simp
    with 2 show ?thesis unfolding hs dv dvd_1000_digits by (simp add: has_prefix_digits np)
  next
    case 3
    then show ?thesis unfolding hs dv dvd_1000_digits by (simp add: has_prefix_digits np)
  qed
qed

lemma ia_canonical_nat:
  assumes n: "0 < n" "in64 n" and c: "ia_canonical \<lparr>ia_value = n, ia_scale = 0\<rparr> = (m, e)"
  shows "n = m * 10 ^ nat e \<and> 0 \<le> e \<and> 3 dvd e \<and> \<not> 1000 dvd m"
proof -
  obtain r t where f: "removeInt64Factors n 10 = (r, t)" by force
  have "n \<noteq> mostNegative" using n by (simp add: mostNegative_def)
  with removeInt64Factors_spec [OF n(2) _ _ f]
  have v: "n = r * 10 ^ t" and nd: "r = 0 \<or> \<not> 10 dvd r" by auto
  have r: "r \<noteq> 0" "\<not> 10 dvd r" using v nd n(1) by auto
  have "0 < r" using v n(1) by (metis zero_less_mult_iff zero_less_power zero_less_numeral not_less_iff_gr_or_eq)
  have sc: "int64MultiplyScale10 r = (r * 10, True)" if "1 \<le> t"
  proof -
    have "r * 10 ^ 1 \<le> r * 10 ^ t" using that \<open>0 < r\<close> by (intro mult_left_mono power_increasing) auto
    then have "r * 10 \<le> n" using v by simp
    with n \<open>0 < r\<close> have "in64 r" "in64 (r * 10)" unfolding in64_def by linarith+
    with int64MultiplyScale10_exact [of r] show ?thesis
      by (simp add: scaled_exact_def prod_eq_iff)
  qed
  have sc2: "int64MultiplyScale100 r = (r * 100, True)" if "2 \<le> t"
  proof -
    have "r * 10 ^ 2 \<le> r * 10 ^ t" using that \<open>0 < r\<close> by (intro mult_left_mono power_increasing) auto
    then have "r * 100 \<le> n" using v by simp
    with n \<open>0 < r\<close> have "in64 r" "in64 (r * 100)" unfolding in64_def by linarith+
    with int64MultiplyScale100_exact [of r] show ?thesis
      by (simp add: scaled_exact_def prod_eq_iff)
  qed
  have md: "int t smod 3 = int (t mod 3)" by (simp add: smod_nonneg zmod_int)
  consider "t mod 3 = 0" | "t mod 3 = 1" | "t mod 3 = 2" by linarith
  then show ?thesis
  proof cases
    case 1
    then have me: "m = r" "e = int t" using c f md by (auto simp: ia_canonical_def)
    have "\<not> 1000 dvd r" using r(2) dvd_trans [of 10 1000 r] by auto
    then show ?thesis using 1 v me by (auto simp: mod_eq_0_iff_dvd int_dvd_int_iff [symmetric])
  next
    case 2
    then have t: "1 \<le> t" by (cases t) auto
    have me: "m = r * 10" "e = int t - 1"
      using c f md 2 sc [OF t] by (auto simp: ia_canonical_def)
    have "\<not> 1000 dvd r * 10"
    proof
      assume "1000 dvd r * 10"
      then have "100 dvd r" by (auto elim!: dvdE)
      with r(2) dvd_trans [of 10 100 r] show False by simp
    qed
    moreover have "3 dvd int t - 1" using 2 by presburger
    moreover have "n = r * 10 * 10 ^ (t - 1)" using v t by (cases t) auto
    moreover have "nat (int t - 1) = t - 1" using t by simp
    ultimately show ?thesis using me t by simp
  next
    case 3
    then have t: "2 \<le> t" by (metis mod_less_eq_dividend)
    have me: "m = r * 100" "e = int t - 2"
      using c f md 3 sc2 [OF t] by (auto simp: ia_canonical_def)
    have "\<not> 1000 dvd r * 100"
    proof
      assume "1000 dvd r * 100"
      then have "10 dvd r" by (auto elim!: dvdE)
      with r(2) show False by simp
    qed
    moreover have "3 dvd int t - 2" using 3 t by presburger
    moreover have "n = r * 100 * 10 ^ (t - 2)"
    proof -
      have "t = 2 + (t - 2)" using t by simp
      then have "(10::int) ^ t = 10 ^ 2 * 10 ^ (t - 2)" by (metis power_add)
      with v show ?thesis by simp
    qed
    moreover have "nat (int t - 2) = t - 2" using t by simp
    ultimately show ?thesis using me t by simp
  qed
qed

text \<open>A plain decimal number below \<open>10^18\<close> is parsed to itself.\<close>

lemma ParseQuantity_plain:
  assumes n: "0 < n" "n < 1000000000000000000"
  shows "ParseQuantity (itoa n) =
    Inr \<lparr>q_i = \<lparr>ia_value = n, ia_scale = 0\<rparr>, q_d = None,
         q_s = (if has_suffix (itoa n) ''000'' then [] else itoa n), q_Format = DecimalSI\<rparr>"
proof -
  let ?ds = "nat_digits (nat n)"
  have ds: "itoa n = ?ds" using n by (simp add: itoa_def)
  have len: "length ?ds \<le> 18" using n by (intro length_nat_digits_le) simp_all
  have hd: "hd ?ds \<noteq> CHR ''0''" using n by (intro hd_nat_digits_nonzero) simp
  have p: "parse_int ?ds = (n, None)" using n by (subst parse_int_digits) simp_all
  have mul: "int64Multiply n 1 = (n, True)" using n by (simp add: int64Multiply_def in64_def)
  have pq: "parseQuantityString (itoa n) = Inr \<lparr>pp_positive = True, pp_value = itoa n, pp_num = ?ds,
      pp_denom = [], pp_suffix = []\<rparr>"
    using parseQuantityString_itoa [of n 0] n by (simp add: si_exponent_def)
  have "itoa n \<noteq> ''0''" using itoa_not_zero [of n 0] n by (simp add: si_exponent_def)
  moreover have "suffix_interpret [] = (10, 0, DecimalSI, True)" by (simp add: suffix_interpret_def)
  ultimately show ?thesis using ds len p mul pq hd by (simp add: ParseQuantity_def Let_def)
qed

lemma q_String_plain:
  assumes n: "0 < n" "n < 1000000000000000000" and p: "ParseQuantity (itoa n) = Inr q"
  shows "if 1000 dvd n then \<exists>m c. fst (q_String q) = itoa m @ [c] \<and> in64 m \<and> \<not> is_digit c
         else fst (q_String q) = itoa n"
proof -
  have q: "q = \<lparr>q_i = \<lparr>ia_value = n, ia_scale = 0\<rparr>, q_d = None,
         q_s = (if has_suffix (itoa n) ''000'' then [] else itoa n), q_Format = DecimalSI\<rparr>"
    using p ParseQuantity_plain [OF n] by simp
  have suf: "has_suffix (itoa n) ''000'' \<longleftrightarrow> 1000 dvd n" using n by (simp add: has_suffix_000)
  show ?thesis
  proof (cases "1000 dvd n")
    case True
    obtain m e where c: "q_canonical q = (m, e)" by force
    have i: "in64 n" using n by (simp add: in64_def)
    have me: "n = m * 10 ^ nat e" "0 \<le> e" "3 dvd e" "\<not> 1000 dvd m"
      using ia_canonical_nat [OF n(1) i, of m e] c q by (auto simp: q_canonical_def)
    have "e \<noteq> 0" using True me by auto
    then have e3: "3 \<le> e" using me(2,3) by presburger
    have "e < 18"
    proof (rule ccontr)
      assume "\<not> e < 18"
      then have "(10::int) ^ 18 \<le> 10 ^ nat e" by (intro power_increasing) auto
      moreover have "0 < m" using me(1) n(1)
        by (metis zero_less_mult_iff zero_less_power zero_less_numeral not_less_iff_gr_or_eq)
      ultimately have "1 * 10 ^ 18 \<le> m * 10 ^ nat e" by (intro mult_mono) auto
      then show False using me(1) n(2) by simp
    qed
    have se: "si_exponent e" using me(3) e3 \<open>e < 18\<close> by (intro si_exponentI) auto
    have "si_suffix e \<noteq> []"
      using se e3 unfolding si_exponent_def by (elim insertE emptyE) simp_all
    then obtain ch where ch: "si_suffix e = [ch]" "\<not> is_digit ch" using si_suffix_shape [OF se] by auto
    have "in64 m"
    proof -
      have "0 < m" using me(1) n(1)
        by (metis zero_less_mult_iff zero_less_power zero_less_numeral not_less_iff_gr_or_eq)
      then have "m * 1 \<le> m * 10 ^ nat e" by (intro mult_left_mono) auto
      then have "m \<le> n" using me(1) by simp
      with n \<open>0 < m\<close> show ?thesis unfolding in64_def by linarith
    qed
    have "fst (q_String q) = itoa m @ si_suffix e"
      using q_String_DecimalSI [of q m e] c q True suf n by (simp add: q_IsZero_def)
    with True ch \<open>in64 m\<close> show ?thesis by auto
  next
    case False
    then have "q_s q = itoa n" "itoa n \<noteq> []" using q suf by (simp_all add: itoa_def)
    then show ?thesis using False by (simp add: q_String_def)
  qed
qed

lemma goal_text_plain:
  assumes n: "0 < n" "n \<le> 9223372036854775"
    and p: "ParseQuantity (itoa n) = Inr q" and l: "map_of (c_Limits c) ResourceSLO = Some q"
  shows "goal_text c = (if 1000 dvd n then ''0'' else itoa (125 * n))"
proof -
  have n': "n < 1000000000000000000" "in64 n" "in64 (n * 1000)" using n by (simp_all add: in64_def)
  have q: "rl_index (c_Limits c) ResourceSLO = q" using l by (simp add: rl_index_def)
  have d: "(n * 1000) sdiv 8 = 125 * n" using n(1) by (simp add: sdiv_nonneg)
  show ?thesis
  proof (cases "1000 dvd n")
    case True
    then obtain m ch where s: "fst (q_String q) = itoa m @ [ch]" "in64 m" "\<not> is_digit ch"
      using q_String_plain [OF n(1) n'(1) p] by auto
    then have "fst (atoi (fst (q_String q))) = 0" using atoi_suffixed [OF s(2,3), of "[]"] by simp
    moreover have "itoa 0 = ''0''" by (simp add: itoa_def nat_digits.simps digit_char_0)
    ultimately show ?thesis using True q by (simp add: goal_text_def)
  next
    case False
    then have "fst (q_String q) = itoa n" using q_String_plain [OF n(1) n'(1) p] by simp
    then show ?thesis using False q n' d by (simp add: goal_text_def atoi_itoa)
  qed
qed

end
