(* ===== verification/AgentTraces.thy ===== *)
theory AgentTraces
  imports Necon
begin

section \<open>The agent's hooks, one call after another\<close>

text \<open>
  A \<open>hook\<close> is one whole call of the agent by the kubelet; \<open>run_hook\<close> runs it with no other call in between,
  and \<open>run_hooks\<close> one call after the other, as one pod worker makes them.  Nothing in necon.go makes the calls of
  different pod workers exclude each other: the theory \<open>AgentInterleaving\<close> has the single accesses of a call and
  their interleavings.
\<close>

datatype hook =
    NewPod pod
  | CgroupPath string
  | SloHook
  | PidHook string string

fun run_hook :: "hook \<Rightarrow> necon \<times> os_state \<Rightarrow> go_panic + necon \<times> os_state" where
  "run_hook (NewPod p) (nec, os0) = Inr (SetNeconPod p nec, os0)"
| "run_hook (CgroupPath path) (nec, os0) = Inr (SetCgroupPath path nec, os0)"
| "run_hook SloHook (nec, os0) = SetSLO nec os0"
| "run_hook (PidHook cid ns) (nec, os0) = Inr (nec, SetPID cid ns nec os0)"

fun run_hooks :: "hook list \<Rightarrow> necon \<times> os_state \<Rightarrow> go_panic + necon \<times> os_state" where
  "run_hooks [] s = Inr s"
| "run_hooks (h # hs) s = (case run_hook h s of Inl e \<Rightarrow> Inl e | Inr s' \<Rightarrow> run_hooks hs s')"

text \<open>The goal the agent owes to a pod.\<close>

definition pod_goal :: "pod \<Rightarrow> string" where
  "pod_goal p = goal_text (hd (p_Containers p))"

definition is_goal_path :: "string \<Rightarrow> bool" where
  "is_goal_path p \<longleftrightarrow> has_suffix p ''/goal''"

subsection \<open>Paths\<close>

lemma goal_path_inj [simp]: "goal_path a = goal_path b \<longleftrightarrow> a = b"
  by (auto simp: goal_path_def vif_dir_def dest: itoa_inj)

lemma pid_path_inj [simp]: "pid_path a = pid_path b \<longleftrightarrow> a = b"
  by (auto simp: pid_path_def vif_dir_def dest: itoa_inj)

lemma is_goal_path_simps [simp]: "is_goal_path (goal_path n)" "\<not> is_goal_path (pid_path n)"
  by (simp_all add: is_goal_path_def goal_path_def pid_path_def has_suffix_def has_prefix_def)

lemma pid_neq_goal [simp]: "pid_path a \<noteq> goal_path b" "goal_path b \<noteq> pid_path a"
  by (metis is_goal_path_simps)+

subsection \<open>What each operation appends to the journal\<close>

lemma WriteFile_journal [go_frame]:
  "os_journal (fst (WriteFile os0 p d)) = os_journal os0 @ [(p, d)]"
  by (simp add: WriteFile_def Let_def)

lemma Println_frame [go_frame]:
  "os_journal (Println os0 l) = os_journal os0" "os_files (Println os0 l) = os_files os0"
  by (simp_all add: Println_def)

lemma WriteFile_files [go_frame]:
  "os_files (fst (WriteFile os0 p d)) q = (if q = p \<and> os_files os0 p \<noteq> None then Some d else os_files os0 q)"
  by (simp add: WriteFile_def Let_def)

lemma SetPID_journal [go_frame]:
  "os_journal (SetPID cid ns nec os0) =
     os_journal os0 @ (if ns = ''kube-system'' then []
       else [(pid_path (nec_count nec), fst (ReadFile os0 (procs_path (nec_path nec) cid)))])"
proof (cases "ns = ''kube-system''")
  case False
  let ?os1 = "Println os0 (''%s '' @ procs_path (nec_path nec) cid)"
  let ?pid = "fst (ReadFile ?os1 (procs_path (nec_path nec) cid))"
  have "?pid = fst (ReadFile os0 (procs_path (nec_path nec) cid))"
    by (simp add: ReadFile_def Println_frame split: option.split)
  moreover have "os_journal (SetPID cid ns nec os0) = os_journal (fst (WriteFile ?os1 (pid_path (nec_count nec)) ?pid))"
    using False by (simp add: SetPID_def Let_def Println_frame split: prod.split)
  ultimately show ?thesis using False by (simp add: go_frame)
qed (simp add: SetPID_def)

subsection \<open>Pods synced one after another\<close>

text \<open>The hooks of one sync of a new pod: take over, pod cgroup made, sandbox made, containers started.\<close>

fun serial_sync :: "pod \<times> string \<times> string list \<Rightarrow> hook list" where
  "serial_sync (p, path, cids) =
     [NewPod p, CgroupPath path, SloHook] @ map (\<lambda>cid. PidHook cid (p_Namespace p)) cids"

definition file_text :: "os_state \<Rightarrow> string \<Rightarrow> string" where
  "file_text os0 p = fst (ReadFile os0 p)"

lemma procs_path_other [simp]: "procs_path path cid \<noteq> pid_path n" "procs_path path cid \<noteq> goal_path n"
proof -
  have "last (procs_path path cid) = CHR ''s''" "last (pid_path n) = CHR ''d''" "last (goal_path n) = CHR ''l''"
    by (simp_all add: procs_path_def pid_path_def goal_path_def)
  then have "last (procs_path path cid) \<noteq> last (pid_path n)" "last (procs_path path cid) \<noteq> last (goal_path n)"
    by simp_all
  then show "procs_path path cid \<noteq> pid_path n" "procs_path path cid \<noteq> goal_path n" by auto
qed

lemma file_text_files: "os_files os1 p = os_files os0 p \<Longrightarrow> file_text os1 p = file_text os0 p"
  by (simp add: file_text_def ReadFile_def)

lemma SetPID_files [go_frame]:
  assumes "ns \<noteq> ''kube-system''"
  shows "os_files (SetPID cid ns nec os0) q =
    (if q = pid_path (nec_count nec) \<and> os_files os0 q \<noteq> None
     then Some (file_text os0 (procs_path (nec_path nec) cid)) else os_files os0 q)"
proof -
  let ?os1 = "Println os0 (''%s '' @ procs_path (nec_path nec) cid)"
  have t: "fst (ReadFile ?os1 (procs_path (nec_path nec) cid)) = file_text os0 (procs_path (nec_path nec) cid)"
    by (simp add: file_text_def ReadFile_def Println_frame split: option.split)
  define w where "w = WriteFile ?os1 (pid_path (nec_count nec)) (file_text os0 (procs_path (nec_path nec) cid))"
  have "SetPID cid ns nec os0 = (if snd w then fst w else Println (fst w) ''pid write err!'')"
    using assms unfolding SetPID_def Let_def t w_def [symmetric] case_prod_beta by simp
  then have "os_files (SetPID cid ns nec os0) q = os_files (fst w) q"
    by (simp add: Println_frame)
  then show ?thesis unfolding w_def WriteFile_files Println_frame by auto
qed

lemma run_pid_hooks:
  assumes "ns \<noteq> ''kube-system''" "os_files os0 (pid_path (nec_count nec)) \<noteq> None"
  shows "\<exists>os1. run_hooks (map (\<lambda>cid. PidHook cid ns) cids) (nec, os0) = Inr (nec, os1) \<and>
    (\<forall>q. os_files os1 q =
       (if q = pid_path (nec_count nec) \<and> cids \<noteq> [] then Some (file_text os0 (procs_path (nec_path nec) (last cids)))
        else os_files os0 q))"
  using assms(2)
proof (induction cids arbitrary: os0)
  case (Cons cid cids)
  let ?os1 = "SetPID cid ns nec os0"
  have f: "os_files ?os1 q = (if q = pid_path (nec_count nec)
      then Some (file_text os0 (procs_path (nec_path nec) cid)) else os_files os0 q)" for q
    using SetPID_files [OF assms(1)] Cons.prems by auto
  then obtain os2 where os2: "run_hooks (map (\<lambda>cid. PidHook cid ns) cids) (nec, ?os1) = Inr (nec, os2)"
    "\<And>q. os_files os2 q = (if q = pid_path (nec_count nec) \<and> cids \<noteq> []
       then Some (file_text ?os1 (procs_path (nec_path nec) (last cids))) else os_files ?os1 q)"
    using Cons.IH [of ?os1] by auto
  have "file_text ?os1 (procs_path (nec_path nec) c) = file_text os0 (procs_path (nec_path nec) c)" for c
    by (rule file_text_files) (simp add: f)
  with os2 f show ?case by (intro exI [of _ os2]) simp
qed simp

lemma run_hooks_append:
  "run_hooks (hs @ hs') s = (case run_hooks hs s of Inl e \<Rightarrow> Inl e | Inr s' \<Rightarrow> run_hooks hs' s')"
  by (induction hs arbitrary: s) (auto split: sum.split)

lemma serial_sync_one:
  assumes ns: "p_Namespace p \<noteq> ''kube-system''" "p_Namespace p \<noteq> []" and cs: "p_Containers p \<noteq> []" and ids: "cids \<noteq> []"
    and i: "in64 (nec_count nec + 1)"
    and f: "os_files os0 (goal_path (nec_count nec + 1)) \<noteq> None" "os_files os0 (pid_path (nec_count nec + 1)) \<noteq> None"
  shows "\<exists>nec' os1. run_hooks (serial_sync (p, path, cids)) (nec, os0) = Inr (nec', os1) \<and>
    nec_count nec' = nec_count nec + 1 \<and>
    (\<forall>q. os_files os1 q =
       (if q = goal_path (nec_count nec + 1) then Some (pod_goal p)
        else if q = pid_path (nec_count nec + 1) then Some (file_text os0 (procs_path path (last cids)))
        else os_files os0 q))"
proof -
  let ?nec = "nec\<lparr>nec_pod := empty_pod, nec_count := nec_count nec + 1, nec_path := path\<rparr>"
  let ?os1 = "fst (WriteFile os0 (goal_path (nec_count nec + 1)) (pod_goal p))"
  have f1: "os_files ?os1 q = (if q = goal_path (nec_count nec + 1) then Some (pod_goal p) else os_files os0 q)" for q
    using f by (simp add: go_frame)
  have "snd (WriteFile os0 (goal_path (nec_count nec + 1)) (pod_goal p))" using f by (auto simp: WriteFile_def Let_def)
  then have w: "WriteFile os0 (goal_path (nec_count nec + 1)) (goal_text (hd (p_Containers p))) = (?os1, True)"
    by (simp add: prod_eq_iff pod_goal_def)
  obtain c cs' where c: "p_Containers p = c # cs'" using cs by (cases "p_Containers p") auto
  have r1: "run_hooks [NewPod p, CgroupPath path, SloHook] (nec, os0) = Inr (?nec, ?os1)"
    using ns i w c by (simp add: SetNeconPod_def SetCgroupPath_def SetSLO_def)
  have "os_files ?os1 (pid_path (nec_count ?nec)) \<noteq> None" using f f1 by simp
  from run_pid_hooks [OF ns(1) this, of cids]
  obtain os2 where r2: "run_hooks (map (\<lambda>cid. PidHook cid (p_Namespace p)) cids) (?nec, ?os1) = Inr (?nec, os2)"
    "\<And>q. os_files os2 q = (if q = pid_path (nec_count nec + 1)
       then Some (file_text ?os1 (procs_path path (last cids))) else os_files ?os1 q)"
    using ids by auto
  have "file_text ?os1 (procs_path path c) = file_text os0 (procs_path path c)" for c
    by (rule file_text_files) (simp add: f1)
  with r1 r2 f1 show ?thesis
    by (intro exI [of _ ?nec] exI [of _ os2]) (simp only: serial_sync.simps run_hooks_append sum.case, simp)
qed

text \<open>
  C3: When pods are synced one after another, the \<open>i\<close>-th pod's interface ends up with the goal
  of that pod and the process list of its last started container, however many pods follow.
\<close>

theorem serial_syncs_attribute_correctly:
  assumes "\<forall>(p, path, cids) \<in> set ps. p_Namespace p \<notin> {[], ''kube-system''} \<and> p_Containers p \<noteq> [] \<and> cids \<noteq> []"
    and "0 \<le> nec_count nec" "in64 (nec_count nec + int (length ps))"
    and "\<forall>i < length ps. os_files os0 (goal_path (nec_count nec + int i + 1)) \<noteq> None \<and>
           os_files os0 (pid_path (nec_count nec + int i + 1)) \<noteq> None"
  shows "\<exists>nec' os1. run_hooks (concat (map serial_sync ps)) (nec, os0) = Inr (nec', os1) \<and>
    nec_count nec' = nec_count nec + int (length ps) \<and>
    (\<forall>i < length ps. case ps ! i of (p, path, cids) \<Rightarrow>
       os_files os1 (goal_path (nec_count nec + int i + 1)) = Some (pod_goal p) \<and>
       os_files os1 (pid_path (nec_count nec + int i + 1)) = Some (file_text os0 (procs_path path (last cids)))) \<and>
    (\<forall>q. (\<forall>k. nec_count nec < k \<longrightarrow> q \<noteq> goal_path k \<and> q \<noteq> pid_path k) \<longrightarrow> os_files os1 q = os_files os0 q)"
  using assms
proof (induction ps arbitrary: nec os0)
  case Nil
  then show ?case by simp
next
  case (Cons x ps)
  obtain p path cids where x: "x = (p, path, cids)" by (cases x)
  have i: "in64 (nec_count nec + 1)" "in64 (nec_count nec + 1 + int (length ps))"
    using Cons.prems(2,3) by (auto simp: in64_def)
  have f0: "os_files os0 (goal_path (nec_count nec + 1)) \<noteq> None" "os_files os0 (pid_path (nec_count nec + 1)) \<noteq> None"
    using Cons.prems(4)[rule_format, of 0] by simp_all
  obtain nec1 os1 where s1: "run_hooks (serial_sync x) (nec, os0) = Inr (nec1, os1)" "nec_count nec1 = nec_count nec + 1"
    "\<And>q. os_files os1 q = (if q = goal_path (nec_count nec + 1) then Some (pod_goal p)
        else if q = pid_path (nec_count nec + 1) then Some (file_text os0 (procs_path path (last cids)))
        else os_files os0 q)"
    using serial_sync_one [of p cids nec os0 path] Cons.prems(1) i(1) f0 by (auto simp: x)
  have t: "file_text os1 (procs_path a b) = file_text os0 (procs_path a b)" for a b
    by (rule file_text_files) (simp add: s1(3))
  have "\<forall>i < length ps. os_files os1 (goal_path (nec_count nec1 + int i + 1)) \<noteq> None \<and>
           os_files os1 (pid_path (nec_count nec1 + int i + 1)) \<noteq> None"
    using Cons.prems(4)[rule_format, of "Suc _"] by (simp add: s1 algebra_simps)
  then obtain nec' os2 where s2: "run_hooks (concat (map serial_sync ps)) (nec1, os1) = Inr (nec', os2)"
    "nec_count nec' = nec_count nec1 + int (length ps)"
    "\<And>i. i < length ps \<Longrightarrow> (case ps ! i of (p, path, cids) \<Rightarrow>
       os_files os2 (goal_path (nec_count nec1 + int i + 1)) = Some (pod_goal p) \<and>
       os_files os2 (pid_path (nec_count nec1 + int i + 1)) = Some (file_text os1 (procs_path path (last cids))))"
    "\<And>q. (\<And>k. nec_count nec1 < k \<Longrightarrow> q \<noteq> goal_path k \<and> q \<noteq> pid_path k) \<Longrightarrow> os_files os2 q = os_files os1 q"
    using Cons.IH [of nec1 os1] Cons.prems(1,2) i(2) s1(2) by (auto simp del: serial_sync.simps)
  show ?case
  proof (intro exI [of _ nec'] exI [of _ os2] conjI allI impI)
    show "run_hooks (concat (map serial_sync (x # ps))) (nec, os0) = Inr (nec', os2)"
      using s1(1) s2(1) by (simp add: run_hooks_append del: serial_sync.simps)
    show "nec_count nec' = nec_count nec + int (length (x # ps))" using s1(2) s2(2) by simp
  next
    fix q assume q: "\<forall>k. nec_count nec < k \<longrightarrow> q \<noteq> goal_path k \<and> q \<noteq> pid_path k"
    then show "os_files os2 q = os_files os0 q" using s2(4) [of q] s1(2,3) by auto
  next
    fix j assume j: "j < length (x # ps)"
    show "case (x # ps) ! j of (p, path, cids) \<Rightarrow>
       os_files os2 (goal_path (nec_count nec + int j + 1)) = Some (pod_goal p) \<and>
       os_files os2 (pid_path (nec_count nec + int j + 1)) = Some (file_text os0 (procs_path path (last cids)))"
    proof (cases j)
      case 0
      then show ?thesis using s2(4) s1(2,3) by (auto simp: x)
    next
      case (Suc i)
      then show ?thesis using s2(3) [of i] j s1(2) t by (auto simp: algebra_simps)
    qed
  qed
qed

subsection \<open>Pods with an SLO, for the concrete runs\<close>

definition slo_quantity :: "int \<Rightarrow> quantity" where
  "slo_quantity n =
     \<lparr>q_i = \<lparr>ia_value = n, ia_scale = 0\<rparr>, q_d = None,
      q_s = (if has_suffix (itoa n) ''000'' then [] else itoa n), q_Format = DecimalSI\<rparr>"

definition slo_pod :: "string \<Rightarrow> string \<Rightarrow> int \<Rightarrow> pod" where
  "slo_pod ns name n = empty_pod\<lparr>p_Namespace := ns, p_Name := name,
     p_Containers := [(empty_container ''main'')\<lparr>c_Limits := [(ResourceSLO, slo_quantity n)]\<rparr>]\<rparr>"

definition demo_os :: os_state where
  "demo_os = \<lparr>os_files = (\<lambda>p. Some ''7''), os_journal = [], os_stdout = []\<rparr>"

lemma ParseQuantity_slo: "0 < n \<Longrightarrow> n < 1000000000000000000 \<Longrightarrow> ParseQuantity (itoa n) = Inr (slo_quantity n)"
  by (simp add: ParseQuantity_plain slo_quantity_def)

lemma slo_pod_simps [simp]:
  "p_Namespace (slo_pod ns name n) = ns"
  "p_Containers (slo_pod ns name n) = [(empty_container ''main'')\<lparr>c_Limits := [(ResourceSLO, slo_quantity n)]\<rparr>]"
  by (simp_all add: slo_pod_def)

lemma pod_goal_slo_pod:
  "0 < n \<Longrightarrow> n \<le> 9223372036854775 \<Longrightarrow> pod_goal (slo_pod ns name n) = (if 1000 dvd n then ''0'' else itoa (125 * n))"
  using goal_text_plain [of n "slo_quantity n"] by (simp add: pod_goal_def ParseQuantity_slo)

lemmas run_defs = SetNeconPod_def SetSLO_def WriteFile_def new_necon_def demo_os_def Let_def

theorem serial_syncs_witness:
  "\<exists>nec' os1. run_hooks (concat (map serial_sync
       [(slo_pod ''web'' ''a'' 240, ''/cg/a'', [''c1'']), (slo_pod ''web'' ''b'' 80, ''/cg/b'', [''c2'', ''c3''])]))
     (new_necon, demo_os) = Inr (nec', os1) \<and> nec_count nec' = 2 \<and>
     os_files os1 (goal_path 1) = Some (itoa 30000) \<and> os_files os1 (goal_path 2) = Some (itoa 10000)"
proof -
  let ?ps = "[(slo_pod ''web'' ''a'' 240, ''/cg/a'', [''c1'']), (slo_pod ''web'' ''b'' 80, ''/cg/b'', [''c2'', ''c3''])]"
  have "\<exists>nec' os1. run_hooks (concat (map serial_sync ?ps)) (new_necon, demo_os) = Inr (nec', os1) \<and>
    nec_count nec' = nec_count new_necon + int (length ?ps) \<and>
    (\<forall>i < length ?ps. case ?ps ! i of (p, path, cids) \<Rightarrow>
       os_files os1 (goal_path (nec_count new_necon + int i + 1)) = Some (pod_goal p) \<and>
       os_files os1 (pid_path (nec_count new_necon + int i + 1)) = Some (file_text demo_os (procs_path path (last cids)))) \<and>
    (\<forall>q. (\<forall>k. nec_count new_necon < k \<longrightarrow> q \<noteq> goal_path k \<and> q \<noteq> pid_path k) \<longrightarrow> os_files os1 q = os_files demo_os q)"
    by (rule serial_syncs_attribute_correctly) (simp_all add: demo_os_def new_necon_def in64_def)
  then obtain nec' os1 where r: "run_hooks (concat (map serial_sync ?ps)) (new_necon, demo_os) = Inr (nec', os1)"
    "nec_count nec' = nec_count new_necon + int (length ?ps)"
    and all: "\<forall>i < length ?ps. case ?ps ! i of (p, path, cids) \<Rightarrow>
       os_files os1 (goal_path (nec_count new_necon + int i + 1)) = Some (pod_goal p) \<and>
       os_files os1 (pid_path (nec_count new_necon + int i + 1)) = Some (file_text demo_os (procs_path path (last cids)))"
    by blast
  have c: "nec_count new_necon = 0" by (simp add: new_necon_def)
  note g = all [unfolded c, rule_format]
  show ?thesis using r c g [of 0] g [of 1]
      pod_goal_slo_pod [of 240 "''web''" "''a''"] pod_goal_slo_pod [of 80 "''web''" "''b''"]
    by (intro exI [of _ nec'] exI [of _ os1]) (simp del: serial_sync.simps)
qed

subsection \<open>What \<open>SetSLO\<close> writes\<close>

text \<open>
  C4: For a pod whose first container has the SLO limit \<open>n\<close> (a whole number of Mbit/s), \<open>SetSLO\<close>
  writes \<open>n * 1000 / 8\<close> kilobytes per second to the goal of the current interface, touches no other
  file and forgets the pod; but if \<open>n\<close> is a multiple of 1000 it writes 0, since the quantity then
  prints with a suffix that \<open>Atoi\<close> rejects.
\<close>

theorem SetSLO_writes_goal:
  assumes "p_Namespace (nec_pod nec) \<noteq> []" and "p_Containers (nec_pod nec) = c # cs"
    and "ParseQuantity (itoa n) = Inr q" and "map_of (c_Limits c) ResourceSLO = Some q"
    and "0 < n" and "n \<le> 9223372036854775"
    and "os_files os0 (goal_path (nec_count nec)) \<noteq> None"
  shows "\<exists>os1. SetSLO nec os0 = Inr (nec\<lparr>nec_pod := empty_pod\<rparr>, os1) \<and>
    os_files os1 = (os_files os0)(goal_path (nec_count nec) \<mapsto> (if 1000 dvd n then ''0'' else itoa (125 * n)))"
  using assms goal_text_plain [OF assms(5,6,3,4)]
  by (auto simp: SetSLO_def WriteFile_def Let_def)

theorem SetSLO_writes_goal_witness:
  "\<exists>os1 os2.
     SetSLO (SetNeconPod (slo_pod ''web'' ''a'' 240) new_necon) demo_os =
       Inr ((SetNeconPod (slo_pod ''web'' ''a'' 240) new_necon)\<lparr>nec_pod := empty_pod\<rparr>, os1) \<and>
     os_files os1 (goal_path 1) = Some (itoa 30000) \<and>
     SetSLO (SetNeconPod (slo_pod ''web'' ''b'' 2000) new_necon) demo_os =
       Inr ((SetNeconPod (slo_pod ''web'' ''b'' 2000) new_necon)\<lparr>nec_pod := empty_pod\<rparr>, os2) \<and>
     os_files os2 (goal_path 1) = Some ''0''"
proof -
  have n: "nec_count (SetNeconPod (slo_pod ''web'' x n) new_necon) = 1"
    "nec_pod (SetNeconPod (slo_pod ''web'' x n) new_necon) = slo_pod ''web'' x n" for x n
    by (simp_all add: SetNeconPod_def new_necon_def)
  have f: "os_files demo_os p \<noteq> None" for p by (simp add: demo_os_def)
  have w: "\<exists>os1. SetSLO (SetNeconPod (slo_pod ''web'' x n) new_necon) demo_os =
      Inr ((SetNeconPod (slo_pod ''web'' x n) new_necon)\<lparr>nec_pod := empty_pod\<rparr>, os1) \<and>
    os_files os1 = (os_files demo_os)(goal_path 1 \<mapsto> (if 1000 dvd n then ''0'' else itoa (125 * n)))"
    if "0 < n" "n \<le> 9223372036854775" for x n
    using SetSLO_writes_goal [of "SetNeconPod (slo_pod ''web'' x n) new_necon", OF _ _ ParseQuantity_slo _ that f] that
    unfolding n by simp
  from w [of 240 "''a''"] w [of 2000 "''b''"] show ?thesis by (simp del: fun_upd_apply) auto
qed

end
