(* ===== verification/AgentInterleaving.thy ===== *)
theory AgentInterleaving
  imports AgentTraces
begin

section \<open>Interleavings of the agent's calls\<close>

text \<open>
  Pod workers run concurrently and share the one agent, and no method of \<open>pkg/kubelet/necon/necon.go\<close>
  takes a lock.  A \<open>call\<close> is a method in progress: what it does next and the values it holds.  \<open>call_step\<close> is
  its next single access: a read or a write of one field of the agent, or one system call; \<open>count++\<close> is a read
  and a write.  \<open>agent_run\<close> are the runs of the calls of all workers, interleaved access by access, with files
  changing under the agent; in an \<open>exclusive\<close> run a call only starts when no other is in progress.  (Go promises
  nothing about a struct that is read while another goroutine writes it; here the pod is read and written at
  once, so the runs are the ones every implementation of Go allows.)
\<close>

datatype call =
    PodEnter pod
  | PodReadCount
  | PodWriteCount int
  | PathEnter string
  | SloEnter
  | SloReadPod
  | SloReadCount string
  | SloWrite string int
  | SloPrint
  | SloReset
  | PidEnter string string
  | PidPrint string
  | PidRead string
  | PidReadCount string
  | PidWrite string int
  | PidPrintErr

fun enter_hook :: "hook \<Rightarrow> call" where
  "enter_hook (NewPod p) = PodEnter p"
| "enter_hook (CgroupPath path) = PathEnter path"
| "enter_hook SloHook = SloEnter"
| "enter_hook (PidHook cid ns) = PidEnter cid ns"

text \<open>The next access of a call: it panics, returns (\<open>None\<close>) or goes on.\<close>

fun call_step :: "call \<Rightarrow> necon \<times> os_state \<Rightarrow> go_panic + call option \<times> necon \<times> os_state" where
  "call_step (PodEnter p) (nec, os0) =
     (if p_Namespace p \<noteq> ''kube-system'' then Inr (Some PodReadCount, nec\<lparr>nec_pod := p\<rparr>, os0)
      else Inr (None, nec, os0))"
| "call_step PodReadCount (nec, os0) = Inr (Some (PodWriteCount (nec_count nec)), nec, os0)"
| "call_step (PodWriteCount n) (nec, os0) = Inr (None, nec\<lparr>nec_count := wrap64 (n + 1)\<rparr>, os0)"
| "call_step (PathEnter path) (nec, os0) = Inr (None, nec\<lparr>nec_path := path\<rparr>, os0)"
| "call_step SloEnter (nec, os0) =
     Inr (Some (if p_Namespace (nec_pod nec) \<noteq> [] then SloReadPod else SloReset), nec, os0)"
| "call_step SloReadPod (nec, os0) =
     (case p_Containers (nec_pod nec) of
        [] \<Rightarrow> Inl IndexOutOfRange
      | c # _ \<Rightarrow> Inr (Some (SloReadCount (goal_text c)), nec, os0))"
| "call_step (SloReadCount aq) (nec, os0) = Inr (Some (SloWrite aq (nec_count nec)), nec, os0)"
| "call_step (SloWrite aq n) (nec, os0) =
     (case WriteFile os0 (goal_path n) aq of
        (os1, ok) \<Rightarrow> Inr (Some (if ok then SloReset else SloPrint), nec, os1))"
| "call_step SloPrint (nec, os0) = Inr (Some SloReset, nec, Println os0 ''write errr!'')"
| "call_step SloReset (nec, os0) = Inr (None, nec\<lparr>nec_pod := empty_pod\<rparr>, os0)"
| "call_step (PidEnter cid ns) (nec, os0) =
     Inr (if ns \<noteq> ''kube-system'' then Some (PidPrint cid) else None, nec, os0)"
| "call_step (PidPrint cid) (nec, os0) =
     Inr (Some (PidRead cid), nec, Println os0 (''%s '' @ procs_path (nec_path nec) cid))"
| "call_step (PidRead cid) (nec, os0) =
     Inr (Some (PidReadCount (fst (ReadFile os0 (procs_path (nec_path nec) cid)))), nec, os0)"
| "call_step (PidReadCount pid) (nec, os0) = Inr (Some (PidWrite pid (nec_count nec)), nec, os0)"
| "call_step (PidWrite pid n) (nec, os0) =
     (case WriteFile os0 (pid_path n) pid of
        (os1, ok) \<Rightarrow> Inr (if ok then None else Some PidPrintErr, nec, os1))"
| "call_step PidPrintErr (nec, os0) = Inr (None, nec, Println os0 ''pid write err!'')"

text \<open>A run: the calls made so far in the order they started, those in progress, and the state.\<close>

inductive agent_run :: "bool \<Rightarrow> hook list \<Rightarrow> call list \<Rightarrow> necon \<times> os_state \<Rightarrow> bool" for exclusive :: bool where
  run_init: "os_journal os0 = [] \<Longrightarrow> agent_run exclusive [] [] (new_necon, os0)"
| run_enter: "agent_run exclusive tr cs s \<Longrightarrow> exclusive \<longrightarrow> cs = [] \<Longrightarrow>
    agent_run exclusive (tr @ [h]) (cs @ [enter_hook h]) s"
| run_access: "agent_run exclusive tr (xs @ c # ys) s \<Longrightarrow> call_step c s = Inr (r, s') \<Longrightarrow>
    agent_run exclusive tr (xs @ (case r of None \<Rightarrow> [] | Some c' \<Rightarrow> [c']) @ ys) s'"
| run_world: "agent_run exclusive tr cs (nec, os0) \<Longrightarrow> agent_run exclusive tr cs (nec, os0\<lparr>os_files := f\<rparr>)"

subsection \<open>A call that is left alone is the hook\<close>

fun run_call :: "nat \<Rightarrow> call \<Rightarrow> necon \<times> os_state \<Rightarrow> (go_panic + necon \<times> os_state) option" where
  "run_call 0 c s = None"
| "run_call (Suc fuel) c s =
     (case call_step c s of
        Inl e \<Rightarrow> Some (Inl e)
      | Inr (None, s') \<Rightarrow> Some (Inr s')
      | Inr (Some c', s') \<Rightarrow> run_call fuel c' s')"

lemma numeral_6: "6 = Suc (Suc (Suc (Suc (Suc (Suc 0)))))"
  by simp

text \<open>Six accesses are enough for every call, and make up what \<open>run_hook\<close> does at once.\<close>

lemma run_call_is_hook: "run_call 6 (enter_hook h) s = Some (run_hook h s)"
proof -
  obtain nec os0 where s: "s = (nec, os0)" by (cases s)
  show ?thesis
    by (cases h) (simp_all add: s numeral_6 SetNeconPod_def SetCgroupPath_def SetSLO_def SetPID_def Let_def
      del: One_nat_def split: list.split prod.split)
qed

subsection \<open>The history of the calls\<close>

text \<open>The pods the agent took over, in order, and the goal it owes to a pod.\<close>

definition admitted_pods :: "hook list \<Rightarrow> pod list" where
  "admitted_pods tr =
     concat (map (\<lambda>h. case h of NewPod p \<Rightarrow> if p_Namespace p \<noteq> ''kube-system'' then [p] else [] | _ \<Rightarrow> []) tr)"

lemma admitted_simps [simp]:
  "admitted_pods [] = []"
  "admitted_pods (tr @ tr') = admitted_pods tr @ admitted_pods tr'"
  "admitted_pods [NewPod p] = (if p_Namespace p \<noteq> ''kube-system'' then [p] else [])"
  "admitted_pods [CgroupPath path] = []" "admitted_pods [SloHook] = []" "admitted_pods [PidHook cid ns] = []"
  by (simp_all add: admitted_pods_def)

lemma admitted_Cons: "admitted_pods (h # tr) = admitted_pods [h] @ admitted_pods tr"
  by (simp add: admitted_pods_def)

text \<open>
  \<open>goal_by tr k v\<close>: some \<open>SetSLO\<close> of the history ran when exactly \<open>k\<close> pods had been taken over,
  the last of them with goal \<open>v\<close>; \<open>pid_by tr k\<close>: some \<open>SetPID\<close> did.
\<close>

definition goal_by :: "hook list \<Rightarrow> nat \<Rightarrow> string \<Rightarrow> bool" where
  "goal_by tr k v \<longleftrightarrow>
     (\<exists>i < length tr. tr ! i = SloHook \<and> length (admitted_pods (take i tr)) = k \<and> 0 < k \<and>
        v = pod_goal (admitted_pods tr ! (k - 1)))"

definition pid_by :: "hook list \<Rightarrow> nat \<Rightarrow> bool" where
  "pid_by tr k \<longleftrightarrow>
     (\<exists>i < length tr. \<exists>cid ns. tr ! i = PidHook cid ns \<and> ns \<noteq> ''kube-system'' \<and>
        length (admitted_pods (take i tr)) = k)"

lemma admitted_take: "length (admitted_pods (take i tr)) \<le> length (admitted_pods tr)"
proof -
  have "length (admitted_pods (take i tr @ drop i tr)) = length (admitted_pods (take i tr)) + length (admitted_pods (drop i tr))"
    by (simp only: admitted_simps length_append)
  then show ?thesis by simp
qed

lemma goal_by_append: "goal_by tr k v \<Longrightarrow> goal_by (tr @ [h]) k v"
proof -
  assume "goal_by tr k v"
  then obtain i where i: "i < length tr" "tr ! i = SloHook" "length (admitted_pods (take i tr)) = k" "0 < k"
    "v = pod_goal (admitted_pods tr ! (k - 1))" unfolding goal_by_def by blast
  then have "k - 1 < length (admitted_pods tr)" using admitted_take [of i tr] by linarith
  then show ?thesis unfolding goal_by_def using i by (intro exI [of _ i]) (simp add: nth_append)
qed

lemma pid_by_append: "pid_by tr k \<Longrightarrow> pid_by (tr @ [h]) k"
proof -
  assume "pid_by tr k"
  then obtain i cid ns where "i < length tr" "tr ! i = PidHook cid ns" "ns \<noteq> ''kube-system''"
    "length (admitted_pods (take i tr)) = k" unfolding pid_by_def by blast
  then show ?thesis unfolding pid_by_def by (intro exI [of _ i]) (simp add: nth_append)
qed

lemma goal_by_bound: "goal_by tr k v \<Longrightarrow> k \<le> length (admitted_pods tr)"
  using admitted_take unfolding goal_by_def by blast

text \<open>Every write is the goal of the pod whose number names the interface, or a process list.\<close>

definition write_ok :: "hook list \<Rightarrow> string \<times> string \<Rightarrow> bool" where
  "write_ok tr w \<longleftrightarrow>
     (\<exists>k. fst w = goal_path (int k) \<and> goal_by tr k (snd w)) \<or> (\<exists>k. fst w = pid_path (int k) \<and> pid_by tr k)"

lemma write_ok_append: "write_ok tr w \<Longrightarrow> write_ok (tr @ [h]) w"
  unfolding write_ok_def using goal_by_append pid_by_append by blast

lemma write_ok_goal: "write_ok tr (goal_path z, v) \<Longrightarrow> 0 < z \<and> z \<le> int (length (admitted_pods tr)) \<and> goal_by tr (nat z) v"
  using goal_by_bound by (fastforce simp: write_ok_def goal_by_def)

definition agent_inv :: "hook list \<Rightarrow> necon \<times> os_state \<Rightarrow> bool" where
  "agent_inv tr s \<longleftrightarrow>
     nec_count (fst s) = int (length (admitted_pods tr)) \<and>
     (nec_pod (fst s) = empty_pod \<or> admitted_pods tr \<noteq> [] \<and> nec_pod (fst s) = last (admitted_pods tr)) \<and>
     list_all (write_ok tr) (os_journal (snd s)) \<and>
     distinct (filter is_goal_path (map fst (os_journal (snd s)))) \<and>
     (p_Namespace (nec_pod (fst s)) \<noteq> [] \<longrightarrow> goal_path (nec_count (fst s)) \<notin> fst ` set (os_journal (snd s)))"

lemma agent_invD:
  assumes "agent_inv tr s"
  shows "nec_count (fst s) = int (length (admitted_pods tr))"
    and "nec_pod (fst s) = empty_pod \<or> admitted_pods tr \<noteq> [] \<and> nec_pod (fst s) = last (admitted_pods tr)"
    and "list_all (write_ok tr) (os_journal (snd s))"
    and "\<And>h. list_all (write_ok (tr @ [h])) (os_journal (snd s))"
    and "distinct (filter is_goal_path (map fst (os_journal (snd s))))"
    and "p_Namespace (nec_pod (fst s)) \<noteq> [] \<Longrightarrow> goal_path (nec_count (fst s)) \<notin> fst ` set (os_journal (snd s))"
proof -
  note i = assms [unfolded agent_inv_def]
  from i show 1: "nec_count (fst s) = int (length (admitted_pods tr))" by (rule conjunct1)
  from i show "nec_pod (fst s) = empty_pod \<or> admitted_pods tr \<noteq> [] \<and> nec_pod (fst s) = last (admitted_pods tr)"
    by (elim conjE)
  from i show w: "list_all (write_ok tr) (os_journal (snd s))" by (elim conjE)
  then show "\<And>h. list_all (write_ok (tr @ [h])) (os_journal (snd s))"
    using write_ok_append by (auto simp: list_all_iff)
  from i show "distinct (filter is_goal_path (map fst (os_journal (snd s))))" by (elim conjE)
  from i show "p_Namespace (nec_pod (fst s)) \<noteq> [] \<Longrightarrow> goal_path (nec_count (fst s)) \<notin> fst ` set (os_journal (snd s))"
    by (elim conjE) (rule mp)
qed

lemma p_Namespace_empty [simp]: "p_Namespace empty_pod = []"
  by (simp add: empty_pod_def)

lemma agent_inv_init: "os_journal os0 = [] \<Longrightarrow> agent_inv [] (new_necon, os0)"
  by (simp add: agent_inv_def new_necon_def)

lemma agent_inv_NewPod:
  assumes inv: "agent_inv tr (nec, os0)" and b: "length (admitted_pods tr) < 2 ^ 62"
  shows "agent_inv (tr @ [NewPod p]) (SetNeconPod p nec, os0)"
proof (cases "p_Namespace p = ''kube-system''")
  case True
  then show ?thesis using agent_invD [OF inv] by (simp add: agent_inv_def SetNeconPod_def)
next
  case False
  note i = agent_invD [OF inv]
  have "in64 (nec_count nec + 1)" using i(1) b by (simp add: in64_def)
  then have s: "SetNeconPod p nec = nec\<lparr>nec_pod := p, nec_count := nec_count nec + 1\<rparr>"
    using False by (simp add: SetNeconPod_def)
  have "goal_path (nec_count nec + 1) \<notin> fst ` set (os_journal os0)"
  proof
    assume "goal_path (nec_count nec + 1) \<in> fst ` set (os_journal os0)"
    then obtain v where "(goal_path (nec_count nec + 1), v) \<in> set (os_journal os0)" by auto
    then have "write_ok tr (goal_path (nec_count nec + 1), v)" using i(3) by (simp add: list_all_iff)
    then show False using write_ok_goal i(1) by fastforce
  qed
  then show ?thesis using False i by (simp add: s agent_inv_def)
qed

lemma agent_inv_other:
  assumes inv: "agent_inv tr s" and h: "admitted_pods [h] = []"
  shows "agent_inv (tr @ [h]) s"
  using agent_invD [OF inv] h by (simp add: agent_inv_def)

lemma agent_inv_frame [simp]:
  "agent_inv tr (nec, Println os0 l) = agent_inv tr (nec, os0)"
  "agent_inv tr (nec, os0\<lparr>os_files := f\<rparr>) = agent_inv tr (nec, os0)"
  "agent_inv tr (nec\<lparr>nec_path := path\<rparr>, os0) = agent_inv tr (nec, os0)"
  by (simp_all add: agent_inv_def Println_frame)

lemma agent_inv_reset: "agent_inv tr (nec, os0) \<Longrightarrow> agent_inv tr (nec\<lparr>nec_pod := empty_pod\<rparr>, os0)"
  by (simp add: agent_inv_def)

lemma agent_inv_goal:
  assumes inv: "agent_inv tr (nec, os0)" and ns: "p_Namespace (nec_pod nec) \<noteq> []"
    and j: "os_journal os1 = os_journal os0 @ [(goal_path (nec_count nec), pod_goal (nec_pod nec))]"
  shows "agent_inv (tr @ [SloHook]) (nec\<lparr>nec_pod := empty_pod\<rparr>, os1)"
proof -
  let ?n = "length (admitted_pods tr)"
  note i = agent_invD [OF inv]
  have pod: "admitted_pods tr \<noteq> []" "nec_pod nec = last (admitted_pods tr)"
    using ns i(2) by auto
  have g: "goal_by (tr @ [SloHook]) ?n (pod_goal (nec_pod nec))"
    using pod unfolding goal_by_def by (intro exI [of _ "length tr"]) (simp add: last_conv_nth)
  have "write_ok (tr @ [SloHook]) (goal_path (nec_count nec), pod_goal (nec_pod nec))"
    unfolding write_ok_def using g i(1) by auto
  moreover have "goal_path (nec_count nec) \<notin> fst ` set (os_journal os0)" using i(6) ns by simp
  ultimately show ?thesis using j i(1-5) by (simp add: agent_inv_def)
qed

lemma agent_inv_pids:
  assumes inv: "agent_inv tr (nec, os0)" and ns: "ns \<noteq> ''kube-system''"
    and j: "os_journal os1 = os_journal os0 @ [(pid_path (nec_count nec), v)]"
  shows "agent_inv (tr @ [PidHook cid ns]) (nec, os1)"
proof -
  note i = agent_invD [OF inv]
  have "pid_by (tr @ [PidHook cid ns]) (length (admitted_pods tr))"
    using ns unfolding pid_by_def by (intro exI [of _ "length tr"]) simp
  then have "write_ok (tr @ [PidHook cid ns]) (pid_path (nec_count nec), v)"
    unfolding write_ok_def using i(1) by auto
  with i j show ?thesis by (simp add: agent_inv_def)
qed

subsection \<open>Exclusive runs\<close>

text \<open>What holds while the last call of the history is in progress, and no other is.\<close>

definition in_hook :: "hook list \<Rightarrow> hook \<Rightarrow> necon \<times> os_state \<Rightarrow> bool" where
  "in_hook tr h s \<longleftrightarrow> (\<exists>tr'. tr = tr' @ [h] \<and> agent_inv tr' s)"

definition in_pid_hook :: "hook list \<Rightarrow> necon \<times> os_state \<Rightarrow> bool" where
  "in_pid_hook tr s \<longleftrightarrow> (\<exists>cid ns. ns \<noteq> ''kube-system'' \<and> in_hook tr (PidHook cid ns) s)"

definition in_pod_hook :: "hook list \<Rightarrow> necon \<times> os_state \<Rightarrow> bool" where
  "in_pod_hook tr s \<longleftrightarrow> p_Namespace (nec_pod (fst s)) \<noteq> ''kube-system'' \<and>
     (\<exists>q. in_hook tr (NewPod (nec_pod (fst s))) ((fst s)\<lparr>nec_pod := q\<rparr>, snd s))"

definition in_slo_hook :: "hook list \<Rightarrow> necon \<times> os_state \<Rightarrow> bool" where
  "in_slo_hook tr s \<longleftrightarrow> p_Namespace (nec_pod (fst s)) \<noteq> [] \<and> in_hook tr SloHook s"

fun stage_inv :: "hook list \<Rightarrow> call \<Rightarrow> necon \<times> os_state \<Rightarrow> bool" where
  "stage_inv tr (PodEnter p) s = in_hook tr (NewPod p) s"
| "stage_inv tr PodReadCount s = in_pod_hook tr s"
| "stage_inv tr (PodWriteCount n) s = (in_pod_hook tr s \<and> n = nec_count (fst s))"
| "stage_inv tr (PathEnter path) s = in_hook tr (CgroupPath path) s"
| "stage_inv tr SloEnter s = in_hook tr SloHook s"
| "stage_inv tr SloReadPod s = in_slo_hook tr s"
| "stage_inv tr (SloReadCount aq) s = (in_slo_hook tr s \<and> aq = pod_goal (nec_pod (fst s)))"
| "stage_inv tr (SloWrite aq n) s =
     (in_slo_hook tr s \<and> aq = pod_goal (nec_pod (fst s)) \<and> n = nec_count (fst s))"
| "stage_inv tr SloPrint s = agent_inv tr ((fst s)\<lparr>nec_pod := empty_pod\<rparr>, snd s)"
| "stage_inv tr SloReset s = agent_inv tr ((fst s)\<lparr>nec_pod := empty_pod\<rparr>, snd s)"
| "stage_inv tr (PidEnter cid ns) s = in_hook tr (PidHook cid ns) s"
| "stage_inv tr (PidPrint cid) s = in_pid_hook tr s"
| "stage_inv tr (PidRead cid) s = in_pid_hook tr s"
| "stage_inv tr (PidReadCount pid) s = in_pid_hook tr s"
| "stage_inv tr (PidWrite pid n) s = (in_pid_hook tr s \<and> n = nec_count (fst s))"
| "stage_inv tr PidPrintErr s = agent_inv tr s"

lemma stage_inv_enter: "agent_inv tr s \<Longrightarrow> stage_inv (tr @ [h]) (enter_hook h) s"
  by (cases h) (auto simp: in_hook_def)

definition call_inv :: "hook list \<Rightarrow> call option \<Rightarrow> necon \<times> os_state \<Rightarrow> bool" where
  "call_inv tr r s \<longleftrightarrow> (case r of None \<Rightarrow> agent_inv tr s | Some c \<Rightarrow> stage_inv tr c s)"

lemma call_inv_simps [simp]: "call_inv tr None s = agent_inv tr s" "call_inv tr (Some c) s = stage_inv tr c s"
  by (simp_all add: call_inv_def)

lemma in_hook_frame [simp]:
  "in_hook tr h (nec, Println os0 l) = in_hook tr h (nec, os0)"
  "in_hook tr h (nec, os0\<lparr>os_files := f\<rparr>) = in_hook tr h (nec, os0)"
  by (simp_all add: in_hook_def)

lemma in_pid_hook_frame [simp]:
  "in_pid_hook tr (nec, Println os0 l) = in_pid_hook tr (nec, os0)"
  by (simp add: in_pid_hook_def)

lemma in_pod_hook_count:
  assumes i: "in_pod_hook tr (nec, os0)" and b: "length (admitted_pods tr) < 2 ^ 62"
  shows "agent_inv tr (nec\<lparr>nec_count := wrap64 (nec_count nec + 1)\<rparr>, os0)"
proof -
  obtain q tr' where q: "tr = tr' @ [NewPod (nec_pod nec)]" "agent_inv tr' (nec\<lparr>nec_pod := q\<rparr>, os0)"
    "p_Namespace (nec_pod nec) \<noteq> ''kube-system''"
    using i by (auto simp: in_pod_hook_def in_hook_def)
  have "length (admitted_pods tr') < 2 ^ 62" using b q(1) by simp
  from agent_inv_NewPod [OF q(2) this, of "nec_pod nec"] show ?thesis
    using q(1,3) by (simp add: SetNeconPod_def)
qed

lemma in_hookE:
  assumes "in_hook tr h s"
  obtains tr' where "tr = tr' @ [h]" "agent_inv tr' s"
  using assms unfolding in_hook_def by blast

lemma in_pid_hookI: "ns \<noteq> ''kube-system'' \<Longrightarrow> in_hook tr (PidHook cid ns) s \<Longrightarrow> in_pid_hook tr s"
  unfolding in_pid_hook_def by blast

lemma stage_inv_pod_step:
  assumes b: "length (admitted_pods tr) < 2 ^ 62" and i: "stage_inv tr (PodEnter p) (nec, os0)"
    and st: "call_step (PodEnter p) (nec, os0) = Inr (r, s')"
  shows "call_inv tr r s'"
proof (cases "p_Namespace p = ''kube-system''")
  case True
  obtain tr' where tr: "tr = tr' @ [NewPod p]" "agent_inv tr' (nec, os0)" using i by (auto elim: in_hookE)
  then show ?thesis using st True agent_inv_other [OF tr(2), of "NewPod p"] by auto
next
  case False
  then show ?thesis using st i by (auto simp: in_pod_hook_def intro!: exI [of _ "nec_pod nec"])
qed

lemma stage_inv_slo_write:
  assumes i: "stage_inv tr (SloWrite aq n) (nec, os0)" and st: "call_step (SloWrite aq n) (nec, os0) = Inr (r, s')"
  shows "call_inv tr r s'"
proof -
  obtain tr' where tr: "tr = tr' @ [SloHook]" "agent_inv tr' (nec, os0)" "p_Namespace (nec_pod nec) \<noteq> []"
    and e: "aq = pod_goal (nec_pod nec)" "n = nec_count nec"
    using i by (auto simp: in_slo_hook_def elim: in_hookE)
  obtain os1 ok where w: "WriteFile os0 (goal_path n) aq = (os1, ok)" by force
  have "os_journal os1 = os_journal os0 @ [(goal_path (nec_count nec), pod_goal (nec_pod nec))]"
    using WriteFile_journal [of os0 "goal_path n" aq] w e by simp
  from agent_inv_goal [OF tr(2,3) this] show ?thesis using st w tr(1) by auto
qed

lemma stage_inv_pid_write:
  assumes i: "stage_inv tr (PidWrite pid n) (nec, os0)" and st: "call_step (PidWrite pid n) (nec, os0) = Inr (r, s')"
  shows "call_inv tr r s'"
proof -
  obtain tr' cid ns where tr: "tr = tr' @ [PidHook cid ns]" "agent_inv tr' (nec, os0)" "ns \<noteq> ''kube-system''"
    and e: "n = nec_count nec"
    using i by (auto simp: in_pid_hook_def elim: in_hookE)
  obtain os1 ok where w: "WriteFile os0 (pid_path n) pid = (os1, ok)" by force
  have "os_journal os1 = os_journal os0 @ [(pid_path (nec_count nec), pid)]"
    using WriteFile_journal [of os0 "pid_path n" pid] w e by simp
  from agent_inv_pids [OF tr(2,3) this, of cid] show ?thesis using st w tr(1) by auto
qed

lemma stage_inv_step:
  assumes i: "stage_inv tr c s" and st: "call_step c s = Inr (r, s')" and b: "length (admitted_pods tr) < 2 ^ 62"
  shows "call_inv tr r s'"
proof -
  obtain nec os0 where s: "s = (nec, os0)" by (cases s)
  note ist = i [unfolded s] st [unfolded s]
  show ?thesis
  proof (cases c)
    case (PodEnter p)
    then show ?thesis using stage_inv_pod_step [OF b] ist by blast
  next
    case (PodWriteCount n)
    then show ?thesis using in_pod_hook_count [OF _ b] ist by auto
  next
    case (PathEnter path)
    then obtain tr' where tr: "tr = tr' @ [CgroupPath path]" "agent_inv tr' (nec, os0)"
      using ist by (auto elim: in_hookE)
    have "agent_inv tr (nec, os0)" unfolding tr(1) by (rule agent_inv_other [OF tr(2)]) simp
    then show ?thesis using ist PathEnter by auto
  next
    case SloEnter
    then obtain tr' where tr: "tr = tr' @ [SloHook]" "agent_inv tr' (nec, os0)"
      using ist by (auto elim: in_hookE)
    have "agent_inv tr (nec, os0)" unfolding tr(1) by (rule agent_inv_other [OF tr(2)]) simp
    then show ?thesis using ist SloEnter by (auto simp: in_slo_hook_def agent_inv_reset)
  next
    case SloReadPod
    then show ?thesis using ist by (auto simp: pod_goal_def split: list.splits)
  next
    case (SloWrite aq n)
    then show ?thesis using stage_inv_slo_write ist by blast
  next
    case SloPrint
    then show ?thesis using ist by auto
  next
    case (PidEnter cid ns)
    then obtain tr' where tr: "tr = tr' @ [PidHook cid ns]" "agent_inv tr' (nec, os0)"
      using ist by (auto elim: in_hookE)
    have "agent_inv tr (nec, os0)" unfolding tr(1) by (rule agent_inv_other [OF tr(2)]) simp
    then show ?thesis using ist PidEnter
      by (auto intro: in_pid_hookI)
  next
    case (PidPrint cid)
    then show ?thesis using ist by auto
  next
    case (PidWrite pid n)
    then show ?thesis using stage_inv_pid_write ist by blast
  next
    case PidPrintErr
    then show ?thesis using ist by auto
  qed (use ist in auto)
qed

lemma stage_inv_world:
  assumes "stage_inv tr c (nec, os0)"
  shows "stage_inv tr c (nec, os0\<lparr>os_files := f\<rparr>)"
  using assms by (cases c) (simp_all add: in_pod_hook_def in_slo_hook_def in_pid_hook_def)

definition exclusive_inv :: "hook list \<Rightarrow> call list \<Rightarrow> necon \<times> os_state \<Rightarrow> bool" where
  "exclusive_inv tr cs s \<longleftrightarrow> (cs = [] \<and> agent_inv tr s) \<or> (\<exists>c. cs = [c] \<and> stage_inv tr c s)"

lemma exclusive_run_inv:
  "agent_run True tr cs s \<Longrightarrow> length (admitted_pods tr) < 2 ^ 62 \<Longrightarrow> exclusive_inv tr cs s"
proof (induction rule: agent_run.induct)
  case (run_init os0)
  then show ?case by (simp add: exclusive_inv_def agent_inv_init)
next
  case (run_enter tr cs s h)
  have "length (admitted_pods tr) \<le> length (admitted_pods (tr @ [h]))" by simp
  then have "exclusive_inv tr cs s" using run_enter by linarith
  then show ?case using run_enter.hyps(2) stage_inv_enter by (auto simp: exclusive_inv_def)
next
  case (run_access tr xs c ys s r s')
  then have "xs = [] \<and> ys = [] \<and> stage_inv tr c s" by (auto simp: exclusive_inv_def append_eq_Cons_conv)
  moreover from this have "call_inv tr r s'" using stage_inv_step run_access by blast
  ultimately show ?case by (auto simp: exclusive_inv_def call_inv_def split: option.splits)
next
  case (run_world tr cs nec os0 f)
  then show ?case using stage_inv_world [of tr _ nec os0 f]
    by (auto simp: exclusive_inv_def)
qed

subsection \<open>What holds of every interleaving\<close>

text \<open>The calls that have yet to add one to the number of pods.\<close>

fun adding :: "call \<Rightarrow> bool" where
  "adding (PodEnter p) = (p_Namespace p \<noteq> ''kube-system'')"
| "adding PodReadCount = True"
| "adding (PodWriteCount n) = True"
| "adding _ = False"

fun call_ok :: "pod set \<Rightarrow> int \<Rightarrow> call \<Rightarrow> bool" where
  "call_ok V d (PodEnter p) = (p_Namespace p \<noteq> ''kube-system'' \<longrightarrow> p \<in> V)"
| "call_ok V d (PodWriteCount n) = (0 \<le> n \<and> n \<le> d)"
| "call_ok V d (SloReadCount aq) = (aq \<in> pod_goal ` V)"
| "call_ok V d (SloWrite aq n) = (aq \<in> pod_goal ` V \<and> 0 \<le> n \<and> n \<le> d)"
| "call_ok V d _ = True"

definition goal_ok :: "pod set \<Rightarrow> int \<Rightarrow> string \<times> string \<Rightarrow> bool" where
  "goal_ok V d w \<longleftrightarrow> (is_goal_path (fst w) \<longrightarrow>
     (\<exists>z. 0 \<le> z \<and> z \<le> d \<and> fst w = goal_path z \<and> snd w \<in> pod_goal ` V))"

definition shared_ok :: "pod set \<Rightarrow> int \<Rightarrow> necon \<times> os_state \<Rightarrow> bool" where
  "shared_ok V d s \<longleftrightarrow> 0 \<le> nec_count (fst s) \<and> nec_count (fst s) \<le> d \<and>
     (nec_pod (fst s) = empty_pod \<or> nec_pod (fst s) \<in> V) \<and> list_all (goal_ok V d) (os_journal (snd s))"

definition added :: "hook list \<Rightarrow> call list \<Rightarrow> int" where
  "added tr cs = int (length (admitted_pods tr)) - int (length (filter adding cs))"

definition loose_inv :: "hook list \<Rightarrow> call list \<Rightarrow> necon \<times> os_state \<Rightarrow> bool" where
  "loose_inv tr cs s \<longleftrightarrow> shared_ok (set (admitted_pods tr)) (added tr cs) s \<and>
     list_all (call_ok (set (admitted_pods tr)) (added tr cs)) cs"

lemma call_ok_mono: "call_ok V d c \<Longrightarrow> V \<subseteq> V' \<Longrightarrow> d \<le> d' \<Longrightarrow> call_ok V' d' c"
  by (cases c) auto

lemma shared_ok_mono: "shared_ok V d s \<Longrightarrow> V \<subseteq> V' \<Longrightarrow> d \<le> d' \<Longrightarrow> shared_ok V' d' s"
  unfolding shared_ok_def list_all_iff goal_ok_def by (meson image_mono order_trans subsetD)

lemma shared_ok_simps [simp]:
  "shared_ok V d (nec, Println os0 l) = shared_ok V d (nec, os0)"
  "shared_ok V d (nec, os0\<lparr>os_files := f\<rparr>) = shared_ok V d (nec, os0)"
  "shared_ok V d (nec\<lparr>nec_path := path\<rparr>, os0) = shared_ok V d (nec, os0)"
  by (simp_all add: shared_ok_def Println_frame)

lemma call_step_ok:
  assumes c: "call_ok V d c" and s: "shared_ok V d s" and st: "call_step c s = Inr (r, s')"
    and b: "d < 2 ^ 62" and d': "d' = d + of_bool (adding c) - of_bool (\<exists>c'. r = Some c' \<and> adding c')"
  shows "d \<le> d' \<and> shared_ok V d' s' \<and> (case r of None \<Rightarrow> True | Some c' \<Rightarrow> call_ok V d' c')"
proof -
  obtain nec os0 where nos: "s = (nec, os0)" by (cases s)
  note ist = c s [unfolded nos] st [unfolded nos]
  have g: "goal_text x \<in> pod_goal ` V" if "p_Containers (nec_pod nec) = x # xs" for x xs
  proof -
    have "nec_pod nec \<noteq> empty_pod" using that by (auto simp: empty_pod_def)
    then have "nec_pod nec \<in> V" using ist(2) by (simp add: shared_ok_def)
    moreover have "goal_text x = pod_goal (nec_pod nec)" using that by (simp add: pod_goal_def)
    ultimately show ?thesis by blast
  qed
  have w: "wrap64 (n + 1) = n + 1" if "0 \<le> n" "n \<le> d" for n
    using that b by (simp add: in64_def)
  show ?thesis
  proof (cases c)
    case (PodWriteCount n)
    then have "shared_ok V (d + 1) s" using s by (auto elim: shared_ok_mono)
    then show ?thesis using PodWriteCount ist w d' by (auto simp: shared_ok_def nos)
  next
    case (SloWrite aq n)
    obtain os1 ok where wr: "WriteFile os0 (goal_path n) aq = (os1, ok)" by force
    have "os_journal os1 = os_journal os0 @ [(goal_path n, aq)]"
      using WriteFile_journal [of os0 "goal_path n" aq] wr by simp
    then show ?thesis using SloWrite ist wr d' by (auto simp: shared_ok_def goal_ok_def split: if_splits)
  next
    case (PidWrite pid n)
    obtain os1 ok where wr: "WriteFile os0 (pid_path n) pid = (os1, ok)" by force
    have "os_journal os1 = os_journal os0 @ [(pid_path n, pid)]"
      using WriteFile_journal [of os0 "pid_path n" pid] wr by simp
    then show ?thesis using PidWrite ist wr d' by (auto simp: shared_ok_def goal_ok_def split: if_splits)
  next
    case SloReadPod
    then show ?thesis using ist d' g by (auto split: list.splits)
  qed (use ist d' in \<open>auto simp: shared_ok_def Println_frame split: if_splits\<close>)
qed

lemma run_loose_inv:
  "agent_run exclusive tr cs s \<Longrightarrow> length (admitted_pods tr) < 2 ^ 62 \<Longrightarrow> loose_inv tr cs s"
proof (induction rule: agent_run.induct)
  case (run_init os0)
  then show ?case by (simp add: loose_inv_def shared_ok_def added_def new_necon_def)
next
  case (run_enter tr cs s h)
  let ?V = "set (admitted_pods tr)" and ?V' = "set (admitted_pods (tr @ [h]))"
  have "length (admitted_pods tr) \<le> length (admitted_pods (tr @ [h]))" by simp
  then have i: "loose_inv tr cs s" using run_enter by linarith
  have a: "added (tr @ [h]) (cs @ [enter_hook h]) = added tr cs" by (cases h) (simp_all add: added_def)
  have V: "?V \<subseteq> ?V'" by simp
  have "call_ok ?V' d (enter_hook h)" for d by (cases h) simp_all
  moreover have "list_all (call_ok ?V' (added tr cs)) cs" "shared_ok ?V' (added tr cs) s"
    using i V call_ok_mono [OF _ V order_refl] shared_ok_mono [OF _ V order_refl]
    by (auto simp: loose_inv_def list_all_iff simp del: admitted_simps)
  ultimately show ?case by (simp add: loose_inv_def a del: admitted_simps)
next
  case (run_access tr xs c ys s r s')
  let ?V = "set (admitted_pods tr)" and ?d = "added tr (xs @ c # ys)"
  let ?cs = "xs @ (case r of None \<Rightarrow> [] | Some c' \<Rightarrow> [c']) @ ys"
  note i = run_access.IH [OF run_access.prems, unfolded loose_inv_def]
  have "?d \<le> int (length (admitted_pods tr))" by (simp add: added_def)
  moreover have "int (length (admitted_pods tr)) < 2 ^ 62" using run_access.prems by simp
  ultimately have b: "?d < 2 ^ 62" by (rule order.strict_trans1)
  have d': "added tr ?cs = ?d + of_bool (adding c) - of_bool (\<exists>c'. r = Some c' \<and> adding c')"
    by (auto simp: added_def split: option.split)
  from i have i': "shared_ok ?V ?d s" "call_ok ?V ?d c" "list_all (call_ok ?V ?d) (xs @ ys)" by auto
  note st = call_step_ok [OF i'(2,1) run_access.hyps(2) b d']
  have "list_all (call_ok ?V (added tr ?cs)) (xs @ ys)"
    using i'(3) st call_ok_mono by (fastforce simp: list_all_iff simp del: admitted_simps)
  then show ?case using st by (simp add: loose_inv_def split: option.splits)
next
  case (run_world tr cs nec os0 f)
  then show ?case by (simp add: loose_inv_def)
qed

subsection \<open>Whose goal an interface gets\<close>

lemma exclusive_run_write:
  assumes "agent_run True tr cs (nec, os0)" "length (admitted_pods tr) < 2 ^ 62"
  shows "distinct (filter is_goal_path (map fst (os_journal os0))) \<and> list_all (write_ok tr) (os_journal os0)"
proof -
  have in_hook: "?thesis" if "in_hook tr h (nec', os0)" for h nec'
    using that by (elim in_hookE) (use agent_invD(4,5) in \<open>fastforce simp del: admitted_simps\<close>)
  have out: "?thesis" if "agent_inv tr (nec', os0)" for nec'
    using agent_invD(3,5) [OF that] by simp
  have "exclusive_inv tr cs (nec, os0)" by (rule exclusive_run_inv [OF assms])
  then consider "agent_inv tr (nec, os0)" | c where "stage_inv tr c (nec, os0)"
    unfolding exclusive_inv_def by blast
  then show ?thesis
  proof cases
    case 1
    then show ?thesis by (rule out)
  next
    case 2
    then show ?thesis
      by (cases c) (auto simp: in_pod_hook_def in_slo_hook_def in_pid_hook_def dest: in_hook out)
  qed
qed

lemma write_ok_own_goal:
  assumes w: "write_ok tr (p, v)" and p: "is_goal_path p"
  shows "\<exists>k < length (admitted_pods tr). p = goal_path (int k + 1) \<and> v = pod_goal (admitted_pods tr ! k)"
proof -
  from w p obtain k where k: "p = goal_path (int k)" "goal_by tr k v" by (auto simp: write_ok_def)
  then have "0 < k" "k \<le> length (admitted_pods tr)" "v = pod_goal (admitted_pods tr ! (k - 1))"
    using goal_by_bound [OF k(2)] by (auto simp: goal_by_def)
  then show ?thesis using k(1) by (intro exI [of _ "k - 1"]) auto
qed

text \<open>
  C1: However the accesses of the calls of all pods interleave (the pod read or written as a whole, a field of the
  agent at a time), with files changing under the agent, every goal that has been written is that of some pod announced so far, and the number of its interface is at most the
  number of pods announced.  If moreover no call starts before the one in progress has returned (which nothing in
  the code ensures), each virtual interface is written a goal at most once, and the goal
  written to the interface with number \<open>k\<close> is that of the \<open>k\<close>-th pod announced.
\<close>

theorem goal_written_once_for_its_pod:
  assumes "agent_run exclusive tr cs (nec, os0)" and "length (admitted_pods tr) < 2 ^ 62"
  shows "(\<forall>p v. (p, v) \<in> set (os_journal os0) \<and> is_goal_path p \<longrightarrow>
      (\<exists>k \<le> length (admitted_pods tr). p = goal_path (int k) \<and> v \<in> pod_goal ` set (admitted_pods tr))) \<and>
    (exclusive \<longrightarrow> distinct (filter is_goal_path (map fst (os_journal os0))) \<and>
      (\<forall>p v. (p, v) \<in> set (os_journal os0) \<and> is_goal_path p \<longrightarrow>
         (\<exists>k < length (admitted_pods tr). p = goal_path (int k + 1) \<and> v = pod_goal (admitted_pods tr ! k))))"
proof (intro conjI allI impI)
  fix p v assume pv: "(p, v) \<in> set (os_journal os0) \<and> is_goal_path p"
  have "goal_ok (set (admitted_pods tr)) (added tr cs) (p, v)"
    using run_loose_inv [OF assms] pv by (auto simp: loose_inv_def shared_ok_def list_all_iff)
  then obtain z where z: "0 \<le> z" "z \<le> added tr cs" "p = goal_path z" "v \<in> pod_goal ` set (admitted_pods tr)"
    using pv by (auto simp: goal_ok_def)
  then have "nat z \<le> length (admitted_pods tr)" by (simp add: added_def)
  with z show "\<exists>k \<le> length (admitted_pods tr). p = goal_path (int k) \<and> v \<in> pod_goal ` set (admitted_pods tr)"
    by (intro exI [of _ "nat z"]) simp
next
  assume exclusive
  with assms have r: "agent_run True tr cs (nec, os0)" by simp
  note w = exclusive_run_write [OF r assms(2)]
  show "distinct (filter is_goal_path (map fst (os_journal os0)))" using w by simp
  fix p v assume "(p, v) \<in> set (os_journal os0) \<and> is_goal_path p"
  with w show "\<exists>k < length (admitted_pods tr). p = goal_path (int k + 1) \<and> v = pod_goal (admitted_pods tr ! k)"
    by (intro write_ok_own_goal) (auto simp: list_all_iff)
qed

text \<open>
  C2: A pod that is overtaken loses its goal: in a run whose calls do not overlap, if a second pod is announced
  and no \<open>SetSLO\<close> call of any pod was made since the first was announced, the first pod's interface is
  never written a goal, whatever happens before and afterwards.
\<close>

theorem overtaken_pod_gets_no_goal:
  assumes r: "agent_run True (tr1 @ [NewPod p] @ mid @ [NewPod p'] @ tr2) cs (nec, os0)"
    and b: "length (admitted_pods (tr1 @ [NewPod p] @ mid @ [NewPod p'] @ tr2)) < 2 ^ 62"
    and ns: "p_Namespace p \<noteq> ''kube-system''" "p_Namespace p' \<noteq> ''kube-system''"
    and mid: "SloHook \<notin> set mid"
  shows "goal_path (int (length (admitted_pods tr1)) + 1) \<notin> fst ` set (os_journal os0)"
proof
  let ?n = "length (admitted_pods tr1)" and ?tr = "tr1 @ [NewPod p] @ mid @ [NewPod p'] @ tr2"
  assume "goal_path (int ?n + 1) \<in> fst ` set (os_journal os0)"
  then obtain v where "(goal_path (int ?n + 1), v) \<in> set (os_journal os0)" by auto
  then have "write_ok ?tr (goal_path (int ?n + 1), v)"
    using exclusive_run_write [OF r b] by (auto simp: list_all_iff simp del: admitted_simps)
  then have "goal_by ?tr (nat (int ?n + 1)) v" using write_ok_goal by blast
  then have "goal_by ?tr (?n + 1) v" by (simp add: nat_add_distrib)
  then obtain i where i: "?tr ! i = SloHook" "length (admitted_pods (take i ?tr)) = ?n + 1"
    unfolding goal_by_def by blast
  let ?a = "length tr1" and ?m = "length mid"
  consider "i \<le> ?a" | "?a < i" "i \<le> ?a + ?m" | "i = ?a + 1 + ?m" | "?a + 2 + ?m \<le> i" by linarith
  then show False
  proof cases
    case 1
    then have "take i ?tr = take i tr1" by simp
    with i(2) admitted_take [of i tr1] show False by simp
  next
    case 2
    then have "?tr ! i = mid ! (i - Suc ?a)" "i - Suc ?a < ?m" by (auto simp: nth_append)
    with i(1) mid show False by (metis nth_mem)
  next
    case 3
    then have "?tr ! i = NewPod p'" by (simp add: nth_append)
    with i(1) show False by simp
  next
    case 4
    then have "take i ?tr = tr1 @ [NewPod p] @ mid @ [NewPod p'] @ take (i - (?a + 2 + ?m)) tr2"
      by (simp add: take_Cons')
    then have "length (admitted_pods (tr1 @ [NewPod p] @ mid @ [NewPod p'] @ take (i - (?a + 2 + ?m)) tr2)) = ?n + 1"
      using i(2) by (simp only:)
    with ns show False by (simp add: admitted_Cons [of "NewPod p"] admitted_Cons [of "NewPod p'"])
  qed
qed

subsection \<open>Concrete runs\<close>

text \<open>A run given as the list of what happens next: a call starts, or the \<open>i\<close>-th call in progress makes an access.\<close>

datatype move = Enter hook | Access nat

type_synonym agent_system = "hook list \<times> call list \<times> necon \<times> os_state"

fun do_move :: "bool \<Rightarrow> move \<Rightarrow> agent_system \<Rightarrow> agent_system option" where
  "do_move exclusive (Enter h) (tr, cs, s) =
     (if exclusive \<and> cs \<noteq> [] then None else Some (tr @ [h], cs @ [enter_hook h], s))"
| "do_move exclusive (Access i) (tr, cs, s) =
     (case drop i cs of
        [] \<Rightarrow> None
      | c # ys \<Rightarrow>
          (case call_step c s of
             Inl e \<Rightarrow> None
           | Inr (r, s') \<Rightarrow> Some (tr, take i cs @ (case r of None \<Rightarrow> [] | Some c' \<Rightarrow> [c']) @ ys, s')))"

fun do_moves :: "bool \<Rightarrow> move list \<Rightarrow> agent_system \<Rightarrow> agent_system option" where
  "do_moves exclusive [] w = Some w"
| "do_moves exclusive (m # ms) w = (case do_move exclusive m w of None \<Rightarrow> None | Some w' \<Rightarrow> do_moves exclusive ms w')"

lemma do_move_run:
  assumes "agent_run exclusive tr cs s" and "do_move exclusive m (tr, cs, s) = Some (tr', cs', s')"
  shows "agent_run exclusive tr' cs' s'"
proof (cases m)
  case (Enter h)
  then show ?thesis using assms run_enter [OF assms(1), of h] by (auto split: if_splits)
next
  case (Access i)
  then obtain c ys where d: "drop i cs = c # ys" using assms(2) by (auto split: list.splits)
  then obtain r where r: "call_step c s = Inr (r, s')" "tr' = tr"
    "cs' = take i cs @ (case r of None \<Rightarrow> [] | Some c' \<Rightarrow> [c']) @ ys"
    using assms(2) Access by (auto split: sum.splits prod.splits)
  have "cs = take i cs @ c # ys" using append_take_drop_id [of i cs] d by simp
  with assms(1) have "agent_run exclusive tr (take i cs @ c # ys) s" by simp
  from run_access [OF this r(1)] show ?thesis using r(2,3) by simp
qed

lemma do_moves_run:
  "do_moves exclusive ms (tr, cs, s) = Some (tr', cs', s') \<Longrightarrow> agent_run exclusive tr cs s \<Longrightarrow>
     agent_run exclusive tr' cs' s'"
proof (induction ms arbitrary: tr cs s)
  case (Cons m ms)
  then obtain tr1 cs1 s1 where m: "do_move exclusive m (tr, cs, s) = Some (tr1, cs1, s1)"
    "do_moves exclusive ms (tr1, cs1, s1) = Some (tr', cs', s')"
    by (auto split: option.splits)
  from Cons.IH [OF m(2) do_move_run [OF Cons.prems(2) m(1)]] show ?case .
qed simp

lemmas moves_start = do_moves_run [OF _ run_init]

definition pod_a :: pod where
  "pod_a = slo_pod ''web'' ''a'' 240"

definition pod_b :: pod where
  "pod_b = slo_pod ''web'' ''b'' 80"

definition start_system :: agent_system where
  "start_system = ([], [], new_necon, demo_os)"

definition announce_moves :: "pod \<Rightarrow> nat \<Rightarrow> move list" where
  "announce_moves p i = [Enter (NewPod p), Access i, Access i, Access i]"

definition goal_moves :: "move list" where
  "goal_moves = [Enter SloHook, Access 0, Access 0, Access 0, Access 0, Access 0]"

definition slo_container :: "int \<Rightarrow> container" where
  "slo_container n = (empty_container ''main'')\<lparr>c_Limits := [(ResourceSLO, slo_quantity n)]\<rparr>"

lemma demo_pods [simp]:
  "p_Namespace pod_a = ''web''" "p_Containers pod_a = [slo_container 240]" "goal_text (slo_container 240) = itoa 30000"
  "p_Namespace pod_b = ''web''" "p_Containers pod_b = [slo_container 80]" "goal_text (slo_container 80) = itoa 10000"
  using pod_goal_slo_pod [of 240 "''web''" "''a''"] pod_goal_slo_pod [of 80 "''web''" "''b''"]
  by (simp_all add: pod_a_def pod_b_def pod_goal_def slo_container_def)

lemma demo_system:
  "nec_count new_necon = 0" "os_files demo_os p \<noteq> None" "os_journal demo_os = []"
  by (simp_all add: new_necon_def demo_os_def)

lemmas demo_moves = start_system_def announce_moves_def goal_moves_def demo_system WriteFile_def Let_def in64_def
  demo_os_def new_necon_def

text \<open>The moves of pod b's announcement fall between the reading of pod a's goal and that of the count.\<close>

definition misattributing_moves :: "move list" where
  "misattributing_moves = announce_moves pod_a 0 @ [Enter SloHook, Access 0, Access 0] @ announce_moves pod_b 1 @
     [Access 0, Access 0]"

lemma exclusive_demo:
  "\<exists>nec os1. do_moves True (announce_moves pod_a 0 @ goal_moves) start_system = Some ([NewPod pod_a, SloHook], [], nec, os1) \<and>
     os_journal os1 = [(goal_path 1, itoa 30000)]"
  by (simp add: demo_moves)

lemma misattributing_demo:
  "\<exists>nec os1. do_moves False misattributing_moves start_system =
       Some ([NewPod pod_a, SloHook, NewPod pod_b], [SloReset], nec, os1) \<and>
     os_journal os1 = [(goal_path 2, itoa 30000)]"
  by (simp add: misattributing_moves_def demo_moves)

lemma start_system_run:
  assumes "do_moves exclusive ms start_system = Some (tr, cs, nec, os1)"
  shows "agent_run exclusive tr cs (nec, os1)"
  using moves_start [OF assms [unfolded start_system_def] demo_system(3)] .

lemma short_history: "length (admitted_pods [NewPod pod_a, SloHook]) < 2 ^ 62"
  "length (admitted_pods [NewPod pod_a, SloHook, NewPod pod_b]) < 2 ^ 62"
  by (simp_all add: admitted_pods_def)

theorem goal_written_once_witness:
  "\<exists>nec os1 nec' os2.
     agent_run True [NewPod pod_a, SloHook] [] (nec, os1) \<and> os_journal os1 = [(goal_path 1, itoa 30000)] \<and>
     distinct (filter is_goal_path (map fst (os_journal os1))) \<and>
     agent_run False [NewPod pod_a, SloHook, NewPod pod_b] [SloReset] (nec', os2) \<and>
     os_journal os2 = [(goal_path 2, itoa 30000)] \<and>
     itoa 30000 \<in> pod_goal ` set (admitted_pods [NewPod pod_a, SloHook, NewPod pod_b])"
proof -
  obtain nec os1 where m: "do_moves True (announce_moves pod_a 0 @ goal_moves) start_system =
      Some ([NewPod pod_a, SloHook], [], nec, os1)" and j: "os_journal os1 = [(goal_path 1, itoa 30000)]"
    using exclusive_demo by (elim exE conjE) (rule that)
  note r = start_system_run [OF m]
  have d: "distinct (filter is_goal_path (map fst (os_journal os1)))"
    using goal_written_once_for_its_pod [OF r short_history(1)] by simp
  obtain nec' os2 where m': "do_moves False misattributing_moves start_system =
      Some ([NewPod pod_a, SloHook, NewPod pod_b], [SloReset], nec', os2)"
    and j': "os_journal os2 = [(goal_path 2, itoa 30000)]"
    using misattributing_demo by (elim exE conjE) (rule that)
  note r' = start_system_run [OF m']
  have "itoa 30000 \<in> pod_goal ` set (admitted_pods [NewPod pod_a, SloHook, NewPod pod_b])"
    using goal_written_once_for_its_pod [OF r' short_history(2)] j' by (auto simp del: admitted_simps)
  with r j d r' j' show ?thesis by (intro exI conjI)
qed

definition overtaking_moves :: "move list" where
  "overtaking_moves = announce_moves pod_a 0 @ announce_moves pod_b 0 @ goal_moves @ [Enter SloHook, Access 0, Access 0]"

lemma overtaking_demo:
  "\<exists>nec os1. do_moves True overtaking_moves start_system =
       Some ([] @ [NewPod pod_a] @ [] @ [NewPod pod_b] @ [SloHook, SloHook], [], nec, os1) \<and>
     os_journal os1 = [(goal_path 2, itoa 10000)]"
  by (simp add: overtaking_moves_def demo_moves)

theorem overtaken_pod_witness:
  "\<exists>nec os1. do_moves True overtaking_moves start_system =
       Some ([NewPod pod_a, NewPod pod_b, SloHook, SloHook], [], nec, os1) \<and>
     agent_run True [NewPod pod_a, NewPod pod_b, SloHook, SloHook] [] (nec, os1) \<and>
     os_journal os1 = [(goal_path 2, itoa 10000)] \<and> goal_path 1 \<notin> fst ` set (os_journal os1)"
proof -
  let ?tr = "[] @ [NewPod pod_a] @ [] @ [NewPod pod_b] @ [SloHook, SloHook]"
  obtain nec os1 where m: "do_moves True overtaking_moves start_system = Some (?tr, [], nec, os1)"
    and j: "os_journal os1 = [(goal_path 2, itoa 10000)]"
    using overtaking_demo by (elim exE conjE) (rule that)
  note r = start_system_run [OF m]
  have "length (admitted_pods ?tr) < 2 ^ 62" by (simp add: admitted_pods_def)
  from overtaken_pod_gets_no_goal [OF r this]
  have "goal_path (int (length (admitted_pods [])) + 1) \<notin> fst ` set (os_journal os1)" by simp
  then have n: "goal_path 1 \<notin> fst ` set (os_journal os1)" by simp
  show ?thesis using m r by (intro exI [of _ nec] exI [of _ os1] conjI j n) simp_all
qed

subsection \<open>What overlapping calls do\<close>

text \<open>
  Without the exclusion: the goal of one pod is written to the interface of another (\<open>misattributing_demo\<close>), the
  same goal is written twice, a call panics on the pod that another has just reset, and one of two announcements
  is not counted, so that the second pod takes the interface of the first.
\<close>

lemma goal_written_twice:
  "\<exists>nec os1. agent_run False [NewPod pod_a, SloHook, SloHook] [SloReset, SloReset] (nec, os1) \<and>
     os_journal os1 = [(goal_path 1, itoa 30000), (goal_path 1, itoa 30000)]"
proof -
  have "\<exists>nec os1. do_moves False (announce_moves pod_a 0 @ [Enter SloHook, Enter SloHook] @
        [Access 0, Access 1, Access 0, Access 1, Access 0, Access 0, Access 1, Access 1]) start_system =
      Some ([NewPod pod_a, SloHook, SloHook], [SloReset, SloReset], nec, os1) \<and>
    os_journal os1 = [(goal_path 1, itoa 30000), (goal_path 1, itoa 30000)]"
    by (simp add: demo_moves)
  then show ?thesis using start_system_run by blast
qed

lemma overlapping_reset_panics:
  "\<exists>s. agent_run False [NewPod pod_a, SloHook, SloHook] [SloReadPod] s \<and> call_step SloReadPod s = Inl IndexOutOfRange"
proof -
  have "\<exists>nec os1. do_moves False (announce_moves pod_a 0 @ [Enter SloHook, Access 0, Enter SloHook] @
        [Access 1, Access 1, Access 1, Access 1, Access 1]) start_system =
      Some ([NewPod pod_a, SloHook, SloHook], [SloReadPod], nec, os1) \<and> nec_pod nec = empty_pod"
    by (simp add: demo_moves)
  then obtain nec os1 where "do_moves False (announce_moves pod_a 0 @ [Enter SloHook, Access 0, Enter SloHook] @
        [Access 1, Access 1, Access 1, Access 1, Access 1]) start_system =
      Some ([NewPod pod_a, SloHook, SloHook], [SloReadPod], nec, os1)" "nec_pod nec = empty_pod"
    by (elim exE conjE) (rule that)
  moreover from this(2) have "call_step SloReadPod (nec, os1) = Inl IndexOutOfRange" by (simp add: empty_pod_def)
  ultimately show ?thesis using start_system_run by blast
qed

lemma overlapping_counts_once:
  "\<exists>nec os1. agent_run False [NewPod pod_a, NewPod pod_b] [] (nec, os1) \<and> nec_count nec = 1"
proof -
  have "\<exists>nec os1. do_moves False ([Enter (NewPod pod_a), Enter (NewPod pod_b)] @
        [Access 0, Access 0, Access 1, Access 1, Access 0, Access 0]) start_system =
      Some ([NewPod pod_a, NewPod pod_b], [], nec, os1) \<and> nec_count nec = 1"
    by (simp add: demo_moves)
  then show ?thesis using start_system_run by blast
qed

end
