(* ===== verification/PodActions.thy ===== *)
theory PodActions
  imports Pods
begin

section \<open>What to do for a pod: sandbox, init containers, containers\<close>

text \<open>
  \<open>podSandboxChanged\<close>, \<open>computePodActions\<close> and their helpers in
  \<open>pkg/kubelet/kuberuntime/kuberuntime_manager.go\<close>, \<open>findNextInitContainerToRun\<close> in
  \<open>kuberuntime_container.go\<close>, \<open>ShouldContainerBeRestarted\<close> in \<open>pkg/kubelet/container/helpers.go\<close>.
  The hash of a container spec and the probe results are arguments (\<open>probe_env\<close>); the calls to
  the post-stop hook, whose error is only logged, are listed in \<open>pa_PostStop\<close>.
\<close>

datatype container_state = StateCreated | StateRunning | StateExited | StateUnknown

record container_status =
  cs_ID :: string
  cs_Name :: string
  cs_State :: container_state
  cs_FinishedAt :: int
  cs_ExitCode :: int
  cs_Hash :: int
  cs_RestartCount :: int

datatype namespace_mode = NamespacePOD | NamespaceCONTAINER | NamespaceNODE

record sandbox_status =
  sb_Id :: string
  sb_Ready :: bool
  sb_Attempt :: int
  sb_Network :: namespace_mode
  sb_Ip :: string

record pod_status =
  ps_IPs :: "string list"
  ps_ContainerStatuses :: "container_status list"
  ps_SandboxStatuses :: "sandbox_status list"

datatype probe_result = ProbeUnknown | ProbeSuccess | ProbeFailure

record probe_env =
  pe_HashContainer :: "container \<Rightarrow> int"
  pe_liveness :: "string \<Rightarrow> probe_result option"
  pe_startup :: "string \<Rightarrow> probe_result option"

datatype kill_message = KillUnknownState | KillDefinitionChanged | KillFailedLiveness bool | KillFailedStartup bool

record kill_info =
  ki_container :: container
  ki_name :: string
  ki_message :: kill_message

record pod_actions =
  pa_KillPod :: bool
  pa_CreateSandbox :: bool
  pa_SandboxID :: string
  pa_Attempt :: int
  pa_NextInit :: "container option"
  pa_Start :: "nat list"
  pa_Kill :: "(string \<times> kill_info) list"
  pa_Ephemeral :: "nat list"
  pa_PostStop :: "string list"

subsection \<open>Lookups and restart decisions\<close>

definition FindContainerStatusByName :: "pod_status \<Rightarrow> string \<Rightarrow> container_status option" where
  "FindContainerStatusByName ps n = find (\<lambda>s. cs_Name s = n) (ps_ContainerStatuses ps)"

definition isInitContainerFailed :: "container_status \<Rightarrow> bool" where
  "isInitContainerFailed s \<longleftrightarrow>
     (if cs_State s = StateExited \<and> cs_ExitCode s \<noteq> 0 then True
      else if cs_State s = StateUnknown then True else False)"

definition ShouldContainerBeRestarted :: "container \<Rightarrow> pod \<Rightarrow> pod_status \<Rightarrow> bool" where
  "ShouldContainerBeRestarted c pod ps =
     (if p_Deleting pod then False
      else case FindContainerStatusByName ps (c_Name c) of
        None \<Rightarrow> True
      | Some s \<Rightarrow>
          if cs_State s = StateRunning then False
          else if cs_State s = StateUnknown \<or> cs_State s = StateCreated then True
          else if p_RestartPolicy pod = RestartNever then False
          else if p_RestartPolicy pod = RestartOnFailure \<and> cs_ExitCode s = 0 then False
          else True)"

definition shouldRestartOnFailure :: "pod \<Rightarrow> bool" where
  "shouldRestartOnFailure pod \<longleftrightarrow> p_RestartPolicy pod \<noteq> RestartNever"

definition containerSucceeded :: "container \<Rightarrow> pod_status \<Rightarrow> bool" where
  "containerSucceeded c ps =
     (case FindContainerStatusByName ps (c_Name c) of
        None \<Rightarrow> False
      | Some s \<Rightarrow> if cs_State s = StateRunning then False else cs_ExitCode s = 0)"

definition containerChanged :: "probe_env \<Rightarrow> container \<Rightarrow> container_status \<Rightarrow> int \<times> int \<times> bool" where
  "containerChanged env c s =
     (let expectedHash = pe_HashContainer env c in (expectedHash, cs_Hash s, cs_Hash s \<noteq> expectedHash))"

definition networkNamespaceForPod :: "pod \<Rightarrow> namespace_mode" where
  "networkNamespaceForPod pod = (if p_HostNetwork pod then NamespaceNODE else NamespacePOD)"

subsection \<open>The sandbox\<close>

definition next_attempt :: "sandbox_status \<Rightarrow> int" where
  "next_attempt s = (sb_Attempt s + 1) mod 4294967296"

definition podSandboxChanged :: "pod \<Rightarrow> pod_status \<Rightarrow> bool \<times> int \<times> string" where
  "podSandboxChanged pod ps =
     (case ps_SandboxStatuses ps of
        [] \<Rightarrow> (True, 0, [])
      | s # _ \<Rightarrow>
          let readySandboxCount = length (filter sb_Ready (ps_SandboxStatuses ps)) in
          if 1 < readySandboxCount then (True, next_attempt s, sb_Id s)
          else if \<not> sb_Ready s then (True, next_attempt s, sb_Id s)
          else if sb_Network s \<noteq> networkNamespaceForPod pod then (True, next_attempt s, [])
          else if \<not> p_HostNetwork pod \<and> sb_Ip s = [] then (True, next_attempt s, sb_Id s)
          else (False, sb_Attempt s, sb_Id s))"

subsection \<open>Init containers\<close>

text \<open>Both loops run from the last init container to the first; \<open>cs\<close> is the reversed list.\<close>

definition last_failed_init :: "container list \<Rightarrow> pod_status \<Rightarrow> (container_status \<times> container) option" where
  "last_failed_init ics ps =
     (case find (\<lambda>c. case FindContainerStatusByName ps (c_Name c) of
                       Some s \<Rightarrow> isInitContainerFailed s | None \<Rightarrow> False) (rev ics) of
        Some c \<Rightarrow> map_option (\<lambda>s. (s, c)) (FindContainerStatusByName ps (c_Name c))
      | None \<Rightarrow> None)"

fun init_progress :: "pod_status \<Rightarrow> container list \<Rightarrow> container option \<Rightarrow> container option \<Rightarrow> container option \<times> bool" where
  "init_progress ps [] following first = (first, False)"
| "init_progress ps (c # cs) following first =
     (case FindContainerStatusByName ps (c_Name c) of
        None \<Rightarrow> init_progress ps cs (Some c) first
      | Some s \<Rightarrow>
          if cs_State s = StateRunning then (None, False)
          else if cs_State s = StateExited then
            (case following of None \<Rightarrow> (None, True) | Some c' \<Rightarrow> (Some c', False))
          else init_progress ps cs (Some c) first)"

definition findNextInitContainerToRun ::
  "pod \<Rightarrow> pod_status \<Rightarrow> container_status option \<times> container option \<times> bool" where
  "findNextInitContainerToRun pod ps =
     (case p_InitContainers pod of
        [] \<Rightarrow> (None, None, True)
      | c0 # _ \<Rightarrow>
          case last_failed_init (p_InitContainers pod) ps of
            Some (s, c) \<Rightarrow> (Some s, Some c, False)
          | None \<Rightarrow> (None, init_progress ps (rev (p_InitContainers pod)) None (Some c0)))"

subsection \<open>The actions\<close>

text \<open>One iteration of the loop over the app containers, on the actions and the keep count.\<close>

definition container_step ::
  "probe_env \<Rightarrow> pod \<Rightarrow> pod_status \<Rightarrow> pod_actions \<times> nat \<Rightarrow> nat \<times> container \<Rightarrow> pod_actions \<times> nat" where
  "container_step env pod ps st ic =
     (case st of (ch0, keep) \<Rightarrow> case ic of (idx, c) \<Rightarrow>
        let status = FindContainerStatusByName ps (c_Name c);
            ch = (case status of
                    Some s \<Rightarrow> if cs_State s \<noteq> StateRunning then ch0\<lparr>pa_PostStop := pa_PostStop ch0 @ [cs_ID s]\<rparr> else ch0
                  | None \<Rightarrow> ch0);
            not_running =
              (if ShouldContainerBeRestarted c pod ps then
                 let ch1 = ch\<lparr>pa_Start := pa_Start ch @ [idx]\<rparr> in
                 (case status of
                    Some s \<Rightarrow>
                      if cs_State s = StateUnknown then
                        ch1\<lparr>pa_Kill := AList.update (cs_ID s)
                               \<lparr>ki_container = c, ki_name = cs_Name s, ki_message = KillUnknownState\<rparr> (pa_Kill ch1)\<rparr>
                      else ch1
                  | None \<Rightarrow> ch1)
               else ch)
        in
        case status of
          None \<Rightarrow> (not_running, keep)
        | Some s \<Rightarrow>
            if cs_State s \<noteq> StateRunning then (not_running, keep)
            else
              let restart = shouldRestartOnFailure pod;
                  kill = (\<lambda>msg rs.
                    let ch1 = (if rs then ch\<lparr>pa_Start := pa_Start ch @ [idx]\<rparr> else ch) in
                    (ch1\<lparr>pa_Kill := AList.update (cs_ID s)
                           \<lparr>ki_container = c, ki_name = cs_Name s, ki_message = msg\<rparr> (pa_Kill ch1)\<rparr>, keep))
              in
              if snd (snd (containerChanged env c s)) then kill KillDefinitionChanged True
              else if pe_liveness env (cs_ID s) = Some ProbeFailure then kill (KillFailedLiveness restart) restart
              else if pe_startup env (cs_ID s) = Some ProbeFailure then kill (KillFailedStartup restart) restart
              else (ch, Suc keep))"

definition computePodActions :: "bool \<Rightarrow> probe_env \<Rightarrow> pod \<Rightarrow> pod_status \<Rightarrow> pod_actions" where
  "computePodActions ephemeralGate env pod ps =
     (case podSandboxChanged pod ps of
        (createPodSandbox, attempt, sandboxID) \<Rightarrow>
          let changes = \<lparr>pa_KillPod = createPodSandbox, pa_CreateSandbox = createPodSandbox,
                pa_SandboxID = sandboxID, pa_Attempt = attempt, pa_NextInit = None, pa_Start = [],
                pa_Kill = [], pa_Ephemeral = [], pa_PostStop = []\<rparr>
          in
          if createPodSandbox then
            if \<not> shouldRestartOnFailure pod \<and> attempt \<noteq> 0 \<and> ps_ContainerStatuses ps \<noteq> [] then
              changes\<lparr>pa_CreateSandbox := False\<rparr>
            else
              (case p_InitContainers pod of
                 c # _ \<Rightarrow> changes\<lparr>pa_NextInit := Some c\<rparr>
               | [] \<Rightarrow>
                   changes\<lparr>pa_Start := map fst (filter (\<lambda>(idx, c).
                     \<not> (containerSucceeded c ps \<and> p_RestartPolicy pod = RestartOnFailure))
                       (enumerate 0 (p_Containers pod)))\<rparr>)
          else
            let changes1 =
              (if ephemeralGate then
                 changes\<lparr>pa_Ephemeral := map fst (filter (\<lambda>(i, c).
                   FindContainerStatusByName ps (c_Name c) = None) (enumerate 0 (p_EphemeralContainers pod)))\<rparr>
               else changes)
            in
            case findNextInitContainerToRun pod ps of
              (initLastStatus, nxt, done) \<Rightarrow>
                if \<not> done then
                  (case nxt of
                     None \<Rightarrow> changes1
                   | Some c \<Rightarrow>
                       let initFailed = (case initLastStatus of Some s \<Rightarrow> isInitContainerFailed s | None \<Rightarrow> False) in
                       if initFailed \<and> \<not> shouldRestartOnFailure pod then changes1\<lparr>pa_KillPod := True\<rparr>
                       else
                         let changes2 =
                           (case initLastStatus of
                              Some s \<Rightarrow>
                                if cs_State s = StateUnknown then
                                  changes1\<lparr>pa_Kill := AList.update (cs_ID s)
                                    \<lparr>ki_container = c, ki_name = c_Name c, ki_message = KillUnknownState\<rparr> (pa_Kill changes1)\<rparr>
                                else changes1
                            | None \<Rightarrow> changes1)
                         in changes2\<lparr>pa_NextInit := Some c\<rparr>)
                else
                  (case foldl (container_step env pod ps) (changes1, 0) (enumerate 0 (p_Containers pod)) of
                     (ch, keepCount) \<Rightarrow>
                       if keepCount = 0 \<and> pa_Start ch = [] then ch\<lparr>pa_KillPod := True\<rparr> else ch))"

subsection \<open>What the loop over the app containers does\<close>

text \<open>The decision for one container, as a specification: keep it, start it, kill it.\<close>

definition unhealthy :: "probe_env \<Rightarrow> container_status \<Rightarrow> bool" where
  "unhealthy env s \<longleftrightarrow> pe_liveness env (cs_ID s) = Some ProbeFailure \<or> pe_startup env (cs_ID s) = Some ProbeFailure"

definition wants_keep :: "probe_env \<Rightarrow> pod_status \<Rightarrow> container \<Rightarrow> bool" where
  "wants_keep env ps c =
     (case FindContainerStatusByName ps (c_Name c) of
        None \<Rightarrow> False
      | Some s \<Rightarrow> cs_State s = StateRunning \<and> cs_Hash s = pe_HashContainer env c \<and> \<not> unhealthy env s)"

definition wants_start :: "probe_env \<Rightarrow> pod \<Rightarrow> pod_status \<Rightarrow> container \<Rightarrow> bool" where
  "wants_start env pod ps c =
     (case FindContainerStatusByName ps (c_Name c) of
        None \<Rightarrow> \<not> p_Deleting pod
      | Some s \<Rightarrow>
          (case cs_State s of
             StateRunning \<Rightarrow> cs_Hash s \<noteq> pe_HashContainer env c \<or> unhealthy env s \<and> p_RestartPolicy pod \<noteq> RestartNever
           | StateExited \<Rightarrow> \<not> p_Deleting pod \<and>
               (p_RestartPolicy pod = RestartAlways \<or> p_RestartPolicy pod = RestartOnFailure \<and> cs_ExitCode s \<noteq> 0)
           | StateCreated \<Rightarrow> \<not> p_Deleting pod
           | StateUnknown \<Rightarrow> \<not> p_Deleting pod))"

definition wants_kill :: "probe_env \<Rightarrow> pod \<Rightarrow> pod_status \<Rightarrow> container \<Rightarrow> string \<Rightarrow> bool" where
  "wants_kill env pod ps c cid \<longleftrightarrow>
     (\<exists>s. FindContainerStatusByName ps (c_Name c) = Some s \<and> cs_ID s = cid \<and>
        (cs_State s = StateRunning \<and> \<not> wants_keep env ps c \<or> cs_State s = StateUnknown \<and> \<not> p_Deleting pod))"

lemma container_step_spec:
  assumes "container_step env pod ps (ch, k) (i, c) = (ch', k')"
  shows "pa_Start ch' = pa_Start ch @ (if wants_start env pod ps c then [i] else [])"
    and "k' = k + (if wants_keep env ps c then 1 else 0)"
    and "dom (map_of (pa_Kill ch')) = dom (map_of (pa_Kill ch)) \<union> {cid. wants_kill env pod ps c cid}"
    and "pa_KillPod ch' = pa_KillPod ch" "pa_CreateSandbox ch' = pa_CreateSandbox ch"
      "pa_NextInit ch' = pa_NextInit ch" "pa_Ephemeral ch' = pa_Ephemeral ch"
      "pa_SandboxID ch' = pa_SandboxID ch" "pa_Attempt ch' = pa_Attempt ch"
proof (atomize (full), goal_cases)
  case 1
  show ?case
  proof (cases "FindContainerStatusByName ps (c_Name c)")
    case None
    then show ?thesis using assms
      by (cases "p_Deleting pod")
        (auto simp: container_step_def ShouldContainerBeRestarted_def wants_start_def wants_keep_def wants_kill_def)
  next
    case (Some s)
    show ?thesis
    proof (cases "cs_State s")
      case StateRunning
      then show ?thesis using assms Some
        by (cases "cs_Hash s = pe_HashContainer env c"; cases "pe_liveness env (cs_ID s) = Some ProbeFailure";
            cases "pe_startup env (cs_ID s) = Some ProbeFailure"; cases "p_RestartPolicy pod = RestartNever")
          (auto simp: container_step_def containerChanged_def shouldRestartOnFailure_def unhealthy_def Let_def
            wants_start_def wants_keep_def wants_kill_def)
    next
      case StateCreated
      then show ?thesis using assms Some
        by (cases "p_Deleting pod") (auto simp: container_step_def ShouldContainerBeRestarted_def Let_def
            wants_start_def wants_keep_def wants_kill_def)
    next
      case StateExited
      then show ?thesis using assms Some
        by (cases "p_Deleting pod"; cases "p_RestartPolicy pod"; cases "cs_ExitCode s = 0")
          (auto simp: container_step_def ShouldContainerBeRestarted_def Let_def
            wants_start_def wants_keep_def wants_kill_def)
    next
      case StateUnknown
      then show ?thesis using assms Some
        by (cases "p_Deleting pod") (auto simp: container_step_def ShouldContainerBeRestarted_def Let_def
            wants_start_def wants_keep_def wants_kill_def)
    qed
  qed
qed

lemma foldl_container_step:
  assumes "foldl (container_step env pod ps) (ch, k) ics = (ch', k')"
  shows "pa_Start ch' = pa_Start ch @ map fst (filter (\<lambda>(i, c). wants_start env pod ps c) ics) \<and>
    k' = k + length (filter (\<lambda>(i, c). wants_keep env ps c) ics) \<and>
    dom (map_of (pa_Kill ch')) = dom (map_of (pa_Kill ch)) \<union> {cid. \<exists>(i, c) \<in> set ics. wants_kill env pod ps c cid} \<and>
    pa_KillPod ch' = pa_KillPod ch \<and> pa_CreateSandbox ch' = pa_CreateSandbox ch \<and>
    pa_NextInit ch' = pa_NextInit ch \<and> pa_Ephemeral ch' = pa_Ephemeral ch \<and>
    pa_SandboxID ch' = pa_SandboxID ch \<and> pa_Attempt ch' = pa_Attempt ch"
  using assms
proof (induction ics arbitrary: ch k)
  case (Cons ic ics)
  obtain i c where ic: "ic = (i, c)" by force
  obtain ch1 k1 where s: "container_step env pod ps (ch, k) (i, c) = (ch1, k1)" by force
  with Cons.prems have "foldl (container_step env pod ps) (ch1, k1) ics = (ch', k')" by (simp add: ic)
  from Cons.IH [OF this] container_step_spec [OF s] show ?case by (simp add: ic) blast
qed simp

subsection \<open>When initialization is complete\<close>

lemma last_failed_init_None:
  "last_failed_init ics ps = None \<longleftrightarrow>
     (\<forall>c \<in> set ics. \<forall>s. FindContainerStatusByName ps (c_Name c) = Some s \<longrightarrow> \<not> isInitContainerFailed s)"
proof -
  let ?P = "\<lambda>c. case FindContainerStatusByName ps (c_Name c) of Some s \<Rightarrow> isInitContainerFailed s | None \<Rightarrow> False"
  have "last_failed_init ics ps = None \<longleftrightarrow> find ?P (rev ics) = None"
  proof (cases "find ?P (rev ics)")
    case (Some c)
    then have "?P c" by (auto simp: find_Some_iff)
    then obtain s where "FindContainerStatusByName ps (c_Name c) = Some s" by (auto split: option.splits)
    with Some show ?thesis by (simp add: last_failed_init_def)
  qed (simp add: last_failed_init_def)
  then show ?thesis by (auto simp: find_None_iff split: option.splits)
qed

lemma init_progress_not_done: "snd (init_progress ps cs (Some c') first) \<Longrightarrow> False"
  by (induction cs arbitrary: c') (auto split: option.splits if_splits)

lemma init_progress_done:
  assumes "init_progress ps cs None first = (x, True)"
  shows "x = None \<and> (\<exists>c s cs'. cs = c # cs' \<and> FindContainerStatusByName ps (c_Name c) = Some s \<and> cs_State s = StateExited)"
proof (cases cs)
  case (Cons c cs')
  have "init_progress ps cs' (Some c) first \<noteq> (x, True)"
    using init_progress_not_done [of ps cs' c first] by (metis snd_conv)
  with Cons assms show ?thesis by (auto split: option.splits if_splits)
qed (use assms in simp)

lemma findNextInit_done:
  assumes "findNextInitContainerToRun pod ps = (st, nx, True)"
  shows "nx = None \<and> (p_InitContainers pod = [] \<or>
    (\<forall>c \<in> set (p_InitContainers pod). \<forall>s. FindContainerStatusByName ps (c_Name c) = Some s \<longrightarrow> \<not> isInitContainerFailed s) \<and>
    (\<exists>s. FindContainerStatusByName ps (c_Name (last (p_InitContainers pod))) = Some s \<and>
         cs_State s = StateExited \<and> cs_ExitCode s = 0))"
proof (cases "p_InitContainers pod")
  case Nil
  then show ?thesis using assms by (simp add: findNextInitContainerToRun_def)
next
  case (Cons c0 rest)
  have nf: "last_failed_init (p_InitContainers pod) ps = None"
    and pr: "init_progress ps (rev (p_InitContainers pod)) None (Some c0) = (nx, True)"
    using assms Cons by (auto simp: findNextInitContainerToRun_def split: option.splits prod.splits)
  obtain c s cs' where c: "nx = None" "rev (p_InitContainers pod) = c # cs'"
    "FindContainerStatusByName ps (c_Name c) = Some s" "cs_State s = StateExited"
    using init_progress_done [OF pr] by blast
  have l: "c = last (p_InitContainers pod)" "c \<in> set (p_InitContainers pod)"
    using c(2) Cons by (metis hd_rev list.sel(1), metis list.set_intros(1) set_rev)
  have nf': "\<forall>c \<in> set (p_InitContainers pod). \<forall>s. FindContainerStatusByName ps (c_Name c) = Some s \<longrightarrow> \<not> isInitContainerFailed s"
    using nf by (simp add: last_failed_init_None)
  then have "cs_ExitCode s = 0" using c(3,4) l(2) by (auto simp: isInitContainerFailed_def split: if_splits)
  with c l(1) nf' show ?thesis by blast
qed

subsection \<open>Properties of the actions\<close>

lemma computePodActions_running:
  fixes g :: bool and env :: probe_env
  assumes sb: "podSandboxChanged pod ps = (False, att, sid)"
    and fi: "findNextInitContainerToRun pod ps = (st, nx, True)"
  defines "ch \<equiv> computePodActions g env pod ps"
  shows "pa_Start ch = map fst (filter (\<lambda>(i, c). wants_start env pod ps c) (enumerate 0 (p_Containers pod)))"
    and "dom (map_of (pa_Kill ch)) = {cid. \<exists>c \<in> set (p_Containers pod). wants_kill env pod ps c cid}"
    and "pa_KillPod ch \<longleftrightarrow> (\<forall>c \<in> set (p_Containers pod). \<not> wants_keep env ps c \<and> \<not> wants_start env pod ps c)"
    and "\<not> pa_CreateSandbox ch" "pa_NextInit ch = None" "pa_SandboxID ch = sid"
proof -
  define ch0 where "ch0 = \<lparr>pa_KillPod = False, pa_CreateSandbox = False,
      pa_SandboxID = sid, pa_Attempt = att, pa_NextInit = None, pa_Start = [],
      pa_Kill = [], pa_Ephemeral = (if g then map fst (filter (\<lambda>(i, c).
                   FindContainerStatusByName ps (c_Name c) = None) (enumerate 0 (p_EphemeralContainers pod))) else []),
      pa_PostStop = []\<rparr>"
  obtain ch1 k where f: "foldl (container_step env pod ps) (ch0, 0) (enumerate 0 (p_Containers pod)) = (ch1, k)"
    by force
  note spec = foldl_container_step [OF f]
  have ch: "ch = (if k = 0 \<and> pa_Start ch1 = [] then ch1\<lparr>pa_KillPod := True\<rparr> else ch1)"
    using f sb fi unfolding ch_def computePodActions_def ch0_def
    by (cases g) (simp_all add: Let_def)
  have set_enum: "(\<exists>(i, c) \<in> set (enumerate 0 (p_Containers pod)). P c) \<longleftrightarrow> (\<exists>c \<in> set (p_Containers pod). P c)" for P
  proof
    assume "\<exists>c \<in> set (p_Containers pod). P c"
    then obtain c i where "P c" "i < length (p_Containers pod)" "p_Containers pod ! i = c" by (auto simp: in_set_conv_nth)
    then have "(i, c) \<in> set (enumerate 0 (p_Containers pod))" by (auto simp: in_set_enumerate_eq)
    with \<open>P c\<close> show "\<exists>(i, c) \<in> set (enumerate 0 (p_Containers pod)). P c" by blast
  qed (auto simp: in_set_enumerate_eq)
  show "pa_Start ch = map fst (filter (\<lambda>(i, c). wants_start env pod ps c) (enumerate 0 (p_Containers pod)))"
    using spec by (simp add: ch ch0_def)
  show "dom (map_of (pa_Kill ch)) = {cid. \<exists>c \<in> set (p_Containers pod). wants_kill env pod ps c cid}"
    using spec set_enum by (simp add: ch ch0_def)
  have "k = 0 \<longleftrightarrow> (\<forall>c \<in> set (p_Containers pod). \<not> wants_keep env ps c)"
    using spec set_enum [of "wants_keep env ps"] by (auto simp: filter_empty_conv)
  moreover have "pa_Start ch1 = [] \<longleftrightarrow> (\<forall>c \<in> set (p_Containers pod). \<not> wants_start env pod ps c)"
    using spec set_enum [of "wants_start env pod ps"] by (auto simp: filter_empty_conv ch0_def)
  moreover have "\<not> pa_KillPod ch1" using spec by (simp add: ch0_def)
  ultimately show "pa_KillPod ch \<longleftrightarrow> (\<forall>c \<in> set (p_Containers pod). \<not> wants_keep env ps c \<and> \<not> wants_start env pod ps c)"
    by (auto simp: ch)
  show "\<not> pa_CreateSandbox ch" "pa_NextInit ch = None" "pa_SandboxID ch = sid"
    using spec by (simp_all add: ch ch0_def)
qed

lemma computePodActions_init:
  assumes sb: "podSandboxChanged pod ps = (False, att, sid)"
    and fi: "findNextInitContainerToRun pod ps = (st, nx, False)"
  shows "pa_Start (computePodActions g env pod ps) = [] \<and> \<not> pa_CreateSandbox (computePodActions g env pod ps)"
  using assms by (cases g; cases nx; cases st) (simp_all add: computePodActions_def Let_def)

text \<open>
  C10: With the sandbox unchanged and initialization complete, \<open>computePodActions\<close> starts exactly
  the containers that are dead and due by the restart policy, or running with a changed spec, or
  running, failing a probe and allowed to restart; it kills exactly the changed, failing or
  unknown ones; and it kills the pod exactly when nothing is kept and nothing is started.
\<close>

theorem computePodActions_decides:
  assumes "podSandboxChanged pod ps = (False, att, sid)"
    and "findNextInitContainerToRun pod ps = (st, nx, True)"
  shows "pa_Start (computePodActions g env pod ps) =
      map fst (filter (\<lambda>(i, c). wants_start env pod ps c) (enumerate 0 (p_Containers pod))) \<and>
    dom (map_of (pa_Kill (computePodActions g env pod ps))) =
      {cid. \<exists>c \<in> set (p_Containers pod). wants_kill env pod ps c cid} \<and>
    (pa_KillPod (computePodActions g env pod ps) \<longleftrightarrow>
      (\<forall>c \<in> set (p_Containers pod). \<not> wants_keep env ps c \<and> \<not> wants_start env pod ps c))"
  using computePodActions_running [OF assms] by simp_all

text \<open>
  App containers are started only after initialization: unless the pod has no init
  containers, a non-empty list of containers to start means that no init container has failed
  and that the last one has exited with code 0; and an init container is never started in the
  same round.
\<close>

theorem init_containers_first:
  assumes "pa_Start (computePodActions g env pod ps) \<noteq> []"
  shows "pa_NextInit (computePodActions g env pod ps) = None \<and>
    (p_InitContainers pod = [] \<or>
     (\<forall>c \<in> set (p_InitContainers pod). \<forall>s.
        FindContainerStatusByName ps (c_Name c) = Some s \<longrightarrow> \<not> isInitContainerFailed s) \<and>
     (\<exists>s. FindContainerStatusByName ps (c_Name (last (p_InitContainers pod))) = Some s \<and>
        cs_State s = StateExited \<and> cs_ExitCode s = 0))"
proof -
  obtain b att sid where sb: "podSandboxChanged pod ps = (b, att, sid)" by (cases "podSandboxChanged pod ps")
  show ?thesis
  proof (cases b)
    case True
    then show ?thesis using assms sb
      by (cases "p_InitContainers pod") (auto simp: computePodActions_def Let_def split: if_splits)
  next
    case False
    then have sb: "podSandboxChanged pod ps = (False, att, sid)" using sb by simp
    obtain st nx d where fi: "findNextInitContainerToRun pod ps = (st, nx, d)"
      by (cases "findNextInitContainerToRun pod ps")
    then have fi: "findNextInitContainerToRun pod ps = (st, nx, True)"
      using computePodActions_init [OF sb] assms by (cases d) auto
    show ?thesis using computePodActions_running(5) [OF sb fi] findNextInit_done [OF fi] by simp
  qed
qed

text \<open>
  The sandbox is kept exactly when the newest sandbox is ready, no other one is, its network
  namespace is the one the pod asks for, and it has an IP unless the pod uses the host network;
  the attempt number is then unchanged.
\<close>

theorem sandbox_kept_iff:
  "(\<exists>att sid. podSandboxChanged pod ps = (False, att, sid)) \<longleftrightarrow>
    (\<exists>s rest. ps_SandboxStatuses ps = s # rest \<and> sb_Ready s \<and> (\<forall>s' \<in> set rest. \<not> sb_Ready s') \<and>
       sb_Network s = networkNamespaceForPod pod \<and> (p_HostNetwork pod \<or> sb_Ip s \<noteq> []) \<and>
       podSandboxChanged pod ps = (False, sb_Attempt s, sb_Id s))"
proof (cases "ps_SandboxStatuses ps")
  case (Cons s rest)
  have "length (filter sb_Ready rest) = 0 \<longleftrightarrow> (\<forall>s' \<in> set rest. \<not> sb_Ready s')"
    by (simp add: filter_empty_conv)
  with Cons show ?thesis by (auto simp: podSandboxChanged_def Let_def split: if_splits)
qed (simp add: podSandboxChanged_def)

subsection \<open>A pod with a finished init container, a running and a failed container\<close>

definition demo_status :: "string \<Rightarrow> string \<Rightarrow> container_state \<Rightarrow> int \<Rightarrow> container_status" where
  "demo_status cid n st code = \<lparr>cs_ID = cid, cs_Name = n, cs_State = st, cs_FinishedAt = 0,
     cs_ExitCode = code, cs_Hash = 0, cs_RestartCount = 0\<rparr>"

definition demo_env :: probe_env where
  "demo_env = \<lparr>pe_HashContainer = (\<lambda>_. 0), pe_liveness = (\<lambda>_. None), pe_startup = (\<lambda>_. None)\<rparr>"

definition demo_pod :: pod where
  "demo_pod = empty_pod\<lparr>p_Namespace := ''web'', p_Name := ''a'', p_RestartPolicy := RestartOnFailure,
     p_InitContainers := [empty_container ''setup''],
     p_Containers := [empty_container ''main'', empty_container ''log'']\<rparr>"

definition demo_ps :: pod_status where
  "demo_ps = \<lparr>ps_IPs = [''10.0.0.5''],
     ps_ContainerStatuses = [demo_status ''id3'' ''log'' StateExited 1, demo_status ''id2'' ''main'' StateRunning 0,
       demo_status ''id1'' ''setup'' StateExited 0],
     ps_SandboxStatuses = [\<lparr>sb_Id = ''sb'', sb_Ready = True, sb_Attempt = 0, sb_Network = NamespacePOD, sb_Ip = ''10.0.0.5''\<rparr>]\<rparr>"

lemmas demo_defs = demo_status_def demo_env_def demo_pod_def demo_ps_def empty_pod_def empty_container_def
  FindContainerStatusByName_def isInitContainerFailed_def networkNamespaceForPod_def

lemma demo_sandbox: "podSandboxChanged demo_pod demo_ps = (False, 0, ''sb'')"
  by (simp add: podSandboxChanged_def demo_defs)

lemma demo_init: "findNextInitContainerToRun demo_pod demo_ps = (None, None, True)"
  by (simp add: findNextInitContainerToRun_def last_failed_init_def demo_defs)

theorem computePodActions_decides_witness:
  "pa_Start (computePodActions False demo_env demo_pod demo_ps) = [1] \<and>
   dom (map_of (pa_Kill (computePodActions False demo_env demo_pod demo_ps))) = {} \<and>
   \<not> pa_KillPod (computePodActions False demo_env demo_pod demo_ps)"
  using computePodActions_decides [OF demo_sandbox demo_init, of False demo_env]
  by (auto simp: wants_start_def wants_kill_def wants_keep_def unhealthy_def demo_defs)

theorem init_containers_first_witness:
  "pa_NextInit (computePodActions False demo_env demo_pod demo_ps) = None"
proof -
  have "pa_Start (computePodActions False demo_env demo_pod demo_ps) = [1]"
    using computePodActions_running(1) [OF demo_sandbox demo_init, of False demo_env]
    by (simp add: wants_start_def unhealthy_def demo_defs)
  then have "pa_Start (computePodActions False demo_env demo_pod demo_ps) \<noteq> []" by simp
  from init_containers_first [OF this] show ?thesis by (rule conjunct1)
qed

theorem sandbox_kept_witness:
  "\<exists>s rest. ps_SandboxStatuses demo_ps = s # rest \<and> sb_Ready s \<and> sb_Ip s \<noteq> [] \<and> sb_Id s = ''sb''"
proof -
  have "\<exists>att sid. podSandboxChanged demo_pod demo_ps = (False, att, sid)" using demo_sandbox by blast
  from this [unfolded sandbox_kept_iff [of demo_pod demo_ps]] demo_sandbox show ?thesis
    by (auto simp: demo_pod_def empty_pod_def)
qed

end
