(* ===== verification/Backoff.thy ===== *)
theory Backoff
  imports GoPrelude
begin

section \<open>Per-item exponential back-off\<close>

text \<open>
  \<open>client-go/util/flowcontrol/backoff.go\<close>, which the kubelet uses for restarting containers.
  Times and durations are nanoseconds; the difference of two times saturates to 64 bits, the
  doubling of a duration wraps.  The clock reading is the argument \<open>now\<close>.
\<close>

record backoff_entry =
  be_backoff :: int
  be_lastUpdate :: int

record backoff =
  bo_default :: int
  bo_max :: int
  bo_items :: "string \<Rightarrow> backoff_entry option"

definition time_sub :: "int \<Rightarrow> int \<Rightarrow> int" where
  "time_sub a b = max (- 9223372036854775808) (min 9223372036854775807 (a - b))"

definition NewBackOff :: "int \<Rightarrow> int \<Rightarrow> backoff" where
  "NewBackOff initial mx = \<lparr>bo_default = initial, bo_max = mx, bo_items = Map.empty\<rparr>"

definition hasExpired :: "int \<Rightarrow> int \<Rightarrow> int \<Rightarrow> bool" where
  "hasExpired eventTime lastUpdate maxDuration \<longleftrightarrow> wrap64 (maxDuration * 2) < time_sub eventTime lastUpdate"

definition bo_Get :: "backoff \<Rightarrow> string \<Rightarrow> int" where
  "bo_Get p i = (case bo_items p i of Some e \<Rightarrow> be_backoff e | None \<Rightarrow> 0)"

definition initEntryUnsafe :: "backoff \<Rightarrow> backoff_entry" where
  "initEntryUnsafe p = \<lparr>be_backoff = bo_default p, be_lastUpdate = 0\<rparr>"

definition bo_Next :: "int \<Rightarrow> backoff \<Rightarrow> string \<Rightarrow> int \<Rightarrow> backoff" where
  "bo_Next now p i eventTime =
     (let entry =
        (case bo_items p i of
           None \<Rightarrow> initEntryUnsafe p
         | Some e \<Rightarrow>
             if hasExpired eventTime (be_lastUpdate e) (bo_max p) then initEntryUnsafe p
             else e\<lparr>be_backoff := min (wrap64 (be_backoff e * 2)) (bo_max p)\<rparr>)
      in p\<lparr>bo_items := (bo_items p)(i \<mapsto> entry\<lparr>be_lastUpdate := now\<rparr>)\<rparr>)"

definition bo_Reset :: "backoff \<Rightarrow> string \<Rightarrow> backoff" where
  "bo_Reset p i = p\<lparr>bo_items := (bo_items p)(i := None)\<rparr>"

definition bo_DeleteEntry :: "backoff \<Rightarrow> string \<Rightarrow> backoff" where
  "bo_DeleteEntry p i = p\<lparr>bo_items := (bo_items p)(i := None)\<rparr>"

definition IsInBackOffSince :: "int \<Rightarrow> backoff \<Rightarrow> string \<Rightarrow> int \<Rightarrow> bool" where
  "IsInBackOffSince now p i eventTime =
     (case bo_items p i of
        None \<Rightarrow> False
      | Some e \<Rightarrow>
          if hasExpired eventTime (be_lastUpdate e) (bo_max p) then False
          else time_sub now eventTime < be_backoff e)"

definition IsInBackOffSinceUpdate :: "backoff \<Rightarrow> string \<Rightarrow> int \<Rightarrow> bool" where
  "IsInBackOffSinceUpdate p i eventTime =
     (case bo_items p i of
        None \<Rightarrow> False
      | Some e \<Rightarrow>
          if hasExpired eventTime (be_lastUpdate e) (bo_max p) then False
          else time_sub eventTime (be_lastUpdate e) < be_backoff e)"

definition bo_GC :: "int \<Rightarrow> backoff \<Rightarrow> backoff" where
  "bo_GC now p =
     p\<lparr>bo_items := (\<lambda>i. case bo_items p i of
         Some e \<Rightarrow> if wrap64 (bo_max p * 2) < time_sub now (be_lastUpdate e) then None else Some e
       | None \<Rightarrow> None)\<rparr>"

subsection \<open>Bounds and growth\<close>

text \<open>The configured durations are usable: positive and doubling them does not wrap.\<close>

definition bo_conf_ok :: "backoff \<Rightarrow> bool" where
  "bo_conf_ok p \<longleftrightarrow> 0 < bo_default p \<and> bo_default p \<le> bo_max p \<and> bo_max p < 4611686018427387904"

definition bo_inv :: "backoff \<Rightarrow> bool" where
  "bo_inv p \<longleftrightarrow> bo_conf_ok p \<and>
     (\<forall>i e. bo_items p i = Some e \<longrightarrow> bo_default p \<le> be_backoff e \<and> be_backoff e \<le> bo_max p)"

lemma bo_inv_New: "0 < d \<Longrightarrow> d \<le> m \<Longrightarrow> m < 4611686018427387904 \<Longrightarrow> bo_inv (NewBackOff d m)"
  by (simp add: bo_inv_def bo_conf_ok_def NewBackOff_def)

lemma bo_inv_double:
  assumes "bo_inv p" "bo_items p i = Some e"
  shows "wrap64 (be_backoff e * 2) = be_backoff e * 2"
  using assms by (intro wrap64_id) (force simp: bo_inv_def bo_conf_ok_def in64_def)

lemma bo_inv_Next:
  assumes inv: "bo_inv p"
  shows "bo_inv (bo_Next now p i t)"
proof -
  let ?e = "case bo_items p i of None \<Rightarrow> initEntryUnsafe p
    | Some e \<Rightarrow> if hasExpired t (be_lastUpdate e) (bo_max p) then initEntryUnsafe p
        else e\<lparr>be_backoff := min (wrap64 (be_backoff e * 2)) (bo_max p)\<rparr>"
  have c: "bo_conf_ok p" "bo_default p \<le> bo_max p" "0 < bo_default p"
    using inv by (simp_all add: bo_inv_def bo_conf_ok_def)
  have "bo_default p \<le> be_backoff ?e \<and> be_backoff ?e \<le> bo_max p"
  proof (cases "bo_items p i")
    case (Some e)
    then have "bo_default p \<le> be_backoff e" "wrap64 (be_backoff e * 2) = be_backoff e * 2"
      using inv bo_inv_double [OF inv Some] by (auto simp: bo_inv_def)
    with Some c show ?thesis by (simp add: initEntryUnsafe_def)
  qed (use c in \<open>simp add: initEntryUnsafe_def\<close>)
  with inv show ?thesis by (auto simp: bo_inv_def bo_Next_def Let_def bo_conf_ok_def)
qed

lemma bo_inv_others:
  "bo_inv p \<Longrightarrow> bo_inv (bo_Reset p i)" "bo_inv p \<Longrightarrow> bo_inv (bo_DeleteEntry p i)" "bo_inv p \<Longrightarrow> bo_inv (bo_GC now p)"
  by (auto simp: bo_inv_def bo_conf_ok_def bo_Reset_def bo_DeleteEntry_def bo_GC_def split: option.splits if_splits)

text \<open>A run of calls of \<open>Next\<close> for one item at the given pairs of clock reading and event time.\<close>

fun next_run :: "backoff \<Rightarrow> string \<Rightarrow> (int \<times> int) list \<Rightarrow> backoff" where
  "next_run p i [] = p"
| "next_run p i ((now, t) # rest) = next_run (bo_Next now p i t) i rest"

fun unexpired_run :: "int \<Rightarrow> int \<Rightarrow> (int \<times> int) list \<Rightarrow> bool" where
  "unexpired_run mx lastUpdate [] = True"
| "unexpired_run mx lastUpdate ((now, t) # rest) \<longleftrightarrow> \<not> hasExpired t lastUpdate mx \<and> unexpired_run mx now rest"

lemma bo_Next_frame [simp]: "bo_default (bo_Next now p i t) = bo_default p" "bo_max (bo_Next now p i t) = bo_max p"
  by (simp_all add: bo_Next_def Let_def)

lemma next_run_double:
  assumes "bo_inv p" "bo_items p i = Some e" "unexpired_run (bo_max p) (be_lastUpdate e) ts"
  shows "bo_Get (next_run p i ts) i = min (be_backoff e * 2 ^ length ts) (bo_max p)"
  using assms
proof (induction ts arbitrary: p e)
  case Nil
  then show ?case by (auto simp: bo_Get_def bo_inv_def)
next
  case (Cons nt ts)
  obtain now t where nt: "nt = (now, t)" by force
  let ?e = "e\<lparr>be_backoff := min (be_backoff e * 2) (bo_max p), be_lastUpdate := now\<rparr>"
  have it: "bo_items (bo_Next now p i t) i = Some ?e"
    using Cons.prems bo_inv_double [OF Cons.prems(1,2)] by (simp add: bo_Next_def Let_def nt)
  have "bo_Get (next_run (bo_Next now p i t) i ts) i = min (be_backoff ?e * 2 ^ length ts) (bo_max p)"
    using Cons.IH [OF bo_inv_Next [OF Cons.prems(1)] it] Cons.prems(3) by (simp add: nt)
  also have "\<dots> = min (be_backoff e * 2 ^ length (nt # ts)) (bo_max p)"
  proof (cases "be_backoff e * 2 \<le> bo_max p")
    case False
    have m: "0 < bo_max p" "0 < be_backoff e" using Cons.prems(1,2) by (force simp: bo_inv_def bo_conf_ok_def)+
    have "bo_max p * 1 \<le> bo_max p * 2 ^ length ts" using m by (intro mult_left_mono) auto
    moreover have "be_backoff e * 2 * 1 \<le> be_backoff e * 2 * 2 ^ length ts" using m by (intro mult_left_mono) auto
    ultimately show ?thesis using False by simp
  qed simp
  finally show ?case by (simp add: nt)
qed

text \<open>
  C11: Consecutive failures double the waiting time from the initial duration up to the maximum:
  after \<open>n + 1\<close> calls of \<open>Next\<close> for a new item, none of which comes later than twice the maximum
  after the previous one, the back-off is \<open>initial * 2 ^ n\<close> capped at the maximum.
\<close>

theorem backoff_doubles_up_to_max:
  assumes "bo_inv p" and "bo_items p i = None" and "unexpired_run (bo_max p) now ts"
  shows "bo_Get (next_run p i ((now, t) # ts)) i = min (bo_default p * 2 ^ length ts) (bo_max p)"
  using assms next_run_double [OF bo_inv_Next [OF assms(1), of now i t], of i
      "\<lparr>be_backoff = bo_default p, be_lastUpdate = now\<rparr>" ts]
  by (simp add: bo_Next_def Let_def initEntryUnsafe_def)

theorem backoff_doubles_witness:
  "bo_Get (next_run (NewBackOff 10 300) ''c'' [(5, 0), (20, 12), (70, 65)]) ''c'' = 40"
proof -
  have "bo_inv (NewBackOff 10 300)" by (rule bo_inv_New) simp_all
  moreover have "unexpired_run (bo_max (NewBackOff 10 300)) 5 [(20, 12), (70, 65)]"
    by (simp add: NewBackOff_def hasExpired_def time_sub_def wrap64_def)
  ultimately show ?thesis
    using backoff_doubles_up_to_max [of "NewBackOff 10 300" "''c''" 5 "[(20, 12), (70, 65)]" 0]
    by (simp add: NewBackOff_def)
qed

end
