(* ===== verification/RuntimeSync.thy ===== *)
theory RuntimeSync
  imports PodActions Backoff AgentTraces
begin

section \<open>Bringing a pod to its desired state: SyncPod\<close>

text \<open>
  \<open>SyncPod\<close>, \<open>doBackOff\<close> and \<open>killPodWithSyncResult\<close> (\<open>kuberuntime_manager.go\<close>), \<open>startContainer\<close>,
  \<open>killContainer\<close>, \<open>pruneInitContainersBeforeStart\<close> and \<open>purgeInitContainers\<close>
  (\<open>kuberuntime_container.go\<close>) with the hooks of the network agent.  The container runtime, the
  image puller and the life-cycle handlers answer through \<open>runtime_env\<close>; every call the code makes
  to them or to the agent is appended to \<open>rs_calls\<close>.  Kills that run concurrently in the code are
  made in the order of the status list.
\<close>

datatype sync_action = ActStartContainer | ActKillContainer | ActCreatePodSandbox | ActConfigPodSandbox | ActKillPodSandbox

datatype sync_error =
    ErrKillContainer | ErrKillPodSandbox | ErrCreatePodSandbox | ErrConfigPodSandbox
  | ErrCrashLoopBackOff | ErrImagePullBackOff | ErrImage | ErrCreateContainerConfig | ErrCreateContainer
  | ErrPreStartHook | ErrRunContainer | ErrPostStartHook

record sync_result =
  sr_Action :: sync_action
  sr_Target :: string
  sr_Error :: "sync_error option"

datatype rt_call =
    CallPreStop string
  | CallStop string int
  | CallStopSandbox string
  | CallPostStop string
  | CallRemove string
  | CallCreateSandbox int
  | CallSandboxStatus string
  | CallSetSLO
  | CallEnsureImage string
  | CallCreate string string nat
  | CallPreStart string
  | CallStart string
  | CallPostStart string
  | CallSetPID string

record runtime_env =
  re_probes :: probe_env
  re_ephemeralGate :: bool
  re_now :: int
  re_stableKey :: "container \<Rightarrow> string"
  re_DeletionGracePeriod :: "int option"
  re_TerminationGracePeriod :: "int option"
  re_hasPreStop :: "container \<Rightarrow> bool"
  re_preStopSeconds :: "string \<Rightarrow> int"
  re_PreStopContainer :: "string \<Rightarrow> bool"
  re_StopContainer :: "string \<Rightarrow> bool"
  re_StopPodSandbox :: "string \<Rightarrow> bool"
  re_PostStopContainer :: "string \<Rightarrow> bool"
  re_removeLog :: "string \<Rightarrow> bool"
  re_createPodSandbox :: "string option"
  re_PodSandboxStatus :: bool
  re_sandboxConfig :: bool
  re_EnsureImageExists :: "container \<Rightarrow> sync_error option"
  re_targetFound :: "container \<Rightarrow> bool"
  re_containerConfig :: "container \<Rightarrow> nat \<Rightarrow> bool"
  re_CreateContainer :: "container \<Rightarrow> string option"
  re_PreStartContainer :: "string \<Rightarrow> bool"
  re_StartContainer :: "string \<Rightarrow> bool"
  re_PostStartHook :: "string \<Rightarrow> bool"
  re_nameOrder :: "string list \<Rightarrow> string list"

record rt_state =
  rs_agent :: "necon \<times> os_state"
  rs_backoff :: backoff
  rs_calls :: "rt_call list"
  rs_results :: "sync_result list"
  rs_SyncError :: bool

definition rt_log :: "rt_call \<Rightarrow> rt_state \<Rightarrow> rt_state" where
  "rt_log c s = s\<lparr>rs_calls := rs_calls s @ [c]\<rparr>"

definition add_result :: "sync_action \<Rightarrow> string \<Rightarrow> sync_error option \<Rightarrow> rt_state \<Rightarrow> rt_state" where
  "add_result a t e s = s\<lparr>rs_results := rs_results s @ [\<lparr>sr_Action = a, sr_Target = t, sr_Error = e\<rparr>]\<rparr>"

subsection \<open>Killing\<close>

definition minimumGracePeriodInSeconds :: int where
  "minimumGracePeriodInSeconds = 2"

text \<open>\<open>GetContainerSpec\<close> visits init containers, containers and, behind the gate, ephemeral containers.\<close>

definition GetContainerSpec :: "bool \<Rightarrow> pod \<Rightarrow> string \<Rightarrow> container option" where
  "GetContainerSpec gate pod n =
     find (\<lambda>c. c_Name c = n)
       (p_InitContainers pod @ p_Containers pod @ (if gate then p_EphemeralContainers pod else []))"

definition killContainer ::
  "runtime_env \<Rightarrow> pod \<Rightarrow> string \<Rightarrow> string \<Rightarrow> int option \<Rightarrow> rt_state \<Rightarrow> bool \<times> rt_state" where
  "killContainer env pod cid name gracePeriodOverride s0 =
     (case GetContainerSpec (re_ephemeralGate env) pod name of
        None \<Rightarrow> (False, s0)
      | Some spec \<Rightarrow>
          let grace0 = (case re_DeletionGracePeriod env of Some g \<Rightarrow> g
              | None \<Rightarrow> (case re_TerminationGracePeriod env of Some g \<Rightarrow> g | None \<Rightarrow> minimumGracePeriodInSeconds));
              s1 = rt_log (CallPreStop cid) s0
          in
          if \<not> re_PreStopContainer env cid then (False, s1)
          else
            let grace1 = (if re_hasPreStop env spec \<and> 0 < grace0 then wrap64 (grace0 - re_preStopSeconds env cid) else grace0);
                grace2 = (if grace1 < minimumGracePeriodInSeconds then minimumGracePeriodInSeconds else grace1);
                grace = (case gracePeriodOverride of Some g \<Rightarrow> g | None \<Rightarrow> grace2)
            in (re_StopContainer env cid, rt_log (CallStop cid grace) s1))"

text \<open>\<open>killContainersWithSyncResult\<close> on the running containers, then the sandboxes.\<close>

definition kill_running :: "runtime_env \<Rightarrow> pod \<Rightarrow> int option \<Rightarrow> container_status list \<Rightarrow> rt_state \<Rightarrow> bool \<times> rt_state" where
  "kill_running env pod gp running s0 =
     foldl (\<lambda>(ok, s) st.
        case killContainer env pod (cs_ID st) (cs_Name st) gp s of
          (k, s') \<Rightarrow> (ok \<and> k, add_result ActKillContainer (cs_Name st) (if k then None else Some ErrKillContainer) s'))
       (True, s0) running"

definition stop_sandboxes :: "runtime_env \<Rightarrow> sandbox_status list \<Rightarrow> rt_state \<Rightarrow> bool \<times> rt_state" where
  "stop_sandboxes env sbs s0 =
     foldl (\<lambda>(ok, s) sb. (ok \<and> re_StopPodSandbox env (sb_Id sb), rt_log (CallStopSandbox (sb_Id sb)) s)) (True, s0) sbs"

definition killPodWithSyncResult :: "runtime_env \<Rightarrow> pod \<Rightarrow> pod_status \<Rightarrow> int option \<Rightarrow> rt_state \<Rightarrow> bool \<times> rt_state" where
  "killPodWithSyncResult env pod ps gp s0 =
     (case kill_running env pod gp (filter (\<lambda>st. cs_State st = StateRunning) (ps_ContainerStatuses ps)) s0 of
        (ok1, s1) \<Rightarrow>
          (case stop_sandboxes env (ps_SandboxStatuses ps) s1 of
             (ok2, s2) \<Rightarrow>
               (ok1 \<and> ok2, add_result ActKillPodSandbox (p_UID pod) (if ok2 then None else Some ErrKillPodSandbox) s2)))"

subsection \<open>Removing init containers\<close>

text \<open>\<open>removeContainer\<close>: the post-stop hook, the log, the container; its error is only logged here.\<close>

definition removeContainer :: "runtime_env \<Rightarrow> string \<Rightarrow> rt_state \<Rightarrow> rt_state" where
  "removeContainer env cid s0 =
     (let s1 = rt_log (CallPostStop cid) s0 in
      if \<not> re_PostStopContainer env cid then s1
      else if \<not> re_removeLog env cid then s1
      else rt_log (CallRemove cid) s1)"

definition init_names :: "runtime_env \<Rightarrow> pod \<Rightarrow> string list" where
  "init_names env pod = re_nameOrder env (remdups (map c_Name (p_InitContainers pod)))"

definition pruned_statuses :: "pod_status \<Rightarrow> string \<Rightarrow> container_status list" where
  "pruned_statuses ps n =
     tl (filter (\<lambda>st. cs_Name st = n \<and> (cs_State st = StateExited \<or> cs_State st = StateUnknown)) (ps_ContainerStatuses ps))"

definition pruneInitContainersBeforeStart :: "runtime_env \<Rightarrow> pod \<Rightarrow> pod_status \<Rightarrow> rt_state \<Rightarrow> rt_state" where
  "pruneInitContainersBeforeStart env pod ps s0 =
     foldl (\<lambda>s st. removeContainer env (cs_ID st) s) s0 (concat (map (pruned_statuses ps) (init_names env pod)))"

definition purgeInitContainers :: "runtime_env \<Rightarrow> pod \<Rightarrow> pod_status \<Rightarrow> rt_state \<Rightarrow> rt_state" where
  "purgeInitContainers env pod ps s0 =
     foldl (\<lambda>s st. removeContainer env (cs_ID st) s) s0
       (concat (map (\<lambda>n. filter (\<lambda>st. cs_Name st = n) (ps_ContainerStatuses ps)) (init_names env pod)))"

subsection \<open>Starting\<close>

definition doBackOff :: "runtime_env \<Rightarrow> container \<Rightarrow> pod_status \<Rightarrow> rt_state \<Rightarrow> bool \<times> rt_state" where
  "doBackOff env c ps s =
     (case find (\<lambda>st. cs_Name st = c_Name c \<and> cs_State st = StateExited) (ps_ContainerStatuses ps) of
        None \<Rightarrow> (False, s)
      | Some st \<Rightarrow>
          let ts = cs_FinishedAt st; key = re_stableKey env c in
          if IsInBackOffSince (re_now env) (rs_backoff s) key ts then (True, s)
          else (False, s\<lparr>rs_backoff := bo_Next (re_now env) (rs_backoff s) key ts\<rparr>))"

definition restart_count :: "pod_status \<Rightarrow> container \<Rightarrow> nat" where
  "restart_count ps c =
     (case FindContainerStatusByName ps (c_Name c) of Some st \<Rightarrow> nat (cs_RestartCount st + 1) | None \<Rightarrow> 0)"

definition startContainer ::
  "runtime_env \<Rightarrow> pod \<Rightarrow> pod_status \<Rightarrow> string \<Rightarrow> container \<Rightarrow> rt_state \<Rightarrow> sync_error option \<times> rt_state" where
  "startContainer env pod ps sandboxID c s0 =
     (let s1 = rt_log (CallEnsureImage (c_Name c)) s0 in
      case re_EnsureImageExists env c of
        Some e \<Rightarrow> (Some e, s1)
      | None \<Rightarrow>
          let restartCount = restart_count ps c in
          if \<not> re_targetFound env c then (Some ErrCreateContainerConfig, s1)
          else if \<not> re_containerConfig env c restartCount then (Some ErrCreateContainerConfig, s1)
          else
            let s2 = rt_log (CallCreate sandboxID (c_Name c) restartCount) s1 in
            case re_CreateContainer env c of
              None \<Rightarrow> (Some ErrCreateContainer, s2)
            | Some cid \<Rightarrow>
                let s3 = rt_log (CallPreStart cid) s2 in
                if \<not> re_PreStartContainer env cid then (Some ErrPreStartHook, s3)
                else
                  let s4 = rt_log (CallStart cid) s3 in
                  if \<not> re_StartContainer env cid then (Some ErrRunContainer, s4)
                  else
                    let s5 = (if c_PostStart c then rt_log (CallPostStart cid) s4 else s4) in
                    if c_PostStart c \<and> \<not> re_PostStartHook env cid then
                      (Some ErrPostStartHook, snd (killContainer env pod cid (c_Name c) None s5))
                    else
                      let s6 = rt_log (CallSetPID cid) s5 in
                      (None, s6\<lparr>rs_agent := (case rs_agent s6 of (nec, os0) \<Rightarrow> (nec, SetPID cid (p_Namespace pod) nec os0))\<rparr>))"

text \<open>The local closure \<open>start\<close> of \<open>SyncPod\<close>: back-off first, and the result recorded.\<close>

definition start_one ::
  "runtime_env \<Rightarrow> pod \<Rightarrow> pod_status \<Rightarrow> string \<Rightarrow> container \<Rightarrow> rt_state \<Rightarrow> sync_error option \<times> rt_state" where
  "start_one env pod ps sandboxID c s0 =
     (case doBackOff env c ps s0 of
        (True, s1) \<Rightarrow> (Some ErrCrashLoopBackOff, add_result ActStartContainer (c_Name c) (Some ErrCrashLoopBackOff) s1)
      | (False, s1) \<Rightarrow>
          (case startContainer env pod ps sandboxID c s1 of
             (e, s2) \<Rightarrow> (e, add_result ActStartContainer (c_Name c) e s2)))"

definition start_all ::
  "runtime_env \<Rightarrow> pod \<Rightarrow> pod_status \<Rightarrow> string \<Rightarrow> container list \<Rightarrow> rt_state \<Rightarrow> rt_state" where
  "start_all env pod ps sandboxID cs s0 = foldl (\<lambda>s c. snd (start_one env pod ps sandboxID c s)) s0 cs"

subsection \<open>SyncPod\<close>

text \<open>Step 3: kill the unwanted containers, in the iteration order of the map, up to the first failure.\<close>

fun kill_unwanted :: "runtime_env \<Rightarrow> pod \<Rightarrow> (string \<times> kill_info) list \<Rightarrow> rt_state \<Rightarrow> bool \<times> rt_state" where
  "kill_unwanted env pod [] s = (True, s)"
| "kill_unwanted env pod ((cid, info) # rest) s =
     (case killContainer env pod cid (ki_name info) None s of
        (k, s1) \<Rightarrow>
          let s2 = add_result ActKillContainer (ki_name info) (if k then None else Some ErrKillContainer) s1 in
          if k then kill_unwanted env pod rest s2 else (False, s2))"

text \<open>Steps 2 and 3; \<open>False\<close> when \<open>SyncPod\<close> returns early.\<close>

definition sync_kill :: "runtime_env \<Rightarrow> pod \<Rightarrow> pod_status \<Rightarrow> pod_actions \<Rightarrow> rt_state \<Rightarrow> bool \<times> rt_state" where
  "sync_kill env pod ps ch s0 =
     (if pa_KillPod ch then
        (case killPodWithSyncResult env pod ps None s0 of
           (ok, s1) \<Rightarrow>
             if \<not> ok then (False, s1)
             else (True, if pa_CreateSandbox ch then purgeInitContainers env pod ps s1 else s1))
      else kill_unwanted env pod (pa_Kill ch) s0)"

definition format_pod :: "pod \<Rightarrow> string" where
  "format_pod pod = p_Name pod @ ''_'' @ p_Namespace pod @ ''('' @ p_UID pod @ '')''"

text \<open>Step 4: the sandbox, and the goal of the pod; \<open>None\<close> when \<open>SyncPod\<close> returns early.\<close>

definition sync_sandbox ::
  "runtime_env \<Rightarrow> pod \<Rightarrow> pod_actions \<Rightarrow> rt_state \<Rightarrow> go_panic + (string option \<times> rt_state)" where
  "sync_sandbox env pod ch s0 =
     (if \<not> pa_CreateSandbox ch then Inr (Some (pa_SandboxID ch), s0)
      else
        let s1 = rt_log (CallCreateSandbox (pa_Attempt ch)) s0 in
        case re_createPodSandbox env of
          None \<Rightarrow> Inr (None, add_result ActCreatePodSandbox (format_pod pod) (Some ErrCreatePodSandbox) s1)
        | Some sid \<Rightarrow>
            let s2 = rt_log (CallSandboxStatus sid) (add_result ActCreatePodSandbox (format_pod pod) None s1) in
            if \<not> re_PodSandboxStatus env then Inr (None, s2\<lparr>rs_SyncError := True\<rparr>)
            else
              let s3 = rt_log CallSetSLO s2 in
              (case rs_agent s3 of (nec, os0) \<Rightarrow>
                 (case SetSLO nec os0 of
                    Inl p \<Rightarrow> Inl p
                  | Inr agent \<Rightarrow> Inr (Some sid, s3\<lparr>rs_agent := agent\<rparr>))))"

definition sync_start :: "runtime_env \<Rightarrow> pod \<Rightarrow> pod_status \<Rightarrow> pod_actions \<Rightarrow> string \<Rightarrow> rt_state \<Rightarrow> rt_state" where
  "sync_start env pod ps ch sandboxID s0 =
     (if \<not> re_sandboxConfig env then add_result ActConfigPodSandbox sandboxID (Some ErrConfigPodSandbox) s0
      else
        let s1 = add_result ActConfigPodSandbox sandboxID None s0;
            s2 = (if re_ephemeralGate env
                  then start_all env pod ps sandboxID (map ((!) (p_EphemeralContainers pod)) (pa_Ephemeral ch)) s1
                  else s1);
            (initErr, s3) = (case pa_NextInit ch of None \<Rightarrow> (None, s2) | Some c \<Rightarrow> start_one env pod ps sandboxID c s2)
        in
        if initErr \<noteq> None then s3
        else start_all env pod ps sandboxID (map ((!) (p_Containers pod)) (pa_Start ch)) s3)"

definition SyncPod :: "runtime_env \<Rightarrow> pod \<Rightarrow> pod_status \<Rightarrow> rt_state \<Rightarrow> go_panic + rt_state" where
  "SyncPod env pod ps s0 =
     (let ch = computePodActions (re_ephemeralGate env) (re_probes env) pod ps;
          s1 = foldl (\<lambda>s cid. rt_log (CallPostStop cid) s) s0 (pa_PostStop ch)
      in case sync_kill env pod ps ch s1 of
           (False, s2) \<Rightarrow> Inr s2
         | (True, s2) \<Rightarrow>
             (case sync_sandbox env pod ch (pruneInitContainersBeforeStart env pod ps s2) of
                Inl p \<Rightarrow> Inl p
              | Inr (None, s3) \<Rightarrow> Inr s3
              | Inr (Some sandboxID, s3) \<Rightarrow> Inr (sync_start env pod ps ch sandboxID s3)))"

subsection \<open>The calls an operation adds, and what they do to the agent\<close>

fun hook_of :: "string \<Rightarrow> rt_call \<Rightarrow> hook list" where
  "hook_of ns CallSetSLO = [SloHook]"
| "hook_of ns (CallSetPID cid) = [PidHook cid ns]"
| "hook_of ns _ = []"

definition agent_hooks :: "string \<Rightarrow> rt_call list \<Rightarrow> hook list" where
  "agent_hooks ns cs = concat (map (hook_of ns) cs)"

text \<open>Calls that only stop or remove, with the grace period the code may use.\<close>

fun is_stop_call :: "int option \<Rightarrow> rt_call \<Rightarrow> bool" where
  "is_stop_call gp (CallPreStop _) = True"
| "is_stop_call gp (CallStop _ g) = (case gp of None \<Rightarrow> minimumGracePeriodInSeconds \<le> g | Some g' \<Rightarrow> g = g')"
| "is_stop_call gp (CallStopSandbox _) = True"
| "is_stop_call gp (CallPostStop _) = True"
| "is_stop_call gp (CallRemove _) = True"
| "is_stop_call gp _ = False"

text \<open>Calls of the start of a container in the given sandbox; a failing post-start hook stops it again.\<close>

fun is_start_call :: "string \<Rightarrow> rt_call \<Rightarrow> bool" where
  "is_start_call sid (CallEnsureImage _) = True"
| "is_start_call sid (CallCreate sid' _ _) = (sid' = sid)"
| "is_start_call sid (CallPreStart _) = True"
| "is_start_call sid (CallStart _) = True"
| "is_start_call sid (CallPostStart _) = True"
| "is_start_call sid (CallSetPID _) = True"
| "is_start_call sid (CallPreStop _) = True"
| "is_start_call sid (CallStop _ g) = (minimumGracePeriodInSeconds \<le> g)"
| "is_start_call sid _ = False"

text \<open>
  The containers whose process is announced, the results that stand for a successful start, and those for a sandbox
  that was created and whose status could be read.
\<close>

fun announced_pid :: "rt_call \<Rightarrow> string list" where
  "announced_pid (CallSetPID cid) = [cid]"
| "announced_pid _ = []"

definition announced_pids :: "rt_call list \<Rightarrow> string list" where
  "announced_pids cs = concat (map announced_pid cs)"

definition start_ok :: "sync_result \<Rightarrow> bool" where
  "start_ok r \<longleftrightarrow> sr_Action r = ActStartContainer \<and> sr_Error r = None"

definition started :: "runtime_env \<Rightarrow> string \<Rightarrow> sync_result \<Rightarrow> bool" where
  "started env cid r \<longleftrightarrow>
     (\<exists>c. sr_Target r = c_Name c \<and> re_CreateContainer env c = Some cid \<and> re_StartContainer env cid \<and>
        (c_PostStart c \<longrightarrow> re_PostStartHook env cid))"

definition slo_due :: "runtime_env \<Rightarrow> sync_result \<Rightarrow> bool" where
  "slo_due env r \<longleftrightarrow> sr_Action r = ActCreatePodSandbox \<and> sr_Error r = None \<and> re_PodSandboxStatus env"

definition agent_told :: "runtime_env \<Rightarrow> rt_call list \<Rightarrow> sync_result list \<Rightarrow> bool" where
  "agent_told env cs rs \<longleftrightarrow> list_all2 (started env) (announced_pids cs) (filter start_ok rs) \<and>
     filter ((=) CallSetSLO) cs = map (\<lambda>r. CallSetSLO) (filter (slo_due env) rs)"

definition adds :: "(rt_call \<Rightarrow> bool) \<Rightarrow> runtime_env \<Rightarrow> string \<Rightarrow> rt_state \<Rightarrow> rt_state \<Rightarrow> bool" where
  "adds P env ns s s' \<longleftrightarrow>
     (\<exists>cs rs. rs_calls s' = rs_calls s @ cs \<and> rs_results s' = rs_results s @ rs \<and>
        list_all P cs \<and> agent_told env cs rs \<and>
        run_hooks (agent_hooks ns cs) (rs_agent s) = Inr (rs_agent s'))"

lemma agent_told_Nil [simp]: "agent_told env [] []"
  by (simp add: agent_told_def announced_pids_def)

lemma agent_told_append:
  "agent_told env cs rs \<Longrightarrow> agent_told env cs' rs' \<Longrightarrow> agent_told env (cs @ cs') (rs @ rs')"
  by (simp add: agent_told_def announced_pids_def list_all2_appendI)

lemma agent_told_call: "hook_of ns c = [] \<Longrightarrow> agent_told env [c] []"
  by (cases c) (simp_all add: agent_told_def announced_pids_def)

lemma agent_told_result:
  "e \<noteq> None \<or> a \<notin> {ActStartContainer, ActCreatePodSandbox} \<Longrightarrow>
     agent_told env [] [\<lparr>sr_Action = a, sr_Target = t, sr_Error = e\<rparr>]"
  by (auto simp: agent_told_def announced_pids_def start_ok_def slo_due_def)

named_theorems adds_rules \<open>which calls an operation adds\<close>

lemma agent_hooks_append: "agent_hooks ns (cs @ cs') = agent_hooks ns cs @ agent_hooks ns cs'"
  by (simp add: agent_hooks_def)

lemma adds_refl [adds_rules]: "adds P env ns s s"
  by (simp add: adds_def agent_hooks_def)

lemma adds_trans: "adds P env ns s s' \<Longrightarrow> adds P env ns s' s'' \<Longrightarrow> adds P env ns s s''"
proof -
  assume "adds P env ns s s'" "adds P env ns s' s''"
  then obtain cs rs cs' rs' where "rs_calls s' = rs_calls s @ cs" "rs_results s' = rs_results s @ rs" "list_all P cs"
    "agent_told env cs rs" "run_hooks (agent_hooks ns cs) (rs_agent s) = Inr (rs_agent s')"
    "rs_calls s'' = rs_calls s' @ cs'" "rs_results s'' = rs_results s' @ rs'" "list_all P cs'"
    "agent_told env cs' rs'" "run_hooks (agent_hooks ns cs') (rs_agent s') = Inr (rs_agent s'')"
    unfolding adds_def by blast
  then show ?thesis unfolding adds_def
    by (intro exI [of _ "cs @ cs'"] exI [of _ "rs @ rs'"])
       (simp add: agent_hooks_append run_hooks_append agent_told_append)
qed

lemma adds_mono: "adds P env ns s s' \<Longrightarrow> (\<And>c. P c \<Longrightarrow> Q c) \<Longrightarrow> adds Q env ns s s'"
  unfolding adds_def by (metis list.pred_mono_strong)

lemma adds_log [adds_rules]: "hook_of ns c = [] \<Longrightarrow> P c \<Longrightarrow> adds P env ns s (rt_log c s)"
  unfolding adds_def
  by (intro exI [of _ "[c]"] exI [of _ "[]"]) (simp add: rt_log_def agent_hooks_def agent_told_call)

lemma adds_result [adds_rules]:
  "e \<noteq> None \<or> a \<notin> {ActStartContainer, ActCreatePodSandbox} \<Longrightarrow> adds P env ns s (add_result a t e s)"
  unfolding adds_def
  by (intro exI [of _ "[]"] exI [of _ "[\<lparr>sr_Action = a, sr_Target = t, sr_Error = e\<rparr>]"])
     (simp add: add_result_def agent_hooks_def agent_told_result)

lemma adds_backoff [adds_rules]: "adds P env ns s (s\<lparr>rs_backoff := b\<rparr>)"
  by (simp add: adds_def agent_hooks_def)

lemma adds_syncerror [adds_rules]: "adds P env ns s (s\<lparr>rs_SyncError := b\<rparr>)"
  by (simp add: adds_def agent_hooks_def)

lemma adds_foldl:
  "(\<And>a x. adds P env ns (g a) (g (f a x))) \<Longrightarrow> adds P env ns (g a) (g (foldl f a xs))"
proof (induction xs arbitrary: a)
  case (Cons x xs)
  then show ?case using adds_trans [OF Cons.prems [of a x]] by simp
qed (simp add: adds_refl)

lemma adds_foldl_state: "(\<And>s x. adds P env ns s (f s x)) \<Longrightarrow> adds P env ns s (foldl f s xs)"
  using adds_foldl [where g = "\<lambda>s. s"] .

lemma adds_foldl_pair: "(\<And>b s x. adds P env ns s (snd (f (b, s) x))) \<Longrightarrow> adds P env ns s (snd (foldl f (b, s) xs))"
  by (rule adds_foldl [where g = snd and a = "(b, s)", unfolded snd_conv]) (metis prod.collapse)

lemma adds_log_trans: "adds P env ns (rt_log c s) s' \<Longrightarrow> hook_of ns c = [] \<Longrightarrow> P c \<Longrightarrow> adds P env ns s s'"
  using adds_trans adds_log by blast

lemma adds_then_result:
  "adds P env ns s s' \<Longrightarrow> e \<noteq> None \<or> a \<notin> {ActStartContainer, ActCreatePodSandbox} \<Longrightarrow>
     adds P env ns s (add_result a t e s')"
  using adds_trans adds_result by blast

lemma adds_then_log: "adds P env ns s s' \<Longrightarrow> hook_of ns c = [] \<Longrightarrow> P c \<Longrightarrow> adds P env ns s (rt_log c s')"
  using adds_trans adds_log by blast

lemma killContainer_adds:
  assumes "\<And>cid. P (CallPreStop cid)" "\<And>cid g. is_stop_call gp (CallStop cid g) \<Longrightarrow> P (CallStop cid g)"
  shows "adds P env ns s (snd (killContainer env pod cid name gp s))"
  using assms by (auto simp: killContainer_def Let_def adds_refl intro!: adds_then_log split: option.split)

lemma killContainer_stops:
  "killContainer env pod cid name gp s = (k, s') \<Longrightarrow> adds (is_stop_call gp) env ns s s'"
  using killContainer_adds [of "is_stop_call gp" gp env ns s pod cid name] by simp

lemma kill_running_adds: "adds (is_stop_call gp) env ns s (snd (kill_running env pod gp sts s))"
  unfolding kill_running_def
proof (rule adds_foldl_pair, goal_cases)
  case (1 ok s st)
  obtain k s' where k: "killContainer env pod (cs_ID st) (cs_Name st) gp s = (k, s')" by force
  have "adds (is_stop_call gp) env ns s s'" using killContainer_stops [OF k] .
  then show ?case
    by (simp add: k adds_then_result)
qed

lemma stop_sandboxes_adds: "adds (is_stop_call gp) env ns s (snd (stop_sandboxes env sbs s))"
  unfolding stop_sandboxes_def
  by (rule adds_foldl_pair) (auto intro: adds_log)

lemma killPod_adds:
  assumes "killPodWithSyncResult env pod ps gp s = (ok, s')"
  shows "adds (is_stop_call gp) env ns s s'"
proof -
  let ?r = "filter (\<lambda>st. cs_State st = StateRunning) (ps_ContainerStatuses ps)"
  obtain ok1 s1 where 1: "kill_running env pod gp ?r s = (ok1, s1)" by force
  obtain ok2 s2 where 2: "stop_sandboxes env (ps_SandboxStatuses ps) s1 = (ok2, s2)" by force
  have "adds (is_stop_call gp) env ns s s1" using kill_running_adds [of gp env ns s pod ?r] 1 by simp
  moreover have "adds (is_stop_call gp) env ns s1 s2" using stop_sandboxes_adds [of gp env ns s1 "ps_SandboxStatuses ps"] 2 by simp
  ultimately have "adds (is_stop_call gp) env ns s s2" by (rule adds_trans)
  then show ?thesis using assms 1 2 by (auto simp: killPodWithSyncResult_def intro: adds_then_result)
qed

lemma removeContainer_adds: "adds (is_stop_call gp) env ns s (removeContainer env cid s)"
  by (auto simp: removeContainer_def Let_def adds_refl intro!: adds_then_log)

lemma prune_adds: "adds (is_stop_call gp) env ns s (pruneInitContainersBeforeStart env pod ps s)"
  unfolding pruneInitContainersBeforeStart_def by (rule adds_foldl_state) (rule removeContainer_adds)

lemma purge_adds: "adds (is_stop_call gp) env ns s (purgeInitContainers env pod ps s)"
  unfolding purgeInitContainers_def by (rule adds_foldl_state) (rule removeContainer_adds)

lemma kill_unwanted_adds: "kill_unwanted env pod kills s = (ok, s') \<Longrightarrow> adds (is_stop_call None) env ns s s'"
proof (induction env pod kills s rule: kill_unwanted.induct)
  case (2 env pod cid info rest s)
  obtain k s1 where k: "killContainer env pod cid (ki_name info) None s = (k, s1)" by force
  have "adds (is_stop_call None) env ns s s1" using killContainer_stops [OF k] .
  then have a: "adds (is_stop_call None) env ns s (add_result ActKillContainer (ki_name info) (if k then None else Some ErrKillContainer) s1)"
    by (rule adds_then_result) simp
  show ?case
  proof (cases k)
    case True
    with 2 k have "adds (is_stop_call None) env ns (add_result ActKillContainer (ki_name info) None s1) s'" by simp
    with a True show ?thesis using adds_trans by auto
  next
    case False
    with "2.prems" k a show ?thesis by simp
  qed
qed (simp add: adds_refl)

lemma sync_kill_adds: "sync_kill env pod ps ch s = (ok, s') \<Longrightarrow> adds (is_stop_call None) env ns s s'"
proof (cases "pa_KillPod ch")
  case True
  assume k: "sync_kill env pod ps ch s = (ok, s')"
  obtain ok1 s1 where 1: "killPodWithSyncResult env pod ps None s = (ok1, s1)" by force
  have "adds (is_stop_call None) env ns s s1" by (rule killPod_adds [OF 1])
  then show ?thesis using k True 1 adds_trans [OF _ purge_adds]
    by (auto simp: sync_kill_def split: if_splits)
qed (simp add: sync_kill_def kill_unwanted_adds)

lemma doBackOff_adds: "doBackOff env c ps s = (b, s') \<Longrightarrow> adds P env ns s s'"
  by (auto simp: doBackOff_def Let_def adds_refl adds_backoff split: option.splits if_splits)

lemma startContainer_fails:
  "startContainer env pod ps sid c s = (Some e, s') \<Longrightarrow> adds (is_start_call sid) env ns s s'"
  unfolding startContainer_def Let_def
  by (auto split: option.splits if_splits
      intro!: adds_then_log adds_trans [OF _ killContainer_adds] adds_refl)

definition announce_pid :: "string \<Rightarrow> string \<Rightarrow> rt_state \<Rightarrow> rt_state" where
  "announce_pid ns cid s =
     s\<lparr>rs_calls := rs_calls s @ [CallSetPID cid],
       rs_agent := (case rs_agent s of (nec, os0) \<Rightarrow> (nec, SetPID cid ns nec os0))\<rparr>"

lemma startContainer_succeeds:
  assumes "startContainer env pod ps sid c s = (None, s')"
  shows "\<exists>s1 cid. adds (is_start_call sid) env ns s s1 \<and> s' = announce_pid (p_Namespace pod) cid s1 \<and>
    re_CreateContainer env c = Some cid \<and> re_StartContainer env cid \<and> (c_PostStart c \<longrightarrow> re_PostStartHook env cid)"
proof -
  obtain cid where cid: "re_CreateContainer env c = Some cid" "re_StartContainer env cid"
    "c_PostStart c \<longrightarrow> re_PostStartHook env cid"
    using assms unfolding startContainer_def Let_def by (auto split: option.splits if_splits)
  define s1 where "s1 = rt_log (CallStart cid) (rt_log (CallPreStart cid)
    (rt_log (CallCreate sid (c_Name c) (restart_count ps c)) (rt_log (CallEnsureImage (c_Name c)) s)))"
  define s2 where "s2 = (if c_PostStart c then rt_log (CallPostStart cid) s1 else s1)"
  have "adds (is_start_call sid) env ns s s2"
    unfolding s2_def s1_def by (auto intro!: adds_then_log adds_refl)
  moreover have "s' = announce_pid (p_Namespace pod) cid s2"
    using assms cid unfolding startContainer_def Let_def s2_def s1_def announce_pid_def
    by (auto simp: rt_log_def split: option.splits if_splits)
  ultimately show ?thesis using cid by blast
qed

lemma adds_started:
  assumes "re_CreateContainer env c = Some cid" "re_StartContainer env cid" "c_PostStart c \<longrightarrow> re_PostStartHook env cid"
  shows "adds (is_start_call sid) env ns s (add_result ActStartContainer (c_Name c) None (announce_pid ns cid s))"
proof -
  have "agent_told env [CallSetPID cid] [\<lparr>sr_Action = ActStartContainer, sr_Target = c_Name c, sr_Error = None\<rparr>]"
    using assms by (auto simp: agent_told_def announced_pids_def start_ok_def slo_due_def started_def)
  then show ?thesis unfolding adds_def
    by (intro exI [of _ "[CallSetPID cid]"] exI [of _ "[\<lparr>sr_Action = ActStartContainer, sr_Target = c_Name c, sr_Error = None\<rparr>]"])
       (cases "rs_agent s", simp add: add_result_def announce_pid_def agent_hooks_def)
qed

lemma start_one_adds:
  assumes "start_one env pod ps sid c s = (e, s')"
  shows "adds (is_start_call sid) env (p_Namespace pod) s s'"
proof -
  obtain b s1 where b: "doBackOff env c ps s = (b, s1)" by force
  have s1: "adds (is_start_call sid) env (p_Namespace pod) s s1" by (rule doBackOff_adds [OF b])
  show ?thesis
  proof (cases b)
    case True
    then show ?thesis using assms b s1 by (auto simp: start_one_def intro: adds_then_result)
  next
    case False
    obtain s2 where s2: "startContainer env pod ps sid c s1 = (e, s2)" "s' = add_result ActStartContainer (c_Name c) e s2"
      using assms b False by (auto simp: start_one_def split: prod.splits)
    show ?thesis
    proof (cases e)
      case None
      then obtain s3 cid where "adds (is_start_call sid) env (p_Namespace pod) s1 s3" "s2 = announce_pid (p_Namespace pod) cid s3"
        "re_CreateContainer env c = Some cid" "re_StartContainer env cid" "c_PostStart c \<longrightarrow> re_PostStartHook env cid"
        using startContainer_succeeds s2(1) by blast
      then show ?thesis using adds_trans [OF s1] adds_trans [OF _ adds_started] s2(2) None by blast
    next
      case (Some x)
      then show ?thesis using adds_trans [OF s1 startContainer_fails] s2 by (auto intro: adds_then_result)
    qed
  qed
qed

lemma start_all_adds: "adds (is_start_call sid) env (p_Namespace pod) s (start_all env pod ps sid cs s)"
  unfolding start_all_def by (rule adds_foldl_state) (metis start_one_adds prod.collapse)

lemma sync_start_adds: "adds (is_start_call sid) env (p_Namespace pod) s (sync_start env pod ps ch sid s)"
proof (cases "re_sandboxConfig env")
  case True
  define s1 where "s1 = add_result ActConfigPodSandbox sid None s"
  define s2 where "s2 = (if re_ephemeralGate env
    then start_all env pod ps sid (map ((!) (p_EphemeralContainers pod)) (pa_Ephemeral ch)) s1 else s1)"
  obtain e s3 where 3: "(case pa_NextInit ch of None \<Rightarrow> (None, s2) | Some c \<Rightarrow> start_one env pod ps sid c s2) = (e, s3)" by force
  have "adds (is_start_call sid) env (p_Namespace pod) s s1" unfolding s1_def by (rule adds_result) simp
  moreover have "adds (is_start_call sid) env (p_Namespace pod) s1 s2" by (simp add: s2_def adds_refl start_all_adds)
  moreover have "adds (is_start_call sid) env (p_Namespace pod) s2 s3"
    using 3 by (auto simp: adds_refl start_one_adds split: option.splits)
  ultimately have *: "adds (is_start_call sid) env (p_Namespace pod) s s3" using adds_trans by blast
  have "sync_start env pod ps ch sid s =
    (if e \<noteq> None then s3 else start_all env pod ps sid (map ((!) (p_Containers pod)) (pa_Start ch)) s3)"
    by (simp only: sync_start_def Let_def True not_True_eq_False if_False s1_def [symmetric] s2_def [symmetric] 3 case_prod_conv)
  with * show ?thesis using adds_trans [OF * start_all_adds] by simp
qed (simp add: sync_start_def adds_result)

subsection \<open>The sandbox step\<close>

definition sandbox_calls :: "runtime_env \<Rightarrow> pod_actions \<Rightarrow> string option \<Rightarrow> rt_call list \<Rightarrow> bool" where
  "sandbox_calls env ch r bs \<longleftrightarrow>
     (if \<not> pa_CreateSandbox ch then bs = [] \<and> r = Some (pa_SandboxID ch)
      else case re_createPodSandbox env of
             None \<Rightarrow> r = None \<and> bs = [CallCreateSandbox (pa_Attempt ch)]
           | Some sid \<Rightarrow>
               if re_PodSandboxStatus env
               then r = Some sid \<and> bs = [CallCreateSandbox (pa_Attempt ch), CallSandboxStatus sid, CallSetSLO]
               else r = None \<and> bs = [CallCreateSandbox (pa_Attempt ch), CallSandboxStatus sid])"

lemma sync_sandbox_calls:
  assumes "sync_sandbox env pod ch s = Inr (r, s')"
  shows "\<exists>bs rs. sandbox_calls env ch r bs \<and> rs_calls s' = rs_calls s @ bs \<and> rs_results s' = rs_results s @ rs \<and>
    agent_told env bs rs \<and> run_hooks (agent_hooks ns bs) (rs_agent s) = Inr (rs_agent s')"
proof (cases "pa_CreateSandbox ch")
  case True
  then show ?thesis using assms
    by (cases "rs_agent s")
       (auto simp: sync_sandbox_def sandbox_calls_def Let_def rt_log_def add_result_def agent_hooks_def
         agent_told_def announced_pids_def start_ok_def slo_due_def
         split: option.splits if_splits sum.splits)
next
  case False
  then show ?thesis using assms
    by (intro exI [of _ "[]"]) (simp add: sync_sandbox_def sandbox_calls_def agent_hooks_def)
qed

subsection \<open>When the kill step succeeds\<close>

definition can_stop :: "runtime_env \<Rightarrow> pod \<Rightarrow> string \<Rightarrow> string \<Rightarrow> bool" where
  "can_stop env pod cid name \<longleftrightarrow> GetContainerSpec (re_ephemeralGate env) pod name \<noteq> None \<and>
     re_PreStopContainer env cid \<and> re_StopContainer env cid"

definition kill_succeeds :: "runtime_env \<Rightarrow> pod \<Rightarrow> pod_status \<Rightarrow> pod_actions \<Rightarrow> bool" where
  "kill_succeeds env pod ps ch \<longleftrightarrow>
     (if pa_KillPod ch then
        list_all (\<lambda>st. cs_State st = StateRunning \<longrightarrow> can_stop env pod (cs_ID st) (cs_Name st)) (ps_ContainerStatuses ps) \<and>
        list_all (\<lambda>sb. re_StopPodSandbox env (sb_Id sb)) (ps_SandboxStatuses ps)
      else list_all (\<lambda>(cid, info). can_stop env pod cid (ki_name info)) (pa_Kill ch))"

lemma killContainer_ok: "fst (killContainer env pod cid name gp s) = can_stop env pod cid name"
  by (simp add: killContainer_def can_stop_def Let_def split: option.split)

lemma foldl_conj_ok:
  "(\<And>b s x. fst (f (b, s) x) = (b \<and> P x)) \<Longrightarrow> fst (foldl f (b, s) xs) = (b \<and> list_all P xs)"
proof (induction xs arbitrary: b s)
  case (Cons x xs)
  obtain b' s' where f: "f (b, s) x = (b', s')" by force
  then have "b' = (b \<and> P x)" using Cons.prems [of b s x] by simp
  then show ?case using Cons.IH [OF Cons.prems, of b' s'] f by auto
qed simp

lemma kill_running_ok:
  "fst (kill_running env pod gp sts s) = list_all (\<lambda>st. can_stop env pod (cs_ID st) (cs_Name st)) sts"
  unfolding kill_running_def
  by (subst foldl_conj_ok [where P = "\<lambda>st. can_stop env pod (cs_ID st) (cs_Name st)"])
     (simp_all add: case_prod_beta killContainer_ok)

lemma stop_sandboxes_ok: "fst (stop_sandboxes env sbs s) = list_all (\<lambda>sb. re_StopPodSandbox env (sb_Id sb)) sbs"
  unfolding stop_sandboxes_def by (subst foldl_conj_ok [where P = "\<lambda>sb. re_StopPodSandbox env (sb_Id sb)"]) auto

lemma kill_unwanted_ok:
  "fst (kill_unwanted env pod kills s) = list_all (\<lambda>(cid, info). can_stop env pod cid (ki_name info)) kills"
proof (induction env pod kills s rule: kill_unwanted.induct)
  case (2 env pod cid info rest s)
  obtain k s1 where k: "killContainer env pod cid (ki_name info) None s = (k, s1)" by force
  then have "k = can_stop env pod cid (ki_name info)" using killContainer_ok [of env pod cid "ki_name info" None s] by simp
  then show ?case using 2 k by (cases k) simp_all
qed simp

lemma sync_kill_ok: "fst (sync_kill env pod ps ch s) = kill_succeeds env pod ps ch"
proof (cases "pa_KillPod ch")
  case True
  let ?r = "filter (\<lambda>st. cs_State st = StateRunning) (ps_ContainerStatuses ps)"
  obtain ok1 s1 where 1: "kill_running env pod None ?r s = (ok1, s1)" by force
  obtain ok2 s2 where 2: "stop_sandboxes env (ps_SandboxStatuses ps) s1 = (ok2, s2)" by force
  have "ok1 = list_all (\<lambda>st. cs_State st = StateRunning \<longrightarrow> can_stop env pod (cs_ID st) (cs_Name st)) (ps_ContainerStatuses ps)"
    using kill_running_ok [of env pod None ?r s] 1 by (auto simp: list_all_iff)
  moreover have "ok2 = list_all (\<lambda>sb. re_StopPodSandbox env (sb_Id sb)) (ps_SandboxStatuses ps)"
    using stop_sandboxes_ok [of env "ps_SandboxStatuses ps" s1] 2 by simp
  ultimately show ?thesis using True 1 2
    by (auto simp: sync_kill_def kill_succeeds_def killPodWithSyncResult_def)
qed (simp add: sync_kill_def kill_succeeds_def kill_unwanted_ok)

subsection \<open>Which containers are tried\<close>

definition starts_of :: "rt_state \<Rightarrow> sync_result list" where
  "starts_of s = filter (\<lambda>r. sr_Action r = ActStartContainer) (rs_results s)"

text \<open>
  Ephemeral containers first, then the next init container, then the others unless the start of the init container
  failed.
\<close>

definition starts_in_order :: "runtime_env \<Rightarrow> pod \<Rightarrow> pod_actions \<Rightarrow> sync_result list \<Rightarrow> bool" where
  "starts_in_order env pod ch rs \<longleftrightarrow>
     (let es = (if re_ephemeralGate env then map (\<lambda>i. c_Name (p_EphemeralContainers pod ! i)) (pa_Ephemeral ch) else []);
          ns = map (\<lambda>i. c_Name (p_Containers pod ! i)) (pa_Start ch);
          ts = map sr_Target rs
      in case pa_NextInit ch of
           None \<Rightarrow> ts = es @ ns
         | Some c \<Rightarrow> if sr_Error (rs ! length es) = None then ts = es @ c_Name c # ns else ts = es @ [c_Name c])"

lemma starts_of_simps [simp]:
  "starts_of (rt_log c s) = starts_of s"
  "starts_of (s\<lparr>rs_backoff := bo\<rparr>) = starts_of s"
  "starts_of (s\<lparr>rs_SyncError := e\<rparr>) = starts_of s"
  "starts_of (s\<lparr>rs_agent := ag\<rparr>) = starts_of s"
  "starts_of (add_result a t x s) =
     starts_of s @ (if a = ActStartContainer then [\<lparr>sr_Action = a, sr_Target = t, sr_Error = x\<rparr>] else [])"
  by (simp_all add: starts_of_def rt_log_def add_result_def)

lemma foldl_keeps: "(\<And>a x. h (f a x) = h a) \<Longrightarrow> h (foldl f a xs) = h a"
  by (induction xs arbitrary: a) simp_all

lemma killContainer_starts: "starts_of (snd (killContainer env pod cid name gp s)) = starts_of s"
  by (simp add: killContainer_def Let_def split: option.split)

lemma kill_unwanted_starts: "starts_of (snd (kill_unwanted env pod kills s)) = starts_of s"
proof (induction env pod kills s rule: kill_unwanted.induct)
  case (2 env pod cid info rest s)
  obtain k s1 where k: "killContainer env pod cid (ki_name info) None s = (k, s1)" by force
  then have "starts_of s1 = starts_of s" using killContainer_starts [of env pod cid "ki_name info" None s] by simp
  then show ?case using 2 k by (cases k) simp_all
qed simp

lemma kill_running_starts: "starts_of (snd (kill_running env pod gp sts s)) = starts_of s"
  unfolding kill_running_def
  by (subst foldl_keeps [where h = "\<lambda>a. starts_of (snd a)"]) (simp_all add: case_prod_beta killContainer_starts)

lemma stop_sandboxes_starts: "starts_of (snd (stop_sandboxes env sbs s)) = starts_of s"
  unfolding stop_sandboxes_def
  by (subst foldl_keeps [where h = "\<lambda>a. starts_of (snd a)"]) (simp_all add: case_prod_beta)

lemma removeContainer_starts: "starts_of (removeContainer env cid s) = starts_of s"
  by (simp add: removeContainer_def Let_def)

lemma prune_starts:
  "starts_of (pruneInitContainersBeforeStart env pod ps s) = starts_of s"
  "starts_of (purgeInitContainers env pod ps s) = starts_of s"
  unfolding pruneInitContainersBeforeStart_def purgeInitContainers_def
  by (rule foldl_keeps, rule removeContainer_starts)+

lemma sync_kill_starts: "starts_of (snd (sync_kill env pod ps ch s)) = starts_of s"
proof -
  have "starts_of (snd (killPodWithSyncResult env pod ps gp s)) = starts_of s" for gp
  proof -
    let ?r = "filter (\<lambda>st. cs_State st = StateRunning) (ps_ContainerStatuses ps)"
    obtain ok1 s1 where 1: "kill_running env pod gp ?r s = (ok1, s1)" by force
    obtain ok2 s2 where 2: "stop_sandboxes env (ps_SandboxStatuses ps) s1 = (ok2, s2)" by force
    show ?thesis
      using kill_running_starts [of env pod gp ?r s] stop_sandboxes_starts [of env "ps_SandboxStatuses ps" s1] 1 2
      by (simp add: killPodWithSyncResult_def)
  qed
  then show ?thesis
    by (auto simp: sync_kill_def kill_unwanted_starts prune_starts split: prod.split) (metis snd_conv)+
qed

lemma sync_sandbox_starts: "sync_sandbox env pod ch s = Inr (r, s') \<Longrightarrow> starts_of s' = starts_of s"
  by (auto simp: sync_sandbox_def Let_def split: if_splits option.splits prod.splits sum.splits)

lemma start_one_starts:
  assumes "start_one env pod ps sid c s = (e, s')"
  shows "starts_of s' = starts_of s @ [\<lparr>sr_Action = ActStartContainer, sr_Target = c_Name c, sr_Error = e\<rparr>]"
proof -
  have b: "starts_of s1 = starts_of s" if "doBackOff env c ps s = (b, s1)" for b s1
    using that by (auto simp: doBackOff_def Let_def split: option.splits if_splits)
  have c: "starts_of s2 = starts_of s1" if "startContainer env pod ps sid c s1 = (e, s2)" for e s1 s2
    using that by (auto simp: startContainer_def Let_def killContainer_starts split: option.splits if_splits)
  show ?thesis using assms b c by (auto simp: start_one_def split: prod.splits bool.splits)
qed

lemma start_all_starts:
  "\<exists>rs. starts_of (start_all env pod ps sid cs s) = starts_of s @ rs \<and> map sr_Target rs = map c_Name cs"
  unfolding start_all_def
proof (induction cs arbitrary: s)
  case (Cons c cs)
  obtain e s1 where 1: "start_one env pod ps sid c s = (e, s1)" by force
  obtain rs where "starts_of (foldl (\<lambda>s c. snd (start_one env pod ps sid c s)) s1 cs) = starts_of s1 @ rs"
    "map sr_Target rs = map c_Name cs"
    using Cons.IH [of s1] by blast
  then show ?case using start_one_starts [OF 1] 1 by simp
qed simp

lemma sync_start_starts:
  "\<exists>rs. starts_of (sync_start env pod ps ch sid s) = starts_of s @ rs \<and>
    (if re_sandboxConfig env then starts_in_order env pod ch rs else rs = [])"
proof (cases "re_sandboxConfig env")
  case True
  define s1 where "s1 = add_result ActConfigPodSandbox sid None s"
  define s2 where "s2 = (if re_ephemeralGate env
    then start_all env pod ps sid (map ((!) (p_EphemeralContainers pod)) (pa_Ephemeral ch)) s1 else s1)"
  define es where "es = (if re_ephemeralGate env then map (\<lambda>i. c_Name (p_EphemeralContainers pod ! i)) (pa_Ephemeral ch) else [])"
  have "starts_of s1 = starts_of s" by (simp add: s1_def)
  then have "\<exists>rs. starts_of s2 = starts_of s @ rs \<and> map sr_Target rs = es"
    using start_all_starts [of env pod ps sid "map ((!) (p_EphemeralContainers pod)) (pa_Ephemeral ch)" s1]
    by (cases "re_ephemeralGate env") (simp_all add: s2_def es_def comp_def)
  then obtain rs1 where rs1: "starts_of s2 = starts_of s @ rs1" "map sr_Target rs1 = es" by blast
  obtain e s3 where 3: "(case pa_NextInit ch of None \<Rightarrow> (None, s2) | Some c \<Rightarrow> start_one env pod ps sid c s2) = (e, s3)" by force
  obtain rs2 where rs2: "starts_of (start_all env pod ps sid (map ((!) (p_Containers pod)) (pa_Start ch)) s3) = starts_of s3 @ rs2"
    "map sr_Target rs2 = map (\<lambda>i. c_Name (p_Containers pod ! i)) (pa_Start ch)"
    using start_all_starts [of env pod ps sid "map ((!) (p_Containers pod)) (pa_Start ch)" s3] by (auto simp: comp_def)
  have st: "sync_start env pod ps ch sid s =
    (if e \<noteq> None then s3 else start_all env pod ps sid (map ((!) (p_Containers pod)) (pa_Start ch)) s3)"
    by (simp only: sync_start_def Let_def True not_True_eq_False if_False s1_def [symmetric] s2_def [symmetric] 3 case_prod_conv)
  have len: "length es = length rs1" using rs1(2) by (metis length_map)
  show ?thesis
  proof (cases "pa_NextInit ch")
    case None
    with 3 have "e = None" "s3 = s2" by simp_all
    then show ?thesis using st rs1 rs2 None True
      by (intro exI [of _ "rs1 @ rs2"]) (simp add: starts_in_order_def Let_def es_def)
  next
    case (Some c)
    with 3 have 1: "starts_of s3 = starts_of s2 @ [\<lparr>sr_Action = ActStartContainer, sr_Target = c_Name c, sr_Error = e\<rparr>]"
      by (auto intro: start_one_starts)
    show ?thesis
    proof (cases e)
      case None
      then show ?thesis using st rs1 rs2 1 Some True len
        by (intro exI [of _ "rs1 @ \<lparr>sr_Action = ActStartContainer, sr_Target = c_Name c, sr_Error = e\<rparr> # rs2"])
           (simp add: starts_in_order_def Let_def es_def [symmetric] nth_append)
    next
      case (Some x)
      then show ?thesis using st rs1 1 \<open>pa_NextInit ch = Some c\<close> True len
        by (intro exI [of _ "rs1 @ [\<lparr>sr_Action = ActStartContainer, sr_Target = c_Name c, sr_Error = e\<rparr>]"])
           (simp add: starts_in_order_def Let_def es_def [symmetric] nth_append)
    qed
  qed
qed (simp add: sync_start_def)

lemma sync_start_no_config: "\<not> re_sandboxConfig env \<Longrightarrow> rs_calls (sync_start env pod ps ch sid s) = rs_calls s"
  by (simp add: sync_start_def add_result_def)

subsection \<open>The trace of one SyncPod\<close>

text \<open>The calls after the kill step: those for the sandbox, and the starts.\<close>

definition ready_calls ::
  "runtime_env \<Rightarrow> pod \<Rightarrow> pod_actions \<Rightarrow> rt_call list \<Rightarrow> rt_call list \<Rightarrow> sync_result list \<Rightarrow> bool" where
  "ready_calls env pod ch bs ss rs \<longleftrightarrow>
     (\<exists>r. sandbox_calls env ch r bs \<and>
        (case r of
           None \<Rightarrow> ss = [] \<and> rs = []
         | Some sid \<Rightarrow> list_all (is_start_call sid) ss \<and>
             (if re_sandboxConfig env then starts_in_order env pod ch rs else ss = [] \<and> rs = [])))"

definition sync_trace ::
  "runtime_env \<Rightarrow> pod \<Rightarrow> pod_status \<Rightarrow> pod_actions \<Rightarrow> rt_state \<Rightarrow> rt_state \<Rightarrow>
     rt_call list \<Rightarrow> rt_call list \<Rightarrow> rt_call list \<Rightarrow> sync_result list \<Rightarrow> bool" where
  "sync_trace env pod ps ch s s' ks bs ss rs \<longleftrightarrow>
     rs_calls s' = rs_calls s @ ks @ bs @ ss \<and> rs_results s' = rs_results s @ rs \<and>
     agent_told env (ks @ bs @ ss) rs \<and>
     run_hooks (agent_hooks (p_Namespace pod) (ks @ bs @ ss)) (rs_agent s) = Inr (rs_agent s') \<and>
     list_all (is_stop_call None) ks \<and>
     (if kill_succeeds env pod ps ch
      then ready_calls env pod ch bs ss (filter (\<lambda>r. sr_Action r = ActStartContainer) rs)
      else bs = [] \<and> ss = [] \<and> filter (\<lambda>r. sr_Action r = ActStartContainer) rs = [])"

lemma ready_run:
  assumes "sync_sandbox env pod ch s = Inr (r, s1)"
    and s': "s' = (case r of None \<Rightarrow> s1 | Some sid \<Rightarrow> sync_start env pod ps ch sid s1)"
  shows "\<exists>bs ss rs. rs_calls s' = rs_calls s @ bs @ ss \<and> rs_results s' = rs_results s @ rs \<and>
    agent_told env (bs @ ss) rs \<and>
    run_hooks (agent_hooks (p_Namespace pod) (bs @ ss)) (rs_agent s) = Inr (rs_agent s') \<and>
    ready_calls env pod ch bs ss (filter (\<lambda>r. sr_Action r = ActStartContainer) rs)"
proof -
  let ?ns = "p_Namespace pod"
  obtain bs rs1 where bs: "sandbox_calls env ch r bs" "rs_calls s1 = rs_calls s @ bs" "rs_results s1 = rs_results s @ rs1"
    "agent_told env bs rs1" "run_hooks (agent_hooks ?ns bs) (rs_agent s) = Inr (rs_agent s1)"
    using sync_sandbox_calls [OF assms(1)] by blast
  have n: "filter (\<lambda>r. sr_Action r = ActStartContainer) rs1 = []"
    using sync_sandbox_starts [OF assms(1)] bs(3) by (simp add: starts_of_def)
  show ?thesis
  proof (cases r)
    case None
    then show ?thesis using bs s' n
      by (intro exI [of _ bs] exI [of _ "[]"] exI [of _ rs1]) (auto simp: ready_calls_def)
  next
    case (Some sid)
    with s' have st: "s' = sync_start env pod ps ch sid s1" by simp
    obtain ss rs2 where ss: "rs_calls s' = rs_calls s1 @ ss" "rs_results s' = rs_results s1 @ rs2"
      "list_all (is_start_call sid) ss" "agent_told env ss rs2" "run_hooks (agent_hooks ?ns ss) (rs_agent s1) = Inr (rs_agent s')"
      using sync_start_adds [of sid env pod s1 ps ch] unfolding adds_def st by blast
    obtain rs where rs: "starts_of s' = starts_of s1 @ rs" "if re_sandboxConfig env then starts_in_order env pod ch rs else rs = []"
      using sync_start_starts [of env pod ps ch sid s1] st by blast
    have f: "filter (\<lambda>r. sr_Action r = ActStartContainer) rs2 = rs" using rs(1) ss(2) by (simp add: starts_of_def)
    have "\<not> re_sandboxConfig env \<Longrightarrow> ss = []" using ss(1) sync_start_no_config st by simp
    with bs(1) ss(3) rs(2) Some n f
    have "ready_calls env pod ch bs ss (filter (\<lambda>r. sr_Action r = ActStartContainer) (rs1 @ rs2))"
      unfolding ready_calls_def by (intro exI [of _ r]) auto
    moreover have "run_hooks (agent_hooks ?ns (bs @ ss)) (rs_agent s) = Inr (rs_agent s')"
      by (simp add: agent_hooks_append run_hooks_append bs(5) ss(5))
    ultimately show ?thesis using bs ss agent_told_append [OF bs(4) ss(4)]
      by (intro exI [of _ bs] exI [of _ ss] exI [of _ "rs1 @ rs2"]) simp
  qed
qed

lemma SyncPod_trace:
  assumes "SyncPod env pod ps s = Inr s'"
  shows "\<exists>ks bs ss rs.
    sync_trace env pod ps (computePodActions (re_ephemeralGate env) (re_probes env) pod ps) s s' ks bs ss rs"
proof -
  let ?ns = "p_Namespace pod"
  define ch where "ch = computePodActions (re_ephemeralGate env) (re_probes env) pod ps"
  define s1 where "s1 = foldl (\<lambda>s cid. rt_log (CallPostStop cid) s) s (pa_PostStop ch)"
  obtain ok s2 where 2: "sync_kill env pod ps ch s1 = (ok, s2)" by force
  have ok: "ok = kill_succeeds env pod ps ch" using sync_kill_ok [of env pod ps ch s1] 2 by simp
  have "starts_of s1 = starts_of s" unfolding s1_def by (rule foldl_keeps) simp
  then have st2: "starts_of s2 = starts_of s" using sync_kill_starts [of env pod ps ch s1] 2 by simp
  have "adds (is_stop_call None) env ?ns s s1" unfolding s1_def by (rule adds_foldl_state) (simp add: adds_log)
  then have k2: "adds (is_stop_call None) env ?ns s s2" using adds_trans sync_kill_adds [OF 2] by blast
  show ?thesis unfolding ch_def [symmetric]
  proof (cases ok)
    case False
    with assms 2 have s': "s' = s2" by (simp add: SyncPod_def Let_def ch_def [symmetric] s1_def [symmetric])
    obtain ks rs where "rs_calls s' = rs_calls s @ ks" "rs_results s' = rs_results s @ rs" "list_all (is_stop_call None) ks"
      "agent_told env ks rs" "run_hooks (agent_hooks ?ns ks) (rs_agent s) = Inr (rs_agent s')"
      using k2 unfolding s' adds_def by blast
    moreover from this(2) have "filter (\<lambda>r. sr_Action r = ActStartContainer) rs = []"
      using st2 s' by (simp add: starts_of_def)
    ultimately show "\<exists>ks bs ss rs. sync_trace env pod ps ch s s' ks bs ss rs"
      unfolding sync_trace_def using False ok
      by (intro exI [of _ ks] exI [of _ "[]"] exI [of _ rs]) simp
  next
    case True
    define s3 where "s3 = pruneInitContainersBeforeStart env pod ps s2"
    have "adds (is_stop_call None) env ?ns s s3" unfolding s3_def using k2 prune_adds adds_trans by blast
    then obtain ks rs1 where ks: "rs_calls s3 = rs_calls s @ ks" "rs_results s3 = rs_results s @ rs1" "list_all (is_stop_call None) ks"
      "agent_told env ks rs1" "run_hooks (agent_hooks ?ns ks) (rs_agent s) = Inr (rs_agent s3)"
      unfolding adds_def by blast
    have "starts_of s3 = starts_of s" using st2 prune_starts by (simp add: s3_def)
    then have n: "filter (\<lambda>r. sr_Action r = ActStartContainer) rs1 = []" using ks(2) by (simp add: starts_of_def)
    obtain r s4 where 4: "sync_sandbox env pod ch s3 = Inr (r, s4)"
      "s' = (case r of None \<Rightarrow> s4 | Some sid \<Rightarrow> sync_start env pod ps ch sid s4)"
      using assms 2 True
      by (simp add: SyncPod_def Let_def ch_def [symmetric] s1_def [symmetric] s3_def [symmetric]
          split: sum.splits prod.splits option.splits)
    obtain bs ss rs2 where bs: "rs_calls s' = rs_calls s3 @ bs @ ss" "rs_results s' = rs_results s3 @ rs2"
      "agent_told env (bs @ ss) rs2" "run_hooks (agent_hooks ?ns (bs @ ss)) (rs_agent s3) = Inr (rs_agent s')"
      "ready_calls env pod ch bs ss (filter (\<lambda>r. sr_Action r = ActStartContainer) rs2)"
      using ready_run [OF 4] by blast
    have "run_hooks (agent_hooks ?ns (ks @ bs @ ss)) (rs_agent s) = Inr (rs_agent s')"
      using bs(4) by (simp add: agent_hooks_append run_hooks_append ks(5))
    then show "\<exists>ks bs ss rs. sync_trace env pod ps ch s s' ks bs ss rs"
      unfolding sync_trace_def using True ok ks bs n agent_told_append [OF ks(4) bs(3)]
      by (intro exI [of _ ks] exI [of _ bs] exI [of _ ss] exI [of _ "rs1 @ rs2"]) simp
  qed
qed

subsection \<open>Properties\<close>

lemma slo_hooks_of_trace:
  assumes t: "sync_trace env pod ps ch s s' ks bs ss rs"
  shows "filter ((=) CallSetSLO) (ks @ bs @ ss) =
    (if (\<exists>r \<in> set rs. sr_Action r = ActCreatePodSandbox \<and> sr_Error r = None) \<and> re_PodSandboxStatus env then [CallSetSLO] else [])"
proof -
  let ?f = "filter ((=) CallSetSLO)"
  have ks: "?f ks = []" using t by (auto simp: sync_trace_def list_all_iff filter_empty_conv)
  have "list_all (is_start_call sid) ss \<Longrightarrow> ?f ss = []" for sid by (auto simp: list_all_iff filter_empty_conv)
  then have bs: "?f ss = [] \<and> length (?f bs) \<le> 1"
    using t by (auto simp: sync_trace_def ready_calls_def sandbox_calls_def split: if_splits option.splits)
  have m: "?f (ks @ bs @ ss) = map (\<lambda>r. CallSetSLO) (filter (slo_due env) rs)"
    using t by (simp add: sync_trace_def agent_told_def)
  then have l: "length (filter (slo_due env) rs) \<le> 1" using ks bs by (metis append_Nil append_Nil2 filter_append length_map)
  have d: "filter (slo_due env) rs \<noteq> [] \<longleftrightarrow>
      (\<exists>r \<in> set rs. sr_Action r = ActCreatePodSandbox \<and> sr_Error r = None) \<and> re_PodSandboxStatus env"
    by (auto simp: filter_empty_conv slo_due_def)
  show ?thesis
  proof (cases "filter (slo_due env) rs")
    case Nil
    then show ?thesis using m d by auto
  next
    case (Cons x xs)
    then show ?thesis using m d l by auto
  qed
qed

text \<open>
  C8: Whatever the runtime answers, the agent and its files end one \<open>SyncPod\<close> as the hooks of the calls it made, in
  that order, leave them.  There is one \<open>SetSLO\<close> if the sync created a sandbox and could read its status, and none
  otherwise; and there is one \<open>SetPID\<close> for each container whose start is reported as a success, in that order, with the
  ID under which the runtime created it.  Containers that failed to start, among them those killed
  because their post-start hook failed, are not announced.
\<close>

theorem SyncPod_refines_hooks:
  assumes "SyncPod env pod ps s = Inr s'"
  shows "\<exists>cs rs. rs_calls s' = rs_calls s @ cs \<and> rs_results s' = rs_results s @ rs \<and>
    run_hooks (agent_hooks (p_Namespace pod) cs) (rs_agent s) = Inr (rs_agent s') \<and>
    filter ((=) CallSetSLO) cs =
      (if (\<exists>r \<in> set rs. sr_Action r = ActCreatePodSandbox \<and> sr_Error r = None) \<and> re_PodSandboxStatus env
       then [CallSetSLO] else []) \<and>
    list_all2 (started env) (announced_pids cs) (filter start_ok rs)"
proof -
  obtain ks bs ss rs where
    t: "sync_trace env pod ps (computePodActions (re_ephemeralGate env) (re_probes env) pod ps) s s' ks bs ss rs"
    using SyncPod_trace [OF assms] by blast
  show ?thesis
    using t [unfolded sync_trace_def agent_told_def] slo_hooks_of_trace [OF t]
    by (intro exI [of _ "ks @ bs @ ss"] exI [of _ rs] conjI) (elim conjE, assumption)+
qed


text \<open>
  A container that exited and is still in its back-off period is not started: the sync records
  \<open>CrashLoopBackOff\<close> for it, makes no call to the runtime, leaves the agent alone and does not
  extend the back-off; otherwise the back-off entry of the container is advanced before the start.
\<close>

theorem crash_loop_is_held_back:
  assumes "find (\<lambda>st. cs_Name st = c_Name c \<and> cs_State st = StateExited) (ps_ContainerStatuses ps) = Some st"
    and "start_one env pod ps sid c s = (e, s')"
  shows "if IsInBackOffSince (re_now env) (rs_backoff s) (re_stableKey env c) (cs_FinishedAt st)
    then e = Some ErrCrashLoopBackOff \<and> s' = add_result ActStartContainer (c_Name c) (Some ErrCrashLoopBackOff) s
    else rs_backoff s' = bo_Next (re_now env) (rs_backoff s) (re_stableKey env c) (cs_FinishedAt st) \<and>
      (\<exists>cs. rs_calls s' = rs_calls s @ CallEnsureImage (c_Name c) # cs)"
proof -
  have k: "rs_backoff (snd (killContainer env pod cid n gp s)) = rs_backoff s" for cid n gp s
    by (auto simp: killContainer_def Let_def rt_log_def split: option.split)
  have l: "\<exists>cs. rs_calls (snd (killContainer env pod cid n gp (s\<lparr>rs_calls := xs @ a # ys\<rparr>))) = xs @ a # cs" for cid n gp s xs a ys
    by (auto simp: killContainer_def Let_def rt_log_def split: option.split)
  have "rs_backoff s' = rs_backoff s \<and> (\<exists>cs. rs_calls s' = rs_calls s @ CallEnsureImage (c_Name c) # cs)"
    if "startContainer env pod ps sid c s = (e, s')" for s s'
    using that k l unfolding startContainer_def Let_def
    by (auto simp: rt_log_def split: option.splits if_splits)
  then show ?thesis using assms
    by (fastforce simp: start_one_def doBackOff_def add_result_def Let_def split: if_splits prod.splits)
qed

subsection \<open>A first sync of a pod\<close>

definition demo_runtime :: runtime_env where
  "demo_runtime =
     \<lparr>re_probes = \<lparr>pe_HashContainer = (\<lambda>_. 0), pe_liveness = (\<lambda>_. None), pe_startup = (\<lambda>_. None)\<rparr>,
      re_ephemeralGate = False, re_now = 5000000000, re_stableKey = c_Name, re_DeletionGracePeriod = None,
      re_TerminationGracePeriod = Some 30, re_hasPreStop = (\<lambda>_. False), re_preStopSeconds = (\<lambda>_. 0),
      re_PreStopContainer = (\<lambda>_. True), re_StopContainer = (\<lambda>_. True), re_StopPodSandbox = (\<lambda>_. True),
      re_PostStopContainer = (\<lambda>_. True), re_removeLog = (\<lambda>_. True), re_createPodSandbox = Some ''sb'',
      re_PodSandboxStatus = True, re_sandboxConfig = True, re_EnsureImageExists = (\<lambda>_. None),
      re_targetFound = (\<lambda>_. True), re_containerConfig = (\<lambda>_ _. True), re_CreateContainer = (\<lambda>c. Some (''id-'' @ c_Name c)),
      re_PreStartContainer = (\<lambda>_. True), re_StartContainer = (\<lambda>_. True), re_PostStartHook = (\<lambda>_. True), re_nameOrder = id\<rparr>"

definition new_status :: pod_status where
  "new_status = \<lparr>ps_IPs = [], ps_ContainerStatuses = [], ps_SandboxStatuses = []\<rparr>"

definition demo_rt :: "necon \<times> os_state \<Rightarrow> rt_state" where
  "demo_rt a = \<lparr>rs_agent = a, rs_backoff = NewBackOff 10000000000 300000000000, rs_calls = [], rs_results = [], rs_SyncError = False\<rparr>"

lemma first_actions:
  "computePodActions False (re_probes demo_runtime) (slo_pod ''web'' ''a'' 240) new_status =
    \<lparr>pa_KillPod = True, pa_CreateSandbox = True, pa_SandboxID = [], pa_Attempt = 0, pa_NextInit = None,
     pa_Start = [0], pa_Kill = [], pa_Ephemeral = [], pa_PostStop = []\<rparr>"
  by (simp add: computePodActions_def podSandboxChanged_def new_status_def slo_pod_def empty_pod_def Let_def)

lemma demo_runtime_simps:
  "re_probes demo_runtime = \<lparr>pe_HashContainer = (\<lambda>_. 0), pe_liveness = (\<lambda>_. None), pe_startup = (\<lambda>_. None)\<rparr>"
  "\<not> re_ephemeralGate demo_runtime" "re_now demo_runtime = 5000000000" "re_stableKey demo_runtime = c_Name"
  "re_createPodSandbox demo_runtime = Some ''sb''" "re_PodSandboxStatus demo_runtime" "re_sandboxConfig demo_runtime"
  "re_EnsureImageExists demo_runtime c = None" "re_targetFound demo_runtime c" "re_containerConfig demo_runtime c n"
  "re_CreateContainer demo_runtime c = Some (''id-'' @ c_Name c)" "re_PreStartContainer demo_runtime x"
  "re_StartContainer demo_runtime x" "re_nameOrder demo_runtime ns = ns"
  by (simp_all add: demo_runtime_def)

lemmas sync_defs = sync_kill_def killPodWithSyncResult_def kill_running_def stop_sandboxes_def purgeInitContainers_def
  pruneInitContainersBeforeStart_def sync_sandbox_def sync_start_def start_all_def start_one_def doBackOff_def
  startContainer_def restart_count_def FindContainerStatusByName_def rt_log_def add_result_def

lemma first_sync:
  "\<exists>s'. SyncPod demo_runtime (slo_pod ''web'' ''a'' 240) new_status
      (demo_rt (SetNeconPod (slo_pod ''web'' ''a'' 240) new_necon, demo_os)) = Inr s' \<and>
    rs_calls s' = [CallCreateSandbox 0, CallSandboxStatus ''sb'', CallSetSLO, CallEnsureImage ''main'',
      CallCreate ''sb'' ''main'' 0, CallPreStart ''id-main'', CallStart ''id-main'', CallSetPID ''id-main''] \<and>
    (pid_path 1, ''7'') \<in> set (os_journal (snd (rs_agent s')))"
proof -
  have i: "init_names demo_runtime (slo_pod ''web'' ''a'' 240) = []"
    by (simp add: init_names_def demo_runtime_def slo_pod_def empty_pod_def)
  have c: "computePodActions (re_ephemeralGate demo_runtime) (re_probes demo_runtime) (slo_pod ''web'' ''a'' 240) new_status =
      computePodActions False (re_probes demo_runtime) (slo_pod ''web'' ''a'' 240) new_status"
    by (simp add: demo_runtime_def)
  have k: "ps_ContainerStatuses new_status = []" "ps_SandboxStatuses new_status = []"
    by (simp_all add: new_status_def)
  have e: "os_files demo_os p = Some ''7''" "os_journal demo_os = []" for p by (simp_all add: demo_os_def)
  show ?thesis
    unfolding SyncPod_def c first_actions
    by (simp add: i k e Let_def sync_defs demo_rt_def demo_runtime_simps SetNeconPod_def SetSLO_def SetPID_def WriteFile_def
        ReadFile_def new_necon_def empty_container_def Println_def)
qed

text \<open>A container whose post-start hook fails, and a sandbox that cannot be stopped.\<close>

definition hook_pod :: pod where
  "hook_pod = empty_pod\<lparr>p_Namespace := ''web'', p_Name := ''h'',
     p_Containers := [(empty_container ''main'')\<lparr>c_PostStart := True\<rparr>]\<rparr>"

definition hook_runtime :: runtime_env where
  "hook_runtime = demo_runtime\<lparr>re_PostStartHook := (\<lambda>_. False)\<rparr>"

lemma hook_actions:
  "computePodActions False (re_probes demo_runtime) hook_pod new_status =
    \<lparr>pa_KillPod = True, pa_CreateSandbox = True, pa_SandboxID = [], pa_Attempt = 0, pa_NextInit = None,
     pa_Start = [0], pa_Kill = [], pa_Ephemeral = [], pa_PostStop = []\<rparr>"
  by (simp add: computePodActions_def podSandboxChanged_def new_status_def hook_pod_def empty_pod_def Let_def)

lemma hook_sync:
  "\<exists>s'. SyncPod hook_runtime hook_pod new_status (demo_rt (new_necon, demo_os)) = Inr s' \<and>
    rs_calls s' = [CallCreateSandbox 0, CallSandboxStatus ''sb'', CallSetSLO, CallEnsureImage ''main'',
      CallCreate ''sb'' ''main'' 0, CallPreStart ''id-main'', CallStart ''id-main'', CallPostStart ''id-main'',
      CallPreStop ''id-main'', CallStop ''id-main'' 30]"
proof -
  have i: "init_names hook_runtime hook_pod = []"
    by (simp add: init_names_def hook_runtime_def demo_runtime_def hook_pod_def empty_pod_def)
  have c: "computePodActions (re_ephemeralGate hook_runtime) (re_probes hook_runtime) hook_pod new_status =
      computePodActions False (re_probes demo_runtime) hook_pod new_status"
    by (simp add: hook_runtime_def demo_runtime_simps)
  have k: "ps_ContainerStatuses new_status = []" "ps_SandboxStatuses new_status = []"
    by (simp_all add: new_status_def)
  have h: "\<not> re_PostStartHook hook_runtime x" for x by (simp add: hook_runtime_def)
  have l: "killContainer hook_runtime hook_pod cid ''main'' None s =
      (True, rt_log (CallStop cid 30) (rt_log (CallPreStop cid) s))" for cid s
    by (simp add: killContainer_def GetContainerSpec_def hook_runtime_def demo_runtime_def hook_pod_def empty_pod_def
        empty_container_def minimumGracePeriodInSeconds_def)
  have r: "re_createPodSandbox hook_runtime = Some ''sb''" "re_PodSandboxStatus hook_runtime" "re_sandboxConfig hook_runtime"
    "\<not> re_ephemeralGate hook_runtime" "re_EnsureImageExists hook_runtime c = None" "re_targetFound hook_runtime c"
    "re_containerConfig hook_runtime c n" "re_CreateContainer hook_runtime c = Some (''id-'' @ c_Name c)"
    "re_PreStartContainer hook_runtime x" "re_StartContainer hook_runtime x"
    "p_Containers hook_pod = [(empty_container ''main'')\<lparr>c_PostStart := True\<rparr>]" "p_Namespace empty_pod = []" for c n x
    by (simp_all add: hook_runtime_def demo_runtime_simps hook_pod_def empty_pod_def)
  show ?thesis
    unfolding SyncPod_def c hook_actions
    by (simp add: i k l h r Let_def sync_defs demo_rt_def SetSLO_def new_necon_def empty_container_def)
qed




theorem SyncPod_refines_hooks_witness:
  "\<exists>s1 s2.
    SyncPod demo_runtime (slo_pod ''web'' ''a'' 240) new_status
      (demo_rt (SetNeconPod (slo_pod ''web'' ''a'' 240) new_necon, demo_os)) = Inr s1 \<and>
    announced_pids (rs_calls s1) = [''id-main''] \<and>
    list_all2 (started demo_runtime) [''id-main''] (filter start_ok (rs_results s1)) \<and>
    run_hooks (agent_hooks ''web'' (rs_calls s1)) (SetNeconPod (slo_pod ''web'' ''a'' 240) new_necon, demo_os) = Inr (rs_agent s1) \<and>
    SyncPod hook_runtime hook_pod new_status (demo_rt (new_necon, demo_os)) = Inr s2 \<and>
    CallStart ''id-main'' \<in> set (rs_calls s2) \<and> announced_pids (rs_calls s2) = [] \<and> filter start_ok (rs_results s2) = []"
proof -
  obtain s1 where s1: "SyncPod demo_runtime (slo_pod ''web'' ''a'' 240) new_status
      (demo_rt (SetNeconPod (slo_pod ''web'' ''a'' 240) new_necon, demo_os)) = Inr s1"
    "announced_pids (rs_calls s1) = [''id-main'']" using first_sync by (auto simp: announced_pids_def)
  obtain s2 where s2: "SyncPod hook_runtime hook_pod new_status (demo_rt (new_necon, demo_os)) = Inr s2"
    "announced_pids (rs_calls s2) = []" "CallStart ''id-main'' \<in> set (rs_calls s2)"
    using hook_sync by (auto simp: announced_pids_def)
  have d: "rs_calls (demo_rt ag) = []" "rs_results (demo_rt ag) = []" "rs_agent (demo_rt ag) = ag" for ag
    by (simp_all add: demo_rt_def)
  have "list_all2 (started demo_runtime) [''id-main''] (filter start_ok (rs_results s1))"
    "run_hooks (agent_hooks ''web'' (rs_calls s1)) (SetNeconPod (slo_pod ''web'' ''a'' 240) new_necon, demo_os) = Inr (rs_agent s1)"
    using SyncPod_refines_hooks [OF s1(1)] s1(2) by (auto simp: d)
  moreover have "filter start_ok (rs_results s2) = []"
    using SyncPod_refines_hooks [OF s2(1)] s2(2) by (auto simp: d)
  ultimately show ?thesis using s1 s2 by (intro exI [of _ s1] exI [of _ s2] conjI)
qed


theorem crash_loop_witness:
  "rs_calls (snd (start_one (demo_runtime\<lparr>re_now := 12000000000\<rparr>) demo_pod
       \<lparr>ps_IPs = [], ps_ContainerStatuses = [\<lparr>cs_ID = ''c'', cs_Name = ''main'', cs_State = StateExited, cs_FinishedAt = 5000000000,
          cs_ExitCode = 1, cs_Hash = 0, cs_RestartCount = 1\<rparr>], ps_SandboxStatuses = []\<rparr> ''sb'' (empty_container ''main'')
      ((demo_rt (new_necon, demo_os))\<lparr>rs_backoff :=
        bo_Next 6000000000 (NewBackOff 10000000000 300000000000) ''main'' 5000000000\<rparr>))) = []"
proof -
  let ?e = "demo_runtime\<lparr>re_now := 12000000000\<rparr>"
  let ?st = "\<lparr>cs_ID = ''c'', cs_Name = ''main'', cs_State = StateExited, cs_FinishedAt = 5000000000,
          cs_ExitCode = 1, cs_Hash = 0, cs_RestartCount = 1\<rparr>"
  let ?ps = "\<lparr>ps_IPs = [], ps_ContainerStatuses = [?st], ps_SandboxStatuses = []\<rparr>"
  let ?c = "empty_container ''main''"
  let ?s = "(demo_rt (new_necon, demo_os))\<lparr>rs_backoff := bo_Next 6000000000 (NewBackOff 10000000000 300000000000) ''main'' 5000000000\<rparr>"
  obtain e s' where r: "start_one ?e demo_pod ?ps ''sb'' ?c ?s = (e, s')" by force
  have f: "find (\<lambda>st. cs_Name st = c_Name ?c \<and> cs_State st = StateExited) (ps_ContainerStatuses ?ps) = Some ?st"
    by (simp add: empty_container_def)
  have "IsInBackOffSince (re_now ?e) (rs_backoff ?s) (re_stableKey ?e ?c) (cs_FinishedAt ?st)"
    by (simp add: demo_runtime_simps IsInBackOffSince_def bo_Next_def NewBackOff_def initEntryUnsafe_def hasExpired_def
        time_sub_def wrap64_def empty_container_def)
  with crash_loop_is_held_back [OF f r] have "s' = add_result ActStartContainer (c_Name ?c) (Some ErrCrashLoopBackOff) ?s" by simp
  with r show ?thesis by (simp add: add_result_def demo_rt_def)
qed

end
