(* ===== verification/GoStrings.thy ===== *)
theory GoStrings
  imports GoStrconv
begin

section \<open>The parts of packages strings and path the program uses\<close>

text \<open>
  \<open>strings.Split\<close>, \<open>Join\<close>, \<open>Replace\<close> of one byte, \<open>Contains\<close>, \<open>TrimPrefix\<close>, \<open>TrimSuffix\<close> and
  \<open>path.Clean\<close>, \<open>Join\<close>, \<open>Base\<close>, \<open>Split\<close> on byte strings.
\<close>

text \<open>\<open>Split\<close> with a separator of one byte, and \<open>Join\<close>.\<close>

fun split_char :: "char \<Rightarrow> string \<Rightarrow> string list" where
  "split_char c [] = [[]]"
| "split_char c (x # xs) =
     (if x = c then [] # split_char c xs
      else case split_char c xs of y # ys \<Rightarrow> (x # y) # ys | [] \<Rightarrow> [[x]])"

fun join_str :: "string \<Rightarrow> string list \<Rightarrow> string" where
  "join_str sep [] = []"
| "join_str sep [x] = x"
| "join_str sep (x # y # zs) = x @ sep @ join_str sep (y # zs)"

definition replace_char :: "char \<Rightarrow> char \<Rightarrow> string \<Rightarrow> string" where
  "replace_char a b s = map (\<lambda>c. if c = a then b else c) s"

fun contains_str :: "string \<Rightarrow> string \<Rightarrow> bool" where
  "contains_str [] sub = (sub = [])"
| "contains_str (x # xs) sub = (has_prefix (x # xs) sub \<or> contains_str xs sub)"

definition trim_prefix :: "string \<Rightarrow> string \<Rightarrow> string" where
  "trim_prefix s p = (if has_prefix s p then drop (length p) s else s)"

definition trim_suffix :: "string \<Rightarrow> string \<Rightarrow> string" where
  "trim_suffix s p = (if has_suffix s p then take (length s - length p) s else s)"

text \<open>\<open>Split\<close> with a non-empty separator: cut at each leftmost, non-overlapping occurrence.\<close>

function split_str_acc :: "string \<Rightarrow> string \<Rightarrow> string \<Rightarrow> string list" where
  "split_str_acc sep acc s =
     (if s = [] then [rev acc]
      else if sep \<noteq> [] \<and> has_prefix s sep then rev acc # split_str_acc sep [] (drop (length sep) s)
      else split_str_acc sep (hd s # acc) (tl s))"
  by pat_completeness auto
termination
  by (relation "measure (\<lambda>(sep, acc, s). length s)") auto

declare split_str_acc.simps [simp del]

definition split_str :: "string \<Rightarrow> string \<Rightarrow> string list" where
  "split_str s sep = split_str_acc sep [] s"

definition clean_step :: "bool \<Rightarrow> string list \<Rightarrow> string \<Rightarrow> string list" where
  "clean_step rooted st c =
     (if c = [] \<or> c = ''.'' then st
      else if c = ''..'' then
        (if st \<noteq> [] \<and> last st \<noteq> ''..'' then butlast st else if rooted then st else st @ [c])
      else st @ [c])"

definition path_clean :: "string \<Rightarrow> string" where
  "path_clean s =
     (if s = [] then ''.''
      else
        let rooted = (hd s = CHR ''/'');
            out = join_str ''/'' (foldl (clean_step rooted) [] (split_char (CHR ''/'') s))
        in if rooted then CHR ''/'' # out else if out = [] then ''.'' else out)"

definition path_join :: "string list \<Rightarrow> string" where
  "path_join elems =
     (case dropWhile (\<lambda>e. e = []) elems of [] \<Rightarrow> [] | es \<Rightarrow> path_clean (join_str ''/'' es))"

definition path_base :: "string \<Rightarrow> string" where
  "path_base s =
     (if s = [] then ''.''
      else
        let stripped = rev (dropWhile (\<lambda>c. c = CHR ''/'') (rev s));
            b = last (split_char (CHR ''/'') stripped)
        in if b = [] then ''/'' else b)"

text \<open>\<open>path.Split\<close>: the directory up to and including the last slash, and the rest.\<close>

definition path_split :: "string \<Rightarrow> string \<times> string" where
  "path_split s =
     (let file = last (split_char (CHR ''/'') s) in (take (length s - length file) s, file))"

subsection \<open>Splitting and joining\<close>

lemma split_char_ne [simp]: "split_char c s \<noteq> []"
  by (induction s) (auto split: list.split)

lemma split_char_no_sep: "c \<notin> set s \<Longrightarrow> split_char c s = [s]"
  by (induction s) auto

lemma split_char_append: "c \<notin> set s \<Longrightarrow> split_char c (s @ c # t) = s # split_char c t"
  by (induction s) auto

lemma split_join:
  "xs \<noteq> [] \<Longrightarrow> (\<forall>x \<in> set xs. c \<notin> set x) \<Longrightarrow> split_char c (join_str [c] xs) = xs"
proof (induction xs)
  case (Cons x xs)
  then show ?case by (cases xs) (simp_all add: split_char_no_sep split_char_append)
qed simp

lemma join_str_append:
  "xs \<noteq> [] \<Longrightarrow> ys \<noteq> [] \<Longrightarrow> join_str sep (xs @ ys) = join_str sep xs @ sep @ join_str sep ys"
proof (induction xs)
  case (Cons x xs)
  then show ?case by (cases xs; cases ys) auto
qed simp

lemma join_str_Nil: "(\<forall>x \<in> set xs. x \<noteq> []) \<Longrightarrow> join_str sep xs = [] \<longleftrightarrow> xs = []"
  by (cases xs; cases "tl xs") auto

lemma hd_join_str: "xs \<noteq> [] \<Longrightarrow> hd xs \<noteq> [] \<Longrightarrow> hd (join_str sep xs) = hd (hd xs)"
  by (cases xs; cases "tl xs") auto

lemma replace_char_inverse: "b \<notin> set s \<Longrightarrow> replace_char b a (replace_char a b s) = s"
  by (induction s) (auto simp: replace_char_def)

lemma replace_char_no [simp]: "a \<noteq> b \<Longrightarrow> a \<notin> set (replace_char a b s)"
  by (auto simp: replace_char_def)

lemma replace_char_Nil [simp]: "replace_char a b s = [] \<longleftrightarrow> s = []"
  by (simp add: replace_char_def)

lemma has_suffix_append [simp]: "has_suffix (s @ t) t"
  by (simp add: has_suffix_def has_prefix_def)

lemma has_prefix_append [simp]: "has_prefix (s @ t) s"
  by (simp add: has_prefix_def)

lemma trim_suffix_append [simp]: "trim_suffix (s @ t) t = s"
  by (simp add: trim_suffix_def)

lemma trim_prefix_append [simp]: "trim_prefix (s @ t) s = t"
  by (simp add: trim_prefix_def)

lemma has_prefix_self [simp]: "has_prefix s s"
  by (simp add: has_prefix_def)

lemma contains_suffix: "contains_str (drop n s) sub \<Longrightarrow> contains_str s sub"
proof (induction n arbitrary: s)
  case (Suc n)
  then show ?case by (cases s) auto
qed simp

lemma split_str_acc_no:
  "sep \<noteq> [] \<Longrightarrow> \<not> contains_str s sep \<Longrightarrow> split_str_acc sep acc s = [rev acc @ s]"
proof (induction s arbitrary: acc)
  case Nil
  then show ?case by (subst split_str_acc.simps) simp
next
  case (Cons x xs)
  then show ?case by (subst split_str_acc.simps) simp
qed

lemma split_str_prefix:
  "sep \<noteq> [] \<Longrightarrow> \<not> contains_str s sep \<Longrightarrow> split_str (sep @ s) sep = [[], s]"
  by (simp add: split_str_def split_str_acc.simps [of sep "[]" "sep @ s"] split_str_acc_no)

subsection \<open>Clean paths\<close>

text \<open>A component that survives \<open>Clean\<close>: not empty, not a dot name, no slash.\<close>

definition plain_component :: "string \<Rightarrow> bool" where
  "plain_component c \<longleftrightarrow> c \<noteq> [] \<and> c \<noteq> ''.'' \<and> c \<noteq> ''..'' \<and> CHR ''/'' \<notin> set c"

lemma foldl_clean_plain:
  "(\<forall>c \<in> set cs. plain_component c) \<Longrightarrow> foldl (clean_step r) st cs = st @ cs"
  by (induction cs arbitrary: st) (auto simp: clean_step_def plain_component_def)

lemma join_plain_ne: "cs \<noteq> [] \<Longrightarrow> (\<forall>c \<in> set cs. plain_component c) \<Longrightarrow> join_str sep cs \<noteq> []"
  by (subst join_str_Nil) (auto simp: plain_component_def)

lemma path_clean_plain:
  assumes "cs \<noteq> []" "\<forall>c \<in> set cs. plain_component c"
  shows "path_clean (join_str ''/'' cs) = join_str ''/'' cs"
proof -
  have "hd cs \<noteq> []" "CHR ''/'' \<notin> set (hd cs)" using assms by (auto simp: plain_component_def)
  then have "hd (join_str ''/'' cs) \<noteq> CHR ''/''" using hd_join_str [OF assms(1), of "''/''"] hd_in_set by metis
  moreover have "split_char (CHR ''/'') (join_str ''/'' cs) = cs"
    using assms by (intro split_join) (auto simp: plain_component_def)
  moreover have "join_str ''/'' cs \<noteq> []" using assms by (rule join_plain_ne)
  ultimately show ?thesis using assms(2) by (simp add: path_clean_def foldl_clean_plain)
qed

lemma path_join_plain:
  assumes "\<forall>c \<in> set cs. plain_component c"
  shows "path_join cs = join_str ''/'' cs"
proof (cases cs)
  case (Cons c cs')
  then have "dropWhile (\<lambda>e. e = []) cs = cs" using assms by (auto simp: plain_component_def)
  then show ?thesis using path_clean_plain [of cs] assms Cons by (simp add: path_join_def)
qed (simp add: path_join_def)

lemma split_char_snoc: "\<exists>ys. ys \<noteq> [] \<and> split_char c (s @ c # t) = ys @ split_char c t"
proof (induction s)
  case (Cons x s)
  then obtain y ys where "split_char c (s @ c # t) = (y # ys) @ split_char c t" by (metis neq_Nil_conv)
  then have "split_char c ((x # s) @ c # t) = (if x = c then [] # y # ys else (x # y) # ys) @ split_char c t"
    by simp
  then show ?case by (metis list.distinct(1))
qed simp

lemma last_split_char: "last (split_char c (s @ c # t)) = last (split_char c t)"
  using split_char_snoc [of c s t] by auto

lemma path_base_slash:
  assumes "t \<noteq> []" "CHR ''/'' \<notin> set t"
  shows "path_base (s @ CHR ''/'' # t) = t"
proof -
  have "rev t \<noteq> [] \<and> hd (rev t) \<noteq> CHR ''/''" using assms by (metis hd_in_set rev_is_Nil_conv set_rev)
  then have "dropWhile (\<lambda>c. c = CHR ''/'') (rev t @ CHR ''/'' # rev s) = rev t @ CHR ''/'' # rev s"
    by (cases "rev t") auto
  with assms show ?thesis by (simp add: path_base_def last_split_char split_char_no_sep)
qed

end
