(* ===== verification/CgroupNames.thy ===== *)
theory CgroupNames
  imports GoStrings Pods
begin

section \<open>Cgroup names and their driver-specific forms\<close>

text \<open>
  \<open>CgroupName\<close> and its conversions in \<open>pkg/kubelet/cm/cgroup_manager_linux.go\<close>, and
  \<open>ExpandSlice\<close> of the vendored runc systemd driver.  A name is a list of components; the panic of
  \<open>NewCgroupName\<close> is a value.  The two drivers share the contract \<open>cgroup_naming\<close>: what the driver
  prints is read back.
\<close>

type_synonym cgroup_name = "string list"

definition RootCgroupName :: cgroup_name where
  "RootCgroupName = []"

definition NewCgroupName :: "cgroup_name \<Rightarrow> string list \<Rightarrow> go_panic + cgroup_name" where
  "NewCgroupName base components =
     (case find (\<lambda>c. contains_str c ''/'' \<or> contains_str c ''_'') components of
        Some c \<Rightarrow> Inl (ExplicitPanic c)
      | None \<Rightarrow> Inr (base @ components))"

definition escapeSystemdCgroupName :: "string \<Rightarrow> string" where
  "escapeSystemdCgroupName part = replace_char (CHR ''-'') (CHR ''_'') part"

definition unescapeSystemdCgroupName :: "string \<Rightarrow> string" where
  "unescapeSystemdCgroupName part = replace_char (CHR ''_'') (CHR ''-'') part"

definition systemdSuffix :: string where
  "systemdSuffix = ''.slice''"

text \<open>The loop of \<open>ExpandSlice\<close> over the components of the slice name.\<close>

fun expand_loop :: "string \<Rightarrow> string \<Rightarrow> string list \<Rightarrow> string option" where
  "expand_loop path prefix [] = Some path"
| "expand_loop path prefix (c # cs) =
     (if c = [] then None
      else expand_loop (path @ ''/'' @ prefix @ c @ systemdSuffix) (prefix @ c @ ''-'') cs)"

definition ExpandSlice :: "string \<Rightarrow> string option" where
  "ExpandSlice slice =
     (if length slice < length systemdSuffix \<or> \<not> has_suffix slice systemdSuffix then None
      else if contains_str slice ''/'' then None
      else
        let sliceName = trim_suffix slice systemdSuffix in
        if sliceName = ''-'' then Some ''/''
        else expand_loop [] [] (split_char (CHR ''-'') sliceName))"

definition ToSystemd :: "cgroup_name \<Rightarrow> go_panic + string" where
  "ToSystemd name =
     (if name = [] \<or> name = [[]] then Inr ''/''
      else case ExpandSlice (join_str ''-'' (map escapeSystemdCgroupName name) @ systemdSuffix) of
        None \<Rightarrow> Inl (ExplicitPanic ''error converting cgroup name to systemd format'')
      | Some r \<Rightarrow> Inr r)"

definition ParseSystemdToCgroupName :: "string \<Rightarrow> cgroup_name" where
  "ParseSystemdToCgroupName name =
     map unescapeSystemdCgroupName (split_char (CHR ''-'') (trim_suffix (path_base name) systemdSuffix))"

definition ToCgroupfs :: "cgroup_name \<Rightarrow> string" where
  "ToCgroupfs name = CHR ''/'' # path_join name"

definition ParseCgroupfsToCgroupName :: "string \<Rightarrow> cgroup_name" where
  "ParseCgroupfsToCgroupName name =
     (let components = split_char (CHR ''/'') (trim_prefix name ''/'')
      in if components = [[]] then [] else components)"

definition IsSystemdStyleName :: "string \<Rightarrow> bool" where
  "IsSystemdStyleName name = has_suffix name systemdSuffix"

subsection \<open>The contract of a driver's naming\<close>

locale cgroup_naming =
  fixes to_path :: "cgroup_name \<Rightarrow> string"
    and of_path :: "string \<Rightarrow> cgroup_name"
    and valid :: "cgroup_name \<Rightarrow> bool"
  assumes of_to: "valid n \<Longrightarrow> of_path (to_path n) = n"
begin

lemma to_path_inj: "valid m \<Longrightarrow> valid n \<Longrightarrow> to_path m = to_path n \<longleftrightarrow> m = n"
  using of_to by metis

lemma last_of_to: "valid (n @ [c]) \<Longrightarrow> last (of_path (to_path (n @ [c]))) = c"
  by (simp add: of_to)

lemma length_of_to: "valid n \<Longrightarrow> length (of_path (to_path n)) = length n"
  by (simp add: of_to)

end

definition valid_cgroupfs :: "cgroup_name \<Rightarrow> bool" where
  "valid_cgroupfs n \<longleftrightarrow> (\<forall>c \<in> set n. plain_component c)"

definition valid_systemd :: "cgroup_name \<Rightarrow> bool" where
  "valid_systemd n \<longleftrightarrow> n \<noteq> [] \<and> (\<forall>c \<in> set n. c \<noteq> [] \<and> CHR ''/'' \<notin> set c \<and> CHR ''_'' \<notin> set c)"

subsection \<open>The cgroupfs driver\<close>

lemma ToCgroupfs_plain: "valid_cgroupfs n \<Longrightarrow> ToCgroupfs n = CHR ''/'' # join_str ''/'' n"
  by (simp add: ToCgroupfs_def valid_cgroupfs_def path_join_plain)

lemma trim_prefix_Cons [simp]: "trim_prefix (c # s) [c] = s"
  by (simp add: trim_prefix_def has_prefix_def)

lemma ParseCgroupfs_ToCgroupfs:
  assumes "valid_cgroupfs n"
  shows "ParseCgroupfsToCgroupName (ToCgroupfs n) = n"
proof (cases n)
  case Nil
  then show ?thesis by (simp add: ToCgroupfs_def ParseCgroupfsToCgroupName_def path_join_def)
next
  case (Cons c cs)
  then have "split_char (CHR ''/'') (join_str ''/'' n) = n" "n \<noteq> [[]]"
    using assms split_join [of n "CHR ''/''"] by (auto simp: valid_cgroupfs_def plain_component_def)
  then show ?thesis
    using ToCgroupfs_plain [OF assms] by (simp add: ParseCgroupfsToCgroupName_def)
qed

interpretation cgroupfs_driver: cgroup_naming ToCgroupfs ParseCgroupfsToCgroupName valid_cgroupfs
  by unfold_locales (rule ParseCgroupfs_ToCgroupfs)

subsection \<open>The systemd driver\<close>

lemma contains_char [simp]: "contains_str s [c] \<longleftrightarrow> c \<in> set s"
  by (induction s) (auto simp: has_prefix_def)

lemma expand_loop_path:
  "(\<forall>c \<in> set cs. c \<noteq> []) \<Longrightarrow> cs \<noteq> [] \<Longrightarrow>
     \<exists>dir. expand_loop path prefix cs = Some (dir @ ''/'' @ prefix @ join_str ''-'' cs @ systemdSuffix)"
proof (induction cs arbitrary: path prefix)
  case (Cons c cs)
  show ?case
  proof (cases cs)
    case Nil
    then show ?thesis using Cons.prems by simp
  next
    case (Cons d ds)
    with Cons.IH [of "path @ ''/'' @ prefix @ c @ systemdSuffix" "prefix @ c @ ''-''"] Cons.prems
    show ?thesis by simp
  qed
qed simp

lemma valid_systemd_escaped:
  assumes "valid_systemd n"
  shows "\<forall>c \<in> set (map escapeSystemdCgroupName n). c \<noteq> [] \<and> CHR ''/'' \<notin> set c \<and> CHR ''-'' \<notin> set c"
  using assms by (auto simp: valid_systemd_def escapeSystemdCgroupName_def replace_char_def split: if_splits)

lemma set_join_str: "set (join_str sep cs) \<subseteq> (\<Union>c \<in> set cs. set c) \<union> set sep"
proof (induction cs)
  case (Cons c cs)
  then show ?case by (cases cs) auto
qed simp

lemma ToSystemd_path:
  assumes "valid_systemd n"
  shows "\<exists>dir. ToSystemd n = Inr (dir @ ''/'' @ join_str ''-'' (map escapeSystemdCgroupName n) @ systemdSuffix)"
proof -
  let ?es = "map escapeSystemdCgroupName n" and ?j = "join_str ''-'' (map escapeSystemdCgroupName n)"
  have es: "\<forall>c \<in> set ?es. c \<noteq> [] \<and> CHR ''/'' \<notin> set c \<and> CHR ''-'' \<notin> set c" "?es \<noteq> []"
    using valid_systemd_escaped [OF assms] assms by (auto simp: valid_systemd_def)
  have sp: "split_char (CHR ''-'') ?j = ?es" using es by (intro split_join) auto
  have "CHR ''/'' \<notin> set ?j" using set_join_str [of "''-''" ?es] es by auto
  then have ns: "CHR ''/'' \<notin> set (?j @ systemdSuffix)" by (simp add: systemdSuffix_def)
  have "?j \<noteq> ''-''"
  proof
    assume "?j = ''-''"
    with sp have "?es = [[], []]" by simp
    with es show False by auto
  qed
  then have "ExpandSlice (?j @ systemdSuffix) = expand_loop [] [] ?es"
    using ns sp by (simp add: ExpandSlice_def)
  moreover have "n \<noteq> []" "n \<noteq> [[]]" using assms by (auto simp: valid_systemd_def)
  ultimately show ?thesis
    using expand_loop_path [of ?es "[]" "[]"] es by (auto simp: ToSystemd_def)
qed

definition systemd_path :: "cgroup_name \<Rightarrow> string" where
  "systemd_path n = (case ToSystemd n of Inr s \<Rightarrow> s | Inl _ \<Rightarrow> [])"

lemma ParseSystemd_ToSystemd:
  assumes "valid_systemd n"
  shows "ParseSystemdToCgroupName (systemd_path n) = n"
proof -
  let ?es = "map escapeSystemdCgroupName n" and ?j = "join_str ''-'' (map escapeSystemdCgroupName n)"
  have es: "\<forall>c \<in> set ?es. c \<noteq> [] \<and> CHR ''/'' \<notin> set c \<and> CHR ''-'' \<notin> set c" "?es \<noteq> []"
    using valid_systemd_escaped [OF assms] assms by (auto simp: valid_systemd_def)
  obtain dir where p: "systemd_path n = dir @ CHR ''/'' # (?j @ systemdSuffix)"
    using ToSystemd_path [OF assms] by (auto simp: systemd_path_def)
  have "CHR ''/'' \<notin> set (?j @ systemdSuffix)"
    using set_join_str [of "''-''" ?es] es by (auto simp: systemdSuffix_def)
  then have "path_base (systemd_path n) = ?j @ systemdSuffix"
    unfolding p by (intro path_base_slash) (simp_all add: systemdSuffix_def)
  moreover have "split_char (CHR ''-'') ?j = ?es" using es by (intro split_join) auto
  ultimately have "ParseSystemdToCgroupName (systemd_path n) = map (unescapeSystemdCgroupName \<circ> escapeSystemdCgroupName) n"
    by (simp add: ParseSystemdToCgroupName_def)
  also have "\<dots> = n"
    using assms by (intro map_idI) (simp add: valid_systemd_def unescapeSystemdCgroupName_def
        escapeSystemdCgroupName_def replace_char_inverse)
  finally show ?thesis .
qed

interpretation systemd_driver: cgroup_naming systemd_path ParseSystemdToCgroupName valid_systemd
  by unfold_locales (rule ParseSystemd_ToSystemd)

end
