(* ===== verification/PodResources.thy ===== *)
theory PodResources
  imports Pods
begin

section \<open>Resource sums, QoS class and cgroup parameters of a pod\<close>

text \<open>
  \<open>pkg/api/v1/resource/helpers.go\<close> (sums over containers, maxima over init containers,
  overhead), \<open>pkg/apis/core/v1/helper/qos/qos.go\<close> (the QoS class) and
  \<open>pkg/kubelet/cm/helpers_linux.go\<close> (the cgroup parameters of a pod).  The feature gates
  \<open>PodOverhead\<close>, \<open>CPUCFSQuotaPeriod\<close> and \<open>LocalStorageCapacityIsolation\<close> are arguments.
\<close>

subsection \<open>Resource lists\<close>

definition addResourceList :: "resource_list \<Rightarrow> resource_list \<Rightarrow> resource_list" where
  "addResourceList l newList =
     foldl (\<lambda>l (name, q). case map_of l name of
               None \<Rightarrow> AList.update name q l
             | Some v \<Rightarrow> AList.update name (q_Add v q) l) l newList"

definition maxResourceList :: "resource_list \<Rightarrow> resource_list \<Rightarrow> resource_list" where
  "maxResourceList l newList =
     foldl (\<lambda>l (name, q). case map_of l name of
               None \<Rightarrow> AList.update name q l
             | Some v \<Rightarrow> if 0 < fst (q_Cmp q v) then AList.update name q l else l) l newList"

definition addOverheadToLimits :: "resource_list \<Rightarrow> resource_list \<Rightarrow> resource_list" where
  "addOverheadToLimits limits overhead =
     foldl (\<lambda>l (name, q). case map_of l name of
               None \<Rightarrow> l
             | Some v \<Rightarrow> if \<not> q_IsZero v then AList.update name (q_Add v q) l else l) limits overhead"

definition PodRequestsAndLimits :: "bool \<Rightarrow> pod \<Rightarrow> resource_list \<times> resource_list" where
  "PodRequestsAndLimits overheadGate pod =
     (let reqs0 = foldl (\<lambda>l c. addResourceList l (c_Requests c)) [] (p_Containers pod);
          limits0 = foldl (\<lambda>l c. addResourceList l (c_Limits c)) [] (p_Containers pod);
          reqs1 = foldl (\<lambda>l c. maxResourceList l (c_Requests c)) reqs0 (p_InitContainers pod);
          limits1 = foldl (\<lambda>l c. maxResourceList l (c_Limits c)) limits0 (p_InitContainers pod)
      in case p_Overhead pod of
           None \<Rightarrow> (reqs1, limits1)
         | Some ov \<Rightarrow>
             if overheadGate then (addResourceList reqs1 ov, addOverheadToLimits limits1 ov)
             else (reqs1, limits1))"

text \<open>The two loops of \<open>GetResourceRequestQuantity\<close> and the format it starts with.\<close>

definition request_format :: "string \<Rightarrow> format" where
  "request_format r =
     (if r = ResourceCPU then DecimalSI
      else if r = ResourceMemory \<or> r = ''storage'' \<or> r = ResourceEphemeralStorage then BinarySI
      else DecimalSI)"

definition sum_requests :: "string \<Rightarrow> quantity \<Rightarrow> container list \<Rightarrow> quantity" where
  "sum_requests r =
     foldl (\<lambda>q c. case map_of (c_Requests c) r of None \<Rightarrow> q | Some rq \<Rightarrow> q_Add q rq)"

definition max_requests :: "string \<Rightarrow> quantity \<Rightarrow> container list \<Rightarrow> quantity" where
  "max_requests r =
     foldl (\<lambda>q c. case map_of (c_Requests c) r of
                    None \<Rightarrow> q
                  | Some rq \<Rightarrow> if fst (q_Cmp q rq) < 0 then rq else q)"

definition GetResourceRequestQuantity :: "bool \<Rightarrow> bool \<Rightarrow> pod \<Rightarrow> string \<Rightarrow> quantity" where
  "GetResourceRequestQuantity overheadGate storageGate pod r =
     (let q0 = zero_quantity\<lparr>q_Format := request_format r\<rparr> in
      if r = ResourceEphemeralStorage \<and> \<not> storageGate then q0
      else
        let q2 = max_requests r (sum_requests r q0 (p_Containers pod)) (p_InitContainers pod)
        in case p_Overhead pod of
             None \<Rightarrow> q2
           | Some ov \<Rightarrow>
               (case map_of ov r of
                  None \<Rightarrow> q2
                | Some o1 \<Rightarrow> if overheadGate \<and> \<not> q_IsZero q2 then q_Add q2 o1 else q2))"

definition GetResourceRequest :: "bool \<Rightarrow> bool \<Rightarrow> pod \<Rightarrow> string \<Rightarrow> int" where
  "GetResourceRequest overheadGate storageGate pod r =
     (if r = ResourcePods then 1
      else
        let q = GetResourceRequestQuantity overheadGate storageGate pod r in
        if r = ResourceCPU then q_MilliValue q else q_Value q)"

subsection \<open>QoS class\<close>

datatype qos_class = PodQOSGuaranteed | PodQOSBurstable | PodQOSBestEffort

definition isSupportedQoSComputeResource :: "string \<Rightarrow> bool" where
  "isSupportedQoSComputeResource name \<longleftrightarrow> name = ResourceCPU \<or> name = ResourceMemory"

definition qos_zero :: quantity where
  "qos_zero = zero_quantity\<lparr>q_s := ''0'', q_Format := DecimalSI\<rparr>"

text \<open>One iteration of the inner loops: accumulate a positive quantity of a supported resource.\<close>

definition qos_accumulate :: "resource_list \<Rightarrow> string \<times> quantity \<Rightarrow> resource_list" where
  "qos_accumulate acc nq =
     (case nq of (name, q) \<Rightarrow>
        if \<not> isSupportedQoSComputeResource name then acc
        else if fst (q_Cmp q qos_zero) = 1 then
          (case map_of acc name of
             None \<Rightarrow> AList.update name q acc
           | Some v \<Rightarrow> AList.update name (q_Add q v) acc)
        else acc)"

definition qos_limits_found :: "resource_list \<Rightarrow> string list" where
  "qos_limits_found l =
     map fst (filter (\<lambda>(name, q). isSupportedQoSComputeResource name \<and> fst (q_Cmp q qos_zero) = 1) l)"

definition GetPodQOS :: "pod \<Rightarrow> qos_class" where
  "GetPodQOS pod =
     (let cs = p_Containers pod @ p_InitContainers pod;
          requests = foldl (\<lambda>acc c. foldl qos_accumulate acc (c_Requests c)) [] cs;
          limits = foldl (\<lambda>acc c. foldl qos_accumulate acc (c_Limits c)) [] cs;
          guaranteed0 = list_all (\<lambda>c. ResourceMemory \<in> set (qos_limits_found (c_Limits c)) \<and>
                                      ResourceCPU \<in> set (qos_limits_found (c_Limits c))) cs
      in
      if requests = [] \<and> limits = [] then PodQOSBestEffort
      else
        let guaranteed =
          (guaranteed0 \<and> list_all (\<lambda>(name, req). case map_of limits name of
                                                   None \<Rightarrow> False
                                                 | Some lm \<Rightarrow> fst (q_Cmp lm req) = 0) requests)
        in if guaranteed \<and> length requests = length limits then PodQOSGuaranteed else PodQOSBurstable)"

subsection \<open>Cgroup parameters\<close>

definition MinShares :: int where "MinShares = 2"
definition SharesPerCPU :: int where "SharesPerCPU = 1024"
definition MilliCPUToCPU :: int where "MilliCPUToCPU = 1000"
definition QuotaPeriod :: int where "QuotaPeriod = 100000"
definition MinQuotaPeriod :: int where "MinQuotaPeriod = 1000"

definition MilliCPUToQuota :: "bool \<Rightarrow> int \<Rightarrow> int \<Rightarrow> int" where
  "MilliCPUToQuota periodGate milliCPU period0 =
     (if milliCPU = 0 then 0
      else
        let period = (if periodGate then period0 else QuotaPeriod);
            quota = wrap64 (milliCPU * period) sdiv MilliCPUToCPU
        in if quota < MinQuotaPeriod then MinQuotaPeriod else quota)"

definition MilliCPUToShares :: "int \<Rightarrow> int" where
  "MilliCPUToShares milliCPU =
     (if milliCPU = 0 then MinShares
      else
        let shares = wrap64 (milliCPU * SharesPerCPU) sdiv MilliCPUToCPU
        in if shares < MinShares then MinShares else shares)"

definition hugepages_prefix :: string where
  "hugepages_prefix = ''hugepages-''"

text \<open>The page size named by a huge-page resource; a name that does not parse gives the zero quantity.\<close>

definition HugePageSizeFromResourceName :: "string \<Rightarrow> quantity" where
  "HugePageSizeFromResourceName name =
     (case ParseQuantity (drop (length hugepages_prefix) name) of Inr q \<Rightarrow> q | Inl _ \<Rightarrow> zero_quantity)"

definition HugePageLimits :: "resource_list \<Rightarrow> (int \<times> int) list" where
  "HugePageLimits l =
     foldl (\<lambda>acc (k, v).
        if has_prefix k hugepages_prefix then
          (let ps = q_Value (HugePageSizeFromResourceName k) in
           case map_of acc ps of
             Some x \<Rightarrow> AList.update ps (wrap64 (x + q_Value v)) acc
           | None \<Rightarrow> AList.update ps (q_Value v) acc)
        else acc) [] l"

record resource_config =
  rc_Memory :: "int option"
  rc_CpuShares :: "int option"
  rc_CpuQuota :: "int option"
  rc_CpuPeriod :: "int option"
  rc_HugePageLimit :: "(int \<times> int) list"
  rc_PidsLimit :: "int option"

definition empty_resource_config :: resource_config where
  "empty_resource_config =
     \<lparr>rc_Memory = None, rc_CpuShares = None, rc_CpuQuota = None, rc_CpuPeriod = None,
      rc_HugePageLimit = [], rc_PidsLimit = None\<rparr>"

definition add_hugepages :: "(int \<times> int) list \<Rightarrow> (int \<times> int) list \<Rightarrow> (int \<times> int) list" where
  "add_hugepages acc new =
     foldl (\<lambda>acc (k, v). case map_of acc k of
               Some x \<Rightarrow> AList.update k (wrap64 (x + v)) acc
             | None \<Rightarrow> AList.update k v acc) acc new"

definition ResourceConfigForPod :: "bool \<Rightarrow> bool \<Rightarrow> pod \<Rightarrow> bool \<Rightarrow> int \<Rightarrow> resource_config" where
  "ResourceConfigForPod overheadGate periodGate pod enforceCPULimits cpuPeriod =
     (let (reqs, limits) = PodRequestsAndLimits overheadGate pod;
          cpuRequests = (case map_of reqs ResourceCPU of Some q \<Rightarrow> q_MilliValue q | None \<Rightarrow> 0);
          cpuLimits = (case map_of limits ResourceCPU of Some q \<Rightarrow> q_MilliValue q | None \<Rightarrow> 0);
          memoryLimits = (case map_of limits ResourceMemory of Some q \<Rightarrow> q_Value q | None \<Rightarrow> 0);
          cpuShares = MilliCPUToShares cpuRequests;
          cpuQuota0 = MilliCPUToQuota periodGate cpuLimits cpuPeriod;
          cpuLimitsDeclared = list_all (\<lambda>c. \<not> q_IsZero (rl_index (c_Limits c) ResourceCPU)) (p_Containers pod);
          memoryLimitsDeclared = list_all (\<lambda>c. \<not> q_IsZero (rl_index (c_Limits c) ResourceMemory)) (p_Containers pod);
          hugePageLimits = foldl (\<lambda>acc c. add_hugepages acc (HugePageLimits (c_Requests c))) [] (p_Containers pod);
          cpuQuota = (if \<not> enforceCPULimits then -1 else cpuQuota0);
          base = empty_resource_config\<lparr>rc_HugePageLimit := hugePageLimits\<rparr>
      in case GetPodQOS pod of
           PodQOSGuaranteed \<Rightarrow>
             base\<lparr>rc_CpuShares := Some cpuShares, rc_CpuQuota := Some cpuQuota,
                  rc_CpuPeriod := Some cpuPeriod, rc_Memory := Some memoryLimits\<rparr>
         | PodQOSBurstable \<Rightarrow>
             base\<lparr>rc_CpuShares := Some cpuShares,
                  rc_CpuQuota := (if cpuLimitsDeclared then Some cpuQuota else None),
                  rc_CpuPeriod := (if cpuLimitsDeclared then Some cpuPeriod else None),
                  rc_Memory := (if memoryLimitsDeclared then Some memoryLimits else None)\<rparr>
         | PodQOSBestEffort \<Rightarrow> base\<lparr>rc_CpuShares := Some MinShares\<rparr>)"

subsection \<open>Sums and maxima of resource lists\<close>

lemma addResourceList_spec:
  "rl_ok l \<Longrightarrow> rl_ok new \<Longrightarrow>
     rl_ok (addResourceList l new) \<and> (\<forall>r. rl_val (addResourceList l new) r = rl_val l r + rl_val new r)
     \<and> dom (map_of (addResourceList l new)) = dom (map_of l) \<union> dom (map_of new)"
proof (induction new arbitrary: l)
  case (Cons kq new)
  obtain k q where kq: "kq = (k, q)" by force
  define l' where "l' = (case map_of l k of None \<Rightarrow> AList.update k q l | Some v \<Rightarrow> AList.update k (q_Add v q) l)"
  have kn: "q_ok q" "map_of new k = None" "rl_ok new" using Cons.prems(2) by (simp_all add: kq rl_ok_Cons)
  have l': "rl_ok l'" "rl_val l' r = rl_val l r + (if r = k then q_val q else 0)"
    "dom (map_of l') = insert k (dom (map_of l))" for r
  proof -
    show "rl_ok l'" using Cons.prems(1) kn(1)
      by (simp add: l'_def rl_ok_update rl_ok_lookup [OF Cons.prems(1)] q_Add_spec split: option.split)
    show "rl_val l' r = rl_val l r + (if r = k then q_val q else 0)"
    proof (cases "map_of l k")
      case None
      then show ?thesis by (simp add: l'_def rl_val_def)
    next
      case (Some v)
      then have "q_ok v" using Cons.prems(1) by (simp add: rl_ok_lookup)
      with Some kn q_Add_spec [of v q] show ?thesis by (simp add: l'_def rl_val_update rl_val_def)
    qed
    show "dom (map_of l') = insert k (dom (map_of l))" by (simp add: l'_def split: option.split)
  qed
  have step: "addResourceList l (kq # new) = addResourceList l' new"
    by (simp add: addResourceList_def kq l'_def)
  have "rl_val (kq # new) r = (if r = k then q_val q else 0) + rl_val new r" for r
    using kn(2) by (simp add: rl_val_def kq)
  moreover have "dom (map_of (kq # new)) = insert k (dom (map_of new))" by (simp add: kq)
  ultimately show ?case using Cons.IH [OF l'(1) kn(3)] l' step by (simp del: map_of.simps)
qed (simp add: addResourceList_def)

lemma maxResourceList_spec:
  "rl_ok l \<Longrightarrow> rl_ok new \<Longrightarrow> rl_nonneg l \<Longrightarrow> rl_nonneg new \<Longrightarrow>
     rl_ok (maxResourceList l new) \<and> rl_nonneg (maxResourceList l new)
     \<and> (\<forall>r. rl_val (maxResourceList l new) r = max (rl_val l r) (rl_val new r))"
proof (induction new arbitrary: l)
  case Nil
  then show ?case by (simp add: maxResourceList_def rl_nonneg_val max_absorb1)
next
  case (Cons kq new)
  obtain k q where kq: "kq = (k, q)" by force
  define l' where "l' = (case map_of l k of None \<Rightarrow> AList.update k q l
    | Some v \<Rightarrow> if 0 < fst (q_Cmp q v) then AList.update k q l else l)"
  have kn: "q_ok q" "map_of new k = None" "rl_ok new" "rl_nonneg new" "0 \<le> q_val q"
    using Cons.prems(2,4) by (simp_all add: kq rl_ok_Cons rl_nonneg_def)
  have nn: "rl_nonneg (AList.update k q l)"
  proof -
    have "snd ` set (AList.update k q l) \<subseteq> insert q (snd ` set l)"
      by (induction l) (auto split: if_splits)
    with Cons.prems(3) kn(5) show ?thesis unfolding rl_nonneg_def by blast
  qed
  have l': "rl_ok l'" "rl_nonneg l'" "rl_val l' r = (if r = k then max (rl_val l k) (q_val q) else rl_val l r)" for r
  proof -
    show "rl_ok l'" "rl_nonneg l'" using Cons.prems(1,3) kn nn
      by (auto simp: l'_def rl_ok_update split: option.split)
    show "rl_val l' r = (if r = k then max (rl_val l k) (q_val q) else rl_val l r)"
      using kn(5) by (auto simp: l'_def rl_val_def q_Cmp_spec split: option.split)
  qed
  have step: "maxResourceList l (kq # new) = maxResourceList l' new"
    by (simp add: maxResourceList_def kq l'_def)
  have "rl_val (kq # new) r = (if r = k then q_val q else rl_val new r)" "rl_val new k = 0" for r
    using kn(2) by (simp_all add: rl_val_def kq)
  moreover have "0 \<le> rl_val l' k" using l'(2) by (rule rl_nonneg_val)
  ultimately show ?case using Cons.IH [OF l'(1) kn(3) l'(2) kn(4)] l' step
    by (auto simp: max_absorb1)
qed

text \<open>A pod whose resource lists are maps of in-range, non-negative quantities.\<close>

definition pod_lists_ok :: "pod \<Rightarrow> bool" where
  "pod_lists_ok p \<longleftrightarrow>
     (\<forall>c \<in> set (p_Containers p @ p_InitContainers p).
        rl_ok (c_Requests c) \<and> rl_nonneg (c_Requests c) \<and> rl_ok (c_Limits c) \<and> rl_nonneg (c_Limits c))
     \<and> (\<forall>ov. p_Overhead p = Some ov \<longrightarrow> rl_ok ov \<and> rl_nonneg ov)"

text \<open>The specification: the sum over containers, raised to each init container's request.\<close>

definition effective_request :: "pod \<Rightarrow> string \<Rightarrow> rat" where
  "effective_request p r =
     foldl (\<lambda>m c. max m (rl_val (c_Requests c) r)) (\<Sum>c\<leftarrow>p_Containers p. rl_val (c_Requests c) r) (p_InitContainers p)"

definition overhead_of :: "bool \<Rightarrow> pod \<Rightarrow> string \<Rightarrow> rat" where
  "overhead_of gate p r = (case p_Overhead p of Some ov \<Rightarrow> if gate then rl_val ov r else 0 | None \<Rightarrow> 0)"

lemma foldl_addResourceList:
  "rl_ok l \<Longrightarrow> (\<forall>x \<in> set xs. rl_ok (f x)) \<Longrightarrow>
     rl_ok (foldl (\<lambda>l c. addResourceList l (f c)) l xs)
     \<and> (\<forall>r. rl_val (foldl (\<lambda>l c. addResourceList l (f c)) l xs) r = rl_val l r + (\<Sum>c\<leftarrow>xs. rl_val (f c) r))"
  by (induction xs arbitrary: l) (auto simp: addResourceList_spec)

lemma foldl_maxResourceList:
  "rl_ok l \<Longrightarrow> rl_nonneg l \<Longrightarrow> (\<forall>x \<in> set xs. rl_ok (f x) \<and> rl_nonneg (f x)) \<Longrightarrow>
     rl_ok (foldl (\<lambda>l c. maxResourceList l (f c)) l xs)
     \<and> (\<forall>r. rl_val (foldl (\<lambda>l c. maxResourceList l (f c)) l xs) r
            = foldl (\<lambda>m c. max m (rl_val (f c) r)) (rl_val l r) xs)"
  by (induction xs arbitrary: l) (auto simp: maxResourceList_spec)

lemma rl_nonneg_iff_val: "rl_ok l \<Longrightarrow> rl_nonneg l \<longleftrightarrow> (\<forall>r. 0 \<le> rl_val l r)"
proof
  assume ok: "rl_ok l" and v: "\<forall>r. 0 \<le> rl_val l r"
  show "rl_nonneg l" unfolding rl_nonneg_def
  proof
    fix q assume "q \<in> snd ` set l"
    then obtain k where "(k, q) \<in> set l" by auto
    with ok have "map_of l k = Some q" by (simp add: rl_ok_def map_of_eq_Some_iff)
    then have "rl_val l k = q_val q" by (simp add: rl_val_def)
    with v show "0 \<le> q_val q" by metis
  qed
qed (simp add: rl_nonneg_val)

lemma foldl_add_nonneg:
  "(\<forall>x \<in> set xs. rl_ok (f x) \<and> rl_nonneg (f x)) \<Longrightarrow>
     rl_nonneg (foldl (\<lambda>l c. addResourceList l (f c)) [] xs)"
proof -
  assume a: "\<forall>x \<in> set xs. rl_ok (f x) \<and> rl_nonneg (f x)"
  then have "0 \<le> (\<Sum>c\<leftarrow>xs. rl_val (f c) r)" for r
    by (intro sum_list_nonneg) (auto simp: rl_nonneg_val)
  with a foldl_addResourceList [of "[]" xs f] show ?thesis by (simp add: rl_nonneg_iff_val)
qed

lemma PodRequests_value:
  assumes "pod_lists_ok p"
  shows "rl_val (fst (PodRequestsAndLimits g p)) r = effective_request p r + overhead_of g p r"
    and "rl_ok (fst (PodRequestsAndLimits g p))"
proof -
  let ?r0 = "foldl (\<lambda>l c. addResourceList l (c_Requests c)) [] (p_Containers p)"
  let ?r1 = "foldl (\<lambda>l c. maxResourceList l (c_Requests c)) ?r0 (p_InitContainers p)"
  have r0: "rl_ok ?r0" "rl_nonneg ?r0" "rl_val ?r0 x = (\<Sum>c\<leftarrow>p_Containers p. rl_val (c_Requests c) x)" for x
    using assms foldl_addResourceList [of "[]" "p_Containers p" c_Requests]
      foldl_add_nonneg [of "p_Containers p" c_Requests] by (auto simp: pod_lists_ok_def)
  have r1: "rl_ok ?r1" "rl_val ?r1 x = effective_request p x" for x
    using assms foldl_maxResourceList [OF r0(1,2), of "p_InitContainers p" c_Requests] r0(3)
    by (auto simp: pod_lists_ok_def effective_request_def)
  show "rl_val (fst (PodRequestsAndLimits g p)) r = effective_request p r + overhead_of g p r"
    "rl_ok (fst (PodRequestsAndLimits g p))"
    using r1 addResourceList_spec [OF r1(1)] assms
    by (auto simp: PodRequestsAndLimits_def Let_def overhead_of_def pod_lists_ok_def split: option.split)
qed

text \<open>\<open>GetResourceRequestQuantity\<close> adds the overhead only to a request that is not zero.\<close>

lemma sum_requests_spec:
  "q_ok q \<Longrightarrow> (\<forall>c \<in> set cs. rl_ok (c_Requests c)) \<Longrightarrow>
     q_ok (sum_requests r q cs) \<and> q_val (sum_requests r q cs) = q_val q + (\<Sum>c\<leftarrow>cs. rl_val (c_Requests c) r)"
proof (induction cs arbitrary: q)
  case (Cons c cs)
  define q' where "q' = (case map_of (c_Requests c) r of None \<Rightarrow> q | Some rq \<Rightarrow> q_Add q rq)"
  have "q_ok q' \<and> q_val q' = q_val q + rl_val (c_Requests c) r"
    using Cons.prems q_Add_spec rl_ok_lookup by (auto simp: q'_def rl_val_def split: option.split)
  moreover have "sum_requests r q (c # cs) = sum_requests r q' cs" by (simp add: sum_requests_def q'_def)
  ultimately show ?case using Cons.IH [of q'] Cons.prems(2) by simp
qed (simp add: sum_requests_def)

lemma max_requests_spec:
  "q_ok q \<Longrightarrow> (\<forall>c \<in> set cs. rl_ok (c_Requests c)) \<Longrightarrow> 0 \<le> q_val q \<Longrightarrow>
     q_ok (max_requests r q cs)
     \<and> q_val (max_requests r q cs) = foldl (\<lambda>m c. max m (rl_val (c_Requests c) r)) (q_val q) cs"
proof (induction cs arbitrary: q)
  case (Cons c cs)
  define q' where "q' = (case map_of (c_Requests c) r of None \<Rightarrow> q
      | Some rq \<Rightarrow> if fst (q_Cmp q rq) < 0 then rq else q)"
  have "q_ok q' \<and> q_val q' = max (q_val q) (rl_val (c_Requests c) r)"
    using Cons.prems rl_ok_lookup by (auto simp: q'_def rl_val_def q_Cmp_spec max_def split: option.split)
  moreover have "max_requests r q (c # cs) = max_requests r q' cs" by (simp add: max_requests_def q'_def)
  ultimately show ?case using Cons.IH [of q'] Cons.prems by (simp add: max.coboundedI1)
qed (simp add: max_requests_def)

lemma GetResourceRequestQuantity_value:
  assumes ok: "pod_lists_ok p" and sg: "r \<noteq> ResourceEphemeralStorage \<or> sg"
  shows "q_val (GetResourceRequestQuantity g sg p r) =
    (if effective_request p r = 0 then 0 else effective_request p r + overhead_of g p r)"
proof -
  let ?q0 = "zero_quantity\<lparr>q_Format := request_format r\<rparr>"
  let ?q1 = "sum_requests r ?q0 (p_Containers p)"
  let ?q2 = "max_requests r ?q1 (p_InitContainers p)"
  have q1: "q_ok ?q1" "q_val ?q1 = (\<Sum>c\<leftarrow>p_Containers p. rl_val (c_Requests c) r)"
    using sum_requests_spec [of ?q0 "p_Containers p" r] ok by (auto simp: pod_lists_ok_def)
  have "0 \<le> (\<Sum>c\<leftarrow>p_Containers p. rl_val (c_Requests c) r)"
    using ok by (auto simp: pod_lists_ok_def rl_nonneg_val intro!: sum_list_nonneg)
  then have q2: "q_ok ?q2" "q_val ?q2 = effective_request p r"
    using max_requests_spec [OF q1(1), of "p_InitContainers p" r] q1(2) ok
    by (auto simp: pod_lists_ok_def effective_request_def)
  have def2: "GetResourceRequestQuantity g sg p r = (case p_Overhead p of None \<Rightarrow> ?q2
      | Some ov \<Rightarrow> (case map_of ov r of None \<Rightarrow> ?q2
          | Some o1 \<Rightarrow> if g \<and> \<not> q_IsZero ?q2 then q_Add ?q2 o1 else ?q2))"
  proof -
    have nr: "\<not> (r = ResourceEphemeralStorage \<and> \<not> sg)" using sg by blast
    show ?thesis by (simp only: GetResourceRequestQuantity_def Let_def nr if_False)
  qed
  show ?thesis
  proof (cases "p_Overhead p")
    case None
    then show ?thesis using q2 by (simp add: def2 overhead_of_def)
  next
    case (Some ov)
    then have "rl_ok ov" using ok by (simp add: pod_lists_ok_def)
    with Some q2 q_Add_spec [OF q2(1)] rl_ok_lookup show ?thesis
      by (auto simp: def2 overhead_of_def q_IsZero_val rl_val_def split: option.split)
  qed
qed

end
