(* ===== verification/CgroupManager.thy ===== *)
theory CgroupManager
  imports CgroupNames PodResources Necon
begin

section \<open>The cgroup manager\<close>

text \<open>
  \<open>cgroupManagerImpl\<close> in \<open>pkg/kubelet/cm/cgroup_manager_linux.go\<close>.  The cgroup file system is the
  set of existing directories and a journal of the resource settings written.  libcontainer (the
  vendored runc) is the parameter \<open>cgroup_lib\<close>: whether systemd runs, whether a subsystem accepts
  its settings, and what creating and removing the directories of a cgroup does.  Iterating over a
  Go map visits the entries in the order \<open>cl_order\<close> chooses.  A successful \<open>Update\<close> tells the
  network agent the path of the cpu cgroup.
\<close>

definition res_bind :: "'e + 'a \<Rightarrow> ('a \<Rightarrow> 'e + 'b) \<Rightarrow> 'e + 'b" where
  "res_bind r f = (case r of Inl e \<Rightarrow> Inl e | Inr x \<Rightarrow> f x)"

lemma res_bind_simps [simp]: "res_bind (Inl e) f = Inl e" "res_bind (Inr x) f = f x"
  by (simp_all add: res_bind_def)

lemma res_bind_Inr: "res_bind r f = Inr y \<longleftrightarrow> (\<exists>x. r = Inr x \<and> f x = Inr y)"
  by (cases r) simp_all

datatype cgroup_error = MissingSubsystem string | SetFailed string | ApplyFailed | DestroyFailed

record lc_resources =
  lr_Memory :: int
  lr_CpuShares :: int
  lr_CpuQuota :: int
  lr_CpuPeriod :: int
  lr_PidsLimit :: int
  lr_HugetlbLimit :: "(string \<times> int) list"

record lc_cgroup =
  lc_Path :: string
  lc_Parent :: string
  lc_Name :: string
  lc_Paths :: "(string \<times> string) list"
  lc_Resources :: lc_resources

record cgroup_fs =
  cf_dirs :: "string \<Rightarrow> bool"
  cf_settings :: "(string \<times> lc_resources) list"

record cgroup_lib =
  cl_UseSystemd :: bool
  cl_Set_ok :: "string \<Rightarrow> lc_cgroup \<Rightarrow> bool"
  cl_Apply :: "lc_cgroup \<Rightarrow> (string \<Rightarrow> bool) \<Rightarrow> bool \<times> (string \<Rightarrow> bool)"
  cl_Destroy :: "lc_cgroup \<Rightarrow> (string \<Rightarrow> bool) \<Rightarrow> bool \<times> (string \<Rightarrow> bool)"
  cl_order :: "(string \<times> bool) list \<Rightarrow> (string \<times> bool) list"
  cl_HugePageSizes :: "string list"

record cgroup_manager =
  cm_MountPoints :: "(string \<times> string) list"
  cm_systemd :: bool
  cm_podPidsGate :: bool
  cm_nodePidsGate :: bool

record cgroup_config =
  cc_Name :: cgroup_name
  cc_ResourceParameters :: resource_config

subsection \<open>Names and paths\<close>

definition cm_Name :: "cgroup_manager \<Rightarrow> cgroup_name \<Rightarrow> go_panic + string" where
  "cm_Name m name = (if cm_systemd m then ToSystemd name else Inr (ToCgroupfs name))"

definition cm_CgroupName :: "cgroup_manager \<Rightarrow> string \<Rightarrow> cgroup_name" where
  "cm_CgroupName m name = (if cm_systemd m then ParseSystemdToCgroupName name else ParseCgroupfsToCgroupName name)"

definition buildCgroupPaths :: "cgroup_manager \<Rightarrow> cgroup_name \<Rightarrow> go_panic + (string \<times> string) list" where
  "buildCgroupPaths m name =
     res_bind (cm_Name m name) (\<lambda>n. Inr (map (\<lambda>(key, val). (key, path_join [val, n])) (cm_MountPoints m)))"

definition updateSystemdCgroupInfo :: "lc_cgroup \<Rightarrow> cgroup_name \<Rightarrow> go_panic + lc_cgroup" where
  "updateSystemdCgroupInfo c name =
     res_bind (ToSystemd name) (\<lambda>s.
       case path_split s of
         (dir, base) \<Rightarrow> Inr (c\<lparr>lc_Parent := (if dir = ''/'' then ''-.slice'' else path_base dir), lc_Name := base\<rparr>))"

text \<open>The driver-dependent part of a libcontainer configuration, shared by the operations.\<close>

definition with_driver_name :: "cgroup_manager \<Rightarrow> cgroup_name \<Rightarrow> lc_cgroup \<Rightarrow> go_panic + lc_cgroup" where
  "with_driver_name m name c =
     (if cm_systemd m then updateSystemdCgroupInfo c name else Inr (c\<lparr>lc_Path := ToCgroupfs name\<rparr>))"

definition whitelistControllers :: "cgroup_manager \<Rightarrow> string list" where
  "whitelistControllers m =
     [''cpu'', ''cpuacct'', ''cpuset'', ''memory'', ''systemd'']
     @ (if cm_podPidsGate m \<or> cm_nodePidsGate m then [''pids''] else [])
     @ (if map_of (cm_MountPoints m) ''hugetlb'' \<noteq> None then [''hugetlb''] else [])"

definition cm_Exists :: "cgroup_manager \<Rightarrow> cgroup_fs \<Rightarrow> cgroup_name \<Rightarrow> go_panic + bool" where
  "cm_Exists m fs name =
     res_bind (buildCgroupPaths m name) (\<lambda>paths.
       let missingPaths = filter (\<lambda>(controller, path).
             controller \<in> set (whitelistControllers m) \<and> \<not> cf_dirs fs path) paths
       in Inr (missingPaths = []))"

subsection \<open>Resource settings\<close>

fun unit_loop :: "nat \<Rightarrow> int \<Rightarrow> nat \<Rightarrow> int \<times> nat" where
  "unit_loop 0 sz idx = (sz, idx)"
| "unit_loop (Suc k) sz idx =
     (if sz smod 1024 = 0 then unit_loop k (sz sdiv 1024) (Suc idx) else (sz, idx))"

definition HugePageUnitSizeFromByteSize :: "int \<Rightarrow> string option" where
  "HugePageUnitSizeFromByteSize size0 =
     (case unit_loop 5 size0 0 of
        (sz, idx) \<Rightarrow>
          if 1024 < sz \<and> idx < 5 then None
          else Some (itoa sz @ [''B'', ''KB'', ''MB'', ''GB'', ''TB'', ''PB''] ! idx))"

definition zero_resources :: lc_resources where
  "zero_resources = \<lparr>lr_Memory = 0, lr_CpuShares = 0, lr_CpuQuota = 0, lr_CpuPeriod = 0, lr_PidsLimit = 0, lr_HugetlbLimit = []\<rparr>"

definition opt0 :: "int option \<Rightarrow> int" where
  "opt0 v = (case v of Some x \<Rightarrow> x | None \<Rightarrow> 0)"

definition toResources :: "cgroup_manager \<Rightarrow> cgroup_lib \<Rightarrow> resource_config \<Rightarrow> lc_resources" where
  "toResources m lib rc =
     (let sized = List.map_filter (\<lambda>(pageSize, limit).
            map_option (\<lambda>s. (s, limit mod 18446744073709551616)) (HugePageUnitSizeFromByteSize pageSize))
            (rc_HugePageLimit rc)
      in \<lparr>lr_Memory = opt0 (rc_Memory rc), lr_CpuShares = opt0 (rc_CpuShares rc),
          lr_CpuQuota = opt0 (rc_CpuQuota rc), lr_CpuPeriod = opt0 (rc_CpuPeriod rc),
          lr_PidsLimit = (if cm_podPidsGate m \<or> cm_nodePidsGate m then opt0 (rc_PidsLimit rc) else 0),
          lr_HugetlbLimit = sized @
            map (\<lambda>s. (s, 0)) (filter (\<lambda>s. s \<notin> set (map fst sized)) (cl_HugePageSizes lib))\<rparr>)"

definition getSupportedSubsystems :: "cgroup_manager \<Rightarrow> (string \<times> bool) list" where
  "getSupportedSubsystems m =
     [(''memory'', True), (''cpu'', True), (''pids'', cm_podPidsGate m \<or> cm_nodePidsGate m), (''hugetlb'', False)]"

text \<open>The loop of \<open>setSupportedSubsystems\<close> over the subsystems in iteration order.\<close>

fun set_subsystems :: "cgroup_lib \<Rightarrow> lc_cgroup \<Rightarrow> (string \<times> bool) list \<Rightarrow> cgroup_fs \<Rightarrow> cgroup_error option \<times> cgroup_fs" where
  "set_subsystems lib c [] fs = (None, fs)"
| "set_subsystems lib c ((sys, required) # rest) fs =
     (case map_of (lc_Paths c) sys of
        None \<Rightarrow> if required then (Some (MissingSubsystem sys), fs) else set_subsystems lib c rest fs
      | Some path \<Rightarrow>
          if cl_Set_ok lib path c
          then set_subsystems lib c rest (fs\<lparr>cf_settings := cf_settings fs @ [(path, lc_Resources c)]\<rparr>)
          else (Some (SetFailed sys), fs))"

definition setSupportedSubsystems ::
  "cgroup_manager \<Rightarrow> cgroup_lib \<Rightarrow> lc_cgroup \<Rightarrow> cgroup_fs \<Rightarrow> cgroup_error option \<times> cgroup_fs" where
  "setSupportedSubsystems m lib c fs = set_subsystems lib c (cl_order lib (getSupportedSubsystems m)) fs"

subsection \<open>Update, Create, Destroy\<close>

definition limit_pids :: "cgroup_manager \<Rightarrow> resource_config \<Rightarrow> lc_cgroup \<Rightarrow> lc_cgroup" where
  "limit_pids m rc c =
     (case rc_PidsLimit rc of
        Some l \<Rightarrow> if cm_podPidsGate m then c\<lparr>lc_Resources := (lc_Resources c)\<lparr>lr_PidsLimit := l\<rparr>\<rparr> else c
      | None \<Rightarrow> c)"

definition empty_cgroup :: lc_cgroup where
  "empty_cgroup = \<lparr>lc_Path = [], lc_Parent = [], lc_Name = [], lc_Paths = [], lc_Resources = zero_resources\<rparr>"

definition cm_Update ::
  "cgroup_manager \<Rightarrow> cgroup_lib \<Rightarrow> cgroup_config \<Rightarrow> necon \<times> cgroup_fs \<Rightarrow>
     go_panic + (cgroup_error option \<times> necon \<times> cgroup_fs)" where
  "cm_Update m lib cfg st =
     (case st of (nec, fs) \<Rightarrow>
        res_bind (buildCgroupPaths m (cc_Name cfg)) (\<lambda>cgroupPaths.
        res_bind (with_driver_name m (cc_Name cfg)
                    (empty_cgroup\<lparr>lc_Resources := toResources m lib (cc_ResourceParameters cfg), lc_Paths := cgroupPaths\<rparr>))
          (\<lambda>c.
             case setSupportedSubsystems m lib (limit_pids m (cc_ResourceParameters cfg) c) fs of
               (Some e, fs') \<Rightarrow> Inr (Some e, nec, fs')
             | (None, fs') \<Rightarrow>
                 Inr (None, SetCgroupPath (case map_of cgroupPaths ''cpu'' of Some p \<Rightarrow> p | None \<Rightarrow> []) nec, fs'))))"

text \<open>\<open>newManager\<close> only panics: with the systemd driver on a host without systemd.\<close>

definition newManager :: "cgroup_manager \<Rightarrow> cgroup_lib \<Rightarrow> go_panic + unit" where
  "newManager m lib =
     (if cm_systemd m \<and> \<not> cl_UseSystemd lib then Inl (ExplicitPanic ''systemd cgroup manager not available'')
      else Inr ())"

definition cm_Create ::
  "cgroup_manager \<Rightarrow> cgroup_lib \<Rightarrow> cgroup_config \<Rightarrow> necon \<times> cgroup_fs \<Rightarrow>
     go_panic + (cgroup_error option \<times> necon \<times> cgroup_fs)" where
  "cm_Create m lib cfg st =
     (case st of (nec, fs) \<Rightarrow>
        res_bind (with_driver_name m (cc_Name cfg)
                    (empty_cgroup\<lparr>lc_Resources := toResources m lib (cc_ResourceParameters cfg)\<rparr>)) (\<lambda>c.
        res_bind (newManager m lib) (\<lambda>_.
          case cl_Apply lib (limit_pids m (cc_ResourceParameters cfg) c) (cf_dirs fs) of
            (ok, dirs) \<Rightarrow>
              if \<not> ok then Inr (Some ApplyFailed, nec, fs\<lparr>cf_dirs := dirs\<rparr>)
              else res_bind (cm_Update m lib cfg (nec, fs\<lparr>cf_dirs := dirs\<rparr>)) (\<lambda>(_, st'). Inr (None, st')))))"

definition cm_Destroy ::
  "cgroup_manager \<Rightarrow> cgroup_lib \<Rightarrow> cgroup_config \<Rightarrow> cgroup_fs \<Rightarrow> go_panic + (cgroup_error option \<times> cgroup_fs)" where
  "cm_Destroy m lib cfg fs =
     res_bind (buildCgroupPaths m (cc_Name cfg)) (\<lambda>cgroupPaths.
     res_bind (with_driver_name m (cc_Name cfg) empty_cgroup) (\<lambda>c.
     res_bind (newManager m lib) (\<lambda>_.
       case cl_Destroy lib (c\<lparr>lc_Paths := cgroupPaths\<rparr>) (cf_dirs fs) of
         (ok, dirs) \<Rightarrow> Inr (if ok then None else Some DestroyFailed, fs\<lparr>cf_dirs := dirs\<rparr>))))"

definition cm_ReduceCPULimits ::
  "cgroup_manager \<Rightarrow> cgroup_lib \<Rightarrow> cgroup_name \<Rightarrow> necon \<times> cgroup_fs \<Rightarrow>
     go_panic + (cgroup_error option \<times> necon \<times> cgroup_fs)" where
  "cm_ReduceCPULimits m lib name =
     cm_Update m lib \<lparr>cc_Name = name, cc_ResourceParameters = empty_resource_config\<lparr>rc_CpuShares := Some MinShares\<rparr>\<rparr>"

subsection \<open>What the operations leave unchanged\<close>

text \<open>The path of the cpu cgroup, which \<open>Update\<close> hands to the network agent.\<close>

definition cpu_path :: "cgroup_manager \<Rightarrow> cgroup_name \<Rightarrow> string" where
  "cpu_path m name =
     (case cm_Name m name of
        Inr s \<Rightarrow> (case map_of (cm_MountPoints m) ''cpu'' of Some v \<Rightarrow> path_join [v, s] | None \<Rightarrow> [])
      | Inl _ \<Rightarrow> [])"

lemma set_subsystems_dirs [go_frame]: "cf_dirs (snd (set_subsystems lib c subs fs)) = cf_dirs fs"
  by (induction lib c subs fs rule: set_subsystems.induct) (auto split: option.split)

lemma map_of_paths: "map_of (map (\<lambda>(key, val). (key, f val)) xs) k = map_option f (map_of xs k)"
  by (induction xs) auto

lemma with_driver_name_frame:
  assumes "with_driver_name m n c = Inr c'"
  shows "lc_Paths c' = lc_Paths c" "lc_Resources c' = lc_Resources c"
    "\<not> cm_systemd m \<Longrightarrow> lc_Path c' = ToCgroupfs n"
proof -
  have "lc_Paths c' = lc_Paths c \<and> lc_Resources c' = lc_Resources c \<and> (\<not> cm_systemd m \<longrightarrow> lc_Path c' = ToCgroupfs n)"
  proof (cases "cm_systemd m")
    case True
    then obtain s where s: "ToSystemd n = Inr s"
      using assms by (auto simp: with_driver_name_def updateSystemdCgroupInfo_def res_bind_Inr)
    obtain dir base where "path_split s = (dir, base)" by force
    with s True assms have "c' = c\<lparr>lc_Parent := (if dir = ''/'' then ''-.slice'' else path_base dir), lc_Name := base\<rparr>"
      by (simp add: with_driver_name_def updateSystemdCgroupInfo_def)
    then show ?thesis using True by simp
  next
    case False
    then have "c' = c\<lparr>lc_Path := ToCgroupfs n\<rparr>" using assms by (simp add: with_driver_name_def)
    then show ?thesis by simp
  qed
  then show "lc_Paths c' = lc_Paths c" "lc_Resources c' = lc_Resources c"
    "\<not> cm_systemd m \<Longrightarrow> lc_Path c' = ToCgroupfs n" by simp_all
qed

lemma limit_pids_frame [simp]:
  "lc_Path (limit_pids m rc c) = lc_Path c" "lc_Paths (limit_pids m rc c) = lc_Paths c"
  by (simp_all add: limit_pids_def split: option.split)

lemma cm_Update_frame:
  assumes "cm_Update m lib cfg (nec, fs) = Inr (e, nec', fs')"
  shows "cf_dirs fs' = cf_dirs fs"
    and "nec' = (if e = None then SetCgroupPath (cpu_path m (cc_Name cfg)) nec else nec)"
proof -
  obtain paths s where p: "buildCgroupPaths m (cc_Name cfg) = Inr paths" "cm_Name m (cc_Name cfg) = Inr s"
    "paths = map (\<lambda>(key, val). (key, path_join [val, s])) (cm_MountPoints m)"
    using assms by (auto simp: cm_Update_def res_bind_Inr buildCgroupPaths_def)
  then obtain c where c: "with_driver_name m (cc_Name cfg)
      (empty_cgroup\<lparr>lc_Resources := toResources m lib (cc_ResourceParameters cfg), lc_Paths := paths\<rparr>) = Inr c"
    using assms by (auto simp: cm_Update_def res_bind_Inr)
  obtain e1 fs1 where r: "setSupportedSubsystems m lib (limit_pids m (cc_ResourceParameters cfg) c) fs = (e1, fs1)"
    by force
  then have d: "cf_dirs fs1 = cf_dirs fs"
    unfolding setSupportedSubsystems_def by (metis set_subsystems_dirs snd_conv)
  have cpu: "(case map_of paths ''cpu'' of Some p \<Rightarrow> p | None \<Rightarrow> []) = cpu_path m (cc_Name cfg)"
    by (simp add: p(3) map_of_paths cpu_path_def p(2) split: option.split)
  from assms p(1) c r cpu have "e = e1 \<and> fs' = fs1 \<and> nec' = (if e = None then SetCgroupPath (cpu_path m (cc_Name cfg)) nec else nec)"
    by (cases e1) (auto simp: cm_Update_def)
  with d show "cf_dirs fs' = cf_dirs fs"
    "nec' = (if e = None then SetCgroupPath (cpu_path m (cc_Name cfg)) nec else nec)" by simp_all
qed

lemma cm_Create_effect:
  assumes "cm_Create m lib cfg (nec, fs) = Inr (e, nec', fs')"
  shows "nec' = nec \<or> e = None \<and> nec' = SetCgroupPath (cpu_path m (cc_Name cfg)) nec"
    and "e = None \<Longrightarrow> \<exists>c. cl_Apply lib c (cf_dirs fs) = (True, cf_dirs fs') \<and>
           (\<not> cm_systemd m \<longrightarrow> lc_Path c = ToCgroupfs (cc_Name cfg))"
proof -
  obtain c where c: "with_driver_name m (cc_Name cfg)
      (empty_cgroup\<lparr>lc_Resources := toResources m lib (cc_ResourceParameters cfg)\<rparr>) = Inr c"
    and n: "newManager m lib = Inr ()"
    using assms by (auto simp: cm_Create_def res_bind_Inr)
  let ?c = "limit_pids m (cc_ResourceParameters cfg) c"
  obtain ok dirs where a: "cl_Apply lib ?c (cf_dirs fs) = (ok, dirs)" by force
  have r: "cm_Create m lib cfg (nec, fs) = (if \<not> ok then Inr (Some ApplyFailed, nec, fs\<lparr>cf_dirs := dirs\<rparr>)
      else res_bind (cm_Update m lib cfg (nec, fs\<lparr>cf_dirs := dirs\<rparr>)) (\<lambda>(_, st'). Inr (None, st')))"
    by (simp add: cm_Create_def c n a)
  have up: "ok \<Longrightarrow> e = None \<and> (\<exists>e2. cm_Update m lib cfg (nec, fs\<lparr>cf_dirs := dirs\<rparr>) = Inr (e2, nec', fs'))"
    and fail: "\<not> ok \<Longrightarrow> nec' = nec \<and> e \<noteq> None"
    using assms unfolding r by (auto simp: res_bind_Inr)
  show "nec' = nec \<or> e = None \<and> nec' = SetCgroupPath (cpu_path m (cc_Name cfg)) nec"
  proof (cases ok)
    case True
    then obtain e2 where "e = None" "cm_Update m lib cfg (nec, fs\<lparr>cf_dirs := dirs\<rparr>) = Inr (e2, nec', fs')"
      using up by blast
    then show ?thesis using cm_Update_frame(2) by (cases e2) (simp, fastforce)+
  qed (use fail in blast)
  assume "e = None"
  then have ok using fail by blast
  then obtain e2 where "cm_Update m lib cfg (nec, fs\<lparr>cf_dirs := dirs\<rparr>) = Inr (e2, nec', fs')" using up by blast
  then have "cf_dirs fs' = dirs" using cm_Update_frame(1) by fastforce
  then show "\<exists>c. cl_Apply lib c (cf_dirs fs) = (True, cf_dirs fs') \<and>
           (\<not> cm_systemd m \<longrightarrow> lc_Path c = ToCgroupfs (cc_Name cfg))"
    using a \<open>ok\<close> with_driver_name_frame(3) [OF c] by (intro exI [of _ ?c]) simp
qed

end
