(* ===== verification/PodContainers.thy ===== *)
theory PodContainers
  imports CgroupManager
begin

section \<open>Pod cgroups and QoS cgroups\<close>

text \<open>
  \<open>podContainerManagerImpl\<close> (\<open>pkg/kubelet/cm/pod_container_manager_linux.go\<close>) and
  \<open>qosContainerManagerImpl\<close> (\<open>qos_container_manager_linux.go\<close>).  Feature gates are fields of the
  managers.  The result of killing a process and of reading a directory are arguments.
\<close>

record qos_containers_info =
  qi_Guaranteed :: cgroup_name
  qi_BestEffort :: cgroup_name
  qi_Burstable :: cgroup_name

record pod_container_manager =
  pm_qos :: qos_containers_info
  pm_cgroupManager :: cgroup_manager
  pm_podPidsLimit :: int
  pm_enforceCPULimits :: bool
  pm_cpuCFSQuotaPeriod :: int
  pm_overheadGate :: bool
  pm_periodGate :: bool

definition podCgroupNamePrefix :: string where
  "podCgroupNamePrefix = ''pod''"

definition GetPodCgroupNameSuffix :: "string \<Rightarrow> string" where
  "GetPodCgroupNameSuffix podUID = podCgroupNamePrefix @ podUID"

definition GetPodContainerName :: "pod_container_manager \<Rightarrow> pod \<Rightarrow> go_panic + (cgroup_name \<times> string)" where
  "GetPodContainerName m pod =
     (let parentContainer =
        (case GetPodQOS pod of
           PodQOSGuaranteed \<Rightarrow> qi_Guaranteed (pm_qos m)
         | PodQOSBurstable \<Rightarrow> qi_Burstable (pm_qos m)
         | PodQOSBestEffort \<Rightarrow> qi_BestEffort (pm_qos m))
      in res_bind (NewCgroupName parentContainer [GetPodCgroupNameSuffix (p_UID pod)]) (\<lambda>cgroupName.
         res_bind (cm_Name (pm_cgroupManager m) cgroupName) (\<lambda>cgroupfsName. Inr (cgroupName, cgroupfsName))))"

definition pcm_Exists :: "pod_container_manager \<Rightarrow> cgroup_fs \<Rightarrow> pod \<Rightarrow> go_panic + bool" where
  "pcm_Exists m fs pod =
     res_bind (GetPodContainerName m pod) (\<lambda>(name, _). cm_Exists (pm_cgroupManager m) fs name)"

definition pod_cgroup_config :: "pod_container_manager \<Rightarrow> cgroup_name \<Rightarrow> pod \<Rightarrow> cgroup_config" where
  "pod_cgroup_config m name pod =
     (let rc = ResourceConfigForPod (pm_overheadGate m) (pm_periodGate m) pod (pm_enforceCPULimits m) (pm_cpuCFSQuotaPeriod m)
      in \<lparr>cc_Name = name,
          cc_ResourceParameters =
            (if cm_podPidsGate (pm_cgroupManager m) \<and> 0 < pm_podPidsLimit m
             then rc\<lparr>rc_PidsLimit := Some (pm_podPidsLimit m)\<rparr> else rc)\<rparr>)"

definition EnsureExists ::
  "pod_container_manager \<Rightarrow> cgroup_lib \<Rightarrow> pod \<Rightarrow> necon \<times> cgroup_fs \<Rightarrow>
     go_panic + (cgroup_error option \<times> necon \<times> cgroup_fs)" where
  "EnsureExists m lib pod st =
     res_bind (GetPodContainerName m pod) (\<lambda>(name, _).
     res_bind (pcm_Exists m (snd st) pod) (\<lambda>alreadyExists.
       if \<not> alreadyExists then cm_Create (pm_cgroupManager m) lib (pod_cgroup_config m name pod) st
       else Inr (None, st)))"

subsection \<open>Killing the processes of a pod cgroup\<close>

datatype kill_result = KillDone | KillError string

definition killOnePid :: "kill_result \<Rightarrow> bool" where
  "killOnePid r = (case r of KillDone \<Rightarrow> True | KillError msg \<Rightarrow> contains_str msg ''process already finished'')"

text \<open>One round: the set of removed pids, the pids signalled, and the errors.\<close>

fun kill_round :: "(int \<Rightarrow> kill_result) \<Rightarrow> int list \<Rightarrow> int set \<Rightarrow> int set \<times> int list \<times> int list" where
  "kill_round kill [] removed = (removed, [], [])"
| "kill_round kill (pid # pids) removed =
     (if pid \<in> removed then kill_round kill pids removed
      else if killOnePid (kill pid) then
        (case kill_round kill pids (insert pid removed) of (r, sent, errs) \<Rightarrow> (r, pid # sent, errs))
      else
        (case kill_round kill pids removed of (r, sent, errs) \<Rightarrow> (r, pid # sent, pid # errs)))"

text \<open>The remaining rounds; \<open>Some errs\<close> is the error returned after the last one.\<close>

fun kill_rounds :: "(nat \<Rightarrow> int \<Rightarrow> kill_result) \<Rightarrow> int list \<Rightarrow> nat \<Rightarrow> nat \<Rightarrow> int set \<Rightarrow> int list \<Rightarrow> int list option" where
  "kill_rounds kill pids 0 i removed errs = Some errs"
| "kill_rounds kill pids (Suc k) i removed errs =
     (case kill_round (kill i) pids removed of
        (removed', _, errs') \<Rightarrow> if errs' = [] then None else kill_rounds kill pids k (Suc i) removed' errs')"

definition tryKillingCgroupProcesses :: "(nat \<Rightarrow> int \<Rightarrow> kill_result) \<Rightarrow> int list \<Rightarrow> int list option" where
  "tryKillingCgroupProcesses kill pids = (if pids = [] then None else kill_rounds kill pids 5 0 {} [])"

datatype destroy_error = KillFailed "int list" | DeleteFailed cgroup_error

definition pcm_Destroy ::
  "pod_container_manager \<Rightarrow> cgroup_lib \<Rightarrow> (nat \<Rightarrow> int \<Rightarrow> kill_result) \<Rightarrow> int list \<Rightarrow> cgroup_name \<Rightarrow> cgroup_fs \<Rightarrow>
     go_panic + (destroy_error option \<times> cgroup_fs)" where
  "pcm_Destroy m lib kill pids name fs =
     (case tryKillingCgroupProcesses kill pids of
        Some errs \<Rightarrow> Inr (Some (KillFailed errs), fs)
      | None \<Rightarrow>
          res_bind (cm_Destroy (pm_cgroupManager m) lib
              \<lparr>cc_Name = name, cc_ResourceParameters = empty_resource_config\<rparr> fs)
            (\<lambda>(e, fs'). Inr (map_option DeleteFailed e, fs')))"

subsection \<open>Recognising pod cgroups\<close>

definition IsPodCgroup :: "pod_container_manager \<Rightarrow> string \<Rightarrow> bool \<times> string" where
  "IsPodCgroup m cgroupfs =
     (let cgroupName = cm_CgroupName (pm_cgroupManager m) cgroupfs;
          basePath = foldl (\<lambda>b qos. if length cgroupName = length qos + 1 then cgroupName ! length qos else b) []
            [qi_BestEffort (pm_qos m), qi_Burstable (pm_qos m), qi_Guaranteed (pm_qos m)]
      in
      if basePath = [] then (False, [])
      else if \<not> has_prefix basePath podCgroupNamePrefix then (False, [])
      else
        let parts = split_str basePath podCgroupNamePrefix in
        if length parts \<noteq> 2 then (False, []) else (True, parts ! 1))"

datatype readdir_result = DirMissing | DirError | DirEntries "(string \<times> bool) list"

text \<open>The entries of one QoS directory; an entry is a name and whether it is a directory.\<close>

fun scan_entries ::
  "cgroup_manager \<Rightarrow> string \<Rightarrow> (string \<times> bool) list \<Rightarrow> (string \<times> cgroup_name) list \<Rightarrow>
     go_panic + (string \<times> cgroup_name) list" where
  "scan_entries m qcConversion [] found = Inr found"
| "scan_entries m qcConversion ((name, isdir) # rest) found =
     (if \<not> isdir then scan_entries m qcConversion rest found
      else
        let internalPath = cm_CgroupName m (path_join [qcConversion, name]) in
        if internalPath = [] then Inl IndexOutOfRange
        else
          let basePath = last internalPath in
          if \<not> contains_str basePath podCgroupNamePrefix then scan_entries m qcConversion rest found
          else
            let parts = split_str basePath podCgroupNamePrefix in
            if length parts \<noteq> 2 then scan_entries m qcConversion rest found
            else scan_entries m qcConversion rest (AList.update (parts ! 1) internalPath found))"

fun scan_dirs ::
  "cgroup_manager \<Rightarrow> (string \<Rightarrow> readdir_result) \<Rightarrow> (string \<times> cgroup_name) list \<Rightarrow> (string \<times> cgroup_name) list \<Rightarrow>
     go_panic + (string \<times> cgroup_name) list option" where
  "scan_dirs m rd [] found = Inr (Some found)"
| "scan_dirs m rd ((mount, qos) # rest) found =
     res_bind (cm_Name m qos) (\<lambda>qcConversion.
       case rd (path_join [mount, qcConversion]) of
         DirMissing \<Rightarrow> scan_dirs m rd rest found
       | DirError \<Rightarrow> Inr None
       | DirEntries es \<Rightarrow>
           res_bind (scan_entries m qcConversion es found) (\<lambda>found'. scan_dirs m rd rest found'))"

definition GetAllPodsFromCgroups ::
  "pod_container_manager \<Rightarrow> (string \<Rightarrow> readdir_result) \<Rightarrow> go_panic + (string \<times> cgroup_name) list option" where
  "GetAllPodsFromCgroups m rd =
     scan_dirs (pm_cgroupManager m) rd
       (List.product (map snd (cm_MountPoints (pm_cgroupManager m)))
          [qi_BestEffort (pm_qos m), qi_Burstable (pm_qos m), qi_Guaranteed (pm_qos m)]) []"

subsection \<open>QoS cgroups\<close>

record qos_manager =
  qm_info :: qos_containers_info
  qm_cgroupManager :: cgroup_manager
  qm_cgroupRoot :: cgroup_name
  qm_reservedMemory :: "int option"
  qm_reservedGate :: bool
  qm_overheadGate :: bool

text \<open>The two configurations \<open>UpdateCgroups\<close> works on: Burstable and BestEffort.\<close>

record qos_configs =
  qc_Burstable :: cgroup_config
  qc_BestEffort :: cgroup_config

definition setHugePagesUnbounded :: "cgroup_lib \<Rightarrow> (string \<Rightarrow> int option) \<Rightarrow> cgroup_config \<Rightarrow> cgroup_config option" where
  "setHugePagesUnbounded lib ramInBytes cfg =
     (case those (map ramInBytes (cl_HugePageSizes lib)) of
        None \<Rightarrow> None
      | Some szs \<Rightarrow>
          Some (cfg\<lparr>cc_ResourceParameters := (cc_ResourceParameters cfg)\<lparr>rc_HugePageLimit :=
            foldl (\<lambda>l b. AList.update b 4611686018427387904 l) [] szs\<rparr>\<rparr>))"

definition set_shares :: "int \<Rightarrow> cgroup_config \<Rightarrow> cgroup_config" where
  "set_shares n cfg = cfg\<lparr>cc_ResourceParameters := (cc_ResourceParameters cfg)\<lparr>rc_CpuShares := Some n\<rparr>\<rparr>"

definition set_memory :: "int \<Rightarrow> cgroup_config \<Rightarrow> cgroup_config" where
  "set_memory n cfg = cfg\<lparr>cc_ResourceParameters := (cc_ResourceParameters cfg)\<lparr>rc_Memory := Some n\<rparr>\<rparr>"

definition pod_request :: "bool \<Rightarrow> string \<Rightarrow> (quantity \<Rightarrow> int) \<Rightarrow> pod \<Rightarrow> int" where
  "pod_request gate r value pod =
     (case map_of (fst (PodRequestsAndLimits gate pod)) r of Some q \<Rightarrow> value q | None \<Rightarrow> 0)"

definition setCPUCgroupConfig :: "qos_manager \<Rightarrow> pod list \<Rightarrow> qos_configs \<Rightarrow> qos_configs" where
  "setCPUCgroupConfig m pods cfgs =
     (let burstablePodCPURequest =
        foldl (\<lambda>acc pod. if GetPodQOS pod \<noteq> PodQOSBurstable then acc
                          else wrap64 (acc + pod_request (qm_overheadGate m) ResourceCPU q_MilliValue pod)) 0 pods
      in cfgs\<lparr>qc_BestEffort := set_shares MinShares (qc_BestEffort cfgs),
              qc_Burstable := set_shares (MilliCPUToShares burstablePodCPURequest) (qc_Burstable cfgs)\<rparr>)"

definition class_memory :: "qos_manager \<Rightarrow> qos_class \<Rightarrow> pod list \<Rightarrow> int" where
  "class_memory m cls pods =
     foldl (\<lambda>acc pod. if GetPodQOS pod = cls
                      then wrap64 (acc + pod_request (qm_overheadGate m) ResourceMemory q_Value pod) else acc) 0 pods"

definition setMemoryReserve :: "qos_manager \<Rightarrow> pod list \<Rightarrow> resource_list \<Rightarrow> int \<Rightarrow> qos_configs \<Rightarrow> qos_configs" where
  "setMemoryReserve m pods allocatableResources percentReserve cfgs =
     (case map_of allocatableResources ResourceMemory of
        None \<Rightarrow> cfgs
      | Some q \<Rightarrow>
          let allocatable = q_Value q in
          if allocatable = 0 then cfgs
          else
            let reserve = (\<lambda>cls. wrap64 (class_memory m cls pods * percentReserve) sdiv 100);
                burstableLimit = wrap64 (allocatable - reserve PodQOSGuaranteed);
                bestEffortLimit = wrap64 (burstableLimit - reserve PodQOSBurstable)
            in cfgs\<lparr>qc_Burstable := set_memory burstableLimit (qc_Burstable cfgs),
                    qc_BestEffort := set_memory bestEffortLimit (qc_BestEffort cfgs)\<rparr>)"

text \<open>
  \<open>retrySetMemoryReserve\<close>: \<open>stats\<close> gives the memory usage of a cgroup, or nothing on an error, which
  ends the loop; \<open>burstableFirst\<close> is the order of the range loop over the two configurations.
\<close>

definition retry_memory :: "(cgroup_name \<Rightarrow> int option) \<Rightarrow> cgroup_config \<Rightarrow> cgroup_config option" where
  "retry_memory stats cfg =
     (case stats (cc_Name cfg) of
        None \<Rightarrow> None
      | Some usage \<Rightarrow>
          Some (case rc_Memory (cc_ResourceParameters cfg) of
                  Some l \<Rightarrow> if l < usage then set_memory usage cfg else cfg
                | None \<Rightarrow> cfg))"

definition retrySetMemoryReserve :: "bool \<Rightarrow> (cgroup_name \<Rightarrow> int option) \<Rightarrow> qos_configs \<Rightarrow> qos_configs" where
  "retrySetMemoryReserve burstableFirst stats cfgs =
     (let upd_b = (\<lambda>c. map_option (\<lambda>x. c\<lparr>qc_Burstable := x\<rparr>) (retry_memory stats (qc_Burstable c)));
          upd_e = (\<lambda>c. map_option (\<lambda>x. c\<lparr>qc_BestEffort := x\<rparr>) (retry_memory stats (qc_BestEffort c)));
          first = (if burstableFirst then upd_b else upd_e);
          second = (if burstableFirst then upd_e else upd_b)
      in case first cfgs of None \<Rightarrow> cfgs | Some c \<Rightarrow> (case second c of None \<Rightarrow> c | Some c' \<Rightarrow> c'))"

definition ordered_configs :: "bool \<Rightarrow> qos_configs \<Rightarrow> cgroup_config list" where
  "ordered_configs burstableFirst cfgs =
     (if burstableFirst then [qc_Burstable cfgs, qc_BestEffort cfgs] else [qc_BestEffort cfgs, qc_Burstable cfgs])"

text \<open>The first update loop tries every configuration, the last one stops at the first error.\<close>

fun update_all ::
  "cgroup_manager \<Rightarrow> cgroup_lib \<Rightarrow> cgroup_config list \<Rightarrow> necon \<times> cgroup_fs \<Rightarrow> go_panic + (bool \<times> necon \<times> cgroup_fs)" where
  "update_all m lib [] st = Inr (True, st)"
| "update_all m lib (c # cs) st =
     res_bind (cm_Update m lib c st) (\<lambda>(e, st').
     res_bind (update_all m lib cs st') (\<lambda>(ok, st''). Inr (ok \<and> e = None, st'')))"

fun update_until_error ::
  "cgroup_manager \<Rightarrow> cgroup_lib \<Rightarrow> cgroup_config list \<Rightarrow> necon \<times> cgroup_fs \<Rightarrow>
     go_panic + (cgroup_error option \<times> necon \<times> cgroup_fs)" where
  "update_until_error m lib [] st = Inr (None, st)"
| "update_until_error m lib (c # cs) st =
     res_bind (cm_Update m lib c st) (\<lambda>(e, st').
       case e of Some err \<Rightarrow> Inr (Some err, st') | None \<Rightarrow> update_until_error m lib cs st')"

datatype update_error = HugePageSizeError | UpdateError cgroup_error

record qos_env =
  qe_pods :: "pod list"
  qe_allocatable :: resource_list
  qe_stats :: "cgroup_name \<Rightarrow> int option"
  qe_ramInBytes :: "string \<Rightarrow> int option"
  qe_burstableFirst :: "nat \<Rightarrow> bool"

text \<open>\<open>qe_burstableFirst i\<close>: whether the \<open>i\<close>-th range loop over the two configurations visits Burstable first.\<close>

definition UpdateCgroups ::
  "qos_manager \<Rightarrow> cgroup_lib \<Rightarrow> qos_env \<Rightarrow> necon \<times> cgroup_fs \<Rightarrow> go_panic + (update_error option \<times> necon \<times> cgroup_fs)" where
  "UpdateCgroups m lib env st =
     (let cfgs0 = \<lparr>qc_Burstable = \<lparr>cc_Name = qi_Burstable (qm_info m), cc_ResourceParameters = empty_resource_config\<rparr>,
                   qc_BestEffort = \<lparr>cc_Name = qi_BestEffort (qm_info m), cc_ResourceParameters = empty_resource_config\<rparr>\<rparr>;
          cfgs1 = setCPUCgroupConfig m (qe_pods env) cfgs0
      in case (setHugePagesUnbounded lib (qe_ramInBytes env) (qc_Burstable cfgs1),
               setHugePagesUnbounded lib (qe_ramInBytes env) (qc_BestEffort cfgs1)) of
           (Some b, Some e) \<Rightarrow>
             (let cfgs2 = \<lparr>qc_Burstable = b, qc_BestEffort = e\<rparr>;
                  final = (\<lambda>cfgs st. res_bind (update_until_error (qm_cgroupManager m) lib
                             (ordered_configs (qe_burstableFirst env 2) cfgs) st)
                             (\<lambda>(err, st'). Inr (map_option UpdateError err, st')))
              in
              if qm_reservedGate m then
                let cfgs3 = (case qm_reservedMemory m of
                               Some p \<Rightarrow> setMemoryReserve m (qe_pods env) (qe_allocatable env) p cfgs2 | None \<Rightarrow> cfgs2)
                in res_bind (update_all (qm_cgroupManager m) lib (ordered_configs (qe_burstableFirst env 0) cfgs3) st)
                     (\<lambda>(ok, st').
                        if ok then Inr (None, st')
                        else
                          final (case qm_reservedMemory m of
                                   Some _ \<Rightarrow> retrySetMemoryReserve (qe_burstableFirst env 1) (qe_stats env) cfgs3
                                 | None \<Rightarrow> cfgs3) st')
              else final cfgs2 st)
         | _ \<Rightarrow> Inr (Some HugePageSizeError, st))"

subsection \<open>Names of pod cgroups are recognised\<close>

definition driver_valid :: "cgroup_manager \<Rightarrow> cgroup_name \<Rightarrow> bool" where
  "driver_valid m n = (if cm_systemd m then valid_systemd n else valid_cgroupfs n)"

lemma cm_CgroupName_Name:
  assumes "cm_Name m n = Inr s" "driver_valid m n"
  shows "cm_CgroupName m s = n"
proof (cases "cm_systemd m")
  case True
  then have "systemd_path n = s" using assms(1) by (simp add: cm_Name_def systemd_path_def)
  with True systemd_driver.of_to [of n] assms(2) show ?thesis by (simp add: cm_CgroupName_def driver_valid_def)
next
  case False
  then have "ToCgroupfs n = s" using assms(1) by (simp add: cm_Name_def)
  with False cgroupfs_driver.of_to [of n] assms(2) show ?thesis by (simp add: cm_CgroupName_def driver_valid_def)
qed

definition qos_depth :: "pod_container_manager \<Rightarrow> nat \<Rightarrow> bool" where
  "qos_depth m k \<longleftrightarrow> k \<in> {length (qi_BestEffort (pm_qos m)), length (qi_Burstable (pm_qos m)), length (qi_Guaranteed (pm_qos m))}"

lemma IsPodCgroup_last:
  assumes "cm_CgroupName (pm_cgroupManager m) s = q @ [podCgroupNamePrefix @ uid]"
    and "qos_depth m (length q)" and "\<not> contains_str uid podCgroupNamePrefix"
  shows "IsPodCgroup m s = (True, uid)"
proof -
  define c where "c = podCgroupNamePrefix @ uid"
  have sp: "split_str c podCgroupNamePrefix = [[], uid]"
    using assms(3) unfolding c_def by (intro split_str_prefix) (simp_all add: podCgroupNamePrefix_def)
  have b: "foldl (\<lambda>b qos. if length (q @ [c]) = length qos + 1 then (q @ [c]) ! length qos else b) []
      [qi_BestEffort (pm_qos m), qi_Burstable (pm_qos m), qi_Guaranteed (pm_qos m)] = c"
    using assms(2) by (auto simp: qos_depth_def nth_append)
  have c: "c \<noteq> []" "has_prefix c podCgroupNamePrefix"
    by (simp_all add: c_def podCgroupNamePrefix_def has_prefix_def)
  show ?thesis
    unfolding IsPodCgroup_def Let_def assms(1) [folded c_def] b using c sp by simp
qed

lemma GetPodContainerName_parts:
  assumes "GetPodContainerName m pod = Inr (n, s)"
  shows "\<exists>q. n = q @ [podCgroupNamePrefix @ p_UID pod] \<and> qos_depth m (length q) \<and> cm_Name (pm_cgroupManager m) n = Inr s"
  using assms
  by (cases "GetPodQOS pod")
    (auto simp: GetPodContainerName_def Let_def res_bind_Inr NewCgroupName_def GetPodCgroupNameSuffix_def
      qos_depth_def split: option.splits if_splits)

text \<open>
  C13: The cgroup name the kubelet makes for a pod is recognised as that pod's cgroup when the
  directories are scanned, with either cgroup driver, as long as the name is well formed and the
  UID does not itself contain the prefix.
\<close>

theorem pod_cgroup_recognised:
  assumes "GetPodContainerName m pod = Inr (n, s)"
    and "driver_valid (pm_cgroupManager m) n"
    and "\<not> contains_str (p_UID pod) podCgroupNamePrefix"
  shows "IsPodCgroup m s = (True, p_UID pod)"
proof -
  obtain q where q: "n = q @ [podCgroupNamePrefix @ p_UID pod]" "qos_depth m (length q)"
    "cm_Name (pm_cgroupManager m) n = Inr s"
    using GetPodContainerName_parts [OF assms(1)] by blast
  show ?thesis
    using cm_CgroupName_Name [OF q(3) assms(2)] q(1,2) assms(3) by (intro IsPodCgroup_last) simp_all
qed

text \<open>
  Only the depth is compared: a cgroup that is not below any QoS cgroup is taken for a pod's
  cgroup whenever it is as deep as one and its last component starts with the prefix.
\<close>

theorem IsPodCgroup_ignores_parent:
  assumes "driver_valid (pm_cgroupManager m) (other @ [podCgroupNamePrefix @ uid])"
    and "cm_Name (pm_cgroupManager m) (other @ [podCgroupNamePrefix @ uid]) = Inr s"
    and "qos_depth m (length other)" and "\<not> contains_str uid podCgroupNamePrefix"
  shows "IsPodCgroup m s = (True, uid)"
  using cm_CgroupName_Name [OF assms(2,1)] assms(3,4) by (rule IsPodCgroup_last)

subsection \<open>Killing terminates and reports exactly the survivors\<close>

lemma kill_round_spec:
  "kill_round kill pids removed = (r, sent, errs) \<Longrightarrow>
     r = removed \<union> {p \<in> set pids. killOnePid (kill p)} \<and>
     set errs = {p \<in> set pids. p \<notin> removed \<and> \<not> killOnePid (kill p)}"
proof (induction pids arbitrary: removed r sent errs)
  case (Cons p pids)
  show ?case
  proof (cases "p \<in> removed")
    case True
    then show ?thesis using Cons.prems Cons.IH [of removed r sent errs] by auto
  next
    case False
    show ?thesis
    proof (cases "killOnePid (kill p)")
      case True
      obtain r' sent' errs' where k: "kill_round kill pids (insert p removed) = (r', sent', errs')" by (metis prod_cases3)
      then have "r = r'" "errs = errs'" using True False Cons.prems by simp_all
      with Cons.IH [OF k] True show ?thesis by auto
    next
      case no: False
      obtain r' sent' errs' where k: "kill_round kill pids removed = (r', sent', errs')" by (metis prod_cases3)
      then have "r = r'" "errs = p # errs'" using no False Cons.prems by simp_all
      with Cons.IH [OF k] no False show ?thesis by auto
    qed
  qed
qed simp

lemma kill_rounds_spec:
  "0 < k \<Longrightarrow>
     (case kill_rounds kill pids k i removed errs of
        None \<Rightarrow> \<forall>p \<in> set pids. p \<in> removed \<or> (\<exists>j. i \<le> j \<and> j < i + k \<and> killOnePid (kill j p))
      | Some es \<Rightarrow> es \<noteq> [] \<and>
          set es = {p \<in> set pids. p \<notin> removed \<and> (\<forall>j. i \<le> j \<and> j < i + k \<longrightarrow> \<not> killOnePid (kill j p))})"
proof (induction k arbitrary: i removed errs)
  case (Suc k)
  obtain r sent es where r: "kill_round (kill i) pids removed = (r, sent, es)" by (metis prod_cases3)
  note spec = kill_round_spec [OF r]
  have split: "(\<exists>j. i \<le> j \<and> j < i + Suc k \<and> P j) \<longleftrightarrow> P i \<or> (\<exists>j. Suc i \<le> j \<and> j < Suc i + k \<and> P j)" for P
  proof
    assume "\<exists>j. i \<le> j \<and> j < i + Suc k \<and> P j"
    then obtain j where "i \<le> j" "j < i + Suc k" "P j" by blast
    then show "P i \<or> (\<exists>j. Suc i \<le> j \<and> j < Suc i + k \<and> P j)" by (cases "j = i") auto
  next
    assume "P i \<or> (\<exists>j. Suc i \<le> j \<and> j < Suc i + k \<and> P j)"
    then show "\<exists>j. i \<le> j \<and> j < i + Suc k \<and> P j"
    proof
      assume "P i"
      then show ?thesis by (intro exI [of _ i]) simp
    next
      assume "\<exists>j. Suc i \<le> j \<and> j < Suc i + k \<and> P j"
      then obtain j where "Suc i \<le> j" "j < Suc i + k" "P j" by blast
      then show ?thesis by (intro exI [of _ j]) simp
    qed
  qed
  have splitA: "(\<forall>j. i \<le> j \<and> j < i + Suc k \<longrightarrow> P j) \<longleftrightarrow> P i \<and> (\<forall>j. Suc i \<le> j \<and> j < Suc i + k \<longrightarrow> P j)" for P
    using split [of "\<lambda>j. \<not> P j"] by blast
  show ?case
  proof (cases "es = []")
    case True
    then have "{p \<in> set pids. p \<notin> removed \<and> \<not> killOnePid (kill i p)} = {}" using spec by auto
    then have "\<forall>p \<in> set pids. p \<in> removed \<or> killOnePid (kill i p)" by blast
    with True r show ?thesis by auto
  next
    case False
    show ?thesis
    proof (cases "k = 0")
      case True
      with False r spec show ?thesis by (auto simp: le_less_Suc_eq)
    next
      case k: False
      with Suc.IH [where i = "Suc i" and removed = r and errs = es] False r spec show ?thesis
        unfolding split splitA by (auto split: option.splits)
    qed
  qed
qed simp

text \<open>
  \<open>tryKillingCgroupProcesses\<close> stops after at most five rounds; it reports success exactly
  when every process was killed (or found finished) in one of them, and otherwise reports exactly
  the processes that survived all five.
\<close>

theorem tryKilling_reports_survivors:
  "case tryKillingCgroupProcesses kill pids of
     None \<Rightarrow> \<forall>p \<in> set pids. \<exists>i < 5. killOnePid (kill i p)
   | Some errs \<Rightarrow> errs \<noteq> [] \<and> set errs = {p \<in> set pids. \<forall>i < 5. \<not> killOnePid (kill i p)}"
  using kill_rounds_spec [where k = 5 and kill = kill and pids = pids and i = 0 and removed = "{}" and errs = "[]"]
  by (auto simp: tryKillingCgroupProcesses_def split: option.splits)

subsection \<open>Creating a pod cgroup\<close>

text \<open>
  What the code relies on: when libcontainer's \<open>Apply\<close> succeeds, the cgroup's directory exists below
  every mount point.
\<close>

definition apply_creates :: "cgroup_manager \<Rightarrow> cgroup_lib \<Rightarrow> bool" where
  "apply_creates m lib \<longleftrightarrow>
     (\<forall>c dirs dirs'. cl_Apply lib c dirs = (True, dirs') \<longrightarrow>
        (\<forall>(key, val) \<in> set (cm_MountPoints m). dirs' (path_join [val, lc_Path c])))"

lemma EnsureExists_cases:
  assumes e: "EnsureExists m lib pod (nec, fs) = Inr (None, nec', fs')" and d: "\<not> cm_systemd (pm_cgroupManager m)"
  obtains name where "GetPodContainerName m pod = Inr (name, ToCgroupfs name)" "cm_Name (pm_cgroupManager m) name = Inr (ToCgroupfs name)"
    "pcm_Exists m fs pod = Inr True \<and> nec' = nec \<and> fs' = fs \<or>
     pcm_Exists m fs pod = Inr False \<and>
       cm_Create (pm_cgroupManager m) lib (pod_cgroup_config m name pod) (nec, fs) = Inr (None, nec', fs')"
proof -
  obtain name s b where n: "GetPodContainerName m pod = Inr (name, s)" "pcm_Exists m fs pod = Inr b"
    using e by (auto simp: EnsureExists_def res_bind_Inr)
  then have s: "s = ToCgroupfs name" "cm_Name (pm_cgroupManager m) name = Inr (ToCgroupfs name)"
    using GetPodContainerName_parts [OF n(1)] d by (auto simp: cm_Name_def)
  show ?thesis using e n s by (intro that [of name]) (auto simp: EnsureExists_def split: if_splits)
qed

lemma cc_Name_pod_cgroup_config [simp]: "cc_Name (pod_cgroup_config m name pod) = name"
  by (simp add: pod_cgroup_config_def Let_def)

lemma EnsureExists_exists:
  assumes e: "EnsureExists m lib pod (nec, fs) = Inr (None, nec', fs')"
    and d: "\<not> cm_systemd (pm_cgroupManager m)" and a: "apply_creates (pm_cgroupManager m) lib"
  shows "pcm_Exists m fs' pod = Inr True"
proof -
  let ?cm = "pm_cgroupManager m"
  obtain name where n: "GetPodContainerName m pod = Inr (name, ToCgroupfs name)" "cm_Name ?cm name = Inr (ToCgroupfs name)"
    "pcm_Exists m fs pod = Inr True \<and> nec' = nec \<and> fs' = fs \<or>
     pcm_Exists m fs pod = Inr False \<and> cm_Create ?cm lib (pod_cgroup_config m name pod) (nec, fs) = Inr (None, nec', fs')"
    using EnsureExists_cases [OF e d] by blast
  then show ?thesis
  proof (elim disjE conjE)
    assume cr: "cm_Create ?cm lib (pod_cgroup_config m name pod) (nec, fs) = Inr (None, nec', fs')"
    obtain c where c: "cl_Apply lib c (cf_dirs fs) = (True, cf_dirs fs')" "lc_Path c = ToCgroupfs name"
      using cm_Create_effect(2) [OF cr] d by auto
    then have all: "\<forall>(key, val) \<in> set (cm_MountPoints ?cm). cf_dirs fs' (path_join [val, ToCgroupfs name])"
      using a unfolding apply_creates_def by metis
    have "filter (\<lambda>(controller, path). controller \<in> set (whitelistControllers ?cm) \<and> \<not> cf_dirs fs' path)
        (map (\<lambda>(key, val). (key, path_join [val, ToCgroupfs name])) (cm_MountPoints ?cm)) = []"
      using all by (auto simp: filter_empty_conv)
    then have "cm_Exists ?cm fs' name = Inr True"
      by (simp add: cm_Exists_def buildCgroupPaths_def n(2))
    then show "pcm_Exists m fs' pod = Inr True" using n(1) by (simp add: pcm_Exists_def)
  qed simp
qed

text \<open>
  A successful \<open>EnsureExists\<close> (cgroupfs driver) makes \<open>Exists\<close> true for the pod, changes
  nothing when it already was, never touches the agent's pod or counter, and leaves the agent
  with the path it had or the path of this pod's cpu cgroup.
\<close>

theorem EnsureExists_makes_Exists:
  assumes e: "EnsureExists m lib pod (nec, fs) = Inr (None, nec', fs')"
    and d: "\<not> cm_systemd (pm_cgroupManager m)" and a: "apply_creates (pm_cgroupManager m) lib"
  shows "pcm_Exists m fs' pod = Inr True \<and>
    (pcm_Exists m fs pod = Inr True \<longrightarrow> nec' = nec \<and> fs' = fs) \<and>
    (\<exists>name. GetPodContainerName m pod = Inr (name, ToCgroupfs name) \<and>
       (nec' = nec \<or> nec' = SetCgroupPath (cpu_path (pm_cgroupManager m) name) nec))"
proof -
  obtain name where n: "GetPodContainerName m pod = Inr (name, ToCgroupfs name)"
    "pcm_Exists m fs pod = Inr True \<and> nec' = nec \<and> fs' = fs \<or>
     pcm_Exists m fs pod = Inr False \<and>
       cm_Create (pm_cgroupManager m) lib (pod_cgroup_config m name pod) (nec, fs) = Inr (None, nec', fs')"
    using EnsureExists_cases [OF e d] by blast
  then show ?thesis using EnsureExists_exists [OF e d a] by (auto dest!: cm_Create_effect(1))
qed

subsection \<open>The periodic QoS update redirects the agent\<close>

lemma update_until_error_path:
  "update_until_error m lib cs (nec, fs) = Inr (None, nec', fs') \<Longrightarrow> cs \<noteq> [] \<Longrightarrow>
     nec' = SetCgroupPath (cpu_path m (cc_Name (last cs))) nec"
proof (induction cs arbitrary: nec fs)
  case (Cons c cs)
  obtain e nec1 fs1 where u: "cm_Update m lib c (nec, fs) = Inr (e, nec1, fs1)"
    using Cons.prems(1) by (auto simp: res_bind_Inr)
  with Cons.prems(1) have e: "e = None" "update_until_error m lib cs (nec1, fs1) = Inr (None, nec', fs')"
    by (auto split: option.splits)
  then have n1: "nec1 = SetCgroupPath (cpu_path m (cc_Name c)) nec" using cm_Update_frame(2) [OF u] by simp
  show ?case
  proof (cases "cs = []")
    case True
    with n1 e show ?thesis by simp
  next
    case False
    with Cons.IH [OF e(2)] n1 show ?thesis by (simp add: SetCgroupPath_def)
  qed
qed simp

lemma update_all_path:
  "update_all m lib cs (nec, fs) = Inr (True, nec', fs') \<Longrightarrow> cs \<noteq> [] \<Longrightarrow>
     nec' = SetCgroupPath (cpu_path m (cc_Name (last cs))) nec"
proof (induction cs arbitrary: nec fs)
  case (Cons c cs)
  obtain e nec1 fs1 where u: "cm_Update m lib c (nec, fs) = Inr (e, nec1, fs1)"
    using Cons.prems(1) by (auto simp: res_bind_Inr)
  with Cons.prems(1) have e: "e = None" "update_all m lib cs (nec1, fs1) = Inr (True, nec', fs')"
    by (auto simp: res_bind_Inr)
  then have n1: "nec1 = SetCgroupPath (cpu_path m (cc_Name c)) nec" using cm_Update_frame(2) [OF u] by simp
  show ?case
  proof (cases "cs = []")
    case True
    with n1 e show ?thesis by simp
  next
    case False
    with Cons.IH [OF e(2)] n1 show ?thesis by (simp add: SetCgroupPath_def)
  qed
qed simp

lemma update_all_only_path:
  "update_all m lib cs (nec, fs) = Inr (ok, nec', fs') \<Longrightarrow> \<exists>p. nec' = SetCgroupPath p nec"
proof (induction cs arbitrary: nec fs ok)
  case Nil
  then have "nec' = SetCgroupPath (nec_path nec) nec" by (simp add: SetCgroupPath_def)
  then show ?case by blast
next
  case (Cons c cs)
  obtain e nec1 fs1 ok1 where u: "cm_Update m lib c (nec, fs) = Inr (e, nec1, fs1)"
    "update_all m lib cs (nec1, fs1) = Inr (ok1, nec', fs')"
    using Cons.prems by (auto simp: res_bind_Inr)
  have "\<exists>p. nec1 = SetCgroupPath p nec"
  proof (cases e)
    case None
    then show ?thesis using cm_Update_frame(2) [OF u(1)] by auto
  next
    case (Some x)
    then have "nec1 = SetCgroupPath (nec_path nec) nec" using cm_Update_frame(2) [OF u(1)] by (simp add: SetCgroupPath_def)
    then show ?thesis by blast
  qed
  with Cons.IH [OF u(2)] show ?case by (auto simp: SetCgroupPath_def)
qed

lemma ordered_configs_ne [simp]: "ordered_configs b cfgs \<noteq> []"
  by (simp add: ordered_configs_def)

lemma cc_Name_set [simp]: "cc_Name (set_shares n c) = cc_Name c" "cc_Name (set_memory n c) = cc_Name c"
  by (simp_all add: set_shares_def set_memory_def)

definition qos_names :: "qos_manager \<Rightarrow> qos_configs \<Rightarrow> bool" where
  "qos_names m cfgs \<longleftrightarrow>
     cc_Name (qc_Burstable cfgs) = qi_Burstable (qm_info m) \<and> cc_Name (qc_BestEffort cfgs) = qi_BestEffort (qm_info m)"

lemma retry_memory_name: "retry_memory stats c = Some c' \<Longrightarrow> cc_Name c' = cc_Name c"
  by (auto simp: retry_memory_def split: option.splits if_splits)

lemma qos_names_steps:
  "qos_names m cfgs \<Longrightarrow> qos_names m (setCPUCgroupConfig m pods cfgs)"
  "qos_names m cfgs \<Longrightarrow> qos_names m (setMemoryReserve m pods al p cfgs)"
  "qos_names m cfgs \<Longrightarrow> qos_names m (retrySetMemoryReserve b stats cfgs)"
    apply (simp add: qos_names_def setCPUCgroupConfig_def Let_def)
   apply (simp add: qos_names_def setMemoryReserve_def Let_def split: option.split)
  apply (cases b)
   apply (auto simp: qos_names_def retrySetMemoryReserve_def Let_def dest!: retry_memory_name split: option.splits)
  done

lemma last_ordered:
  "qos_names m cfgs \<Longrightarrow> cc_Name (last (ordered_configs b cfgs)) \<in> {qi_Burstable (qm_info m), qi_BestEffort (qm_info m)}"
  by (simp add: qos_names_def ordered_configs_def)

text \<open>
  C12: Every successful QoS update, which the kubelet runs periodically and at each new pod,
  points the agent at a QoS cgroup instead of the pod cgroup it was told before.
\<close>

theorem UpdateCgroups_redirects_agent:
  assumes u: "UpdateCgroups m lib env (nec, fs) = Inr (None, nec', fs')"
  shows "nec' = SetCgroupPath (cpu_path (qm_cgroupManager m) (qi_Burstable (qm_info m))) nec \<or>
    nec' = SetCgroupPath (cpu_path (qm_cgroupManager m) (qi_BestEffort (qm_info m))) nec"
proof -
  let ?cm = "qm_cgroupManager m"
  let ?c1 = "setCPUCgroupConfig m (qe_pods env)
    \<lparr>qc_Burstable = \<lparr>cc_Name = qi_Burstable (qm_info m), cc_ResourceParameters = empty_resource_config\<rparr>,
     qc_BestEffort = \<lparr>cc_Name = qi_BestEffort (qm_info m), cc_ResourceParameters = empty_resource_config\<rparr>\<rparr>"
  have n1: "qos_names m ?c1" by (rule qos_names_steps) (simp add: qos_names_def)
  obtain b e where be: "setHugePagesUnbounded lib (qe_ramInBytes env) (qc_Burstable ?c1) = Some b"
    "setHugePagesUnbounded lib (qe_ramInBytes env) (qc_BestEffort ?c1) = Some e"
    using u by (auto simp: UpdateCgroups_def Let_def split: option.splits)
  let ?c2 = "\<lparr>qc_Burstable = b, qc_BestEffort = e\<rparr>"
  have n2: "qos_names m ?c2"
    using n1 be by (auto simp: qos_names_def setHugePagesUnbounded_def split: option.splits)
  have fin: ?thesis
    if "qos_names m cfgs" "nec1 = SetCgroupPath p nec"
      "update_until_error ?cm lib (ordered_configs bf cfgs) (nec1, fs1) = Inr (None, nec', fs')" for cfgs nec1 p bf fs1
    using update_until_error_path [OF that(3)] last_ordered [OF that(1), of bf] that(2)
    by (auto simp: SetCgroupPath_def)
  have self: "nec = SetCgroupPath (nec_path nec) nec" by (simp add: SetCgroupPath_def)
  show ?thesis
  proof (cases "qm_reservedGate m")
    case False
    then have "update_until_error ?cm lib (ordered_configs (qe_burstableFirst env 2) ?c2) (nec, fs) = Inr (None, nec', fs')"
      using u be by (auto simp: UpdateCgroups_def Let_def res_bind_Inr)
    with fin [OF n2 self] show ?thesis .
  next
    case True
    define c3 where "c3 = (case qm_reservedMemory m of
      Some p \<Rightarrow> setMemoryReserve m (qe_pods env) (qe_allocatable env) p ?c2 | None \<Rightarrow> ?c2)"
    define c4 where "c4 = (case qm_reservedMemory m of
      Some _ \<Rightarrow> retrySetMemoryReserve (qe_burstableFirst env 1) (qe_stats env) c3 | None \<Rightarrow> c3)"
    have n3: "qos_names m c3" and n4: "qos_names m c4"
      using n2 qos_names_steps by (auto simp: c3_def c4_def split: option.split)
    have "\<exists>ok nec1 fs1. update_all ?cm lib (ordered_configs (qe_burstableFirst env 0) c3) (nec, fs) = Inr (ok, nec1, fs1) \<and>
      (if ok then (nec1, fs1) = (nec', fs')
        else update_until_error ?cm lib (ordered_configs (qe_burstableFirst env 2) c4) (nec1, fs1) = Inr (None, nec', fs'))"
      using u be True unfolding c4_def c3_def by (fastforce simp: UpdateCgroups_def Let_def res_bind_Inr split: if_splits)
    then obtain ok nec1 fs1 where a: "update_all ?cm lib (ordered_configs (qe_burstableFirst env 0) c3) (nec, fs) = Inr (ok, nec1, fs1)"
      and r: "if ok then (nec1, fs1) = (nec', fs')
        else update_until_error ?cm lib (ordered_configs (qe_burstableFirst env 2) c4) (nec1, fs1) = Inr (None, nec', fs')"
      by blast
    show ?thesis
    proof (cases ok)
      case True
      let ?cs = "ordered_configs (qe_burstableFirst env 0) c3"
      from True a r have "update_all ?cm lib ?cs (nec, fs) = Inr (True, nec', fs')" by simp
      from update_all_path [OF this] have "nec' = SetCgroupPath (cpu_path ?cm (cc_Name (last ?cs))) nec" by simp
      with last_ordered [OF n3, of "qe_burstableFirst env 0"] show ?thesis by auto
    next
      case False
      obtain p where "nec1 = SetCgroupPath p nec" using update_all_only_path [OF a] by blast
      with fin [OF n4] r False show ?thesis by auto
    qed
  qed
qed

subsection \<open>A node with the cgroupfs driver\<close>

definition demo_cm :: cgroup_manager where
  "demo_cm = \<lparr>cm_MountPoints = [(''cpu'', ''/cg/cpu''), (''memory'', ''/cg/memory'')], cm_systemd = False,
     cm_podPidsGate = False, cm_nodePidsGate = False\<rparr>"

definition demo_pcm :: pod_container_manager where
  "demo_pcm = \<lparr>pm_qos = \<lparr>qi_Guaranteed = [''kubepods''], qi_BestEffort = [''kubepods'', ''besteffort''],
       qi_Burstable = [''kubepods'', ''burstable'']\<rparr>,
     pm_cgroupManager = demo_cm, pm_podPidsLimit = 0, pm_enforceCPULimits = True,
     pm_cpuCFSQuotaPeriod = 100000, pm_overheadGate = False, pm_periodGate = False\<rparr>"

definition demo_lib :: cgroup_lib where
  "demo_lib = \<lparr>cl_UseSystemd = False, cl_Set_ok = (\<lambda>_ _. True), cl_Apply = (\<lambda>_ _. (True, \<lambda>_. True)),
     cl_Destroy = (\<lambda>_ dirs. (True, dirs)), cl_order = id, cl_HugePageSizes = []\<rparr>"

definition demo_uid_pod :: pod where
  "demo_uid_pod = empty_pod\<lparr>p_UID := ''u1''\<rparr>"

definition demo_fs :: cgroup_fs where
  "demo_fs = \<lparr>cf_dirs = (\<lambda>_. False), cf_settings = []\<rparr>"

lemma demo_qos: "GetPodQOS demo_uid_pod = PodQOSBestEffort"
  by (simp add: GetPodQOS_def demo_uid_pod_def empty_pod_def Let_def)

lemma demo_valid: "valid_cgroupfs [''kubepods'', ''besteffort'', ''podu1'']"
  by (simp add: valid_cgroupfs_def plain_component_def)

lemma demo_pcm_simps [simp]:
  "pm_cgroupManager demo_pcm = demo_cm" "cm_systemd demo_cm = False" "p_UID demo_uid_pod = ''u1''"
  "qi_BestEffort (pm_qos demo_pcm) = [''kubepods'', ''besteffort'']"
  "qi_Burstable (pm_qos demo_pcm) = [''kubepods'', ''burstable'']"
  "qi_Guaranteed (pm_qos demo_pcm) = [''kubepods'']"
  by (simp_all add: demo_pcm_def demo_cm_def demo_uid_pod_def)

lemma demo_name: "GetPodContainerName demo_pcm demo_uid_pod =
    Inr ([''kubepods'', ''besteffort'', ''podu1''], ''/kubepods/besteffort/podu1'')"
  using ToCgroupfs_plain [OF demo_valid]
  by (simp add: GetPodContainerName_def Let_def demo_qos NewCgroupName_def GetPodCgroupNameSuffix_def
      podCgroupNamePrefix_def cm_Name_def)

theorem pod_cgroup_recognised_witness:
  "IsPodCgroup demo_pcm ''/kubepods/besteffort/podu1'' = (True, ''u1'')"
  using pod_cgroup_recognised [OF demo_name]
  by (simp add: driver_valid_def demo_valid podCgroupNamePrefix_def has_prefix_def)

theorem IsPodCgroup_ignores_parent_witness:
  "IsPodCgroup demo_pcm ''/system/podx'' = (True, ''x'')"
proof -
  have v: "valid_cgroupfs [''system'', ''podx'']" by (simp add: valid_cgroupfs_def plain_component_def)
  show ?thesis
    using IsPodCgroup_ignores_parent [of demo_pcm "[''system'']" "''x''" "''/system/podx''"] v ToCgroupfs_plain [OF v]
    by (simp add: driver_valid_def podCgroupNamePrefix_def has_prefix_def cm_Name_def qos_depth_def)
qed

lemma demo_exists: "cf_dirs fs = (\<lambda>_. False) \<Longrightarrow> pcm_Exists demo_pcm fs demo_uid_pod = Inr False"
  using ToCgroupfs_plain [OF demo_valid]
  by (simp add: pcm_Exists_def demo_name cm_Exists_def buildCgroupPaths_def cm_Name_def
      whitelistControllers_def demo_cm_def)

lemma demo_create:
  assumes "cf_dirs fs = (\<lambda>_. False)"
  shows "\<exists>nec' fs'. EnsureExists demo_pcm demo_lib demo_uid_pod (nec, fs) = Inr (None, nec', fs')"
proof -
  have "\<exists>nec' fs'. cm_Create demo_cm demo_lib (pod_cgroup_config demo_pcm [''kubepods'', ''besteffort'', ''podu1''] demo_uid_pod)
      (nec, fs) = Inr (None, nec', fs')"
    by (simp add: cm_Create_def with_driver_name_def newManager_def cm_Update_def buildCgroupPaths_def cm_Name_def
        setSupportedSubsystems_def getSupportedSubsystems_def demo_lib_def demo_cm_def empty_cgroup_def
        split: option.split)
  then show ?thesis by (simp add: EnsureExists_def demo_name demo_exists [OF assms])
qed

text \<open>A library whose \<open>Apply\<close> always fails.\<close>

definition failing_lib :: cgroup_lib where
  "failing_lib = demo_lib\<lparr>cl_Apply := (\<lambda>_ dirs. (False, dirs))\<rparr>"

lemma demo_create_fails:
  assumes "cf_dirs fs = (\<lambda>_. False)"
  shows "EnsureExists demo_pcm failing_lib demo_uid_pod (nec, fs) = Inr (Some ApplyFailed, nec, fs)"
  by (simp add: EnsureExists_def demo_name demo_exists [OF assms] cm_Create_def with_driver_name_def newManager_def
      failing_lib_def)

theorem EnsureExists_makes_Exists_witness:
  "\<exists>nec' fs'. EnsureExists demo_pcm demo_lib demo_uid_pod (new_necon, demo_fs) = Inr (None, nec', fs') \<and>
     pcm_Exists demo_pcm fs' demo_uid_pod = Inr True"
proof -
  obtain nec' fs' where e: "EnsureExists demo_pcm demo_lib demo_uid_pod (new_necon, demo_fs) = Inr (None, nec', fs')"
    using demo_create [where fs = demo_fs and nec = new_necon] by (auto simp: demo_fs_def)
  have "apply_creates (pm_cgroupManager demo_pcm) demo_lib" by (simp add: apply_creates_def demo_lib_def)
  from EnsureExists_makes_Exists [OF e _ this] e show ?thesis by auto
qed

definition demo_qm :: qos_manager where
  "demo_qm = \<lparr>qm_info = pm_qos demo_pcm, qm_cgroupManager = demo_cm, qm_cgroupRoot = [''kubepods''],
     qm_reservedMemory = None, qm_reservedGate = False, qm_overheadGate = False\<rparr>"

definition demo_qenv :: qos_env where
  "demo_qenv = \<lparr>qe_pods = [], qe_allocatable = [], qe_stats = (\<lambda>_. None), qe_ramInBytes = (\<lambda>_. None),
     qe_burstableFirst = (\<lambda>_. True)\<rparr>"

lemma demo_update:
  "\<exists>nec' fs'. UpdateCgroups demo_qm (demo_lib\<lparr>cl_Apply := f\<rparr>) demo_qenv (nec, fs) = Inr (None, nec', fs')"
  by (simp add: UpdateCgroups_def Let_def setHugePagesUnbounded_def demo_qm_def demo_qenv_def ordered_configs_def
      cm_Update_def with_driver_name_def buildCgroupPaths_def cm_Name_def
      setSupportedSubsystems_def getSupportedSubsystems_def demo_lib_def demo_cm_def empty_cgroup_def limit_pids_def
      setCPUCgroupConfig_def set_shares_def empty_resource_config_def)

theorem UpdateCgroups_redirects_agent_witness:
  "\<exists>nec' fs'. UpdateCgroups demo_qm demo_lib demo_qenv (SetCgroupPath ''/cg/cpu/kubepods/podu1'' new_necon, demo_fs) =
      Inr (None, nec', fs') \<and> nec_path nec' \<noteq> ''/cg/cpu/kubepods/podu1''"
proof -
  let ?n = "SetCgroupPath ''/cg/cpu/kubepods/podu1'' new_necon"
  have v: "valid_cgroupfs [''kubepods'', ''burstable'']" "valid_cgroupfs [''kubepods'', ''besteffort'']"
    by (simp_all add: valid_cgroupfs_def plain_component_def)
  have "\<exists>nec' fs'. UpdateCgroups demo_qm demo_lib demo_qenv (?n, demo_fs) = Inr (None, nec', fs')"
    using demo_update [of "cl_Apply demo_lib"] by simp
  then obtain nec' fs' where u: "UpdateCgroups demo_qm demo_lib demo_qenv (?n, demo_fs) = Inr (None, nec', fs')" by blast
  have "cpu_path demo_cm [''kubepods'', ''burstable''] = path_join [''/cg/cpu'', ''/kubepods/burstable'']"
    "cpu_path demo_cm [''kubepods'', ''besteffort''] = path_join [''/cg/cpu'', ''/kubepods/besteffort'']"
    using ToCgroupfs_plain [OF v(1)] ToCgroupfs_plain [OF v(2)]
    by (simp_all add: cpu_path_def cm_Name_def demo_cm_def)
  moreover have "path_join [''/cg/cpu'', ''/kubepods/burstable''] = ''/cg/cpu/kubepods/burstable''"
    "path_join [''/cg/cpu'', ''/kubepods/besteffort''] = ''/cg/cpu/kubepods/besteffort''"
    by (simp_all add: path_join_def path_clean_def Let_def clean_step_def)
  ultimately show ?thesis using u UpdateCgroups_redirects_agent [OF u]
    by (auto simp: demo_qm_def demo_pcm_def SetCgroupPath_def)
qed

theorem tryKilling_reports_survivors_witness:
  "\<exists>errs. tryKillingCgroupProcesses (\<lambda>i p. if p = 7 \<and> 0 < i then KillDone else KillError ''denied'') [7, 9] = Some errs \<and>
     set errs = {9}"
proof -
  let ?kill = "\<lambda>i p. if p = (7::int) \<and> (0::nat) < i then KillDone else KillError ''denied''"
  have d: "\<not> killOnePid (KillError ''denied'')" "killOnePid KillDone" by (simp_all add: killOnePid_def has_prefix_def)
  then have k: "killOnePid (?kill i p) \<longleftrightarrow> p = 7 \<and> 0 < i" for i p by simp
  have "\<exists>i::nat. i < 5 \<and> 0 < i" by (intro exI [of _ 1]) simp
  then show ?thesis
    using tryKilling_reports_survivors [where kill = ?kill and pids = "[7, 9]"] unfolding k by (auto split: option.splits)
qed

end
