(* ===== verification/KubeletSync.thy ===== *)
theory KubeletSync
  imports RuntimeSync PodContainers
begin

section \<open>One sync of a pod by the kubelet\<close>

text \<open>
  \<open>syncPod\<close>, \<open>canRunPod\<close> (\<open>pkg/kubelet/kubelet.go\<close>), \<open>killPod\<close>, \<open>podAndContainersAreTerminal\<close>,
  \<open>makePodDataDirs\<close> (\<open>kubelet_pods.go\<close>), with the hook that announces a pod to the network agent.
  The status generator, the admission handlers, the mirror-pod client and the volume manager answer
  through \<open>kubelet_env\<close>.  Metrics, events and the pull secrets are not modelled.
\<close>

datatype sync_type = SyncPodSync | SyncPodUpdate | SyncPodCreate | SyncPodKill

datatype pod_phase = PodPending | PodRunning | PodSucceeded | PodFailed | PodUnknown

record api_container =
  ac_Waiting :: "string option"
  ac_Running :: bool
  ac_Terminated :: bool

record api_status =
  as_Phase :: pod_phase
  as_Reason :: string
  as_PodIPs :: "string list"
  as_PodIP :: string
  as_InitContainers :: "api_container list"
  as_Containers :: "api_container list"

record kill_options =
  ko_status :: "(pod \<Rightarrow> pod_status \<Rightarrow> api_status) option"
  ko_grace :: "int option"

record mirror_pod =
  mp_Deleting :: bool
  mp_IsMirror :: bool

datatype kl_call =
    KSetPodStatus string
  | KKillPod
  | KUpdateQOSCgroups
  | KSetNeconPod
  | KEnsureExists
  | KDeleteMirrorPod
  | KCreateMirrorPod
  | KMkdirAll string
  | KWaitForAttachAndMount
  | KSyncPod

datatype kl_error =
    ErrKillOptions | ErrKillingPod | ErrCannotRun | ErrNetworkNotReady
  | ErrEnsureExists cgroup_error | ErrPodDataDirs | ErrVolumes | ErrRuntimeSync

record kl_state =
  kl_rt :: rt_state
  kl_fs :: cgroup_fs
  kl_statuses :: "string \<Rightarrow> api_status option"
  kl_calls :: "kl_call list"

record kubelet_env =
  ke_runtime :: runtime_env
  ke_CgroupsPerQOS :: bool
  ke_pcm :: pod_container_manager
  ke_lib :: cgroup_lib
  ke_qm :: qos_manager
  ke_qosEnv :: "kl_state \<Rightarrow> qos_env"
  ke_generateAPIPodStatus :: "pod \<Rightarrow> pod_status \<Rightarrow> api_status"
  ke_updateStatus :: "api_status option \<Rightarrow> api_status \<Rightarrow> api_status"
  ke_Status :: "pod \<Rightarrow> api_status"
  ke_pods :: "pod list"
  ke_softAdmitHandlers :: "(pod \<Rightarrow> pod list \<Rightarrow> string option) list"
  ke_networkErrors :: bool
  ke_podText :: "pod \<Rightarrow> string"
  ke_source :: "pod \<Rightarrow> string option"
  ke_DeleteMirrorPod :: bool
  ke_nodeUsable :: bool
  ke_MkdirAll :: "string \<Rightarrow> bool"
  ke_WaitForAttachAndMount :: bool

definition kl_log :: "kl_call \<Rightarrow> kl_state \<Rightarrow> kl_state" where
  "kl_log c s = s\<lparr>kl_calls := kl_calls s @ [c]\<rparr>"

definition kl_agent :: "kl_state \<Rightarrow> necon" where
  "kl_agent s = fst (rs_agent (kl_rt s))"

definition kl_os :: "kl_state \<Rightarrow> os_state" where
  "kl_os s = snd (rs_agent (kl_rt s))"

definition set_agent :: "necon \<Rightarrow> kl_state \<Rightarrow> kl_state" where
  "set_agent nec s = s\<lparr>kl_rt := (kl_rt s)\<lparr>rs_agent := (nec, kl_os s)\<rparr>\<rparr>"

text \<open>An operation of the cgroup layer, run on the agent and the cgroup file system of the kubelet.\<close>

definition on_cgroups ::
  "(necon \<times> cgroup_fs \<Rightarrow> go_panic + ('e \<times> necon \<times> cgroup_fs)) \<Rightarrow> kl_state \<Rightarrow> go_panic + ('e \<times> kl_state)" where
  "on_cgroups f s =
     res_bind (f (kl_agent s, kl_fs s)) (\<lambda>(e, nec, fs). Inr (e, (set_agent nec s)\<lparr>kl_fs := fs\<rparr>))"

subsection \<open>Status, admission, termination\<close>

definition SetPodStatus :: "kubelet_env \<Rightarrow> pod \<Rightarrow> api_status \<Rightarrow> kl_state \<Rightarrow> kl_state" where
  "SetPodStatus env pod st s =
     kl_log (KSetPodStatus (p_UID pod))
       (s\<lparr>kl_statuses := (kl_statuses s)(p_UID pod \<mapsto> ke_updateStatus env (kl_statuses s (p_UID pod)) st)\<rparr>)"

definition notRunning :: "api_container list \<Rightarrow> bool" where
  "notRunning cs \<longleftrightarrow> list_all (\<lambda>c. ac_Terminated c \<or> ac_Waiting c \<noteq> None) cs"

definition podAndContainersAreTerminal :: "kubelet_env \<Rightarrow> kl_state \<Rightarrow> pod \<Rightarrow> bool \<times> bool" where
  "podAndContainersAreTerminal env s pod =
     (let status = (case kl_statuses s (p_UID pod) of Some st \<Rightarrow> st | None \<Rightarrow> ke_Status env pod);
          containersTerminal = notRunning (as_Containers status)
      in (containersTerminal,
          as_Phase status = PodFailed \<or> as_Phase status = PodSucceeded \<or> p_Deleting pod \<and> containersTerminal))"

definition podIsTerminated :: "kubelet_env \<Rightarrow> kl_state \<Rightarrow> pod \<Rightarrow> bool" where
  "podIsTerminated env s pod = snd (podAndContainersAreTerminal env s pod)"

definition filterOutTerminatedPods :: "kubelet_env \<Rightarrow> kl_state \<Rightarrow> pod list \<Rightarrow> pod list" where
  "filterOutTerminatedPods env s pods = filter (\<lambda>p. \<not> podIsTerminated env s p) pods"

text \<open>\<open>None\<close> admits the pod, \<open>Some reason\<close> is the answer of the first handler that rejects it.\<close>

definition canRunPod :: "kubelet_env \<Rightarrow> kl_state \<Rightarrow> pod \<Rightarrow> string option" where
  "canRunPod env s pod =
     (let others = filterOutTerminatedPods env s (ke_pods env) in
      case find (\<lambda>h. h pod others \<noteq> None) (ke_softAdmitHandlers env) of
        None \<Rightarrow> None | Some h \<Rightarrow> h pod others)"

definition block_containers :: "api_container list \<Rightarrow> api_container list" where
  "block_containers cs = map (\<lambda>c. if ac_Waiting c \<noteq> None then c\<lparr>ac_Waiting := Some ''Blocked''\<rparr> else c) cs"

definition GetPodSource :: "kubelet_env \<Rightarrow> pod \<Rightarrow> string option" where
  "GetPodSource env pod = ke_source env pod"

definition IsStaticPod :: "kubelet_env \<Rightarrow> pod \<Rightarrow> bool" where
  "IsStaticPod env pod \<longleftrightarrow> (case GetPodSource env pod of None \<Rightarrow> False | Some src \<Rightarrow> src \<noteq> ''api'')"

subsection \<open>Cgroups and killing\<close>

text \<open>Without \<open>CgroupsPerQOS\<close> both managers are those that do nothing (\<open>qosContainerManagerNoop\<close>, \<open>podContainerManagerNoop\<close>).\<close>

definition UpdateQOSCgroups :: "kubelet_env \<Rightarrow> kl_state \<Rightarrow> go_panic + (update_error option \<times> kl_state)" where
  "UpdateQOSCgroups env s =
     (if ke_CgroupsPerQOS env
      then on_cgroups (UpdateCgroups (ke_qm env) (ke_lib env) (ke_qosEnv env s)) (kl_log KUpdateQOSCgroups s)
      else Inr (None, kl_log KUpdateQOSCgroups s))"

definition kl_Exists :: "kubelet_env \<Rightarrow> kl_state \<Rightarrow> pod \<Rightarrow> go_panic + bool" where
  "kl_Exists env s pod = (if ke_CgroupsPerQOS env then pcm_Exists (ke_pcm env) (kl_fs s) pod else Inr True)"

definition kl_EnsureExists :: "kubelet_env \<Rightarrow> pod \<Rightarrow> kl_state \<Rightarrow> go_panic + (cgroup_error option \<times> kl_state)" where
  "kl_EnsureExists env pod s =
     (if ke_CgroupsPerQOS env then on_cgroups (EnsureExists (ke_pcm env) (ke_lib env) pod) (kl_log KEnsureExists s)
      else Inr (None, s))"

text \<open>\<open>killPod\<close>: \<open>True\<close> when it succeeds.  The error of \<open>UpdateQOSCgroups\<close> is only logged.\<close>

definition killPod :: "kubelet_env \<Rightarrow> pod \<Rightarrow> pod_status \<Rightarrow> int option \<Rightarrow> kl_state \<Rightarrow> go_panic + (bool \<times> kl_state)" where
  "killPod env pod ps grace s =
     (case killPodWithSyncResult (ke_runtime env) pod ps grace (kl_rt s) of
        (ok, rt) \<Rightarrow>
          let s1 = kl_log KKillPod (s\<lparr>kl_rt := rt\<rparr>) in
          if \<not> ok then Inr (False, s1)
          else res_bind (UpdateQOSCgroups env s1) (\<lambda>(_, s2). Inr (True, s2)))"

subsection \<open>The steps of syncPod\<close>

text \<open>The hook of the network agent, with the line it prints.\<close>

definition announce :: "kubelet_env \<Rightarrow> pod \<Rightarrow> kl_state \<Rightarrow> kl_state" where
  "announce env pod s =
     kl_log KSetNeconPod (s\<lparr>kl_rt := (kl_rt s)\<lparr>rs_agent :=
       (SetNeconPod pod (kl_agent s), Println (kl_os s) (''pod : '' @ ke_podText env pod))\<rparr>\<rparr>)"

definition sync_cgroups :: "kubelet_env \<Rightarrow> pod \<Rightarrow> pod_status \<Rightarrow> api_status \<Rightarrow> kl_state \<Rightarrow> go_panic + (kl_error option \<times> kl_state)" where
  "sync_cgroups env pod ps st s0 =
     (if podIsTerminated env s0 pod then Inr (None, s0)
      else
        let firstSync = list_all (\<lambda>c. \<not> ac_Running c) (as_Containers st) in
        res_bind (kl_Exists env s0 pod) (\<lambda>ex0.
        res_bind (if \<not> ex0 \<and> \<not> firstSync then killPod env pod ps None s0 else Inr (False, s0)) (\<lambda>(podKilled, s1).
          if podKilled \<and> p_RestartPolicy pod = RestartNever then Inr (None, s1)
          else
            res_bind (kl_Exists env s1 pod) (\<lambda>ex1.
              if ex1 then Inr (None, s1)
              else
                res_bind (UpdateQOSCgroups env (announce env pod s1)) (\<lambda>(_, s3).
                res_bind (kl_EnsureExists env pod s3) (\<lambda>(e, s4).
                  Inr (map_option ErrEnsureExists e, s4)))))))"

definition sync_mirror :: "kubelet_env \<Rightarrow> pod \<Rightarrow> mirror_pod option \<Rightarrow> kl_state \<Rightarrow> kl_state" where
  "sync_mirror env pod mirror s =
     (if \<not> IsStaticPod env pod then s
      else
        let outdated = (case mirror of None \<Rightarrow> False | Some m \<Rightarrow> mp_Deleting m \<or> \<not> mp_IsMirror m);
            s1 = (if outdated then kl_log KDeleteMirrorPod s else s);
            deleted = (outdated \<and> ke_DeleteMirrorPod env)
        in if (mirror = None \<or> deleted) \<and> ke_nodeUsable env then kl_log KCreateMirrorPod s1 else s1)"

definition makePodDataDirs :: "kubelet_env \<Rightarrow> pod \<Rightarrow> kl_state \<Rightarrow> bool \<times> kl_state" where
  "makePodDataDirs env pod s =
     (let d0 = p_UID pod; d1 = p_UID pod @ ''/volumes''; d2 = p_UID pod @ ''/plugins''; s1 = kl_log (KMkdirAll d0) s in
      if \<not> ke_MkdirAll env d0 then (False, s1)
      else
        let s2 = kl_log (KMkdirAll d1) s1 in
        if \<not> ke_MkdirAll env d1 then (False, s2)
        else
          let s3 = kl_log (KMkdirAll d2) s2 in
          (ke_MkdirAll env d2, s3))"

definition is_backoff_result :: "sync_result \<Rightarrow> bool" where
  "is_backoff_result r \<longleftrightarrow> sr_Error r = Some ErrCrashLoopBackOff \<or> sr_Error r = Some ErrImagePullBackOff"

text \<open>\<open>PodSyncResult.Error\<close>: whether it is not nil.\<close>

definition pod_sync_error :: "rt_state \<Rightarrow> bool" where
  "pod_sync_error s \<longleftrightarrow> rs_SyncError s \<or> list_ex (\<lambda>r. sr_Error r \<noteq> None) (rs_results s)"

definition runtime_error :: "rt_state \<Rightarrow> kl_error option" where
  "runtime_error s =
     (if pod_sync_error s then
        if list_ex (\<lambda>r. \<not> is_backoff_result r) (rs_results s) then Some ErrRuntimeSync else None
      else None)"

text \<open>From the cgroups on: the path of a pod that should run.\<close>

definition sync_runnable ::
  "kubelet_env \<Rightarrow> pod \<Rightarrow> mirror_pod option \<Rightarrow> pod_status \<Rightarrow> api_status \<Rightarrow> kl_state \<Rightarrow> go_panic + (kl_error option \<times> kl_state)" where
  "sync_runnable env pod mirror ps st s0 =
     res_bind (sync_cgroups env pod ps st s0) (\<lambda>(e, s1).
       if e \<noteq> None then Inr (e, s1)
       else case makePodDataDirs env pod (sync_mirror env pod mirror s1) of
         (False, s2) \<Rightarrow> Inr (Some ErrPodDataDirs, s2)
       | (True, s2) \<Rightarrow>
           let wait = \<not> podIsTerminated env s2 pod;
               s3 = (if wait then kl_log KWaitForAttachAndMount s2 else s2) in
           if wait \<and> \<not> ke_WaitForAttachAndMount env then Inr (Some ErrVolumes, s3)
           else
             let s4 = kl_log KSyncPod s3 in
             res_bind (SyncPod (ke_runtime env) pod ps ((kl_rt s4)\<lparr>rs_results := [], rs_SyncError := False\<rparr>)) (\<lambda>rt.
               Inr (runtime_error rt, s4\<lparr>kl_rt := rt\<rparr>)))"

definition pod_ips :: "api_status \<Rightarrow> string list" where
  "pod_ips st = (if as_PodIPs st = [] \<and> as_PodIP st \<noteq> [] then [as_PodIP st] else as_PodIPs st)"

definition syncPod ::
  "kubelet_env \<Rightarrow> sync_type \<Rightarrow> pod \<Rightarrow> mirror_pod option \<Rightarrow> pod_status \<Rightarrow> kill_options option \<Rightarrow> kl_state \<Rightarrow>
     go_panic + (kl_error option \<times> kl_state)" where
  "syncPod env updateType pod mirror ps0 killOpts s0 =
     (if updateType = SyncPodKill then
        (case killOpts of
           None \<Rightarrow> Inr (Some ErrKillOptions, s0)
         | Some ko \<Rightarrow>
             (case ko_status ko of
                None \<Rightarrow> Inr (Some ErrKillOptions, s0)
              | Some f \<Rightarrow>
                  res_bind (killPod env pod ps0 (ko_grace ko) (SetPodStatus env pod (f pod ps0) s0)) (\<lambda>(ok, s1).
                    Inr (if ok then None else Some ErrKillingPod, s1))))
      else
        let st0 = ke_generateAPIPodStatus env pod ps0;
            ps = ps0\<lparr>ps_IPs := pod_ips st0\<rparr>;
            runnable = canRunPod env s0 pod;
            st = (case runnable of None \<Rightarrow> st0
                  | Some reason \<Rightarrow> st0\<lparr>as_Reason := reason, as_InitContainers := block_containers (as_InitContainers st0),
                                     as_Containers := block_containers (as_Containers st0)\<rparr>);
            s1 = SetPodStatus env pod st s0
        in
        if runnable \<noteq> None \<or> p_Deleting pod \<or> as_Phase st = PodFailed then
          res_bind (killPod env pod ps None s1) (\<lambda>(ok, s2).
            Inr (if \<not> ok then Some ErrKillingPod else if runnable \<noteq> None then Some ErrCannotRun else None, s2))
        else if ke_networkErrors env \<and> \<not> p_HostNetwork pod then Inr (Some ErrNetworkNotReady, s1)
        else sync_runnable env pod mirror ps st s1)"

subsection \<open>Steps that leave the agent's pod and counter alone\<close>

lemma update_all_frame:
  "update_all m lib cs (nec, fs) = Inr (ok, nec', fs') \<Longrightarrow>
    nec_pod nec' = nec_pod nec \<and> nec_count nec' = nec_count nec \<and> cf_dirs fs' = cf_dirs fs"
proof (induction cs arbitrary: nec fs ok)
  case (Cons c cs)
  then obtain e nec1 fs1 ok1 where 1: "cm_Update m lib c (nec, fs) = Inr (e, nec1, fs1)"
    "update_all m lib cs (nec1, fs1) = Inr (ok1, nec', fs')" by (auto simp: res_bind_Inr)
  show ?case using Cons.IH [OF 1(2)] cm_Update_frame [OF 1(1)] by (simp add: SetCgroupPath_def split: if_splits)
qed simp

lemma update_until_error_frame:
  "update_until_error m lib cs (nec, fs) = Inr (e, nec', fs') \<Longrightarrow>
    nec_pod nec' = nec_pod nec \<and> nec_count nec' = nec_count nec \<and> cf_dirs fs' = cf_dirs fs"
proof (induction cs arbitrary: nec fs)
  case (Cons c cs)
  then obtain e1 nec1 fs1 where 1: "cm_Update m lib c (nec, fs) = Inr (e1, nec1, fs1)"
    "(case e1 of Some err \<Rightarrow> Inr (Some err, nec1, fs1) | None \<Rightarrow> update_until_error m lib cs (nec1, fs1)) = Inr (e, nec', fs')"
    by (auto simp: res_bind_Inr)
  then show ?case using Cons.IH [of nec1 fs1] cm_Update_frame [OF 1(1)]
    by (cases e1) (auto simp: SetCgroupPath_def)
qed simp

lemma UpdateCgroups_frame:
  "UpdateCgroups m lib env (nec, fs) = Inr (e, nec', fs') \<Longrightarrow>
    nec_pod nec' = nec_pod nec \<and> nec_count nec' = nec_count nec \<and> cf_dirs fs' = cf_dirs fs"
  unfolding UpdateCgroups_def Let_def
  by (auto simp: res_bind_Inr split: option.splits if_splits
      dest!: update_all_frame update_until_error_frame)

lemma EnsureExists_frame:
  assumes "EnsureExists m lib pod (nec, fs) = Inr (e, nec', fs')"
  shows "nec_pod nec' = nec_pod nec \<and> nec_count nec' = nec_count nec"
proof -
  obtain name s b where n: "GetPodContainerName m pod = Inr (name, s)" "pcm_Exists m fs pod = Inr b"
    using assms by (auto simp: EnsureExists_def res_bind_Inr)
  then show ?thesis using assms
    by (auto simp: EnsureExists_def SetCgroupPath_def split: if_splits dest!: cm_Create_effect(1))
qed

lemma pcm_Exists_dirs: "cf_dirs fs = cf_dirs fs' \<Longrightarrow> pcm_Exists m fs pod = pcm_Exists m fs' pod"
  by (simp add: pcm_Exists_def cm_Exists_def)

lemma kl_Exists_dirs: "cf_dirs (kl_fs s') = cf_dirs (kl_fs s) \<Longrightarrow> kl_Exists env s' pod = kl_Exists env s pod"
  unfolding kl_Exists_def by (simp add: pcm_Exists_dirs [of "kl_fs s'" "kl_fs s"])

definition quiet :: "kl_state \<Rightarrow> kl_state \<Rightarrow> bool" where
  "quiet s s' \<longleftrightarrow> nec_pod (kl_agent s') = nec_pod (kl_agent s) \<and> nec_count (kl_agent s') = nec_count (kl_agent s) \<and>
     kl_os s' = kl_os s \<and> (\<exists>cs. kl_calls s' = kl_calls s @ cs \<and> KSetNeconPod \<notin> set cs)"

lemma quiet_refl [simp]: "quiet s s"
  by (simp add: quiet_def)

lemma quiet_trans: "quiet s s' \<Longrightarrow> quiet s' s'' \<Longrightarrow> quiet s s''"
  by (auto simp: quiet_def)

lemma quiet_log: "c \<noteq> KSetNeconPod \<Longrightarrow> quiet s (kl_log c s)"
  by (simp add: quiet_def kl_log_def kl_agent_def kl_os_def)

lemma quiet_cgroups:
  assumes "on_cgroups f s = Inr (e, s')"
    and "\<And>nec' fs'. f (kl_agent s, kl_fs s) = Inr (e, nec', fs') \<Longrightarrow>
      nec_pod nec' = nec_pod (kl_agent s) \<and> nec_count nec' = nec_count (kl_agent s)"
  shows "quiet s s'"
  using assms by (auto simp: on_cgroups_def res_bind_Inr quiet_def set_agent_def kl_agent_def kl_os_def)

lemma UpdateQOSCgroups_quiet:
  assumes "UpdateQOSCgroups env s = Inr (e, s')"
  shows "quiet s s' \<and> cf_dirs (kl_fs s') = cf_dirs (kl_fs s)"
proof (cases "ke_CgroupsPerQOS env")
  case False
  then show ?thesis using assms quiet_log [of KUpdateQOSCgroups s] by (auto simp: UpdateQOSCgroups_def kl_log_def)
next
  case True
  let ?s = "kl_log KUpdateQOSCgroups s"
  obtain nec' fs' where u: "UpdateCgroups (ke_qm env) (ke_lib env) (ke_qosEnv env s) (kl_agent ?s, kl_fs ?s) = Inr (e, nec', fs')"
    "s' = (set_agent nec' ?s)\<lparr>kl_fs := fs'\<rparr>"
    using assms True by (auto simp: UpdateQOSCgroups_def on_cgroups_def res_bind_Inr)
  have "quiet ?s s'"
    using assms True UpdateCgroups_frame by (intro quiet_cgroups) (auto simp: UpdateQOSCgroups_def)
  moreover have "quiet s ?s" by (simp add: quiet_log)
  moreover have "cf_dirs (kl_fs s') = cf_dirs (kl_fs ?s)" using UpdateCgroups_frame [OF u(1)] u(2) by simp
  ultimately show ?thesis using quiet_trans by (auto simp: kl_log_def)
qed

lemma kl_EnsureExists_quiet: "kl_EnsureExists env pod s = Inr (e, s') \<Longrightarrow> quiet s s'"
proof (cases "ke_CgroupsPerQOS env")
  case True
  assume e: "kl_EnsureExists env pod s = Inr (e, s')"
  have "quiet (kl_log KEnsureExists s) s'"
    using e True EnsureExists_frame by (intro quiet_cgroups) (auto simp: kl_EnsureExists_def)
  then show ?thesis using quiet_trans quiet_log by blast
qed (simp add: kl_EnsureExists_def)

lemma adds_stop_agent: "adds (is_stop_call gp) env ns s s' \<Longrightarrow> rs_agent s' = rs_agent s"
proof -
  have "list_all (is_stop_call gp) cs \<Longrightarrow> agent_hooks ns cs = []" for cs
  proof (induction cs)
    case (Cons c cs)
    then show ?case by (cases c) (auto simp: agent_hooks_def)
  qed (simp add: agent_hooks_def)
  then show "adds (is_stop_call gp) env ns s s' \<Longrightarrow> rs_agent s' = rs_agent s" by (auto simp: adds_def)
qed

lemma killPod_quiet:
  assumes "killPod env pod ps gp s = Inr (ok, s')"
  shows "quiet s s' \<and> cf_dirs (kl_fs s') = cf_dirs (kl_fs s)"
proof -
  obtain ok1 rt where k: "killPodWithSyncResult (ke_runtime env) pod ps gp (kl_rt s) = (ok1, rt)" by force
  let ?s1 = "kl_log KKillPod (s\<lparr>kl_rt := rt\<rparr>)"
  have a: "rs_agent rt = rs_agent (kl_rt s)" by (rule adds_stop_agent [OF killPod_adds [OF k]])
  then have q: "quiet s ?s1" by (simp add: quiet_def kl_log_def kl_agent_def kl_os_def)
  show ?thesis
  proof (cases ok1)
    case False
    then have "s' = ?s1" using assms by (simp add: killPod_def k)
    then show ?thesis using q by (simp add: kl_log_def)
  next
    case True
    then obtain e where "UpdateQOSCgroups env ?s1 = Inr (e, s')" using assms by (auto simp: killPod_def k res_bind_Inr)
    from UpdateQOSCgroups_quiet [OF this] q show ?thesis using quiet_trans by (auto simp: kl_log_def)
  qed
qed

lemma sync_mirror_quiet: "quiet s (sync_mirror env pod mirror s)"
proof -
  have "quiet s (kl_log KCreateMirrorPod (kl_log KDeleteMirrorPod s))"
    by (rule quiet_trans [OF quiet_log quiet_log]) simp_all
  then show ?thesis by (auto simp: sync_mirror_def Let_def quiet_log)
qed

lemma sync_mirror_fs [simp]: "kl_fs (sync_mirror env pod mirror s) = kl_fs s"
  by (simp add: sync_mirror_def Let_def kl_log_def)

lemma makePodDataDirs_quiet:
  assumes "makePodDataDirs env pod s = (ok, s')"
  shows "quiet s s' \<and> kl_fs s' = kl_fs s"
proof -
  have l: "quiet s (kl_log (KMkdirAll d) s)" for d s by (simp add: quiet_log)
  have "quiet s (kl_log (KMkdirAll d2) (kl_log (KMkdirAll d1) s))" for d1 d2 by (rule quiet_trans [OF l l])
  moreover have "quiet s (kl_log (KMkdirAll d3) (kl_log (KMkdirAll d2) (kl_log (KMkdirAll d1) s)))" for d1 d2 d3
    by (rule quiet_trans [OF l quiet_trans [OF l l]])
  moreover have "kl_fs (kl_log c s) = kl_fs s" for c s by (simp add: kl_log_def)
  ultimately show ?thesis using assms l by (auto simp: makePodDataDirs_def Let_def split: if_splits)
qed

lemma SetPodStatus_quiet: "quiet s (SetPodStatus env pod st s)"
  by (simp add: SetPodStatus_def quiet_def kl_log_def kl_agent_def kl_os_def)

fun runtime_hook :: "hook \<Rightarrow> bool" where
  "runtime_hook SloHook = True"
| "runtime_hook (PidHook _ _) = True"
| "runtime_hook _ = False"

lemma agent_hooks_runtime: "list_all runtime_hook (agent_hooks ns cs)"
proof (induction cs)
  case (Cons c cs)
  then show ?case by (cases c) (simp_all add: agent_hooks_def)
qed (simp add: agent_hooks_def)

lemma run_hook_count:
  "runtime_hook h \<Longrightarrow> run_hook h (nec, os0) = Inr (nec', os1) \<Longrightarrow> nec_count nec' = nec_count nec \<and> nec_path nec' = nec_path nec"
  by (cases h) (auto simp: SetSLO_def split: if_splits list.splits prod.splits)

lemma run_hooks_count:
  "list_all runtime_hook hs \<Longrightarrow> run_hooks hs (nec, os0) = Inr (nec', os1) \<Longrightarrow>
    nec_count nec' = nec_count nec \<and> nec_path nec' = nec_path nec"
proof (induction hs arbitrary: nec os0)
  case (Cons h hs)
  then obtain nec1 os2 where h: "run_hook h (nec, os0) = Inr (nec1, os2)" "run_hooks hs (nec1, os2) = Inr (nec', os1)"
    by (auto split: sum.splits)
  show ?case using Cons.IH [OF _ h(2)] run_hook_count [OF _ h(1)] Cons.prems(1) by simp
qed simp

lemma SyncPod_count:
  assumes "SyncPod env pod ps rt = Inr rt'"
  shows "nec_count (fst (rs_agent rt')) = nec_count (fst (rs_agent rt))"
proof -
  obtain cs where r: "run_hooks (agent_hooks (p_Namespace pod) cs) (rs_agent rt) = Inr (rs_agent rt')"
    using SyncPod_trace [OF assms] unfolding sync_trace_def by blast
  obtain nec os0 nec' os1 where a: "rs_agent rt = (nec, os0)" "rs_agent rt' = (nec', os1)" by force
  show ?thesis using run_hooks_count [OF agent_hooks_runtime r [unfolded a]] a by simp
qed

subsection \<open>When a sync announces its pod\<close>

text \<open>The calls of a sync and what they did to the counter of the agent.\<close>

definition counts :: "kubelet_env \<Rightarrow> pod \<Rightarrow> kl_state \<Rightarrow> kl_state \<Rightarrow> bool" where
  "counts env pod s s' \<longleftrightarrow>
     (\<exists>cs. kl_calls s' = kl_calls s @ cs \<and> length (filter ((=) KSetNeconPod) cs) \<le> 1 \<and>
        (KSetNeconPod \<in> set cs \<longrightarrow> kl_Exists env s pod = Inr False) \<and>
        nec_count (kl_agent s') =
          (if KSetNeconPod \<in> set cs then nec_count (SetNeconPod pod (kl_agent s)) else nec_count (kl_agent s)))"

lemma quiet_counts: "quiet s s' \<Longrightarrow> counts env pod s s'"
proof -
  assume "quiet s s'"
  then obtain cs where c: "kl_calls s' = kl_calls s @ cs" "KSetNeconPod \<notin> set cs" "nec_count (kl_agent s') = nec_count (kl_agent s)"
    by (auto simp: quiet_def)
  have "filter ((=) KSetNeconPod) cs = []" using c(2) by (auto simp: filter_empty_conv)
  with c show ?thesis unfolding counts_def by (intro exI [of _ cs]) auto
qed

lemma counts_quiet:
  assumes "counts env pod s s'" "nec_count (kl_agent s'') = nec_count (kl_agent s')"
    and "kl_calls s'' = kl_calls s' @ cs'" "KSetNeconPod \<notin> set cs'"
  shows "counts env pod s s''"
proof -
  obtain cs where c: "kl_calls s' = kl_calls s @ cs" "length (filter ((=) KSetNeconPod) cs) \<le> 1"
    "KSetNeconPod \<in> set cs \<longrightarrow> kl_Exists env s pod = Inr False"
    "nec_count (kl_agent s') = (if KSetNeconPod \<in> set cs then nec_count (SetNeconPod pod (kl_agent s)) else nec_count (kl_agent s))"
    using assms(1) unfolding counts_def by blast
  have "filter ((=) KSetNeconPod) cs' = []" using assms(4) by (auto simp: filter_empty_conv)
  with c assms(2-4) show ?thesis unfolding counts_def by (intro exI [of _ "cs @ cs'"]) auto
qed

lemma counts_then_quiet: "counts env pod s s' \<Longrightarrow> quiet s' s'' \<Longrightarrow> counts env pod s s''"
  unfolding quiet_def by (elim conjE exE) (rule counts_quiet)

lemma quiet_then_counts:
  assumes "quiet s s'" "counts env pod s' s''" "cf_dirs (kl_fs s') = cf_dirs (kl_fs s)"
  shows "counts env pod s s''"
proof -
  obtain cs where c: "kl_calls s'' = kl_calls s' @ cs" "length (filter ((=) KSetNeconPod) cs) \<le> 1"
    "KSetNeconPod \<in> set cs \<longrightarrow> kl_Exists env s' pod = Inr False"
    "nec_count (kl_agent s'') = (if KSetNeconPod \<in> set cs then nec_count (SetNeconPod pod (kl_agent s')) else nec_count (kl_agent s'))"
    using assms(2) unfolding counts_def by blast
  obtain cs0 where q: "kl_calls s' = kl_calls s @ cs0" "KSetNeconPod \<notin> set cs0" "nec_count (kl_agent s') = nec_count (kl_agent s)"
    using assms(1) by (auto simp: quiet_def)
  have e: "kl_Exists env s' pod = kl_Exists env s pod"
    by (rule kl_Exists_dirs [OF assms(3)])
  have n: "nec_count (SetNeconPod pod (kl_agent s')) = nec_count (SetNeconPod pod (kl_agent s))"
    using q(3) by (simp add: SetNeconPod_def Let_def)
  have "filter ((=) KSetNeconPod) cs0 = []" using q(2) by (auto simp: filter_empty_conv)
  then show ?thesis unfolding counts_def using c q e n by (intro exI [of _ "cs0 @ cs"]) auto
qed

lemma sync_cgroups_shape:
  assumes "sync_cgroups env pod ps st s = Inr (e, s')"
  obtains "e = None" "quiet s s'" "cf_dirs (kl_fs s') = cf_dirs (kl_fs s)"
  | s1 u s3 e4 where "quiet s s1" "cf_dirs (kl_fs s1) = cf_dirs (kl_fs s)" "kl_Exists env s pod = Inr False"
      "UpdateQOSCgroups env (announce env pod s1) = Inr (u, s3)" "kl_EnsureExists env pod s3 = Inr (e4, s')"
      "e = map_option ErrEnsureExists e4"
proof (cases "podIsTerminated env s pod")
  case True
  then show ?thesis using assms that(1) by (simp add: sync_cgroups_def)
next
  case False
  obtain ex0 where 0: "kl_Exists env s pod = Inr ex0"
    using assms False by (auto simp: sync_cgroups_def Let_def res_bind_Inr)
  obtain killed s1 where 1: "(if \<not> ex0 \<and> \<not> list_all (\<lambda>c. \<not> ac_Running c) (as_Containers st)
      then killPod env pod ps None s else Inr (False, s)) = Inr (killed, s1)"
    "(if killed \<and> p_RestartPolicy pod = RestartNever then Inr (None, s1)
          else
            res_bind (kl_Exists env s1 pod) (\<lambda>ex1.
              if ex1 then Inr (None, s1)
              else
                res_bind (UpdateQOSCgroups env (announce env pod s1)) (\<lambda>(_, s3).
                res_bind (kl_EnsureExists env pod s3) (\<lambda>(e, s4).
                  Inr (map_option ErrEnsureExists e, s4))))) = Inr (e, s')"
    using assms False by (auto simp: sync_cgroups_def Let_def res_bind_Inr 0)
  have q: "quiet s s1" "cf_dirs (kl_fs s1) = cf_dirs (kl_fs s)"
    using 1(1) killPod_quiet by (auto split: if_splits)
  have e1: "kl_Exists env s1 pod = Inr ex0"
    using kl_Exists_dirs [of s1 s env pod] q 0 by simp
  show ?thesis
  proof (cases "killed \<and> p_RestartPolicy pod = RestartNever \<or> ex0")
    case True
    then have "s' = s1 \<and> e = None" using 1(2) e1 by (auto split: if_splits)
    then show ?thesis using q that(1) by blast
  next
    case False
    then obtain u s3 e4 where "UpdateQOSCgroups env (announce env pod s1) = Inr (u, s3)"
      "kl_EnsureExists env pod s3 = Inr (e4, s')" "e = map_option ErrEnsureExists e4"
      using 1(2) e1 by (auto simp: res_bind_Inr)
    moreover have "kl_Exists env s pod = Inr False" using 0 False by simp
    ultimately show ?thesis using q that(2) by blast
  qed
qed

lemma announce_agent [simp]:
  "kl_agent (announce env pod s) = SetNeconPod pod (kl_agent s)" "kl_calls (announce env pod s) = kl_calls s @ [KSetNeconPod]"
  "kl_fs (announce env pod s) = kl_fs s" "os_journal (kl_os (announce env pod s)) = os_journal (kl_os s)"
  by (simp_all add: announce_def kl_log_def kl_agent_def kl_os_def Println_def)

lemma sync_cgroups_counts:
  assumes "sync_cgroups env pod ps st s = Inr (e, s')"
  shows "counts env pod s s'"
  using assms
proof (cases rule: sync_cgroups_shape)
  case (2 s1 u s3 e4)
  have "kl_Exists env s1 pod = Inr False" using kl_Exists_dirs [OF 2(2)] 2(3) by simp
  then have "counts env pod s1 (announce env pod s1)"
    unfolding counts_def by (intro exI [of _ "[KSetNeconPod]"]) simp
  then have "counts env pod s1 s3"
    by (rule counts_then_quiet) (rule conjunct1 [OF UpdateQOSCgroups_quiet [OF 2(4)]])
  then have "counts env pod s1 s'"
    by (rule counts_then_quiet) (rule kl_EnsureExists_quiet [OF 2(5)])
  with 2(1) show ?thesis using 2(2) by (rule quiet_then_counts)
qed (rule quiet_counts)

definition unannounced :: "kl_state \<Rightarrow> kl_state \<Rightarrow> bool" where
  "unannounced s s' \<longleftrightarrow> (\<exists>cs. kl_calls s' = kl_calls s @ cs \<and> KSetNeconPod \<notin> set cs)"

lemma unannounced_trans: "unannounced s s' \<Longrightarrow> unannounced s' s'' \<Longrightarrow> unannounced s s''"
  by (auto simp: unannounced_def)

lemma quiet_unannounced: "quiet s s' \<Longrightarrow> unannounced s s'"
  by (auto simp: quiet_def unannounced_def)

lemma kl_EnsureExists_exists:
  assumes "kl_EnsureExists env pod s = Inr (None, s')"
    and "\<not> cm_systemd (pm_cgroupManager (ke_pcm env))" and "apply_creates (pm_cgroupManager (ke_pcm env)) (ke_lib env)"
  shows "kl_Exists env s' pod = Inr True"
proof (cases "ke_CgroupsPerQOS env")
  case True
  let ?s = "kl_log KEnsureExists s"
  obtain nec' fs' where e: "EnsureExists (ke_pcm env) (ke_lib env) pod (kl_agent ?s, kl_fs ?s) = Inr (None, nec', fs')"
    "s' = (set_agent nec' ?s)\<lparr>kl_fs := fs'\<rparr>"
    using assms(1) True by (auto simp: kl_EnsureExists_def on_cgroups_def res_bind_Inr)
  have "pcm_Exists (ke_pcm env) fs' pod = Inr True"
    using EnsureExists_exists [OF e(1) assms(2,3)] .
  then show ?thesis using True e(2) by (simp add: kl_Exists_def)
qed (simp add: kl_Exists_def)

lemma sync_runnable_parts:
  assumes "sync_runnable env pod mirror ps st s = Inr (e, s')"
  obtains e1 where "sync_cgroups env pod ps st s = Inr (e1, s')" "e1 \<noteq> None" "e = e1"
  | s1 where "sync_cgroups env pod ps st s = Inr (None, s1)" "unannounced s1 s'" "kl_fs s' = kl_fs s1"
      "nec_count (kl_agent s') = nec_count (kl_agent s1)" "\<And>er. e \<noteq> Some (ErrEnsureExists er)"
proof -
  obtain e1 s1 where 1: "sync_cgroups env pod ps st s = Inr (e1, s1)"
    using assms by (auto simp: sync_runnable_def res_bind_Inr)
  show ?thesis
  proof (cases "e1 = None")
    case False
    then show ?thesis using assms 1 that(1) by (simp add: sync_runnable_def)
  next
    case True
    obtain ok s2 where 2: "makePodDataDirs env pod (sync_mirror env pod mirror s1) = (ok, s2)" by force
    define s3 where "s3 = (if \<not> podIsTerminated env s2 pod then kl_log KWaitForAttachAndMount s2 else s2)"
    define rt0 where "rt0 = (kl_rt (kl_log KSyncPod s3))\<lparr>rs_results := [], rs_SyncError := False\<rparr>"
    have q2: "quiet s1 s2" using quiet_trans [OF sync_mirror_quiet conjunct1 [OF makePodDataDirs_quiet [OF 2]]] .
    then have q3: "quiet s1 s3" using quiet_trans [OF q2 quiet_log [of KWaitForAttachAndMount s2]] by (simp add: s3_def)
    have fs: "kl_fs s2 = kl_fs s1" "kl_fs s3 = kl_fs s1"
      using makePodDataDirs_quiet [OF 2] by (simp_all add: s3_def kl_log_def)
    have r: "sync_runnable env pod mirror ps st s = (if \<not> ok then Inr (Some ErrPodDataDirs, s2)
      else if \<not> podIsTerminated env s2 pod \<and> \<not> ke_WaitForAttachAndMount env then Inr (Some ErrVolumes, s3)
      else res_bind (SyncPod (ke_runtime env) pod ps rt0) (\<lambda>rt. Inr (runtime_error rt, (kl_log KSyncPod s3)\<lparr>kl_rt := rt\<rparr>)))"
      using 1 2 True by (simp add: sync_runnable_def Let_def s3_def rt0_def)
    consider "s' = s2" "e = Some ErrPodDataDirs" | "s' = s3" "e = Some ErrVolumes"
      | rt where "SyncPod (ke_runtime env) pod ps rt0 = Inr rt" "s' = (kl_log KSyncPod s3)\<lparr>kl_rt := rt\<rparr>" "e = runtime_error rt"
      using assms unfolding r by (auto simp: res_bind_Inr split: if_splits)
    then have "unannounced s1 s' \<and> kl_fs s' = kl_fs s1 \<and> nec_count (kl_agent s') = nec_count (kl_agent s1) \<and>
      (\<forall>er. e \<noteq> Some (ErrEnsureExists er))"
    proof cases
      case 3
      have "nec_count (kl_agent s') = nec_count (kl_agent s3)"
        using SyncPod_count [OF 3(1)] by (simp add: 3(2) rt0_def kl_agent_def kl_log_def)
      moreover have "unannounced s3 s'" by (simp add: unannounced_def 3(2) kl_log_def)
      moreover have "kl_fs s' = kl_fs s3" by (simp add: 3(2) kl_log_def)
      moreover have "e \<noteq> Some (ErrEnsureExists er)" for er using 3(3) by (simp add: runtime_error_def)
      ultimately show ?thesis using q3 fs unannounced_trans [OF quiet_unannounced [OF q3]] by (simp add: quiet_def)
    qed (use q2 q3 fs in \<open>simp_all add: quiet_unannounced quiet_def\<close>)
    then show ?thesis using 1 True that(2) by blast
  qed
qed

lemma sync_runnable_counts:
  assumes "sync_runnable env pod mirror ps st s = Inr (e, s')"
  shows "counts env pod s s'"
  using assms
proof (cases rule: sync_runnable_parts)
  case (2 s1)
  then show ?thesis using counts_quiet [OF sync_cgroups_counts [OF 2(1)]] by (auto simp: unannounced_def)
qed (rule sync_cgroups_counts)

lemma sync_cgroups_exists:
  assumes "sync_cgroups env pod ps st s = Inr (None, s')"
    and "\<not> cm_systemd (pm_cgroupManager (ke_pcm env))" and "apply_creates (pm_cgroupManager (ke_pcm env)) (ke_lib env)"
  shows "kl_Exists env s' pod = Inr True \<or> unannounced s s'"
  using assms(1)
proof (cases rule: sync_cgroups_shape)
  case (2 s1 u s3 e4)
  then have "kl_EnsureExists env pod s3 = Inr (None, s')" by simp
  from kl_EnsureExists_exists [OF this assms(2,3)] show ?thesis by simp
qed (simp add: quiet_unannounced)

lemma syncPod_cases:
  assumes "syncPod env u pod mirror ps ko s = Inr (e, s')"
  obtains "quiet s s'" "\<And>er. e \<noteq> Some (ErrEnsureExists er)"
  | ps' st s0 where "quiet s s0" "kl_fs s0 = kl_fs s" "u \<noteq> SyncPodKill" "sync_runnable env pod mirror ps' st s0 = Inr (e, s')"
proof -
  have k: "quiet s s''" if "killPod env pod ps' gp (SetPodStatus env pod st s) = Inr (ok, s'')" for ps' gp st ok s''
    using killPod_quiet [OF that] SetPodStatus_quiet quiet_trans by blast
  have fs: "kl_fs (SetPodStatus env pod st s) = kl_fs s" for st by (simp add: SetPodStatus_def kl_log_def)
  have "quiet s s' \<and> (\<forall>er. e \<noteq> Some (ErrEnsureExists er)) \<or>
    (\<exists>st ps' st'. u \<noteq> SyncPodKill \<and> sync_runnable env pod mirror ps' st' (SetPodStatus env pod st s) = Inr (e, s'))"
    using assms k SetPodStatus_quiet
    by (simp add: syncPod_def Let_def res_bind_Inr split: if_splits option.splits) blast+
  then show ?thesis using that SetPodStatus_quiet fs by blast
qed

lemma syncPod_counts:
  assumes "syncPod env u pod mirror ps ko s = Inr (e, s')"
  shows "counts env pod s s'"
  using assms
proof (cases rule: syncPod_cases)
  case (2 ps' st s0)
  show ?thesis using quiet_then_counts [OF 2(1) sync_runnable_counts [OF 2(4)]] 2(2) by simp
qed (rule quiet_counts)

lemma announced_then_exists:
  assumes s: "syncPod env u pod mirror ps ko s = Inr (None, s1)"
    and "kl_calls s1 = kl_calls s @ cs" "KSetNeconPod \<in> set cs"
    and d: "\<not> cm_systemd (pm_cgroupManager (ke_pcm env))" "apply_creates (pm_cgroupManager (ke_pcm env)) (ke_lib env)"
  shows "kl_Exists env s1 pod = Inr True"
proof (rule ccontr)
  assume n: "kl_Exists env s1 pod \<noteq> Inr True"
  have "unannounced s s1" using s
  proof (cases rule: syncPod_cases)
    case (2 ps' st s0)
    from 2(4) show ?thesis
    proof (cases rule: sync_runnable_parts)
      case (2 s2)
      have "kl_Exists env s2 pod \<noteq> Inr True" using n 2(3) kl_Exists_dirs [of s1 s2] by simp
      with sync_cgroups_exists [OF 2(1) d] have "unannounced s0 s2" by simp
      then show ?thesis using 2(2) \<open>quiet s s0\<close> unannounced_trans quiet_unannounced by blast
    qed simp
  qed (simp add: quiet_unannounced)
  with assms(2,3) show False by (auto simp: unannounced_def)
qed

lemma ensure_error:
  assumes "syncPod env u pod mirror ps ko s = Inr (Some (ErrEnsureExists er), s')"
  shows "nec_count (kl_agent s') = nec_count (SetNeconPod pod (kl_agent s)) \<and> os_journal (kl_os s') = os_journal (kl_os s)"
  using assms
proof (cases rule: syncPod_cases)
  case (2 ps' st s0)
  from 2(4) have "sync_cgroups env pod ps' st s0 = Inr (Some (ErrEnsureExists er), s')"
    by (cases rule: sync_runnable_parts) auto
  then show ?thesis
  proof (cases rule: sync_cgroups_shape)
    case (2 t1 u1 t3 e4)
    have "quiet (announce env pod t1) s'"
      using UpdateQOSCgroups_quiet [OF 2(4)] kl_EnsureExists_quiet [OF 2(5)] quiet_trans by blast
    then show ?thesis using 2(1) \<open>quiet s s0\<close> by (simp add: quiet_def SetNeconPod_def)
  qed simp
qed blast

text \<open>
  C5: A sync of a pod announces the pod to the network agent at most once, only when the cgroup of
  the pod does not exist at that time, and the counter of the agent (which names the network
  interface) moves exactly by that announcement: no other step of the sync, not even starting or
  killing containers, touches it.
\<close>

theorem syncPod_counts_new_pods:
  assumes "syncPod env u pod mirror ps ko s = Inr (e, s')"
  shows "\<exists>cs. kl_calls s' = kl_calls s @ cs \<and> length (filter ((=) KSetNeconPod) cs) \<le> 1 \<and>
    (KSetNeconPod \<in> set cs \<longrightarrow> kl_Exists env s pod = Inr False) \<and>
    nec_count (kl_agent s') =
      (if KSetNeconPod \<in> set cs \<and> p_Namespace pod \<noteq> ''kube-system'' then wrap64 (nec_count (kl_agent s) + 1)
       else nec_count (kl_agent s))"
proof -
  obtain cs where "kl_calls s' = kl_calls s @ cs" "length (filter ((=) KSetNeconPod) cs) \<le> 1"
    "KSetNeconPod \<in> set cs \<longrightarrow> kl_Exists env s pod = Inr False"
    "nec_count (kl_agent s') = (if KSetNeconPod \<in> set cs then nec_count (SetNeconPod pod (kl_agent s)) else nec_count (kl_agent s))"
    using syncPod_counts [OF assms] unfolding counts_def by blast
  then show ?thesis by (intro exI [of _ cs]) (simp add: SetNeconPod_def)
qed

text \<open>
  C6: Once a sync has announced its pod and returned without error, the pod's cgroup exists, so the
  next sync of the pod from that state does not announce it again and leaves the counter alone
  (cgroupfs driver, and a cgroup library whose \<open>Apply\<close> creates the directories it is asked for).
\<close>

theorem pod_announced_once:
  assumes "syncPod env u pod mirror ps ko s = Inr (None, s1)"
    and "kl_calls s1 = kl_calls s @ cs" and "KSetNeconPod \<in> set cs"
    and "\<not> cm_systemd (pm_cgroupManager (ke_pcm env))" and "apply_creates (pm_cgroupManager (ke_pcm env)) (ke_lib env)"
    and "syncPod env u' pod mirror' ps' ko' s1 = Inr (e, s2)"
  shows "kl_Exists env s1 pod = Inr True \<and> nec_count (kl_agent s2) = nec_count (kl_agent s1) \<and>
    (\<exists>cs'. kl_calls s2 = kl_calls s1 @ cs' \<and> KSetNeconPod \<notin> set cs')"
proof -
  have ex: "kl_Exists env s1 pod = Inr True" by (rule announced_then_exists [OF assms(1-5)])
  obtain cs' where "kl_calls s2 = kl_calls s1 @ cs'" "KSetNeconPod \<in> set cs' \<longrightarrow> kl_Exists env s1 pod = Inr False"
    "nec_count (kl_agent s2) = (if KSetNeconPod \<in> set cs' then nec_count (SetNeconPod pod (kl_agent s1)) else nec_count (kl_agent s1))"
    using syncPod_counts [OF assms(6)] unfolding counts_def by blast
  with ex show ?thesis by auto
qed

text \<open>
  C7: When the cgroup of a pod cannot be created, every retry of the sync announces the pod anew: after
  \<open>k\<close> failed syncs the counter has moved by \<open>k\<close>, although these syncs wrote to no file, so that none of the
  interfaces skipped was given a goal or a process.
\<close>

theorem failed_creation_skips_interfaces:
  assumes "\<And>i. i < k \<Longrightarrow> syncPod env u pod mirror (ps i) ko (S i) = Inr (Some (ErrEnsureExists (er i)), S (Suc i))"
    and "p_Namespace pod \<noteq> ''kube-system''" and "in64 (nec_count (kl_agent (S 0)))"
  shows "nec_count (kl_agent (S k)) = wrap64 (nec_count (kl_agent (S 0)) + int k) \<and>
    os_journal (kl_os (S k)) = os_journal (kl_os (S 0))"
  using assms(1)
proof (induction k)
  case (Suc k)
  have IH: "nec_count (kl_agent (S k)) = wrap64 (nec_count (kl_agent (S 0)) + int k)" "os_journal (kl_os (S k)) = os_journal (kl_os (S 0))"
    using Suc by simp_all
  have "nec_count (kl_agent (S (Suc k))) = wrap64 (nec_count (kl_agent (S k)) + 1)"
    using ensure_error [OF Suc.prems [of k]] assms(2) by (simp add: SetNeconPod_def)
  also have "\<dots> = wrap64 (nec_count (kl_agent (S 0)) + int (Suc k))"
    using wrap64_add [of "nec_count (kl_agent (S 0)) + int k" 1] by (simp add: IH(1) algebra_simps)
  finally show ?case using ensure_error [OF Suc.prems [of k]] IH(2) by simp
qed (use assms(3) in simp)

definition has_plain :: "rt_state \<Rightarrow> bool" where
  "has_plain s \<longleftrightarrow> (\<exists>r \<in> set (rs_results s). \<not> is_backoff_result r)"

lemma has_plain_log [simp]: "has_plain (rt_log c s) = has_plain s"
  by (simp add: has_plain_def rt_log_def)

lemma has_plain_fields [simp]:
  "has_plain (s\<lparr>rs_backoff := b\<rparr>) = has_plain s" "has_plain (s\<lparr>rs_agent := a\<rparr>) = has_plain s"
  "has_plain (s\<lparr>rs_SyncError := e\<rparr>) = has_plain s"
  by (simp_all add: has_plain_def)

lemma has_plain_result [simp]:
  "has_plain (add_result a t e s) \<longleftrightarrow> has_plain s \<or> (e \<noteq> Some ErrCrashLoopBackOff \<and> e \<noteq> Some ErrImagePullBackOff)"
  by (auto simp: has_plain_def add_result_def is_backoff_result_def)

lemma killContainer_plain [simp]: "has_plain (snd (killContainer env pod cid n gp s)) = has_plain s"
  by (simp add: killContainer_def Let_def split: option.split)

lemma startContainer_plain: "startContainer env pod ps sid c s = (e, s') \<Longrightarrow> has_plain s' = has_plain s"
  unfolding startContainer_def Let_def by (auto split: option.splits if_splits)

lemma doBackOff_plain: "doBackOff env c ps s = (b, s') \<Longrightarrow> has_plain s' = has_plain s"
  by (auto simp: doBackOff_def Let_def split: option.splits if_splits)

lemma start_one_plain: "has_plain s \<Longrightarrow> start_one env pod ps sid c s = (e, s') \<Longrightarrow> has_plain s'"
  by (auto simp: start_one_def split: prod.splits bool.splits dest!: doBackOff_plain startContainer_plain)

lemma start_all_plain: "has_plain s \<Longrightarrow> has_plain (start_all env pod ps sid cs s)"
  unfolding start_all_def
proof (induction cs arbitrary: s)
  case (Cons c cs)
  then show ?case using start_one_plain [OF Cons.prems, of env pod ps sid c] by (metis foldl_Cons prod.collapse)
qed simp

lemma sync_start_plain: "has_plain (sync_start env pod ps ch sid s)"
proof (cases "re_sandboxConfig env")
  case True
  have 1: "has_plain (add_result ActConfigPodSandbox sid None s)" by simp
  then show ?thesis using True
    by (auto simp: sync_start_def Let_def intro!: start_all_plain [OF 1] start_all_plain
        dest: start_one_plain [OF 1] start_one_plain [OF start_all_plain [OF 1]] split: option.split prod.split if_splits)
qed (simp add: sync_start_def)

lemma kill_unwanted_plain: "kill_unwanted env pod ks s = (False, s') \<Longrightarrow> has_plain s'"
  by (induction env pod ks s rule: kill_unwanted.induct) (auto simp: Let_def split: prod.splits if_splits)

lemma sync_kill_plain: "sync_kill env pod ps ch s = (False, s') \<Longrightarrow> has_plain s'"
  by (auto simp: sync_kill_def killPodWithSyncResult_def kill_unwanted_plain split: if_splits prod.splits)

lemma sync_sandbox_plain: "sync_sandbox env pod ch s = Inr (None, s') \<Longrightarrow> has_plain s'"
  by (auto simp: sync_sandbox_def Let_def split: if_splits option.splits prod.splits sum.splits)

lemma SyncPod_plain_result: "SyncPod env pod ps s = Inr s' \<Longrightarrow> has_plain s'"
  by (auto simp: SyncPod_def Let_def dest: sync_kill_plain sync_sandbox_plain
      split: prod.splits bool.splits sum.splits option.splits intro: sync_start_plain)

text \<open>
  \<open>syncPod\<close> returns an error whenever the runtime reports any, also when the only failures are
  containers in back-off, which the code says it does not return: the filter looks for a result
  that is not a back-off error, and every \<open>SyncPod\<close> records one (a successful result has no error).
\<close>

theorem backoff_errors_are_returned:
  assumes "SyncPod env pod ps s = Inr s'"
  shows "runtime_error s' = (if pod_sync_error s' then Some ErrRuntimeSync else None)"
  using SyncPod_plain_result [OF assms] by (auto simp: runtime_error_def has_plain_def list_ex_iff)

subsection \<open>A pod is created\<close>

definition demo_api_status :: api_status where
  "demo_api_status = \<lparr>as_Phase = PodPending, as_Reason = [], as_PodIPs = [], as_PodIP = [], as_InitContainers = [], as_Containers = []\<rparr>"

definition demo_kubelet :: "cgroup_lib \<Rightarrow> kubelet_env" where
  "demo_kubelet lib =
     \<lparr>ke_runtime = demo_runtime, ke_CgroupsPerQOS = True, ke_pcm = demo_pcm, ke_lib = lib, ke_qm = demo_qm,
      ke_qosEnv = (\<lambda>_. demo_qenv), ke_generateAPIPodStatus = (\<lambda>_ _. demo_api_status), ke_updateStatus = (\<lambda>_ st. st),
      ke_Status = (\<lambda>_. demo_api_status), ke_pods = [], ke_softAdmitHandlers = [], ke_networkErrors = False,
      ke_podText = p_Name, ke_source = (\<lambda>_. Some ''api''), ke_DeleteMirrorPod = False, ke_nodeUsable = True,
      ke_MkdirAll = (\<lambda>_. True), ke_WaitForAttachAndMount = True\<rparr>"

lemma demo_kubelet_simps [simp]:
  "ke_runtime (demo_kubelet lib) = demo_runtime" "ke_CgroupsPerQOS (demo_kubelet lib)" "ke_pcm (demo_kubelet lib) = demo_pcm"
  "ke_lib (demo_kubelet lib) = lib" "ke_qm (demo_kubelet lib) = demo_qm" "ke_qosEnv (demo_kubelet lib) s = demo_qenv"
  "ke_generateAPIPodStatus (demo_kubelet lib) p ps = demo_api_status" "ke_updateStatus (demo_kubelet lib) x st = st"
  "ke_Status (demo_kubelet lib) p = demo_api_status" "ke_softAdmitHandlers (demo_kubelet lib) = []"
  "\<not> ke_networkErrors (demo_kubelet lib)" "ke_source (demo_kubelet lib) p = Some ''api''"
  "ke_MkdirAll (demo_kubelet lib) d" "ke_WaitForAttachAndMount (demo_kubelet lib)"
  by (simp_all add: demo_kubelet_def)

definition demo_start :: kl_state where
  "demo_start = \<lparr>kl_rt = demo_rt (new_necon, demo_os), kl_fs = demo_fs, kl_statuses = Map.empty, kl_calls = []\<rparr>"

lemma demo_uid_pod_simps [simp]:
  "p_Containers demo_uid_pod = []" "p_InitContainers demo_uid_pod = []" "\<not> p_Deleting demo_uid_pod" "p_Namespace demo_uid_pod = []"
  "p_RestartPolicy demo_uid_pod = RestartAlways"
  by (simp_all add: demo_uid_pod_def empty_pod_def)

definition demo_synced :: "cgroup_lib \<Rightarrow> kl_state \<Rightarrow> kl_state" where
  "demo_synced lib s = SetPodStatus (demo_kubelet lib) demo_uid_pod demo_api_status s"

lemma demo_synced_fields [simp]:
  "kl_fs (demo_synced lib s) = kl_fs s" "kl_statuses (demo_synced lib s) = (kl_statuses s)(''u1'' \<mapsto> demo_api_status)"
  by (simp_all add: demo_synced_def SetPodStatus_def kl_log_def)

lemma demo_syncPod:
  "syncPod (demo_kubelet lib) SyncPodCreate demo_uid_pod None new_status None s =
    sync_runnable (demo_kubelet lib) demo_uid_pod None new_status demo_api_status (demo_synced lib s)"
  by (simp add: syncPod_def Let_def canRunPod_def pod_ips_def demo_synced_def demo_api_status_def new_status_def)

lemma demo_not_terminated: "kl_statuses s ''u1'' = Some demo_api_status \<Longrightarrow> \<not> podIsTerminated (demo_kubelet lib) s demo_uid_pod"
  by (simp add: podIsTerminated_def podAndContainersAreTerminal_def demo_api_status_def)

lemma kl_fields [simp]:
  "kl_statuses (set_agent nec s) = kl_statuses s" "kl_statuses (kl_log c s) = kl_statuses s"
  "kl_fs (kl_log c s) = kl_fs s" "kl_rt (kl_log c s) = kl_rt s" "kl_agent (kl_log c s) = kl_agent s"
  by (simp_all add: set_agent_def kl_log_def kl_agent_def)

lemma demo_UpdateQOS:
  "\<exists>u s'. UpdateQOSCgroups (demo_kubelet (demo_lib\<lparr>cl_Apply := f\<rparr>)) s = Inr (u, s') \<and> kl_statuses s' = kl_statuses s"
proof -
  obtain nec' fs' where u: "UpdateCgroups demo_qm (demo_lib\<lparr>cl_Apply := f\<rparr>) demo_qenv
      (kl_agent (kl_log KUpdateQOSCgroups s), kl_fs (kl_log KUpdateQOSCgroups s)) = Inr (None, nec', fs')"
    using demo_update by blast
  show ?thesis by (simp add: UpdateQOSCgroups_def on_cgroups_def u [simplified])
qed

lemma demo_sync_cgroups:
  assumes "cf_dirs (kl_fs s) = (\<lambda>_. False)" and "kl_statuses s ''u1'' = Some demo_api_status"
  obtains s3 where "cf_dirs (kl_fs s3) = (\<lambda>_. False)" "kl_statuses s3 = kl_statuses s" "nec_pod (kl_agent s3) = demo_uid_pod"
    "\<exists>cs. kl_calls s3 = kl_calls s @ cs \<and> KSetNeconPod \<in> set cs"
    "sync_cgroups (demo_kubelet (demo_lib\<lparr>cl_Apply := f\<rparr>)) demo_uid_pod new_status demo_api_status s =
       res_bind (kl_EnsureExists (demo_kubelet (demo_lib\<lparr>cl_Apply := f\<rparr>)) demo_uid_pod s3)
         (\<lambda>(e, s4). Inr (map_option ErrEnsureExists e, s4))"
proof -
  let ?env = "demo_kubelet (demo_lib\<lparr>cl_Apply := f\<rparr>)"
  obtain u s3 where 3: "UpdateQOSCgroups ?env (announce ?env demo_uid_pod s) = Inr (u, s3)"
    "kl_statuses s3 = kl_statuses (announce ?env demo_uid_pod s)" using demo_UpdateQOS by blast
  have e: "kl_Exists ?env s demo_uid_pod = Inr False" using demo_exists [OF assms(1)] by (simp add: kl_Exists_def)
  have f: "list_all (\<lambda>c. \<not> ac_Running c) (as_Containers demo_api_status)" by (simp add: demo_api_status_def)
  have q: "quiet (announce ?env demo_uid_pod s) s3" "cf_dirs (kl_fs s3) = cf_dirs (kl_fs (announce ?env demo_uid_pod s))"
    using UpdateQOSCgroups_quiet [OF 3(1)] by simp_all
  show ?thesis
  proof (rule that [of s3])
    show "cf_dirs (kl_fs s3) = (\<lambda>_. False)" using q(2) assms(1) by simp
    show "kl_statuses s3 = kl_statuses s" using 3(2) by (simp add: announce_def kl_log_def)
    show "nec_pod (kl_agent s3) = demo_uid_pod" using q(1) by (simp add: quiet_def SetNeconPod_def)
    show "\<exists>cs. kl_calls s3 = kl_calls s @ cs \<and> KSetNeconPod \<in> set cs" using q(1) by (auto simp: quiet_def)
    show "sync_cgroups ?env demo_uid_pod new_status demo_api_status s =
       res_bind (kl_EnsureExists ?env demo_uid_pod s3) (\<lambda>(e, s4). Inr (map_option ErrEnsureExists e, s4))"
      by (simp add: sync_cgroups_def demo_not_terminated [OF assms(2)] e f Let_def 3(1))
  qed
qed

lemma demo_failed_step:
  assumes "cf_dirs (kl_fs s) = (\<lambda>_. False)"
  shows "\<exists>s'. syncPod (demo_kubelet failing_lib) SyncPodCreate demo_uid_pod None new_status None s =
      Inr (Some (ErrEnsureExists ApplyFailed), s') \<and> cf_dirs (kl_fs s') = (\<lambda>_. False)"
proof -
  obtain s3 where s3: "cf_dirs (kl_fs s3) = (\<lambda>_. False)"
    "sync_cgroups (demo_kubelet failing_lib) demo_uid_pod new_status demo_api_status (demo_synced failing_lib s) =
       res_bind (kl_EnsureExists (demo_kubelet failing_lib) demo_uid_pod s3) (\<lambda>(e, s4). Inr (map_option ErrEnsureExists e, s4))"
    using demo_sync_cgroups [of "demo_synced failing_lib s"] assms unfolding failing_lib_def by auto
  have "kl_EnsureExists (demo_kubelet failing_lib) demo_uid_pod s3 =
      Inr (Some ApplyFailed, (set_agent (kl_agent (kl_log KEnsureExists s3)) (kl_log KEnsureExists s3))\<lparr>kl_fs := kl_fs s3\<rparr>)"
    using demo_create_fails [OF s3(1)] by (simp add: kl_EnsureExists_def on_cgroups_def kl_log_def)
  with s3 show ?thesis by (simp add: demo_syncPod sync_runnable_def)
qed

theorem failed_creation_skips_interfaces_witness:
  "\<exists>s1 s2.
    syncPod (demo_kubelet failing_lib) SyncPodCreate demo_uid_pod None new_status None demo_start =
      Inr (Some (ErrEnsureExists ApplyFailed), s1) \<and>
    syncPod (demo_kubelet failing_lib) SyncPodCreate demo_uid_pod None new_status None s1 =
      Inr (Some (ErrEnsureExists ApplyFailed), s2) \<and>
    nec_count (kl_agent demo_start) = 0 \<and> nec_count (kl_agent s2) = 2 \<and> os_journal (kl_os s2) = []"
proof -
  let ?f = "\<lambda>s. syncPod (demo_kubelet failing_lib) SyncPodCreate demo_uid_pod None new_status None s"
  obtain s1 where 1: "?f demo_start = Inr (Some (ErrEnsureExists ApplyFailed), s1)" "cf_dirs (kl_fs s1) = (\<lambda>_. False)"
    using demo_failed_step [of demo_start] by (auto simp: demo_start_def demo_fs_def)
  obtain s2 where 2: "?f s1 = Inr (Some (ErrEnsureExists ApplyFailed), s2)"
    using demo_failed_step [OF 1(2)] by blast
  define S :: "nat \<Rightarrow> kl_state" where "S = (\<lambda>i. if i = 0 then demo_start else if i = 1 then s1 else s2)"
  have st: "?f (S i) = Inr (Some (ErrEnsureExists ApplyFailed), S (Suc i))" if "i < 2" for i
    using that 1(1) 2 by (cases "i = 0") (simp_all add: S_def)
  have 0: "nec_count (kl_agent (S 0)) = 0" "os_journal (kl_os (S 0)) = []"
    by (simp_all add: S_def demo_start_def kl_agent_def kl_os_def demo_rt_def new_necon_def demo_os_def)
  have "nec_count (kl_agent (S 2)) = wrap64 (nec_count (kl_agent (S 0)) + int 2) \<and> os_journal (kl_os (S 2)) = os_journal (kl_os (S 0))"
    by (rule failed_creation_skips_interfaces [where ps = "\<lambda>_. new_status" and er = "\<lambda>_. ApplyFailed" and S = S and k = 2, OF st])
       (simp_all add: 0 in64_def)
  then have "nec_count (kl_agent s2) = 2" "os_journal (kl_os s2) = []" using 0 by (simp_all add: wrap64_def S_def)
  moreover have "nec_count (kl_agent demo_start) = 0" using 0(1) by (simp add: S_def)
  ultimately show ?thesis using 1(1) 2 by (intro exI [of _ s1] exI [of _ s2] conjI)
qed

lemma demo_SyncPod:
  assumes "p_Namespace (nec_pod (fst (rs_agent rt))) = []" "\<not> rs_SyncError rt" "rs_results rt = []"
  shows "\<exists>rt'. SyncPod demo_runtime demo_uid_pod new_status rt = Inr rt' \<and> runtime_error rt' = None"
proof -
  have i: "init_names demo_runtime demo_uid_pod = []"
    by (simp add: init_names_def demo_runtime_def)
  have c: "computePodActions (re_ephemeralGate demo_runtime) (re_probes demo_runtime) demo_uid_pod new_status =
    \<lparr>pa_KillPod = True, pa_CreateSandbox = True, pa_SandboxID = [], pa_Attempt = 0, pa_NextInit = None,
     pa_Start = [], pa_Kill = [], pa_Ephemeral = [], pa_PostStop = []\<rparr>"
    by (simp add: computePodActions_def podSandboxChanged_def new_status_def Let_def)
  have k: "ps_ContainerStatuses new_status = []" "ps_SandboxStatuses new_status = []"
    by (simp_all add: new_status_def)
  obtain nec os0 where a: "rs_agent rt = (nec, os0)" by force
  show ?thesis
    using assms unfolding SyncPod_def c
    by (simp add: i k a Let_def sync_defs demo_runtime_simps SetSLO_def runtime_error_def pod_sync_error_def)
qed

lemma demo_created:
  "\<exists>s1 cs. syncPod (demo_kubelet demo_lib) SyncPodCreate demo_uid_pod None new_status None demo_start = Inr (None, s1) \<and>
     kl_calls s1 = kl_calls demo_start @ cs \<and> KSetNeconPod \<in> set cs \<and> nec_count (kl_agent s1) = 1"
proof -
  let ?env = "demo_kubelet demo_lib"
  let ?s = "demo_synced demo_lib demo_start"
  have d: "cf_dirs (kl_fs ?s) = (\<lambda>_. False)" "kl_statuses ?s ''u1'' = Some demo_api_status"
    by (simp_all add: demo_start_def demo_fs_def)
  obtain s3 where s3: "cf_dirs (kl_fs s3) = (\<lambda>_. False)" "kl_statuses s3 = kl_statuses ?s" "nec_pod (kl_agent s3) = demo_uid_pod"
    "\<exists>cs. kl_calls s3 = kl_calls ?s @ cs \<and> KSetNeconPod \<in> set cs"
    "sync_cgroups ?env demo_uid_pod new_status demo_api_status ?s =
       res_bind (kl_EnsureExists ?env demo_uid_pod s3) (\<lambda>(e, s4). Inr (map_option ErrEnsureExists e, s4))"
    using demo_sync_cgroups [OF d, of "cl_Apply demo_lib"] by auto
  obtain nec' fs' where "EnsureExists demo_pcm demo_lib demo_uid_pod (kl_agent s3, kl_fs s3) = Inr (None, nec', fs')"
    using demo_create [OF s3(1)] by blast
  then obtain s4 where s4: "kl_EnsureExists ?env demo_uid_pod s3 = Inr (None, s4)" "kl_statuses s4 = kl_statuses s3"
    by (simp add: kl_EnsureExists_def on_cgroups_def)
  have q4: "quiet s3 s4" by (rule kl_EnsureExists_quiet [OF s4(1)])
  have m: "sync_mirror ?env demo_uid_pod None s4 = s4" by (simp add: sync_mirror_def IsStaticPod_def GetPodSource_def)
  obtain s5 where s5: "makePodDataDirs ?env demo_uid_pod s4 = (True, s5)" "kl_statuses s5 = kl_statuses s4" "kl_rt s5 = kl_rt s4"
    by (simp add: makePodDataDirs_def Let_def)
  have t: "\<not> podIsTerminated ?env s5 demo_uid_pod"
    using s5(2) s4(2) s3(2) d(2) by (intro demo_not_terminated) simp
  have n: "nec_pod (fst (rs_agent (kl_rt s5))) = demo_uid_pod" using s5(3) q4 s3(3) by (simp add: quiet_def kl_agent_def)
  obtain rt' where rt': "SyncPod demo_runtime demo_uid_pod new_status ((kl_rt s5)\<lparr>rs_results := [], rs_SyncError := False\<rparr>) = Inr rt'"
    "runtime_error rt' = None"
    using demo_SyncPod [of "(kl_rt s5)\<lparr>rs_results := [], rs_SyncError := False\<rparr>"] n by auto
  let ?s1 = "(kl_log KSyncPod (kl_log KWaitForAttachAndMount s5))\<lparr>kl_rt := rt'\<rparr>"
  have r: "sync_runnable ?env demo_uid_pod None new_status demo_api_status ?s = Inr (None, ?s1)"
    by (simp add: sync_runnable_def s3(5) s4(1) m s5(1) t Let_def rt')
  obtain cs3 where c3: "kl_calls s3 = kl_calls ?s @ cs3" "KSetNeconPod \<in> set cs3" using s3(4) by blast
  have "unannounced s4 s5" using makePodDataDirs_quiet [OF s5(1)] quiet_unannounced by blast
  then obtain cs where c: "kl_calls ?s1 = kl_calls demo_start @ cs" "KSetNeconPod \<in> set cs"
    using c3 q4 by (auto simp: quiet_def unannounced_def kl_log_def demo_synced_def SetPodStatus_def)
  have sp: "syncPod ?env SyncPodCreate demo_uid_pod None new_status None demo_start = Inr (None, ?s1)"
    by (simp add: demo_syncPod r)
  have "nec_count (kl_agent demo_start) = 0" by (simp add: demo_start_def kl_agent_def demo_rt_def new_necon_def)
  then have "nec_count (kl_agent ?s1) = 1"
    using syncPod_counts [OF sp] c by (auto simp: counts_def SetNeconPod_def)
  with sp c show ?thesis by blast
qed

text \<open>
  The same pod in a later sync: its sandbox is running, its cgroup is there, and the sync goes down to the runtime (which
  stops the sandbox, since the pod has no container to keep).
\<close>

definition running_status :: pod_status where
  "running_status = \<lparr>ps_IPs = [], ps_ContainerStatuses = [],
     ps_SandboxStatuses = [\<lparr>sb_Id = ''sb'', sb_Ready = True, sb_Attempt = 0, sb_Network = NamespacePOD, sb_Ip = ''10.0.0.7''\<rparr>]\<rparr>"

lemma running_SyncPod:
  assumes "\<not> rs_SyncError rt" "rs_results rt = []"
  shows "\<exists>rt'. SyncPod demo_runtime demo_uid_pod running_status rt = Inr rt' \<and> runtime_error rt' = None"
proof -
  have i: "init_names demo_runtime demo_uid_pod = []"
    by (simp add: init_names_def demo_runtime_def)
  have c: "computePodActions (re_ephemeralGate demo_runtime) (re_probes demo_runtime) demo_uid_pod running_status =
    \<lparr>pa_KillPod = True, pa_CreateSandbox = False, pa_SandboxID = ''sb'', pa_Attempt = 0, pa_NextInit = None,
     pa_Start = [], pa_Kill = [], pa_Ephemeral = [], pa_PostStop = []\<rparr>"
    by (simp add: computePodActions_def podSandboxChanged_def running_status_def Let_def findNextInitContainerToRun_def
        networkNamespaceForPod_def demo_uid_pod_def empty_pod_def demo_runtime_simps)
  have r: "re_StopPodSandbox demo_runtime x" for x by (simp add: demo_runtime_def)
  show ?thesis
    using assms unfolding SyncPod_def c
    by (simp add: i r Let_def sync_defs demo_runtime_simps runtime_error_def pod_sync_error_def running_status_def)
qed

lemma demo_updated:
  assumes ex: "kl_Exists (demo_kubelet demo_lib) s demo_uid_pod = Inr True"
  shows "\<exists>s' cs. syncPod (demo_kubelet demo_lib) SyncPodUpdate demo_uid_pod None running_status None s = Inr (None, s') \<and>
    kl_calls s' = kl_calls s @ cs \<and> KSyncPod \<in> set cs"
proof -
  let ?env = "demo_kubelet demo_lib"
  let ?s = "demo_synced demo_lib s"
  have st: "kl_statuses ?s ''u1'' = Some demo_api_status" by simp
  have e: "kl_Exists ?env ?s demo_uid_pod = Inr True" using ex kl_Exists_dirs [of ?s s] by simp
  have c: "sync_cgroups ?env demo_uid_pod running_status demo_api_status ?s = Inr (None, ?s)"
    by (simp add: sync_cgroups_def demo_not_terminated [OF st] e)
  have m: "sync_mirror ?env demo_uid_pod None ?s = ?s" by (simp add: sync_mirror_def IsStaticPod_def GetPodSource_def)
  obtain s2 where s2: "makePodDataDirs ?env demo_uid_pod ?s = (True, s2)" "kl_statuses s2 = kl_statuses ?s"
    by (simp add: makePodDataDirs_def Let_def)
  have t: "\<not> podIsTerminated ?env s2 demo_uid_pod" using s2(2) st by (intro demo_not_terminated) simp
  obtain rt' where rt': "SyncPod demo_runtime demo_uid_pod running_status ((kl_rt s2)\<lparr>rs_results := [], rs_SyncError := False\<rparr>) = Inr rt'"
    "runtime_error rt' = None"
    using running_SyncPod [of "(kl_rt s2)\<lparr>rs_results := [], rs_SyncError := False\<rparr>"] by auto
  let ?s' = "(kl_log KSyncPod (kl_log KWaitForAttachAndMount s2))\<lparr>kl_rt := rt'\<rparr>"
  have "sync_runnable ?env demo_uid_pod None running_status demo_api_status ?s = Inr (None, ?s')"
    by (simp add: sync_runnable_def c m s2(1) t Let_def rt')
  then have "syncPod ?env SyncPodUpdate demo_uid_pod None running_status None s = Inr (None, ?s')"
    by (simp add: syncPod_def Let_def canRunPod_def pod_ips_def demo_synced_def demo_api_status_def running_status_def)
  moreover obtain cs where "kl_calls s2 = kl_calls ?s @ cs" using makePodDataDirs_quiet [OF s2(1)] by (auto simp: quiet_def)
  then have "kl_calls ?s' = kl_calls s @ KSetPodStatus ''u1'' # cs @ [KWaitForAttachAndMount, KSyncPod]"
    by (simp add: demo_synced_def SetPodStatus_def kl_log_def)
  ultimately show ?thesis
    by (intro exI [of _ ?s'] exI [of _ "KSetPodStatus ''u1'' # cs @ [KWaitForAttachAndMount, KSyncPod]"]) simp
qed

theorem pod_announced_once_witness:
  "\<exists>s1 s2 cs'.
     syncPod (demo_kubelet demo_lib) SyncPodCreate demo_uid_pod None new_status None demo_start = Inr (None, s1) \<and>
     KSetNeconPod \<in> set (kl_calls s1) \<and> nec_count (kl_agent s1) = 1 \<and>
     syncPod (demo_kubelet demo_lib) SyncPodUpdate demo_uid_pod None running_status None s1 = Inr (None, s2) \<and>
     kl_calls s2 = kl_calls s1 @ cs' \<and> KSyncPod \<in> set cs' \<and> KSetNeconPod \<notin> set cs' \<and> nec_count (kl_agent s2) = 1"
proof -
  obtain s1 cs where 1: "syncPod (demo_kubelet demo_lib) SyncPodCreate demo_uid_pod None new_status None demo_start = Inr (None, s1)"
     "kl_calls s1 = kl_calls demo_start @ cs" "KSetNeconPod \<in> set cs" "nec_count (kl_agent s1) = 1"
    using demo_created by blast
  have d: "\<not> cm_systemd (pm_cgroupManager (ke_pcm (demo_kubelet demo_lib)))"
    "apply_creates (pm_cgroupManager (ke_pcm (demo_kubelet demo_lib))) (ke_lib (demo_kubelet demo_lib))"
    by (simp_all add: apply_creates_def demo_lib_def)
  have "kl_Exists (demo_kubelet demo_lib) s1 demo_uid_pod = Inr True" by (rule announced_then_exists [OF 1(1-3) d])
  then obtain s2 cs' where 2: "syncPod (demo_kubelet demo_lib) SyncPodUpdate demo_uid_pod None running_status None s1 = Inr (None, s2)"
     "kl_calls s2 = kl_calls s1 @ cs'" "KSyncPod \<in> set cs'"
    using demo_updated by blast
  from pod_announced_once [OF 1(1-3) d 2(1)] have "nec_count (kl_agent s2) = 1" "KSetNeconPod \<notin> set cs'"
    using 1(4) 2(2) by auto
  with 1 2 show ?thesis by (intro exI [of _ s1] exI [of _ s2] exI [of _ cs']) simp
qed

theorem syncPod_counts_new_pods_witness:
  "\<exists>s1. syncPod (demo_kubelet demo_lib) SyncPodCreate demo_uid_pod None new_status None demo_start = Inr (None, s1) \<and>
     filter ((=) KSetNeconPod) (kl_calls s1) = [KSetNeconPod] \<and> nec_count (kl_agent demo_start) = 0 \<and> nec_count (kl_agent s1) = 1"
proof -
  obtain s1 cs where 1: "syncPod (demo_kubelet demo_lib) SyncPodCreate demo_uid_pod None new_status None demo_start = Inr (None, s1)"
     "kl_calls s1 = kl_calls demo_start @ cs" "KSetNeconPod \<in> set cs"
    using demo_created by blast
  have e: "kl_calls demo_start = []" "nec_count (kl_agent demo_start) = 0"
    by (simp_all add: demo_start_def kl_agent_def demo_rt_def new_necon_def)
  from syncPod_counts_new_pods [OF 1(1)] have "length (filter ((=) KSetNeconPod) cs) \<le> 1" "nec_count (kl_agent s1) = 1"
    using 1(2,3) e(2) by auto
  moreover have "filter ((=) KSetNeconPod) cs \<noteq> []" using 1(3) by (auto simp: filter_empty_conv)
  ultimately have "filter ((=) KSetNeconPod) cs = [KSetNeconPod]"
    by (cases "filter ((=) KSetNeconPod) cs") (auto dest: filter_eq_ConsD)
  with 1 e \<open>nec_count (kl_agent s1) = 1\<close> show ?thesis by (intro exI [of _ s1]) simp
qed

theorem backoff_errors_are_returned_witness:
  "\<exists>rt'. SyncPod demo_runtime demo_uid_pod new_status (demo_rt (new_necon, demo_os)) = Inr rt' \<and> \<not> pod_sync_error rt'"
proof -
  obtain rt' where r: "SyncPod demo_runtime demo_uid_pod new_status (demo_rt (new_necon, demo_os)) = Inr rt'" "runtime_error rt' = None"
    using demo_SyncPod [of "demo_rt (new_necon, demo_os)"] by (auto simp: demo_rt_def new_necon_def empty_pod_def)
  from backoff_errors_are_returned [OF r(1)] r show ?thesis by (auto split: if_splits)
qed

end
