(* ===== verification/GoHeap.thy ===== *)
theory GoHeap
  imports Pods
begin

section \<open>The heap of the scheduling queue\<close>

text \<open>
  \<open>pkg/scheduler/internal/heap/heap.go\<close>: a binary heap of keys, with a map from the keys to their objects
  and positions so that an object can be found, replaced and deleted by its key.  It is sifted by Go's
  \<open>container/heap\<close>, whose \<open>up\<close>, \<open>down\<close>, \<open>Push\<close>, \<open>Pop\<close>, \<open>Remove\<close> and \<open>Fix\<close> are part of the language's standard
  library and modelled as they are.  The functions \<open>keyFunc\<close> and \<open>lessFunc\<close> of the heap are arguments; a
  key function that fails returns \<open>None\<close>.  The metric recorder is left out.
\<close>

subsection \<open>The data and the heap interface\<close>

record 'a heap_data =
  h_items :: "(string \<times> 'a \<times> nat) list"
  h_queue :: "string list"

definition h_New :: "'a heap_data" where
  "h_New = \<lparr>h_items = [], h_queue = []\<rparr>"

definition h_Less :: "('a \<Rightarrow> 'a \<Rightarrow> bool) \<Rightarrow> 'a heap_data \<Rightarrow> nat \<Rightarrow> nat \<Rightarrow> bool" where
  "h_Less lt h i j =
     (if length (h_queue h) < i \<or> length (h_queue h) < j then False
      else
        (case map_of (h_items h) (h_queue h ! i) of
           None \<Rightarrow> False
         | Some (a, _) \<Rightarrow>
             (case map_of (h_items h) (h_queue h ! j) of
                None \<Rightarrow> False
              | Some (b, _) \<Rightarrow> lt a b)))"

definition set_index :: "string \<Rightarrow> nat \<Rightarrow> 'a heap_data \<Rightarrow> 'a heap_data" where
  "set_index k i h = h\<lparr>h_items := AList.map_entry k (\<lambda>(a, _). (a, i)) (h_items h)\<rparr>"

definition h_Swap :: "nat \<Rightarrow> nat \<Rightarrow> 'a heap_data \<Rightarrow> 'a heap_data" where
  "h_Swap i j h =
     (let q = (h_queue h)[i := h_queue h ! j, j := h_queue h ! i]
      in set_index (q ! j) j (set_index (q ! i) i (h\<lparr>h_queue := q\<rparr>)))"

definition h_Push :: "string \<Rightarrow> 'a \<Rightarrow> 'a heap_data \<Rightarrow> 'a heap_data" where
  "h_Push key obj h =
     h\<lparr>h_items := AList.update key (obj, length (h_queue h)) (h_items h), h_queue := h_queue h @ [key]\<rparr>"

text \<open>\<open>Pop\<close> of the interface: the last key; its object, or nil if the map does not have it.\<close>

definition h_Pop :: "'a heap_data \<Rightarrow> 'a option \<times> 'a heap_data" where
  "h_Pop h =
     (let key = last (h_queue h); h1 = h\<lparr>h_queue := butlast (h_queue h)\<rparr> in
      (case map_of (h_items h1) key of
         None \<Rightarrow> (None, h1)
       | Some (a, _) \<Rightarrow> (Some a, h1\<lparr>h_items := AList.delete key (h_items h1)\<rparr>)))"

subsection \<open>Sifting\<close>

definition parent :: "nat \<Rightarrow> nat" where
  "parent i = (i - 1) div 2"

lemma parent_less [simp]: "0 < i \<Longrightarrow> parent i < i" and parent_0 [simp]: "parent 0 = 0"
  by (auto simp: parent_def)

lemma parent_eq [simp]: "parent i = i \<longleftrightarrow> i = 0" "i = parent i \<longleftrightarrow> i = 0"
  by (auto simp: parent_def)

lemma parent_le: "parent i \<le> i" by (auto simp: parent_def)

function h_up :: "('a \<Rightarrow> 'a \<Rightarrow> bool) \<Rightarrow> nat \<Rightarrow> 'a heap_data \<Rightarrow> 'a heap_data" where
  "h_up lt j h =
     (let i = parent j in
      if i = j \<or> \<not> h_Less lt h j i then h else h_up lt i (h_Swap i j h))"
  by pat_completeness auto
termination by (relation "measure (\<lambda>(_, j, _). j)") auto

text \<open>The element sifted down ends at the first component; \<open>down\<close> returns whether that is not its start.\<close>

function h_down :: "('a \<Rightarrow> 'a \<Rightarrow> bool) \<Rightarrow> nat \<Rightarrow> nat \<Rightarrow> 'a heap_data \<Rightarrow> nat \<times> 'a heap_data" where
  "h_down lt i n h =
     (let j1 = 2 * i + 1 in
      if n \<le> j1 then (i, h)
      else
        let j = (if j1 + 1 < n \<and> h_Less lt h (j1 + 1) j1 then j1 + 1 else j1) in
        if \<not> h_Less lt h j i then (i, h) else h_down lt j n (h_Swap i j h))"
  by pat_completeness auto
termination by (relation "measure (\<lambda>(_, i, n, _). n - i)") auto

declare h_up.simps [simp del] h_down.simps [simp del]

definition heap_Push :: "('a \<Rightarrow> 'a \<Rightarrow> bool) \<Rightarrow> string \<Rightarrow> 'a \<Rightarrow> 'a heap_data \<Rightarrow> 'a heap_data" where
  "heap_Push lt key obj h = (let h1 = h_Push key obj h in h_up lt (length (h_queue h1) - 1) h1)"

definition heap_Fix :: "('a \<Rightarrow> 'a \<Rightarrow> bool) \<Rightarrow> nat \<Rightarrow> 'a heap_data \<Rightarrow> 'a heap_data" where
  "heap_Fix lt i h =
     (case h_down lt i (length (h_queue h)) h of (i', h1) \<Rightarrow> if i < i' then h1 else h_up lt i h1)"

definition heap_Remove :: "('a \<Rightarrow> 'a \<Rightarrow> bool) \<Rightarrow> nat \<Rightarrow> 'a heap_data \<Rightarrow> 'a option \<times> 'a heap_data" where
  "heap_Remove lt i h =
     (let n = length (h_queue h) - 1 in
      if n = i then h_Pop h
      else
        (case h_down lt i n (h_Swap i n h) of
           (i', h1) \<Rightarrow> h_Pop (if i < i' then h1 else h_up lt i h1)))"

text \<open>On an empty heap \<open>Swap\<close> is called with index \<open>-1\<close>.\<close>

definition heap_Pop :: "('a \<Rightarrow> 'a \<Rightarrow> bool) \<Rightarrow> 'a heap_data \<Rightarrow> go_panic + ('a option \<times> 'a heap_data)" where
  "heap_Pop lt h =
     (if h_queue h = [] then Inl IndexOutOfRange
      else
        let n = length (h_queue h) - 1 in
        Inr (h_Pop (snd (h_down lt 0 n (h_Swap 0 n h)))))"

subsection \<open>The operations of the heap\<close>

text \<open>A flag is whether an error is returned: of the key function, or that the object was not found.\<close>

definition hp_Add_obj :: "('a \<Rightarrow> string option) \<Rightarrow> ('a \<Rightarrow> 'a \<Rightarrow> bool) \<Rightarrow> 'a \<Rightarrow> 'a heap_data \<Rightarrow> bool \<times> 'a heap_data" where
  "hp_Add_obj keyf lt obj h =
     (case keyf obj of
        None \<Rightarrow> (True, h)
      | Some key \<Rightarrow>
          (case map_of (h_items h) key of
             Some (_, i) \<Rightarrow> (False, heap_Fix lt i (h\<lparr>h_items := AList.map_entry key (\<lambda>(_, i). (obj, i)) (h_items h)\<rparr>))
           | None \<Rightarrow> (False, heap_Push lt key obj h)))"

definition hp_AddIfNotPresent :: "('a \<Rightarrow> string option) \<Rightarrow> ('a \<Rightarrow> 'a \<Rightarrow> bool) \<Rightarrow> 'a \<Rightarrow> 'a heap_data \<Rightarrow> bool \<times> 'a heap_data" where
  "hp_AddIfNotPresent keyf lt obj h =
     (case keyf obj of
        None \<Rightarrow> (True, h)
      | Some key \<Rightarrow> (False, if map_of (h_items h) key = None then heap_Push lt key obj h else h))"

definition hp_Update :: "('a \<Rightarrow> string option) \<Rightarrow> ('a \<Rightarrow> 'a \<Rightarrow> bool) \<Rightarrow> 'a \<Rightarrow> 'a heap_data \<Rightarrow> bool \<times> 'a heap_data" where
  "hp_Update keyf lt obj h = hp_Add_obj keyf lt obj h"

definition hp_Delete :: "('a \<Rightarrow> string option) \<Rightarrow> ('a \<Rightarrow> 'a \<Rightarrow> bool) \<Rightarrow> 'a \<Rightarrow> 'a heap_data \<Rightarrow> bool \<times> 'a heap_data" where
  "hp_Delete keyf lt obj h =
     (case keyf obj of
        None \<Rightarrow> (True, h)
      | Some key \<Rightarrow>
          (case map_of (h_items h) key of
             Some (_, i) \<Rightarrow> (False, snd (heap_Remove lt i h))
           | None \<Rightarrow> (True, h)))"

definition hp_Peek :: "'a heap_data \<Rightarrow> go_panic + 'a option" where
  "hp_Peek h =
     (if h_queue h = [] then Inr None
      else (case map_of (h_items h) (hd (h_queue h)) of None \<Rightarrow> Inl NilDereference | Some (a, _) \<Rightarrow> Inr (Some a)))"

text \<open>\<open>None\<close> is the error that the object was removed from the heap data.\<close>

definition hp_PopMin :: "('a \<Rightarrow> 'a \<Rightarrow> bool) \<Rightarrow> 'a heap_data \<Rightarrow> go_panic + ('a option \<times> 'a heap_data)" where
  "hp_PopMin lt h = heap_Pop lt h"

definition hp_GetByKey :: "string \<Rightarrow> 'a heap_data \<Rightarrow> 'a option" where
  "hp_GetByKey key h = map_option fst (map_of (h_items h) key)"

definition hp_Get :: "('a \<Rightarrow> string option) \<Rightarrow> 'a \<Rightarrow> 'a heap_data \<Rightarrow> bool \<times> 'a option" where
  "hp_Get keyf obj h = (case keyf obj of None \<Rightarrow> (True, None) | Some key \<Rightarrow> (False, hp_GetByKey key h))"

definition hp_List :: "'a heap_data \<Rightarrow> 'a list" where
  "hp_List h = map (fst \<circ> snd) (h_items h)"

definition hp_Length :: "'a heap_data \<Rightarrow> nat" where
  "hp_Length h = length (h_queue h)"

subsection \<open>The items and the queue belong together\<close>

definition h_ok :: "'a heap_data \<Rightarrow> bool" where
  "h_ok h \<longleftrightarrow>
     distinct (h_queue h) \<and> distinct (map fst (h_items h)) \<and> dom (map_of (h_items h)) = set (h_queue h) \<and>
     (\<forall>i < length (h_queue h). \<exists>a. map_of (h_items h) (h_queue h ! i) = Some (a, i))"

definition h_val :: "'a heap_data \<Rightarrow> nat \<Rightarrow> 'a" where
  "h_val h i = fst (the (map_of (h_items h) (h_queue h ! i)))"

text \<open>The values along the queue.\<close>

definition h_vals :: "'a heap_data \<Rightarrow> 'a list" where
  "h_vals h = map (h_val h) [0..<length (h_queue h)]"

lemma h_vals_simps [simp]: "length (h_vals h) = length (h_queue h)" "i < length (h_queue h) \<Longrightarrow> h_vals h ! i = h_val h i"
  by (simp_all add: h_vals_def)

lemma h_Less_vals:
  assumes "h_ok h" "i < length (h_queue h)" "j < length (h_queue h)"
  shows "h_Less lt h i j = lt (h_vals h ! i) (h_vals h ! j)"
proof -
  obtain a b where "map_of (h_items h) (h_queue h ! i) = Some (a, i)" "map_of (h_items h) (h_queue h ! j) = Some (b, j)"
    using assms unfolding h_ok_def by blast
  then show ?thesis using assms(2,3) by (simp add: h_Less_def h_val_def)
qed

end
