(* ===== verification/GoHeapLaws.thy ===== *)
theory GoHeapLaws
  imports GoHeap
begin

section \<open>The heap is a priority queue\<close>

text \<open>
  Sifting on the list of the values, for an order in which incomparable values are equivalent, and the
  operations of the heap as operations on a map from keys to objects.
\<close>

subsection \<open>Sifting a list\<close>

definition swap :: "nat \<Rightarrow> nat \<Rightarrow> 'a list \<Rightarrow> 'a list" where
  "swap i j xs = xs[i := xs ! j, j := xs ! i]"

lemma length_swap [simp]: "length (swap i j xs) = length xs"
  by (simp add: swap_def)

lemma nth_swap:
  "i < length xs \<Longrightarrow> j < length xs \<Longrightarrow> swap i j xs ! k = (if k = i then xs ! j else if k = j then xs ! i else xs ! k)"
  by (auto simp: swap_def nth_list_update)

function l_up :: "('a \<Rightarrow> 'a \<Rightarrow> bool) \<Rightarrow> nat \<Rightarrow> 'a list \<Rightarrow> 'a list" where
  "l_up lt j xs = (let i = parent j in if i = j \<or> \<not> lt (xs ! j) (xs ! i) then xs else l_up lt i (swap i j xs))"
  by pat_completeness auto
termination by (relation "measure (\<lambda>(_, j, _). j)") auto

function l_down :: "('a \<Rightarrow> 'a \<Rightarrow> bool) \<Rightarrow> nat \<Rightarrow> nat \<Rightarrow> 'a list \<Rightarrow> nat \<times> 'a list" where
  "l_down lt i n xs =
     (let j1 = 2 * i + 1 in
      if n \<le> j1 then (i, xs)
      else
        let j = (if j1 + 1 < n \<and> lt (xs ! (j1 + 1)) (xs ! j1) then j1 + 1 else j1) in
        if \<not> lt (xs ! j) (xs ! i) then (i, xs) else l_down lt j n (swap i j xs))"
  by pat_completeness auto
termination by (relation "measure (\<lambda>(_, i, n, _). n - i)") auto

declare l_up.simps [simp del] l_down.simps [simp del]

definition heap_upto :: "('a \<Rightarrow> 'a \<Rightarrow> bool) \<Rightarrow> nat \<Rightarrow> 'a list \<Rightarrow> bool" where
  "heap_upto lt n xs \<longleftrightarrow> (\<forall>c. 0 < c \<longrightarrow> c < n \<longrightarrow> \<not> lt (xs ! c) (xs ! parent c))"

text \<open>The value at \<open>i\<close> may be out of order with its parent (\<open>up\<close>), or with its children too (\<open>fix\<close>).\<close>

definition heap_but_up :: "('a \<Rightarrow> 'a \<Rightarrow> bool) \<Rightarrow> nat \<Rightarrow> nat \<Rightarrow> 'a list \<Rightarrow> bool" where
  "heap_but_up lt i n xs \<longleftrightarrow>
     (\<forall>c. 0 < c \<longrightarrow> c < n \<longrightarrow> c \<noteq> i \<longrightarrow> \<not> lt (xs ! c) (xs ! parent c)) \<and>
     (\<forall>c. 0 < c \<longrightarrow> c < n \<longrightarrow> parent c = i \<longrightarrow> 0 < i \<longrightarrow> \<not> lt (xs ! c) (xs ! parent i))"

definition heap_but :: "('a \<Rightarrow> 'a \<Rightarrow> bool) \<Rightarrow> nat \<Rightarrow> nat \<Rightarrow> 'a list \<Rightarrow> bool" where
  "heap_but lt i n xs \<longleftrightarrow>
     (\<forall>c. 0 < c \<longrightarrow> c < n \<longrightarrow> c \<noteq> i \<longrightarrow> parent c \<noteq> i \<longrightarrow> \<not> lt (xs ! c) (xs ! parent c)) \<and>
     (\<forall>c. 0 < c \<longrightarrow> c < n \<longrightarrow> parent c = i \<longrightarrow> 0 < i \<longrightarrow> \<not> lt (xs ! c) (xs ! parent i))"

lemma heap_uptoD: "heap_upto lt n xs \<Longrightarrow> 0 < c \<Longrightarrow> c < n \<Longrightarrow> \<not> lt (xs ! c) (xs ! parent c)"
  by (simp add: heap_upto_def)

lemma parent_child: "0 < c \<Longrightarrow> parent c = i \<longleftrightarrow> c = 2 * i + 1 \<or> c = 2 * i + 2"
  unfolding parent_def by linarith

lemma parent_children [simp]: "parent (Suc (2 * i)) = i" "parent (Suc (Suc (2 * i))) = i"
  by (simp_all add: parent_def)

locale queue_order =
  fixes lt :: "'a \<Rightarrow> 'a \<Rightarrow> bool"
  assumes asym: "lt a b \<Longrightarrow> \<not> lt b a"
    and not_lt_trans: "\<not> lt a b \<Longrightarrow> \<not> lt b c \<Longrightarrow> \<not> lt a c"
begin

lemma up_step:
  assumes b: "heap_but_up lt j n xs" and j: "j < n" "n \<le> length xs" "parent j \<noteq> j" and l: "lt (xs ! j) (xs ! parent j)"
  shows "heap_but_up lt (parent j) n (swap (parent j) j xs)"
proof -
  let ?p = "parent j" and ?ys = "swap (parent j) j xs"
  have p: "?p < j" "0 < j" using j(3) parent_less [of j] by auto
  have ys: "?ys ! k = (if k = ?p then xs ! j else if k = j then xs ! ?p else xs ! k)" for k
    by (intro nth_swap) (use p j in linarith)+
  have ord: "\<not> lt (xs ! c) (xs ! parent c)" if "0 < c" "c < n" "c \<noteq> j" for c
    using b that by (simp add: heap_but_up_def)
  have "\<not> lt (?ys ! c) (?ys ! parent c)" if c: "0 < c" "c < n" "c \<noteq> ?p" for c
  proof -
    consider "c = j" | "c \<noteq> j" "parent c = j" | "c \<noteq> j" "parent c = ?p" | "c \<noteq> j" "parent c \<noteq> j" "parent c \<noteq> ?p" by blast
    then show ?thesis
    proof cases
      case 1
      then show ?thesis using p asym [OF l] by (simp add: ys)
    next
      case 2
      then have "\<not> lt (xs ! c) (xs ! ?p)" using b c p(2) unfolding heap_but_up_def by blast
      then show ?thesis using 2 c p by (simp add: ys)
    next
      case 3
      then have "\<not> lt (xs ! c) (xs ! ?p)" using ord [of c] c by simp
      then show ?thesis using 3 c p not_lt_trans [OF _ asym [OF l]] by (simp add: ys)
    next
      case 4
      then show ?thesis using ord [of c] c by (simp add: ys)
    qed
  qed
  moreover have "\<not> lt (?ys ! c) (?ys ! parent ?p)" if c: "0 < c" "c < n" "parent c = ?p" "0 < ?p" for c
  proof -
    have "parent ?p < ?p" using c(4) by simp
    moreover from this have "parent ?p \<noteq> j" using p by linarith
    ultimately have pp: "?ys ! parent ?p = xs ! parent ?p" by (simp add: ys)
    have up: "\<not> lt (xs ! ?p) (xs ! parent ?p)" using ord [of ?p] c p j by simp
    show ?thesis
    proof (cases "c = j")
      case True
      then show ?thesis using pp up p by (simp add: ys)
    next
      case False
      then have "\<not> lt (xs ! c) (xs ! ?p)" using ord [of c] c by simp
      moreover have "c \<noteq> ?p" using c(3,4) by auto
      ultimately show ?thesis using pp False not_lt_trans [OF _ up] by (simp add: ys)
    qed
  qed
  ultimately show ?thesis by (simp add: heap_but_up_def)
qed

lemma up_heap:
  assumes "heap_but_up lt j n xs" "j < n" "n \<le> length xs"
  shows "heap_upto lt n (l_up lt j xs)"
  using assms
proof (induction j arbitrary: xs rule: less_induct)
  case (less j)
  show ?case
  proof (cases "parent j = j \<or> \<not> lt (xs ! j) (xs ! parent j)")
    case True
    then have "heap_upto lt n xs" using less.prems(1) unfolding heap_upto_def heap_but_up_def by (metis parent_0 less_irrefl)
    then show ?thesis using True by (subst l_up.simps) (simp add: Let_def)
  next
    case False
    have p: "parent j < j" using False by simp
    have "heap_but_up lt (parent j) n (swap (parent j) j xs)" using up_step less.prems False by blast
    with less.IH [OF p] have "heap_upto lt n (l_up lt (parent j) (swap (parent j) j xs))" using less.prems p by simp
    then show ?thesis using False by (subst l_up.simps) (simp add: Let_def)
  qed
qed

text \<open>The child that is swapped when a value is sifted down.\<close>

definition min_child :: "nat \<Rightarrow> nat \<Rightarrow> 'a list \<Rightarrow> nat" where
  "min_child i n xs = (if 2 * i + 2 < n \<and> lt (xs ! (2 * i + 2)) (xs ! (2 * i + 1)) then 2 * i + 2 else 2 * i + 1)"

lemma l_down_step:
  "l_down lt i n xs =
     (if n \<le> 2 * i + 1 \<or> \<not> lt (xs ! min_child i n xs) (xs ! i) then (i, xs)
      else l_down lt (min_child i n xs) n (swap i (min_child i n xs) xs))"
  by (subst l_down.simps) (simp add: Let_def min_child_def)

lemma min_child:
  assumes "2 * i + 1 < n"
  shows "min_child i n xs < n" "parent (min_child i n xs) = i" "i < min_child i n xs"
    "0 < c \<Longrightarrow> c < n \<Longrightarrow> parent c = i \<Longrightarrow> \<not> lt (xs ! c) (xs ! min_child i n xs)"
proof -
  show "min_child i n xs < n" "parent (min_child i n xs) = i" "i < min_child i n xs" using assms by (auto simp: min_child_def)
  assume c: "0 < c" "c < n" "parent c = i"
  then consider "c = 2 * i + 1" | "c = 2 * i + 2" using parent_child [OF c(1), of i] by blast
  then show "\<not> lt (xs ! c) (xs ! min_child i n xs)"
    by cases (use c(2) asym in \<open>auto simp: min_child_def\<close>)
qed

lemma down_step:
  assumes b: "heap_but lt i n xs" and i: "2 * i + 1 < n" "n \<le> length xs" and l: "lt (xs ! min_child i n xs) (xs ! i)"
  shows "heap_but lt (min_child i n xs) n (swap i (min_child i n xs) xs)"
    "0 < min_child i n xs \<Longrightarrow> \<not> lt (swap i (min_child i n xs) xs ! min_child i n xs) (swap i (min_child i n xs) xs ! parent (min_child i n xs))"
proof -
  let ?j = "min_child i n xs" and ?ys = "swap i (min_child i n xs) xs"
  note j = min_child [OF i(1), where xs = xs]
  have ys: "?ys ! k = (if k = i then xs ! ?j else if k = ?j then xs ! i else xs ! k)" for k
    using i j(1,3) by (intro nth_swap) auto
  have ord: "\<not> lt (xs ! c) (xs ! parent c)" if "0 < c" "c < n" "c \<noteq> i" "parent c \<noteq> i" for c
    using b that by (simp add: heap_but_def)
  show "\<not> lt (?ys ! ?j) (?ys ! parent ?j)" using j(2,3) asym [OF l] by (simp add: ys)
  have "\<not> lt (?ys ! c) (?ys ! parent c)" if c: "0 < c" "c < n" "c \<noteq> ?j" "parent c \<noteq> ?j" for c
  proof -
    consider "parent c = i" | "c = i" "parent c \<noteq> i" | "c \<noteq> i" "parent c \<noteq> i" by blast
    then show ?thesis
    proof cases
      case 1
      then have "c \<noteq> i" using c(1) by auto
      then show ?thesis using 1 c j(4) by (simp add: ys)
    next
      case 2
      then have "\<not> lt (xs ! ?j) (xs ! parent i)" using b c(1) j(1-3) unfolding heap_but_def by (metis gr_zeroI not_less0)
      then show ?thesis using 2 c by (simp add: ys)
    next
      case 3
      then show ?thesis using ord [of c] c by (simp add: ys)
    qed
  qed
  moreover have "\<not> lt (?ys ! c) (?ys ! parent ?j)" if c: "0 < c" "c < n" "parent c = ?j" for c
  proof -
    have "c \<noteq> ?j" "c \<noteq> i" using c j(3) parent_less [OF c(1)] by auto
    then show ?thesis using ord [of c] c j(2,3) by (simp add: ys)
  qed
  ultimately show "heap_but lt ?j n ?ys" by (simp add: heap_but_def)
qed

lemma down_heap:
  assumes "heap_but lt i n xs" "0 < i \<Longrightarrow> \<not> lt (xs ! i) (xs ! parent i)" "n \<le> length xs" "i < n"
  shows "heap_upto lt n (snd (l_down lt i n xs))"
  using assms
proof (induction "n - i" arbitrary: i xs rule: less_induct)
  case (less i xs)
  let ?j = "min_child i n xs"
  show ?case
  proof (cases "n \<le> 2 * i + 1 \<or> \<not> lt (xs ! ?j) (xs ! i)")
    case True
    have "\<not> lt (xs ! c) (xs ! parent c)" if c: "0 < c" "c < n" for c
    proof (cases "parent c = i")
      case child: True
      then have n: "2 * i + 1 < n" using c parent_child [OF c(1)] by auto
      then have "\<not> lt (xs ! ?j) (xs ! i)" using True by simp
      then show ?thesis using min_child(4) [OF n c child] child not_lt_trans by blast
    next
      case other: False
      then show ?thesis using less.prems(1,2) c by (cases "c = i") (simp_all add: heap_but_def)
    qed
    then show ?thesis using True by (subst l_down_step) (auto simp: heap_upto_def)
  next
    case False
    then have n: "2 * i + 1 < n" "lt (xs ! ?j) (xs ! i)" by auto
    note step = down_step [OF less.prems(1) n(1) less.prems(3) n(2)]
    have "heap_upto lt n (snd (l_down lt ?j n (swap i ?j xs)))"
      by (rule less.hyps) (use step less.prems min_child(1-3) [OF n(1), where xs = xs] in auto)
    then show ?thesis using False by (subst l_down_step) simp
  qed
qed

lemma l_down_moved: "i < fst (l_down lt i n xs) \<longleftrightarrow> 2 * i + 1 < n \<and> lt (xs ! min_child i n xs) (xs ! i)"
proof -
  have le: "i \<le> fst (l_down lt i n xs)" for i xs
  proof (induction "n - i" arbitrary: i xs rule: less_induct)
    case (less i xs)
    show ?case
    proof (cases "n \<le> 2 * i + 1 \<or> \<not> lt (xs ! min_child i n xs) (xs ! i)")
      case False
      then have "2 * i + 1 < n" by simp
      note j = min_child(1,3) [OF this, where xs = xs]
      then have "min_child i n xs \<le> fst (l_down lt (min_child i n xs) n (swap i (min_child i n xs) xs))" by (intro less) auto
      then show ?thesis using False j by (subst l_down_step) simp
    qed (subst l_down_step, simp)
  qed
  show ?thesis
  proof (cases "n \<le> 2 * i + 1 \<or> \<not> lt (xs ! min_child i n xs) (xs ! i)")
    case False
    then have "2 * i + 1 < n" by simp
    then show ?thesis using False le [of "min_child i n xs" "swap i (min_child i n xs) xs"] min_child(3) [of i n xs]
      by (subst l_down_step) simp
  qed (subst l_down_step, auto)
qed

text \<open>Sifting down and, if that did not move the value, up, puts a changed value in its place.\<close>

lemma fix_heap:
  assumes "heap_but lt i n xs" "i < n" "n \<le> length xs" "l_down lt i n xs = (i', ys)"
  shows "heap_upto lt n (if i < i' then ys else l_up lt i ys)"
proof (cases "2 * i + 1 < n \<and> lt (xs ! min_child i n xs) (xs ! i)")
  case True
  let ?j = "min_child i n xs"
  note step = down_step [OF assms(1) conjunct1 [OF True] assms(3) conjunct2 [OF True]]
  have "heap_upto lt n (snd (l_down lt ?j n (swap i ?j xs)))"
    by (rule down_heap) (use step assms(3) min_child(1) [OF conjunct1 [OF True]] in auto)
  moreover have "l_down lt i n xs = l_down lt ?j n (swap i ?j xs)" using True by (subst l_down_step) simp
  moreover have "i < i'" using l_down_moved [of i n xs] True assms(4) by simp
  ultimately show ?thesis using assms(4) by (metis snd_conv)
next
  case False
  then have eq: "i' = i" "ys = xs" using assms(4) by (subst (asm) l_down_step, force)+
  have "\<not> lt (xs ! c) (xs ! parent c)" if c: "0 < c" "c < n" "c \<noteq> i" for c
  proof (cases "parent c = i")
    case True
    then have n: "2 * i + 1 < n" using c parent_child [OF c(1)] by auto
    then have "\<not> lt (xs ! min_child i n xs) (xs ! i)" using False by simp
    then show ?thesis using min_child(4) [OF n c(1,2) True] True not_lt_trans by blast
  next
    case False
    then show ?thesis using assms(1) c by (simp add: heap_but_def)
  qed
  then have "heap_but_up lt i n xs" using assms(1) by (simp add: heap_but_up_def heap_but_def)
  then show ?thesis using up_heap assms(2,3) eq by simp
qed

lemma root_first:
  assumes "heap_upto lt n xs" "c < n"
  shows "\<not> lt (xs ! c) (xs ! 0)"
  using assms(2)
proof (induction c rule: less_induct)
  case (less c)
  show ?case
  proof (cases "c = 0")
    case True
    then show ?thesis using asym by blast
  next
    case False
    then have "parent c < c" by simp
    moreover have "\<not> lt (xs ! c) (xs ! parent c)" using assms(1) less.prems False by (simp add: heap_upto_def)
    ultimately show ?thesis using less.IH [of "parent c"] less.prems not_lt_trans by simp
  qed
qed

end

subsection \<open>The heap sifts the list of its values\<close>

text \<open>The object of a key, and how the sifting of the heap keeps the objects.\<close>

definition obj_of :: "'a heap_data \<Rightarrow> string \<Rightarrow> 'a option" where
  "obj_of h k = map_option fst (map_of (h_items h) k)"

lemma obj_of_nth: "h_ok h \<Longrightarrow> i < length (h_queue h) \<Longrightarrow> obj_of h (h_queue h ! i) = Some (h_val h i)"
  unfolding h_ok_def obj_of_def h_val_def by force

lemma obj_of_dom: "h_ok h \<Longrightarrow> obj_of h k = None \<longleftrightarrow> k \<notin> set (h_queue h)"
  unfolding h_ok_def obj_of_def by (metis domIff option.map_disc_iff)

definition sifted :: "'a heap_data \<Rightarrow> 'a heap_data \<Rightarrow> bool" where
  "sifted h h' \<longleftrightarrow> h_ok h' \<and> obj_of h' = obj_of h \<and> set (h_queue h') = set (h_queue h) \<and> length (h_queue h') = length (h_queue h)"

lemma sifted_trans: "sifted h h1 \<Longrightarrow> sifted h1 h2 \<Longrightarrow> sifted h h2"
  by (simp add: sifted_def)

lemma map_of_set_index:
  "map_of (h_items (set_index k i h)) = (map_of (h_items h))(k := map_option (\<lambda>(a, _). (a, i)) (map_of (h_items h) k))"
  by (simp add: set_index_def)

lemma set_index_keys [simp]: "map fst (h_items (set_index k i h)) = map fst (h_items h)"
  by (simp add: set_index_def)

lemma swap_heap:
  assumes ok: "h_ok h" and ij: "i < length (h_queue h)" "j < length (h_queue h)"
  shows "sifted h (h_Swap i j h)" "h_vals (h_Swap i j h) = swap i j (h_vals h)" "h_queue (h_Swap i j h) = swap i j (h_queue h)"
proof -
  let ?q = "swap i j (h_queue h)" and ?h = "h_Swap i j h" and ?M = "map_of (h_items h)"
  show q: "h_queue ?h = ?q" by (simp add: h_Swap_def Let_def set_index_def swap_def)
  have qi: "?q ! k = (if k = i then h_queue h ! j else if k = j then h_queue h ! i else h_queue h ! k)" for k
    using ij by (rule nth_swap)
  have M: "map_of (h_items ?h) k = (if k = ?q ! j then map_option (\<lambda>(a, _). (a, j)) (?M k)
      else if k = ?q ! i then map_option (\<lambda>(a, _). (a, i)) (?M k) else ?M k)" for k
    by (auto simp: h_Swap_def Let_def map_of_set_index swap_def option.map_comp comp_def split_def)
  have d: "distinct (h_queue h)" using ok by (simp add: h_ok_def)
  have dq: "distinct ?q" "set ?q = set (h_queue h)" using d ij by (simp_all add: swap_def distinct_swap set_swap)
  have items: "\<exists>a. ?M (h_queue h ! k) = Some (a, k)" if "k < length (h_queue h)" for k using ok that unfolding h_ok_def by blast
  have at: "map_of (h_items ?h) (?q ! k) = Some (fst (the (?M (?q ! k))), k)" if k: "k < length (h_queue h)" for k
  proof -
    have eq: "?q ! k = ?q ! l \<longleftrightarrow> k = l" if "l < length (h_queue h)" for l
      using nth_eq_iff_index_eq [OF dq(1)] k that by simp
    obtain a b c where "?M (h_queue h ! i) = Some (a, i)" "?M (h_queue h ! j) = Some (b, j)" "?M (h_queue h ! k) = Some (c, k)"
      using items [OF ij(1)] items [OF ij(2)] items [OF k] by blast
    then show ?thesis unfolding M eq [OF ij(1)] eq [OF ij(2)] by (auto simp: qi)
  qed
  have obj: "obj_of ?h = obj_of h"
    by (rule ext) (simp add: obj_of_def M option.map_comp comp_def split_def)
  moreover have "distinct (map fst (h_items ?h))" using ok by (simp add: h_Swap_def Let_def h_ok_def)
  moreover have "map_of (h_items ?h) k = None \<longleftrightarrow> ?M k = None" for k by (simp add: M)
  then have "dom (map_of (h_items ?h)) = dom ?M" by (simp only: dom_def)
  then have "dom (map_of (h_items ?h)) = set ?q" using ok dq(2) unfolding h_ok_def by simp
  ultimately show "sifted h ?h" using at dq unfolding sifted_def h_ok_def q by (simp add: q) blast
  show "h_vals ?h = swap i j (h_vals h)"
  proof (rule nth_equalityI)
    fix k assume "k < length (h_vals ?h)"
    then have k: "k < length (h_queue h)" by (simp add: q)
    then have "h_vals ?h ! k = fst (the (?M (?q ! k)))" by (simp add: q h_val_def at)
    moreover have "swap i j (h_vals h) ! k = fst (the (?M (?q ! k)))"
      using ij k by (simp add: nth_swap qi h_val_def)
    ultimately show "h_vals ?h ! k = swap i j (h_vals h) ! k" by simp
  qed (simp add: q)
qed

lemma up_vals:
  assumes "h_ok h" "j < length (h_queue h)"
  shows "sifted h (h_up lt j h) \<and> h_vals (h_up lt j h) = l_up lt j (h_vals h) \<and>
    drop (Suc j) (h_queue (h_up lt j h)) = drop (Suc j) (h_queue h)"
  using assms
proof (induction j arbitrary: h rule: less_induct)
  case (less j)
  have less_iff: "h_Less lt h j (parent j) = lt (h_vals h ! j) (h_vals h ! parent j)"
    by (rule h_Less_vals) (use less.prems parent_le [of j] in auto)
  show ?case
  proof (cases "parent j = j \<or> \<not> lt (h_vals h ! j) (h_vals h ! parent j)")
    case True
    then have "h_up lt j h = h" "l_up lt j (h_vals h) = h_vals h"
      by (subst h_up.simps l_up.simps, simp add: Let_def less_iff)+
    then show ?thesis using less.prems by (simp add: sifted_def)
  next
    case False
    have p: "parent j < j" using False by simp
    then have "parent j < length (h_queue h)" using less.prems(2) by simp
    note sw = swap_heap [OF less.prems(1) this less.prems(2)]
    have "sifted (h_Swap (parent j) j h) (h_up lt (parent j) (h_Swap (parent j) j h)) \<and>
        h_vals (h_up lt (parent j) (h_Swap (parent j) j h)) = l_up lt (parent j) (h_vals (h_Swap (parent j) j h)) \<and>
        drop (Suc (parent j)) (h_queue (h_up lt (parent j) (h_Swap (parent j) j h))) = drop (Suc (parent j)) (h_queue (h_Swap (parent j) j h))"
      by (rule less.IH [OF p]) (use sw less.prems p in \<open>auto simp: sifted_def\<close>)
    moreover have "h_up lt j h = h_up lt (parent j) (h_Swap (parent j) j h)"
      "l_up lt j (h_vals h) = l_up lt (parent j) (swap (parent j) j (h_vals h))"
      using False by (subst h_up.simps l_up.simps, simp add: Let_def less_iff)+
    moreover have "drop (Suc j) (h_queue (h_Swap (parent j) j h)) = drop (Suc j) (h_queue h)"
      using p sw(3) by (simp add: swap_def)
    moreover have "drop (Suc j) xs = drop (j - parent j) (drop (Suc (parent j)) xs)" for xs :: "string list" using p by simp
    ultimately show ?thesis using sw sifted_trans by metis
  qed
qed

lemma down_vals:
  assumes "h_ok h" "i < length (h_queue h)" "n \<le> length (h_queue h)"
  shows "fst (h_down lt i n h) = fst (l_down lt i n (h_vals h)) \<and> sifted h (snd (h_down lt i n h)) \<and>
    h_vals (snd (h_down lt i n h)) = snd (l_down lt i n (h_vals h)) \<and> drop n (h_queue (snd (h_down lt i n h))) = drop n (h_queue h)"
  using assms
proof (induction "n - i" arbitrary: i h rule: less_induct)
  case (less i h)
  show ?case
  proof (cases "n \<le> 2 * i + 1")
    case True
    then have "h_down lt i n h = (i, h)" "l_down lt i n (h_vals h) = (i, h_vals h)"
      by (subst h_down.simps l_down.simps, simp)+
    then show ?thesis using less.prems by (simp add: sifted_def)
  next
    case n: False
    have ls: "h_Less lt h a b = lt (h_vals h ! a) (h_vals h ! b)" if "a < n" "b < n" for a b
      by (rule h_Less_vals) (use less.prems that in auto)
    define j where "j = (if 2 * i + 2 < n \<and> lt (h_vals h ! (2 * i + 2)) (h_vals h ! (2 * i + 1)) then 2 * i + 2 else 2 * i + 1)"
    have j: "j < n" "i < j" using n by (auto simp: j_def)
    have jd: "(if 2 * i + 1 + 1 < n \<and> h_Less lt h (2 * i + 1 + 1) (2 * i + 1) then 2 * i + 1 + 1 else 2 * i + 1) = j"
      using n ls [of "2 * i + 2" "2 * i + 1"] by (auto simp: j_def)
    have step_h: "h_down lt i n h = (if \<not> lt (h_vals h ! j) (h_vals h ! i) then (i, h) else h_down lt j n (h_Swap i j h))"
      unfolding h_down.simps [of lt i n h] Let_def jd using n j ls [of j i] by simp
    have step_l: "l_down lt i n (h_vals h) = (if \<not> lt (h_vals h ! j) (h_vals h ! i) then (i, h_vals h) else l_down lt j n (swap i j (h_vals h)))"
      unfolding l_down.simps [of lt i n "h_vals h"] Let_def using n by (simp add: j_def)
    note step = step_h step_l
    show ?thesis
    proof (cases "lt (h_vals h ! j) (h_vals h ! i)")
      case False
      then show ?thesis using less.prems by (simp add: step sifted_def)
    next
      case True
      note sw = swap_heap [OF less.prems(1,2), of j]
      have jl: "j < length (h_queue h)" using j less.prems(3) by simp
      let ?h = "h_Swap i j h"
      have "fst (h_down lt j n ?h) = fst (l_down lt j n (h_vals ?h)) \<and> sifted ?h (snd (h_down lt j n ?h)) \<and>
          h_vals (snd (h_down lt j n ?h)) = snd (l_down lt j n (h_vals ?h)) \<and> drop n (h_queue (snd (h_down lt j n ?h))) = drop n (h_queue ?h)"
        by (rule less.hyps) (use sw jl j less.prems in \<open>auto simp: sifted_def\<close>)
      moreover have "drop n (h_queue ?h) = drop n (h_queue h)" using j sw(3) [OF jl] by (simp add: swap_def)
      ultimately show ?thesis using True sw(1,2) [OF jl] sifted_trans [OF sw(1) [OF jl]] by (simp add: step)
    qed
  qed
qed

subsection \<open>A heap in order\<close>

definition keyed :: "('a \<Rightarrow> string option) \<Rightarrow> 'a heap_data \<Rightarrow> bool" where
  "keyed keyf h \<longleftrightarrow> (\<forall>k a. obj_of h k = Some a \<longrightarrow> keyf a = Some k)"

definition heap_ok :: "('a \<Rightarrow> string option) \<Rightarrow> ('a \<Rightarrow> 'a \<Rightarrow> bool) \<Rightarrow> 'a heap_data \<Rightarrow> bool" where
  "heap_ok keyf lt h \<longleftrightarrow> h_ok h \<and> keyed keyf h \<and> heap_upto lt (length (h_queue h)) (h_vals h)"

lemma h_pop_last:
  assumes "h_ok h" "h_queue h = q @ [k]"
  obtains a where "obj_of h k = Some a" "h_Pop h = (Some a, h\<lparr>h_queue := q, h_items := AList.delete k (h_items h)\<rparr>)"
    "h_ok (snd (h_Pop h))" "obj_of (snd (h_Pop h)) = (obj_of h)(k := None)" "h_vals (snd (h_Pop h)) = butlast (h_vals h)"
proof -
  have "k \<in> dom (map_of (h_items h))" using assms unfolding h_ok_def by simp
  then obtain a i where a: "map_of (h_items h) k = Some (a, i)" by auto
  let ?h = "h\<lparr>h_queue := q, h_items := AList.delete k (h_items h)\<rparr>"
  have pop: "h_Pop h = (Some a, ?h)" using assms(2) a by (simp add: h_Pop_def Let_def)
  have d: "distinct q" "k \<notin> set q" using assms by (auto simp: h_ok_def)
  have M: "map_of (h_items ?h) = (map_of (h_items h))(k := None)" by (simp add: delete_conv')
  have at: "\<exists>b. map_of (h_items h) (q ! l) = Some (b, l) \<and> q ! l \<noteq> k" if l: "l < length q" for l
  proof -
    have "l < length (h_queue h)" using assms(2) l by simp
    then have "\<exists>b. map_of (h_items h) (h_queue h ! l) = Some (b, l)" using assms(1) unfolding h_ok_def by blast
    then show ?thesis using d(2) l assms(2) by (auto simp: nth_append dest: nth_mem)
  qed
  have "dom (map_of (h_items h)) = insert k (set q)" using assms unfolding h_ok_def by simp
  then have "dom (map_of (h_items ?h)) = set q" using d(2) unfolding M by simp
  moreover have "distinct (map fst (h_items ?h))" using assms(1) by (simp add: h_ok_def distinct_delete)
  moreover have "\<forall>l < length q. \<exists>b. map_of (h_items ?h) (q ! l) = Some (b, l)" unfolding M using at by (metis fun_upd_other)
  ultimately have "h_ok ?h" using d(1) unfolding h_ok_def by simp
  moreover have "obj_of ?h = (obj_of h)(k := None)" by (auto simp: obj_of_def fun_eq_iff delete_conv')
  moreover have "h_vals ?h = butlast (h_vals h)"
  proof (rule nth_equalityI)
    fix l assume "l < length (h_vals ?h)"
    then have l: "l < length q" by simp
    then have "h_vals ?h ! l = fst (the (map_of (h_items ?h) (q ! l)))" by (simp add: h_val_def)
    also have "\<dots> = fst (the (map_of (h_items h) (q ! l)))" unfolding M using at [OF l] by auto
    also have "\<dots> = h_vals h ! l" using l assms(2) by (simp add: h_val_def nth_append)
    finally show "h_vals ?h ! l = butlast (h_vals h) ! l" using l assms(2) by (simp add: nth_butlast)
  qed (simp add: assms(2))
  ultimately show ?thesis using that [of a] pop a by (simp add: obj_of_def)
qed

lemma keyed_upd: "keyed keyf h \<Longrightarrow> obj_of h' = (obj_of h)(k := None) \<Longrightarrow> keyed keyf h'"
  by (simp add: keyed_def)

context queue_order
begin

lemma sifted_ok: "sifted h h' \<Longrightarrow> keyed keyf h \<Longrightarrow> heap_upto lt (length (h_queue h')) (h_vals h') \<Longrightarrow> heap_ok keyf lt h'"
  by (simp add: sifted_def heap_ok_def keyed_def)

lemma fix_vals:
  assumes "h_ok h" "i < n" "n \<le> length (h_queue h)" "heap_but lt i n (h_vals h)" "h_down lt i n h = (i', h1)"
    and "h' = (if i < i' then h1 else h_up lt i h1)"
  shows "sifted h h' \<and> heap_upto lt n (h_vals h') \<and> drop n (h_queue h') = drop n (h_queue h)"
proof -
  obtain ys where ys: "l_down lt i n (h_vals h) = (i', ys)" "sifted h h1" "h_vals h1 = ys" "drop n (h_queue h1) = drop n (h_queue h)"
    using down_vals [OF assms(1) _ assms(3), of i lt] assms(2,3,5) by (cases "l_down lt i n (h_vals h)") auto
  have "sifted h1 (h_up lt i h1) \<and> h_vals (h_up lt i h1) = l_up lt i ys \<and> drop (Suc i) (h_queue (h_up lt i h1)) = drop (Suc i) (h_queue h1)"
    using up_vals [of h1 i lt] ys assms(2,3) by (simp add: sifted_def)
  moreover have "drop n xs = drop (n - Suc i) (drop (Suc i) xs)" for xs :: "string list" using assms(2) by simp
  ultimately have "sifted h1 (h_up lt i h1) \<and> h_vals (h_up lt i h1) = l_up lt i ys \<and> drop n (h_queue (h_up lt i h1)) = drop n (h_queue h1)"
    by metis
  then have "sifted h h' \<and> h_vals h' = (if i < i' then ys else l_up lt i ys) \<and> drop n (h_queue h') = drop n (h_queue h)"
    using ys sifted_trans [OF ys(2)] by (simp add: assms(6))
  then show ?thesis using fix_heap [OF assms(4,2) _ ys(1)] assms(3) by simp
qed

lemma push_ok:
  assumes "heap_ok keyf lt h" "keyf a = Some k" "obj_of h k = None"
  shows "heap_ok keyf lt (heap_Push lt k a h) \<and> obj_of (heap_Push lt k a h) = (obj_of h)(k \<mapsto> a)"
proof -
  let ?n = "length (h_queue h)" and ?h = "h_Push k a h"
  have ok: "h_ok h" using assms(1) by (simp add: heap_ok_def)
  have k: "k \<notin> set (h_queue h)" using obj_of_dom [OF ok] assms(3) by simp
  have M: "map_of (h_items ?h) = (map_of (h_items h))(k \<mapsto> (a, ?n))" and q: "h_queue ?h = h_queue h @ [k]"
    by (simp_all add: h_Push_def)
  have at: "\<exists>b. map_of (h_items ?h) (h_queue ?h ! l) = Some (b, l)" if "l < length (h_queue ?h)" for l
  proof (cases "l = ?n")
    case False
    then have l: "l < ?n" using that q by simp
    then have "\<exists>b. map_of (h_items h) (h_queue h ! l) = Some (b, l)" "h_queue h ! l \<noteq> k" using ok k unfolding h_ok_def by auto
    then show ?thesis using l by (auto simp: M q nth_append)
  qed (simp add: M q)
  have "distinct (h_queue ?h)" "dom (map_of (h_items ?h)) = set (h_queue ?h)" "distinct (map fst (h_items ?h))"
    using ok k by (auto simp: h_ok_def q M) (simp add: h_Push_def distinct_update)
  then have "h_ok ?h" using at unfolding h_ok_def by blast
  moreover have vals: "h_vals ?h = h_vals h @ [a]"
  proof (rule nth_equalityI)
    fix l assume "l < length (h_vals ?h)"
    then have "l < Suc ?n" by (simp add: q)
    moreover have "h_queue h ! l \<noteq> k" if "l < ?n" using k nth_mem [OF that] by metis
    ultimately consider "l = ?n" | "l < ?n" "h_queue h ! l \<noteq> k" using less_Suc_eq by blast
    then show "h_vals ?h ! l = (h_vals h @ [a]) ! l"
      by cases (simp_all add: q nth_append h_val_def M)
  qed (simp add: q)
  moreover have "heap_but_up lt ?n (Suc ?n) (h_vals h @ [a])"
  proof -
    have "\<not> lt ((h_vals h @ [a]) ! c) ((h_vals h @ [a]) ! parent c)" if "0 < c" "c < ?n" for c
    proof -
      have "parent c < ?n" using parent_less [OF that(1)] that(2) by linarith
      moreover have "\<not> lt (h_vals h ! c) (h_vals h ! parent c)"
        using assms(1) that by (intro heap_uptoD [where n = ?n]) (simp_all add: heap_ok_def)
      ultimately show ?thesis using that by (simp add: nth_append)
    qed
    moreover have "parent c \<noteq> ?n" if "0 < c" "c < Suc ?n" for c using parent_less [of c] that by linarith
    ultimately show ?thesis by (auto simp: heap_but_up_def)
  qed
  ultimately have "sifted ?h (h_up lt ?n ?h) \<and> heap_upto lt (Suc ?n) (h_vals (h_up lt ?n ?h))"
    using up_vals [of ?h ?n lt] up_heap [of ?n "Suc ?n" "h_vals h @ [a]"] by (simp add: q)
  moreover have "obj_of ?h = (obj_of h)(k \<mapsto> a)" by (auto simp: obj_of_def M fun_eq_iff)
  moreover have "heap_Push lt k a h = h_up lt ?n ?h" by (simp add: heap_Push_def Let_def q)
  moreover have "keyed keyf ?h" using assms \<open>obj_of ?h = _\<close> by (simp add: heap_ok_def keyed_def)
  ultimately show ?thesis using sifted_ok [of ?h "heap_Push lt k a h" keyf] by (auto simp: sifted_def q)
qed

lemma replace_ok:
  assumes "heap_ok keyf lt h" "keyf a = Some k" "map_of (h_items h) k = Some (b, i)"
    and h': "h' = heap_Fix lt i (h\<lparr>h_items := AList.map_entry k (\<lambda>(_, i). (a, i)) (h_items h)\<rparr>)"
  shows "heap_ok keyf lt h' \<and> obj_of h' = (obj_of h)(k \<mapsto> a)"
proof -
  let ?h = "h\<lparr>h_items := AList.map_entry k (\<lambda>(_, i). (a, i)) (h_items h)\<rparr>" and ?n = "length (h_queue h)"
  have ok: "h_ok h" using assms(1) by (simp add: heap_ok_def)
  then have "k \<in> set (h_queue h)" using assms(3) unfolding h_ok_def by blast
  then obtain l where l: "l < ?n" "h_queue h ! l = k" by (auto simp: in_set_conv_nth)
  moreover have "\<exists>b. map_of (h_items h) (h_queue h ! l) = Some (b, l)" using ok l(1) unfolding h_ok_def by blast
  ultimately have il: "l = i" using assms(3) by auto
  have M: "map_of (h_items ?h) = (map_of (h_items h))(k \<mapsto> (a, i))" using assms(3) by simp
  have "\<exists>b. map_of (h_items ?h) (h_queue h ! m) = Some (b, m)" if "m < ?n" for m
  proof (cases "m = i")
    case False
    then have "h_queue h ! m \<noteq> k" using ok l il that nth_eq_iff_index_eq unfolding h_ok_def by metis
    then show ?thesis using ok that unfolding h_ok_def M by auto
  qed (use l il M in auto)
  moreover have "dom (map_of (h_items ?h)) = set (h_queue h)"
    unfolding M using ok \<open>k \<in> set (h_queue h)\<close> assms(3) by (simp add: h_ok_def insert_absorb del: map_of_eq_Some_iff)
  ultimately have ok': "h_ok ?h" using ok by (simp add: h_ok_def)
  have vals: "h_vals ?h = (h_vals h)[i := a]"
  proof (rule nth_equalityI)
    fix m assume "m < length (h_vals ?h)"
    then have m: "m < ?n" by simp
    show "h_vals ?h ! m = (h_vals h)[i := a] ! m"
    proof (cases "m = i")
      case True
      then show ?thesis using m l il M by (simp add: h_val_def)
    next
      case False
      then have "h_queue h ! m \<noteq> k" using ok l il m nth_eq_iff_index_eq unfolding h_ok_def by metis
      then show ?thesis using False m M by (simp add: h_val_def)
    qed
  qed simp
  have but: "heap_but lt i ?n ((h_vals h)[i := a])"
  proof -
    have ord: "\<not> lt (h_vals h ! c) (h_vals h ! parent c)" if "0 < c" "c < ?n" for c
      using assms(1) that by (simp add: heap_ok_def heap_upto_def)
    have "\<not> lt (h_vals h ! c) (h_vals h ! parent i)" if "0 < c" "c < ?n" "parent c = i" "0 < i" for c
      using ord [of c] ord [of i] that l il not_lt_trans by blast
    moreover have "c \<noteq> i" "parent i \<noteq> i" if "0 < c" "parent c = i" "0 < i" for c using that by auto
    ultimately show ?thesis using ord by (auto simp: heap_but_def nth_list_update)
  qed
  obtain i' h1 where d: "h_down lt i ?n ?h = (i', h1)" by force
  have h'': "h' = (if i < i' then h1 else h_up lt i h1)" using h' d by (simp add: heap_Fix_def)
  have "sifted ?h h' \<and> heap_upto lt ?n (h_vals h') \<and> drop ?n (h_queue h') = drop ?n (h_queue ?h)"
    by (rule fix_vals [OF ok' _ _ _ d h'']) (use l il but vals in auto)
  moreover have obj: "obj_of ?h = (obj_of h)(k \<mapsto> a)" using assms(3) by (simp add: obj_of_def fun_eq_iff del: map_of_eq_Some_iff)
  moreover have "keyed keyf ?h" using assms(1,2) obj by (simp add: heap_ok_def keyed_def)
  ultimately show ?thesis using sifted_ok [of ?h h' keyf] by (auto simp: sifted_def)
qed

text \<open>Removing the value at a position, or the first one.\<close>

lemma remove_but:
  assumes "heap_upto lt (Suc n) xs" "length xs = Suc n" "i < n"
  shows "heap_but lt i n (swap i n xs)"
proof -
  have ys: "swap i n xs ! k = (if k = i then xs ! n else if k = n then xs ! i else xs ! k)" for k
    using assms by (intro nth_swap) auto
  have ord: "\<not> lt (xs ! c) (xs ! parent c)" if "0 < c" "c < Suc n" for c
    using assms(1) that by (simp add: heap_upto_def)
  have "\<not> lt (xs ! c) (xs ! parent i)" if "0 < c" "c < n" "parent c = i" "0 < i" for c
    using ord [of c] ord [of i] that assms(3) not_lt_trans by auto
  moreover have "parent c < n" if "c < n" for c using parent_le [of c] that by linarith
  moreover have "c \<noteq> i" "parent i \<noteq> i" if "0 < c" "parent c = i" "0 < i" for c using that by auto
  moreover have "parent i \<noteq> n" using parent_le [of i] assms(3) by linarith
  ultimately show ?thesis using ord unfolding heap_but_def ys by auto
qed

lemma popped_ok:
  assumes "sifted h h1" "heap_upto lt n (h_vals h1)" "length (h_queue h) = Suc n" "keyed keyf h"
    and "h_queue h1 ! n = k" "obj_of h k = Some a"
  shows "fst (h_Pop h1) = Some a \<and> heap_ok keyf lt (snd (h_Pop h1)) \<and> obj_of (snd (h_Pop h1)) = (obj_of h)(k := None)"
proof -
  have q: "h_queue h1 = butlast (h_queue h1) @ [k]" "h_ok h1" and obj: "obj_of h1 = obj_of h"
    using assms(1,3,5) by (auto simp: sifted_def append_butlast_last_id [symmetric] last_conv_nth simp del: append_butlast_last_id)
      (metis append_butlast_last_id diff_Suc_1 last_conv_nth length_0_conv nat.distinct(1))
  obtain b where b: "obj_of h1 k = Some b" "fst (h_Pop h1) = Some b" "h_ok (snd (h_Pop h1))"
    "obj_of (snd (h_Pop h1)) = (obj_of h1)(k := None)" "h_vals (snd (h_Pop h1)) = butlast (h_vals h1)"
    using h_pop_last [OF q(2,1)] by (metis fst_conv)
  have len: "length (h_queue h1) = Suc n" using assms(1,3) by (simp add: sifted_def)
  have "length (h_queue (snd (h_Pop h1))) = n" using arg_cong [OF b(5), of length] len by simp
  moreover have "heap_upto lt n (butlast (h_vals h1))"
    unfolding heap_upto_def
  proof (intro allI impI)
    fix c assume c: "0 < c" "c < n"
    then have "parent c < n" using parent_less [OF c(1)] by linarith
    then show "\<not> lt (butlast (h_vals h1) ! c) (butlast (h_vals h1) ! parent c)"
      using heap_uptoD [OF assms(2) c] c(2) len by (simp add: nth_butlast)
  qed
  ultimately have "heap_ok keyf lt (snd (h_Pop h1))"
    using b keyed_upd [of keyf h "snd (h_Pop h1)" k] assms(4) obj by (simp add: heap_ok_def)
  then show ?thesis using b assms(6) obj by simp
qed

lemma item_at:
  assumes "h_ok h" "map_of (h_items h) k = Some (b, i)"
  shows "i < length (h_queue h)" "h_queue h ! i = k" "obj_of h k = Some b"
proof -
  have "k \<in> set (h_queue h)" using assms unfolding h_ok_def by blast
  then obtain l where l: "l < length (h_queue h)" "h_queue h ! l = k" by (auto simp: in_set_conv_nth)
  moreover have "\<exists>b. map_of (h_items h) (h_queue h ! l) = Some (b, l)" using assms(1) l(1) unfolding h_ok_def by blast
  ultimately show "i < length (h_queue h)" "h_queue h ! i = k" using assms(2) by auto
  show "obj_of h k = Some b" using assms(2) by (simp add: obj_of_def del: map_of_eq_Some_iff)
qed

lemma remove_ok:
  assumes "heap_ok keyf lt h" "map_of (h_items h) k = Some (a, i)"
  shows "fst (heap_Remove lt i h) = Some a \<and> heap_ok keyf lt (snd (heap_Remove lt i h)) \<and>
    obj_of (snd (heap_Remove lt i h)) = (obj_of h)(k := None)"
proof -
  have ok: "h_ok h" "keyed keyf h" "heap_upto lt (length (h_queue h)) (h_vals h)" using assms(1) by (simp_all add: heap_ok_def)
  note at = item_at [OF ok(1) assms(2)]
  define n where "n = length (h_queue h) - 1"
  have len: "length (h_queue h) = Suc n" using at(1) by (simp add: n_def)
  show ?thesis
  proof (cases "n = i")
    case True
    have "heap_upto lt n (h_vals h)" using ok(3) len by (simp add: heap_upto_def del: h_vals_simps)
    moreover have "heap_Remove lt i h = h_Pop h" using True by (simp add: heap_Remove_def n_def)
    ultimately show ?thesis using popped_ok [of h h n keyf k a] ok at True len by (simp add: sifted_def)
  next
    case False
    have i: "i < n" using False at(1) len by simp
    note sw = swap_heap [OF ok(1) at(1), of n]
    let ?h = "h_Swap i n h"
    have ok': "h_ok ?h" "length (h_queue ?h) = Suc n" using sw len by (simp_all add: sifted_def)
    have but: "heap_but lt i n (h_vals ?h)" using remove_but [of n "h_vals h" i] ok(3) sw(2) len i by simp
    obtain i' h1 where d: "h_down lt i n ?h = (i', h1)" by force
    define h2 where "h2 = (if i < i' then h1 else h_up lt i h1)"
    have f: "sifted ?h h2 \<and> heap_upto lt n (h_vals h2) \<and> drop n (h_queue h2) = drop n (h_queue ?h)"
      by (rule fix_vals [OF ok'(1) i _ but d h2_def]) (simp add: ok'(2))
    have "sifted h h2" using f sw(1) len sifted_trans by fastforce
    moreover have "h_queue h2 ! n = h_queue ?h ! n"
      using f ok'(2) unfolding sifted_def by (metis hd_drop_conv_nth lessI)
    then have "h_queue h2 ! n = k" using sw(3) len i at(2) by (simp add: nth_swap)
    moreover have "heap_Remove lt i h = h_Pop h2" using False d by (simp add: heap_Remove_def n_def h2_def Let_def)
    ultimately show ?thesis using popped_ok [of h h2 n keyf k a] f ok(2) at(3) len by simp
  qed
qed

lemma first_ok:
  assumes "heap_ok keyf lt h" "h_queue h = k # q"
  shows "\<exists>a. obj_of h k = Some a \<and> hp_Peek h = Inr (Some a) \<and> (\<forall>k' b. obj_of h k' = Some b \<longrightarrow> \<not> lt b a)"
proof -
  have ok: "h_ok h" "heap_upto lt (length (h_queue h)) (h_vals h)" using assms(1) by (simp_all add: heap_ok_def)
  have "k \<in> dom (map_of (h_items h))" using ok(1) assms(2) unfolding h_ok_def by simp
  then obtain a i where a: "map_of (h_items h) k = Some (a, i)" by auto
  have zero: "h_vals h ! 0 = a" using assms(2) a by (simp add: h_val_def)
  have "\<not> lt b a" if b: "obj_of h k' = Some b" for k' b
  proof -
    obtain j where j: "map_of (h_items h) k' = Some (b, j)" using b by (auto simp: obj_of_def)
    note at = item_at [OF ok(1) j]
    then have "h_vals h ! j = b" using j by (simp add: h_val_def del: map_of_eq_Some_iff)
    then show ?thesis using root_first [OF ok(2) at(1)] zero by simp
  qed
  moreover have "hp_Peek h = Inr (Some a)" using assms(2) a by (simp add: hp_Peek_def del: map_of_eq_Some_iff)
  moreover have "obj_of h k = Some a" using a by (simp add: obj_of_def del: map_of_eq_Some_iff)
  ultimately show ?thesis by blast
qed

lemma hp_PopMin_ok:
  assumes "heap_ok keyf lt h" "h_queue h \<noteq> []"
  shows "\<exists>a k h'. hp_PopMin lt h = Inr (Some a, h') \<and> hp_Peek h = Inr (Some a) \<and> keyf a = Some k \<and> obj_of h k = Some a \<and>
    heap_ok keyf lt h' \<and> obj_of h' = (obj_of h)(k := None) \<and> (\<forall>k' b. obj_of h k' = Some b \<longrightarrow> \<not> lt b a)"
proof -
  obtain k q where q: "h_queue h = k # q" using assms(2) by (cases "h_queue h") auto
  obtain a where a: "obj_of h k = Some a" "hp_Peek h = Inr (Some a)" "\<forall>k' b. obj_of h k' = Some b \<longrightarrow> \<not> lt b a"
    using first_ok [OF assms(1) q] by blast
  define n where "n = length q"
  have ok: "h_ok h" "keyed keyf h" "heap_upto lt (Suc n) (h_vals h)" using assms(1) q by (simp_all add: heap_ok_def n_def)
  have len: "length (h_queue h) = Suc n" by (simp add: q n_def)
  note sw = swap_heap [OF ok(1), of 0 n]
  let ?h = "h_Swap 0 n h"
  define h1 where "h1 = snd (h_down lt 0 n ?h)"
  have s: "sifted h ?h" "h_vals ?h = swap 0 n (h_vals h)" "h_queue ?h = swap 0 n (h_queue h)" using sw len by simp_all
  then have ok': "h_ok ?h" "length (h_queue ?h) = Suc n" using len by (simp_all add: sifted_def)
  have d: "sifted ?h h1" "h_vals h1 = snd (l_down lt 0 n (h_vals ?h))" "drop n (h_queue h1) = drop n (h_queue ?h)"
    using down_vals [OF ok'(1), of 0 n lt] ok'(2) by (simp_all add: h1_def)
  have "heap_upto lt n (h_vals h1)"
  proof (cases "n = 0")
    case False
    then have "heap_but lt 0 n (h_vals ?h)" using remove_but [of n "h_vals h" 0] ok(3) s(2) len by simp
    then show ?thesis unfolding d(2) by (intro down_heap) (use False ok'(2) in auto)
  qed (simp add: heap_upto_def)
  moreover have "h_queue h1 ! n = h_queue ?h ! n" using d(1,3) ok'(2) unfolding sifted_def by (metis hd_drop_conv_nth lessI)
  then have "h_queue h1 ! n = k" using s(3) len q by (simp add: nth_swap)
  ultimately have "fst (h_Pop h1) = Some a \<and> heap_ok keyf lt (snd (h_Pop h1)) \<and> obj_of (snd (h_Pop h1)) = (obj_of h)(k := None)"
    using popped_ok [of h h1 n keyf k a] sifted_trans [OF s(1) d(1)] ok(2) a(1) len by simp
  moreover have "hp_PopMin lt h = Inr (h_Pop h1)" using q by (simp add: hp_PopMin_def heap_Pop_def h1_def n_def Let_def)
  moreover have "keyf a = Some k" using ok(2) a(1) by (simp add: keyed_def)
  ultimately show ?thesis using a by (metis prod.collapse)
qed

lemma hp_Add_obj_ok:
  assumes "heap_ok keyf lt h" "keyf a = Some k"
  shows "\<exists>h'. hp_Add_obj keyf lt a h = (False, h') \<and> heap_ok keyf lt h' \<and> obj_of h' = (obj_of h)(k \<mapsto> a)"
proof (cases "map_of (h_items h) k")
  case None
  then show ?thesis using push_ok [OF assms] assms(2) by (simp add: hp_Add_obj_def obj_of_def)
next
  case (Some bi)
  obtain b i where bi: "bi = (b, i)" by force
  show ?thesis using replace_ok [OF assms Some [unfolded bi] refl] assms(2) Some bi by (simp add: hp_Add_obj_def)
qed

lemma hp_Delete_ok:
  assumes "heap_ok keyf lt h" "keyf a = Some k"
  shows "\<exists>h'. hp_Delete keyf lt a h = (obj_of h k = None, h') \<and> heap_ok keyf lt h' \<and> obj_of h' = (obj_of h)(k := None)"
proof (cases "map_of (h_items h) k")
  case None
  then have "obj_of h k = None" by (simp add: obj_of_def)
  then show ?thesis using assms None by (simp add: hp_Delete_def fun_upd_idem)
next
  case (Some bi)
  obtain b i where bi: "bi = (b, i)" by force
  have "obj_of h k \<noteq> None" using Some by (simp add: obj_of_def del: map_of_eq_Some_iff)
  then show ?thesis using remove_ok [OF assms(1) Some [unfolded bi]] assms(2) Some bi by (simp add: hp_Delete_def)
qed

lemma h_New_ok: "heap_ok keyf lt h_New" "obj_of h_New = Map.empty"
  by (simp_all add: heap_ok_def h_ok_def h_New_def keyed_def obj_of_def heap_upto_def fun_eq_iff)

end

lemma obj_of_empty: "h_ok h \<Longrightarrow> h_queue h = [] \<longleftrightarrow> obj_of h = Map.empty"
  using obj_of_dom [of h] by (auto simp: fun_eq_iff)

end
