(* ===== verification/ResourceNames.thy ===== *)
theory ResourceNames
  imports GoStrings Pods
begin

section \<open>Names of resources\<close>

text \<open>
  The classification of resource names in \<open>pkg/apis/core/v1/helper/helpers.go\<close> and the qualified
  names of \<open>apimachinery/pkg/util/validation\<close> it rests on.  A regular expression is the predicate
  that says which strings it matches.
\<close>

definition is_lower_alnum :: "char \<Rightarrow> bool" where
  "is_lower_alnum c \<longleftrightarrow> (97 \<le> (of_char c :: nat) \<and> (of_char c :: nat) \<le> 122) \<or> is_digit c"

definition is_alnum :: "char \<Rightarrow> bool" where
  "is_alnum c \<longleftrightarrow> is_lower_alnum c \<or> (65 \<le> (of_char c :: nat) \<and> (of_char c :: nat) \<le> 90)"

text \<open>\<open>(first ext* )? first\<close> as a whole match.\<close>

definition bracketed_match :: "(char \<Rightarrow> bool) \<Rightarrow> (char \<Rightarrow> bool) \<Rightarrow> string \<Rightarrow> bool" where
  "bracketed_match first ext s \<longleftrightarrow> s \<noteq> [] \<and> first (hd s) \<and> first (last s) \<and> list_all ext s"

definition qualified_name_match :: "string \<Rightarrow> bool" where
  "qualified_name_match = bracketed_match is_alnum (\<lambda>c. is_alnum c \<or> c = CHR ''-'' \<or> c = CHR ''_'' \<or> c = CHR ''.'')"

definition dns1123_label_match :: "string \<Rightarrow> bool" where
  "dns1123_label_match = bracketed_match is_lower_alnum (\<lambda>c. is_lower_alnum c \<or> c = CHR ''-'')"

definition IsDNS1123Subdomain :: "string \<Rightarrow> bool" where
  "IsDNS1123Subdomain s \<longleftrightarrow> length s \<le> 253 \<and> list_all dns1123_label_match (split_char (CHR ''.'') s)"

text \<open>Whether \<open>IsQualifiedName\<close> returns no errors.\<close>

definition IsQualifiedName :: "string \<Rightarrow> bool" where
  "IsQualifiedName v =
     (case split_char (CHR ''/'') v of
        [name] \<Rightarrow> name \<noteq> [] \<and> length name \<le> 63 \<and> qualified_name_match name
      | [prefix, name] \<Rightarrow>
          prefix \<noteq> [] \<and> IsDNS1123Subdomain prefix \<and> name \<noteq> [] \<and> length name \<le> 63 \<and> qualified_name_match name
      | _ \<Rightarrow> False)"

definition IsPrefixedNativeResource :: "string \<Rightarrow> bool" where
  "IsPrefixedNativeResource n \<longleftrightarrow> contains_str n ''kubernetes.io/''"

definition IsNativeResource :: "string \<Rightarrow> bool" where
  "IsNativeResource n \<longleftrightarrow> \<not> contains_str n ''/'' \<or> IsPrefixedNativeResource n"

definition IsExtendedResourceName :: "string \<Rightarrow> bool" where
  "IsExtendedResourceName n \<longleftrightarrow>
     (if IsNativeResource n \<or> has_prefix n ''requests.'' then False else IsQualifiedName (''requests.'' @ n))"

definition IsHugePageResourceName :: "string \<Rightarrow> bool" where
  "IsHugePageResourceName n \<longleftrightarrow> has_prefix n ''hugepages-''"

definition IsAttachableVolumeResourceName :: "string \<Rightarrow> bool" where
  "IsAttachableVolumeResourceName n \<longleftrightarrow> has_prefix n ''attachable-volumes-''"

definition IsScalarResourceName :: "string \<Rightarrow> bool" where
  "IsScalarResourceName n \<longleftrightarrow>
     IsExtendedResourceName n \<or> IsHugePageResourceName n \<or> IsPrefixedNativeResource n \<or> IsAttachableVolumeResourceName n"

lemma native_names:
  "\<not> IsScalarResourceName ResourceCPU" "\<not> IsScalarResourceName ResourceMemory"
  "\<not> IsScalarResourceName ResourcePods" "\<not> IsScalarResourceName ResourceEphemeralStorage"
  by (simp_all add: IsScalarResourceName_def IsExtendedResourceName_def IsNativeResource_def IsPrefixedNativeResource_def
      IsHugePageResourceName_def IsAttachableVolumeResourceName_def has_prefix_def)

text \<open>The resource that carries the network SLO is an extended resource.\<close>

lemma SLO_extended: "IsExtendedResourceName ResourceSLO"
proof -
  have 1: "\<not> IsNativeResource ResourceSLO" "\<not> has_prefix ResourceSLO ''requests.''"
    by (simp_all add: IsNativeResource_def IsPrefixedNativeResource_def has_prefix_def)
  have 2: "split_char (CHR ''/'') (''requests.'' @ ResourceSLO) = [''requests.example.com'', ''SLO'']" by simp
  have "IsDNS1123Subdomain ''requests.example.com''"
    by (simp add: IsDNS1123Subdomain_def dns1123_label_match_def bracketed_match_def is_lower_alnum_def is_digit_def)
  moreover have "qualified_name_match ''SLO''"
    by (simp add: qualified_name_match_def bracketed_match_def is_alnum_def is_lower_alnum_def is_digit_def)
  ultimately have "IsQualifiedName (''requests.'' @ ResourceSLO)"
    unfolding IsQualifiedName_def 2 by simp
  with 1 show ?thesis by (simp add: IsExtendedResourceName_def)
qed

lemma SLO_scalar [simp]: "IsScalarResourceName ResourceSLO"
  by (simp add: IsScalarResourceName_def SLO_extended)

end
