(* ===== verification/LabelSelectors.thy ===== *)
theory LabelSelectors
  imports ResourceNames
begin

section \<open>Label selectors\<close>

text \<open>
  \<open>labels.Requirement\<close> and the selectors of \<open>apimachinery/pkg/labels\<close>, and their construction from the
  API type in \<open>apis/meta/v1/helpers.go\<close>.  An internal selector is the list of its requirements; \<open>Add\<close>
  also sorts them by key, which \<open>Matches\<close> cannot tell, and is left out here.
\<close>

datatype operator =
  OperatorIn | OperatorNotIn | OperatorEquals | OperatorDoubleEquals | OperatorNotEquals | OperatorExists
  | OperatorDoesNotExist | OperatorGreaterThan | OperatorLessThan | OperatorOther string

record requirement =
  rq_key :: string
  rq_operator :: operator
  rq_strValues :: "string list"

datatype selector = Nothing | InternalSelector "requirement list"

text \<open>Whether \<open>IsValidLabelValue\<close> returns no errors.\<close>

definition IsValidLabelValue :: "string \<Rightarrow> bool" where
  "IsValidLabelValue v \<longleftrightarrow> length v \<le> 63 \<and> (v = [] \<or> qualified_name_match v)"

definition values_fit :: "operator \<Rightarrow> string list \<Rightarrow> bool" where
  "values_fit op vals =
     (case op of
        OperatorIn \<Rightarrow> vals \<noteq> []
      | OperatorNotIn \<Rightarrow> vals \<noteq> []
      | OperatorEquals \<Rightarrow> length vals = 1
      | OperatorDoubleEquals \<Rightarrow> length vals = 1
      | OperatorNotEquals \<Rightarrow> length vals = 1
      | OperatorExists \<Rightarrow> vals = []
      | OperatorDoesNotExist \<Rightarrow> vals = []
      | OperatorGreaterThan \<Rightarrow> length vals = 1 \<and> list_all (\<lambda>v. snd (parse_int v) = None) vals
      | OperatorLessThan \<Rightarrow> length vals = 1 \<and> list_all (\<lambda>v. snd (parse_int v) = None) vals
      | OperatorOther _ \<Rightarrow> False)"

definition NewRequirement :: "string \<Rightarrow> operator \<Rightarrow> string list \<Rightarrow> requirement option" where
  "NewRequirement key op vals =
     (if \<not> IsQualifiedName key then None
      else if \<not> values_fit op vals then None
      else if \<not> list_all IsValidLabelValue vals then None
      else Some \<lparr>rq_key = key, rq_operator = op, rq_strValues = vals\<rparr>)"

definition hasValue :: "requirement \<Rightarrow> string \<Rightarrow> bool" where
  "hasValue r v = list_ex (\<lambda>s. s = v) (rq_strValues r)"

text \<open>Comparing the value of a label with the one value of a requirement, both as 64-bit integers.\<close>

definition compare_value :: "requirement \<Rightarrow> (int \<Rightarrow> int \<Rightarrow> bool) \<Rightarrow> string \<Rightarrow> bool" where
  "compare_value r cmp v =
     (case parse_int v of
        (lsValue, Some _) \<Rightarrow> False
      | (lsValue, None) \<Rightarrow>
          (case rq_strValues r of
             [w] \<Rightarrow> (case parse_int w of (rValue, Some _) \<Rightarrow> False | (rValue, None) \<Rightarrow> cmp lsValue rValue)
           | _ \<Rightarrow> False))"

definition rq_Matches :: "requirement \<Rightarrow> (string \<times> string) list \<Rightarrow> bool" where
  "rq_Matches r ls =
     (let label = map_of ls (rq_key r);
          with = (\<lambda>f. case label of None \<Rightarrow> False | Some v \<Rightarrow> f v)
      in case rq_operator r of
           OperatorIn \<Rightarrow> with (hasValue r)
         | OperatorEquals \<Rightarrow> with (hasValue r)
         | OperatorDoubleEquals \<Rightarrow> with (hasValue r)
         | OperatorNotIn \<Rightarrow> (case label of None \<Rightarrow> True | Some v \<Rightarrow> \<not> hasValue r v)
         | OperatorNotEquals \<Rightarrow> (case label of None \<Rightarrow> True | Some v \<Rightarrow> \<not> hasValue r v)
         | OperatorExists \<Rightarrow> label \<noteq> None
         | OperatorDoesNotExist \<Rightarrow> label = None
         | OperatorGreaterThan \<Rightarrow> with (compare_value r (\<lambda>l w. w < l))
         | OperatorLessThan \<Rightarrow> with (compare_value r (\<lambda>l w. l < w))
         | OperatorOther _ \<Rightarrow> False)"

definition sel_Matches :: "selector \<Rightarrow> (string \<times> string) list \<Rightarrow> bool" where
  "sel_Matches s ls = (case s of Nothing \<Rightarrow> False | InternalSelector rs \<Rightarrow> list_all (\<lambda>r. rq_Matches r ls) rs)"

definition selector_op :: "selector_operator \<Rightarrow> operator option" where
  "selector_op op =
     (case op of
        OpIn \<Rightarrow> Some OperatorIn | OpNotIn \<Rightarrow> Some OperatorNotIn | OpExists \<Rightarrow> Some OperatorExists
      | OpDoesNotExist \<Rightarrow> Some OperatorDoesNotExist | OtherOperator _ \<Rightarrow> None)"

fun add_requirements :: "requirement option list \<Rightarrow> requirement list \<Rightarrow> requirement list option" where
  "add_requirements [] rs = Some rs"
| "add_requirements (None # xs) rs = None"
| "add_requirements (Some r # xs) rs = add_requirements xs (rs @ [r])"

text \<open>\<open>None\<close> is the error, with which a nil selector is returned.\<close>

definition LabelSelectorAsSelector :: "label_selector option \<Rightarrow> selector option" where
  "LabelSelectorAsSelector ps =
     (case ps of
        None \<Rightarrow> Some Nothing
      | Some l \<Rightarrow>
          if length (ls_MatchLabels l) + length (ls_MatchExpressions l) = 0 then Some (InternalSelector [])
          else
            map_option InternalSelector (add_requirements
              (map (\<lambda>(k, v). NewRequirement k OperatorEquals [v]) (ls_MatchLabels l) @
               map (\<lambda>e. case selector_op (sr_Operator e) of
                          None \<Rightarrow> None | Some op \<Rightarrow> NewRequirement (sr_Key e) op (sr_Values e)) (ls_MatchExpressions l)) []))"

subsection \<open>What a selector selects\<close>

lemma add_requirements_all:
  "add_requirements xs rs = (if list_all (\<lambda>x. x \<noteq> None) xs then Some (rs @ map the xs) else None)"
  by (induction xs rs rule: add_requirements.induct) auto

text \<open>A requirement and the opposite one never match the same labels, and one of them always does.\<close>

lemma Matches_opposite:
  "rq_Matches (r\<lparr>rq_operator := OperatorNotIn\<rparr>) ls \<longleftrightarrow> \<not> rq_Matches (r\<lparr>rq_operator := OperatorIn\<rparr>) ls"
  "rq_Matches (r\<lparr>rq_operator := OperatorDoesNotExist\<rparr>) ls \<longleftrightarrow> \<not> rq_Matches (r\<lparr>rq_operator := OperatorExists\<rparr>) ls"
  by (auto simp: rq_Matches_def Let_def hasValue_def split: option.split)

end
