(* ===== verification/SchedQueue.thy ===== *)
theory SchedQueue
  imports GoHeapLaws LabelSelectors Backoff
begin

section \<open>The scheduling queue\<close>

text \<open>
  \<open>PriorityQueue\<close> of \<open>pkg/scheduler/internal/queue/scheduling_queue.go\<close>: the pods to be scheduled next
  (\<open>activeQ\<close>, a heap ordered by the \<open>PrioritySort\<close> plugin), those that wait for their back-off to end
  (\<open>podBackoffQ\<close>, a heap ordered by that time) and those found unschedulable (a map).  The lock makes
  every operation one step; \<open>now\<close> is the reading of the clock in it.  Times are nanoseconds.  A blocked
  \<open>Pop\<close> is a result of its own, so the condition variable it waits on is left out, as are the metrics.
\<close>

subsection \<open>Pods of the queue\<close>

record pod_info =
  pi_Pod :: pod
  pi_Timestamp :: int
  pi_Attempts :: int
  pi_InitialAttemptTimestamp :: int

definition MetaNamespaceKeyFunc :: "pod \<Rightarrow> string" where
  "MetaNamespaceKeyFunc p = (if p_Namespace p \<noteq> [] then p_Namespace p @ ''/'' @ p_Name p else p_Name p)"

definition podInfoKeyFunc :: "pod_info \<Rightarrow> string option" where
  "podInfoKeyFunc i = Some (MetaNamespaceKeyFunc (pi_Pod i))"

definition GetPodFullName :: "pod \<Rightarrow> string" where
  "GetPodFullName p = p_Name p @ ''_'' @ p_Namespace p"

text \<open>\<open>p_Priority\<close> is the value that \<open>GetPodPriority\<close> resolves, zero for a pod without one.\<close>

definition PrioritySort_Less :: "pod_info \<Rightarrow> pod_info \<Rightarrow> bool" where
  "PrioritySort_Less i1 i2 \<longleftrightarrow>
     p_Priority (pi_Pod i2) < p_Priority (pi_Pod i1) \<or>
     p_Priority (pi_Pod i1) = p_Priority (pi_Pod i2) \<and> pi_Timestamp i1 < pi_Timestamp i2"

definition newPodInfoNoTimestamp :: "pod \<Rightarrow> pod_info" where
  "newPodInfoNoTimestamp p = \<lparr>pi_Pod = p, pi_Timestamp = 0, pi_Attempts = 0, pi_InitialAttemptTimestamp = 0\<rparr>"

definition newPodInfo :: "int \<Rightarrow> pod \<Rightarrow> pod_info" where
  "newPodInfo now p = \<lparr>pi_Pod = p, pi_Timestamp = now, pi_Attempts = 0, pi_InitialAttemptTimestamp = now\<rparr>"

definition updatePodInfo :: "pod_info \<Rightarrow> pod \<Rightarrow> pod_info" where
  "updatePodInfo i p = i\<lparr>pi_Pod := p\<rparr>"

subsection \<open>Nominated pods\<close>

record nominated_map =
  nm_nominatedPods :: "(string \<times> pod list) list"
  nm_nominatedPodToNode :: "(string \<times> string) list"

definition newNominatedPodMap :: nominated_map where
  "newNominatedPodMap = \<lparr>nm_nominatedPods = [], nm_nominatedPodToNode = []\<rparr>"

definition pods_at :: "nominated_map \<Rightarrow> string \<Rightarrow> pod list" where
  "pods_at m node = (case map_of (nm_nominatedPods m) node of None \<Rightarrow> [] | Some ps \<Rightarrow> ps)"

fun remove_uid :: "string \<Rightarrow> pod list \<Rightarrow> pod list" where
  "remove_uid u [] = []"
| "remove_uid u (p # ps) = (if p_UID p = u then ps else p # remove_uid u ps)"

definition nm_delete :: "pod \<Rightarrow> nominated_map \<Rightarrow> nominated_map" where
  "nm_delete p m =
     (case map_of (nm_nominatedPodToNode m) (p_UID p) of
        None \<Rightarrow> m
      | Some nnn \<Rightarrow>
          let m1 = (if list_ex (\<lambda>np. p_UID np = p_UID p) (pods_at m nnn) then
                      let ps = remove_uid (p_UID p) (pods_at m nnn) in
                      m\<lparr>nm_nominatedPods := (if ps = [] then AList.delete nnn (nm_nominatedPods m)
                                              else AList.update nnn ps (nm_nominatedPods m))\<rparr>
                    else m)
          in m1\<lparr>nm_nominatedPodToNode := AList.delete (p_UID p) (nm_nominatedPodToNode m1)\<rparr>)"

definition nm_add :: "pod \<Rightarrow> string \<Rightarrow> nominated_map \<Rightarrow> nominated_map" where
  "nm_add p nodeName m0 =
     (let m = nm_delete p m0;
          nnn = (if nodeName = [] then p_NominatedNodeName p else nodeName)
      in if nnn = [] then m
         else
           let m1 = m\<lparr>nm_nominatedPodToNode := AList.update (p_UID p) nnn (nm_nominatedPodToNode m)\<rparr> in
           if list_ex (\<lambda>np. p_UID np = p_UID p) (pods_at m1 nnn) then m1
           else m1\<lparr>nm_nominatedPods := AList.update nnn (pods_at m1 nnn @ [p]) (nm_nominatedPods m1)\<rparr>)"

text \<open>The old pod is nil when there was none; reading its status then panics.\<close>

definition nm_update :: "pod option \<Rightarrow> pod \<Rightarrow> nominated_map \<Rightarrow> go_panic + nominated_map" where
  "nm_update oldPod newPod m =
     (case oldPod of
        None \<Rightarrow> Inl NilDereference
      | Some old \<Rightarrow>
          let nodeName = (if p_NominatedNodeName old = [] \<and> p_NominatedNodeName newPod = [] then
                            (case map_of (nm_nominatedPodToNode m) (p_UID old) of Some nnn \<Rightarrow> nnn | None \<Rightarrow> [])
                          else [])
          in Inr (nm_add newPod nodeName (nm_delete old m)))"

subsection \<open>The queue\<close>

record sched_queue =
  sq_podInitialBackoffDuration :: int
  sq_podMaxBackoffDuration :: int
  sq_activeQ :: "pod_info heap_data"
  sq_podBackoffQ :: "pod_info heap_data"
  sq_unschedulableQ :: "(string \<times> pod_info) list"
  sq_nominatedPods :: nominated_map
  sq_schedulingCycle :: int
  sq_moveRequestCycle :: int
  sq_closed :: bool

definition unschedulableQTimeInterval :: int where
  "unschedulableQTimeInterval = 60000000000"

definition DefaultPodInitialBackoffDuration :: int where
  "DefaultPodInitialBackoffDuration = 1000000000"

definition DefaultPodMaxBackoffDuration :: int where
  "DefaultPodMaxBackoffDuration = 10000000000"

definition NewPriorityQueue :: "int \<Rightarrow> int \<Rightarrow> sched_queue" where
  "NewPriorityQueue initial mx =
     \<lparr>sq_podInitialBackoffDuration = initial, sq_podMaxBackoffDuration = mx, sq_activeQ = h_New, sq_podBackoffQ = h_New,
      sq_unschedulableQ = [], sq_nominatedPods = newNominatedPodMap, sq_schedulingCycle = 0,
      sq_moveRequestCycle = - 1, sq_closed = False\<rparr>"

fun double_backoff :: "nat \<Rightarrow> int \<Rightarrow> int \<Rightarrow> int" where
  "double_backoff 0 mx d = d"
| "double_backoff (Suc n) mx d = (let d' = wrap64 (d * 2) in if mx < d' then mx else double_backoff n mx d')"

definition calculateBackoffDuration :: "sched_queue \<Rightarrow> pod_info \<Rightarrow> int" where
  "calculateBackoffDuration s i =
     double_backoff (nat (pi_Attempts i - 1)) (sq_podMaxBackoffDuration s) (sq_podInitialBackoffDuration s)"

definition getBackoffTime :: "sched_queue \<Rightarrow> pod_info \<Rightarrow> int" where
  "getBackoffTime s i = pi_Timestamp i + calculateBackoffDuration s i"

definition isPodBackingoff :: "int \<Rightarrow> sched_queue \<Rightarrow> pod_info \<Rightarrow> bool" where
  "isPodBackingoff now s i \<longleftrightarrow> now < getBackoffTime s i"

definition podsCompareBackoffCompleted :: "sched_queue \<Rightarrow> pod_info \<Rightarrow> pod_info \<Rightarrow> bool" where
  "podsCompareBackoffCompleted s i1 i2 \<longleftrightarrow> getBackoffTime s i1 < getBackoffTime s i2"

text \<open>The heaps with their key and order functions.\<close>

definition active_Add :: "pod_info \<Rightarrow> sched_queue \<Rightarrow> bool \<times> sched_queue" where
  "active_Add i s = (case hp_Add_obj podInfoKeyFunc PrioritySort_Less i (sq_activeQ s) of (e, h) \<Rightarrow> (e, s\<lparr>sq_activeQ := h\<rparr>))"

definition active_Delete :: "pod_info \<Rightarrow> sched_queue \<Rightarrow> bool \<times> sched_queue" where
  "active_Delete i s = (case hp_Delete podInfoKeyFunc PrioritySort_Less i (sq_activeQ s) of (e, h) \<Rightarrow> (e, s\<lparr>sq_activeQ := h\<rparr>))"

definition backoff_Add :: "pod_info \<Rightarrow> sched_queue \<Rightarrow> bool \<times> sched_queue" where
  "backoff_Add i s =
     (case hp_Add_obj podInfoKeyFunc (podsCompareBackoffCompleted s) i (sq_podBackoffQ s) of (e, h) \<Rightarrow> (e, s\<lparr>sq_podBackoffQ := h\<rparr>))"

definition backoff_Delete :: "pod_info \<Rightarrow> sched_queue \<Rightarrow> bool \<times> sched_queue" where
  "backoff_Delete i s =
     (case hp_Delete podInfoKeyFunc (podsCompareBackoffCompleted s) i (sq_podBackoffQ s) of (e, h) \<Rightarrow> (e, s\<lparr>sq_podBackoffQ := h\<rparr>))"

definition unsched_get :: "pod \<Rightarrow> sched_queue \<Rightarrow> pod_info option" where
  "unsched_get p s = map_of (sq_unschedulableQ s) (GetPodFullName p)"

definition unsched_delete :: "pod \<Rightarrow> sched_queue \<Rightarrow> sched_queue" where
  "unsched_delete p s = s\<lparr>sq_unschedulableQ := AList.delete (GetPodFullName p) (sq_unschedulableQ s)\<rparr>"

definition unsched_addOrUpdate :: "pod_info \<Rightarrow> sched_queue \<Rightarrow> sched_queue" where
  "unsched_addOrUpdate i s = s\<lparr>sq_unschedulableQ := AList.update (GetPodFullName (pi_Pod i)) i (sq_unschedulableQ s)\<rparr>"

definition nominate :: "pod \<Rightarrow> string \<Rightarrow> sched_queue \<Rightarrow> sched_queue" where
  "nominate p node s = s\<lparr>sq_nominatedPods := nm_add p node (sq_nominatedPods s)\<rparr>"

subsection \<open>The operations\<close>

text \<open>A flag is whether an error is returned.\<close>

definition sq_Add :: "int \<Rightarrow> pod \<Rightarrow> sched_queue \<Rightarrow> bool \<times> sched_queue" where
  "sq_Add now p s =
     (let i = newPodInfo now p in
      case active_Add i s of
        (True, s1) \<Rightarrow> (True, s1)
      | (False, s1) \<Rightarrow>
          let s2 = (if unsched_get p s1 \<noteq> None then unsched_delete p s1 else s1);
              s3 = snd (backoff_Delete i s2)
          in (False, nominate p [] s3))"

datatype unsched_error = InUnschedulable | InActive | InBackoff | BackoffAddFailed

definition sq_AddUnschedulableIfNotPresent :: "int \<Rightarrow> pod_info \<Rightarrow> int \<Rightarrow> sched_queue \<Rightarrow> unsched_error option \<times> sched_queue" where
  "sq_AddUnschedulableIfNotPresent now i0 podSchedulingCycle s =
     (let p = pi_Pod i0 in
      if unsched_get p s \<noteq> None then (Some InUnschedulable, s)
      else
        let i = i0\<lparr>pi_Timestamp := now\<rparr> in
        if snd (hp_Get podInfoKeyFunc i (sq_activeQ s)) \<noteq> None then (Some InActive, s)
        else if snd (hp_Get podInfoKeyFunc i (sq_podBackoffQ s)) \<noteq> None then (Some InBackoff, s)
        else if podSchedulingCycle \<le> sq_moveRequestCycle s then
          (case backoff_Add i s of (True, s1) \<Rightarrow> (Some BackoffAddFailed, s1) | (False, s1) \<Rightarrow> (None, nominate p [] s1))
        else (None, nominate p [] (unsched_addOrUpdate i s)))"

text \<open>The loop of \<open>flushBackoffQCompleted\<close>; an error of \<open>Pop\<close> ends it.\<close>

partial_function (option) sq_flushBackoffQCompleted :: "int \<Rightarrow> sched_queue \<Rightarrow> (go_panic + sched_queue) option" where
  "sq_flushBackoffQCompleted now s =
     (case hp_Peek (sq_podBackoffQ s) of
        Inl x \<Rightarrow> Some (Inl x)
      | Inr None \<Rightarrow> Some (Inr s)
      | Inr (Some i) \<Rightarrow>
          if now < getBackoffTime s i then Some (Inr s)
          else
            (case hp_PopMin (podsCompareBackoffCompleted s) (sq_podBackoffQ s) of
               Inl x \<Rightarrow> Some (Inl x)
             | Inr (None, h) \<Rightarrow> Some (Inr (s\<lparr>sq_podBackoffQ := h\<rparr>))
             | Inr (Some _, h) \<Rightarrow> sq_flushBackoffQCompleted now (snd (active_Add i (s\<lparr>sq_podBackoffQ := h\<rparr>)))))"

definition move_pod :: "int \<Rightarrow> sched_queue \<Rightarrow> pod_info \<Rightarrow> sched_queue" where
  "move_pod now s i =
     (if isPodBackingoff now s i then
        (case backoff_Add i s of (True, s1) \<Rightarrow> s1 | (False, s1) \<Rightarrow> unsched_delete (pi_Pod i) s1)
      else
        (case active_Add i s of (True, s1) \<Rightarrow> s1 | (False, s1) \<Rightarrow> unsched_delete (pi_Pod i) s1))"

definition sq_movePods :: "int \<Rightarrow> pod_info list \<Rightarrow> sched_queue \<Rightarrow> sched_queue" where
  "sq_movePods now is s = (let s1 = foldl (move_pod now) s is in s1\<lparr>sq_moveRequestCycle := sq_schedulingCycle s1\<rparr>)"

definition sq_flushUnschedulableQLeftover :: "int \<Rightarrow> sched_queue \<Rightarrow> sched_queue" where
  "sq_flushUnschedulableQLeftover now s =
     (let podsToMove = filter (\<lambda>i. unschedulableQTimeInterval < time_sub now (pi_Timestamp i)) (map snd (sq_unschedulableQ s))
      in if podsToMove \<noteq> [] then sq_movePods now podsToMove s else s)"

definition sq_MoveAll :: "int \<Rightarrow> sched_queue \<Rightarrow> sched_queue" where
  "sq_MoveAll now s =
     (let s1 = sq_movePods now (map snd (sq_unschedulableQ s)) s in s1\<lparr>sq_moveRequestCycle := sq_schedulingCycle s1\<rparr>)"

datatype pop_result = PopBlocks | PopClosed | PopError | Popped pod_info

definition sq_Pop :: "sched_queue \<Rightarrow> go_panic + pop_result \<times> sched_queue" where
  "sq_Pop s =
     (if hp_Length (sq_activeQ s) = 0 then Inr (if sq_closed s then PopClosed else PopBlocks, s)
      else
        (case hp_PopMin PrioritySort_Less (sq_activeQ s) of
           Inl x \<Rightarrow> Inl x
         | Inr (None, h) \<Rightarrow> Inr (PopError, s\<lparr>sq_activeQ := h\<rparr>)
         | Inr (Some i, h) \<Rightarrow>
             Inr (Popped (i\<lparr>pi_Attempts := wrap64 (pi_Attempts i + 1)\<rparr>),
                  s\<lparr>sq_activeQ := h, sq_schedulingCycle := wrap64 (sq_schedulingCycle s + 1)\<rparr>)))"

text \<open>
  What of the pod \<open>isPodUpdated\<close> compares: all but the status, the resource version and the generation; of the fields
  that the model's pod lacks, any that changes makes an update in the code.
\<close>

definition strip_pod :: "pod \<Rightarrow> pod" where
  "strip_pod p = p\<lparr>p_NominatedNodeName := [], p_StartTime := None, p_Conditions := []\<rparr>"

definition isPodUpdated :: "pod option \<Rightarrow> pod \<Rightarrow> go_panic + bool" where
  "isPodUpdated old new = (case old of None \<Rightarrow> Inl NilDereference | Some p \<Rightarrow> Inr (strip_pod p \<noteq> strip_pod new))"

definition renominate :: "pod option \<Rightarrow> pod \<Rightarrow> sched_queue \<Rightarrow> go_panic + sched_queue" where
  "renominate old new s =
     (case nm_update old new (sq_nominatedPods s) of Inl x \<Rightarrow> Inl x | Inr m \<Rightarrow> Inr (s\<lparr>sq_nominatedPods := m\<rparr>))"

definition sq_Update_rest :: "int \<Rightarrow> pod option \<Rightarrow> pod \<Rightarrow> sched_queue \<Rightarrow> go_panic + bool \<times> sched_queue" where
  "sq_Update_rest now old new s =
     (case unsched_get new s of
        Some i \<Rightarrow>
          (case renominate old new s of
             Inl x \<Rightarrow> Inl x
           | Inr s1 \<Rightarrow>
               (case isPodUpdated old new of
                  Inl x \<Rightarrow> Inl x
                | Inr True \<Rightarrow> Inr (active_Add (updatePodInfo i new) (unsched_delete (pi_Pod i) s1))
                | Inr False \<Rightarrow> Inr (False, unsched_addOrUpdate (updatePodInfo i new) s1)))
      | None \<Rightarrow>
          (case active_Add (newPodInfo now new) s of
             (True, s1) \<Rightarrow> Inr (True, s1)
           | (False, s1) \<Rightarrow> Inr (False, nominate new [] s1)))"

definition sq_Update :: "int \<Rightarrow> pod option \<Rightarrow> pod \<Rightarrow> sched_queue \<Rightarrow> go_panic + bool \<times> sched_queue" where
  "sq_Update now old new s =
     (case old of
        None \<Rightarrow> sq_Update_rest now old new s
      | Some oldPod \<Rightarrow>
          (case snd (hp_Get podInfoKeyFunc (newPodInfoNoTimestamp oldPod) (sq_activeQ s)) of
             Some i \<Rightarrow>
               (case renominate old new s of Inl x \<Rightarrow> Inl x | Inr s1 \<Rightarrow> Inr (active_Add (updatePodInfo i new) s1))
           | None \<Rightarrow>
               (case snd (hp_Get podInfoKeyFunc (newPodInfoNoTimestamp oldPod) (sq_podBackoffQ s)) of
                  Some i \<Rightarrow>
                    (case renominate old new s of
                       Inl x \<Rightarrow> Inl x
                     | Inr s1 \<Rightarrow> Inr (active_Add (updatePodInfo i new) (snd (backoff_Delete i s1))))
                | None \<Rightarrow> sq_Update_rest now old new s)))"

definition sq_Delete :: "pod \<Rightarrow> sched_queue \<Rightarrow> sched_queue" where
  "sq_Delete p s =
     (let s1 = s\<lparr>sq_nominatedPods := nm_delete p (sq_nominatedPods s)\<rparr> in
      case active_Delete (newPodInfoNoTimestamp p) s1 of
        (False, s2) \<Rightarrow> s2
      | (True, s2) \<Rightarrow> unsched_delete p (snd (backoff_Delete (newPodInfoNoTimestamp p) s2)))"

subsection \<open>Pods with matching affinity\<close>

definition GetNamespacesFromPodAffinityTerm :: "pod \<Rightarrow> affinity_term \<Rightarrow> string list" where
  "GetNamespacesFromPodAffinityTerm p t = (if at_Namespaces t = [] then [p_Namespace p] else at_Namespaces t)"

text \<open>A nil selector is called when the pod is in one of the namespaces.\<close>

definition PodMatchesTermsNamespaceAndSelector :: "pod \<Rightarrow> string list \<Rightarrow> selector option \<Rightarrow> go_panic + bool" where
  "PodMatchesTermsNamespaceAndSelector p namespaces sel =
     (if p_Namespace p \<notin> set namespaces then Inr False
      else (case sel of None \<Rightarrow> Inl NilDereference | Some sl \<Rightarrow> Inr (sel_Matches sl (p_Labels p))))"

fun matches_term :: "pod \<Rightarrow> pod \<Rightarrow> affinity_term list \<Rightarrow> go_panic + bool" where
  "matches_term up p [] = Inr False"
| "matches_term up p (t # ts) =
     (case PodMatchesTermsNamespaceAndSelector p (GetNamespacesFromPodAffinityTerm up t) (LabelSelectorAsSelector (at_LabelSelector t)) of
        Inl x \<Rightarrow> Inl x
      | Inr True \<Rightarrow> Inr True
      | Inr False \<Rightarrow> matches_term up p ts)"

fun matching_infos :: "pod \<Rightarrow> pod_info list \<Rightarrow> go_panic + pod_info list" where
  "matching_infos p [] = Inr []"
| "matching_infos p (i # is) =
     (let up = pi_Pod i in
      case (if p_PodAffinity up then matches_term up p (p_AffinityTerms up) else Inr False) of
        Inl x \<Rightarrow> Inl x
      | Inr b \<Rightarrow> (case matching_infos p is of Inl x \<Rightarrow> Inl x | Inr js \<Rightarrow> Inr (if b then i # js else js)))"

definition getUnschedulablePodsWithMatchingAffinityTerm :: "pod \<Rightarrow> sched_queue \<Rightarrow> go_panic + pod_info list" where
  "getUnschedulablePodsWithMatchingAffinityTerm p s = matching_infos p (map snd (sq_unschedulableQ s))"

definition sq_AssignedPodAdded :: "int \<Rightarrow> pod \<Rightarrow> sched_queue \<Rightarrow> go_panic + sched_queue" where
  "sq_AssignedPodAdded now p s =
     (case getUnschedulablePodsWithMatchingAffinityTerm p s of Inl x \<Rightarrow> Inl x | Inr is \<Rightarrow> Inr (sq_movePods now is s))"

definition sq_AssignedPodUpdated :: "int \<Rightarrow> pod \<Rightarrow> sched_queue \<Rightarrow> go_panic + sched_queue" where
  "sq_AssignedPodUpdated now p s =
     (case getUnschedulablePodsWithMatchingAffinityTerm p s of Inl x \<Rightarrow> Inl x | Inr is \<Rightarrow> Inr (sq_movePods now is s))"

subsection \<open>Reading and closing\<close>

definition sq_NominatedPodsForNode :: "string \<Rightarrow> sched_queue \<Rightarrow> pod list" where
  "sq_NominatedPodsForNode node s = pods_at (sq_nominatedPods s) node"

definition sq_PendingPods :: "sched_queue \<Rightarrow> pod list" where
  "sq_PendingPods s =
     map pi_Pod (hp_List (sq_activeQ s)) @ map pi_Pod (hp_List (sq_podBackoffQ s)) @ map (pi_Pod \<circ> snd) (sq_unschedulableQ s)"

definition sq_UpdateNominatedPodForNode :: "pod \<Rightarrow> string \<Rightarrow> sched_queue \<Rightarrow> sched_queue" where
  "sq_UpdateNominatedPodForNode p node s = nominate p node s"

definition sq_DeleteNominatedPodIfExists :: "pod \<Rightarrow> sched_queue \<Rightarrow> sched_queue" where
  "sq_DeleteNominatedPodIfExists p s = s\<lparr>sq_nominatedPods := nm_delete p (sq_nominatedPods s)\<rparr>"

definition sq_NumUnschedulablePods :: "sched_queue \<Rightarrow> nat" where
  "sq_NumUnschedulablePods s = length (sq_unschedulableQ s)"

text \<open>\<open>Close\<close> closes the channel that stops the flushes, which panics when it is closed already.\<close>

definition sq_Close :: "sched_queue \<Rightarrow> go_panic + sched_queue" where
  "sq_Close s =
     (if sq_closed s then Inl (ExplicitPanic ''close of closed channel'') else Inr (s\<lparr>sq_closed := True\<rparr>))"

end
