(* ===== verification/SchedQueueLaws.thy ===== *)
theory SchedQueueLaws
  imports SchedQueue
begin

section \<open>The queue as a set of pending pods\<close>

text \<open>
  Every operation of the queue as an operation on the set of the pods that wait in it, each in one of
  its three parts.  The order of the two heaps is the interface \<open>queue_order\<close> of the heap.
\<close>

subsection \<open>The orders of the heaps\<close>

interpretation prio: queue_order PrioritySort_Less
  by unfold_locales (auto simp: PrioritySort_Less_def)

interpretation backoff: queue_order "podsCompareBackoffCompleted s" for s
  by unfold_locales (auto simp: podsCompareBackoffCompleted_def)

lemma backoff_time_frame [simp]:
  "getBackoffTime (s\<lparr>sq_activeQ := h\<rparr>) = getBackoffTime s" "getBackoffTime (s\<lparr>sq_podBackoffQ := h\<rparr>) = getBackoffTime s"
  "getBackoffTime (s\<lparr>sq_unschedulableQ := u\<rparr>) = getBackoffTime s" "getBackoffTime (s\<lparr>sq_nominatedPods := m\<rparr>) = getBackoffTime s"
  "getBackoffTime (s\<lparr>sq_schedulingCycle := c\<rparr>) = getBackoffTime s" "getBackoffTime (s\<lparr>sq_moveRequestCycle := c\<rparr>) = getBackoffTime s"
  "getBackoffTime (s\<lparr>sq_closed := b\<rparr>) = getBackoffTime s"
  by (simp_all add: fun_eq_iff getBackoffTime_def calculateBackoffDuration_def)

lemma backoff_order_frame: "getBackoffTime s' = getBackoffTime s \<Longrightarrow> podsCompareBackoffCompleted s' = podsCompareBackoffCompleted s"
  by (simp add: fun_eq_iff podsCompareBackoffCompleted_def)

subsection \<open>Names and keys\<close>

datatype pod_id = PodId (id_namespace: string) (id_name: string)

definition pod_id :: "pod \<Rightarrow> pod_id" where
  "pod_id p = PodId (p_Namespace p) (p_Name p)"

text \<open>What validation guarantees of a namespace and a name.\<close>

definition id_ok :: "pod_id \<Rightarrow> bool" where
  "id_ok x \<longleftrightarrow> id_namespace x \<noteq> [] \<and> CHR ''/'' \<notin> set (id_namespace x) \<and> CHR ''_'' \<notin> set (id_name x)"

definition key_of :: "pod_id \<Rightarrow> string" where
  "key_of x = id_namespace x @ ''/'' @ id_name x"

definition full_of :: "pod_id \<Rightarrow> string" where
  "full_of x = id_name x @ ''_'' @ id_namespace x"

lemma split_at: "c \<notin> set xs \<Longrightarrow> c \<notin> set ys \<Longrightarrow> xs @ c # us = ys @ c # vs \<longleftrightarrow> xs = ys \<and> us = vs"
proof
  assume c: "c \<notin> set xs" "c \<notin> set ys" and eq: "xs @ c # us = ys @ c # vs"
  have "takeWhile (\<lambda>x. x \<noteq> c) (xs @ c # us) = xs" "takeWhile (\<lambda>x. x \<noteq> c) (ys @ c # vs) = ys"
    using c by (subst takeWhile_append2; auto)+
  then show "xs = ys \<and> us = vs" using eq by simp
qed simp

lemma key_of_eq: "id_ok x \<Longrightarrow> id_ok y \<Longrightarrow> key_of x = key_of y \<longleftrightarrow> x = y"
  by (cases x; cases y) (simp add: id_ok_def key_of_def split_at)

lemma full_of_eq: "id_ok x \<Longrightarrow> id_ok y \<Longrightarrow> full_of x = full_of y \<longleftrightarrow> x = y"
  by (cases x; cases y) (auto simp: id_ok_def full_of_def split_at)

lemma pod_keys:
  "id_ok (pod_id p) \<Longrightarrow> MetaNamespaceKeyFunc p = key_of (pod_id p)" "GetPodFullName p = full_of (pod_id p)"
  "id_ok (pod_id (pi_Pod i)) \<Longrightarrow> podInfoKeyFunc i = Some (key_of (pod_id (pi_Pod i)))"
  by (simp_all add: id_ok_def key_of_def full_of_def pod_id_def MetaNamespaceKeyFunc_def GetPodFullName_def podInfoKeyFunc_def)

subsection \<open>The parts of the queue\<close>

definition active_at :: "sched_queue \<Rightarrow> pod_id \<Rightarrow> pod_info option" where
  "active_at s x = obj_of (sq_activeQ s) (key_of x)"

definition backoff_at :: "sched_queue \<Rightarrow> pod_id \<Rightarrow> pod_info option" where
  "backoff_at s x = obj_of (sq_podBackoffQ s) (key_of x)"

definition unsched_at :: "sched_queue \<Rightarrow> pod_id \<Rightarrow> pod_info option" where
  "unsched_at s x = map_of (sq_unschedulableQ s) (full_of x)"

lemma at_frame [simp]:
  "active_at (s\<lparr>sq_podBackoffQ := h\<rparr>) = active_at s" "active_at (s\<lparr>sq_unschedulableQ := u\<rparr>) = active_at s"
  "active_at (s\<lparr>sq_nominatedPods := m\<rparr>) = active_at s" "active_at (s\<lparr>sq_schedulingCycle := c\<rparr>) = active_at s"
  "active_at (s\<lparr>sq_moveRequestCycle := c\<rparr>) = active_at s" "active_at (s\<lparr>sq_closed := b\<rparr>) = active_at s"
  "backoff_at (s\<lparr>sq_activeQ := h\<rparr>) = backoff_at s" "backoff_at (s\<lparr>sq_unschedulableQ := u\<rparr>) = backoff_at s"
  "backoff_at (s\<lparr>sq_nominatedPods := m\<rparr>) = backoff_at s" "backoff_at (s\<lparr>sq_schedulingCycle := c\<rparr>) = backoff_at s"
  "backoff_at (s\<lparr>sq_moveRequestCycle := c\<rparr>) = backoff_at s" "backoff_at (s\<lparr>sq_closed := b\<rparr>) = backoff_at s"
  "unsched_at (s\<lparr>sq_activeQ := h\<rparr>) = unsched_at s" "unsched_at (s\<lparr>sq_podBackoffQ := h\<rparr>) = unsched_at s"
  "unsched_at (s\<lparr>sq_nominatedPods := m\<rparr>) = unsched_at s" "unsched_at (s\<lparr>sq_schedulingCycle := c\<rparr>) = unsched_at s"
  "unsched_at (s\<lparr>sq_moveRequestCycle := c\<rparr>) = unsched_at s" "unsched_at (s\<lparr>sq_closed := b\<rparr>) = unsched_at s"
  by (simp_all add: fun_eq_iff active_at_def backoff_at_def unsched_at_def)

text \<open>The heaps are heaps, the map is keyed by the full names, and the pods have valid names.\<close>

definition parts_ok :: "sched_queue \<Rightarrow> bool" where
  "parts_ok s \<longleftrightarrow>
     heap_ok podInfoKeyFunc PrioritySort_Less (sq_activeQ s) \<and>
     heap_ok podInfoKeyFunc (podsCompareBackoffCompleted s) (sq_podBackoffQ s) \<and>
     distinct (map fst (sq_unschedulableQ s)) \<and>
     (\<forall>k i. map_of (sq_unschedulableQ s) k = Some i \<longrightarrow> k = GetPodFullName (pi_Pod i)) \<and>
     (\<forall>k i. obj_of (sq_activeQ s) k = Some i \<or> obj_of (sq_podBackoffQ s) k = Some i \<or> map_of (sq_unschedulableQ s) k = Some i \<longrightarrow>
        id_ok (pod_id (pi_Pod i)))"

definition one_part :: "sched_queue \<Rightarrow> bool" where
  "one_part s \<longleftrightarrow>
     (\<forall>x. id_ok x \<longrightarrow>
        (active_at s x = None \<or> backoff_at s x = None) \<and> (active_at s x = None \<or> unsched_at s x = None) \<and>
        (backoff_at s x = None \<or> unsched_at s x = None))"

definition queue_ok :: "sched_queue \<Rightarrow> bool" where
  "queue_ok s \<longleftrightarrow> parts_ok s \<and> one_part s"

definition pending :: "sched_queue \<Rightarrow> pod_id set" where
  "pending s = {x. id_ok x \<and> (active_at s x \<noteq> None \<or> backoff_at s x \<noteq> None \<or> unsched_at s x \<noteq> None)}"

lemma parts_cong:
  assumes "sq_activeQ s' = sq_activeQ s" "sq_podBackoffQ s' = sq_podBackoffQ s" "sq_unschedulableQ s' = sq_unschedulableQ s"
    and "getBackoffTime s' = getBackoffTime s"
  shows "parts_ok s' = parts_ok s"
  unfolding parts_ok_def assms(1-3) backoff_order_frame [OF assms(4)] by (rule refl)

lemma parts_frame [simp]:
  "parts_ok (s\<lparr>sq_nominatedPods := m\<rparr>) = parts_ok s" "parts_ok (s\<lparr>sq_schedulingCycle := c\<rparr>) = parts_ok s"
  "parts_ok (s\<lparr>sq_moveRequestCycle := c\<rparr>) = parts_ok s" "parts_ok (s\<lparr>sq_closed := b\<rparr>) = parts_ok s"
  by (rule parts_cong; simp)+

lemma part_keyed:
  assumes "parts_ok s"
  shows "obj_of (sq_activeQ s) k = Some i \<Longrightarrow> k = key_of (pod_id (pi_Pod i)) \<and> id_ok (pod_id (pi_Pod i))"
    "obj_of (sq_podBackoffQ s) k = Some i \<Longrightarrow> k = key_of (pod_id (pi_Pod i)) \<and> id_ok (pod_id (pi_Pod i))"
    "map_of (sq_unschedulableQ s) k = Some i \<Longrightarrow> k = full_of (pod_id (pi_Pod i)) \<and> id_ok (pod_id (pi_Pod i))"
proof -
  have ids: "id_ok (pod_id (pi_Pod i))" if "obj_of (sq_activeQ s) k = Some i \<or> obj_of (sq_podBackoffQ s) k = Some i \<or> map_of (sq_unschedulableQ s) k = Some i"
    using assms that unfolding parts_ok_def by blast
  have keyed: "keyed podInfoKeyFunc (sq_activeQ s)" "keyed podInfoKeyFunc (sq_podBackoffQ s)"
    using assms unfolding parts_ok_def heap_ok_def by blast+
  show "k = key_of (pod_id (pi_Pod i)) \<and> id_ok (pod_id (pi_Pod i))" if i: "obj_of (sq_activeQ s) k = Some i"
  proof -
    have "podInfoKeyFunc i = Some k" using keyed(1) i unfolding keyed_def by blast
    moreover have "id_ok (pod_id (pi_Pod i))" using ids i by blast
    ultimately show ?thesis using pod_keys(3) by simp
  qed
  show "k = key_of (pod_id (pi_Pod i)) \<and> id_ok (pod_id (pi_Pod i))" if i: "obj_of (sq_podBackoffQ s) k = Some i"
  proof -
    have "podInfoKeyFunc i = Some k" using keyed(2) i unfolding keyed_def by blast
    moreover have "id_ok (pod_id (pi_Pod i))" using ids i by blast
    ultimately show ?thesis using pod_keys(3) by simp
  qed
  show "k = full_of (pod_id (pi_Pod i)) \<and> id_ok (pod_id (pi_Pod i))" if i: "map_of (sq_unschedulableQ s) k = Some i"
  proof -
    have "k = GetPodFullName (pi_Pod i)" using assms i unfolding parts_ok_def by blast
    moreover have "id_ok (pod_id (pi_Pod i))" using ids i by blast
    ultimately show ?thesis by (simp add: pod_keys(2))
  qed
qed

text \<open>The operations on one part.\<close>

lemma active_change:
  assumes "parts_ok s" "heap_ok podInfoKeyFunc PrioritySort_Less h" "\<And>k j. obj_of h k = Some j \<Longrightarrow> id_ok (pod_id (pi_Pod j))"
  shows "parts_ok (s\<lparr>sq_activeQ := h\<rparr>)"
proof -
  have "podsCompareBackoffCompleted (s\<lparr>sq_activeQ := h\<rparr>) = podsCompareBackoffCompleted s" by (rule backoff_order_frame) simp
  then show ?thesis using assms unfolding parts_ok_def by (simp del: map_of_eq_Some_iff)
qed

lemma backoff_change:
  assumes "parts_ok s" "heap_ok podInfoKeyFunc (podsCompareBackoffCompleted s) h" "\<And>k j. obj_of h k = Some j \<Longrightarrow> id_ok (pod_id (pi_Pod j))"
  shows "parts_ok (s\<lparr>sq_podBackoffQ := h\<rparr>)"
proof -
  have "podsCompareBackoffCompleted (s\<lparr>sq_podBackoffQ := h\<rparr>) = podsCompareBackoffCompleted s" by (rule backoff_order_frame) simp
  then show ?thesis using assms unfolding parts_ok_def by (simp del: map_of_eq_Some_iff)
qed

lemma unsched_change:
  assumes "parts_ok s" "distinct (map fst u)" "\<And>k j. map_of u k = Some j \<Longrightarrow> k = GetPodFullName (pi_Pod j) \<and> id_ok (pod_id (pi_Pod j))"
  shows "parts_ok (s\<lparr>sq_unschedulableQ := u\<rparr>)"
proof -
  have "podsCompareBackoffCompleted (s\<lparr>sq_unschedulableQ := u\<rparr>) = podsCompareBackoffCompleted s" by (rule backoff_order_frame) simp
  then show ?thesis using assms unfolding parts_ok_def by (simp del: map_of_eq_Some_iff)
qed

lemma active_Add_ok:
  assumes "parts_ok s" "id_ok (pod_id (pi_Pod i))"
  shows "\<exists>h. active_Add i s = (False, s\<lparr>sq_activeQ := h\<rparr>) \<and> parts_ok (s\<lparr>sq_activeQ := h\<rparr>) \<and>
    (\<forall>y. id_ok y \<longrightarrow> active_at (s\<lparr>sq_activeQ := h\<rparr>) y = (if y = pod_id (pi_Pod i) then Some i else active_at s y))"
proof -
  let ?k = "key_of (pod_id (pi_Pod i))"
  have ok: "heap_ok podInfoKeyFunc PrioritySort_Less (sq_activeQ s)" using assms(1) unfolding parts_ok_def by blast
  obtain h where h: "hp_Add_obj podInfoKeyFunc PrioritySort_Less i (sq_activeQ s) = (False, h)"
    "heap_ok podInfoKeyFunc PrioritySort_Less h" "obj_of h = (obj_of (sq_activeQ s))(?k \<mapsto> i)"
    using prio.hp_Add_obj_ok [OF ok pod_keys(3) [OF assms(2)]] by blast
  have "parts_ok (s\<lparr>sq_activeQ := h\<rparr>)"
    by (rule active_change [OF assms(1) h(2)]) (use h(3) assms(2) part_keyed(1) [OF assms(1)] in \<open>auto split: if_splits\<close>)
  moreover have "active_at (s\<lparr>sq_activeQ := h\<rparr>) y = (if y = pod_id (pi_Pod i) then Some i else active_at s y)" if "id_ok y" for y
    using key_of_eq [OF that assms(2)] by (simp add: active_at_def h(3))
  ultimately show ?thesis using h(1) unfolding active_Add_def
    by (intro exI [where x = h] exI conjI allI impI) (simp_all)
qed

lemma active_Delete_ok:
  assumes "parts_ok s" "id_ok (pod_id (pi_Pod i))"
  shows "\<exists>h. active_Delete i s = (active_at s (pod_id (pi_Pod i)) = None, s\<lparr>sq_activeQ := h\<rparr>) \<and> parts_ok (s\<lparr>sq_activeQ := h\<rparr>) \<and>
    (\<forall>y. id_ok y \<longrightarrow> active_at (s\<lparr>sq_activeQ := h\<rparr>) y = (if y = pod_id (pi_Pod i) then None else active_at s y))"
proof -
  let ?k = "key_of (pod_id (pi_Pod i))"
  have ok: "heap_ok podInfoKeyFunc PrioritySort_Less (sq_activeQ s)" using assms(1) unfolding parts_ok_def by blast
  obtain h where h: "hp_Delete podInfoKeyFunc PrioritySort_Less i (sq_activeQ s) = (obj_of (sq_activeQ s) ?k = None, h)"
    "heap_ok podInfoKeyFunc PrioritySort_Less h" "obj_of h = (obj_of (sq_activeQ s))(?k := None)"
    using prio.hp_Delete_ok [OF ok pod_keys(3) [OF assms(2)]] by blast
  have "parts_ok (s\<lparr>sq_activeQ := h\<rparr>)"
    by (rule active_change [OF assms(1) h(2)]) (use h(3) part_keyed(1) [OF assms(1)] in \<open>auto split: if_splits\<close>)
  moreover have "active_at (s\<lparr>sq_activeQ := h\<rparr>) y = (if y = pod_id (pi_Pod i) then None else active_at s y)" if "id_ok y" for y
    using key_of_eq [OF that assms(2)] by (simp add: active_at_def h(3))
  ultimately show ?thesis using h(1) unfolding active_Delete_def
    by (intro exI [where x = h] exI conjI allI impI) (simp_all add: active_at_def)
qed

lemma backoff_Add_ok:
  assumes "parts_ok s" "id_ok (pod_id (pi_Pod i))"
  shows "\<exists>h. backoff_Add i s = (False, s\<lparr>sq_podBackoffQ := h\<rparr>) \<and> parts_ok (s\<lparr>sq_podBackoffQ := h\<rparr>) \<and>
    (\<forall>y. id_ok y \<longrightarrow> backoff_at (s\<lparr>sq_podBackoffQ := h\<rparr>) y = (if y = pod_id (pi_Pod i) then Some i else backoff_at s y))"
proof -
  let ?k = "key_of (pod_id (pi_Pod i))" and ?lt = "podsCompareBackoffCompleted s"
  have ok: "heap_ok podInfoKeyFunc ?lt (sq_podBackoffQ s)" using assms(1) unfolding parts_ok_def by blast
  obtain h where h: "hp_Add_obj podInfoKeyFunc ?lt i (sq_podBackoffQ s) = (False, h)"
    "heap_ok podInfoKeyFunc ?lt h" "obj_of h = (obj_of (sq_podBackoffQ s))(?k \<mapsto> i)"
    using backoff.hp_Add_obj_ok [OF ok pod_keys(3) [OF assms(2)]] by blast
  have "parts_ok (s\<lparr>sq_podBackoffQ := h\<rparr>)"
    by (rule backoff_change [OF assms(1) h(2)]) (use h(3) assms(2) part_keyed(2) [OF assms(1)] in \<open>auto split: if_splits\<close>)
  moreover have "backoff_at (s\<lparr>sq_podBackoffQ := h\<rparr>) y = (if y = pod_id (pi_Pod i) then Some i else backoff_at s y)" if "id_ok y" for y
    using key_of_eq [OF that assms(2)] by (simp add: backoff_at_def h(3))
  ultimately show ?thesis using h(1) unfolding backoff_Add_def
    by (intro exI [where x = h] exI conjI allI impI) (simp_all)
qed

lemma backoff_Delete_ok:
  assumes "parts_ok s" "id_ok (pod_id (pi_Pod i))"
  shows "\<exists>e h. backoff_Delete i s = (e, s\<lparr>sq_podBackoffQ := h\<rparr>) \<and> parts_ok (s\<lparr>sq_podBackoffQ := h\<rparr>) \<and>
    (\<forall>y. id_ok y \<longrightarrow> backoff_at (s\<lparr>sq_podBackoffQ := h\<rparr>) y = (if y = pod_id (pi_Pod i) then None else backoff_at s y))"
proof -
  let ?k = "key_of (pod_id (pi_Pod i))" and ?lt = "podsCompareBackoffCompleted s"
  have ok: "heap_ok podInfoKeyFunc ?lt (sq_podBackoffQ s)" using assms(1) unfolding parts_ok_def by blast
  obtain h where h: "hp_Delete podInfoKeyFunc ?lt i (sq_podBackoffQ s) = (obj_of (sq_podBackoffQ s) ?k = None, h)"
    "heap_ok podInfoKeyFunc ?lt h" "obj_of h = (obj_of (sq_podBackoffQ s))(?k := None)"
    using backoff.hp_Delete_ok [OF ok pod_keys(3) [OF assms(2)]] by blast
  have "parts_ok (s\<lparr>sq_podBackoffQ := h\<rparr>)"
    by (rule backoff_change [OF assms(1) h(2)]) (use h(3) part_keyed(2) [OF assms(1)] in \<open>auto split: if_splits\<close>)
  moreover have "backoff_at (s\<lparr>sq_podBackoffQ := h\<rparr>) y = (if y = pod_id (pi_Pod i) then None else backoff_at s y)" if "id_ok y" for y
    using key_of_eq [OF that assms(2)] by (simp add: backoff_at_def h(3))
  ultimately show ?thesis using h(1) unfolding backoff_Delete_def
    by (intro exI [where x = h] exI conjI allI impI) (simp_all)
qed

lemma unsched_delete_ok:
  assumes "parts_ok s" "id_ok (pod_id p)"
  shows "parts_ok (unsched_delete p s) \<and>
    (\<forall>y. id_ok y \<longrightarrow> unsched_at (unsched_delete p s) y = (if y = pod_id p then None else unsched_at s y))"
proof
  have "distinct (map fst (sq_unschedulableQ s))" using assms(1) unfolding parts_ok_def by blast
  then show "parts_ok (unsched_delete p s)" unfolding unsched_delete_def
    by (intro unsched_change [OF assms(1)])
       (use part_keyed(3) [OF assms(1)] in \<open>auto simp: distinct_delete delete_conv' pod_keys(2) simp del: map_of_eq_Some_iff split: if_splits\<close>)
  show "\<forall>y. id_ok y \<longrightarrow> unsched_at (unsched_delete p s) y = (if y = pod_id p then None else unsched_at s y)"
    using full_of_eq [OF _ assms(2)] by (auto simp: unsched_at_def unsched_delete_def delete_conv' pod_keys(2))
qed

lemma unsched_add_ok:
  assumes "parts_ok s" "id_ok (pod_id (pi_Pod i))"
  shows "parts_ok (unsched_addOrUpdate i s) \<and>
    (\<forall>y. id_ok y \<longrightarrow> unsched_at (unsched_addOrUpdate i s) y = (if y = pod_id (pi_Pod i) then Some i else unsched_at s y))"
proof
  have "distinct (map fst (sq_unschedulableQ s))" using assms(1) unfolding parts_ok_def by blast
  then show "parts_ok (unsched_addOrUpdate i s)" unfolding unsched_addOrUpdate_def
    by (intro unsched_change [OF assms(1)])
       (use part_keyed(3) [OF assms(1)] assms(2) in \<open>auto simp: distinct_update pod_keys(2) simp del: map_of_eq_Some_iff split: if_splits\<close>)
  show "\<forall>y. id_ok y \<longrightarrow> unsched_at (unsched_addOrUpdate i s) y = (if y = pod_id (pi_Pod i) then Some i else unsched_at s y)"
    using full_of_eq [OF _ assms(2)] by (auto simp: unsched_at_def unsched_addOrUpdate_def pod_keys(2))
qed

subsection \<open>One pod changes its place\<close>

type_synonym place = "pod_info option \<times> pod_info option \<times> pod_info option"

definition place :: "sched_queue \<Rightarrow> pod_id \<Rightarrow> place" where
  "place s x = (active_at s x, backoff_at s x, unsched_at s x)"

fun single :: "place \<Rightarrow> bool" where
  "single (a, b, u) \<longleftrightarrow> (a = None \<or> b = None) \<and> (a = None \<or> u = None) \<and> (b = None \<or> u = None)"

definition moved :: "sched_queue \<Rightarrow> pod_id \<Rightarrow> place \<Rightarrow> sched_queue \<Rightarrow> bool" where
  "moved s x v s' \<longleftrightarrow>
     parts_ok s' \<and> getBackoffTime s' = getBackoffTime s \<and> (\<forall>y. id_ok y \<longrightarrow> place s' y = (if y = x then v else place s y))"

lemma place_frame [simp]:
  "place (s\<lparr>sq_nominatedPods := m\<rparr>) = place s" "place (s\<lparr>sq_schedulingCycle := c\<rparr>) = place s"
  "place (s\<lparr>sq_moveRequestCycle := c\<rparr>) = place s" "place (s\<lparr>sq_closed := b\<rparr>) = place s"
  by (simp_all add: place_def fun_eq_iff)

lemma pending_place: "x \<in> pending s \<longleftrightarrow> id_ok x \<and> place s x \<noteq> (None, None, None)"
  by (auto simp: pending_def place_def)

lemma one_part_place: "one_part s \<longleftrightarrow> (\<forall>x. id_ok x \<longrightarrow> single (place s x))"
  by (simp add: one_part_def place_def)

lemma moved_ok:
  assumes "queue_ok s" "moved s x v s'" "single v" "id_ok x"
  shows "queue_ok s' \<and> pending s' = (if v = (None, None, None) then pending s - {x} else insert x (pending s))"
proof
  have p: "place s' y = (if y = x then v else place s y)" if "id_ok y" for y using assms(2) that unfolding moved_def by blast
  have "single (place s' y)" if "id_ok y" for y using p [OF that] assms(1,3) that unfolding queue_ok_def one_part_place by simp
  then show "queue_ok s'" using assms(2) unfolding queue_ok_def one_part_place moved_def by blast
  show "pending s' = (if v = (None, None, None) then pending s - {x} else insert x (pending s))"
    by (rule set_eqI) (use p assms(4) in \<open>auto simp only: pending_place insert_iff Diff_iff split: if_splits\<close>)
qed

lemma moved_frame [simp]:
  "moved s x v (s'\<lparr>sq_nominatedPods := m\<rparr>) = moved s x v s'" "moved s x v (s'\<lparr>sq_schedulingCycle := c\<rparr>) = moved s x v s'"
  "moved s x v (s'\<lparr>sq_moveRequestCycle := c\<rparr>) = moved s x v s'"
  by (simp_all add: moved_def)

lemma placed:
  assumes "parts_ok s'" "getBackoffTime s' = getBackoffTime s" "v = (a, b, u)"
    and "\<And>y. id_ok y \<Longrightarrow> active_at s' y = (if y = x then a else active_at s y)"
    and "\<And>y. id_ok y \<Longrightarrow> backoff_at s' y = (if y = x then b else backoff_at s y)"
    and "\<And>y. id_ok y \<Longrightarrow> unsched_at s' y = (if y = x then u else unsched_at s y)"
  shows "moved s x v s'"
  unfolding moved_def using assms by (simp add: place_def)

text \<open>The pod is in exactly one part afterwards.\<close>

definition queued :: "sched_queue \<Rightarrow> pod_id \<Rightarrow> sched_queue \<Rightarrow> bool" where
  "queued s x s' \<longleftrightarrow> (\<exists>v. moved s x v s' \<and> single v \<and> v \<noteq> (None, None, None))"

lemma queuedI: "moved s x (Some i, None, None) s' \<Longrightarrow> queued s x s'" "moved s x (None, Some i, None) s' \<Longrightarrow> queued s x s'"
  "moved s x (None, None, Some i) s' \<Longrightarrow> queued s x s'"
  unfolding queued_def by (rule exI, erule conjI, simp)+

lemma queued_ok: "queue_ok s \<Longrightarrow> queued s x s' \<Longrightarrow> id_ok x \<Longrightarrow> queue_ok s' \<and> pending s' = insert x (pending s)"
  unfolding queued_def using moved_ok by metis

lemma Add_moved:
  assumes "parts_ok s" "id_ok (pod_id p)"
  shows "\<exists>s'. sq_Add now p s = (False, s') \<and> moved s (pod_id p) (Some (newPodInfo now p), None, None) s'"
proof -
  let ?i = "newPodInfo now p"
  have ip: "pi_Pod ?i = p" by (simp add: newPodInfo_def)
  obtain h where h: "active_Add ?i s = (False, s\<lparr>sq_activeQ := h\<rparr>)" "parts_ok (s\<lparr>sq_activeQ := h\<rparr>)"
    "\<And>y. id_ok y \<Longrightarrow> active_at (s\<lparr>sq_activeQ := h\<rparr>) y = (if y = pod_id p then Some ?i else active_at s y)"
    using active_Add_ok [OF assms(1), of ?i] assms(2) ip by auto
  define s1 where "s1 = s\<lparr>sq_activeQ := h\<rparr>"
  define s2 where "s2 = (if unsched_get p s1 \<noteq> None then unsched_delete p s1 else s1)"
  have s2: "parts_ok s2" "getBackoffTime s2 = getBackoffTime s" "active_at s2 = active_at s1" "backoff_at s2 = backoff_at s1"
    "\<And>y. id_ok y \<Longrightarrow> unsched_at s2 y = (if y = pod_id p then None else unsched_at s y)"
    using unsched_delete_ok [of s1 p] h(2) assms(2)
    by (auto simp: s1_def s2_def unsched_get_def unsched_at_def unsched_delete_def pod_keys(2))
  obtain e h2 where h2: "backoff_Delete ?i s2 = (e, s2\<lparr>sq_podBackoffQ := h2\<rparr>)" "parts_ok (s2\<lparr>sq_podBackoffQ := h2\<rparr>)"
    "\<And>y. id_ok y \<Longrightarrow> backoff_at (s2\<lparr>sq_podBackoffQ := h2\<rparr>) y = (if y = pod_id p then None else backoff_at s2 y)"
    using backoff_Delete_ok [OF s2(1), of ?i] assms(2) ip by auto
  have "sq_Add now p s = (False, nominate p [] (s2\<lparr>sq_podBackoffQ := h2\<rparr>))"
    unfolding sq_Add_def Let_def h(1) prod.case bool.case s1_def [symmetric] s2_def [symmetric] h2(1) snd_conv by (rule refl)
  moreover have "moved s (pod_id p) (Some ?i, None, None) (nominate p [] (s2\<lparr>sq_podBackoffQ := h2\<rparr>))"
    unfolding nominate_def moved_frame
    by (rule placed [OF h2(2) _ refl]) (use s2 h(3) h2(3) in \<open>auto simp: s1_def\<close>)
  ultimately show ?thesis by blast
qed

lemma AddUnschedulable_moved:
  assumes "queue_ok s" "id_ok (pod_id (pi_Pod i))"
  shows "\<exists>e s'. sq_AddUnschedulableIfNotPresent now i c s = (e, s') \<and>
    (e \<noteq> None \<and> s' = s \<and> pod_id (pi_Pod i) \<in> pending s \<or>
     e = None \<and> queued s (pod_id (pi_Pod i)) s')"
proof -
  let ?x = "pod_id (pi_Pod i)" and ?i = "i\<lparr>pi_Timestamp := now\<rparr>"
  have parts: "parts_ok s" using assms(1) by (simp add: queue_ok_def)
  have at: "unsched_get (pi_Pod i) s = unsched_at s ?x" "snd (hp_Get podInfoKeyFunc ?i (sq_activeQ s)) = active_at s ?x"
    "snd (hp_Get podInfoKeyFunc ?i (sq_podBackoffQ s)) = backoff_at s ?x"
    using pod_keys(3) [of ?i] assms(2)
    by (simp_all add: unsched_get_def unsched_at_def pod_keys(2) hp_Get_def hp_GetByKey_def active_at_def backoff_at_def obj_of_def)
  show ?thesis
  proof (cases "?x \<in> pending s")
    case True
    then show ?thesis using at by (auto simp: sq_AddUnschedulableIfNotPresent_def Let_def pending_def)
  next
    case False
    then have none: "active_at s ?x = None" "backoff_at s ?x = None" "unsched_at s ?x = None" using assms(2) by (auto simp: pending_def)
    show ?thesis
    proof (cases "c \<le> sq_moveRequestCycle s")
      case True
      obtain h where h: "backoff_Add ?i s = (False, s\<lparr>sq_podBackoffQ := h\<rparr>)" "parts_ok (s\<lparr>sq_podBackoffQ := h\<rparr>)"
        "\<And>y. id_ok y \<Longrightarrow> backoff_at (s\<lparr>sq_podBackoffQ := h\<rparr>) y = (if y = ?x then Some ?i else backoff_at s y)"
        using backoff_Add_ok [OF parts, of ?i] assms(2) by auto
      have "moved s ?x (None, Some ?i, None) (nominate (pi_Pod i) [] (s\<lparr>sq_podBackoffQ := h\<rparr>))"
        unfolding nominate_def moved_frame by (rule placed [OF h(2) _ refl]) (use h(3) none in auto)
      moreover have "sq_AddUnschedulableIfNotPresent now i c s = (None, nominate (pi_Pod i) [] (s\<lparr>sq_podBackoffQ := h\<rparr>))"
        using True at none h(1) by (simp add: sq_AddUnschedulableIfNotPresent_def Let_def)
      ultimately show ?thesis by (auto intro: queuedI)
    next
      case False
      have u: "parts_ok (unsched_addOrUpdate ?i s)"
        "\<And>y. id_ok y \<Longrightarrow> unsched_at (unsched_addOrUpdate ?i s) y = (if y = ?x then Some ?i else unsched_at s y)"
        using unsched_add_ok [OF parts, of ?i] assms(2) by auto
      have "moved s ?x (None, None, Some ?i) (nominate (pi_Pod i) [] (unsched_addOrUpdate ?i s))"
        unfolding nominate_def moved_frame
        by (rule placed [OF u(1) _ refl]) (use u(2) none in \<open>auto simp: unsched_addOrUpdate_def\<close>)
      moreover have "sq_AddUnschedulableIfNotPresent now i c s = (None, nominate (pi_Pod i) [] (unsched_addOrUpdate ?i s))"
        using False at none by (simp add: sq_AddUnschedulableIfNotPresent_def Let_def)
      ultimately show ?thesis by (auto intro: queuedI)
    qed
  qed
qed

lemma one_place:
  assumes "queue_ok s" "id_ok x"
  shows "active_at s x = Some i \<Longrightarrow> place s x = (Some i, None, None)" "backoff_at s x = Some i \<Longrightarrow> place s x = (None, Some i, None)"
    "unsched_at s x = Some i \<Longrightarrow> place s x = (None, None, Some i)"
proof -
  have "single (place s x)" using assms unfolding queue_ok_def one_part_place by blast
  then show "active_at s x = Some i \<Longrightarrow> place s x = (Some i, None, None)" "backoff_at s x = Some i \<Longrightarrow> place s x = (None, Some i, None)"
    "unsched_at s x = Some i \<Longrightarrow> place s x = (None, None, Some i)"
    by (simp_all add: place_def)
qed

lemma Pop_moved:
  assumes "queue_ok s" "h_queue (sq_activeQ s) \<noteq> []"
  shows "\<exists>i s'. sq_Pop s = Inr (Popped (i\<lparr>pi_Attempts := wrap64 (pi_Attempts i + 1)\<rparr>), s') \<and> id_ok (pod_id (pi_Pod i)) \<and>
    active_at s (pod_id (pi_Pod i)) = Some i \<and> moved s (pod_id (pi_Pod i)) (None, None, None) s' \<and>
    (\<forall>y j. active_at s y = Some j \<longrightarrow> \<not> PrioritySort_Less j i)"
proof -
  have parts: "parts_ok s" using assms(1) by (simp add: queue_ok_def)
  then have ok: "heap_ok podInfoKeyFunc PrioritySort_Less (sq_activeQ s)" unfolding parts_ok_def by blast
  obtain i k h where h: "hp_PopMin PrioritySort_Less (sq_activeQ s) = Inr (Some i, h)" "obj_of (sq_activeQ s) k = Some i"
    "heap_ok podInfoKeyFunc PrioritySort_Less h" "obj_of h = (obj_of (sq_activeQ s))(k := None)"
    "\<forall>k' b. obj_of (sq_activeQ s) k' = Some b \<longrightarrow> \<not> PrioritySort_Less b i"
    using prio.hp_PopMin_ok [OF ok assms(2)] by blast
  let ?x = "pod_id (pi_Pod i)"
  have k: "k = key_of ?x" "id_ok ?x" using part_keyed(1) [OF parts h(2)] by auto
  have act: "active_at s ?x = Some i" using h(2) k(1) by (simp add: active_at_def)
  define s' where "s' = s\<lparr>sq_activeQ := h, sq_schedulingCycle := wrap64 (sq_schedulingCycle s + 1)\<rparr>"
  have "sq_Pop s = Inr (Popped (i\<lparr>pi_Attempts := wrap64 (pi_Attempts i + 1)\<rparr>), s')"
    using assms(2) h(1) by (simp add: sq_Pop_def hp_Length_def s'_def)
  moreover have "parts_ok (s\<lparr>sq_activeQ := h\<rparr>)"
    by (rule active_change [OF parts h(3)]) (use h(4) part_keyed(1) [OF parts] in \<open>auto split: if_splits\<close>)
  then have "moved s ?x (None, None, None) (s\<lparr>sq_activeQ := h\<rparr>)"
    by (rule placed) (use one_place(1) [OF assms(1) k(2) act] key_of_eq [OF _ k(2)] in \<open>auto simp: place_def active_at_def h(4) k(1)\<close>)
  then have "moved s ?x (None, None, None) s'" by (simp add: s'_def)
  moreover have "\<not> PrioritySort_Less j i" if "active_at s y = Some j" for y j using h(5) that unfolding active_at_def by blast
  ultimately show ?thesis using k(2) act by blast
qed

lemma Delete_moved:
  assumes "queue_ok s" "id_ok (pod_id p)"
  shows "moved s (pod_id p) (None, None, None) (sq_Delete p s)"
proof -
  let ?i = "newPodInfoNoTimestamp p"
  have ip: "pi_Pod ?i = p" by (simp add: newPodInfoNoTimestamp_def)
  define s1 where "s1 = s\<lparr>sq_nominatedPods := nm_delete p (sq_nominatedPods s)\<rparr>"
  have s1: "parts_ok s1" "place s1 = place s" "getBackoffTime s1 = getBackoffTime s" "active_at s1 = active_at s"
    "backoff_at s1 = backoff_at s" "unsched_at s1 = unsched_at s"
    using assms(1) by (simp_all add: s1_def queue_ok_def)
  obtain h where h: "active_Delete ?i s1 = (active_at s1 (pod_id p) = None, s1\<lparr>sq_activeQ := h\<rparr>)" "parts_ok (s1\<lparr>sq_activeQ := h\<rparr>)"
    "\<And>y. id_ok y \<Longrightarrow> active_at (s1\<lparr>sq_activeQ := h\<rparr>) y = (if y = pod_id p then None else active_at s1 y)"
    using active_Delete_ok [OF s1(1), of ?i] assms(2) ip by auto
  show ?thesis
  proof (cases "active_at s1 (pod_id p) = None")
    case True
    obtain e h2 where h2: "backoff_Delete ?i (s1\<lparr>sq_activeQ := h\<rparr>) = (e, s1\<lparr>sq_activeQ := h, sq_podBackoffQ := h2\<rparr>)"
      "parts_ok (s1\<lparr>sq_activeQ := h, sq_podBackoffQ := h2\<rparr>)"
      "\<And>y. id_ok y \<Longrightarrow> backoff_at (s1\<lparr>sq_activeQ := h, sq_podBackoffQ := h2\<rparr>) y = (if y = pod_id p then None else backoff_at s1 y)"
      using backoff_Delete_ok [OF h(2), of ?i] assms(2) ip by auto
    have "sq_Delete p s = unsched_delete p (s1\<lparr>sq_activeQ := h, sq_podBackoffQ := h2\<rparr>)"
      using True h(1) h2(1) by (simp add: sq_Delete_def Let_def s1_def [symmetric])
    then show ?thesis using unsched_delete_ok [OF h2(2) assms(2)] h(3) h2(3) s1
      by (intro placed [OF _ _ refl]) (auto simp: unsched_delete_def)
  next
    case False
    then obtain i where "active_at s (pod_id p) = Some i" using s1(4) by auto
    then have "place s (pod_id p) = (Some i, None, None)" using one_place(1) assms by blast
    moreover have "sq_Delete p s = s1\<lparr>sq_activeQ := h\<rparr>"
      using False h(1) by (auto simp: sq_Delete_def Let_def s1_def [symmetric] split: bool.split)
    ultimately show ?thesis using h(2,3) s1 by (intro placed [OF _ _ refl]) (auto simp: place_def)
  qed
qed

lemma renominate_old: "\<exists>m. renominate (Some old) new s = Inr (s\<lparr>sq_nominatedPods := m\<rparr>)"
  by (auto simp: renominate_def nm_update_def Let_def)

lemma update_active:
  assumes "parts_ok s" "id_ok (pod_id new)" "\<And>y. id_ok y \<Longrightarrow> backoff_at s y = (if y = pod_id new then None else backoff_at s0 y)"
    and "\<And>y. id_ok y \<Longrightarrow> unsched_at s y = (if y = pod_id new then None else unsched_at s0 y)"
    and "active_at s = active_at s0" "getBackoffTime s = getBackoffTime s0" "pi_Pod i = new"
  shows "\<exists>s'. active_Add i s = (False, s') \<and> moved s0 (pod_id new) (Some i, None, None) s'"
proof -
  obtain h where h: "active_Add i s = (False, s\<lparr>sq_activeQ := h\<rparr>)" "parts_ok (s\<lparr>sq_activeQ := h\<rparr>)"
    "\<And>y. id_ok y \<Longrightarrow> active_at (s\<lparr>sq_activeQ := h\<rparr>) y = (if y = pod_id new then Some i else active_at s y)"
    using active_Add_ok [OF assms(1), of i] assms(2,7) by auto
  have "moved s0 (pod_id new) (Some i, None, None) (s\<lparr>sq_activeQ := h\<rparr>)"
    by (rule placed [OF h(2) _ refl]) (use assms h(3) in auto)
  then show ?thesis using h(1) by blast
qed

lemma Update_moved:
  assumes "queue_ok s" "id_ok (pod_id new)" "pod_id old = pod_id new"
  shows "\<exists>s'. sq_Update now (Some old) new s = Inr (False, s') \<and> queued s (pod_id new) s'"
proof -
  let ?x = "pod_id new"
  have parts: "parts_ok s" using assms(1) by (simp add: queue_ok_def)
  obtain m where m: "renominate (Some old) new s = Inr (s\<lparr>sq_nominatedPods := m\<rparr>)" using renominate_old by blast
  let ?s1 = "s\<lparr>sq_nominatedPods := m\<rparr>"
  have key: "podInfoKeyFunc (newPodInfoNoTimestamp old) = Some (key_of ?x)"
    using pod_keys(3) [of "newPodInfoNoTimestamp old"] assms(2,3) by (simp add: newPodInfoNoTimestamp_def)
  have get: "snd (hp_Get podInfoKeyFunc (newPodInfoNoTimestamp old) (sq_activeQ s)) = active_at s ?x"
    "snd (hp_Get podInfoKeyFunc (newPodInfoNoTimestamp old) (sq_podBackoffQ s)) = backoff_at s ?x" "unsched_get new s = unsched_at s ?x"
    by (simp_all add: hp_Get_def key hp_GetByKey_def active_at_def backoff_at_def obj_of_def unsched_get_def unsched_at_def pod_keys(2))
  have upd: "pi_Pod (updatePodInfo i new) = new" for i by (simp add: updatePodInfo_def)
  consider (active) i where "active_at s ?x = Some i" | (backoff) i where "active_at s ?x = None" "backoff_at s ?x = Some i"
    | (unsched) i where "active_at s ?x = None" "backoff_at s ?x = None" "unsched_at s ?x = Some i"
    | (out) "active_at s ?x = None" "backoff_at s ?x = None" "unsched_at s ?x = None" by fastforce
  then show ?thesis
  proof cases
    case (active i)
    have "place s ?x = (Some i, None, None)" using one_place(1) [OF assms(1,2) active] .
    then have "backoff_at ?s1 y = (if y = ?x then None else backoff_at s y)" "unsched_at ?s1 y = (if y = ?x then None else unsched_at s y)" for y
      by (auto simp: place_def)
    then obtain s' where "active_Add (updatePodInfo i new) ?s1 = (False, s')" "moved s ?x (Some (updatePodInfo i new), None, None) s'"
      using update_active [of ?s1 new s, OF _ assms(2) _ _ _ _ upd [of i]] parts by auto
    then show ?thesis using m get active by (auto intro: queuedI simp: sq_Update_def)
  next
    case (backoff i)
    have pl: "place s ?x = (None, Some i, None)" using one_place(2) [OF assms(1,2) backoff(2)] .
    have "pod_id (pi_Pod i) = ?x"
      using part_keyed(2) [OF parts] backoff(2) key_of_eq assms(2) unfolding backoff_at_def by metis
    then obtain e h where h: "backoff_Delete i ?s1 = (e, ?s1\<lparr>sq_podBackoffQ := h\<rparr>)" "parts_ok (?s1\<lparr>sq_podBackoffQ := h\<rparr>)"
      "\<And>y. id_ok y \<Longrightarrow> backoff_at (?s1\<lparr>sq_podBackoffQ := h\<rparr>) y = (if y = ?x then None else backoff_at s y)"
      using backoff_Delete_ok [of ?s1 i] parts assms(2) by auto
    have "unsched_at (?s1\<lparr>sq_podBackoffQ := h\<rparr>) y = (if y = ?x then None else unsched_at s y)" for y using pl by (auto simp: place_def)
    with h(2,3) obtain s' where "active_Add (updatePodInfo i new) (?s1\<lparr>sq_podBackoffQ := h\<rparr>) = (False, s')"
      "moved s ?x (Some (updatePodInfo i new), None, None) s'"
      using update_active [of "?s1\<lparr>sq_podBackoffQ := h\<rparr>" new s, OF h(2) assms(2) _ _ _ _ upd [of i]] pl by (auto simp: place_def)
    then show ?thesis using m get backoff h(1) by (auto intro: queuedI simp: sq_Update_def)
  next
    case (unsched i)
    have pid: "pod_id (pi_Pod i) = ?x"
      using part_keyed(3) [OF parts] unsched(3) full_of_eq assms(2) unfolding unsched_at_def by metis
    have del: "parts_ok (unsched_delete (pi_Pod i) ?s1)"
      "\<And>y. id_ok y \<Longrightarrow> unsched_at (unsched_delete (pi_Pod i) ?s1) y = (if y = ?x then None else unsched_at s y)"
      using unsched_delete_ok [of ?s1 "pi_Pod i"] parts pid assms(2) by auto
    show ?thesis
    proof (cases "strip_pod old \<noteq> strip_pod new")
      case True
      have "backoff_at (unsched_delete (pi_Pod i) ?s1) y = (if y = ?x then None else backoff_at s y)" for y
        using unsched(2) by (simp add: unsched_delete_def)
      then obtain s' where "active_Add (updatePodInfo i new) (unsched_delete (pi_Pod i) ?s1) = (False, s')"
        "moved s ?x (Some (updatePodInfo i new), None, None) s'"
        using update_active [of "unsched_delete (pi_Pod i) ?s1" new s, OF del(1) assms(2) _ del(2) _ _ upd [of i]]
        by (auto simp: unsched_delete_def)
      then show ?thesis using m get unsched True by (auto intro: queuedI simp: sq_Update_def sq_Update_rest_def isPodUpdated_def)
    next
      case False
      have add: "parts_ok (unsched_addOrUpdate (updatePodInfo i new) ?s1)"
        "\<And>y. id_ok y \<Longrightarrow> unsched_at (unsched_addOrUpdate (updatePodInfo i new) ?s1) y = (if y = ?x then Some (updatePodInfo i new) else unsched_at s y)"
        using unsched_add_ok [of ?s1 "updatePodInfo i new"] parts assms(2) upd by auto
      have "moved s ?x (None, None, Some (updatePodInfo i new)) (unsched_addOrUpdate (updatePodInfo i new) ?s1)"
        by (rule placed [OF add(1) _ refl]) (use add(2) unsched in \<open>auto simp: unsched_addOrUpdate_def\<close>)
      then show ?thesis using m get unsched False
        by (intro exI [of _ "unsched_addOrUpdate (updatePodInfo i new) ?s1"])
           (auto intro: queuedI simp: sq_Update_def sq_Update_rest_def isPodUpdated_def)
    qed
  next
    case out
    have "backoff_at s y = (if y = ?x then None else backoff_at s y)" "unsched_at s y = (if y = ?x then None else unsched_at s y)" for y
      using out by simp_all
    then obtain s' where s': "active_Add (newPodInfo now new) s = (False, s')" "moved s ?x (Some (newPodInfo now new), None, None) s'"
      using update_active [of s new s "newPodInfo now new", OF parts assms(2) _ _ refl refl] by (auto simp: newPodInfo_def)
    then have "moved s ?x (Some (newPodInfo now new), None, None) (nominate new [] s')" by (simp add: nominate_def)
    moreover have "sq_Update now (Some old) new s = Inr (False, nominate new [] s')"
      using get out s'(1) by (simp add: sq_Update_def sq_Update_rest_def)
    ultimately show ?thesis by (auto intro: queuedI)
  qed
qed

subsection \<open>Moving pods between the parts\<close>

definition retry_place :: "int \<Rightarrow> sched_queue \<Rightarrow> pod_info \<Rightarrow> place" where
  "retry_place now s i = (if isPodBackingoff now s i then (None, Some i, None) else (Some i, None, None))"

lemma retry_place_simps [simp]: "single (retry_place now s i)" "retry_place now s i \<noteq> (None, None, None)"
  by (simp_all add: retry_place_def)

lemma retry_place_cong: "getBackoffTime s' = getBackoffTime s \<Longrightarrow> retry_place now s' = retry_place now s"
  by (simp add: fun_eq_iff retry_place_def isPodBackingoff_def)

lemma move_pod_moved:
  assumes "parts_ok s" "id_ok (pod_id (pi_Pod i))" "place s (pod_id (pi_Pod i)) = (None, None, Some i)"
  shows "moved s (pod_id (pi_Pod i)) (retry_place now s i) (move_pod now s i)"
proof (cases "isPodBackingoff now s i")
  case True
  obtain h where h: "backoff_Add i s = (False, s\<lparr>sq_podBackoffQ := h\<rparr>)" "parts_ok (s\<lparr>sq_podBackoffQ := h\<rparr>)"
    "\<And>y. id_ok y \<Longrightarrow> backoff_at (s\<lparr>sq_podBackoffQ := h\<rparr>) y = (if y = pod_id (pi_Pod i) then Some i else backoff_at s y)"
    using backoff_Add_ok [OF assms(1,2)] by blast
  have "moved s (pod_id (pi_Pod i)) (None, Some i, None) (unsched_delete (pi_Pod i) (s\<lparr>sq_podBackoffQ := h\<rparr>))"
    by (rule placed [OF _ _ refl]) (use unsched_delete_ok [OF h(2) assms(2)] h(3) assms(3) in \<open>auto simp: unsched_delete_def place_def\<close>)
  then show ?thesis using True h(1) by (simp add: move_pod_def retry_place_def)
next
  case False
  obtain h where h: "active_Add i s = (False, s\<lparr>sq_activeQ := h\<rparr>)" "parts_ok (s\<lparr>sq_activeQ := h\<rparr>)"
    "\<And>y. id_ok y \<Longrightarrow> active_at (s\<lparr>sq_activeQ := h\<rparr>) y = (if y = pod_id (pi_Pod i) then Some i else active_at s y)"
    using active_Add_ok [OF assms(1,2)] by blast
  have "moved s (pod_id (pi_Pod i)) (Some i, None, None) (unsched_delete (pi_Pod i) (s\<lparr>sq_activeQ := h\<rparr>))"
    by (rule placed [OF _ _ refl]) (use unsched_delete_ok [OF h(2) assms(2)] h(3) assms(3) in \<open>auto simp: unsched_delete_def place_def\<close>)
  then show ?thesis using False h(1) by (simp add: move_pod_def retry_place_def)
qed

text \<open>Pods that were pending go to new places; all others stay.\<close>

definition replaced :: "sched_queue \<Rightarrow> (pod_id \<Rightarrow> place option) \<Rightarrow> sched_queue \<Rightarrow> bool" where
  "replaced s f s' \<longleftrightarrow>
     parts_ok s' \<and> getBackoffTime s' = getBackoffTime s \<and>
     (\<forall>y. id_ok y \<longrightarrow> place s' y = (case f y of None \<Rightarrow> place s y | Some v \<Rightarrow> v))"

lemma replaced_ok:
  assumes "queue_ok s" "replaced s f s'" "\<And>y v. id_ok y \<Longrightarrow> f y = Some v \<Longrightarrow> single v \<and> v \<noteq> (None, None, None) \<and> y \<in> pending s"
  shows "queue_ok s' \<and> pending s' = pending s"
proof
  have p: "place s' y = (case f y of None \<Rightarrow> place s y | Some v \<Rightarrow> v)" if "id_ok y" for y
    using assms(2) that unfolding replaced_def by blast
  have "single (place s' y)" if "id_ok y" for y
    using p [OF that] assms(1,3) that unfolding queue_ok_def one_part_place by (auto split: option.splits)
  then show "queue_ok s'" using assms(2) unfolding queue_ok_def one_part_place replaced_def by blast
  have "y \<in> pending s' \<longleftrightarrow> y \<in> pending s" if "id_ok y" for y
    using p [OF that] assms(3) [OF that] that by (auto simp: pending_place split: option.splits)
  moreover have "y \<notin> pending s' \<and> y \<notin> pending s" if "\<not> id_ok y" for y using that by (simp add: pending_place)
  ultimately show "pending s' = pending s" by blast
qed

definition retried :: "int \<Rightarrow> sched_queue \<Rightarrow> pod_info list \<Rightarrow> pod_id \<Rightarrow> place option" where
  "retried now s is y = map_option (retry_place now s) (find (\<lambda>i. pod_id (pi_Pod i) = y) is)"

lemma move_pods_replaced:
  assumes "parts_ok s" "distinct (map (\<lambda>i. pod_id (pi_Pod i)) is)"
    and "\<And>i. i \<in> set is \<Longrightarrow> id_ok (pod_id (pi_Pod i)) \<and> place s (pod_id (pi_Pod i)) = (None, None, Some i)"
  shows "replaced s (retried now s is) (foldl (move_pod now) s is)"
  using assms
proof (induction "is" arbitrary: s)
  case Nil
  then show ?case by (simp add: replaced_def retried_def)
next
  case (Cons i "is")
  let ?x = "pod_id (pi_Pod i)" and ?s1 = "move_pod now s i"
  have m: "moved s ?x (retry_place now s i) ?s1" using move_pod_moved Cons.prems by simp
  have bt: "getBackoffTime ?s1 = getBackoffTime s" using m by (simp add: moved_def)
  have other: "place ?s1 (pod_id (pi_Pod j)) = (None, None, Some j)" if "j \<in> set is" for j
  proof -
    have "pod_id (pi_Pod j) \<in> set (map (\<lambda>i. pod_id (pi_Pod i)) is)" using that by simp
    then have "pod_id (pi_Pod j) \<noteq> ?x" using Cons.prems(2) by auto
    then show ?thesis using m Cons.prems(3) [of j] that unfolding moved_def by simp
  qed
  have "replaced ?s1 (retried now ?s1 is) (foldl (move_pod now) ?s1 is)"
    by (rule Cons.IH) (use m Cons.prems other in \<open>auto simp: moved_def\<close>)
  then have r: "parts_ok (foldl (move_pod now) s (i # is))" "getBackoffTime (foldl (move_pod now) s (i # is)) = getBackoffTime s"
    "\<And>y. id_ok y \<Longrightarrow> place (foldl (move_pod now) s (i # is)) y = (case retried now s is y of None \<Rightarrow> place ?s1 y | Some v \<Rightarrow> v)"
    using bt retry_place_cong [OF bt] by (simp_all add: replaced_def retried_def)
  have "place (foldl (move_pod now) s (i # is)) y = (case retried now s (i # is) y of None \<Rightarrow> place s y | Some v \<Rightarrow> v)" if "id_ok y" for y
  proof (cases "y = ?x")
    case True
    then have "y \<notin> set (map (\<lambda>i. pod_id (pi_Pod i)) is)" using Cons.prems(2) by simp
    then have "find (\<lambda>j. pod_id (pi_Pod j) = y) is = None" unfolding find_None_iff by auto
    then show ?thesis using r(3) [OF that] m that True by (simp add: retried_def moved_def)
  next
    case False
    then show ?thesis using r(3) [OF that] m that by (cases "find (\<lambda>j. pod_id (pi_Pod j) = y) is") (auto simp: retried_def moved_def)
  qed
  then show ?case using r(1,2) by (simp add: replaced_def)
qed

lemma unsched_infos:
  assumes "queue_ok s" "i \<in> set (map snd (sq_unschedulableQ s))"
  shows "id_ok (pod_id (pi_Pod i)) \<and> place s (pod_id (pi_Pod i)) = (None, None, Some i)"
proof -
  have parts: "parts_ok s" using assms(1) by (simp add: queue_ok_def)
  then have d: "distinct (map fst (sq_unschedulableQ s))" unfolding parts_ok_def by blast
  obtain k where "(k, i) \<in> set (sq_unschedulableQ s)" using assms(2) by auto
  then have m: "map_of (sq_unschedulableQ s) k = Some i" using d by simp
  have k: "k = full_of (pod_id (pi_Pod i))" "id_ok (pod_id (pi_Pod i))" using part_keyed(3) [OF parts m] by auto
  then have "unsched_at s (pod_id (pi_Pod i)) = Some i" using m by (simp add: unsched_at_def)
  then show ?thesis using one_place(3) [OF assms(1) k(2)] k(2) by blast
qed

lemma unsched_ids:
  assumes "queue_ok s"
  shows "distinct (map (\<lambda>i. pod_id (pi_Pod i)) (map snd (sq_unschedulableQ s)))"
proof -
  have parts: "parts_ok s" using assms by (simp add: queue_ok_def)
  then have d: "distinct (map fst (sq_unschedulableQ s))" unfolding parts_ok_def by blast
  have "fst x = full_of (pod_id (pi_Pod (snd x)))" if "x \<in> set (sq_unschedulableQ s)" for x
    using part_keyed(3) [OF parts, of "fst x" "snd x"] map_of_is_SomeI [OF d] that by simp
  then have "map fst (sq_unschedulableQ s) = map full_of (map (\<lambda>i. pod_id (pi_Pod i)) (map snd (sq_unschedulableQ s)))"
    by simp
  then show ?thesis using d by (metis distinct_map)
qed

lemma movePods_ok:
  assumes "queue_ok s" "set is \<subseteq> set (map snd (sq_unschedulableQ s))" "distinct (map (\<lambda>i. pod_id (pi_Pod i)) is)"
  shows "queue_ok (sq_movePods now is s) \<and> pending (sq_movePods now is s) = pending s \<and> replaced s (retried now s is) (sq_movePods now is s)"
proof -
  have infos: "id_ok (pod_id (pi_Pod i)) \<and> place s (pod_id (pi_Pod i)) = (None, None, Some i)" if "i \<in> set is" for i
    using unsched_infos [OF assms(1)] assms(2) that by blast
  have "replaced s (retried now s is) (foldl (move_pod now) s is)"
    by (rule move_pods_replaced [OF _ assms(3) infos]) (use assms(1) in \<open>simp_all add: queue_ok_def\<close>)
  then have r: "replaced s (retried now s is) (sq_movePods now is s)" by (simp add: sq_movePods_def Let_def replaced_def)
  moreover have "single v \<and> v \<noteq> (None, None, None) \<and> y \<in> pending s" if v: "retried now s is y = Some v" and y: "id_ok y" for y v
  proof -
    obtain i where i: "i \<in> set is" "pod_id (pi_Pod i) = y" "v = retry_place now s i"
      using v unfolding retried_def map_option_eq_Some find_Some_iff by (metis nth_mem)
    then show ?thesis using infos [OF i(1)] y by (simp add: pending_place)
  qed
  ultimately show ?thesis using replaced_ok [OF assms(1) r] by blast
qed

end
