(* ===== verification/SchedQueueOps.thy ===== *)
theory SchedQueueOps
  imports SchedQueueLaws
begin

section \<open>The operations of the scheduling queue\<close>

text \<open>
  What the operations of the queue do to the pods that wait in it: the loop of \<open>flushBackoffQCompleted\<close>,
  the moves out of \<open>unschedulableQ\<close>, all operations as one step function, and how long a pod waits.
\<close>

subsection \<open>The loop over the pods whose back-off is completed\<close>

definition flushed :: "int \<Rightarrow> sched_queue \<Rightarrow> pod_id \<Rightarrow> place option" where
  "flushed now s y =
     (case backoff_at s y of
        None \<Rightarrow> None
      | Some i \<Rightarrow> if getBackoffTime s i \<le> now then Some (Some i, None, None) else None)"

lemma flush_step:
  assumes "queue_ok s" "h_queue (sq_podBackoffQ s) \<noteq> []"
  shows "\<exists>i h. hp_PopMin (podsCompareBackoffCompleted s) (sq_podBackoffQ s) = Inr (Some i, h) \<and>
    hp_Peek (sq_podBackoffQ s) = Inr (Some i) \<and> id_ok (pod_id (pi_Pod i)) \<and> backoff_at s (pod_id (pi_Pod i)) = Some i \<and>
    moved s (pod_id (pi_Pod i)) (Some i, None, None) (snd (active_Add i (s\<lparr>sq_podBackoffQ := h\<rparr>))) \<and>
    (\<forall>y j. backoff_at s y = Some j \<longrightarrow> getBackoffTime s i \<le> getBackoffTime s j)"
proof -
  have parts: "parts_ok s" using assms(1) by (simp add: queue_ok_def)
  then have ok: "heap_ok podInfoKeyFunc (podsCompareBackoffCompleted s) (sq_podBackoffQ s)" unfolding parts_ok_def by blast
  obtain i k h where h: "hp_PopMin (podsCompareBackoffCompleted s) (sq_podBackoffQ s) = Inr (Some i, h)"
    "hp_Peek (sq_podBackoffQ s) = Inr (Some i)" "obj_of (sq_podBackoffQ s) k = Some i"
    "heap_ok podInfoKeyFunc (podsCompareBackoffCompleted s) h" "obj_of h = (obj_of (sq_podBackoffQ s))(k := None)"
    "\<forall>k' b. obj_of (sq_podBackoffQ s) k' = Some b \<longrightarrow> \<not> podsCompareBackoffCompleted s b i"
    using backoff.hp_PopMin_ok [OF ok assms(2)] by blast
  let ?x = "pod_id (pi_Pod i)"
  have k: "k = key_of ?x" "id_ok ?x" using part_keyed(2) [OF parts h(3)] by auto
  have b: "backoff_at s ?x = Some i" using h(3) k(1) by (simp add: backoff_at_def)
  have parts1: "parts_ok (s\<lparr>sq_podBackoffQ := h\<rparr>)"
    by (rule backoff_change [OF parts h(4)]) (use h(5) part_keyed(2) [OF parts] in \<open>auto split: if_splits\<close>)
  obtain a where a: "active_Add i (s\<lparr>sq_podBackoffQ := h\<rparr>) = (False, s\<lparr>sq_podBackoffQ := h, sq_activeQ := a\<rparr>)"
    "parts_ok (s\<lparr>sq_podBackoffQ := h, sq_activeQ := a\<rparr>)"
    "\<And>y. id_ok y \<Longrightarrow> active_at (s\<lparr>sq_podBackoffQ := h, sq_activeQ := a\<rparr>) y = (if y = ?x then Some i else active_at s y)"
    using active_Add_ok [OF parts1 k(2)] by auto
  have "backoff_at (s\<lparr>sq_podBackoffQ := h\<rparr>) y = (if y = ?x then None else backoff_at s y)" if "id_ok y" for y
    using key_of_eq [OF that k(2)] by (simp add: backoff_at_def h(5) k(1))
  then have "moved s ?x (Some i, None, None) (s\<lparr>sq_podBackoffQ := h, sq_activeQ := a\<rparr>)"
    by (intro placed [OF a(2) _ refl]) (use a(3) one_place(2) [OF assms(1) k(2) b] in \<open>auto simp: place_def\<close>)
  moreover have "getBackoffTime s i \<le> getBackoffTime s j" if "backoff_at s y = Some j" for y j
    using h(6) that by (auto simp: backoff_at_def podsCompareBackoffCompleted_def not_less)
  ultimately show ?thesis using h(1,2) k(2) b a(1) by (intro exI [of _ i] exI [of _ h]) auto
qed

lemma flush_unfold_empty:
  assumes "h_queue (sq_podBackoffQ s) = []"
  shows "sq_flushBackoffQCompleted now s = Some (Inr s)"
  using assms by (subst sq_flushBackoffQCompleted.simps) (simp add: hp_Peek_def)

lemma backoff_none: "parts_ok s \<Longrightarrow> h_queue (sq_podBackoffQ s) = [] \<Longrightarrow> backoff_at s y = None"
  using obj_of_empty [of "sq_podBackoffQ s"] unfolding parts_ok_def heap_ok_def backoff_at_def by auto

definition backoff_ids :: "sched_queue \<Rightarrow> pod_id set" where
  "backoff_ids s = {y. id_ok y \<and> backoff_at s y \<noteq> None}"

lemma finite_backoff_ids: "parts_ok s \<Longrightarrow> finite (backoff_ids s)"
proof -
  assume parts: "parts_ok s"
  have "key_of ` backoff_ids s \<subseteq> set (map fst (h_items (sq_podBackoffQ s)))"
    by (auto simp: backoff_ids_def backoff_at_def obj_of_def dest!: map_of_SomeD)
      (metis fst_conv image_eqI map_of_SomeD)
  then have "finite (key_of ` backoff_ids s)" by (rule finite_subset) simp
  moreover have "inj_on key_of (backoff_ids s)" by (auto simp: inj_on_def backoff_ids_def key_of_eq)
  ultimately show ?thesis by (rule finite_imageD)
qed

lemma moved_active: "moved s x v s' \<Longrightarrow> id_ok y \<Longrightarrow> active_at s' y = (if y = x then fst v else active_at s y)"
  unfolding moved_def place_def by (metis fst_conv)

lemma replaced_none: "parts_ok s \<Longrightarrow> (\<And>y. id_ok y \<Longrightarrow> f y = None) \<Longrightarrow> replaced s f s"
  by (simp add: replaced_def)

lemma flush_replaced:
  assumes "queue_ok s"
  shows "\<exists>s'. sq_flushBackoffQCompleted now s = Some (Inr s') \<and> replaced s (flushed now s) s'"
  using assms
proof (induction "card (backoff_ids s)" arbitrary: s rule: less_induct)
  case less
  have parts: "parts_ok s" using less.prems by (simp add: queue_ok_def)
  show ?case
  proof (cases "h_queue (sq_podBackoffQ s) = []")
    case True
    then show ?thesis using flush_unfold_empty backoff_none [OF parts] parts
      by (intro exI [of _ s]) (auto simp: replaced_def flushed_def)
  next
    case False
    obtain i h where i: "hp_PopMin (podsCompareBackoffCompleted s) (sq_podBackoffQ s) = Inr (Some i, h)"
      "hp_Peek (sq_podBackoffQ s) = Inr (Some i)" "id_ok (pod_id (pi_Pod i))" "backoff_at s (pod_id (pi_Pod i)) = Some i"
      "moved s (pod_id (pi_Pod i)) (Some i, None, None) (snd (active_Add i (s\<lparr>sq_podBackoffQ := h\<rparr>)))"
      "\<And>y j. backoff_at s y = Some j \<Longrightarrow> getBackoffTime s i \<le> getBackoffTime s j"
      using flush_step [OF less.prems False] by blast
    let ?x = "pod_id (pi_Pod i)" and ?s1 = "snd (active_Add i (s\<lparr>sq_podBackoffQ := h\<rparr>))"
    show ?thesis
    proof (cases "now < getBackoffTime s i")
      case True
      then have "flushed now s y = None" for y using i(6) [of y] by (force simp: flushed_def split: option.splits)
      moreover have "sq_flushBackoffQCompleted now s = Some (Inr s)"
        using True i(2) by (subst sq_flushBackoffQCompleted.simps) simp
      ultimately show ?thesis using parts replaced_none by blast
    next
      case False
      have ok1: "queue_ok ?s1" using moved_ok [OF less.prems i(5) _ i(3)] by simp
      have p1: "place ?s1 y = (if y = ?x then (Some i, None, None) else place s y)" if "id_ok y" for y
        using i(5) that unfolding moved_def by blast
      then have b1: "backoff_at ?s1 y = (if y = ?x then None else backoff_at s y)" if "id_ok y" for y
        using p1 [OF that] by (auto simp: place_def split: if_splits)
      then have ids: "backoff_ids ?s1 = backoff_ids s - {?x}" by (auto simp: backoff_ids_def split: if_splits)
      have "?x \<in> backoff_ids s" using i(3,4) by (simp add: backoff_ids_def)
      then have "card (backoff_ids ?s1) < card (backoff_ids s)"
        unfolding ids using finite_backoff_ids [OF parts] by (rule card_Diff1_less [rotated])
      then obtain s' where s': "sq_flushBackoffQCompleted now ?s1 = Some (Inr s')" "replaced ?s1 (flushed now ?s1) s'"
        using less.hyps ok1 by blast
      have bt: "getBackoffTime ?s1 = getBackoffTime s" using i(5) by (simp add: moved_def)
      have "sq_flushBackoffQCompleted now s = Some (Inr s')"
        using False i(1,2) s'(1) by (subst sq_flushBackoffQCompleted.simps) simp
      moreover have "place s' y = (case flushed now s y of None \<Rightarrow> place s y | Some v \<Rightarrow> v)" if "id_ok y" for y
        using s'(2) p1 [OF that] b1 [OF that] bt i(4) False that unfolding replaced_def flushed_def
        by (cases "y = ?x") (auto split: option.splits)
      ultimately show ?thesis using s'(2) bt by (auto simp: replaced_def)
    qed
  qed
qed

lemma flushed_pending: "queue_ok s \<Longrightarrow> id_ok y \<Longrightarrow> flushed now s y = Some v \<Longrightarrow> single v \<and> v \<noteq> (None, None, None) \<and> y \<in> pending s"
  by (auto simp: flushed_def pending_def split: option.splits if_splits)

lemma flush_ok:
  assumes "queue_ok s"
  shows "\<exists>s'. sq_flushBackoffQCompleted now s = Some (Inr s') \<and> replaced s (flushed now s) s' \<and> queue_ok s' \<and> pending s' = pending s"
proof -
  obtain s' where s': "sq_flushBackoffQCompleted now s = Some (Inr s')" "replaced s (flushed now s) s'"
    using flush_replaced [OF assms] by blast
  have "queue_ok s' \<and> pending s' = pending s" by (rule replaced_ok [OF assms s'(2) flushed_pending [OF assms]])
  then show ?thesis using s' by blast
qed

subsection \<open>Moves out of \<open>unschedulableQ\<close>\<close>

lemma distinct_map_filter': "distinct (map f xs) \<Longrightarrow> distinct (map f (filter P xs))"
  by (induction xs) auto

lemma find_distinct: "x \<in> set xs \<Longrightarrow> distinct (map f xs) \<Longrightarrow> find (\<lambda>y. f y = f x) xs = Some x"
  by (induction xs) auto

lemma filter_moves:
  assumes "queue_ok s"
  shows "queue_ok (sq_movePods now (filter P (map snd (sq_unschedulableQ s))) s)"
    "pending (sq_movePods now (filter P (map snd (sq_unschedulableQ s))) s) = pending s"
    "replaced s (retried now s (filter P (map snd (sq_unschedulableQ s)))) (sq_movePods now (filter P (map snd (sq_unschedulableQ s))) s)"
  using movePods_ok [OF assms _ distinct_map_filter' [OF unsched_ids [OF assms]], of P now] by (auto simp only: set_filter)

lemma leftover_ok:
  assumes "queue_ok s"
  shows "queue_ok (sq_flushUnschedulableQLeftover now s)" "pending (sq_flushUnschedulableQLeftover now s) = pending s"
  using filter_moves [OF assms] assms by (simp_all add: sq_flushUnschedulableQLeftover_def Let_def)

lemma MoveAll_ok:
  assumes "queue_ok s"
  shows "queue_ok (sq_MoveAll now s)" "pending (sq_MoveAll now s) = pending s"
proof -
  have "queue_ok (s'\<lparr>sq_moveRequestCycle := c\<rparr>) = queue_ok s'" "pending (s'\<lparr>sq_moveRequestCycle := c\<rparr>) = pending s'" for s' c
    by (simp_all add: queue_ok_def one_part_def pending_def)
  then show "queue_ok (sq_MoveAll now s)" "pending (sq_MoveAll now s) = pending s"
    using filter_moves(1,2) [OF assms, of now "\<lambda>_. True"] unfolding sq_MoveAll_def Let_def filter_True by simp_all
qed

lemma matches_term_panic: "matches_term up p ts = Inl x \<Longrightarrow> x = NilDereference"
  by (induction ts) (auto simp: PodMatchesTermsNamespaceAndSelector_def split: sum.splits bool.splits if_splits option.splits)

definition wants :: "pod \<Rightarrow> pod_info \<Rightarrow> bool" where
  "wants p i \<longleftrightarrow> p_PodAffinity (pi_Pod i) \<and> matches_term (pi_Pod i) p (p_AffinityTerms (pi_Pod i)) = Inr True"

lemma matching_infos_filter:
  "matching_infos p is = Inr js \<Longrightarrow> js = filter (wants p) is"
  by (induction "is" arbitrary: js) (auto simp: wants_def Let_def split: sum.splits if_splits)

lemma matching_infos_panic: "matching_infos p is = Inl x \<Longrightarrow> x = NilDereference"
  by (induction "is") (auto simp: Let_def matches_term_panic split: sum.splits if_splits)

lemma AssignedPod_ok:
  assumes "queue_ok s"
  shows "sq_AssignedPodAdded now p s = Inl NilDereference \<or>
    (\<exists>s'. sq_AssignedPodAdded now p s = Inr s' \<and> queue_ok s' \<and> pending s' = pending s)"
proof (cases "matching_infos p (map snd (sq_unschedulableQ s))")
  case (Inl x)
  then show ?thesis using matching_infos_panic
    by (simp add: sq_AssignedPodAdded_def getUnschedulablePodsWithMatchingAffinityTerm_def)
next
  case (Inr js)
  then show ?thesis using filter_moves(1,2) [OF assms, of now "wants p"] matching_infos_filter [OF Inr]
    by (simp add: sq_AssignedPodAdded_def getUnschedulablePodsWithMatchingAffinityTerm_def)
qed

subsection \<open>All operations\<close>

datatype queue_op =
    QAdd pod
  | QAddUnschedulable pod_info int
  | QPop
  | QUpdate pod pod
  | QDelete pod
  | QFlushBackoff
  | QFlushUnschedulable
  | QMoveAll
  | QAssignedAdded pod
  | QAssignedUpdated pod
  | QUpdateNominated pod string
  | QDeleteNominated pod
  | QClose

text \<open>How an operation ends: \<open>Pop\<close> blocks on an empty queue until another operation wakes it.\<close>

datatype op_outcome = OpPanics go_panic | OpBlocks | OpReturns sched_queue

fun outcome :: "go_panic + sched_queue \<Rightarrow> op_outcome" where
  "outcome (Inl x) = OpPanics x"
| "outcome (Inr s) = OpReturns s"

fun pop_outcome :: "go_panic + pop_result \<times> sched_queue \<Rightarrow> op_outcome" where
  "pop_outcome (Inl x) = OpPanics x"
| "pop_outcome (Inr (PopBlocks, s)) = OpBlocks"
| "pop_outcome (Inr (_, s)) = OpReturns s"

text \<open>\<open>None\<close> is an operation that runs forever.  Every caller of \<open>Update\<close> passes the old pod.\<close>

fun run_qop :: "int \<Rightarrow> queue_op \<Rightarrow> sched_queue \<Rightarrow> op_outcome option" where
  "run_qop now (QAdd p) s = Some (OpReturns (snd (sq_Add now p s)))"
| "run_qop now (QAddUnschedulable i c) s = Some (OpReturns (snd (sq_AddUnschedulableIfNotPresent now i c s)))"
| "run_qop now QPop s = Some (pop_outcome (sq_Pop s))"
| "run_qop now (QUpdate old new) s = Some (outcome (map_sum id snd (sq_Update now (Some old) new s)))"
| "run_qop now (QDelete p) s = Some (OpReturns (sq_Delete p s))"
| "run_qop now QFlushBackoff s = map_option outcome (sq_flushBackoffQCompleted now s)"
| "run_qop now QFlushUnschedulable s = Some (OpReturns (sq_flushUnschedulableQLeftover now s))"
| "run_qop now QMoveAll s = Some (OpReturns (sq_MoveAll now s))"
| "run_qop now (QAssignedAdded p) s = Some (outcome (sq_AssignedPodAdded now p s))"
| "run_qop now (QAssignedUpdated p) s = Some (outcome (sq_AssignedPodUpdated now p s))"
| "run_qop now (QUpdateNominated p node) s = Some (OpReturns (sq_UpdateNominatedPodForNode p node s))"
| "run_qop now (QDeleteNominated p) s = Some (OpReturns (sq_DeleteNominatedPodIfExists p s))"
| "run_qop now QClose s = Some (outcome (sq_Close s))"

text \<open>The pods have valid names, and an update keeps the name.\<close>

fun qop_ok :: "queue_op \<Rightarrow> bool" where
  "qop_ok (QAdd p) = id_ok (pod_id p)"
| "qop_ok (QAddUnschedulable i c) = id_ok (pod_id (pi_Pod i))"
| "qop_ok (QUpdate old new) = (pod_id old = pod_id new \<and> id_ok (pod_id new))"
| "qop_ok (QDelete p) = id_ok (pod_id p)"
| "qop_ok _ = True"

text \<open>The effect of an operation on the set of pending pods.\<close>

fun pending_step :: "queue_op \<Rightarrow> pod_id set \<Rightarrow> pod_id set \<Rightarrow> bool" where
  "pending_step (QAdd p) X Y = (Y = insert (pod_id p) X)"
| "pending_step (QAddUnschedulable i c) X Y = (Y = insert (pod_id (pi_Pod i)) X)"
| "pending_step QPop X Y = (Y = X \<or> (\<exists>x \<in> X. Y = X - {x}))"
| "pending_step (QUpdate old new) X Y = (Y = insert (pod_id new) X)"
| "pending_step (QDelete p) X Y = (Y = X - {pod_id p})"
| "pending_step _ X Y = (Y = X)"

text \<open>
  When an operation panics: an assigned pod is matched with a waiting pod's affinity term whose selector is
  invalid, or the queue is closed again.
\<close>

definition invalid_term :: "pod \<Rightarrow> pod_info \<Rightarrow> bool" where
  "invalid_term p i \<longleftrightarrow> p_PodAffinity (pi_Pod i) \<and> matches_term (pi_Pod i) p (p_AffinityTerms (pi_Pod i)) = Inl NilDereference"

fun op_panic :: "queue_op \<Rightarrow> sched_queue \<Rightarrow> go_panic option" where
  "op_panic (QAssignedAdded p) s =
     (if list_ex (invalid_term p) (map snd (sq_unschedulableQ s)) then Some NilDereference else None)"
| "op_panic (QAssignedUpdated p) s =
     (if list_ex (invalid_term p) (map snd (sq_unschedulableQ s)) then Some NilDereference else None)"
| "op_panic QClose s = (if sq_closed s then Some (ExplicitPanic ''close of closed channel'') else None)"
| "op_panic _ s = None"

fun op_blocks :: "queue_op \<Rightarrow> sched_queue \<Rightarrow> bool" where
  "op_blocks QPop s = (hp_Length (sq_activeQ s) = 0 \<and> \<not> sq_closed s)"
| "op_blocks _ s = False"

lemma matching_infos_panics: "matching_infos p is = Inl NilDereference \<longleftrightarrow> list_ex (invalid_term p) is"
proof (induction "is")
  case (Cons i "is")
  show ?case
  proof (cases "if p_PodAffinity (pi_Pod i) then matches_term (pi_Pod i) p (p_AffinityTerms (pi_Pod i)) else Inr False")
    case (Inl x)
    then show ?thesis using matches_term_panic by (auto simp: Let_def invalid_term_def split: if_splits)
  next
    case (Inr b)
    then show ?thesis using Cons by (auto simp: Let_def invalid_term_def split: if_splits sum.splits)
  qed
qed simp

lemma frame_ok [simp]:
  "queue_ok (s\<lparr>sq_nominatedPods := m\<rparr>) = queue_ok s" "pending (s\<lparr>sq_nominatedPods := m\<rparr>) = pending s"
  "queue_ok (s\<lparr>sq_closed := b\<rparr>) = queue_ok s" "pending (s\<lparr>sq_closed := b\<rparr>) = pending s"
  by (simp_all add: queue_ok_def one_part_def pending_def)

lemma New_ok: "queue_ok (NewPriorityQueue initial mx)" "pending (NewPriorityQueue initial mx) = {}"
proof -
  let ?s = "NewPriorityQueue initial mx"
  have none: "active_at ?s = Map.empty" "backoff_at ?s = Map.empty" "unsched_at ?s = Map.empty"
    by (simp_all add: fun_eq_iff active_at_def backoff_at_def unsched_at_def NewPriorityQueue_def prio.h_New_ok(2))
  then show "pending ?s = {}" by (simp add: pending_def)
  have "parts_ok ?s" unfolding parts_ok_def by (simp add: NewPriorityQueue_def prio.h_New_ok backoff.h_New_ok)
  then show "queue_ok ?s" using none by (simp add: queue_ok_def one_part_def)
qed

lemma active_empty: "queue_ok s \<Longrightarrow> h_queue (sq_activeQ s) = [] \<Longrightarrow> active_at s = Map.empty"
  using obj_of_empty [of "sq_activeQ s"] unfolding queue_ok_def parts_ok_def heap_ok_def by (auto simp: active_at_def fun_eq_iff)

lemma Pop_ok:
  assumes "queue_ok s" "h_queue (sq_activeQ s) \<noteq> []"
  shows "\<exists>i s'. sq_Pop s = Inr (Popped (i\<lparr>pi_Attempts := wrap64 (pi_Attempts i + 1)\<rparr>), s') \<and> queue_ok s' \<and>
    active_at s (pod_id (pi_Pod i)) = Some i \<and> id_ok (pod_id (pi_Pod i)) \<and> pod_id (pi_Pod i) \<in> pending s \<and>
    pending s' = pending s - {pod_id (pi_Pod i)}"
proof -
  obtain i s' where i: "sq_Pop s = Inr (Popped (i\<lparr>pi_Attempts := wrap64 (pi_Attempts i + 1)\<rparr>), s')" "id_ok (pod_id (pi_Pod i))"
    "active_at s (pod_id (pi_Pod i)) = Some i" "moved s (pod_id (pi_Pod i)) (None, None, None) s'"
    using Pop_moved [OF assms] by blast
  then have "queue_ok s' \<and> pending s' = pending s - {pod_id (pi_Pod i)}" using moved_ok [OF assms(1) i(4)] by simp
  moreover have "pod_id (pi_Pod i) \<in> pending s" using i(2,3) by (simp add: pending_def)
  ultimately show ?thesis using i by blast
qed

text \<open>Every operation keeps the parts of the queue consistent and does what its specification says.\<close>

lemma AssignedPod_outcome:
  assumes "queue_ok s"
  shows "case op_panic (QAssignedAdded p) s of
      Some x \<Rightarrow> sq_AssignedPodAdded now p s = Inl x
    | None \<Rightarrow> \<exists>s'. sq_AssignedPodAdded now p s = Inr s' \<and> queue_ok s' \<and> pending s' = pending s"
proof (cases "list_ex (invalid_term p) (map snd (sq_unschedulableQ s))")
  case True
  then show ?thesis using matching_infos_panics [of p "map snd (sq_unschedulableQ s)"]
    by (simp add: sq_AssignedPodAdded_def getUnschedulablePodsWithMatchingAffinityTerm_def)
next
  case False
  then have "sq_AssignedPodAdded now p s \<noteq> Inl NilDereference" using matching_infos_panics [of p "map snd (sq_unschedulableQ s)"]
    by (auto simp: sq_AssignedPodAdded_def getUnschedulablePodsWithMatchingAffinityTerm_def split: sum.splits)
  with False AssignedPod_ok [OF assms, of now p] show ?thesis by simp
qed

lemma step_ok:
  assumes "queue_ok s" "qop_ok op"
  shows "case op_panic op s of
      Some x \<Rightarrow> run_qop now op s = Some (OpPanics x)
    | None \<Rightarrow>
        if op_blocks op s then run_qop now op s = Some OpBlocks
        else \<exists>s'. run_qop now op s = Some (OpReturns s') \<and> queue_ok s' \<and> pending_step op (pending s) (pending s')"
proof (cases op)
  case (QAdd p)
  then show ?thesis using Add_moved [of s p now] moved_ok [OF assms(1)] assms by (fastforce simp: queue_ok_def)
next
  case (QAddUnschedulable i c)
  then show ?thesis using AddUnschedulable_moved [OF assms(1), of i now c] queued_ok [OF assms(1)] assms
    by (auto simp: insert_absorb)
next
  case QPop
  show ?thesis
  proof (cases "h_queue (sq_activeQ s) = []")
    case True
    then show ?thesis using QPop assms(1) by (auto simp: sq_Pop_def hp_Length_def)
  next
    case False
    then show ?thesis using Pop_ok [OF assms(1) False] QPop by (auto simp: hp_Length_def)
  qed
next
  case (QUpdate old new)
  then show ?thesis using Update_moved [OF assms(1), of new old now] queued_ok [OF assms(1)] assms(2) by fastforce
next
  case (QDelete p)
  then show ?thesis using moved_ok [OF assms(1) Delete_moved [OF assms(1)]] assms(2) by simp
next
  case QFlushBackoff
  then show ?thesis using flush_ok [OF assms(1), of now] by auto
next
  case (QAssignedAdded p)
  then show ?thesis using AssignedPod_outcome [OF assms(1), of now p] by (auto split: if_splits)
next
  case (QAssignedUpdated p)
  moreover have "sq_AssignedPodUpdated now p s = sq_AssignedPodAdded now p s"
    by (simp add: sq_AssignedPodAdded_def sq_AssignedPodUpdated_def)
  ultimately show ?thesis using AssignedPod_outcome [OF assms(1), of now p] by (auto split: if_splits)
qed (use assms leftover_ok MoveAll_ok in \<open>simp_all add: sq_UpdateNominatedPodForNode_def sq_DeleteNominatedPodIfExists_def sq_Close_def nominate_def\<close>)

inductive queue_reach :: "sched_queue \<Rightarrow> bool" where
  new: "queue_reach (NewPriorityQueue initial mx)"
| step: "queue_reach s \<Longrightarrow> qop_ok op \<Longrightarrow> run_qop now op s = Some (OpReturns s') \<Longrightarrow> queue_reach s'"

lemma reach_ok: "queue_reach s \<Longrightarrow> queue_ok s"
proof (induction rule: queue_reach.induct)
  case (new initial mx)
  show ?case by (rule New_ok(1))
next
  case (step s op now s')
  show ?case using step_ok [OF step.IH step.hyps(2), of now] step.hyps(3)
    by (auto split: option.splits if_splits)
qed

subsection \<open>The order of the pods\<close>

lemma hp_List_at: "h_ok h \<Longrightarrow> a \<in> set (hp_List h) \<longleftrightarrow> (\<exists>k. obj_of h k = Some a)"
proof -
  assume "h_ok h"
  then have d: "distinct (map fst (h_items h))" by (simp add: h_ok_def)
  have "a \<in> set (hp_List h) \<longleftrightarrow> (\<exists>k i. (k, a, i) \<in> set (h_items h))" by (force simp: hp_List_def)
  also have "\<dots> \<longleftrightarrow> (\<exists>k i. map_of (h_items h) k = Some (a, i))" using map_of_eq_Some_iff [OF d] by (simp del: map_of_eq_Some_iff)
  also have "\<dots> \<longleftrightarrow> (\<exists>k. obj_of h k = Some a)" by (simp add: obj_of_def)
  finally show ?thesis .
qed

lemma active_List:
  assumes "queue_ok s"
  shows "j \<in> set (hp_List (sq_activeQ s)) \<longleftrightarrow> id_ok (pod_id (pi_Pod j)) \<and> active_at s (pod_id (pi_Pod j)) = Some j"
proof -
  have parts: "parts_ok s" using assms by (simp add: queue_ok_def)
  then have ok: "h_ok (sq_activeQ s)" unfolding parts_ok_def heap_ok_def by blast
  show ?thesis unfolding hp_List_at [OF ok] active_at_def using part_keyed(1) [OF parts] by blast
qed

definition active_ids :: "sched_queue \<Rightarrow> pod_id set" where
  "active_ids s = {y. id_ok y \<and> active_at s y \<noteq> None}"

lemma active_card:
  assumes "queue_ok s"
  shows "hp_Length (sq_activeQ s) = card (active_ids s)" "finite (active_ids s)"
proof -
  have parts: "parts_ok s" using assms by (simp add: queue_ok_def)
  then have ok: "h_ok (sq_activeQ s)" unfolding parts_ok_def heap_ok_def by blast
  have inj: "inj_on key_of (active_ids s)" by (auto simp: inj_on_def active_ids_def key_of_eq)
  have "k \<in> key_of ` active_ids s" if "k \<in> set (h_queue (sq_activeQ s))" for k
  proof -
    have "obj_of (sq_activeQ s) k \<noteq> None" unfolding obj_of_dom [OF ok] using that by simp
    then obtain i where "obj_of (sq_activeQ s) k = Some i" by auto
    then show ?thesis using part_keyed(1) [OF parts] by (force simp: active_ids_def active_at_def)
  qed
  moreover have "key_of ` active_ids s \<subseteq> set (h_queue (sq_activeQ s))"
    using obj_of_dom [OF ok] by (auto simp: active_ids_def active_at_def simp del: not_None_eq)
  ultimately have keys: "key_of ` active_ids s = set (h_queue (sq_activeQ s))" by blast
  show "finite (active_ids s)" by (rule finite_imageD [OF _ inj]) (simp add: keys)
  have "card (active_ids s) = card (set (h_queue (sq_activeQ s)))" using card_image [OF inj] keys by simp
  then show "hp_Length (sq_activeQ s) = card (active_ids s)"
    using ok by (simp add: hp_Length_def h_ok_def distinct_card)
qed

text \<open>As many pops as there are active pods, without other operations between them.\<close>

fun sq_pops :: "nat \<Rightarrow> sched_queue \<Rightarrow> pod_info list \<times> sched_queue" where
  "sq_pops 0 s = ([], s)"
| "sq_pops (Suc n) s =
     (case sq_Pop s of
        Inr (Popped i, s1) \<Rightarrow> (case sq_pops n s1 of (is, s2) \<Rightarrow> (i # is, s2))
      | _ \<Rightarrow> ([], s))"

definition attempted :: "pod_info \<Rightarrow> pod_info" where
  "attempted i = i\<lparr>pi_Attempts := wrap64 (pi_Attempts i + 1)\<rparr>"

lemma attempted_simps [simp]: "pi_Pod (attempted i) = pi_Pod i" "PrioritySort_Less (attempted i) = PrioritySort_Less i"
  "PrioritySort_Less i (attempted j) = PrioritySort_Less i j"
  by (simp_all add: attempted_def PrioritySort_Less_def fun_eq_iff)

lemma pops_ok:
  assumes "queue_ok s" "n = card (active_ids s)"
  shows "\<exists>is s'. sq_pops n s = (map attempted is, s') \<and> active_ids s' = {} \<and> sorted_wrt (\<lambda>i j. \<not> PrioritySort_Less j i) is \<and>
    (\<forall>i. i \<in> set is \<longleftrightarrow> id_ok (pod_id (pi_Pod i)) \<and> active_at s (pod_id (pi_Pod i)) = Some i)"
  using assms
proof (induction n arbitrary: s)
  case 0
  then have "active_ids s = {}" using active_card(2) by simp
  then show ?case by (auto simp: active_ids_def)
next
  case (Suc n)
  then have "h_queue (sq_activeQ s) \<noteq> []" using active_card(1) [OF Suc.prems(1)] by (auto simp: hp_Length_def)
  then obtain i s1 where i: "sq_Pop s = Inr (Popped (attempted i), s1)" "id_ok (pod_id (pi_Pod i))"
    "active_at s (pod_id (pi_Pod i)) = Some i" "moved s (pod_id (pi_Pod i)) (None, None, None) s1"
    "\<And>y j. active_at s y = Some j \<Longrightarrow> \<not> PrioritySort_Less j i"
    using Pop_moved [OF Suc.prems(1)] unfolding attempted_def by blast
  let ?x = "pod_id (pi_Pod i)"
  have "queue_ok s1" using moved_ok [OF Suc.prems(1) i(4) _ i(2)] by simp
  moreover have a1: "active_at s1 y = (if y = ?x then None else active_at s y)" if "id_ok y" for y
    using moved_active [OF i(4) that] by simp
  then have ids: "active_ids s1 = active_ids s - {?x}" by (auto simp: active_ids_def split: if_splits)
  moreover have "?x \<in> active_ids s" using i(2,3) by (simp add: active_ids_def)
  ultimately have "n = card (active_ids s1)" using Suc.prems(2) active_card(2) [OF Suc.prems(1)] by simp
  then obtain js s2 where js: "sq_pops n s1 = (map attempted js, s2)" "active_ids s2 = {}" "sorted_wrt (\<lambda>i j. \<not> PrioritySort_Less j i) js"
    "\<And>j. j \<in> set js \<longleftrightarrow> id_ok (pod_id (pi_Pod j)) \<and> active_at s1 (pod_id (pi_Pod j)) = Some j"
    using Suc.IH \<open>queue_ok s1\<close> by blast
  have "sorted_wrt (\<lambda>i j. \<not> PrioritySort_Less j i) (i # js)" using js(3,4) i(5) a1 by (auto split: if_splits)
  moreover have "j \<in> set (i # js) \<longleftrightarrow> id_ok (pod_id (pi_Pod j)) \<and> active_at s (pod_id (pi_Pod j)) = Some j" for j
    using js(4) [of j] a1 [of "pod_id (pi_Pod j)"] i(2,3) by (cases "pod_id (pi_Pod j) = ?x") auto
  moreover have "sq_pops (Suc n) s = (map attempted (i # js), s2)" using i(1) js(1) by simp
  ultimately show ?case using js(2) by blast
qed

subsection \<open>Theorems\<close>

text \<open>C38: In every state the queue can reach, an operation on pods with valid names panics, blocks or
  returns exactly as its specification says, and never runs forever.  \<open>AssignedPodAdded\<close> and \<open>AssignedPodUpdated\<close> panic if and
  only if the pod is matched with an affinity term of a waiting pod whose selector is invalid, \<open>Close\<close> if and
  only if the queue is closed already, and nothing else does, \<open>Update\<close> being given the old pod; \<open>Pop\<close>
  blocks if and only if no pod is active and the queue is open.  An operation that returns keeps each pod in exactly one part of the
  queue and changes the set of pending pods as specified.\<close>

theorem queue_operations_refine:
  assumes "queue_reach s" "qop_ok op"
  shows "case op_panic op s of
      Some x \<Rightarrow> run_qop now op s = Some (OpPanics x)
    | None \<Rightarrow>
        if op_blocks op s then run_qop now op s = Some OpBlocks
        else \<exists>s'. run_qop now op s = Some (OpReturns s') \<and> queue_ok s' \<and> pending_step op (pending s) (pending s')"
  by (rule step_ok [OF reach_ok [OF assms(1)] assms(2)])

text \<open>C39: \<open>Pop\<close> on a queue with active pods returns one with the highest priority and, among
  those, the earliest timestamp; the pod leaves the queue and no other does.\<close>

theorem Pop_returns_first:
  assumes "queue_reach s" "hp_Length (sq_activeQ s) \<noteq> 0"
  shows "\<exists>i s'. sq_Pop s = Inr (Popped (attempted i), s') \<and> i \<in> set (hp_List (sq_activeQ s)) \<and>
    pending s' = pending s - {pod_id (pi_Pod i)} \<and>
    (\<forall>j \<in> set (hp_List (sq_activeQ s)).
       p_Priority (pi_Pod j) < p_Priority (pi_Pod i) \<or>
       p_Priority (pi_Pod j) = p_Priority (pi_Pod i) \<and> pi_Timestamp i \<le> pi_Timestamp j)"
proof -
  have ok: "queue_ok s" by (rule reach_ok [OF assms(1)])
  obtain i s' where i: "sq_Pop s = Inr (Popped (attempted i), s')" "id_ok (pod_id (pi_Pod i))"
    "active_at s (pod_id (pi_Pod i)) = Some i" "moved s (pod_id (pi_Pod i)) (None, None, None) s'"
    "\<And>y j. active_at s y = Some j \<Longrightarrow> \<not> PrioritySort_Less j i"
    using Pop_moved [OF ok] assms(2) unfolding attempted_def hp_Length_def by auto
  have "pending s' = pending s - {pod_id (pi_Pod i)}" using moved_ok [OF ok i(4)] i(2) by simp
  then show ?thesis using i(1,2,3) i(5) active_List [OF ok]
    by (intro exI [of _ i] exI [of _ s']) (fastforce simp: PrioritySort_Less_def)
qed

text \<open>C40: A pod that has been in \<open>unschedulableQ\<close> for more than sixty seconds leaves it at the next
  flush; once its back-off is over, the back-off flush has it in \<open>activeQ\<close>, and as many pops as there are active
  pods return it, all in the order of the queue.\<close>

theorem unschedulable_pod_is_retried:
  assumes "queue_reach s" "i \<in> set (map snd (sq_unschedulableQ s))"
    and "unschedulableQTimeInterval < time_sub now (pi_Timestamp i)" "getBackoffTime s i \<le> later"
  shows "\<exists>s1 is s2. sq_flushBackoffQCompleted later (sq_flushUnschedulableQLeftover now s) = Some (Inr s1) \<and>
    sq_pops (hp_Length (sq_activeQ s1)) s1 = (map attempted is, s2) \<and> i \<in> set is \<and>
    sorted_wrt (\<lambda>i j. \<not> PrioritySort_Less j i) is"
proof -
  let ?P = "\<lambda>i. unschedulableQTimeInterval < time_sub now (pi_Timestamp i)"
  let ?is = "filter ?P (map snd (sq_unschedulableQ s))" and ?x = "pod_id (pi_Pod i)"
  define s0 where "s0 = sq_flushUnschedulableQLeftover now s"
  have ok: "queue_ok s" by (rule reach_ok [OF assms(1)])
  have x: "id_ok ?x" "place s ?x = (None, None, Some i)" using unsched_infos [OF ok assms(2)] by auto
  have i: "i \<in> set ?is" using assms(2,3) by simp
  then have s0: "s0 = sq_movePods now ?is s" unfolding s0_def sq_flushUnschedulableQLeftover_def Let_def by (metis empty_iff empty_set)
  have ok0: "queue_ok s0" unfolding s0_def by (rule leftover_ok(1) [OF ok])
  have "find (\<lambda>j. pod_id (pi_Pod j) = ?x) ?is = Some i"
    using i distinct_map_filter' [OF unsched_ids [OF ok], of ?P] by (rule find_distinct)
  then have p0: "place s0 ?x = retry_place now s i" "getBackoffTime s0 = getBackoffTime s"
    using filter_moves(3) [OF ok, of now ?P] x(1) unfolding s0 replaced_def retried_def by simp_all
  obtain s1 where s1: "sq_flushBackoffQCompleted later s0 = Some (Inr s1)" "replaced s0 (flushed later s0) s1" "queue_ok s1"
    using flush_ok [OF ok0] by blast
  have "place s1 ?x = (Some i, None, None)"
    using s1(2) x(1) p0 assms(4) unfolding replaced_def retry_place_def flushed_def by (auto simp: place_def split: if_splits)
  then have a1: "active_at s1 ?x = Some i" by (simp add: place_def)
  obtain "is" s2 where "sq_pops (hp_Length (sq_activeQ s1)) s1 = (map attempted is, s2)" "i \<in> set is"
    "sorted_wrt (\<lambda>i j. \<not> PrioritySort_Less j i) is"
    using pops_ok [OF s1(3) active_card(1) [OF s1(3)]] a1 x(1) by blast
  then show ?thesis using s1(1) unfolding s0_def by blast
qed

subsection \<open>Examples\<close>

definition web_pod :: pod where
  "web_pod = empty_pod\<lparr>p_Name := ''web'', p_Namespace := ''ns''\<rparr>"

definition urgent_pod :: pod where
  "urgent_pod = empty_pod\<lparr>p_Name := ''db'', p_Namespace := ''ns'', p_Priority := 7\<rparr>"

definition new_queue :: sched_queue where
  "new_queue = NewPriorityQueue DefaultPodInitialBackoffDuration DefaultPodMaxBackoffDuration"

lemma new_queue_reach: "queue_reach new_queue"
  unfolding new_queue_def by (rule queue_reach.new)

lemma example_ids: "id_ok (pod_id web_pod)" "id_ok (pod_id urgent_pod)"
  by (simp_all add: id_ok_def pod_id_def web_pod_def urgent_pod_def)

definition closed_queue :: sched_queue where
  "closed_queue = new_queue\<lparr>sq_closed := True\<rparr>"

lemma closed_queue_reach: "queue_reach closed_queue"
  by (rule queue_reach.step [OF new_queue_reach, where op = QClose and now = 0])
     (simp_all add: sq_Close_def closed_queue_def new_queue_def NewPriorityQueue_def)

theorem queue_operations_refine_witness:
  "\<exists>s'. run_qop 5 (QAdd web_pod) new_queue = Some (OpReturns s') \<and> queue_ok s' \<and> pending s' = {PodId ''ns'' ''web''} \<and>
    run_qop 5 QPop new_queue = Some OpBlocks \<and>
    run_qop 5 QClose closed_queue = Some (OpPanics (ExplicitPanic ''close of closed channel''))"
proof -
  have n: "pending new_queue = {}" unfolding new_queue_def by (rule New_ok(2))
  have p: "pod_id web_pod = PodId ''ns'' ''web''" by (simp add: pod_id_def web_pod_def)
  have "hp_Length (sq_activeQ new_queue) = 0" "\<not> sq_closed new_queue" by code_simp+
  then have b: "run_qop 5 QPop new_queue = Some OpBlocks"
    using queue_operations_refine [OF new_queue_reach, where op = QPop and now = 5] by simp
  have c: "run_qop 5 QClose closed_queue = Some (OpPanics (ExplicitPanic ''close of closed channel''))"
    using queue_operations_refine [OF closed_queue_reach, where op = QClose and now = 5] by (simp add: closed_queue_def)
  obtain s' where "run_qop 5 (QAdd web_pod) new_queue = Some (OpReturns s')" "queue_ok s'" "pending s' = {PodId ''ns'' ''web''}"
    using queue_operations_refine [OF new_queue_reach, where op = "QAdd web_pod" and now = 5] example_ids(1) n p
    by (auto simp del: run_qop.simps)
  then show ?thesis using b c by (intro exI [of _ s'] conjI)
qed

definition two_pods :: sched_queue where
  "two_pods = snd (sq_Add 8 urgent_pod (snd (sq_Add 5 web_pod new_queue)))"

lemma two_pods_reach: "queue_reach two_pods"
proof -
  have "queue_reach (snd (sq_Add 5 web_pod new_queue))"
    by (rule queue_reach.step [OF new_queue_reach, where op = "QAdd web_pod" and now = 5]) (simp_all add: example_ids)
  then show ?thesis unfolding two_pods_def
    by (rule queue_reach.step [where op = "QAdd urgent_pod" and now = 8]) (simp_all add: example_ids)
qed

theorem Pop_returns_first_witness:
  "\<exists>i s'. sq_Pop two_pods = Inr (Popped (attempted i), s') \<and> i \<in> set (hp_List (sq_activeQ two_pods))"
proof -
  have "hp_Length (sq_activeQ two_pods) \<noteq> 0" by code_simp
  then show ?thesis using Pop_returns_first [OF two_pods_reach] by blast
qed

definition failed_pod :: sched_queue where
  "failed_pod = snd (sq_AddUnschedulableIfNotPresent 0 (newPodInfo 0 web_pod) 0 new_queue)"

lemma failed_pod_reach: "queue_reach failed_pod"
  unfolding failed_pod_def
  by (rule queue_reach.step [OF new_queue_reach, where op = "QAddUnschedulable (newPodInfo 0 web_pod) 0" and now = 0])
     (simp_all add: example_ids newPodInfo_def)

theorem unschedulable_pod_is_retried_witness:
  "\<exists>s1 is s2. sq_flushBackoffQCompleted 61000000000 (sq_flushUnschedulableQLeftover 61000000000 failed_pod) = Some (Inr s1) \<and>
    sq_pops (hp_Length (sq_activeQ s1)) s1 = (map attempted is, s2) \<and> newPodInfo 0 web_pod \<in> set is"
proof -
  have "newPodInfo 0 web_pod \<in> set (map snd (sq_unschedulableQ failed_pod))" by code_simp
  moreover have "unschedulableQTimeInterval < time_sub 61000000000 (pi_Timestamp (newPodInfo 0 web_pod))" by code_simp
  moreover have "getBackoffTime failed_pod (newPodInfo 0 web_pod) \<le> 61000000000" by code_simp
  ultimately show ?thesis using unschedulable_pod_is_retried [OF failed_pod_reach] by blast
qed

end
