(* ===== verification/CpuSet.thy ===== *)
theory CpuSet
  imports GoStrings
begin

section \<open>Sets of CPU identifiers\<close>

text \<open>
  \<open>CPUSet\<close> of \<open>pkg/kubelet/cm/cpuset/cpuset.go\<close>: a map with empty values is a set of integers, and the
  builder that fills one is the construction of the set.  \<open>ToSlice\<close> sorts; an order the code leaves to the
  map is never observable here.  \<open>String\<close> and \<open>Parse\<close> are the Linux list format, with the theorem that they
  are inverse.
\<close>

subsection \<open>The operations\<close>

definition NewCPUSet :: "int list \<Rightarrow> int set" where
  "NewCPUSet cpus = set cpus"

definition cs_Size :: "int set \<Rightarrow> int" where
  "cs_Size s = int (card s)"

definition cs_IsEmpty :: "int set \<Rightarrow> bool" where
  "cs_IsEmpty s \<longleftrightarrow> cs_Size s = 0"

definition cs_Contains :: "int set \<Rightarrow> int \<Rightarrow> bool" where
  "cs_Contains s c \<longleftrightarrow> c \<in> s"

definition cs_Equals :: "int set \<Rightarrow> int set \<Rightarrow> bool" where
  "cs_Equals s t \<longleftrightarrow> s = t"

definition cs_Filter :: "(int \<Rightarrow> bool) \<Rightarrow> int set \<Rightarrow> int set" where
  "cs_Filter P s = Set.filter P s"

definition cs_FilterNot :: "(int \<Rightarrow> bool) \<Rightarrow> int set \<Rightarrow> int set" where
  "cs_FilterNot P s = Set.filter (\<lambda>c. \<not> P c) s"

definition cs_IsSubsetOf :: "int set \<Rightarrow> int set \<Rightarrow> bool" where
  "cs_IsSubsetOf s t \<longleftrightarrow> (\<forall>c \<in> s. cs_Contains t c)"

definition cs_Union :: "int set \<Rightarrow> int set \<Rightarrow> int set" where
  "cs_Union s t = s \<union> t"

definition cs_UnionAll :: "int set \<Rightarrow> int set list \<Rightarrow> int set" where
  "cs_UnionAll s ts = foldl (\<union>) s ts"

definition cs_Intersection :: "int set \<Rightarrow> int set \<Rightarrow> int set" where
  "cs_Intersection s t = cs_Filter (cs_Contains t) s"

definition cs_Difference :: "int set \<Rightarrow> int set \<Rightarrow> int set" where
  "cs_Difference s t = cs_FilterNot (cs_Contains t) s"

definition cs_ToSlice :: "int set \<Rightarrow> int list" where
  "cs_ToSlice s = sorted_list_of_set s"

named_theorems cpu_sets \<open>the operations as operations on sets\<close>

lemma cpu_set_ops [cpu_sets]:
  "NewCPUSet xs = set xs" "cs_Contains s c \<longleftrightarrow> c \<in> s" "cs_Equals s t \<longleftrightarrow> s = t" "cs_Filter P s = {c \<in> s. P c}"
  "cs_FilterNot P s = {c \<in> s. \<not> P c}" "cs_IsSubsetOf s t \<longleftrightarrow> s \<subseteq> t" "cs_Union s t = s \<union> t"
  "cs_Intersection s t = s \<inter> t" "cs_Difference s t = s - t"
  by (auto simp: NewCPUSet_def cs_Contains_def cs_Equals_def cs_Filter_def cs_FilterNot_def cs_IsSubsetOf_def cs_Union_def
      cs_Intersection_def cs_Difference_def)

lemma UnionAll_sets [cpu_sets]: "cs_UnionAll s ts = s \<union> \<Union> (set ts)"
  unfolding cs_UnionAll_def by (induction ts arbitrary: s) auto

lemma IsEmpty_iff [cpu_sets]: "finite s \<Longrightarrow> cs_IsEmpty s \<longleftrightarrow> s = {}"
  by (simp add: cs_IsEmpty_def cs_Size_def)

lemma ToSlice_set [simp]: "finite s \<Longrightarrow> set (cs_ToSlice s) = s"
  by (simp add: cs_ToSlice_def)

lemma Size_nonneg [simp]: "0 \<le> cs_Size s"
  by (simp add: cs_Size_def)

subsection \<open>The list format\<close>

definition extend_ranges :: "(int \<times> int) list \<Rightarrow> int \<Rightarrow> (int \<times> int) list" where
  "extend_ranges rs e =
     (case last rs of (a, b) \<Rightarrow> if e = wrap64 (b + 1) then butlast rs @ [(a, e)] else rs @ [(e, e)])"

definition cs_ranges :: "int list \<Rightarrow> (int \<times> int) list" where
  "cs_ranges elems = foldl extend_ranges [(hd elems, hd elems)] (tl elems)"

definition range_string :: "int \<times> int \<Rightarrow> string" where
  "range_string r = (case r of (a, b) \<Rightarrow> if a = b then itoa a else itoa a @ ''-'' @ itoa b)"

text \<open>\<open>strings.TrimRight\<close> with a cut set of one byte.\<close>

definition trim_right :: "char \<Rightarrow> string \<Rightarrow> string" where
  "trim_right c s = rev (dropWhile (\<lambda>x. x = c) (rev s))"

definition cs_String :: "int set \<Rightarrow> string" where
  "cs_String s =
     (if cs_IsEmpty s then []
      else trim_right (CHR '','') (concat (map (\<lambda>r. range_string r @ '','') (cs_ranges (cs_ToSlice s)))))"

text \<open>The loop \<open>for e := start; e <= end; e++\<close>: with the largest integer as its end it never ends.\<close>

partial_function (option) add_range :: "int \<Rightarrow> int \<Rightarrow> int set \<Rightarrow> int set option" where
  "add_range e end acc = (if end < e then Some acc else add_range (wrap64 (e + 1)) end (insert e acc))"

fun parse_ranges :: "string list \<Rightarrow> int set \<Rightarrow> (num_error + int set) option" where
  "parse_ranges [] acc = Some (Inr acc)"
| "parse_ranges (r # rs) acc =
     (case split_char (CHR ''-'') r of
        [b0] \<Rightarrow> (case atoi b0 of (_, Some err) \<Rightarrow> Some (Inl err) | (v, None) \<Rightarrow> parse_ranges rs (insert v acc))
      | [b0, b1] \<Rightarrow>
          (case atoi b0 of
             (_, Some err) \<Rightarrow> Some (Inl err)
           | (start, None) \<Rightarrow>
               (case atoi b1 of
                  (_, Some err) \<Rightarrow> Some (Inl err)
                | (end, None) \<Rightarrow>
                    (case add_range start end acc of None \<Rightarrow> None | Some acc' \<Rightarrow> parse_ranges rs acc')))
      | _ \<Rightarrow> parse_ranges rs acc)"

text \<open>\<open>None\<close>: the call does not return.\<close>

definition cs_Parse :: "string \<Rightarrow> (num_error + int set) option" where
  "cs_Parse s = (if s = [] then Some (Inr {}) else parse_ranges (split_char (CHR '','') s) {})"

subsection \<open>Parsing inverts printing\<close>

lemma add_range_interval:
  assumes "in64 e" "in64 end" "end < 9223372036854775807"
  shows "add_range e end acc = Some (acc \<union> {e..end})"
  using assms
proof (induction "nat (end + 1 - e)" arbitrary: e acc)
  case 0
  then show ?case by (subst add_range.simps) auto
next
  case (Suc n)
  then have e: "e \<le> end" by simp
  then have in1: "in64 (e + 1)" using Suc.prems by (simp add: in64_def)
  have "add_range (e + 1) end (insert e acc) = Some (insert e acc \<union> {e + 1..end})"
    by (rule Suc.hyps(1)) (use Suc.hyps(2) Suc.prems in1 in auto)
  moreover have "insert e acc \<union> {e + 1..end} = acc \<union> {e..end}" using e by auto
  ultimately show ?case using e in1 by (subst add_range.simps) simp
qed

lemma add_range_ends:
  assumes "add_range e end acc = Some r"
  shows "end = 9223372036854775807 \<longrightarrow> \<not> in64 e"
proof (rule add_range.raw_induct [OF _ assms, where P = "\<lambda>e end acc r. end = 9223372036854775807 \<longrightarrow> \<not> in64 e"])
  fix f :: "int \<Rightarrow> int \<Rightarrow> int set \<Rightarrow> int set option" and e "end" acc r
  assume hyp: "\<And>e end acc r. f e end acc = Some r \<Longrightarrow> end = 9223372036854775807 \<longrightarrow> \<not> in64 e"
    and body: "(if end < e then Some acc else f (wrap64 (e + 1)) end (insert e acc)) = Some r"
  show "end = 9223372036854775807 \<longrightarrow> \<not> in64 e"
  proof (cases "end < e")
    case True
    then show ?thesis by (simp add: in64_def)
  next
    case False
    then show ?thesis using hyp [of "wrap64 (e + 1)" "end" "insert e acc" r] body by simp
  qed
qed

lemma add_range_diverges: "in64 e \<Longrightarrow> add_range e 9223372036854775807 acc = None"
  using add_range_ends [of e 9223372036854775807 acc] by (cases "add_range e 9223372036854775807 acc") auto

definition ranges_of :: "(int \<times> int) list \<Rightarrow> int set \<Rightarrow> int \<Rightarrow> bool" where
  "ranges_of rs s m \<longleftrightarrow>
     rs \<noteq> [] \<and> snd (last rs) = m \<and> (\<forall>r \<in> set rs. fst r \<le> snd r \<and> fst r \<in> s \<and> snd r \<in> s) \<and> (\<Union>r \<in> set rs. {fst r..snd r}) = s"

lemma extend_ranges_of:
  assumes "ranges_of rs s m" "m < e" "in64 m" "in64 e"
  shows "ranges_of (extend_ranges rs e) (insert e s) e"
proof -
  obtain rs' a b where rs: "rs = rs' @ [(a, b)]" using assms(1) by (cases rs rule: rev_cases) (auto simp: ranges_of_def)
  have m: "b = m" "a \<le> m" using assms(1) rs by (auto simp: ranges_of_def)
  have w: "wrap64 (m + 1) = m + 1" using assms(2-4) by (intro wrap64_id) (auto simp: in64_def)
  show ?thesis
  proof (cases "e = m + 1")
    case True
    then have "{a..e} = insert e {a..m}" using m by auto
    then show ?thesis using assms(1) rs m w True by (auto simp: ranges_of_def extend_ranges_def)
  next
    case False
    then show ?thesis using assms(1) rs m w by (auto simp: ranges_of_def extend_ranges_def)
  qed
qed

lemma foldl_ranges:
  assumes "ranges_of rs s m" "sorted_wrt (<) (m # xs)" "\<forall>x \<in> set (m # xs). in64 x"
  shows "ranges_of (foldl extend_ranges rs xs) (s \<union> set xs) (last (m # xs))"
  using assms
proof (induction xs arbitrary: rs s m)
  case (Cons x xs)
  have "ranges_of (extend_ranges rs x) (insert x s) x" by (rule extend_ranges_of [OF Cons.prems(1)]) (use Cons.prems in auto)
  then show ?case using Cons.IH [of "extend_ranges rs x" "insert x s" x] Cons.prems by auto
qed simp

lemma cs_ranges_of:
  assumes "finite s" "s \<noteq> {}" "\<forall>x \<in> s. in64 x"
  shows "\<exists>m. ranges_of (cs_ranges (cs_ToSlice s)) s m"
proof -
  obtain x xs where xs: "cs_ToSlice s = x # xs" using assms(1,2) by (cases "cs_ToSlice s") (auto simp: cs_ToSlice_def)
  have sorted: "sorted_wrt (<) (x # xs)" unfolding xs [symmetric] cs_ToSlice_def by (rule strict_sorted_list_of_set)
  have set: "set (x # xs) = s" unfolding xs [symmetric] using assms(1) by simp
  have "ranges_of (foldl extend_ranges [(x, x)] xs) ({x} \<union> set xs) (last (x # xs))"
    by (rule foldl_ranges) (use sorted set assms(3) in \<open>auto simp: ranges_of_def\<close>)
  then show ?thesis using set by (auto simp: cs_ranges_def xs)
qed

lemma trim_right_snoc: "xs \<noteq> [] \<Longrightarrow> last xs \<noteq> c \<Longrightarrow> trim_right c (xs @ [c]) = xs"
  by (cases xs rule: rev_cases) (auto simp: trim_right_def)

lemma itoa_digits: "0 \<le> z \<Longrightarrow> c \<in> set (itoa z) \<Longrightarrow> is_digit c"
  by (auto simp: itoa_def dest: nat_digits_is_digit)

lemma itoa_ne [simp]: "itoa z \<noteq> []"
  by (simp add: itoa_def)

lemma not_digit_comma [simp]: "\<not> is_digit CHR '',''"
  by (simp add: is_digit_def)

lemma range_string_plain:
  assumes "0 \<le> fst r" "0 \<le> snd r"
  shows "CHR '','' \<notin> set (range_string r)" "range_string r \<noteq> []"
    "split_char (CHR ''-'') (range_string r) = (if fst r = snd r then [itoa (fst r)] else [itoa (fst r), itoa (snd r)])"
proof -
  have a: "CHR ''-'' \<notin> set (itoa (fst r))" "CHR ''-'' \<notin> set (itoa (snd r))" "CHR '','' \<notin> set (itoa (fst r))" "CHR '','' \<notin> set (itoa (snd r))"
    using itoa_digits [OF assms(1)] itoa_digits [OF assms(2)] not_digit_signs not_digit_comma by blast+
  then show "CHR '','' \<notin> set (range_string r)" "range_string r \<noteq> []" by (auto simp: range_string_def split: prod.split)
  show "split_char (CHR ''-'') (range_string r) = (if fst r = snd r then [itoa (fst r)] else [itoa (fst r), itoa (snd r)])"
    using a by (auto simp: range_string_def split_char_no_sep split_char_append split: prod.split)
qed

lemma concat_commas: "rs \<noteq> [] \<Longrightarrow> concat (map (\<lambda>r. f r @ [c]) rs) = join_str [c] (map f rs) @ [c]"
proof (induction rs)
  case (Cons r rs)
  then show ?case by (cases rs) auto
qed simp

lemma last_join: "xs \<noteq> [] \<Longrightarrow> (\<forall>x \<in> set xs. x \<noteq> []) \<Longrightarrow> last (join_str sep xs) = last (last xs)"
proof (induction xs)
  case (Cons x xs)
  then show ?case by (cases xs) (auto simp: join_str_Nil)
qed simp

lemma parse_ranges_strings:
  assumes "\<forall>r \<in> set rs. 0 \<le> fst r \<and> fst r \<le> snd r \<and> snd r < 9223372036854775807"
  shows "parse_ranges (map range_string rs) acc = Some (Inr (acc \<union> (\<Union>r \<in> set rs. {fst r..snd r})))"
  using assms
proof (induction rs arbitrary: acc)
  case (Cons r rs)
  have r: "0 \<le> fst r" "fst r \<le> snd r" "snd r < 9223372036854775807" using Cons.prems by auto
  then have in64: "in64 (fst r)" "in64 (snd r)" by (auto simp: in64_def)
  have split: "split_char (CHR ''-'') (range_string r) = (if fst r = snd r then [itoa (fst r)] else [itoa (fst r), itoa (snd r)])"
    by (rule range_string_plain(3)) (use r in auto)
  have "parse_ranges (map range_string (r # rs)) acc = parse_ranges (map range_string rs) (acc \<union> {fst r..snd r})"
    using split atoi_itoa in64 add_range_interval [OF in64 r(3)] by (auto simp: insert_commute)
  then show ?case using Cons.IH [of "acc \<union> {fst r..snd r}"] Cons.prems by (simp add: Un_assoc)
qed simp

lemma Parse_String:
  assumes "finite s" "\<forall>c \<in> s. 0 \<le> c \<and> c < 9223372036854775807"
  shows "cs_Parse (cs_String s) = Some (Inr s)"
proof (cases "s = {}")
  case True
  then show ?thesis by (simp add: cs_String_def cs_Parse_def cs_IsEmpty_def cs_Size_def)
next
  case False
  define rs where "rs = cs_ranges (cs_ToSlice s)"
  obtain m where m: "ranges_of rs s m"
    unfolding rs_def using cs_ranges_of [OF assms(1) False] assms(2) by (fastforce simp: in64_def)
  then have rs: "rs \<noteq> []" "(\<Union>r \<in> set rs. {fst r..snd r}) = s"
    "\<forall>r \<in> set rs. 0 \<le> fst r \<and> fst r \<le> snd r \<and> snd r < 9223372036854775807"
    using assms(2) by (auto simp: ranges_of_def)
  have plain: "\<forall>x \<in> set (map range_string rs). CHR '','' \<notin> set x \<and> x \<noteq> []"
  proof
    fix x
    assume "x \<in> set (map range_string rs)"
    then obtain r where r: "r \<in> set rs" "x = range_string r" by auto
    then have "0 \<le> fst r" "fst r \<le> snd r" using rs(3) by auto
    then show "CHR '','' \<notin> set x \<and> x \<noteq> []" using range_string_plain(1,2) [of r] r(2) by simp
  qed
  let ?j = "join_str '','' (map range_string rs)"
  have ne: "?j \<noteq> []" using rs(1) plain join_str_Nil [of "map range_string rs" "'',''"] by blast
  have "last ?j = last (last (map range_string rs))" by (rule last_join) (use rs(1) plain in auto)
  moreover have "last (map range_string rs) \<in> set (map range_string rs)" using rs(1) by (intro last_in_set) simp
  ultimately have "last ?j \<noteq> CHR '',''" using plain last_in_set by metis
  then have "cs_String s = ?j"
    using False assms(1) ne trim_right_snoc concat_commas [OF rs(1), of range_string "CHR '',''"]
    by (simp add: cs_String_def cpu_sets rs_def)
  moreover have "split_char (CHR '','') ?j = map range_string rs" by (rule split_join) (use rs(1) plain in auto)
  ultimately show ?thesis using ne parse_ranges_strings [OF rs(3), of "{}"] rs(2) by (simp add: cs_Parse_def)
qed

end
