(* ===== verification/CpuTopology.thy ===== *)
theory CpuTopology
  imports CpuSet "HOL-Library.AList"
begin

section \<open>The CPU topology of a node and the choice of CPUs\<close>

text \<open>
  \<open>pkg/kubelet/cm/cpumanager/topology/topology.go\<close> and \<open>cpu_assignment.go\<close>.  \<open>CPUDetails\<close> is an association
  list with distinct keys; the sets computed from it do not depend on the order of the map.  The machine
  description is cadvisor's, a record of the fields read here.  \<open>sort.Slice\<close> is an argument: the comparison
  functions of \<open>freeCores\<close> and \<open>freeCPUs\<close> are no orders, so all that can be relied on is that it permutes.
\<close>

subsection \<open>The topology\<close>

record cpu_info =
  ci_NUMANodeID :: int
  ci_SocketID :: int
  ci_CoreID :: int

type_synonym cpu_details = "(int \<times> cpu_info) list"

record cpu_topology =
  tp_NumCPUs :: int
  tp_NumCores :: int
  tp_NumSockets :: int
  tp_CPUDetails :: cpu_details

definition CPUsPerCore :: "cpu_topology \<Rightarrow> int" where
  "CPUsPerCore t = (if tp_NumCores t = 0 then 0 else tp_NumCPUs t sdiv tp_NumCores t)"

definition CPUsPerSocket :: "cpu_topology \<Rightarrow> int" where
  "CPUsPerSocket t = (if tp_NumSockets t = 0 then 0 else tp_NumCPUs t sdiv tp_NumSockets t)"

definition KeepOnly :: "cpu_details \<Rightarrow> int set \<Rightarrow> cpu_details" where
  "KeepOnly d cpus = filter (\<lambda>e. cs_Contains cpus (fst e)) d"

text \<open>The loop over the identifiers and, for each, over the CPUs whose \<open>key\<close> it is.\<close>

definition gather :: "(cpu_info \<Rightarrow> int) \<Rightarrow> (int \<times> cpu_info \<Rightarrow> int) \<Rightarrow> cpu_details \<Rightarrow> int list \<Rightarrow> int set" where
  "gather key val d ids = set (concat (map (\<lambda>id. map val (filter (\<lambda>e. key (snd e) = id) d)) ids))"

definition CPUs :: "cpu_details \<Rightarrow> int set" where
  "CPUs d = set (map fst d)"

definition NUMANodes :: "cpu_details \<Rightarrow> int set" where
  "NUMANodes d = set (map (\<lambda>e. ci_NUMANodeID (snd e)) d)"

definition Sockets :: "cpu_details \<Rightarrow> int set" where
  "Sockets d = set (map (\<lambda>e. ci_SocketID (snd e)) d)"

definition Cores :: "cpu_details \<Rightarrow> int set" where
  "Cores d = set (map (\<lambda>e. ci_CoreID (snd e)) d)"

definition NUMANodesInSockets :: "cpu_details \<Rightarrow> int list \<Rightarrow> int set" where
  "NUMANodesInSockets = gather ci_SocketID (\<lambda>e. ci_NUMANodeID (snd e))"

definition CPUsInSockets :: "cpu_details \<Rightarrow> int list \<Rightarrow> int set" where
  "CPUsInSockets = gather ci_SocketID fst"

definition SocketsInNUMANodes :: "cpu_details \<Rightarrow> int list \<Rightarrow> int set" where
  "SocketsInNUMANodes = gather ci_NUMANodeID (\<lambda>e. ci_SocketID (snd e))"

definition CoresInNUMANodes :: "cpu_details \<Rightarrow> int list \<Rightarrow> int set" where
  "CoresInNUMANodes = gather ci_NUMANodeID (\<lambda>e. ci_CoreID (snd e))"

definition CoresInSockets :: "cpu_details \<Rightarrow> int list \<Rightarrow> int set" where
  "CoresInSockets = gather ci_SocketID (\<lambda>e. ci_CoreID (snd e))"

definition CPUsInNUMANodes :: "cpu_details \<Rightarrow> int list \<Rightarrow> int set" where
  "CPUsInNUMANodes = gather ci_NUMANodeID fst"

definition CPUsInCores :: "cpu_details \<Rightarrow> int list \<Rightarrow> int set" where
  "CPUsInCores = gather ci_CoreID fst"

subsection \<open>Discovery\<close>

record machine_core =
  mc_Id :: int
  mc_Threads :: "int list"

record machine_node =
  mn_Id :: int
  mn_Cores :: "machine_core list"

record machine_info =
  mi_NumCores :: int
  mi_Topology :: "machine_node list"

definition getUniqueCoreID :: "int list \<Rightarrow> int option" where
  "getUniqueCoreID threads =
     (if threads = [] then None
      else if int (length threads) \<noteq> cs_Size (NewCPUSet threads) then None
      else Some (foldl (\<lambda>m t. if t < m then t else m) (hd threads) (tl threads)))"

text \<open>The last NUMA node, in the order of the map, that holds the CPU; zero without one.\<close>

definition numa_node_of :: "(int \<times> int set) list \<Rightarrow> int \<Rightarrow> int" where
  "numa_node_of numa cpu = foldl (\<lambda>n e. if cs_Contains (snd e) cpu then fst e else n) 0 numa"

fun add_cores :: "(int \<times> int set) list \<Rightarrow> int \<Rightarrow> machine_core list \<Rightarrow> cpu_details \<Rightarrow> cpu_details option" where
  "add_cores numa socket [] d = Some d"
| "add_cores numa socket (c # cs) d =
     (case getUniqueCoreID (mc_Threads c) of
        None \<Rightarrow> None
      | Some coreID \<Rightarrow>
          add_cores numa socket cs
            (foldl (\<lambda>d cpu. AList.update cpu \<lparr>ci_NUMANodeID = numa_node_of numa cpu, ci_SocketID = socket, ci_CoreID = coreID\<rparr> d)
              d (mc_Threads c)))"

fun add_sockets :: "(int \<times> int set) list \<Rightarrow> machine_node list \<Rightarrow> cpu_details \<Rightarrow> cpu_details option" where
  "add_sockets numa [] d = Some d"
| "add_sockets numa (n # ns) d =
     (case add_cores numa (mn_Id n) (mn_Cores n) d of None \<Rightarrow> None | Some d' \<Rightarrow> add_sockets numa ns d')"

definition Discover :: "machine_info \<Rightarrow> (int \<times> int set) list \<Rightarrow> cpu_topology option" where
  "Discover m numa =
     (if mi_NumCores m = 0 then None
      else
        (case add_sockets numa (mi_Topology m) [] of
           None \<Rightarrow> None
         | Some d \<Rightarrow>
             Some \<lparr>tp_NumCPUs = mi_NumCores m,
                   tp_NumCores = sum_list (map (\<lambda>n. int (length (mn_Cores n))) (mi_Topology m)),
                   tp_NumSockets = int (length (mi_Topology m)),
                   tp_CPUDetails = d\<rparr>))"

subsection \<open>The accumulator\<close>

record cpu_accumulator =
  ca_topo :: cpu_topology
  ca_details :: cpu_details
  ca_numCPUsNeeded :: int
  ca_result :: "int set"

definition newCPUAccumulator :: "cpu_topology \<Rightarrow> int set \<Rightarrow> int \<Rightarrow> cpu_accumulator" where
  "newCPUAccumulator topo available numCPUs =
     \<lparr>ca_topo = topo, ca_details = KeepOnly (tp_CPUDetails topo) available, ca_numCPUsNeeded = numCPUs, ca_result = NewCPUSet []\<rparr>"

definition ca_take :: "cpu_accumulator \<Rightarrow> int set \<Rightarrow> cpu_accumulator" where
  "ca_take a cpus =
     (let result = cs_Union (ca_result a) cpus in
      a\<lparr>ca_result := result,
        ca_details := KeepOnly (ca_details a) (cs_Difference (CPUs (ca_details a)) result),
        ca_numCPUsNeeded := ca_numCPUsNeeded a - cs_Size cpus\<rparr>)"

definition isSocketFree :: "cpu_accumulator \<Rightarrow> int \<Rightarrow> bool" where
  "isSocketFree a s \<longleftrightarrow> cs_Size (CPUsInSockets (ca_details a) [s]) = CPUsPerSocket (ca_topo a)"

definition isCoreFree :: "cpu_accumulator \<Rightarrow> int \<Rightarrow> bool" where
  "isCoreFree a c \<longleftrightarrow> cs_Size (CPUsInCores (ca_details a) [c]) = CPUsPerCore (ca_topo a)"

definition freeSockets :: "cpu_accumulator \<Rightarrow> int list" where
  "freeSockets a = cs_ToSlice (cs_Filter (isSocketFree a) (Sockets (ca_details a)))"

type_synonym slice_sort = "(int \<Rightarrow> int \<Rightarrow> bool) \<Rightarrow> int list \<Rightarrow> int list"

definition freeCoresInSocket :: "cpu_accumulator \<Rightarrow> int \<Rightarrow> int set" where
  "freeCoresInSocket a s = cs_Filter (isCoreFree a) (CoresInSockets (ca_details a) [s])"

definition freeCores :: "slice_sort \<Rightarrow> cpu_accumulator \<Rightarrow> int list" where
  "freeCores srt a =
     (let socketIDs = srt (\<lambda>si sj. cs_Size (freeCoresInSocket a si) < cs_Size (freeCoresInSocket a sj) \<or> si < sj)
                          (cs_ToSlice (Sockets (ca_details a)))
      in concat (map (\<lambda>s. cs_ToSlice (freeCoresInSocket a s)) socketIDs))"

text \<open>The comparison of \<open>freeCPUs\<close>; every core compared has a CPU in the topology.\<close>

definition core_before :: "cpu_accumulator \<Rightarrow> int \<Rightarrow> int \<Rightarrow> bool" where
  "core_before a iCore jCore =
     (let d = tp_CPUDetails (ca_topo a);
          socket = (\<lambda>core. ci_SocketID (the (map_of d (hd (cs_ToSlice (CPUsInCores d [core]))))));
          coloScore = (\<lambda>s. cs_Size (cs_Intersection (CPUsInSockets d [s]) (ca_result a)));
          socketFreeScore = (\<lambda>s. cs_Size (CPUsInSockets (ca_details a) [s]));
          coreFreeScore = (\<lambda>c. cs_Size (CPUsInCores (ca_details a) [c]))
      in coloScore (socket jCore) < coloScore (socket iCore) \<or>
         socketFreeScore (socket iCore) < socketFreeScore (socket jCore) \<or>
         coreFreeScore iCore < coreFreeScore jCore \<or>
         socket iCore < socket jCore \<or>
         iCore < jCore)"

definition freeCPUs :: "slice_sort \<Rightarrow> cpu_accumulator \<Rightarrow> int list" where
  "freeCPUs srt a =
     concat (map (\<lambda>c. cs_ToSlice (CPUsInCores (ca_details a) [c])) (srt (core_before a) (cs_ToSlice (Cores (ca_details a)))))"

definition needs :: "cpu_accumulator \<Rightarrow> int \<Rightarrow> bool" where
  "needs a n \<longleftrightarrow> n \<le> ca_numCPUsNeeded a"

definition isSatisfied :: "cpu_accumulator \<Rightarrow> bool" where
  "isSatisfied a \<longleftrightarrow> ca_numCPUsNeeded a < 1"

definition isFailed :: "cpu_accumulator \<Rightarrow> bool" where
  "isFailed a \<longleftrightarrow> cs_Size (CPUs (ca_details a)) < ca_numCPUsNeeded a"

text \<open>The loop that claims whole sockets or whole cores: \<open>part\<close> are the CPUs of one, \<open>n\<close> how many it needs to
  have.  It ends when the request is satisfied, when less than one is still needed, or with the list.\<close>

fun claim_whole :: "(cpu_details \<Rightarrow> int \<Rightarrow> int set) \<Rightarrow> int \<Rightarrow> cpu_accumulator \<Rightarrow> int list \<Rightarrow> cpu_accumulator" where
  "claim_whole part n a [] = a"
| "claim_whole part n a (i # is) =
     (let a1 = ca_take a (part (ca_details a) i) in
      if isSatisfied a1 then a1 else if \<not> needs a1 n then a1 else claim_whole part n a1 is)"

fun claim_threads :: "cpu_accumulator \<Rightarrow> int list \<Rightarrow> cpu_accumulator" where
  "claim_threads a [] = a"
| "claim_threads a (c # cs) =
     (let a1 = (if needs a 1 then ca_take a (NewCPUSet [c]) else a) in
      if isSatisfied a1 then a1 else claim_threads a1 cs)"

text \<open>\<open>None\<close> is the error.  After each loop a satisfied accumulator is the returned result.\<close>

definition takeByTopology :: "slice_sort \<Rightarrow> cpu_topology \<Rightarrow> int set \<Rightarrow> int \<Rightarrow> int set option" where
  "takeByTopology srt topo available numCPUs =
     (let a = newCPUAccumulator topo available numCPUs in
      if isSatisfied a then Some (ca_result a)
      else if isFailed a then None
      else
        let a1 = (if needs a (CPUsPerSocket topo)
                  then claim_whole (\<lambda>d s. CPUsInSockets d [s]) (CPUsPerSocket topo) a (freeSockets a) else a)
        in if isSatisfied a1 then Some (ca_result a1)
        else
          let a2 = (if needs a1 (CPUsPerCore topo)
                    then claim_whole (\<lambda>d c. CPUsInCores d [c]) (CPUsPerCore topo) a1 (freeCores srt a1) else a1)
          in if isSatisfied a2 then Some (ca_result a2)
          else
            let a3 = claim_threads a2 (freeCPUs srt a2)
            in if isSatisfied a3 then Some (ca_result a3) else None)"

end
