(* ===== verification/CpuTopologyLaws.thy ===== *)
theory CpuTopologyLaws
  imports CpuTopology "HOL-Library.Multiset"
begin

section \<open>The chosen CPUs\<close>

text \<open>
  \<open>takeByTopology\<close> returns exactly as many CPUs as asked for whenever there are enough, and a whole socket
  where one is free and fits.  The two loops over whole parts of the machine share the interface \<open>cpu_part\<close>.
\<close>

subsection \<open>Selections of CPUs\<close>

lemma KeepOnly_simps [simp]: "CPUs (KeepOnly d s) = CPUs d \<inter> s" "KeepOnly (KeepOnly d s) t = KeepOnly d (s \<inter> t)"
  by (auto simp: CPUs_def KeepOnly_def cpu_sets intro: filter_cong)

lemma CPUs_finite [simp]: "finite (CPUs d)"
  by (simp add: CPUs_def)

lemma CPUs_iff: "c \<in> CPUs d \<longleftrightarrow> (\<exists>b. (c, b) \<in> set d)"
  by (force simp: CPUs_def)

lemma gather_iff: "x \<in> gather key val d ids \<longleftrightarrow> (\<exists>e \<in> set d. key (snd e) \<in> set ids \<and> x = val e)"
  by (auto simp: gather_def)

lemma gather_fst: "x \<in> gather key fst d ids \<longleftrightarrow> (\<exists>b. (x, b) \<in> set d \<and> key b \<in> set ids)"
  unfolding gather_iff by force

lemma gather_finite [simp]: "finite (gather key val d ids)"
  by (simp add: gather_def)

locale cpu_part =
  fixes part :: "cpu_details \<Rightarrow> int \<Rightarrow> int set"
  assumes part_keep: "part (KeepOnly d s) i = part d i \<inter> s"
    and part_sub: "part d i \<subseteq> CPUs d"

interpretation socket: cpu_part "\<lambda>d s. CPUsInSockets d [s]"
  by unfold_locales (auto simp: CPUsInSockets_def gather_fst KeepOnly_def CPUs_iff cpu_sets)

interpretation core: cpu_part "\<lambda>d c. CPUsInCores d [c]"
  by unfold_locales (auto simp: CPUsInCores_def gather_fst KeepOnly_def CPUs_iff cpu_sets)

subsection \<open>The accumulator\<close>

text \<open>The CPUs that were available are taken or left, and what is needed is what was asked for less what is taken.\<close>

definition acc_ok :: "int set \<Rightarrow> int \<Rightarrow> cpu_accumulator \<Rightarrow> bool" where
  "acc_ok A n a \<longleftrightarrow>
     finite A \<and> ca_result a \<union> CPUs (ca_details a) = A \<and> ca_result a \<inter> CPUs (ca_details a) = {} \<and>
     ca_numCPUsNeeded a = n - cs_Size (ca_result a) \<and> 0 \<le> ca_numCPUsNeeded a"

lemma take_ok:
  assumes "acc_ok A n a" "C \<subseteq> CPUs (ca_details a)" "cs_Size C \<le> ca_numCPUsNeeded a"
  shows "acc_ok A n (ca_take a C)" "ca_details (ca_take a C) = KeepOnly (ca_details a) (- C)"
    "ca_result (ca_take a C) = ca_result a \<union> C" "ca_numCPUsNeeded (ca_take a C) = ca_numCPUsNeeded a - cs_Size C"
    "ca_topo (ca_take a C) = ca_topo a"
proof -
  have a: "finite A" "ca_result a \<union> CPUs (ca_details a) = A" "ca_result a \<inter> CPUs (ca_details a) = {}"
    "ca_numCPUsNeeded a = n - cs_Size (ca_result a)" using assms(1) by (auto simp: acc_ok_def)
  have eq: "e \<in> CPUs (ca_details a) - (ca_result a \<union> C) \<longleftrightarrow> e \<in> - C" if "e \<in> CPUs (ca_details a)" for e using a(3) that by auto
  show d: "ca_details (ca_take a C) = KeepOnly (ca_details a) (- C)"
    using eq unfolding ca_take_def Let_def cpu_sets KeepOnly_def by (auto intro!: filter_cong simp: CPUs_def)
  show r: "ca_result (ca_take a C) = ca_result a \<union> C" and m: "ca_numCPUsNeeded (ca_take a C) = ca_numCPUsNeeded a - cs_Size C"
    and "ca_topo (ca_take a C) = ca_topo a"
    by (simp_all add: ca_take_def Let_def cpu_sets)
  have "finite (ca_result a)" "finite C" "ca_result a \<inter> C = {}" using a assms(2) by (auto intro: finite_subset [of _ A])
  then have "cs_Size (ca_result a \<union> C) = cs_Size (ca_result a) + cs_Size C" by (simp add: cs_Size_def card_Un_disjoint)
  then show "acc_ok A n (ca_take a C)" unfolding acc_ok_def d r m using a assms(2,3) by auto
qed

lemma new_ok:
  assumes "0 \<le> n"
  shows "acc_ok (CPUs (tp_CPUDetails topo) \<inter> available) n (newCPUAccumulator topo available n)"
  using assms by (simp add: acc_ok_def newCPUAccumulator_def cpu_sets cs_Size_def)

lemma isFailed_iff: "acc_ok A n a \<Longrightarrow> isFailed a \<longleftrightarrow> int (card A) < n"
proof -
  assume a: "acc_ok A n a"
  then have "card A = card (ca_result a) + card (CPUs (ca_details a))"
    by (metis acc_ok_def card_Un_disjoint finite_Un)
  then show ?thesis using a by (auto simp: isFailed_def acc_ok_def cs_Size_def)
qed

lemma satisfied_ok: "acc_ok A n a \<Longrightarrow> isSatisfied a \<Longrightarrow> ca_result a \<subseteq> A \<and> cs_Size (ca_result a) = n"
  by (auto simp: acc_ok_def isSatisfied_def)

subsection \<open>The loops\<close>

context cpu_part
begin

lemma part_shrinks: "cs_Size (part (KeepOnly d s) i) \<le> cs_Size (part d i)"
proof -
  have "card (part d i \<inter> s) \<le> card (part d i)" by (rule card_mono) (auto intro: finite_subset [OF part_sub CPUs_finite])
  then show ?thesis by (simp add: part_keep cs_Size_def)
qed

lemma claim_whole_ok:
  assumes "acc_ok A m a" "needs a n" "\<forall>i \<in> set is. cs_Size (part (ca_details a) i) \<le> n"
  shows "acc_ok A m (claim_whole part n a is) \<and> ca_topo (claim_whole part n a is) = ca_topo a \<and>
    ca_result a \<subseteq> ca_result (claim_whole part n a is) \<and> (\<exists>s. ca_details (claim_whole part n a is) = KeepOnly (ca_details a) s)"
  using assms
proof (induction "is" arbitrary: a)
  case Nil
  have "ca_details a = KeepOnly (ca_details a) UNIV" by (simp add: KeepOnly_def cpu_sets)
  then have "\<exists>s. ca_details a = KeepOnly (ca_details a) s" by (rule exI)
  then show ?case using Nil by simp
next
  case (Cons i "is")
  let ?C = "part (ca_details a) i"
  have "cs_Size ?C \<le> ca_numCPUsNeeded a" using Cons.prems(2,3) by (auto simp: needs_def)
  note t = take_ok [OF Cons.prems(1) part_sub this]
  have "cs_Size (part (ca_details (ca_take a ?C)) j) \<le> n" if "j \<in> set is" for j
    using part_shrinks [of "ca_details a" "- ?C" j] Cons.prems(3) that unfolding t(2) by force
  note rest = Cons.IH [OF t(1) _ ballI [OF this]]
  show ?case
  proof (cases "isSatisfied (ca_take a ?C) \<or> \<not> needs (ca_take a ?C) n")
    case True
    then have "claim_whole part n a (i # is) = ca_take a ?C" by (auto simp: Let_def)
    then show ?thesis using t by auto
  next
    case False
    then have c: "claim_whole part n a (i # is) = claim_whole part n (ca_take a ?C) is" by (simp add: Let_def)
    then show ?thesis using rest False t(2,3,5) by auto
  qed
qed

lemma claim_first:
  assumes "acc_ok A m a" "needs a n" "\<forall>j \<in> set (i # is). cs_Size (part (ca_details a) j) \<le> n"
  shows "part (ca_details a) i \<subseteq> ca_result (claim_whole part n a (i # is))"
proof -
  let ?C = "part (ca_details a) i"
  have "cs_Size ?C \<le> ca_numCPUsNeeded a" using assms(2,3) by (auto simp: needs_def)
  note t = take_ok [OF assms(1) part_sub this]
  have "cs_Size (part (ca_details (ca_take a ?C)) j) \<le> n" if "j \<in> set is" for j
    using part_shrinks [of "ca_details a" "- ?C" j] assms(3) that unfolding t(2) by force
  then show ?thesis using claim_whole_ok [OF t(1), of n "is"] t(3) by (auto simp: Let_def)
qed

end

lemma claim_threads_ok:
  assumes "acc_ok A m a" "distinct cs" "set cs \<subseteq> CPUs (ca_details a)"
  shows "acc_ok A m (claim_threads a cs) \<and> ca_result a \<subseteq> ca_result (claim_threads a cs) \<and>
    (ca_numCPUsNeeded a \<le> int (length cs) \<longrightarrow> isSatisfied (claim_threads a cs))"
  using assms
proof (induction cs arbitrary: a)
  case Nil
  then show ?case by (simp add: isSatisfied_def)
next
  case (Cons c cs)
  show ?case
  proof (cases "needs a 1")
    case True
    then have "{c} \<subseteq> CPUs (ca_details a)" "cs_Size {c} \<le> ca_numCPUsNeeded a" using Cons.prems(3) by (auto simp: needs_def cs_Size_def)
    note t = take_ok [OF Cons.prems(1) this]
    have "set cs \<subseteq> CPUs (ca_details (ca_take a {c}))" using Cons.prems(2,3) t(2) by auto
    then show ?thesis using Cons.IH [OF t(1)] Cons.prems(2) t(1,3,4) True by (auto simp: Let_def cpu_sets cs_Size_def)
  next
    case False
    then have "isSatisfied a" by (simp add: needs_def isSatisfied_def)
    then show ?thesis using False Cons.prems(1) by (simp add: Let_def)
  qed
qed

subsection \<open>The lists of free parts\<close>

lemma finite_parts [simp]:
  "finite (CPUsInSockets d ids)" "finite (CPUsInCores d ids)" "finite (CPUsInNUMANodes d ids)" "finite (CoresInSockets d ids)"
  "finite (Sockets d)" "finite (Cores d)" "finite (NUMANodes d)" "finite (SocketsInNUMANodes d ids)"
  by (simp_all add: CPUsInSockets_def CPUsInCores_def CPUsInNUMANodes_def CoresInSockets_def Sockets_def Cores_def NUMANodes_def
      SocketsInNUMANodes_def)

lemma ToSlice_filter: "finite s \<Longrightarrow> set (cs_ToSlice (cs_Filter P s)) = {x \<in> s. P x}"
  by (simp add: cpu_sets)

lemma freeSockets_free: "s \<in> set (freeSockets a) \<Longrightarrow> cs_Size (CPUsInSockets (ca_details a) [s]) = CPUsPerSocket (ca_topo a)"
  unfolding freeSockets_def by (simp add: ToSlice_filter isSocketFree_def)

lemma freeCores_free:
  assumes "\<And>lt xs. mset (srt lt xs) = mset xs" "c \<in> set (freeCores srt a)"
  shows "cs_Size (CPUsInCores (ca_details a) [c]) = CPUsPerCore (ca_topo a)"
  using assms(2) unfolding freeCores_def Let_def freeCoresInSocket_def by (auto simp: ToSlice_filter isCoreFree_def)

text \<open>Every CPU that is left is in the list once.\<close>

lemma distinct_concat_disjoint:
  "distinct xs \<Longrightarrow> (\<And>x. distinct (f x)) \<Longrightarrow> (\<And>x y. x \<noteq> y \<Longrightarrow> set (f x) \<inter> set (f y) = {}) \<Longrightarrow> distinct (concat (map f xs))"
proof (induction xs)
  case (Cons x xs)
  have "set (f x) \<inter> set (f y) = {}" if "y \<in> set xs" for y
    by (rule Cons.prems(3)) (use Cons.prems(1) that in auto)
  then show ?case using Cons by auto
qed simp

lemma freeCPUs_list:
  assumes "\<And>lt xs. mset (srt lt xs) = mset xs" "distinct (map fst (ca_details a))"
  shows "distinct (freeCPUs srt a)" "set (freeCPUs srt a) = CPUs (ca_details a)"
proof -
  let ?cores = "srt (core_before a) (cs_ToSlice (Cores (ca_details a)))"
  have m: "mset ?cores = mset (cs_ToSlice (Cores (ca_details a)))" by (rule assms(1))
  have d: "distinct ?cores" using m by (metis mset_eq_imp_distinct_iff cs_ToSlice_def distinct_sorted_list_of_set)
  have set: "set ?cores = Cores (ca_details a)" using mset_eq_setD [OF m] by simp
  have one: "set (cs_ToSlice (CPUsInCores (ca_details a) [x])) \<inter> set (cs_ToSlice (CPUsInCores (ca_details a) [y])) = {}"
    if "x \<noteq> y" for x y
    using that by (auto simp: CPUsInCores_def gather_fst) (metis eq_key_imp_eq_value [OF assms(2)])
  show "distinct (freeCPUs srt a)" unfolding freeCPUs_def
    by (rule distinct_concat_disjoint [OF d _ one]) (simp add: cs_ToSlice_def)
  have "c \<in> CPUs (ca_details a) \<longleftrightarrow> (\<exists>x \<in> Cores (ca_details a). c \<in> CPUsInCores (ca_details a) [x])" for c
    by (force simp: CPUs_iff Cores_def CPUsInCores_def gather_fst)
  then show "set (freeCPUs srt a) = CPUs (ca_details a)" unfolding freeCPUs_def using set by auto
qed

subsection \<open>The whole choice\<close>

lemma keep_distinct: "distinct (map fst d) \<Longrightarrow> distinct (map fst (KeepOnly d s))"
  by (induction d) (auto simp: KeepOnly_def)

lemma whole_step:
  assumes "cpu_part part" "acc_ok A m a"
    and "\<And>i. i \<in> set is \<Longrightarrow> cs_Size (part (ca_details a) i) = n" "distinct (map fst (ca_details a))"
  shows "acc_ok A m (if needs a n then claim_whole part n a is else a)"
    "distinct (map fst (ca_details (if needs a n then claim_whole part n a is else a)))"
    "ca_topo (if needs a n then claim_whole part n a is else a) = ca_topo a"
    "ca_result a \<subseteq> ca_result (if needs a n then claim_whole part n a is else a)"
  using cpu_part.claim_whole_ok [OF assms(1,2), of n "is"] assms(2-4) by (auto simp: keep_distinct)

lemma takeByTopology_result:
  fixes available :: "int set"
  assumes srt: "\<And>lt xs. mset (srt lt xs) = mset xs" and d: "distinct (map fst (tp_CPUDetails topo))" and n: "0 < n"
  defines "A \<equiv> CPUs (tp_CPUDetails topo) \<inter> available" and "a \<equiv> newCPUAccumulator topo available n"
  shows "if n \<le> cs_Size A then \<exists>r. takeByTopology srt topo available n = Some r \<and> r \<subseteq> A \<and> cs_Size r = n \<and>
      (\<forall>s ss. CPUsPerSocket topo \<le> n \<and> freeSockets a = s # ss \<longrightarrow> CPUsInSockets (ca_details a) [s] \<subseteq> r)
    else takeByTopology srt topo available n = None"
proof -
  let ?ps = "CPUsPerSocket topo" and ?pc = "CPUsPerCore topo"
  let ?sock = "\<lambda>d s. CPUsInSockets d [s]" and ?core = "\<lambda>d c. CPUsInCores d [c]"
  have a: "acc_ok A n a" unfolding A_def a_def using n by (intro new_ok) simp
  have topo: "ca_topo a = topo" and da: "distinct (map fst (ca_details a))" and need: "ca_numCPUsNeeded a = n"
    by (simp_all add: a_def newCPUAccumulator_def keep_distinct [OF d])
  have unsat: "\<not> isSatisfied a" using n need by (simp add: isSatisfied_def)
  have failed: "isFailed a \<longleftrightarrow> cs_Size A < n" using isFailed_iff [OF a] by (simp add: cs_Size_def)
  define a1 where "a1 = (if needs a ?ps then claim_whole ?sock ?ps a (freeSockets a) else a)"
  have fs: "cs_Size (?sock (ca_details a) i) = ?ps" if "i \<in> set (freeSockets a)" for i using freeSockets_free [OF that] topo by simp
  have a1: "acc_ok A n a1" "distinct (map fst (ca_details a1))" "ca_topo a1 = topo"
    using whole_step [OF socket.cpu_part_axioms a fs da] topo by (simp_all add: a1_def)
  define a2 where "a2 = (if needs a1 ?pc then claim_whole ?core ?pc a1 (freeCores srt a1) else a1)"
  have fc: "cs_Size (?core (ca_details a1) i) = ?pc" if "i \<in> set (freeCores srt a1)" for i using freeCores_free [OF srt that] a1(3) by simp
  have a2: "acc_ok A n a2" "distinct (map fst (ca_details a2))" "ca_result a1 \<subseteq> ca_result a2"
    using whole_step [OF core.cpu_part_axioms a1(1) fc a1(2)] by (simp_all add: a2_def)
  define a3 where "a3 = claim_threads a2 (freeCPUs srt a2)"
  note list = freeCPUs_list [OF srt a2(2)]
  have len: "int (length (freeCPUs srt a2)) = cs_Size (CPUs (ca_details a2))"
    using distinct_card [OF list(1)] list(2) by (simp add: cs_Size_def)
  have a3: "acc_ok A n a3" "ca_result a2 \<subseteq> ca_result a3" "ca_numCPUsNeeded a2 \<le> cs_Size (CPUs (ca_details a2)) \<Longrightarrow> isSatisfied a3"
    using claim_threads_ok [OF a2(1) list(1)] list(2) len by (simp_all add: a3_def)
  have take: "takeByTopology srt topo available n =
      (if isFailed a then None else if isSatisfied a1 then Some (ca_result a1) else if isSatisfied a2 then Some (ca_result a2)
       else if isSatisfied a3 then Some (ca_result a3) else None)"
    unfolding takeByTopology_def Let_def a_def [symmetric] a1_def [symmetric] a2_def [symmetric] a3_def [symmetric] using unsat by simp
  show ?thesis
  proof (cases "n \<le> cs_Size A")
    case True
    then have "isSatisfied a3" using a3(3) isFailed_iff [OF a2(1)] by (simp add: isFailed_def cs_Size_def)
    then obtain b where b: "takeByTopology srt topo available n = Some (ca_result b)" "acc_ok A n b" "isSatisfied b" "ca_result a1 \<subseteq> ca_result b"
      using take failed True a1(1) a2(1,3) a3(1,2) by (cases "isSatisfied a1"; cases "isSatisfied a2") auto
    have "?sock (ca_details a) s \<subseteq> ca_result a1" if "?ps \<le> n" "freeSockets a = s # ss" for s ss
      using socket.claim_first [OF a, of ?ps s ss] fs that need by (simp add: a1_def needs_def)
    then show ?thesis using b satisfied_ok [OF b(2,3)] True by auto
  next
    case False
    then show ?thesis using take failed by simp
  qed
qed

end
