(* ===== verification/CpuState.thy ===== *)
theory CpuState
  imports CpuTopologyLaws
begin

section \<open>The state of the CPU manager and its checkpoint\<close>

text \<open>
  \<open>stateMemory\<close> and \<open>stateCheckpoint\<close> of \<open>pkg/kubelet/cm/cpumanager/state\<close>: the CPU sets assigned to
  containers, the shared set, and the file they are stored in after every change.  The file holds the value
  that was marshalled (JSON and checksum are left out); \<open>st_disk\<close> lists whether the next writes succeed, all
  further ones do.  Maps are association lists.
\<close>

subsection \<open>In memory\<close>

type_synonym cpu_assignments = "(string \<times> (string \<times> int set) list) list"

record cpu_memory =
  sm_assignments :: cpu_assignments
  sm_defaultCPUSet :: "int set"

definition NewMemoryState :: cpu_memory where
  "NewMemoryState = \<lparr>sm_assignments = [], sm_defaultCPUSet = NewCPUSet []\<rparr>"

definition sm_inner :: "cpu_assignments \<Rightarrow> string \<Rightarrow> (string \<times> int set) list" where
  "sm_inner as pod = (case map_of as pod of None \<Rightarrow> [] | Some cs \<Rightarrow> cs)"

definition sm_GetCPUSet :: "cpu_memory \<Rightarrow> string \<Rightarrow> string \<Rightarrow> int set option" where
  "sm_GetCPUSet m pod c = map_of (sm_inner (sm_assignments m) pod) c"

definition sm_GetCPUSetOrDefault :: "cpu_memory \<Rightarrow> string \<Rightarrow> string \<Rightarrow> int set" where
  "sm_GetCPUSetOrDefault m pod c = (case sm_GetCPUSet m pod c of Some s \<Rightarrow> s | None \<Rightarrow> sm_defaultCPUSet m)"

definition sm_SetCPUSet :: "string \<Rightarrow> string \<Rightarrow> int set \<Rightarrow> cpu_memory \<Rightarrow> cpu_memory" where
  "sm_SetCPUSet pod c cset m =
     m\<lparr>sm_assignments := AList.update pod (AList.update c cset (sm_inner (sm_assignments m) pod)) (sm_assignments m)\<rparr>"

definition sm_SetDefaultCPUSet :: "int set \<Rightarrow> cpu_memory \<Rightarrow> cpu_memory" where
  "sm_SetDefaultCPUSet cset m = m\<lparr>sm_defaultCPUSet := cset\<rparr>"

definition sm_SetCPUAssignments :: "cpu_assignments \<Rightarrow> cpu_memory \<Rightarrow> cpu_memory" where
  "sm_SetCPUAssignments as m = m\<lparr>sm_assignments := as\<rparr>"

definition sm_Delete :: "string \<Rightarrow> string \<Rightarrow> cpu_memory \<Rightarrow> cpu_memory" where
  "sm_Delete pod c m =
     (let cs = AList.delete c (sm_inner (sm_assignments m) pod) in
      m\<lparr>sm_assignments := (if cs = [] then AList.delete pod (sm_assignments m) else AList.update pod cs (sm_assignments m))\<rparr>)"

definition sm_ClearState :: "cpu_memory \<Rightarrow> cpu_memory" where
  "sm_ClearState m = \<lparr>sm_assignments = [], sm_defaultCPUSet = {}\<rparr>"

subsection \<open>The checkpoint\<close>

record cpu_checkpoint =
  ck_PolicyName :: string
  ck_DefaultCPUSet :: string
  ck_Entries :: "(string \<times> (string \<times> string) list) list"

record cpu_checkpoint_v1 =
  v1_PolicyName :: string
  v1_DefaultCPUSet :: string
  v1_Entries :: "(string \<times> string) list"

datatype checkpoint_file =
  NoCheckpoint | CheckpointV1 cpu_checkpoint_v1 | CheckpointV2 cpu_checkpoint | CorruptCheckpoint

record cpu_state =
  st_cache :: cpu_memory
  st_policyName :: string
  st_file :: checkpoint_file
  st_disk :: "bool list"

definition checkpoint_of :: "cpu_state \<Rightarrow> cpu_checkpoint" where
  "checkpoint_of s =
     \<lparr>ck_PolicyName = st_policyName s,
      ck_DefaultCPUSet = cs_String (sm_defaultCPUSet (st_cache s)),
      ck_Entries = map (\<lambda>(pod, cs). (pod, map (\<lambda>(c, cset). (c, cs_String cset)) cs)) (sm_assignments (st_cache s))\<rparr>"

text \<open>The flag is whether the checkpoint could not be written.\<close>

definition storeState :: "cpu_state \<Rightarrow> bool \<times> cpu_state" where
  "storeState s =
     (if st_disk s \<noteq> [] \<and> \<not> hd (st_disk s) then (True, s\<lparr>st_disk := tl (st_disk s)\<rparr>)
      else (False, s\<lparr>st_disk := tl (st_disk s), st_file := CheckpointV2 (checkpoint_of s)\<rparr>))"

text \<open>The errors of \<open>storeState\<close> are logged.\<close>

definition on_cache :: "(cpu_memory \<Rightarrow> cpu_memory) \<Rightarrow> cpu_state \<Rightarrow> cpu_state" where
  "on_cache f s = snd (storeState (s\<lparr>st_cache := f (st_cache s)\<rparr>))"

definition GetCPUSet :: "cpu_state \<Rightarrow> string \<Rightarrow> string \<Rightarrow> int set option" where
  "GetCPUSet s = sm_GetCPUSet (st_cache s)"

definition GetDefaultCPUSet :: "cpu_state \<Rightarrow> int set" where
  "GetDefaultCPUSet s = sm_defaultCPUSet (st_cache s)"

definition GetCPUSetOrDefault :: "cpu_state \<Rightarrow> string \<Rightarrow> string \<Rightarrow> int set" where
  "GetCPUSetOrDefault s = sm_GetCPUSetOrDefault (st_cache s)"

definition GetCPUAssignments :: "cpu_state \<Rightarrow> cpu_assignments" where
  "GetCPUAssignments s = sm_assignments (st_cache s)"

definition SetCPUSet :: "string \<Rightarrow> string \<Rightarrow> int set \<Rightarrow> cpu_state \<Rightarrow> cpu_state" where
  "SetCPUSet pod c cset = on_cache (sm_SetCPUSet pod c cset)"

definition SetDefaultCPUSet :: "int set \<Rightarrow> cpu_state \<Rightarrow> cpu_state" where
  "SetDefaultCPUSet cset = on_cache (sm_SetDefaultCPUSet cset)"

definition SetCPUAssignments :: "cpu_assignments \<Rightarrow> cpu_state \<Rightarrow> cpu_state" where
  "SetCPUAssignments as = on_cache (sm_SetCPUAssignments as)"

definition st_Delete :: "string \<Rightarrow> string \<Rightarrow> cpu_state \<Rightarrow> cpu_state" where
  "st_Delete pod c = on_cache (sm_Delete pod c)"

definition ClearState :: "cpu_state \<Rightarrow> cpu_state" where
  "ClearState = on_cache sm_ClearState"

subsection \<open>Restoring\<close>

datatype restore_error = StoreFailed | CheckpointUnreadable | UnknownContainer string | PolicyDiffers | BadCPUSet num_error

text \<open>The container map: container identifiers with the pod and the name of the container.\<close>

type_synonym container_map = "(string \<times> (string \<times> string)) list"

fun migrateV1CheckpointToV2Checkpoint ::
    "container_map \<Rightarrow> (string \<times> string) list \<Rightarrow> (string \<times> (string \<times> string) list) list \<Rightarrow>
     restore_error + (string \<times> (string \<times> string) list) list" where
  "migrateV1CheckpointToV2Checkpoint initial [] es = Inr es"
| "migrateV1CheckpointToV2Checkpoint initial ((cid, cset) # xs) es =
     (case map_of initial cid of
        None \<Rightarrow> Inl (UnknownContainer cid)
      | Some (pod, c) \<Rightarrow>
          migrateV1CheckpointToV2Checkpoint initial xs
            (AList.update pod (AList.update c cset (case map_of es pod of None \<Rightarrow> [] | Some cs \<Rightarrow> cs)) es))"

fun parse_containers :: "(string \<times> string) list \<Rightarrow> (restore_error + (string \<times> int set) list) option" where
  "parse_containers [] = Some (Inr [])"
| "parse_containers ((c, str) # cs) =
     (case cs_Parse str of
        None \<Rightarrow> None
      | Some (Inl e) \<Rightarrow> Some (Inl (BadCPUSet e))
      | Some (Inr s) \<Rightarrow> map_option (map_sum id (\<lambda>ys. (c, s) # ys)) (parse_containers cs))"

fun parse_entries :: "(string \<times> (string \<times> string) list) list \<Rightarrow> (restore_error + cpu_assignments) option" where
  "parse_entries [] = Some (Inr [])"
| "parse_entries ((pod, cs) # es) =
     (case parse_containers cs of
        None \<Rightarrow> None
      | Some (Inl e) \<Rightarrow> Some (Inl e)
      | Some (Inr xs) \<Rightarrow> map_option (map_sum id (\<lambda>ys. (pod, xs) # ys)) (parse_entries es))"

definition restore_v2 :: "cpu_checkpoint \<Rightarrow> cpu_state \<Rightarrow> (restore_error + cpu_state) option" where
  "restore_v2 k s =
     (if st_policyName s \<noteq> ck_PolicyName k then Some (Inl PolicyDiffers)
      else
        (case cs_Parse (ck_DefaultCPUSet k) of
           None \<Rightarrow> None
         | Some (Inl e) \<Rightarrow> Some (Inl (BadCPUSet e))
         | Some (Inr d) \<Rightarrow>
             map_option (map_sum id (\<lambda>as. s\<lparr>st_cache := sm_SetCPUAssignments as (sm_SetDefaultCPUSet d (st_cache s))\<rparr>))
               (parse_entries (ck_Entries k))))"

text \<open>\<open>None\<close>: parsing does not return.\<close>

definition restoreState :: "container_map \<Rightarrow> cpu_state \<Rightarrow> (restore_error + cpu_state) option" where
  "restoreState initial s =
     (case st_file s of
        NoCheckpoint \<Rightarrow> (case storeState s of (True, s') \<Rightarrow> Some (Inl StoreFailed) | (False, s') \<Rightarrow> Some (Inr s'))
      | CorruptCheckpoint \<Rightarrow> Some (Inl CheckpointUnreadable)
      | CheckpointV2 k \<Rightarrow> restore_v2 k s
      | CheckpointV1 v \<Rightarrow>
          (case migrateV1CheckpointToV2Checkpoint initial (v1_Entries v) [] of
             Inl e \<Rightarrow> Some (Inl e)
           | Inr es \<Rightarrow> restore_v2 \<lparr>ck_PolicyName = v1_PolicyName v, ck_DefaultCPUSet = v1_DefaultCPUSet v, ck_Entries = es\<rparr> s))"

definition NewCheckpointState :: "string \<Rightarrow> container_map \<Rightarrow> checkpoint_file \<Rightarrow> bool list \<Rightarrow> (restore_error + cpu_state) option" where
  "NewCheckpointState policyName initial file disk =
     restoreState initial \<lparr>st_cache = NewMemoryState, st_policyName = policyName, st_file = file, st_disk = disk\<rparr>"

subsection \<open>What the operations change\<close>

lemma on_cache_simps [simp]: "st_cache (on_cache f s) = f (st_cache s)" "st_policyName (on_cache f s) = st_policyName s"
  by (simp_all add: on_cache_def storeState_def)

lemma stored_file: "st_disk s = [] \<Longrightarrow> st_file (on_cache f s) = CheckpointV2 (checkpoint_of (on_cache f s)) \<and> st_disk (on_cache f s) = []"
  by (simp add: on_cache_def storeState_def checkpoint_of_def)

text \<open>The assignments as one map.\<close>

definition assigned :: "cpu_state \<Rightarrow> string \<Rightarrow> string \<Rightarrow> int set option" where
  "assigned s pod c = map_of (sm_inner (sm_assignments (st_cache s)) pod) c"

lemma inner_simps [simp]:
  "sm_inner (AList.update pod cs as) pod' = (if pod' = pod then cs else sm_inner as pod')"
  "sm_inner (AList.delete pod as) pod' = (if pod' = pod then [] else sm_inner as pod')"
  by (simp_all add: sm_inner_def delete_conv' update_conv')

lemma delete_empty: "AList.delete c xs = [] \<Longrightarrow> c' \<noteq> c \<Longrightarrow> map_of xs c' = None"
  using fun_cong [OF delete_conv' [of c xs], of c'] by simp

lemma state_ops [simp]:
  "GetCPUSet s pod c = assigned s pod c" "GetDefaultCPUSet (SetDefaultCPUSet d s) = d"
  "GetDefaultCPUSet (SetCPUSet pod c cset s) = GetDefaultCPUSet s" "GetDefaultCPUSet (st_Delete pod c s) = GetDefaultCPUSet s"
  "assigned (SetDefaultCPUSet d s) = assigned s"
  "assigned (SetCPUSet pod c cset s) pod' c' = (if pod' = pod \<and> c' = c then Some cset else assigned s pod' c')"
  by (simp_all add: GetCPUSet_def sm_GetCPUSet_def assigned_def GetDefaultCPUSet_def SetDefaultCPUSet_def sm_SetDefaultCPUSet_def
      SetCPUSet_def sm_SetCPUSet_def st_Delete_def sm_Delete_def Let_def fun_eq_iff update_conv')

lemma assigned_Delete [simp]:
  "assigned (st_Delete pod c s) pod' c' = (if pod' = pod \<and> c' = c then None else assigned s pod' c')"
  by (auto simp: assigned_def st_Delete_def sm_Delete_def Let_def delete_conv' dest: delete_empty)

lemma GetCPUSetOrDefault_simp [simp]:
  "GetCPUSetOrDefault s pod c = (case assigned s pod c of Some cs \<Rightarrow> cs | None \<Rightarrow> GetDefaultCPUSet s)"
  by (simp add: GetCPUSetOrDefault_def sm_GetCPUSetOrDefault_def sm_GetCPUSet_def assigned_def GetDefaultCPUSet_def split: option.split)

subsection \<open>A restart reads back what was stored\<close>

definition cpus_ok :: "int set \<Rightarrow> bool" where
  "cpus_ok s \<longleftrightarrow> finite s \<and> (\<forall>c \<in> s. 0 \<le> c \<and> c < 9223372036854775807)"

definition memory_ok :: "cpu_memory \<Rightarrow> bool" where
  "memory_ok m \<longleftrightarrow>
     cpus_ok (sm_defaultCPUSet m) \<and> (\<forall>e \<in> set (sm_assignments m). \<forall>x \<in> set (snd e). cpus_ok (snd x))"

lemma parse_containers_strings:
  "\<forall>x \<in> set cs. cpus_ok (snd x) \<Longrightarrow> parse_containers (map (\<lambda>(c, s). (c, cs_String s)) cs) = Some (Inr cs)"
  by (induction cs) (auto simp: cpus_ok_def Parse_String)

lemma parse_entries_strings:
  "\<forall>e \<in> set as. \<forall>x \<in> set (snd e). cpus_ok (snd x) \<Longrightarrow>
     parse_entries (map (\<lambda>(pod, cs). (pod, map (\<lambda>(c, s). (c, cs_String s)) cs)) as) = Some (Inr as)"
  by (induction as) (auto simp: parse_containers_strings)

lemma restart_reads_state:
  assumes "memory_ok (st_cache s)" "st_file s = CheckpointV2 (checkpoint_of s)"
  shows "\<exists>s'. NewCheckpointState (st_policyName s) initial (st_file s) disk = Some (Inr s') \<and> st_cache s' = st_cache s"
proof -
  have "cs_Parse (cs_String (sm_defaultCPUSet (st_cache s))) = Some (Inr (sm_defaultCPUSet (st_cache s)))"
    using assms(1) by (intro Parse_String) (auto simp: memory_ok_def cpus_ok_def)
  moreover have "parse_entries (ck_Entries (checkpoint_of s)) = Some (Inr (sm_assignments (st_cache s)))"
    using assms(1) by (simp add: checkpoint_of_def parse_entries_strings memory_ok_def)
  ultimately show ?thesis
    by (simp add: NewCheckpointState_def restoreState_def assms(2) restore_v2_def checkpoint_of_def sm_SetCPUAssignments_def
        sm_SetDefaultCPUSet_def)
qed

end
