(* ===== verification/Bitmask.thy ===== *)
theory Bitmask
  imports GoStrings "HOL-Library.Word"
begin

unbundle bit_operations_syntax

section \<open>Bit masks\<close>

text \<open>
  \<open>pkg/kubelet/cm/topologymanager/bitmask/bitmask.go\<close>: a mask is a 64-bit word.  A method that changes its
  receiver returns the new mask; \<open>None\<close> is the error for a bit out of range, which leaves the mask as it is.
\<close>

type_synonym bit_mask = "64 word"

definition one_bit :: "int \<Rightarrow> bit_mask" where
  "one_bit i = push_bit (nat i) 1"

definition NewEmptyBitMask :: bit_mask where
  "NewEmptyBitMask = 0"

fun add_bits :: "int list \<Rightarrow> bit_mask \<Rightarrow> bit_mask option" where
  "add_bits [] m = Some m"
| "add_bits (i # is) m = (if i < 0 \<or> 64 \<le> i then None else add_bits is (m OR one_bit i))"

definition bm_Add :: "int list \<Rightarrow> bit_mask \<Rightarrow> bit_mask option" where
  "bm_Add bits s = add_bits bits s"

definition NewBitMask :: "int list \<Rightarrow> bit_mask option" where
  "NewBitMask bits = bm_Add bits 0"

fun bm_Remove :: "int list \<Rightarrow> bit_mask \<Rightarrow> bit_mask option" where
  "bm_Remove [] m = Some m"
| "bm_Remove (i # is) m = (if i < 0 \<or> 64 \<le> i then None else bm_Remove is (m AND NOT (one_bit i)))"

definition bm_And :: "bit_mask \<Rightarrow> bit_mask list \<Rightarrow> bit_mask" where
  "bm_And s masks = foldl (AND) s masks"

definition bm_Or :: "bit_mask \<Rightarrow> bit_mask list \<Rightarrow> bit_mask" where
  "bm_Or s masks = foldl (OR) s masks"

definition bm_Clear :: "bit_mask \<Rightarrow> bit_mask" where
  "bm_Clear s = 0"

definition bm_Fill :: "bit_mask \<Rightarrow> bit_mask" where
  "bm_Fill s = NOT 0"

definition bm_IsEmpty :: "bit_mask \<Rightarrow> bool" where
  "bm_IsEmpty s \<longleftrightarrow> s = 0"

definition bm_IsSet :: "bit_mask \<Rightarrow> int \<Rightarrow> bool" where
  "bm_IsSet s i \<longleftrightarrow> (if i < 0 \<or> 64 \<le> i then False else 0 < s AND one_bit i)"

definition bm_IsEqual :: "bit_mask \<Rightarrow> bit_mask \<Rightarrow> bool" where
  "bm_IsEqual s m \<longleftrightarrow> s = m"

text \<open>\<open>bits.OnesCount64\<close>.\<close>

definition bm_Count :: "bit_mask \<Rightarrow> int" where
  "bm_Count s = int (length (filter (bit s) [0..<64]))"

definition bm_IsNarrowerThan :: "bit_mask \<Rightarrow> bit_mask \<Rightarrow> bool" where
  "bm_IsNarrowerThan s m \<longleftrightarrow> (if bm_Count s = bm_Count m \<and> s < m then True else bm_Count s < bm_Count m)"

definition bm_GetBits :: "bit_mask \<Rightarrow> int list" where
  "bm_GetBits s = map int (filter (\<lambda>i. 0 < s AND push_bit i 1) [0..<64])"

text \<open>\<open>fmt.Sprintf\<close> with a verb like \<open>%04b\<close>.\<close>

fun binary_digits :: "nat \<Rightarrow> string" where
  "binary_digits n = (if n < 2 then [digit_char n] else binary_digits (n div 2) @ [digit_char (n mod 2)])"

declare binary_digits.simps [simp del]

definition padded_binary :: "nat \<Rightarrow> nat \<Rightarrow> string" where
  "padded_binary width n = replicate (width - length (binary_digits n)) (CHR ''0'') @ binary_digits n"

definition bm_String :: "bit_mask \<Rightarrow> string" where
  "bm_String s =
     (case find (\<lambda>shift. push_bit shift 1 < s) (rev (map (\<lambda>k. 2 * k) [1..<32])) of
        Some shift \<Rightarrow> padded_binary (shift + 2) (unat s)
      | None \<Rightarrow> padded_binary 2 (unat s))"

text \<open>The combinations of the bits in the order the recursion visits them.\<close>

fun combinations :: "int list \<Rightarrow> int list \<Rightarrow> nat \<Rightarrow> int list list" where
  "combinations [] accum n = (if length accum = n then [accum] else [])"
| "combinations (b # bs) accum n =
     (if length accum = n then [accum] else combinations bs (accum @ [b]) n @ combinations bs accum n)"

text \<open>The masks given to the callback, in order; \<open>None\<close> is the nil mask of a bit out of range.\<close>

definition IterateBitMasks :: "int list \<Rightarrow> bit_mask option list" where
  "IterateBitMasks bits = concat (map (\<lambda>n. map NewBitMask (combinations bits [] n)) [1..<Suc (length bits)])"

subsection \<open>Masks as sets of bits\<close>

definition bits_of :: "bit_mask \<Rightarrow> int set" where
  "bits_of s = {i. 0 \<le> i \<and> i < 64 \<and> bit s (nat i)}"

lemma bit_one_bit: "0 \<le> i \<Longrightarrow> i < 64 \<Longrightarrow> bit (one_bit i) n \<longleftrightarrow> n = nat i"
  by (auto simp: one_bit_def bit_exp_iff nat_less_iff)

lemma and_bit_pos: "n < 64 \<Longrightarrow> 0 < (s :: bit_mask) AND push_bit n 1 \<longleftrightarrow> bit s n"
proof -
  assume n: "n < 64"
  have eq: "s AND push_bit n 1 = (if bit s n then push_bit n 1 else 0)"
    using n by (intro bit_word_eqI) (auto simp: bit_and_iff bit_exp_iff)
  have "bit (push_bit n (1 :: bit_mask)) n" using n by (simp add: bit_exp_iff)
  then have "push_bit n (1 :: bit_mask) \<noteq> 0" by (auto simp del: push_bit_of_1)
  then show ?thesis unfolding eq by (simp add: word_neq_0_conv [symmetric] del: push_bit_of_1)
qed

lemma IsSet_iff [simp]: "bm_IsSet s i \<longleftrightarrow> i \<in> bits_of s"
  using and_bit_pos [of "nat i" s] by (auto simp: bm_IsSet_def bits_of_def one_bit_def nat_less_iff simp del: push_bit_of_1)

lemma bits_of_finite [simp]: "finite (bits_of s)"
  by (rule finite_subset [of _ "{0..<64}"]) (auto simp: bits_of_def)

lemma bits_list: "filter (\<lambda>i. 0 < s AND push_bit i 1) [0..<64] = filter (bit s) [0..<64]" for s :: bit_mask
  by (rule filter_cong [OF refl]) (simp add: and_bit_pos del: push_bit_of_1)

lemma bits_of_filter: "bits_of s = int ` set (filter (bit s) [0..<64])"
proof
  show "bits_of s \<subseteq> int ` set (filter (bit s) [0..<64])"
  proof
    fix i assume "i \<in> bits_of s"
    then have "nat i \<in> set (filter (bit s) [0..<64])" "i = int (nat i)" by (simp_all add: bits_of_def nat_less_iff)
    then show "i \<in> int ` set (filter (bit s) [0..<64])" by (rule rev_image_eqI)
  qed
qed (auto simp: bits_of_def)

lemma GetBits_set [simp]: "set (bm_GetBits s) = bits_of s"
  by (simp add: bm_GetBits_def bits_list bits_of_filter del: push_bit_of_1)

lemma Count_card: "bm_Count s = int (card (bits_of s))"
proof -
  have "card (bits_of s) = card (set (filter (bit s) [0..<64]))"
    unfolding bits_of_filter by (rule card_image) (simp add: inj_on_def)
  then show ?thesis by (simp only: bm_Count_def distinct_card [OF distinct_filter [OF distinct_upt]])
qed

lemma bits_of_eq: "bits_of s = bits_of t \<longleftrightarrow> s = t"
proof
  assume eq: "bits_of s = bits_of t"
  show "s = t"
  proof (rule bit_word_eqI)
    fix n assume "n < LENGTH(64)"
    then have "bit s n \<longleftrightarrow> int n \<in> bits_of s" "bit t n \<longleftrightarrow> int n \<in> bits_of t" by (simp_all add: bits_of_def)
    then show "bit s n \<longleftrightarrow> bit t n" using eq by simp
  qed
qed simp

lemma bits_of_simps [simp]: "bits_of 0 = {}" "bits_of (s AND t) = bits_of s \<inter> bits_of t" "bits_of (s OR t) = bits_of s \<union> bits_of t"
  by (auto simp: bits_of_def bit_and_iff bit_or_iff)

lemma bits_of_one: "0 \<le> i \<Longrightarrow> i < 64 \<Longrightarrow> bits_of (one_bit i) = {i}"
  by (auto simp: bits_of_def bit_one_bit)

lemma bits_of_And: "bits_of (bm_And s ms) = bits_of s \<inter> (\<Inter>m \<in> set ms. bits_of m)"
  unfolding bm_And_def by (induction ms arbitrary: s) auto

lemma bits_of_empty_iff: "bm_Count s = 0 \<longleftrightarrow> bits_of s = {}"
  by (simp add: Count_card)

lemma add_bits_of: "add_bits is m = Some m' \<Longrightarrow> bits_of m' = bits_of m \<union> set is"
  by (induction "is" arbitrary: m) (auto simp: bits_of_one split: if_splits)

lemma add_bits_range: "(\<forall>i \<in> set is. 0 \<le> i \<and> i < 64) \<Longrightarrow> \<exists>m'. add_bits is m = Some m'"
  by (induction "is" arbitrary: m) auto

lemma NewBitMask_bits: "NewBitMask is = Some m \<Longrightarrow> bits_of m = set is"
  using add_bits_of [of "is" 0 m] by (simp add: NewBitMask_def bm_Add_def)

lemma NewBitMask_ok: "(\<forall>i \<in> set is. 0 \<le> i \<and> i < 64) \<Longrightarrow> \<exists>m. NewBitMask is = Some m"
  using add_bits_range [of "is" 0] by (simp add: NewBitMask_def bm_Add_def)

lemma Add_IsSet: "bm_Add is s = Some s' \<Longrightarrow> bits_of s' = bits_of s \<union> set is"
  by (simp add: bm_Add_def add_bits_of)

lemma Remove_bits: "bm_Remove is m = Some m' \<Longrightarrow> bits_of m' = bits_of m - set is"
proof (induction "is" arbitrary: m)
  case (Cons i "is")
  then have "0 \<le> i" "i < 64" by (auto split: if_splits)
  then have "bits_of (m AND NOT (one_bit i)) = bits_of m - {i}"
    by (auto simp: bits_of_def bit_and_iff bit_not_iff bit_one_bit)
  then show ?case using Cons by (auto split: if_splits)
qed simp

text \<open>The masks visited are those of the non-empty sublists.\<close>

lemma combinations_set: "set (combinations bs accum n) = (\<lambda>ys. accum @ ys) ` {ys \<in> set (subseqs bs). length accum + length ys = n}"
proof (induction bs arbitrary: accum)
  case (Cons b bs)
  have nil: "[] \<in> set (subseqs bs)" for bs :: "int list" by (induction bs) (auto simp: Let_def)
  show ?case
  proof (cases "length accum = n")
    case True
    then show ?thesis using nil [of "b # bs"] by (auto simp del: subseqs.simps)
  next
    case False
    have "(\<lambda>ys. accum @ ys) ` {ys \<in> set (subseqs (b # bs)). length accum + length ys = n} =
        (\<lambda>ys. accum @ b # ys) ` {ys \<in> set (subseqs bs). length (accum @ [b]) + length ys = n} \<union>
        (\<lambda>ys. accum @ ys) ` {ys \<in> set (subseqs bs). length accum + length ys = n}"
      unfolding subseqs.simps Let_def set_append set_map by force
    then show ?thesis using False by (simp only: combinations.simps if_False set_append Cons) simp
  qed
qed auto

lemma subseqs_length: "ys \<in> set (subseqs bs) \<Longrightarrow> length ys \<le> length bs"
  by (induction bs arbitrary: ys) (auto simp: Let_def dest: le_SucI)

lemma IterateBitMasks_set: "set (IterateBitMasks bits) = NewBitMask ` {ys \<in> set (subseqs bits). ys \<noteq> []}"
proof -
  have "set (IterateBitMasks bits) = NewBitMask ` (\<Union>n \<in> {1..<Suc (length bits)}. {ys \<in> set (subseqs bits). length ys = n})"
    unfolding IterateBitMasks_def by (auto simp: combinations_set image_iff)
  also have "(\<Union>n \<in> {1..<Suc (length bits)}. {ys \<in> set (subseqs bits). length ys = n}) = {ys \<in> set (subseqs bits). ys \<noteq> []}"
    by (auto simp: less_Suc_eq_le Suc_le_eq dest: subseqs_length)
  finally show ?thesis .
qed

subsection \<open>Evaluation\<close>

text \<open>The positions of the ones of a number, with which masks are evaluated quickly.\<close>

fun positions :: "nat \<Rightarrow> nat \<Rightarrow> nat list" where
  "positions k n = (if n = 0 then [] else if odd n then k # positions (Suc k) (n div 2) else positions (Suc k) (n div 2))"

declare positions.simps [simp del]

lemma filter_positions: "n < 2 ^ j \<Longrightarrow> filter (\<lambda>i. odd (n div 2 ^ (i - k))) [k..<k + j] = positions k n"
proof (induction j arbitrary: n k)
  case 0
  then show ?case by (simp add: positions.simps [of k 0])
next
  case (Suc j)
  show ?case
  proof (cases "n = 0")
    case False
    have "filter (\<lambda>i. odd (n div 2 ^ (i - k))) [Suc k..<Suc k + j] = filter (\<lambda>i. odd (n div 2 div 2 ^ (i - Suc k))) [Suc k..<Suc k + j]"
    proof (rule filter_cong [OF refl])
      fix i assume "i \<in> set [Suc k..<Suc k + j]"
      then have "i - k = Suc (i - Suc k)" by auto
      then show "odd (n div 2 ^ (i - k)) = odd (n div 2 div 2 ^ (i - Suc k))" by (simp add: div_mult2_eq)
    qed
    also have "\<dots> = positions (Suc k) (n div 2)" using Suc.prems by (intro Suc.IH) simp
    finally show ?thesis using False by (simp add: positions.simps [of k n] upt_conv_Cons del: upt_Suc)
  qed (simp add: positions.simps [of k 0])
qed

lemma bits_positions: "filter (bit s) [0..<64] = positions 0 (unat s)" for s :: "64 word"
proof -
  have "bit s i \<longleftrightarrow> odd (unat s div 2 ^ i)" for i
    using bit_unsigned_iff [where ?'a = nat, of s i] by (auto simp: bit_iff_odd [of "unat s"] dest: bit_imp_le_length)
  then have "filter (bit s) [0..<64] = filter (\<lambda>i. odd (unat s div 2 ^ (i - 0))) [0..<0 + 64]"
    by (intro filter_cong) (simp_all only: add_0 diff_zero)
  also have "\<dots> = positions 0 (unat s)" by (rule filter_positions) (use unsigned_less [of s] in simp)
  finally show ?thesis .
qed

lemma Count_code [code]: "bm_Count s = int (length (positions 0 (unat s)))"
  by (simp add: bm_Count_def bits_positions)

lemma GetBits_code [code]: "bm_GetBits s = map int (positions 0 (unat s))"
  by (simp only: bm_GetBits_def bits_list bits_positions)

end
