(* ===== verification/TopologyManager.thy ===== *)
theory TopologyManager
  imports Bitmask Pods
begin

section \<open>The topology manager\<close>

text \<open>
  \<open>pkg/kubelet/cm/topologymanager\<close>: hints, the merging of the hints of all providers, the four policies and
  the admission of a pod.  A hint provider is a record of the two functions the manager calls; they act on
  a state \<open>'w\<close> of all providers and are given the affinity that \<open>GetAffinity\<close> returns for the container.
  A nil mask is \<open>None\<close>; using the nil mask of a NUMA node number above 63 panics.
\<close>

subsection \<open>Hints\<close>

record topology_hint =
  th_NUMANodeAffinity :: "bit_mask option"
  th_Preferred :: bool

definition th_IsEqual :: "topology_hint \<Rightarrow> topology_hint \<Rightarrow> bool" where
  "th_IsEqual a b \<longleftrightarrow>
     th_Preferred a = th_Preferred b \<and>
     (case th_NUMANodeAffinity a of
        None \<Rightarrow> th_NUMANodeAffinity b = None
      | Some m \<Rightarrow> (case th_NUMANodeAffinity b of None \<Rightarrow> False | Some n \<Rightarrow> bm_IsEqual m n))"

definition th_LessThan :: "topology_hint \<Rightarrow> topology_hint \<Rightarrow> go_panic + bool" where
  "th_LessThan a b =
     (if th_Preferred a \<noteq> th_Preferred b then Inr (th_Preferred a)
      else
        (case (th_NUMANodeAffinity a, th_NUMANodeAffinity b) of
           (Some m, Some n) \<Rightarrow> Inr (bm_IsNarrowerThan m n)
         | _ \<Rightarrow> Inl NilDereference))"

text \<open>The hints of one provider by resource; \<open>None\<close> is a nil slice.\<close>

type_synonym resource_hints = "(string \<times> topology_hint list option) list"

definition filterProvidersHints :: "resource_hints list \<Rightarrow> topology_hint list list" where
  "filterProvidersHints ps =
     concat (map (\<lambda>hints.
       if hints = [] then [[\<lparr>th_NUMANodeAffinity = None, th_Preferred = True\<rparr>]]
       else map (\<lambda>(r, hs).
              case hs of
                None \<Rightarrow> [\<lparr>th_NUMANodeAffinity = None, th_Preferred = True\<rparr>]
              | Some l \<Rightarrow> if l = [] then [\<lparr>th_NUMANodeAffinity = None, th_Preferred = False\<rparr>] else l) hints) ps)"

text \<open>The permutations in the order of the nested loops.\<close>

fun all_permutations :: "topology_hint list list \<Rightarrow> topology_hint list list" where
  "all_permutations [] = [[]]"
| "all_permutations (hs # rest) = concat (map (\<lambda>h. map (\<lambda>p. h # p) (all_permutations rest)) hs)"

text \<open>Both functions are given the default affinity, the mask of all NUMA nodes.\<close>

definition mergePermutation :: "bit_mask \<Rightarrow> topology_hint list \<Rightarrow> bit_mask \<times> bool" where
  "mergePermutation dflt p =
     (bm_And dflt (map (\<lambda>h. case th_NUMANodeAffinity h of None \<Rightarrow> dflt | Some m \<Rightarrow> m) p), list_all th_Preferred p)"

definition merge_step :: "bit_mask \<times> bool \<Rightarrow> bit_mask \<times> bool \<Rightarrow> bit_mask \<times> bool" where
  "merge_step best merged =
     (if bm_Count (fst merged) = 0 then best
      else if snd merged \<and> \<not> snd best then merged
      else if \<not> snd merged \<and> snd best then best
      else if \<not> bm_IsNarrowerThan (fst merged) (fst best) then best
      else merged)"

definition merged_best :: "bit_mask \<Rightarrow> topology_hint list list \<Rightarrow> bit_mask \<times> bool" where
  "merged_best dflt hs = foldl merge_step (dflt, False) (map (mergePermutation dflt) (all_permutations hs))"

definition mergeFilteredHints :: "int list \<Rightarrow> topology_hint list list \<Rightarrow> go_panic + topology_hint" where
  "mergeFilteredHints numaNodes hs =
     (case NewBitMask numaNodes of
        None \<Rightarrow> if all_permutations hs = [] then Inr \<lparr>th_NUMANodeAffinity = None, th_Preferred = False\<rparr> else Inl NilDereference
      | Some dflt \<Rightarrow>
          (case merged_best dflt hs of (m, p) \<Rightarrow> Inr \<lparr>th_NUMANodeAffinity = Some m, th_Preferred = p\<rparr>))"

definition filterSingleNumaHints :: "topology_hint list list \<Rightarrow> topology_hint list list" where
  "filterSingleNumaHints =
     map (filter (\<lambda>h. th_Preferred h \<and> (case th_NUMANodeAffinity h of None \<Rightarrow> True | Some m \<Rightarrow> bm_Count m = 1)))"

subsection \<open>Policies\<close>

datatype topology_policy =
  nonePolicy | bestEffortPolicy "int list" | restrictedPolicy "int list" | singleNumaNodePolicy "int list"

text \<open>\<open>Merge\<close> with the decision of \<open>canAdmitPodResult\<close>.\<close>

definition tp_Merge :: "topology_policy \<Rightarrow> resource_hints list \<Rightarrow> go_panic + topology_hint \<times> bool" where
  "tp_Merge p ps =
     (case p of
        nonePolicy \<Rightarrow> Inr (\<lparr>th_NUMANodeAffinity = None, th_Preferred = False\<rparr>, True)
      | bestEffortPolicy nodes \<Rightarrow>
          map_sum id (\<lambda>h. (h, True)) (mergeFilteredHints nodes (filterProvidersHints ps))
      | restrictedPolicy nodes \<Rightarrow>
          map_sum id (\<lambda>h. (h, th_Preferred h)) (mergeFilteredHints nodes (filterProvidersHints ps))
      | singleNumaNodePolicy nodes \<Rightarrow>
          (case mergeFilteredHints nodes (filterSingleNumaHints (filterProvidersHints ps)) of
             Inl x \<Rightarrow> Inl x
           | Inr h \<Rightarrow>
               (case (th_NUMANodeAffinity h, NewBitMask nodes) of
                  (Some m, Some dflt) \<Rightarrow>
                    let h' = (if bm_IsEqual m dflt then h\<lparr>th_NUMANodeAffinity := None\<rparr> else h) in Inr (h', th_Preferred h')
                | _ \<Rightarrow> Inl NilDereference)))"

subsection \<open>The manager\<close>

record topology_manager =
  tm_podTopologyHints :: "(string \<times> (string \<times> topology_hint) list) list"
  tm_podMap :: "(string \<times> string) list"
  tm_policy :: topology_policy

record 'w hint_provider =
  hp_GetTopologyHints :: "pod \<Rightarrow> container \<Rightarrow> 'w \<Rightarrow> go_panic + resource_hints \<times> 'w"
  hp_Allocate :: "pod \<Rightarrow> container \<Rightarrow> topology_hint \<Rightarrow> 'w \<Rightarrow> bool \<times> 'w"

definition maxAllowableNUMANodes :: nat where
  "maxAllowableNUMANodes = 8"

definition NewManager :: "int list \<Rightarrow> string \<Rightarrow> topology_manager option" where
  "NewManager numaNodes name =
     (if name \<noteq> ''none'' \<and> maxAllowableNUMANodes < length numaNodes then None
      else
        map_option (\<lambda>p. \<lparr>tm_podTopologyHints = [], tm_podMap = [], tm_policy = p\<rparr>)
          (if name = ''none'' then Some nonePolicy
           else if name = ''best-effort'' then Some (bestEffortPolicy numaNodes)
           else if name = ''restricted'' then Some (restrictedPolicy numaNodes)
           else if name = ''single-numa-node'' then Some (singleNumaNodePolicy numaNodes)
           else None))"

definition tm_hints :: "topology_manager \<Rightarrow> string \<Rightarrow> (string \<times> topology_hint) list" where
  "tm_hints m pod = (case map_of (tm_podTopologyHints m) pod of None \<Rightarrow> [] | Some hs \<Rightarrow> hs)"

definition GetAffinity :: "topology_manager \<Rightarrow> string \<Rightarrow> string \<Rightarrow> topology_hint" where
  "GetAffinity m pod c =
     (case map_of (tm_hints m pod) c of None \<Rightarrow> \<lparr>th_NUMANodeAffinity = None, th_Preferred = False\<rparr> | Some h \<Rightarrow> h)"

fun accumulateProvidersHints ::
    "'w hint_provider list \<Rightarrow> pod \<Rightarrow> container \<Rightarrow> 'w \<Rightarrow> go_panic + resource_hints list \<times> 'w" where
  "accumulateProvidersHints [] p c w = Inr ([], w)"
| "accumulateProvidersHints (h # hs) p c w =
     (case hp_GetTopologyHints h p c w of
        Inl x \<Rightarrow> Inl x
      | Inr (hints, w1) \<Rightarrow>
          (case accumulateProvidersHints hs p c w1 of Inl x \<Rightarrow> Inl x | Inr (rest, w2) \<Rightarrow> Inr (hints # rest, w2)))"

text \<open>The flag is the error of an allocation, which ends the loop.\<close>

fun allocateAlignedResources :: "'w hint_provider list \<Rightarrow> topology_manager \<Rightarrow> pod \<Rightarrow> container \<Rightarrow> 'w \<Rightarrow> bool \<times> 'w" where
  "allocateAlignedResources [] m p c w = (False, w)"
| "allocateAlignedResources (h # hs) m p c w =
     (case hp_Allocate h p c (GetAffinity m (p_UID p) (c_Name c)) w of
        (True, w1) \<Rightarrow> (True, w1)
      | (False, w1) \<Rightarrow> allocateAlignedResources hs m p c w1)"

definition calculateAffinity ::
    "'w hint_provider list \<Rightarrow> topology_manager \<Rightarrow> pod \<Rightarrow> container \<Rightarrow> 'w \<Rightarrow> go_panic + (topology_hint \<times> bool) \<times> 'w" where
  "calculateAffinity ps m p c w =
     (case accumulateProvidersHints ps p c w of
        Inl x \<Rightarrow> Inl x
      | Inr (hints, w1) \<Rightarrow> map_sum id (\<lambda>r. (r, w1)) (tp_Merge (tm_policy m) hints))"

definition tm_AddContainer :: "pod \<Rightarrow> string \<Rightarrow> topology_manager \<Rightarrow> topology_manager" where
  "tm_AddContainer p containerID m = m\<lparr>tm_podMap := AList.update containerID (p_UID p) (tm_podMap m)\<rparr>"

definition tm_RemoveContainer :: "string \<Rightarrow> topology_manager \<Rightarrow> topology_manager" where
  "tm_RemoveContainer containerID m =
     (let uid = (case map_of (tm_podMap m) containerID of None \<Rightarrow> [] | Some u \<Rightarrow> u);
          m1 = m\<lparr>tm_podMap := AList.delete containerID (tm_podMap m)\<rparr>
      in case map_of (tm_podTopologyHints m) uid of
           None \<Rightarrow> m1
         | Some hs \<Rightarrow>
             let hs' = AList.delete containerID hs in
             m1\<lparr>tm_podTopologyHints := (if hs' = [] then AList.delete uid (tm_podTopologyHints m)
                                         else AList.update uid hs' (tm_podTopologyHints m))\<rparr>)"

definition set_hint :: "string \<Rightarrow> string \<Rightarrow> topology_hint \<Rightarrow> topology_manager \<Rightarrow> topology_manager" where
  "set_hint pod c h m = m\<lparr>tm_podTopologyHints := AList.update pod (AList.update c h (tm_hints m pod)) (tm_podTopologyHints m)\<rparr>"

datatype admit_result = Admitted | TopologyAffinityError | UnexpectedAdmissionError

text \<open>The loop of \<open>Admit\<close> over the init containers and the containers.\<close>

fun admit_containers ::
    "'w hint_provider list \<Rightarrow> pod \<Rightarrow> container list \<Rightarrow> topology_manager \<Rightarrow> 'w \<Rightarrow> go_panic + admit_result \<times> topology_manager \<times> 'w" where
  "admit_containers ps p [] m w = Inr (Admitted, m, w)"
| "admit_containers ps p (c # cs) m w =
     (if tm_policy m = nonePolicy then
        (case allocateAlignedResources ps m p c w of
           (True, w1) \<Rightarrow> Inr (UnexpectedAdmissionError, m, w1)
         | (False, w1) \<Rightarrow> admit_containers ps p cs m w1)
      else
        (case calculateAffinity ps m p c w of
           Inl x \<Rightarrow> Inl x
         | Inr ((h, admit), w1) \<Rightarrow>
             if \<not> admit then Inr (TopologyAffinityError, m, w1)
             else
               let m1 = set_hint (p_UID p) (c_Name c) h m in
               (case allocateAlignedResources ps m1 p c w1 of
                  (True, w2) \<Rightarrow> Inr (UnexpectedAdmissionError, m1, w2)
                | (False, w2) \<Rightarrow> admit_containers ps p cs m1 w2)))"

definition tm_Admit :: "'w hint_provider list \<Rightarrow> pod \<Rightarrow> topology_manager \<Rightarrow> 'w \<Rightarrow> go_panic + admit_result \<times> topology_manager \<times> 'w" where
  "tm_Admit ps p m w = admit_containers ps p (p_InitContainers p @ p_Containers p) m w"

subsection \<open>The best hint\<close>

lemma narrower_lex: "bm_IsNarrowerThan s m \<longleftrightarrow> bm_Count s < bm_Count m \<or> bm_Count s = bm_Count m \<and> unat s < unat m"
  by (auto simp: bm_IsNarrowerThan_def word_less_nat_alt)

lemma lex_order:
  fixes a b c :: int and x y z :: nat
  shows "a < b \<or> a = b \<and> x < y \<Longrightarrow> b < c \<or> b = c \<and> y < z \<Longrightarrow> a < c \<or> a = c \<and> x < z"
    "\<not> (b < a \<or> b = a \<and> y < x) \<Longrightarrow> b < c \<or> b = c \<and> y < z \<Longrightarrow> a < c \<or> a = c \<and> x < z"
  by auto

lemma narrower_trans:
  "bm_IsNarrowerThan a b \<Longrightarrow> bm_IsNarrowerThan b c \<Longrightarrow> bm_IsNarrowerThan a c"
  "\<not> bm_IsNarrowerThan b a \<Longrightarrow> bm_IsNarrowerThan b c \<Longrightarrow> bm_IsNarrowerThan a c"
  unfolding narrower_lex by (rule lex_order(1); assumption) (rule lex_order(2); assumption)

lemma narrower_irrefl: "\<not> bm_IsNarrowerThan a a"
  unfolding narrower_lex by simp

text \<open>A hint is better if it is preferred, and among equals if it is narrower.\<close>

definition beats :: "bit_mask \<times> bool \<Rightarrow> bit_mask \<times> bool \<Rightarrow> bool" where
  "beats a b \<longleftrightarrow> snd a \<and> \<not> snd b \<or> snd a = snd b \<and> bm_IsNarrowerThan (fst a) (fst b)"

lemma merge_step_beats: "merge_step b m = (if bm_Count (fst m) \<noteq> 0 \<and> beats m b then m else b)"
  unfolding merge_step_def beats_def by (cases "snd b"; cases "snd m"; simp)

lemma beats_trans: "beats a b \<Longrightarrow> beats b c \<Longrightarrow> beats a c" "\<not> beats b a \<Longrightarrow> beats b c \<Longrightarrow> beats a c"
  unfolding beats_def using narrower_trans [where a = "fst a" and b = "fst b" and c = "fst c"]
  by (cases "snd a"; cases "snd b"; cases "snd c"; simp)+

lemma foldl_merge:
  fixes b :: "bit_mask \<times> bool" and ms :: "(bit_mask \<times> bool) list"
  defines "r \<equiv> foldl merge_step b ms"
  shows "(r = b \<or> r \<in> set ms \<and> bm_Count (fst r) \<noteq> 0 \<and> beats r b) \<and> (\<forall>m \<in> set ms. bm_Count (fst m) \<noteq> 0 \<longrightarrow> \<not> beats m r)"
  unfolding r_def
proof (induction ms rule: rev_induct)
  case (snoc m ms)
  let ?r = "foldl merge_step b ms"
  note A = conjunct1 [OF snoc] and B = conjunct2 [OF snoc, rule_format]
  have f: "foldl merge_step b (ms @ [m]) = merge_step ?r m" by simp
  show ?case
  proof (cases "bm_Count (fst m) \<noteq> 0 \<and> beats m ?r")
    case True
    then have r: "foldl merge_step b (ms @ [m]) = m" unfolding f using merge_step_beats [of ?r m] by auto
    have "beats m b" using A beats_trans(1) [OF conjunct2 [OF True]] True by metis
    moreover have "\<not> beats m' m" if "m' \<in> set (ms @ [m])" "bm_Count (fst m') \<noteq> 0" for m'
    proof (cases "m' = m")
      case False
      then have "\<not> beats m' ?r" using B that by simp
      then show ?thesis using beats_trans(1) True by blast
    qed (use narrower_irrefl in \<open>simp add: beats_def\<close>)
    ultimately show ?thesis unfolding r using True by simp
  next
    case False
    then have r: "foldl merge_step b (ms @ [m]) = ?r" unfolding f using merge_step_beats [of ?r m] by auto
    have "\<not> beats m' ?r" if "m' \<in> set (ms @ [m])" "bm_Count (fst m') \<noteq> 0" for m'
      using B [OF _ that(2)] False that by (cases "m' = m") simp_all
    moreover have "set ms \<subseteq> set (ms @ [m])" by auto
    ultimately show ?thesis unfolding r using A by blast
  qed
qed simp

lemma all_permutations_set: "set (all_permutations hs) = {p. list_all2 (\<lambda>h l. h \<in> set l) p hs}"
proof (induction hs)
  case (Cons h hs)
  have "p \<in> set (all_permutations (h # hs)) \<longleftrightarrow> list_all2 (\<lambda>h l. h \<in> set l) p (h # hs)" for p
    by (cases p) (auto simp: Cons)
  then show ?case by blast
qed simp

lemma merged_best_spec:
  assumes "merged_best dflt hs = r"
  shows "(r = (dflt, False) \<or> (\<exists>p. list_all2 (\<lambda>h l. h \<in> set l) p hs \<and> r = mergePermutation dflt p \<and> bm_Count (fst r) \<noteq> 0)) \<and>
    (\<forall>p. list_all2 (\<lambda>h l. h \<in> set l) p hs \<longrightarrow> bm_Count (fst (mergePermutation dflt p)) \<noteq> 0 \<longrightarrow> \<not> beats (mergePermutation dflt p) r)"
proof -
  have "set (map (mergePermutation dflt) (all_permutations hs)) = mergePermutation dflt ` {p. list_all2 (\<lambda>h l. h \<in> set l) p hs}"
    by (simp add: all_permutations_set)
  then show ?thesis
    using foldl_merge [of "(dflt, False)" "map (mergePermutation dflt) (all_permutations hs)"]
    unfolding merged_best_def [symmetric] assms by blast
qed

lemma merge_bits: "bits_of (fst (mergePermutation dflt p)) = bits_of dflt \<inter> (\<Inter>h \<in> set p. case th_NUMANodeAffinity h of None \<Rightarrow> UNIV | Some m \<Rightarrow> bits_of m)"
  by (auto simp: mergePermutation_def bits_of_And split: option.splits)

end
