(* ===== verification/CpuPolicy.thy ===== *)
theory CpuPolicy
  imports CpuState TopologyManager PodResources
begin

section \<open>The static policy of the CPU manager\<close>

text \<open>
  \<open>pkg/kubelet/cm/cpumanager/policy_static.go\<close>: containers of guaranteed pods with a whole number of CPUs get
  CPUs of their own, all others run on the shared set.  The NUMA affinity of a container is what the topology
  manager's \<open>GetAffinity\<close> returns; \<open>sort.Slice\<close> is an argument as in \<open>CpuTopology\<close>.
\<close>

record static_policy =
  sp_topology :: cpu_topology
  sp_reserved :: "int set"

definition NewStaticPolicy :: "slice_sort \<Rightarrow> cpu_topology \<Rightarrow> int \<Rightarrow> int set \<Rightarrow> static_policy option" where
  "NewStaticPolicy srt topo numReservedCPUs reservedCPUs =
     (let reserved = (if 0 < cs_Size reservedCPUs then reservedCPUs
                      else (case takeByTopology srt topo (CPUs (tp_CPUDetails topo)) numReservedCPUs of
                              None \<Rightarrow> NewCPUSet [] | Some r \<Rightarrow> r))
      in if cs_Size reserved \<noteq> numReservedCPUs then None
         else Some \<lparr>sp_topology = topo, sp_reserved = reserved\<rparr>)"

datatype validate_error = DefaultEmpty | ReservedMissing | OverlapsDefault | CPUsChanged

definition all_sets :: "cpu_assignments \<Rightarrow> int set list" where
  "all_sets as = concat (map (\<lambda>(pod, cs). map snd cs) as)"

definition validateState :: "static_policy \<Rightarrow> cpu_state \<Rightarrow> validate_error + cpu_state" where
  "validateState p s =
     (let as = GetCPUAssignments s;
          dflt = GetDefaultCPUSet s;
          all = CPUs (tp_CPUDetails (sp_topology p))
      in if cs_IsEmpty dflt then
           (if as \<noteq> [] then Inl DefaultEmpty else Inr (SetDefaultCPUSet all s))
         else if \<not> cs_Equals (cs_Intersection (sp_reserved p) dflt) (sp_reserved p) then Inl ReservedMissing
         else if list_ex (\<lambda>cset. \<not> cs_IsEmpty (cs_Intersection dflt cset)) (all_sets as) then Inl OverlapsDefault
         else if \<not> cs_Equals (cs_UnionAll dflt (all_sets as)) all then Inl CPUsChanged
         else Inr s)"

definition sp_Start :: "static_policy \<Rightarrow> cpu_state \<Rightarrow> validate_error + cpu_state" where
  "sp_Start = validateState"

definition assignableCPUs :: "static_policy \<Rightarrow> cpu_state \<Rightarrow> int set" where
  "assignableCPUs p s = cs_Difference (GetDefaultCPUSet s) (sp_reserved p)"

definition guaranteedCPUs :: "pod \<Rightarrow> container \<Rightarrow> int" where
  "guaranteedCPUs pod c =
     (if GetPodQOS pod \<noteq> PodQOSGuaranteed then 0
      else
        let q = rl_index (c_Requests c) ResourceCPU in
        if wrap64 (q_Value q * 1000) \<noteq> q_MilliValue q then 0 else q_Value q)"

text \<open>The CPUs of the NUMA nodes of the affinity that can be assigned.\<close>

definition alignedCPUs :: "static_policy \<Rightarrow> cpu_state \<Rightarrow> bit_mask \<Rightarrow> int set" where
  "alignedCPUs p s m =
     foldl (\<lambda>acc node. cs_Union acc (cs_Intersection (assignableCPUs p s) (CPUsInNUMANodes (tp_CPUDetails (sp_topology p)) [node])))
       (NewCPUSet []) (bm_GetBits m)"

text \<open>The first of the two allocations, from the aligned CPUs.\<close>

definition take_aligned :: "slice_sort \<Rightarrow> static_policy \<Rightarrow> int \<Rightarrow> bit_mask option \<Rightarrow> cpu_state \<Rightarrow> int set option" where
  "take_aligned srt p numCPUs numaAffinity s =
     (case numaAffinity of
        None \<Rightarrow> Some (NewCPUSet [])
      | Some m \<Rightarrow>
          let al = alignedCPUs p s m;
              n = (if numCPUs < cs_Size al then numCPUs else cs_Size al)
          in map_option (cs_Union (NewCPUSet [])) (takeByTopology srt (sp_topology p) al n))"

definition allocateCPUs ::
    "slice_sort \<Rightarrow> static_policy \<Rightarrow> int \<Rightarrow> bit_mask option \<Rightarrow> cpu_state \<Rightarrow> (int set \<times> cpu_state) option" where
  "allocateCPUs srt p numCPUs numaAffinity s =
     (case take_aligned srt p numCPUs numaAffinity s of
        None \<Rightarrow> None
      | Some result \<Rightarrow>
          (case takeByTopology srt (sp_topology p) (cs_Difference (assignableCPUs p s) result) (numCPUs - cs_Size result) of
             None \<Rightarrow> None
           | Some remaining \<Rightarrow>
               let r = cs_Union result remaining in
               Some (r, SetDefaultCPUSet (cs_Difference (GetDefaultCPUSet s) r) s)))"

text \<open>The init containers of the pod with the container's name give their CPUs back to the shared set.\<close>

definition release_init :: "pod \<Rightarrow> container \<Rightarrow> cpu_state \<Rightarrow> cpu_state" where
  "release_init pod c s =
     foldl (\<lambda>s i. if c_Name c = c_Name i then
                    (case GetCPUSet s (p_UID pod) (c_Name c) of
                       None \<Rightarrow> s
                     | Some toRelease \<Rightarrow> SetDefaultCPUSet (cs_Union (GetDefaultCPUSet s) toRelease) s)
                  else s)
       s (p_InitContainers pod)"

text \<open>The flag is whether an error is returned.\<close>

definition sp_Allocate :: "slice_sort \<Rightarrow> static_policy \<Rightarrow> topology_hint \<Rightarrow> pod \<Rightarrow> container \<Rightarrow> cpu_state \<Rightarrow> bool \<times> cpu_state" where
  "sp_Allocate srt p hint pod c s =
     (let n = guaranteedCPUs pod c in
      if n = 0 then (False, s)
      else
        (case GetCPUSet s (p_UID pod) (c_Name c) of
           Some _ \<Rightarrow> (False, s)
         | None \<Rightarrow>
             (case allocateCPUs srt p n (th_NUMANodeAffinity hint) s of
                None \<Rightarrow> (True, s)
              | Some (cset, s1) \<Rightarrow> (False, release_init pod c (SetCPUSet (p_UID pod) (c_Name c) cset s1)))))"

definition sp_RemoveContainer :: "string \<Rightarrow> string \<Rightarrow> cpu_state \<Rightarrow> cpu_state" where
  "sp_RemoveContainer podUID containerName s =
     (case GetCPUSet s podUID containerName of
        None \<Rightarrow> s
      | Some toRelease \<Rightarrow>
          let s1 = st_Delete podUID containerName s in
          SetDefaultCPUSet (cs_Union (GetDefaultCPUSet s1) toRelease) s1)"

subsection \<open>Topology hints\<close>

text \<open>The state of the first loop: the smallest affinity, the fewest sockets on it, the masks that fit.\<close>

record hint_scan =
  hs_minAffinitySize :: int
  hs_minSockets :: int
  hs_masks :: "bit_mask list"

definition numa_of :: "cpu_details \<Rightarrow> int \<Rightarrow> int" where
  "numa_of d c = (case map_of d c of None \<Rightarrow> 0 | Some i \<Rightarrow> ci_NUMANodeID i)"

definition scan_mask :: "cpu_details \<Rightarrow> int set \<Rightarrow> int \<Rightarrow> hint_scan \<Rightarrow> bit_mask \<Rightarrow> hint_scan" where
  "scan_mask d available request h m =
     (let cpusInMask = cs_Size (CPUsInNUMANodes d (bm_GetBits m));
          socketsInMask = cs_Size (SocketsInNUMANodes d (bm_GetBits m));
          h1 = (if request \<le> cpusInMask \<and> bm_Count m < hs_minAffinitySize h then
                  h\<lparr>hs_minAffinitySize := bm_Count m,
                    hs_minSockets := (if socketsInMask < hs_minSockets h then socketsInMask else hs_minSockets h)\<rparr>
                else h);
          numMatching = int (length (filter (\<lambda>c. bm_IsSet m (numa_of d c)) (cs_ToSlice available)))
      in if numMatching < request then h1 else h1\<lparr>hs_masks := hs_masks h1 @ [m]\<rparr>)"

definition generateCPUTopologyHints :: "static_policy \<Rightarrow> int set \<Rightarrow> int \<Rightarrow> go_panic + topology_hint list" where
  "generateCPUTopologyHints p available request =
     (let d = tp_CPUDetails (sp_topology p);
          masks = IterateBitMasks (cs_ToSlice (NUMANodes d));
          h0 = \<lparr>hs_minAffinitySize = cs_Size (NUMANodes d), hs_minSockets = cs_Size (Sockets d), hs_masks = []\<rparr>
      in if None \<in> set masks then Inl NilDereference
         else
           let h = foldl (scan_mask d available request) h0 (map the masks) in
           Inr (map (\<lambda>m. \<lparr>th_NUMANodeAffinity = Some m,
                            th_Preferred = (bm_Count m = hs_minAffinitySize h \<and>
                                            cs_Size (SocketsInNUMANodes d (bm_GetBits m)) = hs_minSockets h)\<rparr>)
                 (hs_masks h)))"

definition sp_GetTopologyHints :: "static_policy \<Rightarrow> pod \<Rightarrow> container \<Rightarrow> cpu_state \<Rightarrow> go_panic + resource_hints" where
  "sp_GetTopologyHints p pod c s =
     (if map_of (c_Requests c) ResourceCPU = None then Inr []
      else
        let requested = guaranteedCPUs pod c in
        if requested = 0 then Inr []
        else
          (case GetCPUSet s (p_UID pod) (c_Name c) of
             Some allocated \<Rightarrow>
               if cs_Size allocated \<noteq> requested then Inr [(ResourceCPU, Some [])]
               else map_sum id (\<lambda>hs. [(ResourceCPU, Some hs)]) (generateCPUTopologyHints p allocated requested)
           | None \<Rightarrow>
               map_sum id (\<lambda>hs. [(ResourceCPU, Some hs)]) (generateCPUTopologyHints p (assignableCPUs p s) requested)))"

end
