(* ===== verification/CpuPolicyLaws.thy ===== *)
theory CpuPolicyLaws
  imports CpuPolicy
begin

section \<open>Exclusive CPUs\<close>

text \<open>
  The invariant of the static policy: the shared set and the sets of the containers are a partition of all CPUs
  and the reserved ones are shared.  Allocation and removal keep it for containers that are not init
  containers; for those the code breaks it.
\<close>

subsection \<open>Allocation\<close>

definition srt_ok :: "slice_sort \<Rightarrow> bool" where
  "srt_ok srt \<longleftrightarrow> (\<forall>lt xs. mset (srt lt xs) = mset xs)"

lemma take_sub:
  assumes "srt_ok srt" "distinct (map fst (tp_CPUDetails topo))" "available \<subseteq> CPUs (tp_CPUDetails topo)" "0 \<le> n"
  shows "if n \<le> cs_Size available then \<exists>r. takeByTopology srt topo available n = Some r \<and> r \<subseteq> available \<and> cs_Size r = n
    else takeByTopology srt topo available n = None"
proof (cases "0 < n")
  case True
  have "CPUs (tp_CPUDetails topo) \<inter> available = available" using assms(3) by blast
  then show ?thesis using takeByTopology_result [of srt topo n available] assms(1,2) True by (auto simp: srt_ok_def)
next
  case False
  then have "takeByTopology srt topo available n = Some {}"
    by (simp add: takeByTopology_def Let_def isSatisfied_def newCPUAccumulator_def cpu_sets)
  then show ?thesis using False assms(4) by (auto simp: cs_Size_def)
qed

lemma aligned_eq: "alignedCPUs p s m = assignableCPUs p s \<inter> CPUsInNUMANodes (tp_CPUDetails (sp_topology p)) (bm_GetBits m)"
proof -
  let ?d = "tp_CPUDetails (sp_topology p)"
  have "foldl (\<lambda>acc node. cs_Union acc (cs_Intersection A (CPUsInNUMANodes ?d [node]))) acc ns = acc \<union> A \<inter> CPUsInNUMANodes ?d ns" for A acc ns
    by (induction ns arbitrary: acc) (auto simp: cpu_sets CPUsInNUMANodes_def gather_def)
  then show ?thesis by (simp add: alignedCPUs_def cpu_sets)
qed

lemma Size_diff: "finite A \<Longrightarrow> B \<subseteq> A \<Longrightarrow> cs_Size (A - B) = cs_Size A - cs_Size B"
  by (simp add: cs_Size_def card_Diff_subset finite_subset card_mono of_nat_diff)

lemma allocateCPUs_ok:
  assumes srt: "srt_ok srt" and d: "distinct (map fst (tp_CPUDetails (sp_topology p)))"
    and sub: "GetDefaultCPUSet s \<subseteq> CPUs (tp_CPUDetails (sp_topology p))" and n: "0 \<le> n"
  shows "if n \<le> cs_Size (assignableCPUs p s) then
      \<exists>r. allocateCPUs srt p n aff s = Some (r, SetDefaultCPUSet (GetDefaultCPUSet s - r) s) \<and> r \<subseteq> assignableCPUs p s \<and>
        cs_Size r = n \<and> (\<forall>m. aff = Some m \<longrightarrow> n \<le> cs_Size (alignedCPUs p s m) \<longrightarrow> r \<subseteq> alignedCPUs p s m)
    else allocateCPUs srt p n aff s = None"
proof -
  let ?topo = "sp_topology p" and ?A = "assignableCPUs p s"
  have A: "?A \<subseteq> CPUs (tp_CPUDetails ?topo)" using sub by (auto simp: assignableCPUs_def cpu_sets)
  then have fin: "finite ?A" by (rule finite_subset) simp
  obtain r0 where r0: "take_aligned srt p n aff s = Some r0" "r0 \<subseteq> ?A" "cs_Size r0 \<le> n"
    "\<And>m. aff = Some m \<Longrightarrow> r0 \<subseteq> alignedCPUs p s m" "\<And>m. aff = Some m \<Longrightarrow> n \<le> cs_Size (alignedCPUs p s m) \<Longrightarrow> cs_Size r0 = n"
  proof (cases aff)
    case None
    then show ?thesis using that [of "{}"] n by (simp add: take_aligned_def cpu_sets cs_Size_def)
  next
    case (Some m)
    let ?al = "alignedCPUs p s m" and ?k = "if n < cs_Size (alignedCPUs p s m) then n else cs_Size (alignedCPUs p s m)"
    have al: "?al \<subseteq> ?A" unfolding aligned_eq by blast
    have k: "0 \<le> ?k" "?k \<le> cs_Size ?al" using n Size_nonneg [of ?al] by auto
    obtain r where r: "takeByTopology srt ?topo ?al ?k = Some r" "r \<subseteq> ?al" "cs_Size r = ?k"
      using take_sub [OF srt d subset_trans [OF al A] k(1)] k(2) by auto
    have "take_aligned srt p n aff s = Some r" using Some r(1) by (simp add: take_aligned_def Let_def cpu_sets)
    then show ?thesis using that [of r] r al Some by auto
  qed
  have alloc: "allocateCPUs srt p n aff s =
      (case takeByTopology srt ?topo (?A - r0) (n - cs_Size r0) of
         None \<Rightarrow> None | Some r1 \<Rightarrow> Some (r0 \<union> r1, SetDefaultCPUSet (GetDefaultCPUSet s - (r0 \<union> r1)) s))"
    unfolding allocateCPUs_def r0(1) by (simp add: cpu_sets Let_def split: option.split)
  have rest: "cs_Size (?A - r0) = cs_Size ?A - cs_Size r0" by (rule Size_diff [OF fin r0(2)])
  have t: "if n - cs_Size r0 \<le> cs_Size (?A - r0)
    then \<exists>r. takeByTopology srt ?topo (?A - r0) (n - cs_Size r0) = Some r \<and> r \<subseteq> ?A - r0 \<and> cs_Size r = n - cs_Size r0
    else takeByTopology srt ?topo (?A - r0) (n - cs_Size r0) = None"
    by (rule take_sub [OF srt d]) (use A r0(3) in auto)
  show ?thesis
  proof (cases "n \<le> cs_Size ?A")
    case True
    then obtain r1 where r1: "takeByTopology srt ?topo (?A - r0) (n - cs_Size r0) = Some r1" "r1 \<subseteq> ?A - r0" "cs_Size r1 = n - cs_Size r0"
      using t rest by auto
    have f1: "finite r0" "finite r1" "r0 \<inter> r1 = {}" using r0(2) r1(2) fin by (auto intro: finite_subset)
    then have "cs_Size (r0 \<union> r1) = n" using r1(3) by (simp add: cs_Size_def card_Un_disjoint)
    moreover have "r1 = {}" if "cs_Size r0 = n" using that r1(3) f1(2) by (simp add: cs_Size_def)
    moreover have "r0 \<union> r1 \<subseteq> ?A" using r0(2) r1(2) by blast
    ultimately show ?thesis using True alloc r0(4,5) r1(1) by auto
  next
    case False
    then show ?thesis using t rest alloc by auto
  qed
qed

subsection \<open>The partition of the CPUs\<close>

abbreviation all_cpus :: "static_policy \<Rightarrow> int set" where
  "all_cpus p \<equiv> CPUs (tp_CPUDetails (sp_topology p))"

definition taken :: "cpu_state \<Rightarrow> int set" where
  "taken s = {c. \<exists>pod n cset. assigned s pod n = Some cset \<and> c \<in> cset}"

definition exclusive_ok :: "static_policy \<Rightarrow> cpu_state \<Rightarrow> bool" where
  "exclusive_ok p s \<longleftrightarrow>
     sp_reserved p \<subseteq> GetDefaultCPUSet s \<and> GetDefaultCPUSet s \<union> taken s = all_cpus p \<and>
     (\<forall>pod n cset. assigned s pod n = Some cset \<longrightarrow> cset \<inter> GetDefaultCPUSet s = {}) \<and>
     (\<forall>pod n cset pod' n' cset'. assigned s pod n = Some cset \<longrightarrow> assigned s pod' n' = Some cset' \<longrightarrow>
        pod \<noteq> pod' \<or> n \<noteq> n' \<longrightarrow> cset \<inter> cset' = {})"

definition policy_ok :: "slice_sort \<Rightarrow> static_policy \<Rightarrow> bool" where
  "policy_ok srt p \<longleftrightarrow> srt_ok srt \<and> distinct (map fst (tp_CPUDetails (sp_topology p))) \<and> sp_reserved p \<subseteq> all_cpus p"

lemma exclusive_disjoint:
  assumes "exclusive_ok p s"
  shows "assigned s pod n = Some cset \<Longrightarrow> cset \<inter> GetDefaultCPUSet s = {}"
    "assigned s pod n = Some cset \<Longrightarrow> assigned s pod' n' = Some cset' \<Longrightarrow> pod \<noteq> pod' \<or> n \<noteq> n' \<Longrightarrow> cset \<inter> cset' = {}"
proof -
  note c = assms [unfolded exclusive_ok_def, THEN conjunct2, THEN conjunct2]
  note a = c [THEN conjunct1] c [THEN conjunct2]
  show "assigned s pod n = Some cset \<Longrightarrow> cset \<inter> GetDefaultCPUSet s = {}" using a(1) by blast
  show "assigned s pod n = Some cset \<Longrightarrow> assigned s pod' n' = Some cset' \<Longrightarrow> pod \<noteq> pod' \<or> n \<noteq> n' \<Longrightarrow> cset \<inter> cset' = {}"
    using a(2) [rule_format, of pod n cset pod' n' cset'] by blast
qed

lemma assign_ok:
  assumes "exclusive_ok p s" "assigned s pod n = None" "r \<subseteq> assignableCPUs p s" "GetDefaultCPUSet s' = GetDefaultCPUSet s - r"
    and "\<And>pod' n'. assigned s' pod' n' = (if pod' = pod \<and> n' = n then Some r else assigned s pod' n')"
  shows "exclusive_ok p s'"
proof -
  have r: "r \<subseteq> GetDefaultCPUSet s" "r \<inter> sp_reserved p = {}" using assms(3) by (auto simp: assignableCPUs_def cpu_sets)
  have same: "assigned s' pod' n' = Some cset" if "assigned s pod' n' = Some cset" for pod' n' cset
    using that assms(2,5) by auto
  have "assigned s' pod n = Some r" using assms(5) by simp
  then have "r \<subseteq> taken s'" "taken s \<subseteq> taken s'" using same unfolding taken_def by blast+
  moreover have "taken s' \<subseteq> taken s \<union> r" by (auto simp: taken_def assms(5) split: if_splits)
  ultimately have t: "taken s' = taken s \<union> r" by blast
  show ?thesis unfolding exclusive_ok_def t assms(4,5)
  proof (intro conjI allI impI)
    show "sp_reserved p \<subseteq> GetDefaultCPUSet s - r" "GetDefaultCPUSet s - r \<union> (taken s \<union> r) = all_cpus p"
      using assms(1) r unfolding exclusive_ok_def by auto
  next
    fix pod' n' cset assume "(if pod' = pod \<and> n' = n then Some r else assigned s pod' n') = Some cset"
    then show "cset \<inter> (GetDefaultCPUSet s - r) = {}"
      using exclusive_disjoint(1) [OF assms(1), of pod' n' cset] by (cases "pod' = pod \<and> n' = n") auto
  next
    fix pod1 n1 cset1 pod2 n2 cset2
    assume a: "(if pod1 = pod \<and> n1 = n then Some r else assigned s pod1 n1) = Some cset1"
      "(if pod2 = pod \<and> n2 = n then Some r else assigned s pod2 n2) = Some cset2" "pod1 \<noteq> pod2 \<or> n1 \<noteq> n2"
    have d: "cset \<inter> r = {}" if "assigned s pod' n' = Some cset" for pod' n' cset
      using exclusive_disjoint(1) [OF assms(1) that] r(1) by blast
    consider "pod1 = pod \<and> n1 = n" | "pod2 = pod \<and> n2 = n" "\<not> (pod1 = pod \<and> n1 = n)"
      | "\<not> (pod1 = pod \<and> n1 = n)" "\<not> (pod2 = pod \<and> n2 = n)" by blast
    then show "cset1 \<inter> cset2 = {}"
    proof cases
      case 1
      then show ?thesis using a d [of pod2 n2 cset2] by auto
    next
      case 2
      then show ?thesis using a d [of pod1 n1 cset1] by auto
    next
      case 3
      then show ?thesis using a exclusive_disjoint(2) [OF assms(1), of pod1 n1 cset1 pod2 n2 cset2] by auto
    qed
  qed
qed

lemma release_ok:
  assumes "exclusive_ok p s" "assigned s pod n = Some r" "GetDefaultCPUSet s' = GetDefaultCPUSet s \<union> r"
    and "\<And>pod' n'. assigned s' pod' n' = (if pod' = pod \<and> n' = n then None else assigned s pod' n')"
  shows "exclusive_ok p s'"
proof -
  have d: "cset \<inter> r = {}" if "assigned s pod' n' = Some cset" "\<not> (pod' = pod \<and> n' = n)" for pod' n' cset
    using exclusive_disjoint(2) [OF assms(1) that(1) assms(2)] that(2) by blast
  have "c \<in> taken s' \<or> c \<in> r \<longleftrightarrow> c \<in> taken s" for c
  proof
    assume "c \<in> taken s' \<or> c \<in> r"
    then show "c \<in> taken s" using assms(2) unfolding taken_def assms(4) by (auto split: if_splits)
  next
    assume "c \<in> taken s"
    then obtain pod' n' cset where a: "assigned s pod' n' = Some cset" "c \<in> cset" by (auto simp: taken_def)
    show "c \<in> taken s' \<or> c \<in> r"
    proof (cases "pod' = pod \<and> n' = n")
      case False
      then have "assigned s' pod' n' = Some cset" using a(1) assms(4) by simp
      then show ?thesis using a(2) by (auto simp: taken_def)
    qed (use a assms(2) in simp)
  qed
  then have t: "taken s' \<union> r = taken s" by blast
  show ?thesis unfolding exclusive_ok_def assms(3,4)
  proof (intro conjI allI impI)
    show "sp_reserved p \<subseteq> GetDefaultCPUSet s \<union> r" "GetDefaultCPUSet s \<union> r \<union> taken s' = all_cpus p"
      using assms(1) t unfolding exclusive_ok_def by auto
  next
    fix pod' n' cset assume a: "(if pod' = pod \<and> n' = n then None else assigned s pod' n') = Some cset"
    then have b: "assigned s pod' n' = Some cset" "\<not> (pod' = pod \<and> n' = n)" by (auto split: if_splits)
    show "cset \<inter> (GetDefaultCPUSet s \<union> r) = {}" using exclusive_disjoint(1) [OF assms(1) b(1)] d [OF b] by blast
  next
    fix pod1 n1 cset1 pod2 n2 cset2
    assume "(if pod1 = pod \<and> n1 = n then None else assigned s pod1 n1) = Some cset1"
      "(if pod2 = pod \<and> n2 = n then None else assigned s pod2 n2) = Some cset2" "pod1 \<noteq> pod2 \<or> n1 \<noteq> n2"
    then have "assigned s pod1 n1 = Some cset1" "assigned s pod2 n2 = Some cset2" "pod1 \<noteq> pod2 \<or> n1 \<noteq> n2"
      by (auto split: if_splits)
    then show "cset1 \<inter> cset2 = {}" by (rule exclusive_disjoint(2) [OF assms(1)])
  qed
qed

lemma RemoveContainer_ok: "exclusive_ok p s \<Longrightarrow> exclusive_ok p (sp_RemoveContainer pod n s)"
proof (cases "assigned s pod n")
  case (Some r)
  assume "exclusive_ok p s"
  then show ?thesis
    by (rule release_ok [OF _ Some]) (simp_all add: sp_RemoveContainer_def Some Let_def cpu_sets)
qed (simp add: sp_RemoveContainer_def)

lemma no_release: "c_Name c \<notin> c_Name ` set (p_InitContainers pod) \<Longrightarrow> release_init pod c s = s"
proof -
  assume n: "c_Name c \<notin> c_Name ` set (p_InitContainers pod)"
  have "foldl (\<lambda>s i. if c_Name c = c_Name i then f s else s) s is = s" if "c_Name c \<notin> c_Name ` set is" for "is" :: "container list" and f
    using that by (induction "is") auto
  then show ?thesis using n by (simp add: release_init_def)
qed

lemma default_sub: "exclusive_ok p s \<Longrightarrow> GetDefaultCPUSet s \<subseteq> all_cpus p"
  by (elim exclusive_ok_def [THEN iffD1, elim_format] conjE) blast

lemma Allocate_cases:
  assumes "policy_ok srt p" "GetDefaultCPUSet s \<subseteq> all_cpus p" "0 < guaranteedCPUs pod c" "assigned s (p_UID pod) (c_Name c) = None"
  defines "n \<equiv> guaranteedCPUs pod c"
  shows "if n \<le> cs_Size (assignableCPUs p s) then
      \<exists>r. sp_Allocate srt p h pod c s =
          (False, release_init pod c (SetCPUSet (p_UID pod) (c_Name c) r (SetDefaultCPUSet (GetDefaultCPUSet s - r) s))) \<and>
        r \<subseteq> assignableCPUs p s \<and> cs_Size r = n \<and>
        (\<forall>m. th_NUMANodeAffinity h = Some m \<longrightarrow> n \<le> cs_Size (alignedCPUs p s m) \<longrightarrow> r \<subseteq> alignedCPUs p s m)
    else sp_Allocate srt p h pod c s = (True, s)"
proof -
  have ok: "srt_ok srt" "distinct (map fst (tp_CPUDetails (sp_topology p)))" using assms(1) by (simp_all add: policy_ok_def)
  have n: "n \<noteq> 0" "0 \<le> n" using assms(3) by (simp_all add: n_def)
  have alloc: "sp_Allocate srt p h pod c s =
      (case allocateCPUs srt p n (th_NUMANodeAffinity h) s of None \<Rightarrow> (True, s)
       | Some (cset, s1) \<Rightarrow> (False, release_init pod c (SetCPUSet (p_UID pod) (c_Name c) cset s1)))"
    using n(1) assms(4) unfolding n_def by (simp add: sp_Allocate_def Let_def)
  note a = allocateCPUs_ok [OF ok assms(2) n(2), of "th_NUMANodeAffinity h"]
  show ?thesis
  proof (cases "n \<le> cs_Size (assignableCPUs p s)")
    case True
    then obtain r where r: "allocateCPUs srt p n (th_NUMANodeAffinity h) s = Some (r, SetDefaultCPUSet (GetDefaultCPUSet s - r) s)"
      "r \<subseteq> assignableCPUs p s" "cs_Size r = n"
      "\<forall>m. th_NUMANodeAffinity h = Some m \<longrightarrow> n \<le> cs_Size (alignedCPUs p s m) \<longrightarrow> r \<subseteq> alignedCPUs p s m"
      using a by auto
    have "sp_Allocate srt p h pod c s =
        (False, release_init pod c (SetCPUSet (p_UID pod) (c_Name c) r (SetDefaultCPUSet (GetDefaultCPUSet s - r) s)))"
      unfolding alloc r(1) by simp
    then show ?thesis using r True by (simp only: if_True) blast
  next
    case False
    then show ?thesis using a unfolding alloc by simp
  qed
qed

lemma take_none: "n < 1 \<Longrightarrow> takeByTopology srt topo available n = Some {}"
  by (simp add: takeByTopology_def Let_def isSatisfied_def newCPUAccumulator_def cpu_sets)

lemma Allocate_negative:
  assumes "guaranteedCPUs pod c < 0" "assigned s (p_UID pod) (c_Name c) = None"
  shows "sp_Allocate srt p h pod c s = (False, release_init pod c (SetCPUSet (p_UID pod) (c_Name c) {} (SetDefaultCPUSet (GetDefaultCPUSet s) s)))"
proof -
  have "n < cs_Size A" if "n < 0" for n A using that Size_nonneg [of A] by linarith
  then have "take_aligned srt p (guaranteedCPUs pod c) aff s = Some {}" for aff
    using assms(1) by (simp add: take_aligned_def Let_def take_none cpu_sets split: option.split)
  then show ?thesis using assms by (simp add: sp_Allocate_def Let_def allocateCPUs_def take_none cpu_sets cs_Size_def)
qed

lemma Allocate_idle: "guaranteedCPUs pod c = 0 \<or> assigned s (p_UID pod) (c_Name c) \<noteq> None \<Longrightarrow> sp_Allocate srt p h pod c s = (False, s)"
  by (auto simp: sp_Allocate_def Let_def split: option.split)

lemma release_init_state:
  "assigned (release_init pod c s) = assigned s"
  "GetDefaultCPUSet (release_init pod c s) =
     GetDefaultCPUSet s \<union> (if c_Name c \<in> c_Name ` set (p_InitContainers pod) then
       (case assigned s (p_UID pod) (c_Name c) of None \<Rightarrow> {} | Some r \<Rightarrow> r) else {})"
proof -
  let ?f = "\<lambda>s i. if c_Name c = c_Name i then
      (case GetCPUSet s (p_UID pod) (c_Name c) of None \<Rightarrow> s | Some r \<Rightarrow> SetDefaultCPUSet (cs_Union (GetDefaultCPUSet s) r) s) else s"
  have "assigned (foldl ?f s is) = assigned s \<and> GetDefaultCPUSet (foldl ?f s is) =
      GetDefaultCPUSet s \<union> (if c_Name c \<in> c_Name ` set is then (case assigned s (p_UID pod) (c_Name c) of None \<Rightarrow> {} | Some r \<Rightarrow> r) else {})"
    for "is" :: "container list"
    by (induction "is" arbitrary: s) (auto simp: cpu_sets split: option.splits)
  then show "assigned (release_init pod c s) = assigned s"
    "GetDefaultCPUSet (release_init pod c s) =
     GetDefaultCPUSet s \<union> (if c_Name c \<in> c_Name ` set (p_InitContainers pod) then
       (case assigned s (p_UID pod) (c_Name c) of None \<Rightarrow> {} | Some r \<Rightarrow> r) else {})"
    unfolding release_init_def by blast+
qed

end
