(* ===== verification/CpuManager.thy ===== *)
theory CpuManager
  imports CpuPolicyLaws GoStrings
begin

section \<open>The CPU manager\<close>

text \<open>
  \<open>pkg/kubelet/cm/cpumanager/cpu_manager.go\<close> with the container map and the container hooks of
  \<open>internal_container_lifecycle.go\<close>.  \<open>cpu_env\<close> holds what the manager asks other parts of the kubelet: whether
  all pod sources are ready, the active pods, the status of a pod, and whether the runtime accepts a CPU set for
  a container; \<open>cm_updates\<close> logs the sets it was told.  A map is visited in the order of its list.
\<close>

subsection \<open>The container map\<close>

definition cmap_Add :: "string \<Rightarrow> string \<Rightarrow> string \<Rightarrow> container_map \<Rightarrow> container_map" where
  "cmap_Add podUID containerName containerID m = AList.update containerID (podUID, containerName) m"

definition RemoveByContainerID :: "string \<Rightarrow> container_map \<Rightarrow> container_map" where
  "RemoveByContainerID = AList.delete"

definition GetContainerID :: "container_map \<Rightarrow> string \<Rightarrow> string \<Rightarrow> string option" where
  "GetContainerID m podUID containerName = map_option fst (find (\<lambda>(key, val). val = (podUID, containerName)) m)"

definition GetContainerRef :: "container_map \<Rightarrow> string \<Rightarrow> (string \<times> string) option" where
  "GetContainerRef = map_of"

definition RemoveByContainerRef :: "string \<Rightarrow> string \<Rightarrow> container_map \<Rightarrow> container_map" where
  "RemoveByContainerRef podUID containerName m =
     (case GetContainerID m podUID containerName of None \<Rightarrow> m | Some cid \<Rightarrow> RemoveByContainerID cid m)"

subsection \<open>Policies\<close>

datatype cpu_policy = PolicyNone | PolicyStatic static_policy

definition pol_Name :: "cpu_policy \<Rightarrow> string" where
  "pol_Name p = (case p of PolicyNone \<Rightarrow> ''none'' | PolicyStatic _ \<Rightarrow> ''static'')"

definition pol_Start :: "cpu_policy \<Rightarrow> cpu_state \<Rightarrow> validate_error + cpu_state" where
  "pol_Start p s = (case p of PolicyNone \<Rightarrow> Inr s | PolicyStatic q \<Rightarrow> sp_Start q s)"

definition pol_Allocate :: "slice_sort \<Rightarrow> cpu_policy \<Rightarrow> topology_hint \<Rightarrow> pod \<Rightarrow> container \<Rightarrow> cpu_state \<Rightarrow> bool \<times> cpu_state" where
  "pol_Allocate srt p hint pod c s = (case p of PolicyNone \<Rightarrow> (False, s) | PolicyStatic q \<Rightarrow> sp_Allocate srt q hint pod c s)"

text \<open>No policy returns an error here.\<close>

definition pol_RemoveContainer :: "cpu_policy \<Rightarrow> string \<Rightarrow> string \<Rightarrow> cpu_state \<Rightarrow> cpu_state" where
  "pol_RemoveContainer p podUID containerName s =
     (case p of PolicyNone \<Rightarrow> s | PolicyStatic q \<Rightarrow> sp_RemoveContainer podUID containerName s)"

definition pol_GetTopologyHints :: "cpu_policy \<Rightarrow> pod \<Rightarrow> container \<Rightarrow> cpu_state \<Rightarrow> go_panic + resource_hints" where
  "pol_GetTopologyHints p pod c s = (case p of PolicyNone \<Rightarrow> Inr [] | PolicyStatic q \<Rightarrow> sp_GetTopologyHints q pod c s)"

subsection \<open>The manager\<close>

record api_container_state =
  acs_Name :: string
  acs_ContainerID :: string
  acs_Waiting :: bool
  acs_Running :: bool
  acs_Terminated :: bool

record api_pod_states =
  aps_InitContainerStatuses :: "api_container_state list"
  aps_ContainerStatuses :: "api_container_state list"

record cpu_env =
  ce_AllReady :: bool
  ce_activePods :: "pod list"
  ce_GetPodStatus :: "string \<Rightarrow> api_pod_states option"
  ce_UpdateContainerResources :: "string \<Rightarrow> int set \<Rightarrow> bool"

record cpu_manager =
  cm_policy :: cpu_policy
  cm_state :: cpu_state
  cm_containerMap :: container_map
  cm_updates :: "(string \<times> int set) list"

datatype cpu_manager_error = NoTopology | NoReservation | ZeroReservation | BadStaticPolicy | UnknownPolicy

text \<open>
  The ceiling of the reservation in CPUs; \<open>float64\<close> arithmetic gives the same for every machine that exists
  (less than \<open>2 ^ 43\<close> CPUs).
\<close>

definition numReservedCPUs :: "quantity \<Rightarrow> int" where
  "numReservedCPUs q = (q_MilliValue q + 999) div 1000"

definition cpu_NewManager ::
    "slice_sort \<Rightarrow> string \<Rightarrow> machine_info \<Rightarrow> (int \<times> int set) list \<Rightarrow> int set \<Rightarrow> resource_list \<Rightarrow> cpu_manager_error + cpu_policy" where
  "cpu_NewManager srt name machine numa specificCPUs reservation =
     (if name = ''none'' then Inr PolicyNone
      else if name = ''static'' then
        (case Discover machine numa of
           None \<Rightarrow> Inl NoTopology
         | Some topo \<Rightarrow>
             (case map_of reservation ResourceCPU of
                None \<Rightarrow> Inl NoReservation
              | Some q \<Rightarrow>
                  if q_IsZero q then Inl ZeroReservation
                  else
                    (case NewStaticPolicy srt topo (numReservedCPUs q) specificCPUs of
                       None \<Rightarrow> Inl BadStaticPolicy | Some p \<Rightarrow> Inr (PolicyStatic p))))
      else Inl UnknownPolicy)"

text \<open>\<open>Start\<close> up to the goroutine that runs \<open>reconcileState\<close>.\<close>

definition cm_Start ::
    "cpu_policy \<Rightarrow> container_map \<Rightarrow> checkpoint_file \<Rightarrow> bool list \<Rightarrow> ((restore_error + validate_error) + cpu_manager) option" where
  "cm_Start p initial file disk =
     (case NewCheckpointState (pol_Name p) initial file disk of
        None \<Rightarrow> None
      | Some (Inl e) \<Rightarrow> Some (Inl (Inl e))
      | Some (Inr s) \<Rightarrow>
          (case pol_Start p s of
             Inl e \<Rightarrow> Some (Inl (Inr e))
           | Inr s' \<Rightarrow> Some (Inr \<lparr>cm_policy = p, cm_state = s', cm_containerMap = initial, cm_updates = []\<rparr>)))"

definition cm_Allocate :: "slice_sort \<Rightarrow> topology_hint \<Rightarrow> pod \<Rightarrow> container \<Rightarrow> cpu_manager \<Rightarrow> bool \<times> cpu_manager" where
  "cm_Allocate srt hint p c m =
     (case pol_Allocate srt (cm_policy m) hint p c (cm_state m) of (err, s) \<Rightarrow> (err, m\<lparr>cm_state := s\<rparr>))"

definition policyRemoveContainerByID :: "string \<Rightarrow> cpu_manager \<Rightarrow> cpu_manager" where
  "policyRemoveContainerByID containerID m =
     (case GetContainerRef (cm_containerMap m) containerID of
        None \<Rightarrow> m
      | Some (podUID, containerName) \<Rightarrow>
          m\<lparr>cm_state := pol_RemoveContainer (cm_policy m) podUID containerName (cm_state m),
            cm_containerMap := RemoveByContainerID containerID (cm_containerMap m)\<rparr>)"

definition policyRemoveContainerByRef :: "string \<Rightarrow> string \<Rightarrow> cpu_manager \<Rightarrow> cpu_manager" where
  "policyRemoveContainerByRef podUID containerName m =
     m\<lparr>cm_state := pol_RemoveContainer (cm_policy m) podUID containerName (cm_state m),
       cm_containerMap := RemoveByContainerRef podUID containerName (cm_containerMap m)\<rparr>"

definition cm_RemoveContainer :: "string \<Rightarrow> cpu_manager \<Rightarrow> cpu_manager" where
  "cm_RemoveContainer = policyRemoveContainerByID"

text \<open>The flag is whether the runtime refused.\<close>

definition updateContainerCPUSet :: "cpu_env \<Rightarrow> string \<Rightarrow> int set \<Rightarrow> cpu_manager \<Rightarrow> bool \<times> cpu_manager" where
  "updateContainerCPUSet env containerID cpus m =
     (\<not> ce_UpdateContainerResources env containerID cpus, m\<lparr>cm_updates := cm_updates m @ [(containerID, cpus)]\<rparr>)"

definition cm_AddContainer :: "cpu_env \<Rightarrow> pod \<Rightarrow> container \<Rightarrow> string \<Rightarrow> cpu_manager \<Rightarrow> bool \<times> cpu_manager" where
  "cm_AddContainer env p c containerID m =
     (let cpus = GetCPUSetOrDefault (cm_state m) (p_UID p) (c_Name c) in
      if cs_IsEmpty cpus then (False, m)
      else
        (case updateContainerCPUSet env containerID cpus m of
           (True, m1) \<Rightarrow> (True, policyRemoveContainerByRef (p_UID p) (c_Name c) m1)
         | (False, m1) \<Rightarrow> (False, m1)))"

subsection \<open>Reconciliation\<close>

definition pod_containers :: "pod \<Rightarrow> container list" where
  "pod_containers p = p_InitContainers p @ p_Containers p"

definition activeContainers :: "pod list \<Rightarrow> (string \<times> string list) list" where
  "activeContainers pods = foldl (\<lambda>a p. AList.update (p_UID p) (map c_Name (pod_containers p)) a) [] pods"

definition is_active :: "cpu_env \<Rightarrow> string \<Rightarrow> string \<Rightarrow> bool" where
  "is_active env podUID containerName =
     (case map_of (activeContainers (ce_activePods env)) podUID of None \<Rightarrow> False | Some names \<Rightarrow> containerName \<in> set names)"

definition removeStaleState :: "cpu_env \<Rightarrow> cpu_manager \<Rightarrow> cpu_manager" where
  "removeStaleState env m =
     (if \<not> ce_AllReady env then m
      else
        foldl (\<lambda>m (podUID, containerName). if is_active env podUID containerName then m else policyRemoveContainerByRef podUID containerName m)
          m (concat (map (\<lambda>(podUID, cs). map (\<lambda>(containerName, _). (podUID, containerName)) cs) (GetCPUAssignments (cm_state m)))))"

definition trim_quotes :: "string \<Rightarrow> string" where
  "trim_quotes s = trim_right (CHR 0x22) (dropWhile (\<lambda>c. c = CHR 0x22) s)"

definition cid_ParseString :: "string \<Rightarrow> (string \<times> string) option" where
  "cid_ParseString data =
     (case split_str (trim_quotes data) ''://'' of [t, i] \<Rightarrow> Some (t, i) | _ \<Rightarrow> None)"

definition findContainerIDByName :: "api_pod_states \<Rightarrow> string \<Rightarrow> string option" where
  "findContainerIDByName st n =
     (case find (\<lambda>c. acs_Name c = n \<and> acs_ContainerID c \<noteq> []) (aps_InitContainerStatuses st @ aps_ContainerStatuses st) of
        None \<Rightarrow> None
      | Some c \<Rightarrow> map_option snd (cid_ParseString (acs_ContainerID c)))"

definition cm_findContainerStatusByName :: "api_pod_states \<Rightarrow> string \<Rightarrow> api_container_state option" where
  "cm_findContainerStatusByName st n = find (\<lambda>c. acs_Name c = n) (aps_InitContainerStatuses st @ aps_ContainerStatuses st)"

text \<open>The results: the containers that were updated and the ones that were not.\<close>

type_synonym reconciled = "(string \<times> string \<times> string) list"

definition reconcile_container ::
    "cpu_env \<Rightarrow> pod \<Rightarrow> api_pod_states \<Rightarrow> cpu_manager \<times> reconciled \<times> reconciled \<Rightarrow> container \<Rightarrow> cpu_manager \<times> reconciled \<times> reconciled" where
  "reconcile_container env p st acc c =
     (case acc of (m, success, failure) \<Rightarrow>
        (case (findContainerIDByName st (c_Name c), cm_findContainerStatusByName st (c_Name c)) of
           (Some containerID, Some cstatus) \<Rightarrow>
             if acs_Waiting cstatus \<or> \<not> acs_Waiting cstatus \<and> \<not> acs_Running cstatus \<and> \<not> acs_Terminated cstatus then
               (m, success, failure @ [(p_Name p, c_Name c, [])])
             else if acs_Terminated cstatus then
               (if GetContainerRef (cm_containerMap m) containerID = None then (m, success, failure)
                else (cm_RemoveContainer containerID m, success, failure))
             else
               let m1 = m\<lparr>cm_containerMap := cmap_Add (p_UID p) (c_Name c) containerID (cm_containerMap m)\<rparr>;
                   cset = GetCPUSetOrDefault (cm_state m1) (p_UID p) (c_Name c)
               in if cs_IsEmpty cset then (m1, success, failure @ [(p_Name p, c_Name c, containerID)])
                  else
                    (case updateContainerCPUSet env containerID cset m1 of
                       (True, m2) \<Rightarrow> (m2, success, failure @ [(p_Name p, c_Name c, containerID)])
                     | (False, m2) \<Rightarrow> (m2, success @ [(p_Name p, c_Name c, containerID)], failure))
         | _ \<Rightarrow> (m, success, failure @ [(p_Name p, c_Name c, [])])))"

definition reconcile_pod :: "cpu_env \<Rightarrow> cpu_manager \<times> reconciled \<times> reconciled \<Rightarrow> pod \<Rightarrow> cpu_manager \<times> reconciled \<times> reconciled" where
  "reconcile_pod env acc p =
     (case ce_GetPodStatus env (p_UID p) of
        None \<Rightarrow> (case acc of (m, success, failure) \<Rightarrow> (m, success, failure @ [(p_Name p, [], [])]))
      | Some st \<Rightarrow> foldl (reconcile_container env p st) acc (pod_containers p))"

definition reconcileState :: "cpu_env \<Rightarrow> cpu_manager \<Rightarrow> cpu_manager \<times> reconciled \<times> reconciled" where
  "reconcileState env m = foldl (reconcile_pod env) (removeStaleState env m, [], []) (ce_activePods env)"

subsection \<open>The topology manager's view\<close>

definition cm_GetTopologyHints :: "cpu_env \<Rightarrow> pod \<Rightarrow> container \<Rightarrow> cpu_manager \<Rightarrow> go_panic + resource_hints \<times> cpu_manager" where
  "cm_GetTopologyHints env p c m =
     (let m1 = removeStaleState env m in
      map_sum id (\<lambda>hs. (hs, m1)) (pol_GetTopologyHints (cm_policy m1) p c (cm_state m1)))"

definition cpu_provider :: "slice_sort \<Rightarrow> cpu_env \<Rightarrow> cpu_manager hint_provider" where
  "cpu_provider srt env =
     \<lparr>hp_GetTopologyHints = cm_GetTopologyHints env, hp_Allocate = (\<lambda>p c hint m. cm_Allocate srt hint p c m)\<rparr>"

subsection \<open>The hooks around a container\<close>

record container_lifecycle =
  cl_cpuManager :: "cpu_manager option"
  cl_topologyManager :: topology_manager

definition PreStartContainer :: "cpu_env \<Rightarrow> bool \<Rightarrow> pod \<Rightarrow> container \<Rightarrow> string \<Rightarrow> container_lifecycle \<Rightarrow> bool \<times> container_lifecycle" where
  "PreStartContainer env gate p c containerID l =
     (let (err, l1) = (case cl_cpuManager l of
                         None \<Rightarrow> (False, l)
                       | Some m \<Rightarrow> (case cm_AddContainer env p c containerID m of (err, m1) \<Rightarrow> (err, l\<lparr>cl_cpuManager := Some m1\<rparr>)))
      in if err then (True, l1)
         else (False, if gate then l1\<lparr>cl_topologyManager := tm_AddContainer p containerID (cl_topologyManager l1)\<rparr> else l1))"

definition PreStopContainer :: "string \<Rightarrow> container_lifecycle \<Rightarrow> container_lifecycle" where
  "PreStopContainer containerID l = l\<lparr>cl_cpuManager := map_option (cm_RemoveContainer containerID) (cl_cpuManager l)\<rparr>"

definition PostStopContainer :: "bool \<Rightarrow> string \<Rightarrow> container_lifecycle \<Rightarrow> container_lifecycle" where
  "PostStopContainer gate containerID l =
     (let l1 = PreStopContainer containerID l in
      if gate then l1\<lparr>cl_topologyManager := tm_RemoveContainer containerID (cl_topologyManager l1)\<rparr> else l1)"

end
