(* ===== verification/CpuAdmission.thy ===== *)
theory CpuAdmission
  imports CpuManager
begin

section \<open>Admission with the CPU manager as hint provider\<close>

text \<open>
  The composition of the topology manager, the CPU manager and the static policy: the hints are true of the
  CPUs that can be allocated, the merged hint is one of them, and the allocation stays on its NUMA nodes.
\<close>

subsection \<open>Hints\<close>

lemma scan_masks:
  "m \<in> set (hs_masks (foldl (scan_mask d av req) h ms)) \<Longrightarrow>
     m \<in> set (hs_masks h) \<or> m \<in> set ms \<and> req \<le> int (length (filter (\<lambda>c. bm_IsSet m (numa_of d c)) (cs_ToSlice av)))"
proof (induction ms arbitrary: h)
  case (Cons x ms)
  have "set (hs_masks (scan_mask d av req h x)) \<subseteq>
      set (hs_masks h) \<union> (if req \<le> int (length (filter (\<lambda>c. bm_IsSet x (numa_of d c)) (cs_ToSlice av))) then {x} else {})"
    by (auto simp: scan_mask_def Let_def)
  then show ?case using Cons.IH [of "scan_mask d av req h x"] Cons.prems by (auto split: if_splits)
qed simp

lemma matching_size: "finite av \<Longrightarrow> int (length (filter P (cs_ToSlice av))) = cs_Size {c \<in> av. P c}"
proof -
  assume f: "finite av"
  have "length (filter P (cs_ToSlice av)) = card (set (filter P (cs_ToSlice av)))"
    using f by (intro distinct_card [symmetric]) (simp add: cs_ToSlice_def)
  then show ?thesis using f by (simp add: cs_Size_def)
qed

lemma generate_hints:
  assumes "generateCPUTopologyHints p av req = Inr hs" "h \<in> set hs" "finite av"
  shows "\<exists>m. th_NUMANodeAffinity h = Some m \<and> req \<le> cs_Size {c \<in> av. numa_of (tp_CPUDetails (sp_topology p)) c \<in> bits_of m}"
proof -
  let ?d = "tp_CPUDetails (sp_topology p)"
  define h0 where "h0 = \<lparr>hs_minAffinitySize = cs_Size (NUMANodes ?d), hs_minSockets = cs_Size (Sockets ?d), hs_masks = ([] :: bit_mask list)\<rparr>"
  define ms where "ms = map the (IterateBitMasks (cs_ToSlice (NUMANodes ?d)))"
  have "h \<in> (\<lambda>m. \<lparr>th_NUMANodeAffinity = Some m, th_Preferred = (bm_Count m = hs_minAffinitySize (foldl (scan_mask ?d av req) h0 ms) \<and>
      cs_Size (SocketsInNUMANodes ?d (bm_GetBits m)) = hs_minSockets (foldl (scan_mask ?d av req) h0 ms))\<rparr>) `
      set (hs_masks (foldl (scan_mask ?d av req) h0 ms))"
    using assms(1,2) unfolding generateCPUTopologyHints_def Let_def h0_def ms_def by (auto split: if_splits)
  then obtain m where m: "hs_masks h0 = []" "m \<in> set (hs_masks (foldl (scan_mask ?d av req) h0 ms))" "th_NUMANodeAffinity h = Some m"
    by (auto simp: h0_def)
  then have "req \<le> int (length (filter (\<lambda>c. bm_IsSet m (numa_of ?d c)) (cs_ToSlice av)))"
    using scan_masks [OF m(2)] by simp
  then show ?thesis using m(3) by (simp add: matching_size [OF assms(3)])
qed

lemma merge_single:
  assumes "tp_Merge (singleNumaNodePolicy nodes) [[(r, Some hs)]] = Inr (h', True)" "\<forall>h \<in> set hs. th_NUMANodeAffinity h \<noteq> None"
  shows "\<exists>m h. h \<in> set hs \<and> th_NUMANodeAffinity h = Some m \<and> bm_Count m = 1 \<and>
    (th_NUMANodeAffinity h' = Some m \<or> th_NUMANodeAffinity h' = None \<and> bits_of m = set nodes)"
proof -
  let ?fs = "filterSingleNumaHints (filterProvidersHints [[(r, Some hs)]])"
  define l where "l = filter (\<lambda>h. th_Preferred h \<and> (case th_NUMANodeAffinity h of None \<Rightarrow> True | Some m \<Rightarrow> bm_Count m = 1)) hs"
  have fs: "?fs = [l]" by (simp add: filterSingleNumaHints_def filterProvidersHints_def l_def)
  obtain dflt where d: "NewBitMask nodes = Some dflt"
    using assms(1) by (auto simp: tp_Merge_def mergeFilteredHints_def Let_def split: sum.splits option.splits if_splits)
  obtain m0 p0 where r: "merged_best dflt [l] = (m0, p0)" by (cases "merged_best dflt [l]") simp
  have h': "h' = (if m0 = dflt then \<lparr>th_NUMANodeAffinity = None, th_Preferred = p0\<rparr> else \<lparr>th_NUMANodeAffinity = Some m0, th_Preferred = p0\<rparr>)" and p0: p0
    using assms(1) unfolding tp_Merge_def fs mergeFilteredHints_def
    by (auto simp: d r Let_def bm_IsEqual_def split: if_splits)
  obtain p where p: "list_all2 (\<lambda>h l. h \<in> set l) p [l]" "(m0, p0) = mergePermutation dflt p" "bm_Count m0 \<noteq> 0"
    using merged_best_spec [OF r] p0 by auto
  obtain h where h: "p = [h]" "h \<in> set l" using p(1) by (auto simp: list_all2_Cons2)
  then have hs: "h \<in> set hs" "th_NUMANodeAffinity h \<noteq> None" using assms(2) by (auto simp: l_def)
  then obtain m where m: "th_NUMANodeAffinity h = Some m" by auto
  have c: "bm_Count m = 1" using h(2) m by (simp add: l_def)
  then obtain b where b: "bits_of m = {b}" by (auto simp: Count_card card_1_singleton_iff)
  have "bits_of m0 = bits_of dflt \<inter> {b}" using p(2) by (simp add: h(1) mergePermutation_def m bits_of_And b)
  moreover have "bits_of m0 \<noteq> {}" using p(3) by (simp add: bits_of_empty_iff)
  ultimately have "bits_of m0 = bits_of m" using b by auto
  then have "m0 = m" by (simp add: bits_of_eq)
  then show ?thesis using hs(1) m c h' NewBitMask_bits [OF d] by auto
qed

subsection \<open>What a container is left with\<close>

abbreviation cpu_node :: "static_policy \<Rightarrow> int \<Rightarrow> int" where
  "cpu_node p \<equiv> numa_of (tp_CPUDetails (sp_topology p))"

definition on_one_node :: "static_policy \<Rightarrow> pod \<Rightarrow> cpu_state \<Rightarrow> container \<Rightarrow> bool" where
  "on_one_node p pod s c \<longleftrightarrow>
     (\<exists>cset node. assigned s (p_UID pod) (c_Name c) = Some cset \<and> cs_Size cset = guaranteedCPUs pod c \<and> (\<forall>cpu \<in> cset. cpu_node p cpu = node))"

definition known_sets :: "static_policy \<Rightarrow> cpu_state \<Rightarrow> bool" where
  "known_sets p s \<longleftrightarrow> GetDefaultCPUSet s \<subseteq> all_cpus p \<and> (\<forall>pod n cset. assigned s pod n = Some cset \<longrightarrow> cset \<subseteq> all_cpus p)"

definition kept :: "pod \<Rightarrow> cpu_state \<Rightarrow> cpu_state \<Rightarrow> bool" where
  "kept pod s s' \<longleftrightarrow> (\<forall>c \<in> set (pod_containers pod). \<forall>cset. assigned s (p_UID pod) (c_Name c) = Some cset \<longrightarrow> assigned s' (p_UID pod) (c_Name c) = Some cset)"

lemma kept_refl [simp]: "kept pod s s" and kept_trans: "kept pod s t \<Longrightarrow> kept pod t u \<Longrightarrow> kept pod s u"
  by (auto simp: kept_def)

lemma on_one_node_kept: "kept pod s s' \<Longrightarrow> c \<in> set (pod_containers pod) \<Longrightarrow> on_one_node p pod s c \<Longrightarrow> on_one_node p pod s' c"
  by (auto simp: kept_def on_one_node_def)

lemma known_assigned: "known_sets p s \<Longrightarrow> assigned s pod n = Some cset \<Longrightarrow> cset \<subseteq> all_cpus p"
  by (auto simp: known_sets_def)

lemma known_remove: "known_sets p s \<Longrightarrow> known_sets p (sp_RemoveContainer uid n s)"
  by (auto simp: known_sets_def sp_RemoveContainer_def Let_def cpu_sets split: option.splits if_splits)

lemma finite_cpus: "A \<subseteq> all_cpus p \<Longrightarrow> finite A"
  by (rule finite_subset [OF _ CPUs_finite])

subsection \<open>Stale state\<close>

lemma active_pod:
  assumes "p \<in> set pods" "distinct (map p_UID pods)"
  shows "map_of (activeContainers pods) (p_UID p) = Some (map c_Name (pod_containers p))"
  using assms unfolding activeContainers_def
proof (induction pods rule: rev_induct)
  case (snoc q pods)
  then show ?case by (cases "p = q") (auto simp: update_conv' image_iff)
qed simp

definition env_ok :: "cpu_env \<Rightarrow> pod \<Rightarrow> bool" where
  "env_ok env pod \<longleftrightarrow> (ce_AllReady env \<longrightarrow> pod \<in> set (ce_activePods env) \<and> distinct (map p_UID (ce_activePods env)))"

lemma stale_keeps:
  assumes "env_ok env pod" "cm_policy m = PolicyStatic p" "known_sets p (cm_state m)"
  shows "cm_policy (removeStaleState env m) = PolicyStatic p \<and> known_sets p (cm_state (removeStaleState env m)) \<and>
    kept pod (cm_state m) (cm_state (removeStaleState env m))"
proof (cases "ce_AllReady env")
  case True
  let ?f = "\<lambda>m (podUID, containerName). if is_active env podUID containerName then m else policyRemoveContainerByRef podUID containerName m"
  have act: "is_active env (p_UID pod) (c_Name c)" if "c \<in> set (pod_containers pod)" for c
    using that assms(1) True active_pod [of pod "ce_activePods env"] by (auto simp: env_ok_def is_active_def)
  have "cm_policy (foldl ?f m rs) = PolicyStatic p \<and> known_sets p (cm_state (foldl ?f m rs)) \<and> kept pod (cm_state m) (cm_state (foldl ?f m rs))"
    for rs using assms(2,3)
  proof (induction rs arbitrary: m)
    case (Cons r rs)
    obtain u n where r: "r = (u, n)" by (cases r)
    let ?m = "?f m r"
    have s: "cm_policy ?m = PolicyStatic p" "known_sets p (cm_state ?m)"
      using Cons.prems by (simp_all add: r policyRemoveContainerByRef_def pol_RemoveContainer_def known_remove)
    have "kept pod (cm_state m) (cm_state ?m)"
    proof (cases "is_active env u n")
      case False
      then have "\<not> (p_UID pod = u \<and> c_Name c = n)" if "c \<in> set (pod_containers pod)" for c using act [OF that] by auto
      then show ?thesis using False Cons.prems(1)
        by (auto simp: r kept_def policyRemoveContainerByRef_def pol_RemoveContainer_def sp_RemoveContainer_def Let_def split: option.split)
    qed (simp add: r)
    then show ?case using Cons.IH [OF s] kept_trans by fastforce
  qed simp
  then show ?thesis using True by (simp add: removeStaleState_def)
qed (use assms in \<open>simp add: removeStaleState_def\<close>)

subsection \<open>One container\<close>

lemma guaranteed_requests: "0 < guaranteedCPUs pod c \<Longrightarrow> map_of (c_Requests c) ResourceCPU \<noteq> None"
proof -
  have "q_Value zero_quantity = 0" by code_simp
  then show "0 < guaranteedCPUs pod c \<Longrightarrow> map_of (c_Requests c) ResourceCPU \<noteq> None"
    by (cases "map_of (c_Requests c) ResourceCPU") (auto simp: guaranteedCPUs_def rl_index_def Let_def split: if_splits)
qed

lemma numa_of_cpu:
  assumes "policy_ok srt p" "c \<in> all_cpus p"
  shows "cpu_node p c \<in> NUMANodes (tp_CPUDetails (sp_topology p))"
    "c \<in> CPUsInNUMANodes (tp_CPUDetails (sp_topology p)) ns \<longleftrightarrow> cpu_node p c \<in> set ns"
proof -
  let ?d = "tp_CPUDetails (sp_topology p)"
  obtain b where b: "(c, b) \<in> set ?d" using assms(2) by (auto simp: CPUs_iff)
  have m: "map_of ?d c = Some b'" if "(c, b') \<in> set ?d" for b'
    using that assms(1) by (simp add: policy_ok_def)
  show "cpu_node p c \<in> NUMANodes ?d" using b m [OF b] by (force simp: numa_of_def NUMANodes_def)
  show "c \<in> CPUsInNUMANodes ?d ns \<longleftrightarrow> cpu_node p c \<in> set ns"
    unfolding CPUsInNUMANodes_def gather_fst using b m by (fastforce simp: numa_of_def)
qed

lemma aligned_filter:
  assumes "policy_ok srt p" "known_sets p s"
  shows "alignedCPUs p s m = {c \<in> assignableCPUs p s. cpu_node p c \<in> bits_of m}"
proof -
  have "assignableCPUs p s \<subseteq> all_cpus p" using assms(2) by (auto simp: assignableCPUs_def cpu_sets known_sets_def)
  then show ?thesis unfolding aligned_eq using numa_of_cpu(2) [OF assms(1)] by auto
qed

lemma Allocate_known:
  assumes "policy_ok srt p" "known_sets p s" "sp_Allocate srt p h pod c s = (err, s')"
  shows "known_sets p s'" "assigned s pod' n = Some cset \<Longrightarrow> assigned s' pod' n = Some cset"
proof -
  let ?u = "p_UID pod" and ?n = "c_Name c"
  have put: "known_sets p (release_init pod c (SetCPUSet ?u ?n r (SetDefaultCPUSet d s))) \<and>
      (assigned s pod' n = Some cset \<longrightarrow> assigned (release_init pod c (SetCPUSet ?u ?n r (SetDefaultCPUSet d s))) pod' n = Some cset)"
    if "r \<subseteq> all_cpus p" "d \<subseteq> all_cpus p" "assigned s ?u ?n = None" for r d
    using that assms(2) by (auto simp: known_sets_def release_init_state split: if_splits)
  have d: "GetDefaultCPUSet s \<subseteq> all_cpus p" using assms(2) by (simp add: known_sets_def)
  consider "guaranteedCPUs pod c = 0 \<or> assigned s ?u ?n \<noteq> None" | "guaranteedCPUs pod c < 0" "assigned s ?u ?n = None"
    | "0 < guaranteedCPUs pod c" "assigned s ?u ?n = None" by linarith
  then have "known_sets p s' \<and> (assigned s pod' n = Some cset \<longrightarrow> assigned s' pod' n = Some cset)"
  proof cases
    case 1
    then show ?thesis using assms(2,3) Allocate_idle by simp
  next
    case 2
    then show ?thesis using assms(3) put [of "{}" "GetDefaultCPUSet s"] d by (simp add: Allocate_negative)
  next
    case 3
    show ?thesis
    proof (cases "guaranteedCPUs pod c \<le> cs_Size (assignableCPUs p s)")
      case True
      then obtain r where r: "s' = release_init pod c (SetCPUSet ?u ?n r (SetDefaultCPUSet (GetDefaultCPUSet s - r) s))"
        "r \<subseteq> assignableCPUs p s"
        using Allocate_cases [OF assms(1) d 3, of h] assms(3) by auto
      have "r \<subseteq> all_cpus p" using r(2) d by (auto simp: assignableCPUs_def cpu_sets)
      then show ?thesis unfolding r(1) using d 3(2) by (intro put) auto
    next
      case False
      then show ?thesis using Allocate_cases [OF assms(1) d 3, of h] assms(2,3) by simp
    qed
  qed
  then show "known_sets p s'" "assigned s pod' n = Some cset \<Longrightarrow> assigned s' pod' n = Some cset" by blast+
qed

lemma single_bit: "bm_Count m = 1 \<Longrightarrow> \<exists>b. bits_of m = {b}"
  by (auto simp: Count_card card_1_singleton_iff)

lemma all_matching: "finite A \<Longrightarrow> cs_Size A \<le> cs_Size {c \<in> A. P c} \<Longrightarrow> c \<in> A \<Longrightarrow> P c"
  using card_subset_eq [of A "{c \<in> A. P c}"] card_mono [of A "{c \<in> A. P c}"] by (auto simp: cs_Size_def)

lemma hint_cases:
  assumes "sp_GetTopologyHints p pod c s = Inr hints" "0 < guaranteedCPUs pod c"
  shows "(\<exists>a hs. assigned s (p_UID pod) (c_Name c) = Some a \<and> hints = [(ResourceCPU, Some hs)] \<and>
        (cs_Size a \<noteq> guaranteedCPUs pod c \<and> hs = [] \<or>
         cs_Size a = guaranteedCPUs pod c \<and> generateCPUTopologyHints p a (guaranteedCPUs pod c) = Inr hs)) \<or>
    (\<exists>hs. assigned s (p_UID pod) (c_Name c) = None \<and> hints = [(ResourceCPU, Some hs)] \<and>
        generateCPUTopologyHints p (assignableCPUs p s) (guaranteedCPUs pod c) = Inr hs)"
  using assms guaranteed_requests [OF assms(2)]
  by (cases "assigned s (p_UID pod) (c_Name c)"; cases "generateCPUTopologyHints p (assignableCPUs p s) (guaranteedCPUs pod c)";
      cases "generateCPUTopologyHints p (the (assigned s (p_UID pod) (c_Name c))) (guaranteedCPUs pod c)")
    (auto simp: sp_GetTopologyHints_def Let_def split: if_splits)

lemma allocate_on_node:
  assumes ok: "policy_ok srt p" and k: "known_sets p s" and n: "0 < guaranteedCPUs pod c"
    and hints: "sp_GetTopologyHints p pod c s = Inr hints"
    and merge: "tp_Merge (singleNumaNodePolicy nodes) [hints] = Inr (h', True)"
    and nodes: "set nodes = NUMANodes (tp_CPUDetails (sp_topology p))"
    and alloc: "sp_Allocate srt p h' pod c s = (False, s')"
  shows "on_one_node p pod s' c"
proof (cases "assigned s (p_UID pod) (c_Name c)")
  case (Some a)
  obtain hs where hs: "hints = [(ResourceCPU, Some hs)]" "cs_Size a \<noteq> guaranteedCPUs pod c \<Longrightarrow> hs = []"
    "cs_Size a = guaranteedCPUs pod c \<Longrightarrow> generateCPUTopologyHints p a (guaranteedCPUs pod c) = Inr hs"
    using hint_cases [OF hints n] Some by auto
  have fin: "finite a" by (rule finite_cpus [OF known_assigned [OF k Some]])
  have aff: "\<forall>h \<in> set hs. th_NUMANodeAffinity h \<noteq> None"
    using generate_hints [OF hs(3) _ fin] hs(2) by (cases "cs_Size a = guaranteedCPUs pod c") auto
  obtain m h where m: "h \<in> set hs" "th_NUMANodeAffinity h = Some m" "bm_Count m = 1"
    using merge_single [OF merge [unfolded hs(1)] aff] by blast
  have eq: "cs_Size a = guaranteedCPUs pod c" using hs(2) m(1) by (cases "cs_Size a = guaranteedCPUs pod c") auto
  obtain b where b: "bits_of m = {b}" using single_bit [OF m(3)] by auto
  have "cs_Size a \<le> cs_Size {c \<in> a. cpu_node p c \<in> bits_of m}"
    using generate_hints [OF hs(3) [OF eq] m(1) fin] m(2) eq by simp
  then have "\<forall>cpu \<in> a. cpu_node p cpu = b" using all_matching [OF fin, where P = "\<lambda>c. cpu_node p c \<in> bits_of m"] b by simp
  moreover have "s' = s" using alloc Allocate_idle [of pod c s srt p h'] Some by simp
  ultimately show ?thesis using Some eq by (auto simp: on_one_node_def)
next
  case None
  let ?A = "assignableCPUs p s"
  have d: "GetDefaultCPUSet s \<subseteq> all_cpus p" using k by (simp add: known_sets_def)
  have A: "?A \<subseteq> all_cpus p" using d by (auto simp: assignableCPUs_def cpu_sets)
  obtain hs where hs: "hints = [(ResourceCPU, Some hs)]" "generateCPUTopologyHints p ?A (guaranteedCPUs pod c) = Inr hs"
    using hint_cases [OF hints n] None by auto
  have aff: "\<forall>h \<in> set hs. th_NUMANodeAffinity h \<noteq> None" using generate_hints [OF hs(2) _ finite_cpus [OF A]] by auto
  obtain m h where m: "h \<in> set hs" "th_NUMANodeAffinity h = Some m" "bm_Count m = 1"
    "th_NUMANodeAffinity h' = Some m \<or> th_NUMANodeAffinity h' = None \<and> bits_of m = set nodes"
    using merge_single [OF merge [unfolded hs(1)] aff] by blast
  obtain b where b: "bits_of m = {b}" using single_bit [OF m(3)] by auto
  have enough: "guaranteedCPUs pod c \<le> cs_Size (alignedCPUs p s m)"
    unfolding aligned_filter [OF ok k] using generate_hints [OF hs(2) m(1) finite_cpus [OF A]] m(2) by simp
  obtain r where r: "s' = release_init pod c (SetCPUSet (p_UID pod) (c_Name c) r (SetDefaultCPUSet (GetDefaultCPUSet s - r) s))"
    "r \<subseteq> ?A" "cs_Size r = guaranteedCPUs pod c" "th_NUMANodeAffinity h' = Some m \<Longrightarrow> r \<subseteq> alignedCPUs p s m"
    using Allocate_cases [OF ok d n None, of h'] alloc enough by (auto split: if_splits)
  have "cpu_node p cpu = b" if "cpu \<in> r" for cpu
  proof (cases "th_NUMANodeAffinity h' = Some m")
    case True
    then show ?thesis using r(4) that b unfolding aligned_filter [OF ok k] by auto
  next
    case False
    have "cpu \<in> all_cpus p" using that r(2) A by blast
    then have "cpu_node p cpu \<in> set nodes" using numa_of_cpu(1) [OF ok] nodes by simp
    moreover have "set nodes = {b}" using m(4) False b by auto
    ultimately show ?thesis by simp
  qed
  then show ?thesis using r(1,3) by (auto simp: on_one_node_def release_init_state)
qed

subsection \<open>The loop of the admission\<close>

lemma GetAffinity_set [simp]: "GetAffinity (set_hint u n h m) u n = h" "tm_policy (set_hint u n h m) = tm_policy m"
  by (simp_all add: GetAffinity_def set_hint_def tm_hints_def update_conv')

lemma admit_step:
  assumes ok: "policy_ok srt p" and k: "known_sets p (cm_state w)" and pol: "cm_policy w = PolicyStatic p" and env: "env_ok env pod"
    and nodes: "tm_policy m = singleNumaNodePolicy nodes" "set nodes = NUMANodes (tp_CPUDetails (sp_topology p))"
    and c: "c \<in> set (pod_containers pod)"
    and admit: "admit_containers [cpu_provider srt env] pod (c # cs) m w = Inr (Admitted, m', w')"
  shows "\<exists>m1 w1. admit_containers [cpu_provider srt env] pod cs m1 w1 = Inr (Admitted, m', w') \<and> tm_policy m1 = tm_policy m \<and>
    cm_policy w1 = PolicyStatic p \<and> known_sets p (cm_state w1) \<and> kept pod (cm_state w) (cm_state w1) \<and>
    (0 < guaranteedCPUs pod c \<longrightarrow> on_one_node p pod (cm_state w1) c)"
proof -
  let ?w0 = "removeStaleState env w"
  have st: "cm_policy ?w0 = PolicyStatic p" "known_sets p (cm_state ?w0)" "kept pod (cm_state w) (cm_state ?w0)"
    using stale_keeps [OF env pol k] by blast+
  have np: "tm_policy m \<noteq> nonePolicy" using nodes(1) by simp
  obtain hints where hints: "sp_GetTopologyHints p pod c (cm_state ?w0) = Inr hints"
    using admit np by (cases "sp_GetTopologyHints p pod c (cm_state ?w0)")
      (auto simp: calculateAffinity_def cpu_provider_def cm_GetTopologyHints_def pol_GetTopologyHints_def st(1) Let_def)
  obtain h b where merge: "tp_Merge (tm_policy m) [hints] = Inr (h, b)"
    using admit np by (cases "tp_Merge (tm_policy m) [hints]")
      (auto simp: calculateAffinity_def cpu_provider_def cm_GetTopologyHints_def pol_GetTopologyHints_def st(1) Let_def hints)
  have aff: "calculateAffinity [cpu_provider srt env] m pod c w = Inr ((h, b), ?w0)"
    by (simp add: calculateAffinity_def cpu_provider_def cm_GetTopologyHints_def pol_GetTopologyHints_def st(1) Let_def hints merge)
  have b: b using admit np by (cases b) (simp_all add: aff)
  let ?m1 = "set_hint (p_UID pod) (c_Name c) h m"
  obtain err s1 where alloc: "sp_Allocate srt p h pod c (cm_state ?w0) = (err, s1)" by (cases "sp_Allocate srt p h pod c (cm_state ?w0)")
  have res: "allocateAlignedResources [cpu_provider srt env] ?m1 pod c ?w0 = (err, ?w0\<lparr>cm_state := s1\<rparr>)"
    by (cases err) (simp_all add: cpu_provider_def cm_Allocate_def pol_Allocate_def st(1) alloc)
  have ne: "err = False" using admit np b by (cases err) (simp_all add: aff res Let_def del: allocateAlignedResources.simps)
  have rest: "admit_containers [cpu_provider srt env] pod cs ?m1 (?w0\<lparr>cm_state := s1\<rparr>) = Inr (Admitted, m', w')"
    using admit np b by (simp add: aff res Let_def ne del: allocateAlignedResources.simps)
  have "kept pod (cm_state ?w0) s1" using Allocate_known(2) [OF ok st(2) alloc] by (simp add: kept_def)
  then have kept: "kept pod (cm_state w) s1" by (rule kept_trans [OF st(3)])
  have one: "on_one_node p pod s1 c" if "0 < guaranteedCPUs pod c"
    by (rule allocate_on_node [OF ok st(2) that hints _ nodes(2) alloc [unfolded ne]]) (use merge b nodes(1) in simp)
  show ?thesis
    by (intro exI [of _ ?m1] exI [of _ "?w0\<lparr>cm_state := s1\<rparr>"]) (use rest st(1) kept one Allocate_known(1) [OF ok st(2) alloc] in simp)
qed

lemma admit_all:
  assumes "policy_ok srt p" "env_ok env pod" "set nodes = NUMANodes (tp_CPUDetails (sp_topology p))"
    and "known_sets p (cm_state w)" "cm_policy w = PolicyStatic p" "tm_policy m = singleNumaNodePolicy nodes"
    and "set cs \<subseteq> set (pod_containers pod)" "admit_containers [cpu_provider srt env] pod cs m w = Inr (Admitted, m', w')"
  shows "kept pod (cm_state w) (cm_state w') \<and> (\<forall>c \<in> set cs. 0 < guaranteedCPUs pod c \<longrightarrow> on_one_node p pod (cm_state w') c)"
  using assms(4-)
proof (induction cs arbitrary: m w)
  case (Cons c cs)
  have c: "c \<in> set (pod_containers pod)" "set cs \<subseteq> set (pod_containers pod)" using Cons.prems(4) by auto
  obtain m1 w1 where s: "admit_containers [cpu_provider srt env] pod cs m1 w1 = Inr (Admitted, m', w')" "tm_policy m1 = tm_policy m"
    "cm_policy w1 = PolicyStatic p" "known_sets p (cm_state w1)" "kept pod (cm_state w) (cm_state w1)"
    "0 < guaranteedCPUs pod c \<longrightarrow> on_one_node p pod (cm_state w1) c"
    using admit_step [OF assms(1) Cons.prems(1,2) assms(2) Cons.prems(3) assms(3) c(1) Cons.prems(5)] by blast
  have r: "kept pod (cm_state w1) (cm_state w')" "\<forall>c \<in> set cs. 0 < guaranteedCPUs pod c \<longrightarrow> on_one_node p pod (cm_state w') c"
    using Cons.IH [OF s(4,3) _ c(2) s(1)] s(2) Cons.prems(3) by simp_all
  then show ?case using kept_trans [OF s(5) r(1)] on_one_node_kept [OF r(1) c(1)] s(6) by simp
qed simp

end
