(* ===== verification/CpuManagerLaws.thy ===== *)
theory CpuManagerLaws
  imports CpuAdmission
begin

section \<open>What every call of the CPU manager keeps\<close>

text \<open>
  The manager changes the state only through the policy's \<open>Allocate\<close> and \<open>RemoveContainer\<close>: whatever these two
  keep, every sequence of calls keeps (locale \<open>policy_contract\<close>).  The instances are the partition of the CPUs,
  the shape of the maps and the file being up to date.
\<close>

subsection \<open>Calls\<close>

datatype cpu_call =
  CallAllocate topology_hint pod container
| CallAddContainer cpu_env pod container string
| CallRemoveContainer string
| CallGetTopologyHints cpu_env
| CallReconcile cpu_env

fun cm_call :: "slice_sort \<Rightarrow> cpu_manager \<Rightarrow> cpu_call \<Rightarrow> cpu_manager" where
  "cm_call srt m (CallAllocate h pod c) = snd (cm_Allocate srt h pod c m)"
| "cm_call srt m (CallAddContainer env pod c cid) = snd (cm_AddContainer env pod c cid m)"
| "cm_call srt m (CallRemoveContainer cid) = cm_RemoveContainer cid m"
| "cm_call srt m (CallGetTopologyHints env) = removeStaleState env m"
| "cm_call srt m (CallReconcile env) = fst (reconcileState env m)"

fun call_allowed :: "(pod \<Rightarrow> container \<Rightarrow> bool) \<Rightarrow> cpu_call \<Rightarrow> bool" where
  "call_allowed A (CallAllocate h pod c) = A pod c"
| "call_allowed A _ = True"

abbreviation no_init :: "pod \<Rightarrow> container \<Rightarrow> bool" where
  "no_init pod c \<equiv> c_Name c \<notin> c_Name ` set (p_InitContainers pod)"

locale policy_contract =
  fixes srt :: slice_sort and p :: static_policy and A :: "pod \<Rightarrow> container \<Rightarrow> bool" and I :: "cpu_state \<Rightarrow> bool"
  assumes allocate: "I s \<Longrightarrow> A pod c \<Longrightarrow> I (snd (sp_Allocate srt p h pod c s))"
    and remove: "I s \<Longrightarrow> I (sp_RemoveContainer u n s)"
begin

definition inv :: "cpu_manager \<Rightarrow> bool" where
  "inv m \<longleftrightarrow> cm_policy m = PolicyStatic p \<and> I (cm_state m)"

lemma inv_other [simp]: "inv (m\<lparr>cm_containerMap := k\<rparr>) = inv m" "inv (m\<lparr>cm_updates := us\<rparr>) = inv m"
  by (simp_all add: inv_def)

lemma byRef: "inv m \<Longrightarrow> inv (policyRemoveContainerByRef u n m)"
  by (simp add: inv_def policyRemoveContainerByRef_def pol_RemoveContainer_def remove)

lemma byID: "inv m \<Longrightarrow> inv (policyRemoveContainerByID cid m)"
  by (auto simp: inv_def policyRemoveContainerByID_def pol_RemoveContainer_def remove split: option.split)

lemma stale: "inv m \<Longrightarrow> inv (removeStaleState env m)"
proof -
  assume m: "inv m"
  have "inv (foldl (\<lambda>m (u, n). if is_active env u n then m else policyRemoveContainerByRef u n m) m rs)" for rs
    using m by (induction rs arbitrary: m) (auto simp: byRef)
  then show ?thesis using m by (simp add: removeStaleState_def)
qed

lemma reconcile: "inv m \<Longrightarrow> inv (fst (reconcileState env m))"
proof -
  have one: "inv (fst (reconcile_container env q st acc c))" if "inv (fst acc)" for q st acc c
    using that by (auto simp: reconcile_container_def cm_RemoveContainer_def byID updateContainerCPUSet_def Let_def split: prod.splits bool.splits option.splits if_splits)
  have "inv (fst (foldl (reconcile_container env q st) acc cs))" if "inv (fst acc)" for q st acc cs
    using that by (induction cs arbitrary: acc) (auto simp: one)
  then have pd: "inv (fst (reconcile_pod env acc q))" if "inv (fst acc)" for acc q
    using that by (auto simp: reconcile_pod_def split: option.split prod.split)
  have "inv (fst (foldl (reconcile_pod env) acc qs))" if "inv (fst acc)" for acc qs
    using that by (induction qs arbitrary: acc) (auto simp: pd)
  then show "inv m \<Longrightarrow> inv (fst (reconcileState env m))" by (simp add: reconcileState_def stale)
qed

lemma call: "inv m \<Longrightarrow> call_allowed A k \<Longrightarrow> inv (cm_call srt m k)"
proof (cases k)
  case (CallAllocate h pod c)
  assume "inv m" "call_allowed A k"
  then show ?thesis using allocate [of "cm_state m" pod c h]
    by (cases "sp_Allocate srt p h pod c (cm_state m)") (simp add: CallAllocate inv_def cm_Allocate_def pol_Allocate_def)
next
  case (CallAddContainer env pod c cid)
  assume "inv m"
  then show ?thesis
    by (simp add: CallAddContainer cm_AddContainer_def updateContainerCPUSet_def Let_def byRef split: bool.split prod.split)
qed (simp_all add: byID stale reconcile cm_RemoveContainer_def)

lemma calls: "inv m \<Longrightarrow> \<forall>k \<in> set ks. call_allowed A k \<Longrightarrow> inv (foldl (cm_call srt) m ks)"
  by (induction ks arbitrary: m) (auto simp: call)

end

subsection \<open>The partition\<close>

lemma Allocate_exclusive:
  assumes "policy_ok srt p" "exclusive_ok p s" "no_init pod c"
  shows "exclusive_ok p (snd (sp_Allocate srt p h pod c s))"
proof -
  let ?u = "p_UID pod" and ?n = "c_Name c"
  have put: "exclusive_ok p (SetCPUSet ?u ?n r (SetDefaultCPUSet (GetDefaultCPUSet s - r) s))"
    if "r \<subseteq> assignableCPUs p s" "assigned s ?u ?n = None" for r
    by (rule assign_ok [OF assms(2) that(2) that(1)]) simp_all
  note rel = no_release [OF assms(3)]
  consider "guaranteedCPUs pod c = 0 \<or> assigned s ?u ?n \<noteq> None" | "guaranteedCPUs pod c < 0" "assigned s ?u ?n = None"
    | "0 < guaranteedCPUs pod c" "assigned s ?u ?n = None" by linarith
  then show ?thesis
  proof cases
    case 1
    then show ?thesis using assms(2) Allocate_idle by simp
  next
    case 2
    then show ?thesis using put [of "{}"] by (simp add: Allocate_negative rel)
  next
    case 3
    show ?thesis
    proof (cases "guaranteedCPUs pod c \<le> cs_Size (assignableCPUs p s)")
      case True
      then obtain r where r: "sp_Allocate srt p h pod c s = (False, release_init pod c (SetCPUSet ?u ?n r (SetDefaultCPUSet (GetDefaultCPUSet s - r) s)))"
        "r \<subseteq> assignableCPUs p s"
        using Allocate_cases [OF assms(1) default_sub [OF assms(2)] 3, of h] by auto
      show ?thesis unfolding r(1) rel snd_conv by (rule put [OF r(2) 3(2)])
    next
      case False
      then show ?thesis using Allocate_cases [OF assms(1) default_sub [OF assms(2)] 3, of h] assms(2) by simp
    qed
  qed
qed

interpretation excl: policy_contract srt p no_init "\<lambda>s. policy_ok srt p \<and> exclusive_ok p s" for srt p
  by unfold_locales (auto simp: Allocate_exclusive RemoveContainer_ok)

subsection \<open>The maps and the file\<close>

definition maps_ok :: "cpu_assignments \<Rightarrow> bool" where
  "maps_ok as \<longleftrightarrow> distinct (map fst as) \<and> (\<forall>e \<in> set as. distinct (map fst (snd e)))"

definition saved :: "cpu_state \<Rightarrow> bool" where
  "saved s \<longleftrightarrow> st_disk s = [] \<and> st_file s = CheckpointV2 (checkpoint_of s)"

lemma set_update: "set (AList.update k v xs) \<subseteq> insert (k, v) (set xs)"
  by (induction xs) auto

lemma inner_ok: "maps_ok as \<Longrightarrow> distinct (map fst (sm_inner as pod))"
  by (auto simp: maps_ok_def sm_inner_def split: option.split dest!: map_of_SomeD)

lemma maps_ok_changes:
  assumes "maps_ok as"
  shows "maps_ok (AList.update pod (AList.update n cset (sm_inner as pod)) as)"
    "maps_ok (AList.delete pod as)" "maps_ok (AList.update pod (AList.delete n (sm_inner as pod)) as)"
proof -
  have put: "maps_ok (AList.update pod cs as)" if "distinct (map fst cs)" for cs
    using assms that set_update [of pod cs as] by (auto simp: maps_ok_def distinct_update)
  show "maps_ok (AList.update pod (AList.update n cset (sm_inner as pod)) as)" "maps_ok (AList.update pod (AList.delete n (sm_inner as pod)) as)"
    by (rule put; simp add: distinct_update distinct_delete inner_ok [OF assms])+
  have "set (AList.delete pod as) \<subseteq> set as" by (auto simp: AList.delete_eq)
  then show "maps_ok (AList.delete pod as)" using assms by (auto simp: maps_ok_def distinct_delete)
qed

definition stored_ok :: "cpu_state \<Rightarrow> bool" where
  "stored_ok s \<longleftrightarrow> maps_ok (sm_assignments (st_cache s)) \<and> saved s \<and> st_policyName s = ''static''"

lemma stored_changes [simp]:
  assumes "stored_ok s"
  shows "stored_ok (SetDefaultCPUSet d s)" "stored_ok (SetCPUSet pod n cset s)" "stored_ok (st_Delete pod n s)"
  using assms stored_file [where s = s] maps_ok_changes [where as = "sm_assignments (st_cache s)" and pod = pod]
  by (simp_all add: stored_ok_def saved_def SetDefaultCPUSet_def SetCPUSet_def st_Delete_def sm_SetDefaultCPUSet_def sm_SetCPUSet_def
      sm_Delete_def Let_def)

lemma release_stored: "stored_ok s \<Longrightarrow> stored_ok (release_init pod c s)"
proof -
  have "stored_ok (foldl (\<lambda>s i. if c_Name c = c_Name i then
      (case GetCPUSet s (p_UID pod) (c_Name c) of None \<Rightarrow> s | Some r \<Rightarrow> SetDefaultCPUSet (cs_Union (GetDefaultCPUSet s) r) s) else s) s is)"
    if "stored_ok s" for "is" :: "container list"
    using that by (induction "is" arbitrary: s) (auto split: option.split)
  then show "stored_ok s \<Longrightarrow> stored_ok (release_init pod c s)" by (simp add: release_init_def)
qed

lemma Allocate_stored: "stored_ok s \<Longrightarrow> stored_ok (snd (sp_Allocate srt p h pod c s))"
  by (auto simp: sp_Allocate_def allocateCPUs_def Let_def release_stored split: option.splits)

interpretation kept_file: policy_contract srt p "\<lambda>_ _. True" stored_ok for srt p
  by unfold_locales (auto simp: Allocate_stored sp_RemoveContainer_def Let_def split: option.splits)

subsection \<open>Starting\<close>

lemma start_fresh:
  assumes "cm_Start (PolicyStatic p) initial NoCheckpoint disk = Some (Inr m)"
  shows "cm_policy m = PolicyStatic p \<and> assigned (cm_state m) = (\<lambda>_ _. None) \<and> GetDefaultCPUSet (cm_state m) = all_cpus p \<and>
    (disk = [] \<longrightarrow> stored_ok (cm_state m))"
proof -
  obtain s where s: "storeState \<lparr>st_cache = NewMemoryState, st_policyName = ''static'', st_file = NoCheckpoint, st_disk = disk\<rparr> = (False, s)"
    "validateState p s = Inr (cm_state m)" "cm_policy m = PolicyStatic p"
    using assms by (auto simp: cm_Start_def NewCheckpointState_def restoreState_def pol_Name_def pol_Start_def sp_Start_def split: prod.splits bool.splits sum.splits)
  have c: "st_cache s = NewMemoryState" "disk = [] \<longrightarrow> stored_ok s"
    using s(1) by (auto simp: storeState_def NewMemoryState_def stored_ok_def maps_ok_def saved_def checkpoint_of_def split: if_splits)
  have st: "cm_state m = SetDefaultCPUSet (all_cpus p) s"
    using s(2) by (simp add: validateState_def c NewMemoryState_def GetCPUAssignments_def GetDefaultCPUSet_def cpu_sets)
  have "assigned s = (\<lambda>_ _. None)" by (intro ext) (simp add: assigned_def c NewMemoryState_def sm_inner_def)
  then show ?thesis using s(3) c(2) by (simp add: st)
qed

lemma start_ok:
  assumes "cm_Start (PolicyStatic p) initial NoCheckpoint disk = Some (Inr m)" "policy_ok srt p"
  shows "exclusive_ok p (cm_state m)"
proof -
  have "assigned (cm_state m) = (\<lambda>_ _. None)" "GetDefaultCPUSet (cm_state m) = all_cpus p"
    using start_fresh [OF assms(1)] by blast+
  then show ?thesis using assms(2) by (simp add: exclusive_ok_def taken_def policy_ok_def)
qed

lemma all_sets_assigned:
  assumes "maps_ok (sm_assignments (st_cache s))"
  shows "cset \<in> set (all_sets (sm_assignments (st_cache s))) \<longleftrightarrow> (\<exists>pod n. assigned s pod n = Some cset)"
proof -
  let ?as = "sm_assignments (st_cache s)"
  have m: "map_of ?as pod = Some cs \<longleftrightarrow> (pod, cs) \<in> set ?as" for pod cs using assms by (simp add: maps_ok_def)
  have n: "(pod, cs) \<in> set ?as \<Longrightarrow> map_of cs n = Some cset \<longleftrightarrow> (n, cset) \<in> set cs" for pod cs n
    using assms by (force simp: maps_ok_def)
  have A: "assigned s pod n = Some cset \<longleftrightarrow> (\<exists>cs. (pod, cs) \<in> set ?as \<and> (n, cset) \<in> set cs)" for pod n
  proof (cases "map_of ?as pod")
    case None
    then have "(pod, cs) \<notin> set ?as" for cs using m [of pod cs] by simp
    then show ?thesis using None by (simp add: assigned_def sm_inner_def)
  next
    case (Some cs)
    then have "(pod, cs') \<in> set ?as \<longleftrightarrow> cs' = cs" for cs' using m [of pod cs'] by auto
    then show ?thesis using Some n [of pod cs n] by (simp add: assigned_def sm_inner_def)
  qed
  have "all_sets as = concat (map (\<lambda>e. map snd (snd e)) as)" for as
    by (simp add: all_sets_def split_def)
  then have "cset \<in> set (all_sets ?as) \<longleftrightarrow> (\<exists>e \<in> set ?as. cset \<in> snd ` set (snd e))" by simp
  also have "\<dots> \<longleftrightarrow> (\<exists>pod cs n. (pod, cs) \<in> set ?as \<and> (n, cset) \<in> set cs)"
    by (simp add: Bex_def split_paired_Ex image_iff)
  finally show ?thesis unfolding A by blast
qed

end
