(* ===== verification/CpuSafety.thy ===== *)
theory CpuSafety
  imports CpuManagerLaws
begin

section \<open>What the CPU and topology managers guarantee\<close>

text \<open>
  The properties of the CPU manager with the static policy and of the topology manager, and a small machine on
  which they are evaluated: two sockets, each a NUMA node of two cores with one thread, the CPU 0 reserved.
\<close>

subsection \<open>The machine\<close>

definition insert_before :: "(int \<Rightarrow> int \<Rightarrow> bool) \<Rightarrow> int \<Rightarrow> int list \<Rightarrow> int list" where
  "insert_before lt x ys = takeWhile (\<lambda>y. \<not> lt x y) ys @ x # dropWhile (\<lambda>y. \<not> lt x y) ys"

definition insertion_sort :: slice_sort where
  "insertion_sort lt xs = foldr (insert_before lt) xs []"

lemma insertion_sort_ok: "srt_ok insertion_sort"
proof -
  have "mset (foldr (insert_before lt) xs []) = mset xs" for lt xs
  proof (induction xs)
    case (Cons x xs)
    have "mset (takeWhile P ys) + mset (dropWhile P ys) = mset ys" for P and ys :: "int list"
      by (metis mset_append takeWhile_dropWhile_id)
    then show ?case using Cons by (simp add: insert_before_def)
  qed simp
  then show ?thesis by (simp add: srt_ok_def insertion_sort_def)
qed

definition demo_topology :: cpu_topology where
  "demo_topology = \<lparr>tp_NumCPUs = 4, tp_NumCores = 4, tp_NumSockets = 2,
     tp_CPUDetails = [(0, \<lparr>ci_NUMANodeID = 0, ci_SocketID = 0, ci_CoreID = 0\<rparr>), (1, \<lparr>ci_NUMANodeID = 0, ci_SocketID = 0, ci_CoreID = 1\<rparr>),
       (2, \<lparr>ci_NUMANodeID = 1, ci_SocketID = 1, ci_CoreID = 2\<rparr>), (3, \<lparr>ci_NUMANodeID = 1, ci_SocketID = 1, ci_CoreID = 3\<rparr>)]\<rparr>"

definition demo_policy :: static_policy where
  "demo_policy = \<lparr>sp_topology = demo_topology, sp_reserved = {0}\<rparr>"

definition demo_quantity :: "int \<Rightarrow> quantity" where
  "demo_quantity n = \<lparr>q_i = \<lparr>ia_value = n, ia_scale = 0\<rparr>, q_d = None, q_s = [], q_Format = DecimalSI\<rparr>"

definition demo_container :: "string \<Rightarrow> int \<Rightarrow> container" where
  "demo_container n cpus =
     (empty_container n)\<lparr>c_Requests := [(''cpu'', demo_quantity cpus), (''memory'', demo_quantity 1)],
       c_Limits := [(''cpu'', demo_quantity cpus), (''memory'', demo_quantity 1)]\<rparr>"

definition demo_cpu_pod :: "container list \<Rightarrow> container list \<Rightarrow> pod" where
  "demo_cpu_pod inits cs = empty_pod\<lparr>p_UID := ''u'', p_InitContainers := inits, p_Containers := cs\<rparr>"

lemma demo_guaranteed:
  "guaranteedCPUs (demo_cpu_pod [demo_container ''i'' 2] [demo_container ''c'' 2]) (demo_container ''i'' 2) = 2"
  "guaranteedCPUs (demo_cpu_pod [demo_container ''i'' 2] [demo_container ''c'' 2]) (demo_container ''c'' 2) = 2"
  "guaranteedCPUs (demo_cpu_pod [] [demo_container ''c'' 2]) (demo_container ''c'' 2) = 2"
  by code_simp+

lemma demo_policy_ok: "policy_ok insertion_sort demo_policy"
  by (simp add: policy_ok_def insertion_sort_ok demo_policy_def demo_topology_def CPUs_def)

definition demo_started :: cpu_manager where
  "demo_started = (case cm_Start (PolicyStatic demo_policy) [] NoCheckpoint [] of Some (Inr m) \<Rightarrow> m)"

lemma demo_start: "cm_Start (PolicyStatic demo_policy) [] NoCheckpoint [] = Some (Inr demo_started)"
  by code_simp

definition demo_hint :: topology_hint where
  "demo_hint = \<lparr>th_NUMANodeAffinity = None, th_Preferred = False\<rparr>"

subsection \<open>Exclusive CPUs\<close>

lemma exclusive_parts:
  assumes "exclusive_ok p s"
  shows "sp_reserved p \<subseteq> GetDefaultCPUSet s" "GetDefaultCPUSet s \<union> taken s = all_cpus p"
  by (rule assms [unfolded exclusive_ok_def, THEN conjunct1], rule assms [unfolded exclusive_ok_def, THEN conjunct2, THEN conjunct1])

lemma calls_exclusive:
  assumes "policy_ok srt p" "cm_Start (PolicyStatic p) initial NoCheckpoint disk = Some (Inr m0)"
    and "\<forall>k \<in> set ks. call_allowed no_init k"
  shows "cm_policy (foldl (cm_call srt) m0 ks) = PolicyStatic p" "exclusive_ok p (cm_state (foldl (cm_call srt) m0 ks))"
proof -
  have "excl.inv p srt m0"
    unfolding excl.inv_def using start_fresh [OF assms(2)] start_ok [OF assms(2,1)] assms(1) by simp
  then show "cm_policy (foldl (cm_call srt) m0 ks) = PolicyStatic p" "exclusive_ok p (cm_state (foldl (cm_call srt) m0 ks))"
    using excl.calls assms(3) unfolding excl.inv_def by blast+
qed

text \<open>C15: Started without a checkpoint, the CPU manager with the static policy keeps the CPUs partitioned through
  every sequence of calls (allocation, start, removal, clean-up, reconciliation, with any failure of the runtime
  and of the disk) in which no init container is allocated: the CPUs of a container belong to no other container
  and not to the shared set, the reserved CPUs stay shared, and no CPU is lost.\<close>

theorem exclusive_cpus_partition:
  assumes "policy_ok srt p" "cm_Start (PolicyStatic p) initial NoCheckpoint disk = Some (Inr m0)"
    and "\<forall>k \<in> set ks. call_allowed no_init k"
  defines "s \<equiv> cm_state (foldl (cm_call srt) m0 ks)"
  shows "sp_reserved p \<subseteq> GetDefaultCPUSet s \<and> GetDefaultCPUSet s \<union> taken s = all_cpus p \<and>
    (\<forall>pod n cset. assigned s pod n = Some cset \<longrightarrow> cset \<inter> GetDefaultCPUSet s = {}) \<and>
    (\<forall>pod n cset pod' n' cset'. assigned s pod n = Some cset \<longrightarrow> assigned s pod' n' = Some cset' \<longrightarrow>
       pod \<noteq> pod' \<or> n \<noteq> n' \<longrightarrow> cset \<inter> cset' = {})"
  using calls_exclusive(2) [OF assms(1-3)] unfolding s_def exclusive_ok_def .

definition demo_pod :: pod where
  "demo_pod = demo_cpu_pod [] [demo_container ''c'' 2]"

definition demo_env :: cpu_env where
  "demo_env = \<lparr>ce_AllReady = True, ce_activePods = [demo_pod],
     ce_GetPodStatus = (\<lambda>_. Some \<lparr>aps_InitContainerStatuses = [],
       aps_ContainerStatuses = [\<lparr>acs_Name = ''c'', acs_ContainerID = ''docker://x'', acs_Waiting = False, acs_Running = True, acs_Terminated = False\<rparr>]\<rparr>),
     ce_UpdateContainerResources = (\<lambda>_ _. True)\<rparr>"

definition demo_calls :: "cpu_call list" where
  "demo_calls = [CallAllocate demo_hint demo_pod (demo_container ''c'' 2), CallReconcile demo_env]"

lemma demo_calls_allowed: "\<forall>k \<in> set demo_calls. call_allowed no_init k"
  by (simp add: demo_calls_def demo_pod_def demo_cpu_pod_def)

lemma demo_calls_state:
  "assigned (cm_state (foldl (cm_call insertion_sort) demo_started demo_calls)) ''u'' ''c'' = Some {2, 3}"
  "cm_containerMap (foldl (cm_call insertion_sort) demo_started demo_calls) = [(''x'', (''u'', ''c''))]"
  "st_file (cm_state (foldl (cm_call insertion_sort) demo_started demo_calls)) =
     CheckpointV2 \<lparr>ck_PolicyName = ''static'', ck_DefaultCPUSet = ''0-1'', ck_Entries = [(''u'', [(''c'', ''2-3'')])]\<rparr>"
  by code_simp+

lemma exclusive_cpus_partition_witness:
  "{2, 3} \<inter> GetDefaultCPUSet (cm_state (foldl (cm_call insertion_sort) demo_started demo_calls)) = {}"
  using exclusive_cpus_partition [OF demo_policy_ok demo_start demo_calls_allowed] demo_calls_state(1) by blast

text \<open>C17: Allocation is exact: for a container of a guaranteed pod that asks for \<open>n\<close> CPUs and has none yet,
  it succeeds if and only if \<open>n\<close> CPUs are shared and not reserved, takes exactly \<open>n\<close> of those, and takes them
  from the NUMA nodes of the topology manager's hint if these have \<open>n\<close>; otherwise the state is as before.\<close>

theorem allocation_is_exact:
  assumes "policy_ok srt p" "GetDefaultCPUSet s \<subseteq> all_cpus p" "assigned s (p_UID pod) (c_Name c) = None"
    and "0 < guaranteedCPUs pod c" "sp_Allocate srt p h pod c s = (err, s')"
  shows "(err \<longleftrightarrow> cs_Size (assignableCPUs p s) < guaranteedCPUs pod c) \<and> (err \<longrightarrow> s' = s) \<and>
    (\<not> err \<longrightarrow> (\<exists>r. assigned s' (p_UID pod) (c_Name c) = Some r \<and> r \<subseteq> assignableCPUs p s \<and> cs_Size r = guaranteedCPUs pod c \<and>
       (\<forall>m. th_NUMANodeAffinity h = Some m \<longrightarrow> guaranteedCPUs pod c \<le> cs_Size (alignedCPUs p s m) \<longrightarrow> r \<subseteq> alignedCPUs p s m) \<and>
       (\<forall>pod' n. pod' \<noteq> p_UID pod \<or> n \<noteq> c_Name c \<longrightarrow> assigned s' pod' n = assigned s pod' n)))"
proof (cases "guaranteedCPUs pod c \<le> cs_Size (assignableCPUs p s)")
  case True
  then obtain r where r: "err = False" "s' = release_init pod c (SetCPUSet (p_UID pod) (c_Name c) r (SetDefaultCPUSet (GetDefaultCPUSet s - r) s))"
    "r \<subseteq> assignableCPUs p s" "cs_Size r = guaranteedCPUs pod c"
    "\<forall>m. th_NUMANodeAffinity h = Some m \<longrightarrow> guaranteedCPUs pod c \<le> cs_Size (alignedCPUs p s m) \<longrightarrow> r \<subseteq> alignedCPUs p s m"
    using Allocate_cases [OF assms(1,2,4,3), of h] assms(5) by auto
  have "assigned s' (p_UID pod) (c_Name c) = Some r" "\<forall>pod' n. pod' \<noteq> p_UID pod \<or> n \<noteq> c_Name c \<longrightarrow> assigned s' pod' n = assigned s pod' n"
    by (auto simp: r(2) release_init_state)
  then show ?thesis using r(1,3,4,5) True by auto
next
  case False
  then show ?thesis using Allocate_cases [OF assms(1,2,4,3), of h] assms(5) by auto
qed

lemma allocation_is_exact_witness:
  "\<exists>r. assigned (snd (sp_Allocate insertion_sort demo_policy demo_hint demo_pod (demo_container ''c'' 2) (cm_state demo_started))) ''u'' ''c'' = Some r \<and>
     cs_Size r = 2"
proof -
  let ?c = "demo_container ''c'' 2" and ?s = "cm_state demo_started"
  obtain e s' where run: "sp_Allocate insertion_sort demo_policy demo_hint demo_pod ?c ?s = (e, s')" by (rule prod.exhaust)
  have d: "GetDefaultCPUSet ?s \<subseteq> all_cpus demo_policy" using start_fresh [OF demo_start] by blast
  have n: "guaranteedCPUs demo_pod ?c = 2" "p_UID demo_pod = ''u''" "c_Name ?c = ''c''" by code_simp+
  have "fst (sp_Allocate insertion_sort demo_policy demo_hint demo_pod ?c ?s) = False" by code_simp
  then have e: "\<not> e" by (simp add: run)
  have "assigned ?s (p_UID demo_pod) (c_Name ?c) = None" by code_simp
  from allocation_is_exact [OF demo_policy_ok d this _ run] obtain r where "assigned s' ''u'' ''c'' = Some r" "cs_Size r = 2"
    using e n by auto
  then show ?thesis by (simp add: run)
qed

subsection \<open>Init containers\<close>

lemma allocateCPUs_default:
  assumes "GetDefaultCPUSet t = GetDefaultCPUSet s"
    and "allocateCPUs srt p n aff s = Some (r, SetDefaultCPUSet (GetDefaultCPUSet s - r) s)"
  shows "allocateCPUs srt p n aff t = Some (r, SetDefaultCPUSet (GetDefaultCPUSet s - r) t)"
proof -
  have a: "assignableCPUs p t = assignableCPUs p s" by (simp add: assignableCPUs_def assms(1))
  have "alignedCPUs p t m = alignedCPUs p s m" for m by (simp add: alignedCPUs_def a)
  then have tt: "take_aligned srt p n aff t = take_aligned srt p n aff s" by (simp add: take_aligned_def split: option.split)
  have F: "map_option fst (allocateCPUs srt p n aff s) = Some r" by (simp only: assms(2) option.map fst_conv)
  obtain r0 where r0: "take_aligned srt p n aff s = Some r0"
  proof (cases "take_aligned srt p n aff s")
    case None
    then show ?thesis using F unfolding allocateCPUs_def by simp
  qed (use that in blast)
  obtain r1 where r1: "takeByTopology srt (sp_topology p) (cs_Difference (assignableCPUs p s) r0) (n - cs_Size r0) = Some r1"
  proof (cases "takeByTopology srt (sp_topology p) (cs_Difference (assignableCPUs p s) r0) (n - cs_Size r0)")
    case None
    then show ?thesis using F unfolding allocateCPUs_def r0 by simp
  qed (use that in blast)
  have "cs_Union r0 r1 = r" using F by (simp add: allocateCPUs_def r0 r1 Let_def)
  then show ?thesis unfolding allocateCPUs_def tt a r0 using r1 by (simp add: Let_def assms(1) cpu_sets)
qed

lemma all_sets_mem: "e \<in> set as \<Longrightarrow> x \<in> set (snd e) \<Longrightarrow> snd x \<in> set (all_sets as)"
proof -
  have "all_sets as = concat (map (\<lambda>e. map snd (snd e)) as)" by (simp add: all_sets_def split_def)
  then show "e \<in> set as \<Longrightarrow> x \<in> set (snd e) \<Longrightarrow> snd x \<in> set (all_sets as)" by auto
qed

lemma assigned_in_all_sets:
  assumes "assigned s pod n = Some cset"
  shows "cset \<in> set (all_sets (sm_assignments (st_cache s)))"
proof -
  obtain cs where "map_of (sm_assignments (st_cache s)) pod = Some cs" "map_of cs n = Some cset"
    using assms by (cases "map_of (sm_assignments (st_cache s)) pod") (simp_all add: assigned_def sm_inner_def)
  then have "(pod, cs) \<in> set (sm_assignments (st_cache s))" "(n, cset) \<in> set cs" by (blast dest: map_of_SomeD)+
  then show ?thesis using all_sets_mem [of "(pod, cs)" _ "(n, cset)"] by simp
qed

text \<open>C16: The CPUs of an init container break the partition: the init container gets CPUs, which stay in the shared
  set for the next container; the pod's container with the same request gets the same CPUs; when reconciliation
  removes the finished init container its CPUs are added to the shared set, although they are the container's
  now.  From then on every shared container may run on them, and the validation of the state, which a restarted
  kubelet runs, fails.\<close>

theorem init_container_cpus_are_shared:
  assumes ok: "policy_ok srt p" "cm_policy m = PolicyStatic p" "exclusive_ok p (cm_state m)" "sp_reserved p \<noteq> {}"
    and pod: "i \<in> set (p_InitContainers pod)" "no_init pod c"
    and n: "0 < guaranteedCPUs pod i" "guaranteedCPUs pod c = guaranteedCPUs pod i" "guaranteedCPUs pod i \<le> cs_Size (assignableCPUs p (cm_state m))"
    and new: "assigned (cm_state m) (p_UID pod) (c_Name i) = None" "assigned (cm_state m) (p_UID pod) (c_Name c) = None"
    and run: "cm_Allocate srt h pod i m = (e1, m1)" "cm_Allocate srt h pod c m1 = (e2, m2)"
      "m3 = cm_RemoveContainer cid (m2\<lparr>cm_containerMap := cmap_Add (p_UID pod) (c_Name i) cid (cm_containerMap m2)\<rparr>)"
  shows "\<exists>r. assigned (cm_state m3) (p_UID pod) (c_Name c) = Some r \<and> cs_Size r = guaranteedCPUs pod c \<and>
    r \<subseteq> GetDefaultCPUSet (cm_state m3) \<and> validateState p (cm_state m3) = Inl OverlapsDefault"
proof -
  let ?s = "cm_state m" and ?u = "p_UID pod"
  let ?D = "GetDefaultCPUSet ?s"
  have ne: "c_Name i \<noteq> c_Name c" using pod(2) imageI [OF pod(1), of c_Name] by metis
  have D: "?D \<subseteq> all_cpus p" by (rule default_sub [OF ok(3)])
  obtain r where r: "allocateCPUs srt p (guaranteedCPUs pod i) (th_NUMANodeAffinity h) ?s = Some (r, SetDefaultCPUSet (?D - r) ?s)"
    "r \<subseteq> assignableCPUs p ?s" "cs_Size r = guaranteedCPUs pod i"
    using allocateCPUs_ok [of srt p ?s "guaranteedCPUs pod i" "th_NUMANodeAffinity h"] ok(1) D n(1,3) by (auto simp: policy_ok_def)
  have rD: "r \<subseteq> ?D" using r(2) by (auto simp: assignableCPUs_def cpu_sets)
  let ?s1 = "release_init pod i (SetCPUSet ?u (c_Name i) r (SetDefaultCPUSet (?D - r) ?s))"
  have m1: "m1 = m\<lparr>cm_state := ?s1\<rparr>"
    using run(1) n(1) new(1) by (simp add: cm_Allocate_def pol_Allocate_def ok(2) sp_Allocate_def Let_def r(1))
  have s1: "GetDefaultCPUSet ?s1 = ?D" "assigned ?s1 ?u (c_Name i) = Some r" "assigned ?s1 ?u (c_Name c) = None"
    using pod(1) rD new(2) ne by (auto simp: release_init_state)
  have "allocateCPUs srt p (guaranteedCPUs pod c) (th_NUMANodeAffinity h) ?s1 = Some (r, SetDefaultCPUSet (?D - r) ?s1)"
    unfolding n(2) by (rule allocateCPUs_default [OF s1(1) r(1)])
  then have m2: "m2 = m\<lparr>cm_state := SetCPUSet ?u (c_Name c) r (SetDefaultCPUSet (?D - r) ?s1)\<rparr>"
    using run(2) n(1,2) s1(3) by (simp add: m1 cm_Allocate_def pol_Allocate_def ok(2) sp_Allocate_def Let_def no_release [OF pod(2)])
  have s3: "GetDefaultCPUSet (cm_state m3) = ?D" "assigned (cm_state m3) ?u (c_Name c) = Some r"
    using rD s1(2) ne by (auto simp: run(3) m2 cm_RemoveContainer_def policyRemoveContainerByID_def GetContainerRef_def cmap_Add_def
        pol_RemoveContainer_def ok(2) sp_RemoveContainer_def Let_def cpu_sets update_conv')
  have "r \<noteq> {}" using r(3) n(1) by (auto simp: cs_Size_def)
  moreover have "sp_reserved p \<subseteq> ?D" by (rule exclusive_parts(1) [OF ok(3)])
  moreover have "finite ?D" by (rule finite_cpus [OF D])
  ultimately have "\<not> cs_IsEmpty ?D" "cs_Equals (cs_Intersection (sp_reserved p) ?D) (sp_reserved p)"
    "\<not> cs_IsEmpty (cs_Intersection ?D r)"
    using ok(4) rD finite_subset [OF rD] by (auto simp: cpu_sets Int_absorb1 Int_def [symmetric])
  then have "validateState p (cm_state m3) = Inl OverlapsDefault"
    using assigned_in_all_sets [OF s3(2)] by (auto simp: validateState_def Let_def s3(1) list_ex_iff GetCPUAssignments_def)
  then show ?thesis using s3 r(3) rD n(2) by simp
qed

definition demo_init_pod :: pod where
  "demo_init_pod = demo_cpu_pod [demo_container ''i'' 2] [demo_container ''c'' 2]"

definition demo_after_both :: cpu_manager where
  "demo_after_both = snd (cm_Allocate insertion_sort demo_hint demo_init_pod (demo_container ''c'' 2)
     (snd (cm_Allocate insertion_sort demo_hint demo_init_pod (demo_container ''i'' 2) demo_started)))"

lemma init_container_cpus_are_shared_witness:
  "validateState demo_policy (cm_state (cm_RemoveContainer ''x''
     (demo_after_both\<lparr>cm_containerMap := cmap_Add ''u'' ''i'' ''x'' (cm_containerMap demo_after_both)\<rparr>))) = Inl OverlapsDefault"
proof -
  let ?i = "demo_container ''i'' 2" and ?c = "demo_container ''c'' 2"
  obtain e1 m1 where r1: "cm_Allocate insertion_sort demo_hint demo_init_pod ?i demo_started = (e1, m1)" by (rule prod.exhaust)
  obtain e2 m2 where r2: "cm_Allocate insertion_sort demo_hint demo_init_pod ?c m1 = (e2, m2)" by (rule prod.exhaust)
  have both: "m2 = demo_after_both" by (simp add: demo_after_both_def r1 r2)
  have u: "p_UID demo_init_pod = ''u''" "c_Name ?i = ''i''" by code_simp+
  have pol: "cm_policy demo_started = PolicyStatic demo_policy" "sp_reserved demo_policy \<noteq> {}" by code_simp+
  have pod: "?i \<in> set (p_InitContainers demo_init_pod)" "no_init demo_init_pod ?c"
    by (simp_all add: demo_init_pod_def demo_cpu_pod_def demo_container_def empty_container_def)
  have n: "guaranteedCPUs demo_init_pod ?i = 2" "guaranteedCPUs demo_init_pod ?c = 2"
    by (simp_all add: demo_init_pod_def demo_guaranteed)
  have free: "2 \<le> cs_Size (assignableCPUs demo_policy (cm_state demo_started))" by code_simp
  then have g: "0 < guaranteedCPUs demo_init_pod ?i" "guaranteedCPUs demo_init_pod ?c = guaranteedCPUs demo_init_pod ?i"
    "guaranteedCPUs demo_init_pod ?i \<le> cs_Size (assignableCPUs demo_policy (cm_state demo_started))"
    by (simp_all add: n)
  have none: "assigned (cm_state demo_started) pod n = None" for pod n using start_fresh [OF demo_start] by simp
  from init_container_cpus_are_shared [OF demo_policy_ok pol(1) start_ok [OF demo_start demo_policy_ok] pol(2) pod g none none r1 r2 refl,
      of "''x''"]
  show ?thesis unfolding both u by blast
qed

subsection \<open>Restarts\<close>

lemma validate_accepts:
  assumes "exclusive_ok p s" "maps_ok (sm_assignments (st_cache s))" "sp_reserved p \<noteq> {}"
  shows "validateState p s = Inr s"
proof -
  let ?D = "GetDefaultCPUSet s" and ?as = "sm_assignments (st_cache s)"
  have parts: "sp_reserved p \<subseteq> ?D" "?D \<union> taken s = all_cpus p"
    by (rule exclusive_parts [OF assms(1)])+
  have fin: "finite ?D" by (rule finite_cpus [OF default_sub [OF assms(1)]])
  have u: "\<Union> (set (all_sets ?as)) = taken s" unfolding taken_def using all_sets_assigned [OF assms(2)] by blast
  have "\<not> list_ex (\<lambda>cset. \<not> cs_IsEmpty (cs_Intersection ?D cset)) (all_sets ?as)"
  proof -
    have "?D \<inter> cset = {}" if "cset \<in> set (all_sets ?as)" for cset
      using that exclusive_disjoint(1) [OF assms(1)] unfolding all_sets_assigned [OF assms(2)] by blast
    then show ?thesis by (simp add: list_ex_iff cpu_sets cs_IsEmpty_def cs_Size_def Int_def [symmetric])
  qed
  moreover have "\<not> cs_IsEmpty ?D" using parts(1) assms(3) fin by (auto simp: cpu_sets)
  moreover have "cs_Equals (cs_Intersection (sp_reserved p) ?D) (sp_reserved p)" using parts(1) by (auto simp: cpu_sets)
  moreover have "cs_Equals (cs_UnionAll ?D (all_sets ?as)) (all_cpus p)" by (simp add: cpu_sets u parts(2))
  ultimately show ?thesis by (simp add: validateState_def Let_def GetCPUAssignments_def)
qed

lemma exclusive_cache: "st_cache t = st_cache s \<Longrightarrow> exclusive_ok p t = exclusive_ok p s"
  by (simp add: exclusive_ok_def taken_def assigned_def GetDefaultCPUSet_def)

lemma calls_stored:
  assumes "cm_Start (PolicyStatic p) initial NoCheckpoint [] = Some (Inr m0)"
  shows "stored_ok (cm_state (foldl (cm_call srt) m0 ks))"
proof -
  have "kept_file.inv p m0" unfolding kept_file.inv_def using start_fresh [OF assms] by simp
  moreover have "call_allowed (\<lambda>_ _. True) k" for k by (cases k) simp_all
  ultimately show ?thesis using kept_file.calls unfolding kept_file.inv_def by blast
qed

text \<open>C18: A restarted kubelet finds its assignments again: after any sequence of calls without init containers and
  with a disk that writes, starting the manager on the checkpoint file, which holds the sets as text, succeeds and gives
  exactly the assignments and the shared set it had.\<close>

theorem restart_recovers_assignments:
  assumes "policy_ok srt p" "sp_reserved p \<noteq> {}" "\<forall>c \<in> all_cpus p. 0 \<le> c \<and> c < 9223372036854775807"
    and "cm_Start (PolicyStatic p) initial NoCheckpoint [] = Some (Inr m0)" "\<forall>k \<in> set ks. call_allowed no_init k"
    and "m = foldl (cm_call srt) m0 ks"
  shows "\<exists>m'. cm_Start (PolicyStatic p) initial' (st_file (cm_state m)) disk = Some (Inr m') \<and> st_cache (cm_state m') = st_cache (cm_state m)"
proof -
  let ?s = "cm_state m"
  have ex: "exclusive_ok p ?s" using calls_exclusive(2) [OF assms(1,4,5)] by (simp add: assms(6))
  have st: "stored_ok ?s" using calls_stored [OF assms(4)] by (simp add: assms(6))
  have ok: "cpus_ok A" if "A \<subseteq> all_cpus p" for A using that assms(3) finite_cpus [OF that] by (auto simp: cpus_ok_def)
  have maps: "maps_ok (sm_assignments (st_cache ?s))" using st by (simp add: stored_ok_def)
  have sub: "cset \<subseteq> all_cpus p" if "cset \<in> set (all_sets (sm_assignments (st_cache ?s)))" for cset
  proof -
    have "cset \<subseteq> taken ?s" using that unfolding all_sets_assigned [OF maps] taken_def by blast
    then show ?thesis using exclusive_parts(2) [OF ex] by blast
  qed
  have "snd x \<in> set (all_sets (sm_assignments (st_cache ?s)))" if "e \<in> set (sm_assignments (st_cache ?s))" "x \<in> set (snd e)" for e x
    by (rule all_sets_mem [OF that])
  then have "memory_ok (st_cache ?s)"
    using ok [OF default_sub [OF ex]] ok [OF sub] by (auto simp: memory_ok_def GetDefaultCPUSet_def)
  moreover have f: "st_file ?s = CheckpointV2 (checkpoint_of ?s)" "st_policyName ?s = ''static''"
    using st by (simp_all add: stored_ok_def saved_def)
  ultimately obtain s' where s': "NewCheckpointState ''static'' initial' (st_file ?s) disk = Some (Inr s')" "st_cache s' = st_cache ?s"
    using restart_reads_state [of ?s initial' disk] by auto
  have "validateState p s' = Inr s'" 
    using ex maps by (intro validate_accepts assms(2)) (simp_all add: exclusive_cache [OF s'(2)] s'(2))
  then show ?thesis by (simp add: cm_Start_def pol_Name_def s'(1) pol_Start_def sp_Start_def s'(2))
qed

lemma restart_recovers_assignments_witness:
  "\<exists>m'. cm_Start (PolicyStatic demo_policy) [] (st_file (cm_state (foldl (cm_call insertion_sort) demo_started demo_calls))) [] = Some (Inr m') \<and>
     assigned (cm_state m') ''u'' ''c'' = Some {2, 3}"
proof -
  have "sp_reserved demo_policy \<noteq> {}" "\<forall>c \<in> all_cpus demo_policy. 0 \<le> c \<and> c < 9223372036854775807" by code_simp+
  from restart_recovers_assignments [OF demo_policy_ok this demo_start demo_calls_allowed refl, of "[]" "[]"]
  show ?thesis using demo_calls_state(1) unfolding assigned_def by auto
qed

subsection \<open>NUMA alignment\<close>

text \<open>C14: With the single-numa-node policy and the CPU manager as hint provider, an admitted pod is aligned: every container
  (init containers included) that asks for whole CPUs as part of a guaranteed pod then holds exactly as many CPUs as it asks for, all
  on one NUMA node, whatever was allocated before.  This composes the hints of the static policy, their merging, the clean-up of stale
  state before each hint and the allocation.\<close>

theorem single_numa_admission:
  assumes "policy_ok srt p" "known_sets p (cm_state w)" "cm_policy w = PolicyStatic p" "env_ok env pod"
    and "tm_policy m = singleNumaNodePolicy nodes" "set nodes = NUMANodes (tp_CPUDetails (sp_topology p))"
    and "tm_Admit [cpu_provider srt env] pod m w = Inr (Admitted, m', w')"
    and "c \<in> set (pod_containers pod)" "0 < guaranteedCPUs pod c"
  shows "\<exists>cset node. assigned (cm_state w') (p_UID pod) (c_Name c) = Some cset \<and> cs_Size cset = guaranteedCPUs pod c \<and>
    (\<forall>cpu \<in> cset. numa_of (tp_CPUDetails (sp_topology p)) cpu = node)"
  using admit_all [OF assms(1,4,6,2,3,5) subset_refl assms(7) [unfolded tm_Admit_def pod_containers_def [symmetric]]] assms(8,9)
  unfolding on_one_node_def by blast

definition demo_admission :: "go_panic + admit_result \<times> topology_manager \<times> cpu_manager" where
  "demo_admission =
     tm_Admit [cpu_provider insertion_sort demo_env] demo_pod \<lparr>tm_podTopologyHints = [], tm_podMap = [], tm_policy = singleNumaNodePolicy [0, 1]\<rparr> demo_started"

lemma demo_admitted: "(case demo_admission of Inr (r, _, _) \<Rightarrow> r = Admitted | Inl _ \<Rightarrow> False)"
  by code_simp

lemma single_numa_admission_witness:
  "\<exists>m' w' cset node. demo_admission = Inr (Admitted, m', w') \<and> assigned (cm_state w') ''u'' ''c'' = Some cset \<and> cs_Size cset = 2 \<and>
     (\<forall>cpu \<in> cset. numa_of (tp_CPUDetails demo_topology) cpu = node)"
proof -
  obtain m' w' where r: "demo_admission = Inr (Admitted, m', w')" using demo_admitted by (auto split: sum.splits prod.splits)
  have k: "known_sets demo_policy (cm_state demo_started)" using start_fresh [OF demo_start] by (simp add: known_sets_def)
  have pol: "cm_policy demo_started = PolicyStatic demo_policy" using start_fresh [OF demo_start] by blast
  have e: "env_ok demo_env demo_pod" by (simp add: env_ok_def demo_env_def)
  have nodes: "set [0, 1] = NUMANodes (tp_CPUDetails (sp_topology demo_policy))" by code_simp
  have c: "demo_container ''c'' 2 \<in> set (pod_containers demo_pod)" by (simp add: pod_containers_def demo_pod_def demo_cpu_pod_def)
  have n: "guaranteedCPUs demo_pod (demo_container ''c'' 2) = 2" by code_simp
  have u: "p_UID demo_pod = ''u''" "c_Name (demo_container ''c'' 2) = ''c''" "sp_topology demo_policy = demo_topology" by code_simp+
  have t: "tm_policy \<lparr>tm_podTopologyHints = [], tm_podMap = [], tm_policy = singleNumaNodePolicy [0, 1]\<rparr> = singleNumaNodePolicy [0, 1]" by simp
  have pos: "0 < guaranteedCPUs demo_pod (demo_container ''c'' 2)" by (simp add: n)
  from single_numa_admission [OF demo_policy_ok k pol e t nodes r [unfolded demo_admission_def] c pos] r show ?thesis
    unfolding u n by blast
qed

text \<open>C19: The merged hint is the best one: under the best-effort and the restricted policy it is the intersection of one hint of
  every provider and resource, unless all such intersections are empty or not preferred beside the default, and no other
  choice of hints with a non-empty intersection is better, that is preferred where it is not, or equally preferred and narrower.
  The restricted policy admits exactly if it is preferred.\<close>

theorem merged_hint_is_best:
  assumes "p = bestEffortPolicy nodes \<or> p = restrictedPolicy nodes" "NewBitMask nodes = Some dflt" "tp_Merge p ps = Inr (h, admit)"
  shows "\<exists>m. th_NUMANodeAffinity h = Some m \<and> (admit \<longleftrightarrow> p = bestEffortPolicy nodes \<or> th_Preferred h) \<and>
    (m = dflt \<and> \<not> th_Preferred h \<or>
     (\<exists>choice. list_all2 (\<lambda>h l. h \<in> set l) choice (filterProvidersHints ps) \<and> mergePermutation dflt choice = (m, th_Preferred h) \<and> bm_Count m \<noteq> 0)) \<and>
    (\<forall>choice. list_all2 (\<lambda>h l. h \<in> set l) choice (filterProvidersHints ps) \<longrightarrow> bm_Count (fst (mergePermutation dflt choice)) \<noteq> 0 \<longrightarrow>
       \<not> beats (mergePermutation dflt choice) (m, th_Preferred h))"
proof -
  obtain m b where r: "merged_best dflt (filterProvidersHints ps) = (m, b)" by (rule prod.exhaust)
  have h: "h = \<lparr>th_NUMANodeAffinity = Some m, th_Preferred = b\<rparr>" "admit = (p = bestEffortPolicy nodes \<or> b)"
    using assms by (auto simp: tp_Merge_def mergeFilteredHints_def r)
  note spec = merged_best_spec [OF r]
  show ?thesis
  proof (intro exI [of _ m] conjI)
    show "m = dflt \<and> \<not> th_Preferred h \<or>
        (\<exists>choice. list_all2 (\<lambda>h l. h \<in> set l) choice (filterProvidersHints ps) \<and> mergePermutation dflt choice = (m, th_Preferred h) \<and> bm_Count m \<noteq> 0)"
      using conjunct1 [OF spec] by (auto simp: h(1))
    show "\<forall>choice. list_all2 (\<lambda>h l. h \<in> set l) choice (filterProvidersHints ps) \<longrightarrow> bm_Count (fst (mergePermutation dflt choice)) \<noteq> 0 \<longrightarrow>
        \<not> beats (mergePermutation dflt choice) (m, th_Preferred h)"
      using conjunct2 [OF spec] by (simp add: h(1))
  qed (simp_all add: h)
qed

definition demo_hints :: "resource_hints list" where
  "demo_hints =
     [[(''cpu'', Some [\<lparr>th_NUMANodeAffinity = Some 2, th_Preferred = True\<rparr>, \<lparr>th_NUMANodeAffinity = Some 3, th_Preferred = False\<rparr>])], []]"

lemma merged_hint_is_best_witness:
  "\<not> beats (mergePermutation 3 [\<lparr>th_NUMANodeAffinity = Some 3, th_Preferred = False\<rparr>, \<lparr>th_NUMANodeAffinity = None, th_Preferred = True\<rparr>]) (2, True)"
proof -
  have d: "NewBitMask [0, 1] = Some 3" by code_simp
  have m: "tp_Merge (restrictedPolicy [0, 1]) demo_hints = Inr (\<lparr>th_NUMANodeAffinity = Some 2, th_Preferred = True\<rparr>, True)" by code_simp
  have c: "list_all2 (\<lambda>h l. h \<in> set l)
      [\<lparr>th_NUMANodeAffinity = Some 3, th_Preferred = False\<rparr>, \<lparr>th_NUMANodeAffinity = None, th_Preferred = True\<rparr>] (filterProvidersHints demo_hints)"
    by (simp add: demo_hints_def filterProvidersHints_def)
  have n: "bm_Count (fst (mergePermutation 3 [\<lparr>th_NUMANodeAffinity = Some 3, th_Preferred = False\<rparr>, \<lparr>th_NUMANodeAffinity = None, th_Preferred = True\<rparr>])) \<noteq> 0"
    by code_simp
  show ?thesis using merged_hint_is_best [OF disjI2 [OF refl] d m] c n by auto
qed

subsection \<open>Gaps\<close>

text \<open>The topology manager keys its hints by container name but removes them by container ID: the hint of a container
  stays when it is removed.\<close>

lemma topology_hints_stay: "c \<noteq> containerID \<Longrightarrow> GetAffinity (tm_RemoveContainer containerID m) u c = GetAffinity m u c"
proof -
  assume c: "c \<noteq> containerID"
  have keep: "map_of (AList.delete containerID hs) c = map_of hs c" for hs :: "(string \<times> topology_hint) list"
    using c by (simp add: delete_conv')
  have empty: "AList.delete containerID hs = [] \<Longrightarrow> map_of hs c = None" for hs :: "(string \<times> topology_hint) list"
    using keep [of hs] by simp
  show ?thesis
    using c by (auto simp: GetAffinity_def tm_RemoveContainer_def tm_hints_def Let_def delete_conv' keep empty split: option.split)
qed

text \<open>The validation of a state does not see a CPU that two containers hold.\<close>

lemma validate_misses_overlap:
  "let s = \<lparr>st_cache = \<lparr>sm_assignments = [(''u'', [(''a'', {2, 3}), (''b'', {2})])], sm_defaultCPUSet = {0, 1}\<rparr>,
            st_policyName = ''static'', st_file = NoCheckpoint, st_disk = []\<rparr>
   in validateState demo_policy s = Inr s"
  by code_simp

text \<open>A part of a CPU list with two dashes is skipped without an error.\<close>

lemma parse_skips_malformed: "2 < length (split_char (CHR ''-'') r) \<Longrightarrow> parse_ranges (r # rs) acc = parse_ranges rs acc"
  by (auto split: list.split)

text \<open>Masks with a single bit at an even position are printed without the padding of the others.\<close>

lemma String_of_single_bit: "bm_String 4 = ''100''" "bm_String 5 = ''0101''"
  by code_simp+

end
