(* ===== verification/NodeInfo.thy ===== *)
theory NodeInfo
  imports ResourceNames "HOL-Library.Multiset"
begin

section \<open>What the scheduler knows of a node\<close>

text \<open>
  \<open>Resource\<close>, \<open>HostPortInfo\<close> and \<open>NodeInfo\<close> of \<open>pkg/scheduler/nodeinfo\<close>, with the default requests of
  \<open>pkg/scheduler/util/non_zero.go\<close>.  Go maps are association lists, in the order a \<open>range\<close> visits them;
  the global generation counter is threaded through the operations that bump it.  The transient
  volume counts are never set by the program and are left out.
\<close>

subsection \<open>Amounts of resources\<close>

record sched_gates =
  sg_LocalStorage :: bool
  sg_PodOverhead :: bool

type_synonym scalars = "(string \<times> int) list"

record node_resource =
  r_MilliCPU :: int
  r_Memory :: int
  r_EphemeralStorage :: int
  r_AllowedPodNumber :: int
  r_ScalarResources :: scalars

definition emptyResource :: node_resource where
  "emptyResource = \<lparr>r_MilliCPU = 0, r_Memory = 0, r_EphemeralStorage = 0, r_AllowedPodNumber = 0, r_ScalarResources = []\<rparr>"

definition scalar :: "scalars \<Rightarrow> string \<Rightarrow> int" where
  "scalar s n = (case map_of s n of Some x \<Rightarrow> x | None \<Rightarrow> 0)"

definition SetScalar :: "string \<Rightarrow> int \<Rightarrow> node_resource \<Rightarrow> node_resource" where
  "SetScalar n q r = r\<lparr>r_ScalarResources := AList.update n q (r_ScalarResources r)\<rparr>"

definition AddScalar :: "string \<Rightarrow> int \<Rightarrow> node_resource \<Rightarrow> node_resource" where
  "AddScalar n q r = SetScalar n (wrap64 (scalar (r_ScalarResources r) n + q)) r"

definition res_add1 :: "sched_gates \<Rightarrow> node_resource \<Rightarrow> string \<times> quantity \<Rightarrow> node_resource" where
  "res_add1 g r nq =
     (case nq of (n, q) \<Rightarrow>
        if n = ResourceCPU then r\<lparr>r_MilliCPU := wrap64 (r_MilliCPU r + q_MilliValue q)\<rparr>
        else if n = ResourceMemory then r\<lparr>r_Memory := wrap64 (r_Memory r + q_Value q)\<rparr>
        else if n = ResourcePods then r\<lparr>r_AllowedPodNumber := wrap64 (r_AllowedPodNumber r + q_Value q)\<rparr>
        else if n = ResourceEphemeralStorage then
          if sg_LocalStorage g then r\<lparr>r_EphemeralStorage := wrap64 (r_EphemeralStorage r + q_Value q)\<rparr> else r
        else if IsScalarResourceName n then AddScalar n (q_Value q) r else r)"

definition res_Add :: "sched_gates \<Rightarrow> resource_list \<Rightarrow> node_resource \<Rightarrow> node_resource" where
  "res_Add g rl r = foldl (res_add1 g) r rl"

definition NewResource :: "sched_gates \<Rightarrow> resource_list \<Rightarrow> node_resource" where
  "NewResource g rl = res_Add g rl emptyResource"

definition res_max1 :: "node_resource \<Rightarrow> string \<times> quantity \<Rightarrow> node_resource" where
  "res_max1 r nq =
     (case nq of (n, q) \<Rightarrow>
        if n = ResourceMemory then (if r_Memory r < q_Value q then r\<lparr>r_Memory := q_Value q\<rparr> else r)
        else if n = ResourceCPU then (if r_MilliCPU r < q_MilliValue q then r\<lparr>r_MilliCPU := q_MilliValue q\<rparr> else r)
        else if n = ResourceEphemeralStorage then
          (if r_EphemeralStorage r < q_Value q then r\<lparr>r_EphemeralStorage := q_Value q\<rparr> else r)
        else if IsScalarResourceName n then
          (if scalar (r_ScalarResources r) n < q_Value q then SetScalar n (q_Value q) r else r)
        else r)"

definition SetMaxResource :: "resource_list \<Rightarrow> node_resource \<Rightarrow> node_resource" where
  "SetMaxResource rl r = foldl res_max1 r rl"

definition res_ResourceList :: "node_resource \<Rightarrow> resource_list" where
  "res_ResourceList r =
     foldl (\<lambda>l (n, q). AList.update n (NewQuantity q (if IsHugePageResourceName n then BinarySI else DecimalSI)) l)
       [(ResourceCPU, NewMilliQuantity (r_MilliCPU r) DecimalSI), (ResourceMemory, NewQuantity (r_Memory r) BinarySI),
        (ResourcePods, NewQuantity (r_AllowedPodNumber r) BinarySI),
        (ResourceEphemeralStorage, NewQuantity (r_EphemeralStorage r) BinarySI)]
       (r_ScalarResources r)"

subsection \<open>Default requests\<close>

definition DefaultMilliCPURequest :: int where
  "DefaultMilliCPURequest = 100"

definition DefaultMemoryRequest :: int where
  "DefaultMemoryRequest = 200 * 1024 * 1024"

definition GetNonzeroRequestForResource :: "sched_gates \<Rightarrow> string \<Rightarrow> resource_list \<Rightarrow> int" where
  "GetNonzeroRequestForResource g r reqs =
     (if r = ResourceCPU then
        (case map_of reqs ResourceCPU of None \<Rightarrow> DefaultMilliCPURequest | Some q \<Rightarrow> q_MilliValue q)
      else if r = ResourceMemory then
        (case map_of reqs ResourceMemory of None \<Rightarrow> DefaultMemoryRequest | Some q \<Rightarrow> q_Value q)
      else if r = ResourceEphemeralStorage then
        (if \<not> sg_LocalStorage g then 0
         else case map_of reqs ResourceEphemeralStorage of None \<Rightarrow> 0 | Some q \<Rightarrow> q_Value q)
      else if IsScalarResourceName r then (case map_of reqs r of None \<Rightarrow> 0 | Some q \<Rightarrow> q_Value q)
      else 0)"

definition GetNonzeroRequests :: "sched_gates \<Rightarrow> resource_list \<Rightarrow> int \<times> int" where
  "GetNonzeroRequests g reqs = (GetNonzeroRequestForResource g ResourceCPU reqs, GetNonzeroRequestForResource g ResourceMemory reqs)"

definition nonzero_sum :: "sched_gates \<Rightarrow> container list \<Rightarrow> int \<times> int" where
  "nonzero_sum g cs =
     foldl (\<lambda>(cpu, mem) c. case GetNonzeroRequests g (c_Requests c) of (x, y) \<Rightarrow> (wrap64 (cpu + x), wrap64 (mem + y))) (0, 0) cs"

definition nonzero_max :: "sched_gates \<Rightarrow> container list \<Rightarrow> int \<times> int \<Rightarrow> int \<times> int" where
  "nonzero_max g cs z =
     foldl (\<lambda>(cpu, mem) c. case GetNonzeroRequests g (c_Requests c) of (x, y) \<Rightarrow>
              (if cpu < x then x else cpu, if mem < y then y else mem)) z cs"

text \<open>\<open>calculateResource\<close>: max(sum of containers, init containers) plus overhead.\<close>

definition calculateResource :: "sched_gates \<Rightarrow> pod \<Rightarrow> node_resource \<times> int \<times> int" where
  "calculateResource g pod =
     (let r0 = foldl (\<lambda>r c. res_Add g (c_Requests c) r) emptyResource (p_Containers pod);
          r1 = foldl (\<lambda>r c. SetMaxResource (c_Requests c) r) r0 (p_InitContainers pod);
          (cpu, mem) = nonzero_max g (p_InitContainers pod) (nonzero_sum g (p_Containers pod))
      in case p_Overhead pod of
           None \<Rightarrow> (r1, cpu, mem)
         | Some ov \<Rightarrow>
             if sg_PodOverhead g then
               (res_Add g ov r1,
                (case map_of ov ResourceCPU of Some q \<Rightarrow> wrap64 (cpu + q_MilliValue q) | None \<Rightarrow> cpu),
                (case map_of ov ResourceMemory of Some q \<Rightarrow> wrap64 (mem + q_Value q) | None \<Rightarrow> mem))
             else (r1, cpu, mem))"

subsection \<open>Host ports\<close>

type_synonym protocol_port = "string \<times> int"
type_synonym host_ports = "(string \<times> protocol_port list) list"

fun protocol_string :: "protocol \<Rightarrow> string" where
  "protocol_string TCP = ''TCP''"
| "protocol_string UDP = ''UDP''"
| "protocol_string SCTP = ''SCTP''"

definition DefaultBindAllHostIP :: string where
  "DefaultBindAllHostIP = ''0.0.0.0''"

definition sanitize :: "string \<Rightarrow> string \<Rightarrow> string \<times> string" where
  "sanitize ip protocol =
     (if ip = [] then DefaultBindAllHostIP else ip, if protocol = [] then ''TCP'' else protocol)"

definition NewProtocolPort :: "string \<Rightarrow> int \<Rightarrow> protocol_port" where
  "NewProtocolPort protocol port = (if protocol = [] then ''TCP'' else protocol, port)"

definition hp_Add :: "string \<Rightarrow> string \<Rightarrow> int \<Rightarrow> host_ports \<Rightarrow> host_ports" where
  "hp_Add ip0 protocol0 port h =
     (if port \<le> 0 then h
      else case sanitize ip0 protocol0 of
        (ip, protocol) \<Rightarrow>
          let pp = NewProtocolPort protocol port in
          case map_of h ip of
            None \<Rightarrow> AList.update ip [pp] h
          | Some m \<Rightarrow> AList.update ip (List.insert pp m) h)"

definition hp_Remove :: "string \<Rightarrow> string \<Rightarrow> int \<Rightarrow> host_ports \<Rightarrow> host_ports" where
  "hp_Remove ip0 protocol0 port h =
     (if port \<le> 0 then h
      else case sanitize ip0 protocol0 of
        (ip, protocol) \<Rightarrow>
          let pp = NewProtocolPort protocol port in
          case map_of h ip of
            None \<Rightarrow> h
          | Some m \<Rightarrow>
              let m' = removeAll pp m in
              if m' = [] then AList.delete ip h else AList.update ip m' h)"

definition hp_Len :: "host_ports \<Rightarrow> nat" where
  "hp_Len h = sum_list (map (\<lambda>(_, m). length m) h)"

definition CheckConflict :: "string \<Rightarrow> string \<Rightarrow> int \<Rightarrow> host_ports \<Rightarrow> bool" where
  "CheckConflict ip0 protocol0 port h =
     (if port \<le> 0 then False
      else case sanitize ip0 protocol0 of
        (ip, protocol) \<Rightarrow>
          let pp = NewProtocolPort protocol port in
          if ip = DefaultBindAllHostIP then list_ex (\<lambda>(_, m). pp \<in> set m) h
          else list_ex (\<lambda>key. case map_of h key of Some m \<Rightarrow> pp \<in> set m | None \<Rightarrow> False) [DefaultBindAllHostIP, ip])"

subsection \<open>Nodes\<close>

record node =
  n_Name :: string
  n_Labels :: "(string \<times> string) list"
  n_Allocatable :: resource_list
  n_Unschedulable :: bool
  n_Taints :: "(string \<times> string \<times> string) list"
  n_Conditions :: "(string \<times> string) list"
  n_Images :: "(string list \<times> int) list"

record image_summary =
  im_Size :: int
  im_NumNodes :: int

record node_info =
  ni_node :: "node option"
  ni_pods :: "pod list"
  ni_podsWithAffinity :: "pod list"
  ni_usedPorts :: host_ports
  ni_requested :: node_resource
  ni_nonzero :: node_resource
  ni_allocatable :: node_resource
  ni_taints :: "(string \<times> string \<times> string) list"
  ni_imageStates :: "(string \<times> image_summary) list"
  ni_memoryPressure :: string
  ni_diskPressure :: string
  ni_pidPressure :: string
  ni_generation :: int

definition nextGeneration :: "int \<Rightarrow> int" where
  "nextGeneration gen = wrap64 (gen + 1)"

definition empty_node_info :: "int \<Rightarrow> node_info" where
  "empty_node_info gen =
     \<lparr>ni_node = None, ni_pods = [], ni_podsWithAffinity = [], ni_usedPorts = [], ni_requested = emptyResource,
      ni_nonzero = emptyResource, ni_allocatable = emptyResource, ni_taints = [], ni_imageStates = [],
      ni_memoryPressure = [], ni_diskPressure = [], ni_pidPressure = [], ni_generation = gen\<rparr>"

definition GetPodKey :: "pod \<Rightarrow> string option" where
  "GetPodKey pod = (if p_UID pod = [] then None else Some (p_UID pod))"

definition hasPodAffinityConstraints :: "pod \<Rightarrow> bool" where
  "hasPodAffinityConstraints pod \<longleftrightarrow> p_PodAffinity pod \<or> p_PodAntiAffinity pod"

definition add_scalars :: "scalars \<Rightarrow> scalars \<Rightarrow> scalars" where
  "add_scalars s new = foldl (\<lambda>s (n, q). AList.update n (wrap64 (scalar s n + q)) s) s new"

definition sub_scalars :: "scalars \<Rightarrow> scalars \<Rightarrow> scalars" where
  "sub_scalars s new = foldl (\<lambda>s (n, q). AList.update n (wrap64 (scalar s n - q)) s) s new"

definition pod_ports :: "pod \<Rightarrow> container_port list" where
  "pod_ports pod = concat (map c_Ports (p_Containers pod))"

definition UpdateUsedPorts :: "pod \<Rightarrow> bool \<Rightarrow> host_ports \<Rightarrow> host_ports" where
  "UpdateUsedPorts pod add h =
     foldl (\<lambda>h p. (if add then hp_Add else hp_Remove) (cp_HostIP p) (protocol_string (cp_Protocol p)) (cp_HostPort p) h)
       h (pod_ports pod)"

definition ni_AddPod :: "sched_gates \<Rightarrow> pod \<Rightarrow> int \<times> node_info \<Rightarrow> int \<times> node_info" where
  "ni_AddPod g pod st =
     (case st of (gen, n) \<Rightarrow>
        (case calculateResource g pod of
           (res, cpu, mem) \<Rightarrow>
             let r = ni_requested n; z = ni_nonzero n; gen' = nextGeneration gen in
             (gen',
              n\<lparr>ni_requested := r\<lparr>r_MilliCPU := wrap64 (r_MilliCPU r + r_MilliCPU res),
                                  r_Memory := wrap64 (r_Memory r + r_Memory res),
                                  r_EphemeralStorage := wrap64 (r_EphemeralStorage r + r_EphemeralStorage res),
                                  r_ScalarResources := add_scalars (r_ScalarResources r) (r_ScalarResources res)\<rparr>,
                ni_nonzero := z\<lparr>r_MilliCPU := wrap64 (r_MilliCPU z + cpu), r_Memory := wrap64 (r_Memory z + mem)\<rparr>,
                ni_pods := ni_pods n @ [pod],
                ni_podsWithAffinity := (if hasPodAffinityConstraints pod then ni_podsWithAffinity n @ [pod] else ni_podsWithAffinity n),
                ni_usedPorts := UpdateUsedPorts pod True (ni_usedPorts n),
                ni_generation := gen'\<rparr>)))"

definition NewNodeInfo :: "sched_gates \<Rightarrow> pod list \<Rightarrow> int \<Rightarrow> int \<times> node_info" where
  "NewNodeInfo g pods gen =
     (let gen' = nextGeneration gen in foldl (\<lambda>st pod. ni_AddPod g pod st) (gen', empty_node_info gen') pods)"

text \<open>The first pod with the key, replaced by the last one; \<open>None\<close> when there is none.\<close>

fun key_index :: "string \<Rightarrow> pod list \<Rightarrow> nat option" where
  "key_index k [] = None"
| "key_index k (p # ps) = (if GetPodKey p = Some k then Some 0 else map_option Suc (key_index k ps))"

definition swap_delete :: "'a list \<Rightarrow> nat \<Rightarrow> 'a list" where
  "swap_delete xs i = butlast (xs[i := last xs])"

datatype node_info_error = EmptyPodUID | NoSuchPod

definition ni_RemovePod :: "sched_gates \<Rightarrow> pod \<Rightarrow> int \<times> node_info \<Rightarrow> go_panic + (node_info_error option \<times> int \<times> node_info)" where
  "ni_RemovePod g pod st =
     (case st of (gen, n) \<Rightarrow>
        (case GetPodKey pod of
           None \<Rightarrow> Inr (Some EmptyPodUID, gen, n)
         | Some k \<Rightarrow>
             let n1 = (case key_index k (ni_podsWithAffinity n) of
                         None \<Rightarrow> n | Some i \<Rightarrow> n\<lparr>ni_podsWithAffinity := swap_delete (ni_podsWithAffinity n) i\<rparr>) in
             (case key_index k (ni_pods n1) of
                None \<Rightarrow> (case ni_node n1 of None \<Rightarrow> Inl NilDereference | Some _ \<Rightarrow> Inr (Some NoSuchPod, gen, n1))
              | Some i \<Rightarrow>
                  (case calculateResource g pod of
                     (res, cpu, mem) \<Rightarrow>
                       let r = ni_requested n1; z = ni_nonzero n1; gen' = nextGeneration gen in
                       Inr (None, gen',
                         n1\<lparr>ni_pods := swap_delete (ni_pods n1) i,
                            ni_requested := r\<lparr>r_MilliCPU := wrap64 (r_MilliCPU r - r_MilliCPU res),
                                  r_Memory := wrap64 (r_Memory r - r_Memory res),
                                  r_EphemeralStorage := wrap64 (r_EphemeralStorage r - r_EphemeralStorage res),
                                  r_ScalarResources := sub_scalars (r_ScalarResources r) (r_ScalarResources res)\<rparr>,
                            ni_nonzero := z\<lparr>r_MilliCPU := wrap64 (r_MilliCPU z - cpu), r_Memory := wrap64 (r_Memory z - mem)\<rparr>,
                            ni_usedPorts := UpdateUsedPorts pod False (ni_usedPorts n1),
                            ni_generation := gen'\<rparr>)))))"

definition condition_value :: "string \<Rightarrow> string \<Rightarrow> (string \<times> string) list \<Rightarrow> string" where
  "condition_value ty old conds = foldl (\<lambda>v (t, s). if t = ty then s else v) old conds"

definition ni_SetNode :: "sched_gates \<Rightarrow> node \<Rightarrow> int \<times> node_info \<Rightarrow> int \<times> node_info" where
  "ni_SetNode g nd st =
     (case st of (gen, n) \<Rightarrow>
        let gen' = nextGeneration gen in
        (gen', n\<lparr>ni_node := Some nd, ni_allocatable := NewResource g (n_Allocatable nd), ni_taints := n_Taints nd,
                 ni_memoryPressure := condition_value ''MemoryPressure'' (ni_memoryPressure n) (n_Conditions nd),
                 ni_diskPressure := condition_value ''DiskPressure'' (ni_diskPressure n) (n_Conditions nd),
                 ni_pidPressure := condition_value ''PIDPressure'' (ni_pidPressure n) (n_Conditions nd),
                 ni_generation := gen'\<rparr>))"

definition FilterOutPods :: "node_info \<Rightarrow> pod list \<Rightarrow> pod list" where
  "FilterOutPods n pods =
     (case ni_node n of
        None \<Rightarrow> pods
      | Some nd \<Rightarrow>
          filter (\<lambda>p. p_NodeName p \<noteq> n_Name nd \<or>
            (case GetPodKey p of None \<Rightarrow> False | Some k \<Rightarrow> list_ex (\<lambda>np. p_UID np = k) (ni_pods n))) pods)"

definition ni_Filter :: "node_info \<Rightarrow> pod \<Rightarrow> go_panic + bool" where
  "ni_Filter n pod =
     (case ni_node n of
        None \<Rightarrow> Inl NilDereference
      | Some nd \<Rightarrow>
          Inr (if p_NodeName pod \<noteq> n_Name nd then True
               else list_ex (\<lambda>p. p_Name p = p_Name pod \<and> p_Namespace p = p_Namespace pod) (ni_pods n)))"

definition VolumeLimits :: "node_info \<Rightarrow> scalars" where
  "VolumeLimits n = filter (\<lambda>(k, _). IsAttachableVolumeResourceName k) (r_ScalarResources (ni_allocatable n))"

subsection \<open>Amounts by name\<close>

definition amount :: "node_resource \<Rightarrow> string \<Rightarrow> int" where
  "amount r k =
     (if k = ResourceCPU then r_MilliCPU r else if k = ResourceMemory then r_Memory r
      else if k = ResourceEphemeralStorage then r_EphemeralStorage r else scalar (r_ScalarResources r) k)"

definition sched_request :: "sched_gates \<Rightarrow> pod \<Rightarrow> node_resource" where
  "sched_request g pod = fst (calculateResource g pod)"

lemma scalar_update [simp]: "scalar (AList.update n q s) k = (if k = n then q else scalar s k)"
  by (simp add: scalar_def)

lemma amount_empty [simp]: "amount emptyResource k = 0"
  by (simp add: amount_def emptyResource_def scalar_def)

abbreviation keys_distinct :: "node_resource \<Rightarrow> bool" where
  "keys_distinct r \<equiv> distinct (map fst (r_ScalarResources r))"

lemma SetScalar_distinct: "keys_distinct r \<Longrightarrow> keys_distinct (SetScalar n q r)"
  by (simp add: SetScalar_def distinct_update)

lemma res_add1_distinct: "keys_distinct r \<Longrightarrow> keys_distinct (res_add1 g r nq)"
  by (simp add: res_add1_def AddScalar_def SetScalar_distinct split: prod.split)

lemma res_max1_distinct: "keys_distinct r \<Longrightarrow> keys_distinct (res_max1 r nq)"
  by (simp add: res_max1_def SetScalar_distinct split: prod.split)

lemma foldl_inv: "(\<And>r x. P r \<Longrightarrow> P (f r x)) \<Longrightarrow> P r \<Longrightarrow> P (foldl f r xs)"
  by (induction xs arbitrary: r) auto

lemma sched_request_inv:
  assumes "P emptyResource" "\<And>r x. P r \<Longrightarrow> P (res_add1 g r x)" "\<And>r x. P r \<Longrightarrow> P (res_max1 r x)"
  shows "P (sched_request g pod)"
proof -
  let ?r0 = "foldl (\<lambda>r c. res_Add g (c_Requests c) r) emptyResource (p_Containers pod)"
  let ?r1 = "foldl (\<lambda>r c. SetMaxResource (c_Requests c) r) ?r0 (p_InitContainers pod)"
  have add: "P r \<Longrightarrow> P (res_Add g rl r)" for rl r
    unfolding res_Add_def by (rule foldl_inv [where P = P, OF assms(2)])
  have max: "P r \<Longrightarrow> P (SetMaxResource rl r)" for rl r
    unfolding SetMaxResource_def by (rule foldl_inv [where P = P, OF assms(3)])
  have "P ?r0" by (rule foldl_inv [where P = P, OF add assms(1)])
  then have "P ?r1" by (rule foldl_inv [where P = P, OF max, rotated])
  then show ?thesis
    by (simp add: sched_request_def calculateResource_def Let_def add split: prod.split option.split)
qed

lemma sched_request_distinct: "keys_distinct (sched_request g pod)"
  by (rule sched_request_inv [where P = keys_distinct])
     (simp_all add: emptyResource_def res_add1_distinct res_max1_distinct)

lemma sched_request_scalars: "\<forall>k \<in> fst ` set (r_ScalarResources (sched_request g pod)). IsScalarResourceName k"
proof (rule sched_request_inv [where P = "\<lambda>r. \<forall>k \<in> fst ` set (r_ScalarResources r). IsScalarResourceName k"])
  have upd: "(\<forall>x \<in> set (AList.update k v l). P (fst x)) \<longleftrightarrow> P k \<and> (\<forall>x \<in> set l. P (fst x))"
    for k :: string and v :: int and l P
    by (induction l) auto
  show "\<forall>k \<in> fst ` set (r_ScalarResources (res_add1 g r x)). IsScalarResourceName k"
    if "\<forall>k \<in> fst ` set (r_ScalarResources r). IsScalarResourceName k" for r x
    using that by (simp add: res_add1_def AddScalar_def SetScalar_def upd split: prod.split)
  show "\<forall>k \<in> fst ` set (r_ScalarResources (res_max1 r x)). IsScalarResourceName k"
    if "\<forall>k \<in> fst ` set (r_ScalarResources r). IsScalarResourceName k" for r x
    using that by (simp add: res_max1_def SetScalar_def upd split: prod.split)
qed (simp add: emptyResource_def)

lemma scalar_notin: "k \<notin> fst ` set s \<Longrightarrow> scalar s k = 0"
  by (simp add: scalar_def map_of_eq_None_iff [symmetric])

lemma scalar_add_scalars:
  "distinct (map fst new) \<Longrightarrow>
    scalar (add_scalars s new) k = (if k \<in> fst ` set new then wrap64 (scalar s k + scalar new k) else scalar s k)"
proof (induction new arbitrary: s)
  case (Cons nq new)
  obtain n q where nq: "nq = (n, q)" by force
  have "add_scalars s (nq # new) = add_scalars (AList.update n (wrap64 (scalar s n + q)) s) new"
    by (simp add: add_scalars_def nq)
  then show ?case using Cons by (auto simp: nq scalar_def [of "(_, _) # _"] scalar_notin)
       (auto simp: scalar_def)
qed (simp add: add_scalars_def)

lemma add_scalars_distinct: "distinct (map fst s) \<Longrightarrow> distinct (map fst (add_scalars s new))"
  unfolding add_scalars_def by (induction new arbitrary: s) (auto simp: distinct_update)

lemma sub_scalars_uminus: "sub_scalars s new = add_scalars s (map (\<lambda>(n, q). (n, - q)) new)"
  unfolding sub_scalars_def add_scalars_def foldl_map
  by (rule foldl_cong) (auto split: prod.split)

subsection \<open>A node accounts for its pods\<close>

definition requested_sum :: "sched_gates \<Rightarrow> pod list \<Rightarrow> string \<Rightarrow> int" where
  "requested_sum g pods k = (\<Sum>p\<leftarrow>pods. amount (sched_request g p) k)"

definition accounted :: "sched_gates \<Rightarrow> node_info \<Rightarrow> bool" where
  "accounted g n \<longleftrightarrow>
     (\<forall>k. amount (ni_requested n) k = wrap64 (requested_sum g (ni_pods n) k)) \<and>
     r_MilliCPU (ni_nonzero n) = wrap64 (\<Sum>p\<leftarrow>ni_pods n. fst (snd (calculateResource g p))) \<and>
     r_Memory (ni_nonzero n) = wrap64 (\<Sum>p\<leftarrow>ni_pods n. snd (snd (calculateResource g p)))"

lemma amount_combine:
  assumes "\<And>k. scalar (r_ScalarResources r') k = (if k \<in> K then wrap64 (scalar (r_ScalarResources r) k + f k) else scalar (r_ScalarResources r) k)"
    and "\<And>k. k \<notin> K \<Longrightarrow> f k = 0"
    and "amount r k = wrap64 x"
    and "r_MilliCPU r' = wrap64 (r_MilliCPU r + d ResourceCPU)" "r_Memory r' = wrap64 (r_Memory r + d ResourceMemory)"
    and "r_EphemeralStorage r' = wrap64 (r_EphemeralStorage r + d ResourceEphemeralStorage)"
    and "\<And>k. \<lbrakk>k \<noteq> ResourceCPU; k \<noteq> ResourceMemory; k \<noteq> ResourceEphemeralStorage\<rbrakk> \<Longrightarrow> d k = f k"
  shows "amount r' k = wrap64 (x + d k)"
proof -
  consider "k = ResourceCPU" | "k = ResourceMemory" | "k = ResourceEphemeralStorage"
    | "k \<noteq> ResourceCPU" "k \<noteq> ResourceMemory" "k \<noteq> ResourceEphemeralStorage" by blast
  then show ?thesis
  proof cases
    case 4
    have "scalar (r_ScalarResources r) k = wrap64 x" using assms(3) 4 by (simp add: amount_def)
    then show ?thesis using assms(1) [of k] assms(2) [of k] assms(7) [OF 4] 4
      by (simp add: amount_def wrap64_add)
  qed (use assms(3-6) in \<open>simp_all add: amount_def wrap64_add\<close>)
qed

lemma AddPod_accounted:
  assumes "accounted g n"
  shows "accounted g (snd (ni_AddPod g pod (gen, n)))"
proof -
  obtain res cpu mem where c: "calculateResource g pod = (res, cpu, mem)" by (cases "calculateResource g pod")
  then have pr: "sched_request g pod = res" by (simp add: sched_request_def)
  let ?n' = "snd (ni_AddPod g pod (gen, n))"
  have d: "keys_distinct res" using sched_request_distinct [of g pod] by (simp add: pr)
  have "amount (ni_requested ?n') k = wrap64 (requested_sum g (ni_pods n) k + amount res k)" for k
  proof (rule amount_combine [where K = "fst ` set (r_ScalarResources res)" and f = "scalar (r_ScalarResources res)"])
    show "amount (ni_requested n) k = wrap64 (requested_sum g (ni_pods n) k)" using assms by (simp add: accounted_def)
  qed (use d in \<open>simp_all add: ni_AddPod_def c Let_def scalar_add_scalars scalar_notin\<close>,
       simp_all add: amount_def)
  then show ?thesis using assms
    by (simp add: accounted_def ni_AddPod_def c Let_def requested_sum_def pr wrap64_add)
qed

lemma AddPod_frame [go_frame]:
  "ni_allocatable (snd (ni_AddPod g pod st)) = ni_allocatable (snd st)"
  "ni_pods (snd (ni_AddPod g pod st)) = ni_pods (snd st) @ [pod]"
  by (simp_all add: ni_AddPod_def Let_def split: prod.split)

lemma mset_swap_delete: "i < length xs \<Longrightarrow> mset (swap_delete xs i) = mset xs - {#xs ! i#}"
proof (cases xs rule: rev_cases)
  case (snoc ys y)
  assume i: "i < length xs"
  show ?thesis
  proof (cases "i = length ys")
    case False
    then have "i < length ys" using i snoc by simp
    then show ?thesis by (simp add: swap_delete_def snoc list_update_append nth_append mset_update)
  qed (simp add: swap_delete_def snoc)
qed (simp add: swap_delete_def)

lemma sum_swap_delete:
  fixes f :: "'a \<Rightarrow> int"
  assumes "i < length xs"
  shows "sum_list (map f (swap_delete xs i)) = sum_list (map f xs) - f (xs ! i)"
proof -
  have "sum_list (map f ys) = sum_mset (image_mset f (mset ys))" for ys
    by (simp add: sum_mset_sum_list [symmetric])
  then show ?thesis using assms
    by (simp add: mset_swap_delete image_mset_Diff sum_mset_diff)
qed

lemma key_index_Some: "key_index k ps = Some i \<Longrightarrow> i < length ps \<and> GetPodKey (ps ! i) = Some k"
  by (induction ps arbitrary: i) (auto split: if_splits)

lemma key_index_None: "key_index k ps = None \<longleftrightarrow> (\<forall>p \<in> set ps. GetPodKey p \<noteq> Some k)"
  by (induction ps) auto

lemma scalar_sub_scalars:
  "distinct (map fst new) \<Longrightarrow>
    scalar (sub_scalars s new) k = (if k \<in> fst ` set new then wrap64 (scalar s k - scalar new k) else scalar s k)"
proof -
  let ?neg = "map (\<lambda>(n, q). (n, - q)) new"
  assume "distinct (map fst new)"
  moreover have "fst \<circ> (\<lambda>(n, q). (n, - q)) = (fst :: string \<times> int \<Rightarrow> string)" by auto
  ultimately have d: "distinct (map fst ?neg)" by simp
  have v: "scalar ?neg k = - scalar new k" by (induction new) (auto simp: scalar_def)
  have s: "fst ` set ?neg = fst ` set new" by force
  show ?thesis unfolding sub_scalars_uminus scalar_add_scalars [OF d] v s by simp
qed

lemma RemovePod_accounted:
  assumes "accounted g n" "ni_RemovePod g pod (gen, n) = Inr (e, gen', n')"
    and "\<And>p. p \<in> set (ni_pods n) \<Longrightarrow> GetPodKey p = GetPodKey pod \<Longrightarrow> calculateResource g p = calculateResource g pod"
  shows "accounted g n'"
proof -
  obtain res cpu mem where c: "calculateResource g pod = (res, cpu, mem)" by (cases "calculateResource g pod")
  then have pr: "sched_request g pod = res" by (simp add: sched_request_def)
  have d: "keys_distinct res" using sched_request_distinct [of g pod] by (simp add: pr)
  show ?thesis
  proof (cases "GetPodKey pod")
    case None
    then show ?thesis using assms(1,2) by (simp add: ni_RemovePod_def)
  next
    case (Some k)
    define n1 where "n1 = (case key_index k (ni_podsWithAffinity n) of None \<Rightarrow> n
      | Some i \<Rightarrow> n\<lparr>ni_podsWithAffinity := swap_delete (ni_podsWithAffinity n) i\<rparr>)"
    have n1: "ni_pods n1 = ni_pods n" "ni_requested n1 = ni_requested n" "ni_nonzero n1 = ni_nonzero n"
      by (simp_all add: n1_def split: option.split)
    show ?thesis
    proof (cases "key_index k (ni_pods n)")
      case None
      then have "n' = n1" using assms(2) Some
        by (simp add: ni_RemovePod_def n1_def [symmetric] n1 Let_def split: option.splits)
      then show ?thesis using assms(1) n1 by (simp add: accounted_def)
    next
      case (Some i)
      then have i: "i < length (ni_pods n)" "calculateResource g (ni_pods n ! i) = (res, cpu, mem)"
        using key_index_Some [OF Some] assms(3) [of "ni_pods n ! i"] c \<open>GetPodKey pod = Some k\<close> by auto
      then have pi: "sched_request g (ni_pods n ! i) = res" by (simp add: sched_request_def)
      have n': "ni_pods n' = swap_delete (ni_pods n) i" "ni_nonzero n' = (ni_nonzero n)
          \<lparr>r_MilliCPU := wrap64 (r_MilliCPU (ni_nonzero n) - cpu), r_Memory := wrap64 (r_Memory (ni_nonzero n) - mem)\<rparr>"
        "r_MilliCPU (ni_requested n') = wrap64 (r_MilliCPU (ni_requested n) - r_MilliCPU res)"
        "r_Memory (ni_requested n') = wrap64 (r_Memory (ni_requested n) - r_Memory res)"
        "r_EphemeralStorage (ni_requested n') = wrap64 (r_EphemeralStorage (ni_requested n) - r_EphemeralStorage res)"
        "r_ScalarResources (ni_requested n') = sub_scalars (r_ScalarResources (ni_requested n)) (r_ScalarResources res)"
        using assms(2) Some \<open>GetPodKey pod = Some k\<close>
        by (auto simp: ni_RemovePod_def n1_def [symmetric] n1 Let_def c)
      have "amount (ni_requested n') k = wrap64 (requested_sum g (ni_pods n) k + (- amount res k))" for k
      proof (rule amount_combine [where K = "fst ` set (r_ScalarResources res)" and f = "\<lambda>k. - scalar (r_ScalarResources res) k"])
        show "amount (ni_requested n) k = wrap64 (requested_sum g (ni_pods n) k)" using assms(1) by (simp add: accounted_def)
      qed (use d in \<open>simp_all add: n' scalar_sub_scalars scalar_notin\<close>, simp_all add: amount_def)
      then show ?thesis using assms(1) wrap64_add [of _ "- cpu"] wrap64_add [of _ "- mem"]
        by (simp add: accounted_def n' requested_sum_def sum_swap_delete [OF i(1)] pi i(2))
    qed
  qed
qed

lemma NewNodeInfo_accounted: "accounted g (snd (NewNodeInfo g pods gen))"
proof -
  have "accounted g (empty_node_info gen)" for gen
    by (simp add: accounted_def empty_node_info_def requested_sum_def) (simp add: emptyResource_def)
  then show ?thesis
    unfolding NewNodeInfo_def Let_def
    by (intro foldl_inv [where P = "\<lambda>st. accounted g (snd st)"]) (auto simp: AddPod_accounted)
qed

lemma SetNode_accounted: "accounted g (snd st) \<Longrightarrow> accounted g (snd (ni_SetNode g nd st))"
  by (cases st) (simp add: ni_SetNode_def Let_def accounted_def)

text \<open>
  C28: The requests a node records are, for every resource, the sum of the requests of the pods on
  it (modulo \<open>2 ^ 64\<close>): a new node info has this property, adding a pod keeps it, and removing a pod
  keeps it whenever the pod given has the requests of the stored pod with its key.
\<close>

theorem node_accounts_for_its_pods:
  "accounted g (snd (NewNodeInfo g pods gen)) \<and>
   (accounted g n \<longrightarrow> accounted g (snd (ni_AddPod g pod (gen, n))) \<and>
     ((\<forall>p \<in> set (ni_pods n). GetPodKey p = GetPodKey pod \<longrightarrow> calculateResource g p = calculateResource g pod) \<longrightarrow>
      ni_RemovePod g pod (gen, n) = Inr (e, gen', n') \<longrightarrow> accounted g n'))"
proof -
  show ?thesis using NewNodeInfo_accounted AddPod_accounted RemovePod_accounted by blast
qed

subsection \<open>Pods that ask for a network SLO\<close>

definition slo_gates :: sched_gates where
  "slo_gates = \<lparr>sg_LocalStorage = True, sg_PodOverhead = True\<rparr>"

definition sched_pod :: "string \<Rightarrow> int \<Rightarrow> pod" where
  "sched_pod u slo = empty_pod\<lparr>p_UID := u, p_Containers :=
     [(empty_container ''app'')\<lparr>c_Requests := [(ResourceSLO, NewQuantity slo DecimalSI)]\<rparr>]\<rparr>"

definition slo_node :: "int \<Rightarrow> node" where
  "slo_node slo = \<lparr>n_Name = ''worker'', n_Labels = [],
     n_Allocatable = [(ResourcePods, NewQuantity 110 DecimalSI), (ResourceSLO, NewQuantity slo DecimalSI)],
     n_Unschedulable = False, n_Taints = [], n_Conditions = [], n_Images = []\<rparr>"

lemma q_Value_NewQuantity [simp]: "in64 x \<Longrightarrow> q_Value (NewQuantity x f) = x"
  by (simp add: q_Value_def q_ScaledValue_def NewQuantity_def ia_AsScaledInt64_def positiveScaleInt64_def)

lemma sched_pod_request [simp]:
  "in64 slo \<Longrightarrow> calculateResource g (sched_pod u slo) =
     (emptyResource\<lparr>r_ScalarResources := [(ResourceSLO, slo)]\<rparr>, DefaultMilliCPURequest, DefaultMemoryRequest)"
  by (simp add: calculateResource_def sched_pod_def empty_pod_def empty_container_def res_Add_def res_add1_def
      AddScalar_def SetScalar_def emptyResource_def nonzero_sum_def nonzero_max_def GetNonzeroRequests_def
      GetNonzeroRequestForResource_def scalar_def DefaultMilliCPURequest_def DefaultMemoryRequest_def in64_def)

lemma sched_pod_key [simp]: "u \<noteq> [] \<Longrightarrow> GetPodKey (sched_pod u slo) = Some u"
  by (simp add: GetPodKey_def sched_pod_def)

definition two_sched_pods :: "sched_gates \<Rightarrow> node_info" where
  "two_sched_pods g = snd (NewNodeInfo g [sched_pod ''a'' 40, sched_pod ''b'' 60] 0)"

lemma two_sched_pods [simp]: "ni_pods (two_sched_pods g) = [sched_pod ''a'' 40, sched_pod ''b'' 60]"
  "ni_podsWithAffinity (two_sched_pods g) = []"
  by (simp_all add: two_sched_pods_def NewNodeInfo_def ni_AddPod_def Let_def empty_node_info_def
      hasPodAffinityConstraints_def in64_def) (simp add: sched_pod_def empty_pod_def)

theorem node_accounts_for_its_pods_witness:
  "\<exists>gen n'. ni_RemovePod slo_gates (sched_pod ''a'' 40) (0, two_sched_pods slo_gates) = Inr (None, gen, n') \<and>
     ni_pods n' = [sched_pod ''b'' 60] \<and> accounted slo_gates n'"
proof -
  have "accounted slo_gates (two_sched_pods slo_gates)"
    unfolding two_sched_pods_def using node_accounts_for_its_pods [where pods = "[sched_pod ''a'' 40, sched_pod ''b'' 60]"] by blast
  moreover obtain gen n' where r: "ni_RemovePod slo_gates (sched_pod ''a'' 40) (0, two_sched_pods slo_gates) = Inr (None, gen, n')"
    and "ni_pods n' = [sched_pod ''b'' 60]"
    by (simp add: ni_RemovePod_def Let_def swap_delete_def in64_def)
  moreover have "\<forall>p \<in> set (ni_pods (two_sched_pods slo_gates)). GetPodKey p = GetPodKey (sched_pod ''a'' 40) \<longrightarrow>
      calculateResource slo_gates p = calculateResource slo_gates (sched_pod ''a'' 40)" by simp
  ultimately show ?thesis using node_accounts_for_its_pods [where n = "two_sched_pods slo_gates" and pod = "sched_pod ''a'' 40" and gen = 0] by blast
qed

end
