(* ===== verification/NodeScoring.thy ===== *)
theory NodeScoring
  imports NodeInfo
begin

section \<open>Scoring nodes by their resources\<close>

text \<open>
  The scores \<open>RequestedToCapacityRatio\<close> (through which DepCon spreads its network SLOs),
  \<open>NodeResourcesLeastAllocated\<close> and \<open>NodeResourcesMostAllocated\<close> of
  \<open>pkg/scheduler/framework/plugins/noderesources\<close>, and the normalisation of scores
  (\<open>plugins/helper/normalize_score.go\<close>).  \<open>NodeResourcesBalancedAllocation\<close> computes a variance in
  \<open>float64\<close> and is not modelled.  The one use of \<open>float64\<close> here, \<open>math.Round\<close> of the quotient of two
  integers, is the rounding of the exact quotient, which it equals for sums below \<open>2 ^ 52\<close>.
\<close>

subsection \<open>Requested to capacity\<close>

type_synonym value_map = "(string \<times> int) list"

definition pod_request_sum :: "sched_gates \<Rightarrow> string \<Rightarrow> container list \<Rightarrow> int" where
  "pod_request_sum g r cs = foldl (\<lambda>a c. wrap64 (a + GetNonzeroRequestForResource g r (c_Requests c))) 0 cs"

definition calculatePodResourceRequest :: "sched_gates \<Rightarrow> pod \<Rightarrow> string \<Rightarrow> int" where
  "calculatePodResourceRequest g pod r =
     (let a0 = pod_request_sum g r (p_Containers pod);
          a1 = foldl (\<lambda>a c. if a < GetNonzeroRequestForResource g r (c_Requests c)
                             then GetNonzeroRequestForResource g r (c_Requests c) else a) a0 (p_InitContainers pod)
      in case p_Overhead pod of
           None \<Rightarrow> a1
         | Some ov \<Rightarrow>
             if sg_PodOverhead g then (case map_of ov r of Some q \<Rightarrow> wrap64 (a1 + q_Value q) | None \<Rightarrow> a1) else a1)"

definition calculateResourceAllocatableRequest :: "sched_gates \<Rightarrow> node_info \<Rightarrow> pod \<Rightarrow> string \<Rightarrow> int \<times> int" where
  "calculateResourceAllocatableRequest g n pod r =
     (let req = calculatePodResourceRequest g pod r in
      if r = ResourceCPU then (r_MilliCPU (ni_allocatable n), wrap64 (r_MilliCPU (ni_nonzero n) + req))
      else if r = ResourceMemory then (r_Memory (ni_allocatable n), wrap64 (r_Memory (ni_nonzero n) + req))
      else if r = ResourceEphemeralStorage then
        (r_EphemeralStorage (ni_allocatable n), wrap64 (r_EphemeralStorage (ni_requested n) + req))
      else if IsScalarResourceName r then
        (scalar (r_ScalarResources (ni_allocatable n)) r, wrap64 (scalar (r_ScalarResources (ni_requested n)) r + req))
      else (0, 0))"

text \<open>\<open>resourceAllocationScorer.score\<close>: the scorer gets what is requested and what is allocatable.\<close>

datatype score_error = NodeNotFound | ResourcesNotFound

definition ras_score ::
  "sched_gates \<Rightarrow> value_map option \<Rightarrow> (value_map \<Rightarrow> value_map \<Rightarrow> go_panic + int) \<Rightarrow> pod \<Rightarrow> node_info \<Rightarrow> go_panic + (score_error option \<times> int)" where
  "ras_score g weights scorer pod n =
     (case ni_node n of
        None \<Rightarrow> Inr (Some NodeNotFound, 0)
      | Some _ \<Rightarrow>
          (case weights of
             None \<Rightarrow> Inr (Some ResourcesNotFound, 0)
           | Some ws \<Rightarrow>
               let alloc = map (\<lambda>(r, _). (r, fst (calculateResourceAllocatableRequest g n pod r))) ws;
                   reqs = map (\<lambda>(r, _). (r, snd (calculateResourceAllocatableRequest g n pod r))) ws
               in case scorer reqs alloc of Inl p \<Rightarrow> Inl p | Inr s \<Rightarrow> Inr (None, s)))"

definition MaxNodeScore :: int where
  "MaxNodeScore = 100"

definition MaxCustomPriorityScore :: int where
  "MaxCustomPriorityScore = 10"

text \<open>A point of the shape: a utilization in percent and the score there.\<close>

type_synonym shape = "(int \<times> int) list"

datatype shape_error = NoPoints | UtilizationNotSorted | UtilizationRange | ScoreRange

fun sorted_utilization :: "shape \<Rightarrow> bool" where
  "sorted_utilization (p # q # ps) = (fst p < fst q \<and> sorted_utilization (q # ps))"
| "sorted_utilization _ = True"

fun check_points :: "shape \<Rightarrow> shape_error option" where
  "check_points [] = None"
| "check_points ((u, s) # ps) =
     (if u < 0 then Some UtilizationRange else if 100 < u then Some UtilizationRange
      else if s < 0 then Some ScoreRange else if MaxNodeScore < s then Some ScoreRange
      else check_points ps)"

definition validateFunctionShape :: "shape \<Rightarrow> shape_error option" where
  "validateFunctionShape sh =
     (if sh = [] then Some NoPoints else if \<not> sorted_utilization sh then Some UtilizationNotSorted else check_points sh)"

text \<open>The loop of \<open>buildBrokenLinearFunction\<close>; \<open>prev\<close> is the point before the current one.\<close>

fun broken_linear_loop :: "int \<Rightarrow> (int \<times> int) option \<Rightarrow> shape \<Rightarrow> go_panic + int" where
  "broken_linear_loop p None [] = Inl IndexOutOfRange"
| "broken_linear_loop p (Some (_, s)) [] = Inr s"
| "broken_linear_loop p prev ((u, s) # ps) =
     (if p \<le> u then
        (case prev of
           None \<Rightarrow> Inr s
         | Some (u0, s0) \<Rightarrow>
             if u - u0 = 0 then Inl IntegerDivideByZero
             else Inr (wrap64 (s0 + wrap64 (wrap64 (wrap64 (s - s0) * wrap64 (p - u0)) sdiv wrap64 (u - u0)))))
      else broken_linear_loop p (Some (u, s)) ps)"

definition buildBrokenLinearFunction :: "shape \<Rightarrow> int \<Rightarrow> go_panic + int" where
  "buildBrokenLinearFunction sh p = broken_linear_loop p None sh"

definition resourceScoringFunction :: "shape \<Rightarrow> int \<Rightarrow> int \<Rightarrow> go_panic + int" where
  "resourceScoringFunction sh requested capacity =
     (if capacity = 0 \<or> capacity < requested then buildBrokenLinearFunction sh 100
      else buildBrokenLinearFunction sh (wrap64 (100 - wrap64 (wrap64 (capacity - requested) * 100) sdiv capacity)))"

definition round_quotient :: "int \<Rightarrow> int \<Rightarrow> int" where
  "round_quotient a b =
     (let q = (of_int a :: rat) / of_int b in if 0 \<le> q then \<lfloor>q + 1 / 2\<rfloor> else \<lceil>q - 1 / 2\<rceil>)"

fun rtcr_sum :: "shape \<Rightarrow> value_map \<Rightarrow> value_map \<Rightarrow> value_map \<Rightarrow> int \<times> int \<Rightarrow> go_panic + (int \<times> int)" where
  "rtcr_sum sh requested allocable [] acc = Inr acc"
| "rtcr_sum sh requested allocable ((r, w) # ws) (nodeScore, weightSum) =
     (case resourceScoringFunction sh (scalar requested r) (scalar allocable r) of
        Inl p \<Rightarrow> Inl p
      | Inr s \<Rightarrow>
          rtcr_sum sh requested allocable ws
            (if 0 < s then (wrap64 (nodeScore + wrap64 (s * w)), wrap64 (weightSum + w)) else (nodeScore, weightSum)))"

definition buildRequestedToCapacityRatioScorerFunction :: "shape \<Rightarrow> value_map \<Rightarrow> value_map \<Rightarrow> value_map \<Rightarrow> go_panic + int" where
  "buildRequestedToCapacityRatioScorerFunction sh weights requested allocable =
     (case rtcr_sum sh requested allocable weights (0, 0) of
        Inl p \<Rightarrow> Inl p
      | Inr (nodeScore, weightSum) \<Rightarrow> Inr (if weightSum = 0 then 0 else round_quotient nodeScore weightSum))"

definition defaultRequestedRatioResources :: "value_map" where
  "defaultRequestedRatioResources = [(ResourceMemory, 1), (ResourceCPU, 1)]"

text \<open>\<open>NewRequestedToCapacityRatio\<close>: the shape scaled to the scheduler's scores, and the weights.\<close>

definition scaled_shape :: "(int \<times> int) list \<Rightarrow> shape" where
  "scaled_shape points = map (\<lambda>(u, s). (u, s * (MaxNodeScore div MaxCustomPriorityScore))) points"

definition weight_map :: "value_map \<Rightarrow> value_map" where
  "weight_map rs = foldl (\<lambda>m (n, w). AList.update n (if w = 0 then 1 else w) m) [] rs"

definition NewRequestedToCapacityRatio :: "(int \<times> int) list \<Rightarrow> value_map \<Rightarrow> shape_error + (shape \<times> value_map)" where
  "NewRequestedToCapacityRatio points rs =
     (let sh = scaled_shape points in
      case validateFunctionShape sh of
        Some e \<Rightarrow> Inl e
      | None \<Rightarrow> Inr (sh, if rs = [] then defaultRequestedRatioResources else weight_map rs))"

definition validateResourceWeightMap :: "value_map \<Rightarrow> bool" where
  "validateResourceWeightMap ws \<longleftrightarrow> ws \<noteq> [] \<and> list_all (\<lambda>(_, w). 1 \<le> w) ws"

subsection \<open>Least and most allocated, normalised scores\<close>

definition leastRequestedScore :: "int \<Rightarrow> int \<Rightarrow> int" where
  "leastRequestedScore requested capacity =
     (if capacity = 0 then 0 else if capacity < requested then 0
      else wrap64 (wrap64 (capacity - requested) * MaxNodeScore) sdiv capacity)"

definition mostRequestedScore :: "int \<Rightarrow> int \<Rightarrow> int" where
  "mostRequestedScore requested capacity =
     (if capacity = 0 then 0 else if capacity < requested then 0 else wrap64 (requested * MaxNodeScore) sdiv capacity)"

definition mean_score :: "(int \<Rightarrow> int \<Rightarrow> int) \<Rightarrow> value_map \<Rightarrow> value_map \<Rightarrow> int" where
  "mean_score f requested allocable =
     (case foldl (\<lambda>(ns, ws) (r, w). (wrap64 (ns + wrap64 (f (scalar requested r) (scalar allocable r) * w)), wrap64 (ws + w)))
              (0, 0) defaultRequestedRatioResources of
        (nodeScore, weightSum) \<Rightarrow> nodeScore sdiv weightSum)"

definition leastResourceScorer :: "value_map \<Rightarrow> value_map \<Rightarrow> int" where
  "leastResourceScorer = mean_score leastRequestedScore"

definition mostResourceScorer :: "value_map \<Rightarrow> value_map \<Rightarrow> int" where
  "mostResourceScorer = mean_score mostRequestedScore"

definition max_count :: "int list \<Rightarrow> int" where
  "max_count scores = foldl (\<lambda>m s. if m < s then s else m) 0 scores"

definition DefaultNormalizeScore :: "int \<Rightarrow> bool \<Rightarrow> int list \<Rightarrow> int list" where
  "DefaultNormalizeScore maxPriority reverse scores =
     (let maxCount = max_count scores in
      if maxCount = 0 then (if reverse then map (\<lambda>_. maxPriority) scores else scores)
      else map (\<lambda>s. let x = wrap64 (maxPriority * s) sdiv maxCount in if reverse then wrap64 (maxPriority - x) else x) scores)"

subsection \<open>Broken linear functions\<close>

definition valid_point :: "int \<times> int \<Rightarrow> bool" where
  "valid_point p \<longleftrightarrow> 0 \<le> fst p \<and> fst p \<le> 100 \<and> 0 \<le> snd p \<and> snd p \<le> MaxNodeScore"

lemma check_points_None: "check_points sh = None \<longleftrightarrow> list_all valid_point sh"
  by (induction sh rule: check_points.induct) (auto simp: valid_point_def)

lemma validateFunctionShape_None:
  "validateFunctionShape sh = None \<longleftrightarrow> sh \<noteq> [] \<and> sorted_utilization sh \<and> list_all valid_point sh"
  by (simp add: validateFunctionShape_def check_points_None)

text \<open>The value on a segment of length \<open>d\<close> that rises or falls by \<open>a\<close>, at distance \<open>x\<close> from its start.\<close>

definition rise :: "int \<Rightarrow> int \<Rightarrow> int \<Rightarrow> int" where
  "rise a x d = (a * x) sdiv d"

lemma rise_uminus: "rise (- a) x d = - rise a x d"
  by (simp add: rise_def signed_divide_int_def sgn_mult)

lemma rise_between:
  assumes "0 \<le> x" "x \<le> d" "0 < d"
  shows "min 0 a \<le> rise a x d \<and> rise a x d \<le> max 0 a"
proof -
  have pos: "0 \<le> rise b x d \<and> rise b x d \<le> b" if "0 \<le> b" for b
  proof -
    have "b * x \<le> b * d" using that assms by (simp add: mult_left_mono)
    then have "b * x div d \<le> b" using assms zdiv_mono1 [of "b * x" "b * d" d] by simp
    then show ?thesis using that assms
      by (simp add: rise_def sdiv_nonneg pos_imp_zdiv_nonneg_iff)
  qed
  show ?thesis using pos [of a] pos [of "- a"] by (cases "0 \<le> a") (simp_all add: rise_uminus)
qed

lemma rise_mono:
  assumes "0 \<le> a" "0 \<le> x" "x \<le> y" "0 < d"
  shows "rise a x d \<le> rise a y d"
  using assms by (simp add: rise_def sdiv_nonneg zdiv_mono1 mult_left_mono)

lemma interpolation_in64:
  assumes "valid_point (u0, s0)" "valid_point (u, s)" "u0 < p" "p \<le> u"
  shows "wrap64 (s0 + wrap64 (wrap64 (wrap64 (s - s0) * wrap64 (p - u0)) sdiv wrap64 (u - u0))) = s0 + rise (s - s0) (p - u0) (u - u0)"
proof -
  have v: "0 \<le> u0" "u \<le> 100" "0 \<le> s0" "s0 \<le> 100" "0 \<le> s" "s \<le> 100"
    using assms by (auto simp: valid_point_def MaxNodeScore_def)
  have "\<bar>(s - s0) * (p - u0)\<bar> \<le> 100 * 100"
    unfolding abs_mult using v assms(3,4) by (intro mult_mono) auto
  then have m: "in64 ((s - s0) * (p - u0))" unfolding in64_def abs_le_iff by linarith
  have "min 0 (s - s0) \<le> rise (s - s0) (p - u0) (u - u0) \<and> rise (s - s0) (p - u0) (u - u0) \<le> max 0 (s - s0)"
    using assms(3,4) by (intro rise_between) auto
  then have "in64 (rise (s - s0) (p - u0) (u - u0))" "in64 (s0 + rise (s - s0) (p - u0) (u - u0))"
    using v by (auto simp: in64_def)
  moreover have "in64 (s - s0)" "in64 (p - u0)" "in64 (u - u0)" using v assms(3,4) by (auto simp: in64_def)
  ultimately show ?thesis using m by (simp add: rise_def)
qed

text \<open>Where the loop is: the points left, and the one before them.\<close>

definition loop_ok :: "int \<Rightarrow> (int \<times> int) option \<Rightarrow> shape \<Rightarrow> bool" where
  "loop_ok p prev ps \<longleftrightarrow>
     (case prev of None \<Rightarrow> ps \<noteq> [] \<and> sorted_utilization ps | Some pt \<Rightarrow> valid_point pt \<and> fst pt < p \<and> sorted_utilization (pt # ps)) \<and>
     list_all valid_point ps"

lemma loop_ok_next: "loop_ok p prev (pt # ps) \<Longrightarrow> fst pt < p \<Longrightarrow> loop_ok p (Some pt) ps"
  by (cases ps) (auto simp: loop_ok_def split: option.splits)

lemma loop_stops:
  assumes "loop_ok p prev ((u, s) # ps)" "p \<le> u"
  shows "broken_linear_loop p prev ((u, s) # ps) =
    Inr (case prev of None \<Rightarrow> s | Some (u0, s0) \<Rightarrow> s0 + rise (s - s0) (p - u0) (u - u0))"
proof (cases prev)
  case (Some pt)
  obtain u0 s0 where pt: "pt = (u0, s0)" by force
  then have v: "valid_point (u0, s0)" "valid_point (u, s)" "u0 < p"
    using assms Some by (auto simp: loop_ok_def)
  then have "u \<noteq> u0" using assms(2) by simp
  then show ?thesis
    using assms(2) by (simp add: Some pt interpolation_in64 [OF v assms(2)] del: wrap64_id)
qed (use assms in simp)

lemma loop_bounds:
  assumes "loop_ok p prev ps"
  shows "\<exists>s. broken_linear_loop p prev ps = Inr s \<and> 0 \<le> s \<and> s \<le> MaxNodeScore"
  using assms
proof (induction ps arbitrary: prev)
  case Nil
  then show ?case by (auto simp: loop_ok_def valid_point_def split: option.splits)
next
  case (Cons pt ps)
  obtain u s where pt: "pt = (u, s)" by force
  show ?case
  proof (cases "p \<le> u")
    case True
    have v: "valid_point (u, s)" using Cons.prems by (simp add: loop_ok_def pt)
    show ?thesis
    proof (cases prev)
      case (Some pt0)
      obtain u0 s0 where pt0: "pt0 = (u0, s0)" by force
      have "valid_point (u0, s0)" "u0 < p" using Cons.prems by (auto simp: loop_ok_def Some pt0)
      then show ?thesis using rise_between [of "p - u0" "u - u0" "s - s0"] v True
          loop_stops [OF Cons.prems [unfolded pt] True]
        by (auto simp: pt Some pt0 valid_point_def min_def max_def split: if_splits)
    qed (use v True loop_stops [OF Cons.prems [unfolded pt] True] in \<open>auto simp: pt valid_point_def\<close>)
  next
    case False
    then show ?thesis using Cons.IH [OF loop_ok_next [OF Cons.prems]] by (simp add: pt)
  qed
qed

lemma buildBrokenLinearFunction_bounds:
  "validateFunctionShape sh = None \<Longrightarrow> \<exists>s. buildBrokenLinearFunction sh p = Inr s \<and> 0 \<le> s \<and> s \<le> MaxNodeScore"
  unfolding buildBrokenLinearFunction_def validateFunctionShape_None
  by (rule loop_bounds) (simp add: loop_ok_def)

subsection \<open>Scores that rise with use\<close>

definition rising :: "shape \<Rightarrow> bool" where
  "rising sh \<longleftrightarrow> sorted (map snd sh)"

lemma loop_at_least_previous:
  assumes "loop_ok p (Some (u0, s0)) ps" "sorted (s0 # map snd ps)" "broken_linear_loop p (Some (u0, s0)) ps = Inr v"
  shows "s0 \<le> v"
  using assms
proof (induction ps arbitrary: u0 s0)
  case (Cons pt ps)
  obtain u s where pt: "pt = (u, s)" by force
  show ?case
  proof (cases "p \<le> u")
    case True
    then show ?thesis using loop_stops [OF Cons.prems(1) [unfolded pt] True] Cons.prems
        rise_between [of "p - u0" "u - u0" "s - s0"]
      by (auto simp: pt loop_ok_def)
  next
    case False
    then show ?thesis using Cons.IH [of u s] loop_ok_next [OF Cons.prems(1)] Cons.prems by (auto simp: pt)
  qed
qed auto

lemma loop_mono:
  assumes "loop_ok p prev ps" "loop_ok q prev ps" "p \<le> q" "sorted (map snd ps)"
    and "\<And>u0 s0. prev = Some (u0, s0) \<Longrightarrow> sorted (s0 # map snd ps)"
    and "broken_linear_loop p prev ps = Inr v" "broken_linear_loop q prev ps = Inr w"
  shows "v \<le> w"
  using assms
proof (induction ps arbitrary: prev)
  case Nil
  then show ?case by (auto simp: loop_ok_def split: option.splits)
next
  case (Cons pt ps)
  obtain u s where pt: "pt = (u, s)" by force
  note ok = Cons.prems(1,2) [unfolded pt]
  consider "q \<le> u" | "p \<le> u" "u < q" | "u < p" using Cons.prems(3) by linarith
  then show ?case
  proof cases
    case 1
    then have "p \<le> u" using Cons.prems(3) by simp
    show ?thesis
    proof (cases prev)
      case (Some pt0)
      obtain u0 s0 where pt0: "pt0 = (u0, s0)" by force
      have "u0 < p" "s0 \<le> s" using Cons.prems by (auto simp: loop_ok_def Some pt0 pt)
      then have "rise (s - s0) (p - u0) (u - u0) \<le> rise (s - s0) (q - u0) (u - u0)"
        using Cons.prems(3) 1 by (intro rise_mono) auto
      then show ?thesis using loop_stops [OF ok(1) \<open>p \<le> u\<close>] loop_stops [OF ok(2) 1] Cons.prems(6,7)
        by (simp add: Some pt0 pt)
    qed (use loop_stops [OF ok(1) \<open>p \<le> u\<close>] loop_stops [OF ok(2) 1] Cons.prems(6,7) 1 \<open>p \<le> u\<close> in \<open>simp add: pt\<close>)
  next
    case 2
    have "s \<le> w"
      using loop_at_least_previous [of q u s ps w] loop_ok_next [OF Cons.prems(2)] Cons.prems 2 by (simp add: pt)
    moreover have "v \<le> s"
    proof (cases prev)
      case (Some pt0)
      obtain u0 s0 where pt0: "pt0 = (u0, s0)" by force
      have "u0 < p" "s0 \<le> s" using Cons.prems by (auto simp: loop_ok_def Some pt0 pt)
      then show ?thesis using rise_between [of "p - u0" "u - u0" "s - s0"] 2 loop_stops [OF ok(1) 2(1)] Cons.prems(6)
        by (simp add: Some pt0 pt)
    qed (use loop_stops [OF ok(1) 2(1)] Cons.prems(6) 2 in \<open>simp add: pt\<close>)
    ultimately show ?thesis by simp
  next
    case 3
    then show ?thesis
      using Cons.IH [of "Some (u, s)"] loop_ok_next [OF Cons.prems(1)] loop_ok_next [OF Cons.prems(2)] Cons.prems by (simp add: pt)
  qed
qed

lemma buildBrokenLinearFunction_mono:
  assumes "validateFunctionShape sh = None" "rising sh" "p \<le> q"
    and "buildBrokenLinearFunction sh p = Inr v" "buildBrokenLinearFunction sh q = Inr w"
  shows "v \<le> w"
proof (rule loop_mono [where prev = None])
  show "loop_ok p None sh" "loop_ok q None sh"
    using assms(1) by (simp_all add: validateFunctionShape_None loop_ok_def)
qed (use assms in \<open>auto simp: rising_def buildBrokenLinearFunction_def\<close>)

text \<open>Turning a shape upside down turns every score upside down.\<close>

definition falling :: "shape \<Rightarrow> bool" where
  "falling sh \<longleftrightarrow> sorted (rev (map snd sh))"

definition flip :: "int \<times> int \<Rightarrow> int \<times> int" where
  "flip p = (fst p, MaxNodeScore - snd p)"

lemma valid_flip [simp]: "valid_point (flip p) = valid_point p"
  by (auto simp: valid_point_def flip_def)

lemma flip_sorted_utilization [simp]: "sorted_utilization (map flip sh) = sorted_utilization sh"
  by (induction sh rule: sorted_utilization.induct) (auto simp: flip_def)

lemma rising_flip [simp]: "rising (map flip sh) = falling sh"
  by (simp add: rising_def falling_def sorted_wrt_rev sorted_wrt_map flip_def)

lemma loop_ok_flip [simp]: "loop_ok p (map_option flip prev) (map flip ps) = loop_ok p prev ps"
proof (cases prev)
  case (Some pt)
  then show ?thesis using flip_sorted_utilization [of "pt # ps"]
    by (simp add: loop_ok_def list_all_iff) (simp add: flip_def)
qed (simp add: loop_ok_def list_all_iff)

lemma loop_flip:
  assumes "loop_ok p prev ps"
  shows "broken_linear_loop p (map_option flip prev) (map flip ps) =
    map_sum id (\<lambda>v. MaxNodeScore - v) (broken_linear_loop p prev ps)"
  using assms
proof (induction ps arbitrary: prev)
  case Nil
  then show ?case by (auto simp: loop_ok_def flip_def split: option.splits)
next
  case (Cons pt ps)
  obtain u s where pt: "pt = (u, s)" by force
  show ?case
  proof (cases "p \<le> u")
    case True
    have "loop_ok p (map_option flip prev) ((u, MaxNodeScore - s) # map (\<lambda>p. (fst p, MaxNodeScore - snd p)) ps)"
      using Cons.prems loop_ok_flip [of p prev "pt # ps"] by (simp add: pt flip_def [of "(u, s)"] del: loop_ok_flip) (simp add: flip_def [abs_def])
    from loop_stops [OF this True] loop_stops [OF Cons.prems [unfolded pt] True] show ?thesis
      using rise_uminus [of "s - snd (the prev)"]
      by (cases prev) (simp_all add: pt flip_def split_beta del: broken_linear_loop.simps)
  next
    case False
    then show ?thesis using Cons.IH [OF loop_ok_next [OF Cons.prems]] by (simp add: pt flip_def)
  qed
qed

lemma buildBrokenLinearFunction_anti:
  assumes "validateFunctionShape sh = None" "falling sh" "p \<le> q"
    and "buildBrokenLinearFunction sh p = Inr v" "buildBrokenLinearFunction sh q = Inr w"
  shows "w \<le> v"
proof -
  have "loop_ok x None sh" for x using assms(1) by (simp add: validateFunctionShape_None loop_ok_def)
  then have flip: "buildBrokenLinearFunction (map flip sh) x = map_sum id (\<lambda>v. MaxNodeScore - v) (buildBrokenLinearFunction sh x)" for x
    using loop_flip [of x None sh] by (simp add: buildBrokenLinearFunction_def)
  have "validateFunctionShape (map flip sh) = None" using assms(1) by (simp add: validateFunctionShape_None list_all_iff)
  from buildBrokenLinearFunction_mono [OF this _ assms(3)] have "MaxNodeScore - v \<le> MaxNodeScore - w"
    using assms(2,4,5) by (simp add: flip)
  then show ?thesis by simp
qed

text \<open>
  With a valid shape whose scores rise (fall) with the utilization, a resource scores at least
  (at most) as high when more of it is requested: within the capacity, small enough for its
  percentages, the score follows the shape.
\<close>

theorem score_follows_shape:
  assumes "validateFunctionShape sh = None"
    and "0 \<le> r" "r \<le> r'" "r' \<le> cap" "0 < cap" "cap * 100 \<le> 9223372036854775807"
    and "resourceScoringFunction sh r cap = Inr v" "resourceScoringFunction sh r' cap = Inr w"
  shows "(rising sh \<longrightarrow> v \<le> w) \<and> (falling sh \<longrightarrow> w \<le> v)"
proof -
  have use: "wrap64 (100 - wrap64 (wrap64 (cap - x) * 100) sdiv cap) = 100 - (cap - x) * 100 div cap"
    and "(cap - x) * 100 div cap \<le> 100" if "0 \<le> x" "x \<le> cap" for x
  proof -
    have "0 \<le> (cap - x) * 100 div cap"
      using that assms(5) by (simp add: pos_imp_zdiv_nonneg_iff)
    show "(cap - x) * 100 div cap \<le> 100"
      using that assms(5) zdiv_mono1 [of "(cap - x) * 100" "100 * cap" cap] by simp
    then have "in64 (100 - (cap - x) * 100 div cap)" using \<open>0 \<le> (cap - x) * 100 div cap\<close> by (simp add: in64_def)
    moreover have "in64 (cap - x)" "in64 ((cap - x) * 100)" using that assms(5,6) by (auto simp: in64_def)
    ultimately show "wrap64 (100 - wrap64 (wrap64 (cap - x) * 100) sdiv cap) = 100 - (cap - x) * 100 div cap"
      using that assms(5) by (simp add: sdiv_nonneg)
  qed
  have "(cap - r') * 100 div cap \<le> (cap - r) * 100 div cap" using assms by (intro zdiv_mono1) auto
  then have le: "100 - (cap - r) * 100 div cap \<le> 100 - (cap - r') * 100 div cap" by simp
  have "resourceScoringFunction sh x cap = buildBrokenLinearFunction sh (100 - (cap - x) * 100 div cap)"
    if "0 \<le> x" "x \<le> cap" for x
    using that assms(5) by (simp add: resourceScoringFunction_def use(1))
  then have "buildBrokenLinearFunction sh (100 - (cap - r) * 100 div cap) = Inr v"
    "buildBrokenLinearFunction sh (100 - (cap - r') * 100 div cap) = Inr w"
    using assms by simp_all
  then show ?thesis
    using buildBrokenLinearFunction_mono [OF assms(1) _ le] buildBrokenLinearFunction_anti [OF assms(1) _ le] by blast
qed

subsection \<open>The score of a node\<close>

lemma resourceScoringFunction_bounds:
  "validateFunctionShape sh = None \<Longrightarrow> \<exists>s. resourceScoringFunction sh r c = Inr s \<and> 0 \<le> s \<and> s \<le> MaxNodeScore"
  by (simp add: resourceScoringFunction_def buildBrokenLinearFunction_bounds)

lemma weights_nonneg: "list_all (\<lambda>(_, w). 1 \<le> w) ws \<Longrightarrow> 0 \<le> sum_list (map snd ws)" for ws :: value_map
  by (induction ws) auto

lemma rtcr_sum_bounds:
  assumes "validateFunctionShape sh = None" "list_all (\<lambda>(_, w). 1 \<le> w) ws"
    and "0 \<le> ns" "ns \<le> MaxNodeScore * wsum" "MaxNodeScore * (wsum + sum_list (map snd ws)) \<le> 9223372036854775807"
  shows "\<exists>ns' wsum'. rtcr_sum sh req alloc ws (ns, wsum) = Inr (ns', wsum') \<and> 0 \<le> ns' \<and> ns' \<le> MaxNodeScore * wsum'"
  using assms(2-5)
proof (induction ws arbitrary: ns wsum)
  case (Cons rw ws)
  obtain r w where rw: "rw = (r, w)" by force
  obtain s where s: "resourceScoringFunction sh (scalar req r) (scalar alloc r) = Inr s" "0 \<le> s" "s \<le> MaxNodeScore"
    using resourceScoringFunction_bounds [OF assms(1)] by blast
  have w: "1 \<le> w" "0 \<le> sum_list (map snd ws)"
    using Cons.prems(1) weights_nonneg [of ws] by (simp_all add: rw)
  have sw: "0 \<le> s * w" "s * w \<le> 100 * w"
    using s(2,3) w mult_right_mono [of s 100 w] by (simp_all add: MaxNodeScore_def)
  have prems: "0 \<le> ns" "ns \<le> 100 * wsum" "100 * (wsum + (w + sum_list (map snd ws))) \<le> 9223372036854775807"
    using Cons.prems by (simp_all add: rw MaxNodeScore_def)
  have "in64 t \<and> in64 (ns + t) \<and> in64 (wsum + w) \<and> ns + t \<le> MaxNodeScore * (wsum + w)" if "0 \<le> t" "t \<le> 100 * w" for t
    using that w prems by (simp add: in64_def MaxNodeScore_def)
  from this [OF sw] have "in64 (s * w)" "in64 (ns + s * w)" "in64 (wsum + w)"
    "ns + s * w \<le> MaxNodeScore * (wsum + w)" by simp_all
  moreover have "\<exists>ns' wsum'. rtcr_sum sh req alloc ws (ns + s * w, wsum + w) = Inr (ns', wsum') \<and> 0 \<le> ns' \<and> ns' \<le> MaxNodeScore * wsum'"
    using Cons.prems sw(1) calculation(4) by (intro Cons.IH) (simp_all add: rw add.assoc)
  moreover have "\<exists>ns' wsum'. rtcr_sum sh req alloc ws (ns, wsum) = Inr (ns', wsum') \<and> 0 \<le> ns' \<and> ns' \<le> MaxNodeScore * wsum'"
    using Cons.prems(1) prems w by (intro Cons.IH) (simp_all add: rw MaxNodeScore_def)
  ultimately show ?case by (simp add: rw s(1))
qed simp

lemma round_quotient_bounds:
  assumes "0 \<le> a" "a \<le> m * b" "0 \<le> b" "b \<noteq> 0" "0 \<le> m"
  shows "0 \<le> round_quotient a b \<and> round_quotient a b \<le> m"
proof -
  have q: "0 \<le> (of_int a :: rat) / of_int b" using assms by simp
  have "(of_int a :: rat) \<le> of_int (m * b)" using assms(2) by (simp only: of_int_le_iff)
  then have "(of_int a :: rat) / of_int b \<le> of_int m" using assms by (simp add: divide_le_eq)
  then have "\<lfloor>(of_int a :: rat) / of_int b + 1 / 2\<rfloor> \<le> m" by linarith
  moreover have "0 \<le> \<lfloor>(of_int a :: rat) / of_int b + 1 / 2\<rfloor>" using q by linarith
  ultimately show ?thesis using q by (simp add: round_quotient_def Let_def)
qed

text \<open>
  With a valid shape and weights of at least one, the score of a node is between 0 and
  \<open>MaxNodeScore\<close> and its computation never panics, whatever the requests and capacities, as long as the
  weights sum to at most a hundredth of the \<open>int64\<close> range.
\<close>

theorem ratio_score_in_range:
  assumes "validateFunctionShape sh = None" "validateResourceWeightMap ws"
    and "100 * sum_list (map snd ws) \<le> 9223372036854775807"
  shows "\<exists>s. buildRequestedToCapacityRatioScorerFunction sh ws req alloc = Inr s \<and> 0 \<le> s \<and> s \<le> MaxNodeScore"
proof -
  obtain ns wsum where "rtcr_sum sh req alloc ws (0, 0) = Inr (ns, wsum)" "0 \<le> ns" "ns \<le> MaxNodeScore * wsum"
    using rtcr_sum_bounds [OF assms(1), of ws 0 0 req alloc] assms(2,3)
    by (auto simp: validateResourceWeightMap_def MaxNodeScore_def)
  moreover from this have "0 \<le> wsum" by (simp add: MaxNodeScore_def)
  ultimately show ?thesis
    using round_quotient_bounds [of ns MaxNodeScore wsum]
    by (auto simp: buildRequestedToCapacityRatioScorerFunction_def MaxNodeScore_def)
qed

text \<open>The policy DepCon ships: the score falls from its maximum to 0 as a node fills up.\<close>

definition depcon_shape :: "(int \<times> int) list" where
  "depcon_shape = [(0, 10), (100, 0)]"

definition depcon_resources :: value_map where
  "depcon_resources = [(''CPU'', 10), (''Memory'', 1)]"

lemma depcon_shape [simp]: "scaled_shape depcon_shape = [(0, 100), (100, 0)]"
  by (simp add: depcon_shape_def scaled_shape_def MaxNodeScore_def MaxCustomPriorityScore_def)

lemma depcon_shape_valid: "validateFunctionShape [(0, 100), (100, 0)] = None" "falling [(0, 100), (100, 0)]"
  by (simp_all add: validateFunctionShape_def MaxNodeScore_def falling_def)

theorem score_follows_shape_witness:
  "\<exists>v w. resourceScoringFunction (scaled_shape depcon_shape) 40 100 = Inr v \<and>
     resourceScoringFunction (scaled_shape depcon_shape) 60 100 = Inr w \<and> w \<le> v"
proof -
  obtain v w where "resourceScoringFunction (scaled_shape depcon_shape) 40 100 = Inr v"
      "resourceScoringFunction (scaled_shape depcon_shape) 60 100 = Inr w"
    using resourceScoringFunction_bounds [OF depcon_shape_valid(1)] unfolding depcon_shape by metis
  then show ?thesis
    using score_follows_shape [OF depcon_shape_valid(1), of 40 60 100 v w] depcon_shape_valid(2) by simp
qed

theorem ratio_score_in_range_witness:
  "\<exists>s. buildRequestedToCapacityRatioScorerFunction (scaled_shape depcon_shape) [(ResourceSLO, 1)] [(ResourceSLO, 60)] [(ResourceSLO, 100)] = Inr s
     \<and> 0 \<le> s \<and> s \<le> MaxNodeScore"
  using ratio_score_in_range [OF depcon_shape_valid(1), of "[(ResourceSLO, 1)]"] by (simp add: validateResourceWeightMap_def)

text \<open>
  C31: The policy that DepCon ships gives every pod the score 0 on every node: it names the resources
  \<open>CPU\<close> and \<open>Memory\<close>, which are not the names \<open>cpu\<close> and \<open>memory\<close> nor scalar resources, so their requests and
  capacities count as 0, a resource with no capacity counts as full, and a full one scores 0.
\<close>

theorem depcon_policy_scores_nothing:
  "ni_node n = Some nd \<Longrightarrow> \<exists>sh ws. NewRequestedToCapacityRatio depcon_shape depcon_resources = Inr (sh, ws) \<and>
     ras_score g (Some ws) (buildRequestedToCapacityRatioScorerFunction sh ws) pod n = Inr (None, 0)"
proof -
  assume n: "ni_node n = Some nd"
  have names: "\<not> IsScalarResourceName ''CPU''" "\<not> IsScalarResourceName ''Memory''"
    by (simp_all add: IsScalarResourceName_def IsExtendedResourceName_def IsNativeResource_def IsPrefixedNativeResource_def
        IsHugePageResourceName_def IsAttachableVolumeResourceName_def has_prefix_def)
  have new: "NewRequestedToCapacityRatio depcon_shape depcon_resources = Inr ([(0, 100), (100, 0)], depcon_resources)"
    using depcon_shape_valid(1) by (simp add: NewRequestedToCapacityRatio_def depcon_resources_def weight_map_def)
  have full: "resourceScoringFunction [(0, 100), (100, 0)] 0 0 = Inr 0"
    by (simp add: resourceScoringFunction_def buildBrokenLinearFunction_def in64_def)
  have "ras_score g (Some depcon_resources)
      (buildRequestedToCapacityRatioScorerFunction [(0, 100), (100, 0)] depcon_resources) pod n = Inr (None, 0)"
    using n names full
    by (simp add: ras_score_def depcon_resources_def calculateResourceAllocatableRequest_def Let_def scalar_def
        buildRequestedToCapacityRatioScorerFunction_def)
  then show ?thesis using new by blast
qed

theorem depcon_policy_scores_nothing_witness:
  "\<exists>sh ws. NewRequestedToCapacityRatio depcon_shape depcon_resources = Inr (sh, ws) \<and>
     ras_score slo_gates (Some ws) (buildRequestedToCapacityRatioScorerFunction sh ws) (sched_pod ''a'' 60)
       (snd (ni_SetNode slo_gates (slo_node 100) (NewNodeInfo slo_gates [] 0))) = Inr (None, 0)"
  by (rule depcon_policy_scores_nothing [where nd = "slo_node 100"])
     (simp add: ni_SetNode_def NewNodeInfo_def Let_def)

subsection \<open>Normalised scores\<close>

lemma max_count: "0 \<le> max_count scores" "s \<in> set scores \<Longrightarrow> s \<le> max_count scores"
  "max_count scores \<noteq> 0 \<Longrightarrow> max_count scores \<in> set scores"
proof -
  let ?f = "\<lambda>m s. if m < s then s else m :: int"
  have *: "m \<le> foldl ?f m xs \<and> (\<forall>s \<in> set xs. s \<le> foldl ?f m xs) \<and> foldl ?f m xs \<in> insert m (set xs)" for m xs
  proof (induction xs arbitrary: m)
    case (Cons x xs)
    show ?case using Cons [of "?f m x"] by (auto split: if_splits)
  qed simp
  show "0 \<le> max_count scores" "s \<in> set scores \<Longrightarrow> s \<le> max_count scores"
    "max_count scores \<noteq> 0 \<Longrightarrow> max_count scores \<in> set scores"
    using * [of 0 scores] unfolding max_count_def by auto
qed

text \<open>A score normalised to the range of the scheduler.\<close>

definition normal :: "int \<Rightarrow> bool \<Rightarrow> int \<Rightarrow> int \<Rightarrow> int" where
  "normal mx reverse best s =
     (if best = 0 then (if reverse then mx else 0)
      else if reverse then mx - mx * s div best else mx * s div best)"

lemma DefaultNormalizeScore_normal:
  assumes "0 \<le> mx" "\<forall>s \<in> set scores. 0 \<le> s \<and> mx * s \<le> 9223372036854775807" "mx \<le> 9223372036854775807"
  shows "DefaultNormalizeScore mx reverse scores = map (normal mx reverse (max_count scores)) scores"
proof (cases "max_count scores = 0")
  case True
  then have "s = 0" if "s \<in> set scores" for s using max_count(2) [OF that] assms(2) that by force
  then show ?thesis using True by (auto simp: DefaultNormalizeScore_def normal_def map_idI [symmetric])
next
  case False
  then have top: "0 < max_count scores" using max_count(1) [of scores] by simp
  have "wrap64 (mx * s) sdiv max_count scores = mx * s div max_count scores"
    and "wrap64 (mx - mx * s div max_count scores) = mx - mx * s div max_count scores" if "s \<in> set scores" for s
  proof -
    have "in64 (mx * s)" using assms that by (auto simp: in64_def intro: order_trans [of _ 0])
    then show "wrap64 (mx * s) sdiv max_count scores = mx * s div max_count scores"
      using assms that top by (simp add: sdiv_nonneg)
    have "mx * s \<le> mx * max_count scores" using max_count(2) [OF that] assms(1) by (simp add: mult_left_mono)
    then have "mx * s div max_count scores \<le> mx"
      using zdiv_mono1 [of "mx * s" "mx * max_count scores" "max_count scores"] top by simp
    moreover have "0 \<le> mx * s div max_count scores" using assms that top by (simp add: pos_imp_zdiv_nonneg_iff)
    ultimately show "wrap64 (mx - mx * s div max_count scores) = mx - mx * s div max_count scores"
      using assms(3) by (simp add: in64_def)
  qed
  then show ?thesis using False by (simp add: DefaultNormalizeScore_def normal_def Let_def)
qed

text \<open>
  Normalising non-negative scores keeps their order (reverses it when asked to), leaves every
  score between 0 and \<open>maxPriority\<close>, and gives a best node the full \<open>maxPriority\<close> (the least, when
  reversed, 0), as long as no product leaves the \<open>int64\<close> range.
\<close>

theorem normalised_scores:
  assumes "0 \<le> mx" "mx \<le> 9223372036854775807" "\<forall>s \<in> set scores. 0 \<le> s \<and> mx * s \<le> 9223372036854775807"
    and "i < length scores" "j < length scores" "scores ! i \<le> scores ! j"
  shows "let out = DefaultNormalizeScore mx reverse scores in
    length out = length scores \<and> 0 \<le> out ! i \<and> out ! i \<le> mx \<and>
    (if reverse then out ! j \<le> out ! i else out ! i \<le> out ! j) \<and>
    (scores ! j = max_count scores \<and> 0 < scores ! j \<longrightarrow> out ! j = (if reverse then 0 else mx))"
proof -
  let ?t = "max_count scores"
  have t: "0 \<le> scores ! i" "scores ! j \<le> ?t" using assms(3-5) max_count(2) [of "scores ! j" scores] by auto
  have top: "0 \<le> ?t" by (rule max_count(1))
  have d: "0 \<le> mx * (scores ! i) div ?t \<and> mx * (scores ! i) div ?t \<le> mx * (scores ! j) div ?t \<and> mx * (scores ! j) div ?t \<le> mx"
    if "?t \<noteq> 0"
  proof -
    have "mx * (scores ! i) \<le> mx * (scores ! j)" "mx * (scores ! j) \<le> mx * ?t"
      using assms(1,6) t by (simp_all add: mult_left_mono)
    then show ?thesis using that top assms(1) t zdiv_mono1 [of "mx * (scores ! j)" "mx * ?t" ?t]
      by (simp add: pos_imp_zdiv_nonneg_iff zdiv_mono1)
  qed
  show ?thesis unfolding DefaultNormalizeScore_normal [OF assms(1,3,2)] Let_def
    using d assms(1,4,5) top by (cases "?t = 0") (auto simp: normal_def)
qed

theorem normalised_scores_witness:
  "let out = DefaultNormalizeScore 100 False [3, 6] in length out = 2 \<and> 0 \<le> out ! 0 \<and> out ! 0 \<le> out ! 1 \<and> out ! 1 = 100"
  using normalised_scores [of 100 "[3, 6]" 0 1 False] by (simp add: max_count_def Let_def)

end
