(* ===== verification/SchedFramework.thy ===== *)
theory SchedFramework
  imports NodeScoring
begin

section \<open>The scheduling framework\<close>

text \<open>
  \<open>Status\<close> and the extension points of \<open>pkg/scheduler/framework/v1alpha1\<close> that a scheduling decision runs
  through: PreFilter with its extensions, Filter, PreScore and Score.  A plugin is a record of its methods over
  a cycle state \<open>'st\<close>, which PreFilter and PreScore write and the others read.  A nil status is \<open>None\<close>.
  Plugins that the code runs in parallel are run in the order of the list; which of several errors is
  reported is left to the race there.  Metrics are left out.
\<close>

subsection \<open>Status\<close>

datatype status_code = Success | Wait | Skip | Unschedulable | UnschedulableAndUnresolvable | StatusError

record status =
  ss_code :: status_code
  ss_reasons :: "string list"

definition Code :: "status option \<Rightarrow> status_code" where
  "Code s = (case s of None \<Rightarrow> Success | Some x \<Rightarrow> ss_code x)"

definition Message :: "status option \<Rightarrow> string" where
  "Message s = (case s of None \<Rightarrow> [] | Some x \<Rightarrow> join_str '', '' (ss_reasons x))"

definition NewStatus :: "status_code \<Rightarrow> string list \<Rightarrow> status" where
  "NewStatus c rs = \<lparr>ss_code = c, ss_reasons = rs\<rparr>"

definition AppendReason :: "string \<Rightarrow> status \<Rightarrow> status" where
  "AppendReason r s = s\<lparr>ss_reasons := ss_reasons s @ [r]\<rparr>"

definition IsSuccess :: "status option \<Rightarrow> bool" where
  "IsSuccess s \<longleftrightarrow> Code s = Success"

definition IsUnschedulable :: "status option \<Rightarrow> bool" where
  "IsUnschedulable s \<longleftrightarrow> (let c = Code s in c = Unschedulable \<or> c = UnschedulableAndUnresolvable)"

definition AsError :: "status option \<Rightarrow> string option" where
  "AsError s = (if IsSuccess s then None else Some (Message s))"

text \<open>\<open>reasons\<close> of a nil status in the loop would be a nil dereference; the maps merged here hold no nil.\<close>

type_synonym plugin_status = "(string \<times> status) list"

definition Merge :: "plugin_status \<Rightarrow> status option" where
  "Merge p =
     (if p = [] then None
      else
        let final = foldl (\<lambda>f (_, s). foldl (\<lambda>f r. AppendReason r f) (f\<lparr>ss_code := ss_code s\<rparr>) (ss_reasons s)) (NewStatus Success []) p;
            codes = map (\<lambda>(_, s). ss_code s) p
        in Some (if StatusError \<in> set codes then final\<lparr>ss_code := StatusError\<rparr>
                 else if UnschedulableAndUnresolvable \<in> set codes then final\<lparr>ss_code := UnschedulableAndUnresolvable\<rparr>
                 else if Unschedulable \<in> set codes then final\<lparr>ss_code := Unschedulable\<rparr>
                 else final))"

text \<open>The precedence of the codes in \<open>Merge\<close> as the order of the type.\<close>

fun severity :: "status_code \<Rightarrow> nat" where
  "severity Success = 0"
| "severity Wait = 1"
| "severity Skip = 2"
| "severity Unschedulable = 3"
| "severity UnschedulableAndUnresolvable = 4"
| "severity StatusError = 5"

instantiation status_code :: linorder
begin

definition less_eq_status_code :: "status_code \<Rightarrow> status_code \<Rightarrow> bool" where
  "less_eq_status_code a b \<longleftrightarrow> severity a \<le> severity b"

definition less_status_code :: "status_code \<Rightarrow> status_code \<Rightarrow> bool" where
  "less_status_code a b \<longleftrightarrow> severity a < severity b"

instance
proof
  fix a b :: status_code
  show "a \<le> b \<Longrightarrow> b \<le> a \<Longrightarrow> a = b"
    by (cases a; cases b) (simp_all add: less_eq_status_code_def)
qed (auto simp: less_eq_status_code_def less_status_code_def)

end

definition filter_code :: "status_code \<Rightarrow> bool" where
  "filter_code c \<longleftrightarrow> c \<noteq> Wait \<and> c \<noteq> Skip"

lemma appended: "ss_code (foldl (\<lambda>f r. AppendReason r f) s rs) = ss_code s"
  by (induction rs arbitrary: s) (simp_all add: AppendReason_def)

lemma final_code:
  "p \<noteq> [] \<Longrightarrow> ss_code (foldl (\<lambda>f (_, s). foldl (\<lambda>f r. AppendReason r f) (f\<lparr>ss_code := ss_code s\<rparr>) (ss_reasons s)) f0 p) = ss_code (snd (last p))"
  by (cases p rule: rev_cases) (simp_all add: appended split: prod.split)

lemma Merge_severest:
  assumes "p \<noteq> []" "\<forall>(n, s) \<in> set p. filter_code (ss_code s)"
  shows "Code (Merge p) = Max ((\<lambda>(n, s). ss_code s) ` set p)"
proof -
  let ?C = "(\<lambda>(n, s). ss_code s) ` set p"
  have m: "Max ?C = c" if "c \<in> ?C" "\<And>d. d \<in> ?C \<Longrightarrow> d \<le> c" for c using that by (intro Max_eqI) auto
  have l: "ss_code (snd (last p)) \<in> ?C" using last_in_set [OF assms(1)] by (force simp: image_iff split_def)
  have fc: "filter_code d" if "d \<in> ?C" for d using that assms(2) by auto
  have r: "d = Success \<or> d = Unschedulable \<or> d = UnschedulableAndUnresolvable \<or> d = StatusError" if "d \<in> ?C" for d
    using fc [OF that] by (cases d) (simp_all add: filter_code_def)
  consider "StatusError \<in> ?C" | "StatusError \<notin> ?C" "UnschedulableAndUnresolvable \<in> ?C"
    | "StatusError \<notin> ?C" "UnschedulableAndUnresolvable \<notin> ?C" "Unschedulable \<in> ?C"
    | "StatusError \<notin> ?C" "UnschedulableAndUnresolvable \<notin> ?C" "Unschedulable \<notin> ?C" by blast
  then show ?thesis
  proof cases
    case 1
    have "d \<le> StatusError" for d by (cases d) (simp_all add: less_eq_status_code_def)
    then show ?thesis using 1 m [OF 1] assms(1) by (simp add: Merge_def Code_def Let_def)
  next
    case 2
    have "d \<le> UnschedulableAndUnresolvable" if "d \<in> ?C" for d
      using that 2(1) by (cases d) (auto simp: less_eq_status_code_def)
    then show ?thesis using 2 m [OF 2(2)] assms(1) by (simp add: Merge_def Code_def Let_def)
  next
    case 3
    have "d \<le> Unschedulable" if "d \<in> ?C" for d using that 3(1,2) by (cases d) (auto simp: less_eq_status_code_def)
    then show ?thesis using 3 m [OF 3(3)] assms(1) by (simp add: Merge_def Code_def Let_def)
  next
    case 4
    have all: "d = Success" if "d \<in> ?C" for d using r [OF that] that 4 by blast
    have c: "Code (Merge p) = ss_code (snd (last p))" using 4 assms(1) by (simp add: Merge_def Code_def Let_def final_code)
    have "Success \<in> ?C" using l all [OF l] by simp
    then have "Max ?C = Success" by (rule m) (drule all, simp)
    then show ?thesis using all [OF l] c by simp
  qed
qed

subsection \<open>Plugins\<close>

record 'st pre_filter_extensions =
  pe_AddPod :: "pod \<Rightarrow> pod \<Rightarrow> node_info \<Rightarrow> 'st \<Rightarrow> status option \<times> 'st"
  pe_RemovePod :: "pod \<Rightarrow> pod \<Rightarrow> node_info \<Rightarrow> 'st \<Rightarrow> status option \<times> 'st"

record 'st pre_filter_plugin =
  pf_Name :: string
  pf_PreFilter :: "pod \<Rightarrow> 'st \<Rightarrow> status option \<times> 'st"
  pf_Extensions :: "'st pre_filter_extensions option"

record 'st filter_plugin =
  fp_Name :: string
  fp_Filter :: "'st \<Rightarrow> pod \<Rightarrow> node_info \<Rightarrow> status option"

record 'st pre_score_plugin =
  pq_Name :: string
  pq_PreScore :: "pod \<Rightarrow> node list \<Rightarrow> 'st \<Rightarrow> status option \<times> 'st"

type_synonym node_scores = "(string \<times> int) list"

record 'st score_plugin =
  cp_Name :: string
  cp_Score :: "'st \<Rightarrow> pod \<Rightarrow> string \<Rightarrow> int \<times> status option"
  cp_NormalizeScore :: "('st \<Rightarrow> pod \<Rightarrow> node_scores \<Rightarrow> node_scores \<times> status option) option"
  cp_weight :: int

record 'st sched_framework =
  fw_preFilterPlugins :: "'st pre_filter_plugin list"
  fw_filterPlugins :: "'st filter_plugin list"
  fw_preScorePlugins :: "'st pre_score_plugin list"
  fw_scorePlugins :: "'st score_plugin list"
  fw_runAllFilters :: bool

definition HasFilterPlugins :: "'st sched_framework \<Rightarrow> bool" where
  "HasFilterPlugins f \<longleftrightarrow> 0 < length (fw_filterPlugins f)"

definition HasScorePlugins :: "'st sched_framework \<Rightarrow> bool" where
  "HasScorePlugins f \<longleftrightarrow> 0 < length (fw_scorePlugins f)"

text \<open>The verb \<open>%q\<close> for a name without special characters.\<close>

definition quoted :: "string \<Rightarrow> string" where
  "quoted s = CHR 0x22 # s @ [CHR 0x22]"

fun run_pre_filter :: "'st pre_filter_plugin list \<Rightarrow> pod \<Rightarrow> 'st \<Rightarrow> status option \<times> 'st" where
  "run_pre_filter [] pod s = (None, s)"
| "run_pre_filter (pl # pls) pod s =
     (case pf_PreFilter pl pod s of
        (st, s1) \<Rightarrow>
          if IsSuccess st then run_pre_filter pls pod s1
          else if IsUnschedulable st then
            (Some (NewStatus (Code st) [''rejected by '' @ quoted (pf_Name pl) @ '' at prefilter: '' @ Message st]), s1)
          else (Some (NewStatus StatusError [''error while running '' @ quoted (pf_Name pl) @ '' prefilter plugin for pod '' @
                  quoted (p_Name pod) @ '': '' @ Message st]), s1))"

definition RunPreFilterPlugins :: "'st sched_framework \<Rightarrow> pod \<Rightarrow> 'st \<Rightarrow> status option \<times> 'st" where
  "RunPreFilterPlugins f = run_pre_filter (fw_preFilterPlugins f)"

fun run_extensions ::
    "string \<Rightarrow> ('st pre_filter_extensions \<Rightarrow> pod \<Rightarrow> pod \<Rightarrow> node_info \<Rightarrow> 'st \<Rightarrow> status option \<times> 'st) \<Rightarrow>
     'st pre_filter_plugin list \<Rightarrow> pod \<Rightarrow> pod \<Rightarrow> node_info \<Rightarrow> 'st \<Rightarrow> status option \<times> 'st" where
  "run_extensions method m [] pod other n s = (None, s)"
| "run_extensions method m (pl # pls) pod other n s =
     (case pf_Extensions pl of
        None \<Rightarrow> run_extensions method m pls pod other n s
      | Some e \<Rightarrow>
          (case m e pod other n s of
             (st, s1) \<Rightarrow>
               if IsSuccess st then run_extensions method m pls pod other n s1
               else (Some (NewStatus StatusError [''error while running '' @ method @ '' for plugin '' @ quoted (pf_Name pl) @
                       '' while scheduling pod '' @ quoted (p_Name pod) @ '': '' @ Message st]), s1)))"

definition RunPreFilterExtensionAddPod :: "'st sched_framework \<Rightarrow> pod \<Rightarrow> pod \<Rightarrow> node_info \<Rightarrow> 'st \<Rightarrow> status option \<times> 'st" where
  "RunPreFilterExtensionAddPod f = run_extensions ''AddPod'' pe_AddPod (fw_preFilterPlugins f)"

definition RunPreFilterExtensionRemovePod :: "'st sched_framework \<Rightarrow> pod \<Rightarrow> pod \<Rightarrow> node_info \<Rightarrow> 'st \<Rightarrow> status option \<times> 'st" where
  "RunPreFilterExtensionRemovePod f = run_extensions ''RemovePod'' pe_RemovePod (fw_preFilterPlugins f)"

text \<open>The statuses of the plugins that fail; a failure that is not Unschedulable replaces them all.\<close>

fun run_filters :: "bool \<Rightarrow> 'st filter_plugin list \<Rightarrow> 'st \<Rightarrow> pod \<Rightarrow> node_info \<Rightarrow> plugin_status \<Rightarrow> plugin_status" where
  "run_filters runAll [] s pod n statuses = statuses"
| "run_filters runAll (pl # pls) s pod n statuses =
     (case fp_Filter pl s pod n of
        None \<Rightarrow> run_filters runAll pls s pod n statuses
      | Some st \<Rightarrow>
          if IsSuccess (Some st) then run_filters runAll pls s pod n statuses
          else if \<not> IsUnschedulable (Some st) then
            [(fp_Name pl, NewStatus StatusError [''running '' @ quoted (fp_Name pl) @ '' filter plugin for pod '' @ quoted (p_Name pod) @
                '': '' @ Message (Some st)])]
          else
            let statuses' = AList.update (fp_Name pl) st statuses in
            if \<not> runAll then statuses' else run_filters runAll pls s pod n statuses')"

definition RunFilterPlugins :: "'st sched_framework \<Rightarrow> 'st \<Rightarrow> pod \<Rightarrow> node_info \<Rightarrow> plugin_status" where
  "RunFilterPlugins f s pod n = run_filters (fw_runAllFilters f) (fw_filterPlugins f) s pod n []"

fun run_pre_score :: "'st pre_score_plugin list \<Rightarrow> pod \<Rightarrow> node list \<Rightarrow> 'st \<Rightarrow> status option \<times> 'st" where
  "run_pre_score [] pod nodes s = (None, s)"
| "run_pre_score (pl # pls) pod nodes s =
     (case pq_PreScore pl pod nodes s of
        (st, s1) \<Rightarrow>
          if IsSuccess st then run_pre_score pls pod nodes s1
          else (Some (NewStatus StatusError [''error while running '' @ quoted (pq_Name pl) @ '' prescore plugin for pod '' @
                  quoted (p_Name pod) @ '': '' @ Message st]), s1))"

definition RunPreScorePlugins :: "'st sched_framework \<Rightarrow> pod \<Rightarrow> node list \<Rightarrow> 'st \<Rightarrow> status option \<times> 'st" where
  "RunPreScorePlugins f = run_pre_score (fw_preScorePlugins f)"

subsection \<open>Scores\<close>

definition MinNodeScore :: int where "MinNodeScore = 0"

text \<open>A plugin normalises the slice in place: its length cannot change.\<close>

definition in_place :: "'a list \<Rightarrow> 'a list \<Rightarrow> 'a list" where
  "in_place old new = map (\<lambda>i. if i < length new then new ! i else old ! i) [0..<length old]"

definition score_errors :: "'st sched_framework \<Rightarrow> 'st \<Rightarrow> pod \<Rightarrow> node list \<Rightarrow> string list" where
  "score_errors f s pod nodes =
     List.map_filter (\<lambda>(pl, n). AsError (snd (cp_Score pl s pod (n_Name n))))
       (concat (map (\<lambda>n. map (\<lambda>pl. (pl, n)) (fw_scorePlugins f)) nodes))"

definition raw_scores :: "'st \<Rightarrow> pod \<Rightarrow> node list \<Rightarrow> 'st score_plugin \<Rightarrow> node_scores" where
  "raw_scores s pod nodes pl = map (\<lambda>n. (n_Name n, fst (cp_Score pl s pod (n_Name n)))) nodes"

definition normalized :: "'st \<Rightarrow> pod \<Rightarrow> node list \<Rightarrow> 'st score_plugin \<Rightarrow> node_scores \<times> status option" where
  "normalized s pod nodes pl =
     (let raw = raw_scores s pod nodes pl in
      case cp_NormalizeScore pl of None \<Rightarrow> (raw, None) | Some nm \<Rightarrow> (case nm s pod raw of (new, st) \<Rightarrow> (in_place raw new, st)))"

definition invalid_score :: "string \<times> int \<Rightarrow> bool" where
  "invalid_score e \<longleftrightarrow> MaxNodeScore < snd e \<or> snd e < MinNodeScore"

definition normalize_errors :: "'st sched_framework \<Rightarrow> 'st \<Rightarrow> pod \<Rightarrow> node list \<Rightarrow> string list" where
  "normalize_errors f s pod nodes =
     List.map_filter
       (\<lambda>pl. map_option (\<lambda>e. ''normalize score plugin '' @ quoted (cp_Name pl) @ '' failed with error '' @ e)
          (AsError (snd (normalized s pod nodes pl))))
       (fw_scorePlugins f)"

definition range_errors :: "'st sched_framework \<Rightarrow> 'st \<Rightarrow> pod \<Rightarrow> node list \<Rightarrow> string list" where
  "range_errors f s pod nodes =
     List.map_filter
       (\<lambda>pl. map_option
          (\<lambda>e. ''score plugin '' @ quoted (cp_Name pl) @ '' returns an invalid score '' @ itoa (snd e) @
             '', it should in the range of ['' @ itoa MinNodeScore @ '', '' @ itoa MaxNodeScore @ ''] after normalizing'')
          (List.find invalid_score (fst (normalized s pod nodes pl))))
       (fw_scorePlugins f)"

definition RunScorePlugins :: "'st sched_framework \<Rightarrow> 'st \<Rightarrow> pod \<Rightarrow> node list \<Rightarrow> string + (string \<times> node_scores) list" where
  "RunScorePlugins f s pod nodes =
     (case score_errors f s pod nodes of
        e # _ \<Rightarrow> Inl (''error while running score plugin for pod '' @ quoted (p_Name pod) @ '': '' @ e)
      | [] \<Rightarrow>
          (case normalize_errors f s pod nodes of
             e # _ \<Rightarrow> Inl (''error while running normalize score plugin for pod '' @ quoted (p_Name pod) @ '': '' @ e)
           | [] \<Rightarrow>
               (case range_errors f s pod nodes of
                  e # _ \<Rightarrow> Inl (''error while applying score defaultWeights for pod '' @ quoted (p_Name pod) @ '': '' @ e)
                | [] \<Rightarrow>
                    Inr (map (\<lambda>pl. (cp_Name pl, map (\<lambda>(n, sc). (n, wrap64 (sc * cp_weight pl))) (fst (normalized s pod nodes pl))))
                          (fw_scorePlugins f)))))"

subsection \<open>What passing the filters means\<close>

definition passes :: "'st sched_framework \<Rightarrow> 'st \<Rightarrow> pod \<Rightarrow> node_info \<Rightarrow> bool" where
  "passes f s pod n \<longleftrightarrow> (\<forall>pl \<in> set (fw_filterPlugins f). IsSuccess (fp_Filter pl s pod n))"

lemma update_not_Nil [simp]: "AList.update k v l \<noteq> []"
  by (cases l) auto

lemma run_filters_keep: "statuses \<noteq> [] \<Longrightarrow> run_filters runAll pls s pod n statuses \<noteq> []"
proof (induction pls arbitrary: statuses)
  case (Cons pl pls)
  show ?case
  proof (cases "fp_Filter pl s pod n")
    case (Some st)
    have "run_filters runAll pls s pod n (AList.update (fp_Name pl) st statuses) \<noteq> []" by (rule Cons.IH) simp
    then show ?thesis using Some Cons.IH [OF Cons.prems] by (cases runAll) (simp_all add: Let_def)
  qed (use Cons in simp)
qed simp

lemma run_filters_empty:
  "run_filters runAll pls s pod n [] = [] \<longleftrightarrow> (\<forall>pl \<in> set pls. IsSuccess (fp_Filter pl s pod n))"
proof (induction pls)
  case (Cons pl pls)
  show ?case
  proof (cases "fp_Filter pl s pod n")
    case None
    then show ?thesis using Cons by (simp add: IsSuccess_def Code_def)
  next
    case (Some st)
    moreover have "run_filters runAll pls s pod n [(fp_Name pl, st)] \<noteq> []" by (rule run_filters_keep) simp
    ultimately show ?thesis using Cons by (cases runAll) (simp_all add: Let_def)
  qed
qed simp

lemma run_filters_codes:
  "\<forall>(k, st) \<in> set statuses. \<not> IsSuccess (Some st) \<and> filter_code (ss_code st) \<Longrightarrow>
     \<forall>(k, st) \<in> set (run_filters runAll pls s pod n statuses). \<not> IsSuccess (Some st) \<and> filter_code (ss_code st)"
proof (induction pls arbitrary: statuses)
  case (Cons pl pls)
  have up: "\<forall>(k, st) \<in> set (AList.update k' st' statuses). \<not> IsSuccess (Some st) \<and> filter_code (ss_code st)"
    if "\<not> IsSuccess (Some st')" "IsUnschedulable (Some st')" for k' st'
  proof -
    have "set (AList.update k' st' statuses) \<subseteq> insert (k', st') (set statuses)" by (induction statuses) auto
    moreover have "filter_code (ss_code st')" using that by (auto simp: filter_code_def IsUnschedulable_def Code_def Let_def)
    ultimately show ?thesis using Cons.prems that by fastforce
  qed
  show ?case
  proof (cases "fp_Filter pl s pod n")
    case (Some st)
    then show ?thesis using Cons.IH [OF up] Cons.IH [OF Cons.prems] up [of st] Cons.prems
      by (auto simp: Let_def IsSuccess_def Code_def NewStatus_def filter_code_def)
  qed (use Cons in simp)
qed simp

lemma Merge_success: "IsSuccess (Merge (RunFilterPlugins f s pod n)) \<longleftrightarrow> passes f s pod n"
proof (cases "RunFilterPlugins f s pod n = []")
  case True
  then show ?thesis using run_filters_empty [of "fw_runAllFilters f" "fw_filterPlugins f" s pod n]
    by (simp add: Merge_def IsSuccess_def Code_def passes_def RunFilterPlugins_def)
next
  case False
  let ?p = "RunFilterPlugins f s pod n"
  have c: "\<forall>(k, st) \<in> set ?p. \<not> IsSuccess (Some st) \<and> filter_code (ss_code st)"
    unfolding RunFilterPlugins_def by (rule run_filters_codes) simp
  have "Code (Merge ?p) = Max ((\<lambda>(n, s). ss_code s) ` set ?p)" by (rule Merge_severest [OF False]) (use c in auto)
  moreover have "Max ((\<lambda>(n, s). ss_code s) ` set ?p) \<in> (\<lambda>(n, s). ss_code s) ` set ?p" using False by (intro Max_in) auto
  ultimately have "Code (Merge ?p) \<noteq> Success" using c by (auto simp: IsSuccess_def Code_def)
  then show ?thesis using False run_filters_empty [of "fw_runAllFilters f" "fw_filterPlugins f" s pod n]
    by (simp add: IsSuccess_def passes_def RunFilterPlugins_def)
qed

end
