(* ===== verification/NodeTree.thy ===== *)
theory NodeTree
  imports NodeInfo
begin

section \<open>The node tree of the scheduler cache\<close>

text \<open>
  \<open>nodeTree\<close> and \<open>nodeArray\<close> of \<open>pkg/scheduler/internal/cache/node_tree.go\<close>, with the zone key of
  \<open>pkg/util/node\<close>: node names by zone, enumerated zone by zone in turns.  The loop of \<open>next\<close> has no
  bound in the code; it is a partial function, and its termination is a theorem.
\<close>

definition GetZoneKey :: "node \<Rightarrow> string" where
  "GetZoneKey n =
     (let label = (\<lambda>beta stable.
            case map_of (n_Labels n) beta of
              Some v \<Rightarrow> v
            | None \<Rightarrow> (case map_of (n_Labels n) stable of Some v \<Rightarrow> v | None \<Rightarrow> []));
          zone = label ''failure-domain.beta.kubernetes.io/zone'' ''topology.kubernetes.io/zone'';
          region = label ''failure-domain.beta.kubernetes.io/region'' ''topology.kubernetes.io/region''
      in if region = [] \<and> zone = [] then [] else region @ '':'' @ [CHR 0x00] @ '':'' @ zone)"

record node_array =
  na_nodes :: "string list"
  na_lastIndex :: nat

record node_tree =
  nt_tree :: "(string \<times> node_array) list"
  nt_zones :: "string list"
  nt_zoneIndex :: nat
  nt_numNodes :: int

definition na_next :: "node_array \<Rightarrow> (string \<times> bool) \<times> node_array" where
  "na_next na =
     (if na_nodes na = [] then (([], False), na)
      else if length (na_nodes na) \<le> na_lastIndex na then (([], True), na)
      else ((na_nodes na ! na_lastIndex na, False), na\<lparr>na_lastIndex := Suc (na_lastIndex na)\<rparr>))"

definition empty_node_tree :: node_tree where
  "empty_node_tree = \<lparr>nt_tree = [], nt_zones = [], nt_zoneIndex = 0, nt_numNodes = 0\<rparr>"

definition nt_addNode :: "node \<Rightarrow> node_tree \<Rightarrow> node_tree" where
  "nt_addNode n t =
     (let zone = GetZoneKey n in
      case map_of (nt_tree t) zone of
        Some na \<Rightarrow>
          if n_Name n \<in> set (na_nodes na) then t
          else t\<lparr>nt_tree := AList.update zone (na\<lparr>na_nodes := na_nodes na @ [n_Name n]\<rparr>) (nt_tree t),
                 nt_numNodes := nt_numNodes t + 1\<rparr>
      | None \<Rightarrow>
          t\<lparr>nt_zones := nt_zones t @ [zone],
            nt_tree := AList.update zone \<lparr>na_nodes = [n_Name n], na_lastIndex = 0\<rparr> (nt_tree t),
            nt_numNodes := nt_numNodes t + 1\<rparr>)"

definition newNodeTree :: "node list \<Rightarrow> node_tree" where
  "newNodeTree nodes = foldl (\<lambda>t n. nt_addNode n t) empty_node_tree nodes"

definition nt_removeZone :: "string \<Rightarrow> node_tree \<Rightarrow> node_tree" where
  "nt_removeZone zone t = t\<lparr>nt_tree := AList.delete zone (nt_tree t), nt_zones := remove1 zone (nt_zones t)\<rparr>"

text \<open>The flag is whether \<open>removeNode\<close> returns an error.\<close>

definition nt_removeNode :: "node \<Rightarrow> node_tree \<Rightarrow> bool \<times> node_tree" where
  "nt_removeNode n t =
     (let zone = GetZoneKey n in
      case map_of (nt_tree t) zone of
        Some na \<Rightarrow>
          if n_Name n \<in> set (na_nodes na) then
            let na' = na\<lparr>na_nodes := remove1 (n_Name n) (na_nodes na)\<rparr>;
                t1 = t\<lparr>nt_tree := AList.update zone na' (nt_tree t)\<rparr>;
                t2 = (if na_nodes na' = [] then nt_removeZone zone t1 else t1)
            in (False, t2\<lparr>nt_numNodes := nt_numNodes t2 - 1\<rparr>)
          else (True, t)
      | None \<Rightarrow> (True, t))"

definition nt_updateNode :: "node option \<Rightarrow> node \<Rightarrow> node_tree \<Rightarrow> go_panic + node_tree" where
  "nt_updateNode old new t =
     (let oldZone = (case old of Some n \<Rightarrow> GetZoneKey n | None \<Rightarrow> []) in
      if oldZone = GetZoneKey new then Inr t
      else case old of
        None \<Rightarrow> Inl NilDereference
      | Some n \<Rightarrow> Inr (nt_addNode new (snd (nt_removeNode n t))))"

definition nt_resetExhausted :: "node_tree \<Rightarrow> node_tree" where
  "nt_resetExhausted t =
     t\<lparr>nt_tree := map (\<lambda>(z, na). (z, na\<lparr>na_lastIndex := 0\<rparr>)) (nt_tree t), nt_zoneIndex := 0\<rparr>"

partial_function (option) nt_next_loop :: "nat \<Rightarrow> node_tree \<Rightarrow> (go_panic + string \<times> node_tree) option" where
  "nt_next_loop numExhausted t =
     (let t1 = (if length (nt_zones t) \<le> nt_zoneIndex t then t\<lparr>nt_zoneIndex := 0\<rparr> else t);
          zone = nt_zones t1 ! nt_zoneIndex t1
      in case map_of (nt_tree t1) zone of
           None \<Rightarrow> Some (Inl NilDereference)
         | Some na \<Rightarrow>
             let t2 = t1\<lparr>nt_zoneIndex := Suc (nt_zoneIndex t1), nt_tree := AList.update zone (snd (na_next na)) (nt_tree t1)\<rparr> in
             if snd (fst (na_next na)) then
               nt_next_loop (Suc numExhausted) (if length (nt_zones t2) \<le> Suc numExhausted then nt_resetExhausted t2 else t2)
             else Some (Inr (fst (fst (na_next na)), t2)))"

definition nt_next :: "node_tree \<Rightarrow> (go_panic + string \<times> node_tree) option" where
  "nt_next t = (if nt_zones t = [] then Some (Inr ([], t)) else nt_next_loop 0 t)"

text \<open>\<open>n\<close> calls of \<open>next\<close>, as the snapshot makes them.\<close>

fun nt_take :: "nat \<Rightarrow> node_tree \<Rightarrow> (go_panic + string list \<times> node_tree) option" where
  "nt_take 0 t = Some (Inr ([], t))"
| "nt_take (Suc n) t =
     (case nt_next t of
        None \<Rightarrow> None
      | Some (Inl p) \<Rightarrow> Some (Inl p)
      | Some (Inr (x, t')) \<Rightarrow>
          (case nt_take n t' of
             None \<Rightarrow> None
           | Some (Inl p) \<Rightarrow> Some (Inl p)
           | Some (Inr (xs, t'')) \<Rightarrow> Some (Inr (x # xs, t''))))"

subsection \<open>The invariant of the tree\<close>

definition zone_nodes :: "node_tree \<Rightarrow> string \<Rightarrow> string list" where
  "zone_nodes t z = (case map_of (nt_tree t) z of Some na \<Rightarrow> na_nodes na | None \<Rightarrow> [])"

definition zone_index :: "node_tree \<Rightarrow> string \<Rightarrow> nat" where
  "zone_index t z = (case map_of (nt_tree t) z of Some na \<Rightarrow> na_lastIndex na | None \<Rightarrow> 0)"

definition tree_inv :: "node_tree \<Rightarrow> bool" where
  "tree_inv t \<longleftrightarrow>
     distinct (nt_zones t) \<and> set (nt_zones t) = dom (map_of (nt_tree t)) \<and>
     (\<forall>z \<in> set (nt_zones t). zone_nodes t z \<noteq> [] \<and> distinct (zone_nodes t z)) \<and>
     nt_numNodes t = int (sum_list (map (\<lambda>z. length (zone_nodes t z)) (nt_zones t)))"

text \<open>The nodes of the tree, and those that the current round has not returned yet.\<close>

definition all_nodes :: "node_tree \<Rightarrow> string multiset" where
  "all_nodes t = \<Sum>\<^sub># (mset (map (\<lambda>z. mset (zone_nodes t z)) (nt_zones t)))"

definition remaining :: "node_tree \<Rightarrow> string multiset" where
  "remaining t = \<Sum>\<^sub># (mset (map (\<lambda>z. mset (drop (zone_index t z) (zone_nodes t z))) (nt_zones t)))"

subsection \<open>One step of the enumeration\<close>

text \<open>The zones in the order in which the loop visits them.\<close>

definition view :: "node_tree \<Rightarrow> string list" where
  "view t = (let i = (if length (nt_zones t) \<le> nt_zoneIndex t then 0 else nt_zoneIndex t) in rotate i (nt_zones t))"

definition exhausted :: "node_tree \<Rightarrow> string \<Rightarrow> bool" where
  "exhausted t z \<longleftrightarrow> length (zone_nodes t z) \<le> zone_index t z"

text \<open>What the enumeration changes: only the index of one zone and the zone to go on with.\<close>

definition same_nodes :: "node_tree \<Rightarrow> node_tree \<Rightarrow> bool" where
  "same_nodes t t' \<longleftrightarrow>
     nt_zones t' = nt_zones t \<and> nt_numNodes t' = nt_numNodes t \<and> dom (map_of (nt_tree t')) = dom (map_of (nt_tree t)) \<and>
     (\<forall>z. zone_nodes t' z = zone_nodes t z)"

lemma same_nodes_inv: "same_nodes t t' \<Longrightarrow> tree_inv t \<Longrightarrow> tree_inv t'"
  by (simp add: same_nodes_def tree_inv_def)

lemma same_nodes_all: "same_nodes t t' \<Longrightarrow> all_nodes t' = all_nodes t"
  by (simp add: same_nodes_def all_nodes_def)

lemma view_step:
  assumes "view t = z # zs"
  obtains i where "nt_zones t ! i = z" "i = (if length (nt_zones t) \<le> nt_zoneIndex t then 0 else nt_zoneIndex t)"
    "view (t\<lparr>nt_zoneIndex := Suc i\<rparr>) = zs @ [z]"
proof
  let ?n = "length (nt_zones t)"
  define i where "i = (if ?n \<le> nt_zoneIndex t then 0 else nt_zoneIndex t)"
  have r: "rotate i (nt_zones t) = z # zs" using assms by (simp add: view_def i_def Let_def split: if_splits)
  then have "0 < ?n" by (metis length_rotate length_greater_0_conv list.discI)
  then have i: "i < ?n" by (simp add: i_def)
  show "nt_zones t ! i = z" using hd_rotate_conv_nth [of "nt_zones t" i] r i \<open>0 < ?n\<close> by simp
  show "i = (if ?n \<le> nt_zoneIndex t then 0 else nt_zoneIndex t)" by (fact i_def)
  have "rotate (Suc i) (nt_zones t) = zs @ [z]" using r by simp
  moreover have "rotate (Suc i) (nt_zones t) = nt_zones t" if "?n \<le> Suc i"
    using that i by (metis le_antisym Suc_leI rotate_length01 rotate_id mod_self rotate_conv_mod)
  ultimately show "view (t\<lparr>nt_zoneIndex := Suc i\<rparr>) = zs @ [z]"
    by (simp add: view_def Let_def)
qed

lemma loop_step:
  assumes "tree_inv t" "view t = z # zs"
  obtains i where "nt_next_loop k t =
      (if exhausted t z then
         let t2 = t\<lparr>nt_zoneIndex := Suc i\<rparr> in
         nt_next_loop (Suc k) (if length (nt_zones t) \<le> Suc k then nt_resetExhausted t2 else t2)
       else Some (Inr (zone_nodes t z ! zone_index t z,
              t\<lparr>nt_zoneIndex := Suc i,
                nt_tree := AList.update z \<lparr>na_nodes = zone_nodes t z, na_lastIndex = Suc (zone_index t z)\<rparr> (nt_tree t)\<rparr>)))"
    "view (t\<lparr>nt_zoneIndex := Suc i\<rparr>) = zs @ [z]"
proof -
  obtain i where i: "nt_zones t ! i = z" "i = (if length (nt_zones t) \<le> nt_zoneIndex t then 0 else nt_zoneIndex t)"
    "view (t\<lparr>nt_zoneIndex := Suc i\<rparr>) = zs @ [z]" using view_step [OF assms(2)] .
  have "z \<in> set (view t)" using assms(2) by simp
  then have z: "z \<in> set (nt_zones t)" by (simp add: view_def Let_def)
  then obtain na where na: "map_of (nt_tree t) z = Some na"
    using assms(1) by (auto simp: tree_inv_def)
  have "zone_nodes t z \<noteq> []" using assms(1) z by (simp add: tree_inv_def)
  then have ne: "na_nodes na \<noteq> []" by (simp add: zone_nodes_def na)
  have ex: "exhausted t z \<longleftrightarrow> length (na_nodes na) \<le> na_lastIndex na" by (simp add: exhausted_def zone_nodes_def zone_index_def na)
  have upd: "na\<lparr>na_lastIndex := Suc (na_lastIndex na)\<rparr> = \<lparr>na_nodes = na_nodes na, na_lastIndex = Suc (na_lastIndex na)\<rparr>"
    by (cases na) simp
  have t1: "(if length (nt_zones t) \<le> nt_zoneIndex t then t\<lparr>nt_zoneIndex := 0\<rparr> else t) = t\<lparr>nt_zoneIndex := i\<rparr>"
    using i(2) by simp
  have "nt_next_loop k t =
      (if exhausted t z then
         let t2 = t\<lparr>nt_zoneIndex := Suc i\<rparr> in
         nt_next_loop (Suc k) (if length (nt_zones t) \<le> Suc k then nt_resetExhausted t2 else t2)
       else Some (Inr (zone_nodes t z ! zone_index t z,
              t\<lparr>nt_zoneIndex := Suc i,
                nt_tree := AList.update z \<lparr>na_nodes = zone_nodes t z, na_lastIndex = Suc (zone_index t z)\<rparr> (nt_tree t)\<rparr>)))"
    by (subst nt_next_loop.simps)
       (simp add: t1 i(1) na na_next_def upd ne ex Let_def zone_nodes_def zone_index_def update_triv)
  then show thesis using i(3) that by blast
qed

lemma zone_index_Suc [simp]: "zone_index (t\<lparr>nt_zoneIndex := i\<rparr>) z = zone_index t z"
  "zone_nodes (t\<lparr>nt_zoneIndex := i\<rparr>) z = zone_nodes t z" "exhausted (t\<lparr>nt_zoneIndex := i\<rparr>) z = exhausted t z"
  by (simp_all add: zone_index_def zone_nodes_def exhausted_def)

lemma same_nodes_zoneIndex [simp]: "same_nodes t (t\<lparr>nt_zoneIndex := i\<rparr>)"
  by (simp add: same_nodes_def)

lemma same_nodes_trans: "same_nodes t t' \<Longrightarrow> same_nodes t' t'' \<Longrightarrow> same_nodes t t''"
  by (simp add: same_nodes_def)

lemma map_of_reset [simp]:
  "map_of (map (\<lambda>(z, na). (z, na\<lparr>na_lastIndex := 0\<rparr>)) l) z = map_option (\<lambda>na. na\<lparr>na_lastIndex := 0\<rparr>) (map_of l z)"
  by (induction l) auto

lemma zone_reset [simp]: "zone_nodes (nt_resetExhausted t) z = zone_nodes t z" "zone_index (nt_resetExhausted t) z = 0"
  "nt_zones (nt_resetExhausted t) = nt_zones t"
  by (simp_all add: zone_nodes_def zone_index_def nt_resetExhausted_def split: option.split)

lemma same_nodes_reset [simp]: "same_nodes t (nt_resetExhausted t)"
  unfolding same_nodes_def by (auto simp: nt_resetExhausted_def zone_nodes_def split: option.split)

lemma view_reset: "view (nt_resetExhausted t) = nt_zones t"
  by (simp add: view_def nt_resetExhausted_def)

lemma loop_returns:
  assumes "tree_inv t" "view t = zs1 @ z # zs2" "\<forall>y \<in> set zs1. exhausted t y" "\<not> exhausted t z"
    and "zs1 \<noteq> [] \<Longrightarrow> k + length zs1 < length (nt_zones t)"
  shows "\<exists>t'. nt_next_loop k t = Some (Inr (zone_nodes t z ! zone_index t z, t')) \<and> same_nodes t t' \<and>
    (\<forall>y. zone_index t' y = (if y = z then Suc (zone_index t z) else zone_index t y))"
  using assms
proof (induction zs1 arbitrary: t k zs2)
  case Nil
  have "z \<in> set (view t)" using Nil.prems(2) by simp
  then have "z \<in> dom (map_of (nt_tree t))" using Nil.prems(1) by (auto simp: view_def Let_def tree_inv_def)
  then obtain na where na: "map_of (nt_tree t) z = Some na" by blast
  have view: "view t = z # zs2" using Nil.prems(2) by simp
  obtain i where "nt_next_loop k t = Some (Inr (zone_nodes t z ! zone_index t z,
      t\<lparr>nt_zoneIndex := Suc i,
        nt_tree := AList.update z \<lparr>na_nodes = zone_nodes t z, na_lastIndex = Suc (zone_index t z)\<rparr> (nt_tree t)\<rparr>))"
    using loop_step [OF Nil.prems(1) view, of k] Nil.prems(4) by auto
  then show ?case
    by (auto simp: same_nodes_def zone_nodes_def zone_index_def na)
next
  case (Cons y zs1)
  have view: "view t = y # (zs1 @ z # zs2)" using Cons.prems(2) by simp
  obtain i where step: "nt_next_loop k t = nt_next_loop (Suc k) (t\<lparr>nt_zoneIndex := Suc i\<rparr>)"
    and v: "view (t\<lparr>nt_zoneIndex := Suc i\<rparr>) = zs1 @ z # (zs2 @ [y])"
    using loop_step [OF Cons.prems(1) view, of k] Cons.prems(3,5) by (auto simp: Let_def split: if_splits)
  have "tree_inv (t\<lparr>nt_zoneIndex := Suc i\<rparr>)" using same_nodes_inv [OF same_nodes_zoneIndex Cons.prems(1)] .
  from Cons.IH [OF this v, of "Suc k"] Cons.prems(3-5)
  show ?case by (auto simp: step intro: same_nodes_trans [OF same_nodes_zoneIndex])
qed

lemma loop_resets:
  assumes "tree_inv t" "nt_zones t \<noteq> []" "\<forall>z \<in> set (nt_zones t). exhausted t z" "k < length (nt_zones t)"
  shows "nt_next_loop k t = nt_next_loop (length (nt_zones t)) (nt_resetExhausted t)"
  using assms
proof (induction "length (nt_zones t) - k" arbitrary: t k)
  case (Suc d)
  have "view t \<noteq> []" using Suc.prems(2) by (simp add: view_def Let_def)
  then obtain z zs where view: "view t = z # zs" by (auto simp: neq_Nil_conv)
  have "z \<in> set (view t)" using view by simp
  then have "exhausted t z" using Suc.prems(3) by (simp add: view_def Let_def)
  then obtain i where step: "nt_next_loop k t = nt_next_loop (Suc k)
      (if length (nt_zones t) \<le> Suc k then nt_resetExhausted (t\<lparr>nt_zoneIndex := Suc i\<rparr>) else t\<lparr>nt_zoneIndex := Suc i\<rparr>)"
    using loop_step [OF Suc.prems(1) view, of k] by (auto simp: Let_def)
  have r: "nt_resetExhausted (t\<lparr>nt_zoneIndex := Suc i\<rparr>) = nt_resetExhausted t" by (simp add: nt_resetExhausted_def)
  show ?case
  proof (cases "length (nt_zones t) \<le> Suc k")
    case True
    then have "Suc k = length (nt_zones t)" using Suc.prems(4) by simp
    then show ?thesis by (simp add: step r)
  next
    case False
    have "tree_inv (t\<lparr>nt_zoneIndex := Suc i\<rparr>)" using same_nodes_inv [OF same_nodes_zoneIndex Suc.prems(1)] .
    then show ?thesis using Suc.hyps(1) [of "t\<lparr>nt_zoneIndex := Suc i\<rparr>" "Suc k"] Suc.hyps(2) Suc.prems False
      by (simp add: step r)
  qed
qed simp

subsection \<open>A round returns every node once\<close>

definition zsum :: "string list \<Rightarrow> (string \<Rightarrow> string list) \<Rightarrow> string multiset" where
  "zsum zs f = \<Sum>\<^sub># (mset (map (\<lambda>z. mset (f z)) zs))"

lemma zsum_simps [simp]: "zsum [] f = {#}" "zsum (z # zs) f = mset (f z) + zsum zs f"
  by (simp_all add: zsum_def)

lemma zsum_cong: "(\<And>z. z \<in> set zs \<Longrightarrow> f z = g z) \<Longrightarrow> zsum zs f = zsum zs g"
  by (induction zs) auto

lemma zsum_empty: "zsum zs f = {#} \<longleftrightarrow> (\<forall>z \<in> set zs. f z = [])"
  by (induction zs) auto

lemma zsum_one:
  assumes "distinct zs" "z \<in> set zs" "f z = x # g z" "\<And>y. y \<noteq> z \<Longrightarrow> f y = g y"
  shows "zsum zs f = add_mset x (zsum zs g)"
  using assms
proof (induction zs)
  case (Cons y zs)
  show ?case
  proof (cases "y = z")
    case True
    then have "zsum zs f = zsum zs g" using Cons.prems(1) by (intro zsum_cong Cons.prems(4)) auto
    then show ?thesis using True Cons.prems by simp
  next
    case False
    then show ?thesis using Cons by auto
  qed
qed simp

lemma all_nodes_zsum: "all_nodes t = zsum (nt_zones t) (zone_nodes t)"
  and remaining_zsum: "remaining t = zsum (nt_zones t) (\<lambda>z. drop (zone_index t z) (zone_nodes t z))"
  by (simp_all add: all_nodes_def remaining_def zsum_def)

lemma size_all_nodes: "tree_inv t \<Longrightarrow> int (size (all_nodes t)) = nt_numNodes t"
proof -
  have "size (zsum zs f) = sum_list (map (\<lambda>z. length (f z)) zs)" for zs and f :: "string \<Rightarrow> string list"
    by (induction zs) auto
  then show "tree_inv t \<Longrightarrow> ?thesis" by (simp add: all_nodes_zsum tree_inv_def)
qed

lemma remaining_reset [simp]: "remaining (nt_resetExhausted t) = all_nodes t"
  by (simp add: remaining_zsum all_nodes_zsum)

lemma remaining_empty: "remaining t = {#} \<longleftrightarrow> (\<forall>z \<in> set (nt_zones t). exhausted t z)"
  by (simp add: remaining_zsum zsum_empty exhausted_def)

lemma all_nodes_empty: "tree_inv t \<Longrightarrow> all_nodes t = {#} \<longleftrightarrow> nt_zones t = []"
proof -
  assume "tree_inv t"
  then have "\<forall>z \<in> set (nt_zones t). zone_nodes t z \<noteq> []" by (simp add: tree_inv_def)
  then show ?thesis unfolding all_nodes_zsum zsum_empty by (cases "nt_zones t") auto
qed

text \<open>The nodes that \<open>next\<close> picks from: those left of the round, all of them when none is left.\<close>

definition upcoming :: "node_tree \<Rightarrow> string multiset" where
  "upcoming t = (if remaining t = {#} then all_nodes t else remaining t)"

lemma loop_remaining:
  assumes "tree_inv t" "remaining t \<noteq> {#}" "k = 0 \<or> \<not> exhausted t (hd (view t))" "nt_zones t \<noteq> []"
  shows "\<exists>x t'. nt_next_loop k t = Some (Inr (x, t')) \<and> same_nodes t t' \<and> remaining t = add_mset x (remaining t')"
proof -
  have sv: "set (view t) = set (nt_zones t)" and lv: "length (view t) = length (nt_zones t)" by (simp_all add: view_def Let_def)
  have ne: "view t \<noteq> []" using assms(4) lv by auto
  obtain z where z: "z \<in> set (view t)" "\<not> exhausted t z" using assms(2) unfolding remaining_empty sv by blast
  then obtain zs1 y zs2 where split: "view t = zs1 @ y # zs2" "\<not> exhausted t y" "\<forall>x \<in> set zs1. exhausted t x"
    using split_list_first_prop [of "view t" "\<lambda>z. \<not> exhausted t z"] by blast
  have "k + length zs1 < length (nt_zones t)" if "zs1 \<noteq> []"
    using assms(3) split ne that lv [symmetric] by (cases zs1) auto
  from loop_returns [OF assms(1) split(1,3,2) this] obtain t' where t':
    "nt_next_loop k t = Some (Inr (zone_nodes t y ! zone_index t y, t'))" "same_nodes t t'"
    "\<forall>x. zone_index t' x = (if x = y then Suc (zone_index t y) else zone_index t x)" by blast
  have y: "y \<in> set (nt_zones t)" "distinct (nt_zones t)" using split(1) sv assms(1) by (auto simp: tree_inv_def)
  have "remaining t = add_mset (zone_nodes t y ! zone_index t y) (remaining t')"
    using t'(2,3) split(2) y unfolding remaining_zsum
    by (simp add: same_nodes_def, intro zsum_one [OF y(2,1)]) (auto simp: exhausted_def Cons_nth_drop_Suc)
  then show ?thesis using t'(1,2) by blast
qed

lemma nt_next_upcoming:
  assumes "tree_inv t" "nt_zones t \<noteq> []"
  shows "\<exists>x t'. nt_next t = Some (Inr (x, t')) \<and> same_nodes t t' \<and> upcoming t = add_mset x (remaining t')"
proof (cases "remaining t = {#}")
  case False
  then show ?thesis using loop_remaining [OF assms(1) False _ assms(2), of 0] assms(2)
    by (simp add: nt_next_def upcoming_def)
next
  case True
  let ?r = "nt_resetExhausted t"
  have inv: "tree_inv ?r" using same_nodes_inv [OF same_nodes_reset assms(1)] .
  have "all_nodes t \<noteq> {#}" using assms all_nodes_empty by blast
  moreover have "\<not> exhausted ?r (hd (view ?r))"
    using inv assms(2) by (auto simp: view_reset exhausted_def tree_inv_def)
  ultimately obtain x t' where "nt_next_loop (length (nt_zones t)) ?r = Some (Inr (x, t'))" "same_nodes ?r t'"
    "all_nodes t = add_mset x (remaining t')"
    using loop_remaining [OF inv, of "length (nt_zones t)"] assms(2) by auto
  moreover have "nt_next_loop 0 t = nt_next_loop (length (nt_zones t)) ?r"
    using loop_resets [OF assms] True assms(2) by (simp add: remaining_empty)
  ultimately show ?thesis using assms(2) True
    by (auto simp: nt_next_def upcoming_def intro: same_nodes_trans [OF same_nodes_reset])
qed

lemma nt_take_remaining:
  assumes "tree_inv t" "n \<le> size (remaining t)"
  shows "\<exists>xs t'. nt_take n t = Some (Inr (xs, t')) \<and> same_nodes t t' \<and> remaining t = mset xs + remaining t' \<and> length xs = n"
  using assms
proof (induction n arbitrary: t)
  case (Suc n)
  then have "remaining t \<noteq> {#}" by auto
  then have "nt_zones t \<noteq> []" by (auto simp: remaining_zsum)
  with nt_next_upcoming [OF Suc.prems(1)] obtain x t1 where
    n: "nt_next t = Some (Inr (x, t1))" "same_nodes t t1" "remaining t = add_mset x (remaining t1)"
    using \<open>remaining t \<noteq> {#}\<close> by (auto simp: upcoming_def)
  then have "n \<le> size (remaining t1)" using Suc.prems(2) by simp
  from Suc.IH [OF same_nodes_inv [OF n(2) Suc.prems(1)] this] obtain xs t' where
    "nt_take n t1 = Some (Inr (xs, t'))" "same_nodes t1 t'" "remaining t1 = mset xs + remaining t'" "length xs = n" by blast
  then show ?case using n by (auto intro: same_nodes_trans)
qed (simp add: same_nodes_def)

lemma take_all_nodes:
  assumes "tree_inv t" "remaining t = {#} \<or> remaining t = all_nodes t"
  shows "\<exists>xs t'. nt_take (nat (nt_numNodes t)) t = Some (Inr (xs, t')) \<and> mset xs = all_nodes t \<and>
    tree_inv t' \<and> all_nodes t' = all_nodes t \<and> remaining t' = {#}"
proof (cases "nt_zones t = []")
  case True
  then show ?thesis using assms by (simp add: tree_inv_def all_nodes_zsum remaining_zsum)
next
  case False
  have up: "upcoming t = all_nodes t" using assms(2) by (auto simp: upcoming_def)
  obtain x t1 where n: "nt_next t = Some (Inr (x, t1))" "same_nodes t t1" "all_nodes t = add_mset x (remaining t1)"
    using nt_next_upcoming [OF assms(1) False] by (auto simp: up)
  have num: "nat (nt_numNodes t) = Suc (size (remaining t1))"
    using size_all_nodes [OF assms(1)] n(3) by simp
  obtain xs t' where xs: "nt_take (size (remaining t1)) t1 = Some (Inr (xs, t'))" "same_nodes t1 t'"
    "remaining t1 = mset xs + remaining t'" "length xs = size (remaining t1)"
    using nt_take_remaining [OF same_nodes_inv [OF n(2) assms(1)] order_refl] by blast
  have "size (remaining t1) = size (remaining t1) + size (remaining t')"
    using arg_cong [OF xs(3), of size] unfolding size_union size_mset xs(4) .
  then have "remaining t' = {#}" by simp
  then have "mset (x # xs) = all_nodes t" using n(3) xs(3) by simp
  moreover have "nt_take (nat (nt_numNodes t)) t = Some (Inr (x # xs, t'))" by (simp add: num n(1) xs(1))
  moreover have same: "same_nodes t t'" using same_nodes_trans [OF n(2) xs(2)] .
  ultimately show ?thesis
    using same_nodes_inv [OF same assms(1)] same_nodes_all [OF same] \<open>remaining t' = {#}\<close> by blast
qed

text \<open>
  C32: Enumerating the tree terminates, never panics, and returns every node exactly once, when as many
  nodes are taken as the tree has and the previous enumeration was finished (or the tree was reset);
  the tree is left with its nodes and again at the end of an enumeration.
\<close>

theorem enumeration_visits_all_nodes:
  assumes "tree_inv t" "remaining t = {#} \<or> remaining t = all_nodes t"
  shows "\<exists>xs t'. nt_take (nat (nt_numNodes t)) t = Some (Inr (xs, t')) \<and> mset xs = all_nodes t \<and>
    tree_inv t' \<and> all_nodes t' = all_nodes t \<and> remaining t' = {#}"
  using take_all_nodes [OF assms] .

subsection \<open>Adding and removing nodes\<close>

lemma sum_list_change:
  fixes f :: "string \<Rightarrow> nat"
  assumes "distinct zs" "z \<in> set zs"
  shows "int (sum_list (map (\<lambda>y. if y = z then a else f y) zs)) = int (sum_list (map f zs)) + int a - int (f z)"
proof -
  have "sum f (set zs) = f z + sum f (set zs - {z})" using assms(2) by (simp add: sum.remove)
  moreover have "sum (\<lambda>y. if y = z then a else f y) (set zs) = a + sum (\<lambda>y. if y = z then a else f y) (set zs - {z})"
    using assms(2) by (simp add: sum.remove)
  moreover have "sum (\<lambda>y. if y = z then a else f y) (set zs - {z}) = sum f (set zs - {z})" by (rule sum.cong) auto
  ultimately show ?thesis using assms(1) by (simp add: sum_list_distinct_conv_sum_set)
qed

lemma tree_inv_empty: "tree_inv empty_node_tree"
  by (simp add: tree_inv_def empty_node_tree_def)

lemma zone_nodes_dom: "tree_inv t \<Longrightarrow> map_of (nt_tree t) z = Some na \<Longrightarrow>
    z \<in> set (nt_zones t) \<and> zone_nodes t z = na_nodes na \<and> na_nodes na \<noteq> [] \<and> distinct (na_nodes na)"
proof -
  assume inv: "tree_inv t" and na: "map_of (nt_tree t) z = Some na"
  then have "z \<in> set (nt_zones t)" by (auto simp: tree_inv_def)
  moreover have "zone_nodes t z = na_nodes na" by (simp add: zone_nodes_def na)
  moreover have "zone_nodes t z \<noteq> [] \<and> distinct (zone_nodes t z)" using inv calculation(1) by (simp add: tree_inv_def)
  ultimately show ?thesis by simp
qed

lemma tree_inv_changed:
  assumes "tree_inv t" "z \<in> set (nt_zones t)" "ns \<noteq> []" "distinct ns"
    and "nt_zones t' = nt_zones t" "dom (map_of (nt_tree t')) = dom (map_of (nt_tree t))"
    and "zone_nodes t' = (\<lambda>y. if y = z then ns else zone_nodes t y)"
    and "nt_numNodes t' = nt_numNodes t + int (length ns) - int (length (zone_nodes t z))"
  shows "tree_inv t'"
  using assms(1-6,8) sum_list_change [of "nt_zones t" z "length ns" "\<lambda>z. length (zone_nodes t z)"]
  by (auto simp: tree_inv_def assms(7) if_distrib [of length] cong: if_cong)

lemma tree_inv_addNode: "tree_inv t \<Longrightarrow> tree_inv (nt_addNode n t)"
proof -
  assume inv: "tree_inv t"
  let ?z = "GetZoneKey n"
  show ?thesis
  proof (cases "map_of (nt_tree t) ?z")
    case None
    define t' where "t' = t\<lparr>nt_zones := nt_zones t @ [?z],
      nt_tree := AList.update ?z \<lparr>na_nodes = [n_Name n], na_lastIndex = 0\<rparr> (nt_tree t), nt_numNodes := nt_numNodes t + 1\<rparr>"
    have z: "?z \<notin> set (nt_zones t)" using inv None by (auto simp: tree_inv_def)
    have t': "nt_zones t' = nt_zones t @ [?z]" "dom (map_of (nt_tree t')) = insert ?z (dom (map_of (nt_tree t)))"
      "nt_numNodes t' = nt_numNodes t + 1" "zone_nodes t' y = (if y = ?z then [n_Name n] else zone_nodes t y)" for y
      by (auto simp: zone_nodes_def t'_def)
    have "sum_list (map (\<lambda>y. length (zone_nodes t' y)) (nt_zones t)) = sum_list (map (\<lambda>y. length (zone_nodes t y)) (nt_zones t))"
      using z by (intro arg_cong [where f = sum_list] map_cong) (auto simp: t'(4))
    then have "nt_numNodes t' = int (sum_list (map (\<lambda>y. length (zone_nodes t' y)) (nt_zones t')))"
      using inv by (simp add: t'(1,3) t'(4) [of ?z] tree_inv_def)
    then have "tree_inv t'" using inv z unfolding tree_inv_def t'(1,2) by (auto simp: t'(4))
    then show ?thesis using None by (simp add: nt_addNode_def Let_def t'_def)
  next
    case (Some na)
    note z = zone_nodes_dom [OF inv Some]
    have "tree_inv (t\<lparr>nt_tree := AList.update ?z (na\<lparr>na_nodes := na_nodes na @ [n_Name n]\<rparr>) (nt_tree t), nt_numNodes := nt_numNodes t + 1\<rparr>)"
      if "n_Name n \<notin> set (na_nodes na)"
      by (rule tree_inv_changed [OF inv, where z = ?z and ns = "na_nodes na @ [n_Name n]"])
         (use z that Some in \<open>auto simp: zone_nodes_def fun_eq_iff\<close>)
    then show ?thesis using Some inv by (simp add: nt_addNode_def Let_def)
  qed
qed

lemma tree_inv_removeNode: "tree_inv t \<Longrightarrow> tree_inv (snd (nt_removeNode n t))"
proof -
  assume inv: "tree_inv t"
  let ?z = "GetZoneKey n"
  consider "map_of (nt_tree t) ?z = None" | na where "map_of (nt_tree t) ?z = Some na" "n_Name n \<notin> set (na_nodes na)"
    | na where "map_of (nt_tree t) ?z = Some na" "n_Name n \<in> set (na_nodes na)" by fastforce
  then show ?thesis
  proof cases
    case (3 na)
    note z = zone_nodes_dom [OF inv 3(1)]
    let ?ns = "remove1 (n_Name n) (na_nodes na)"
    have len: "length (na_nodes na) = Suc (length ?ns)" using 3(2) by (simp add: length_remove1) (cases "na_nodes na"; simp)
    let ?t' = "t\<lparr>nt_tree := AList.update ?z (na\<lparr>na_nodes := ?ns\<rparr>) (nt_tree t)\<rparr>"
    show ?thesis
    proof (cases "?ns = []")
      case keep: False
      have "tree_inv (?t'\<lparr>nt_numNodes := nt_numNodes t - 1\<rparr>)"
        by (rule tree_inv_changed [OF inv, where z = ?z and ns = ?ns])
           (use z keep 3(1) len in \<open>auto simp: zone_nodes_def fun_eq_iff distinct_remove1\<close>)
      then show ?thesis using keep 3 by (simp add: nt_removeNode_def Let_def)
    next
      case gone: True
      define u where "u = (nt_removeZone ?z ?t')\<lparr>nt_numNodes := nt_numNodes t - 1\<rparr>"
      have dz: "distinct (nt_zones t)" using inv by (simp add: tree_inv_def)
      have u: "nt_zones u = remove1 ?z (nt_zones t)" "dom (map_of (nt_tree u)) = dom (map_of (nt_tree t)) - {?z}"
        "nt_numNodes u = nt_numNodes t - 1" "zone_nodes u y = (if y = ?z then [] else zone_nodes t y)" for y
        by (auto simp: zone_nodes_def nt_removeZone_def delete_conv' u_def)
      have "sum_list (map (\<lambda>y. length (zone_nodes t y)) (nt_zones t)) =
          length (zone_nodes t ?z) + sum_list (map (\<lambda>y. length (zone_nodes t y)) (remove1 ?z (nt_zones t)))"
        using z by (intro sum_list_map_remove1) simp
      moreover have "sum_list (map (\<lambda>y. length (zone_nodes u y)) (remove1 ?z (nt_zones t))) =
          sum_list (map (\<lambda>y. length (zone_nodes t y)) (remove1 ?z (nt_zones t)))"
        using dz by (intro arg_cong [where f = sum_list] map_cong) (auto simp: u(4))
      ultimately have "nt_numNodes u = int (sum_list (map (\<lambda>y. length (zone_nodes u y)) (nt_zones u)))"
        using inv z gone len by (simp add: u(1,3) tree_inv_def)
      then have "tree_inv u" using inv z dz unfolding tree_inv_def u(1,2) by (simp add: u(4))
      then show ?thesis using gone 3 by (simp add: nt_removeNode_def Let_def nt_removeZone_def u_def)
    qed
  qed (use inv in \<open>simp_all add: nt_removeNode_def\<close>)
qed

text \<open>
  C33: Adding and removing nodes, and updating a node that was known before, keep the tree well formed:
  its zones are distinct and non-empty, no zone holds a node twice, and \<open>numNodes\<close> counts the nodes.
\<close>

theorem tree_stays_well_formed:
  "tree_inv (newNodeTree nodes) \<and>
   (tree_inv t \<longrightarrow> tree_inv (nt_addNode n t) \<and> tree_inv (snd (nt_removeNode n t)) \<and>
      (\<exists>t'. nt_updateNode (Some old) n t = Inr t' \<and> tree_inv t'))"
proof -
  have "tree_inv (newNodeTree nodes)"
    unfolding newNodeTree_def by (rule foldl_inv [where P = tree_inv]) (simp_all add: tree_inv_addNode tree_inv_empty)
  then show ?thesis by (auto simp: nt_updateNode_def tree_inv_addNode tree_inv_removeNode)
qed

subsection \<open>An unfinished enumeration\<close>

definition zoned :: "string \<Rightarrow> string \<Rightarrow> node" where
  "zoned name zone = (slo_node 0)\<lparr>n_Name := name, n_Labels := [(''topology.kubernetes.io/zone'', zone)]\<rparr>"

lemma zoned_simps [simp]:
  "n_Name (zoned n z) = n" "GetZoneKey (zoned n z) = (if z = [] then [] else '':'' @ [CHR 0x00] @ '':'' @ z)"
  by (simp_all add: zoned_def GetZoneKey_def slo_node_def)

definition two_zones :: node_tree where
  "two_zones = newNodeTree [zoned ''a1'' ''A'', zoned ''a2'' ''A'', zoned ''a3'' ''A'', zoned ''b1'' ''B'']"

lemma two_zones: "two_zones =
  \<lparr>nt_tree = [('':'' @ [CHR 0x00] @ '':A'', \<lparr>na_nodes = [''a1'', ''a2'', ''a3''], na_lastIndex = 0\<rparr>),
              ('':'' @ [CHR 0x00] @ '':B'', \<lparr>na_nodes = [''b1''], na_lastIndex = 0\<rparr>)],
   nt_zones = ['':'' @ [CHR 0x00] @ '':A'', '':'' @ [CHR 0x00] @ '':B''], nt_zoneIndex = 0, nt_numNodes = 4\<rparr>"
  by (simp add: two_zones_def newNodeTree_def nt_addNode_def empty_node_tree_def Let_def)

text \<open>
  A finished enumeration is not a reset tree: when a node in a new zone arrives after the nodes of
  the tree were enumerated, the next enumeration of as many nodes as the tree has starts with the
  new node, begins a new round and returns it again, so that another node is missing.
\<close>

theorem new_zone_hides_a_node:
  "\<exists>t t'. nt_take 4 two_zones = Some (Inr ([''a1'', ''b1'', ''a2'', ''a3''], t)) \<and>
     nt_numNodes (nt_addNode (zoned ''c1'' ''C'') t) = 5 \<and>
     nt_take 5 (nt_addNode (zoned ''c1'' ''C'') t) = Some (Inr ([''c1'', ''a1'', ''b1'', ''c1'', ''a2''], t'))"
  by (simp add: two_zones eval_nat_numeral nt_next_def nt_next_loop.simps na_next_def nt_addNode_def nt_resetExhausted_def Let_def)

lemma two_zones_fresh: "tree_inv two_zones" "remaining two_zones = all_nodes two_zones"
  by (simp_all add: two_zones tree_inv_def zone_nodes_def all_nodes_zsum remaining_zsum zone_index_def)

theorem enumeration_visits_all_nodes_witness:
  "\<exists>xs t'. nt_take (nat (nt_numNodes two_zones)) two_zones = Some (Inr (xs, t')) \<and> mset xs = {#''a1'', ''a2'', ''a3'', ''b1''#}"
  using enumeration_visits_all_nodes [OF two_zones_fresh(1)] two_zones_fresh(2)
  by (auto simp: all_nodes_zsum two_zones zone_nodes_def)

theorem tree_stays_well_formed_witness:
  "tree_inv (nt_addNode (zoned ''c1'' ''C'') two_zones) \<and>
   (\<exists>t'. nt_updateNode (Some (zoned ''b1'' ''B'')) (zoned ''b1'' ''C'') two_zones = Inr t' \<and> tree_inv t')"
  using tree_stays_well_formed [of "[]" two_zones "zoned ''c1'' ''C''"]
    tree_stays_well_formed [of "[]" two_zones "zoned ''b1'' ''C''" "zoned ''b1'' ''B''"] two_zones_fresh(1) by blast

end
