(* ===== verification/SchedCache.thy ===== *)
theory SchedCache
  imports NodeTree
begin

section \<open>The cache of the scheduler\<close>

text \<open>
  \<open>schedulerCache\<close> of \<open>pkg/scheduler/internal/cache/cache.go\<close>: the pods that are assumed or added and
  the nodes with what is requested of them, kept in a doubly linked list with the most recently
  changed node at its head.  An item of the list is named by its key in \<open>nodes\<close>, which is where its
  cell is; pointers between items are names.  The mutex makes every operation one step.  Times are
  nanoseconds; \<open>klog.Fatalf\<close> ends the process and is a panic here.
\<close>

subsection \<open>State\<close>

record cell =
  ce_info :: node_info
  ce_next :: "string option"
  ce_prev :: "string option"

record pod_state =
  ps_pod :: pod
  ps_deadline :: "int option"
  ps_bindingFinished :: bool

record image_state =
  im_size :: int
  im_nodes :: "string list"

record sched_cache =
  sc_ttl :: int
  sc_assumedPods :: "(string \<times> bool) list"
  sc_podStates :: "(string \<times> pod_state) list"
  sc_nodes :: "(string \<times> cell) list"
  sc_headNode :: "string option"
  sc_nodeTree :: node_tree
  sc_imageStates :: "(string \<times> image_state) list"
  sc_generation :: int

datatype cache_error =
  EmptyUID | InCache string | AssumedOn string | NotAssumed string | AlreadyAdded string | NotAdded string
  | InfoError node_info_error | NodeMissing string | NotInTree string

type_synonym cache_result = "go_panic + (cache_error option \<times> sched_cache)"

definition newSchedulerCache :: "int \<Rightarrow> int \<Rightarrow> sched_cache" where
  "newSchedulerCache ttl gen =
     \<lparr>sc_ttl = ttl, sc_assumedPods = [], sc_podStates = [], sc_nodes = [], sc_headNode = None,
      sc_nodeTree = newNodeTree [], sc_imageStates = [], sc_generation = gen\<rparr>"

definition assumed :: "sched_cache \<Rightarrow> string \<Rightarrow> bool" where
  "assumed s k = (case map_of (sc_assumedPods s) k of Some b \<Rightarrow> b | None \<Rightarrow> False)"

subsection \<open>The list of node infos\<close>

definition upd_cell :: "string \<Rightarrow> (cell \<Rightarrow> cell) \<Rightarrow> sched_cache \<Rightarrow> sched_cache" where
  "upd_cell name f s = s\<lparr>sc_nodes := AList.map_entry name f (sc_nodes s)\<rparr>"

definition unlink :: "cell \<Rightarrow> sched_cache \<Rightarrow> sched_cache" where
  "unlink ni s =
     (let s1 = (case ce_prev ni of Some p \<Rightarrow> upd_cell p (\<lambda>c. c\<lparr>ce_next := ce_next ni\<rparr>) s | None \<Rightarrow> s)
      in case ce_next ni of Some n \<Rightarrow> upd_cell n (\<lambda>c. c\<lparr>ce_prev := ce_prev ni\<rparr>) s1 | None \<Rightarrow> s1)"

definition moveNodeInfoToHead :: "string \<Rightarrow> sched_cache \<Rightarrow> sched_cache" where
  "moveNodeInfoToHead name s =
     (case map_of (sc_nodes s) name of
        None \<Rightarrow> s
      | Some ni \<Rightarrow>
          if sc_headNode s = Some name then s
          else
            let s1 = unlink ni s;
                s2 = (case sc_headNode s1 of Some h \<Rightarrow> upd_cell h (\<lambda>c. c\<lparr>ce_prev := Some name\<rparr>) s1 | None \<Rightarrow> s1);
                s3 = upd_cell name (\<lambda>c. c\<lparr>ce_next := sc_headNode s2, ce_prev := None\<rparr>) s2
            in s3\<lparr>sc_headNode := Some name\<rparr>)"

definition removeNodeInfoFromList :: "string \<Rightarrow> sched_cache \<Rightarrow> sched_cache" where
  "removeNodeInfoFromList name s =
     (case map_of (sc_nodes s) name of
        None \<Rightarrow> s
      | Some ni \<Rightarrow>
          let s1 = unlink ni s;
              s2 = (if sc_headNode s1 = Some name then s1\<lparr>sc_headNode := ce_next ni\<rparr> else s1)
          in s2\<lparr>sc_nodes := AList.delete name (sc_nodes s2)\<rparr>)"

definition new_cell :: "sched_gates \<Rightarrow> string \<Rightarrow> sched_cache \<Rightarrow> sched_cache" where
  "new_cell g name s =
     (case NewNodeInfo g [] (sc_generation s) of
        (gen, info) \<Rightarrow>
          s\<lparr>sc_generation := gen, sc_nodes := AList.update name \<lparr>ce_info = info, ce_next = None, ce_prev = None\<rparr> (sc_nodes s)\<rparr>)"

text \<open>An operation of \<open>NodeInfo\<close> on the info of a node, with the global generation.\<close>

definition on_info :: "string \<Rightarrow> (int \<times> node_info \<Rightarrow> int \<times> node_info) \<Rightarrow> sched_cache \<Rightarrow> sched_cache" where
  "on_info name f s =
     (case map_of (sc_nodes s) name of
        None \<Rightarrow> s
      | Some c \<Rightarrow>
          (case f (sc_generation s, ce_info c) of
             (gen, info) \<Rightarrow> upd_cell name (\<lambda>c. c\<lparr>ce_info := info\<rparr>) (s\<lparr>sc_generation := gen\<rparr>)))"

subsection \<open>Pods\<close>

definition addPod :: "sched_gates \<Rightarrow> pod \<Rightarrow> sched_cache \<Rightarrow> sched_cache" where
  "addPod g pod s =
     (let name = p_NodeName pod;
          s1 = (case map_of (sc_nodes s) name of None \<Rightarrow> new_cell g name s | Some _ \<Rightarrow> s)
      in moveNodeInfoToHead name (on_info name (ni_AddPod g pod) s1))"

definition removePod :: "sched_gates \<Rightarrow> pod \<Rightarrow> sched_cache \<Rightarrow> cache_result" where
  "removePod g pod s =
     (let name = p_NodeName pod in
      case map_of (sc_nodes s) name of
        None \<Rightarrow> Inr (None, s)
      | Some c \<Rightarrow>
          (case ni_RemovePod g pod (sc_generation s, ce_info c) of
             Inl p \<Rightarrow> Inl p
           | Inr (e, gen, info) \<Rightarrow>
               let s1 = upd_cell name (\<lambda>c. c\<lparr>ce_info := info\<rparr>) (s\<lparr>sc_generation := gen\<rparr>) in
               (case e of
                  Some err \<Rightarrow> Inr (Some (InfoError err), s1)
                | None \<Rightarrow> Inr (None, moveNodeInfoToHead name s1))))"

definition updatePod :: "sched_gates \<Rightarrow> pod \<Rightarrow> pod \<Rightarrow> sched_cache \<Rightarrow> cache_result" where
  "updatePod g oldPod newPod s =
     (case map_of (sc_nodes s) (p_NodeName newPod) of
        None \<Rightarrow> Inr (None, s)
      | Some _ \<Rightarrow>
          (case removePod g oldPod s of
             Inl p \<Rightarrow> Inl p
           | Inr (Some e, s1) \<Rightarrow> Inr (Some e, s1)
           | Inr (None, s1) \<Rightarrow> Inr (None, addPod g newPod s1)))"

definition new_state :: "pod \<Rightarrow> pod_state" where
  "new_state pod = \<lparr>ps_pod = pod, ps_deadline = None, ps_bindingFinished = False\<rparr>"

definition AssumePod :: "sched_gates \<Rightarrow> pod \<Rightarrow> sched_cache \<Rightarrow> cache_result" where
  "AssumePod g pod s =
     (case GetPodKey pod of
        None \<Rightarrow> Inr (Some EmptyUID, s)
      | Some key \<Rightarrow>
          if map_of (sc_podStates s) key \<noteq> None then Inr (Some (InCache key), s)
          else
            let s1 = addPod g pod s in
            Inr (None, s1\<lparr>sc_podStates := AList.update key (new_state pod) (sc_podStates s1),
                         sc_assumedPods := AList.update key True (sc_assumedPods s1)\<rparr>))"

definition finishBinding :: "pod \<Rightarrow> int \<Rightarrow> sched_cache \<Rightarrow> cache_result" where
  "finishBinding pod now s =
     (case GetPodKey pod of
        None \<Rightarrow> Inr (Some EmptyUID, s)
      | Some key \<Rightarrow>
          (case map_of (sc_podStates s) key of
             Some st \<Rightarrow>
               if assumed s key then
                 Inr (None, s\<lparr>sc_podStates := AList.update key
                   (st\<lparr>ps_bindingFinished := True, ps_deadline := Some (now + sc_ttl s)\<rparr>) (sc_podStates s)\<rparr>)
               else Inr (None, s)
           | None \<Rightarrow> Inr (None, s)))"

definition drop_pod :: "string \<Rightarrow> sched_cache \<Rightarrow> sched_cache" where
  "drop_pod key s = s\<lparr>sc_assumedPods := AList.delete key (sc_assumedPods s), sc_podStates := AList.delete key (sc_podStates s)\<rparr>"

definition ForgetPod :: "sched_gates \<Rightarrow> pod \<Rightarrow> sched_cache \<Rightarrow> cache_result" where
  "ForgetPod g pod s =
     (case GetPodKey pod of
        None \<Rightarrow> Inr (Some EmptyUID, s)
      | Some key \<Rightarrow>
          (case map_of (sc_podStates s) key of
             None \<Rightarrow> Inr (Some (NotAssumed key), s)
           | Some st \<Rightarrow>
               if p_NodeName (ps_pod st) \<noteq> p_NodeName pod then Inr (Some (AssumedOn key), s)
               else if assumed s key then
                 (case removePod g pod s of
                    Inl p \<Rightarrow> Inl p
                  | Inr (Some e, s1) \<Rightarrow> Inr (Some e, s1)
                  | Inr (None, s1) \<Rightarrow> Inr (None, drop_pod key s1))
               else Inr (Some (NotAssumed key), s)))"

definition cache_AddPod :: "sched_gates \<Rightarrow> pod \<Rightarrow> sched_cache \<Rightarrow> cache_result" where
  "cache_AddPod g pod s =
     (case GetPodKey pod of
        None \<Rightarrow> Inr (Some EmptyUID, s)
      | Some key \<Rightarrow>
          (case map_of (sc_podStates s) key of
             None \<Rightarrow>
               let s1 = addPod g pod s in
               Inr (None, s1\<lparr>sc_podStates := AList.update key (new_state pod) (sc_podStates s1)\<rparr>)
           | Some st \<Rightarrow>
               if assumed s key then
                 let confirm = (\<lambda>s. s\<lparr>sc_assumedPods := AList.delete key (sc_assumedPods s),
                       sc_podStates := AList.map_entry key (\<lambda>st. st\<lparr>ps_deadline := None, ps_pod := pod\<rparr>) (sc_podStates s)\<rparr>) in
                 if p_NodeName (ps_pod st) \<noteq> p_NodeName pod then
                   (case removePod g (ps_pod st) s of
                      Inl p \<Rightarrow> Inl p
                    | Inr (_, s1) \<Rightarrow> Inr (None, confirm (addPod g pod s1)))
                 else Inr (None, confirm s)
               else Inr (Some (AlreadyAdded key), s)))"

definition corrupted :: go_panic where
  "corrupted = ExplicitPanic ''Schedulercache is corrupted and can badly affect scheduling decisions''"

definition cache_UpdatePod :: "sched_gates \<Rightarrow> pod \<Rightarrow> pod \<Rightarrow> sched_cache \<Rightarrow> cache_result" where
  "cache_UpdatePod g oldPod newPod s =
     (case GetPodKey oldPod of
        None \<Rightarrow> Inr (Some EmptyUID, s)
      | Some key \<Rightarrow>
          (case map_of (sc_podStates s) key of
             None \<Rightarrow> Inr (Some (NotAdded key), s)
           | Some st \<Rightarrow>
               if assumed s key then Inr (Some (NotAdded key), s)
               else if p_NodeName (ps_pod st) \<noteq> p_NodeName newPod then Inl corrupted
               else (case updatePod g oldPod newPod s of
                       Inl p \<Rightarrow> Inl p
                     | Inr (Some e, s1) \<Rightarrow> Inr (Some e, s1)
                     | Inr (None, s1) \<Rightarrow>
                         Inr (None, s1\<lparr>sc_podStates := AList.map_entry key (\<lambda>st. st\<lparr>ps_pod := newPod\<rparr>) (sc_podStates s1)\<rparr>))))"

definition cache_RemovePod :: "sched_gates \<Rightarrow> pod \<Rightarrow> sched_cache \<Rightarrow> cache_result" where
  "cache_RemovePod g pod s =
     (case GetPodKey pod of
        None \<Rightarrow> Inr (Some EmptyUID, s)
      | Some key \<Rightarrow>
          (case map_of (sc_podStates s) key of
             None \<Rightarrow> Inr (Some (NotAdded key), s)
           | Some st \<Rightarrow>
               if assumed s key then Inr (Some (NotAdded key), s)
               else if p_NodeName (ps_pod st) \<noteq> p_NodeName pod then Inl corrupted
               else (case removePod g (ps_pod st) s of
                       Inl p \<Rightarrow> Inl p
                     | Inr (Some e, s1) \<Rightarrow> Inr (Some e, s1)
                     | Inr (None, s1) \<Rightarrow> Inr (None, s1\<lparr>sc_podStates := AList.delete key (sc_podStates s1)\<rparr>))))"

definition IsAssumedPod :: "pod \<Rightarrow> sched_cache \<Rightarrow> cache_error + bool" where
  "IsAssumedPod pod s = (case GetPodKey pod of None \<Rightarrow> Inl EmptyUID | Some key \<Rightarrow> Inr (assumed s key))"

definition cache_GetPod :: "pod \<Rightarrow> sched_cache \<Rightarrow> cache_error + pod" where
  "cache_GetPod pod s =
     (case GetPodKey pod of
        None \<Rightarrow> Inl EmptyUID
      | Some key \<Rightarrow>
          (case map_of (sc_podStates s) key of None \<Rightarrow> Inl (NotAdded key) | Some st \<Rightarrow> Inr (ps_pod st)))"

definition expirePod :: "sched_gates \<Rightarrow> string \<Rightarrow> pod_state \<Rightarrow> sched_cache \<Rightarrow> cache_result" where
  "expirePod g key st s =
     (case removePod g (ps_pod st) s of
        Inl p \<Rightarrow> Inl p
      | Inr (Some e, s1) \<Rightarrow> Inr (Some e, s1)
      | Inr (None, s1) \<Rightarrow> Inr (None, drop_pod key s1))"

text \<open>The loop over the assumed pods; their keys are collected before, since it only deletes its own.\<close>

fun cleanup_keys :: "sched_gates \<Rightarrow> int \<Rightarrow> string list \<Rightarrow> sched_cache \<Rightarrow> go_panic + sched_cache" where
  "cleanup_keys g now [] s = Inr s"
| "cleanup_keys g now (key # keys) s =
     (case map_of (sc_podStates s) key of
        None \<Rightarrow> Inl (ExplicitPanic ''Key found in assumed set but not in podStates. Potentially a logical error.'')
      | Some st \<Rightarrow>
          if \<not> ps_bindingFinished st then cleanup_keys g now keys s
          else
            (case ps_deadline st of
               None \<Rightarrow> Inl NilDereference
             | Some d \<Rightarrow>
                 if d < now then
                   (case expirePod g key st s of Inl p \<Rightarrow> Inl p | Inr (_, s1) \<Rightarrow> cleanup_keys g now keys s1)
                 else cleanup_keys g now keys s))"

definition cleanupAssumedPods :: "sched_gates \<Rightarrow> int \<Rightarrow> sched_cache \<Rightarrow> go_panic + sched_cache" where
  "cleanupAssumedPods g now s = cleanup_keys g now (map fst (sc_assumedPods s)) s"

subsection \<open>Nodes and their images\<close>

definition image_names :: "node \<Rightarrow> (string \<times> int) list" where
  "image_names nd = concat (map (\<lambda>(names, sz). map (\<lambda>n. (n, sz)) names) (n_Images nd))"

definition createImageStateSummary :: "image_state \<Rightarrow> image_summary" where
  "createImageStateSummary st = \<lparr>im_Size = im_size st, im_NumNodes = int (length (im_nodes st))\<rparr>"

text \<open>The states of the cache and the summary of the node; the sets of node names are distinct lists.\<close>

definition add_image :: "string \<Rightarrow> (string \<times> image_state) list \<times> (string \<times> image_summary) list \<Rightarrow> string \<times> int \<Rightarrow>
    (string \<times> image_state) list \<times> (string \<times> image_summary) list" where
  "add_image nodeName acc img =
     (case (acc, img) of ((states, newSum), (name, sz)) \<Rightarrow>
        let st = (case map_of states name of
                    None \<Rightarrow> \<lparr>im_size = sz, im_nodes = [nodeName]\<rparr>
                  | Some st \<Rightarrow> st\<lparr>im_nodes := List.insert nodeName (im_nodes st)\<rparr>)
        in (AList.update name st states,
            if map_of newSum name = None then AList.update name (createImageStateSummary st) newSum else newSum))"

definition addNodeImageStates :: "node \<Rightarrow> sched_cache \<Rightarrow> sched_cache" where
  "addNodeImageStates nd s =
     (case foldl (add_image (n_Name nd)) (sc_imageStates s, []) (image_names nd) of
        (states, newSum) \<Rightarrow>
          upd_cell (n_Name nd) (\<lambda>c. c\<lparr>ce_info := (ce_info c)\<lparr>ni_imageStates := newSum\<rparr>\<rparr>) (s\<lparr>sc_imageStates := states\<rparr>))"

definition remove_image :: "string \<Rightarrow> (string \<times> image_state) list \<Rightarrow> string \<times> int \<Rightarrow> (string \<times> image_state) list" where
  "remove_image nodeName states img =
     (case map_of states (fst img) of
        None \<Rightarrow> states
      | Some st \<Rightarrow>
          let ns = removeAll nodeName (im_nodes st) in
          if ns = [] then AList.delete (fst img) states
          else AList.update (fst img) (st\<lparr>im_nodes := ns\<rparr>) states)"

definition removeNodeImageStates :: "node option \<Rightarrow> sched_cache \<Rightarrow> sched_cache" where
  "removeNodeImageStates nd s =
     (case nd of
        None \<Rightarrow> s
      | Some n \<Rightarrow> s\<lparr>sc_imageStates := foldl (remove_image (n_Name n)) (sc_imageStates s) (image_names n)\<rparr>)"

definition cell_for_node :: "sched_gates \<Rightarrow> node \<Rightarrow> sched_cache \<Rightarrow> sched_cache" where
  "cell_for_node g nd s =
     (case map_of (sc_nodes s) (n_Name nd) of
        None \<Rightarrow> new_cell g (n_Name nd) s
      | Some c \<Rightarrow> removeNodeImageStates (ni_node (ce_info c)) s)"

definition AddNode :: "sched_gates \<Rightarrow> node \<Rightarrow> sched_cache \<Rightarrow> sched_cache" where
  "AddNode g nd s =
     (let s1 = moveNodeInfoToHead (n_Name nd) (cell_for_node g nd s);
          s2 = s1\<lparr>sc_nodeTree := nt_addNode nd (sc_nodeTree s1)\<rparr>
      in on_info (n_Name nd) (ni_SetNode g nd) (addNodeImageStates nd s2))"

definition UpdateNode :: "sched_gates \<Rightarrow> node option \<Rightarrow> node \<Rightarrow> sched_cache \<Rightarrow> go_panic + sched_cache" where
  "UpdateNode g oldNode nd s =
     (let s1 = (case map_of (sc_nodes s) (n_Name nd) of
                  None \<Rightarrow> (let s1 = cell_for_node g nd s in s1\<lparr>sc_nodeTree := nt_addNode nd (sc_nodeTree s1)\<rparr>)
                | Some _ \<Rightarrow> cell_for_node g nd s);
          s2 = moveNodeInfoToHead (n_Name nd) s1
      in case nt_updateNode oldNode nd (sc_nodeTree s2) of
           Inl p \<Rightarrow> Inl p
         | Inr t \<Rightarrow> Inr (on_info (n_Name nd) (ni_SetNode g nd) (addNodeImageStates nd (s2\<lparr>sc_nodeTree := t\<rparr>))))"

definition RemoveNode :: "node \<Rightarrow> sched_cache \<Rightarrow> cache_error option \<times> sched_cache" where
  "RemoveNode nd s =
     (if map_of (sc_nodes s) (n_Name nd) = None then (Some (NodeMissing (n_Name nd)), s)
      else
        let s1 = removeNodeInfoFromList (n_Name nd) s in
        (case nt_removeNode nd (sc_nodeTree s1) of
           (True, t) \<Rightarrow> (Some (NotInTree (n_Name nd)), s1\<lparr>sc_nodeTree := t\<rparr>)
         | (False, t) \<Rightarrow> (None, removeNodeImageStates (Some nd) (s1\<lparr>sc_nodeTree := t\<rparr>))))"

definition cache_GetNodeInfo :: "string \<Rightarrow> sched_cache \<Rightarrow> cache_error + node option" where
  "cache_GetNodeInfo name s =
     (case map_of (sc_nodes s) name of None \<Rightarrow> Inl (NodeMissing name) | Some c \<Rightarrow> Inr (ni_node (ce_info c)))"

definition FilteredList :: "(pod \<Rightarrow> bool) \<Rightarrow> (pod \<Rightarrow> bool) \<Rightarrow> sched_cache \<Rightarrow> pod list" where
  "FilteredList podFilter matches s =
     concat (map (\<lambda>(_, c). filter (\<lambda>p. podFilter p \<and> matches p) (ni_pods (ce_info c))) (sc_nodes s))"

definition cache_Dump :: "sched_cache \<Rightarrow> (string \<times> node_info) list \<times> (string \<times> bool) list" where
  "cache_Dump s = (map (\<lambda>(k, c). (k, ce_info c)) (sc_nodes s), sc_assumedPods s)"

subsection \<open>One operation at a time\<close>

datatype cache_op =
  OpAssume pod | OpFinish pod int | OpForget pod | OpAdd pod | OpUpdate pod pod | OpRemove pod
  | OpAddNode node | OpUpdateNode "node option" node | OpRemoveNode node | OpCleanup int

fun run_op :: "sched_gates \<Rightarrow> cache_op \<Rightarrow> sched_cache \<Rightarrow> cache_result" where
  "run_op g (OpAssume p) s = AssumePod g p s"
| "run_op g (OpFinish p now) s = finishBinding p now s"
| "run_op g (OpForget p) s = ForgetPod g p s"
| "run_op g (OpAdd p) s = cache_AddPod g p s"
| "run_op g (OpUpdate p q) s = cache_UpdatePod g p q s"
| "run_op g (OpRemove p) s = cache_RemovePod g p s"
| "run_op g (OpAddNode n) s = Inr (None, AddNode g n s)"
| "run_op g (OpUpdateNode m n) s = (case UpdateNode g m n s of Inl p \<Rightarrow> Inl p | Inr s' \<Rightarrow> Inr (None, s'))"
| "run_op g (OpRemoveNode n) s = Inr (RemoveNode n s)"
| "run_op g (OpCleanup now) s = (case cleanupAssumedPods g now s of Inl p \<Rightarrow> Inl p | Inr s' \<Rightarrow> Inr (None, s'))"

end
