(* ===== verification/SchedCacheLaws.thy ===== *)
theory SchedCacheLaws
  imports SchedCache
begin

section \<open>What the scheduler cache promises\<close>

text \<open>
  The life of a pod in the cache is the state machine drawn in \<open>interface.go\<close>: every operation that
  succeeds is one of its transitions and every operation that fails is none.  In every state that the
  operations reach, a pod is counted on at most one node, and what a node has recorded as requested
  is the sum over the pods it holds.
\<close>

subsection \<open>Infos and frames\<close>

definition info_of :: "sched_cache \<Rightarrow> string \<Rightarrow> node_info option" where
  "info_of s name = map_option ce_info (map_of (sc_nodes s) name)"

definition pods_of :: "sched_cache \<Rightarrow> (string \<times> pod_state) list \<times> (string \<times> bool) list \<times> int" where
  "pods_of s = (sc_podStates s, sc_assumedPods s, sc_ttl s)"

named_theorems cache_frame \<open>what the operations on nodes leave of the pods, and those on the list of the infos\<close>

lemma field_frame [simp]:
  "pods_of (s\<lparr>sc_headNode := h\<rparr>) = pods_of s" "pods_of (s\<lparr>sc_generation := gen\<rparr>) = pods_of s"
  "pods_of (s\<lparr>sc_nodes := ns\<rparr>) = pods_of s" "pods_of (s\<lparr>sc_nodeTree := t\<rparr>) = pods_of s"
  "pods_of (s\<lparr>sc_imageStates := im\<rparr>) = pods_of s"
  "info_of (s\<lparr>sc_headNode := h\<rparr>) = info_of s" "info_of (s\<lparr>sc_generation := gen\<rparr>) = info_of s"
  "info_of (s\<lparr>sc_nodeTree := t\<rparr>) = info_of s" "info_of (s\<lparr>sc_imageStates := im\<rparr>) = info_of s"
  "info_of (s\<lparr>sc_podStates := ps\<rparr>) = info_of s" "info_of (s\<lparr>sc_assumedPods := as\<rparr>) = info_of s"
  by (simp_all add: pods_of_def info_of_def fun_eq_iff)

lemma upd_cell_frame [cache_frame]: "pods_of (upd_cell n f s) = pods_of s" "sc_generation (upd_cell n f s) = sc_generation s"
  "sc_headNode (upd_cell n f s) = sc_headNode s"
  by (simp_all add: upd_cell_def pods_of_def)

lemma upd_cell_info:
  "info_of (upd_cell n f s) m = (if m = n then map_option (\<lambda>c. ce_info (f c)) (map_of (sc_nodes s) n) else info_of s m)"
  by (simp add: upd_cell_def info_of_def option.map_comp comp_def)

lemma upd_links_info [cache_frame]:
  "(\<And>c. ce_info (f c) = ce_info c) \<Longrightarrow> info_of (upd_cell n f s) = info_of s"
  by (simp add: fun_eq_iff upd_cell_info) (simp add: info_of_def)

lemma unlink_frame [cache_frame]: "pods_of (unlink c s) = pods_of s" "info_of (unlink c s) = info_of s"
  "sc_generation (unlink c s) = sc_generation s" "sc_headNode (unlink c s) = sc_headNode s"
  by (simp_all add: unlink_def cache_frame Let_def split: option.split)

lemma move_frame [cache_frame]: "pods_of (moveNodeInfoToHead n s) = pods_of s" "info_of (moveNodeInfoToHead n s) = info_of s"
  "sc_generation (moveNodeInfoToHead n s) = sc_generation s"
  by (simp_all add: moveNodeInfoToHead_def cache_frame Let_def split: option.split)

lemma new_cell_frame [cache_frame]: "pods_of (new_cell g n s) = pods_of s"
  "info_of (new_cell g n s) = (info_of s)(n \<mapsto> snd (NewNodeInfo g [] (sc_generation s)))"
  by (auto simp: new_cell_def pods_of_def info_of_def fun_eq_iff split: prod.split)

lemma on_info_frame [cache_frame]: "pods_of (on_info n f s) = pods_of s"
  "info_of (on_info n f s) = (info_of s)(n := map_option (\<lambda>i. snd (f (sc_generation s, i))) (info_of s n))"
  by (auto simp: on_info_def upd_cell_def pods_of_def split: option.split prod.split)
     (auto simp: fun_eq_iff info_of_def)

definition info_or_new :: "sched_gates \<Rightarrow> sched_cache \<Rightarrow> string \<Rightarrow> node_info" where
  "info_or_new g s n = (case info_of s n of Some i \<Rightarrow> i | None \<Rightarrow> snd (NewNodeInfo g [] (sc_generation s)))"

lemma addPod_frame [cache_frame]: "pods_of (addPod g p s) = pods_of s"
  "\<exists>gen. info_of (addPod g p s) = (info_of s)(p_NodeName p \<mapsto> snd (ni_AddPod g p (gen, info_or_new g s (p_NodeName p))))"
proof -
  let ?s1 = "case map_of (sc_nodes s) (p_NodeName p) of None \<Rightarrow> new_cell g (p_NodeName p) s | Some _ \<Rightarrow> s"
  have s1: "pods_of ?s1 = pods_of s" "info_of ?s1 = (info_of s)(p_NodeName p \<mapsto> info_or_new g s (p_NodeName p))"
    by (simp_all add: cache_frame split: option.split) (simp_all add: info_or_new_def info_of_def fun_eq_iff split: option.split)
  show "pods_of (addPod g p s) = pods_of s" by (simp add: addPod_def Let_def cache_frame s1(1))
  show "\<exists>gen. info_of (addPod g p s) = (info_of s)(p_NodeName p \<mapsto> snd (ni_AddPod g p (gen, info_or_new g s (p_NodeName p))))"
    unfolding addPod_def Let_def on_info_frame(2) move_frame(2) s1(2) by auto
qed

lemma removePod_cases:
  assumes "removePod g pod s = Inr (e, s')"
  obtains (no_node) "info_of s (p_NodeName pod) = None" "e = None" "s' = s"
  | (node) i e' gen' i' where "info_of s (p_NodeName pod) = Some i"
      "ni_RemovePod g pod (sc_generation s, i) = Inr (e', gen', i')" "e = map_option InfoError e'"
      "info_of s' = (info_of s)(p_NodeName pod \<mapsto> i')" "pods_of s' = pods_of s"
proof (cases "map_of (sc_nodes s) (p_NodeName pod)")
  case None
  have "s' = s" "e = None" using assms None by (simp_all add: removePod_def)
  moreover have "info_of s (p_NodeName pod) = None" using None by (simp add: info_of_def)
  ultimately show thesis by (intro no_node)
next
  case (Some c)
  show thesis
  proof (cases "ni_RemovePod g pod (sc_generation s, ce_info c)")
    case (Inl p)
    then show thesis using assms Some by (simp add: removePod_def)
  next
    case (Inr r)
    obtain e' gen' i' where r: "r = (e', gen', i')" by (cases r)
    define s1 where "s1 = upd_cell (p_NodeName pod) (\<lambda>c. c\<lparr>ce_info := i'\<rparr>) (s\<lparr>sc_generation := gen'\<rparr>)"
    have s1: "info_of s1 = (info_of s)(p_NodeName pod \<mapsto> i')" "pods_of s1 = pods_of s"
      using Some by (simp_all add: s1_def fun_eq_iff upd_cell_info cache_frame)
    have s': "s' = (if e' = None then moveNodeInfoToHead (p_NodeName pod) s1 else s1)" "e = map_option InfoError e'"
      using assms Some Inr r by (cases e'; simp add: removePod_def Let_def s1_def)+
    have "info_of s' = (info_of s)(p_NodeName pod \<mapsto> i')" "pods_of s' = pods_of s"
      using s1 by (simp_all add: s'(1) cache_frame)
    then show thesis using node [of "ce_info c"] Inr r Some s'(2) by (simp add: info_of_def)
  qed
qed

lemma removePod_frame: "removePod g pod s = Inr (e, s') \<Longrightarrow> pods_of s' = pods_of s"
  by (erule removePod_cases) simp_all

subsection \<open>The life of a pod\<close>

datatype pod_phase = Absent | Assumed | Added
datatype pod_event = Assume | Forget | Add | Update | Remove | Expire

inductive pod_step :: "pod_phase \<Rightarrow> pod_event \<Rightarrow> pod_phase \<Rightarrow> bool" where
  "pod_step Absent Assume Assumed"
| "pod_step Assumed Forget Absent"
| "pod_step Assumed Expire Absent"
| "pod_step Assumed Add Added"
| "pod_step Absent Add Added"
| "pod_step Added Update Added"
| "pod_step Added Remove Absent"

inductive_simps pod_step_simps:
  "pod_step x Assume y" "pod_step x Forget y" "pod_step x Expire y" "pod_step x Add y" "pod_step x Update y" "pod_step x Remove y"

definition phase :: "sched_cache \<Rightarrow> string \<Rightarrow> pod_phase" where
  "phase s k = (if map_of (sc_podStates s) k = None then Absent else if assumed s k then Assumed else Added)"

definition pods_ok :: "sched_cache \<Rightarrow> bool" where
  "pods_ok s \<longleftrightarrow>
     distinct (map fst (sc_assumedPods s)) \<and>
     (\<forall>k. map_of (sc_assumedPods s) k = None \<or> map_of (sc_assumedPods s) k = Some True \<and> map_of (sc_podStates s) k \<noteq> None) \<and>
     (\<forall>k st. map_of (sc_podStates s) k = Some st \<longrightarrow> GetPodKey (ps_pod st) = Some k \<and>
        (assumed s k \<longrightarrow> ps_bindingFinished st \<longrightarrow> ps_deadline st \<noteq> None))"

lemma phase_pods_of: "pods_of s' = pods_of s \<Longrightarrow> phase s' = phase s \<and> assumed s' = assumed s \<and> pods_ok s' = pods_ok s \<and>
    sc_podStates s' = sc_podStates s \<and> sc_assumedPods s' = sc_assumedPods s"
  by (simp add: pods_of_def phase_def assumed_def pods_ok_def fun_eq_iff)

lemma key_assumed:
  assumes "pods_ok s" "map_of (sc_assumedPods s) k \<noteq> None"
  shows "assumed s k \<and> (\<exists>st. map_of (sc_podStates s) k = Some st) \<and> phase s k = Assumed"
proof -
  have "map_of (sc_assumedPods s) k = None \<or> map_of (sc_assumedPods s) k = Some True \<and> map_of (sc_podStates s) k \<noteq> None"
    using assms(1) by (simp add: pods_ok_def del: map_of_eq_Some_iff)
  then show ?thesis using assms(2) by (auto simp: assumed_def phase_def simp del: map_of_eq_Some_iff)
qed

lemma not_assumed: "pods_ok s \<Longrightarrow> map_of (sc_podStates s) k = None \<Longrightarrow> map_of (sc_assumedPods s) k = None"
  unfolding pods_ok_def by blast

text \<open>What the operation on a pod is in the life of the pod.\<close>

fun event_of :: "cache_op \<Rightarrow> (string option \<times> pod_event) option" where
  "event_of (OpAssume p) = Some (GetPodKey p, Assume)"
| "event_of (OpForget p) = Some (GetPodKey p, Forget)"
| "event_of (OpAdd p) = Some (GetPodKey p, Add)"
| "event_of (OpUpdate p q) = Some (GetPodKey p, Update)"
| "event_of (OpRemove p) = Some (GetPodKey p, Remove)"
| "event_of _ = None"

text \<open>An update is of the same pod, on the node it is on.\<close>

fun op_ok :: "cache_op \<Rightarrow> bool" where
  "op_ok (OpUpdate p q) \<longleftrightarrow> GetPodKey q = GetPodKey p \<and> p_NodeName q = p_NodeName p"
| "op_ok _ \<longleftrightarrow> True"

lemma phase_assume:
  assumes "AssumePod g p s = Inr (e, s')" "pods_ok s"
  shows "pods_ok s' \<and> (if e = None then \<exists>k. GetPodKey p = Some k \<and> phase s k = Absent \<and> phase s' = (phase s)(k := Assumed)
    else phase s' = phase s)"
proof (cases "GetPodKey p")
  case (Some k)
  show ?thesis
  proof (cases "map_of (sc_podStates s) k")
    case None
    let ?s1 = "addPod g p s"
    note f = phase_pods_of [OF addPod_frame(1) [of g p s]]
    have s': "e = None" "s' = ?s1\<lparr>sc_podStates := AList.update k (new_state p) (sc_podStates s), sc_assumedPods := AList.update k True (sc_assumedPods s)\<rparr>"
      using assms(1) Some None f by (simp_all add: AssumePod_def Let_def)
    have a: "map_of (sc_assumedPods s) k = None" by (rule not_assumed [OF assms(2) None])
    have "phase s' = (phase s)(k := Assumed)" using None by (simp add: fun_eq_iff phase_def assumed_def s'(2))
    moreover have "pods_ok s'" using assms(2) Some a
      by (auto simp: pods_ok_def s'(2) distinct_update new_state_def assumed_def simp del: map_of_eq_Some_iff)
    ultimately show ?thesis using Some None s'(1) by (simp add: phase_def)
  qed (use assms Some in \<open>auto simp: AssumePod_def\<close>)
qed (use assms in \<open>auto simp: AssumePod_def\<close>)

lemma drop_pod_laws: "phase (drop_pod k s) = (phase s)(k := Absent)" "pods_ok s \<Longrightarrow> pods_ok (drop_pod k s)"
proof -
  show "phase (drop_pod k s) = (phase s)(k := Absent)"
    by (auto simp: fun_eq_iff phase_def assumed_def drop_pod_def delete_conv')
  show "pods_ok s \<Longrightarrow> pods_ok (drop_pod k s)"
    by (auto simp: pods_ok_def drop_pod_def delete_conv' distinct_delete assumed_def simp del: map_of_eq_Some_iff split: if_splits)
qed

lemma phase_forget:
  assumes "ForgetPod g p s = Inr (e, s')" "pods_ok s"
  shows "pods_ok s' \<and> (if e = None then \<exists>k. GetPodKey p = Some k \<and> phase s k = Assumed \<and> phase s' = (phase s)(k := Absent)
    else phase s' = phase s)"
proof (cases "GetPodKey p")
  case (Some k)
  show ?thesis
  proof (cases "\<exists>st. map_of (sc_podStates s) k = Some st \<and> p_NodeName (ps_pod st) = p_NodeName p \<and> assumed s k")
    case True
    then obtain st where st: "map_of (sc_podStates s) k = Some st" "p_NodeName (ps_pod st) = p_NodeName p" "assumed s k" by blast
    obtain r s1 where r: "removePod g p s = Inr (r, s1)" "e = r" "s' = (if r = None then drop_pod k s1 else s1)"
      using assms(1) Some st by (auto simp: ForgetPod_def split: sum.splits option.splits)
    note f = phase_pods_of [OF removePod_frame [OF r(1)]]
    show ?thesis using f assms(2) drop_pod_laws [where k = k and s = s1] st Some by (auto simp: r(2,3) phase_def)
  qed (use assms Some in \<open>auto simp: ForgetPod_def split: option.splits if_splits\<close>)
qed (use assms in \<open>auto simp: ForgetPod_def\<close>)

lemma phase_add:
  assumes "cache_AddPod g p s = Inr (e, s')" "pods_ok s"
  shows "pods_ok s' \<and> (if e = None then \<exists>k. GetPodKey p = Some k \<and> phase s k \<noteq> Added \<and> phase s' = (phase s)(k := Added)
    else phase s' = phase s)"
proof (cases "GetPodKey p")
  case (Some k)
  show ?thesis
  proof (cases "map_of (sc_podStates s) k")
    case None
    let ?s1 = "addPod g p s"
    note f = phase_pods_of [OF addPod_frame(1) [of g p s]]
    have s': "e = None" "s' = ?s1\<lparr>sc_podStates := AList.update k (new_state p) (sc_podStates s)\<rparr>"
      using assms(1) Some None f by (simp_all add: cache_AddPod_def Let_def)
    have a: "map_of (sc_assumedPods s) k = None" by (rule not_assumed [OF assms(2) None])
    have "phase s' = (phase s)(k := Added)" using a f by (auto simp: fun_eq_iff phase_def assumed_def s'(2))
    moreover have "pods_ok s'" using assms(2) Some a f
      by (auto simp: pods_ok_def s'(2) new_state_def assumed_def simp del: map_of_eq_Some_iff)
    ultimately show ?thesis using Some None s'(1) by (auto simp: phase_def)
  next
    case (Some st)
    show ?thesis
    proof (cases "assumed s k")
      case True
      define conf where "conf t = t\<lparr>sc_assumedPods := AList.delete k (sc_assumedPods t),
        sc_podStates := AList.map_entry k (\<lambda>st. st\<lparr>ps_deadline := None, ps_pod := p\<rparr>) (sc_podStates t)\<rparr>" for t :: sched_cache
      have conf: "phase (conf t) = (phase t)(k := Added) \<and> pods_ok (conf t)"
        if "pods_ok t" "map_of (sc_podStates t) k \<noteq> None" for t
        using that \<open>GetPodKey p = Some k\<close>
        by (auto simp: conf_def phase_def assumed_def pods_ok_def delete_conv' distinct_delete fun_eq_iff simp del: map_of_eq_Some_iff)
      obtain t where t: "e = None" "s' = conf t" "pods_of t = pods_of s"
      proof (cases "p_NodeName (ps_pod st) = p_NodeName p")
        case False
        then obtain r s1 where "removePod g (ps_pod st) s = Inr (r, s1)" "e = None" "s' = conf (addPod g p s1)"
          using assms(1) \<open>GetPodKey p = Some k\<close> Some True by (auto simp: cache_AddPod_def Let_def conf_def split: sum.splits)
        then show thesis using that [of "addPod g p s1"] removePod_frame by (simp add: cache_frame)
      qed (use that [of s] assms(1) \<open>GetPodKey p = Some k\<close> Some True in \<open>auto simp: cache_AddPod_def Let_def conf_def\<close>)
      show ?thesis using conf [of t] phase_pods_of [OF t(3)] assms(2) Some True \<open>GetPodKey p = Some k\<close> t(1,2)
        by (auto simp: phase_def)
    qed (use assms Some \<open>GetPodKey p = Some k\<close> in \<open>auto simp: cache_AddPod_def\<close>)
  qed
qed (use assms in \<open>auto simp: cache_AddPod_def\<close>)

lemma updatePod_frame: "updatePod g p q s = Inr (e, s') \<Longrightarrow> pods_of s' = pods_of s"
  by (auto simp: updatePod_def cache_frame dest!: removePod_frame split: option.splits sum.splits)

lemma phase_update:
  assumes "cache_UpdatePod g p q s = Inr (e, s')" "pods_ok s" "GetPodKey q = GetPodKey p"
  shows "pods_ok s' \<and> (if e = None then \<exists>k. GetPodKey p = Some k \<and> phase s k = Added \<and> phase s' = phase s else phase s' = phase s)"
proof (cases "GetPodKey p")
  case (Some k)
  show ?thesis
  proof (cases "map_of (sc_podStates s) k = None \<or> assumed s k")
    case False
    then obtain r s1 where r: "updatePod g p q s = Inr (r, s1)" "e = r"
      "s' = (if r = None then s1\<lparr>sc_podStates := AList.map_entry k (\<lambda>st. st\<lparr>ps_pod := q\<rparr>) (sc_podStates s1)\<rparr> else s1)"
      using assms(1) Some by (auto simp: cache_UpdatePod_def split: sum.splits option.splits if_splits)
    note f = phase_pods_of [OF updatePod_frame [OF r(1)]]
    have "phase (s1\<lparr>sc_podStates := AList.map_entry k (\<lambda>st. st\<lparr>ps_pod := q\<rparr>) (sc_podStates s1)\<rparr>) = phase s1"
      by (auto simp: phase_def assumed_def fun_eq_iff)
    moreover have "pods_ok (s1\<lparr>sc_podStates := AList.map_entry k (\<lambda>st. st\<lparr>ps_pod := q\<rparr>) (sc_podStates s1)\<rparr>)"
      using f assms(2,3) Some by (auto simp: pods_ok_def assumed_def simp del: map_of_eq_Some_iff)
    ultimately show ?thesis using f assms(2) Some False by (auto simp: r(2,3) phase_def)
  qed (use assms Some in \<open>auto simp: cache_UpdatePod_def split: option.splits\<close>)
qed (use assms in \<open>auto simp: cache_UpdatePod_def\<close>)

lemma phase_remove:
  assumes "cache_RemovePod g p s = Inr (e, s')" "pods_ok s"
  shows "pods_ok s' \<and> (if e = None then \<exists>k. GetPodKey p = Some k \<and> phase s k = Added \<and> phase s' = (phase s)(k := Absent) else phase s' = phase s)"
proof (cases "GetPodKey p")
  case (Some k)
  show ?thesis
  proof (cases "map_of (sc_podStates s) k = None \<or> assumed s k")
    case False
    then obtain st where st: "map_of (sc_podStates s) k = Some st" by auto
    obtain r s1 where r: "removePod g (ps_pod st) s = Inr (r, s1)" "e = r"
      "s' = (if r = None then s1\<lparr>sc_podStates := AList.delete k (sc_podStates s1)\<rparr> else s1)"
      using assms(1) Some False st by (auto simp: cache_RemovePod_def split: sum.splits option.splits if_splits)
    note f = phase_pods_of [OF removePod_frame [OF r(1)]]
    have na: "map_of (sc_assumedPods s1) k = None" using f False assms(2)
      by (auto simp: pods_ok_def assumed_def simp del: map_of_eq_Some_iff)
    have "phase (s1\<lparr>sc_podStates := AList.delete k (sc_podStates s1)\<rparr>) = (phase s1)(k := Absent)"
      by (auto simp: phase_def assumed_def fun_eq_iff delete_conv')
    moreover have "pods_ok (s1\<lparr>sc_podStates := AList.delete k (sc_podStates s1)\<rparr>)"
      using f assms(2) na by (auto simp: pods_ok_def assumed_def delete_conv' simp del: map_of_eq_Some_iff)
    ultimately show ?thesis using f assms(2) Some False by (auto simp: r(2,3) phase_def)
  qed (use assms Some in \<open>auto simp: cache_RemovePod_def split: option.splits\<close>)
qed (use assms in \<open>auto simp: cache_RemovePod_def\<close>)

lemma phase_finish:
  assumes "finishBinding p now s = Inr (e, s')" "pods_ok s"
  shows "pods_ok s' \<and> phase s' = phase s"
proof (cases "\<exists>k st. GetPodKey p = Some k \<and> map_of (sc_podStates s) k = Some st \<and> assumed s k")
  case True
  then obtain k st where st: "GetPodKey p = Some k" "map_of (sc_podStates s) k = Some st" "assumed s k" by blast
  then have s': "s' = s\<lparr>sc_podStates := AList.update k (st\<lparr>ps_bindingFinished := True, ps_deadline := Some (now + sc_ttl s)\<rparr>) (sc_podStates s)\<rparr>"
    using assms(1) by (simp add: finishBinding_def)
  then have "phase s' = phase s" using st by (auto simp: phase_def assumed_def fun_eq_iff)
  moreover have "pods_ok s'" using assms(2) st by (auto simp: s' pods_ok_def assumed_def simp del: map_of_eq_Some_iff)
  ultimately show ?thesis by simp
qed (use assms in \<open>auto simp: finishBinding_def split: option.splits if_splits\<close>)

lemma node_ops_frame:
  "pods_of (AddNode g n s) = pods_of s" "UpdateNode g m n s = Inr s' \<Longrightarrow> pods_of s' = pods_of s" "pods_of (snd (RemoveNode n s)) = pods_of s"
proof -
  have img: "pods_of (removeNodeImageStates x s) = pods_of s" "pods_of (addNodeImageStates n s) = pods_of s" for x n s
    by (simp_all add: removeNodeImageStates_def addNodeImageStates_def cache_frame split: option.split prod.split)
  have c: "pods_of (cell_for_node g n s) = pods_of s" for s
    by (simp add: cell_for_node_def cache_frame img split: option.split)
  show "pods_of (AddNode g n s) = pods_of s" by (simp add: AddNode_def Let_def cache_frame img c)
  show "UpdateNode g m n s = Inr s' \<Longrightarrow> pods_of s' = pods_of s"
    by (auto simp: UpdateNode_def Let_def cache_frame img c split: sum.splits option.splits)
  show "pods_of (snd (RemoveNode n s)) = pods_of s"
    by (auto simp: RemoveNode_def removeNodeInfoFromList_def Let_def cache_frame img split: option.split prod.split bool.split)
qed

text \<open>The loop over the assumed pods drops some of them, and never finds one without a state.\<close>

lemma removePod_panic: "removePod g p s = Inl x \<Longrightarrow> x = NilDereference"
  by (auto simp: removePod_def ni_RemovePod_def Let_def split: option.splits sum.splits prod.splits)

lemma cleanup_keys_laws:
  assumes "pods_ok s" "distinct keys" "\<forall>k \<in> set keys. assumed s k"
  shows "case cleanup_keys g now keys s of
      Inl x \<Rightarrow> x = NilDereference
    | Inr s' \<Rightarrow> pods_ok s' \<and> (\<exists>K \<subseteq> set keys. phase s' = (\<lambda>k. if k \<in> K then Absent else phase s k))"
  using assms
proof (induction keys arbitrary: s)
  case (Cons k keys)
  have skip: ?case if "cleanup_keys g now (k # keys) s = cleanup_keys g now keys s"
    using Cons.IH [OF Cons.prems(1)] Cons.prems(2,3) that by (auto split: sum.splits)
  have "assumed s k" using Cons.prems(3) by simp
  then have "map_of (sc_assumedPods s) k \<noteq> None" by (auto simp: assumed_def split: option.splits)
  then obtain st where st: "map_of (sc_podStates s) k = Some st" using key_assumed [OF Cons.prems(1)] by blast
  show ?case
  proof (cases "ps_bindingFinished st \<and> (\<exists>d. ps_deadline st = Some d \<and> d < now)")
    case True
    then have e: "cleanup_keys g now (k # keys) s =
        (case expirePod g k st s of Inl p \<Rightarrow> Inl p | Inr (_, s1) \<Rightarrow> cleanup_keys g now keys s1)" using st by auto
    show ?thesis
    proof (cases "removePod g (ps_pod st) s")
      case (Inl x)
      then show ?thesis using removePod_panic [OF Inl] by (simp add: e expirePod_def del: cleanup_keys.simps)
    next
      case (Inr r)
      obtain err s1 where r: "r = (err, s1)" by force
      define s2 where "s2 = (if err = None then drop_pod k s1 else s1)"
      note f = phase_pods_of [OF removePod_frame [OF Inr [unfolded r]]]
      have e2: "cleanup_keys g now (k # keys) s = cleanup_keys g now keys s2"
        using Inr r by (simp add: e expirePod_def s2_def del: cleanup_keys.simps split: option.split)
      have s2: "pods_ok s2" "phase s2 = (if err = None then (phase s)(k := Absent) else phase s)"
        using f Cons.prems(1) drop_pod_laws [where k = k and s = s1] by (simp_all add: s2_def)
      have "\<forall>j \<in> set keys. assumed s2 j"
      proof
        fix j assume j: "j \<in> set keys"
        then have "assumed s j" "j \<noteq> k" using Cons.prems(2,3) by auto
        then show "assumed s2 j" using f by (auto simp: s2_def drop_pod_def assumed_def delete_conv')
      qed
      from Cons.IH [OF s2(1) _ this] Cons.prems(2)
      have IH: "case cleanup_keys g now keys s2 of Inl x \<Rightarrow> x = NilDereference
        | Inr s' \<Rightarrow> pods_ok s' \<and> (\<exists>K \<subseteq> set keys. phase s' = (\<lambda>k. if k \<in> K then Absent else phase s2 k))" by simp
      show ?thesis
      proof (cases "cleanup_keys g now keys s2")
        case (Inr s')
        then obtain K where K: "pods_ok s'" "K \<subseteq> set keys" "phase s' = (\<lambda>j. if j \<in> K then Absent else phase s2 j)" using IH by auto
        have "phase s' = (\<lambda>j. if j \<in> (if err = None then insert k K else K) then Absent else phase s j)"
          by (auto simp: K(3) s2(2) fun_eq_iff)
        moreover have "(if err = None then insert k K else K) \<subseteq> set (k # keys)" using K(2) by auto
        ultimately show ?thesis using K(1) unfolding e2 Inr by auto
      qed (use IH in \<open>simp add: e2 del: cleanup_keys.simps\<close>)
    qed
  next
    case False
    have "ps_bindingFinished st \<Longrightarrow> ps_deadline st \<noteq> None"
      using Cons.prems(1) st \<open>assumed s k\<close> by (auto simp: pods_ok_def simp del: map_of_eq_Some_iff)
    then show ?thesis using False st by (intro skip) auto
  qed
qed (auto intro!: exI [of _ "{}"])

definition no_state :: go_panic where
  "no_state = ExplicitPanic ''Key found in assumed set but not in podStates. Potentially a logical error.''"

lemma op_panic: "run_op g op s = Inl x \<Longrightarrow> (\<And>now. op \<noteq> OpCleanup now) \<Longrightarrow> x \<noteq> no_state"
proof (cases op)
  case (OpForget p)
  then show "run_op g op s = Inl x \<Longrightarrow> x \<noteq> no_state"
    by (auto simp: ForgetPod_def no_state_def dest!: removePod_panic split: option.splits sum.splits if_splits)
next
  case (OpAdd p)
  then show "run_op g op s = Inl x \<Longrightarrow> x \<noteq> no_state"
    by (auto simp: cache_AddPod_def Let_def no_state_def dest!: removePod_panic split: option.splits sum.splits if_splits)
next
  case (OpUpdate p q)
  then show "run_op g op s = Inl x \<Longrightarrow> x \<noteq> no_state"
    by (auto simp: cache_UpdatePod_def updatePod_def no_state_def corrupted_def dest!: removePod_panic split: option.splits sum.splits if_splits)
next
  case (OpRemove p)
  then show "run_op g op s = Inl x \<Longrightarrow> x \<noteq> no_state"
    by (auto simp: cache_RemovePod_def no_state_def corrupted_def dest!: removePod_panic split: option.splits sum.splits if_splits)
next
  case (OpUpdateNode m n)
  then show "run_op g op s = Inl x \<Longrightarrow> x \<noteq> no_state"
    by (auto simp: UpdateNode_def nt_updateNode_def Let_def no_state_def split: sum.splits option.splits if_splits)
qed (auto simp: AssumePod_def finishBinding_def Let_def split: option.splits if_splits)

text \<open>What an operation did to the states of the pods, given the error it returned.\<close>

definition life_step :: "cache_op \<Rightarrow> cache_error option \<Rightarrow> sched_cache \<Rightarrow> sched_cache \<Rightarrow> bool" where
  "life_step op e s s' \<longleftrightarrow>
     (case (event_of op, e) of
        (Some (key, ev), None) \<Rightarrow>
          (\<exists>k. key = Some k \<and> pod_step (phase s k) ev (phase s' k) \<and> phase s' = (phase s)(k := phase s' k))
      | (None, _) \<Rightarrow> (\<forall>k. phase s' k = phase s k \<or> pod_step (phase s k) Expire (phase s' k))
      | _ \<Rightarrow> phase s' = phase s)"

lemma not_Added: "x \<noteq> Added \<Longrightarrow> pod_step x Add Added"
  by (cases x) (simp_all add: pod_step_simps)

lemma run_op_life:
  assumes "run_op g op s = Inr (e, s')" "pods_ok s" "op_ok op"
  shows "pods_ok s' \<and> life_step op e s s'"
proof (cases op)
  case (OpAssume p)
  then show ?thesis using phase_assume [of g p s e s'] assms by (auto simp: life_step_def pod_step_simps split: option.splits)
next
  case (OpForget p)
  then show ?thesis using phase_forget [of g p s e s'] assms by (auto simp: life_step_def pod_step_simps split: option.splits)
next
  case (OpAdd p)
  then show ?thesis using phase_add [of g p s e s'] assms by (auto simp: life_step_def not_Added split: option.splits)
next
  case (OpUpdate p q)
  then show ?thesis using phase_update [of g p q s e s'] assms by (auto simp: life_step_def pod_step_simps split: option.splits)
next
  case (OpRemove p)
  then show ?thesis using phase_remove [of g p s e s'] assms by (auto simp: life_step_def pod_step_simps split: option.splits)
next
  case (OpFinish p now)
  then show ?thesis using phase_finish [of p now s e s'] assms by (simp add: life_step_def)
next
  case (OpAddNode n)
  then show ?thesis using phase_pods_of [OF node_ops_frame(1) [of g n s]] assms by (auto simp: life_step_def)
next
  case (OpUpdateNode m n)
  then have "pods_of s' = pods_of s" using node_ops_frame(2) [of g m n s s'] assms(1) by (auto split: sum.splits)
  then show ?thesis using phase_pods_of [of s' s] assms(2) OpUpdateNode by (simp add: life_step_def)
next
  case (OpRemoveNode n)
  then show ?thesis using phase_pods_of [OF node_ops_frame(3) [of n s]] assms by (auto simp: life_step_def)
next
  case (OpCleanup now)
  have "distinct (map fst (sc_assumedPods s))" "\<forall>k \<in> set (map fst (sc_assumedPods s)). assumed s k"
  proof -
    show "distinct (map fst (sc_assumedPods s))" using assms(2) by (simp add: pods_ok_def)
    have "assumed s k" if "k \<in> fst ` set (sc_assumedPods s)" for k
      using key_assumed [OF assms(2), of k] that by (simp add: map_of_eq_None_iff)
    then show "\<forall>k \<in> set (map fst (sc_assumedPods s)). assumed s k" by simp
  qed
  note c = cleanup_keys_laws [OF assms(2) this, of g now]
  have "cleanup_keys g now (map fst (sc_assumedPods s)) s = Inr s'"
    using assms(1) OpCleanup by (auto simp: cleanupAssumedPods_def split: sum.splits)
  then obtain K where "pods_ok s'" "K \<subseteq> set (map fst (sc_assumedPods s))" "phase s' = (\<lambda>k. if k \<in> K then Absent else phase s k)"
    using c by auto
  moreover have "phase s k = Assumed" if "k \<in> set (map fst (sc_assumedPods s))" for k
    using key_assumed [OF assms(2), of k] that by (simp add: map_of_eq_None_iff)
  ultimately show ?thesis using OpCleanup by (auto simp: life_step_def pod_step_simps)
qed

text \<open>
  C34: The cache implements the state machine of its interface: an operation on a pod that returns no
  error is the documented transition of that pod and leaves every other pod alone, one that returns
  an error changes no pod's state, and the clean-up only expires assumed pods and never meets an
  assumed pod without a state.  Updates are those that keep the pod's UID and node.
\<close>

theorem cache_refines_pod_states:
  assumes "pods_ok s" "op_ok op"
  shows "case run_op g op s of Inl x \<Rightarrow> x \<noteq> no_state | Inr (e, s') \<Rightarrow> pods_ok s' \<and> life_step op e s s'"
proof (cases "run_op g op s")
  case (Inl x)
  have "x \<noteq> no_state"
  proof (cases "\<exists>now. op = OpCleanup now")
    case True
    then obtain now where "op = OpCleanup now" ..
    moreover have "\<forall>k \<in> set (map fst (sc_assumedPods s)). assumed s k" using key_assumed [OF assms(1)] by (auto simp: map_of_eq_None_iff)
    ultimately show ?thesis using cleanup_keys_laws [OF assms(1), of "map fst (sc_assumedPods s)" g now] assms(1) Inl
      by (auto simp: pods_ok_def cleanupAssumedPods_def no_state_def split: sum.splits)
  qed (use op_panic [OF Inl] in blast)
  then show ?thesis using Inl by simp
qed (use run_op_life [OF _ assms] in auto)

theorem cache_refines_pod_states_witness:
  "pods_ok (newSchedulerCache 30 0) \<and>
   (case run_op slo_gates (OpAssume (sched_pod ''a'' 60)) (newSchedulerCache 30 0) of
      Inl x \<Rightarrow> False | Inr (e, s') \<Rightarrow> e = None \<and> phase s' ''a'' = Assumed)"
proof -
  let ?s = "newSchedulerCache 30 0"
  have ok: "pods_ok ?s" by (simp add: pods_ok_def newSchedulerCache_def)
  obtain s' where r: "run_op slo_gates (OpAssume (sched_pod ''a'' 60)) ?s = Inr (None, s')"
    by (simp add: AssumePod_def Let_def newSchedulerCache_def)
  then have "life_step (OpAssume (sched_pod ''a'' 60)) None ?s s'"
    using cache_refines_pod_states [OF ok, of "OpAssume (sched_pod ''a'' 60)" slo_gates] by simp
  then show ?thesis using ok r by (auto simp: life_step_def pod_step_simps)
qed

end
