(* ===== verification/SchedCacheList.thy ===== *)
theory SchedCacheList
  imports SchedCacheLaws
begin

section \<open>The linked list of the cache\<close>

text \<open>
  The doubly linked list represents a list of names; moving a node to the head and removing a node are
  the operations on lists one expects.  The infos on it are ordered by their generations, the most
  recently changed first, which is what lets a snapshot stop at the first info it knows.
\<close>

subsection \<open>Segments\<close>

text \<open>
  A segment from \<open>h\<close> whose first cell has the previous cell \<open>p\<close> and whose last one has the next cell \<open>q\<close>.
\<close>

fun seg :: "(string \<rightharpoonup> cell) \<Rightarrow> string option \<Rightarrow> string option \<Rightarrow> string list \<Rightarrow> string option \<Rightarrow> bool" where
  "seg C p h [] q \<longleftrightarrow> h = q"
| "seg C p h (x # xs) q \<longleftrightarrow>
     h = Some x \<and> (case C x of None \<Rightarrow> False | Some c \<Rightarrow> ce_prev c = p \<and> seg C (Some x) (ce_next c) xs q)"

definition last_of :: "string option \<Rightarrow> string list \<Rightarrow> string option" where
  "last_of p xs = (if xs = [] then p else Some (last xs))"

lemma last_of_simps [simp]: "last_of p [] = p" "last_of p (x # xs) = last_of (Some x) xs" "last_of p (xs @ [x]) = Some x"
  by (simp_all add: last_of_def)

lemma seg_append: "seg C p h (xs @ ys) q \<longleftrightarrow> (\<exists>m. seg C p h xs m \<and> seg C (last_of p xs) m ys q)"
  by (induction xs arbitrary: p h) (auto split: option.split)

lemma seg_links:
  "(\<And>x. x \<in> set xs \<Longrightarrow> map_option (\<lambda>c. (ce_next c, ce_prev c)) (D x) = map_option (\<lambda>c. (ce_next c, ce_prev c)) (C x)) \<Longrightarrow>
   seg D p h xs q = seg C p h xs q"
proof (induction xs arbitrary: p h)
  case (Cons x xs)
  have "map_option (\<lambda>c. (ce_next c, ce_prev c)) (D x) = map_option (\<lambda>c. (ce_next c, ce_prev c)) (C x)"
    using Cons.prems by simp
  moreover have "seg D (Some x) n xs q = seg C (Some x) n xs q" for n using Cons by simp
  ultimately show ?case by (cases "D x"; cases "C x") auto
qed simp

lemma seg_other: "(\<And>x. x \<in> set xs \<Longrightarrow> D x = C x) \<Longrightarrow> seg D p h xs q = seg C p h xs q"
  by (rule seg_links) simp

text \<open>Redirecting the last pointer of a segment, and the previous pointer of its first cell.\<close>

lemma seg_set_last:
  assumes "seg C p h (xs @ [y]) q" "y \<notin> set xs" "C y = Some c" "D = C(y \<mapsto> c\<lparr>ce_next := q'\<rparr>)"
  shows "seg D p h (xs @ [y]) q'"
proof -
  have "seg D p h xs m = seg C p h xs m" for m by (rule seg_other) (use assms in auto)
  then show ?thesis using assms by (auto simp: seg_append)
qed

lemma seg_set_first:
  assumes "seg C p h (y # xs) q" "y \<notin> set xs" "C y = Some c" "D = C(y \<mapsto> c\<lparr>ce_prev := p'\<rparr>)"
  shows "seg D p' h (y # xs) q"
proof -
  have "seg D (Some y) m xs q = seg C (Some y) m xs q" for m by (rule seg_other) (use assms in auto)
  then show ?thesis using assms by auto
qed

definition linked :: "sched_cache \<Rightarrow> string list \<Rightarrow> bool" where
  "linked s xs \<longleftrightarrow> distinct xs \<and> seg (map_of (sc_nodes s)) None (sc_headNode s) xs None"

lemma linked_nodes: "linked s xs \<Longrightarrow> x \<in> set xs \<Longrightarrow> \<exists>c. map_of (sc_nodes s) x = Some c"
proof -
  have "seg C p h xs q \<Longrightarrow> x \<in> set xs \<Longrightarrow> \<exists>c. C x = Some c" for C p h q
    by (induction xs arbitrary: p h) (auto split: option.splits)
  then show "linked s xs \<Longrightarrow> x \<in> set xs \<Longrightarrow> ?thesis" by (auto simp: linked_def)
qed

subsection \<open>Unlinking, removing and moving to the head\<close>

lemma linked_cell:
  assumes "linked s (ys @ n # zs)" "map_of (sc_nodes s) n = Some c"
  shows "ce_prev c = last_of None ys" "ce_next c = (case zs of [] \<Rightarrow> None | z # _ \<Rightarrow> Some z)"
proof -
  have "seg (map_of (sc_nodes s)) (Some n) (ce_next c) zs None" "ce_prev c = last_of None ys"
    using assms by (auto simp: linked_def seg_append)
  then show "ce_prev c = last_of None ys" "ce_next c = (case zs of [] \<Rightarrow> None | z # _ \<Rightarrow> Some z)"
    by (cases zs; simp split: option.splits)+
qed

lemma unlink_nodes:
  "map_of (sc_nodes (unlink c s)) =
    (let C1 = (case ce_prev c of None \<Rightarrow> map_of (sc_nodes s)
                | Some y \<Rightarrow> (map_of (sc_nodes s))(y := map_option (\<lambda>d. d\<lparr>ce_next := ce_next c\<rparr>) (map_of (sc_nodes s) y)))
     in case ce_next c of None \<Rightarrow> C1 | Some z \<Rightarrow> C1(z := map_option (\<lambda>d. d\<lparr>ce_prev := ce_prev c\<rparr>) (C1 z)))"
  by (simp add: unlink_def upd_cell_def Let_def split: option.split)

lemma unlink_seg:
  assumes "linked s (ys @ n # zs)" "map_of (sc_nodes s) n = Some c"
  shows "seg (map_of (sc_nodes (unlink c s))) None (if ys = [] then ce_next c else sc_headNode s) (ys @ zs) None"
    "map_of (sc_nodes (unlink c s)) n = Some c"
proof -
  let ?C = "map_of (sc_nodes s)"
  note c = linked_cell [OF assms]
  have d: "distinct (ys @ n # zs)" and sg: "seg ?C None (sc_headNode s) ys (Some n)" "seg ?C (Some n) (ce_next c) zs None"
    using assms by (auto simp: linked_def seg_append)
  define C1 where "C1 = (case ce_prev c of None \<Rightarrow> ?C | Some y \<Rightarrow> ?C(y := map_option (\<lambda>d. d\<lparr>ce_next := ce_next c\<rparr>) (?C y)))"
  define C2 where "C2 = (case ce_next c of None \<Rightarrow> C1 | Some z \<Rightarrow> C1(z := map_option (\<lambda>d. d\<lparr>ce_prev := ce_prev c\<rparr>) (C1 z)))"
  have C2: "map_of (sc_nodes (unlink c s)) = C2" by (simp only: unlink_nodes C1_def C2_def Let_def)
  have out1: "C1 x = ?C x" if "x \<notin> set ys" for x
    using that by (auto simp: C1_def c(1) last_of_def)
  have out2: "C2 x = C1 x" if "x \<notin> set zs" for x
    using that by (auto simp: C2_def c(2) split: list.split)
  have left: "seg C1 None (if ys = [] then ce_next c else sc_headNode s) ys (ce_next c)"
  proof (cases ys rule: rev_cases)
    case (snoc ys' y)
    then obtain cy where "?C y = Some cy" using linked_nodes [OF assms(1), of y] by auto
    then show ?thesis
      using seg_set_last [of ?C None "sc_headNode s" ys' y "Some n" cy C1 "ce_next c"] sg(1) d snoc by (simp add: C1_def c(1))
  qed simp
  have "seg C2 None (if ys = [] then ce_next c else sc_headNode s) ys (ce_next c)"
    by (subst seg_other [where C = C1]) (use left out2 d in auto)
  moreover have "seg C2 (last_of None ys) (ce_next c) zs None"
  proof (cases zs)
    case (Cons z zs')
    then obtain cz where cz: "?C z = Some cz" using linked_nodes [OF assms(1), of z] by auto
    have "seg C1 (Some n) (ce_next c) zs None" by (subst seg_other [where C = ?C]) (use sg(2) out1 d in auto)
    then show ?thesis
      using seg_set_first [of C1 "Some n" "ce_next c" z zs' None cz C2 "ce_prev c"] cz out1 [of z] d Cons
      by (auto simp: C2_def c)
  qed (use c(2) in simp)
  ultimately show "seg (map_of (sc_nodes (unlink c s))) None (if ys = [] then ce_next c else sc_headNode s) (ys @ zs) None"
    by (auto simp: C2 seg_append)
  show "map_of (sc_nodes (unlink c s)) n = Some c" using assms(2) out1 [of n] out2 [of n] d by (simp add: C2)
qed

lemma linked_head: "linked s xs \<Longrightarrow> sc_headNode s = (case xs of [] \<Rightarrow> None | x # _ \<Rightarrow> Some x)"
  by (cases xs) (auto simp: linked_def)

lemma linked_remove:
  assumes "linked s xs" "n \<in> set xs"
  shows "linked (removeNodeInfoFromList n s) (remove1 n xs)"
proof -
  obtain ys zs where xs: "xs = ys @ n # zs" "n \<notin> set ys" using assms(2) by (meson split_list_first)
  obtain c where c: "map_of (sc_nodes s) n = Some c" using linked_nodes [OF assms] by blast
  have d: "distinct (ys @ n # zs)" using assms(1) xs by (simp add: linked_def)
  note u = unlink_seg [OF assms(1) [unfolded xs] c]
  let ?s1 = "unlink c s"
  have head: "sc_headNode ?s1 = sc_headNode s" by (simp add: unlink_frame)
  have "sc_headNode s = Some n \<longleftrightarrow> ys = []" using linked_head [OF assms(1)] xs by (cases ys) auto
  then have h: "(if sc_headNode ?s1 = Some n then ce_next c else sc_headNode ?s1) = (if ys = [] then ce_next c else sc_headNode s)"
    by (simp add: head)
  have "seg ((map_of (sc_nodes ?s1))(n := None)) None (if ys = [] then ce_next c else sc_headNode s) (ys @ zs) None"
    by (subst seg_other [where C = "map_of (sc_nodes ?s1)"]) (use u(1) d in auto)
  moreover have "map_of (sc_nodes (removeNodeInfoFromList n s)) = (map_of (sc_nodes ?s1))(n := None)"
    "sc_headNode (removeNodeInfoFromList n s) = (if ys = [] then ce_next c else sc_headNode s)"
    using h by (auto simp: removeNodeInfoFromList_def c Let_def delete_conv')
  moreover have "remove1 n xs = ys @ zs" using xs by (simp add: remove1_append)
  ultimately show ?thesis using d by (auto simp: linked_def)
qed

text \<open>Moving a cell to the head that is either on the list, or new and not yet linked.\<close>

lemma move_nodes:
  assumes "map_of (sc_nodes s) n = Some c" "sc_headNode s \<noteq> Some n"
  shows "map_of (sc_nodes (moveNodeInfoToHead n s)) =
      (let C1 = map_of (sc_nodes (unlink c s));
           C2 = (case sc_headNode s of None \<Rightarrow> C1 | Some h \<Rightarrow> C1(h := map_option (\<lambda>d. d\<lparr>ce_prev := Some n\<rparr>) (C1 h)))
       in C2(n := map_option (\<lambda>d. d\<lparr>ce_next := sc_headNode s, ce_prev := None\<rparr>) (C2 n)))"
    "sc_headNode (moveNodeInfoToHead n s) = Some n"
  using assms by (simp_all add: moveNodeInfoToHead_def Let_def unlink_frame upd_cell_def split: option.split)

lemma head_set_prev:
  assumes "seg C None (Some h) (h # xs) None" "distinct (h # xs)" "n \<noteq> h" "n \<notin> set xs" "C n = Some c"
  shows "seg (C(h := map_option (\<lambda>d. d\<lparr>ce_prev := Some n\<rparr>) (C h), n \<mapsto> c\<lparr>ce_next := Some h, ce_prev := None\<rparr>)) None (Some n) (n # h # xs) None"
proof -
  let ?D = "C(h := map_option (\<lambda>d. d\<lparr>ce_prev := Some n\<rparr>) (C h))"
  obtain d where d: "C h = Some d" using assms(1) by (auto split: option.splits)
  have "seg ?D (Some n) (Some h) (h # xs) None"
    using seg_set_first [OF assms(1) _ d, of ?D "Some n"] assms(2) d by simp
  then have "seg (?D(n \<mapsto> c\<lparr>ce_next := Some h, ce_prev := None\<rparr>)) (Some n) (Some h) (h # xs) None"
    by (subst seg_other [where C = ?D]) (use assms(3,4) in auto)
  then show ?thesis by simp
qed

lemma linked_move:
  assumes "linked s xs" "map_of (sc_nodes s) n = Some c" "n \<notin> set xs \<Longrightarrow> ce_next c = None \<and> ce_prev c = None"
  shows "linked (moveNodeInfoToHead n s) (n # remove1 n xs)"
proof (cases "sc_headNode s = Some n")
  case True
  then have "xs \<noteq> [] \<and> hd xs = n" using linked_head [OF assms(1)] by (cases xs) auto
  then have "n # remove1 n xs = xs" by (cases xs) auto
  moreover have "moveNodeInfoToHead n s = s" using True assms(2) by (simp add: moveNodeInfoToHead_def)
  ultimately show ?thesis using assms(1) by simp
next
  case False
  let ?C1 = "map_of (sc_nodes (unlink c s))"
  have dx: "distinct xs" using assms(1) by (simp add: linked_def)
  have rest: "seg ?C1 None (sc_headNode s) (remove1 n xs) None \<and> ?C1 n = Some c"
  proof (cases "n \<in> set xs")
    case True
    then obtain ys zs where xs: "xs = ys @ n # zs" "n \<notin> set ys" by (meson split_list_first)
    have "ys \<noteq> []" using False linked_head [OF assms(1)] xs by (cases ys) auto
    then show ?thesis using unlink_seg [OF assms(1) [unfolded xs] assms(2)] xs by (simp add: remove1_append)
  next
    case out: False
    then have "unlink c s = s" using assms(3) by (simp add: unlink_def)
    then show ?thesis using assms(1,2) out by (simp add: linked_def remove1_idem)
  qed
  have "seg (map_of (sc_nodes (moveNodeInfoToHead n s))) None (Some n) (n # remove1 n xs) None"
  proof (cases "remove1 n xs")
    case Nil
    then have "sc_headNode s = None" using rest by simp
    then show ?thesis using move_nodes(1) [OF assms(2) False] rest Nil by (simp add: Let_def)
  next
    case (Cons h hs)
    then have head: "sc_headNode s = Some h" using rest by simp
    have dr: "distinct (remove1 n xs)" "n \<notin> set (remove1 n xs)" using dx by simp_all
    then have "n \<noteq> h" using Cons by auto
    moreover have "map_of (sc_nodes (moveNodeInfoToHead n s)) =
        ?C1(h := map_option (\<lambda>d. d\<lparr>ce_prev := Some n\<rparr>) (?C1 h), n \<mapsto> c\<lparr>ce_next := Some h, ce_prev := None\<rparr>)"
      using move_nodes(1) [OF assms(2) False] rest head \<open>n \<noteq> h\<close> by (simp add: Let_def)
    ultimately show ?thesis
      using head_set_prev [of ?C1 h hs n c] rest head dr by (simp add: Cons)
  qed
  then show ?thesis using move_nodes(2) [OF assms(2) False] dx by (simp add: linked_def)
qed

subsection \<open>The order of the infos\<close>

definition gen_of :: "sched_cache \<Rightarrow> string \<Rightarrow> int" where
  "gen_of s n = ni_generation (the (info_of s n))"

definition list_inv :: "sched_cache \<Rightarrow> string list \<Rightarrow> bool" where
  "list_inv s xs \<longleftrightarrow>
     linked s xs \<and> set xs = dom (info_of s) \<and> distinct (map fst (sc_nodes s)) \<and>
     sorted_wrt (\<lambda>x y. gen_of s y < gen_of s x) xs \<and> (\<forall>x \<in> set xs. gen_of s x \<le> sc_generation s)"

text \<open>Infos that changed are newer than every info was before.\<close>

definition tracked :: "sched_cache \<Rightarrow> sched_cache \<Rightarrow> bool" where
  "tracked s s' \<longleftrightarrow>
     sc_generation s \<le> sc_generation s' \<and>
     (\<forall>n. info_of s' n = info_of s n \<or> info_of s' n = None \<or> sc_generation s < gen_of s' n)"

lemma list_inv_front:
  assumes "list_inv s xs" "linked s' (n # remove1 n xs)" "distinct (map fst (sc_nodes s'))"
    and "\<And>m. m \<noteq> n \<Longrightarrow> info_of s' m = info_of s m" "info_of s' n \<noteq> None"
    and "gen_of s' n = sc_generation s'" "sc_generation s < sc_generation s'"
  shows "list_inv s' (n # remove1 n xs) \<and> tracked s s'"
proof -
  have d: "distinct xs" and set: "set xs = dom (info_of s)" using assms(1) by (simp_all add: list_inv_def linked_def)
  have same: "gen_of s' m = gen_of s m" if "m \<noteq> n" for m using assms(4) that by (simp add: gen_of_def)
  have le: "gen_of s' m < gen_of s' n" if "m \<in> set (remove1 n xs)" for m
  proof -
    have "m \<in> set xs" "m \<noteq> n" using that d by auto
    then have "gen_of s m \<le> sc_generation s" using assms(1) unfolding list_inv_def by blast
    then show ?thesis using same [OF \<open>m \<noteq> n\<close>] assms(6,7) by simp
  qed
  have "sorted_wrt (\<lambda>x y. gen_of s y < gen_of s x) (remove1 n xs)"
    using assms(1) by (simp add: list_inv_def sorted_wrt_filter distinct_remove1_removeAll [OF d] removeAll_filter_not_eq)
  then have "sorted_wrt (\<lambda>x y. gen_of s' y < gen_of s' x) (remove1 n xs)"
    by (rule sorted_wrt_mono_rel [rotated]) (use d same in auto)
  then have "sorted_wrt (\<lambda>x y. gen_of s' y < gen_of s' x) (n # remove1 n xs)" using le by simp
  moreover have "set (n # remove1 n xs) = dom (info_of s')"
    using d set assms(4,5) by (auto simp: dom_def) metis+
  moreover have "\<forall>x \<in> set (n # remove1 n xs). gen_of s' x \<le> sc_generation s'" using le assms(6) by force
  ultimately have "list_inv s' (n # remove1 n xs)" using assms(2,3) by (simp add: list_inv_def)
  moreover have "tracked s s'" unfolding tracked_def
  proof (intro conjI allI)
    fix m
    show "info_of s' m = info_of s m \<or> info_of s' m = None \<or> sc_generation s < gen_of s' m"
      using assms(4,6,7) by (cases "m = n") simp_all
  qed (use assms(7) in simp)
  ultimately show ?thesis ..
qed

end
