(* ===== verification/SchedCachePods.thy ===== *)
theory SchedCachePods
  imports SchedCacheLaws
begin

section \<open>Pods on the nodes of the cache\<close>

text \<open>
  In every state the operations reach, a pod is counted on at most one node, the one its state names,
  and what a node has recorded as requested is the sum over its pods.  The requests of a pod are
  taken to be fixed by its UID (they cannot be changed after creation).  The converse fails: a pod
  that the cache tracks may be counted nowhere, because a node that is removed and added again
  comes back empty.
\<close>

subsection \<open>The invariant\<close>

type_synonym requests = "string \<Rightarrow> node_resource \<times> int \<times> int"

definition pod_on :: "sched_gates \<Rightarrow> requests \<Rightarrow> (string \<rightharpoonup> pod_state) \<Rightarrow> string \<Rightarrow> pod \<Rightarrow> bool" where
  "pod_on g R P name p \<longleftrightarrow>
     p_NodeName p = name \<and> calculateResource g p = R (p_UID p) \<and>
     (\<exists>k st. GetPodKey p = Some k \<and> P k = Some st \<and> p_NodeName (ps_pod st) = name)"

definition node_ok :: "sched_gates \<Rightarrow> requests \<Rightarrow> (string \<rightharpoonup> pod_state) \<Rightarrow> string \<Rightarrow> node_info \<Rightarrow> bool" where
  "node_ok g R P name i \<longleftrightarrow>
     accounted g i \<and> distinct (map GetPodKey (ni_pods i)) \<and> (\<forall>p \<in> set (ni_pods i). pod_on g R P name p)"

definition placed :: "sched_gates \<Rightarrow> requests \<Rightarrow> (string \<rightharpoonup> pod_state) \<Rightarrow> (string \<rightharpoonup> node_info) \<Rightarrow> bool" where
  "placed g R P info \<longleftrightarrow> (\<forall>name i. info name = Some i \<longrightarrow> node_ok g R P name i)"

text \<open>No node holds a pod with the key.\<close>

definition nowhere :: "(string \<rightharpoonup> node_info) \<Rightarrow> string \<Rightarrow> bool" where
  "nowhere info k \<longleftrightarrow> (\<forall>name i. info name = Some i \<longrightarrow> Some k \<notin> GetPodKey ` set (ni_pods i))"

lemma key_UID: "GetPodKey p = Some k \<longleftrightarrow> p_UID p = k \<and> k \<noteq> []"
  by (auto simp: GetPodKey_def)

lemma placed_nowhere: "placed g R P info \<Longrightarrow> P k = None \<Longrightarrow> nowhere info k"
  by (force simp: placed_def nowhere_def node_ok_def pod_on_def)

lemma node_ok_states:
  assumes "node_ok g R P name i" "Some k \<notin> GetPodKey ` set (ni_pods i)" "\<And>j. j \<noteq> k \<Longrightarrow> P' j = P j"
  shows "node_ok g R P' name i"
proof -
  have "pod_on g R P' name p" if "p \<in> set (ni_pods i)" for p
  proof -
    have "pod_on g R P name p" "GetPodKey p \<noteq> Some k" using assms(1,2) that by (force simp: node_ok_def)+
    then show ?thesis using assms(3) by (auto simp: pod_on_def)
  qed
  then show ?thesis using assms(1) by (simp add: node_ok_def)
qed

lemma placed_states:
  assumes "placed g R P info" "nowhere info k" "\<And>j. j \<noteq> k \<Longrightarrow> P' j = P j"
  shows "placed g R P' info"
  unfolding placed_def
proof (intro allI impI)
  fix name i assume i: "info name = Some i"
  show "node_ok g R P' name i"
    by (rule node_ok_states [where P = P and k = k]) (use assms i in \<open>simp_all add: placed_def nowhere_def\<close>)
qed

lemma placed_same_node:
  assumes "placed g R P info" "P k = Some st" "p_NodeName (ps_pod st') = p_NodeName (ps_pod st)"
  shows "placed g R (P(k \<mapsto> st')) info"
proof -
  have "pod_on g R (P(k \<mapsto> st')) name p" if "pod_on g R P name p" for name p
    using that assms(2,3) unfolding pod_on_def by force
  then show ?thesis using assms(1) by (simp add: placed_def node_ok_def)
qed

subsection \<open>Adding and removing a pod\<close>

lemma AddPod_pods [simp]: "ni_pods (snd (ni_AddPod g pod st)) = ni_pods (snd st) @ [pod]"
  by (cases st) (simp add: ni_AddPod_def Let_def split: prod.split)

lemma NewNodeInfo_pods [simp]: "ni_pods (snd (NewNodeInfo g [] gen)) = []"
  by (simp add: NewNodeInfo_def Let_def empty_node_info_def)

lemma placed_addPod:
  assumes "placed g R P info" "nowhere info k" "GetPodKey p = Some k" "calculateResource g p = R (p_UID p)"
    and "P' k = Some st" "p_NodeName (ps_pod st) = p_NodeName p" "\<And>j. j \<noteq> k \<Longrightarrow> P' j = P j"
    and "info (p_NodeName p) = Some i \<or> info (p_NodeName p) = None \<and> i = snd (NewNodeInfo g [] gen')"
  shows "placed g R P' (info(p_NodeName p \<mapsto> snd (ni_AddPod g p (gen, i))))"
proof -
  have P': "placed g R P' info" by (rule placed_states [OF assms(1,2,7)])
  have i: "node_ok g R P' (p_NodeName p) i \<and> Some k \<notin> GetPodKey ` set (ni_pods i)"
    using assms(8)
  proof
    assume "info (p_NodeName p) = Some i"
    then show ?thesis using P' assms(2) by (simp add: placed_def nowhere_def)
  next
    assume "info (p_NodeName p) = None \<and> i = snd (NewNodeInfo g [] gen')"
    then show ?thesis by (simp add: node_ok_def NewNodeInfo_accounted)
  qed
  have "node_ok g R P' (p_NodeName p) (snd (ni_AddPod g p (gen, i)))"
    using i AddPod_accounted [of g i p gen] assms(3-6)
    by (auto simp: node_ok_def pod_on_def)
  then show ?thesis using P' by (simp add: placed_def)
qed

lemma swap_delete_keys:
  assumes "distinct (map f xs)" "i < length xs"
  shows "distinct (map f (swap_delete xs i))" "set (swap_delete xs i) = set xs - {xs ! i}"
    "f (xs ! i) \<notin> f ` set (swap_delete xs i)"
proof -
  let ?ys = "remove1 (xs ! i) xs"
  have d: "distinct xs" "inj_on f (set xs)" using assms(1) by (simp_all add: distinct_map)
  have m: "mset (swap_delete xs i) = mset ?ys" using mset_swap_delete [OF assms(2)] by simp
  then have "mset (map f (swap_delete xs i)) = mset (map f ?ys)" by simp
  moreover have "distinct (map f ?ys)"
    using d by (auto simp: distinct_map intro: inj_on_subset [OF d(2)] dest: notin_set_remove1)
  ultimately show "distinct (map f (swap_delete xs i))" using mset_eq_imp_distinct_iff by blast
  show s: "set (swap_delete xs i) = set xs - {xs ! i}" using m d(1) by (metis mset_eq_setD set_remove1_eq)
  show "f (xs ! i) \<notin> f ` set (swap_delete xs i)"
    using d(2) assms(2) by (auto simp: s inj_on_def)
qed

text \<open>What removing a pod from an info does to its pods, whether it is found or not.\<close>

lemma RemovePod_pods:
  assumes "ni_RemovePod g pod (gen, i) = Inr (e, gen', i')" "GetPodKey pod = Some k" "distinct (map GetPodKey (ni_pods i))"
  shows "set (ni_pods i') = {p \<in> set (ni_pods i). GetPodKey p \<noteq> Some k} \<and> distinct (map GetPodKey (ni_pods i'))"
proof (cases "key_index k (ni_pods i)")
  case None
  then have "ni_pods i' = ni_pods i" using assms(1,2)
    by (auto simp: ni_RemovePod_def Let_def split: option.splits)
  then show ?thesis using None assms(3) by (auto simp: key_index_None)
next
  case (Some j)
  then have j: "j < length (ni_pods i)" "GetPodKey (ni_pods i ! j) = Some k" using key_index_Some by blast+
  have "ni_pods i' = swap_delete (ni_pods i) j" using assms(1,2) Some
    by (auto simp: ni_RemovePod_def Let_def split: option.splits prod.splits)
  moreover have "set (ni_pods i) - {ni_pods i ! j} = {p \<in> set (ni_pods i). GetPodKey p \<noteq> Some k}"
    using j assms(3) by (auto simp: distinct_map inj_on_def)
  ultimately show ?thesis using swap_delete_keys [OF assms(3) j(1)] by simp
qed

lemma placed_removePod:
  assumes "placed g R (map_of (sc_podStates s)) (info_of s)" "removePod g p s = Inr (e, s')"
    and "GetPodKey p = Some k" "calculateResource g p = R (p_UID p)"
    and "map_of (sc_podStates s) k = Some st" "p_NodeName (ps_pod st) = p_NodeName p"
  shows "placed g R (map_of (sc_podStates s)) (info_of s') \<and> nowhere (info_of s') k"
  using assms(2)
proof (cases rule: removePod_cases)
  case no_node
  have "Some k \<notin> GetPodKey ` set (ni_pods i)" if "info_of s name = Some i" for name i
    using assms(1,5,6) that no_node(1) by (force simp: placed_def node_ok_def pod_on_def)
  then show ?thesis using assms(1) no_node(3) by (simp add: nowhere_def)
next
  case (node i e' gen' i')
  let ?n = "p_NodeName p"
  have i: "node_ok g R (map_of (sc_podStates s)) ?n i" using assms(1) node(1) by (simp add: placed_def)
  note pods = RemovePod_pods [OF node(2) assms(3)]
  have k: "p_UID p = k" "k \<noteq> []" using assms(3) by (simp_all add: key_UID)
  have "calculateResource g q = calculateResource g p" if "q \<in> set (ni_pods i)" "GetPodKey q = GetPodKey p" for q
    using i that assms(3,4) by (force simp: node_ok_def pod_on_def key_UID)
  then have "accounted g i'" using RemovePod_accounted [OF _ node(2)] i by (simp add: node_ok_def)
  then have i': "node_ok g R (map_of (sc_podStates s)) ?n i'" using i pods by (auto simp: node_ok_def)
  then have "placed g R (map_of (sc_podStates s)) (info_of s')" using assms(1) node(4) by (simp add: placed_def)
  moreover have "Some k \<notin> GetPodKey ` set (ni_pods j)" if "info_of s' name = Some j" for name j
  proof (cases "name = ?n")
    case True
    then show ?thesis using that node(4) pods i by (auto simp: node_ok_def)
  next
    case False
    then have "info_of s name = Some j" using that node(4) by simp
    then show ?thesis using assms(1,5,6) False by (force simp: placed_def node_ok_def pod_on_def)
  qed
  ultimately show ?thesis by (simp add: nowhere_def)
qed

lemma placed_cache_addPod:
  assumes "placed g R P (info_of s)" "nowhere (info_of s) k" "GetPodKey p = Some k" "calculateResource g p = R (p_UID p)"
    and "P' k = Some st" "p_NodeName (ps_pod st) = p_NodeName p" "\<And>j. j \<noteq> k \<Longrightarrow> P' j = P j"
  shows "placed g R P' (info_of (addPod g p s))"
proof -
  obtain gen where "info_of (addPod g p s) = (info_of s)(p_NodeName p \<mapsto> snd (ni_AddPod g p (gen, info_or_new g s (p_NodeName p))))"
    using addPod_frame(2) by blast
  moreover have "info_of s (p_NodeName p) = Some (info_or_new g s (p_NodeName p)) \<or>
      info_of s (p_NodeName p) = None \<and> info_or_new g s (p_NodeName p) = snd (NewNodeInfo g [] (sc_generation s))"
    by (simp add: info_or_new_def split: option.split)
  ultimately show ?thesis using placed_addPod [OF assms] by metis
qed

subsection \<open>Every operation keeps the invariant\<close>

definition cache_inv :: "sched_gates \<Rightarrow> requests \<Rightarrow> sched_cache \<Rightarrow> bool" where
  "cache_inv g R s \<longleftrightarrow>
     pods_ok s \<and> placed g R (map_of (sc_podStates s)) (info_of s) \<and>
     (\<forall>k st. map_of (sc_podStates s) k = Some st \<longrightarrow> calculateResource g (ps_pod st) = R (p_UID (ps_pod st)))"

fun op_requests :: "sched_gates \<Rightarrow> requests \<Rightarrow> cache_op \<Rightarrow> bool" where
  "op_requests g R (OpAssume p) \<longleftrightarrow> calculateResource g p = R (p_UID p)"
| "op_requests g R (OpForget p) \<longleftrightarrow> calculateResource g p = R (p_UID p)"
| "op_requests g R (OpAdd p) \<longleftrightarrow> calculateResource g p = R (p_UID p)"
| "op_requests g R (OpUpdate p q) \<longleftrightarrow> calculateResource g p = R (p_UID p) \<and> calculateResource g q = R (p_UID q)"
| "op_requests g R _ \<longleftrightarrow> True"

lemma frame_fields: "pods_of s' = pods_of s \<Longrightarrow> sc_podStates s' = sc_podStates s"
  by (simp add: pods_of_def)

lemma inv_drop:
  assumes "placed g R (map_of (sc_podStates s)) (info_of s)" "nowhere (info_of s) k"
    and "\<forall>j st. map_of (sc_podStates s) j = Some st \<longrightarrow> calculateResource g (ps_pod st) = R (p_UID (ps_pod st))"
  shows "placed g R (map_of (AList.delete k (sc_podStates s))) (info_of s)"
    "\<forall>j st. map_of (AList.delete k (sc_podStates s)) j = Some st \<longrightarrow> calculateResource g (ps_pod st) = R (p_UID (ps_pod st))"
  using placed_states [OF assms(1,2)] assms(3) by (simp_all add: delete_conv')

lemma info_of_drop [simp]: "info_of (drop_pod k s) = info_of s"
  by (simp add: drop_pod_def info_of_def fun_eq_iff)

text \<open>The placement part of the invariant, which the operations keep besides the states of the pods.\<close>

definition place_inv :: "sched_gates \<Rightarrow> requests \<Rightarrow> sched_cache \<Rightarrow> bool" where
  "place_inv g R s \<longleftrightarrow>
     placed g R (map_of (sc_podStates s)) (info_of s) \<and>
     (\<forall>k st. map_of (sc_podStates s) k = Some st \<longrightarrow> calculateResource g (ps_pod st) = R (p_UID (ps_pod st)))"

lemma cache_inv_alt: "cache_inv g R s \<longleftrightarrow> pods_ok s \<and> place_inv g R s"
  by (simp add: cache_inv_def place_inv_def)

lemma place_assume:
  assumes "AssumePod g p s = Inr (e, s')" "place_inv g R s" "calculateResource g p = R (p_UID p)"
  shows "place_inv g R s'"
proof (cases "\<exists>k. GetPodKey p = Some k \<and> map_of (sc_podStates s) k = None")
  case True
  then obtain k where k: "GetPodKey p = Some k" "map_of (sc_podStates s) k = None" by blast
  have s': "s' = (addPod g p s)\<lparr>sc_podStates := AList.update k (new_state p) (sc_podStates s),
      sc_assumedPods := AList.update k True (sc_assumedPods (addPod g p s))\<rparr>"
    using assms(1) k frame_fields [OF addPod_frame(1) [of g p s]] by (simp add: AssumePod_def Let_def)
  have "placed g R (map_of (sc_podStates s)) (info_of s)" using assms(2) by (simp add: place_inv_def)
  from placed_cache_addPod [OF this placed_nowhere [OF this k(2)] k(1) assms(3), of "map_of (sc_podStates s')" "new_state p"]
  show ?thesis using assms(2,3) by (auto simp: place_inv_def s' new_state_def)
qed (use assms in \<open>auto simp: AssumePod_def split: option.splits if_splits\<close>)

lemma place_removed:
  assumes "place_inv g R s" "removePod g p s = Inr (e, s1)" "GetPodKey p = Some k" "calculateResource g p = R (p_UID p)"
    and "map_of (sc_podStates s) k = Some st" "p_NodeName (ps_pod st) = p_NodeName p"
  shows "place_inv g R s1 \<and> nowhere (info_of s1) k \<and> sc_podStates s1 = sc_podStates s"
  using placed_removePod [where R = R, OF _ assms(2-6)] assms(1) frame_fields [OF removePod_frame [OF assms(2)]]
  by (simp add: place_inv_def)

lemma place_drop:
  assumes "place_inv g R s" "nowhere (info_of s) k"
  shows "place_inv g R (drop_pod k s)" "place_inv g R (s\<lparr>sc_podStates := AList.delete k (sc_podStates s)\<rparr>)"
  using inv_drop [of g R s k] assms unfolding place_inv_def
  by (simp_all add: drop_pod_def info_of_def [abs_def])

lemma place_forget:
  assumes "ForgetPod g p s = Inr (e, s')" "place_inv g R s" "calculateResource g p = R (p_UID p)"
  shows "place_inv g R s'"
proof (cases "\<exists>k st. GetPodKey p = Some k \<and> map_of (sc_podStates s) k = Some st \<and> p_NodeName (ps_pod st) = p_NodeName p \<and> assumed s k")
  case True
  then obtain k st where k: "GetPodKey p = Some k" "map_of (sc_podStates s) k = Some st" "p_NodeName (ps_pod st) = p_NodeName p" "assumed s k" by blast
  then obtain r s1 where r: "removePod g p s = Inr (r, s1)" "s' = (if r = None then drop_pod k s1 else s1)"
    using assms(1) by (auto simp: ForgetPod_def split: sum.splits option.splits)
  from place_removed [OF assms(2) r(1) k(1) assms(3) k(2,3)] show ?thesis using place_drop(1) by (auto simp: r(2))
qed (use assms in \<open>auto simp: ForgetPod_def split: option.splits if_splits\<close>)

lemma place_map_entry:
  assumes "place_inv g R s" "map_of (sc_podStates s) k = Some st" "p_NodeName p = p_NodeName (ps_pod st)" "calculateResource g p = R (p_UID p)"
    and "sc_podStates s' = AList.map_entry k f (sc_podStates s)" "info_of s' = info_of s" "ps_pod (f st) = p"
  shows "place_inv g R s'"
  using placed_same_node [of g R _ _ k st "f st"] assms
  by (auto simp: place_inv_def)

lemma place_addPod:
  assumes "place_inv g R s" "nowhere (info_of s) k" "GetPodKey p = Some k" "calculateResource g p = R (p_UID p)"
    and "map_of (sc_podStates s') = (map_of (sc_podStates s))(k \<mapsto> st)" "ps_pod st = p" "info_of s' = info_of (addPod g p s)"
  shows "place_inv g R s'"
proof -
  have "placed g R (map_of (sc_podStates s)) (info_of s)" using assms(1) by (simp add: place_inv_def)
  from placed_cache_addPod [OF this assms(2-4), of "map_of (sc_podStates s')" st]
  show ?thesis using assms(1,4-7) by (auto simp: place_inv_def)
qed

lemma place_add:
  assumes "cache_AddPod g p s = Inr (e, s')" "place_inv g R s" "pods_ok s" "calculateResource g p = R (p_UID p)"
  shows "place_inv g R s'"
proof (cases "GetPodKey p")
  case (Some k)
  show ?thesis
  proof (cases "map_of (sc_podStates s) k")
    case None
    have "nowhere (info_of s) k"
      using placed_nowhere [of g R "map_of (sc_podStates s)"] None assms(2) by (simp add: place_inv_def)
    moreover have "s' = (addPod g p s)\<lparr>sc_podStates := AList.update k (new_state p) (sc_podStates s)\<rparr>"
      using assms(1) Some None frame_fields [OF addPod_frame(1) [of g p s]] by (simp add: cache_AddPod_def Let_def)
    ultimately show ?thesis
      by (intro place_addPod [OF assms(2) _ Some assms(4), where st = "new_state p"]) (simp_all add: new_state_def)
  next
    case st: (Some st)
    show ?thesis
    proof (cases "assumed s k")
      case True
      define conf where "conf t = t\<lparr>sc_assumedPods := AList.delete k (sc_assumedPods t),
        sc_podStates := AList.map_entry k (\<lambda>st. st\<lparr>ps_deadline := None, ps_pod := p\<rparr>) (sc_podStates t)\<rparr>" for t :: sched_cache
      have key: "GetPodKey (ps_pod st) = Some k" using assms(3) st by (simp add: pods_ok_def)
      show ?thesis
      proof (cases "p_NodeName (ps_pod st) = p_NodeName p")
        case same: True
        then have "s' = conf s" using assms(1) Some st True by (auto simp: cache_AddPod_def Let_def conf_def)
        then show ?thesis using place_map_entry [OF assms(2) st same [symmetric] assms(4)] by (simp add: conf_def info_of_def [abs_def])
      next
        case False
        then obtain r s1 where r: "removePod g (ps_pod st) s = Inr (r, s1)" "s' = conf (addPod g p s1)"
          using assms(1) Some st True by (auto simp: cache_AddPod_def Let_def conf_def split: sum.splits)
        have "calculateResource g (ps_pod st) = R (p_UID (ps_pod st))" using assms(2) st by (simp add: place_inv_def)
        from place_removed [OF assms(2) r(1) key this st] have s1: "place_inv g R s1" "nowhere (info_of s1) k" "sc_podStates s1 = sc_podStates s" by simp_all
        show ?thesis
          by (rule place_addPod [OF s1(1,2) Some assms(4), where st = "st\<lparr>ps_deadline := None, ps_pod := p\<rparr>"])
             (use frame_fields [OF addPod_frame(1) [of g p s1]] s1(3) st in \<open>simp_all add: r(2) conf_def info_of_def [abs_def]\<close>)
      qed
    qed (use assms Some st in \<open>auto simp: cache_AddPod_def\<close>)
  qed
qed (use assms in \<open>auto simp: cache_AddPod_def\<close>)

lemma place_update:
  assumes "cache_UpdatePod g p q s = Inr (e, s')" "place_inv g R s"
    and "calculateResource g p = R (p_UID p)" "calculateResource g q = R (p_UID q)" "GetPodKey q = GetPodKey p" "p_NodeName q = p_NodeName p"
  shows "place_inv g R s'"
proof (cases "\<exists>k st. GetPodKey p = Some k \<and> map_of (sc_podStates s) k = Some st \<and> \<not> assumed s k")
  case True
  then obtain k st where k: "GetPodKey p = Some k" "map_of (sc_podStates s) k = Some st" "\<not> assumed s k" by blast
  have node: "p_NodeName (ps_pod st) = p_NodeName q" using assms(1) k by (auto simp: cache_UpdatePod_def split: if_splits)
  obtain r s1 where r: "updatePod g p q s = Inr (r, s1)"
    "s' = (if r = None then s1\<lparr>sc_podStates := AList.map_entry k (\<lambda>st. st\<lparr>ps_pod := q\<rparr>) (sc_podStates s1)\<rparr> else s1)"
    using assms(1) k node by (auto simp: cache_UpdatePod_def split: sum.splits option.splits)
  show ?thesis
  proof (cases "map_of (sc_nodes s) (p_NodeName q)")
    case None
    then have "s1 = s" "r = None" using r(1) by (auto simp: updatePod_def)
    then show ?thesis using place_map_entry [OF assms(2) k(2) node [symmetric] assms(4)] by (simp add: r(2) info_of_def [abs_def])
  next
    case (Some c)
    then obtain r2 s2 where r2: "removePod g p s = Inr (r2, s2)" "r = r2" "s1 = (if r2 = None then addPod g q s2 else s2)"
      using r(1) by (auto simp: updatePod_def split: sum.splits option.splits)
    have "p_NodeName (ps_pod st) = p_NodeName p" using node assms(6) by simp
    from place_removed [OF assms(2) r2(1) k(1) assms(3) k(2) this] have s2: "place_inv g R s2" "nowhere (info_of s2) k" "sc_podStates s2 = sc_podStates s"
      by simp_all
    show ?thesis
    proof (cases "r2 = None")
      case True
      have key: "GetPodKey q = Some k" using k(1) assms(5) by simp
      show ?thesis
        by (rule place_addPod [OF s2(1,2) key assms(4), where st = "st\<lparr>ps_pod := q\<rparr>"])
           (use frame_fields [OF addPod_frame(1) [of g q s2]] s2(3) k(2) True in
             \<open>simp_all add: r(2) r2(2,3) info_of_def [abs_def] del: map_of_eq_Some_iff\<close>)
    next
      case False
      then show ?thesis using s2 r2(2,3) r(2) by (cases r2) simp_all
    qed
  qed
qed (use assms in \<open>auto simp: cache_UpdatePod_def split: option.splits\<close>)

lemma place_remove:
  assumes "cache_RemovePod g p s = Inr (e, s')" "place_inv g R s" "pods_ok s"
  shows "place_inv g R s'"
proof (cases "\<exists>k st. GetPodKey p = Some k \<and> map_of (sc_podStates s) k = Some st \<and> \<not> assumed s k")
  case True
  then obtain k st where k: "GetPodKey p = Some k" "map_of (sc_podStates s) k = Some st" "\<not> assumed s k" by blast
  then obtain r s1 where r: "removePod g (ps_pod st) s = Inr (r, s1)"
    "s' = (if r = None then s1\<lparr>sc_podStates := AList.delete k (sc_podStates s1)\<rparr> else s1)"
    using assms(1) by (auto simp: cache_RemovePod_def split: sum.splits option.splits if_splits)
  have "GetPodKey (ps_pod st) = Some k" "calculateResource g (ps_pod st) = R (p_UID (ps_pod st))"
    using assms(2,3) k(2) by (simp_all add: pods_ok_def place_inv_def)
  from place_removed [OF assms(2) r(1) this k(2) refl] have "place_inv g R s1" "nowhere (info_of s1) k" by simp_all
  then show ?thesis using place_drop(2) [of g R s1 k] by (simp add: r(2))
qed (use assms in \<open>auto simp: cache_RemovePod_def split: option.splits\<close>)

lemma place_finish:
  assumes "finishBinding p now s = Inr (e, s')" "place_inv g R s"
  shows "place_inv g R s'"
proof (cases "\<exists>k st. GetPodKey p = Some k \<and> map_of (sc_podStates s) k = Some st \<and> assumed s k")
  case True
  then obtain k st where st: "GetPodKey p = Some k" "map_of (sc_podStates s) k = Some st" "assumed s k" by blast
  let ?st = "st\<lparr>ps_bindingFinished := True, ps_deadline := Some (now + sc_ttl s)\<rparr>"
  have s': "s' = s\<lparr>sc_podStates := AList.update k ?st (sc_podStates s)\<rparr>"
    using assms(1) st by (simp add: finishBinding_def)
  have "placed g R (map_of (sc_podStates s)) (info_of s)" using assms(2) by (simp add: place_inv_def)
  from placed_same_node [OF this st(2), of ?st] show ?thesis
    using assms(2) st(2) by (auto simp: s' place_inv_def)
qed (use assms in \<open>auto simp: finishBinding_def split: option.splits if_splits\<close>)

lemma place_cleanup:
  assumes "cleanup_keys g now keys s = Inr s'" "place_inv g R s" "pods_ok s"
  shows "place_inv g R s'"
  using assms
proof (induction keys arbitrary: s)
  case (Cons k keys)
  obtain st where st: "map_of (sc_podStates s) k = Some st" using Cons.prems(1) by (auto split: option.splits)
  show ?case
  proof (cases "ps_bindingFinished st \<and> (\<exists>d. ps_deadline st = Some d \<and> d < now)")
    case True
    then obtain r s1 where r: "removePod g (ps_pod st) s = Inr (r, s1)"
      "cleanup_keys g now keys (if r = None then drop_pod k s1 else s1) = Inr s'"
      using Cons.prems(1) st by (auto simp: expirePod_def split: sum.splits option.splits)
    have "GetPodKey (ps_pod st) = Some k" "calculateResource g (ps_pod st) = R (p_UID (ps_pod st))"
      using Cons.prems(2,3) st by (simp_all add: pods_ok_def place_inv_def)
    from place_removed [OF Cons.prems(2) r(1) this st refl]
    have s1: "place_inv g R s1" "place_inv g R (drop_pod k s1)" using place_drop(1) by auto
    have "pods_ok s1" using phase_pods_of [OF removePod_frame [OF r(1)]] Cons.prems(3) by simp
    then show ?thesis using Cons.IH [OF r(2)] s1 drop_pod_laws(2) by (simp split: if_splits)
  next
    case False
    then have "cleanup_keys g now keys s = Inr s'" using Cons.prems(1) st by (auto split: option.splits if_splits)
    then show ?thesis using Cons.IH Cons.prems(2,3) by blast
  qed
qed simp

subsection \<open>Operations on nodes\<close>

text \<open>They keep the pods of every info they keep, and what it has recorded as requested.\<close>

definition same_load :: "node_info \<Rightarrow> node_info \<Rightarrow> bool" where
  "same_load i i' \<longleftrightarrow> ni_pods i' = ni_pods i \<and> ni_requested i' = ni_requested i \<and> ni_nonzero i' = ni_nonzero i"

definition loads_kept :: "sched_gates \<Rightarrow> sched_cache \<Rightarrow> sched_cache \<Rightarrow> bool" where
  "loads_kept g s s' \<longleftrightarrow>
     (\<forall>name i'. info_of s' name = Some i' \<longrightarrow>
        (\<exists>i. same_load i i' \<and> (info_of s name = Some i \<or> info_of s name = None \<and> (\<exists>gen. i = snd (NewNodeInfo g [] gen)))))"

lemma same_load_refl [simp]: "same_load i i" and same_load_trans: "same_load i j \<Longrightarrow> same_load j k \<Longrightarrow> same_load i k"
  by (simp_all add: same_load_def)

lemma loads_kept_same: "info_of s' = info_of s \<Longrightarrow> loads_kept g s s'"
  unfolding loads_kept_def using same_load_refl by metis

lemma loads_keptE:
  assumes "loads_kept g s s'" "info_of s' name = Some i'"
  obtains i where "same_load i i'" "info_of s name = Some i"
  | gen where "same_load (snd (NewNodeInfo g [] gen)) i'" "info_of s name = None"
  using spec [OF spec [OF assms(1) [unfolded loads_kept_def], of name], of i'] assms(2) that by auto

lemma loads_keptI:
  assumes "\<And>name i'. info_of s' name = Some i' \<Longrightarrow>
    (\<exists>i. same_load i i' \<and> info_of s name = Some i) \<or> info_of s name = None \<and> (\<exists>gen. same_load (snd (NewNodeInfo g [] gen)) i')"
  shows "loads_kept g s s'"
  unfolding loads_kept_def by (intro allI impI) (use assms in metis)

lemma loads_kept_trans:
  assumes "loads_kept g s t" "loads_kept g t u" "dom (info_of s) \<subseteq> dom (info_of t)"
  shows "loads_kept g s u"
proof (rule loads_keptI)
  fix name k assume "info_of u name = Some k"
  with assms(2) show "(\<exists>i. same_load i k \<and> info_of s name = Some i) \<or> info_of s name = None \<and> (\<exists>gen. same_load (snd (NewNodeInfo g [] gen)) k)"
  proof (cases rule: loads_keptE)
    case (1 j)
    from assms(1) 1(2) show ?thesis
      by (cases rule: loads_keptE) (use same_load_trans [OF _ 1(1)] in blast)+
  next
    case (2 gen)
    then have "info_of s name = None" using assms(3) by (meson domIff subsetD)
    then show ?thesis using 2(1) by blast
  qed
qed

lemma loads_kept_upd:
  "info_of s' = (info_of s)(n := map_option f (info_of s n)) \<Longrightarrow> (\<And>i. same_load i (f i)) \<Longrightarrow> loads_kept g s s' \<and> dom (info_of s') = dom (info_of s)"
  by (auto simp: loads_kept_def)

lemma place_loads:
  assumes "place_inv g R s" "loads_kept g s s'" "sc_podStates s' = sc_podStates s"
  shows "place_inv g R s'"
proof -
  have "node_ok g R (map_of (sc_podStates s)) name i'" if "info_of s' name = Some i'" for name i'
  proof -
    have ok: "node_ok g R (map_of (sc_podStates s)) name i" if "info_of s name = Some i" for i
      using assms(1) that by (simp add: place_inv_def placed_def)
    have new: "node_ok g R (map_of (sc_podStates s)) name (snd (NewNodeInfo g [] gen))" for gen
      by (simp add: node_ok_def NewNodeInfo_accounted)
    have keep: "node_ok g R P name i'" if "node_ok g R P name i" "same_load i i'" for P i
      using that by (simp add: node_ok_def same_load_def accounted_def)
    from assms(2) that show ?thesis by (cases rule: loads_keptE) (use keep ok new in blast)+
  qed
  then show ?thesis using assms(1,3) by (simp add: place_inv_def placed_def)
qed

lemma SetNode_load: "same_load i (snd (ni_SetNode g n (gen, i)))"
  by (simp add: ni_SetNode_def Let_def same_load_def)

lemma image_info [simp]: "info_of (removeNodeImageStates x s) = info_of s"
  by (simp add: removeNodeImageStates_def split: option.split)

lemma addNodeImageStates_info:
  "\<exists>im. info_of (addNodeImageStates n s) = (info_of s)(n_Name n := map_option (ni_imageStates_update (\<lambda>_. im)) (info_of s (n_Name n)))"
  by (auto simp: addNodeImageStates_def fun_eq_iff upd_cell_info split: prod.split)
     (auto simp: info_of_def option.map_comp comp_def)

lemma cell_for_node_loads: "loads_kept g s (cell_for_node g n s) \<and> dom (info_of s) \<subseteq> dom (info_of (cell_for_node g n s))"
proof (cases "map_of (sc_nodes s) (n_Name n)")
  case None
  then have "info_of s (n_Name n) = None" by (simp add: info_of_def)
  then have "loads_kept g s (new_cell g (n_Name n) s)"
    unfolding loads_kept_def new_cell_frame(2) by (auto intro: same_load_refl)
  then show ?thesis using None by (auto simp: cell_for_node_def new_cell_frame(2))
qed (simp add: cell_for_node_def loads_kept_same)

lemma set_node_loads:
  assumes "info_of t = info_of s"
  shows "loads_kept g s (on_info (n_Name n) (ni_SetNode g n) (addNodeImageStates n t))"
proof -
  obtain im where img: "info_of (addNodeImageStates n t) = (info_of s)(n_Name n := map_option (ni_imageStates_update (\<lambda>_. im)) (info_of s (n_Name n)))"
    using addNodeImageStates_info [of n t] assms by auto
  show ?thesis
    using SetNode_load by (auto simp: loads_kept_def on_info_frame(2) img same_load_def)
qed

lemma removeNodeInfoFromList_info: "info_of (removeNodeInfoFromList n s) = (info_of s)(n := None)"
proof (cases "map_of (sc_nodes s) n")
  case None
  then show ?thesis by (auto simp: removeNodeInfoFromList_def info_of_def fun_eq_iff)
next
  case (Some c)
  have del: "info_of (t\<lparr>sc_nodes := AList.delete n (sc_nodes t)\<rparr>) = (info_of t)(n := None)" for t
    by (simp add: info_of_def fun_eq_iff delete_conv')
  show ?thesis using Some by (simp add: removeNodeInfoFromList_def Let_def del cache_frame)
qed

lemma node_ops_loads:
  "loads_kept g s (AddNode g n s)" "UpdateNode g m n s = Inr s' \<Longrightarrow> loads_kept g s s'"
  "loads_kept g s (snd (RemoveNode n s))"
proof -
  note cell = cell_for_node_loads [of g s n]
  have after: "loads_kept g s (on_info (n_Name n) (ni_SetNode g n) (addNodeImageStates n t))"
    if "info_of t = info_of (cell_for_node g n s)" for t
    using loads_kept_trans [OF conjunct1 [OF cell] set_node_loads [OF that] conjunct2 [OF cell]] .
  show "loads_kept g s (AddNode g n s)"
    unfolding AddNode_def Let_def by (rule after) (simp add: cache_frame)
  show "UpdateNode g m n s = Inr s' \<Longrightarrow> loads_kept g s s'"
    by (auto simp: UpdateNode_def Let_def cache_frame intro!: after split: sum.splits option.splits)
  have "info_of (snd (RemoveNode n s)) = info_of s \<or> info_of (snd (RemoveNode n s)) = (info_of s)(n_Name n := None)"
    by (auto simp: RemoveNode_def Let_def removeNodeInfoFromList_info split: prod.split bool.split)
  then show "loads_kept g s (snd (RemoveNode n s))"
    unfolding loads_kept_def by (metis fun_upd_apply option.distinct(1) same_load_refl)
qed

lemma run_op_place:
  assumes "run_op g op s = Inr (e, s')" "cache_inv g R s" "op_ok op" "op_requests g R op"
  shows "cache_inv g R s'"
proof -
  have inv: "pods_ok s" "place_inv g R s" using assms(2) by (simp_all add: cache_inv_alt)
  have "place_inv g R s'"
  proof (cases op)
    case (OpAssume p)
    then show ?thesis using place_assume [of g p s e s' R] assms inv by simp
  next
    case (OpForget p)
    then show ?thesis using place_forget [of g p s e s' R] assms inv by simp
  next
    case (OpAdd p)
    then show ?thesis using place_add [of g p s e s' R] assms inv by simp
  next
    case (OpUpdate p q)
    then show ?thesis using place_update [of g p q s e s' R] assms inv by simp
  next
    case (OpRemove p)
    then show ?thesis using place_remove [of g p s e s' R] assms inv by simp
  next
    case (OpFinish p now)
    then show ?thesis using place_finish [of p now s e s' g R] assms inv by simp
  next
    case (OpAddNode n)
    then have "s' = AddNode g n s" using assms(1) by simp
    then show ?thesis using place_loads [OF inv(2) node_ops_loads(1) frame_fields [OF node_ops_frame(1)]] by simp
  next
    case (OpUpdateNode m n)
    then have "UpdateNode g m n s = Inr s'" using assms(1) by (auto split: sum.splits)
    then show ?thesis using place_loads [OF inv(2) node_ops_loads(2) frame_fields [OF node_ops_frame(2)]] by blast
  next
    case (OpRemoveNode n)
    then have "s' = snd (RemoveNode n s)" using assms(1) by (metis Inr_inject run_op.simps(9) snd_conv)
    then show ?thesis using place_loads [OF inv(2) node_ops_loads(3) frame_fields [OF node_ops_frame(3)]] by simp
  next
    case (OpCleanup now)
    then show ?thesis using place_cleanup [of g now _ s s' R] assms(1) inv by (auto simp: cleanupAssumedPods_def split: sum.splits)
  qed
  then show ?thesis using run_op_life [OF assms(1) inv(1) assms(3)] by (simp add: cache_inv_alt)
qed

subsection \<open>Reachable states\<close>

inductive cache_reach :: "sched_gates \<Rightarrow> requests \<Rightarrow> sched_cache \<Rightarrow> bool" for g R where
  start: "cache_reach g R (newSchedulerCache ttl gen)"
| step: "cache_reach g R s \<Longrightarrow> op_ok op \<Longrightarrow> op_requests g R op \<Longrightarrow> run_op g op s = Inr (e, s') \<Longrightarrow> cache_reach g R s'"

lemma cache_reach_inv: "cache_reach g R s \<Longrightarrow> cache_inv g R s"
proof (induction rule: cache_reach.induct)
  case (start ttl gen)
  show ?case by (simp add: cache_inv_def pods_ok_def placed_def newSchedulerCache_def info_of_def)
next
  case (step s op e s')
  then show ?case using run_op_place by blast
qed

text \<open>
  C35: Whatever events arrive in whatever order, what a node has recorded as requested is, for every resource and
  modulo \<open>2 ^ 64\<close>, the sum of the requests of the pods it holds; no node holds a pod twice, and no pod is held by two
  nodes.  The events are those of pods whose requests never change, and an update keeps the pod's UID and node: the
  code checks neither, and an update that merges the deletion of a pod with the creation of
  another of the same name breaks the claim (lemma \<open>merged_update_breaks_the_cache\<close>).
\<close>

theorem pods_counted_at_most_once:
  assumes "cache_reach g R s" "info_of s n = Some i" "info_of s m = Some j"
  shows "(\<forall>k. amount (ni_requested i) k = wrap64 (requested_sum g (ni_pods i) k)) \<and> distinct (map p_UID (ni_pods i)) \<and>
    (n \<noteq> m \<longrightarrow> p_UID ` set (ni_pods i) \<inter> p_UID ` set (ni_pods j) = {})"
proof -
  let ?P = "map_of (sc_podStates s)"
  have i: "node_ok g R ?P n i" "node_ok g R ?P m j"
    using cache_reach_inv [OF assms(1)] assms(2,3) by (simp_all add: cache_inv_def placed_def)
  have on: "\<exists>st. ?P (p_UID p) = Some st \<and> p_NodeName (ps_pod st) = name" if "pod_on g R ?P name p" for name p
    using that by (auto simp: pod_on_def key_UID)
  have "GetPodKey p = Some (p_UID p)" if "p \<in> set (ni_pods i)" for p
    using i(1) that by (auto simp: node_ok_def pod_on_def key_UID)
  then have "map GetPodKey (ni_pods i) = map Some (map p_UID (ni_pods i))" by simp
  then have "distinct (map p_UID (ni_pods i))" using i(1) by (metis distinct_map node_ok_def)
  moreover have "p_UID ` set (ni_pods i) \<inter> p_UID ` set (ni_pods j) = {}" if "n \<noteq> m"
  proof -
    have "p_UID p \<noteq> p_UID q" if "p \<in> set (ni_pods i)" "q \<in> set (ni_pods j)" for p q
      using on [of n p] on [of m q] i that \<open>n \<noteq> m\<close> by (auto simp: node_ok_def)
    then show ?thesis by blast
  qed
  ultimately show ?thesis using i(1) by (simp add: node_ok_def accounted_def)
qed

subsection \<open>A node that comes back\<close>

lemma RemoveNode_info: "RemoveNode nd s = (None, s1) \<Longrightarrow> info_of s1 = (info_of s)(n_Name nd := None)"
  by (auto simp: RemoveNode_def Let_def removeNodeInfoFromList_info split: prod.splits bool.splits if_splits)

lemma AddNode_new_info:
  assumes "info_of s (n_Name nd) = None"
  shows "\<exists>i. info_of (AddNode g nd s) (n_Name nd) = Some i \<and> ni_pods i = [] \<and> ni_node i = Some nd"
proof -
  have "map_of (sc_nodes s) (n_Name nd) = None" using assms by (simp add: info_of_def)
  then have c: "info_of (cell_for_node g nd s) = (info_of s)(n_Name nd \<mapsto> snd (NewNodeInfo g [] (sc_generation s)))"
    by (simp add: cell_for_node_def new_cell_frame(2))
  define t where "t = (moveNodeInfoToHead (n_Name nd) (cell_for_node g nd s))\<lparr>sc_nodeTree :=
    nt_addNode nd (sc_nodeTree (moveNodeInfoToHead (n_Name nd) (cell_for_node g nd s)))\<rparr>"
  have t: "info_of t = (info_of s)(n_Name nd \<mapsto> snd (NewNodeInfo g [] (sc_generation s)))" by (simp add: t_def move_frame c)
  obtain im where "info_of (addNodeImageStates nd t) = (info_of t)(n_Name nd := map_option (ni_imageStates_update (\<lambda>_. im)) (info_of t (n_Name nd)))"
    using addNodeImageStates_info by blast
  then show ?thesis
    by (simp add: AddNode_def Let_def t_def [symmetric] on_info_frame(2) t) (simp add: ni_SetNode_def Let_def)
qed

lemma RemovePod_empty:
  "GetPodKey p = Some k \<Longrightarrow> ni_pods i = [] \<Longrightarrow> ni_node i = Some nd \<Longrightarrow> \<exists>i'. ni_RemovePod g p (gen, i) = Inr (Some NoSuchPod, gen, i')"
  by (auto simp: ni_RemovePod_def Let_def split: option.split)

text \<open>
  A node that is removed from the cache and added again has no pods there, although the cache still
  tracks them: their states are unchanged, nothing of what they request is counted, and removing
  such a pod when it is deleted fails and leaves it tracked for good.
\<close>

theorem returning_node_is_empty:
  assumes "RemoveNode nd s = (None, s1)" "pods_ok s"
  shows "(\<exists>i. info_of (AddNode g nd s1) (n_Name nd) = Some i \<and> ni_pods i = []) \<and> phase (AddNode g nd s1) = phase s \<and>
    (\<forall>k st. map_of (sc_podStates s) k = Some st \<and> phase s k = Added \<and> p_NodeName (ps_pod st) = n_Name nd \<longrightarrow>
       (\<exists>s2. cache_RemovePod g (ps_pod st) (AddNode g nd s1) = Inr (Some (InfoError NoSuchPod), s2) \<and> phase s2 k = Added))"
proof -
  let ?t = "AddNode g nd s1"
  obtain i where i: "info_of ?t (n_Name nd) = Some i" "ni_pods i = []" "ni_node i = Some nd"
    using AddNode_new_info [of s1 nd g] RemoveNode_info [OF assms(1)] by auto
  have "pods_of ?t = pods_of s" using node_ops_frame(1) [of g nd s1] node_ops_frame(3) [of nd s] assms(1) by simp
  note f = phase_pods_of [OF this] frame_fields [OF this]
  have "\<exists>s2. cache_RemovePod g (ps_pod st) ?t = Inr (Some (InfoError NoSuchPod), s2) \<and> phase s2 k = Added"
    if st: "map_of (sc_podStates s) k = Some st" "phase s k = Added" "p_NodeName (ps_pod st) = n_Name nd" for k st
  proof -
    have key: "GetPodKey (ps_pod st) = Some k" using assms(2) st(1) by (simp add: pods_ok_def)
    have na: "\<not> assumed ?t k" using f(1) st(1,2) by (auto simp: phase_def split: if_splits)
    obtain c where c: "map_of (sc_nodes ?t) (n_Name nd) = Some c" "ce_info c = i" using i(1) by (auto simp: info_of_def)
    obtain i' where "ni_RemovePod g (ps_pod st) (sc_generation ?t, i) = Inr (Some NoSuchPod, sc_generation ?t, i')"
      using RemovePod_empty [OF key i(2,3)] by blast
    then obtain s2 where r: "removePod g (ps_pod st) ?t = Inr (Some (InfoError NoSuchPod), s2)"
      using c st(3) by (simp add: removePod_def)
    then have "cache_RemovePod g (ps_pod st) ?t = Inr (Some (InfoError NoSuchPod), s2)"
      using key na f(2) st(1) by (simp add: cache_RemovePod_def)
    moreover have "phase s2 k = Added" using phase_pods_of [OF removePod_frame [OF r]] f(1) st(2) by simp
    ultimately show ?thesis by blast
  qed
  then show ?thesis using i f(1) by blast
qed

text \<open>The operations on pods and infos leave the node tree alone.\<close>

lemma tree_frame [cache_frame]:
  "sc_nodeTree (upd_cell n f s) = sc_nodeTree s" "sc_nodeTree (unlink c s) = sc_nodeTree s"
  "sc_nodeTree (moveNodeInfoToHead n s) = sc_nodeTree s" "sc_nodeTree (new_cell g n s) = sc_nodeTree s"
  "sc_nodeTree (on_info n h s) = sc_nodeTree s" "sc_nodeTree (addPod g p s) = sc_nodeTree s"
  "sc_nodeTree (removeNodeImageStates x s) = sc_nodeTree s" "sc_nodeTree (addNodeImageStates nd s) = sc_nodeTree s"
  "sc_nodeTree (removeNodeInfoFromList n s) = sc_nodeTree s"
proof -
  show upd: "sc_nodeTree (upd_cell n f s) = sc_nodeTree s" for n f s by (simp add: upd_cell_def)
  show unl: "sc_nodeTree (unlink c s) = sc_nodeTree s" for s by (simp add: unlink_def Let_def upd split: option.split)
  then show mov: "sc_nodeTree (moveNodeInfoToHead n s) = sc_nodeTree s" for n s
    by (simp add: moveNodeInfoToHead_def unlink_def Let_def upd split: option.split)
  show new: "sc_nodeTree (new_cell g n s) = sc_nodeTree s" for n s by (simp add: new_cell_def split: prod.split)
  show onf: "sc_nodeTree (on_info n h s) = sc_nodeTree s" for n h s by (simp add: on_info_def upd split: option.split prod.split)
  show "sc_nodeTree (addPod g p s) = sc_nodeTree s" by (simp add: addPod_def Let_def mov onf new split: option.split)
  show "sc_nodeTree (removeNodeImageStates x s) = sc_nodeTree s" by (simp add: removeNodeImageStates_def split: option.split)
  show "sc_nodeTree (addNodeImageStates nd s) = sc_nodeTree s" by (simp add: addNodeImageStates_def upd split: prod.split)
  show "sc_nodeTree (removeNodeInfoFromList n s) = sc_nodeTree s"
    by (simp add: removeNodeInfoFromList_def unlink_def Let_def upd split: option.split)
qed

lemma cell_for_node_tree: "sc_nodeTree (cell_for_node g nd s) = sc_nodeTree s"
  by (simp add: cell_for_node_def cache_frame split: option.split)

definition worker :: node where
  "worker = zoned ''worker'' ''A''"

definition bound_pod :: pod where
  "bound_pod = (sched_pod ''a'' 60)\<lparr>p_NodeName := ''worker''\<rparr>"

definition with_worker :: sched_cache where
  "with_worker = AddNode slo_gates worker (newSchedulerCache 30 0)"

definition with_pod :: sched_cache where
  "with_pod = (addPod slo_gates bound_pod with_worker)\<lparr>sc_podStates := [(''a'', new_state bound_pod)]\<rparr>"

lemma bound_pod [simp]: "p_NodeName bound_pod = ''worker''" "GetPodKey bound_pod = Some ''a''" "p_UID bound_pod = ''a''"
  by (simp_all add: bound_pod_def sched_pod_def GetPodKey_def)

lemma with_worker: "info_of with_worker ''worker'' \<noteq> None" "pods_of with_worker = ([], [], 30)"
    "sc_nodeTree with_worker = nt_addNode worker (newNodeTree [])"
proof -
  have "info_of (newSchedulerCache 30 0) (n_Name worker) = None" by (simp add: newSchedulerCache_def info_of_def)
  then show "info_of with_worker ''worker'' \<noteq> None"
    using AddNode_new_info [of "newSchedulerCache 30 0" worker slo_gates] by (auto simp: with_worker_def worker_def)
  show "pods_of with_worker = ([], [], 30)"
    by (simp add: with_worker_def node_ops_frame(1)) (simp add: newSchedulerCache_def pods_of_def)
  show "sc_nodeTree with_worker = nt_addNode worker (newNodeTree [])"
    by (simp add: with_worker_def AddNode_def Let_def cache_frame cell_for_node_tree) (simp add: newSchedulerCache_def)
qed

lemma with_pod: "run_op slo_gates (OpAdd bound_pod) with_worker = Inr (None, with_pod)" "pods_ok with_pod" "phase with_pod ''a'' = Added"
  "\<exists>s1. RemoveNode worker with_pod = (None, s1)"
proof -
  have w: "sc_podStates with_worker = []" "sc_assumedPods with_worker = []"
    using with_worker(2) by (simp_all add: pods_of_def)
  moreover have f: "sc_podStates (addPod slo_gates bound_pod with_worker) = []" "sc_assumedPods (addPod slo_gates bound_pod with_worker) = []"
    using addPod_frame(1) [of slo_gates bound_pod with_worker] w by (simp_all add: pods_of_def)
  ultimately show "run_op slo_gates (OpAdd bound_pod) with_worker = Inr (None, with_pod)"
    by (simp add: cache_AddPod_def Let_def with_pod_def)
  show "pods_ok with_pod" "phase with_pod ''a'' = Added"
    using f by (simp_all add: pods_ok_def with_pod_def phase_def assumed_def new_state_def)
  have "info_of with_pod ''worker'' \<noteq> None"
    using addPod_frame(2) [of slo_gates bound_pod with_worker] by (auto simp: with_pod_def)
  then have "map_of (sc_nodes with_pod) ''worker'' \<noteq> None" by (auto simp: info_of_def)
  moreover have "sc_nodeTree with_pod = nt_addNode worker (newNodeTree [])"
    by (simp add: with_pod_def cache_frame with_worker(3))
  moreover have "\<exists>t. nt_removeNode worker (nt_addNode worker (newNodeTree [])) = (False, t)"
    by (simp add: nt_removeNode_def nt_addNode_def newNodeTree_def empty_node_tree_def worker_def Let_def)
  ultimately show "\<exists>s1. RemoveNode worker with_pod = (None, s1)"
    by (auto simp: RemoveNode_def Let_def cache_frame worker_def)
qed

theorem returning_node_is_empty_witness:
  "\<exists>s1 i s2. RemoveNode worker with_pod = (None, s1) \<and>
     info_of (AddNode slo_gates worker s1) ''worker'' = Some i \<and> ni_pods i = [] \<and>
     cache_RemovePod slo_gates bound_pod (AddNode slo_gates worker s1) = Inr (Some (InfoError NoSuchPod), s2) \<and> phase s2 ''a'' = Added"
proof -
  obtain s1 where s1: "RemoveNode worker with_pod = (None, s1)" using with_pod(4) by blast
  have "map_of (sc_podStates with_pod) ''a'' = Some (new_state bound_pod)" "ps_pod (new_state bound_pod) = bound_pod"
    by (simp_all add: with_pod_def new_state_def)
  then show ?thesis
    using returning_node_is_empty [OF s1 with_pod(2), of slo_gates] with_pod(3) s1 by (fastforce simp: worker_def)
qed

theorem pods_counted_at_most_once_witness:
  "\<exists>i. run_op slo_gates (OpAddNode worker) (newSchedulerCache 30 0) = Inr (None, with_worker) \<and>
     run_op slo_gates (OpAdd bound_pod) with_worker = Inr (None, with_pod) \<and> info_of with_pod ''worker'' = Some i \<and>
     amount (ni_requested i) ResourceSLO = wrap64 (requested_sum slo_gates (ni_pods i) ResourceSLO) \<and>
     distinct (map p_UID (ni_pods i))"
proof -
  let ?R = "\<lambda>_. calculateResource slo_gates bound_pod"
  have "cache_reach slo_gates ?R with_worker"
    using cache_reach.step [OF cache_reach.start, of "OpAddNode worker" slo_gates ?R 30 0] by (simp add: with_worker_def)
  then have r: "cache_reach slo_gates ?R with_pod"
    using cache_reach.step [of slo_gates ?R with_worker "OpAdd bound_pod", OF _ _ _ with_pod(1)] by simp
  obtain i where i: "info_of with_pod ''worker'' = Some i"
    using addPod_frame(2) [of slo_gates bound_pod with_worker] by (auto simp: with_pod_def)
  have "run_op slo_gates (OpAddNode worker) (newSchedulerCache 30 0) = Inr (None, with_worker)" by (simp add: with_worker_def)
  then show ?thesis using pods_counted_at_most_once [OF r i i] i with_pod(1) by (intro exI [of _ i] conjI) blast+
qed

text \<open>
  An update that brings another pod of the same name, which is how a reflector reports a deletion and a creation it
  missed in between: the new pod is counted under the key of the old one.  When it is deleted the cache does not know
  it, so it stays counted; if it is added, it is counted twice.
\<close>

definition replacing_pod :: pod where
  "replacing_pod = bound_pod\<lparr>p_UID := ''b''\<rparr>"

lemma merged_update_breaks_the_cache:
  "case run_op slo_gates (OpUpdate bound_pod replacing_pod) with_pod of
     Inr (None, s1) \<Rightarrow>
       (case (run_op slo_gates (OpRemove replacing_pod) s1, run_op slo_gates (OpAdd replacing_pod) s1) of
          (Inr (Some e, s2), Inr (None, s3)) \<Rightarrow>
            map_option (\<lambda>i. map p_UID (ni_pods i)) (info_of s2 ''worker'') = Some [''b''] \<and>
            map_option (\<lambda>i. map p_UID (ni_pods i)) (info_of s3 ''worker'') = Some [''b'', ''b'']
        | _ \<Rightarrow> False)
   | _ \<Rightarrow> False"
  by code_simp

end
