(* ===== verification/SchedSnapshot.thy ===== *)
theory SchedSnapshot
  imports SchedCacheList SchedCachePods
begin

section \<open>Snapshots of the cache\<close>

text \<open>
  \<open>Snapshot\<close> and \<open>UpdateSnapshot\<close> of \<open>pkg/scheduler/internal/cache\<close>.  The lists of a snapshot point to the
  infos of its map, which an update overwrites in place; a snapshot therefore has a store of its own,
  with the map and the lists as addresses into it.  The volume counts that are reset are left out.
\<close>

subsection \<open>The snapshot and its update\<close>

record snapshot =
  sn_store :: "nat \<Rightarrow> node_info"
  sn_fresh :: nat
  sn_map :: "(string \<times> nat) list"
  sn_list :: "nat list"
  sn_affinity :: "nat list"
  sn_generation :: int

definition NewEmptySnapshot :: snapshot where
  "NewEmptySnapshot =
     \<lparr>sn_store = (\<lambda>_. empty_node_info 0), sn_fresh = 0, sn_map = [], sn_list = [], sn_affinity = [], sn_generation = 0\<rparr>"

definition has_affinity :: "node_info \<Rightarrow> bool" where
  "has_affinity i \<longleftrightarrow> ni_podsWithAffinity i \<noteq> []"

text \<open>One node of the loop: the flags are \<open>updateAllLists\<close> and \<open>updateNodesHavePodsWithAffinity\<close>.\<close>

definition copy_info :: "node_info \<Rightarrow> snapshot \<times> bool \<times> bool \<Rightarrow> snapshot \<times> bool \<times> bool" where
  "copy_info info st =
     (case st of (sn, updAll, updAff) \<Rightarrow>
        (case ni_node info of
           None \<Rightarrow> (sn, updAll, updAff)
         | Some np \<Rightarrow>
             (case map_of (sn_map sn) (n_Name np) of
                Some a \<Rightarrow>
                  (sn\<lparr>sn_store := (sn_store sn)(a := info)\<rparr>, updAll,
                   updAff \<or> has_affinity (sn_store sn a) \<noteq> has_affinity info)
              | None \<Rightarrow>
                  let a = sn_fresh sn in
                  (sn\<lparr>sn_store := (sn_store sn)(a := info), sn_fresh := Suc a,
                      sn_map := AList.update (n_Name np) a (sn_map sn)\<rparr>, True,
                   updAff \<or> has_affinity info))))"

text \<open>The loop over the linked list, from a node that may be nil; a dangling pointer cannot be followed.\<close>

partial_function (option) copy_updated ::
  "sched_cache \<Rightarrow> int \<Rightarrow> string option \<Rightarrow> snapshot \<times> bool \<times> bool \<Rightarrow> (snapshot \<times> bool \<times> bool) option" where
  "copy_updated s generation n st =
     (case n of
        None \<Rightarrow> Some st
      | Some name \<Rightarrow>
          (case map_of (sc_nodes s) name of
             None \<Rightarrow> None
           | Some c \<Rightarrow>
               if ni_generation (ce_info c) \<le> generation then Some st
               else copy_updated s generation (ce_next c) (copy_info (ce_info c) st)))"

fun remove_deleted :: "sched_cache \<Rightarrow> int \<Rightarrow> string list \<Rightarrow> (string \<times> nat) list \<Rightarrow> (string \<times> nat) list" where
  "remove_deleted s toDelete [] m = m"
| "remove_deleted s toDelete (name # names) m =
     (if toDelete \<le> 0 then m
      else if map_of (sc_nodes s) name = None then remove_deleted s (toDelete - 1) names (AList.delete name m)
      else remove_deleted s toDelete names m)"

definition removeDeletedNodesFromSnapshot :: "sched_cache \<Rightarrow> snapshot \<Rightarrow> snapshot" where
  "removeDeletedNodesFromSnapshot s sn =
     sn\<lparr>sn_map := remove_deleted s (int (length (sn_map sn)) - int (length (sc_nodes s))) (map fst (sn_map sn)) (sn_map sn)\<rparr>"

text \<open>The names of the tree are taken first; reading the map in between would not change them.\<close>

definition updateNodeInfoSnapshotList :: "sched_cache \<Rightarrow> snapshot \<Rightarrow> bool \<Rightarrow> (go_panic + sched_cache \<times> snapshot) option" where
  "updateNodeInfoSnapshotList s sn updateAll =
     (if updateAll then
        (case nt_take (nat (nt_numNodes (sc_nodeTree s))) (sc_nodeTree s) of
           None \<Rightarrow> None
         | Some (Inl p) \<Rightarrow> Some (Inl p)
         | Some (Inr (names, t)) \<Rightarrow>
             let l = List.map_filter (map_of (sn_map sn)) names in
             Some (Inr (s\<lparr>sc_nodeTree := t\<rparr>,
               sn\<lparr>sn_list := l, sn_affinity := filter (\<lambda>a. has_affinity (sn_store sn a)) l\<rparr>)))
      else Some (Inr (s, sn\<lparr>sn_affinity := filter (\<lambda>a. has_affinity (sn_store sn a)) (sn_list sn)\<rparr>)))"

text \<open>The result says whether an error is returned.\<close>

definition UpdateSnapshot :: "sched_cache \<Rightarrow> snapshot \<Rightarrow> (go_panic + bool \<times> sched_cache \<times> snapshot) option" where
  "UpdateSnapshot s sn0 =
     (case copy_updated s (sn_generation sn0) (sc_headNode s) (sn0, False, False) of
        None \<Rightarrow> None
      | Some (sn1, updAll, updAff) \<Rightarrow>
          let sn2 = (case sc_headNode s of
                       None \<Rightarrow> sn1
                     | Some h \<Rightarrow>
                         (case info_of s h of Some i \<Rightarrow> sn1\<lparr>sn_generation := ni_generation i\<rparr> | None \<Rightarrow> sn1));
              deleted = length (sc_nodes s) < length (sn_map sn2);
              sn3 = (if deleted then removeDeletedNodesFromSnapshot s sn2 else sn2);
              all = (updAll \<or> deleted)
          in case (if all \<or> updAff then updateNodeInfoSnapshotList s sn3 all else Some (Inr (s, sn3))) of
               None \<Rightarrow> None
             | Some (Inl p) \<Rightarrow> Some (Inl p)
             | Some (Inr (s4, sn4)) \<Rightarrow>
                 if int (length (sn_list sn4)) \<noteq> nt_numNodes (sc_nodeTree s4) then
                   (case updateNodeInfoSnapshotList s4 sn4 True of
                      None \<Rightarrow> None
                    | Some (Inl p) \<Rightarrow> Some (Inl p)
                    | Some (Inr (s5, sn5)) \<Rightarrow> Some (Inr (True, s5, sn5)))
                 else Some (Inr (False, s4, sn4)))"

definition sn_Get :: "snapshot \<Rightarrow> string \<Rightarrow> node_info option" where
  "sn_Get sn name =
     (case map_of (sn_map sn) name of
        None \<Rightarrow> None
      | Some a \<Rightarrow> if ni_node (sn_store sn a) = None then None else Some (sn_store sn a))"

definition sn_NodeInfos :: "snapshot \<Rightarrow> node_info list" where
  "sn_NodeInfos sn = map (sn_store sn) (sn_list sn)"

definition sn_HavePodsWithAffinityList :: "snapshot \<Rightarrow> node_info list" where
  "sn_HavePodsWithAffinityList sn = map (sn_store sn) (sn_affinity sn)"

end
