(* ===== verification/GenericScheduler.thy ===== *)
theory GenericScheduler
  imports SchedFramework SchedSnapshot SchedQueue
begin

section \<open>Choosing a node for a pod\<close>

text \<open>
  \<open>genericScheduler\<close> of \<open>pkg/scheduler/core/generic_scheduler.go\<close>, its scheduling half: the filters run on the
  nodes of a snapshot in parallel until enough feasible nodes are found, then the extenders, then the scores.
  The list \<open>order\<close> holds the indices of the nodes in the order in which their checks take effect; what a run in
  parallel can leave out is said by \<open>possible_order\<close>.  The result of \<open>rand.Intn k\<close> for the \<open>j\<close>-th draw is
  \<open>rnd j k\<close>.  An extender is a record of its methods; errors are strings.  Every info on the list of a snapshot has a
  node, so using one that has none panics here at once, where the code does so when it reads its name.
\<close>

subsection \<open>The scheduler and its extenders\<close>

record victims =
  vi_Pods :: "pod list"
  vi_NumPDBViolations :: int

type_synonym node_victims = "(node \<times> victims) list"

record extender =
  ex_IsInterested :: "pod \<Rightarrow> bool"
  ex_IsIgnorable :: bool
  ex_IsBinder :: bool
  ex_Filter :: "pod \<Rightarrow> node list \<Rightarrow> string + node list \<times> (string \<times> string) list"
  ex_Prioritize :: "pod \<Rightarrow> node list \<Rightarrow> string + (string \<times> int) list \<times> int"
  ex_SupportsPreemption :: bool
  ex_ProcessPreemption :: "pod \<Rightarrow> node_victims \<Rightarrow> snapshot \<Rightarrow> string + node_victims"

record disruption_budget =
  db_Namespace :: string
  db_Selector :: "label_selector option"
  db_DisruptionsAllowed :: int

text \<open>The claim lister maps a namespace and a name to an error or to whether the claim is being deleted.\<close>

record generic_scheduler =
  gs_cache :: sched_cache
  gs_schedulingQueue :: "sched_queue option"
  gs_extenders :: "extender list"
  gs_nodeInfoSnapshot :: snapshot
  gs_pvcLister :: "string \<Rightarrow> string \<Rightarrow> string + bool"
  gs_pdbLister :: "(string + disruption_budget list) option"
  gs_disablePreemption :: bool
  gs_percentageOfNodesToScore :: int
  gs_enableNonPreempting :: bool
  gs_nextStartNodeIndex :: int

type_synonym node_statuses = "(string \<times> status) list"

record fit_error =
  fe_Pod :: pod
  fe_NumAllNodes :: int
  fe_FilteredNodesStatuses :: node_statuses

datatype schedule_error = NoNodesAvailable | SnapshotInconsistent | FitError fit_error | OtherError string

record schedule_result =
  sr_SuggestedHost :: string
  sr_EvaluatedNodes :: int
  sr_FeasibleNodes :: int

subsection \<open>Basic checks and the number of nodes to find\<close>

fun check_claims :: "(string \<Rightarrow> string + bool) \<Rightarrow> string list \<Rightarrow> string option" where
  "check_claims get [] = None"
| "check_claims get (c # cs) =
     (case get c of
        Inl e \<Rightarrow> Some e
      | Inr deleting \<Rightarrow>
          if deleting then Some (''persistentvolumeclaim '' @ quoted c @ '' is being deleted'') else check_claims get cs)"

definition podPassesBasicChecks :: "pod \<Rightarrow> (string \<Rightarrow> string \<Rightarrow> string + bool) \<Rightarrow> string option" where
  "podPassesBasicChecks pod pvcLister = check_claims (pvcLister (p_Namespace pod)) (p_VolumeClaims pod)"

definition minFeasibleNodesToFind :: int where "minFeasibleNodesToFind = 100"
definition minFeasibleNodesPercentageToFind :: int where "minFeasibleNodesPercentageToFind = 5"

definition adaptive_percentage :: "int \<Rightarrow> int \<Rightarrow> int" where
  "adaptive_percentage pct n =
     (if pct \<le> 0 then
        let a = wrap32 (50 - n sdiv 125) in
        if a < minFeasibleNodesPercentageToFind then minFeasibleNodesPercentageToFind else a
      else pct)"

definition numFeasibleNodesToFind :: "generic_scheduler \<Rightarrow> int \<Rightarrow> int" where
  "numFeasibleNodesToFind s n =
     (if n < minFeasibleNodesToFind \<or> 100 \<le> gs_percentageOfNodesToScore s then n
      else
        let found = wrap32 (n * adaptive_percentage (gs_percentageOfNodesToScore s) n) sdiv 100 in
        if found < minFeasibleNodesToFind then minFeasibleNodesToFind else found)"

definition nodes_to_find :: "generic_scheduler \<Rightarrow> node_info list \<Rightarrow> int" where
  "nodes_to_find s allNodes = numFeasibleNodesToFind s (wrap32 (int (length allNodes)))"

subsection \<open>One node\<close>

definition NominatedPodsForNode :: "generic_scheduler \<Rightarrow> string \<Rightarrow> pod list" where
  "NominatedPodsForNode s node = (case gs_schedulingQueue s of None \<Rightarrow> [] | Some q \<Rightarrow> sq_NominatedPodsForNode node q)"

text \<open>The loop over the nominated pods: the error, or whether a pod was added, with the counter of the generations.\<close>

fun add_nominated ::
    "sched_gates \<Rightarrow> 'st sched_framework \<Rightarrow> pod \<Rightarrow> pod list \<Rightarrow> bool \<Rightarrow> 'st \<Rightarrow> int \<times> node_info \<Rightarrow>
     (string + bool \<times> 'st \<times> node_info) \<times> int" where
  "add_nominated g prof pod [] added st (gen, n) = (Inr (added, st, n), gen)"
| "add_nominated g prof pod (p # ps) added st (gen, n) =
     (if p_Priority pod \<le> p_Priority p \<and> p_UID p \<noteq> p_UID pod then
        (case ni_AddPod g p (gen, n) of
           (gen1, n1) \<Rightarrow>
             (case RunPreFilterExtensionAddPod prof pod p n1 st of
                (status, st1) \<Rightarrow>
                  (case AsError status of
                     Some e \<Rightarrow> (Inl e, gen1)
                   | None \<Rightarrow> add_nominated g prof pod ps True st1 (gen1, n1))))
      else add_nominated g prof pod ps added st (gen, n))"

definition addNominatedPods ::
    "generic_scheduler \<Rightarrow> sched_gates \<Rightarrow> 'st sched_framework \<Rightarrow> pod \<Rightarrow> 'st \<Rightarrow> int \<times> node_info \<Rightarrow>
     (string + bool \<times> 'st \<times> node_info) \<times> int" where
  "addNominatedPods s g prof pod st gn =
     (case gn of (gen, n) \<Rightarrow>
        (case ni_node n of
           None \<Rightarrow> (Inr (False, st, n), gen)
         | Some nd \<Rightarrow>
             let ps = NominatedPodsForNode s (n_Name nd) in
             if ps = [] then (Inr (False, st, n), gen) else add_nominated g prof pod ps False st (gen, n)))"

text \<open>The status with which the filters end, or the error: \<open>fits\<close> is the success of the status.\<close>

definition run_and_merge :: "'st sched_framework \<Rightarrow> 'st \<Rightarrow> pod \<Rightarrow> node_info \<Rightarrow> string + status option" where
  "run_and_merge prof st pod n =
     (let status = Merge (RunFilterPlugins prof st pod n) in
      if \<not> IsSuccess status \<and> \<not> IsUnschedulable status then Inl (Message status) else Inr status)"

definition podPassesFiltersOnNode ::
    "generic_scheduler \<Rightarrow> sched_gates \<Rightarrow> 'st sched_framework \<Rightarrow> 'st \<Rightarrow> pod \<Rightarrow> int \<times> node_info \<Rightarrow> (string + status option) \<times> int" where
  "podPassesFiltersOnNode s g prof st pod gn =
     (case addNominatedPods s g prof pod st gn of
        (Inl e, gen) \<Rightarrow> (Inl e, gen)
      | (Inr (added, st1, n1), gen) \<Rightarrow>
          (case run_and_merge prof st1 pod n1 of
             Inl e \<Rightarrow> (Inl e, gen)
           | Inr status \<Rightarrow>
               if \<not> added \<or> \<not> IsSuccess status then (Inr status, gen) else (run_and_merge prof st pod (snd gn), gen)))"

subsection \<open>The search for feasible nodes\<close>

record search =
  se_filtered :: "node list"
  se_statuses :: node_statuses
  se_error :: "string option"
  se_cancelled :: bool
  se_generation :: int

definition checkNode ::
    "generic_scheduler \<Rightarrow> sched_gates \<Rightarrow> 'st sched_framework \<Rightarrow> 'st \<Rightarrow> pod \<Rightarrow> node_info list \<Rightarrow> nat \<Rightarrow> search \<Rightarrow> go_panic + search" where
  "checkNode s g prof st pod allNodes i r =
     (let info = allNodes ! nat ((gs_nextStartNodeIndex s + int i) smod int (length allNodes));
          numNodesToFind = nodes_to_find s allNodes
      in case podPassesFiltersOnNode s g prof st pod (se_generation r, info) of
           (res, gen) \<Rightarrow>
             let r1 = r\<lparr>se_generation := gen\<rparr> in
             (case res of
                Inl e \<Rightarrow> Inr (r1\<lparr>se_error := (case se_error r1 of None \<Rightarrow> Some e | Some e0 \<Rightarrow> Some e0), se_cancelled := True\<rparr>)
              | Inr status \<Rightarrow>
                  (case ni_node info of
                     None \<Rightarrow> Inl NilDereference
                   | Some nd \<Rightarrow>
                       if IsSuccess status then
                         if numNodesToFind < int (length (se_filtered r1)) + 1 then Inr (r1\<lparr>se_cancelled := True\<rparr>)
                         else Inr (r1\<lparr>se_filtered := se_filtered r1 @ [nd]\<rparr>)
                       else
                         (case status of
                            None \<Rightarrow> Inr r1
                          | Some x \<Rightarrow> Inr (r1\<lparr>se_statuses := AList.update (n_Name nd) x (se_statuses r1)\<rparr>)))))"

fun check_nodes :: "(nat \<Rightarrow> search \<Rightarrow> go_panic + search) \<Rightarrow> nat list \<Rightarrow> search \<Rightarrow> go_panic + search" where
  "check_nodes check [] r = Inr r"
| "check_nodes check (i # is) r = (case check i r of Inl p \<Rightarrow> Inl p | Inr r1 \<Rightarrow> check_nodes check is r1)"

definition new_search :: "int \<Rightarrow> search" where
  "new_search gen = \<lparr>se_filtered = [], se_statuses = [], se_error = None, se_cancelled = False, se_generation = gen\<rparr>"

text \<open>
  The workers take the pieces in turn and drop those they take after the search was cancelled, in any order;
  a search that is never cancelled handles them all.
\<close>

definition possible_order :: "nat \<Rightarrow> nat list \<Rightarrow> search \<Rightarrow> bool" where
  "possible_order pieces order r \<longleftrightarrow>
     distinct order \<and> set order \<subseteq> {..<pieces} \<and> (\<not> se_cancelled r \<longrightarrow> set order = {..<pieces})"

text \<open>Without filter plugins the nodes are taken from the front of the list, wherever the search would start.\<close>

fun node_of_infos :: "node_info list \<Rightarrow> go_panic + node list" where
  "node_of_infos [] = Inr []"
| "node_of_infos (n # ns) =
     (case ni_node n of
        None \<Rightarrow> Inl NilDereference
      | Some nd \<Rightarrow> (case node_of_infos ns of Inl p \<Rightarrow> Inl p | Inr nds \<Rightarrow> Inr (nd # nds)))"

definition advance_start :: "generic_scheduler \<Rightarrow> int \<Rightarrow> int \<Rightarrow> generic_scheduler" where
  "advance_start s k n = s\<lparr>gs_nextStartNodeIndex := (gs_nextStartNodeIndex s + k) smod n\<rparr>"

definition bump_generation :: "int \<Rightarrow> generic_scheduler \<Rightarrow> generic_scheduler" where
  "bump_generation gen s = s\<lparr>gs_cache := (gs_cache s)\<lparr>sc_generation := gen\<rparr>\<rparr>"

definition findNodesThatPassFilters ::
    "nat list \<Rightarrow> sched_gates \<Rightarrow> 'st sched_framework \<Rightarrow> 'st \<Rightarrow> pod \<Rightarrow> generic_scheduler \<Rightarrow>
     go_panic + ((string + node list \<times> node_statuses) \<times> generic_scheduler)" where
  "findNodesThatPassFilters order g prof st pod s =
     (let allNodes = sn_NodeInfos (gs_nodeInfoSnapshot s); n = int (length allNodes) in
      if n = 0 then Inl IntegerDivideByZero
      else if \<not> HasFilterPlugins prof then
        (case node_of_infos (take (nat (nodes_to_find s allNodes)) allNodes) of
           Inl p \<Rightarrow> Inl p
         | Inr nds \<Rightarrow> Inr (Inr (nds, []), advance_start s (int (length nds)) n))
      else
        (case check_nodes (checkNode s g prof st pod allNodes) order (new_search (sc_generation (gs_cache s))) of
           Inl p \<Rightarrow> Inl p
         | Inr r \<Rightarrow>
             let s1 = advance_start (bump_generation (se_generation r) s) (int (length (se_filtered r) + length (se_statuses r))) n in
             Inr (case se_error r of Some e \<Rightarrow> Inl e | None \<Rightarrow> Inr (se_filtered r, se_statuses r), s1)))"

text \<open>The names an extender rejects, with its reasons.\<close>

definition add_failed :: "(string \<times> string) list \<Rightarrow> node_statuses \<Rightarrow> node_statuses" where
  "add_failed failed statuses =
     foldl (\<lambda>ss (name, msg).
        AList.update name (case map_of ss name of None \<Rightarrow> NewStatus Unschedulable [msg] | Some x \<Rightarrow> AppendReason msg x) ss)
       statuses failed"

fun findNodesThatPassExtenders ::
    "extender list \<Rightarrow> pod \<Rightarrow> node list \<Rightarrow> node_statuses \<Rightarrow> string + node list \<times> node_statuses" where
  "findNodesThatPassExtenders [] pod filtered statuses = Inr (filtered, statuses)"
| "findNodesThatPassExtenders (e # es) pod filtered statuses =
     (if filtered = [] then Inr (filtered, statuses)
      else if \<not> ex_IsInterested e pod then findNodesThatPassExtenders es pod filtered statuses
      else
        (case ex_Filter e pod filtered of
           Inl err \<Rightarrow> if ex_IsIgnorable e then findNodesThatPassExtenders es pod filtered statuses else Inl err
         | Inr (filteredList, failedMap) \<Rightarrow> findNodesThatPassExtenders es pod filteredList (add_failed failedMap statuses)))"

definition findNodesThatFitPod ::
    "nat list \<Rightarrow> sched_gates \<Rightarrow> 'st sched_framework \<Rightarrow> 'st \<Rightarrow> pod \<Rightarrow> generic_scheduler \<Rightarrow>
     go_panic + ((string + node list \<times> node_statuses) \<times> generic_scheduler)" where
  "findNodesThatFitPod order g prof st pod s =
     (case findNodesThatPassFilters order g prof st pod s of
        Inl p \<Rightarrow> Inl p
      | Inr (Inl e, s1) \<Rightarrow> Inr (Inl e, s1)
      | Inr (Inr (filtered, statuses), s1) \<Rightarrow> Inr (findNodesThatPassExtenders (gs_extenders s1) pod filtered statuses, s1))"

subsection \<open>Scores\<close>

definition MaxExtenderPriority :: int where "MaxExtenderPriority = 10"

definition sum_scores :: "(string \<times> node_scores) list \<Rightarrow> nat \<Rightarrow> int" where
  "sum_scores scoresMap i = foldl (\<lambda>acc (_, scs). wrap64 (acc + snd (scs ! i))) 0 scoresMap"

text \<open>The sums of the extenders' scores by host; their order does not matter, an extender that errs has none.\<close>

definition combined_scores :: "extender list \<Rightarrow> pod \<Rightarrow> node list \<Rightarrow> string \<Rightarrow> int" where
  "combined_scores es pod nodes host =
     foldl (\<lambda>acc e.
        if \<not> ex_IsInterested e pod then acc
        else
          (case ex_Prioritize e pod nodes of
             Inl _ \<Rightarrow> acc
           | Inr (l, weight) \<Rightarrow>
               foldl (\<lambda>acc (h, score). if h = host then wrap64 (acc + wrap64 (score * weight)) else acc) acc l))
       0 es"

definition prioritizeNodes ::
    "generic_scheduler \<Rightarrow> 'st sched_framework \<Rightarrow> 'st \<Rightarrow> pod \<Rightarrow> node list \<Rightarrow> string + node_scores" where
  "prioritizeNodes s prof st pod nodes =
     (if gs_extenders s = [] \<and> \<not> HasScorePlugins prof then Inr (map (\<lambda>n. (n_Name n, 1)) nodes)
      else
        (case RunScorePlugins prof st pod nodes of
           Inl e \<Rightarrow> Inl e
         | Inr scoresMap \<Rightarrow>
             let result = map (\<lambda>i. (n_Name (nodes ! i), sum_scores scoresMap i)) [0..<length nodes] in
             Inr (if gs_extenders s = [] then result
                  else map (\<lambda>(h, sc). (h, wrap64 (sc + wrap64 (combined_scores (gs_extenders s) pod nodes h *
                         (MaxNodeScore sdiv MaxExtenderPriority))))) result)))"

fun select_loop :: "(nat \<Rightarrow> int \<Rightarrow> int) \<Rightarrow> nat \<Rightarrow> int \<Rightarrow> string \<Rightarrow> int \<Rightarrow> node_scores \<Rightarrow> string" where
  "select_loop rnd j maxScore selected cnt [] = selected"
| "select_loop rnd j maxScore selected cnt ((name, score) # rest) =
     (if maxScore < score then select_loop rnd j score name 1 rest
      else if score = maxScore then
        select_loop rnd (Suc j) maxScore (if rnd j (cnt + 1) = 0 then name else selected) (cnt + 1) rest
      else select_loop rnd j maxScore selected cnt rest)"

definition selectHost :: "(nat \<Rightarrow> int \<Rightarrow> int) \<Rightarrow> node_scores \<Rightarrow> string option" where
  "selectHost rnd l = (case l of [] \<Rightarrow> None | (name, score) # rest \<Rightarrow> Some (select_loop rnd 0 score name 1 rest))"

subsection \<open>A scheduling cycle\<close>

definition score_and_select ::
    "(nat \<Rightarrow> int \<Rightarrow> int) \<Rightarrow> generic_scheduler \<Rightarrow> 'st sched_framework \<Rightarrow> pod \<Rightarrow> node list \<Rightarrow> node_statuses \<Rightarrow> 'st \<Rightarrow>
     (schedule_error + schedule_result) \<times> 'st" where
  "score_and_select rnd s prof pod nodes statuses st =
     (case RunPreScorePlugins prof pod nodes st of
        (status, st1) \<Rightarrow>
          (case AsError status of
             Some e \<Rightarrow> (Inl (OtherError e), st1)
           | None \<Rightarrow>
               (case nodes of
                  [n] \<Rightarrow>
                    (Inr \<lparr>sr_SuggestedHost = n_Name n, sr_EvaluatedNodes = 1 + int (length statuses), sr_FeasibleNodes = 1\<rparr>, st1)
                | _ \<Rightarrow>
                    (case prioritizeNodes s prof st1 pod nodes of
                       Inl e \<Rightarrow> (Inl (OtherError e), st1)
                     | Inr scores \<Rightarrow>
                         (case selectHost rnd scores of
                            None \<Rightarrow> (Inl (OtherError ''empty priorityList''), st1)
                          | Some host \<Rightarrow>
                              (Inr \<lparr>sr_SuggestedHost = host, sr_EvaluatedNodes = int (length nodes + length statuses),
                                    sr_FeasibleNodes = int (length nodes)\<rparr>, st1))))))"

definition schedule_on_snapshot ::
    "nat list \<Rightarrow> (nat \<Rightarrow> int \<Rightarrow> int) \<Rightarrow> sched_gates \<Rightarrow> 'st sched_framework \<Rightarrow> 'st \<Rightarrow> pod \<Rightarrow> generic_scheduler \<Rightarrow>
     go_panic + ((schedule_error + schedule_result) \<times> 'st \<times> generic_scheduler)" where
  "schedule_on_snapshot order rnd g prof st pod s =
     (if sn_NodeInfos (gs_nodeInfoSnapshot s) = [] then Inr (Inl NoNodesAvailable, st, s)
      else
        (case RunPreFilterPlugins prof pod st of
           (status, st1) \<Rightarrow>
             (case AsError status of
                Some e \<Rightarrow> Inr (Inl (OtherError e), st1, s)
              | None \<Rightarrow>
                  (case findNodesThatFitPod order g prof st1 pod s of
                     Inl p \<Rightarrow> Inl p
                   | Inr (Inl e, s1) \<Rightarrow> Inr (Inl (OtherError e), st1, s1)
                   | Inr (Inr (nodes, statuses), s1) \<Rightarrow>
                       if nodes = [] then
                         Inr (Inl (FitError \<lparr>fe_Pod = pod, fe_NumAllNodes = int (length (sn_NodeInfos (gs_nodeInfoSnapshot s1))),
                                             fe_FilteredNodesStatuses = statuses\<rparr>), st1, s1)
                       else (case score_and_select rnd s1 prof pod nodes statuses st1 of (res, st2) \<Rightarrow> Inr (res, st2, s1))))))"

text \<open>The result of \<open>UpdateSnapshot\<close> is \<open>None\<close> when its walk over the cache does not end.\<close>

definition Schedule ::
    "nat list \<Rightarrow> (nat \<Rightarrow> int \<Rightarrow> int) \<Rightarrow> sched_gates \<Rightarrow> 'st sched_framework \<Rightarrow> 'st \<Rightarrow> pod \<Rightarrow> generic_scheduler \<Rightarrow>
     (go_panic + ((schedule_error + schedule_result) \<times> 'st \<times> generic_scheduler)) option" where
  "Schedule order rnd g prof st pod s =
     (case podPassesBasicChecks pod (gs_pvcLister s) of
        Some e \<Rightarrow> Some (Inr (Inl (OtherError e), st, s))
      | None \<Rightarrow>
          (case UpdateSnapshot (gs_cache s) (gs_nodeInfoSnapshot s) of
             None \<Rightarrow> None
           | Some (Inl p) \<Rightarrow> Some (Inl p)
           | Some (Inr (failed, c, sn)) \<Rightarrow>
               let s1 = s\<lparr>gs_cache := c, gs_nodeInfoSnapshot := sn\<rparr> in
               Some (if failed then Inr (Inl SnapshotInconsistent, st, s1)
                     else schedule_on_snapshot order rnd g prof st pod s1)))"

end
