(* ===== verification/Preemption.thy ===== *)
theory Preemption
  imports GenericScheduler
begin

section \<open>Making room for a pod\<close>

text \<open>
  The other half of \<open>generic_scheduler.go\<close>: when no node fits, \<open>Preempt\<close> looks on every node for a set of pods of
  lower priority whose removal makes the pod fit, and picks the node where this does least harm.  A
  \<open>trial\<close> is the copy of a node's info and of the cycle state on which the removal is tried; \<open>tr_failed\<close> says that
  the code has given the node up.  \<open>sort.Slice\<close> is the argument \<open>srt\<close>, \<open>now\<close> the reading of the clock for pods
  that have not started (the code reads the clock anew for each of them; here all readings of one call are the same).  The map from nodes to victims is a list in the order in which it is visited.
\<close>

subsection \<open>Importance of pods\<close>

definition GetPodStartTime :: "int \<Rightarrow> pod \<Rightarrow> int" where
  "GetPodStartTime now p = (case p_StartTime p of Some t \<Rightarrow> t | None \<Rightarrow> now)"

definition MoreImportantPod :: "int \<Rightarrow> pod \<Rightarrow> pod \<Rightarrow> bool" where
  "MoreImportantPod now p1 p2 \<longleftrightarrow>
     (if p_Priority p1 \<noteq> p_Priority p2 then p_Priority p2 < p_Priority p1 else GetPodStartTime now p1 < GetPodStartTime now p2)"

definition GetEarliestPodStartTime :: "int \<Rightarrow> victims \<Rightarrow> int option" where
  "GetEarliestPodStartTime now v =
     (case vi_Pods v of
        [] \<Rightarrow> None
      | p0 # _ \<Rightarrow>
          Some (snd (foldl (\<lambda>(maxPriority, earliest) p.
             if p_Priority p = maxPriority then (maxPriority, if GetPodStartTime now p < earliest then GetPodStartTime now p else earliest)
             else if maxPriority < p_Priority p then (p_Priority p, GetPodStartTime now p)
             else (maxPriority, earliest)) (p_Priority p0, GetPodStartTime now p0) (vi_Pods v))))"

subsection \<open>Disruption budgets\<close>

definition sel_Empty :: "selector \<Rightarrow> bool" where
  "sel_Empty s = (case s of Nothing \<Rightarrow> False | InternalSelector rs \<Rightarrow> rs = [])"

definition budget_matches :: "disruption_budget \<Rightarrow> pod \<Rightarrow> bool" where
  "budget_matches b p \<longleftrightarrow>
     db_Namespace b = p_Namespace p \<and>
     (case LabelSelectorAsSelector (db_Selector b) of
        None \<Rightarrow> False
      | Some s \<Rightarrow> \<not> sel_Empty s \<and> sel_Matches s (p_Labels p))"

text \<open>Whether a budget is violated, and what the budgets still allow; the scan stops at the first violation.\<close>

fun use_budgets :: "pod \<Rightarrow> (disruption_budget \<times> int) list \<Rightarrow> bool \<times> (disruption_budget \<times> int) list" where
  "use_budgets p [] = (False, [])"
| "use_budgets p ((b, allowed) # bs) =
     (if \<not> budget_matches b p then (case use_budgets p bs of (v, bs1) \<Rightarrow> (v, (b, allowed) # bs1))
      else if allowed \<le> 0 then (True, (b, allowed) # bs)
      else (case use_budgets p bs of (v, bs1) \<Rightarrow> (v, (b, allowed - 1) # bs1)))"

definition group_pod ::
    "(disruption_budget \<times> int) list \<times> pod list \<times> pod list \<Rightarrow> pod \<Rightarrow> (disruption_budget \<times> int) list \<times> pod list \<times> pod list" where
  "group_pod acc p =
     (case acc of
        (bs, violating, nonViolating) \<Rightarrow>
          (case (if p_Labels p = [] then (False, bs) else use_budgets p bs) of
             (v, bs1) \<Rightarrow> if v then (bs1, violating @ [p], nonViolating) else (bs1, violating, nonViolating @ [p])))"

definition filterPodsWithPDBViolation :: "pod list \<Rightarrow> disruption_budget list \<Rightarrow> pod list \<times> pod list" where
  "filterPodsWithPDBViolation pods pdbs = snd (foldl group_pod (map (\<lambda>b. (b, db_DisruptionsAllowed b)) pdbs, [], []) pods)"

subsection \<open>The victims on a node\<close>

record 'st trial =
  tr_state :: 'st
  tr_info :: node_info
  tr_generation :: int
  tr_victims :: "pod list"
  tr_violating :: int
  tr_failed :: bool

definition trial_remove :: "sched_gates \<Rightarrow> 'st sched_framework \<Rightarrow> pod \<Rightarrow> pod \<Rightarrow> 'st trial \<Rightarrow> go_panic + 'st trial" where
  "trial_remove g prof pod rp t =
     (case ni_RemovePod g rp (tr_generation t, tr_info t) of
        Inl x \<Rightarrow> Inl x
      | Inr (Some _, gen, n) \<Rightarrow> Inr (t\<lparr>tr_generation := gen, tr_info := n, tr_failed := True\<rparr>)
      | Inr (None, gen, n) \<Rightarrow>
          (case RunPreFilterExtensionRemovePod prof pod rp n (tr_state t) of
             (status, st) \<Rightarrow> Inr (t\<lparr>tr_generation := gen, tr_info := n, tr_state := st, tr_failed := \<not> IsSuccess status\<rparr>)))"

definition trial_add :: "sched_gates \<Rightarrow> 'st sched_framework \<Rightarrow> pod \<Rightarrow> pod \<Rightarrow> 'st trial \<Rightarrow> 'st trial" where
  "trial_add g prof pod ap t =
     (case ni_AddPod g ap (tr_generation t, tr_info t) of
        (gen, n) \<Rightarrow>
          (case RunPreFilterExtensionAddPod prof pod ap n (tr_state t) of
             (status, st) \<Rightarrow> t\<lparr>tr_generation := gen, tr_info := n, tr_state := st, tr_failed := \<not> IsSuccess status\<rparr>))"

text \<open>An error of the filters counts as not fitting.\<close>

definition trial_fits :: "generic_scheduler \<Rightarrow> sched_gates \<Rightarrow> 'st sched_framework \<Rightarrow> pod \<Rightarrow> 'st trial \<Rightarrow> bool \<times> 'st trial" where
  "trial_fits s g prof pod t =
     (case podPassesFiltersOnNode s g prof (tr_state t) pod (tr_generation t, tr_info t) of
        (res, gen) \<Rightarrow>
          ((case res of Inl _ \<Rightarrow> False | Inr status \<Rightarrow> IsSuccess status), t\<lparr>tr_generation := gen\<rparr>))"

fun until_failed :: "(pod \<Rightarrow> 'st trial \<Rightarrow> go_panic + 'st trial) \<Rightarrow> pod list \<Rightarrow> 'st trial \<Rightarrow> go_panic + 'st trial" where
  "until_failed step [] t = Inr t"
| "until_failed step (p # ps) t =
     (case step p t of
        Inl x \<Rightarrow> Inl x
      | Inr t1 \<Rightarrow> if tr_failed t1 then Inr t1 else until_failed step ps t1)"

definition reprievePod ::
    "generic_scheduler \<Rightarrow> sched_gates \<Rightarrow> 'st sched_framework \<Rightarrow> pod \<Rightarrow> bool \<Rightarrow> pod \<Rightarrow> 'st trial \<Rightarrow> go_panic + 'st trial" where
  "reprievePod s g prof pod violating p t =
     (let t1 = trial_add g prof pod p t in
      if tr_failed t1 then Inr t1
      else
        (case trial_fits s g prof pod t1 of
           (True, t2) \<Rightarrow> Inr t2
         | (False, t2) \<Rightarrow>
             (case trial_remove g prof pod p t2 of
                Inl x \<Rightarrow> Inl x
              | Inr t3 \<Rightarrow>
                  if tr_failed t3 then Inr t3
                  else Inr (t3\<lparr>tr_victims := tr_victims t3 @ [p],
                               tr_violating := (if violating then tr_violating t3 + 1 else tr_violating t3)\<rparr>))))"

type_synonym pod_sort = "(pod \<Rightarrow> pod \<Rightarrow> bool) \<Rightarrow> pod list \<Rightarrow> pod list"

text \<open>
  The pods to remove are those of the list before the first removal: a removal only overwrites slots of the
  array that the loop has already visited.
\<close>

definition lower_pods :: "pod \<Rightarrow> node_info \<Rightarrow> pod list" where
  "lower_pods pod n = filter (\<lambda>p. p_Priority p < p_Priority pod) (ni_pods n)"

definition new_trial :: "'st \<Rightarrow> int \<times> node_info \<Rightarrow> 'st trial" where
  "new_trial st gn =
     \<lparr>tr_state = st, tr_info = snd gn, tr_generation = fst gn, tr_victims = [], tr_violating = 0, tr_failed = False\<rparr>"

definition reprieve_all ::
    "generic_scheduler \<Rightarrow> sched_gates \<Rightarrow> 'st sched_framework \<Rightarrow> pod \<Rightarrow> pod list \<times> pod list \<Rightarrow> 'st trial \<Rightarrow> go_panic + 'st trial" where
  "reprieve_all s g prof pod groups t =
     (case until_failed (reprievePod s g prof pod True) (fst groups) t of
        Inl x \<Rightarrow> Inl x
      | Inr t1 \<Rightarrow> if tr_failed t1 then Inr t1 else until_failed (reprievePod s g prof pod False) (snd groups) t1)"

text \<open>The victims with the number of violations, if the node is fit for preemption, and the counter of generations.\<close>

definition selectVictimsOnNode ::
    "pod_sort \<Rightarrow> int \<Rightarrow> generic_scheduler \<Rightarrow> sched_gates \<Rightarrow> 'st sched_framework \<Rightarrow> 'st \<Rightarrow> pod \<Rightarrow> disruption_budget list \<Rightarrow>
     int \<times> node_info \<Rightarrow> go_panic + (pod list \<times> int) option \<times> int" where
  "selectVictimsOnNode srt now s g prof st pod pdbs gn =
     (let potentialVictims = lower_pods pod (snd gn) in
      case until_failed (trial_remove g prof pod) potentialVictims (new_trial st gn) of
        Inl x \<Rightarrow> Inl x
      | Inr t1 \<Rightarrow>
          if tr_failed t1 then Inr (None, tr_generation t1)
          else
            (case trial_fits s g prof pod t1 of
               (False, t2) \<Rightarrow> Inr (None, tr_generation t2)
             | (True, t2) \<Rightarrow>
                 (case reprieve_all s g prof pod
                         (filterPodsWithPDBViolation (srt (MoreImportantPod now) potentialVictims) pdbs) t2 of
                    Inl x \<Rightarrow> Inl x
                  | Inr t3 \<Rightarrow>
                      Inr (if tr_failed t3 then None else Some (tr_victims t3, tr_violating t3), tr_generation t3))))"

subsection \<open>Candidate nodes\<close>

fun nodesWherePreemptionMightHelp :: "node_info list \<Rightarrow> fit_error \<Rightarrow> go_panic + node_info list" where
  "nodesWherePreemptionMightHelp [] fitErr = Inr []"
| "nodesWherePreemptionMightHelp (n # ns) fitErr =
     (case ni_node n of
        None \<Rightarrow> Inl NilDereference
      | Some nd \<Rightarrow>
          (case nodesWherePreemptionMightHelp ns fitErr of
             Inl x \<Rightarrow> Inl x
           | Inr rest \<Rightarrow>
               Inr (if Code (map_of (fe_FilteredNodesStatuses fitErr) (n_Name nd)) = UnschedulableAndUnresolvable then rest
                    else n # rest)))"

definition podEligibleToPreemptOthers :: "pod \<Rightarrow> snapshot \<Rightarrow> bool \<Rightarrow> bool" where
  "podEligibleToPreemptOthers pod nodeInfos enableNonPreempting \<longleftrightarrow>
     \<not> (enableNonPreempting \<and> p_PreemptNever pod) \<and>
     (p_NominatedNodeName pod = [] \<or>
      (case sn_Get nodeInfos (p_NominatedNodeName pod) of
         None \<Rightarrow> True
       | Some n \<Rightarrow> \<not> list_ex (\<lambda>p. p_Deleting p \<and> p_Priority p < p_Priority pod) (ni_pods n)))"

text \<open>The nodes are tried in parallel; the list is in the order in which they are visited in the resulting map.\<close>

fun selectNodesForPreemption ::
    "pod_sort \<Rightarrow> int \<Rightarrow> generic_scheduler \<Rightarrow> sched_gates \<Rightarrow> 'st sched_framework \<Rightarrow> 'st \<Rightarrow> pod \<Rightarrow> disruption_budget list \<Rightarrow>
     node_info list \<Rightarrow> int \<Rightarrow> go_panic + node_victims \<times> int" where
  "selectNodesForPreemption srt now s g prof st pod pdbs [] gen = Inr ([], gen)"
| "selectNodesForPreemption srt now s g prof st pod pdbs (n # ns) gen =
     (case selectVictimsOnNode srt now s g prof st pod pdbs (gen, n) of
        Inl x \<Rightarrow> Inl x
      | Inr (res, gen1) \<Rightarrow>
          (case selectNodesForPreemption srt now s g prof st pod pdbs ns gen1 of
             Inl x \<Rightarrow> Inl x
           | Inr (rest, gen2) \<Rightarrow>
               (case (res, ni_node n) of
                  (Some (pods, violations), Some nd) \<Rightarrow>
                    Inr ((nd, \<lparr>vi_Pods = pods, vi_NumPDBViolations = violations\<rparr>) # rest, gen2)
                | _ \<Rightarrow> Inr (rest, gen2))))"

fun preemption_extenders :: "extender list \<Rightarrow> pod \<Rightarrow> snapshot \<Rightarrow> node_victims \<Rightarrow> string + node_victims" where
  "preemption_extenders [] pod sn m = Inr m"
| "preemption_extenders (e # es) pod sn m =
     (if \<not> (ex_SupportsPreemption e \<and> ex_IsInterested e pod) then preemption_extenders es pod sn m
      else
        (case ex_ProcessPreemption e pod m sn of
           Inl err \<Rightarrow> if ex_IsIgnorable e then preemption_extenders es pod sn m else Inl err
         | Inr m1 \<Rightarrow> if m1 = [] then Inr m1 else preemption_extenders es pod sn m1))"

definition processPreemptionWithExtenders :: "generic_scheduler \<Rightarrow> pod \<Rightarrow> node_victims \<Rightarrow> string + node_victims" where
  "processPreemptionWithExtenders s pod m =
     (if m = [] then Inr m else preemption_extenders (gs_extenders s) pod (gs_nodeInfoSnapshot s) m)"

subsection \<open>The choice of a node\<close>

text \<open>The loop the code writes out for each criterion: keep the entries whose value is least, at most \<open>start\<close>.\<close>

definition keep_min :: "int \<Rightarrow> ('a \<Rightarrow> int) \<Rightarrow> 'a list \<Rightarrow> 'a list" where
  "keep_min start f xs =
     snd (foldl (\<lambda>(least, kept) x.
        let (least1, kept1) = (if f x < least then (f x, []) else (least, kept)) in
        (least1, if f x = least1 then kept1 @ [x] else kept1)) (start, []) xs)"

definition MaxInt32 :: int where "MaxInt32 = 2147483647"
definition MaxInt64 :: int where "MaxInt64 = 9223372036854775807"

definition sum_priorities :: "pod list \<Rightarrow> int" where
  "sum_priorities ps = foldl (\<lambda>acc p. wrap64 (acc + wrap64 (p_Priority p + (MaxInt32 + 1)))) 0 ps"

fun latest_start :: "int \<Rightarrow> node \<Rightarrow> int \<Rightarrow> node_victims \<Rightarrow> node" where
  "latest_start now best latest [] = best"
| "latest_start now best latest ((nd, v) # rest) =
     (case GetEarliestPodStartTime now v of
        None \<Rightarrow> latest_start now best latest rest
      | Some t \<Rightarrow> if latest < t then latest_start now nd t rest else latest_start now best latest rest)"

definition highest_priority :: "node \<times> victims \<Rightarrow> int" where
  "highest_priority e = p_Priority (hd (vi_Pods (snd e)))"

text \<open>Every criterion ends the choice when it leaves one node.\<close>

definition single_or :: "node_victims \<Rightarrow> (node_victims \<Rightarrow> go_panic + node option) \<Rightarrow> go_panic + node option" where
  "single_or m next = (case m of [e] \<Rightarrow> Inr (Some (fst e)) | _ \<Rightarrow> next m)"

definition pick_latest :: "int \<Rightarrow> node_victims \<Rightarrow> go_panic + node option" where
  "pick_latest now m =
     (case m of
        [] \<Rightarrow> Inl IndexOutOfRange
      | e # rest \<Rightarrow>
          (case GetEarliestPodStartTime now (snd e) of
             None \<Rightarrow> Inr (Some (fst e))
           | Some t \<Rightarrow> Inr (Some (latest_start now (fst e) t rest))))"

definition pickOneNodeForPreemption :: "int \<Rightarrow> node_victims \<Rightarrow> go_panic + node option" where
  "pickOneNodeForPreemption now m =
     (if m = [] then Inr None
      else
        (case List.find (\<lambda>e. vi_Pods (snd e) = []) m of
           Some e \<Rightarrow> Inr (Some (fst e))
         | None \<Rightarrow>
             single_or (keep_min MaxInt32 (\<lambda>e. vi_NumPDBViolations (snd e)) m) (\<lambda>m1.
             single_or (keep_min MaxInt32 highest_priority m1) (\<lambda>m2.
             single_or (keep_min MaxInt64 (\<lambda>e. sum_priorities (vi_Pods (snd e))) m2) (\<lambda>m3.
             single_or (keep_min MaxInt32 (\<lambda>e. int (length (vi_Pods (snd e)))) m3) (pick_latest now))))))"

subsection \<open>Preempt\<close>

definition getLowerPriorityNominatedPods :: "generic_scheduler \<Rightarrow> pod \<Rightarrow> string \<Rightarrow> go_panic + pod list" where
  "getLowerPriorityNominatedPods s pod node =
     (case gs_schedulingQueue s of
        None \<Rightarrow> Inl NilDereference
      | Some q \<Rightarrow> Inr (filter (\<lambda>p. p_Priority p < p_Priority pod) (sq_NominatedPodsForNode node q)))"

text \<open>Victims of a node in the map; the zero value of a missing one is a nil pointer.\<close>

record preempt_result =
  pr_Node :: "node option"
  pr_Victims :: "pod list"
  pr_Cleanup :: "pod list"

definition no_preemption :: preempt_result where
  "no_preemption = \<lparr>pr_Node = None, pr_Victims = [], pr_Cleanup = []\<rparr>"

definition choose_victims :: "int \<Rightarrow> generic_scheduler \<Rightarrow> pod \<Rightarrow> node_victims \<Rightarrow> go_panic + (schedule_error + preempt_result)" where
  "choose_victims now s pod m =
     (case processPreemptionWithExtenders s pod m of
        Inl e \<Rightarrow> Inr (Inl (OtherError e))
      | Inr m1 \<Rightarrow>
          (case pickOneNodeForPreemption now m1 of
             Inl x \<Rightarrow> Inl x
           | Inr None \<Rightarrow> Inr (Inr no_preemption)
           | Inr (Some nd) \<Rightarrow>
               (case getLowerPriorityNominatedPods s pod (n_Name nd) of
                  Inl x \<Rightarrow> Inl x
                | Inr cleanup \<Rightarrow>
                    (case map_of m1 nd of
                       None \<Rightarrow> Inl NilDereference
                     | Some v \<Rightarrow> Inr (Inr \<lparr>pr_Node = Some nd, pr_Victims = vi_Pods v, pr_Cleanup = cleanup\<rparr>)))))"

definition listed_budgets :: "generic_scheduler \<Rightarrow> string + disruption_budget list" where
  "listed_budgets s = (case gs_pdbLister s of None \<Rightarrow> Inr [] | Some r \<Rightarrow> r)"

text \<open>\<open>visit\<close> is the order of the candidates in the map of victims.\<close>

definition Preempt ::
    "(node_info list \<Rightarrow> node_info list) \<Rightarrow> pod_sort \<Rightarrow> int \<Rightarrow> sched_gates \<Rightarrow> 'st sched_framework \<Rightarrow> 'st \<Rightarrow> pod \<Rightarrow> schedule_error \<Rightarrow>
     generic_scheduler \<Rightarrow> go_panic + ((schedule_error + preempt_result) \<times> generic_scheduler)" where
  "Preempt visit srt now g prof st pod err s =
     (case err of
        FitError fitErr \<Rightarrow>
          if \<not> podEligibleToPreemptOthers pod (gs_nodeInfoSnapshot s) (gs_enableNonPreempting s) then Inr (Inr no_preemption, s)
          else if sn_NodeInfos (gs_nodeInfoSnapshot s) = [] then Inr (Inl NoNodesAvailable, s)
          else
            (case nodesWherePreemptionMightHelp (sn_NodeInfos (gs_nodeInfoSnapshot s)) fitErr of
               Inl x \<Rightarrow> Inl x
             | Inr potentialNodes \<Rightarrow>
                 if potentialNodes = [] then Inr (Inr (no_preemption\<lparr>pr_Cleanup := [pod]\<rparr>), s)
                 else
                   (case listed_budgets s of
                      Inl e \<Rightarrow> Inr (Inl (OtherError e), s)
                    | Inr pdbs \<Rightarrow>
                        (case selectNodesForPreemption srt now s g prof st pod pdbs (visit potentialNodes) (sc_generation (gs_cache s)) of
                           Inl x \<Rightarrow> Inl x
                         | Inr (m, gen) \<Rightarrow>
                             (case choose_victims now s pod m of
                                Inl x \<Rightarrow> Inl x
                              | Inr res \<Rightarrow> Inr (res, bump_generation gen s)))))
      | _ \<Rightarrow> Inr (Inr no_preemption, s))"

end
