(* ===== verification/SchedSnapshotLaws.thy ===== *)
theory SchedSnapshotLaws
  imports SchedSnapshot
begin

section \<open>A snapshot is a copy of the cache\<close>

text \<open>
  \<open>UpdateSnapshot\<close> copies only the infos that changed since the snapshot was last updated, and renews
  the lists only when it must.  The result is the same as copying every node of the cache.
\<close>

subsection \<open>What a snapshot has to keep\<close>

definition addresses_ok :: "snapshot \<Rightarrow> bool" where
  "addresses_ok sn \<longleftrightarrow>
     distinct (map fst (sn_map sn)) \<and> distinct (map snd (sn_map sn)) \<and> (\<forall>a \<in> set (map snd (sn_map sn)). a < sn_fresh sn)"

text \<open>Every info that has not changed since the snapshot is in it, and its lists are those of its map.\<close>

definition snap_inv :: "sched_cache \<Rightarrow> snapshot \<Rightarrow> bool" where
  "snap_inv s sn \<longleftrightarrow>
     addresses_ok sn \<and> sn_generation sn \<le> sc_generation s \<and>
     (\<forall>n i. info_of s n = Some i \<longrightarrow> ni_generation i \<le> sn_generation sn \<longrightarrow>
        (\<exists>a. map_of (sn_map sn) n = Some a \<and> sn_store sn a = i)) \<and>
     mset (sn_list sn) = mset (map snd (sn_map sn)) \<and>
     sn_affinity sn = filter (\<lambda>a. has_affinity (sn_store sn a)) (sn_list sn)"

text \<open>The snapshot that a full copy of the cache gives, up to the order of the nodes.\<close>

definition full_copy :: "sched_cache \<Rightarrow> snapshot \<Rightarrow> bool" where
  "full_copy s sn \<longleftrightarrow>
     sn_Get sn = info_of s \<and>
     mset (sn_NodeInfos sn) = mset (map (ce_info \<circ> snd) (sc_nodes s)) \<and>
     sn_HavePodsWithAffinityList sn = filter has_affinity (sn_NodeInfos sn)"

text \<open>A cache whose infos all have their node, and whose tree has the nodes of the infos.\<close>

definition cache_ok :: "sched_cache \<Rightarrow> string list \<Rightarrow> bool" where
  "cache_ok s xs \<longleftrightarrow>
     list_inv s xs \<and>
     (\<forall>n i. info_of s n = Some i \<longrightarrow> (\<exists>nd. ni_node i = Some nd \<and> n_Name nd = n)) \<and>
     tree_inv (sc_nodeTree s) \<and> all_nodes (sc_nodeTree s) = mset (map fst (sc_nodes s)) \<and>
     (remaining (sc_nodeTree s) = {#} \<or> remaining (sc_nodeTree s) = all_nodes (sc_nodeTree s))"

subsection \<open>The loop over the changed infos\<close>

lemma copy_updated_fold:
  assumes "seg (map_of (sc_nodes s)) p h xs None"
  shows "copy_updated s gen h st = Some (fold copy_info (map (the \<circ> info_of s) (takeWhile (\<lambda>n. gen < gen_of s n) xs)) st)"
  using assms
proof (induction xs arbitrary: p h st)
  case Nil
  then show ?case by (simp add: copy_updated.simps)
next
  case (Cons x xs)
  then obtain c where c: "h = Some x" "map_of (sc_nodes s) x = Some c" "seg (map_of (sc_nodes s)) (Some x) (ce_next c) xs None"
    by (auto split: option.splits)
  then have "info_of s x = Some (ce_info c)" "gen_of s x = ni_generation (ce_info c)" by (simp_all add: info_of_def gen_of_def)
  then show ?case using Cons.IH [OF c(3)] c(1,2) by (simp add: copy_updated.simps [of s gen "Some x"] not_le)
qed

lemma update_new: "map_of l k = None \<Longrightarrow> AList.update k v l = l @ [(k, v)]"
  by (induction l) auto

text \<open>What the loop has done once it has copied the infos of the nodes \<open>N\<close>.\<close>

definition copied :: "sched_cache \<Rightarrow> snapshot \<Rightarrow> string set \<Rightarrow> snapshot \<times> bool \<times> bool \<Rightarrow> bool" where
  "copied s sn0 N st \<longleftrightarrow>
     (case st of (sn, updAll, updAff) \<Rightarrow>
        addresses_ok sn \<and> sn_generation sn = sn_generation sn0 \<and> sn_list sn = sn_list sn0 \<and> sn_affinity sn = sn_affinity sn0 \<and>
        (\<forall>n \<in> N. \<exists>a. map_of (sn_map sn) n = Some a \<and> info_of s n = Some (sn_store sn a)) \<and>
        (\<forall>n. n \<notin> N \<longrightarrow> map_of (sn_map sn) n = map_of (sn_map sn0) n \<and>
           (\<forall>a. map_of (sn_map sn) n = Some a \<longrightarrow> sn_store sn a = sn_store sn0 a)) \<and>
        (\<not> updAll \<longrightarrow> sn_map sn = sn_map sn0 \<and>
           (\<not> updAff \<longrightarrow> (\<forall>a \<in> set (map snd (sn_map sn0)). has_affinity (sn_store sn a) = has_affinity (sn_store sn0 a)))))"

lemma address_key:
  assumes "addresses_ok sn" "map_of (sn_map sn) n = Some a" "map_of (sn_map sn) m = Some a"
  shows "m = n"
proof -
  have "(n, a) \<in> set (sn_map sn)" "(m, a) \<in> set (sn_map sn)" using assms(2,3) by (auto dest: map_of_SomeD)
  then show ?thesis using assms(1) unfolding addresses_ok_def distinct_map by (metis inj_onD prod.inject snd_conv)
qed

lemma address_bound: "addresses_ok sn \<Longrightarrow> map_of (sn_map sn) n = Some a \<Longrightarrow> a < sn_fresh sn \<and> a \<in> set (map snd (sn_map sn))"
  unfolding addresses_ok_def by (force dest: map_of_SomeD)

lemma copied_in:
  assumes "copied s sn0 N (sn, all, aff)" "m \<in> N"
  obtains b where "map_of (sn_map sn) m = Some b" "info_of s m = Some (sn_store sn b)"
  using assms unfolding copied_def prod.case by blast

lemma copied_out:
  assumes "copied s sn0 N (sn, all, aff)" "m \<notin> N"
  shows "map_of (sn_map sn) m = map_of (sn_map sn0) m" "map_of (sn_map sn) m = Some b \<Longrightarrow> sn_store sn b = sn_store sn0 b"
  using assms unfolding copied_def prod.case by blast+

lemma copied_step:
  assumes st: "copied s sn0 N (sn, all, aff)"
    and i: "info_of s n = Some i" "ni_node i = Some nd" "n_Name nd = n"
  shows "copied s sn0 (insert n N) (copy_info i (sn, all, aff))"
proof (cases "map_of (sn_map sn) n")
  case (Some a)
  let ?sn = "sn\<lparr>sn_store := (sn_store sn)(a := i)\<rparr>"
  let ?aff = "aff \<or> has_affinity (sn_store sn a) \<noteq> has_affinity i"
  have eq: "copy_info i (sn, all, aff) = (?sn, all, ?aff)" using i Some by (simp add: copy_info_def)
  have ok: "addresses_ok sn" using st by (simp add: copied_def)
  have other: "sn_store ?sn b = sn_store sn b" if "map_of (sn_map sn) m = Some b" "m \<noteq> n" for m b
  proof -
    have "b \<noteq> a" using address_key [OF ok Some, of m] that by blast
    then show ?thesis by simp
  qed
  have "\<exists>b. map_of (sn_map sn) m = Some b \<and> info_of s m = Some (sn_store ?sn b)" if "m \<in> insert n N" for m
  proof (cases "m = n")
    case False
    then have "m \<in> N" using that by simp
    then obtain b where b: "map_of (sn_map sn) m = Some b" "info_of s m = Some (sn_store sn b)" using copied_in [OF st] by blast
    then show ?thesis using other [OF b(1) False] by simp
  qed (use Some i in simp)
  moreover have "map_of (sn_map sn) m = map_of (sn_map sn0) m \<and> (\<forall>b. map_of (sn_map sn) m = Some b \<longrightarrow> sn_store ?sn b = sn_store sn0 b)"
    if "m \<notin> insert n N" for m
  proof -
    have "m \<noteq> n" "m \<notin> N" using that by simp_all
    then show ?thesis using copied_out [OF st \<open>m \<notin> N\<close>] other [OF _ \<open>m \<noteq> n\<close>] by metis
  qed
  moreover have "\<not> all \<Longrightarrow> sn_map sn = sn_map sn0 \<and>
      (\<not> ?aff \<longrightarrow> (\<forall>b \<in> set (map snd (sn_map sn0)). has_affinity (sn_store ?sn b) = has_affinity (sn_store sn0 b)))"
    using st by (auto simp: copied_def)
  ultimately show ?thesis using st ok unfolding eq by (simp add: copied_def addresses_ok_def)
next
  case None
  let ?a = "sn_fresh sn"
  let ?sn = "sn\<lparr>sn_store := (sn_store sn)(?a := i), sn_fresh := Suc ?a, sn_map := sn_map sn @ [(n, ?a)]\<rparr>"
  have eq: "copy_info i (sn, all, aff) = (?sn, True, aff \<or> has_affinity i)"
    using i None by (simp add: copy_info_def update_new Let_def)
  have ok: "addresses_ok sn" using st by (simp add: copied_def)
  have upd: "map_of (sn_map ?sn) = (map_of (sn_map sn))(n \<mapsto> ?a)"
    using None by (auto simp: fun_eq_iff map_add_def split: option.split)
  have other: "sn_store ?sn b = sn_store sn b" if "map_of (sn_map sn) m = Some b" for m b
    using address_bound [OF ok that] by auto
  have "addresses_ok ?sn" using ok None by (auto simp: addresses_ok_def map_of_eq_None_iff)
  moreover have "\<exists>b. map_of (sn_map ?sn) m = Some b \<and> info_of s m = Some (sn_store ?sn b)" if "m \<in> insert n N" for m
  proof (cases "m = n")
    case False
    then have "m \<in> N" using that by simp
    then obtain b where b: "map_of (sn_map sn) m = Some b" "info_of s m = Some (sn_store sn b)" using copied_in [OF st] by blast
    then show ?thesis using other [OF b(1)] False unfolding upd by simp
  qed (use i upd in simp)
  moreover have "map_of (sn_map ?sn) m = map_of (sn_map sn0) m \<and> (\<forall>b. map_of (sn_map ?sn) m = Some b \<longrightarrow> sn_store ?sn b = sn_store sn0 b)"
    if "m \<notin> insert n N" for m
  proof -
    have "m \<noteq> n" "m \<notin> N" using that by simp_all
    then show ?thesis using copied_out [OF st \<open>m \<notin> N\<close>] other [of m] unfolding upd by auto
  qed
  ultimately show ?thesis using st unfolding eq by (simp add: copied_def)
qed

lemma copied_fold:
  assumes "copied s sn0 N st"
    and "\<forall>n \<in> set ns. \<exists>i nd. info_of s n = Some i \<and> ni_node i = Some nd \<and> n_Name nd = n"
  shows "copied s sn0 (N \<union> set ns) (fold copy_info (map (the \<circ> info_of s) ns) st)"
  using assms
proof (induction ns arbitrary: st N)
  case (Cons n ns)
  obtain sn all aff where st: "st = (sn, all, aff)" by (cases st)
  obtain i nd where i: "info_of s n = Some i" "ni_node i = Some nd" "n_Name nd = n" using Cons.prems(2) by auto
  have "copied s sn0 (insert n N) (copy_info i st)" using copied_step [OF _ i] Cons.prems(1) st by simp
  from Cons.IH [OF this] show ?case using Cons.prems(2) i by simp
qed simp

subsection \<open>Forgetting the nodes that are gone\<close>

lemma remove_deleted_filter:
  assumes "int (length (filter (\<lambda>n. info_of s n = None) names)) \<le> k" "distinct names" "set names \<subseteq> fst ` set m"
  shows "remove_deleted s k names m = filter (\<lambda>(n, _). n \<in> set names \<longrightarrow> info_of s n \<noteq> None) m"
  using assms
proof (induction names arbitrary: k m)
  case Nil
  then show ?case by (simp add: split_def)
next
  case (Cons n names)
  have gone: "map_of (sc_nodes s) n = None \<longleftrightarrow> info_of s n = None" by (simp add: info_of_def)
  consider (full) "k \<le> 0" | (gone) "0 < k" "info_of s n = None" | (stays) "0 < k" "info_of s n \<noteq> None" by fastforce
  then show ?case
  proof cases
    case full
    then have "length (filter (\<lambda>n. info_of s n = None) (n # names)) = 0" using Cons.prems(1) by linarith
    then have "filter (\<lambda>n. info_of s n = None) (n # names) = []" by (simp only: length_0_conv)
    then have "\<forall>x \<in> set (n # names). info_of s x \<noteq> None" by (simp only: filter_empty_conv not_False_eq_True)
    then have "filter (\<lambda>(x, _). x \<in> set (n # names) \<longrightarrow> info_of s x \<noteq> None) m = m" by (auto simp: filter_id_conv)
    then show ?thesis using full by simp
  next
    case gone': gone
    have del: "AList.delete n m = filter (\<lambda>(x, _). x \<noteq> n) m" by (auto simp: AList.delete_eq intro!: filter_cong)
    have sub: "set names \<subseteq> fst ` set (AList.delete n m)" using Cons.prems(2,3) unfolding del by force
    have "remove_deleted s (k - 1) names (AList.delete n m) =
        filter (\<lambda>(x, _). x \<in> set names \<longrightarrow> info_of s x \<noteq> None) (AList.delete n m)"
      by (rule Cons.IH) (use Cons.prems gone' sub in auto)
    also have "\<dots> = filter (\<lambda>(x, _). x \<in> set (n # names) \<longrightarrow> info_of s x \<noteq> None) m"
      using gone' by (auto simp: del intro!: filter_cong)
    finally show ?thesis using gone' gone by simp
  next
    case stays
    have "remove_deleted s k names m = filter (\<lambda>(x, _). x \<in> set names \<longrightarrow> info_of s x \<noteq> None) m"
      by (rule Cons.IH) (use Cons.prems stays in auto)
    also have "\<dots> = filter (\<lambda>(x, _). x \<in> set (n # names) \<longrightarrow> info_of s x \<noteq> None) m"
      using stays by (intro filter_cong) auto
    finally show ?thesis using stays gone by auto
  qed
qed

lemma removed_nodes:
  assumes "distinct (map fst (sn_map sn))" "distinct (map fst (sc_nodes s))" "dom (info_of s) \<subseteq> set (map fst (sn_map sn))"
  shows "sn_map (removeDeletedNodesFromSnapshot s sn) = filter (\<lambda>(n, _). info_of s n \<noteq> None) (sn_map sn)"
    "length (sn_map sn) \<le> length (sc_nodes s) \<Longrightarrow> filter (\<lambda>(n, _). info_of s n \<noteq> None) (sn_map sn) = sn_map sn"
proof -
  let ?K = "map fst (sn_map sn)"
  have dom: "dom (info_of s) = set (map fst (sc_nodes s))"
    unfolding set_map dom_map_of_conv_image_fst [symmetric] by (auto simp: info_of_def dom_def)
  have "length (filter (\<lambda>n. info_of s n \<noteq> None) ?K) = card (set (filter (\<lambda>n. info_of s n \<noteq> None) ?K))"
    using distinct_card distinct_filter [OF assms(1)] by metis
  also have "set (filter (\<lambda>n. info_of s n \<noteq> None) ?K) = set (map fst (sc_nodes s))" using assms(3) dom by auto
  also have "card \<dots> = length (sc_nodes s)" using distinct_card [OF assms(2)] by simp
  finally have "length (filter (\<lambda>n. info_of s n = None) ?K) + length (sc_nodes s) = length ?K"
    using sum_length_filter_compl [of "\<lambda>n. info_of s n = None" ?K] by simp
  then have n: "int (length (filter (\<lambda>n. info_of s n = None) ?K)) = int (length (sn_map sn)) - int (length (sc_nodes s))" by simp
  have "sn_map (removeDeletedNodesFromSnapshot s sn) = filter (\<lambda>(n, _). n \<in> set ?K \<longrightarrow> info_of s n \<noteq> None) (sn_map sn)"
    unfolding removeDeletedNodesFromSnapshot_def using remove_deleted_filter [of s ?K _ "sn_map sn"] n assms(1) by simp
  also have "\<dots> = filter (\<lambda>(n, _). info_of s n \<noteq> None) (sn_map sn)" by (rule filter_cong) (auto simp: rev_image_eqI)
  finally show "sn_map (removeDeletedNodesFromSnapshot s sn) = filter (\<lambda>(n, _). info_of s n \<noteq> None) (sn_map sn)" .
  assume "length (sn_map sn) \<le> length (sc_nodes s)"
  then have "length (filter (\<lambda>n. info_of s n = None) ?K) = 0" using n by linarith
  then have "filter (\<lambda>n. info_of s n = None) ?K = []" by (simp only: length_0_conv)
  then show "filter (\<lambda>(n, _). info_of s n \<noteq> None) (sn_map sn) = sn_map sn"
    by (simp only: filter_empty_conv) (auto simp: filter_id_conv)
qed

subsection \<open>The lists of a snapshot whose map is right\<close>

definition holds :: "sched_cache \<Rightarrow> snapshot \<Rightarrow> bool" where
  "holds s sn \<longleftrightarrow>
     addresses_ok sn \<and> dom (map_of (sn_map sn)) = dom (info_of s) \<and>
     (\<forall>n a. map_of (sn_map sn) n = Some a \<longrightarrow> info_of s n = Some (sn_store sn a))"

definition lists_ok :: "snapshot \<Rightarrow> bool" where
  "lists_ok sn \<longleftrightarrow>
     mset (sn_list sn) = mset (map snd (sn_map sn)) \<and> sn_affinity sn = filter (\<lambda>a. has_affinity (sn_store sn a)) (sn_list sn)"

lemma dom_info: "dom (info_of s) = set (map fst (sc_nodes s))"
  unfolding set_map dom_map_of_conv_image_fst [symmetric] by (auto simp: info_of_def dom_def)

lemma holds_names:
  assumes "holds s sn" "distinct (map fst (sc_nodes s))"
  shows "mset (map fst (sn_map sn)) = mset (map fst (sc_nodes s))"
    "image_mset (the \<circ> map_of (sn_map sn)) (mset (map fst (sc_nodes s))) = mset (map snd (sn_map sn))"
proof -
  have "distinct (map fst (sn_map sn))" "set (map fst (sn_map sn)) = set (map fst (sc_nodes s))"
    using assms(1) unfolding holds_def addresses_ok_def dom_info by (simp_all add: dom_map_of_conv_image_fst)
  then show m: "mset (map fst (sn_map sn)) = mset (map fst (sc_nodes s))"
    using assms(2) set_eq_iff_mset_eq_distinct by metis
  have "map (the \<circ> map_of (sn_map sn)) (map fst (sn_map sn)) = map snd (sn_map sn)"
    using \<open>distinct (map fst (sn_map sn))\<close> by (auto simp: map_of_is_SomeI)
  then show "image_mset (the \<circ> map_of (sn_map sn)) (mset (map fst (sc_nodes s))) = mset (map snd (sn_map sn))"
    by (simp only: m [symmetric] mset_map [symmetric])
qed

lemma holds_full_copy:
  assumes "holds s sn" "lists_ok sn" "cache_ok s xs"
  shows "full_copy s sn" "int (length (sn_list sn)) = nt_numNodes (sc_nodeTree s)"
    "sn_generation sn \<le> sc_generation s \<Longrightarrow> snap_inv s sn"
proof -
  let ?M = "map_of (sn_map sn)"
  have d: "distinct (map fst (sc_nodes s))" using assms(3) by (simp add: cache_ok_def list_inv_def)
  have info: "info_of s n = map_option (sn_store sn) (?M n)" for n
  proof (cases "?M n")
    case None
    then have "n \<notin> dom (info_of s)" using assms(1) unfolding holds_def by (metis domIff)
    then show ?thesis using None by auto
  next
    case (Some a)
    then show ?thesis using assms(1) by (simp add: holds_def)
  qed
  have named: "ni_node i \<noteq> None" if "info_of s n = Some i" for n i
    using assms(3) that unfolding cache_ok_def by (metis option.distinct(1))
  have "sn_Get sn n = info_of s n" for n
    using named [of n] info [of n] by (auto simp: sn_Get_def split: option.splits)
  then have get: "sn_Get sn = info_of s" by (simp add: fun_eq_iff)
  have lst: "mset (sn_list sn) = mset (map snd (sn_map sn))" using assms(2) by (simp add: lists_ok_def)
  have nodes: "ce_info (snd x) = sn_store sn (the (?M (fst x)))" if "x \<in> set (sc_nodes s)" for x
  proof -
    have "map_of (sc_nodes s) (fst x) = Some (snd x)" using map_of_is_SomeI [OF d, of "fst x" "snd x"] that by simp
    then have "map_option (sn_store sn) (?M (fst x)) = Some (ce_info (snd x))" using info [of "fst x"] by (simp add: info_of_def)
    then show ?thesis by auto
  qed
  have "mset (sn_NodeInfos sn) = image_mset (sn_store sn) (mset (map snd (sn_map sn)))"
    by (simp only: sn_NodeInfos_def mset_map [of _ "sn_list sn"] lst)
  also have "\<dots> = image_mset (sn_store sn) (image_mset (the \<circ> ?M) (mset (map fst (sc_nodes s))))"
    by (simp only: holds_names(2) [OF assms(1) d])
  also have "\<dots> = mset (map (\<lambda>x. sn_store sn (the (?M (fst x)))) (sc_nodes s))"
    by (simp add: image_mset.compositionality comp_def)
  also have "map (\<lambda>x. sn_store sn (the (?M (fst x)))) (sc_nodes s) = map (ce_info \<circ> snd) (sc_nodes s)"
    by (rule map_cong) (simp_all add: nodes)
  finally have "mset (sn_NodeInfos sn) = mset (map (ce_info \<circ> snd) (sc_nodes s))" .
  moreover have "sn_HavePodsWithAffinityList sn = filter has_affinity (sn_NodeInfos sn)"
    using assms(2) by (simp add: lists_ok_def sn_HavePodsWithAffinityList_def sn_NodeInfos_def filter_map comp_def)
  ultimately show "full_copy s sn" using get by (simp add: full_copy_def)
  have "length (sn_list sn) = length (sc_nodes s)"
    using mset_eq_length [OF lst] mset_eq_length [OF holds_names(1) [OF assms(1) d]] by simp
  moreover have "int (size (all_nodes (sc_nodeTree s))) = nt_numNodes (sc_nodeTree s)"
    "all_nodes (sc_nodeTree s) = mset (map fst (sc_nodes s))"
    using assms(3) unfolding cache_ok_def by (blast intro: size_all_nodes)+
  ultimately show "int (length (sn_list sn)) = nt_numNodes (sc_nodeTree s)" by simp
  show "sn_generation sn \<le> sc_generation s \<Longrightarrow> snap_inv s sn"
    using assms(1,2) info by (auto simp: snap_inv_def lists_ok_def holds_def)
qed

lemma rebuild_lists:
  assumes "holds s sn" "cache_ok s xs"
  obtains t' sn' where "updateNodeInfoSnapshotList s sn True = Some (Inr (s\<lparr>sc_nodeTree := t'\<rparr>, sn'))"
    "cache_ok (s\<lparr>sc_nodeTree := t'\<rparr>) xs" "holds s sn'" "lists_ok sn'" "sn_generation sn' = sn_generation sn"
proof -
  have d: "distinct (map fst (sc_nodes s))" and tree: "tree_inv (sc_nodeTree s)"
    "remaining (sc_nodeTree s) = {#} \<or> remaining (sc_nodeTree s) = all_nodes (sc_nodeTree s)"
    "all_nodes (sc_nodeTree s) = mset (map fst (sc_nodes s))"
    using assms(2) unfolding cache_ok_def list_inv_def by blast+
  obtain names t' where t': "nt_take (nat (nt_numNodes (sc_nodeTree s))) (sc_nodeTree s) = Some (Inr (names, t'))"
    "mset names = all_nodes (sc_nodeTree s)" "tree_inv t'" "all_nodes t' = all_nodes (sc_nodeTree s)" "remaining t' = {#}"
    using take_all_nodes [OF tree(1,2)] by blast
  define l where "l = List.map_filter (map_of (sn_map sn)) names"
  define sn' where "sn' = sn\<lparr>sn_list := l, sn_affinity := filter (\<lambda>a. has_affinity (sn_store sn a)) l\<rparr>"
  have "set names = dom (map_of (sn_map sn))"
    using mset_eq_setD [OF t'(2) [unfolded tree(3)]] assms(1) unfolding holds_def dom_info by simp
  then have "filter (\<lambda>x. map_of (sn_map sn) x \<noteq> None) names = names" by (auto simp: filter_id_conv)
  then have "l = map (the \<circ> map_of (sn_map sn)) names" by (simp only: l_def List.map_filter_def)
  then have "mset l = image_mset (the \<circ> map_of (sn_map sn)) (mset (map fst (sc_nodes s)))" by (simp only: mset_map t'(2) tree(3))
  then have "mset l = mset (map snd (sn_map sn))" by (simp only: holds_names(2) [OF assms(1) d])
  then have "lists_ok sn'" by (simp add: lists_ok_def sn'_def)
  moreover have "holds s sn'" using assms(1) by (simp add: holds_def addresses_ok_def sn'_def)
  moreover have "cache_ok (s\<lparr>sc_nodeTree := t'\<rparr>) xs"
    using assms(2) t' by (simp add: cache_ok_def list_inv_def linked_def gen_of_def dom_def)
  moreover have "updateNodeInfoSnapshotList s sn True = Some (Inr (s\<lparr>sc_nodeTree := t'\<rparr>, sn'))"
    by (simp add: updateNodeInfoSnapshotList_def t'(1) l_def sn'_def Let_def)
  ultimately show ?thesis using that by (simp add: sn'_def)
qed

subsection \<open>The update\<close>

lemma sorted_takeWhile:
  assumes "sorted_wrt (\<lambda>x y. f y < f x) xs" "x \<in> set xs" "(k :: int) < f x"
  shows "x \<in> set (takeWhile (\<lambda>x. k < f x) xs)"
  using assms by (induction xs) auto

lemma changed_infos:
  assumes "cache_ok s xs" "snap_inv s sn"
  obtains sn1 all aff where "copy_updated s (sn_generation sn) (sc_headNode s) (sn, False, False) = Some (sn1, all, aff)"
    "copied s sn (set (takeWhile (\<lambda>n. sn_generation sn < gen_of s n) xs)) (sn1, all, aff)"
    "\<And>n i. info_of s n = Some i \<Longrightarrow> \<exists>a. map_of (sn_map sn1) n = Some a \<and> sn_store sn1 a = i"
proof -
  let ?new = "takeWhile (\<lambda>n. sn_generation sn < gen_of s n) xs"
  have inv: "list_inv s xs" using assms(1) by (simp add: cache_ok_def)
  have named: "\<forall>n \<in> set ?new. \<exists>i nd. info_of s n = Some i \<and> ni_node i = Some nd \<and> n_Name nd = n"
  proof
    fix n assume "n \<in> set ?new"
    then have "n \<in> dom (info_of s)" using inv by (auto simp: list_inv_def dest: set_takeWhileD)
    then obtain i where "info_of s n = Some i" by blast
    then show "\<exists>i nd. info_of s n = Some i \<and> ni_node i = Some nd \<and> n_Name nd = n"
      using assms(1) unfolding cache_ok_def by blast
  qed
  define r where "r = fold copy_info (map (the \<circ> info_of s) ?new) (sn, False, False)"
  obtain sn1 all aff where r: "r = (sn1, all, aff)" by (cases r)
  have "copied s sn {} (sn, False, False)" using assms(2) by (simp add: copied_def snap_inv_def)
  from copied_fold [OF this named] have c: "copied s sn (set ?new) (sn1, all, aff)" by (simp add: r_def [symmetric] r)
  have "\<exists>a. map_of (sn_map sn1) n = Some a \<and> sn_store sn1 a = i" if i: "info_of s n = Some i" for n i
  proof (cases "n \<in> set ?new")
    case True
    then show ?thesis using copied_in [OF c True] i by (metis option.inject)
  next
    case False
    have "n \<in> set xs" using inv i by (auto simp: list_inv_def)
    then have "\<not> sn_generation sn < gen_of s n"
      using inv False sorted_takeWhile [of "gen_of s" xs n "sn_generation sn"] by (auto simp: list_inv_def)
    then have "ni_generation i \<le> sn_generation sn" using i by (simp add: gen_of_def)
    then obtain a where "map_of (sn_map sn) n = Some a" "sn_store sn a = i" using assms(2) i unfolding snap_inv_def by blast
    then show ?thesis using copied_out [OF c False] by metis
  qed
  moreover have "seg (map_of (sc_nodes s)) None (sc_headNode s) xs None" using inv by (simp add: list_inv_def linked_def)
  ultimately show ?thesis using that [OF _ c] copy_updated_fold by (simp add: r_def [symmetric] r)
qed

lemma map_of_filter_key: "map_of (filter (\<lambda>(k, _). P k) m) n = (if P n then map_of m n else None)"
  by (induction m) auto

lemma addresses_ok_filter: "addresses_ok sn \<Longrightarrow> addresses_ok (sn\<lparr>sn_map := filter P (sn_map sn)\<rparr>)"
  unfolding addresses_ok_def by (auto simp: distinct_map_filter)

lemma removed_frame: "removeDeletedNodesFromSnapshot s sn = sn\<lparr>sn_map := sn_map (removeDeletedNodesFromSnapshot s sn)\<rparr>"
  by (simp add: removeDeletedNodesFromSnapshot_def)

lemma without_deleted:
  assumes "addresses_ok sn1" "distinct (map fst (sc_nodes s))"
    and all: "\<And>n i. info_of s n = Some i \<Longrightarrow> \<exists>a. map_of (sn_map sn1) n = Some a \<and> sn_store sn1 a = i"
    and "sn3 = (if length (sc_nodes s) < length (sn_map sn1) then removeDeletedNodesFromSnapshot s sn1 else sn1)"
  shows "holds s sn3"
proof -
  let ?F = "filter (\<lambda>(n, _). info_of s n \<noteq> None) (sn_map sn1)"
  have keys: "dom (info_of s) \<subseteq> set (map fst (sn_map sn1))"
    using all unfolding set_map dom_map_of_conv_image_fst [symmetric] by blast
  have dist: "distinct (map fst (sn_map sn1))" using assms(1) by (simp add: addresses_ok_def)
  have sn3: "sn3 = sn1\<lparr>sn_map := ?F\<rparr>"
  proof (cases "length (sc_nodes s) < length (sn_map sn1)")
    case True
    have "removeDeletedNodesFromSnapshot s sn1 = sn1\<lparr>sn_map := ?F\<rparr>"
      by (subst removed_frame) (simp only: removed_nodes(1) [OF dist assms(2) keys])
    then show ?thesis using assms(4) True by simp
  next
    case False
    then show ?thesis using assms(4) removed_nodes(2) [OF dist assms(2) keys] by simp
  qed
  have "map_of (sn_map sn3) n = (if info_of s n = None then None else map_of (sn_map sn1) n)" for n
    unfolding sn3 by (simp add: map_of_filter_key)
  moreover have "sn_store sn3 = sn_store sn1" by (simp add: sn3)
  moreover have "addresses_ok sn3" unfolding sn3 by (rule addresses_ok_filter [OF assms(1)])
  ultimately show ?thesis unfolding holds_def using all by (auto split: if_splits) (metis option.inject)+
qed

lemma refresh_affinity:
  assumes "holds s sn" "mset (sn_list sn) = mset (map snd (sn_map sn))"
  shows "\<exists>sn'. updateNodeInfoSnapshotList s sn False = Some (Inr (s, sn')) \<and> holds s sn' \<and> lists_ok sn' \<and> sn_generation sn' = sn_generation sn"
  using assms by (simp add: updateNodeInfoSnapshotList_def holds_def addresses_ok_def lists_ok_def)

lemma same_affinity:
  assumes "copied s sn0 N (sn1, False, False)" "mset (sn_list sn0) = mset (map snd (sn_map sn0))"
    and "sn_affinity sn0 = filter (\<lambda>a. has_affinity (sn_store sn0 a)) (sn_list sn0)"
  shows "lists_ok sn1"
proof -
  have "set (sn_list sn0) = set (map snd (sn_map sn0))" using mset_eq_setD [OF assms(2)] .
  then have "filter (\<lambda>a. has_affinity (sn_store sn0 a)) (sn_list sn0) = filter (\<lambda>a. has_affinity (sn_store sn1 a)) (sn_list sn0)"
    using assms(1) unfolding copied_def by (intro filter_cong) auto
  then show ?thesis using assms by (simp add: lists_ok_def copied_def)
qed

lemma same_tree: "s = s\<lparr>sc_nodeTree := sc_nodeTree s\<rparr>"
  by simp

lemma renewed_lists:
  assumes "holds s sn" "cache_ok s xs" "\<not> all \<Longrightarrow> mset (sn_list sn) = mset (map snd (sn_map sn))"
    and "\<not> all \<Longrightarrow> \<not> aff \<Longrightarrow> lists_ok sn"
  obtains t' sn' where "(if all \<or> aff then updateNodeInfoSnapshotList s sn all else Some (Inr (s, sn))) = Some (Inr (s\<lparr>sc_nodeTree := t'\<rparr>, sn'))"
    "cache_ok (s\<lparr>sc_nodeTree := t'\<rparr>) xs" "holds s sn'" "lists_ok sn'" "sn_generation sn' = sn_generation sn"
proof (cases all)
  case True
  obtain t' sn' where "updateNodeInfoSnapshotList s sn True = Some (Inr (s\<lparr>sc_nodeTree := t'\<rparr>, sn'))"
    "cache_ok (s\<lparr>sc_nodeTree := t'\<rparr>) xs" "holds s sn'" "lists_ok sn'" "sn_generation sn' = sn_generation sn"
    using rebuild_lists [OF assms(1,2)] .
  then show ?thesis using that True by simp
next
  case False
  obtain sn' where "(if all \<or> aff then updateNodeInfoSnapshotList s sn all else Some (Inr (s, sn))) = Some (Inr (s, sn'))"
    "holds s sn'" "lists_ok sn'" "sn_generation sn' = sn_generation sn"
    using refresh_affinity [OF assms(1) assms(3) [OF False]] assms(1) assms(4) [OF False] False by (cases aff) auto
  then show ?thesis using that [of "sc_nodeTree s" sn'] assms(2) by simp
qed

lemma holds_tree [simp]: "holds (s\<lparr>sc_nodeTree := t\<rparr>) sn = holds s sn" "full_copy (s\<lparr>sc_nodeTree := t\<rparr>) sn = full_copy s sn"
  by (simp_all add: holds_def full_copy_def)

lemma head_generation:
  assumes "cache_ok s xs" "snap_inv s sn"
  shows "sn_generation sn \<le> sc_generation s" "sc_headNode s = Some h \<Longrightarrow> info_of s h = Some i \<Longrightarrow> ni_generation i \<le> sc_generation s"
proof -
  show "sn_generation sn \<le> sc_generation s" using assms(2) by (simp add: snap_inv_def)
  assume h: "sc_headNode s = Some h" "info_of s h = Some i"
  have inv: "list_inv s xs" using assms(1) by (simp add: cache_ok_def)
  then have "h \<in> set xs" using h(2) by (auto simp: list_inv_def)
  then have "gen_of s h \<le> sc_generation s" using inv unfolding list_inv_def by blast
  then show "ni_generation i \<le> sc_generation s" using h(2) by (simp add: gen_of_def)
qed

lemma update_copies_all:
  assumes "cache_ok s xs" "snap_inv s sn"
  shows "\<exists>t' sn'. UpdateSnapshot s sn = Some (Inr (False, s\<lparr>sc_nodeTree := t'\<rparr>, sn')) \<and>
    full_copy s sn' \<and> cache_ok (s\<lparr>sc_nodeTree := t'\<rparr>) xs \<and> snap_inv (s\<lparr>sc_nodeTree := t'\<rparr>) sn'"
proof -
  obtain sn1 all aff where c: "copy_updated s (sn_generation sn) (sc_headNode s) (sn, False, False) = Some (sn1, all, aff)"
    "copied s sn (set (takeWhile (\<lambda>n. sn_generation sn < gen_of s n) xs)) (sn1, all, aff)"
    "\<And>n i. info_of s n = Some i \<Longrightarrow> \<exists>a. map_of (sn_map sn1) n = Some a \<and> sn_store sn1 a = i"
    using changed_infos [OF assms] by blast
  define gen where "gen = (case sc_headNode s of None \<Rightarrow> sn_generation sn1 | Some h \<Rightarrow> (case info_of s h of Some i \<Rightarrow> ni_generation i | None \<Rightarrow> sn_generation sn1))"
  define sn2 where "sn2 = sn1\<lparr>sn_generation := gen\<rparr>"
  define deleted where "deleted \<longleftrightarrow> length (sc_nodes s) < length (sn_map sn2)"
  define sn3 where "sn3 = (if deleted then removeDeletedNodesFromSnapshot s sn2 else sn2)"
  have sn2: "(case sc_headNode s of None \<Rightarrow> sn1 | Some h \<Rightarrow>
      (case info_of s h of Some i \<Rightarrow> sn1\<lparr>sn_generation := ni_generation i\<rparr> | None \<Rightarrow> sn1)) = sn2"
    by (simp add: sn2_def gen_def split: option.split)
  have eq: "UpdateSnapshot s sn =
     (case (if (all \<or> deleted) \<or> aff then updateNodeInfoSnapshotList s sn3 (all \<or> deleted) else Some (Inr (s, sn3))) of
        None \<Rightarrow> None | Some (Inl p) \<Rightarrow> Some (Inl p)
      | Some (Inr (s4, sn4)) \<Rightarrow>
          if int (length (sn_list sn4)) \<noteq> nt_numNodes (sc_nodeTree s4) then
            (case updateNodeInfoSnapshotList s4 sn4 True of
               None \<Rightarrow> None | Some (Inl p) \<Rightarrow> Some (Inl p) | Some (Inr (s5, sn5)) \<Rightarrow> Some (Inr (True, s5, sn5)))
          else Some (Inr (False, s4, sn4)))"
    unfolding UpdateSnapshot_def c(1) option.case prod.case sn2 Let_def deleted_def [symmetric] sn3_def [symmetric] by (rule refl)
  have d: "distinct (map fst (sc_nodes s))" using assms(1) by (simp add: cache_ok_def list_inv_def)
  have "holds s sn3"
    by (rule without_deleted [of sn2, OF _ d]) (use c(2,3) in \<open>auto simp: copied_def addresses_ok_def sn2_def sn3_def deleted_def\<close>)
  moreover have "lists_ok sn3 = lists_ok sn1" "sn_list sn3 = sn_list sn" "sn_map sn3 = sn_map sn" if "\<not> (all \<or> deleted)"
    using that c(2) by (simp_all add: sn3_def sn2_def copied_def lists_ok_def)
  moreover have lists: "mset (sn_list sn) = mset (map snd (sn_map sn))" "sn_affinity sn = filter (\<lambda>a. has_affinity (sn_store sn a)) (sn_list sn)"
    using assms(2) by (simp_all add: snap_inv_def)
  moreover have "lists_ok sn1" if "\<not> (all \<or> deleted)" "\<not> aff"
    using same_affinity [OF _ lists] c(2) that by simp
  ultimately obtain t' sn4 where r: "(if (all \<or> deleted) \<or> aff then updateNodeInfoSnapshotList s sn3 (all \<or> deleted) else Some (Inr (s, sn3))) =
      Some (Inr (s\<lparr>sc_nodeTree := t'\<rparr>, sn4))"
    "cache_ok (s\<lparr>sc_nodeTree := t'\<rparr>) xs" "holds s sn4" "lists_ok sn4" "sn_generation sn4 = sn_generation sn3"
    using renewed_lists [of s sn3 xs "all \<or> deleted" aff] assms(1) by auto
  let ?s' = "s\<lparr>sc_nodeTree := t'\<rparr>"
  have "sn_generation sn4 = gen" using r(5) removed_frame [of s sn2] by (auto simp: sn3_def sn2_def removeDeletedNodesFromSnapshot_def)
  moreover have "gen \<le> sc_generation s" using head_generation [OF assms] c(2) by (auto simp: gen_def copied_def split: option.split)
  ultimately have "sn_generation sn4 \<le> sc_generation ?s'" by simp
  with r(2-4) have "full_copy s sn4" "int (length (sn_list sn4)) = nt_numNodes (sc_nodeTree ?s')" "snap_inv ?s' sn4"
    using holds_full_copy [of ?s' sn4 xs] by simp_all
  then have "UpdateSnapshot s sn = Some (Inr (False, ?s', sn4))" unfolding eq r(1) by simp
  then show ?thesis using \<open>full_copy s sn4\<close> r(2) \<open>snap_inv ?s' sn4\<close> by blast
qed

text \<open>
  C36: one update of the snapshot.  Let the infos of the cache be linked in the order in which they
  changed, each with its node, and let the tree have these nodes, at the start or the end of an
  enumeration.  If the snapshot has every info that is not newer than itself, with the lists of its
  map, then \<open>UpdateSnapshot\<close> reports no inconsistency, and the snapshot is what copying the whole cache
  would give: the same info for every name, every node once in the list, and the nodes with affine pods
  are those of the list that have some.  The cache and the snapshot are ready for the next update.
\<close>

theorem snapshot_is_a_full_copy:
  assumes "cache_ok s xs" "snap_inv s sn"
  shows "\<exists>t' sn'. UpdateSnapshot s sn = Some (Inr (False, s\<lparr>sc_nodeTree := t'\<rparr>, sn')) \<and>
    full_copy s sn' \<and> cache_ok (s\<lparr>sc_nodeTree := t'\<rparr>) xs \<and> snap_inv (s\<lparr>sc_nodeTree := t'\<rparr>) sn'"
  by (rule update_copies_all [OF assms])

end
