(* ===== verification/GenericSchedulerLaws.thy ===== *)
theory GenericSchedulerLaws
  imports GenericScheduler SchedSnapshotLaws
begin

section \<open>What a scheduling cycle guarantees\<close>

text \<open>
  The parallel search finds, whatever the order in which the checks take effect, feasible nodes only, and as many as
  there are up to the number asked for; the cycle picks one of them with the highest score, each of the best with the
  same probability.
\<close>

subsection \<open>The number of nodes to find\<close>

lemma feasible_bounds:
  assumes "0 \<le> n" "99 * n \<le> 2147483647"
  shows "min 100 n \<le> numFeasibleNodesToFind s n \<and> numFeasibleNodesToFind s n \<le> n"
proof (cases "n < 100 \<or> 100 \<le> gs_percentageOfNodesToScore s")
  case False
  let ?p = "adaptive_percentage (gs_percentageOfNodesToScore s) n"
  have q: "0 \<le> n sdiv 125" "n sdiv 125 \<le> n" using assms(1) by (simp_all add: sdiv_nonneg)
  then have "wrap32 (50 - n sdiv 125) = 50 - n sdiv 125" using assms by (intro wrap32_id) auto
  then have p: "5 \<le> ?p \<or> ?p = gs_percentageOfNodesToScore s \<and> 0 < ?p" "?p \<le> 99"
    using q False by (auto simp: adaptive_percentage_def minFeasibleNodesPercentageToFind_def Let_def)
  then have pos: "0 \<le> n * ?p" using assms(1) by auto
  have "n * ?p \<le> n * 99" using p(2) assms(1) by (intro mult_left_mono) auto
  then have w: "wrap32 (n * ?p) = n * ?p" using pos assms(2) by (intro wrap32_id) auto
  have "n * ?p div 100 \<le> n" using \<open>n * ?p \<le> n * 99\<close> assms(1) by linarith
  then show ?thesis using False w pos
    by (auto simp: numFeasibleNodesToFind_def minFeasibleNodesToFind_def Let_def sdiv_nonneg)
qed (use assms in \<open>auto simp: numFeasibleNodesToFind_def minFeasibleNodesToFind_def\<close>)

text \<open>
  The search stops after a number of nodes that is between the smaller of 100 and the number of all nodes, and
  the number of all nodes, as long as the percentages do not overflow \<open>int32\<close> (up to 21 million nodes).
\<close>

theorem numFeasibleNodes_bounds:
  assumes "0 \<le> n" "99 * n \<le> 2147483647"
  shows "min 100 n \<le> numFeasibleNodesToFind s n \<and> numFeasibleNodesToFind s n \<le> n"
  by (rule feasible_bounds [OF assms])

subsection \<open>Verdicts do not depend on generations\<close>

definition ignores_generations :: "'st sched_framework \<Rightarrow> bool" where
  "ignores_generations prof \<longleftrightarrow>
     (\<forall>pl \<in> set (fw_filterPlugins prof). \<forall>st pod n k. fp_Filter pl st pod (n\<lparr>ni_generation := k\<rparr>) = fp_Filter pl st pod n) \<and>
     (\<forall>pl \<in> set (fw_preFilterPlugins prof). \<forall>e. pf_Extensions pl = Some e \<longrightarrow>
        (\<forall>pod p n st k. pe_AddPod e pod p (n\<lparr>ni_generation := k\<rparr>) st = pe_AddPod e pod p n st))"

definition ungenerated :: "node_info \<Rightarrow> node_info" where
  "ungenerated n = n\<lparr>ni_generation := 0\<rparr>"

lemma ungenerated_eq: "ungenerated n = ungenerated m \<longleftrightarrow> (\<exists>k. m = n\<lparr>ni_generation := k\<rparr>)"
proof
  assume "ungenerated n = ungenerated m"
  then have "m = n\<lparr>ni_generation := ni_generation m\<rparr>" by (cases n, cases m) (simp add: ungenerated_def)
  then show "\<exists>k. m = n\<lparr>ni_generation := k\<rparr>" by blast
qed (auto simp: ungenerated_def)

lemma AddPod_ungenerated:
  "ungenerated n = ungenerated m \<Longrightarrow> ungenerated (snd (ni_AddPod g p (gen, n))) = ungenerated (snd (ni_AddPod g p (gen', m)))"
  by (auto simp: ungenerated_eq ni_AddPod_def Let_def split: prod.split)

lemma run_extensions_cong:
  assumes "\<And>pl e st. pl \<in> set pls \<Longrightarrow> pf_Extensions pl = Some e \<Longrightarrow> m1 e pod p n st = m1 e pod p n' st"
  shows "run_extensions meth m1 pls pod p n st = run_extensions meth m1 pls pod p n' st"
  using assms
proof (induction pls arbitrary: st)
  case (Cons pl pls)
  have IH: "run_extensions meth m1 pls pod p n st = run_extensions meth m1 pls pod p n' st" for st
    by (rule Cons.IH) (use Cons.prems in auto)
  have "m1 e pod p n st = m1 e pod p n' st" if "pf_Extensions pl = Some e" for e st
    by (rule Cons.prems) (use that in simp_all)
  then show ?case by (auto simp: IH split: option.split prod.split)
qed simp

lemma AddPod_extension_ungenerated:
  assumes "ignores_generations prof" "ungenerated n = ungenerated m"
  shows "RunPreFilterExtensionAddPod prof pod p n st = RunPreFilterExtensionAddPod prof pod p m st"
  unfolding RunPreFilterExtensionAddPod_def
  by (rule run_extensions_cong) (use assms in \<open>auto simp: ignores_generations_def ungenerated_eq\<close>)

lemma run_filters_cong:
  "(\<And>pl. pl \<in> set pls \<Longrightarrow> fp_Filter pl st pod n = fp_Filter pl st pod n') \<Longrightarrow>
     run_filters runAll pls st pod n ss = run_filters runAll pls st pod n' ss"
proof (induction pls arbitrary: ss)
  case (Cons pl pls)
  then have "run_filters runAll pls st pod n ss = run_filters runAll pls st pod n' ss" for ss by simp
  then show ?case using Cons.prems [of pl] by (cases runAll) (simp_all add: Let_def split: option.split)
qed simp

lemma run_and_merge_ungenerated:
  assumes "ignores_generations prof" "ungenerated n = ungenerated m"
  shows "run_and_merge prof st pod n = run_and_merge prof st pod m"
proof -
  have "RunFilterPlugins prof st pod n = RunFilterPlugins prof st pod m" unfolding RunFilterPlugins_def
    by (rule run_filters_cong) (use assms in \<open>auto simp: ignores_generations_def ungenerated_eq\<close>)
  then show ?thesis by (simp add: run_and_merge_def)
qed

definition nominated_result :: "string + bool \<times> 'st \<times> node_info \<Rightarrow> string + bool \<times> 'st \<times> node_info" where
  "nominated_result r = map_sum id (map_prod id (map_prod id ungenerated)) r"

lemma add_nominated_ungenerated:
  assumes "ignores_generations prof" "ungenerated n = ungenerated m"
  shows "nominated_result (fst (add_nominated g prof pod ps added st (gen, n))) =
    nominated_result (fst (add_nominated g prof pod ps added st (gen', m)))"
  using assms(2)
proof (induction ps arbitrary: added st gen gen' n m)
  case (Cons p ps)
  obtain k1 n1 where n: "ni_AddPod g p (gen, n) = (k1, n1)" by force
  obtain k2 m1 where m: "ni_AddPod g p (gen', m) = (k2, m1)" by force
  have u: "ungenerated n1 = ungenerated m1" using AddPod_ungenerated [OF Cons.prems, of g p gen gen'] by (simp add: n m)
  note e = AddPod_extension_ungenerated [OF assms(1) u]
  show ?case
    by (simp add: n m e Cons.IH [OF u] Cons.IH [OF Cons.prems] split: prod.split option.split)
qed (simp add: nominated_result_def)

lemma addNominatedPods_ungenerated:
  assumes "ignores_generations prof" "ungenerated n = ungenerated m"
  shows "nominated_result (fst (addNominatedPods s g prof pod st (gen, n))) =
    nominated_result (fst (addNominatedPods s g prof pod st (gen', m)))"
proof -
  have "ni_node m = ni_node n" using assms(2) by (auto simp: ungenerated_eq)
  then show ?thesis using add_nominated_ungenerated [OF assms, of g pod _ False st gen gen'] assms(2)
    by (auto simp: addNominatedPods_def nominated_result_def Let_def split: option.split)
qed

lemma podPassesFilters_ungenerated:
  assumes "ignores_generations prof" "ungenerated n = ungenerated m"
  shows "fst (podPassesFiltersOnNode s g prof st pod (gen, n)) = fst (podPassesFiltersOnNode s g prof st pod (gen', m))"
proof -
  note rm = run_and_merge_ungenerated [OF assms(1)]
  obtain r1 g1 where a: "addNominatedPods s g prof pod st (gen, n) = (r1, g1)" by force
  obtain r2 g2 where b: "addNominatedPods s g prof pod st (gen', m) = (r2, g2)" by force
  have eq: "nominated_result r1 = nominated_result r2"
    using addNominatedPods_ungenerated [OF assms, of s g pod st gen gen'] by (simp add: a b)
  show ?thesis
  proof (cases r1)
    case (Inl e)
    then show ?thesis using eq by (cases r2) (simp_all add: podPassesFiltersOnNode_def a b nominated_result_def)
  next
    case (Inr t1)
    obtain d1 s1 n1 where t1: "t1 = (d1, s1, n1)" by (cases t1)
    then obtain n2 where r2: "r2 = Inr (d1, s1, n2)" "ungenerated n1 = ungenerated n2"
      using eq Inr by (cases r2) (auto simp: nominated_result_def)
    show ?thesis
      by (simp add: podPassesFiltersOnNode_def a b Inr t1 r2(1) rm [OF r2(2)] rm [OF assms(2)] split: sum.split)
  qed
qed

subsection \<open>The search in parallel\<close>

definition verdict :: "generic_scheduler \<Rightarrow> sched_gates \<Rightarrow> 'st sched_framework \<Rightarrow> 'st \<Rightarrow> pod \<Rightarrow> node_info \<Rightarrow> string + status option" where
  "verdict s g prof st pod n = fst (podPassesFiltersOnNode s g prof st pod (0, n))"

definition feasible :: "generic_scheduler \<Rightarrow> sched_gates \<Rightarrow> 'st sched_framework \<Rightarrow> 'st \<Rightarrow> pod \<Rightarrow> node_info \<Rightarrow> bool" where
  "feasible s g prof st pod n \<longleftrightarrow> (case verdict s g prof st pod n of Inl _ \<Rightarrow> False | Inr status \<Rightarrow> IsSuccess status)"

definition note_verdict :: "int \<Rightarrow> node \<Rightarrow> string + status option \<Rightarrow> search \<Rightarrow> search" where
  "note_verdict N nd v r =
     (case v of
        Inl e \<Rightarrow> r\<lparr>se_error := (case se_error r of None \<Rightarrow> Some e | Some e0 \<Rightarrow> Some e0), se_cancelled := True\<rparr>
      | Inr status \<Rightarrow>
          if IsSuccess status then
            if N < int (length (se_filtered r)) + 1 then r\<lparr>se_cancelled := True\<rparr> else r\<lparr>se_filtered := se_filtered r @ [nd]\<rparr>
          else (case status of None \<Rightarrow> r | Some x \<Rightarrow> r\<lparr>se_statuses := AList.update (n_Name nd) x (se_statuses r)\<rparr>))"

definition node_at :: "generic_scheduler \<Rightarrow> node_info list \<Rightarrow> nat \<Rightarrow> node_info" where
  "node_at s allNodes i = allNodes ! nat ((gs_nextStartNodeIndex s + int i) smod int (length allNodes))"

lemma podPasses_verdict:
  "ignores_generations prof \<Longrightarrow> fst (podPassesFiltersOnNode s g prof st pod (gen, n)) = verdict s g prof st pod n"
  unfolding verdict_def by (rule podPassesFilters_ungenerated) simp_all

lemma checkNode_verdict:
  assumes "ignores_generations prof" "ni_node (node_at s allNodes i) = Some nd"
  shows "\<exists>gen. checkNode s g prof st pod allNodes i r =
    Inr (note_verdict (nodes_to_find s allNodes) nd (verdict s g prof st pod (node_at s allNodes i)) (r\<lparr>se_generation := gen\<rparr>))"
proof -
  obtain v gen where v: "podPassesFiltersOnNode s g prof st pod (se_generation r, node_at s allNodes i) = (v, gen)" by force
  then have "v = verdict s g prof st pod (node_at s allNodes i)"
    using podPasses_verdict [OF assms(1), of s g st pod "se_generation r" "node_at s allNodes i"] by simp
  then show ?thesis using v assms(2)
    by (intro exI [of _ gen])
      (simp add: checkNode_def node_at_def [symmetric] note_verdict_def Let_def split: sum.split option.split)
qed

lemma check_nodes_snoc:
  "check_nodes check (is @ [i]) r = (case check_nodes check is r of Inl p \<Rightarrow> Inl p | Inr r1 \<Rightarrow> check i r1)"
  by (induction "is" arbitrary: r) (auto split: sum.split)

lemma note_verdict_error: "se_error (note_verdict N nd v r) = None \<Longrightarrow> se_error r = None"
  by (auto simp: note_verdict_def split: sum.splits option.splits if_splits)

definition passing :: "(nat \<Rightarrow> string + status option) \<Rightarrow> nat \<Rightarrow> bool" where
  "passing v i \<longleftrightarrow> (\<exists>status. v i = Inr status \<and> IsSuccess status)"

text \<open>What the checks have noted after those in \<open>done\<close>.\<close>

definition noted :: "int \<Rightarrow> (nat \<Rightarrow> string + status option) \<Rightarrow> (nat \<Rightarrow> node) \<Rightarrow> nat list \<Rightarrow> search \<Rightarrow> bool" where
  "noted N v nd done r \<longleftrightarrow>
     se_filtered r = map nd (take (nat N) (filter (passing v) done)) \<and>
     (se_cancelled r \<longleftrightarrow> N < int (length (filter (passing v) done))) \<and>
     (\<forall>i \<in> set done. \<exists>status. v i = Inr status) \<and>
     fst ` set (se_statuses r) = n_Name ` nd ` {i \<in> set done. \<not> passing v i} \<and>
     (\<forall>x \<in> snd ` set (se_statuses r). \<not> IsSuccess (Some x))"

lemma fst_update: "fst ` set (AList.update k x l) = insert k (fst ` set l)"
  by (simp add: AList.dom_update)

lemma update_vals: "P x \<Longrightarrow> \<forall>y \<in> snd ` set l. P y \<Longrightarrow> \<forall>y \<in> snd ` set (AList.update k x l). P y"
  by (induction l) auto

lemma noted_step:
  assumes "noted N v nd done r" "0 \<le> N" "se_error (note_verdict N (nd i) (v i) (r\<lparr>se_generation := gen\<rparr>)) = None"
  shows "noted N v nd (done @ [i]) (note_verdict N (nd i) (v i) (r\<lparr>se_generation := gen\<rparr>))"
proof (cases "v i")
  case (Inl e)
  then show ?thesis using assms(3) by (auto simp: note_verdict_def split: option.splits)
next
  case (Inr status)
  let ?F = "filter (passing v) done"
  have n: "se_filtered r = map nd (take (nat N) ?F)" "se_cancelled r \<longleftrightarrow> N < int (length ?F)"
    "fst ` set (se_statuses r) = n_Name ` nd ` {j \<in> set done. \<not> passing v j}"
    using assms(1) by (simp_all add: noted_def)
  show ?thesis
  proof (cases "IsSuccess status")
    case True
    then have p: "passing v i" using Inr by (simp add: passing_def)
    then have same: "{j. (j = i \<or> j \<in> set done) \<and> \<not> passing v j} = {j \<in> set done. \<not> passing v j}" by auto
    have "int (length (se_filtered r)) = min N (int (length ?F))" using assms(2) by (simp add: n(1))
    then show ?thesis using assms(1,2) Inr True p n
      by (auto simp: noted_def note_verdict_def same)
  next
    case False
    then obtain x where x: "status = Some x" by (cases status) (auto simp: IsSuccess_def Code_def)
    have p: "\<not> passing v i" using Inr False by (simp add: passing_def)
    then have same: "{j. (j = i \<or> j \<in> set done) \<and> \<not> passing v j} = insert i {j \<in> set done. \<not> passing v j}" by auto
    have "\<forall>y \<in> snd ` set (AList.update (n_Name (nd i)) x (se_statuses r)). \<not> IsSuccess (Some y)"
      by (rule update_vals) (use assms(1) False x in \<open>simp_all add: noted_def\<close>)
    moreover have "note_verdict N (nd i) (v i) (r\<lparr>se_generation := gen\<rparr>) =
        r\<lparr>se_generation := gen, se_statuses := AList.update (n_Name (nd i)) x (se_statuses r)\<rparr>"
      using False by (simp add: note_verdict_def Inr x)
    ultimately show ?thesis using assms(1) Inr p by (simp add: noted_def same fst_update)
  qed
qed


lemma check_nodes_noted:
  assumes "\<And>i r. i \<in> set order \<Longrightarrow> \<exists>gen. check i r = Inr (note_verdict N (nd i) (v i) (r\<lparr>se_generation := gen\<rparr>))"
    and "0 \<le> N" "check_nodes check order (new_search gen0) = Inr r" "se_error r = None"
  shows "noted N v nd order r"
  using assms(1,3,4)
proof (induction order arbitrary: r rule: rev_induct)
  case Nil
  then show ?case using assms(2) by (auto simp: noted_def new_search_def)
next
  case (snoc i "is")
  obtain r1 where r1: "check_nodes check is (new_search gen0) = Inr r1" "check i r1 = Inr r"
    using snoc.prems(2) by (auto simp: check_nodes_snoc split: sum.splits)
  then obtain gen where r: "r = note_verdict N (nd i) (v i) (r1\<lparr>se_generation := gen\<rparr>)"
    using snoc.prems(1) [of i r1] by auto
  have "se_error r1 = None" using note_verdict_error [of N "nd i" "v i" "r1\<lparr>se_generation := gen\<rparr>"] snoc.prems(3) by (simp add: r)
  then have "noted N v nd is r1" using r1(1) snoc.prems(1) by (intro snoc.IH) auto
  then show ?case using noted_step [OF _ assms(2), of v nd "is" r1 i gen] snoc.prems(3) by (simp add: r)
qed

lemma noted_complete:
  assumes "noted N v nd order r" "possible_order n order r" "0 \<le> N"
  shows "\<exists>is. distinct is \<and> set is \<subseteq> {i. i < n \<and> passing v i} \<and> se_filtered r = map nd is \<and>
      int (length is) = min N (int (card {i. i < n \<and> passing v i}))"
    and "int (length (se_filtered r)) < N \<Longrightarrow>
      set (se_filtered r) = nd ` {i. i < n \<and> passing v i} \<and>
      fst ` set (se_statuses r) = n_Name ` nd ` {i. i < n \<and> \<not> passing v i}"
proof -
  let ?F = "filter (passing v) order"
  have d: "distinct ?F" "set ?F \<subseteq> {i. i < n \<and> passing v i}" using assms(2) by (auto simp: possible_order_def)
  have card: "length ?F = card (set ?F)" by (rule distinct_card [OF d(1), symmetric])
  have le: "length ?F \<le> card {i. i < n \<and> passing v i}" unfolding card by (rule card_mono) (use d(2) in auto)
  have all: "set order = {..<n}" if "int (length ?F) \<le> N"
    using that assms(1,2) by (auto simp: noted_def possible_order_def)
  have eq: "set ?F = {i. i < n \<and> passing v i}" if "int (length ?F) \<le> N" using all [OF that] by auto
  have len: "int (length (take (nat N) ?F)) = min N (int (card {i. i < n \<and> passing v i}))"
  proof (cases "int (length ?F) \<le> N")
    case True
    then show ?thesis using card eq by simp
  next
    case False
    then show ?thesis using le assms(3) by simp
  qed
  have f: "se_filtered r = map nd (take (nat N) ?F)" using assms(1) by (simp add: noted_def)
  show "\<exists>is. distinct is \<and> set is \<subseteq> {i. i < n \<and> passing v i} \<and> se_filtered r = map nd is \<and>
      int (length is) = min N (int (card {i. i < n \<and> passing v i}))"
    using d f len set_take_subset [of "nat N" ?F] by (intro exI [of _ "take (nat N) ?F"]) (simp only: distinct_take, blast)
  assume "int (length (se_filtered r)) < N"
  then have small: "int (length ?F) \<le> N" by (simp add: f split: if_splits)
  then have "take (nat N) ?F = ?F" by simp
  then show "set (se_filtered r) = nd ` {i. i < n \<and> passing v i} \<and>
      fst ` set (se_statuses r) = n_Name ` nd ` {i. i < n \<and> \<not> passing v i}"
    using eq [OF small] all [OF small] assms(1) by (auto simp: f noted_def)
qed


lemma rotate_bij:
  assumes "0 \<le> start" "0 < n"
  shows "bij_betw (\<lambda>i. nat ((start + int i) smod int n)) {..<n} {..<n}"
proof -
  let ?k = "nat start"
  have eq: "nat ((start + int i) smod int n) = (?k + i) mod n" for i
    using assms by (simp add: smod_nonneg nat_mod_distrib nat_add_distrib)
  have "inj_on (\<lambda>i. (?k + i) mod n) {..<n}"
  proof (rule inj_onI)
    fix i j assume "i \<in> {..<n}" "j \<in> {..<n}" "(?k + i) mod n = (?k + j) mod n"
    then show "i = j" by (cases "i \<le> j") (auto simp: mod_eq_dvd_iff_nat dest!: sym [of "(?k + i) mod n"] dvd_imp_le)
  qed
  moreover have "(\<lambda>i. (?k + i) mod n) ` {..<n} \<subseteq> {..<n}" using assms(2) by auto
  ultimately have "bij_betw (\<lambda>i. (?k + i) mod n) {..<n} {..<n}"
    by (metis bij_betw_def card_image card_subset_eq finite_lessThan)
  then show ?thesis by (simp only: eq)
qed

lemma image_filter: "f ` A = B \<Longrightarrow> f ` {i \<in> A. Q (f i)} = {j \<in> B. Q j}"
  by blast

definition infos_ok :: "node_info list \<Rightarrow> bool" where
  "infos_ok infos \<longleftrightarrow> (\<forall>n \<in> set infos. ni_node n \<noteq> None) \<and> distinct (map (n_Name \<circ> the \<circ> ni_node) infos)"

lemma node_at_bij:
  assumes "0 \<le> gs_nextStartNodeIndex s" "infos \<noteq> []"
  shows "node_at s infos ` {i. i < length infos \<and> P (node_at s infos i)} = {n \<in> set infos. P n}"
    and "card {i. i < length infos \<and> P (node_at s infos i)} = length (filter P infos)"
proof -
  let ?n = "length infos" and ?f = "\<lambda>i. nat ((gs_nextStartNodeIndex s + int i) smod int (length infos))"
  have b: "bij_betw ?f {..<?n} {..<?n}" using assms by (intro rotate_bij) auto
  have im: "?f ` {i. i < ?n \<and> P (infos ! ?f i)} = {j. j < ?n \<and> P (infos ! j)}"
    using image_filter [of ?f "{..<?n}" "{..<?n}" "\<lambda>j. P (infos ! j)"] b by (simp add: bij_betw_def lessThan_def)
  show "node_at s infos ` {i. i < ?n \<and> P (node_at s infos i)} = {n \<in> set infos. P n}"
  proof -
    have "node_at s infos ` {i. i < ?n \<and> P (node_at s infos i)} = (!) infos ` ?f ` {i. i < ?n \<and> P (infos ! ?f i)}"
      by (simp add: node_at_def image_image)
    also have "\<dots> = {n \<in> set infos. P n}" unfolding im by (auto simp: set_conv_nth)
    finally show ?thesis .
  qed
  have "inj_on ?f {i. i < ?n \<and> P (infos ! ?f i)}"
    using b unfolding bij_betw_def by (auto intro: inj_on_subset)
  from card_image [OF this] have "card {j. j < ?n \<and> P (infos ! j)} = card {i. i < ?n \<and> P (infos ! ?f i)}"
    unfolding im .
  then show "card {i. i < ?n \<and> P (node_at s infos i)} = length (filter P infos)"
    by (simp add: node_at_def length_filter_conv_card)
qed


lemma search_result:
  assumes "ignores_generations prof" "infos_ok infos" "0 \<le> gs_nextStartNodeIndex s" "infos \<noteq> []" "0 \<le> nodes_to_find s infos"
    and "check_nodes (checkNode s g prof st pod infos) order (new_search gen) = Inr r" "possible_order (length infos) order r"
    and "se_error r = None"
  shows "distinct (se_filtered r) \<and>
      set (se_filtered r) \<subseteq> (the \<circ> ni_node) ` {n \<in> set infos. feasible s g prof st pod n} \<and>
      int (length (se_filtered r)) = min (nodes_to_find s infos) (int (length (filter (feasible s g prof st pod) infos)))"
    and "int (length (se_filtered r)) < nodes_to_find s infos \<Longrightarrow>
      set (se_filtered r) = (the \<circ> ni_node) ` {n \<in> set infos. feasible s g prof st pod n} \<and>
      fst ` set (se_statuses r) = (n_Name \<circ> the \<circ> ni_node) ` {n \<in> set infos. \<not> feasible s g prof st pod n}"
    and "\<forall>x \<in> snd ` set (se_statuses r). \<not> IsSuccess (Some x)"
proof -
  let ?N = "nodes_to_find s infos" and ?v = "\<lambda>i. verdict s g prof st pod (node_at s infos i)"
    and ?nd = "\<lambda>i. the (ni_node (node_at s infos i))"
  have all: "node_at s infos i \<in> set infos" if "i < length infos" for i
    using node_at_bij(1) [OF assms(3,4), of "\<lambda>_. True"] that by auto
  have law: "\<exists>gen. checkNode s g prof st pod infos i r = Inr (note_verdict ?N (?nd i) (?v i) (r\<lparr>se_generation := gen\<rparr>))"
    if "i \<in> set order" for i r
  proof -
    have "i < length infos" using assms(7) that by (auto simp: possible_order_def)
    then have "ni_node (node_at s infos i) \<noteq> None" using all assms(2) by (auto simp: infos_ok_def)
    then show ?thesis by (intro checkNode_verdict [OF assms(1)]) auto
  qed
  have noted: "noted ?N ?v ?nd order r" by (rule check_nodes_noted [OF law assms(5,6,8)])
  have pass: "passing ?v i \<longleftrightarrow> feasible s g prof st pod (node_at s infos i)" for i
    by (simp add: passing_def feasible_def split: sum.split)
  note nc = noted_complete [OF noted assms(7,5), unfolded pass]
  have image: "?nd ` {i. i < length infos \<and> P (node_at s infos i)} = (the \<circ> ni_node) ` {n \<in> set infos. P n}" for P
    unfolding node_at_bij(1) [OF assms(3,4), symmetric] by (auto simp: image_iff)
  have inj: "inj_on ?nd {..<length infos}"
  proof (rule inj_onI)
    fix i j assume ij: "i \<in> {..<length infos}" "j \<in> {..<length infos}" "?nd i = ?nd j"
    have inj: "inj_on (n_Name \<circ> the \<circ> ni_node) (set infos)" and "distinct infos"
      using assms(2) by (auto simp: infos_ok_def distinct_map)
    have "node_at s infos i = node_at s infos j" by (rule inj_onD [OF inj]) (use ij all in auto)
    moreover have "inj_on (\<lambda>i. nat ((gs_nextStartNodeIndex s + int i) smod int (length infos))) {..<length infos}"
      and m: "\<And>i. i < length infos \<Longrightarrow> nat ((gs_nextStartNodeIndex s + int i) smod int (length infos)) < length infos"
      using rotate_bij [OF assms(3), of "length infos"] assms(4) by (auto simp: bij_betw_def)
    ultimately show "i = j" using \<open>distinct infos\<close> ij m by (auto simp: node_at_def nth_eq_iff_index_eq dest: inj_onD)
  qed
  obtain "is" where i: "distinct is" "set is \<subseteq> {i. i < length infos \<and> feasible s g prof st pod (node_at s infos i)}"
    "se_filtered r = map ?nd is" "int (length is) = min ?N (int (length (filter (feasible s g prof st pod) infos)))"
    using nc(1) unfolding node_at_bij(2) [OF assms(3,4)] by blast
  have "inj_on ?nd (set is)" by (rule inj_on_subset [OF inj]) (use i(2) in auto)
  then show "distinct (se_filtered r) \<and>
      set (se_filtered r) \<subseteq> (the \<circ> ni_node) ` {n \<in> set infos. feasible s g prof st pod n} \<and>
      int (length (se_filtered r)) = min ?N (int (length (filter (feasible s g prof st pod) infos)))"
    using i image [of "feasible s g prof st pod"] by (auto simp: distinct_map)
  show "int (length (se_filtered r)) < ?N \<Longrightarrow>
      set (se_filtered r) = (the \<circ> ni_node) ` {n \<in> set infos. feasible s g prof st pod n} \<and>
      fst ` set (se_statuses r) = (n_Name \<circ> the \<circ> ni_node) ` {n \<in> set infos. \<not> feasible s g prof st pod n}"
    using nc(2) image [of "feasible s g prof st pod"] image [of "\<lambda>n. \<not> feasible s g prof st pod n"]
    by (simp add: image_image)
  show "\<forall>x \<in> snd ` set (se_statuses r). \<not> IsSuccess (Some x)" using noted by (simp add: noted_def)
qed


lemma node_at_mem: "0 \<le> gs_nextStartNodeIndex s \<Longrightarrow> infos \<noteq> [] \<Longrightarrow> node_at s infos i \<in> set infos"
  unfolding node_at_def by (intro nth_mem) (simp add: nat_less_iff smod_nonneg)

lemma check_nodes_returns:
  assumes "ignores_generations prof" "infos_ok infos" "0 \<le> gs_nextStartNodeIndex s" "infos \<noteq> []"
    and "\<forall>e. se_error r = Some e \<longrightarrow> (\<exists>n \<in> set infos. verdict s g prof st pod n = Inl e)"
  shows "\<exists>r1. check_nodes (checkNode s g prof st pod infos) order r = Inr r1 \<and>
    (\<forall>e. se_error r1 = Some e \<longrightarrow> (\<exists>n \<in> set infos. verdict s g prof st pod n = Inl e))"
  using assms(5)
proof (induction order arbitrary: r)
  case (Cons i order)
  let ?n = "node_at s infos i"
  have n: "?n \<in> set infos" using assms(3,4) by (rule node_at_mem)
  then obtain nd where "ni_node ?n = Some nd" using assms(2) by (auto simp: infos_ok_def)
  from checkNode_verdict [OF assms(1) this] obtain gen where
    c: "checkNode s g prof st pod infos i r = Inr (note_verdict (nodes_to_find s infos) nd (verdict s g prof st pod ?n) (r\<lparr>se_generation := gen\<rparr>))"
    by blast
  have "\<exists>m \<in> set infos. verdict s g prof st pod m = Inl e"
    if "se_error (note_verdict (nodes_to_find s infos) nd (verdict s g prof st pod ?n) (r\<lparr>se_generation := gen\<rparr>)) = Some e" for e
    using that Cons.prems n by (auto simp: note_verdict_def split: sum.splits option.splits if_splits)
  then show ?case using Cons.IH by (simp add: c)
qed simp

text \<open>The orders in which a search in parallel can take effect.\<close>

definition possible_run :: "nat list \<Rightarrow> sched_gates \<Rightarrow> 'st sched_framework \<Rightarrow> 'st \<Rightarrow> pod \<Rightarrow> generic_scheduler \<Rightarrow> bool" where
  "possible_run order g prof st pod s \<longleftrightarrow>
     (let infos = sn_NodeInfos (gs_nodeInfoSnapshot s) in
      \<forall>r. check_nodes (checkNode s g prof st pod infos) order (new_search (sc_generation (gs_cache s))) = Inr r \<longrightarrow>
        possible_order (length infos) order r)"

definition found :: "generic_scheduler \<Rightarrow> sched_gates \<Rightarrow> 'st sched_framework \<Rightarrow> 'st \<Rightarrow> pod \<Rightarrow> node_info list \<Rightarrow> node list \<Rightarrow> node_statuses \<Rightarrow> bool" where
  "found s g prof st pod infos nodes statuses \<longleftrightarrow>
     distinct nodes \<and> set nodes \<subseteq> (the \<circ> ni_node) ` {n \<in> set infos. feasible s g prof st pod n} \<and>
     int (length nodes) = min (nodes_to_find s infos) (int (length (filter (feasible s g prof st pod) infos))) \<and>
     (int (length nodes) < nodes_to_find s infos \<longrightarrow>
        set nodes = (the \<circ> ni_node) ` {n \<in> set infos. feasible s g prof st pod n} \<and>
        fst ` set statuses = (n_Name \<circ> the \<circ> ni_node) ` {n \<in> set infos. \<not> feasible s g prof st pod n})"

text \<open>
  C22: The search in parallel does not depend on the order in which the checks of the nodes take effect: it
  returns, with an error only if the filters of some node err, and otherwise with different nodes that pass the
  filters, as many as there are up to the number to find.  When it found fewer than this number, they are all nodes
  that pass, and every other node has a status that says why not.  The filters do not look at the generation
  of a node's info.
\<close>

theorem search_finds_feasible_nodes:
  assumes "ignores_generations prof" "HasFilterPlugins prof" "possible_run order g prof st pod s"
    and "infos = sn_NodeInfos (gs_nodeInfoSnapshot s)" "infos \<noteq> []" "infos_ok infos" "0 \<le> gs_nextStartNodeIndex s"
    and "99 * int (length infos) \<le> 2147483647"
  shows "\<exists>res s'. findNodesThatPassFilters order g prof st pod s = Inr (res, s') \<and>
    (case res of
       Inl e \<Rightarrow> \<exists>n \<in> set infos. verdict s g prof st pod n = Inl e
     | Inr (nodes, statuses) \<Rightarrow> found s g prof st pod infos nodes statuses)"
proof -
  have n: "0 \<le> nodes_to_find s infos"
    using feasible_bounds [of "int (length infos)" s] assms(8) by (simp add: nodes_to_find_def wrap32_id min_def split: if_splits)
  have "\<exists>r. check_nodes (checkNode s g prof st pod infos) order (new_search (sc_generation (gs_cache s))) = Inr r \<and>
      (\<forall>e. se_error r = Some e \<longrightarrow> (\<exists>n \<in> set infos. verdict s g prof st pod n = Inl e))"
    by (rule check_nodes_returns [OF assms(1,6,7,5)]) (simp add: new_search_def)
  then obtain r where r: "check_nodes (checkNode s g prof st pod infos) order (new_search (sc_generation (gs_cache s))) = Inr r"
    "\<forall>e. se_error r = Some e \<longrightarrow> (\<exists>n \<in> set infos. verdict s g prof st pod n = Inl e)"
    by blast
  have p: "possible_order (length infos) order r" using assms(3) r(1) by (simp add: possible_run_def assms(4) Let_def)
  let ?s' = "advance_start (bump_generation (se_generation r) s) (int (length (se_filtered r) + length (se_statuses r))) (int (length infos))"
  have find: "findNodesThatPassFilters order g prof st pod s =
      Inr (case se_error r of Some e \<Rightarrow> Inl e | None \<Rightarrow> Inr (se_filtered r, se_statuses r), ?s')"
    using assms(2,5) r(1) by (simp add: findNodesThatPassFilters_def assms(4) [symmetric] Let_def)
  show ?thesis
  proof (cases "se_error r")
    case None
    then have "found s g prof st pod infos (se_filtered r) (se_statuses r)"
      using search_result [OF assms(1,6,7,5) n r(1) p] unfolding found_def by blast
    then show ?thesis using find None by simp
  next
    case (Some e)
    then show ?thesis using find r(2) by simp
  qed
qed

end
