(* ===== verification/HostSelection.thy ===== *)
theory HostSelection
  imports GenericScheduler
begin

section \<open>The host among the best nodes\<close>

text \<open>
  \<open>selectHost\<close> goes through the scores once and draws a random number for every node that ties with the best so
  far.  The selected node has the highest score, and over all possible draws every node with that score is selected
  equally often.
\<close>

lemma select_loop_max:
  "\<exists>sc. (select_loop rnd j maxScore selected cnt rest, sc) \<in> set ((selected, maxScore) # rest) \<and>
     (\<forall>e \<in> set ((selected, maxScore) # rest). snd e \<le> sc)"
proof (induction rest arbitrary: j maxScore selected cnt)
  case (Cons e rest)
  obtain name score where e: "e = (name, score)" by force
  consider "maxScore < score" | "score = maxScore" | "score < maxScore" by linarith
  then show ?case
  proof cases
    case 1
    obtain sc where "(select_loop rnd j score name 1 rest, sc) \<in> set ((name, score) # rest)" "\<forall>e \<in> set ((name, score) # rest). snd e \<le> sc"
      using Cons.IH [of j score name 1] by blast
    then show ?thesis using 1 by (intro exI [of _ sc]) (auto simp: e)
  next
    case 2
    let ?x = "if rnd j (cnt + 1) = 0 then name else selected"
    obtain sc where "(select_loop rnd (Suc j) maxScore ?x (cnt + 1) rest, sc) \<in> set ((?x, maxScore) # rest)"
      "\<forall>e \<in> set ((?x, maxScore) # rest). snd e \<le> sc"
      using Cons.IH [of "Suc j" maxScore ?x "cnt + 1"] by blast
    then show ?thesis using 2 by (intro exI [of _ sc]) (auto simp: e)
  next
    case 3
    obtain sc where "(select_loop rnd j maxScore selected cnt rest, sc) \<in> set ((selected, maxScore) # rest)"
      "\<forall>e \<in> set ((selected, maxScore) # rest). snd e \<le> sc"
      using Cons.IH [of j maxScore selected cnt] by blast
    then show ?thesis using 3 by (intro exI [of _ sc]) (auto simp: e)
  qed
qed simp

lemma selectHost_max:
  assumes "selectHost rnd l = Some host"
  shows "\<exists>sc. (host, sc) \<in> set l \<and> (\<forall>e \<in> set l. snd e \<le> sc)"
proof -
  obtain name score rest where l: "l = (name, score) # rest" using assms by (cases l) (auto simp: selectHost_def)
  then have "host = select_loop rnd 0 score name 1 rest" using assms by (simp add: selectHost_def)
  then show ?thesis using select_loop_max [of rnd 0 score name 1 rest] by (simp add: l)
qed

subsection \<open>All possible draws\<close>

text \<open>The bounds of the draws, in their order, and all lists of draws within these bounds.\<close>

fun draw_bounds :: "int \<Rightarrow> int \<Rightarrow> node_scores \<Rightarrow> int list" where
  "draw_bounds maxScore cnt [] = []"
| "draw_bounds maxScore cnt ((name, score) # rest) =
     (if maxScore < score then draw_bounds score 1 rest
      else if score = maxScore then (cnt + 1) # draw_bounds maxScore (cnt + 1) rest
      else draw_bounds maxScore cnt rest)"

fun all_draws :: "int list \<Rightarrow> int list list" where
  "all_draws [] = [[]]"
| "all_draws (b # bs) = concat (map (\<lambda>d. map ((#) d) (all_draws bs)) [0..b - 1])"

definition from_list :: "int list \<Rightarrow> nat \<Rightarrow> int \<Rightarrow> int" where
  "from_list ds j k = ds ! j"

definition possible_draws :: "node_scores \<Rightarrow> int list list" where
  "possible_draws l = (case l of [] \<Rightarrow> [[]] | (name, score) # rest \<Rightarrow> all_draws (draw_bounds score 1 rest))"

definition times_selected :: "node_scores \<Rightarrow> string \<Rightarrow> nat" where
  "times_selected l host = length (filter (\<lambda>ds. selectHost (from_list ds) l = Some host) (possible_draws l))"

lemma select_loop_from_list:
  "select_loop (from_list (d # ds)) (Suc j) m sel cnt rest = select_loop (from_list ds) j m sel cnt rest"
  by (induction rest arbitrary: j m sel cnt) (auto simp: from_list_def)

definition chosen :: "int \<Rightarrow> string \<Rightarrow> int \<Rightarrow> node_scores \<Rightarrow> string \<Rightarrow> nat" where
  "chosen m sel cnt rest h =
     length (filter (\<lambda>ds. select_loop (from_list ds) 0 m sel cnt rest = h) (all_draws (draw_bounds m cnt rest)))"

lemma length_filter_concat: "length (filter P (concat xss)) = (\<Sum>xs\<leftarrow>xss. length (filter P xs))"
  by (induction xss) auto

lemma chosen_greater: "m < score \<Longrightarrow> chosen m sel cnt ((name, score) # rest) h = chosen score name 1 rest h"
  by (simp add: chosen_def)

lemma chosen_less: "score < m \<Longrightarrow> chosen m sel cnt ((name, score) # rest) h = chosen m sel cnt rest h"
  by (simp add: chosen_def)

lemma chosen_equal:
  assumes "1 \<le> cnt"
  shows "chosen m sel cnt ((name, m) # rest) h = chosen m name (cnt + 1) rest h + nat cnt * chosen m sel (cnt + 1) rest h"
proof -
  let ?D = "all_draws (draw_bounds m (cnt + 1) rest)"
  have step: "select_loop (from_list (d # ds)) 0 m sel cnt ((name, m) # rest) =
      select_loop (from_list ds) 0 m (if d = 0 then name else sel) (cnt + 1) rest" for d ds
    by (simp add: select_loop_from_list) (simp add: from_list_def)
  have one: "length (filter (\<lambda>ds. select_loop (from_list ds) 0 m sel cnt ((name, m) # rest) = h) (map ((#) d) ?D)) =
      chosen m (if d = 0 then name else sel) (cnt + 1) rest h" for d
    by (simp only: filter_map comp_def step length_map chosen_def)
  have range: "[0..cnt + 1 - 1] = 0 # [1..cnt]" using assms by (simp add: upto_rec1)
  have rest: "(\<Sum>d\<leftarrow>[1..cnt]. chosen m (if d = 0 then name else sel) (cnt + 1) rest h) = nat cnt * chosen m sel (cnt + 1) rest h"
  proof -
    have "(\<Sum>d\<leftarrow>[1..cnt]. chosen m (if d = 0 then name else sel) (cnt + 1) rest h) = (\<Sum>d\<leftarrow>[1..cnt]. chosen m sel (cnt + 1) rest h)"
      by (intro arg_cong [of _ _ sum_list] map_cong) auto
    then show ?thesis by (simp add: sum_list_triv)
  qed
  have b: "draw_bounds m cnt ((name, m) # rest) = (cnt + 1) # draw_bounds m (cnt + 1) rest" by simp
  have "chosen m sel cnt ((name, m) # rest) h = (\<Sum>d\<leftarrow>[0..cnt + 1 - 1]. chosen m (if d = 0 then name else sel) (cnt + 1) rest h)"
    unfolding chosen_def [of m sel cnt] b by (simp only: all_draws.simps length_filter_concat map_map comp_def one)
  also have "\<dots> = chosen m name (cnt + 1) rest h + nat cnt * chosen m sel (cnt + 1) rest h"
    unfolding range by (simp only: list.map sum_list.Cons rest simp_thms if_True)
  finally show ?thesis .
qed

definition total :: "int \<Rightarrow> int \<Rightarrow> node_scores \<Rightarrow> nat" where
  "total m cnt rest = length (all_draws (draw_bounds m cnt rest))"

lemma length_all_draws: "length (all_draws (b # bs)) = nat b * length (all_draws bs)"
  by (simp add: length_concat comp_def sum_list_triv)

lemma total_simps:
  "total m cnt [] = 1"
  "m < score \<Longrightarrow> total m cnt ((name, score) # rest) = total score 1 rest"
  "score < m \<Longrightarrow> total m cnt ((name, score) # rest) = total m cnt rest"
  "total m cnt ((name, m) # rest) = nat (cnt + 1) * total m (cnt + 1) rest"
  by (simp_all add: total_def length_all_draws del: all_draws.simps(2))


text \<open>How often a node is selected: \<open>top\<close> is the highest score and \<open>ties\<close> the number of nodes of the rest that have it.\<close>

definition highest :: "int \<Rightarrow> node_scores \<Rightarrow> int" where
  "highest m rest = foldl max m (map snd rest)"

definition ties :: "int \<Rightarrow> node_scores \<Rightarrow> int" where
  "ties sc l = int (length (filter (\<lambda>e. snd e = sc) l))"

lemma highest_ge: "m \<le> highest m rest"
  by (induction rest arbitrary: m) (auto simp: highest_def intro: order_trans [OF max.cobounded1])

lemma highest_Cons: "highest m ((name, score) # rest) = highest (max m score) rest"
  by (simp add: highest_def)

text \<open>The weights of the selected node and of the others; they are those of the remaining draws.\<close>

definition weight :: "int \<Rightarrow> string \<Rightarrow> int \<Rightarrow> node_scores \<Rightarrow> string \<Rightarrow> int" where
  "weight m sel cnt rest h =
     (if h = sel then if highest m rest = m then cnt else 0 else if (h, highest m rest) \<in> set rest then 1 else 0)"

definition weights :: "int \<Rightarrow> int \<Rightarrow> node_scores \<Rightarrow> int" where
  "weights m cnt rest = (if highest m rest = m then cnt else 0) + ties (highest m rest) rest"

lemma ties_Cons: "ties sc ((name, score) # rest) = (if score = sc then 1 else 0) + ties sc rest"
  by (simp add: ties_def)

lemma chosen_weight:
  assumes "1 \<le> cnt" "distinct (sel # map fst rest)"
  shows "int (chosen m sel cnt rest h) * weights m cnt rest = int (total m cnt rest) * weight m sel cnt rest h"
  using assms
proof (induction rest arbitrary: m sel cnt)
  case Nil
  then show ?case by (simp add: chosen_def total_simps weights_def weight_def ties_def highest_def)
next
  case (Cons e rest)
  obtain name score where e: "e = (name, score)" by force
  have d: "distinct (name # map fst rest)" "distinct (sel # map fst rest)" "name \<noteq> sel"
    "\<And>x. (name, x) \<notin> set rest" "\<And>x. (sel, x) \<notin> set rest"
    using Cons.prems(2) by (auto simp: e image_iff)
  consider (better) "m < score" | (tie) "score = m" | (worse) "score < m" by linarith
  then show ?case
  proof cases
    case better
    then have "highest m (e # rest) = highest score rest" "m < highest score rest"
      using highest_ge [of score rest] by (auto simp: e highest_Cons max_def)
    then have "weights m cnt (e # rest) = weights score 1 rest" "weight m sel cnt (e # rest) h = weight score name 1 rest h"
      using better d(3-5) by (auto simp: e weights_def weight_def ties_Cons)
    then show ?thesis using Cons.IH [OF _ d(1), of 1 score] better by (simp add: e chosen_greater total_simps)
  next
    case worse
    then have "highest m (e # rest) = highest m rest" "score < highest m rest"
      using highest_ge [of m rest] by (auto simp: e highest_Cons max_def)
    then have "weights m cnt (e # rest) = weights m cnt rest" "weight m sel cnt (e # rest) h = weight m sel cnt rest h"
      using d(3-5) by (auto simp: e weights_def weight_def ties_Cons)
    then show ?thesis using Cons.IH [OF Cons.prems(1) d(2), of m] worse by (simp add: e chosen_less total_simps)
  next
    case tie
    let ?M = "highest m rest" and ?W = "weights m (cnt + 1) rest" and ?T = "int (total m (cnt + 1) rest)"
    have M: "highest m (e # rest) = ?M" by (simp add: e highest_Cons tie)
    have W: "weights m cnt (e # rest) = ?W" using M by (auto simp: e weights_def ties_Cons tie)
    have w: "weight m name (cnt + 1) rest h + cnt * weight m sel (cnt + 1) rest h = (cnt + 1) * weight m sel cnt (e # rest) h"
      unfolding weight_def M using d(3-5) by (auto simp: e tie algebra_simps)
    note a = Cons.IH [OF _ d(1), of "cnt + 1" m] and b = Cons.IH [OF _ d(2), of "cnt + 1" m]
    have "int (chosen m sel cnt (e # rest) h) * ?W =
        int (chosen m name (cnt + 1) rest h) * ?W + cnt * (int (chosen m sel (cnt + 1) rest h) * ?W)"
      using Cons.prems(1) by (simp add: e tie chosen_equal algebra_simps)
    also have "\<dots> = ?T * (weight m name (cnt + 1) rest h + cnt * weight m sel (cnt + 1) rest h)"
      using a b Cons.prems(1) by (simp add: algebra_simps)
    also have "\<dots> = int (total m cnt (e # rest)) * weight m sel cnt (e # rest) h"
      unfolding w using Cons.prems(1) by (simp add: e tie total_simps algebra_simps)
    finally show ?thesis unfolding W .
  qed
qed

lemma foldl_max: "foldl max m xs = Max (insert m (set xs))" for m :: int
proof (induction xs arbitrary: m)
  case (Cons a xs)
  have "Max (insert (max m a) (set xs)) = Max (insert m (insert a (set xs)))"
    by (cases "set xs = {}") (simp_all add: max.assoc)
  then show ?case by (simp only: foldl_Cons Cons.IH list.set)
qed simp

text \<open>
  C25: \<open>selectHost\<close> is fair: when the nodes have different names, every node with the highest score is selected
  by the same share of the possible draws, one over the number of these nodes; no other node is ever selected.
\<close>

theorem select_host_is_fair:
  assumes "distinct (map fst l)" "(host, sc) \<in> set l"
  shows "int (times_selected l host) * ties (Max (snd ` set l)) l =
    (if sc = Max (snd ` set l) then int (length (possible_draws l)) else 0)"
proof -
  obtain sel m rest where l: "l = (sel, m) # rest" using assms(2) by (cases l) auto
  have M: "highest m rest = Max (snd ` set l)" by (simp add: highest_def l foldl_max del: Max_insert)
  have "int (chosen m sel 1 rest host) * weights m 1 rest = int (total m 1 rest) * weight m sel 1 rest host"
    by (rule chosen_weight) (use assms(1) in \<open>simp_all add: l\<close>)
  moreover have "weights m 1 rest = ties (highest m rest) l" by (auto simp: weights_def l ties_Cons)
  moreover have "weight m sel 1 rest host = (if sc = highest m rest then 1 else 0)"
  proof (cases "host = sel")
    case True
    have "(sel, sc) \<notin> set rest" using assms(1) by (force simp: l)
    then have "sc = m" using assms(2) True by (simp add: l)
    then show ?thesis using True by (simp add: weight_def)
  next
    case False
    then have "(host, sc) \<in> set rest" using assms(2) by (simp add: l)
    moreover have "y = sc" if "(host, y) \<in> set rest" for y
      using eq_key_imp_eq_value [of rest host y sc] assms(1) that calculation by (simp add: l)
    ultimately have "(host, highest m rest) \<in> set rest \<longleftrightarrow> sc = highest m rest" by blast
    then show ?thesis using False by (simp add: weight_def)
  qed
  moreover have "times_selected l host = chosen m sel 1 rest host" "length (possible_draws l) = total m 1 rest"
    by (simp_all add: times_selected_def chosen_def total_def possible_draws_def selectHost_def l)
  ultimately show ?thesis unfolding M by simp
qed

theorem select_host_is_fair_witness:
  "times_selected [(''a'', 5), (''b'', 3), (''c'', 5), (''d'', 5)] ''d'' = 2"
  using select_host_is_fair [of "[(''a'', 5), (''b'', 3), (''c'', 5), (''d'', 5)]" "''d''" 5]
  by (simp add: ties_def possible_draws_def upto.simps)

end
