(* ===== verification/NodeResources.thy ===== *)
theory NodeResources
  imports NodeInfo
begin

section \<open>Filtering nodes by their resources\<close>

text \<open>
  The filter \<open>NodeResourcesFit\<close> of \<open>pkg/scheduler/framework/plugins/noderesources/fit.go\<close>, through which
  the scheduler keeps the network SLOs of a node within the capacity \<open>example.com/SLO\<close> it advertises,
  and what it guarantees for a node that pods are admitted to one after the other.
\<close>

subsection \<open>NodeResourcesFit\<close>

record insufficient =
  is_ResourceName :: string
  is_Reason :: string
  is_Requested :: int
  is_Used :: int
  is_Capacity :: int

definition computePodResourceRequest :: "sched_gates \<Rightarrow> pod \<Rightarrow> node_resource" where
  "computePodResourceRequest g pod =
     (let r0 = foldl (\<lambda>r c. res_Add g (c_Requests c) r) emptyResource (p_Containers pod);
          r1 = foldl (\<lambda>r c. SetMaxResource (c_Requests c) r) r0 (p_InitContainers pod)
      in case p_Overhead pod of
           None \<Rightarrow> r1
         | Some ov \<Rightarrow> if sg_PodOverhead g then res_Add g ov r1 else r1)"

definition lacks :: "string \<Rightarrow> string \<Rightarrow> int \<Rightarrow> int \<Rightarrow> int \<Rightarrow> insufficient list" where
  "lacks name reason req used cap =
     (if cap < wrap64 (req + used)
      then [\<lparr>is_ResourceName = name, is_Reason = reason, is_Requested = req, is_Used = used, is_Capacity = cap\<rparr>] else [])"

definition lacks_scalar :: "string list \<Rightarrow> node_info \<Rightarrow> string \<times> int \<Rightarrow> insufficient list" where
  "lacks_scalar ignored n nq =
     (case nq of (name, q) \<Rightarrow>
        if IsExtendedResourceName name \<and> name \<in> set ignored then []
        else lacks name (''Insufficient '' @ name) q (scalar (r_ScalarResources (ni_requested n)) name)
               (scalar (r_ScalarResources (ni_allocatable n)) name))"

definition fitsRequest :: "node_resource \<Rightarrow> node_info \<Rightarrow> string list \<Rightarrow> insufficient list" where
  "fitsRequest req n ignored =
     (let allowed = r_AllowedPodNumber (ni_allocatable n);
          pods = int (length (ni_pods n));
          tooMany = (if allowed < pods + 1
            then [\<lparr>is_ResourceName = ResourcePods, is_Reason = ''Too many pods'', is_Requested = 1, is_Used = pods, is_Capacity = allowed\<rparr>]
            else [])
      in
      if r_MilliCPU req = 0 \<and> r_Memory req = 0 \<and> r_EphemeralStorage req = 0 \<and> r_ScalarResources req = [] then tooMany
      else tooMany
        @ lacks ResourceCPU ''Insufficient cpu'' (r_MilliCPU req) (r_MilliCPU (ni_requested n)) (r_MilliCPU (ni_allocatable n))
        @ lacks ResourceMemory ''Insufficient memory'' (r_Memory req) (r_Memory (ni_requested n)) (r_Memory (ni_allocatable n))
        @ lacks ResourceEphemeralStorage ''Insufficient ephemeral-storage'' (r_EphemeralStorage req)
            (r_EphemeralStorage (ni_requested n)) (r_EphemeralStorage (ni_allocatable n))
        @ concat (map (lacks_scalar ignored n) (r_ScalarResources req)))"

definition Fits :: "sched_gates \<Rightarrow> pod \<Rightarrow> node_info \<Rightarrow> string list \<Rightarrow> insufficient list" where
  "Fits g pod n ignored = fitsRequest (computePodResourceRequest g pod) n ignored"

text \<open>\<open>PreFilter\<close> stores the request in the cycle state, \<open>Filter\<close> reads it; without it the filter errs.\<close>

datatype filter_status = FilterSuccess | FilterError | FilterUnschedulable "string list"

definition fit_PreFilter :: "sched_gates \<Rightarrow> pod \<Rightarrow> node_resource option" where
  "fit_PreFilter g pod = Some (computePodResourceRequest g pod)"

definition fit_Filter :: "node_resource option \<Rightarrow> node_info \<Rightarrow> string list \<Rightarrow> filter_status" where
  "fit_Filter st n ignored =
     (case st of
        None \<Rightarrow> FilterError
      | Some s \<Rightarrow>
          (case fitsRequest s n ignored of
             [] \<Rightarrow> FilterSuccess
           | lacking \<Rightarrow> FilterUnschedulable (map is_Reason lacking)))"

subsection \<open>What the filter checks\<close>

definition asks_nothing :: "node_resource \<Rightarrow> bool" where
  "asks_nothing req \<longleftrightarrow>
     r_MilliCPU req = 0 \<and> r_Memory req = 0 \<and> r_EphemeralStorage req = 0 \<and> r_ScalarResources req = []"

definition has_room :: "node_info \<Rightarrow> node_resource \<Rightarrow> string \<Rightarrow> bool" where
  "has_room n req k \<longleftrightarrow> wrap64 (amount req k + amount (ni_requested n) k) \<le> amount (ni_allocatable n) k"

definition counted :: "string list \<Rightarrow> node_resource \<Rightarrow> string set" where
  "counted ignored req =
     {ResourceCPU, ResourceMemory, ResourceEphemeralStorage} \<union>
     {k \<in> fst ` set (r_ScalarResources req). \<not> (IsExtendedResourceName k \<and> k \<in> set ignored)}"

lemma computePodResourceRequest_eq: "computePodResourceRequest g pod = sched_request g pod"
  by (simp add: computePodResourceRequest_def sched_request_def calculateResource_def Let_def split: prod.split option.split)

lemma lacks_Nil [simp]: "lacks name reason req used cap = [] \<longleftrightarrow> wrap64 (req + used) \<le> cap"
  by (auto simp: lacks_def)

lemma lacks_scalar_Nil:
  assumes "IsScalarResourceName k" "scalar (r_ScalarResources req) k = q"
  shows "lacks_scalar ignored n (k, q) = [] \<longleftrightarrow> IsExtendedResourceName k \<and> k \<in> set ignored \<or> has_room n req k"
proof -
  have "k \<noteq> ResourceCPU" "k \<noteq> ResourceMemory" "k \<noteq> ResourceEphemeralStorage"
    using assms(1) native_names by metis+
  then show ?thesis using assms(2) by (auto simp: lacks_scalar_def has_room_def amount_def)
qed

lemma fitsRequest_Nil:
  assumes "keys_distinct req" "\<forall>k \<in> fst ` set (r_ScalarResources req). IsScalarResourceName k"
  shows "fitsRequest req n ignored = [] \<longleftrightarrow>
    int (length (ni_pods n)) < r_AllowedPodNumber (ni_allocatable n) \<and>
    (asks_nothing req \<or> (\<forall>k \<in> counted ignored req. has_room n req k))"
proof -
  have "lacks_scalar ignored n (k, q) = [] \<longleftrightarrow> IsExtendedResourceName k \<and> k \<in> set ignored \<or> has_room n req k"
    if "(k, q) \<in> set (r_ScalarResources req)" for k q
    using that assms by (intro lacks_scalar_Nil) (force, simp add: scalar_def)
  then have scalars: "concat (map (lacks_scalar ignored n) (r_ScalarResources req)) = [] \<longleftrightarrow>
    (\<forall>k \<in> fst ` set (r_ScalarResources req). IsExtendedResourceName k \<and> k \<in> set ignored \<or> has_room n req k)"
    by fastforce
  have main: "has_room n req ResourceCPU \<longleftrightarrow> wrap64 (r_MilliCPU req + r_MilliCPU (ni_requested n)) \<le> r_MilliCPU (ni_allocatable n)"
    "has_room n req ResourceMemory \<longleftrightarrow> wrap64 (r_Memory req + r_Memory (ni_requested n)) \<le> r_Memory (ni_allocatable n)"
    "has_room n req ResourceEphemeralStorage \<longleftrightarrow>
       wrap64 (r_EphemeralStorage req + r_EphemeralStorage (ni_requested n)) \<le> r_EphemeralStorage (ni_allocatable n)"
    by (simp_all add: has_room_def amount_def)
  have split: "(\<forall>k \<in> counted ignored req. has_room n req k) \<longleftrightarrow>
      has_room n req ResourceCPU \<and> has_room n req ResourceMemory \<and> has_room n req ResourceEphemeralStorage \<and>
      (\<forall>k \<in> fst ` set (r_ScalarResources req). IsExtendedResourceName k \<and> k \<in> set ignored \<or> has_room n req k)"
    unfolding counted_def by blast
  have many: "(if a < b + 1 then [x] else []) = [] \<longleftrightarrow> b < a" for a b :: int and x :: insufficient by simp
  show ?thesis
  proof (cases "asks_nothing req")
    case True
    then show ?thesis by (simp add: fitsRequest_def asks_nothing_def Let_def not_le)
  next
    case False
    then show ?thesis
      unfolding split scalars [symmetric] asks_nothing_def main fitsRequest_def Let_def
      by (simp only: if_False append_is_Nil_conv lacks_Nil many) simp
  qed
qed

text \<open>
  C29: The filter lets a pod on a node exactly when the node has a pod slot left and, unless the pod
  asks for nothing, there is room for its request of cpu, memory, ephemeral storage and every scalar
  resource (such as \<open>example.com/SLO\<close>) that is not an ignored extended resource.
\<close>

theorem pod_fits_iff:
  "Fits g pod n ignored = [] \<longleftrightarrow>
     int (length (ni_pods n)) < r_AllowedPodNumber (ni_allocatable n) \<and>
     (asks_nothing (sched_request g pod) \<or> (\<forall>k \<in> counted ignored (sched_request g pod). has_room n (sched_request g pod) k))"
  unfolding Fits_def computePodResourceRequest_eq
  by (rule fitsRequest_Nil [OF sched_request_distinct sched_request_scalars])

subsection \<open>Admitting pods one after the other\<close>

text \<open>A pod bound to the node when it fits there, as the scheduler's cache records it.\<close>

definition admit :: "sched_gates \<Rightarrow> string list \<Rightarrow> int \<times> node_info \<Rightarrow> pod \<Rightarrow> int \<times> node_info" where
  "admit g ignored st pod = (if Fits g pod (snd st) ignored = [] then ni_AddPod g pod st else st)"

definition within_cap :: "sched_gates \<Rightarrow> string \<Rightarrow> int \<Rightarrow> node_info \<Rightarrow> bool" where
  "within_cap g k cap n \<longleftrightarrow>
     accounted g n \<and> amount (ni_allocatable n) k = cap \<and> 0 \<le> requested_sum g (ni_pods n) k \<and> requested_sum g (ni_pods n) k \<le> cap"

lemma fitting_request_within_cap:
  assumes "Fits g pod n ignored = []" "\<not> (IsExtendedResourceName k \<and> k \<in> set ignored)"
    and "within_cap g k cap n" "0 \<le> amount (sched_request g pod) k" "amount (sched_request g pod) k + cap \<le> 9223372036854775807"
  shows "requested_sum g (ni_pods n) k + amount (sched_request g pod) k \<le> cap"
proof (cases "k \<in> counted ignored (sched_request g pod) \<and> \<not> asks_nothing (sched_request g pod)")
  case True
  let ?r = "amount (sched_request g pod) k" and ?s = "requested_sum g (ni_pods n) k"
  have "has_room n (sched_request g pod) k" using assms(1) True unfolding pod_fits_iff by blast
  moreover have "amount (ni_requested n) k = ?s" "in64 (?r + ?s)"
    using assms(3-5) by (auto simp: within_cap_def accounted_def in64_def)
  ultimately show ?thesis using assms(3) by (simp add: has_room_def within_cap_def add.commute)
next
  case False
  have "amount (sched_request g pod) k = 0"
  proof (cases "asks_nothing (sched_request g pod)")
    case True
    then show ?thesis by (simp add: amount_def asks_nothing_def scalar_def)
  next
    case no: False
    with False have "k \<noteq> ResourceCPU" "k \<noteq> ResourceMemory" "k \<noteq> ResourceEphemeralStorage"
      "k \<notin> fst ` set (r_ScalarResources (sched_request g pod))"
      using assms(2) by (auto simp: counted_def)
    then show ?thesis by (simp add: amount_def scalar_notin)
  qed
  then show ?thesis using assms(3) by (simp add: within_cap_def)
qed

lemma admit_within_cap:
  assumes "within_cap g k cap (snd st)" "\<not> (IsExtendedResourceName k \<and> k \<in> set ignored)"
    and "0 \<le> amount (sched_request g pod) k" "amount (sched_request g pod) k + cap \<le> 9223372036854775807"
  shows "within_cap g k cap (snd (admit g ignored st pod))"
proof (cases "Fits g pod (snd st) ignored = []")
  case True
  obtain gen n where st: "st = (gen, n)" by force
  have "accounted g (snd (ni_AddPod g pod (gen, n)))"
    using assms(1) by (intro AddPod_accounted) (simp add: within_cap_def st)
  then show ?thesis
    using fitting_request_within_cap [OF _ assms(2) _ assms(3,4), of n] True assms(1,3)
    by (simp add: admit_def st within_cap_def go_frame requested_sum_def)
qed (use assms(1) in \<open>simp add: admit_def\<close>)

text \<open>
  C30: A node is never oversubscribed: when pods are admitted to it one after the other by the filter,
  the sum of their requests of a resource that is not ignored, such as \<open>example.com/SLO\<close>, stays within
  what the node advertises, provided no single request is so large that adding it to the capacity
  leaves the \<open>int64\<close> range.
\<close>

theorem node_never_oversubscribed:
  assumes "accounted g n" "0 \<le> requested_sum g (ni_pods n) k" "requested_sum g (ni_pods n) k \<le> amount (ni_allocatable n) k"
    and "\<not> (IsExtendedResourceName k \<and> k \<in> set ignored)"
    and "\<forall>p \<in> set pods. 0 \<le> amount (sched_request g p) k \<and>
           amount (sched_request g p) k + amount (ni_allocatable n) k \<le> 9223372036854775807"
  shows "requested_sum g (ni_pods (snd (foldl (admit g ignored) (gen, n) pods))) k \<le> amount (ni_allocatable n) k"
proof -
  have "within_cap g k (amount (ni_allocatable n) k) (snd (foldl (admit g ignored) st pods))"
    if "within_cap g k (amount (ni_allocatable n) k) (snd st)" for st
    using that assms(5)
  proof (induction pods arbitrary: st)
    case (Cons p pods)
    then show ?case using admit_within_cap [OF Cons.prems(1) assms(4), of p] by simp
  qed simp
  then show ?thesis using assms(1-3) by (simp add: within_cap_def)
qed

text \<open>Two pods of 60 Mbit/s on a node of 100: the first is admitted, the second is not.\<close>

definition slo_worker :: "int \<Rightarrow> int \<times> node_info" where
  "slo_worker slo = ni_SetNode slo_gates (slo_node slo) (NewNodeInfo slo_gates [] 0)"

lemma slo_worker_frame [simp]:
  "in64 c \<Longrightarrow> ni_allocatable (snd (slo_worker c)) =
     emptyResource\<lparr>r_AllowedPodNumber := 110, r_ScalarResources := [(ResourceSLO, c)]\<rparr>"
  "ni_pods (snd (slo_worker c)) = []" "ni_requested (snd (slo_worker c)) = emptyResource"
  by (simp_all add: slo_worker_def ni_SetNode_def NewNodeInfo_def Let_def empty_node_info_def slo_node_def NewResource_def
      res_Add_def res_add1_def emptyResource_def AddScalar_def SetScalar_def scalar_def in64_def)

lemma sched_pod_fits:
  assumes "in64 s" "ni_allocatable (snd st) = emptyResource\<lparr>r_AllowedPodNumber := 110, r_ScalarResources := [(ResourceSLO, c)]\<rparr>"
    and "ni_requested (snd st) = emptyResource\<lparr>r_ScalarResources := sc\<rparr>" "length (ni_pods (snd st)) < 110"
  shows "Fits g (sched_pod u s) (snd st) [] = [] \<longleftrightarrow> wrap64 (s + scalar sc ResourceSLO) \<le> c"
  using assms
  by (simp add: Fits_def computePodResourceRequest_eq sched_request_def fitsRequest_def Let_def emptyResource_def lacks_scalar_def)
     (simp add: scalar_def)

lemma sched_pod_added:
  assumes "in64 s" "ni_requested (snd st) = emptyResource\<lparr>r_ScalarResources := sc\<rparr>"
  shows "ni_requested (snd (ni_AddPod g (sched_pod u s) st)) =
    emptyResource\<lparr>r_ScalarResources := AList.update ResourceSLO (wrap64 (scalar sc ResourceSLO + s)) sc\<rparr>"
  using assms by (cases st) (simp add: ni_AddPod_def Let_def emptyResource_def add_scalars_def)

lemma two_admitted:
  assumes "in64 c" "in64 s" "in64 t" "u \<noteq> v" "s \<le> c"
  shows "ni_pods (snd (foldl (admit g []) (slo_worker c) [sched_pod u s, sched_pod v t])) =
    sched_pod u s # (if wrap64 (t + s) \<le> c then [sched_pod v t] else [])"
proof -
  define st where "st = slo_worker c"
  have st: "ni_allocatable (snd st) = emptyResource\<lparr>r_AllowedPodNumber := 110, r_ScalarResources := [(ResourceSLO, c)]\<rparr>"
    "ni_requested (snd st) = emptyResource\<lparr>r_ScalarResources := []\<rparr>" "ni_pods (snd st) = []"
    using assms(1) by (simp_all add: st_def) (simp add: emptyResource_def)
  define st' where "st' = ni_AddPod g (sched_pod u s) st"
  have one: "admit g [] st (sched_pod u s) = st'"
    using sched_pod_fits [OF assms(2) st(1,2)] assms(2,5) by (simp add: admit_def st'_def st(3) scalar_def)
  have st': "ni_allocatable (snd st') = emptyResource\<lparr>r_AllowedPodNumber := 110, r_ScalarResources := [(ResourceSLO, c)]\<rparr>"
    "ni_requested (snd st') = emptyResource\<lparr>r_ScalarResources := [(ResourceSLO, s)]\<rparr>" "ni_pods (snd st') = [sched_pod u s]"
    using sched_pod_added [OF assms(2) st(2)] assms(2) by (simp_all add: st'_def go_frame st(1,3) scalar_def)
  show ?thesis
    using sched_pod_fits [OF assms(3) st'(1,2)]
    by (simp add: st_def [symmetric] one) (simp add: admit_def st'(3) go_frame scalar_def)
qed

theorem pod_fits_iff_witness:
  "Fits slo_gates (sched_pod ''a'' 60) (snd (slo_worker 100)) [] = [] \<and>
     has_room (snd (slo_worker 100)) (sched_request slo_gates (sched_pod ''a'' 60)) ResourceSLO"
proof -
  have fits: "Fits slo_gates (sched_pod ''a'' 60) (snd (slo_worker 100)) [] = []"
    by (subst sched_pod_fits [where sc = "[]" and c = 100]) (simp_all add: in64_def scalar_def, simp_all add: emptyResource_def)
  have r: "r_ScalarResources (sched_request slo_gates (sched_pod ''a'' 60)) = [(ResourceSLO, 60)]"
    by (simp add: sched_request_def in64_def)
  then have "\<not> asks_nothing (sched_request slo_gates (sched_pod ''a'' 60))"
    "ResourceSLO \<in> counted [] (sched_request slo_gates (sched_pod ''a'' 60))"
    by (simp_all add: asks_nothing_def counted_def)
  then show ?thesis
    using fits pod_fits_iff [of slo_gates "sched_pod ''a'' 60" "snd (slo_worker 100)" "[]"] by blast
qed

theorem node_never_oversubscribed_witness:
  "\<exists>n. snd (foldl (admit slo_gates []) (slo_worker 100) [sched_pod ''a'' 60, sched_pod ''b'' 60]) = n \<and>
     ni_pods n = [sched_pod ''a'' 60] \<and> requested_sum slo_gates (ni_pods n) ResourceSLO \<le> 100"
proof -
  obtain gen n where w: "slo_worker 100 = (gen, n)" by force
  have "accounted slo_gates n"
    using SetNode_accounted [OF NewNodeInfo_accounted] by (metis slo_worker_def prod.collapse snd_conv w)
  moreover have "ni_pods n = []" "amount (ni_allocatable n) ResourceSLO = 100"
    using slo_worker_frame [of 100] by (simp_all add: w in64_def) (simp add: amount_def scalar_def)
  ultimately have "requested_sum slo_gates (ni_pods (snd (foldl (admit slo_gates []) (gen, n)
       [sched_pod ''a'' 60, sched_pod ''b'' 60]))) ResourceSLO \<le> 100"
    using node_never_oversubscribed [of slo_gates n ResourceSLO "[]" "[sched_pod ''a'' 60, sched_pod ''b'' 60]" gen]
    by (simp add: requested_sum_def sched_request_def in64_def amount_def scalar_def)
  then show ?thesis using two_admitted [of 100 60 60 "''a''" "''b''" slo_gates] by (simp add: w in64_def wrap64_def)
qed

text \<open>The proviso is needed: a request near \<open>2 ^ 63\<close> wraps the sum around and is admitted to a full node.\<close>

lemma huge_request_admitted:
  "ni_pods (snd (foldl (admit slo_gates []) (slo_worker 100) [sched_pod ''a'' 100, sched_pod ''b'' 9223372036854775807])) =
     [sched_pod ''a'' 100, sched_pod ''b'' 9223372036854775807]"
  by (subst two_admitted) (simp_all add: in64_def wrap64_def)

end
