(* ===== verification/SchedCacheTracking.thy ===== *)
theory SchedCacheTracking
  imports SchedSnapshotLaws
begin

section \<open>Changes of the cache between two snapshots\<close>

text \<open>
  Every operation that changes the info of a node gives it a new generation and moves it to the head of
  the list, so that the next snapshot finds it.
\<close>

subsection \<open>The list under changes of the infos\<close>

definition links :: "sched_cache \<Rightarrow> string \<Rightarrow> (string option \<times> string option) option" where
  "links s n = map_option (\<lambda>c. (ce_next c, ce_prev c)) (map_of (sc_nodes s) n)"

definition keys_distinct :: "sched_cache \<Rightarrow> bool" where
  "keys_distinct s \<longleftrightarrow> distinct (map fst (sc_nodes s))"

lemma linked_cong: "links s' = links s \<Longrightarrow> sc_headNode s' = sc_headNode s \<Longrightarrow> linked s' xs = linked s xs"
  using seg_links [of xs "map_of (sc_nodes s')" "map_of (sc_nodes s)"] by (simp add: linked_def links_def fun_eq_iff)

lemma links_fields [simp]:
  "links (s\<lparr>sc_generation := gen\<rparr>) = links s" "links (s\<lparr>sc_nodeTree := t\<rparr>) = links s" "links (s\<lparr>sc_imageStates := im\<rparr>) = links s"
  by (simp_all add: links_def fun_eq_iff)

named_theorems info_change \<open>operations that change an info, or nothing of the list\<close>

lemma upd_info_links [info_change]:
  "links (upd_cell n (\<lambda>c. c\<lparr>ce_info := f c\<rparr>) s) = links s"
  by (simp add: fun_eq_iff links_def upd_cell_def option.map_comp comp_def)

lemma on_info_links [info_change]: "links (on_info n f s) = links s" "sc_headNode (on_info n f s) = sc_headNode s"
  by (simp_all add: on_info_def upd_info_links upd_cell_frame split: option.split prod.split)

lemma image_links [info_change]: "links (addNodeImageStates nd s) = links s" "sc_headNode (addNodeImageStates nd s) = sc_headNode s"
  "sc_generation (addNodeImageStates nd s) = sc_generation s" "n \<noteq> n_Name nd \<Longrightarrow> info_of (addNodeImageStates nd s) n = info_of s n"
  "(info_of (addNodeImageStates nd s) n = None) = (info_of s n = None)"
  by (simp_all add: addNodeImageStates_def upd_info_links upd_cell_frame upd_cell_info split: prod.split) (simp_all add: info_of_def)

lemma remove_image_frame [info_change]: "links (removeNodeImageStates x s) = links s" "sc_headNode (removeNodeImageStates x s) = sc_headNode s"
  "sc_generation (removeNodeImageStates x s) = sc_generation s" "info_of (removeNodeImageStates x s) = info_of s"
  "sc_nodes (removeNodeImageStates x s) = sc_nodes s"
  by (simp_all add: removeNodeImageStates_def split: option.split)

lemma upd_cell_keys [simp]: "map fst (sc_nodes (upd_cell n f s)) = map fst (sc_nodes s)"
  by (simp add: upd_cell_def)

lemma unlink_keys [simp]: "map fst (sc_nodes (unlink c s)) = map fst (sc_nodes s)"
  by (simp add: unlink_def Let_def split: option.split)

lemma keys_frame [info_change]: "keys_distinct (on_info n f s) = keys_distinct s" "keys_distinct (moveNodeInfoToHead n s) = keys_distinct s"
  "keys_distinct (addNodeImageStates nd s) = keys_distinct s" "keys_distinct (removeNodeImageStates x s) = keys_distinct s"
  "keys_distinct (upd_cell n (\<lambda>c. c\<lparr>ce_info := h c\<rparr>) s) = keys_distinct s"
  "keys_distinct (s\<lparr>sc_generation := gen\<rparr>) = keys_distinct s" "keys_distinct (s\<lparr>sc_nodeTree := t\<rparr>) = keys_distinct s"
  by (simp_all add: keys_distinct_def on_info_def moveNodeInfoToHead_def addNodeImageStates_def removeNodeImageStates_def Let_def
        split: option.split prod.split)

lemma remove_keys: "keys_distinct s \<Longrightarrow> keys_distinct (removeNodeInfoFromList n s)"
  by (simp add: keys_distinct_def removeNodeInfoFromList_def Let_def distinct_delete split: option.split)

lemma new_cell_keys: "keys_distinct s \<Longrightarrow> keys_distinct (new_cell g n s)"
  by (simp add: keys_distinct_def new_cell_def distinct_update split: prod.split)

subsection \<open>The cell of a node that is added or changed\<close>

lemma NewNodeInfo_empty: "NewNodeInfo g [] gen = (nextGeneration gen, empty_node_info (nextGeneration gen))"
  by (simp add: NewNodeInfo_def Let_def)

text \<open>A cache with a cell for \<open>n\<close>, new or known, and otherwise as before.\<close>

definition with_cell :: "string \<Rightarrow> sched_cache \<Rightarrow> string list \<Rightarrow> sched_cache \<Rightarrow> bool" where
  "with_cell n s xs s1 \<longleftrightarrow>
     linked s1 xs \<and> keys_distinct s1 \<and> (\<forall>m. m \<noteq> n \<longrightarrow> info_of s1 m = info_of s m) \<and> info_of s1 n \<noteq> None \<and>
     (n \<notin> set xs \<longrightarrow> links s1 n = Some (None, None)) \<and>
     sc_generation s \<le> sc_generation s1 \<and> sc_generation s1 \<le> sc_generation s + 1"

definition room :: "sched_cache \<Rightarrow> bool" where
  "room s \<longleftrightarrow> 0 \<le> sc_generation s \<and> sc_generation s + 2 < 9223372036854775808"

lemma next_room: "0 \<le> gen \<Longrightarrow> gen + 1 < 9223372036854775808 \<Longrightarrow> nextGeneration gen = gen + 1"
  by (simp add: nextGeneration_def in64_def)

lemma with_new_cell:
  assumes "list_inv s xs" "room s" "s1 = (case map_of (sc_nodes s) n of None \<Rightarrow> new_cell g n s | Some _ \<Rightarrow> s)"
  shows "with_cell n s xs s1"
proof (cases "map_of (sc_nodes s) n")
  case None
  then have s1: "s1 = new_cell g n s" using assms(3) by simp
  have "n \<notin> set xs" using assms(1) None by (auto simp: list_inv_def info_of_def)
  have cells: "map_of (sc_nodes s1) = (map_of (sc_nodes s))(n \<mapsto> \<lparr>ce_info = snd (NewNodeInfo g [] (sc_generation s)), ce_next = None, ce_prev = None\<rparr>)"
    "sc_headNode s1 = sc_headNode s" "sc_generation s1 = sc_generation s + 1"
    using assms(2) by (simp_all add: s1 new_cell_def NewNodeInfo_empty next_room room_def split: prod.split)
  have "seg (map_of (sc_nodes s1)) None (sc_headNode s) xs None = seg (map_of (sc_nodes s)) None (sc_headNode s) xs None"
    by (rule seg_other) (use \<open>n \<notin> set xs\<close> in \<open>auto simp: cells\<close>)
  then have "linked s1 xs" using assms(1) by (simp add: list_inv_def linked_def cells(2))
  moreover have "keys_distinct s1" unfolding s1 by (rule new_cell_keys) (use assms(1) in \<open>simp add: list_inv_def keys_distinct_def\<close>)
  ultimately show ?thesis unfolding with_cell_def by (simp add: cells info_of_def links_def)
next
  case (Some c)
  then have "s1 = s" "n \<in> set xs" using assms(1,3) by (auto simp: list_inv_def info_of_def)
  then show ?thesis using assms(1) Some by (simp add: with_cell_def list_inv_def keys_distinct_def info_of_def)
qed

lemma linked_move_links:
  assumes "linked s xs" "links s n \<noteq> None" "n \<notin> set xs \<Longrightarrow> links s n = Some (None, None)"
  shows "linked (moveNodeInfoToHead n s) (n # remove1 n xs)"
proof -
  obtain c where "map_of (sc_nodes s) n = Some c" using assms(2) by (auto simp: links_def)
  then show ?thesis using linked_move [OF assms(1)] assms(3) by (auto simp: links_def)
qed

lemma links_info: "links s n = None \<longleftrightarrow> info_of s n = None"
  by (simp add: links_def info_of_def)

text \<open>A step that changes the info of \<open>n\<close>, gives it the next generation and moves it to the head.\<close>

lemma changed_in_front:
  assumes "list_inv s xs" "with_cell n s xs s1" "linked s' (n # remove1 n xs)" "keys_distinct s'"
    and "\<And>m. m \<noteq> n \<Longrightarrow> info_of s' m = info_of s1 m" "info_of s' n \<noteq> None"
    and "gen_of s' n = sc_generation s1 + 1" "sc_generation s' = sc_generation s1 + 1"
  shows "list_inv s' (n # remove1 n xs) \<and> tracked s s'"
  by (rule list_inv_front [OF assms(1,3)])
     (use assms(2,4-8) in \<open>simp_all add: with_cell_def keys_distinct_def\<close>)

lemma ni_change_generation:
  "ni_generation (snd (ni_AddPod g p (gen, i))) = nextGeneration gen" "fst (ni_AddPod g p (gen, i)) = nextGeneration gen"
  "ni_generation (snd (ni_SetNode g nd (gen, i))) = nextGeneration gen" "fst (ni_SetNode g nd (gen, i)) = nextGeneration gen"
  by (simp_all add: ni_AddPod_def ni_SetNode_def Let_def split: prod.split)

lemma on_info_generation:
  assumes "info_of s n = Some i" "fst (f (sc_generation s, i)) = gen" "ni_generation (snd (f (sc_generation s, i))) = gen"
  shows "sc_generation (on_info n f s) = gen" "gen_of (on_info n f s) n = gen"
  using assms by (auto simp: on_info_def gen_of_def upd_cell_info upd_cell_frame split: option.splits prod.splits)
    (auto simp: info_of_def upd_cell_def)

lemma addPod_tracked:
  assumes "list_inv s xs" "room s" "n = p_NodeName p"
  shows "list_inv (addPod g p s) (n # remove1 n xs) \<and> tracked s (addPod g p s)"
proof -
  define s1 where "s1 = (case map_of (sc_nodes s) n of None \<Rightarrow> new_cell g n s | Some _ \<Rightarrow> s)"
  have w: "with_cell n s xs s1" by (rule with_new_cell [OF assms(1,2) s1_def])
  then obtain i where i: "info_of s1 n = Some i" unfolding with_cell_def by blast
  define s2 where "s2 = on_info n (ni_AddPod g p) s1"
  have s': "addPod g p s = moveNodeInfoToHead n s2" by (simp only: addPod_def Let_def s2_def s1_def assms(3))
  have gen: "nextGeneration (sc_generation s1) = sc_generation s1 + 1"
    using w assms(2) by (intro next_room) (auto simp: with_cell_def room_def)
  have s2: "links s2 = links s1" "sc_headNode s2 = sc_headNode s1" "\<And>m. m \<noteq> n \<Longrightarrow> info_of s2 m = info_of s1 m" "info_of s2 n \<noteq> None"
    by (simp_all add: s2_def info_change cache_frame i)
  have g2: "sc_generation s2 = sc_generation s1 + 1" "gen_of s2 n = sc_generation s1 + 1"
    unfolding s2_def by (rule on_info_generation [OF i]; simp add: ni_change_generation gen)+
  show ?thesis unfolding s'
  proof (rule changed_in_front [OF assms(1) w])
    show "linked (moveNodeInfoToHead n s2) (n # remove1 n xs)"
      by (rule linked_move_links) (use w s2 linked_cong [OF s2(1,2)] in \<open>auto simp: with_cell_def links_info\<close>)
    show "keys_distinct (moveNodeInfoToHead n s2)" using w by (simp add: with_cell_def info_change s2_def)
  qed (use s2 g2 in \<open>simp_all add: cache_frame gen_of_def\<close>)
qed

lemma ni_RemovePod_generation:
  "ni_RemovePod g p (gen, i) = Inr (None, gen', i') \<Longrightarrow> gen' = nextGeneration gen \<and> ni_generation i' = gen'"
  by (auto simp: ni_RemovePod_def Let_def split: option.splits prod.splits)

lemma same_list_tracked: "list_inv s xs \<Longrightarrow> list_inv s xs \<and> tracked s s"
  by (simp add: tracked_def)

lemma removePod_tracked:
  assumes "list_inv s xs" "room s" "removePod g p s = Inr (None, s')"
  shows "\<exists>ys. list_inv s' ys \<and> tracked s s'"
proof (cases "map_of (sc_nodes s) (p_NodeName p)")
  case None
  then have "s' = s" using assms(3) by (simp add: removePod_def)
  then show ?thesis using same_list_tracked [OF assms(1)] by auto
next
  case (Some c)
  let ?n = "p_NodeName p"
  obtain gen i where i: "ni_RemovePod g p (sc_generation s, ce_info c) = Inr (None, gen, i)"
      "s' = moveNodeInfoToHead ?n (upd_cell ?n (\<lambda>c. c\<lparr>ce_info := i\<rparr>) (s\<lparr>sc_generation := gen\<rparr>))"
    using assms(3) Some by (auto simp: removePod_def Let_def split: sum.splits option.splits prod.splits)
  define s2 where "s2 = upd_cell ?n (\<lambda>c. c\<lparr>ce_info := i\<rparr>) (s\<lparr>sc_generation := gen\<rparr>)"
  have gen: "gen = sc_generation s + 1" "ni_generation i = gen"
    using ni_RemovePod_generation [OF i(1)] next_room [of "sc_generation s"] assms(2) by (auto simp: room_def)
  have w: "with_cell ?n s xs s" using with_new_cell [OF assms(1,2), of s g ?n] Some by simp
  have s2: "links s2 = links s" "sc_headNode s2 = sc_headNode s" "\<And>m. m \<noteq> ?n \<Longrightarrow> info_of s2 m = info_of s m" "info_of s2 ?n = Some i"
    "sc_generation s2 = gen"
    using Some by (simp_all add: s2_def info_change upd_cell_frame upd_cell_info)
  have "list_inv (moveNodeInfoToHead ?n s2) (?n # remove1 ?n xs) \<and> tracked s (moveNodeInfoToHead ?n s2)"
  proof (rule changed_in_front [OF assms(1) w])
    show "linked (moveNodeInfoToHead ?n s2) (?n # remove1 ?n xs)"
      by (rule linked_move_links) (use w s2 linked_cong [OF s2(1,2)] in \<open>auto simp: with_cell_def links_info\<close>)
    show "keys_distinct (moveNodeInfoToHead ?n s2)" using w by (simp add: with_cell_def info_change s2_def)
  qed (use s2 gen in \<open>simp_all add: cache_frame gen_of_def\<close>)
  then show ?thesis unfolding i(2) s2_def [symmetric] by blast
qed

lemma node_set_tracked:
  assumes "list_inv s xs" "room s" "with_cell n s xs s1" "n = n_Name nd"
    and "links s2 = links s1" "sc_headNode s2 = sc_headNode s1" "info_of s2 = info_of s1" "sc_generation s2 = sc_generation s1" "keys_distinct s2"
    and "s' = on_info n (ni_SetNode g nd) (addNodeImageStates nd ((moveNodeInfoToHead n s2)\<lparr>sc_nodeTree := t\<rparr>))"
  shows "list_inv s' (n # remove1 n xs) \<and> tracked s s'"
proof (rule changed_in_front [OF assms(1,3)])
  define s3 where "s3 = addNodeImageStates nd ((moveNodeInfoToHead n s2)\<lparr>sc_nodeTree := t\<rparr>)"
  have s': "s' = on_info n (ni_SetNode g nd) s3" using assms(10) by (simp add: s3_def)
  have s3: "links s3 = links (moveNodeInfoToHead n s2)" "sc_headNode s3 = sc_headNode (moveNodeInfoToHead n s2)"
    "sc_generation s3 = sc_generation s1" "\<And>m. m \<noteq> n \<Longrightarrow> info_of s3 m = info_of s1 m" "info_of s3 n \<noteq> None" "keys_distinct s3"
    using assms(3-9) by (simp_all add: s3_def info_change cache_frame with_cell_def)
  have "linked (moveNodeInfoToHead n s2) (n # remove1 n xs)"
    by (rule linked_move_links)
       (use assms(3,7) linked_cong [OF assms(5,6)] in \<open>auto simp: with_cell_def links_info assms(5)\<close>)
  then show "linked s' (n # remove1 n xs)" using s3(1,2) linked_cong [of s' "moveNodeInfoToHead n s2"] by (simp add: s' info_change)
  show "keys_distinct s'" using s3(6) by (simp add: s' info_change)
  show "info_of s' m = info_of s1 m" if "m \<noteq> n" for m using s3(4) that by (simp add: s' cache_frame)
  show "info_of s' n \<noteq> None" using s3(5) by (auto simp: s' cache_frame)
  obtain i where i: "info_of s3 n = Some i" using s3(5) by blast
  have gen: "nextGeneration (sc_generation s3) = sc_generation s1 + 1"
    unfolding s3(3) using assms(2,3) by (intro next_room) (auto simp: with_cell_def room_def)
  show "sc_generation s' = sc_generation s1 + 1" "gen_of s' n = sc_generation s1 + 1"
    unfolding s' by (rule on_info_generation [OF i]; simp add: ni_change_generation gen)+
qed

lemma cell_for_node_with_cell:
  assumes "list_inv s xs" "room s"
  shows "\<exists>s1. with_cell (n_Name nd) s xs s1 \<and> links (cell_for_node g nd s) = links s1 \<and> sc_headNode (cell_for_node g nd s) = sc_headNode s1 \<and>
    info_of (cell_for_node g nd s) = info_of s1 \<and> sc_generation (cell_for_node g nd s) = sc_generation s1 \<and> keys_distinct (cell_for_node g nd s)"
proof (intro exI conjI)
  let ?s1 = "case map_of (sc_nodes s) (n_Name nd) of None \<Rightarrow> new_cell g (n_Name nd) s | Some _ \<Rightarrow> s"
  show w: "with_cell (n_Name nd) s xs ?s1" using with_new_cell [OF assms refl] .
  have "keys_distinct (cell_for_node g nd s) = keys_distinct ?s1" by (simp add: cell_for_node_def info_change split: option.split)
  then show "keys_distinct (cell_for_node g nd s)" using w by (simp add: with_cell_def)
qed (simp_all add: cell_for_node_def info_change split: option.split)

lemma AddNode_tracked:
  assumes "list_inv s xs" "room s"
  shows "\<exists>ys. list_inv (AddNode g nd s) ys \<and> tracked s (AddNode g nd s)"
proof -
  obtain s1 where s1: "with_cell (n_Name nd) s xs s1" "links (cell_for_node g nd s) = links s1"
    "sc_headNode (cell_for_node g nd s) = sc_headNode s1" "info_of (cell_for_node g nd s) = info_of s1"
    "sc_generation (cell_for_node g nd s) = sc_generation s1" "keys_distinct (cell_for_node g nd s)"
    using cell_for_node_with_cell [OF assms] by blast
  show ?thesis
    using node_set_tracked [OF assms s1(1) refl s1(2-6) refl] unfolding AddNode_def Let_def by blast
qed

lemma UpdateNode_tracked:
  assumes "list_inv s xs" "room s" "UpdateNode g old nd s = Inr s'"
  shows "\<exists>ys. list_inv s' ys \<and> tracked s s'"
proof -
  define s2 where "s2 = (case map_of (sc_nodes s) (n_Name nd) of
      None \<Rightarrow> (let s1 = cell_for_node g nd s in s1\<lparr>sc_nodeTree := nt_addNode nd (sc_nodeTree s1)\<rparr>)
    | Some _ \<Rightarrow> cell_for_node g nd s)"
  obtain s1 where s1: "with_cell (n_Name nd) s xs s1" "links (cell_for_node g nd s) = links s1"
    "sc_headNode (cell_for_node g nd s) = sc_headNode s1" "info_of (cell_for_node g nd s) = info_of s1"
    "sc_generation (cell_for_node g nd s) = sc_generation s1" "keys_distinct (cell_for_node g nd s)"
    using cell_for_node_with_cell [OF assms(1,2)] by blast
  have "links s2 = links s1" "sc_headNode s2 = sc_headNode s1" "info_of s2 = info_of s1" "sc_generation s2 = sc_generation s1" "keys_distinct s2"
    using s1 by (simp_all add: s2_def Let_def info_change split: option.split)
  note step = node_set_tracked [OF assms(1,2) s1(1) refl this refl]
  obtain t where "s' = on_info (n_Name nd) (ni_SetNode g nd) (addNodeImageStates nd ((moveNodeInfoToHead (n_Name nd) s2)\<lparr>sc_nodeTree := t\<rparr>))"
    using assms(3) unfolding UpdateNode_def s2_def [symmetric] by (auto simp: Let_def split: sum.splits)
  then show ?thesis using step by blast
qed

lemma info_of_removed: "info_of (removeNodeInfoFromList n s) = (info_of s)(n := None)"
  by (auto simp: removeNodeInfoFromList_def fun_eq_iff info_of_def Let_def delete_conv' split: option.split)
     (metis (no_types) info_of_def unlink_frame(2))

lemma removed_generation: "sc_generation (removeNodeInfoFromList n s) = sc_generation s"
  by (simp add: removeNodeInfoFromList_def Let_def unlink_frame split: option.split)

lemma RemoveNode_tracked:
  assumes "list_inv s xs"
  shows "\<exists>ys. list_inv (snd (RemoveNode nd s)) ys \<and> tracked s (snd (RemoveNode nd s))"
proof (cases "map_of (sc_nodes s) (n_Name nd)")
  case None
  then show ?thesis using same_list_tracked [OF assms] by (auto simp: RemoveNode_def)
next
  case (Some c)
  let ?n = "n_Name nd"
  define s1 where "s1 = removeNodeInfoFromList ?n s"
  define s' where "s' = snd (RemoveNode nd s)"
  have frame: "links s' = links s1 \<and> sc_headNode s' = sc_headNode s1 \<and> info_of s' = info_of s1 \<and> sc_generation s' = sc_generation s1 \<and> sc_nodes s' = sc_nodes s1"
    using Some by (simp add: s'_def s1_def RemoveNode_def Let_def info_change split: prod.split bool.split)
  have "?n \<in> set xs" using assms Some by (auto simp: list_inv_def info_of_def)
  then have "linked s1 (remove1 ?n xs)" using linked_remove assms by (auto simp: s1_def list_inv_def)
  then have linked: "linked s' (remove1 ?n xs)" using frame linked_cong [of s' s1] by simp
  have info: "info_of s' = (info_of s)(?n := None)" "sc_generation s' = sc_generation s"
    using frame by (simp_all add: s1_def info_of_removed removed_generation)
  have d: "distinct xs" using assms by (simp add: list_inv_def linked_def)
  have same: "gen_of s' m = gen_of s m" if "m \<noteq> ?n" for m using that by (simp add: gen_of_def info)
  have "sorted_wrt (\<lambda>x y. gen_of s y < gen_of s x) (remove1 ?n xs)"
    using assms by (simp add: list_inv_def sorted_wrt_filter distinct_remove1_removeAll [OF d] removeAll_filter_not_eq)
  then have "sorted_wrt (\<lambda>x y. gen_of s' y < gen_of s' x) (remove1 ?n xs)"
    by (rule sorted_wrt_mono_rel [rotated]) (use d same in auto)
  moreover have "distinct (map fst (sc_nodes s'))"
    using remove_keys [of s ?n] assms frame by (simp add: keys_distinct_def list_inv_def s1_def)
  moreover have "set (remove1 ?n xs) = dom (info_of s')" using assms d by (auto simp: list_inv_def info)
  moreover have "\<forall>x \<in> set (remove1 ?n xs). gen_of s' x \<le> sc_generation s'"
    using assms d by (auto simp: list_inv_def same info(2))
  ultimately have "list_inv s' (remove1 ?n xs)" using linked by (simp add: list_inv_def)
  moreover have "tracked s s'" by (simp add: tracked_def info)
  ultimately show ?thesis unfolding s'_def by blast
qed

lemma snap_inv_tracked: "snap_inv s sn \<Longrightarrow> tracked s s' \<Longrightarrow> snap_inv s' sn"
proof -
  assume sn: "snap_inv s sn" and t: "tracked s s'"
  have "\<exists>a. map_of (sn_map sn) n = Some a \<and> sn_store sn a = i"
    if i: "info_of s' n = Some i" "ni_generation i \<le> sn_generation sn" for n i
  proof -
    have "gen_of s' n \<le> sc_generation s" using sn i by (simp add: gen_of_def snap_inv_def)
    then have "info_of s n = Some i" using t i(1) unfolding tracked_def by (metis leD option.distinct(1))
    then show ?thesis using sn i(2) unfolding snap_inv_def by blast
  qed
  moreover have "sn_generation sn \<le> sc_generation s'" using sn t by (simp add: snap_inv_def tracked_def)
  ultimately show ?thesis using sn by (simp add: snap_inv_def)
qed

text \<open>
  C37: nothing a snapshot relies on is lost between two updates.  As long as the generations do not
  overflow, adding a pod, removing a pod that is known, and adding, updating and removing a node keep
  the list of the infos complete, linked both ways and ordered by generation, the last change first;
  and a snapshot that had every info not newer than itself before still does.
\<close>

theorem changes_are_tracked:
  assumes "list_inv s xs" "room s" "snap_inv s sn"
    and "s' \<in> {addPod g p s, AddNode g nd s, snd (RemoveNode nd s)} \<or> removePod g p s = Inr (None, s') \<or> UpdateNode g old nd s = Inr s'"
  shows "(\<exists>ys. list_inv s' ys) \<and> snap_inv s' sn"
proof -
  have "\<exists>ys. list_inv s' ys \<and> tracked s s'"
    using assms(4) addPod_tracked [OF assms(1,2) refl] AddNode_tracked [OF assms(1,2)] RemoveNode_tracked [OF assms(1)]
      removePod_tracked [OF assms(1,2)] UpdateNode_tracked [OF assms(1,2)] by blast
  then show ?thesis using snap_inv_tracked [OF assms(3)] by blast
qed

subsection \<open>A cache with one node\<close>

definition one_node :: sched_cache where
  "one_node = AddNode slo_gates (slo_node 100) (newSchedulerCache 30 0)"

lemma empty_ready: "list_inv (newSchedulerCache ttl 0) []" "room (newSchedulerCache ttl 0)" "snap_inv (newSchedulerCache ttl 0) NewEmptySnapshot"
  by (simp_all add: newSchedulerCache_def list_inv_def linked_def info_of_def dom_def room_def snap_inv_def addresses_ok_def NewEmptySnapshot_def)

lemma one_node_ready: "\<exists>ys. list_inv one_node ys" "snap_inv one_node NewEmptySnapshot"
  using AddNode_tracked [OF empty_ready(1,2), of slo_gates "slo_node 100"] snap_inv_tracked [OF empty_ready(3)]
  unfolding one_node_def by blast+

lemma slo_node_fields [simp]: "n_Name (slo_node k) = ''worker''" "n_Images (slo_node k) = []"
  by (simp_all add: slo_node_def)

lemma one_node_eval:
  "\<exists>i. sc_nodes one_node = [(''worker'', \<lparr>ce_info = i, ce_next = None, ce_prev = None\<rparr>)] \<and> ni_node i = Some (slo_node 100) \<and>
     sc_nodeTree one_node = newNodeTree [slo_node 100]"
  by (simp add: one_node_def AddNode_def cell_for_node_def new_cell_def NewNodeInfo_empty moveNodeInfoToHead_def unlink_def
      upd_cell_def addNodeImageStates_def image_names_def on_info_def ni_SetNode_def newSchedulerCache_def newNodeTree_def Let_def)

lemma one_node_tree: "tree_inv (newNodeTree [slo_node 100])" "all_nodes (newNodeTree [slo_node 100]) = {#''worker''#}"
  "remaining (newNodeTree [slo_node 100]) = {#''worker''#}"
  by (simp_all add: newNodeTree_def nt_addNode_def empty_node_tree_def Let_def tree_inv_def all_nodes_zsum remaining_zsum
      zone_nodes_def zone_index_def)

lemma one_node_ok: "\<exists>ys. cache_ok one_node ys"
proof -
  obtain ys where "list_inv one_node ys" using one_node_ready(1) by blast
  then have "cache_ok one_node ys"
    using one_node_eval by (auto simp: cache_ok_def one_node_tree info_of_def split: if_splits)
  then show ?thesis by blast
qed

theorem snapshot_is_a_full_copy_witness:
  "\<exists>s' sn'. UpdateSnapshot one_node NewEmptySnapshot = Some (Inr (False, s', sn')) \<and> map ni_node (sn_NodeInfos sn') = [Some (slo_node 100)]"
proof -
  obtain ys where "cache_ok one_node ys" using one_node_ok by blast
  then obtain t' sn' where r: "UpdateSnapshot one_node NewEmptySnapshot = Some (Inr (False, one_node\<lparr>sc_nodeTree := t'\<rparr>, sn'))" "full_copy one_node sn'"
    using snapshot_is_a_full_copy [OF _ one_node_ready(2)] by blast
  then have "mset (sn_NodeInfos sn') = mset (map (ce_info \<circ> snd) (sc_nodes one_node))" by (simp add: full_copy_def)
  then have "map ni_node (sn_NodeInfos sn') = [Some (slo_node 100)]" using one_node_eval by auto
  then show ?thesis by (intro exI conjI) (rule r(1))
qed

theorem changes_are_tracked_witness:
  "(\<exists>ys. list_inv (AddNode slo_gates (slo_node 100) (newSchedulerCache 30 0)) ys) \<and>
   snap_inv (AddNode slo_gates (slo_node 100) (newSchedulerCache 30 0)) NewEmptySnapshot"
  by (rule changes_are_tracked [OF empty_ready [where ttl = 30], where g = slo_gates and nd = "slo_node 100"]) (rule disjI1, simp)

end
