(* ===== verification/ScheduleSafety.thy ===== *)
theory ScheduleSafety
  imports GenericSchedulerLaws HostSelection NodeResources SchedCacheTracking
begin

section \<open>A scheduled pod fits its node\<close>

text \<open>
  \<open>NodeResourcesFit\<close> as a plugin of the framework, and what a whole cycle guarantees when it is one of the filters:
  the node that \<open>Schedule\<close> suggests has, in the cache, room for the pod, also beside the pods that are nominated to it
  and must not be overtaken.
\<close>

subsection \<open>The plugin\<close>

text \<open>The plugin reads and writes one key of the cycle state: \<open>get\<close> and \<open>put\<close>.\<close>

definition FitName :: string where "FitName = ''NodeResourcesFit''"

definition fit_status :: "filter_status \<Rightarrow> status option" where
  "fit_status r =
     (case r of
        FilterSuccess \<Rightarrow> None
      | FilterError \<Rightarrow> Some (NewStatus StatusError [''error reading '' @ quoted ''PreFilterNodeResourcesFit'' @ '' from cycleState: not found''])
      | FilterUnschedulable reasons \<Rightarrow> Some (NewStatus Unschedulable reasons))"

definition fit_filter_plugin :: "('st \<Rightarrow> node_resource option) \<Rightarrow> string list \<Rightarrow> 'st filter_plugin" where
  "fit_filter_plugin get ignored = \<lparr>fp_Name = FitName, fp_Filter = (\<lambda>st pod n. fit_status (fit_Filter (get st) n ignored))\<rparr>"

definition fit_pre_filter_plugin :: "(node_resource option \<Rightarrow> 'st \<Rightarrow> 'st) \<Rightarrow> sched_gates \<Rightarrow> 'st pre_filter_plugin" where
  "fit_pre_filter_plugin put g =
     \<lparr>pf_Name = FitName, pf_PreFilter = (\<lambda>pod st. (None, put (fit_PreFilter g pod) st)), pf_Extensions = None\<rparr>"

definition fit_framework :: "sched_gates \<Rightarrow> string list \<Rightarrow> node_resource option sched_framework" where
  "fit_framework g ignored =
     \<lparr>fw_preFilterPlugins = [fit_pre_filter_plugin (\<lambda>r _. r) g], fw_filterPlugins = [fit_filter_plugin (\<lambda>st. st) ignored],
      fw_preScorePlugins = [], fw_scorePlugins = [], fw_runAllFilters = False\<rparr>"

text \<open>PreFilter stores the request of the pod, and no extension of another plugin changes it.\<close>

definition request_kept :: "sched_gates \<Rightarrow> ('st \<Rightarrow> node_resource option) \<Rightarrow> 'st sched_framework \<Rightarrow> pod \<Rightarrow> bool" where
  "request_kept g get prof pod \<longleftrightarrow>
     (\<forall>st. IsSuccess (fst (RunPreFilterPlugins prof pod st)) \<longrightarrow>
        get (snd (RunPreFilterPlugins prof pod st)) = Some (computePodResourceRequest g pod)) \<and>
     (\<forall>p n st. get (snd (RunPreFilterExtensionAddPod prof pod p n st)) = get st)"

lemma fit_plugin_passes:
  assumes "passes prof st pod n" "fit_filter_plugin get ignored \<in> set (fw_filterPlugins prof)" "get st = Some (computePodResourceRequest g pod)"
  shows "Fits g pod n ignored = []"
proof -
  have "IsSuccess (fit_status (fit_Filter (get st) n ignored))"
    using assms(1,2) by (auto simp: passes_def fit_filter_plugin_def dest!: bspec)
  then show ?thesis using assms(3)
    by (auto simp: fit_status_def fit_Filter_def Fits_def IsSuccess_def Code_def NewStatus_def split: list.splits)
qed

subsection \<open>Filters on one node\<close>

definition not_overtaken :: "pod \<Rightarrow> pod \<Rightarrow> bool" where
  "not_overtaken pod p \<longleftrightarrow> p_Priority pod \<le> p_Priority p \<and> p_UID p \<noteq> p_UID pod"

definition with_pods :: "sched_gates \<Rightarrow> pod list \<Rightarrow> int \<times> node_info \<Rightarrow> int \<times> node_info" where
  "with_pods g ps gn = foldl (\<lambda>gn p. ni_AddPod g p gn) gn ps"

lemma add_nominated_pods:
  assumes "add_nominated g prof pod ps added st (gen, n) = (Inr (added', st', n'), gen')" "request_kept g get prof pod"
  shows "(gen', n') = with_pods g (filter (not_overtaken pod) ps) (gen, n) \<and>
    (added' \<longleftrightarrow> added \<or> filter (not_overtaken pod) ps \<noteq> []) \<and> get st' = get st"
  using assms(1)
proof (induction ps arbitrary: added st gen n)
  case (Cons p ps)
  show ?case
  proof (cases "not_overtaken pod p")
    case True
    obtain gen1 n1 where a: "ni_AddPod g p (gen, n) = (gen1, n1)" by force
    obtain status st1 where e: "RunPreFilterExtensionAddPod prof pod p n1 st = (status, st1)" by force
    have k: "get st1 = get st" using assms(2) e unfolding request_kept_def by (metis snd_conv)
    have "AsError status = None" and r: "add_nominated g prof pod ps True st1 (gen1, n1) = (Inr (added', st', n'), gen')"
      using Cons.prems True by (auto simp: not_overtaken_def a e split: option.splits)
    show ?thesis using Cons.IH [OF r] True k by (simp add: with_pods_def a)
  next
    case False
    then have r: "add_nominated g prof pod ps added st (gen, n) = (Inr (added', st', n'), gen')"
      using Cons.prems by (auto simp: not_overtaken_def)
    show ?thesis using Cons.IH [OF r] False by simp
  qed
qed (simp add: with_pods_def)

lemma run_and_merge_passes: "run_and_merge prof st pod n = Inr status \<Longrightarrow> IsSuccess status \<Longrightarrow> passes prof st pod n"
  using Merge_success [of prof st pod n] by (auto simp: run_and_merge_def Let_def split: if_splits)

lemma podPasses_fits:
  assumes "podPassesFiltersOnNode s g prof st pod (gen, n) = (Inr status, gen')" "IsSuccess status" "ni_node n = Some nd"
    and "request_kept g get prof pod" "fit_filter_plugin get ignored \<in> set (fw_filterPlugins prof)"
    and "get st = Some (computePodResourceRequest g pod)"
  shows "Fits g pod n ignored = []"
    and "Fits g pod (snd (with_pods g (filter (not_overtaken pod) (NominatedPodsForNode s (n_Name nd))) (gen, n))) ignored = []"
proof -
  let ?ps = "NominatedPodsForNode s (n_Name nd)"
  obtain added st1 n1 gen1 where a: "addNominatedPods s g prof pod st (gen, n) = (Inr (added, st1, n1), gen1)"
    using assms(1) by (auto simp: podPassesFiltersOnNode_def split: prod.splits sum.splits)
  have an: "(gen1, n1) = with_pods g (filter (not_overtaken pod) ?ps) (gen, n) \<and>
      (added \<longleftrightarrow> filter (not_overtaken pod) ?ps \<noteq> []) \<and> get st1 = get st \<and> (?ps = [] \<longrightarrow> st1 = st)"
  proof (cases "?ps = []")
    case True
    then show ?thesis using a assms(3) by (simp add: addNominatedPods_def with_pods_def Let_def)
  next
    case False
    then have "add_nominated g prof pod ?ps False st (gen, n) = (Inr (added, st1, n1), gen1)"
      using a assms(3) by (simp add: addNominatedPods_def Let_def)
    from add_nominated_pods [OF this assms(4)] show ?thesis using False by simp
  qed
  obtain status1 where r1: "run_and_merge prof st1 pod n1 = Inr status1"
    "if \<not> added \<or> \<not> IsSuccess status1 then status = status1 else run_and_merge prof st pod n = Inr status"
    using assms(1) a by (auto simp: podPassesFiltersOnNode_def split: sum.splits if_splits)
  then have s1: "IsSuccess status1" using assms(2) by (auto split: if_splits)
  have first: "Fits g pod n1 ignored = []"
    by (rule fit_plugin_passes [OF run_and_merge_passes [OF r1(1) s1] assms(5)]) (use an assms(6) in simp)
  have n1: "snd (with_pods g (filter (not_overtaken pod) ?ps) (gen, n)) = n1" using an by (metis snd_conv)
  show "Fits g pod (snd (with_pods g (filter (not_overtaken pod) ?ps) (gen, n))) ignored = []" unfolding n1 by (rule first)
  show "Fits g pod n ignored = []"
  proof (cases added)
    case True
    then have "run_and_merge prof st pod n = Inr status" using r1(2) s1 by simp
    then show ?thesis by (rule fit_plugin_passes [OF run_and_merge_passes [OF _ assms(2)] assms(5,6)])
  next
    case False
    then have "n1 = n" using an by (auto simp: with_pods_def)
    then show ?thesis using first by simp
  qed
qed


subsection \<open>A whole cycle\<close>

definition good_node :: "generic_scheduler \<Rightarrow> sched_gates \<Rightarrow> string list \<Rightarrow> pod \<Rightarrow> node_info \<Rightarrow> node \<Rightarrow> bool" where
  "good_node s g ignored pod n nd \<longleftrightarrow>
     ni_node n = Some nd \<and> Fits g pod n ignored = [] \<and>
     (\<exists>gen. Fits g pod (snd (with_pods g (filter (not_overtaken pod) (NominatedPodsForNode s (n_Name nd))) (gen, n))) ignored = [])"

definition extenders_restrict :: "extender list \<Rightarrow> bool" where
  "extenders_restrict es \<longleftrightarrow> (\<forall>e \<in> set es. \<forall>pod nodes l m. ex_Filter e pod nodes = Inr (l, m) \<longrightarrow> set l \<subseteq> set nodes)"

lemma extenders_subset:
  assumes "extenders_restrict es" "findNodesThatPassExtenders es pod filtered statuses = Inr (nodes, ss)"
  shows "set nodes \<subseteq> set filtered"
  using assms
proof (induction es arbitrary: filtered statuses)
  case (Cons e es)
  have r: "extenders_restrict es" using Cons.prems(1) by (simp add: extenders_restrict_def)
  show ?case
  proof (cases "filtered = [] \<or> \<not> ex_IsInterested e pod")
    case True
    then show ?thesis using Cons.prems(2) Cons.IH [OF r] by (auto split: if_splits)
  next
    case False
    show ?thesis
    proof (cases "ex_Filter e pod filtered")
      case (Inl err)
      then show ?thesis using False Cons.prems(2) Cons.IH [OF r] by (auto split: if_splits)
    next
      case (Inr lm)
      obtain l m where lm: "lm = (l, m)" by force
      have "set nodes \<subseteq> set l" using False Cons.prems(2) Inr by (intro Cons.IH [OF r]) (simp add: lm)
      moreover have "set l \<subseteq> set filtered" using Cons.prems(1) Inr lm unfolding extenders_restrict_def by auto
      ultimately show ?thesis by blast
    qed
  qed
qed simp

lemma checkNode_good:
  assumes "checkNode s g prof st pod infos i r = Inr r1" "infos \<noteq> []" "0 \<le> gs_nextStartNodeIndex s"
    and "request_kept g get prof pod" "fit_filter_plugin get ignored \<in> set (fw_filterPlugins prof)"
    and "get st = Some (computePodResourceRequest g pod)"
    and "\<forall>nd \<in> set (se_filtered r). \<exists>n \<in> set infos. good_node s g ignored pod n nd"
  shows "\<forall>nd \<in> set (se_filtered r1). \<exists>n \<in> set infos. good_node s g ignored pod n nd"
proof -
  let ?n = "node_at s infos i"
  have n: "?n \<in> set infos" using assms(2,3) unfolding node_at_def by (intro nth_mem) (simp add: nat_less_iff smod_nonneg)
  obtain v gen where v: "podPassesFiltersOnNode s g prof st pod (se_generation r, ?n) = (v, gen)" by force
  show ?thesis
  proof (cases "\<exists>status nd. v = Inr status \<and> ni_node ?n = Some nd \<and> IsSuccess status")
    case True
    then obtain status nd where t: "v = Inr status" "ni_node ?n = Some nd" "IsSuccess status" by blast
    have "good_node s g ignored pod ?n nd" unfolding good_node_def
      using podPasses_fits [OF v [unfolded t(1)] t(3,2) assms(4-6)] t(2) by blast
    moreover have "set (se_filtered r1) \<subseteq> insert nd (set (se_filtered r))"
      using assms(1) v t by (auto simp: checkNode_def node_at_def [symmetric] Let_def split: if_splits)
    ultimately show ?thesis using n assms(7) by blast
  next
    case False
    then have "se_filtered r1 = se_filtered r"
      using assms(1) v by (auto simp: checkNode_def node_at_def [symmetric] Let_def split: sum.splits option.splits if_splits)
    then show ?thesis using assms(7) by simp
  qed
qed

lemma search_good:
  assumes "check_nodes (checkNode s g prof st pod infos) order r = Inr r1" "infos \<noteq> []" "0 \<le> gs_nextStartNodeIndex s"
    and "request_kept g get prof pod" "fit_filter_plugin get ignored \<in> set (fw_filterPlugins prof)"
    and "get st = Some (computePodResourceRequest g pod)"
    and "\<forall>nd \<in> set (se_filtered r). \<exists>n \<in> set infos. good_node s g ignored pod n nd"
  shows "\<forall>nd \<in> set (se_filtered r1). \<exists>n \<in> set infos. good_node s g ignored pod n nd"
  using assms(1,7)
proof (induction order arbitrary: r)
  case (Cons i order)
  then obtain r2 where r2: "checkNode s g prof st pod infos i r = Inr r2" "check_nodes (checkNode s g prof st pod infos) order r2 = Inr r1"
    by (auto split: sum.splits)
  show ?case by (rule Cons.IH [OF r2(2) checkNode_good [OF r2(1) assms(2-6) Cons.prems(2)]])
qed simp


lemma find_good:
  assumes "findNodesThatFitPod order g prof st pod s = Inr (Inr (nodes, statuses), s1)" "0 \<le> gs_nextStartNodeIndex s"
    and "request_kept g get prof pod" "fit_filter_plugin get ignored \<in> set (fw_filterPlugins prof)"
    and "get st = Some (computePodResourceRequest g pod)" "extenders_restrict (gs_extenders s)"
  shows "\<forall>nd \<in> set nodes. \<exists>n \<in> set (sn_NodeInfos (gs_nodeInfoSnapshot s)). good_node s g ignored pod n nd"
    and "\<exists>gen k. s1 = s\<lparr>gs_cache := (gs_cache s)\<lparr>sc_generation := gen\<rparr>, gs_nextStartNodeIndex := k\<rparr>"
proof -
  let ?infos = "sn_NodeInfos (gs_nodeInfoSnapshot s)"
  have has: "HasFilterPlugins prof" using assms(4) by (auto simp: HasFilterPlugins_def)
  obtain filtered ss where f: "findNodesThatPassFilters order g prof st pod s = Inr (Inr (filtered, ss), s1)"
    "findNodesThatPassExtenders (gs_extenders s1) pod filtered ss = Inr (nodes, statuses)"
    using assms(1) by (auto simp: findNodesThatFitPod_def split: sum.splits)
  then obtain r where r: "?infos \<noteq> []"
    "check_nodes (checkNode s g prof st pod ?infos) order (new_search (sc_generation (gs_cache s))) = Inr r" "filtered = se_filtered r"
    and s1: "s1 = advance_start (bump_generation (se_generation r) s) (int (length (se_filtered r) + length (se_statuses r))) (int (length ?infos))"
    using has by (auto simp: findNodesThatPassFilters_def Let_def split: if_splits sum.splits option.splits)
  show "\<exists>gen k. s1 = s\<lparr>gs_cache := (gs_cache s)\<lparr>sc_generation := gen\<rparr>, gs_nextStartNodeIndex := k\<rparr>"
    unfolding s1 advance_start_def bump_generation_def by (rule exI, rule exI, rule refl)
  have "\<forall>nd \<in> set filtered. \<exists>n \<in> set ?infos. good_node s g ignored pod n nd"
    unfolding r(3) by (rule search_good [OF r(2,1) assms(2-5)]) (simp add: new_search_def)
  moreover have "gs_extenders s1 = gs_extenders s" by (simp add: s1 advance_start_def bump_generation_def)
  then have "set nodes \<subseteq> set filtered" using extenders_subset [OF assms(6)] f(2) by simp
  ultimately show "\<forall>nd \<in> set nodes. \<exists>n \<in> set ?infos. good_node s g ignored pod n nd" by blast
qed

lemma prioritize_names: "prioritizeNodes s prof st pod nodes = Inr scores \<Longrightarrow> map fst scores = map n_Name nodes"
proof -
  have "map (n_Name \<circ> (!) nodes) [0..<length nodes] = map n_Name nodes" by (simp add: map_nth flip: map_map)
  then show "prioritizeNodes s prof st pod nodes = Inr scores \<Longrightarrow> map fst scores = map n_Name nodes"
    by (auto simp: prioritizeNodes_def comp_def split_def Let_def split: if_splits sum.splits)
qed

lemma score_and_select_host:
  assumes "score_and_select rnd s prof pod nodes statuses st = (Inr res, st1)"
  shows "\<exists>nd \<in> set nodes. n_Name nd = sr_SuggestedHost res \<and>
    (nodes = [nd] \<or>
     (\<exists>scores sc. prioritizeNodes s prof st1 pod nodes = Inr scores \<and> (sr_SuggestedHost res, sc) \<in> set scores \<and> (\<forall>e \<in> set scores. snd e \<le> sc)))"
proof (cases "\<exists>n. nodes = [n]")
  case True
  then show ?thesis using assms by (auto simp: score_and_select_def split: prod.splits option.splits)
next
  case False
  then have one: "(case nodes of [n] \<Rightarrow> a n | _ \<Rightarrow> b) = b" for a and b :: "(schedule_error + schedule_result) \<times> 'a"
    by (auto split: list.split)
  obtain scores where p: "prioritizeNodes s prof st1 pod nodes = Inr scores" "selectHost rnd scores = Some (sr_SuggestedHost res)"
    using assms by (auto simp: score_and_select_def one split: prod.splits option.splits sum.splits)
  obtain sc where sc: "(sr_SuggestedHost res, sc) \<in> set scores" "\<forall>e \<in> set scores. snd e \<le> sc"
    using selectHost_max [OF p(2)] by blast
  then have "sr_SuggestedHost res \<in> set (map n_Name nodes)"
    unfolding prioritize_names [OF p(1), symmetric] by force
  then show ?thesis using p(1) sc by auto
qed

text \<open>
  C20: When \<open>NodeResourcesFit\<close> is one of the filters of the profile, the host that \<open>Schedule\<close> suggests is a node of
  the cache on which the pod fits: beside the pods counted there, and also beside these and all pods that are nominated
  to the node with at least the pod's priority.  The order of the checks, the draws and the scores do not
  matter.  The other plugins leave the request in the cycle state alone, and extenders only take nodes away.
\<close>

theorem scheduled_pod_fits:
  assumes "cache_ok (gs_cache s) xs" "snap_inv (gs_cache s) (gs_nodeInfoSnapshot s)" "0 \<le> gs_nextStartNodeIndex s"
    and "request_kept g get prof pod" "fit_filter_plugin get ignored \<in> set (fw_filterPlugins prof)" "extenders_restrict (gs_extenders s)"
    and "Schedule order rnd g prof st pod s = Some (Inr (Inr res, st', s'))"
  shows "\<exists>n nd. info_of (gs_cache s') (sr_SuggestedHost res) = Some n \<and> good_node s g ignored pod n nd"
proof -
  obtain t sn where u: "UpdateSnapshot (gs_cache s) (gs_nodeInfoSnapshot s) = Some (Inr (False, (gs_cache s)\<lparr>sc_nodeTree := t\<rparr>, sn))"
    "full_copy (gs_cache s) sn"
    using update_copies_all [OF assms(1,2)] by blast
  define s1 where "s1 = s\<lparr>gs_cache := (gs_cache s)\<lparr>sc_nodeTree := t\<rparr>, gs_nodeInfoSnapshot := sn\<rparr>"
  have "schedule_on_snapshot order rnd g prof st pod s1 = Inr (Inr res, st', s')"
    using assms(7) u(1) by (auto simp: Schedule_def s1_def Let_def split: option.splits)
  then obtain status st1 nodes statuses where pre: "RunPreFilterPlugins prof pod st = (status, st1)" "AsError status = None"
    and find: "findNodesThatFitPod order g prof st1 pod s1 = Inr (Inr (nodes, statuses), s')"
    and sel: "score_and_select rnd s' prof pod nodes statuses st1 = (Inr res, st')"
    by (auto simp: schedule_on_snapshot_def split: if_splits prod.splits option.splits sum.splits)
  have get: "get st1 = Some (computePodResourceRequest g pod)"
    using assms(4) pre by (auto simp: request_kept_def AsError_def dest!: spec [of _ st] split: if_splits)
  note fg = find_good [OF find _ assms(4,5) get]
  obtain nd where nd: "nd \<in> set nodes" "n_Name nd = sr_SuggestedHost res" using score_and_select_host [OF sel] by blast
  then obtain n where n: "n \<in> set (sn_NodeInfos sn)" "good_node s1 g ignored pod n nd"
    using fg(1) assms(3,6) by (auto simp: s1_def)
  have "ni_node n = Some nd" using n(2) by (simp add: good_node_def)
  have "n \<in># mset (map (ce_info \<circ> snd) (sc_nodes (gs_cache s)))" using u(2) n(1) by (metis full_copy_def set_mset_mset)
  then obtain k c where kc: "(k, c) \<in> set (sc_nodes (gs_cache s))" "ce_info c = n" by auto
  have "distinct (map fst (sc_nodes (gs_cache s)))" using assms(1) by (simp add: cache_ok_def list_inv_def)
  then have i: "info_of (gs_cache s) k = Some n" using kc by (simp add: info_of_def map_of_is_SomeI)
  then have "\<exists>nd. ni_node n = Some nd \<and> n_Name nd = k" using assms(1) unfolding cache_ok_def by blast
  then have "info_of (gs_cache s) (n_Name nd) = Some n" using i \<open>ni_node n = Some nd\<close> by auto
  moreover obtain gen i where "s' = s1\<lparr>gs_cache := (gs_cache s1)\<lparr>sc_generation := gen\<rparr>, gs_nextStartNodeIndex := i\<rparr>"
    using fg(2) assms(3,6) by (auto simp: s1_def)
  ultimately have "info_of (gs_cache s') (sr_SuggestedHost res) = Some n" by (simp add: s1_def info_of_def nd(2))
  moreover have "good_node s g ignored pod n nd" using n(2) by (simp add: good_node_def s1_def NominatedPodsForNode_def)
  ultimately show ?thesis by blast
qed


text \<open>
  C23: A successful cycle suggests one of the nodes that passed the filters and the extenders, the only one or one
  whose total score is the highest, and reports how many nodes were examined and how many of them passed.
\<close>

theorem schedule_suggests_best:
  assumes "Schedule order rnd g prof st pod s = Some (Inr (Inr res, st', s'))"
  shows "\<exists>c sn nodes statuses. UpdateSnapshot (gs_cache s) (gs_nodeInfoSnapshot s) = Some (Inr (False, c, sn)) \<and>
    findNodesThatFitPod order g prof (snd (RunPreFilterPlugins prof pod st)) pod (s\<lparr>gs_cache := c, gs_nodeInfoSnapshot := sn\<rparr>) =
      Inr (Inr (nodes, statuses), s') \<and>
    sr_FeasibleNodes res = int (length nodes) \<and> sr_EvaluatedNodes res = int (length nodes + length statuses) \<and>
    (\<exists>nd \<in> set nodes. n_Name nd = sr_SuggestedHost res \<and>
      (nodes = [nd] \<or>
       (\<exists>scores sc. prioritizeNodes s' prof st' pod nodes = Inr scores \<and> (sr_SuggestedHost res, sc) \<in> set scores \<and>
          (\<forall>e \<in> set scores. snd e \<le> sc))))"
proof -
  obtain c sn where u: "UpdateSnapshot (gs_cache s) (gs_nodeInfoSnapshot s) = Some (Inr (False, c, sn))"
    "schedule_on_snapshot order rnd g prof st pod (s\<lparr>gs_cache := c, gs_nodeInfoSnapshot := sn\<rparr>) = Inr (Inr res, st', s')"
    using assms by (auto simp: Schedule_def Let_def split: option.splits sum.splits if_splits)
  let ?st1 = "snd (RunPreFilterPlugins prof pod st)"
  obtain nodes statuses where
    find: "findNodesThatFitPod order g prof ?st1 pod (s\<lparr>gs_cache := c, gs_nodeInfoSnapshot := sn\<rparr>) = Inr (Inr (nodes, statuses), s')"
    and sel: "score_and_select rnd s' prof pod nodes statuses ?st1 = (Inr res, st')"
    using u(2) by (auto simp: schedule_on_snapshot_def split: if_splits prod.splits option.splits sum.splits)
  have "sr_FeasibleNodes res = int (length nodes) \<and> sr_EvaluatedNodes res = int (length nodes + length statuses)"
    using sel by (auto simp: score_and_select_def split: list.splits prod.splits option.splits sum.splits)
  then show ?thesis using u(1) find score_and_select_host [OF sel] by blast
qed

subsection \<open>One node of 100 Mbit/s\<close>

definition one_scheduler :: generic_scheduler where
  "one_scheduler =
     \<lparr>gs_cache = one_node, gs_schedulingQueue = Some (NewPriorityQueue 1 10), gs_extenders = [],
      gs_nodeInfoSnapshot = NewEmptySnapshot, gs_pvcLister = (\<lambda>_ _. Inl ''not found''), gs_pdbLister = None,
      gs_disablePreemption = False, gs_percentageOfNodesToScore = 0, gs_enableNonPreempting = True, gs_nextStartNodeIndex = 0\<rparr>"

lemma one_node_info:
  "\<exists>i. map (ce_info \<circ> snd) (sc_nodes one_node) = [i] \<and> ni_node i = Some (slo_node 100) \<and> ni_pods i = [] \<and>
     ni_requested i = emptyResource\<lparr>r_ScalarResources := []\<rparr> \<and>
     ni_allocatable i = emptyResource\<lparr>r_AllowedPodNumber := 110, r_ScalarResources := [(ResourceSLO, 100)]\<rparr>"
proof -
  have "NewResource slo_gates (n_Allocatable (slo_node 100)) =
      emptyResource\<lparr>r_AllowedPodNumber := 110, r_ScalarResources := [(ResourceSLO, 100)]\<rparr>"
    by (simp add: slo_node_def NewResource_def res_Add_def res_add1_def emptyResource_def AddScalar_def SetScalar_def scalar_def in64_def)
  then show ?thesis
    by (simp add: one_node_def AddNode_def cell_for_node_def new_cell_def NewNodeInfo_empty moveNodeInfoToHead_def unlink_def
        upd_cell_def addNodeImageStates_def image_names_def on_info_def ni_SetNode_def newSchedulerCache_def newNodeTree_def Let_def
        empty_node_info_def) (simp add: emptyResource_def)
qed

lemma fit_framework_kept: "request_kept g (\<lambda>st. st) (fit_framework g ignored) pod"
  by (simp add: request_kept_def fit_framework_def fit_pre_filter_plugin_def RunPreFilterPlugins_def
      RunPreFilterExtensionAddPod_def fit_PreFilter_def IsSuccess_def Code_def)

lemma fit_framework_merge:
  "Fits g pod n ignored = [] \<Longrightarrow> run_and_merge (fit_framework g ignored) (Some (computePodResourceRequest g pod)) pod n = Inr None"
  by (simp add: run_and_merge_def RunFilterPlugins_def fit_framework_def fit_filter_plugin_def fit_Filter_def Fits_def fit_status_def
      Merge_def IsSuccess_def Code_def)

lemma one_scheduled_on:
  assumes "sq_nominatedPods q = newNominatedPodMap"
  shows "\<exists>s'. Schedule [0] (\<lambda>_ _. 0) slo_gates (fit_framework slo_gates []) None (sched_pod ''a'' 40) (one_scheduler\<lparr>gs_schedulingQueue := Some q\<rparr>) =
     Some (Inr (Inr \<lparr>sr_SuggestedHost = ''worker'', sr_EvaluatedNodes = 1, sr_FeasibleNodes = 1\<rparr>,
       Some (computePodResourceRequest slo_gates (sched_pod ''a'' 40)), s'))"
proof -
  obtain ys where "cache_ok one_node ys" using one_node_ok by blast
  then obtain t sn where u: "UpdateSnapshot one_node NewEmptySnapshot = Some (Inr (False, one_node\<lparr>sc_nodeTree := t\<rparr>, sn))"
    "full_copy one_node sn"
    using update_copies_all [OF _ one_node_ready(2)] by blast
  obtain i where i: "map (ce_info \<circ> snd) (sc_nodes one_node) = [i]" "ni_node i = Some (slo_node 100)" "ni_pods i = []"
    "ni_requested i = emptyResource\<lparr>r_ScalarResources := []\<rparr>"
    "ni_allocatable i = emptyResource\<lparr>r_AllowedPodNumber := 110, r_ScalarResources := [(ResourceSLO, 100)]\<rparr>"
    using one_node_info by (elim exE conjE) (rule that)
  have "mset (sn_NodeInfos sn) = {#i#}" using u(2) i(1) by (simp add: full_copy_def)
  then have infos: "sn_NodeInfos sn = [i]" by simp
  have "Fits slo_gates (sched_pod ''a'' 40) i [] = []"
    using sched_pod_fits [of 40 "(0, i)" 100 "[]" slo_gates "''a''"] i by (simp add: in64_def scalar_def)
  note fits = fit_framework_merge [OF this]
  have prio: "p_VolumeClaims (sched_pod ''a'' 40) = []" by (simp add: sched_pod_def empty_pod_def)
  have pre: "RunPreFilterPlugins (fit_framework slo_gates []) pod st = (None, Some (computePodResourceRequest slo_gates pod))" for pod st
    by (simp add: fit_framework_def fit_pre_filter_plugin_def RunPreFilterPlugins_def fit_PreFilter_def IsSuccess_def Code_def)
  have has: "HasFilterPlugins (fit_framework slo_gates [])" by (simp add: HasFilterPlugins_def fit_framework_def)
  have prescore: "RunPreScorePlugins (fit_framework slo_gates []) pod ns st = (None, st)" for pod ns st
    by (simp add: RunPreScorePlugins_def fit_framework_def)
  show ?thesis
    by (simp add: Schedule_def podPassesBasicChecks_def prio one_scheduler_def u(1) schedule_on_snapshot_def infos pre AsError_def IsSuccess_def
        Code_def findNodesThatFitPod_def findNodesThatPassFilters_def has checkNode_def podPassesFiltersOnNode_def addNominatedPods_def
        i(2) NominatedPodsForNode_def sq_NominatedPodsForNode_def pods_at_def assms newNominatedPodMap_def fits Let_def
        nodes_to_find_def numFeasibleNodesToFind_def minFeasibleNodesToFind_def new_search_def wrap32_def advance_start_def
        bump_generation_def score_and_select_def prescore)
qed

lemma one_scheduled:
  "\<exists>s'. Schedule [0] (\<lambda>_ _. 0) slo_gates (fit_framework slo_gates []) None (sched_pod ''a'' 40) one_scheduler =
     Some (Inr (Inr \<lparr>sr_SuggestedHost = ''worker'', sr_EvaluatedNodes = 1, sr_FeasibleNodes = 1\<rparr>,
       Some (computePodResourceRequest slo_gates (sched_pod ''a'' 40)), s'))"
  using one_scheduled_on [of "NewPriorityQueue 1 10"] by (simp add: one_scheduler_def NewPriorityQueue_def)

theorem scheduled_pod_fits_witness:
  "\<exists>res st' s' n nd. Schedule [0] (\<lambda>_ _. 0) slo_gates (fit_framework slo_gates []) None (sched_pod ''a'' 40) one_scheduler =
     Some (Inr (Inr res, st', s')) \<and> sr_SuggestedHost res = ''worker'' \<and>
     info_of (gs_cache s') ''worker'' = Some n \<and> good_node one_scheduler slo_gates [] (sched_pod ''a'' 40) n nd"
proof -
  obtain ys where ok: "cache_ok (gs_cache one_scheduler) ys" using one_node_ok by (auto simp: one_scheduler_def)
  have s: "snap_inv (gs_cache one_scheduler) (gs_nodeInfoSnapshot one_scheduler)" "0 \<le> gs_nextStartNodeIndex one_scheduler"
    "extenders_restrict (gs_extenders one_scheduler)"
    using one_node_ready(2) by (simp_all add: one_scheduler_def extenders_restrict_def)
  have f: "fit_filter_plugin (\<lambda>st. st) [] \<in> set (fw_filterPlugins (fit_framework slo_gates []))" by (simp add: fit_framework_def)
  obtain s' where r: "Schedule [0] (\<lambda>_ _. 0) slo_gates (fit_framework slo_gates []) None (sched_pod ''a'' 40) one_scheduler =
     Some (Inr (Inr \<lparr>sr_SuggestedHost = ''worker'', sr_EvaluatedNodes = 1, sr_FeasibleNodes = 1\<rparr>,
       Some (computePodResourceRequest slo_gates (sched_pod ''a'' 40)), s'))"
    using one_scheduled by blast
  show ?thesis using scheduled_pod_fits [OF ok s(1,2) fit_framework_kept f s(3) r] r by auto
qed


theorem schedule_suggests_best_witness:
  "\<exists>s' nodes (nd :: node). Schedule [0] (\<lambda>_ _. 0) slo_gates (fit_framework slo_gates []) None (sched_pod ''a'' 40) one_scheduler =
     Some (Inr (Inr \<lparr>sr_SuggestedHost = ''worker'', sr_EvaluatedNodes = 1, sr_FeasibleNodes = 1\<rparr>,
       Some (computePodResourceRequest slo_gates (sched_pod ''a'' 40)), s')) \<and>
     nd \<in> set nodes \<and> n_Name nd = ''worker'' \<and> length nodes = 1"
proof -
  obtain s' where r: "Schedule [0] (\<lambda>_ _. 0) slo_gates (fit_framework slo_gates []) None (sched_pod ''a'' 40) one_scheduler =
     Some (Inr (Inr \<lparr>sr_SuggestedHost = ''worker'', sr_EvaluatedNodes = 1, sr_FeasibleNodes = 1\<rparr>,
       Some (computePodResourceRequest slo_gates (sched_pod ''a'' 40)), s'))"
    using one_scheduled by blast
  from schedule_suggests_best [OF r] obtain nodes :: "node list" and nd
    where nd: "nd \<in> set nodes" "n_Name nd = ''worker''" "length nodes = 1" by auto
  show ?thesis by (intro exI conjI) (rule r nd)+
qed

theorem numFeasibleNodes_bounds_witness:
  "numFeasibleNodesToFind one_scheduler 5000 = 500 \<and> min 100 5000 \<le> numFeasibleNodesToFind one_scheduler 5000"
proof -
  have "numFeasibleNodesToFind one_scheduler 5000 = 500"
    by (simp add: numFeasibleNodesToFind_def one_scheduler_def adaptive_percentage_def minFeasibleNodesToFind_def
        minFeasibleNodesPercentageToFind_def wrap32_def Let_def)
  then show ?thesis using numFeasibleNodes_bounds [of 5000 one_scheduler] by simp
qed

subsection \<open>Two nodes, of 100 and of 10 Mbit/s\<close>

definition small_worker :: node_info where
  "small_worker = snd (ni_SetNode slo_gates ((slo_node 10)\<lparr>n_Name := ''small''\<rparr>) (NewNodeInfo slo_gates [] 0))"

definition two_scheduler :: generic_scheduler where
  "two_scheduler = one_scheduler\<lparr>gs_nodeInfoSnapshot :=
     \<lparr>sn_store = (\<lambda>a. if a = 0 then snd (slo_worker 100) else small_worker), sn_fresh = 2,
      sn_map = [(''worker'', 0), (''small'', 1)], sn_list = [0, 1], sn_affinity = [], sn_generation = 2\<rparr>\<rparr>"

lemma two_infos [simp]: "sn_NodeInfos (gs_nodeInfoSnapshot two_scheduler) = [snd (slo_worker 100), small_worker]"
  by (simp add: two_scheduler_def sn_NodeInfos_def)

lemma two_nodes [simp]: "ni_node (snd (slo_worker 100)) = Some (slo_node 100)" "ni_node small_worker = Some ((slo_node 10)\<lparr>n_Name := ''small''\<rparr>)"
  by (simp_all add: slo_worker_def small_worker_def ni_SetNode_def NewNodeInfo_def Let_def)

lemma small_worker_frame:
  "ni_allocatable small_worker = emptyResource\<lparr>r_AllowedPodNumber := 110, r_ScalarResources := [(ResourceSLO, 10)]\<rparr>"
  "ni_pods small_worker = []" "ni_requested small_worker = emptyResource\<lparr>r_ScalarResources := []\<rparr>"
  by (simp_all add: small_worker_def ni_SetNode_def NewNodeInfo_def Let_def empty_node_info_def slo_node_def NewResource_def
      res_Add_def res_add1_def emptyResource_def AddScalar_def SetScalar_def scalar_def in64_def)

lemma fit_framework_unfit:
  assumes "Fits g pod n ignored \<noteq> []"
  shows "\<exists>x. run_and_merge (fit_framework g ignored) (Some (computePodResourceRequest g pod)) pod n = Inr (Some x) \<and> \<not> IsSuccess (Some x)"
proof -
  have "fit_Filter (Some (computePodResourceRequest g pod)) n ignored = FilterUnschedulable (map is_Reason (Fits g pod n ignored))"
    using assms by (simp add: fit_Filter_def Fits_def split: list.split)
  then show ?thesis
    by (simp add: run_and_merge_def RunFilterPlugins_def fit_framework_def fit_filter_plugin_def fit_status_def NewStatus_def
        Merge_def IsSuccess_def IsUnschedulable_def Code_def Let_def appended)
qed

lemma fit_framework_ignores: "ignores_generations (fit_framework g ignored)"
proof -
  have "lacks_scalar ignored (n\<lparr>ni_generation := k\<rparr>) = lacks_scalar ignored n" for n k
    by (rule ext) (auto simp: lacks_scalar_def)
  then have "fitsRequest req (n\<lparr>ni_generation := k\<rparr>) ignored = fitsRequest req n ignored" for req n k
    by (simp add: fitsRequest_def Let_def)
  then show ?thesis
    by (auto simp: ignores_generations_def fit_framework_def fit_filter_plugin_def fit_pre_filter_plugin_def fit_Filter_def split: option.split)
qed

lemma two_verdicts:
  "verdict two_scheduler slo_gates (fit_framework slo_gates []) (Some (computePodResourceRequest slo_gates pod)) pod n =
     run_and_merge (fit_framework slo_gates []) (Some (computePodResourceRequest slo_gates pod)) pod n"
  by (auto simp: verdict_def podPassesFiltersOnNode_def addNominatedPods_def two_scheduler_def one_scheduler_def NominatedPodsForNode_def
      sq_NominatedPodsForNode_def pods_at_def NewPriorityQueue_def newNominatedPodMap_def split: option.split sum.split)

theorem search_finds_feasible_nodes_witness:
  "\<exists>statuses s'. findNodesThatPassFilters [1, 0] slo_gates (fit_framework slo_gates [])
       (Some (computePodResourceRequest slo_gates (sched_pod ''a'' 40))) (sched_pod ''a'' 40) two_scheduler =
     Inr (Inr ([slo_node 100], statuses), s') \<and> fst ` set statuses = {''small''}"
proof -
  let ?f = "fit_framework slo_gates []" and ?pod = "sched_pod ''a'' 40"
  let ?st = "Some (computePodResourceRequest slo_gates ?pod)" and ?infos = "[snd (slo_worker 100), small_worker]"
  have fits: "Fits slo_gates ?pod (snd (slo_worker 100)) [] = []" "Fits slo_gates ?pod small_worker [] \<noteq> []"
    using sched_pod_fits [of 40 "slo_worker 100" 100 "[]" slo_gates "''a''"] sched_pod_fits [of 40 "(0, small_worker)" 10 "[]" slo_gates "''a''"]
    by (simp_all add: in64_def scalar_def small_worker_frame) (simp_all add: emptyResource_def)
  then obtain x where v: "verdict two_scheduler slo_gates ?f ?st ?pod (snd (slo_worker 100)) = Inr None"
    "verdict two_scheduler slo_gates ?f ?st ?pod small_worker = Inr (Some x)" "\<not> IsSuccess (Some x)"
    unfolding two_verdicts using fit_framework_merge fit_framework_unfit by blast
  then have fe: "feasible two_scheduler slo_gates ?f ?st ?pod (snd (slo_worker 100))" "\<not> feasible two_scheduler slo_gates ?f ?st ?pod small_worker"
    by (simp_all add: feasible_def IsSuccess_def Code_def)
  have run: "possible_run [1, 0] slo_gates ?f ?st ?pod two_scheduler"
    by (simp add: possible_run_def Let_def del: check_nodes.simps) (auto simp: possible_order_def)
  have ok: "infos_ok ?infos" "0 \<le> gs_nextStartNodeIndex two_scheduler" "HasFilterPlugins ?f"
    by (simp_all add: infos_ok_def two_scheduler_def one_scheduler_def HasFilterPlugins_def fit_framework_def)
  obtain res s' where r: "findNodesThatPassFilters [1, 0] slo_gates ?f ?st ?pod two_scheduler = Inr (res, s')"
    "case res of Inl e \<Rightarrow> \<exists>n \<in> set ?infos. verdict two_scheduler slo_gates ?f ?st ?pod n = Inl e
     | Inr (nodes, statuses) \<Rightarrow> found two_scheduler slo_gates ?f ?st ?pod ?infos nodes statuses"
    using search_finds_feasible_nodes [OF fit_framework_ignores ok(3) run two_infos [symmetric] _ ok(1,2)] by auto
  obtain nodes statuses where res: "res = Inr (nodes, statuses)" using r(2) v by (cases res) auto
  have find: "nodes_to_find two_scheduler ?infos = 2"
    by (simp add: nodes_to_find_def numFeasibleNodesToFind_def minFeasibleNodesToFind_def wrap32_def)
  have sets: "{n \<in> set ?infos. feasible two_scheduler slo_gates ?f ?st ?pod n} = {snd (slo_worker 100)}"
    "{n \<in> set ?infos. \<not> feasible two_scheduler slo_gates ?f ?st ?pod n} = {small_worker}"
    using fe by auto
  have f: "found two_scheduler slo_gates ?f ?st ?pod ?infos nodes statuses" using r(2) by (simp add: res)
  have len: "length (filter (feasible two_scheduler slo_gates ?f ?st ?pod) ?infos) = 1" using fe by simp
  have one: "length nodes = 1" using f unfolding found_def find len by simp
  then have "set nodes = {slo_node 100}" "fst ` set statuses = {''small''}"
    using f unfolding found_def find sets by simp_all
  then have "nodes = [slo_node 100]" using one by (cases nodes) auto
  then show ?thesis using r(1) res \<open>fst ` set statuses = {''small''}\<close> by blast
qed

end
