(* ===== verification/PreemptionVictims.thy ===== *)
theory PreemptionVictims
  imports Preemption ScheduleSafety
begin

section \<open>The victims of a preemption\<close>

text \<open>
  \<open>selectVictimsOnNode\<close> relies on what the filters make of the pods on the node: the interface
  \<open>preemption_contract\<close> says that they see the set of these pods only, and that taking pods away never makes a pod
  unfit.  Then the victims are enough, and every single one is needed.  \<open>NodeResourcesFit\<close> meets the interface.
\<close>

subsection \<open>Trials\<close>

lemma trial_frame [simp]:
  "tr_victims (trial_add g prof pod p t) = tr_victims t" "tr_violating (trial_add g prof pod p t) = tr_violating t"
  "tr_victims (snd (trial_fits s g prof pod t)) = tr_victims t" "tr_violating (snd (trial_fits s g prof pod t)) = tr_violating t"
  "tr_failed (snd (trial_fits s g prof pod t)) = tr_failed t"
  by (simp_all add: trial_add_def trial_fits_def split: prod.split)

lemma trial_remove_frame:
  "trial_remove g prof pod p t = Inr t1 \<Longrightarrow> tr_victims t1 = tr_victims t \<and> tr_violating t1 = tr_violating t"
  by (auto simp: trial_remove_def split: sum.splits prod.splits option.splits)

lemma group_pod_mset: "mset (fst (snd (group_pod acc p))) + mset (snd (snd (group_pod acc p))) = add_mset p (mset (fst (snd acc)) + mset (snd (snd acc)))"
  by (auto simp: group_pod_def split: prod.split)

lemma filterPods_mset:
  "mset (fst (filterPodsWithPDBViolation pods pdbs)) + mset (snd (filterPodsWithPDBViolation pods pdbs)) = mset pods"
proof -
  have "mset (fst (snd (foldl group_pod acc pods))) + mset (snd (snd (foldl group_pod acc pods))) =
      mset pods + (mset (fst (snd acc)) + mset (snd (snd acc)))" for acc
    by (induction pods arbitrary: acc) (simp_all add: group_pod_mset)
  then show ?thesis by (simp add: filterPodsWithPDBViolation_def)
qed

text \<open>The victims \<open>vs\<close> among the pods \<open>lower\<close> of a node with the pods \<open>S\<close>, of which \<open>k\<close> violate a budget.\<close>

definition enough_and_needed :: "(pod set \<Rightarrow> bool) \<Rightarrow> pod set \<Rightarrow> pod list \<Rightarrow> pod list \<times> int \<Rightarrow> bool" where
  "enough_and_needed ok S lower r \<longleftrightarrow>
     (case r of (vs, k) \<Rightarrow>
        distinct vs \<and> set vs \<subseteq> set lower \<and> ok (S - set vs) \<and> (\<forall>v \<in> set vs. \<not> ok (insert v (S - set vs))) \<and>
        0 \<le> k \<and> k \<le> int (length vs))"

locale preemption_contract =
  fixes s :: generic_scheduler and g :: sched_gates and prof :: "'st sched_framework" and pod :: pod
    and holds_pods :: "'st trial \<Rightarrow> pod set \<Rightarrow> bool" and U :: "pod set" and ok :: "pod set \<Rightarrow> bool"
  assumes within_U: "holds_pods t A \<Longrightarrow> A \<subseteq> U"
    and other_fields: "holds_pods (t\<lparr>tr_victims := vs, tr_violating := k\<rparr>) A = holds_pods t A"
    and fits: "holds_pods t A \<Longrightarrow> fst (trial_fits s g prof pod t) = ok A \<and> holds_pods (snd (trial_fits s g prof pod t)) A"
    and add: "holds_pods t A \<Longrightarrow> p \<in> U \<Longrightarrow> p \<notin> A \<Longrightarrow>
      \<not> tr_failed (trial_add g prof pod p t) \<and> holds_pods (trial_add g prof pod p t) (insert p A)"
    and remove: "holds_pods t A \<Longrightarrow> p \<in> A \<Longrightarrow>
      \<exists>t1. trial_remove g prof pod p t = Inr t1 \<and> \<not> tr_failed t1 \<and> holds_pods t1 (A - {p})"
    and antitone: "holds_pods t C \<Longrightarrow> A \<subseteq> B \<Longrightarrow> B \<subseteq> U \<Longrightarrow> ok B \<Longrightarrow> ok A"
begin

lemma remove_all:
  assumes "holds_pods t A" "set ps \<subseteq> A" "distinct ps" "\<not> tr_failed t"
  shows "\<exists>t1. until_failed (trial_remove g prof pod) ps t = Inr t1 \<and> \<not> tr_failed t1 \<and> holds_pods t1 (A - set ps) \<and>
    tr_victims t1 = tr_victims t \<and> tr_violating t1 = tr_violating t"
  using assms
proof (induction ps arbitrary: t A)
  case (Cons p ps)
  obtain t1 where t1: "trial_remove g prof pod p t = Inr t1" "\<not> tr_failed t1" "holds_pods t1 (A - {p})"
    using remove [OF Cons.prems(1)] Cons.prems(2) by auto
  have "A - {p} - set ps = A - set (p # ps)" by auto
  then show ?case using Cons.IH [OF t1(3) _ _ t1(2)] Cons.prems(2,3) trial_remove_frame [OF t1(1)] t1(1,2) by fastforce
qed simp

lemma reprieve:
  assumes "holds_pods t A" "ok A" "set ps \<subseteq> U" "distinct ps" "set ps \<inter> A = {}" "\<not> tr_failed t"
  shows "\<exists>t1 W. until_failed (reprievePod s g prof pod b) ps t = Inr t1 \<and> \<not> tr_failed t1 \<and>
    set W \<subseteq> set ps \<and> distinct W \<and> holds_pods t1 (A \<union> (set ps - set W)) \<and> ok (A \<union> (set ps - set W)) \<and>
    tr_victims t1 = tr_victims t @ W \<and> tr_violating t1 = tr_violating t + (if b then int (length W) else 0) \<and>
    (\<forall>v \<in> set W. \<not> ok (insert v (A \<union> (set ps - set W))))"
  using assms
proof (induction ps arbitrary: t A)
  case Nil
  then show ?case by (intro exI [of _ t] exI [of _ "[]"]) simp
next
  case (Cons p ps)
  let ?t1 = "trial_add g prof pod p t"
  have a: "\<not> tr_failed ?t1" "holds_pods ?t1 (insert p A)" using add [OF Cons.prems(1)] Cons.prems(3,5) by auto
  obtain ft t2 where f: "trial_fits s g prof pod ?t1 = (ft, t2)" by force
  have f2: "ft = ok (insert p A)" "holds_pods t2 (insert p A)" "\<not> tr_failed t2" "tr_victims t2 = tr_victims t" "tr_violating t2 = tr_violating t"
    using fits [OF a(2)] f a(1) trial_frame(3-5) [where t = ?t1 and s = s and g = g and prof = prof and pod = pod] by simp_all
  show ?case
  proof (cases "ok (insert p A)")
    case True
    have r: "reprievePod s g prof pod b p t = Inr t2" using f f2(1) True a(1) by (simp add: reprievePod_def Let_def)
    obtain t1 W where IH: "until_failed (reprievePod s g prof pod b) ps t2 = Inr t1" "\<not> tr_failed t1" "set W \<subseteq> set ps" "distinct W"
      "holds_pods t1 (insert p A \<union> (set ps - set W))" "ok (insert p A \<union> (set ps - set W))" "tr_victims t1 = tr_victims t2 @ W"
      "tr_violating t1 = tr_violating t2 + (if b then int (length W) else 0)" "\<forall>v \<in> set W. \<not> ok (insert v (insert p A \<union> (set ps - set W)))"
      using Cons.IH [OF f2(2) True _ _ _ f2(3)] Cons.prems(3-5) by auto
    have eq: "insert p A \<union> (set ps - set W) = A \<union> (set (p # ps) - set W)" using IH(3) Cons.prems(4) by auto
    show ?thesis using IH r f2(3-5) unfolding eq by (intro exI [of _ t1] exI [of _ W]) auto
  next
    case False
    obtain t3 where t3: "trial_remove g prof pod p t2 = Inr t3" "\<not> tr_failed t3" "holds_pods t3 (insert p A - {p})"
      using remove [OF f2(2), of p] by auto
    define t4 where "t4 = t3\<lparr>tr_victims := tr_victims t3 @ [p], tr_violating := (if b then tr_violating t3 + 1 else tr_violating t3)\<rparr>"
    have r: "reprievePod s g prof pod b p t = Inr t4" "\<not> tr_failed t4"
      using f f2(1) False a(1) t3(1,2) by (simp_all add: reprievePod_def Let_def t4_def)
    have "insert p A - {p} = A" using Cons.prems(5) by auto
    then have h4: "holds_pods t4 A" using t3(3) other_fields by (simp add: t4_def)
    obtain t1 W where IH: "until_failed (reprievePod s g prof pod b) ps t4 = Inr t1" "\<not> tr_failed t1" "set W \<subseteq> set ps" "distinct W"
      "holds_pods t1 (A \<union> (set ps - set W))" "ok (A \<union> (set ps - set W))" "tr_victims t1 = tr_victims t4 @ W"
      "tr_violating t1 = tr_violating t4 + (if b then int (length W) else 0)" "\<forall>v \<in> set W. \<not> ok (insert v (A \<union> (set ps - set W)))"
      using Cons.IH [OF h4 Cons.prems(2) _ _ _ r(2)] Cons.prems(3-5) by auto
    have eq: "A \<union> (set (p # ps) - set (p # W)) = A \<union> (set ps - set W)" using Cons.prems(4) IH(3) by auto
    let ?F = "insert p (A \<union> (set ps - set W))"
    have "?F \<subseteq> U" "insert p A \<subseteq> ?F" using within_U [OF Cons.prems(1)] Cons.prems(3) by auto
    then have p: "\<not> ok ?F" using antitone [OF Cons.prems(1), where A = "insert p A" and B = ?F] False by blast
    have v: "tr_victims t4 = tr_victims t @ [p]" "tr_violating t4 = tr_violating t + (if b then 1 else 0)"
      using trial_remove_frame [OF t3(1)] f2(4,5) by (simp_all add: t4_def)
    have "p \<notin> set W" using IH(3) Cons.prems(4) by auto
    then show ?thesis
      by (intro exI [of _ t1] exI [of _ "p # W"], unfold eq) (use IH r v p in \<open>simp add: subset_insertI2\<close>)
  qed
qed

lemma reprieve_groups:
  assumes "holds_pods t (S - set lower)" "ok (S - set lower)" "\<not> tr_failed t" "tr_victims t = []" "tr_violating t = 0"
    and "mset (fst groups) + mset (snd groups) = mset lower" "distinct lower" "set lower \<subseteq> S" "S \<subseteq> U"
  shows "\<exists>t1. reprieve_all s g prof pod groups t = Inr t1 \<and> \<not> tr_failed t1 \<and>
    enough_and_needed ok S lower (tr_victims t1, tr_violating t1)"
proof -
  let ?V = "fst groups" and ?N = "snd groups" and ?A = "S - set lower"
  have m: "mset (?V @ ?N) = mset lower" using assms(6) by simp
  then have d: "distinct (?V @ ?N)" "set (?V @ ?N) = set lower" using assms(7) mset_eq_imp_distinct_iff mset_eq_setD by blast+
  have dis: "set ?V \<inter> set ?N = {}" "distinct ?V" "distinct ?N" "set ?V \<subseteq> U" "set ?N \<subseteq> U" "set ?V \<inter> ?A = {}" "set ?N \<inter> ?A = {}"
    using d assms(8,9) by auto
  obtain t1 W1 where r1: "until_failed (reprievePod s g prof pod True) ?V t = Inr t1" "\<not> tr_failed t1" "set W1 \<subseteq> set ?V" "distinct W1"
    "holds_pods t1 (?A \<union> (set ?V - set W1))" "ok (?A \<union> (set ?V - set W1))" "tr_victims t1 = W1" "tr_violating t1 = int (length W1)"
    "\<forall>v \<in> set W1. \<not> ok (insert v (?A \<union> (set ?V - set W1)))"
    using reprieve [OF assms(1,2) dis(4,2,6) assms(3), of True] assms(4,5) by auto
  let ?A1 = "?A \<union> (set ?V - set W1)"
  obtain t2 W2 where r2: "until_failed (reprievePod s g prof pod False) ?N t1 = Inr t2" "\<not> tr_failed t2" "set W2 \<subseteq> set ?N" "distinct W2"
    "ok (?A1 \<union> (set ?N - set W2))" "tr_victims t2 = W1 @ W2" "tr_violating t2 = int (length W1)"
    "\<forall>v \<in> set W2. \<not> ok (insert v (?A1 \<union> (set ?N - set W2)))"
    using reprieve [OF r1(5,6) dis(5,3) _ r1(2), of False] r1(7,8) dis(1,7) by auto
  have A2: "?A1 \<union> (set ?N - set W2) = S - set (W1 @ W2)" using d(2) dis(1) r1(3) r2(3) assms(8) by auto
  have "\<not> ok (insert v (S - set (W1 @ W2)))" if v: "v \<in> set W1" for v
  proof
    assume o: "ok (insert v (S - set (W1 @ W2)))"
    have "insert v ?A1 \<subseteq> insert v (S - set (W1 @ W2))" unfolding A2 [symmetric] by auto
    moreover have "insert v (S - set (W1 @ W2)) \<subseteq> U" using v r1(3) dis(4) assms(9) by auto
    ultimately show False using antitone [OF assms(1) _ _ o] r1(9) v by blast
  qed
  then have "enough_and_needed ok S lower (W1 @ W2, int (length W1))"
    using r2(3,4,5,8) r1(3,4) d(2) dis(1) unfolding A2 by (auto simp: enough_and_needed_def)
  then show ?thesis using r1(1,2) r2(1,2,6,7) by (simp add: reprieve_all_def)
qed

lemma select_victims:
  assumes "holds_pods (new_trial st (gen, n)) (set (ni_pods n))" "distinct (ni_pods n)" "\<And>r xs. mset (srt r xs) = mset xs"
  shows "\<exists>res gen'. selectVictimsOnNode srt now s g prof st pod pdbs (gen, n) = Inr (res, gen') \<and>
    (case res of
       None \<Rightarrow> \<not> ok (set (ni_pods n) - set (lower_pods pod n))
     | Some r \<Rightarrow> enough_and_needed ok (set (ni_pods n)) (lower_pods pod n) r)"
proof -
  let ?S = "set (ni_pods n)" and ?L = "lower_pods pod n" and ?t = "new_trial st (gen, n)"
  have L: "set ?L \<subseteq> ?S" "distinct ?L" using assms(2) by (auto simp: lower_pods_def)
  obtain t1 where t1: "until_failed (trial_remove g prof pod) ?L ?t = Inr t1" "\<not> tr_failed t1" "holds_pods t1 (?S - set ?L)"
    "tr_victims t1 = []" "tr_violating t1 = 0"
    using remove_all [OF assms(1) L] by (auto simp: new_trial_def)
  obtain ft t2 where f: "trial_fits s g prof pod t1 = (ft, t2)" by force
  have t2: "ft = ok (?S - set ?L)" "holds_pods t2 (?S - set ?L)" "\<not> tr_failed t2" "tr_victims t2 = []" "tr_violating t2 = 0"
    using fits [OF t1(3)] f t1(2,4,5) trial_frame(3-5) [where t = t1 and s = s and g = g and prof = prof and pod = pod] by simp_all
  show ?thesis
  proof (cases "ok (?S - set ?L)")
    case False
    then have "selectVictimsOnNode srt now s g prof st pod pdbs (gen, n) = Inr (None, tr_generation t2)"
      using t1(1,2) f t2(1) by (simp add: selectVictimsOnNode_def Let_def)
    then show ?thesis using False by simp
  next
    case True
    let ?G = "filterPodsWithPDBViolation (srt (MoreImportantPod now) ?L) pdbs"
    have "mset (fst ?G) + mset (snd ?G) = mset ?L" using filterPods_mset assms(3) by simp
    from reprieve_groups [OF t2(2) True t2(3-5) this L(2,1) within_U [OF assms(1)]]
    obtain t3 where "reprieve_all s g prof pod ?G t2 = Inr t3" "\<not> tr_failed t3" "enough_and_needed ok ?S ?L (tr_victims t3, tr_violating t3)"
      by blast
    then have "selectVictimsOnNode srt now s g prof st pod pdbs (gen, n) = Inr (Some (tr_victims t3, tr_violating t3), tr_generation t3)"
      using t1(1,2) f t2(1) True by (simp add: selectVictimsOnNode_def Let_def)
    then show ?thesis using \<open>enough_and_needed ok ?S ?L (tr_victims t3, tr_violating t3)\<close> by simp
  qed
qed

end


subsection \<open>NodeResourcesFit\<close>

definition nominated :: "generic_scheduler \<Rightarrow> node \<Rightarrow> pod \<Rightarrow> pod list" where
  "nominated s nd pod = filter (not_overtaken pod) (NominatedPodsForNode s (n_Name nd))"

text \<open>Whether the pod fits, by the sums of the requests, on a node with the pods \<open>A\<close> and the nominated pods \<open>N\<close>.\<close>

definition fits_beside :: "sched_gates \<Rightarrow> string list \<Rightarrow> node_resource \<Rightarrow> pod list \<Rightarrow> pod \<Rightarrow> pod set \<Rightarrow> bool" where
  "fits_beside g ignored alloc N pod A \<longleftrightarrow>
     int (card A + length N) < r_AllowedPodNumber alloc \<and>
     (asks_nothing (sched_request g pod) \<or>
      (\<forall>k \<in> counted ignored (sched_request g pod).
         amount (sched_request g pod) k + (\<Sum>p \<in> A. amount (sched_request g p) k) + requested_sum g N k \<le> amount alloc k))"

text \<open>Pods with keys of their own, and requests that are not negative and whose sums stay in \<open>int64\<close>.\<close>

definition tame :: "sched_gates \<Rightarrow> pod list \<Rightarrow> pod \<Rightarrow> pod set \<Rightarrow> bool" where
  "tame g N pod U \<longleftrightarrow>
     finite U \<and> inj_on GetPodKey U \<and> (\<forall>p \<in> U. GetPodKey p \<noteq> None) \<and>
     (\<forall>p \<in> insert pod (U \<union> set N). \<forall>k. 0 \<le> amount (sched_request g p) k) \<and>
     (\<forall>k. amount (sched_request g pod) k + (\<Sum>p \<in> U. amount (sched_request g p) k) + requested_sum g N k \<le> 9223372036854775807)"

definition fit_holds :: "generic_scheduler \<Rightarrow> sched_gates \<Rightarrow> pod \<Rightarrow> node \<Rightarrow> node_resource \<Rightarrow> pod set \<Rightarrow> node_resource option trial \<Rightarrow> pod set \<Rightarrow> bool" where
  "fit_holds s g pod nd alloc U t A \<longleftrightarrow>
     A \<subseteq> U \<and> tame g (nominated s nd pod) pod U \<and> tr_state t = Some (computePodResourceRequest g pod) \<and>
     ni_node (tr_info t) = Some nd \<and> ni_allocatable (tr_info t) = alloc \<and> accounted g (tr_info t) \<and>
     set (ni_pods (tr_info t)) = A \<and> distinct (ni_pods (tr_info t))"

lemma Fits_sums:
  assumes "accounted g m" "\<And>k. 0 \<le> amount (sched_request g pod) k" "\<And>k. 0 \<le> requested_sum g (ni_pods m) k"
    and "\<And>k. amount (sched_request g pod) k + requested_sum g (ni_pods m) k \<le> 9223372036854775807"
  shows "Fits g pod m ignored = [] \<longleftrightarrow>
    int (length (ni_pods m)) < r_AllowedPodNumber (ni_allocatable m) \<and>
    (asks_nothing (sched_request g pod) \<or>
     (\<forall>k \<in> counted ignored (sched_request g pod).
        amount (sched_request g pod) k + requested_sum g (ni_pods m) k \<le> amount (ni_allocatable m) k))"
proof -
  have r: "amount (ni_requested m) k = requested_sum g (ni_pods m) k" for k
    using assms(1) assms(2-4) [of k] by (simp add: accounted_def in64_def)
  have "has_room m (sched_request g pod) k \<longleftrightarrow> amount (sched_request g pod) k + requested_sum g (ni_pods m) k \<le> amount (ni_allocatable m) k" for k
    using assms(2-4) [of k] by (simp add: has_room_def r in64_def)
  then show ?thesis
    unfolding Fits_def computePodResourceRequest_eq fitsRequest_Nil [OF sched_request_distinct sched_request_scalars] by simp
qed

lemma with_pods_frame:
  "ni_pods (snd (with_pods g ps gn)) = ni_pods (snd gn) @ ps" "ni_allocatable (snd (with_pods g ps gn)) = ni_allocatable (snd gn)"
  "accounted g (snd gn) \<Longrightarrow> accounted g (snd (with_pods g ps gn))"
proof -
  show "ni_pods (snd (with_pods g ps gn)) = ni_pods (snd gn) @ ps" "ni_allocatable (snd (with_pods g ps gn)) = ni_allocatable (snd gn)"
    by (induction ps arbitrary: gn) (simp_all add: with_pods_def go_frame)
  show "accounted g (snd gn) \<Longrightarrow> accounted g (snd (with_pods g ps gn))"
    unfolding with_pods_def by (intro foldl_inv [where P = "\<lambda>st. accounted g (snd st)"]) (auto simp: AddPod_accounted)
qed

lemma tame_sums:
  assumes "tame g N pod U" "A \<subseteq> U"
  shows "0 \<le> (\<Sum>p \<in> A. amount (sched_request g p) k)" "0 \<le> requested_sum g N k" "0 \<le> amount (sched_request g pod) k"
    "(\<Sum>p \<in> A. amount (sched_request g p) k) \<le> (\<Sum>p \<in> U. amount (sched_request g p) k)"
    "amount (sched_request g pod) k + (\<Sum>p \<in> A. amount (sched_request g p) k) + requested_sum g N k \<le> 9223372036854775807"
proof -
  note t = assms(1) [unfolded tame_def]
  show nonneg: "0 \<le> (\<Sum>p \<in> A. amount (sched_request g p) k)" using t assms(2) by (intro sum_nonneg) auto
  show "0 \<le> requested_sum g N k" unfolding requested_sum_def using t by (intro sum_list_nonneg) auto
  show "0 \<le> amount (sched_request g pod) k" using t by simp
  show le: "(\<Sum>p \<in> A. amount (sched_request g p) k) \<le> (\<Sum>p \<in> U. amount (sched_request g p) k)"
    by (rule sum_mono2) (use t assms(2) in auto)
  have "amount (sched_request g pod) k + (\<Sum>p \<in> U. amount (sched_request g p) k) + requested_sum g N k \<le> 9223372036854775807" using t by blast
  then show "amount (sched_request g pod) k + (\<Sum>p \<in> A. amount (sched_request g p) k) + requested_sum g N k \<le> 9223372036854775807"
    using le by linarith
qed

lemma fits_beside_mono:
  assumes "tame g N pod U" "A \<subseteq> B" "B \<subseteq> U" "fits_beside g ignored alloc N pod B"
  shows "fits_beside g ignored alloc N pod A"
proof -
  have "finite B" using assms(1,3) by (auto simp: tame_def intro: finite_subset)
  then have c: "card A \<le> card B" using assms(2) by (rule card_mono)
  have "(\<Sum>p \<in> A. amount (sched_request g p) k) \<le> (\<Sum>p \<in> B. amount (sched_request g p) k)" for k
    by (rule sum_mono2) (use assms(1-3) \<open>finite B\<close> in \<open>auto simp: tame_def\<close>)
  then show ?thesis using assms(4) c unfolding fits_beside_def by (smt (verit) of_nat_mono add_le_mono1)
qed


lemma fit_extensions:
  "RunPreFilterExtensionAddPod (fit_framework g ignored) pod p n st = (None, st)"
  "RunPreFilterExtensionRemovePod (fit_framework g ignored) pod p n st = (None, st)"
  by (simp_all add: RunPreFilterExtensionAddPod_def RunPreFilterExtensionRemovePod_def fit_framework_def fit_pre_filter_plugin_def)

lemma fit_add_nominated:
  "add_nominated g (fit_framework g ignored) pod ps added st gn =
     (Inr (added \<or> filter (not_overtaken pod) ps \<noteq> [], st, snd (with_pods g (filter (not_overtaken pod) ps) gn)),
      fst (with_pods g (filter (not_overtaken pod) ps) gn))"
proof (induction ps arbitrary: added gn)
  case (Cons p ps)
  obtain gen n where gn: "gn = (gen, n)" by force
  obtain gen1 n1 where a: "ni_AddPod g p (gen, n) = (gen1, n1)" by force
  have step: "add_nominated g (fit_framework g ignored) pod (p # ps) added st (gen, n) =
      (if not_overtaken pod p then add_nominated g (fit_framework g ignored) pod ps True st (gen1, n1)
       else add_nominated g (fit_framework g ignored) pod ps added st (gen, n))"
    by (simp add: a fit_extensions AsError_def IsSuccess_def Code_def not_overtaken_def)
  show ?case unfolding gn step Cons.IH by (simp add: with_pods_def a)
next
  case Nil
  show ?case by (cases gn) (simp add: with_pods_def)
qed

lemma fit_run:
  "(case run_and_merge (fit_framework g ignored) (Some (computePodResourceRequest g pod)) pod n of Inl _ \<Rightarrow> False | Inr status \<Rightarrow> IsSuccess status) \<longleftrightarrow>
     Fits g pod n ignored = []"
  using fit_framework_merge [of g pod n ignored] fit_framework_unfit [of g pod n ignored]
  by (cases "Fits g pod n ignored = []") (auto simp: IsSuccess_def Code_def)

lemma fit_trial:
  assumes "tr_state t = Some (computePodResourceRequest g pod)" "ni_node (tr_info t) = Some nd"
  shows "fst (trial_fits s g (fit_framework g ignored) pod t) \<longleftrightarrow>
    Fits g pod (snd (with_pods g (nominated s nd pod) (tr_generation t, tr_info t))) ignored = [] \<and> Fits g pod (tr_info t) ignored = []"
proof -
  let ?prof = "fit_framework g ignored" and ?st = "Some (computePodResourceRequest g pod)" and ?gn = "(tr_generation t, tr_info t)"
  have add: "addNominatedPods s g ?prof pod ?st ?gn =
      (Inr (nominated s nd pod \<noteq> [], ?st, snd (with_pods g (nominated s nd pod) ?gn)), fst (with_pods g (nominated s nd pod) ?gn))"
    using assms(2) by (auto simp: addNominatedPods_def fit_add_nominated nominated_def with_pods_def Let_def)
  have "nominated s nd pod = [] \<Longrightarrow> snd (with_pods g (nominated s nd pod) ?gn) = tr_info t" by (simp add: with_pods_def)
  then show ?thesis
    using fit_run [of g ignored pod "tr_info t"] fit_run [of g ignored pod "snd (with_pods g (nominated s nd pod) ?gn)"]
    by (auto simp: trial_fits_def podPassesFiltersOnNode_def assms(1) add split: sum.splits prod.splits if_splits)
qed

lemma fit_holds_fits:
  assumes "fit_holds s g pod nd alloc U t A"
  shows "fst (trial_fits s g (fit_framework g ignored) pod t) \<longleftrightarrow> fits_beside g ignored alloc (nominated s nd pod) pod A"
proof -
  let ?N = "nominated s nd pod" and ?n = "tr_info t" and ?m = "snd (with_pods g (nominated s nd pod) (tr_generation t, tr_info t))"
  note h = assms [unfolded fit_holds_def]
  have t: "tame g ?N pod U" and A: "A \<subseteq> U" using h by blast+
  have sum: "requested_sum g (ni_pods ?n) k = (\<Sum>p \<in> A. amount (sched_request g p) k)" for k
    using h by (auto simp: requested_sum_def sum_list_distinct_conv_sum_set)
  have card: "length (ni_pods ?n) = card A" using h by (auto simp: distinct_card)
  have m: "ni_pods ?m = ni_pods ?n @ ?N" "ni_allocatable ?m = alloc" "accounted g ?m" using h by (simp_all add: with_pods_frame)
  have summ: "requested_sum g (ni_pods ?n @ ?N) k = (\<Sum>p \<in> A. amount (sched_request g p) k) + requested_sum g ?N k" for k
    by (simp add: sum [symmetric]) (simp add: requested_sum_def)
  note ts = tame_sums [OF t A]
  have one: "Fits g pod ?m ignored = [] \<longleftrightarrow> fits_beside g ignored alloc ?N pod A"
    by (subst Fits_sums [OF m(3)]) (use ts in \<open>simp_all add: summ m(1,2) card fits_beside_def add.assoc add_nonneg_nonneg\<close>)
  have "fits_beside g ignored alloc ?N pod A \<Longrightarrow> Fits g pod ?n ignored = []"
  proof -
    assume f: "fits_beside g ignored alloc ?N pod A"
    have acc: "accounted g ?n" "ni_allocatable ?n = alloc" using h by blast+
    have up: "amount (sched_request g pod) k + requested_sum g (ni_pods ?n) k \<le> 9223372036854775807" for k
      using ts(2,5) [of k] by (simp add: sum)
    have le: "amount (sched_request g pod) k + requested_sum g (ni_pods ?n) k \<le>
        amount (sched_request g pod) k + (\<Sum>p \<in> A. amount (sched_request g p) k) + requested_sum g ?N k" for k
      using ts(2) [of k] by (simp add: sum)
    show "Fits g pod ?n ignored = []"
      using f order_trans [OF le] by (subst Fits_sums [OF acc(1) ts(3) _ up]) (use ts(1) in \<open>auto simp: acc(2) sum card fits_beside_def\<close>)
  qed
  moreover have "ni_node ?n = Some nd" "tr_state t = Some (computePodResourceRequest g pod)" using h by blast+
  ultimately show ?thesis using fit_trial [of t g pod nd s ignored] one by blast
qed


lemma fit_holds_add:
  assumes "fit_holds s g pod nd alloc U t A" "p \<in> U" "p \<notin> A"
  shows "\<not> tr_failed (trial_add g (fit_framework g ignored) pod p t) \<and>
    fit_holds s g pod nd alloc U (trial_add g (fit_framework g ignored) pod p t) (insert p A)"
proof -
  obtain gen n where a: "ni_AddPod g p (tr_generation t, tr_info t) = (gen, n)" by force
  note h = assms(1) [unfolded fit_holds_def]
  have n: "ni_node n = ni_node (tr_info t)" "ni_allocatable n = ni_allocatable (tr_info t)" "ni_pods n = ni_pods (tr_info t) @ [p]"
    using a by (auto simp: ni_AddPod_def Let_def split: prod.splits)
  have "accounted g n" using AddPod_accounted [of g "tr_info t" p "tr_generation t"] h a by simp
  moreover have "trial_add g (fit_framework g ignored) pod p t = t\<lparr>tr_generation := gen, tr_info := n, tr_failed := False\<rparr>"
    by (simp add: trial_add_def a fit_extensions IsSuccess_def Code_def)
  ultimately show ?thesis using h assms(2,3) n by (simp add: fit_holds_def)
qed

lemma RemovePod_at:
  assumes "GetPodKey p = Some k" "key_index k (ni_pods n) = Some i"
  shows "\<exists>gen' n'. ni_RemovePod g p (gen, n) = Inr (None, gen', n') \<and> ni_pods n' = swap_delete (ni_pods n) i \<and>
    ni_node n' = ni_node n \<and> ni_allocatable n' = ni_allocatable n"
proof -
  define n1 where "n1 = (case key_index k (ni_podsWithAffinity n) of None \<Rightarrow> n
    | Some j \<Rightarrow> n\<lparr>ni_podsWithAffinity := swap_delete (ni_podsWithAffinity n) j\<rparr>)"
  have n1: "ni_pods n1 = ni_pods n" "ni_node n1 = ni_node n" "ni_allocatable n1 = ni_allocatable n"
    by (simp_all add: n1_def split: option.split)
  obtain res cpu mem where c: "calculateResource g p = (res, cpu, mem)" by (cases "calculateResource g p")
  show ?thesis using assms by (simp add: ni_RemovePod_def n1_def [symmetric] n1 c Let_def)
qed

lemma fit_holds_remove:
  assumes "fit_holds s g pod nd alloc U t A" "p \<in> A"
  shows "\<exists>t1. trial_remove g (fit_framework g ignored) pod p t = Inr t1 \<and> \<not> tr_failed t1 \<and> fit_holds s g pod nd alloc U t1 (A - {p})"
proof -
  let ?n = "tr_info t"
  note h = assms(1) [unfolded fit_holds_def]
  have U: "inj_on GetPodKey U" "\<forall>p \<in> U. GetPodKey p \<noteq> None" and A: "A \<subseteq> U" "set (ni_pods ?n) = A" using h by (auto simp: tame_def)
  obtain k where k: "GetPodKey p = Some k" using U(2) A assms(2) by blast
  then obtain i where i: "key_index k (ni_pods ?n) = Some i"
    using A(2) assms(2) key_index_None [of k "ni_pods ?n"] by (cases "key_index k (ni_pods ?n)") auto
  have p: "ni_pods ?n ! i = p" "i < length (ni_pods ?n)"
  proof -
    show len: "i < length (ni_pods ?n)" using key_index_Some [OF i] by blast
    show "ni_pods ?n ! i = p"
      by (rule inj_onD [OF U(1)]) (use key_index_Some [OF i] k A assms(2) nth_mem [OF len] in auto)
  qed
  obtain gen n where r: "ni_RemovePod g p (tr_generation t, ?n) = Inr (None, gen, n)"
    "ni_pods n = swap_delete (ni_pods ?n) i" "ni_node n = ni_node ?n" "ni_allocatable n = ni_allocatable ?n"
    using RemovePod_at [OF k i, of g "tr_generation t"] by blast
  have same: "calculateResource g q = calculateResource g p" if "q \<in> set (ni_pods ?n)" "GetPodKey q = GetPodKey p" for q
    using that U(1) A assms(2) by (auto dest: inj_onD)
  have "accounted g n" by (rule RemovePod_accounted [OF _ r(1) same]) (use h in blast)
  moreover have "set (ni_pods n) = A - {p} \<and> distinct (ni_pods n)"
    using swap_delete_keys(1,2) [where f = id, OF _ p(2)] h A(2) p(1) by (simp add: r(2))
  moreover have "trial_remove g (fit_framework g ignored) pod p t = Inr (t\<lparr>tr_generation := gen, tr_info := n, tr_failed := False\<rparr>)"
    by (simp add: trial_remove_def r(1) fit_extensions IsSuccess_def Code_def)
  ultimately show ?thesis using h r(3,4) by (auto simp: fit_holds_def)
qed

interpretation fit_victims:
  preemption_contract s g "fit_framework g ignored" pod "fit_holds s g pod nd alloc U" U "fits_beside g ignored alloc (nominated s nd pod) pod"
  for s g ignored pod nd alloc U
proof unfold_locales
  fix t A assume h: "fit_holds s g pod nd alloc U t A"
  show "A \<subseteq> U" using h by (simp add: fit_holds_def)
  have "fit_holds s g pod nd alloc U (snd (trial_fits s g (fit_framework g ignored) pod t)) A"
    using h by (simp add: fit_holds_def trial_fits_def split: prod.split)
  then show "fst (trial_fits s g (fit_framework g ignored) pod t) = fits_beside g ignored alloc (nominated s nd pod) pod A \<and>
      fit_holds s g pod nd alloc U (snd (trial_fits s g (fit_framework g ignored) pod t)) A"
    using fit_holds_fits [OF h] by simp
  show "\<not> tr_failed (trial_add g (fit_framework g ignored) pod p t) \<and>
      fit_holds s g pod nd alloc U (trial_add g (fit_framework g ignored) pod p t) (insert p A)" if "p \<in> U" "p \<notin> A" for p
    by (rule fit_holds_add [OF h that])
  show "\<exists>t1. trial_remove g (fit_framework g ignored) pod p t = Inr t1 \<and> \<not> tr_failed t1 \<and> fit_holds s g pod nd alloc U t1 (A - {p})"
    if "p \<in> A" for p by (rule fit_holds_remove [OF h that])
next
  fix t C A B assume "fit_holds s g pod nd alloc U t C" "A \<subseteq> B" "B \<subseteq> U" "fits_beside g ignored alloc (nominated s nd pod) pod B"
  then show "fits_beside g ignored alloc (nominated s nd pod) pod A"
    using fits_beside_mono by (auto simp: fit_holds_def)
qed (simp add: fit_holds_def)

text \<open>
  C21: With \<open>NodeResourcesFit\<close> as the filter, preemption on a node asks for exactly the pods that must go.  It finds no
  victims only if the pod would not fit even without all pods of lower priority; otherwise the victims have lower
  priority, the pod fits on the node without them, beside the pods nominated to it, and with any one of them put
  back it would not fit.  The pods of the node have keys of their own, and the requests are not negative with
  sums in \<open>int64\<close>.
\<close>

theorem victims_are_enough_and_needed:
  assumes "ni_node n = Some nd" "accounted g n" "distinct (ni_pods n)" "tame g (nominated s nd pod) pod (set (ni_pods n))"
    and "\<And>r xs. mset (srt r xs) = mset xs"
  shows "\<exists>res gen'. selectVictimsOnNode srt now s g (fit_framework g ignored) (Some (computePodResourceRequest g pod)) pod pdbs (gen, n) =
      Inr (res, gen') \<and>
    (case res of
       None \<Rightarrow> \<not> fits_beside g ignored (ni_allocatable n) (nominated s nd pod) pod (set (ni_pods n) - set (lower_pods pod n))
     | Some r \<Rightarrow> enough_and_needed (fits_beside g ignored (ni_allocatable n) (nominated s nd pod) pod) (set (ni_pods n)) (lower_pods pod n) r)"
  by (rule fit_victims.select_victims [where U = "set (ni_pods n)" and alloc = "ni_allocatable n", OF _ assms(3,5)]) (use assms(1-4) in \<open>simp add: fit_holds_def new_trial_def\<close>)

text \<open>A node of 100 Mbit/s with pods of 80 and of 10: for one of 30 the first must go and the second stays.\<close>

definition preemptor :: pod where
  "preemptor = (sched_pod ''c'' 30)\<lparr>p_Priority := 10\<rparr>"

definition full_worker :: "int \<times> node_info" where
  "full_worker = foldl (\<lambda>gn p. ni_AddPod slo_gates p gn) (slo_worker 100) [sched_pod ''a'' 80, sched_pod ''b'' 10]"

lemma slo_amount: "in64 x \<Longrightarrow> amount (sched_request g (sched_pod u x)) k = (if k = ResourceSLO then x else 0)"
  by (simp add: sched_request_def amount_def emptyResource_def scalar_def)

lemma preemptor_amount: "sched_request g preemptor = sched_request g (sched_pod ''c'' 30)"
  by (simp add: preemptor_def sched_request_def calculateResource_def sched_pod_def empty_pod_def empty_container_def Let_def)

lemma full_node: "ni_node (snd (ni_AddPod g p gn)) = ni_node (snd gn)"
  by (cases gn) (simp add: ni_AddPod_def Let_def split: prod.split)

lemma full_worker_frame:
  "ni_pods (snd full_worker) = [sched_pod ''a'' 80, sched_pod ''b'' 10]" "ni_node (snd full_worker) = Some (slo_node 100)"
  "ni_allocatable (snd full_worker) = emptyResource\<lparr>r_AllowedPodNumber := 110, r_ScalarResources := [(ResourceSLO, 100)]\<rparr>"
  "accounted slo_gates (snd full_worker)"
proof -
  have "accounted slo_gates (snd (slo_worker 100))"
    using SetNode_accounted [OF NewNodeInfo_accounted] by (metis slo_worker_def prod.collapse)
  then show "accounted slo_gates (snd full_worker)" unfolding full_worker_def with_pods_def [symmetric] by (rule with_pods_frame(3))
qed (simp_all add: full_worker_def with_pods_def [symmetric] with_pods_frame(1,2) in64_def, simp add: with_pods_def full_node)

lemma preemptor_fits:
  assumes "A \<subseteq> {sched_pod ''a'' 80, sched_pod ''b'' 10}"
  shows "fits_beside slo_gates [] (ni_allocatable (snd full_worker)) [] preemptor A \<longleftrightarrow> sched_pod ''a'' 80 \<notin> A"
proof -
  have ne: "sched_pod ''a'' 80 \<noteq> sched_pod ''b'' 10" by (simp add: sched_pod_def empty_pod_def)
  have r: "r_ScalarResources (sched_request slo_gates preemptor) = [(ResourceSLO, 30)]"
    unfolding preemptor_amount by (simp add: sched_request_def in64_def)
  have am: "amount (ni_allocatable (snd full_worker)) k = (if k = ResourceSLO then 100 else 0)" for k
    by (simp add: full_worker_frame(3) amount_def emptyResource_def scalar_def)
  have slo: "ResourceSLO \<in> counted [] (sched_request slo_gates preemptor)" by (simp add: counted_def r)
  have ask: "\<not> asks_nothing (sched_request slo_gates preemptor)" by (simp add: asks_nothing_def r)
  define w where "w = (\<Sum>p \<in> A. amount (sched_request slo_gates p) ResourceSLO)"
  have zero: "(\<Sum>p \<in> A. amount (sched_request slo_gates p) k) = 0" if "k \<noteq> ResourceSLO" for k
    using assms that by (intro sum.neutral) (auto simp: slo_amount in64_def)
  have allowed: "r_AllowedPodNumber (ni_allocatable (snd full_worker)) = 110" by (simp add: full_worker_frame(3) emptyResource_def)
  have room: "(\<forall>k \<in> counted [] (sched_request slo_gates preemptor).
      amount (sched_request slo_gates preemptor) k + (\<Sum>p \<in> A. amount (sched_request slo_gates p) k) + requested_sum slo_gates [] k
        \<le> amount (ni_allocatable (snd full_worker)) k) \<longleftrightarrow> 30 + w \<le> 100" (is "?all \<longleftrightarrow> _")
  proof
    assume ?all
    from bspec [OF this slo] show "30 + w \<le> 100" unfolding preemptor_amount w_def by (simp add: slo_amount in64_def am requested_sum_def)
  next
    assume "30 + w \<le> 100"
    then show ?all unfolding w_def preemptor_amount by (auto simp: slo_amount in64_def am requested_sum_def zero)
  qed
  consider "A = {}" | "A = {sched_pod ''a'' 80}" | "A = {sched_pod ''b'' 10}" | "A = {sched_pod ''a'' 80, sched_pod ''b'' 10}"
    using assms by blast
  then have "int (card A) < 110 \<and> (30 + w \<le> 100 \<longleftrightarrow> sched_pod ''a'' 80 \<notin> A)"
    by cases (use ne in \<open>simp_all add: w_def slo_amount in64_def\<close>)
  then show ?thesis unfolding fits_beside_def room allowed using ask by simp
qed

theorem victims_are_enough_and_needed_witness:
  "\<exists>k gen'. selectVictimsOnNode (\<lambda>_ xs. xs) 0 one_scheduler slo_gates (fit_framework slo_gates [])
      (Some (computePodResourceRequest slo_gates preemptor)) preemptor [] full_worker =
    Inr (Some ([sched_pod ''a'' 80], k), gen')"
proof -
  let ?a = "sched_pod ''a'' 80" and ?b = "sched_pod ''b'' 10" and ?s = one_scheduler and ?n = "snd full_worker"
  have ne: "?a \<noteq> ?b" by (simp add: sched_pod_def empty_pod_def)
  have nom: "nominated ?s (slo_node 100) preemptor = []"
    by (simp add: nominated_def one_scheduler_def NominatedPodsForNode_def sq_NominatedPodsForNode_def pods_at_def NewPriorityQueue_def newNominatedPodMap_def)
  have prio: "p_Priority preemptor = 10" "p_Priority ?a = 0" "p_Priority ?b = 0" by (simp_all add: preemptor_def sched_pod_def empty_pod_def)
  have tame: "tame slo_gates (nominated ?s (slo_node 100) preemptor) preemptor (set (ni_pods ?n))"
    unfolding nom using ne by (auto simp: tame_def full_worker_frame(1) preemptor_amount slo_amount in64_def requested_sum_def)
  have dist: "distinct (ni_pods ?n)" using ne by (simp add: full_worker_frame(1))
  have low: "lower_pods preemptor ?n = [?a, ?b]" by (simp add: lower_pods_def full_worker_frame(1) prio)
  obtain res gen' where r: "selectVictimsOnNode (\<lambda>_ xs. xs) 0 ?s slo_gates (fit_framework slo_gates [])
      (Some (computePodResourceRequest slo_gates preemptor)) preemptor [] (fst full_worker, ?n) = Inr (res, gen')"
    and c: "case res of
       None \<Rightarrow> \<not> fits_beside slo_gates [] (ni_allocatable ?n) (nominated ?s (slo_node 100) preemptor) preemptor (set (ni_pods ?n) - set (lower_pods preemptor ?n))
     | Some r \<Rightarrow> enough_and_needed (fits_beside slo_gates [] (ni_allocatable ?n) (nominated ?s (slo_node 100) preemptor) preemptor)
         (set (ni_pods ?n)) (lower_pods preemptor ?n) r"
    using victims_are_enough_and_needed [OF full_worker_frame(2,4) dist tame, of "\<lambda>_ xs. xs" 0 "[]" "[]" "fst full_worker"] by blast
  have lows: "set (ni_pods ?n) = {?a, ?b}" "set (lower_pods preemptor ?n) = {?a, ?b}" by (simp_all add: low full_worker_frame(1))
  have "res \<noteq> None"
  proof
    assume "res = None"
    then have "\<not> fits_beside slo_gates [] (ni_allocatable ?n) [] preemptor {}" using c unfolding nom lows by simp
    then show False using preemptor_fits [of "{}"] by simp
  qed
  then obtain vs k where vk: "res = Some (vs, k)" by auto
  have e: "distinct vs" "set vs \<subseteq> {?a, ?b}" "?a \<in> set vs" "\<forall>v \<in> set vs. \<not> fits_beside slo_gates [] (ni_allocatable ?n) [] preemptor (insert v ({?a, ?b} - set vs))"
  proof -
    have c1: "enough_and_needed (fits_beside slo_gates [] (ni_allocatable ?n) [] preemptor) {?a, ?b} (lower_pods preemptor ?n) (vs, k)"
      using c unfolding nom lows(1) vk by simp
    then show "distinct vs" "set vs \<subseteq> {?a, ?b}" "\<forall>v \<in> set vs. \<not> fits_beside slo_gates [] (ni_allocatable ?n) [] preemptor (insert v ({?a, ?b} - set vs))"
      unfolding enough_and_needed_def lows(2) by blast+
    have "fits_beside slo_gates [] (ni_allocatable ?n) [] preemptor ({?a, ?b} - set vs)" using c1 unfolding enough_and_needed_def by blast
    then show "?a \<in> set vs" using preemptor_fits [of "{?a, ?b} - set vs"] by blast
  qed
  have "?b \<notin> set vs"
  proof
    assume b: "?b \<in> set vs"
    then have "\<not> fits_beside slo_gates [] (ni_allocatable ?n) [] preemptor (insert ?b ({?a, ?b} - set vs))" using e(4) by blast
    then show False using preemptor_fits [of "insert ?b ({?a, ?b} - set vs)"] e(3) ne by auto
  qed
  then have "set vs = {?a}" using e(2,3) by blast
  then have "vs = [?a]" using e(1) by (cases vs) (auto simp: subset_singleton_iff)
  then show ?thesis using r vk by auto
qed

end
