(* ===== verification/PreemptionChoice.thy ===== *)
theory PreemptionChoice
  imports Preemption "HOL-Library.Product_Lexorder"
begin

section \<open>The node whose preemption does least harm\<close>

text \<open>
  The five criteria of \<open>pickOneNodeForPreemption\<close> are one lexicographic comparison: the harm of a set of victims is
  the number of violated disruption budgets, the priority of the most important victim, the sum of the priorities, the
  number of victims and, last, how long ago the most important victims started.
\<close>

definition harm :: "int \<Rightarrow> victims \<Rightarrow> int \<times> int \<times> int \<times> int \<times> int" where
  "harm now v =
     (vi_NumPDBViolations v, p_Priority (hd (vi_Pods v)), sum_priorities (vi_Pods v), int (length (vi_Pods v)),
      - the (GetEarliestPodStartTime now v))"

subsection \<open>One criterion\<close>

lemma foldl_min: "foldl min (a :: int) xs \<le> a \<and> (\<forall>x \<in> set xs. foldl min a xs \<le> x) \<and> foldl min a xs \<in> insert a (set xs)"
proof (induction xs arbitrary: a)
  case (Cons x xs)
  note IH = Cons.IH [of "min a x"]
  moreover have "min a x \<le> a" "min a x \<le> x" "min a x \<in> {a, x}" by auto
  ultimately show ?case by (simp only: foldl_Cons list.set) force
qed simp

lemma keep_min_foldl:
  fixes f :: "'a \<Rightarrow> int"
  shows "foldl (\<lambda>(least, kept) x.
      let (least1, kept1) = (if f x < least then (f x, []) else (least, kept)) in
      (least1, if f x = least1 then kept1 @ [x] else kept1)) (start, []) xs =
   (foldl min start (map f xs), filter (\<lambda>x. f x = foldl min start (map f xs)) xs)"
proof (induction xs rule: rev_induct)
  case (snoc x xs)
  let ?l = "foldl min start (map f xs)"
  have "?l \<le> f y" if "y \<in> set xs" for y using foldl_min [of start "map f xs"] that by simp
  then have "f x < ?l \<Longrightarrow> filter (\<lambda>y. f y = f x) xs = []" by (force simp: filter_empty_conv)
  then show ?case using snoc.IH by (cases "f x < ?l") (simp_all add: min.absorb1 min.absorb2 not_less less_imp_le)
qed simp

lemma keep_min_eq: "keep_min start f xs = filter (\<lambda>x. f x = foldl min start (map f xs)) xs"
  unfolding keep_min_def keep_min_foldl by simp

definition least_by :: "('a \<Rightarrow> int) \<Rightarrow> 'a set \<Rightarrow> 'a set" where
  "least_by f A = {x \<in> A. \<forall>y \<in> A. f x \<le> f y}"

lemma keep_min:
  assumes "xs \<noteq> []" "\<forall>x \<in> set xs. f x \<le> start"
  shows "keep_min start f xs \<noteq> []" "set (keep_min start f xs) = least_by f (set xs)"
proof -
  let ?l = "foldl min start (map f xs)"
  have l: "\<forall>x \<in> set xs. ?l \<le> f x" "?l \<in> insert start (f ` set xs)" "?l \<le> start" using foldl_min [of start "map f xs"] by auto
  have "?l \<in> f ` set xs"
  proof (cases "?l = start")
    case True
    obtain x where "x \<in> set xs" using assms(1) by (cases xs) auto
    then show ?thesis using True l(1) assms(2) by (metis image_eqI order_antisym)
  qed (use l(2) in auto)
  then show "keep_min start f xs \<noteq> []" by (auto simp: keep_min_eq filter_empty_conv)
  show "set (keep_min start f xs) = least_by f (set xs)"
    using l(1) \<open>?l \<in> f ` set xs\<close> by (force simp: keep_min_eq least_by_def)
qed


lemma keep_min_single: "f e \<le> start \<Longrightarrow> keep_min start f [e] = [e]"
  by (simp add: keep_min_eq min_def)

subsection \<open>The last criterion\<close>

lemma GetEarliest_Some: "vi_Pods v \<noteq> [] \<Longrightarrow> \<exists>t. GetEarliestPodStartTime now v = Some t"
  by (cases "vi_Pods v") (simp_all add: GetEarliestPodStartTime_def)

lemma latest_start_spec:
  assumes "\<forall>e \<in> set ((nd, v) # rest). vi_Pods (snd e) \<noteq> []" "GetEarliestPodStartTime now v = Some t"
  shows "\<exists>e \<in> set ((nd, v) # rest). fst e = latest_start now nd t rest \<and>
    (\<forall>e' \<in> set ((nd, v) # rest). the (GetEarliestPodStartTime now (snd e')) \<le> the (GetEarliestPodStartTime now (snd e)))"
  using assms
proof (induction rest arbitrary: nd v t)
  case (Cons e rest)
  obtain nd1 v1 where e: "e = (nd1, v1)" by force
  obtain t1 where t1: "GetEarliestPodStartTime now v1 = Some t1" using GetEarliest_Some Cons.prems(1) by (force simp: e)
  show ?case
  proof (cases "t < t1")
    case True
    obtain x where "x \<in> set ((nd1, v1) # rest)" "fst x = latest_start now nd1 t1 rest"
      "\<forall>e' \<in> set ((nd1, v1) # rest). the (GetEarliestPodStartTime now (snd e')) \<le> the (GetEarliestPodStartTime now (snd x))"
      using Cons.IH [OF _ t1, of nd1] Cons.prems(1) unfolding e by (metis list.set_intros(2))
    then show ?thesis using True t1 Cons.prems(2) by (intro bexI [of _ x]) (auto simp: e intro: order_trans)
  next
    case False
    obtain x where "x \<in> set ((nd, v) # rest)" "fst x = latest_start now nd t rest"
      "\<forall>e' \<in> set ((nd, v) # rest). the (GetEarliestPodStartTime now (snd e')) \<le> the (GetEarliestPodStartTime now (snd x))"
      using Cons.IH [OF _ Cons.prems(2), of nd] Cons.prems(1) by (metis list.set_intros(1,2) set_ConsD)
    then show ?thesis using False t1 Cons.prems(2) by (intro bexI [of _ x]) (auto simp: e intro: order_trans)
  qed
qed simp

subsection \<open>All criteria\<close>

definition comparable :: "node_victims \<Rightarrow> bool" where
  "comparable m \<longleftrightarrow>
     (\<forall>e \<in> set m. vi_Pods (snd e) \<noteq> [] \<and> vi_NumPDBViolations (snd e) \<le> MaxInt32 \<and>
        (\<forall>p \<in> set (vi_Pods (snd e)). p_Priority p \<le> MaxInt32) \<and> int (length (vi_Pods (snd e))) \<le> MaxInt32)"

lemma sum_priorities_le: "sum_priorities ps \<le> MaxInt64"
proof (cases ps rule: rev_cases)
  case (snoc qs q)
  then show ?thesis using in64_wrap64 by (simp add: sum_priorities_def MaxInt64_def in64_def)
qed (simp add: sum_priorities_def MaxInt64_def)

lemma four_criteria:
  assumes "comparable m" "m \<noteq> []"
  defines "m1 \<equiv> keep_min MaxInt32 (\<lambda>e. vi_NumPDBViolations (snd e)) m"
  defines "m2 \<equiv> keep_min MaxInt32 highest_priority m1"
  defines "m3 \<equiv> keep_min MaxInt64 (\<lambda>e. sum_priorities (vi_Pods (snd e))) m2"
  defines "m4 \<equiv> keep_min MaxInt32 (\<lambda>e. int (length (vi_Pods (snd e)))) m3"
  shows "m1 \<noteq> []" "m2 \<noteq> []" "m3 \<noteq> []" "m4 \<noteq> []"
    and "set m1 = least_by (\<lambda>e. vi_NumPDBViolations (snd e)) (set m)" "set m2 = least_by highest_priority (set m1)"
    and "set m3 = least_by (\<lambda>e. sum_priorities (vi_Pods (snd e))) (set m2)" "set m4 = least_by (\<lambda>e. int (length (vi_Pods (snd e)))) (set m3)"
    and "m1 = [e] \<Longrightarrow> m2 = [e]" "m2 = [e] \<Longrightarrow> m3 = [e]" "m3 = [e] \<Longrightarrow> m4 = [e]"
proof -
  have c: "\<forall>e \<in> set m. vi_NumPDBViolations (snd e) \<le> MaxInt32" "\<forall>e \<in> set m. highest_priority e \<le> MaxInt32"
    "\<forall>e \<in> set m. int (length (vi_Pods (snd e))) \<le> MaxInt32"
    using assms(1) by (auto simp: comparable_def highest_priority_def)
  note s1 = keep_min [OF assms(2) c(1)]
  have sub1: "set m1 \<subseteq> set m" unfolding m1_def s1(2) by (auto simp: least_by_def)
  have c2: "\<forall>e \<in> set m1. highest_priority e \<le> MaxInt32" using c(2) sub1 by blast
  note s2 = keep_min [OF s1(1) [folded m1_def] c2]
  have sub2: "set m2 \<subseteq> set m1" unfolding m2_def s2(2) by (auto simp: least_by_def)
  have c3: "\<forall>e \<in> set m2. sum_priorities (vi_Pods (snd e)) \<le> MaxInt64" using sum_priorities_le by blast
  note s3 = keep_min [OF s2(1) [folded m2_def] c3]
  have sub3: "set m3 \<subseteq> set m2" unfolding m3_def s3(2) by (auto simp: least_by_def)
  have c4: "\<forall>e \<in> set m3. int (length (vi_Pods (snd e))) \<le> MaxInt32" using c(3) sub1 sub2 sub3 by blast
  note s4 = keep_min [OF s3(1) [folded m3_def] c4]
  show "m1 \<noteq> []" "m2 \<noteq> []" "m3 \<noteq> []" "m4 \<noteq> []"
    by (rule s1(1) [folded m1_def] s2(1) [folded m2_def] s3(1) [folded m3_def] s4(1) [folded m4_def])+
  show "set m1 = least_by (\<lambda>e. vi_NumPDBViolations (snd e)) (set m)" "set m2 = least_by highest_priority (set m1)"
    "set m3 = least_by (\<lambda>e. sum_priorities (vi_Pods (snd e))) (set m2)" "set m4 = least_by (\<lambda>e. int (length (vi_Pods (snd e)))) (set m3)"
    by (rule s1(2) [folded m1_def] s2(2) [folded m2_def] s3(2) [folded m3_def] s4(2) [folded m4_def])+
  show "m1 = [e] \<Longrightarrow> m2 = [e]" unfolding m2_def using c2 by (auto intro: keep_min_single)
  show "m2 = [e] \<Longrightarrow> m3 = [e]" unfolding m3_def using sum_priorities_le by (auto intro: keep_min_single)
  show "m3 = [e] \<Longrightarrow> m4 = [e]" unfolding m4_def using c4 by (auto intro: keep_min_single)
qed


lemma least_by_tie: "e \<in> least_by f A \<Longrightarrow> e' \<in> A \<Longrightarrow> f e = f e' \<Longrightarrow> e' \<in> least_by f A"
  by (simp add: least_by_def)

lemma lexI: "a \<le> a' \<Longrightarrow> (a = a' \<Longrightarrow> r \<le> r') \<Longrightarrow> (a, r) \<le> (a', r')"
  for a a' :: "'a::linorder" and r r' :: "'b::linorder"
  by (cases "a = a'") (auto simp: less_le)

lemma pick_last:
  assumes "\<forall>e \<in> set m. vi_Pods (snd e) \<noteq> []" "m \<noteq> []"
  shows "\<exists>e \<in> set m. pick_latest now m = Inr (Some (fst e)) \<and>
    (\<forall>e' \<in> set m. the (GetEarliestPodStartTime now (snd e')) \<le> the (GetEarliestPodStartTime now (snd e)))"
proof (cases m)
  case (Cons e rest)
  obtain nd v where e: "e = (nd, v)" by force
  obtain t where t: "GetEarliestPodStartTime now v = Some t" using GetEarliest_Some assms(1) Cons e by force
  obtain x where "x \<in> set m" "fst x = latest_start now nd t rest"
    "\<forall>e' \<in> set m. the (GetEarliestPodStartTime now (snd e')) \<le> the (GetEarliestPodStartTime now (snd x))"
    using latest_start_spec [OF _ t, of nd rest] assms(1) unfolding Cons e by blast
  then show ?thesis using t by (intro bexI [of _ x]) (simp_all add: pick_latest_def Cons e)
qed (use assms(2) in simp)

lemma single_or: "(\<And>e. m = [e] \<Longrightarrow> next m = Inr (Some (fst e))) \<Longrightarrow> single_or m next = next m"
  by (auto simp: single_or_def split: list.split)

lemma pick_latest_single: "pick_latest now [e] = Inr (Some (fst e))"
  by (simp add: pick_latest_def split: option.split)

lemma harm_le:
  assumes "vi_NumPDBViolations v \<le> vi_NumPDBViolations v'"
    and "vi_NumPDBViolations v = vi_NumPDBViolations v' \<Longrightarrow> p_Priority (hd (vi_Pods v)) \<le> p_Priority (hd (vi_Pods v'))"
    and "vi_NumPDBViolations v = vi_NumPDBViolations v' \<Longrightarrow> p_Priority (hd (vi_Pods v)) = p_Priority (hd (vi_Pods v')) \<Longrightarrow>
      sum_priorities (vi_Pods v) \<le> sum_priorities (vi_Pods v')"
    and "vi_NumPDBViolations v = vi_NumPDBViolations v' \<Longrightarrow> p_Priority (hd (vi_Pods v)) = p_Priority (hd (vi_Pods v')) \<Longrightarrow>
      sum_priorities (vi_Pods v) = sum_priorities (vi_Pods v') \<Longrightarrow> length (vi_Pods v) \<le> length (vi_Pods v')"
    and "vi_NumPDBViolations v = vi_NumPDBViolations v' \<Longrightarrow> p_Priority (hd (vi_Pods v)) = p_Priority (hd (vi_Pods v')) \<Longrightarrow>
      sum_priorities (vi_Pods v) = sum_priorities (vi_Pods v') \<Longrightarrow> length (vi_Pods v) = length (vi_Pods v') \<Longrightarrow>
      the (GetEarliestPodStartTime now v') \<le> the (GetEarliestPodStartTime now v)"
  shows "harm now v \<le> harm now v'"
  unfolding harm_def by (intro lexI) (use assms in simp_all)

text \<open>What is picked is picked among the nodes that the first four criteria leave.\<close>

lemma pick_is_latest:
  assumes "comparable m" "m \<noteq> []"
    and "m1 = keep_min MaxInt32 (\<lambda>e. vi_NumPDBViolations (snd e)) m" "m2 = keep_min MaxInt32 highest_priority m1"
    and "m3 = keep_min MaxInt64 (\<lambda>e. sum_priorities (vi_Pods (snd e))) m2"
    and "m4 = keep_min MaxInt32 (\<lambda>e. int (length (vi_Pods (snd e)))) m3"
  shows "pickOneNodeForPreemption now m = pick_latest now m4"
proof -
  note four = four_criteria [OF assms(1,2), folded assms(3), folded assms(4), folded assms(5), folded assms(6)]
  have "\<forall>e \<in> set m. vi_Pods (snd e) \<noteq> []" using assms(1) by (auto simp: comparable_def)
  then have find: "List.find (\<lambda>e. vi_Pods (snd e) = []) m = None" by (auto simp: find_None_iff)
  define n3 where "n3 = (\<lambda>m3. single_or (keep_min MaxInt32 (\<lambda>e. int (length (vi_Pods (snd e)))) m3) (pick_latest now))"
  define n2 where "n2 = (\<lambda>m2. single_or (keep_min MaxInt64 (\<lambda>e. sum_priorities (vi_Pods (snd e))) m2) n3)"
  define n1 where "n1 = (\<lambda>m1. single_or (keep_min MaxInt32 highest_priority m1) n2)"
  have s4: "n3 m3 = pick_latest now m4" unfolding n3_def assms(6) [symmetric] by (rule single_or) (simp add: pick_latest_single)
  have s3: "n2 m2 = pick_latest now m4" unfolding n2_def assms(5) [symmetric] s4 [symmetric]
    by (rule single_or) (use s4 four(11) pick_latest_single in simp)
  have s2: "n1 m1 = pick_latest now m4" unfolding n1_def assms(4) [symmetric] s3 [symmetric]
    by (rule single_or) (use s3 four(10,11) pick_latest_single in simp)
  have s1: "single_or m1 n1 = pick_latest now m4" unfolding s2 [symmetric]
    by (rule single_or) (use s2 four(9-11) pick_latest_single in simp)
  show ?thesis
    unfolding s1 [symmetric] n1_def n2_def n3_def assms(3) by (simp add: pickOneNodeForPreemption_def find assms(2))
qed

text \<open>
  C24: When every candidate node has victims, and their numbers and priorities fit in \<open>int32\<close>, a node is picked, and no
  other candidate's victims come before its victims in the lexicographic order of the harm.
\<close>

theorem preemption_picks_least_harm:
  assumes "comparable m" "m \<noteq> []"
  shows "\<exists>e \<in> set m. pickOneNodeForPreemption now m = Inr (Some (fst e)) \<and> (\<forall>e' \<in> set m. harm now (snd e) \<le> harm now (snd e'))"
proof -
  define m1 where "m1 = keep_min MaxInt32 (\<lambda>e. vi_NumPDBViolations (snd e)) m"
  define m2 where "m2 = keep_min MaxInt32 highest_priority m1"
  define m3 where "m3 = keep_min MaxInt64 (\<lambda>e. sum_priorities (vi_Pods (snd e))) m2"
  define m4 where "m4 = keep_min MaxInt32 (\<lambda>e. int (length (vi_Pods (snd e)))) m3"
  note four = four_criteria [OF assms, folded m1_def, folded m2_def, folded m3_def, folded m4_def]
  have sub: "set m4 \<subseteq> set m3" "set m3 \<subseteq> set m2" "set m2 \<subseteq> set m1" "set m1 \<subseteq> set m"
    unfolding four(5-8) by (auto simp: least_by_def)
  have "\<forall>e \<in> set m. vi_Pods (snd e) \<noteq> []" using assms(1) by (auto simp: comparable_def)
  then have "\<forall>e \<in> set m4. vi_Pods (snd e) \<noteq> []" using sub by blast
  from pick_last [OF this four(4), of now] obtain e where e: "e \<in> set m4" "pick_latest now m4 = Inr (Some (fst e))"
    "\<forall>e' \<in> set m4. the (GetEarliestPodStartTime now (snd e')) \<le> the (GetEarliestPodStartTime now (snd e))"
    by blast
  have ins: "e \<in> set m1" "e \<in> set m2" "e \<in> set m3" using e(1) sub by blast+
  have "harm now (snd e) \<le> harm now (snd e')" if e': "e' \<in> set m" for e'
  proof (rule harm_le)
    have e1: "e' \<in> set m1" if "vi_NumPDBViolations (snd e) = vi_NumPDBViolations (snd e')"
      using least_by_tie ins(1) e' that unfolding four(5) by metis
    have e2: "e' \<in> set m2" if "e' \<in> set m1" "p_Priority (hd (vi_Pods (snd e))) = p_Priority (hd (vi_Pods (snd e')))"
      using least_by_tie ins(2) that unfolding four(6) highest_priority_def by metis
    have e3: "e' \<in> set m3" if "e' \<in> set m2" "sum_priorities (vi_Pods (snd e)) = sum_priorities (vi_Pods (snd e'))"
      using least_by_tie ins(3) that unfolding four(7) by metis
    have e4: "e' \<in> set m4" if "e' \<in> set m3" "int (length (vi_Pods (snd e))) = int (length (vi_Pods (snd e')))"
      using least_by_tie e(1) that unfolding four(8) by metis
    show "vi_NumPDBViolations (snd e) \<le> vi_NumPDBViolations (snd e')" using ins(1) e' unfolding four(5) least_by_def by blast
    assume t1: "vi_NumPDBViolations (snd e) = vi_NumPDBViolations (snd e')"
    show "p_Priority (hd (vi_Pods (snd e))) \<le> p_Priority (hd (vi_Pods (snd e')))"
      using ins(2) e1 [OF t1] unfolding four(6) least_by_def highest_priority_def by blast
    assume t2: "p_Priority (hd (vi_Pods (snd e))) = p_Priority (hd (vi_Pods (snd e')))"
    show "sum_priorities (vi_Pods (snd e)) \<le> sum_priorities (vi_Pods (snd e'))"
      using ins(3) e2 [OF e1 [OF t1] t2] unfolding four(7) least_by_def by blast
    assume t3: "sum_priorities (vi_Pods (snd e)) = sum_priorities (vi_Pods (snd e'))"
    have in3: "e' \<in> set m3" by (rule e3 [OF e2 [OF e1 [OF t1] t2] t3])
    then have "int (length (vi_Pods (snd e))) \<le> int (length (vi_Pods (snd e')))"
      using e(1) unfolding four(8) least_by_def by blast
    then show "length (vi_Pods (snd e)) \<le> length (vi_Pods (snd e'))" by simp
    assume "length (vi_Pods (snd e)) = length (vi_Pods (snd e'))"
    then have "e' \<in> set m4" using e4 [OF in3] by simp
    then show "the (GetEarliestPodStartTime now (snd e')) \<le> the (GetEarliestPodStartTime now (snd e))" using e(3) by blast
  qed
  moreover have "e \<in> set m" using e(1) sub by blast
  ultimately show ?thesis using e(2) pick_is_latest [OF assms m1_def m2_def m3_def m4_def] by (intro bexI [of _ e]) simp_all
qed


text \<open>Two victims of priority 5 and 1 do more harm than one of priority 5.\<close>

definition victim :: "int \<Rightarrow> pod" where
  "victim prio = empty_pod\<lparr>p_Priority := prio, p_StartTime := Some 0\<rparr>"

definition two_candidates :: node_victims where
  "two_candidates =
     [(slo_node 1, \<lparr>vi_Pods = [victim 5, victim 1], vi_NumPDBViolations = 0\<rparr>),
      (slo_node 2, \<lparr>vi_Pods = [victim 5], vi_NumPDBViolations = 0\<rparr>)]"

theorem preemption_picks_least_harm_witness:
  "pickOneNodeForPreemption 10 two_candidates = Inr (Some (slo_node 2))"
proof -
  have "comparable two_candidates" "two_candidates \<noteq> []"
    by (simp_all add: comparable_def two_candidates_def victim_def MaxInt32_def)
  from preemption_picks_least_harm [OF this, of 10] obtain e where e: "e \<in> set two_candidates"
    "pickOneNodeForPreemption 10 two_candidates = Inr (Some (fst e))" "\<forall>e' \<in> set two_candidates. harm 10 (snd e) \<le> harm 10 (snd e')"
    by blast
  moreover have "\<not> harm 10 \<lparr>vi_Pods = [victim 5, victim 1], vi_NumPDBViolations = 0\<rparr> \<le> harm 10 \<lparr>vi_Pods = [victim 5], vi_NumPDBViolations = 0\<rparr>"
    by (simp add: harm_def sum_priorities_def victim_def MaxInt32_def wrap64_def)
  ultimately show ?thesis by (auto simp: two_candidates_def)
qed

end
