(* ===== verification/SchedBinding.thy ===== *)
theory SchedBinding
  imports SchedFramework
begin

section \<open>The extension points of binding\<close>

text \<open>
  The other half of the framework of \<open>pkg/scheduler/framework/v1alpha1\<close>: the points Reserve, Permit, PreBind, Bind,
  PostBind and Unreserve, and the pods that wait on permit (\<open>waiting_pods_map.go\<close>).  The plugins of a point are a
  list of names and methods over \<open>'x\<close>, the cycle state with whatever plugins and API server keep.  A channel of
  capacity one is an option; sending to a full one is dropped, as the select with a default does.
\<close>

subsection \<open>Plugins\<close>

type_synonym 'x status_method = "pod \<Rightarrow> string \<Rightarrow> 'x \<Rightarrow> status option \<times> 'x"
type_synonym 'x notify_method = "pod \<Rightarrow> string \<Rightarrow> 'x \<Rightarrow> 'x"
type_synonym 'x permit_method = "pod \<Rightarrow> string \<Rightarrow> 'x \<Rightarrow> (status option \<times> int) \<times> 'x"

record 'x binding_plugins =
  bf_reservePlugins :: "(string \<times> 'x status_method) list"
  bf_permitPlugins :: "(string \<times> 'x permit_method) list"
  bf_preBindPlugins :: "(string \<times> 'x status_method) list"
  bf_bindPlugins :: "(string \<times> 'x status_method) list"
  bf_postBindPlugins :: "(string \<times> 'x notify_method) list"
  bf_unreservePlugins :: "(string \<times> 'x notify_method) list"

text \<open>The loop of Reserve and of PreBind, which differ in the name of the point.\<close>

fun run_point :: "string \<Rightarrow> (string \<times> 'x status_method) list \<Rightarrow> 'x status_method" where
  "run_point point [] pod node x = (None, x)"
| "run_point point ((name, m) # pls) pod node x =
     (case m pod node x of
        (st, x1) \<Rightarrow>
          if IsSuccess st then run_point point pls pod node x1
          else (Some (NewStatus StatusError [''error while running '' @ quoted name @ '' '' @ point @ '' plugin for pod '' @
                  quoted (p_Name pod) @ '': '' @ Message st]), x1))"

definition RunReservePlugins :: "'x binding_plugins \<Rightarrow> 'x status_method" where
  "RunReservePlugins b = run_point ''reserve'' (bf_reservePlugins b)"

definition RunPreBindPlugins :: "'x binding_plugins \<Rightarrow> 'x status_method" where
  "RunPreBindPlugins b = run_point ''prebind'' (bf_preBindPlugins b)"

text \<open>The first plugin that does not skip the pod decides; \<open>prev\<close> is the status of the one before.\<close>

fun run_bind :: "(string \<times> 'x status_method) list \<Rightarrow> status option \<Rightarrow> 'x status_method" where
  "run_bind [] prev pod node x = (prev, x)"
| "run_bind ((name, m) # pls) prev pod node x =
     (case m pod node x of
        (st, x1) \<Rightarrow>
          if Code st = Skip then run_bind pls st pod node x1
          else if \<not> IsSuccess st then
            (Some (NewStatus StatusError [''plugin '' @ quoted name @ '' failed to bind pod '' @
                quoted (p_Namespace pod @ ''/'' @ p_Name pod) @ '': '' @ Message st]), x1)
          else (st, x1))"

definition RunBindPlugins :: "'x binding_plugins \<Rightarrow> 'x status_method" where
  "RunBindPlugins b pod node x =
     (if bf_bindPlugins b = [] then (Some (NewStatus Skip [[]]), x) else run_bind (bf_bindPlugins b) None pod node x)"

definition run_notified :: "(string \<times> 'x notify_method) list \<Rightarrow> 'x notify_method" where
  "run_notified pls pod node x = foldl (\<lambda>x (_, m). m pod node x) x pls"

definition RunPostBindPlugins :: "'x binding_plugins \<Rightarrow> 'x notify_method" where
  "RunPostBindPlugins b = run_notified (bf_postBindPlugins b)"

definition RunUnreservePlugins :: "'x binding_plugins \<Rightarrow> 'x notify_method" where
  "RunUnreservePlugins b = run_notified (bf_unreservePlugins b)"

subsection \<open>Waiting pods\<close>

text \<open>A pending plugin has its time to wait and whether its timer still runs.\<close>

record waiting_pod =
  wp_pod :: pod
  wp_pendingPlugins :: "(string \<times> int \<times> bool) list"
  wp_s :: "status option"

definition newWaitingPod :: "pod \<Rightarrow> (string \<times> int) list \<Rightarrow> waiting_pod" where
  "newWaitingPod pod waits = \<lparr>wp_pod = pod, wp_pendingPlugins = map (\<lambda>(p, t). (p, t, True)) waits, wp_s = None\<rparr>"

definition GetPendingPlugins :: "waiting_pod \<Rightarrow> string list" where
  "GetPendingPlugins w = map fst (wp_pendingPlugins w)"

definition send_status :: "status \<Rightarrow> waiting_pod \<Rightarrow> waiting_pod" where
  "send_status st w = (case wp_s w of None \<Rightarrow> w\<lparr>wp_s := Some st\<rparr> | Some _ \<Rightarrow> w)"

definition wp_Allow :: "string \<Rightarrow> waiting_pod \<Rightarrow> waiting_pod" where
  "wp_Allow plugin w =
     (let w1 = w\<lparr>wp_pendingPlugins := AList.delete plugin (wp_pendingPlugins w)\<rparr> in
      if wp_pendingPlugins w1 \<noteq> [] then w1 else send_status (NewStatus Success [[]]) w1)"

definition wp_Reject :: "string \<Rightarrow> waiting_pod \<Rightarrow> waiting_pod" where
  "wp_Reject msg w =
     send_status (NewStatus Unschedulable [msg]) (w\<lparr>wp_pendingPlugins := map (\<lambda>(p, t, _). (p, t, False)) (wp_pendingPlugins w)\<rparr>)"

text \<open>The timer of a plugin fires; \<open>text\<close> prints its duration.\<close>

definition wp_timeout :: "(int \<Rightarrow> string) \<Rightarrow> string \<Rightarrow> waiting_pod \<Rightarrow> waiting_pod" where
  "wp_timeout text plugin w =
     (case map_of (wp_pendingPlugins w) plugin of
        Some (t, True) \<Rightarrow> wp_Reject (''rejected due to timeout after waiting '' @ text t @ '' at plugin '' @ plugin) w
      | _ \<Rightarrow> w)"

subsection \<open>Permit\<close>

definition maxTimeout :: int where "maxTimeout = 900000000000"

text \<open>The plugins that ask to wait with their waits, or the status that rejects the pod.\<close>

fun run_permit :: "(string \<times> 'x permit_method) list \<Rightarrow> pod \<Rightarrow> string \<Rightarrow> (string \<times> int) list \<Rightarrow> 'x \<Rightarrow> (status + (string \<times> int) list) \<times> 'x" where
  "run_permit [] pod node waits x = (Inr waits, x)"
| "run_permit ((name, m) # pls) pod node waits x =
     (case m pod node x of
        ((st, timeout), x1) \<Rightarrow>
          if IsSuccess st then run_permit pls pod node waits x1
          else if IsUnschedulable st then
            (Inl (NewStatus (Code st) [''rejected pod '' @ quoted (p_Name pod) @ '' by permit plugin '' @ quoted name @ '': '' @ Message st]), x1)
          else if Code st = Wait then run_permit pls pod node (AList.update name (min timeout maxTimeout) waits) x1
          else (Inl (NewStatus StatusError [''error while running '' @ quoted name @ '' permit plugin for pod '' @
                  quoted (p_Name pod) @ '': '' @ Message st]), x1))"

text \<open>The status, and the pod to add to the waiting pods.\<close>

definition RunPermitPlugins :: "'x binding_plugins \<Rightarrow> pod \<Rightarrow> string \<Rightarrow> 'x \<Rightarrow> (status option \<times> waiting_pod option) \<times> 'x" where
  "RunPermitPlugins b pod node x =
     (case run_permit (bf_permitPlugins b) pod node [] x of
        (Inl st, x1) \<Rightarrow> ((Some st, None), x1)
      | (Inr waits, x1) \<Rightarrow>
          if waits = [] then ((None, None), x1)
          else ((Some (NewStatus Wait [''one or more plugins asked to wait and no plugin rejected pod '' @ quoted (p_Name pod)]),
                 Some (newWaitingPod pod waits)), x1))"

text \<open>The status that the signal of a waiting pod gives.\<close>

definition permit_signal :: "pod \<Rightarrow> status \<Rightarrow> status option" where
  "permit_signal pod s =
     (if IsSuccess (Some s) then None
      else if IsUnschedulable (Some s) then
        Some (NewStatus (ss_code s) [''pod '' @ quoted (p_Name pod) @ '' rejected while waiting on permit: '' @ Message (Some s)])
      else Some (NewStatus StatusError [''error received while waiting on permit for pod '' @ quoted (p_Name pod) @ '': '' @ Message (Some s)]))"

subsection \<open>What they promise\<close>

text \<open>A waiting pod gets one signal: whatever allows and rejects it later does not change the first.\<close>

lemma first_signal_stays:
  "wp_s w = Some st \<Longrightarrow> wp_s (wp_Allow plugin w) = Some st \<and> wp_s (wp_Reject msg w) = Some st \<and> wp_s (wp_timeout text plugin w) = Some st"
  by (auto simp: wp_Allow_def wp_Reject_def wp_timeout_def send_status_def Let_def split: option.split bool.split)

text \<open>It is let through only when every plugin that asked to wait has allowed it.\<close>

lemma allowed_by_all:
  assumes "wp_s w = None" "wp_s (wp_Allow plugin w) \<noteq> None"
  shows "set (GetPendingPlugins w) \<subseteq> {plugin}"
  using assms by (auto simp: wp_Allow_def GetPendingPlugins_def Let_def AList.delete_eq filter_empty_conv split: if_splits)

text \<open>No plugin makes a pod wait longer than the limit.\<close>

lemma run_permit_waits:
  assumes "run_permit pls pod node waits x = (Inr ts, x1)" "\<forall>(p, t) \<in> set waits. t \<le> maxTimeout"
  shows "\<forall>(p, t) \<in> set ts. t \<le> maxTimeout"
  using assms
proof (induction pls arbitrary: waits x)
  case (Cons a pls)
  obtain name m where a: "a = (name, m)" by force
  obtain st timeout x2 where m: "m pod node x = ((st, timeout), x2)" by (metis prod.collapse)
  have "set (AList.update name (min timeout maxTimeout) waits) \<subseteq> insert (name, min timeout maxTimeout) (set waits)"
    by (induction waits) auto
  then have "\<forall>(p, t) \<in> set (AList.update name (min timeout maxTimeout) waits). t \<le> maxTimeout" using Cons.prems(2) by fastforce
  then show ?case using Cons.IH [of waits x2] Cons.IH [of "AList.update name (min timeout maxTimeout) waits" x2] Cons.prems
    by (auto simp: a m split: if_splits)
qed auto

lemma permit_waits_bounded:
  assumes "RunPermitPlugins b pod node x = ((st, Some w), x1)"
  shows "Code st = Wait \<and> wp_pod w = pod \<and> wp_s w = None \<and> (\<forall>(p, t, running) \<in> set (wp_pendingPlugins w). t \<le> maxTimeout \<and> running)"
proof -
  obtain waits where t: "run_permit (bf_permitPlugins b) pod node [] x = (Inr waits, x1)" "w = newWaitingPod pod waits" "Code st = Wait"
    using assms by (auto simp: RunPermitPlugins_def Code_def NewStatus_def split: prod.splits sum.splits if_splits)
  show ?thesis using run_permit_waits [OF t(1)] t(2,3) by (auto simp: newWaitingPod_def)
qed

end
