(* ===== verification/SchedulerLoop.thy ===== *)
theory SchedulerLoop
  imports SchedBinding Preemption
begin

section \<open>The scheduler\<close>

text \<open>
  \<open>Scheduler\<close> of \<open>pkg/scheduler/scheduler.go\<close> with the handlers of \<open>eventhandlers.go\<close> and the error function of
  \<open>factory.go\<close>: what composes the queue, the cache and the algorithm.  \<open>scheduleOne\<close> runs in one goroutine, every
  binding in one of its own, retries in others, and informers call the handlers; a step is what one of them does
  between two accesses of what they share, so that a run is any interleaving of steps.  Three steps are
  coarser: one call of the algorithm, which reads the nominated pods of the queue as they are when it starts;
  \<open>assume_pod\<close>, which takes the lock of the cache and then that of the queue; and \<open>preempt\<close>, which takes the lock of the
  queue, calls the server and rejects waiting pods.  So runs in which another goroutine acts between those are not covered.  API server, volume binder and
  extenders are functions on a state \<open>'w\<close>, in which plugins keep their state too.  Events and metrics are left out.
\<close>

subsection \<open>State\<close>

record api_error =
  ae_NotFound :: bool
  ae_Kind :: string
  ae_Name :: string

datatype sched_error = AlgorithmError schedule_error | ApiError api_error | CacheError cache_error | PlainError string

record ('st, 'w) profile =
  pro_framework :: "'st sched_framework"
  pro_binding :: "('st \<times> 'w) binding_plugins"

record ('st, 'w) sched_env =
  en_gates :: sched_gates
  en_Profiles :: "string \<Rightarrow> ('st, 'w) profile option"
  en_NewCycleState :: 'st
  en_DisablePreemption :: bool
  en_AssumePodVolumes :: "pod \<Rightarrow> string \<Rightarrow> 'w \<Rightarrow> (string + bool \<times> pod) \<times> 'w"
  en_BindPodVolumes :: "pod \<Rightarrow> 'w \<Rightarrow> string option \<times> 'w"
  en_DeletePodBindings :: "pod \<Rightarrow> 'w \<Rightarrow> 'w"
  en_getPod :: "string \<Rightarrow> string \<Rightarrow> 'w \<Rightarrow> api_error + pod"
  en_nodeGone :: "string \<Rightarrow> 'w \<Rightarrow> bool"
  en_deletePod :: "pod \<Rightarrow> 'w \<Rightarrow> string option \<times> 'w"
  en_updateNominatedNodeName :: "pod \<Rightarrow> string \<Rightarrow> 'w \<Rightarrow> string option \<times> 'w"
  en_updateCondition :: "pod \<Rightarrow> string \<Rightarrow> sched_error \<Rightarrow> 'w \<Rightarrow> 'w"
  en_extenderBind :: "nat \<Rightarrow> pod \<Rightarrow> string \<Rightarrow> 'w \<Rightarrow> sched_error option \<times> 'w"

text \<open>What the closures of a scheduling cycle hold, and a failure with the place of the call of Unreserve.\<close>

record 'st attempt =
  at_info :: pod_info
  at_profile :: string
  at_host :: string
  at_state :: 'st
  at_allBound :: bool

datatype unreserve_call = NoUnreserve | UnreserveFirst | UnreserveLast

record failure =
  fa_error :: sched_error
  fa_reason :: string
  fa_unreserve :: unreserve_call

text \<open>Where \<open>scheduleOne\<close> is, and where the goroutine of a binding is.\<close>

datatype 'st sched_cycle =
  Idle
| Fetched pod_info
| Choosing pod_info
| Preempting "'st attempt" schedule_error
| Reserving "'st attempt"
| Assuming "'st attempt"
| Permitting "'st attempt"
| Rejecting "'st attempt" failure
| Recording "'st attempt" failure

datatype bind_stage =
  WaitingOnPermit | BindingVolumes | PreBinding | Binding | Finishing "sched_error option" | Forgetting failure | BindRecording failure

text \<open>What a handler of an event has still to do after it has changed the cache, or taken a pod from the queue.\<close>

datatype follow_up = MoveAll | MoveForNode node node | AssignedAdded pod | AssignedUpdated pod | ReleasePod pod

record ('st, 'w) scheduler =
  sd_Algorithm :: generic_scheduler
  sd_waitingPods :: "((string \<times> string) \<times> waiting_pod) list"
  sd_world :: 'w
  sd_cycle :: "'st sched_cycle"
  sd_bindings :: "('st attempt \<times> bind_stage) list"
  sd_retries :: "(pod_info \<times> int) list"
  sd_followUps :: "follow_up list"

definition at_pod :: "'st attempt \<Rightarrow> pod" where
  "at_pod a = pi_Pod (at_info a)"

definition SchedulerErrorReason :: string where "SchedulerErrorReason = ''SchedulerError''"
definition PodReasonUnschedulable :: string where "PodReasonUnschedulable = ''Unschedulable''"

definition cache_of :: "('st, 'w) scheduler \<Rightarrow> sched_cache" where
  "cache_of s = gs_cache (sd_Algorithm s)"

definition set_cache :: "sched_cache \<Rightarrow> ('st, 'w) scheduler \<Rightarrow> ('st, 'w) scheduler" where
  "set_cache c s = s\<lparr>sd_Algorithm := (sd_Algorithm s)\<lparr>gs_cache := c\<rparr>\<rparr>"

definition set_queue :: "sched_queue \<Rightarrow> ('st, 'w) scheduler \<Rightarrow> ('st, 'w) scheduler" where
  "set_queue q s = s\<lparr>sd_Algorithm := (sd_Algorithm s)\<lparr>gs_schedulingQueue := Some q\<rparr>\<rparr>"

text \<open>An operation of the queue, whose pointer must not be nil, and one of the cache, whose error is only logged.\<close>

definition on_queue :: "(sched_queue \<Rightarrow> go_panic + sched_queue) \<Rightarrow> ('st, 'w) scheduler \<Rightarrow> go_panic + ('st, 'w) scheduler" where
  "on_queue f s =
     (case gs_schedulingQueue (sd_Algorithm s) of
        None \<Rightarrow> Inl NilDereference
      | Some q \<Rightarrow> (case f q of Inl x \<Rightarrow> Inl x | Inr q1 \<Rightarrow> Inr (set_queue q1 s)))"

definition on_cache_logged :: "(sched_cache \<Rightarrow> cache_result) \<Rightarrow> ('st, 'w) scheduler \<Rightarrow> go_panic + ('st, 'w) scheduler" where
  "on_cache_logged f s = (case f (cache_of s) of Inl x \<Rightarrow> Inl x | Inr (_, c) \<Rightarrow> Inr (set_cache c s))"

definition and_then :: "go_panic + 'a \<Rightarrow> ('a \<Rightarrow> go_panic + 'b) \<Rightarrow> go_panic + 'b" where
  "and_then m f = (case m of Inl x \<Rightarrow> Inl x | Inr y \<Rightarrow> f y)"

subsection \<open>The next pod\<close>

text \<open>A step that is not possible is \<open>None\<close>: an empty queue blocks.\<close>

definition NextPod :: "('st, 'w) scheduler \<Rightarrow> (go_panic + ('st, 'w) scheduler) option" where
  "NextPod s =
     (case gs_schedulingQueue (sd_Algorithm s) of
        None \<Rightarrow> Some (Inl NilDereference)
      | Some q \<Rightarrow>
          (case sq_Pop q of
             Inl x \<Rightarrow> Some (Inl x)
           | Inr (PopBlocks, _) \<Rightarrow> None
           | Inr (Popped i, q1) \<Rightarrow> Some (Inr ((set_queue q1 s)\<lparr>sd_cycle := Fetched i\<rparr>))
           | Inr (_, q1) \<Rightarrow> Some (Inr (set_queue q1 s))))"

text \<open>
  Node name, annotations, resource version and managed fields are left out of the comparison, the status is not: once
  the condition of a failed pod is written, the pod of the server differs from the one that was assumed.
  (The code writes the condition into the pod object the cache holds too, but the times in it differ from those the
  server stores by fractions of a second.)
\<close>

definition stripped :: "pod \<Rightarrow> pod" where
  "stripped p = p\<lparr>p_NodeName := [], p_Annotations := []\<rparr>"

definition skipPodUpdate :: "sched_cache \<Rightarrow> pod \<Rightarrow> bool" where
  "skipPodUpdate c pod =
     (case IsAssumedPod pod c of
        Inl _ \<Rightarrow> False
      | Inr isAssumed \<Rightarrow>
          isAssumed \<and>
          (case cache_GetPod pod c of Inl _ \<Rightarrow> False | Inr assumedPod \<Rightarrow> stripped assumedPod = stripped pod))"

definition skipPodSchedule :: "sched_cache \<Rightarrow> pod \<Rightarrow> bool" where
  "skipPodSchedule c pod \<longleftrightarrow> p_Deleting pod \<or> skipPodUpdate c pod"

definition start_cycle :: "('st, 'w) sched_env \<Rightarrow> pod_info \<Rightarrow> ('st, 'w) scheduler \<Rightarrow> ('st, 'w) scheduler" where
  "start_cycle env i s =
     s\<lparr>sd_cycle := (if en_Profiles env (p_SchedulerName (pi_Pod i)) = None \<or> skipPodSchedule (cache_of s) (pi_Pod i) then Idle else Choosing i)\<rparr>"

subsection \<open>Failures\<close>

definition bare_node :: "string \<Rightarrow> node" where
  "bare_node name = \<lparr>n_Name = name, n_Labels = [], n_Allocatable = [], n_Unschedulable = False, n_Taints = [], n_Conditions = [], n_Images = []\<rparr>"

text \<open>The error function: a node that is gone leaves the cache, and a goroutine starts that retries the pod.\<close>

definition default_error_func ::
    "('st, 'w) sched_env \<Rightarrow> pod_info \<Rightarrow> sched_error \<Rightarrow> ('st, 'w) scheduler \<Rightarrow> go_panic + ('st, 'w) scheduler" where
  "default_error_func env i err s =
     (let s1 = (case err of
                  ApiError e \<Rightarrow>
                    if ae_NotFound e \<and> ae_Kind e = ''node'' \<and> en_nodeGone env (ae_Name e) (sd_world s)
                    then set_cache (snd (RemoveNode (bare_node (ae_Name e)) (cache_of s))) s else s
                | _ \<Rightarrow> s)
      in case gs_schedulingQueue (sd_Algorithm s1) of
           None \<Rightarrow> Inl NilDereference
         | Some q \<Rightarrow> Inr (s1\<lparr>sd_retries := sd_retries s1 @ [(i, sq_schedulingCycle q)]\<rparr>))"

definition recordSchedulingFailure ::
    "('st, 'w) sched_env \<Rightarrow> pod_info \<Rightarrow> sched_error \<Rightarrow> string \<Rightarrow> ('st, 'w) scheduler \<Rightarrow> go_panic + ('st, 'w) scheduler" where
  "recordSchedulingFailure env i err reason s =
     (case default_error_func env i err s of
        Inl x \<Rightarrow> Inl x
      | Inr s1 \<Rightarrow> Inr (s1\<lparr>sd_world := en_updateCondition env (pi_Pod i) reason err (sd_world s1)\<rparr>))"

definition unreserve :: "('st, 'w) sched_env \<Rightarrow> 'st attempt \<Rightarrow> ('st, 'w) scheduler \<Rightarrow> ('st, 'w) scheduler" where
  "unreserve env a s =
     (case en_Profiles env (at_profile a) of
        None \<Rightarrow> s
      | Some prof \<Rightarrow> s\<lparr>sd_world := snd (RunUnreservePlugins (pro_binding prof) (at_pod a) (at_host a) (at_state a, sd_world s))\<rparr>)"

definition record_failure :: "('st, 'w) sched_env \<Rightarrow> 'st attempt \<Rightarrow> failure \<Rightarrow> ('st, 'w) scheduler \<Rightarrow> go_panic + ('st, 'w) scheduler" where
  "record_failure env a f s =
     (case recordSchedulingFailure env (at_info a) (fa_error f) (fa_reason f)
             (if fa_unreserve f = UnreserveFirst then unreserve env a s else s) of
        Inl x \<Rightarrow> Inl x
      | Inr s1 \<Rightarrow> Inr (if fa_unreserve f = UnreserveLast then unreserve env a s1 else s1))"

definition forget :: "('st, 'w) sched_env \<Rightarrow> 'st attempt \<Rightarrow> ('st, 'w) scheduler \<Rightarrow> go_panic + ('st, 'w) scheduler" where
  "forget env a = on_cache_logged (ForgetPod (en_gates env) (at_pod a))"

text \<open>The pod is fetched again, until the server knows whether it exists; an assigned one is left alone.\<close>

definition retry :: "('st, 'w) sched_env \<Rightarrow> nat \<Rightarrow> int \<Rightarrow> ('st, 'w) scheduler \<Rightarrow> (go_panic + ('st, 'w) scheduler) option" where
  "retry env n now s =
     (if length (sd_retries s) \<le> n then None
      else
        (case sd_retries s ! n of
           (i, podSchedulingCycle) \<Rightarrow>
             let s1 = s\<lparr>sd_retries := take n (sd_retries s) @ drop (Suc n) (sd_retries s)\<rparr> in
             (case en_getPod env (p_Namespace (pi_Pod i)) (p_Name (pi_Pod i)) (sd_world s) of
                Inl e \<Rightarrow> if ae_NotFound e then Some (Inr s1) else None
              | Inr pod \<Rightarrow>
                  if p_NodeName pod \<noteq> [] then Some (Inr s1)
                  else Some (on_queue (\<lambda>q. Inr (snd (sq_AddUnschedulableIfNotPresent now (i\<lparr>pi_Pod := pod\<rparr>) podSchedulingCycle q))) s1))))"

subsection \<open>The scheduling cycle\<close>

definition new_attempt :: "('st, 'w) sched_env \<Rightarrow> pod_info \<Rightarrow> string \<Rightarrow> 'st \<Rightarrow> 'st attempt" where
  "new_attempt env i host st =
     \<lparr>at_info = i, at_profile = p_SchedulerName (pi_Pod i), at_host = host, at_state = st, at_allBound = False\<rparr>"

definition choose_host ::
    "('st, 'w) sched_env \<Rightarrow> nat list \<Rightarrow> (nat \<Rightarrow> int \<Rightarrow> int) \<Rightarrow> pod_info \<Rightarrow> ('st, 'w) scheduler \<Rightarrow> (go_panic + ('st, 'w) scheduler) option" where
  "choose_host env order rnd i s =
     (case en_Profiles env (p_SchedulerName (pi_Pod i)) of
        None \<Rightarrow> Some (Inl NilDereference)
      | Some prof \<Rightarrow>
          (case Schedule order rnd (en_gates env) (pro_framework prof) (en_NewCycleState env) (pi_Pod i) (sd_Algorithm s) of
             None \<Rightarrow> None
           | Some (Inl x) \<Rightarrow> Some (Inl x)
           | Some (Inr (Inr res, st, alg)) \<Rightarrow>
               Some (Inr (s\<lparr>sd_Algorithm := alg, sd_cycle := Reserving (new_attempt env i (sr_SuggestedHost res) st)\<rparr>))
           | Some (Inr (Inl err, st, alg)) \<Rightarrow>
               let a = new_attempt env i [] st;
                   f = \<lparr>fa_error = AlgorithmError err, fa_reason = PodReasonUnschedulable, fa_unreserve = NoUnreserve\<rparr>
               in Some (Inr (s\<lparr>sd_Algorithm := alg, sd_cycle :=
                    (case err of FitError _ \<Rightarrow> if en_DisablePreemption env then Recording a f else Preempting a err | _ \<Rightarrow> Recording a f)\<rparr>))))"

definition reserve_host :: "('st, 'w) sched_env \<Rightarrow> 'st attempt \<Rightarrow> ('st, 'w) scheduler \<Rightarrow> go_panic + ('st, 'w) scheduler" where
  "reserve_host env a s =
     (case en_Profiles env (at_profile a) of
        None \<Rightarrow> Inl NilDereference
      | Some prof \<Rightarrow>
          (case en_AssumePodVolumes env (at_pod a) (at_host a) (sd_world s) of
             (Inl e, w1) \<Rightarrow>
               Inr (s\<lparr>sd_world := w1, sd_cycle := Recording a \<lparr>fa_error = PlainError e, fa_reason = SchedulerErrorReason, fa_unreserve = NoUnreserve\<rparr>\<rparr>)
           | (Inr (allBound, pod), w1) \<Rightarrow>
               (case RunReservePlugins (pro_binding prof) pod (at_host a) (at_state a, w1) of
                  (status, st, w2) \<Rightarrow>
                    let a1 = a\<lparr>at_info := (at_info a)\<lparr>pi_Pod := pod\<rparr>, at_state := st, at_allBound := allBound\<rparr> in
                    Inr (s\<lparr>sd_world := w2, sd_cycle :=
                      (if IsSuccess status then Assuming a1
                       else Recording a1 \<lparr>fa_error = PlainError (Message status), fa_reason = SchedulerErrorReason, fa_unreserve = NoUnreserve\<rparr>)\<rparr>))))"

text \<open>\<open>assume\<close>: the pod gets its node and is counted there, and is nominated no more.\<close>

definition on_host :: "'st attempt \<Rightarrow> 'st attempt" where
  "on_host a = a\<lparr>at_info := (at_info a)\<lparr>pi_Pod := (at_pod a)\<lparr>p_NodeName := at_host a\<rparr>\<rparr>\<rparr>"

definition assume_pod :: "('st, 'w) sched_env \<Rightarrow> 'st attempt \<Rightarrow> ('st, 'w) scheduler \<Rightarrow> go_panic + ('st, 'w) scheduler" where
  "assume_pod env a s =
     (let a1 = on_host a in
      case AssumePod (en_gates env) (at_pod a1) (cache_of s) of
        Inl x \<Rightarrow> Inl x
      | Inr (Some e, c) \<Rightarrow>
          Inr ((set_cache c s)\<lparr>sd_cycle :=
            Recording a1 \<lparr>fa_error = CacheError e, fa_reason = SchedulerErrorReason, fa_unreserve = UnreserveLast\<rparr>\<rparr>)
      | Inr (None, c) \<Rightarrow>
          let s1 = (set_cache c s)\<lparr>sd_cycle := Permitting a1\<rparr> in
          Inr (case gs_schedulingQueue (sd_Algorithm s1) of
                 None \<Rightarrow> s1
               | Some q \<Rightarrow> set_queue (sq_DeleteNominatedPodIfExists (at_pod a1) q) s1))"

definition permit_pod :: "('st, 'w) sched_env \<Rightarrow> 'st attempt \<Rightarrow> ('st, 'w) scheduler \<Rightarrow> go_panic + ('st, 'w) scheduler" where
  "permit_pod env a s =
     (case en_Profiles env (at_profile a) of
        None \<Rightarrow> Inl NilDereference
      | Some prof \<Rightarrow>
          (case RunPermitPlugins (pro_binding prof) (at_pod a) (at_host a) (at_state a, sd_world s) of
             ((status, waiting), st, w1) \<Rightarrow>
               let a1 = a\<lparr>at_state := st\<rparr>;
                   s1 = s\<lparr>sd_world := w1, sd_waitingPods :=
                     (case waiting of None \<Rightarrow> sd_waitingPods s
                      | Some w \<Rightarrow> AList.update (at_profile a, p_UID (at_pod a)) w (sd_waitingPods s))\<rparr>
               in Inr (if Code status \<noteq> Wait \<and> \<not> IsSuccess status then
                         s1\<lparr>sd_cycle := Rejecting a1
                           \<lparr>fa_error = PlainError (Message status),
                            fa_reason = (if IsUnschedulable status then PodReasonUnschedulable else SchedulerErrorReason), fa_unreserve = UnreserveFirst\<rparr>\<rparr>
                       else s1\<lparr>sd_cycle := Idle, sd_bindings := sd_bindings s1 @ [(a1, WaitingOnPermit)]\<rparr>)))"

subsection \<open>Preemption\<close>

definition reject_waiting :: "string \<Rightarrow> string \<Rightarrow> string \<Rightarrow> ('st, 'w) scheduler \<Rightarrow> ('st, 'w) scheduler" where
  "reject_waiting prof uid msg s = s\<lparr>sd_waitingPods := AList.map_entry (prof, uid) (wp_Reject msg) (sd_waitingPods s)\<rparr>"

text \<open>Whether a victim could not be deleted, which ends the preemption.\<close>

fun delete_victims :: "('st, 'w) sched_env \<Rightarrow> string \<Rightarrow> pod list \<Rightarrow> ('st, 'w) scheduler \<Rightarrow> bool \<times> ('st, 'w) scheduler" where
  "delete_victims env prof [] s = (False, s)"
| "delete_victims env prof (v # vs) s =
     (case en_deletePod env v (sd_world s) of
        (Some _, w1) \<Rightarrow> (True, s\<lparr>sd_world := w1\<rparr>)
      | (None, w1) \<Rightarrow> delete_victims env prof vs (reject_waiting prof (p_UID v) ''preempted'' (s\<lparr>sd_world := w1\<rparr>)))"

definition removeNominatedNodeName :: "('st, 'w) sched_env \<Rightarrow> pod \<Rightarrow> ('st, 'w) scheduler \<Rightarrow> ('st, 'w) scheduler" where
  "removeNominatedNodeName env p s =
     (if p_NominatedNodeName p = [] then s else s\<lparr>sd_world := snd (en_updateNominatedNodeName env p [] (sd_world s))\<rparr>)"

definition preempt_on :: "('st, 'w) sched_env \<Rightarrow> string \<Rightarrow> pod \<Rightarrow> preempt_result \<Rightarrow> ('st, 'w) scheduler \<Rightarrow> go_panic + ('st, 'w) scheduler" where
  "preempt_on env prof preemptor r s =
     (let clear = (\<lambda>s. foldl (\<lambda>s p. removeNominatedNodeName env p s) s (pr_Cleanup r)) in
      case pr_Node r of
        None \<Rightarrow> Inr (clear s)
      | Some nd \<Rightarrow>
          and_then (on_queue (\<lambda>q. Inr (sq_UpdateNominatedPodForNode preemptor (n_Name nd) q)) s) (\<lambda>s1.
            case en_updateNominatedNodeName env preemptor (n_Name nd) (sd_world s1) of
              (Some _, w1) \<Rightarrow> on_queue (\<lambda>q. Inr (sq_DeleteNominatedPodIfExists preemptor q)) (s1\<lparr>sd_world := w1\<rparr>)
            | (None, w1) \<Rightarrow>
                (case delete_victims env prof (pr_Victims r) (s1\<lparr>sd_world := w1\<rparr>) of
                   (True, s2) \<Rightarrow> Inr s2
                 | (False, s2) \<Rightarrow> Inr (clear s2))))"

definition preempt ::
    "('st, 'w) sched_env \<Rightarrow> (node_info list \<Rightarrow> node_info list) \<Rightarrow> pod_sort \<Rightarrow> int \<Rightarrow> 'st attempt \<Rightarrow> schedule_error \<Rightarrow>
     ('st, 'w) scheduler \<Rightarrow> go_panic + ('st, 'w) scheduler" where
  "preempt env visit srt now a err s =
     (case en_Profiles env (at_profile a) of
        None \<Rightarrow> Inl NilDereference
      | Some prof \<Rightarrow>
          (case en_getPod env (p_Namespace (at_pod a)) (p_Name (at_pod a)) (sd_world s) of
             Inl _ \<Rightarrow> Inr s
           | Inr preemptor \<Rightarrow>
               (case Preempt visit srt now (en_gates env) (pro_framework prof) (at_state a) preemptor err (sd_Algorithm s) of
                  Inl x \<Rightarrow> Inl x
                | Inr (Inl _, alg) \<Rightarrow> Inr (s\<lparr>sd_Algorithm := alg\<rparr>)
                | Inr (Inr r, alg) \<Rightarrow> preempt_on env (at_profile a) preemptor r (s\<lparr>sd_Algorithm := alg\<rparr>))))"

subsection \<open>The binding cycle\<close>

fun binder_of :: "nat \<Rightarrow> extender list \<Rightarrow> pod \<Rightarrow> nat option" where
  "binder_of n [] pod = None"
| "binder_of n (e # es) pod = (if ex_IsBinder e \<and> ex_IsInterested e pod then Some n else binder_of (Suc n) es pod)"

fun code_name :: "status_code \<Rightarrow> string" where
  "code_name Success = ''Success''"
| "code_name StatusError = ''Error''"
| "code_name Unschedulable = ''Unschedulable''"
| "code_name UnschedulableAndUnresolvable = ''UnschedulableAndUnresolvable''"
| "code_name Wait = ''Wait''"
| "code_name Skip = ''Skip''"

text \<open>\<open>bind\<close> up to the deferred \<open>finishBinding\<close>, with \<open>extendersBinding\<close>.\<close>

definition bind_error :: "status option \<Rightarrow> sched_error option" where
  "bind_error status =
     (if IsSuccess status then None
      else if Code status = StatusError then Some (PlainError (Message status))
      else Some (PlainError (''bind status: '' @ code_name (Code status) @ '', '' @ Message status)))"

definition bind_pod :: "('st, 'w) sched_env \<Rightarrow> ('st, 'w) profile \<Rightarrow> 'st attempt \<Rightarrow> ('st, 'w) scheduler \<Rightarrow> sched_error option \<times> 'st \<times> 'w" where
  "bind_pod env prof a s =
     (case binder_of 0 (gs_extenders (sd_Algorithm s)) (at_pod a) of
        Some n \<Rightarrow> (case en_extenderBind env n (at_pod a) (at_host a) (sd_world s) of (err, w1) \<Rightarrow> (err, at_state a, w1))
      | None \<Rightarrow>
          (case RunBindPlugins (pro_binding prof) (at_pod a) (at_host a) (at_state a, sd_world s) of
             (status, st, w1) \<Rightarrow> (bind_error status, st, w1)))"

definition bind_failure :: "sched_error \<Rightarrow> string \<Rightarrow> bind_stage" where
  "bind_failure err reason = Forgetting \<lparr>fa_error = err, fa_reason = reason, fa_unreserve = UnreserveFirst\<rparr>"

text \<open>One step of a binding: what it is then, if it goes on, and the scheduler; \<open>None\<close> when it waits on permit.\<close>

definition bind_step ::
    "('st, 'w) sched_env \<Rightarrow> ('st, 'w) profile \<Rightarrow> int \<Rightarrow> 'st attempt \<Rightarrow> bind_stage \<Rightarrow> ('st, 'w) scheduler \<Rightarrow>
     (go_panic + ('st attempt \<times> bind_stage) option \<times> ('st, 'w) scheduler) option" where
  "bind_step env prof now a stage s =
     (case stage of
        WaitingOnPermit \<Rightarrow>
          (case map_of (sd_waitingPods s) (at_profile a, p_UID (at_pod a)) of
             None \<Rightarrow> Some (Inr (Some (a, BindingVolumes), s))
           | Some w \<Rightarrow>
               (case wp_s w of
                  None \<Rightarrow> None
                | Some signal \<Rightarrow>
                    let s1 = s\<lparr>sd_waitingPods := AList.delete (at_profile a, p_UID (at_pod a)) (sd_waitingPods s)\<rparr>;
                        status = permit_signal (at_pod a) signal
                    in Some (Inr (Some (a,
                         if IsSuccess status then BindingVolumes
                         else bind_failure (PlainError (Message status))
                                (if IsUnschedulable status then PodReasonUnschedulable else SchedulerErrorReason)), s1))))
      | BindingVolumes \<Rightarrow>
          if at_allBound a then Some (Inr (Some (a, PreBinding), s))
          else
            (case en_BindPodVolumes env (at_pod a) (sd_world s) of
               (None, w1) \<Rightarrow> Some (Inr (Some (a, PreBinding), s\<lparr>sd_world := w1\<rparr>))
             | (Some e, w1) \<Rightarrow>
                 Some (Inr (Some (a, Forgetting \<lparr>fa_error = PlainError e, fa_reason = ''VolumeBindingFailed'', fa_unreserve = UnreserveLast\<rparr>),
                   s\<lparr>sd_world := w1\<rparr>)))
      | PreBinding \<Rightarrow>
          (case RunPreBindPlugins (pro_binding prof) (at_pod a) (at_host a) (at_state a, sd_world s) of
             (status, st, w1) \<Rightarrow>
               Some (Inr (Some (a\<lparr>at_state := st\<rparr>,
                 if IsSuccess status then Binding else bind_failure (PlainError (Message status)) SchedulerErrorReason), s\<lparr>sd_world := w1\<rparr>)))
      | Binding \<Rightarrow>
          (case bind_pod env prof a s of (err, st, w1) \<Rightarrow> Some (Inr (Some (a\<lparr>at_state := st\<rparr>, Finishing err), s\<lparr>sd_world := w1\<rparr>)))
      | Finishing err \<Rightarrow>
          Some (and_then (on_cache_logged (finishBinding (at_pod a) now) s) (\<lambda>s1.
            case err of
              Some e \<Rightarrow> Inr (Some (a, bind_failure e SchedulerErrorReason), s1)
            | None \<Rightarrow>
                Inr (None, s1\<lparr>sd_world := snd (RunPostBindPlugins (pro_binding prof) (at_pod a) (at_host a) (at_state a, sd_world s1))\<rparr>)))
      | Forgetting f \<Rightarrow> Some (and_then (forget env a s) (\<lambda>s1. Inr (Some (a, BindRecording f), s1)))
      | BindRecording f \<Rightarrow> Some (and_then (record_failure env a f s) (\<lambda>s1. Inr (None, s1))))"

definition run_binding :: "('st, 'w) sched_env \<Rightarrow> nat \<Rightarrow> int \<Rightarrow> ('st, 'w) scheduler \<Rightarrow> (go_panic + ('st, 'w) scheduler) option" where
  "run_binding env n now s =
     (if length (sd_bindings s) \<le> n then None
      else
        (case sd_bindings s ! n of
           (a, stage) \<Rightarrow>
             (case en_Profiles env (at_profile a) of
                None \<Rightarrow> Some (Inl NilDereference)
              | Some prof \<Rightarrow>
                  (case bind_step env prof now a stage s of
                     None \<Rightarrow> None
                   | Some (Inl x) \<Rightarrow> Some (Inl x)
                   | Some (Inr (goes_on, s1)) \<Rightarrow>
                       Some (Inr (s1\<lparr>sd_bindings :=
                         take n (sd_bindings s1) @ (case goes_on of None \<Rightarrow> [] | Some b \<Rightarrow> [b]) @ drop (Suc n) (sd_bindings s1)\<rparr>))))))"

text \<open>A step of \<open>scheduleOne\<close>; the choices of the algorithm are arguments.\<close>

definition run_cycle ::
    "('st, 'w) sched_env \<Rightarrow> nat list \<Rightarrow> (nat \<Rightarrow> int \<Rightarrow> int) \<Rightarrow> (node_info list \<Rightarrow> node_info list) \<Rightarrow> pod_sort \<Rightarrow> int \<Rightarrow>
     ('st, 'w) scheduler \<Rightarrow> (go_panic + ('st, 'w) scheduler) option" where
  "run_cycle env order rnd visit srt now s =
     (case sd_cycle s of
        Idle \<Rightarrow> NextPod s
      | Fetched i \<Rightarrow> Some (Inr (start_cycle env i s))
      | Choosing i \<Rightarrow> choose_host env order rnd i s
      | Preempting a err \<Rightarrow>
          Some (and_then (preempt env visit srt now a err s) (\<lambda>s1. Inr (s1\<lparr>sd_cycle :=
            Recording a \<lparr>fa_error = AlgorithmError err, fa_reason = PodReasonUnschedulable, fa_unreserve = NoUnreserve\<rparr>\<rparr>)))
      | Reserving a \<Rightarrow> Some (reserve_host env a s)
      | Assuming a \<Rightarrow> Some (assume_pod env a s)
      | Permitting a \<Rightarrow> Some (permit_pod env a s)
      | Rejecting a f \<Rightarrow> Some (and_then (forget env a s) (\<lambda>s1. Inr (s1\<lparr>sd_cycle := Recording a f\<rparr>)))
      | Recording a f \<Rightarrow> Some (and_then (record_failure env a f s) (\<lambda>s1. Inr (s1\<lparr>sd_cycle := Idle\<rparr>))))"

end
