(* ===== verification/SchedulerEvents.thy ===== *)
theory SchedulerEvents
  imports SchedulerLoop
begin

section \<open>What the scheduler reacts to\<close>

text \<open>
  The handlers of \<open>pkg/scheduler/eventhandlers.go\<close>, the filter that informers put before them, the timers of the
  queue and of the cache, and the decisions of permit plugins on waiting pods: with the steps of \<open>SchedulerLoop\<close>
  all that changes the scheduler.  A handler first changes the cache or the queue (its step) and then does the rest
  (a follow-up, a step of its own that others may precede).
\<close>

subsection \<open>Notifications of informers\<close>

datatype 'x notification = OnAdd 'x | OnUpdate 'x 'x | OnDelete 'x

text \<open>An object that starts passing the filter counts as added, one that stops as deleted.\<close>

fun filter_notification :: "('x \<Rightarrow> bool) \<Rightarrow> 'x notification \<Rightarrow> 'x notification option" where
  "filter_notification f (OnAdd x) = (if f x then Some (OnAdd x) else None)"
| "filter_notification f (OnUpdate x y) =
     (if f y \<and> f x then Some (OnUpdate x y) else if f y then Some (OnAdd y) else if f x then Some (OnDelete x) else None)"
| "filter_notification f (OnDelete x) = (if f x then Some (OnDelete x) else None)"

definition assignedPod :: "pod \<Rightarrow> bool" where
  "assignedPod p \<longleftrightarrow> p_NodeName p \<noteq> []"

definition responsibleForPod :: "('st, 'w) sched_env \<Rightarrow> pod \<Rightarrow> bool" where
  "responsibleForPod env p \<longleftrightarrow> en_Profiles env (p_SchedulerName p) \<noteq> None"

subsection \<open>Nodes\<close>

text \<open>\<open>DeepEqual\<close> of maps; which event a change of a node is does not matter to the queue, only whether it is one.\<close>

definition same_map :: "('k \<times> 'v) list \<Rightarrow> ('k \<times> 'v) list \<Rightarrow> bool" where
  "same_map xs ys \<longleftrightarrow> list_all (\<lambda>(k, _). map_of xs k = map_of ys k) (xs @ ys)"

definition nodeSpecUnschedulableChanged :: "node \<Rightarrow> node \<Rightarrow> bool" where
  "nodeSpecUnschedulableChanged new old \<longleftrightarrow> n_Unschedulable new \<noteq> n_Unschedulable old \<and> n_Unschedulable new = False"

definition nodeAllocatableChanged :: "node \<Rightarrow> node \<Rightarrow> bool" where
  "nodeAllocatableChanged new old \<longleftrightarrow> \<not> same_map (n_Allocatable old) (n_Allocatable new)"

definition nodeLabelsChanged :: "node \<Rightarrow> node \<Rightarrow> bool" where
  "nodeLabelsChanged new old \<longleftrightarrow> \<not> same_map (n_Labels old) (n_Labels new)"

definition nodeTaintsChanged :: "node \<Rightarrow> node \<Rightarrow> bool" where
  "nodeTaintsChanged new old \<longleftrightarrow> n_Taints new \<noteq> n_Taints old"

definition nodeConditionsChanged :: "node \<Rightarrow> node \<Rightarrow> bool" where
  "nodeConditionsChanged new old \<longleftrightarrow>
     (let strip = foldl (\<lambda>m (t, st). AList.update t st m) [] in \<not> same_map (strip (n_Conditions old)) (strip (n_Conditions new)))"

definition nodeSchedulingPropertiesChange :: "node \<Rightarrow> node \<Rightarrow> string" where
  "nodeSchedulingPropertiesChange new old =
     (if nodeSpecUnschedulableChanged new old then ''NodeSpecUnschedulableChange''
      else if nodeAllocatableChanged new old then ''NodeAllocatableChange''
      else if nodeLabelsChanged new old then ''NodeLabelChange''
      else if nodeTaintsChanged new old then ''NodeTaintChange''
      else if nodeConditionsChanged new old then ''NodeConditionChange''
      else [])"

definition later :: "follow_up \<Rightarrow> ('st, 'w) scheduler \<Rightarrow> ('st, 'w) scheduler" where
  "later u s = s\<lparr>sd_followUps := sd_followUps s @ [u]\<rparr>"

definition addNodeToCache :: "('st, 'w) sched_env \<Rightarrow> node \<Rightarrow> ('st, 'w) scheduler \<Rightarrow> go_panic + ('st, 'w) scheduler" where
  "addNodeToCache env nd s = Inr (later MoveAll (set_cache (AddNode (en_gates env) nd (cache_of s)) s))"

definition updateNodeInCache :: "('st, 'w) sched_env \<Rightarrow> node \<Rightarrow> node \<Rightarrow> ('st, 'w) scheduler \<Rightarrow> go_panic + ('st, 'w) scheduler" where
  "updateNodeInCache env old new s =
     (case UpdateNode (en_gates env) (Some old) new (cache_of s) of
        Inl x \<Rightarrow> Inl x
      | Inr c \<Rightarrow> Inr (later (MoveForNode old new) (set_cache c s)))"

definition deleteNodeFromCache :: "node \<Rightarrow> ('st, 'w) scheduler \<Rightarrow> go_panic + ('st, 'w) scheduler" where
  "deleteNodeFromCache nd s = Inr (set_cache (snd (RemoveNode nd (cache_of s))) s)"

fun on_node :: "('st, 'w) sched_env \<Rightarrow> node notification \<Rightarrow> ('st, 'w) scheduler \<Rightarrow> go_panic + ('st, 'w) scheduler" where
  "on_node env (OnAdd nd) s = addNodeToCache env nd s"
| "on_node env (OnUpdate old new) s = updateNodeInCache env old new s"
| "on_node env (OnDelete nd) s = deleteNodeFromCache nd s"

subsection \<open>Pods that have a node\<close>

definition addPodToCache :: "('st, 'w) sched_env \<Rightarrow> pod \<Rightarrow> ('st, 'w) scheduler \<Rightarrow> go_panic + ('st, 'w) scheduler" where
  "addPodToCache env pod s =
     (case on_cache_logged (cache_AddPod (en_gates env) pod) s of Inl x \<Rightarrow> Inl x | Inr s1 \<Rightarrow> Inr (later (AssignedAdded pod) s1))"

definition updatePodInCache :: "('st, 'w) sched_env \<Rightarrow> pod \<Rightarrow> pod \<Rightarrow> ('st, 'w) scheduler \<Rightarrow> go_panic + ('st, 'w) scheduler" where
  "updatePodInCache env old new s =
     (case on_cache_logged (cache_UpdatePod (en_gates env) old new) s of Inl x \<Rightarrow> Inl x | Inr s1 \<Rightarrow> Inr (later (AssignedUpdated new) s1))"

definition deletePodFromCache :: "('st, 'w) sched_env \<Rightarrow> pod \<Rightarrow> ('st, 'w) scheduler \<Rightarrow> go_panic + ('st, 'w) scheduler" where
  "deletePodFromCache env pod s =
     (case on_cache_logged (cache_RemovePod (en_gates env) pod) s of Inl x \<Rightarrow> Inl x | Inr s1 \<Rightarrow> Inr (later MoveAll s1))"

fun on_assigned_pod :: "('st, 'w) sched_env \<Rightarrow> pod notification \<Rightarrow> ('st, 'w) scheduler \<Rightarrow> go_panic + ('st, 'w) scheduler" where
  "on_assigned_pod env (OnAdd pod) s = addPodToCache env pod s"
| "on_assigned_pod env (OnUpdate old new) s = updatePodInCache env old new s"
| "on_assigned_pod env (OnDelete pod) s = deletePodFromCache env pod s"

subsection \<open>Pods that have none\<close>

definition addPodToSchedulingQueue :: "int \<Rightarrow> pod \<Rightarrow> ('st, 'w) scheduler \<Rightarrow> go_panic + ('st, 'w) scheduler" where
  "addPodToSchedulingQueue now pod = on_queue (\<lambda>q. Inr (snd (sq_Add now pod q)))"

definition updatePodInSchedulingQueue :: "int \<Rightarrow> pod \<Rightarrow> pod \<Rightarrow> ('st, 'w) scheduler \<Rightarrow> go_panic + ('st, 'w) scheduler" where
  "updatePodInSchedulingQueue now old new s =
     (if skipPodUpdate (cache_of s) new then Inr s
      else on_queue (\<lambda>q. case sq_Update now (Some old) new q of Inl x \<Rightarrow> Inl x | Inr (_, q1) \<Rightarrow> Inr q1) s)"

definition deletePodFromSchedulingQueue :: "pod \<Rightarrow> ('st, 'w) scheduler \<Rightarrow> go_panic + ('st, 'w) scheduler" where
  "deletePodFromSchedulingQueue pod s = and_then (on_queue (\<lambda>q. Inr (sq_Delete pod q)) s) (\<lambda>s1. Inr (later (ReleasePod pod) s1))"

fun on_unassigned_pod :: "int \<Rightarrow> pod notification \<Rightarrow> ('st, 'w) scheduler \<Rightarrow> go_panic + ('st, 'w) scheduler" where
  "on_unassigned_pod now (OnAdd pod) s = addPodToSchedulingQueue now pod s"
| "on_unassigned_pod now (OnUpdate old new) s = updatePodInSchedulingQueue now old new s"
| "on_unassigned_pod now (OnDelete pod) s = deletePodFromSchedulingQueue pod s"

subsection \<open>The rest of a handler\<close>

definition release_pod :: "('st, 'w) sched_env \<Rightarrow> pod \<Rightarrow> ('st, 'w) scheduler \<Rightarrow> ('st, 'w) scheduler" where
  "release_pod env pod s =
     (let s1 = s\<lparr>sd_world := en_DeletePodBindings env pod (sd_world s)\<rparr> in
      if en_Profiles env (p_SchedulerName pod) = None then s1
      else reject_waiting (p_SchedulerName pod) (p_UID pod) ''removed'' s1)"

fun follow :: "('st, 'w) sched_env \<Rightarrow> int \<Rightarrow> follow_up \<Rightarrow> ('st, 'w) scheduler \<Rightarrow> go_panic + ('st, 'w) scheduler" where
  "follow env now MoveAll s = on_queue (\<lambda>q. Inr (sq_MoveAll now q)) s"
| "follow env now (MoveForNode old new) s =
     on_queue (\<lambda>q. Inr (if sq_NumUnschedulablePods q = 0 \<or> nodeSchedulingPropertiesChange new old \<noteq> [] then sq_MoveAll now q else q)) s"
| "follow env now (AssignedAdded pod) s = on_queue (sq_AssignedPodAdded now pod) s"
| "follow env now (AssignedUpdated pod) s = on_queue (sq_AssignedPodUpdated now pod) s"
| "follow env now (ReleasePod pod) s = Inr (release_pod env pod s)"

definition run_follow_up :: "('st, 'w) sched_env \<Rightarrow> nat \<Rightarrow> int \<Rightarrow> ('st, 'w) scheduler \<Rightarrow> (go_panic + ('st, 'w) scheduler) option" where
  "run_follow_up env n now s =
     (if length (sd_followUps s) \<le> n then None
      else Some (follow env now (sd_followUps s ! n) (s\<lparr>sd_followUps := take n (sd_followUps s) @ drop (Suc n) (sd_followUps s)\<rparr>)))"

subsection \<open>All events\<close>

text \<open>
  Volumes, claims, services, CSI nodes and storage classes (with late binding) only move the pods of the queue.  A
  decision on a waiting pod names its profile and UID.
\<close>

datatype sched_event =
  ScheduleStep "nat list" "nat \<Rightarrow> int \<Rightarrow> int" "node_info list \<Rightarrow> node_info list" pod_sort int
| BindStep nat int
| RetryStep nat int
| FollowUp nat int
| AssignedPodEvent "pod notification"
| UnassignedPodEvent "pod notification" int
| NodeEvent "node notification"
| StorageEvent int
| StorageClassEvent bool int
| FlushBackoff int
| FlushUnschedulable int
| CleanupAssumed int
| AllowPod "string \<times> string" string
| RejectPod "string \<times> string" string
| PermitTimeout "int \<Rightarrow> string" "string \<times> string" string

definition on_waiting :: "(waiting_pod \<Rightarrow> waiting_pod) \<Rightarrow> string \<times> string \<Rightarrow> ('st, 'w) scheduler \<Rightarrow> ('st, 'w) scheduler" where
  "on_waiting f k s = s\<lparr>sd_waitingPods := AList.map_entry k f (sd_waitingPods s)\<rparr>"

text \<open>What an event does: nothing when it cannot happen (\<open>None\<close>), which includes a flush that would not return.\<close>

definition flush_backoff :: "int \<Rightarrow> ('st, 'w) scheduler \<Rightarrow> (go_panic + ('st, 'w) scheduler) option" where
  "flush_backoff now s =
     (case gs_schedulingQueue (sd_Algorithm s) of
        None \<Rightarrow> Some (Inl NilDereference)
      | Some q \<Rightarrow>
          (case sq_flushBackoffQCompleted now q of
             None \<Rightarrow> None
           | Some (Inl x) \<Rightarrow> Some (Inl x)
           | Some (Inr q1) \<Rightarrow> Some (Inr (set_queue q1 s))))"

definition cleanup_assumed :: "('st, 'w) sched_env \<Rightarrow> int \<Rightarrow> ('st, 'w) scheduler \<Rightarrow> go_panic + ('st, 'w) scheduler" where
  "cleanup_assumed env now s =
     (case cleanupAssumedPods (en_gates env) now (cache_of s) of Inl x \<Rightarrow> Inl x | Inr c \<Rightarrow> Inr (set_cache c s))"

definition notify :: "('x \<Rightarrow> bool) \<Rightarrow> ('x notification \<Rightarrow> 's \<Rightarrow> go_panic + 's) \<Rightarrow> 'x notification \<Rightarrow> 's \<Rightarrow> (go_panic + 's) option" where
  "notify f handler e s = Some (case filter_notification f e of None \<Rightarrow> Inr s | Some e1 \<Rightarrow> handler e1 s)"

fun run_event :: "('st, 'w) sched_env \<Rightarrow> sched_event \<Rightarrow> ('st, 'w) scheduler \<Rightarrow> (go_panic + ('st, 'w) scheduler) option" where
  "run_event env (ScheduleStep order rnd visit srt now) s = run_cycle env order rnd visit srt now s"
| "run_event env (BindStep n now) s = run_binding env n now s"
| "run_event env (RetryStep n now) s = retry env n now s"
| "run_event env (FollowUp n now) s = run_follow_up env n now s"
| "run_event env (AssignedPodEvent e) s = notify assignedPod (on_assigned_pod env) e s"
| "run_event env (UnassignedPodEvent e now) s = notify (\<lambda>p. \<not> assignedPod p \<and> responsibleForPod env p) (on_unassigned_pod now) e s"
| "run_event env (NodeEvent e) s = Some (on_node env e s)"
| "run_event env (StorageEvent now) s = Some (on_queue (\<lambda>q. Inr (sq_MoveAll now q)) s)"
| "run_event env (StorageClassEvent waitForFirstConsumer now) s =
     Some (if waitForFirstConsumer then on_queue (\<lambda>q. Inr (sq_MoveAll now q)) s else Inr s)"
| "run_event env (FlushBackoff now) s = flush_backoff now s"
| "run_event env (FlushUnschedulable now) s = Some (on_queue (\<lambda>q. Inr (sq_flushUnschedulableQLeftover now q)) s)"
| "run_event env (CleanupAssumed now) s = Some (cleanup_assumed env now s)"
| "run_event env (AllowPod k plugin) s = Some (Inr (on_waiting (wp_Allow plugin) k s))"
| "run_event env (RejectPod k msg) s = Some (Inr (on_waiting (wp_Reject msg) k s))"
| "run_event env (PermitTimeout text k plugin) s = Some (Inr (on_waiting (wp_timeout text plugin) k s))"

end
