(* ===== verification/SchedulerSteps.thy ===== *)
theory SchedulerSteps
  imports SchedulerEvents SchedCacheLaws
begin

section \<open>The steps of the scheduler\<close>

text \<open>
  The states a scheduler reaches, and what its steps leave alone: the algorithm only reads the cache, and most steps
  neither touch it nor the attempts that are going on.
\<close>

subsection \<open>What the algorithm leaves of the cache\<close>

definition only_reads :: "generic_scheduler \<Rightarrow> generic_scheduler \<Rightarrow> bool" where
  "only_reads s s' \<longleftrightarrow>
     (\<exists>gen t sn k. s' = s\<lparr>gs_cache := (gs_cache s)\<lparr>sc_generation := gen, sc_nodeTree := t\<rparr>, gs_nodeInfoSnapshot := sn, gs_nextStartNodeIndex := k\<rparr>)"

lemma only_readsI:
  "s' = s\<lparr>gs_cache := (gs_cache s)\<lparr>sc_generation := gen, sc_nodeTree := t\<rparr>, gs_nodeInfoSnapshot := sn, gs_nextStartNodeIndex := k\<rparr> \<Longrightarrow> only_reads s s'"
  unfolding only_reads_def by blast

lemma only_reads_refl: "only_reads s s"
  by (rule only_readsI [where gen = "sc_generation (gs_cache s)" and t = "sc_nodeTree (gs_cache s)" and sn = "gs_nodeInfoSnapshot s" and
        k = "gs_nextStartNodeIndex s"]) simp

lemma only_reads_trans: "only_reads s t \<Longrightarrow> only_reads t u \<Longrightarrow> only_reads s u"
  unfolding only_reads_def by (elim exE) (simp, blast)

lemma only_reads_bump: "only_reads s (bump_generation gen s)"
  by (rule only_readsI [where gen = gen and t = "sc_nodeTree (gs_cache s)" and sn = "gs_nodeInfoSnapshot s" and k = "gs_nextStartNodeIndex s"])
     (simp add: bump_generation_def)

lemma only_reads_advance: "only_reads s (advance_start s k n)"
  by (rule only_readsI [where gen = "sc_generation (gs_cache s)" and t = "sc_nodeTree (gs_cache s)" and sn = "gs_nodeInfoSnapshot s"])
     (simp add: advance_start_def)

lemma UpdateSnapshot_reads: "UpdateSnapshot c sn = Some (Inr (failed, c', sn')) \<Longrightarrow> \<exists>t. c' = c\<lparr>sc_nodeTree := t\<rparr>"
proof -
  have l: "\<exists>t. c' = c\<lparr>sc_nodeTree := t\<rparr>" if "updateNodeInfoSnapshotList c sn b = Some (Inr (c', sn'))" for c c' sn sn' b
  proof (cases b)
    case False
    then have "c' = c\<lparr>sc_nodeTree := sc_nodeTree c\<rparr>" using that by (simp add: updateNodeInfoSnapshotList_def)
    then show ?thesis by blast
  qed (use that in \<open>auto simp: updateNodeInfoSnapshotList_def Let_def split: option.splits sum.splits\<close>)
  assume a: "UpdateSnapshot c sn = Some (Inr (failed, c', sn'))"
  have tail: "\<exists>c1 sn1. x = Some (Inr (c1, sn1)) \<and> (c' = c1 \<or> updateNodeInfoSnapshotList c1 sn1 True = Some (Inr (c', sn')))"
    if "(case x of
           None \<Rightarrow> None
         | Some (Inl p) \<Rightarrow> Some (Inl p)
         | Some (Inr (s4, sn4)) \<Rightarrow>
             if int (length (sn_list sn4)) \<noteq> nt_numNodes (sc_nodeTree s4) then
               (case updateNodeInfoSnapshotList s4 sn4 True of
                  None \<Rightarrow> None
                | Some (Inl p) \<Rightarrow> Some (Inl p)
                | Some (Inr (s5, sn5)) \<Rightarrow> Some (Inr (True, s5, sn5)))
             else Some (Inr (False, s4, sn4))) = Some (Inr (failed, c', sn'))" for x
    using that by (auto split: option.splits sum.splits if_splits)
  obtain sn1 upd1 upd2 where co: "copy_updated c (sn_generation sn) (sc_headNode c) (sn, False, False) = Some (sn1, upd1, upd2)"
    using a by (auto simp: UpdateSnapshot_def split: option.splits)
  from tail [OF a [unfolded UpdateSnapshot_def co Let_def option.case prod.case]]
  obtain sn3 b1 b2 c1 sn4 where
    1: "(if b1 \<or> b2 then updateNodeInfoSnapshotList c sn3 b1 else Some (Inr (c, sn3))) = Some (Inr (c1, sn4))"
    and 2: "c' = c1 \<or> updateNodeInfoSnapshotList c1 sn4 True = Some (Inr (c', sn'))" by blast
  have "\<exists>t. c1 = c\<lparr>sc_nodeTree := t\<rparr>" using 1 l exI [of "\<lambda>t. c = c\<lparr>sc_nodeTree := t\<rparr>" "sc_nodeTree c"] by (auto split: if_splits)
  then show "\<exists>t. c' = c\<lparr>sc_nodeTree := t\<rparr>" using 2 l [of c1] by auto
qed

lemma find_reads:
  assumes "findNodesThatFitPod order g prof st pod s = Inr (r, s')"
  shows "only_reads s s'"
proof -
  have "only_reads s s1" if "findNodesThatPassFilters order g prof st pod s = Inr (r, s1)" for r s1
    using that only_reads_trans [OF only_reads_bump only_reads_advance] only_reads_advance
    by (auto simp: findNodesThatPassFilters_def Let_def split: if_splits sum.splits)
  then show ?thesis using assms by (auto simp: findNodesThatFitPod_def split: sum.splits)
qed

lemma Schedule_reads:
  assumes "Schedule order rnd g prof st pod s = Some (Inr (r, st', s'))"
  shows "only_reads s s'"
proof (cases "podPassesBasicChecks pod (gs_pvcLister s)")
  case (Some e)
  then show ?thesis using assms only_reads_refl by (simp add: Schedule_def)
next
  case None
  then obtain failed c sn where u: "UpdateSnapshot (gs_cache s) (gs_nodeInfoSnapshot s) = Some (Inr (failed, c, sn))"
    "(if failed then Inr (Inl SnapshotInconsistent, st, s\<lparr>gs_cache := c, gs_nodeInfoSnapshot := sn\<rparr>)
      else schedule_on_snapshot order rnd g prof st pod (s\<lparr>gs_cache := c, gs_nodeInfoSnapshot := sn\<rparr>)) = Inr (r, st', s')"
    using assms by (auto simp: Schedule_def Let_def split: option.splits sum.splits)
  define s1 where "s1 = s\<lparr>gs_cache := c, gs_nodeInfoSnapshot := sn\<rparr>"
  obtain t where "c = (gs_cache s)\<lparr>sc_nodeTree := t\<rparr>" using UpdateSnapshot_reads [OF u(1)] by blast
  then have s1: "only_reads s s1"
    by (intro only_readsI [where gen = "sc_generation (gs_cache s)" and t = t and sn = sn and k = "gs_nextStartNodeIndex s"]) (simp add: s1_def)
  have "s' = s1 \<or> (\<exists>r st1. findNodesThatFitPod order g prof st1 pod s1 = Inr (r, s'))"
    using u(2) by (auto simp: s1_def [symmetric] schedule_on_snapshot_def split: if_splits prod.splits option.splits sum.splits)
  then have "only_reads s1 s'" by (elim disjE exE) (simp add: only_reads_refl, rule find_reads)
  then show ?thesis by (rule only_reads_trans [OF s1])
qed

lemma Preempt_reads: "Preempt visit srt now g prof st pod err s = Inr (r, s') \<Longrightarrow> only_reads s s'"
  using only_reads_refl only_reads_bump
  by (auto simp: Preempt_def split: schedule_error.splits if_splits sum.splits prod.splits)

lemma only_reads_cache: "only_reads s s' \<Longrightarrow> info_of (gs_cache s') = info_of (gs_cache s) \<and> pods_of (gs_cache s') = pods_of (gs_cache s)"
  unfolding only_reads_def by (elim exE) simp

subsection \<open>Steps that only change the queue, the world and the waiting pods\<close>

named_theorems sched_frame \<open>what the steps of the scheduler leave alone\<close>

lemma scheduler_frame [simp]:
  "cache_of (set_cache c s) = c" "sd_cycle (set_cache c s) = sd_cycle s" "sd_bindings (set_cache c s) = sd_bindings s"
  "cache_of (set_queue q s) = cache_of s" "sd_cycle (set_queue q s) = sd_cycle s" "sd_bindings (set_queue q s) = sd_bindings s"
  "cache_of (s\<lparr>sd_world := w\<rparr>) = cache_of s" "cache_of (s\<lparr>sd_cycle := c'\<rparr>) = cache_of s" "cache_of (s\<lparr>sd_bindings := bs\<rparr>) = cache_of s"
  "cache_of (s\<lparr>sd_retries := rs\<rparr>) = cache_of s" "cache_of (s\<lparr>sd_waitingPods := ws\<rparr>) = cache_of s"
  "cache_of (s\<lparr>sd_followUps := us\<rparr>) = cache_of s" "cache_of (s\<lparr>sd_Algorithm := alg\<rparr>) = gs_cache alg"
  by (simp_all add: cache_of_def set_cache_def set_queue_def)

definition idle_step :: "('st, 'w) scheduler \<Rightarrow> ('st, 'w) scheduler \<Rightarrow> bool" where
  "idle_step s s' \<longleftrightarrow>
     (sd_Algorithm s')\<lparr>gs_schedulingQueue := None\<rparr> = (sd_Algorithm s)\<lparr>gs_schedulingQueue := None\<rparr> \<and>
     sd_cycle s' = sd_cycle s \<and> sd_bindings s' = sd_bindings s"

lemma idle_refl [simp]: "idle_step s s"
  by (simp add: idle_step_def)

lemma idle_trans: "idle_step s t \<Longrightarrow> idle_step t u \<Longrightarrow> idle_step s u"
  by (simp add: idle_step_def)

lemma idle_algorithm:
  assumes "idle_step s s'"
  shows "cache_of s' = cache_of s" "gs_nodeInfoSnapshot (sd_Algorithm s') = gs_nodeInfoSnapshot (sd_Algorithm s)"
    "gs_extenders (sd_Algorithm s') = gs_extenders (sd_Algorithm s)"
    "gs_nextStartNodeIndex (sd_Algorithm s') = gs_nextStartNodeIndex (sd_Algorithm s)"
proof -
  have eq: "(sd_Algorithm s')\<lparr>gs_schedulingQueue := None\<rparr> = (sd_Algorithm s)\<lparr>gs_schedulingQueue := None\<rparr>"
    using assms by (simp add: idle_step_def)
  show "cache_of s' = cache_of s" using arg_cong [OF eq, of gs_cache] by (simp add: cache_of_def)
  show "gs_nodeInfoSnapshot (sd_Algorithm s') = gs_nodeInfoSnapshot (sd_Algorithm s)" using arg_cong [OF eq, of gs_nodeInfoSnapshot] by simp
  show "gs_extenders (sd_Algorithm s') = gs_extenders (sd_Algorithm s)" using arg_cong [OF eq, of gs_extenders] by simp
  show "gs_nextStartNodeIndex (sd_Algorithm s') = gs_nextStartNodeIndex (sd_Algorithm s)" using arg_cong [OF eq, of gs_nextStartNodeIndex] by simp
qed

lemma idle_queue [simp]: "idle_step s (set_queue q s)"
  by (simp add: idle_step_def set_queue_def)

lemma on_queue_idle [sched_frame]: "on_queue f s = Inr s' \<Longrightarrow> idle_step s s'"
  by (auto simp: on_queue_def split: option.splits sum.splits)

lemma waiting_idle [sched_frame]: "idle_step s (on_waiting f k s)" "idle_step s (reject_waiting prof uid msg s)"
  by (simp_all add: on_waiting_def reject_waiting_def idle_step_def)

lemma release_idle [sched_frame]: "idle_step s (release_pod env pod s)"
  by (simp add: release_pod_def Let_def idle_step_def reject_waiting_def)

lemma unreserve_idle [sched_frame]: "idle_step s (unreserve env a s)"
  by (simp add: unreserve_def idle_step_def split: option.split)

lemma record_idle [sched_frame]:
  assumes "record_failure env a f s = Inr s'" "\<forall>name w. \<not> en_nodeGone env name w"
  shows "idle_step s s'"
proof -
  have e: "idle_step s1 s2" if "default_error_func env i err s1 = Inr s2" for i err s1 s2
    using that assms(2) by (auto simp: default_error_func_def Let_def idle_step_def split: sched_error.splits option.splits)
  obtain s1 where "recordSchedulingFailure env (at_info a) (fa_error f) (fa_reason f) (if fa_unreserve f = UnreserveFirst then unreserve env a s else s) = Inr s1"
    "s' = (if fa_unreserve f = UnreserveLast then unreserve env a s1 else s1)"
    using assms(1) by (auto simp: record_failure_def split: sum.splits)
  moreover from this(1) obtain s0 where "default_error_func env (at_info a) (fa_error f) (if fa_unreserve f = UnreserveFirst then unreserve env a s else s) = Inr s0"
    "s1 = s0\<lparr>sd_world := en_updateCondition env (pi_Pod (at_info a)) (fa_reason f) (fa_error f) (sd_world s0)\<rparr>"
    by (auto simp: recordSchedulingFailure_def split: sum.splits)
  moreover have "idle_step s0 s1" using calculation(4) by (simp add: idle_step_def)
  moreover have "idle_step s (if fa_unreserve f = UnreserveFirst then unreserve env a s else s)" "idle_step s1 s'"
    using calculation(2) by (simp_all add: unreserve_idle)
  ultimately show ?thesis using e idle_trans by metis
qed

lemma retry_idle [sched_frame]: "retry env n now s = Some (Inr s') \<Longrightarrow> idle_step s s'"
proof -
  assume r: "retry env n now s = Some (Inr s')"
  define s1 where "s1 = s\<lparr>sd_retries := take n (sd_retries s) @ drop (Suc n) (sd_retries s)\<rparr>"
  have "idle_step s s1" by (simp add: s1_def idle_step_def)
  moreover have "s' = s1 \<or> (\<exists>f. on_queue f s1 = Inr s')"
    using r by (auto simp: retry_def Let_def s1_def split: if_splits prod.splits sum.splits)
  ultimately show "idle_step s s'" using on_queue_idle idle_trans by blast
qed

lemma follow_idle [sched_frame]: "run_follow_up env n now s = Some (Inr s') \<Longrightarrow> idle_step s s'"
proof -
  assume r: "run_follow_up env n now s = Some (Inr s')"
  define s1 where "s1 = s\<lparr>sd_followUps := take n (sd_followUps s) @ drop (Suc n) (sd_followUps s)\<rparr>"
  have "follow env now (sd_followUps s ! n) s1 = Inr s'" using r by (auto simp: run_follow_up_def s1_def split: if_splits)
  then have "idle_step s1 s'" using on_queue_idle release_idle by (cases "sd_followUps s ! n") auto
  moreover have "idle_step s s1" by (simp add: s1_def idle_step_def)
  ultimately show "idle_step s s'" using idle_trans by blast
qed

lemma flush_idle [sched_frame]: "flush_backoff now s = Some (Inr s') \<Longrightarrow> idle_step s s'"
  by (auto simp: flush_backoff_def split: option.splits sum.splits)

lemma unassigned_idle [sched_frame]: "on_unassigned_pod now e s = Inr s' \<Longrightarrow> idle_step s s'"
proof (cases e)
  case (OnDelete pod)
  assume r: "on_unassigned_pod now e s = Inr s'"
  then obtain s1 where "on_queue (\<lambda>q. Inr (sq_Delete pod q)) s = Inr s1" "s' = later (ReleasePod pod) s1"
    using OnDelete by (auto simp: deletePodFromSchedulingQueue_def and_then_def split: sum.splits)
  then show ?thesis using on_queue_idle by (fastforce simp: later_def idle_step_def)
qed (auto simp: addPodToSchedulingQueue_def updatePodInSchedulingQueue_def intro: on_queue_idle split: if_splits)

lemma delete_victims_idle [sched_frame]: "idle_step s (snd (delete_victims env prof vs s))"
proof (induction vs arbitrary: s)
  case (Cons v vs)
  obtain e w where d: "en_deletePod env v (sd_world s) = (e, w)" by force
  have w: "idle_step s (s\<lparr>sd_world := w\<rparr>)" by (simp add: idle_step_def)
  show ?case
  proof (cases e)
    case None
    then show ?thesis using idle_trans [OF idle_trans [OF w waiting_idle(2)] Cons.IH] by (simp add: d)
  next
    case (Some x)
    then show ?thesis using w by (simp add: d)
  qed
qed simp

lemma preempt_idle:
  assumes "preempt env visit srt now a err s = Inr s'"
  shows "\<exists>alg. (alg = sd_Algorithm s \<or> (\<exists>gen. alg = bump_generation gen (sd_Algorithm s))) \<and> idle_step (s\<lparr>sd_Algorithm := alg\<rparr>) s'"
proof -
  have w: "idle_step s (s\<lparr>sd_world := w\<rparr>)" for s :: "('a, 'b) scheduler" and w by (simp add: idle_step_def)
  have clear: "idle_step s (foldl (\<lambda>s p. removeNominatedNodeName env p s) s ps)" for s and ps
  proof (induction ps rule: rev_induct)
    case (snoc p ps)
    then show ?case using w idle_trans by (fastforce simp: removeNominatedNodeName_def)
  qed simp
  have on: "idle_step s s'" if pre: "preempt_on env prof preemptor r s = Inr s'" for prof preemptor r s s'
  proof (cases "pr_Node r")
    case None
    then show ?thesis using pre clear by (auto simp: preempt_on_def)
  next
    case (Some nd)
    then obtain s1 where s1: "on_queue (\<lambda>q. Inr (sq_UpdateNominatedPodForNode preemptor (n_Name nd) q)) s = Inr s1"
      using pre by (auto simp: preempt_on_def and_then_def split: sum.splits)
    obtain e w1 where u: "en_updateNominatedNodeName env preemptor (n_Name nd) (sd_world s1) = (e, w1)" by force
    let ?t = "s1\<lparr>sd_world := w1\<rparr>"
    have t: "idle_step s ?t" using on_queue_idle [OF s1] w idle_trans by blast
    have "idle_step ?t s'"
    proof (cases e)
      case (Some x)
      then show ?thesis using pre \<open>pr_Node r = Some nd\<close> s1 u on_queue_idle by (auto simp: preempt_on_def and_then_def)
    next
      case None
      obtain b s2 where d: "delete_victims env prof (pr_Victims r) ?t = (b, s2)" by force
      then have "idle_step ?t s2" using delete_victims_idle by (metis snd_conv)
      moreover have "s' = s2 \<or> s' = foldl (\<lambda>s p. removeNominatedNodeName env p s) s2 (pr_Cleanup r)"
        using pre \<open>pr_Node r = Some nd\<close> s1 u None d by (auto simp: preempt_on_def and_then_def split: bool.splits)
      ultimately show ?thesis using clear idle_trans by blast
    qed
    then show ?thesis using t idle_trans by blast
  qed
  obtain prof where prof: "en_Profiles env (at_profile a) = Some prof" using assms by (auto simp: preempt_def split: option.splits)
  show ?thesis
  proof (cases "en_getPod env (p_Namespace (at_pod a)) (p_Name (at_pod a)) (sd_world s)")
    case (Inl e)
    then have "idle_step (s\<lparr>sd_Algorithm := sd_Algorithm s\<rparr>) s'" using assms prof by (simp add: preempt_def)
    then show ?thesis by blast
  next
    case (Inr preemptor)
    obtain r alg where r: "Preempt visit srt now (en_gates env) (pro_framework prof) (at_state a) preemptor err (sd_Algorithm s) = Inr (r, alg)"
      using assms prof Inr by (auto simp: preempt_def split: sum.splits)
    have "alg = sd_Algorithm s \<or> (\<exists>gen. alg = bump_generation gen (sd_Algorithm s))"
      using r by (auto simp: Preempt_def split: schedule_error.splits if_splits sum.splits prod.splits)
    moreover have "idle_step (s\<lparr>sd_Algorithm := alg\<rparr>) s'"
      using assms prof Inr r on by (cases r) (auto simp: preempt_def)
    ultimately show ?thesis by blast
  qed
qed

subsection \<open>Reachable states\<close>

text \<open>From some states, with steps that meet a condition on the event, the state before and the state after.\<close>

inductive sched_reach ::
    "('st, 'w) sched_env \<Rightarrow> (('st, 'w) scheduler \<Rightarrow> bool) \<Rightarrow> (sched_event \<Rightarrow> ('st, 'w) scheduler \<Rightarrow> ('st, 'w) scheduler \<Rightarrow> bool) \<Rightarrow>
     ('st, 'w) scheduler \<Rightarrow> bool" for env start ok where
  start: "start s \<Longrightarrow> sched_reach env start ok s"
| step: "sched_reach env start ok s \<Longrightarrow> run_event env ev s = Some (Inr s') \<Longrightarrow> ok ev s s' \<Longrightarrow> sched_reach env start ok s'"

text \<open>An attempt is never stuck, unless it waits for the plugins that have to permit it.\<close>

definition waits_on_permit :: "'st attempt \<times> bind_stage \<Rightarrow> ('st, 'w) scheduler \<Rightarrow> bool" where
  "waits_on_permit b s \<longleftrightarrow>
     snd b = WaitingOnPermit \<and>
     (case map_of (sd_waitingPods s) (at_profile (fst b), p_UID (at_pod (fst b))) of None \<Rightarrow> False | Some w \<Rightarrow> wp_s w = None)"

lemma binding_not_stuck:
  assumes "i < length (sd_bindings s)" "run_binding env i now s = None"
  shows "waits_on_permit (sd_bindings s ! i) s"
proof -
  obtain a stage where b: "sd_bindings s ! i = (a, stage)" by force
  then obtain prof where "bind_step env prof now a stage s = None"
    using assms by (auto simp: run_binding_def split: option.splits sum.splits)
  then show ?thesis by (auto simp: b waits_on_permit_def bind_step_def Let_def split: bind_stage.splits option.splits if_splits prod.splits)
qed

end
