(* ===== verification/AssumedPods.thy ===== *)
theory AssumedPods
  imports SchedulerSteps SchedCachePods
begin

section \<open>Assumed pods\<close>

text \<open>
  A pod that is assumed takes the bandwidth of its node although nothing has been written yet; if the attempt that
  assumed it fails, or ends without a trace, it must be forgotten.  This theory shows that it is: in every state the
  scheduler reaches, whatever its goroutines and handlers interleave, an assumption whose binding has not finished
  belongs to an attempt that is still going on.  It is not so when a node is removed and comes back.
\<close>

subsection \<open>Assumptions in the cache\<close>

text \<open>The node on which the pod with the key is assumed while its binding has not finished, which has no deadline.\<close>

definition unbound :: "sched_cache \<Rightarrow> string \<Rightarrow> string option" where
  "unbound s k =
     (case map_of (sc_podStates s) k of
        None \<Rightarrow> None
      | Some st \<Rightarrow> if assumed s k \<and> \<not> ps_bindingFinished st then Some (p_NodeName (ps_pod st)) else None)"

definition counted_on :: "sched_cache \<Rightarrow> string \<Rightarrow> string \<Rightarrow> bool" where
  "counted_on s k n \<longleftrightarrow> (\<exists>i. info_of s n = Some i \<and> Some k \<in> GetPodKey ` set (ni_pods i))"

definition homed :: "sched_cache \<Rightarrow> bool" where
  "homed s \<longleftrightarrow> (\<forall>k st. map_of (sc_podStates s) k = Some st \<longrightarrow> counted_on s k (p_NodeName (ps_pod st)))"

lemma counted_info: "info_of s' = info_of s \<Longrightarrow> counted_on s' = counted_on s"
  by (simp add: counted_on_def fun_eq_iff)

lemma unbound_pods: "pods_of s' = pods_of s \<Longrightarrow> unbound s' = unbound s"
  using phase_pods_of [of s' s] by (auto simp: unbound_def fun_eq_iff split: option.split)

lemma unbound_other:
  "map_of (sc_podStates s') j = map_of (sc_podStates s) j \<Longrightarrow> map_of (sc_assumedPods s') j = map_of (sc_assumedPods s) j \<Longrightarrow>
   unbound s' j = unbound s j"
  by (simp add: unbound_def assumed_def split: option.split)

lemma homed_change:
  assumes "homed s" "\<And>j. j \<noteq> k \<Longrightarrow> map_of (sc_podStates s') j = map_of (sc_podStates s) j"
    and "\<And>j n. j \<noteq> k \<Longrightarrow> counted_on s j n \<Longrightarrow> counted_on s' j n"
    and "\<And>st. map_of (sc_podStates s') k = Some st \<Longrightarrow> counted_on s' k (p_NodeName (ps_pod st))"
  shows "homed s'"
  unfolding homed_def
proof (intro allI impI)
  fix j st assume "map_of (sc_podStates s') j = Some st"
  then show "counted_on s' j (p_NodeName (ps_pod st))"
    using assms by (cases "j = k") (auto simp: homed_def simp del: map_of_eq_Some_iff)
qed

lemma addPod_counted:
  "counted_on s j n \<Longrightarrow> counted_on (addPod g p s) j n"
  "GetPodKey p = Some k \<Longrightarrow> counted_on (addPod g p s) k (p_NodeName p)"
proof -
  obtain gen where "info_of (addPod g p s) = (info_of s)(p_NodeName p \<mapsto> snd (ni_AddPod g p (gen, info_or_new g s (p_NodeName p))))"
    using addPod_frame(2) by blast
  then show "counted_on s j n \<Longrightarrow> counted_on (addPod g p s) j n"
    "GetPodKey p = Some k \<Longrightarrow> counted_on (addPod g p s) k (p_NodeName p)"
    by (auto simp: counted_on_def info_or_new_def)
qed

lemma swap_delete_keeps:
  assumes "i < length xs" "x \<in> set xs" "x \<noteq> xs ! i"
  shows "x \<in> set (swap_delete xs i)"
proof -
  have "x \<in># mset xs - {#xs ! i#}" using assms(2,3) by (simp add: in_diff_count)
  then show ?thesis using mset_swap_delete [OF assms(1)] by (metis set_mset_mset)
qed

lemma RemovePod_keeps:
  assumes "ni_RemovePod g p (gen, i) = Inr (e, gen', i')" "q \<in> set (ni_pods i)" "GetPodKey q \<noteq> GetPodKey p"
  shows "q \<in> set (ni_pods i')"
proof -
  have "ni_pods i' = ni_pods i \<or> (\<exists>k j. GetPodKey p = Some k \<and> key_index k (ni_pods i) = Some j \<and> ni_pods i' = swap_delete (ni_pods i) j)"
    using assms(1) by (auto simp: ni_RemovePod_def Let_def split: option.splits prod.splits)
  then show ?thesis using assms(2,3) key_index_Some swap_delete_keeps by metis
qed

lemma removePod_counted:
  assumes "removePod g p s = Inr (e, s')" "counted_on s j n" "GetPodKey p \<noteq> Some j"
  shows "counted_on s' j n"
  using assms(1)
proof (cases rule: removePod_cases)
  case (node i e' gen' i')
  show ?thesis
  proof (cases "n = p_NodeName p")
    case True
    then obtain q where "q \<in> set (ni_pods i)" "GetPodKey q = Some j" using assms(2) node(1) by (auto simp: counted_on_def)
    then have "q \<in> set (ni_pods i')" using RemovePod_keeps [OF node(2), of q] assms(3) by simp
    then show ?thesis using True node(4) \<open>GetPodKey q = Some j\<close> by (force simp: counted_on_def)
  qed (use assms(2) node(4) in \<open>simp add: counted_on_def\<close>)
qed (use assms(2) in simp)

text \<open>A pod that is counted on its node can be removed from there.\<close>

lemma removePod_succeeds:
  assumes "GetPodKey p = Some k" "counted_on s k (p_NodeName p)"
  shows "\<exists>s'. removePod g p s = Inr (None, s')"
proof -
  obtain i where i: "info_of s (p_NodeName p) = Some i" "Some k \<in> GetPodKey ` set (ni_pods i)"
    using assms(2) by (auto simp: counted_on_def)
  then obtain c where c: "map_of (sc_nodes s) (p_NodeName p) = Some c" "ce_info c = i" by (auto simp: info_of_def)
  have "key_index k (ni_pods i) \<noteq> None" using i(2) by (auto simp: key_index_None)
  then show ?thesis using c assms(1)
    by (auto simp: removePod_def ni_RemovePod_def Let_def split: option.split prod.split)
qed

subsection \<open>What the operations do to assumptions\<close>

definition fewer :: "sched_cache \<Rightarrow> sched_cache \<Rightarrow> bool" where
  "fewer s s' \<longleftrightarrow> (\<forall>k. unbound s' k = unbound s k \<or> unbound s' k = None)"

lemma fewer_same: "unbound s' = unbound s \<Longrightarrow> fewer s s'"
  by (simp add: fewer_def)

lemma fewer_trans: "fewer s t \<Longrightarrow> fewer t u \<Longrightarrow> fewer s u"
  unfolding fewer_def by metis

lemma fewer_at: "(\<And>j. j \<noteq> k \<Longrightarrow> unbound s' j = unbound s j) \<Longrightarrow> unbound s' k = None \<Longrightarrow> fewer s s'"
  unfolding fewer_def by metis

lemma keys_of: "pods_of s' = pods_of s \<Longrightarrow> sc_podStates s' = sc_podStates s \<and> sc_assumedPods s' = sc_assumedPods s"
  by (simp add: pods_of_def)

lemma assume_unbound:
  assumes "AssumePod g p s = Inr (e, s')" "homed s"
  shows "homed s'"
    and "unbound s' j = unbound s j \<or> e = None \<and> GetPodKey p = Some j \<and> unbound s' j = Some (p_NodeName p)"
proof -
  have "homed s' \<and> (unbound s' j = unbound s j \<or> e = None \<and> GetPodKey p = Some j \<and> unbound s' j = Some (p_NodeName p))"
  proof (cases "\<exists>k. GetPodKey p = Some k \<and> map_of (sc_podStates s) k = None")
    case True
    then obtain k where k: "GetPodKey p = Some k" "map_of (sc_podStates s) k = None" by blast
    note f = keys_of [OF addPod_frame(1) [of g p s]]
    have s': "e = None" "s' = (addPod g p s)\<lparr>sc_podStates := AList.update k (new_state p) (sc_podStates s),
        sc_assumedPods := AList.update k True (sc_assumedPods s)\<rparr>"
      using assms(1) k f by (simp_all add: AssumePod_def Let_def)
    have c: "counted_on s' = counted_on (addPod g p s)" by (rule counted_info) (simp add: s'(2))
    have "homed s'"
      by (rule homed_change [OF assms(2), where k = k])
         (use k addPod_counted in \<open>simp_all add: c, simp_all add: s'(2) new_state_def update_conv'\<close>)
    moreover have "unbound s' k = Some (p_NodeName p)"
      by (simp add: unbound_def s'(2) update_conv' assumed_def new_state_def)
    moreover have "unbound s' i = unbound s i" if "i \<noteq> k" for i
      by (rule unbound_other) (simp_all add: s'(2) update_conv' that)
    ultimately show ?thesis using k(1) s'(1) by (cases "j = k") simp_all
  next
    case False
    then have "s' = s" using assms(1) by (auto simp: AssumePod_def split: option.splits if_splits)
    then show ?thesis using assms(2) by simp
  qed
  then show "homed s'" "unbound s' j = unbound s j \<or> e = None \<and> GetPodKey p = Some j \<and> unbound s' j = Some (p_NodeName p)"
    by blast+
qed

text \<open>The pod with the key leaves the states and its node; the two ways in which it leaves the assumed pods.\<close>

lemma dropped:
  assumes "homed s" "removePod g p s = Inr (r, s1)" "GetPodKey p = Some k"
    and "map_of (sc_podStates s') = (map_of (sc_podStates s))(k := None)" "info_of s' = info_of s1"
    and "\<And>j. j \<noteq> k \<Longrightarrow> map_of (sc_assumedPods s') j = map_of (sc_assumedPods s) j"
  shows "homed s' \<and> fewer s s' \<and> unbound s' k = None"
proof -
  have k: "unbound s' k = None" by (simp add: unbound_def assms(4))
  have "homed s'"
    by (rule homed_change [OF assms(1), where k = k])
       (use removePod_counted [OF assms(2)] assms(3-5) in \<open>simp_all add: counted_info [OF assms(5)]\<close>)
  moreover have "fewer s s'" by (rule fewer_at [where k = k, OF unbound_other k]) (use assms(4,6) in simp_all)
  ultimately show ?thesis using k by blast
qed

lemma forget_unbound:
  assumes "ForgetPod g p s = Inr (e, s')" "homed s"
  shows "homed s' \<and> fewer s s'" "GetPodKey p = Some k \<Longrightarrow> unbound s' k \<noteq> Some (p_NodeName p)"
proof -
  have "homed s' \<and> fewer s s' \<and> (\<forall>k. GetPodKey p = Some k \<longrightarrow> unbound s' k \<noteq> Some (p_NodeName p))"
  proof (cases "\<exists>k st. GetPodKey p = Some k \<and> map_of (sc_podStates s) k = Some st \<and> p_NodeName (ps_pod st) = p_NodeName p \<and> assumed s k")
    case True
    then obtain k st where k: "GetPodKey p = Some k" "map_of (sc_podStates s) k = Some st" "p_NodeName (ps_pod st) = p_NodeName p" "assumed s k"
      by blast
    then have "counted_on s k (p_NodeName p)" using assms(2) unfolding homed_def by metis
    from removePod_succeeds [OF k(1) this] obtain s1 where r: "removePod g p s = Inr (None, s1)" by blast
    then have s': "s' = drop_pod k s1" using assms(1) k by (simp add: ForgetPod_def)
    note f = keys_of [OF removePod_frame [OF r]]
    have "homed s' \<and> fewer s s' \<and> unbound s' k = None"
      by (rule dropped [OF assms(2) r k(1)]) (use f in \<open>simp_all add: s' drop_pod_def delete_conv' fun_upd_def\<close>)
    then show ?thesis using k(1) by simp
  next
    case False
    then have "s' = s" using assms(1) by (auto simp: ForgetPod_def split: option.splits if_splits sum.splits)
    then show ?thesis using assms(2) False by (auto simp: fewer_same unbound_def split: option.splits if_splits)
  qed
  then show "homed s' \<and> fewer s s'" "GetPodKey p = Some k \<Longrightarrow> unbound s' k \<noteq> Some (p_NodeName p)" by blast+
qed

lemma finish_unbound:
  assumes "finishBinding p now s = Inr (e, s')" "homed s"
  shows "homed s' \<and> fewer s s'" "GetPodKey p = Some k \<Longrightarrow> unbound s' k = None"
proof -
  have "homed s' \<and> fewer s s' \<and> (\<forall>k. GetPodKey p = Some k \<longrightarrow> unbound s' k = None)"
  proof (cases "\<exists>k st. GetPodKey p = Some k \<and> map_of (sc_podStates s) k = Some st \<and> assumed s k")
    case True
    then obtain k st where k: "GetPodKey p = Some k" "map_of (sc_podStates s) k = Some st" "assumed s k" by blast
    then have s': "s' = s\<lparr>sc_podStates := AList.update k (st\<lparr>ps_bindingFinished := True, ps_deadline := Some (now + sc_ttl s)\<rparr>) (sc_podStates s)\<rparr>"
      using assms(1) by (simp add: finishBinding_def)
    have u: "unbound s' k = None" by (simp add: unbound_def s' update_conv')
    have "homed s'"
      by (rule homed_change [OF assms(2), where k = k])
         (use k assms(2) in \<open>auto simp: s' update_conv' counted_info [of s' s] homed_def counted_on_def\<close>)
    moreover have "fewer s s'" by (rule fewer_at [where k = k, OF unbound_other u]) (simp_all add: s' update_conv')
    ultimately show ?thesis using u k(1) by simp
  next
    case False
    then have "s' = s" using assms(1) by (auto simp: finishBinding_def split: option.splits if_splits)
    then show ?thesis using assms(2) False by (auto simp: fewer_same unbound_def split: option.splits if_splits)
  qed
  then show "homed s' \<and> fewer s s'" "GetPodKey p = Some k \<Longrightarrow> unbound s' k = None" by blast+
qed

lemma add_unbound:
  assumes "cache_AddPod g p s = Inr (e, s')" "homed s" "pods_ok s"
  shows "homed s' \<and> fewer s s'"
proof (cases "\<exists>k. GetPodKey p = Some k \<and> (map_of (sc_podStates s) k = None \<or> assumed s k)")
  case True
  then obtain k where k: "GetPodKey p = Some k" "map_of (sc_podStates s) k = None \<or> assumed s k" by blast
  show ?thesis
  proof (cases "map_of (sc_podStates s) k")
    case None
    note f = keys_of [OF addPod_frame(1) [of g p s]]
    have s': "s' = (addPod g p s)\<lparr>sc_podStates := AList.update k (new_state p) (sc_podStates s)\<rparr>"
      using assms(1) k None f by (simp add: cache_AddPod_def Let_def)
    have c: "counted_on s' = counted_on (addPod g p s)" by (rule counted_info) (simp add: s')
    have "homed s'"
      by (rule homed_change [OF assms(2), where k = k])
         (use k addPod_counted in \<open>simp_all add: c, simp_all add: s' new_state_def update_conv'\<close>)
    moreover have u: "unbound s' k = None" using not_assumed [OF assms(3) None] f
      by (simp add: unbound_def s' assumed_def update_conv')
    have "fewer s s'" by (rule fewer_at [where k = k, OF unbound_other u]) (use f in \<open>simp_all add: s' update_conv'\<close>)
    ultimately show ?thesis by blast
  next
    case (Some st)
    then have a: "assumed s k" using k(2) by simp
    define conf where "conf t = t\<lparr>sc_assumedPods := AList.delete k (sc_assumedPods t),
        sc_podStates := AList.map_entry k (\<lambda>st. st\<lparr>ps_deadline := None, ps_pod := p\<rparr>) (sc_podStates t)\<rparr>" for t :: sched_cache
    have key: "GetPodKey (ps_pod st) = Some k" using assms(3) Some by (simp add: pods_ok_def)
    have home: "counted_on s k (p_NodeName (ps_pod st))" using assms(2) Some unfolding homed_def by blast
    obtain t where t: "s' = conf t" "pods_of t = pods_of s" "\<And>j n. j \<noteq> k \<Longrightarrow> counted_on s j n \<Longrightarrow> counted_on t j n"
      "counted_on t k (p_NodeName p)"
    proof (cases "p_NodeName (ps_pod st) = p_NodeName p")
      case True
      then show thesis using that [of s] assms(1) k(1) Some a home by (simp add: cache_AddPod_def Let_def conf_def)
    next
      case False
      obtain s1 where r: "removePod g (ps_pod st) s = Inr (None, s1)" using removePod_succeeds [OF key home] by blast
      then have "s' = conf (addPod g p s1)" using assms(1) k(1) Some a False by (simp add: cache_AddPod_def Let_def conf_def)
      then show thesis
        using that [of "addPod g p s1"] removePod_frame [OF r] addPod_frame(1) removePod_counted [OF r] key
          addPod_counted k(1) by fastforce
    qed
    note f = keys_of [OF t(2)]
    have c: "counted_on s' = counted_on t" by (rule counted_info) (simp add: t(1) conf_def info_of_def [abs_def])
    have "homed s'"
      by (rule homed_change [OF assms(2), where k = k]) (use t(3,4) f in \<open>simp_all add: c, auto simp: t(1) conf_def map_of_map_entry\<close>)
    moreover have u: "unbound s' k = None" by (simp add: unbound_def t(1) conf_def assumed_def delete_conv' split: option.split)
    have "fewer s s'"
      by (rule fewer_at [where k = k, OF unbound_other u]) (use f in \<open>simp_all add: t(1) conf_def map_of_map_entry delete_conv'\<close>)
    ultimately show ?thesis by blast
  qed
next
  case False
  then have "s' = s" using assms(1) by (auto simp: cache_AddPod_def split: option.splits if_splits)
  then show ?thesis using assms(2) by (simp add: fewer_same)
qed

lemma update_unbound:
  assumes "cache_UpdatePod g p q s = Inr (e, s')" "homed s" "GetPodKey q = GetPodKey p" "p_NodeName q = p_NodeName p"
  shows "homed s' \<and> fewer s s'"
proof (cases "\<exists>k st. GetPodKey p = Some k \<and> map_of (sc_podStates s) k = Some st \<and> \<not> assumed s k")
  case True
  then obtain k st where k: "GetPodKey p = Some k" "map_of (sc_podStates s) k = Some st" "\<not> assumed s k" by blast
  have node: "p_NodeName (ps_pod st) = p_NodeName q" using assms(1) k by (auto simp: cache_UpdatePod_def split: if_splits)
  then have home: "counted_on s k (p_NodeName p)" using assms(2,4) k(2) unfolding homed_def by metis
  then have "map_of (sc_nodes s) (p_NodeName q) \<noteq> None" using assms(4) by (auto simp: counted_on_def info_of_def)
  moreover obtain s1 where r: "removePod g p s = Inr (None, s1)" using removePod_succeeds [OF k(1) home] by blast
  ultimately have "updatePod g p q s = Inr (None, addPod g q s1)" by (auto simp: updatePod_def)
  then have s': "s' = (addPod g q s1)\<lparr>sc_podStates := AList.map_entry k (\<lambda>st. st\<lparr>ps_pod := q\<rparr>) (sc_podStates (addPod g q s1))\<rparr>"
    using assms(1) k node by (simp add: cache_UpdatePod_def)
  have f: "sc_podStates (addPod g q s1) = sc_podStates s" "sc_assumedPods (addPod g q s1) = sc_assumedPods s"
    using keys_of [OF addPod_frame(1) [of g q s1]] keys_of [OF removePod_frame [OF r]] by simp_all
  have c: "counted_on s' = counted_on (addPod g q s1)" by (rule counted_info) (simp add: s')
  have "homed s'"
    by (rule homed_change [OF assms(2), where k = k])
       (use k(1,2) assms(3) removePod_counted [OF r] addPod_counted in \<open>auto simp: c, auto simp: s' f map_of_map_entry\<close>)
  moreover have "unbound s' = unbound s"
    using k f by (auto simp: fun_eq_iff unbound_def s' map_of_map_entry assumed_def split: option.split)
  ultimately show ?thesis by (simp add: fewer_same)
next
  case False
  then have "s' = s" using assms(1) by (auto simp: cache_UpdatePod_def split: option.splits)
  then show ?thesis using assms(2) by (simp add: fewer_same)
qed

lemma remove_unbound:
  assumes "cache_RemovePod g p s = Inr (e, s')" "homed s" "pods_ok s"
  shows "homed s' \<and> fewer s s'"
proof (cases "\<exists>k st. GetPodKey p = Some k \<and> map_of (sc_podStates s) k = Some st \<and> \<not> assumed s k")
  case True
  then obtain k st where k: "GetPodKey p = Some k" "map_of (sc_podStates s) k = Some st" "\<not> assumed s k" by blast
  have key: "GetPodKey (ps_pod st) = Some k" "counted_on s k (p_NodeName (ps_pod st))"
    using assms(2,3) k(2) by (simp_all add: pods_ok_def homed_def)
  obtain s1 where r: "removePod g (ps_pod st) s = Inr (None, s1)" using removePod_succeeds [OF key] by blast
  then have s': "s' = s1\<lparr>sc_podStates := AList.delete k (sc_podStates s1)\<rparr>"
    using assms(1) k by (auto simp: cache_RemovePod_def split: if_splits)
  have "homed s' \<and> fewer s s' \<and> unbound s' k = None"
    by (rule dropped [OF assms(2) r key(1)]) (use keys_of [OF removePod_frame [OF r]] in \<open>simp_all add: s' delete_conv' fun_upd_def\<close>)
  then show ?thesis by blast
next
  case False
  then have "s' = s" using assms(1) by (auto simp: cache_RemovePod_def split: option.splits)
  then show ?thesis using assms(2) by (simp add: fewer_same)
qed

lemma cleanup_unbound:
  assumes "cleanup_keys g now keys s = Inr s'" "homed s" "pods_ok s"
  shows "homed s' \<and> fewer s s'"
  using assms
proof (induction keys arbitrary: s)
  case (Cons k keys)
  obtain st where st: "map_of (sc_podStates s) k = Some st" using Cons.prems(1) by (auto split: option.splits)
  show ?case
  proof (cases "ps_bindingFinished st \<and> (\<exists>d. ps_deadline st = Some d \<and> d < now)")
    case True
    have key: "GetPodKey (ps_pod st) = Some k" "counted_on s k (p_NodeName (ps_pod st))"
      using Cons.prems(2,3) st by (simp_all add: pods_ok_def homed_def)
    obtain s1 where r: "removePod g (ps_pod st) s = Inr (None, s1)" using removePod_succeeds [OF key] by blast
    then have rest: "cleanup_keys g now keys (drop_pod k s1) = Inr s'" using Cons.prems(1) st True by (auto simp: expirePod_def)
    have d: "homed (drop_pod k s1) \<and> fewer s (drop_pod k s1) \<and> unbound (drop_pod k s1) k = None"
      by (rule dropped [OF Cons.prems(2) r key(1)])
         (use keys_of [OF removePod_frame [OF r]] in \<open>simp_all add: drop_pod_def delete_conv' fun_upd_def info_of_def [abs_def]\<close>)
    have "pods_ok (drop_pod k s1)" using phase_pods_of [OF removePod_frame [OF r]] Cons.prems(3) drop_pod_laws(2) by blast
    then show ?thesis using Cons.IH [OF rest] d fewer_trans by blast
  next
    case False
    then have "cleanup_keys g now keys s = Inr s'" using Cons.prems(1) st by (auto split: option.splits if_splits)
    then show ?thesis using Cons.IH Cons.prems(2,3) by blast
  qed
qed (simp add: fewer_same)

lemma counted_loads:
  assumes "loads_kept g s s'" "dom (info_of s) \<subseteq> dom (info_of s')" "counted_on s k n"
  shows "counted_on s' k n"
proof -
  obtain i where i: "info_of s n = Some i" "Some k \<in> GetPodKey ` set (ni_pods i)" using assms(3) by (auto simp: counted_on_def)
  then obtain i' where i': "info_of s' n = Some i'" using assms(2) by blast
  from assms(1) i' have "same_load i i'" by (cases rule: loads_keptE) (use i(1) in simp_all)
  then show ?thesis using i' i(2) by (simp add: counted_on_def same_load_def)
qed

lemma homed_loads:
  assumes "homed s" "loads_kept g s s'" "dom (info_of s) \<subseteq> dom (info_of s')" "pods_of s' = pods_of s"
  shows "homed s' \<and> fewer s s'"
  using assms(1) counted_loads [OF assms(2,3)] keys_of [OF assms(4)] unbound_pods [OF assms(4)]
  by (simp add: homed_def fewer_same)

lemma node_ops_dom:
  "dom (info_of s) \<subseteq> dom (info_of (AddNode g nd s))"
  "UpdateNode g old nd s = Inr s' \<Longrightarrow> dom (info_of s) \<subseteq> dom (info_of s')"
proof -
  have set_node: "dom (info_of s) \<subseteq> dom (info_of (on_info (n_Name nd) (ni_SetNode g nd) (addNodeImageStates nd t)))"
    if "info_of t = info_of (cell_for_node g nd s)" for t
  proof -
    obtain im where "info_of (addNodeImageStates nd t) = (info_of t)(n_Name nd := map_option (ni_imageStates_update (\<lambda>_. im)) (info_of t (n_Name nd)))"
      using addNodeImageStates_info by blast
    then have "dom (info_of (on_info (n_Name nd) (ni_SetNode g nd) (addNodeImageStates nd t))) = dom (info_of t)"
      by (auto simp: on_info_frame(2) dom_def)
    then show ?thesis using cell_for_node_loads [of g s nd] that by simp
  qed
  show "dom (info_of s) \<subseteq> dom (info_of (AddNode g nd s))"
    unfolding AddNode_def Let_def by (rule set_node) (simp add: cache_frame)
  assume "UpdateNode g old nd s = Inr s'"
  then obtain t where "s' = on_info (n_Name nd) (ni_SetNode g nd) (addNodeImageStates nd t)" "info_of t = info_of (cell_for_node g nd s)"
    by (auto simp: UpdateNode_def Let_def cache_frame split: sum.splits option.splits)
  then show "dom (info_of s) \<subseteq> dom (info_of s')" using set_node by simp
qed

subsection \<open>Attempts that hold an assumption\<close>

text \<open>From the call of AssumePod to that of ForgetPod, or to the end of a binding that has finished.\<close>

fun attempt_of :: "'st sched_cycle \<Rightarrow> 'st attempt list" where
  "attempt_of (Permitting a) = [a]"
| "attempt_of (Rejecting a f) = [a]"
| "attempt_of _ = []"

fun holds_pod :: "bind_stage \<Rightarrow> bool" where
  "holds_pod (BindRecording f) = False"
| "holds_pod _ = True"

definition in_flight :: "('st, 'w) scheduler \<Rightarrow> 'st attempt list" where
  "in_flight s = attempt_of (sd_cycle s) @ map fst (filter (holds_pod \<circ> snd) (sd_bindings s))"

definition attempt_key :: "'st attempt \<Rightarrow> string option \<times> string" where
  "attempt_key a = (GetPodKey (at_pod a), p_NodeName (at_pod a))"

definition flight_keys :: "('st, 'w) scheduler \<Rightarrow> (string option \<times> string) set" where
  "flight_keys s = attempt_key ` set (in_flight s)"

definition assumed_inv :: "('st, 'w) scheduler \<Rightarrow> bool" where
  "assumed_inv s \<longleftrightarrow>
     pods_ok (cache_of s) \<and> homed (cache_of s) \<and> (\<forall>k n. unbound (cache_of s) k = Some n \<longrightarrow> (Some k, n) \<in> flight_keys s)"

lemma assumed_step:
  assumes "assumed_inv s" "pods_ok (cache_of s')" "homed (cache_of s')" "fewer (cache_of s) (cache_of s')"
    and "\<And>k n. unbound (cache_of s') k = Some n \<Longrightarrow> (Some k, n) \<in> flight_keys s \<Longrightarrow> (Some k, n) \<in> flight_keys s'"
  shows "assumed_inv s'"
proof -
  have "(Some k, n) \<in> flight_keys s'" if "unbound (cache_of s') k = Some n" for k n
  proof -
    have "unbound (cache_of s) k = Some n" using assms(4) that unfolding fewer_def by (metis option.distinct(1))
    then show ?thesis using assms(1,5) that by (simp add: assumed_inv_def)
  qed
  then show ?thesis using assms(2,3) by (simp add: assumed_inv_def)
qed

subsection \<open>Steps that leave the assumptions alone\<close>

definition quiet_step :: "('st, 'w) scheduler \<Rightarrow> ('st, 'w) scheduler \<Rightarrow> bool" where
  "quiet_step s s' \<longleftrightarrow>
     info_of (cache_of s') = info_of (cache_of s) \<and> pods_of (cache_of s') = pods_of (cache_of s) \<and>
     attempt_of (sd_cycle s') = attempt_of (sd_cycle s) \<and> sd_bindings s' = sd_bindings s"

lemma quiet_step_refl [simp]: "quiet_step s s"
  by (simp add: quiet_step_def)

lemma quiet_step_trans: "quiet_step s t \<Longrightarrow> quiet_step t u \<Longrightarrow> quiet_step s u"
  by (simp add: quiet_step_def)

lemma assumed_quiet: "assumed_inv s \<Longrightarrow> quiet_step s s' \<Longrightarrow> assumed_inv s'"
proof -
  assume a: "assumed_inv s" and q: "quiet_step s s'"
  have "counted_on (cache_of s') = counted_on (cache_of s)" "unbound (cache_of s') = unbound (cache_of s)" "pods_ok (cache_of s') = pods_ok (cache_of s)"
    "sc_podStates (cache_of s') = sc_podStates (cache_of s)"
    using q counted_info unbound_pods phase_pods_of keys_of unfolding quiet_step_def by metis+
  moreover have "flight_keys s' = flight_keys s" using q by (simp add: quiet_step_def flight_keys_def in_flight_def)
  ultimately show "assumed_inv s'" using a by (simp add: assumed_inv_def homed_def)
qed

lemma idle_quiet: "idle_step s s' \<Longrightarrow> quiet_step s s'"
  using idle_algorithm(1) [of s s'] by (simp add: quiet_step_def) (simp add: idle_step_def)

lemma preempt_quiet: "preempt env visit srt now a err s = Inr s' \<Longrightarrow> quiet_step s s'"
proof -
  assume p: "preempt env visit srt now a err s = Inr s'"
  obtain alg where alg: "alg = sd_Algorithm s \<or> (\<exists>gen. alg = bump_generation gen (sd_Algorithm s))" "idle_step (s\<lparr>sd_Algorithm := alg\<rparr>) s'"
    using preempt_idle [OF p] by (elim exE conjE) (rule that)
  have "info_of (gs_cache alg) = info_of (cache_of s) \<and> pods_of (gs_cache alg) = pods_of (cache_of s)"
    using alg(1) by (elim disjE exE) (simp_all add: cache_of_def bump_generation_def)
  then have "quiet_step s (s\<lparr>sd_Algorithm := alg\<rparr>)" by (simp add: quiet_step_def)
  then show "quiet_step s s'" using idle_quiet [OF alg(2)] quiet_step_trans by blast
qed

lemma NextPod_quiet: "NextPod s = Some (Inr s') \<Longrightarrow> sd_cycle s = Idle \<Longrightarrow> quiet_step s s'"
  by (auto simp: NextPod_def quiet_step_def split: option.splits sum.splits pop_result.splits)

subsection \<open>Steps that change assumptions\<close>

lemma flight_keys_alt:
  "flight_keys s = attempt_key ` set (attempt_of (sd_cycle s)) \<union> {attempt_key a |a st. (a, st) \<in> set (sd_bindings s) \<and> holds_pod st}"
  by (force simp: flight_keys_def in_flight_def)

lemma binding_key: "(a, st) \<in> set (sd_bindings s) \<Longrightarrow> holds_pod st \<Longrightarrow> attempt_key a \<in> flight_keys s"
  unfolding flight_keys_alt by blast

lemma attempt_key_state [simp]: "attempt_key (a\<lparr>at_state := st\<rparr>) = attempt_key a"
  by (simp add: attempt_key_def at_pod_def)

lemma choose_quiet:
  assumes "choose_host env order rnd i s = Some (Inr s')" "sd_cycle s = Choosing i"
  shows "quiet_step s s'"
proof -
  obtain prof where prof: "en_Profiles env (p_SchedulerName (pi_Pod i)) = Some prof"
    using assms(1) by (auto simp: choose_host_def split: option.splits)
  obtain r st alg where r: "Schedule order rnd (en_gates env) (pro_framework prof) (en_NewCycleState env) (pi_Pod i) (sd_Algorithm s) = Some (Inr (r, st, alg))"
    using assms(1) prof by (auto simp: choose_host_def split: option.splits sum.splits)
  note c = only_reads_cache [OF Schedule_reads [OF r]]
  have "\<exists>c. s' = s\<lparr>sd_Algorithm := alg, sd_cycle := c\<rparr> \<and> attempt_of c = []"
    using assms(1) prof r by (cases r) (auto simp: choose_host_def Let_def split: schedule_error.splits)
  then show ?thesis using c assms(2) by (auto simp: quiet_step_def cache_of_def)
qed

lemma reserve_quiet: "reserve_host env a s = Inr s' \<Longrightarrow> sd_cycle s = Reserving a \<Longrightarrow> quiet_step s s'"
  by (auto simp: reserve_host_def quiet_step_def Let_def split: option.splits prod.splits sum.splits)

lemma assume_assumed:
  assumes "assume_pod env a s = Inr s'" "sd_cycle s = Assuming a" "assumed_inv s"
  shows "assumed_inv s'"
proof -
  define a1 where "a1 = on_host a"
  have inv: "pods_ok (cache_of s)" "homed (cache_of s)" using assms(3) by (simp_all add: assumed_inv_def)
  obtain e c where c: "AssumePod (en_gates env) (at_pod a1) (cache_of s) = Inr (e, c)"
    using assms(1) by (auto simp: assume_pod_def a1_def Let_def split: sum.splits)
  have s': "cache_of s' = c" "sd_bindings s' = sd_bindings s" "attempt_of (sd_cycle s') = (if e = None then [a1] else [])"
    using assms(1) c by (auto simp: assume_pod_def a1_def [symmetric] Let_def split: option.splits)
  note u = assume_unbound [OF c inv(2)]
  have keys: "(Some k, n) \<in> flight_keys s'" if "unbound c k = Some n" for k n
  proof (cases "unbound c k = unbound (cache_of s) k")
    case True
    then have "(Some k, n) \<in> flight_keys s" using assms(3) that by (simp add: assumed_inv_def)
    then show ?thesis using s' assms(2) by (auto simp: flight_keys_alt)
  next
    case False
    then have "e = None" "GetPodKey (at_pod a1) = Some k" "n = p_NodeName (at_pod a1)" using u(2) [of k] that by auto
    then show ?thesis using s'(3) by (simp add: flight_keys_alt attempt_key_def)
  qed
  have "pods_ok c" using phase_assume [OF c inv(1)] by blast
  then show ?thesis using u(1) keys s'(1) by (simp add: assumed_inv_def)
qed

lemma permit_assumed:
  assumes "permit_pod env a s = Inr s'" "sd_cycle s = Permitting a" "assumed_inv s"
  shows "assumed_inv s'"
proof -
  obtain prof where prof: "en_Profiles env (at_profile a) = Some prof" using assms(1) by (auto simp: permit_pod_def split: option.splits)
  obtain status waiting st w1 where p: "RunPermitPlugins (pro_binding prof) (at_pod a) (at_host a) (at_state a, sd_world s) = ((status, waiting), st, w1)"
    by (metis prod.collapse)
  let ?a1 = "a\<lparr>at_state := st\<rparr>"
  have s': "cache_of s' = cache_of s" "attempt_key ?a1 = attempt_key a"
    "attempt_of (sd_cycle s') = [?a1] \<and> sd_bindings s' = sd_bindings s \<or> sd_bindings s' = sd_bindings s @ [(?a1, WaitingOnPermit)]"
    using assms(1) by (auto simp: permit_pod_def prof p Let_def split: if_splits)
  have "flight_keys s \<subseteq> flight_keys s'"
    using s'(3)
  proof
    assume "attempt_of (sd_cycle s') = [?a1] \<and> sd_bindings s' = sd_bindings s"
    then show ?thesis using assms(2) by (auto simp: flight_keys_alt)
  next
    assume b: "sd_bindings s' = sd_bindings s @ [(?a1, WaitingOnPermit)]"
    then have "attempt_key ?a1 \<in> flight_keys s'" by (intro binding_key [where st = WaitingOnPermit]) simp_all
    then show ?thesis using assms(2) b by (auto simp: flight_keys_alt)
  qed
  then show ?thesis by (intro assumed_step [OF assms(3)]) (use assms(3) s'(1) in \<open>auto simp: assumed_inv_def fewer_same\<close>)
qed

lemma forget_assumed:
  assumes "forget env a s = Inr s1" "pods_ok (cache_of s)" "homed (cache_of s)"
  shows "pods_ok (cache_of s1) \<and> homed (cache_of s1) \<and> fewer (cache_of s) (cache_of s1) \<and>
    sd_cycle s1 = sd_cycle s \<and> sd_bindings s1 = sd_bindings s \<and> (\<forall>k n. attempt_key a = (Some k, n) \<longrightarrow> unbound (cache_of s1) k \<noteq> Some n)"
proof -
  obtain e c where c: "ForgetPod (en_gates env) (at_pod a) (cache_of s) = Inr (e, c)" "s1 = set_cache c s"
    using assms(1) by (auto simp: forget_def on_cache_logged_def split: sum.splits)
  show ?thesis using forget_unbound [OF c(1) assms(3)] phase_forget [OF c(1) assms(2)] by (auto simp: c(2) attempt_key_def)
qed

lemma bind_step_assumed:
  assumes "bind_step env prof now a stage s = Some (Inr (goes_on, s1))" "pods_ok (cache_of s)" "homed (cache_of s)"
    and "\<forall>name w. \<not> en_nodeGone env name w"
  shows "pods_ok (cache_of s1) \<and> homed (cache_of s1) \<and> fewer (cache_of s) (cache_of s1) \<and>
    attempt_of (sd_cycle s1) = attempt_of (sd_cycle s) \<and> sd_bindings s1 = sd_bindings s \<and>
    (\<forall>k n. attempt_key a = (Some k, n) \<longrightarrow> holds_pod stage \<longrightarrow>
       (\<exists>a' st. goes_on = Some (a', st) \<and> attempt_key a' = attempt_key a \<and> holds_pod st) \<or> unbound (cache_of s1) k \<noteq> Some n)"
proof (cases stage)
  case (Finishing err)
  obtain e c where c: "finishBinding (at_pod a) now (cache_of s) = Inr (e, c)"
    "cache_of s1 = c" "sd_cycle s1 = sd_cycle s" "sd_bindings s1 = sd_bindings s"
    using assms(1) Finishing by (auto simp: bind_step_def and_then_def on_cache_logged_def split: sum.splits option.splits)
  show ?thesis using finish_unbound [OF c(1) assms(3)] phase_finish [OF c(1) assms(2)] by (auto simp: c(2-4) attempt_key_def)
next
  case (Forgetting f)
  then obtain s0 where "forget env a s = Inr s0" "s1 = s0"
    using assms(1) by (auto simp: bind_step_def and_then_def split: sum.splits)
  then show ?thesis using forget_assumed [OF _ assms(2,3)] by auto
next
  case (BindRecording f)
  then obtain s0 where r: "record_failure env a f s = Inr s0" "s1 = s0"
    using assms(1) by (auto simp: bind_step_def and_then_def split: sum.splits)
  note q = idle_quiet [OF record_idle [OF r(1) assms(4)], unfolded r(2) [symmetric]]
  have "fewer (cache_of s) (cache_of s1)" "pods_ok (cache_of s1)" "homed (cache_of s1)"
    using q assms(2,3) unbound_pods [of "cache_of s1" "cache_of s"] phase_pods_of [of "cache_of s1" "cache_of s"]
      counted_info [of "cache_of s1" "cache_of s"] unfolding quiet_step_def homed_def by (simp_all add: fewer_same)
  then show ?thesis using q BindRecording by (simp add: quiet_step_def)
qed (use assms(1-3) in \<open>auto simp: bind_step_def bind_failure_def fewer_same Let_def split: option.splits prod.splits if_splits\<close>)

lemma run_binding_assumed:
  assumes "run_binding env n now s = Some (Inr s')" "assumed_inv s" "\<forall>name w. \<not> en_nodeGone env name w"
  shows "assumed_inv s'"
proof -
  obtain a stage where b: "n < length (sd_bindings s)" "sd_bindings s ! n = (a, stage)"
    using assms(1) by (auto simp: run_binding_def split: if_splits prod.splits)
  obtain prof where prof: "en_Profiles env (at_profile a) = Some prof"
    using assms(1) b by (auto simp: run_binding_def split: option.splits)
  obtain goes_on s1 where step: "bind_step env prof now a stage s = Some (Inr (goes_on, s1))"
    and s': "s' = s1\<lparr>sd_bindings := take n (sd_bindings s1) @ (case goes_on of None \<Rightarrow> [] | Some b \<Rightarrow> [b]) @ drop (Suc n) (sd_bindings s1)\<rparr>"
    using assms(1) b prof by (auto simp: run_binding_def split: option.splits sum.splits)
  have inv: "pods_ok (cache_of s)" "homed (cache_of s)" using assms(2) by (simp_all add: assumed_inv_def)
  note st = bind_step_assumed [OF step inv assms(3)]
  have split: "set (sd_bindings s) = insert (a, stage) (set (take n (sd_bindings s)) \<union> set (drop (Suc n) (sd_bindings s)))"
    using b id_take_nth_drop [OF b(1)] by (metis Un_insert_right list.simps(15) set_append)
  show ?thesis
  proof (rule assumed_step [OF assms(2)])
    fix k m assume u: "unbound (cache_of s') k = Some m" and f: "(Some k, m) \<in> flight_keys s"
    have c: "cache_of s' = cache_of s1" "sd_cycle s' = sd_cycle s1" by (simp_all add: s')
    have rest: "set (take n (sd_bindings s)) \<union> set (drop (Suc n) (sd_bindings s)) \<subseteq> set (sd_bindings s')"
      using st by (auto simp: s')
    from f have "(Some k, m) \<in> attempt_key ` set (attempt_of (sd_cycle s)) \<or>
        (\<exists>a0 st0. (Some k, m) = attempt_key a0 \<and> (a0, st0) \<in> set (sd_bindings s) \<and> holds_pod st0)"
      unfolding flight_keys_alt by auto
    then show "(Some k, m) \<in> flight_keys s'"
    proof (elim disjE exE conjE)
      assume "(Some k, m) \<in> attempt_key ` set (attempt_of (sd_cycle s))"
      then show ?thesis using st c(2) unfolding flight_keys_alt by simp
    next
      fix a0 st0 assume o: "(Some k, m) = attempt_key a0" "(a0, st0) \<in> set (sd_bindings s)" "holds_pod st0"
      show ?thesis
      proof (cases "(a0, st0) = (a, stage)")
        case True
        then obtain a' st' where a': "goes_on = Some (a', st')" "attempt_key a' = attempt_key a" "holds_pod st'"
          using st u c(1) o(1,3) by (metis (no_types, lifting) prod.inject)
        then have "(a', st') \<in> set (sd_bindings s')" by (simp add: s')
        then show ?thesis using binding_key [of a' st' s'] a'(2,3) o(1) True by simp
      next
        case False
        then have "(a0, st0) \<in> set (sd_bindings s')" using o(2) split rest by blast
        then show ?thesis using binding_key [of a0 st0 s'] o(1,3) by simp
      qed
    qed
  qed (use st in \<open>simp_all add: s'\<close>)
qed

lemma run_cycle_assumed:
  assumes "run_cycle env order rnd visit srt now s = Some (Inr s')" "assumed_inv s" "\<forall>name w. \<not> en_nodeGone env name w"
  shows "assumed_inv s'"
proof (cases "sd_cycle s")
  case Idle
  then show ?thesis using assms NextPod_quiet assumed_quiet by (fastforce simp: run_cycle_def)
next
  case (Fetched i)
  then have "s' = start_cycle env i s" using assms(1) by (simp add: run_cycle_def)
  then have "quiet_step s s'" using Fetched by (simp add: start_cycle_def quiet_step_def)
  then show ?thesis by (rule assumed_quiet [OF assms(2)])
next
  case (Choosing i)
  then show ?thesis using assms choose_quiet assumed_quiet by (fastforce simp: run_cycle_def)
next
  case (Preempting a err)
  then obtain s1 c where "preempt env visit srt now a err s = Inr s1" "s' = s1\<lparr>sd_cycle := c\<rparr>" "attempt_of c = []"
    using assms(1) by (auto simp: run_cycle_def and_then_def split: sum.splits)
  then have "quiet_step s s'" using preempt_quiet [of env visit srt now a err s s1] Preempting by (simp add: quiet_step_def)
  then show ?thesis by (rule assumed_quiet [OF assms(2)])
next
  case (Reserving a)
  then show ?thesis using assms reserve_quiet assumed_quiet by (fastforce simp: run_cycle_def)
next
  case (Assuming a)
  then show ?thesis using assms(1,2) assume_assumed by (fastforce simp: run_cycle_def)
next
  case (Permitting a)
  then show ?thesis using assms(1,2) permit_assumed by (fastforce simp: run_cycle_def)
next
  case (Rejecting a f)
  then obtain s1 where s1: "forget env a s = Inr s1" "s' = s1\<lparr>sd_cycle := Recording a f\<rparr>"
    using assms(1) by (auto simp: run_cycle_def and_then_def split: sum.splits)
  have inv: "pods_ok (cache_of s)" "homed (cache_of s)" using assms(2) by (simp_all add: assumed_inv_def)
  note fg = forget_assumed [OF s1(1) inv]
  show ?thesis
  proof (rule assumed_step [OF assms(2)])
    fix k n assume "unbound (cache_of s') k = Some n" "(Some k, n) \<in> flight_keys s"
    then show "(Some k, n) \<in> flight_keys s'" using fg Rejecting by (auto simp: s1(2) flight_keys_alt)
  qed (use fg in \<open>simp_all add: s1(2)\<close>)
next
  case (Recording a f)
  then obtain s1 where s1: "record_failure env a f s = Inr s1" "s' = s1\<lparr>sd_cycle := Idle\<rparr>"
    using assms(1) by (auto simp: run_cycle_def and_then_def split: sum.splits)
  then have "quiet_step s s'" using idle_quiet [OF record_idle [OF s1(1) assms(3)]] Recording by (simp add: quiet_step_def)
  then show ?thesis by (rule assumed_quiet [OF assms(2)])
qed

subsection \<open>All events\<close>

text \<open>
  An update is of one pod and leaves it where it is; a node is removed only when no pod of the cache is on it, as
  after it has been drained.
\<close>

fun events_tame :: "sched_event \<Rightarrow> ('st, 'w) scheduler \<Rightarrow> ('st, 'w) scheduler \<Rightarrow> bool" where
  "events_tame (AssignedPodEvent (OnUpdate p q)) s s' \<longleftrightarrow>
     (assignedPod p \<and> assignedPod q \<longrightarrow> GetPodKey q = GetPodKey p \<and> p_NodeName q = p_NodeName p)"
| "events_tame (NodeEvent (OnDelete nd)) s s' \<longleftrightarrow> (\<forall>(_, st) \<in> set (sc_podStates (cache_of s)). p_NodeName (ps_pod st) \<noteq> n_Name nd)"
| "events_tame _ s s' \<longleftrightarrow> True"

definition no_pods_yet :: "('st, 'w) scheduler \<Rightarrow> bool" where
  "no_pods_yet s \<longleftrightarrow> sc_podStates (cache_of s) = [] \<and> sc_assumedPods (cache_of s) = [] \<and> sd_cycle s = Idle \<and> sd_bindings s = []"

text \<open>A change of the cache alone, by an operation that adds no assumption.\<close>

lemma cache_assumed:
  assumes "assumed_inv s" "pods_ok c" "homed c" "fewer (cache_of s) c"
    and "cache_of s' = c" "sd_cycle s' = sd_cycle s" "sd_bindings s' = sd_bindings s"
  shows "assumed_inv s'"
  by (rule assumed_step [OF assms(1)]) (use assms(2-7) in \<open>auto simp: flight_keys_alt\<close>)

lemma on_cache_assumed:
  assumes "on_cache_logged f s = Inr s1" "assumed_inv s"
    and "\<And>e c. f (cache_of s) = Inr (e, c) \<Longrightarrow> pods_ok c \<and> homed c \<and> fewer (cache_of s) c"
  shows "assumed_inv (later u s1)"
proof -
  obtain e c where c: "f (cache_of s) = Inr (e, c)" "s1 = set_cache c s" using assms(1) by (auto simp: on_cache_logged_def split: sum.splits)
  show ?thesis by (rule cache_assumed [OF assms(2)]) (use assms(3) [OF c(1)] in \<open>simp_all add: c(2) later_def\<close>)
qed

lemma on_assigned_assumed:
  assumes "on_assigned_pod env e s = Inr s'" "assumed_inv s"
    and "\<And>p q. e = OnUpdate p q \<Longrightarrow> GetPodKey q = GetPodKey p \<and> p_NodeName q = p_NodeName p"
  shows "assumed_inv s'"
proof -
  have inv: "pods_ok (cache_of s)" "homed (cache_of s)" using assms(2) by (simp_all add: assumed_inv_def)
  show ?thesis
  proof (cases e)
    case (OnAdd p)
    then obtain s1 where "on_cache_logged (cache_AddPod (en_gates env) p) s = Inr s1" "s' = later (AssignedAdded p) s1"
      using assms(1) by (auto simp: addPodToCache_def split: sum.splits)
    then show ?thesis using on_cache_assumed [OF _ assms(2)] add_unbound [OF _ inv(2,1)] phase_add [OF _ inv(1)] by metis
  next
    case (OnUpdate p q)
    then obtain s1 where "on_cache_logged (cache_UpdatePod (en_gates env) p q) s = Inr s1" "s' = later (AssignedUpdated q) s1"
      using assms(1) by (auto simp: updatePodInCache_def split: sum.splits)
    then show ?thesis
      using on_cache_assumed [OF _ assms(2)] update_unbound [OF _ inv(2)] phase_update [OF _ inv(1)] assms(3) [OF OnUpdate] by metis
  next
    case (OnDelete p)
    then obtain s1 where "on_cache_logged (cache_RemovePod (en_gates env) p) s = Inr s1" "s' = later MoveAll s1"
      using assms(1) by (auto simp: deletePodFromCache_def split: sum.splits)
    then show ?thesis using on_cache_assumed [OF _ assms(2)] remove_unbound [OF _ inv(2,1)] phase_remove [OF _ inv(1)] by metis
  qed
qed

lemma remove_node_unbound:
  assumes "homed s" "\<forall>(_, st) \<in> set (sc_podStates s). p_NodeName (ps_pod st) \<noteq> n_Name nd"
  shows "homed (snd (RemoveNode nd s)) \<and> fewer s (snd (RemoveNode nd s))"
proof -
  let ?t = "snd (RemoveNode nd s)"
  have i: "info_of ?t = info_of s \<or> info_of ?t = (info_of s)(n_Name nd := None)"
    by (auto simp: RemoveNode_def Let_def removeNodeInfoFromList_info split: prod.split bool.split)
  have p: "pods_of ?t = pods_of s" by (rule node_ops_frame(3))
  have "counted_on ?t k (p_NodeName (ps_pod st))" if st: "map_of (sc_podStates s) k = Some st" for k st
  proof -
    have "p_NodeName (ps_pod st) \<noteq> n_Name nd" using assms(2) map_of_SomeD [OF st] by blast
    moreover have "counted_on s k (p_NodeName (ps_pod st))" using assms(1) st unfolding homed_def by blast
    ultimately show ?thesis using i by (auto simp: counted_on_def)
  qed
  then show ?thesis using keys_of [OF p] unbound_pods [OF p] by (simp add: homed_def fewer_same)
qed

lemma on_node_assumed:
  assumes "on_node env e s = Inr s'" "assumed_inv s" "events_tame (NodeEvent e) s s'"
  shows "assumed_inv s'"
proof -
  have inv: "pods_ok (cache_of s)" "homed (cache_of s)" using assms(2) by (simp_all add: assumed_inv_def)
  have ok: "pods_ok c" if "pods_of c = pods_of (cache_of s)" for c using phase_pods_of [OF that] inv(1) by simp
  show ?thesis
  proof (cases e)
    case (OnAdd nd)
    let ?c = "AddNode (en_gates env) nd (cache_of s)"
    have "s' = later MoveAll (set_cache ?c s)" using assms(1) OnAdd by (simp add: addNodeToCache_def)
    then show ?thesis
      using cache_assumed [OF assms(2) ok, of ?c s'] homed_loads [OF inv(2) node_ops_loads(1) node_ops_dom(1) node_ops_frame(1)] node_ops_frame(1)
      by (simp add: later_def)
  next
    case (OnUpdate old new)
    then obtain c where c: "UpdateNode (en_gates env) (Some old) new (cache_of s) = Inr c" "s' = later (MoveForNode old new) (set_cache c s)"
      using assms(1) by (auto simp: updateNodeInCache_def split: sum.splits)
    then show ?thesis
      using cache_assumed [OF assms(2) ok, of c s'] homed_loads [OF inv(2) node_ops_loads(2) node_ops_dom(2) node_ops_frame(2)] node_ops_frame(2)
      by (simp add: later_def)
  next
    case (OnDelete nd)
    let ?c = "snd (RemoveNode nd (cache_of s))"
    have "s' = set_cache ?c s" using assms(1) OnDelete by (simp add: deleteNodeFromCache_def)
    then show ?thesis
      using cache_assumed [OF assms(2) ok, of ?c s'] remove_node_unbound [OF inv(2), of nd] node_ops_frame(3) assms(3) OnDelete by simp
  qed
qed

lemma event_assumed:
  assumes "run_event env ev s = Some (Inr s')" "assumed_inv s" "events_tame ev s s'" "\<forall>name w. \<not> en_nodeGone env name w"
  shows "assumed_inv s'"
proof (cases ev)
  case (AssignedPodEvent e)
  show ?thesis
  proof (cases "filter_notification assignedPod e")
    case None
    then show ?thesis using assms(1,2) AssignedPodEvent by (simp add: notify_def)
  next
    case (Some e1)
    then have r: "on_assigned_pod env e1 s = Inr s'" using assms(1) AssignedPodEvent by (simp add: notify_def)
    have "GetPodKey q = GetPodKey p \<and> p_NodeName q = p_NodeName p" if "e1 = OnUpdate p q" for p q
      using assms(3) AssignedPodEvent Some that by (cases e) (auto split: if_splits)
    then show ?thesis by (rule on_assigned_assumed [OF r assms(2)])
  qed
next
  case (UnassignedPodEvent e now)
  let ?f = "\<lambda>p. \<not> assignedPod p \<and> responsibleForPod env p"
  show ?thesis
  proof (cases "filter_notification ?f e")
    case None
    then show ?thesis using assms(1,2) UnassignedPodEvent by (simp add: notify_def)
  next
    case (Some e1)
    then have "on_unassigned_pod now e1 s = Inr s'" using assms(1) UnassignedPodEvent by (simp add: notify_def)
    then show ?thesis using assumed_quiet [OF assms(2) idle_quiet [OF unassigned_idle]] by blast
  qed
next
  case (CleanupAssumed now)
  have inv: "pods_ok (cache_of s)" "homed (cache_of s)" using assms(2) by (simp_all add: assumed_inv_def)
  obtain c where c: "cleanupAssumedPods (en_gates env) now (cache_of s) = Inr c" "s' = set_cache c s"
    using assms(1) CleanupAssumed by (auto simp: cleanup_assumed_def split: sum.splits)
  then have "run_op (en_gates env) (OpCleanup now) (cache_of s) = Inr (None, c)" by simp
  then have "pods_ok c" using run_op_life [OF _ inv(1), of "en_gates env" "OpCleanup now"] by simp
  moreover have "homed c \<and> fewer (cache_of s) c" using cleanup_unbound [OF _ inv(2,1)] c(1) by (simp add: cleanupAssumedPods_def)
  ultimately show ?thesis using cache_assumed [OF assms(2), of c s'] c(2) by simp
next
  case (StorageClassEvent b now)
  then show ?thesis using assms(1,2) assumed_quiet [OF assms(2) idle_quiet [OF on_queue_idle]] by (auto split: if_splits)
qed (use assms in \<open>auto intro: assumed_quiet [OF _ idle_quiet] sched_frame run_cycle_assumed run_binding_assumed on_node_assumed\<close>)

lemma reach_assumed:
  assumes "sched_reach env start ok s" "\<And>t. start t \<Longrightarrow> no_pods_yet t" "\<And>ev t t'. ok ev t t' \<Longrightarrow> events_tame ev t t'"
    and "\<forall>name w. \<not> en_nodeGone env name w"
  shows "assumed_inv s"
  using assms(1)
proof (induction rule: sched_reach.induct)
  case (start s)
  then show ?case using assms(2) [OF start] by (simp add: no_pods_yet_def assumed_inv_def pods_ok_def homed_def unbound_def)
next
  case (step s ev s')
  then show ?case using event_assumed [OF step.hyps(2) step.IH _ assms(4)] assms(3) by blast
qed

text \<open>
  C26: In every state the scheduler reaches, however its goroutines, handlers and timers interleave, an assumed pod
  without a deadline belongs to an attempt that is going on for the same node: it is about to be permitted or
  rejected, or its binding has not ended, and is not stuck except for permit plugins that have not decided.
  So failures, panics apart, never leave a pod assumed for good.  Nodes are removed only when no pod is on them, and
  an update of a pod that has a node keeps the pod's UID and node.
\<close>

theorem assumed_pods_are_attempted:
  assumes "sched_reach env no_pods_yet events_tame s" "\<forall>name w. \<not> en_nodeGone env name w"
    and "map_of (sc_podStates (cache_of s)) k = Some st" "assumed (cache_of s) k" "ps_deadline st = None"
  shows "\<exists>a. GetPodKey (at_pod a) = Some k \<and> p_NodeName (at_pod a) = p_NodeName (ps_pod st) \<and>
    (sd_cycle s = Permitting a \<or> (\<exists>f. sd_cycle s = Rejecting a f) \<or>
     (\<exists>i < length (sd_bindings s). \<exists>stage. sd_bindings s ! i = (a, stage) \<and> holds_pod stage \<and>
        (\<forall>now. run_binding env i now s = None \<longrightarrow> waits_on_permit (a, stage) s)))"
proof -
  have inv: "assumed_inv s" by (rule reach_assumed [OF assms(1) _ _ assms(2)])
  then have "pods_ok (cache_of s)" by (simp add: assumed_inv_def)
  then have "\<not> ps_bindingFinished st" using assms(3-5) unfolding pods_ok_def by blast
  then have "(Some k, p_NodeName (ps_pod st)) \<in> flight_keys s" using inv assms(3,4) by (simp add: assumed_inv_def unbound_def)
  then obtain a where a: "a \<in> set (in_flight s)" "GetPodKey (at_pod a) = Some k" "p_NodeName (at_pod a) = p_NodeName (ps_pod st)"
    by (auto simp: flight_keys_def attempt_key_def)
  from a(1) have "a \<in> set (attempt_of (sd_cycle s)) \<or> (\<exists>stage. (a, stage) \<in> set (sd_bindings s) \<and> holds_pod stage)"
    by (auto simp: in_flight_def)
  then show ?thesis
  proof
    assume "a \<in> set (attempt_of (sd_cycle s))"
    then show ?thesis using a(2,3) by (cases "sd_cycle s") auto
  next
    assume "\<exists>stage. (a, stage) \<in> set (sd_bindings s) \<and> holds_pod stage"
    then obtain i stage where i: "i < length (sd_bindings s)" "sd_bindings s ! i = (a, stage)" "holds_pod stage"
      by (metis in_set_conv_nth)
    then show ?thesis using a(2,3) binding_not_stuck [OF i(1)] by metis
  qed
qed

end
