(* ===== verification/SchedulerRuns.thy ===== *)
theory SchedulerRuns
  imports AssumedPods ScheduleSafety
begin

section \<open>Runs of the scheduler\<close>

text \<open>
  A scheduler with one node of 100 Mbit/s and the filter \<open>NodeResourcesFit\<close>, and its runs: a pod of 40 Mbit/s is
  queued, scheduled and assumed.  The state of the world is the pod as the API server has it, to which a failure
  adds a condition.  When its node is removed and added again before a permit plugin rejects the pod, the
  assumption outlives the attempt.
\<close>

subsection \<open>A scheduler with one node\<close>

definition small_profile ::
    "(string \<times> (node_resource option \<times> pod) permit_method) list \<Rightarrow> (node_resource option, pod) profile" where
  "small_profile permits =
     \<lparr>pro_framework = fit_framework slo_gates [],
      pro_binding = \<lparr>bf_reservePlugins = [], bf_permitPlugins = permits, bf_preBindPlugins = [], bf_bindPlugins = [],
        bf_postBindPlugins = [], bf_unreservePlugins = []\<rparr>\<rparr>"

definition unscheduled :: "string \<Rightarrow> pod \<Rightarrow> pod" where
  "unscheduled reason p = p\<lparr>p_Conditions := [(''PodScheduled'', ''False'', reason)]\<rparr>"

definition small_env ::
    "(string \<times> (node_resource option \<times> pod) permit_method) list \<Rightarrow> (node_resource option, pod) sched_env" where
  "small_env permits =
     \<lparr>en_gates = slo_gates, en_Profiles = (\<lambda>_. Some (small_profile permits)), en_NewCycleState = None, en_DisablePreemption = False,
      en_AssumePodVolumes = (\<lambda>p _ w. (Inr (True, p), w)), en_BindPodVolumes = (\<lambda>_ w. (None, w)), en_DeletePodBindings = (\<lambda>_ w. w),
      en_getPod = (\<lambda>_ _ w. Inr w), en_nodeGone = (\<lambda>_ _. False),
      en_deletePod = (\<lambda>_ w. (None, w)), en_updateNominatedNodeName = (\<lambda>_ _ w. (None, w)), en_updateCondition = (\<lambda>_ reason _ w. unscheduled reason w),
      en_extenderBind = (\<lambda>_ _ _ w. (None, w))\<rparr>"

definition small_start :: "(node_resource option, pod) scheduler" where
  "small_start =
     \<lparr>sd_Algorithm = one_scheduler, sd_waitingPods = [], sd_world = sched_pod ''a'' 40, sd_cycle = Idle, sd_bindings = [], sd_retries = [], sd_followUps = []\<rparr>"

abbreviation small_pod :: pod where "small_pod \<equiv> sched_pod ''a'' 40"

lemma small_pod_fields [simp]:
  "p_UID (sched_pod u k) = u" "p_Name (sched_pod u k) = []" "p_Namespace (sched_pod u k) = []" "p_NodeName (sched_pod u k) = []"
  "p_NominatedNodeName (sched_pod u k) = []" "p_SchedulerName (sched_pod u k) = []" "\<not> p_Deleting (sched_pod u k)"
  by (simp_all add: sched_pod_def empty_pod_def)

lemma small_env_fields [simp]:
  "en_gates (small_env ps) = slo_gates" "en_Profiles (small_env ps) n = Some (small_profile ps)" "en_NewCycleState (small_env ps) = None"
  "en_AssumePodVolumes (small_env ps) p n w = (Inr (True, p), w)" "\<not> en_nodeGone (small_env ps) n w"
  "en_updateCondition (small_env ps) p reason e w = unscheduled reason w"
  "pro_framework (small_profile ps) = fit_framework slo_gates []" "bf_permitPlugins (pro_binding (small_profile ps)) = ps"
  "bf_reservePlugins (pro_binding (small_profile ps)) = []" "bf_unreservePlugins (pro_binding (small_profile ps)) = []"
  by (simp_all add: small_env_def small_profile_def)

lemma small_cache: "sc_podStates one_node = []" "sc_assumedPods one_node = []"
  using node_ops_frame(1) [of slo_gates "slo_node 100" "newSchedulerCache 30 0"] keys_of
  by (fastforce simp: one_node_def newSchedulerCache_def)+

lemma small_start_empty: "no_pods_yet small_start"
  by (simp add: no_pods_yet_def small_start_def cache_of_def one_scheduler_def small_cache)

lemma same_world: "sd_world s = w \<Longrightarrow> s\<lparr>sd_world := w\<rparr> = s"
  by (cases s) simp

text \<open>The queue with the pod, and after it has been taken.\<close>

lemma small_queue:
  "\<exists>q1 q2 i. sq_Add 0 small_pod (NewPriorityQueue 1 10) = (False, q1) \<and> sq_Pop q1 = Inr (Popped i, q2) \<and>
     pi_Pod i = small_pod \<and> sq_nominatedPods q2 = newNominatedPodMap"
  by (simp add: sq_Add_def active_Add_def hp_Add_obj_def podInfoKeyFunc_def NewPriorityQueue_def h_New_def heap_Push_def h_Push_def
      Let_def h_up.simps [of _ 0] unsched_get_def backoff_Delete_def hp_Delete_def nominate_def nm_add_def nm_delete_def newNominatedPodMap_def
      sq_Pop_def hp_Length_def hp_PopMin_def heap_Pop_def h_Pop_def h_Swap_def set_index_def h_down.simps [of _ 0 0] newPodInfo_def newPodInfoNoTimestamp_def)

definition small_assumed :: "(node_resource option, pod) scheduler \<Rightarrow> node_resource option attempt \<Rightarrow> bool" where
  "small_assumed s a \<longleftrightarrow>
     at_pod a = small_pod\<lparr>p_NodeName := ''worker''\<rparr> \<and> at_profile a = [] \<and> sd_bindings s = [] \<and> sd_waitingPods s = [] \<and> sd_world s = small_pod \<and>
     sc_podStates (cache_of s) = [(''a'', new_state (at_pod a))] \<and> sc_assumedPods (cache_of s) = [(''a'', True)] \<and>
     gs_schedulingQueue (sd_Algorithm s) \<noteq> None"

lemma small_run:
  "\<exists>s a. sched_reach (small_env ps) no_pods_yet events_tame s \<and> sd_cycle s = Permitting a \<and> small_assumed s a"
proof -
  let ?env = "small_env ps" and ?reach = "sched_reach (small_env ps) no_pods_yet events_tame"
  obtain q1 q2 i where q: "sq_Add 0 small_pod (NewPriorityQueue 1 10) = (False, q1)" "sq_Pop q1 = Inr (Popped i, q2)"
    "pi_Pod i = small_pod" "sq_nominatedPods q2 = newNominatedPodMap"
    using small_queue by blast
  let ?ev = "ScheduleStep [0] (\<lambda>_ _. 0) id (\<lambda>_ ps. ps) 0"
  have go: "?reach s'" if "?reach s" "run_cycle ?env [0] (\<lambda>_ _. 0) id (\<lambda>_ ps. ps) 0 s = Some (Inr s')" for s s'
    by (rule sched_reach.step [OF that(1), of ?ev]) (simp_all add: that(2))
  have "?reach small_start" using small_start_empty by (rule sched_reach.start)
  then have "?reach (set_queue q1 small_start)"
    by (rule sched_reach.step [where ev = "UnassignedPodEvent (OnAdd small_pod) 0"])
       (simp_all add: notify_def assignedPod_def responsibleForPod_def addPodToSchedulingQueue_def on_queue_def small_start_def
        one_scheduler_def q(1))
  moreover define s2 where "s2 = (set_queue q2 small_start)\<lparr>sd_cycle := Choosing i\<rparr>"
  have "NextPod (set_queue q1 small_start) = Some (Inr ((set_queue q2 small_start)\<lparr>sd_cycle := Fetched i\<rparr>))"
    by (simp add: NextPod_def set_queue_def q(2))
  then have "run_cycle ?env [0] (\<lambda>_ _. 0) id (\<lambda>_ ps. ps) 0 (set_queue q1 small_start) = Some (Inr ((set_queue q2 small_start)\<lparr>sd_cycle := Fetched i\<rparr>))"
    by (simp add: run_cycle_def small_start_def set_queue_def)
  moreover have "run_cycle ?env [0] (\<lambda>_ _. 0) id (\<lambda>_ ps. ps) 0 ((set_queue q2 small_start)\<lparr>sd_cycle := Fetched i\<rparr>) = Some (Inr s2)"
    by (simp add: run_cycle_def start_cycle_def q(3) skipPodSchedule_def skipPodUpdate_def IsAssumedPod_def GetPodKey_def s2_def
        small_start_def cache_of_def set_queue_def one_scheduler_def assumed_def small_cache)
  ultimately have "?reach s2" using go by blast
  obtain alg where r: "Schedule [0] (\<lambda>_ _. 0) slo_gates (fit_framework slo_gates []) None small_pod (one_scheduler\<lparr>gs_schedulingQueue := Some q2\<rparr>) =
     Some (Inr (Inr \<lparr>sr_SuggestedHost = ''worker'', sr_EvaluatedNodes = 1, sr_FeasibleNodes = 1\<rparr>,
       Some (computePodResourceRequest slo_gates small_pod), alg))"
    using one_scheduled_on [OF q(4)] by blast
  let ?a = "new_attempt ?env i ''worker'' (Some (computePodResourceRequest slo_gates small_pod))"
  define s3 where "s3 = s2\<lparr>sd_Algorithm := alg, sd_cycle := Reserving ?a\<rparr>"
  have "run_cycle ?env [0] (\<lambda>_ _. 0) id (\<lambda>_ ps. ps) 0 s2 = Some (Inr s3)"
    using r by (simp add: run_cycle_def s2_def choose_host_def q(3) s3_def small_start_def set_queue_def)
  then have "?reach s3" using go \<open>?reach s2\<close> by blast
  have world: "sd_world s2 = small_pod" by (simp add: s2_def set_queue_def small_start_def)
  define a where "a = ?a\<lparr>at_info := i\<lparr>pi_Pod := small_pod\<rparr>, at_allBound := True\<rparr>"
  have a: "run_cycle ?env [0] (\<lambda>_ _. 0) id (\<lambda>_ ps. ps) 0 s3 = Some (Inr (s3\<lparr>sd_cycle := Assuming a\<rparr>))"
    "at_pod a = small_pod" "at_host a = ''worker''" "at_profile a = []"
    using world by (simp_all add: run_cycle_def s3_def reserve_host_def new_attempt_def at_pod_def RunReservePlugins_def q(3) IsSuccess_def
        Code_def a_def same_world)
  let ?b = "on_host a"
  have b: "at_pod ?b = small_pod\<lparr>p_NodeName := ''worker''\<rparr>" "at_profile ?b = []" using a(2-4) by (simp_all add: on_host_def at_pod_def)
  have "only_reads (one_scheduler\<lparr>gs_schedulingQueue := Some q2\<rparr>) alg" by (rule Schedule_reads [OF r])
  then have alg: "sc_podStates (gs_cache alg) = []" "sc_assumedPods (gs_cache alg) = []" "gs_schedulingQueue alg = Some q2"
    by (auto simp: only_reads_def one_scheduler_def small_cache)
  obtain c where c: "AssumePod slo_gates (at_pod ?b) (gs_cache alg) = Inr (None, c)"
     "sc_podStates c = [(''a'', new_state (at_pod ?b))]" "sc_assumedPods c = [(''a'', True)]"
    using keys_of [OF addPod_frame(1) [of slo_gates "at_pod ?b" "gs_cache alg"]]
    by (simp add: AssumePod_def b GetPodKey_def alg Let_def)
  define s4 where "s4 = set_queue (sq_DeleteNominatedPodIfExists (at_pod ?b) q2) ((set_cache c s3)\<lparr>sd_cycle := Permitting ?b\<rparr>)"
  have "run_cycle ?env [0] (\<lambda>_ _. 0) id (\<lambda>_ ps. ps) 0 (s3\<lparr>sd_cycle := Assuming a\<rparr>) = Some (Inr s4)"
    using c(1) alg(3) by (simp add: run_cycle_def assume_pod_def Let_def cache_of_def s3_def s4_def set_cache_def)
  then have "?reach s4" using go [OF go [OF \<open>?reach s3\<close> a(1)]] by blast
  moreover have "sd_cycle s4 = Permitting ?b" "small_assumed s4 ?b"
    using b c by (simp_all add: s4_def small_assumed_def s3_def s2_def small_start_def set_queue_def set_cache_def cache_of_def)
  ultimately show ?thesis by blast
qed

text \<open>One step of the scheduling goroutine; the arguments of the algorithm do not matter once a node is chosen.\<close>

lemma cycle_step:
  assumes "sched_reach env start ok s" "run_cycle env [0] (\<lambda>_ _. 0) id (\<lambda>_ ps. ps) 0 s = Some (Inr s')"
    and "ok (ScheduleStep [0] (\<lambda>_ _. 0) id (\<lambda>_ ps. ps) 0) s s'"
  shows "sched_reach env start ok s'"
  by (rule sched_reach.step [OF assms(1) _ assms(3)]) (simp add: assms(2))

subsection \<open>The binding of the pod\<close>

theorem assumed_pods_are_attempted_witness:
  "\<exists>s st a. sched_reach (small_env []) no_pods_yet events_tame s \<and> map_of (sc_podStates (cache_of s)) ''a'' = Some st \<and>
     assumed (cache_of s) ''a'' \<and> ps_deadline st = None \<and> sd_cycle s = Idle \<and> sd_bindings s = [(a, WaitingOnPermit)] \<and>
     GetPodKey (at_pod a) = Some ''a'' \<and> p_NodeName (at_pod a) = ''worker'' \<and> run_binding (small_env []) 0 5 s \<noteq> None"
proof -
  obtain s a where r: "sched_reach (small_env []) no_pods_yet events_tame s" "sd_cycle s = Permitting a" "small_assumed s a"
    using small_run by blast
  let ?s = "s\<lparr>sd_cycle := Idle, sd_bindings := [(a, WaitingOnPermit)]\<rparr>"
  have "run_cycle (small_env []) [0] (\<lambda>_ _. 0) id (\<lambda>_ ps. ps) 0 s = Some (Inr ?s)"
    using r(2,3) by (simp add: run_cycle_def permit_pod_def RunPermitPlugins_def small_assumed_def Let_def IsSuccess_def Code_def same_world)
  then have reach: "sched_reach (small_env []) no_pods_yet events_tame ?s" by (rule cycle_step [OF r(1)]) simp
  have c: "cache_of ?s = cache_of s" by simp
  have st: "map_of (sc_podStates (cache_of ?s)) ''a'' = Some (new_state (at_pod a))" "assumed (cache_of ?s) ''a''" "sd_waitingPods ?s = []"
    "ps_deadline (new_state (at_pod a)) = None" "p_NodeName (at_pod a) = ''worker''"
    using r(3) by (simp_all add: small_assumed_def new_state_def c assumed_def)
  from assumed_pods_are_attempted [OF reach _ st(1,2,4)]
  have "GetPodKey (at_pod a) = Some ''a''" "run_binding (small_env []) 0 5 ?s = None \<longrightarrow> waits_on_permit (a, WaitingOnPermit) ?s"
    by auto
  moreover have "\<not> waits_on_permit (a, WaitingOnPermit) ?s" using st(3) by (simp add: waits_on_permit_def)
  ultimately show ?thesis using reach st(1,2,4,5) by (intro exI [of _ ?s] exI [of _ "new_state (at_pod a)"] exI [of _ a]) simp
qed

subsection \<open>A node that returns\<close>

text \<open>On a node that has no pods a pod cannot be forgotten: what was assumed stays assumed.\<close>

lemma forget_on_empty_node:
  assumes "GetPodKey p = Some k" "map_of (sc_podStates s) k = Some st" "p_NodeName (ps_pod st) = p_NodeName p" "assumed s k"
    and "info_of s (p_NodeName p) = Some i" "ni_pods i = []" "ni_node i = Some nd"
  shows "\<exists>s'. ForgetPod g p s = Inr (Some (InfoError NoSuchPod), s') \<and> pods_of s' = pods_of s"
proof -
  obtain c where c: "map_of (sc_nodes s) (p_NodeName p) = Some c" "ce_info c = i" using assms(5) by (auto simp: info_of_def)
  obtain i' where "ni_RemovePod g p (sc_generation s, i) = Inr (Some NoSuchPod, sc_generation s, i')"
    using RemovePod_empty [OF assms(1,6,7)] by blast
  then obtain s' where r: "removePod g p s = Inr (Some (InfoError NoSuchPod), s')" using c by (simp add: removePod_def)
  then have "ForgetPod g p s = Inr (Some (InfoError NoSuchPod), s')" using assms(1-4) by (simp add: ForgetPod_def)
  then show ?thesis using removePod_frame [OF r] by blast
qed

lemma node_returns:
  assumes "info_of s (n_Name nd) \<noteq> None"
  shows "\<exists>i. info_of (AddNode g nd (snd (RemoveNode nd s))) (n_Name nd) = Some i \<and> ni_pods i = [] \<and> ni_node i = Some nd"
proof -
  have "map_of (sc_nodes s) (n_Name nd) \<noteq> None" using assms by (auto simp: info_of_def)
  then have "info_of (snd (RemoveNode nd s)) (n_Name nd) = None"
    by (auto simp: RemoveNode_def Let_def removeNodeInfoFromList_info split: prod.split bool.split)
  then show ?thesis by (rule AddNode_new_info)
qed

definition refuse :: "string \<times> (node_resource option \<times> pod) permit_method" where
  "refuse = (''Refuse'', \<lambda>_ _ x. ((Some (NewStatus Unschedulable [''refused'']), 0), x))"

text \<open>The next step of the scheduling goroutine.\<close>

definition small_step where
  "small_step env s = run_event env (ScheduleStep [0] (\<lambda>_ _. 0) id (\<lambda>_ ps. ps) 0) s"

definition refusal :: failure where
  "refusal = \<lparr>fa_error = PlainError (Message (Some (NewStatus Unschedulable
      [''rejected pod '' @ quoted [] @ '' by permit plugin '' @ quoted ''Refuse'' @ '': '' @ Message (Some (NewStatus Unschedulable [''refused'']))]))),
    fa_reason = PodReasonUnschedulable, fa_unreserve = UnreserveFirst\<rparr>"

lemma refused_step:
  assumes "sd_cycle s = Permitting a" "at_profile a = []" "p_Name (at_pod a) = []" "sd_world s = small_pod"
  shows "small_step (small_env [refuse]) s = Some (Inr (s\<lparr>sd_cycle := Rejecting a refusal\<rparr>))"
  using assms by (simp add: small_step_def run_cycle_def permit_pod_def RunPermitPlugins_def refuse_def
      IsSuccess_def IsUnschedulable_def Code_def NewStatus_def Let_def refusal_def)

lemma forget_step:
  assumes "sd_cycle s = Rejecting a f" "ForgetPod slo_gates (at_pod a) (cache_of s) = Inr (e, c)"
  shows "small_step (small_env ps) s = Some (Inr ((set_cache c s)\<lparr>sd_cycle := Recording a f\<rparr>))"
  using assms by (simp add: small_step_def run_cycle_def forget_def on_cache_logged_def and_then_def)

lemma record_step:
  assumes "sd_cycle s = Recording a refusal" "at_profile a = []" "gs_schedulingQueue (sd_Algorithm s) = Some q" "sd_world s = small_pod"
  shows "small_step (small_env ps) s = Some (Inr (s\<lparr>sd_retries := sd_retries s @ [(at_info a, sq_schedulingCycle q)],
    sd_world := unscheduled PodReasonUnschedulable small_pod, sd_cycle := Idle\<rparr>))"
  using assms by (simp add: small_step_def run_cycle_def record_failure_def refusal_def unreserve_def recordSchedulingFailure_def
      default_error_func_def and_then_def RunUnreservePlugins_def run_notified_def)

lemma unexpired:
  assumes "sc_podStates c = [(k, st)]" "sc_assumedPods c = [(k, True)]" "ps_deadline st = None" "\<not> ps_bindingFinished st"
  shows "cleanupAssumedPods g now c = Inr c"
  using assms by (simp add: cleanupAssumedPods_def)

text \<open>An assumed pod that no attempt holds: no cleanup expires it, and the pod with its new status is neither skipped nor
  assumed again.\<close>

lemma stranded:
  fixes p :: pod
  defines "p \<equiv> small_pod\<lparr>p_NodeName := ''worker''\<rparr>" and "u \<equiv> unscheduled PodReasonUnschedulable small_pod"
  assumes c: "sc_podStates c = [(''a'', new_state p)]" "sc_assumedPods c = [(''a'', True)]"
  shows "map_of (sc_podStates c) ''a'' = Some (new_state p)" "assumed c ''a''" "cleanupAssumedPods slo_gates now c = Inr c"
    "\<not> skipPodSchedule c u" "AssumePod slo_gates (u\<lparr>p_NodeName := ''worker''\<rparr>) c = Inr (Some (InCache ''a''), c)"
proof -
  show "cleanupAssumedPods slo_gates now c = Inr c" by (rule unexpired [OF c]) (simp_all add: new_state_def)
  show "\<not> skipPodSchedule c u"
    using c by (simp add: skipPodSchedule_def skipPodUpdate_def IsAssumedPod_def cache_GetPod_def GetPodKey_def new_state_def
        u_def p_def unscheduled_def stripped_def assumed_def sched_pod_def empty_pod_def)
  show "AssumePod slo_gates (u\<lparr>p_NodeName := ''worker''\<rparr>) c = Inr (Some (InCache ''a''), c)"
    using c by (simp add: AssumePod_def GetPodKey_def unscheduled_def u_def)
qed (simp_all add: c assumed_def)

text \<open>The events of the node, one after the other, leave the pod assumed and the node without it.\<close>

lemma node_removed_and_added:
  assumes "homed (cache_of s)" "small_assumed s a" and that: "en_gates env = slo_gates"
  shows "\<exists>s1 s2 c. run_event env (NodeEvent (OnDelete (slo_node 100))) s = Some (Inr s1) \<and>
     run_event env (NodeEvent (OnAdd (slo_node 100))) s1 = Some (Inr s2) \<and>
     sd_cycle s2 = sd_cycle s \<and> small_assumed s2 a \<and>
     ForgetPod slo_gates (at_pod a) (cache_of s2) = Inr (Some (InfoError NoSuchPod), c) \<and> pods_of c = pods_of (cache_of s2)"
proof -
  let ?nd = "slo_node 100" and ?k = "''a''"
  define c1 where "c1 = snd (RemoveNode ?nd (cache_of s))"
  define c2 where "c2 = AddNode slo_gates ?nd c1"
  let ?s2 = "later MoveAll (set_cache c2 (set_cache c1 s))"
  have at: "at_pod a = small_pod\<lparr>p_NodeName := ''worker''\<rparr>" "map_of (sc_podStates (cache_of s)) ?k = Some (new_state (at_pod a))"
    "assumed (cache_of s) ?k"
    using assms(2) by (simp_all add: small_assumed_def assumed_def)
  have ev: "run_event env (NodeEvent (OnDelete ?nd)) s = Some (Inr (set_cache c1 s))"
    "run_event env (NodeEvent (OnAdd ?nd)) (set_cache c1 s) = Some (Inr ?s2)"
    using that by (simp_all add: deleteNodeFromCache_def c1_def addNodeToCache_def c2_def)
  have "counted_on (cache_of s) ?k (p_NodeName (ps_pod (new_state (at_pod a))))" using assms(1) at(2) unfolding homed_def by blast
  then have "info_of (cache_of s) (n_Name ?nd) \<noteq> None" by (auto simp: counted_on_def at(1) new_state_def)
  then obtain i where i: "info_of c2 ''worker'' = Some i" "ni_pods i = []" "ni_node i = Some ?nd"
    using node_returns [of "cache_of s" ?nd slo_gates] by (auto simp: c1_def c2_def)
  have p2: "pods_of c2 = pods_of (cache_of s)" by (simp add: c1_def c2_def node_ops_frame)
  then have st: "map_of (sc_podStates c2) ?k = Some (new_state (at_pod a))" "assumed c2 ?k"
    using at(2,3) keys_of [OF p2] by (simp_all add: assumed_def)
  obtain c where c: "ForgetPod slo_gates (at_pod a) c2 = Inr (Some (InfoError NoSuchPod), c)" "pods_of c = pods_of c2"
    using forget_on_empty_node [OF _ st(1) _ st(2), of "at_pod a" i ?nd slo_gates] i at(1) by (auto simp: GetPodKey_def new_state_def)
  have s2: "cache_of ?s2 = c2" "sd_cycle ?s2 = sd_cycle s"
    by (simp_all add: later_def cache_of_def set_cache_def)
  moreover have "small_assumed ?s2 a"
    using assms(2) keys_of [OF p2] by (simp add: small_assumed_def later_def cache_of_def set_cache_def)
  ultimately show ?thesis using ev c by (intro exI [of _ "set_cache c1 s"] exI [of _ ?s2] exI [of _ c]) simp
qed

text \<open>
  C27: A pod is assumed on its node and waits for the permit plugins.  The node is removed from the cache and added
  again, and a permit plugin then rejects the pod.  \<open>ForgetPod\<close> fails, because the new entry of the node does not
  hold the pod, and keeps the assumption.  When the failure has been recorded in the status of the pod no attempt is
  in flight, yet the pod is assumed as before, without a deadline, and no cleanup at whatever time expires it.  The
  pod as the API server has it now is not skipped when it is taken from the queue again, but it can no longer be
  assumed on the node: \<open>AssumePod\<close> answers that the pod is in the cache.
\<close>

theorem returning_node_strands_pod:
  "\<exists>s0 s1 s2 s3 s4 s5 a f st. sched_reach (small_env [refuse]) no_pods_yet events_tame s0 \<and>
     sd_cycle s0 = Permitting a \<and> at_pod a = small_pod\<lparr>p_NodeName := ''worker''\<rparr> \<and>
     map_of (sc_podStates (cache_of s0)) ''a'' = Some st \<and> assumed (cache_of s0) ''a'' \<and> ps_deadline st = None \<and>
     run_event (small_env [refuse]) (NodeEvent (OnDelete (slo_node 100))) s0 = Some (Inr s1) \<and>
     run_event (small_env [refuse]) (NodeEvent (OnAdd (slo_node 100))) s1 = Some (Inr s2) \<and>
     small_step (small_env [refuse]) s2 = Some (Inr s3) \<and> sd_cycle s3 = Rejecting a f \<and>
     small_step (small_env [refuse]) s3 = Some (Inr s4) \<and> sd_cycle s4 = Recording a f \<and>
     ForgetPod slo_gates (at_pod a) (cache_of s3) = Inr (Some (InfoError NoSuchPod), cache_of s4) \<and>
     small_step (small_env [refuse]) s4 = Some (Inr s5) \<and> in_flight s5 = [] \<and>
     map_of (sc_podStates (cache_of s5)) ''a'' = Some st \<and> assumed (cache_of s5) ''a'' \<and>
     (\<forall>now. cleanupAssumedPods slo_gates now (cache_of s5) = Inr (cache_of s5)) \<and>
     sd_world s5 = unscheduled PodReasonUnschedulable small_pod \<and> \<not> skipPodSchedule (cache_of s5) (sd_world s5) \<and>
     AssumePod slo_gates ((sd_world s5)\<lparr>p_NodeName := ''worker''\<rparr>) (cache_of s5) = Inr (Some (InCache ''a''), cache_of s5)"
proof -
  let ?env = "small_env [refuse]" and ?k = "''a''"
  obtain s0 a where s0: "sched_reach ?env no_pods_yet events_tame s0" "sd_cycle s0 = Permitting a" "small_assumed s0 a"
    using small_run by blast
  have "homed (cache_of s0)" using reach_assumed [OF s0(1)] by (simp add: assumed_inv_def)
  then obtain s1 s2 c where s2: "run_event ?env (NodeEvent (OnDelete (slo_node 100))) s0 = Some (Inr s1)"
     "run_event ?env (NodeEvent (OnAdd (slo_node 100))) s1 = Some (Inr s2)" "sd_cycle s2 = Permitting a" "small_assumed s2 a"
     "ForgetPod slo_gates (at_pod a) (cache_of s2) = Inr (Some (InfoError NoSuchPod), c)" "pods_of c = pods_of (cache_of s2)"
    using node_removed_and_added [OF _ s0(3), of ?env] s0(2) by (auto simp only: small_env_fields)
  note as = s2(4) [unfolded small_assumed_def]
  obtain q where q: "gs_schedulingQueue (sd_Algorithm s2) = Some q" using as by blast
  define s3 where "s3 = s2\<lparr>sd_cycle := Rejecting a refusal\<rparr>"
  define s4 where "s4 = (set_cache c s3)\<lparr>sd_cycle := Recording a refusal\<rparr>"
  define s5 where "s5 = s4\<lparr>sd_retries := sd_retries s4 @ [(at_info a, sq_schedulingCycle q)],
    sd_world := unscheduled PodReasonUnschedulable small_pod, sd_cycle := Idle\<rparr>"
  have step3: "small_step ?env s2 = Some (Inr s3)" unfolding s3_def by (rule refused_step) (use s2(3) as in simp_all)
  have step4: "small_step ?env s3 = Some (Inr s4)"
    unfolding s4_def by (rule forget_step) (simp_all add: s3_def s2(5))
  have step5: "small_step ?env s4 = Some (Inr s5)"
    unfolding s5_def by (rule record_step) (use as q in \<open>simp_all add: s4_def s3_def set_cache_def\<close>)
  have start: "map_of (sc_podStates (cache_of s0)) ?k = Some (new_state (at_pod a))" "assumed (cache_of s0) ?k"
    "at_pod a = small_pod\<lparr>p_NodeName := ''worker''\<rparr>" "ps_deadline (new_state (at_pod a)) = None"
    using s0(3) by (simp_all add: small_assumed_def assumed_def new_state_def)
  have c4: "cache_of s4 = c" "cache_of s5 = c" "cache_of s3 = cache_of s2" by (simp_all add: s5_def s4_def s3_def)
  have c: "sc_podStates c = [(?k, new_state (at_pod a))]" "sc_assumedPods c = [(?k, True)]" using as keys_of [OF s2(6)] by simp_all
  note left = stranded [OF c [unfolded start(3)], folded start(3)]
  have idle: "in_flight s5 = []" "sd_world s5 = unscheduled PodReasonUnschedulable small_pod"
    using as by (simp_all add: s5_def s4_def s3_def set_cache_def in_flight_def)
  have cycles: "sd_cycle s3 = Rejecting a refusal" "sd_cycle s4 = Recording a refusal" by (simp_all add: s3_def s4_def)
  show ?thesis
    by (rule exI [of _ s0], rule exI [of _ s1], rule exI [of _ s2], rule exI [of _ s3], rule exI [of _ s4], rule exI [of _ s5],
        rule exI [of _ a], rule exI [of _ refusal], rule exI [of _ "new_state (at_pod a)"], unfold c4 idle, intro conjI allI)
       (fact s0 s2 start step3 step4 step5 cycles left refl)+
qed

end
