(* ===== verification/Spec2Isabelle.thy ===== *)
theory Spec2Isabelle
  imports AgentInterleaving KubeletSync QuantityRoundtrip SchedQueueOps CpuSafety PreemptionVictims PreemptionChoice SchedulerRuns
begin

text \<open>
  DepCon (\<open>src/implementation/NeCon_k8s\<close>, called K below) is Kubernetes 1.18 with network bandwidth as a
  resource of a pod.  A pod asks for \<open>example.com/SLO\<close>; the scheduler places it on a node that has enough of
  it left, and the kubelet of that node tells a network agent about the pod, its cgroup and its processes, which
  the agent writes, with the bandwidth to be reached, to the entry of the pod's virtual interface below
  \<open>/proc/oslab\<close>, from where a kernel module (\<open>src/implementation/Stella_con\<close>) schedules packets.  The
  development models both halves: the decision on which node a pod runs, and what the kubelet does with it.

  \<^bold>\<open>The program's parts and where they are modelled.\<close>

  \<^enum> \<^emph>\<open>The language.\<close> \<open>GoPrelude\<close> has Go's fixed-width integers as \<open>int\<close> with the wrap-around written out,
    truncating division, list updates, maps as association lists and the panic as a value.  \<open>GoStrconv\<close> and
    \<open>GoStrings\<close> have the functions of packages strconv, strings and path that the program calls.
  \<^enum> \<^emph>\<open>Quantities\<close> (K/staging/src/k8s.io/apimachinery/pkg/api/resource).  \<open>QuantityMath\<close> is math.go and
    scale_int.go, \<open>QuantityAmount\<close> amount.go and what it calls of the decimal library, \<open>Quantity\<close> suffix.go and
    quantity.go.  \<open>QuantityLaws\<close> shows that the arithmetic is that of the rationals a quantity denotes, in
    either representation, and states this as the locale \<open>amount_arith\<close> on which the sums over containers rest;
    \<open>QuantityRoundtrip\<close> that what String prints is parsed to the same value.
  \<^enum> \<^emph>\<open>Pods and names.\<close> \<open>Pods\<close> holds the fields of the API objects that are read, \<open>PodResources\<close> the sums over
    containers, the QoS class and the cgroup parameters, \<open>ResourceNames\<close> the classes of resource names,
    \<open>LabelSelectors\<close> label requirements and selectors.
  \<^enum> \<^emph>\<open>The network agent\<close> (K/pkg/kubelet/necon/necon.go).  \<open>Necon\<close> is the singleton with its four hooks; the
    state \<open>necon\<close> has the fields of the struct and the files of the machine are a map from paths to contents.
    \<open>AgentInterleaving\<close> has the calls of concurrently synced pods, interleaved access by access since the agent has
    no lock, with what holds of every interleaving and of those whose calls do not overlap (C1, C2); a pod
    that another overtakes gets no goal even then.  \<open>AgentTraces\<close> has whole calls one after the other: when the syncs
    do not overlap every pod's goal and processes reach its own interface (C3, C4).
  \<^enum> \<^emph>\<open>The kubelet's sync of a pod.\<close> \<open>KubeletSync\<close> is syncPod, which announces the pod to the agent and
    creates its cgroup (C5 to C7), \<open>RuntimeSync\<close> the SyncPod of the runtime manager, which starts the containers
    and calls the agent for each (a refinement of the sequence of hooks, C8, C9), \<open>PodActions\<close> the decision
    which containers to start and to kill (C10), \<open>Backoff\<close> the delays between restarts (C11).
  \<^enum> \<^emph>\<open>Cgroups\<close> (K/pkg/kubelet/cm).  \<open>CgroupNames\<close> has the names in the forms of the two drivers, which are the
    interpretations of the locale \<open>cgroup_naming\<close>, \<open>CgroupManager\<close> the manager with the hook that redirects the
    agent, \<open>PodContainers\<close> the cgroups of pods and QoS classes (C12, C13).
  \<^enum> \<^emph>\<open>CPUs\<close> (K/pkg/kubelet/cm/cpumanager and topologymanager).  \<open>CpuSet\<close>, \<open>CpuTopology\<close> and \<open>Bitmask\<close> are the
    data and the choice of CPUs, \<open>CpuState\<close> the state and the file it is kept in, \<open>CpuPolicy\<close> the static policy,
    \<open>CpuManager\<close> the manager and its goroutine's reconciliation, \<open>TopologyManager\<close> hints and their merging.
    \<open>CpuTopologyLaws\<close> shows that the assignment is exact (locale \<open>cpu_part\<close>, once for sockets and once for
    cores), \<open>CpuPolicyLaws\<close> and \<open>CpuManagerLaws\<close> what every operation keeps (locale \<open>policy_contract\<close>: the
    manager touches the state through the policy only), \<open>CpuAdmission\<close> and \<open>CpuSafety\<close> their composition
    (C14 to C19).
  \<^enum> \<^emph>\<open>The scheduler's view of the cluster\<close> (K/pkg/scheduler).  \<open>NodeInfo\<close> is nodeinfo, \<open>NodeTree\<close> the order in
    which nodes are visited, \<open>SchedCache\<close> the cache with its linked list, \<open>SchedSnapshot\<close> its incremental
    snapshot.  \<open>SchedCacheLaws\<close> is the refinement of the states of a pod drawn in interface.go, \<open>SchedCacheList\<close>
    the list the pointers represent, \<open>SchedCachePods\<close> where pods are counted, \<open>SchedCacheTracking\<close> that every
    change is seen by the next snapshot, \<open>SchedSnapshotLaws\<close> that the incremental snapshot is the full copy.
  \<^enum> \<^emph>\<open>The scheduling queue.\<close> \<open>GoHeap\<close> is the heap with container/heap, \<open>GoHeapLaws\<close> its contract as a priority
    queue over any order that meets the locale \<open>queue_order\<close>; \<open>SchedQueue\<close> is PriorityQueue, \<open>SchedQueueLaws\<close>
    its refinement to a set of waiting pods, \<open>SchedQueueOps\<close> the properties of its operations.
  \<^enum> \<^emph>\<open>The scheduling decision.\<close> \<open>NodeResources\<close> is the filter that keeps the bandwidth of a node within its
    capacity, \<open>NodeScoring\<close> the scores, among them the one DepCon configures in \<open>src/implementation/depcon.conf\<close>.
  \<^enum> \<^emph>\<open>The choice of a node.\<close> \<open>SchedFramework\<close> is the framework with its plugins as records of functions,
    \<open>GenericScheduler\<close> the Schedule of K/pkg/scheduler/core/generic_scheduler.go with the search that workers do
    in parallel, \<open>Preemption\<close> its Preempt.  \<open>GenericSchedulerLaws\<close> shows that the search finds feasible nodes in
    whatever order the workers take them, \<open>HostSelection\<close> that the draws among the best are fair,
    \<open>ScheduleSafety\<close> that a host that is suggested has room for the pod, \<open>PreemptionVictims\<close> that the victims on
    a node are enough and needed (locale \<open>preemption_contract\<close>, met by \<open>NodeResourcesFit\<close>), \<open>PreemptionChoice\<close>
    that the node is the one with the least harm (C20 to C25).
  \<^enum> \<^emph>\<open>The scheduler at work.\<close> \<open>SchedBinding\<close> has the extension points from Reserve to PostBind and the pods that
    wait on permit, \<open>SchedulerLoop\<close> the state of Scheduler (K/pkg/scheduler/scheduler.go), the steps of scheduleOne
    and of the goroutines that bind, \<open>SchedulerEvents\<close> the handlers of eventhandlers.go, the timers, and
    \<open>run_event\<close>, one step of whatever the scheduler runs; a run is any sequence of such steps.  \<open>SchedulerSteps\<close> shows what the
    steps leave alone, \<open>AssumedPods\<close> that in every run an assumption belongs to an attempt that is going on, unless
    nodes with pods are removed, \<open>SchedulerRuns\<close> runs on a small cluster, one of which strands a pod
    (C26, C27).

  \<^bold>\<open>How code is translated.\<close>  A struct is a record and an enumeration a datatype; a method with a pointer
  receiver takes and returns the receiver.  A panic (nil dereference, index out of range, klog.Fatalf) is the left
  value of a sum, an error an option or a value of its own, and every early return is a branch.  A lock that a
  method holds throughout makes it one step.  A Go map is an association list where the order in which it is
  visited could be seen, so that theorems hold for every order, and a map or a set elsewhere.  Clock readings,
  random draws, answers of the container runtime, the API server and vendored libraries are arguments
  (\<open>probe_env\<close>, \<open>runtime_env\<close>, \<open>kubelet_env\<close>, \<open>cgroup_lib\<close>, \<open>cpu_env\<close>).  Log lines, events and metrics are
  left out, except what the agent prints.

  \<^bold>\<open>Bounds, loops and fuel.\<close>  Sums and products on int64 and int32 go through \<open>wrap64\<close> and \<open>wrap32\<close>; masks are
  64-bit words; int is 64 bits wide.  No loop has fuel.  Loops that need not end are partial functions with
  \<open>None\<close> for not returning: \<open>nt_next_loop\<close>, \<open>copy_updated\<close> and \<open>sq_flushBackoffQCompleted\<close>, which are
  shown to return in all states the operations reach, and \<open>add_range\<close>, which does not return for a range up to the
  largest int.  The rounding of \<open>NodeScoring\<close> is that of the exact quotient, which the code's float64 agrees with
  below \<open>2 ^ 52\<close>.

  \<^bold>\<open>Not modelled.\<close>  The kernel module is C.  Of the kubelet: the sync loop with its workers, the life-cycle event
  generator, status manager, probes, volumes, images, eviction, devices and the servers, which hand pods to the
  modelled part or answer it, and mostly drive other processes.  Of the scheduler: construction and configuration,
  and the plugins for volumes, affinity, ports and taints.
  \<open>NodeResourcesBalancedAllocation\<close> is a variance in float64.  API server, controllers, proxy, command-line
  tools, the client library, and the generated conversion and copying code are Kubernetes as released; DepCon does
  not touch them.  The necon.go at the top of K is a draft of the agent that no package includes.
\<close>

end
